(* ===== verification/Prelude.thy ===== *)
theory Prelude
  imports Main "HOL-Library.Word"
begin

text \<open>
  Shared vocabulary of the development.  It holds the machine integer types of the firmware, byte
  buffers with the two operations every codec uses (overwrite a run of bytes at an offset, read a
  run of bytes at an offset), little- and big-endian fields, the sentinel tests on identities, the
  CRC-32 loop, the SHA-256 provider interface and C pointers with an address (so that the NULL and
  overlap guards of the sources can be stated).  The lemmas here are the automation of the codec
  proofs: a read at numeral offsets through a chain of writes at numeral offsets is decided by
  \<open>simp add: buf\<close>.
\<close>

unbundle bit_operations_syntax

type_synonym u8 = "8 word"
type_synonym u16 = "16 word"
type_synonym u32 = "32 word"
type_synonym u64 = "64 word"
type_synonym bytes = "8 word list"

abbreviation INT64_MAX :: u64 where "INT64_MAX \<equiv> 0x7fffffffffffffff"
abbreviation UINT64_MAX :: u64 where "UINT64_MAX \<equiv> 0xffffffffffffffff"
abbreviation INT32_MAX :: u32 where "INT32_MAX \<equiv> 0x7fffffff"
abbreviation UINT32_MAX :: u32 where "UINT32_MAX \<equiv> 0xffffffff"

named_theorems buf \<open>reads through writes on byte buffers\<close>

section \<open>Buffers\<close>

text \<open>\<open>blit off bs out\<close> is a copy loop \<open>out[off+i] = bs[i]\<close>.  It never changes the length: a
  store past the end of the destination is dropped, and the length lemmas of each component show
  that none of the modelled stores is past the end.\<close>

fun blit :: "nat \<Rightarrow> 'a list \<Rightarrow> 'a list \<Rightarrow> 'a list" where
  "blit off [] out = out"
| "blit off (b # bs) out = blit (Suc off) bs (out[off := b])"

definition part :: "nat \<Rightarrow> nat \<Rightarrow> 'a list \<Rightarrow> 'a list" where
  "part off n p = take n (drop off p)"

lemma length_blit [simp]: "length (blit off bs out) = length out"
  by (induction off bs out rule: blit.induct) auto

lemma nth_blit:
  "i < length out \<Longrightarrow>
   blit off bs out ! i = (if off \<le> i \<and> i < off + length bs then bs ! (i - off) else out ! i)"
proof (induction off bs out rule: blit.induct)
  case (1 off out)
  then show ?case by auto
next
  case (2 off b bs out)
  then have "blit (Suc off) bs (out[off := b]) ! i =
      (if Suc off \<le> i \<and> i < Suc off + length bs then bs ! (i - Suc off) else out[off := b] ! i)"
    by simp
  with 2(2) show ?case
    by (cases "i = off") (auto simp: nth_Cons' Suc_diff_Suc)
qed

lemma length_part [simp]: "length (part off n p) = min n (length p - off)"
  by (simp add: part_def)

lemma nth_part: "i < n \<Longrightarrow> off + i < length p \<Longrightarrow> part off n p ! i = p ! (off + i)"
  by (simp add: part_def)

lemma blit_append:
  assumes "off + length bs \<le> length out"
  shows "blit off bs out = take off out @ bs @ drop (off + length bs) out"
  by (rule nth_equalityI) (use assms in \<open>auto simp: nth_blit nth_append\<close>)

lemma part_blit_same [buf]:
  "off + length bs \<le> length out \<Longrightarrow> n = length bs \<Longrightarrow> part off n (blit off bs out) = bs"
  by (simp add: blit_append part_def)

lemma part_blit_before [buf]:
  "off' + n \<le> off \<Longrightarrow> part off' n (blit off bs out) = part off' n out"
  by (rule nth_equalityI) (auto simp: nth_part nth_blit)

lemma part_blit_after [buf]:
  "off + length bs \<le> off' \<Longrightarrow> part off' n (blit off bs out) = part off' n out"
  by (rule nth_equalityI) (auto simp: nth_part nth_blit)

lemma part_blit_within [buf]:
  "off \<le> off' \<Longrightarrow> off' + n \<le> off + length bs \<Longrightarrow> off + length bs \<le> length out \<Longrightarrow>
   part off' n (blit off bs out) = part (off' - off) n bs"
  by (rule nth_equalityI) (auto simp: nth_part nth_blit)

lemma nth_blit_same [buf]:
  "off \<le> i \<Longrightarrow> i < off + length bs \<Longrightarrow> i < length out \<Longrightarrow> blit off bs out ! i = bs ! (i - off)"
  by (simp add: nth_blit)

lemma nth_blit_before [buf]: "i < off \<Longrightarrow> i < length out \<Longrightarrow> blit off bs out ! i = out ! i"
  by (simp add: nth_blit)

lemma nth_blit_after [buf]:
  "off + length bs \<le> i \<Longrightarrow> i < length out \<Longrightarrow> blit off bs out ! i = out ! i"
  by (simp add: nth_blit)

lemma part_blit_prefix:
  "off + length bs \<le> n \<Longrightarrow> part 0 n (blit off bs out) = blit off bs (part 0 n out)"
  by (rule nth_equalityI) (auto simp: nth_part nth_blit)

lemma part_replicate [buf]: "off + n \<le> m \<Longrightarrow> part off n (replicate m x) = replicate n x"
  by (simp add: part_def)

lemma part_all [buf]: "length p = n \<Longrightarrow> part 0 n p = p"
  by (simp add: part_def)

lemma part_part [buf]: "a + m \<le> n \<Longrightarrow> part a m (part off n p) = part (off + a) m p"
  by (simp add: part_def drop_take add.commute)

lemma part_add:
  "part a (n + m) p = part a n p @ part (a + n) m p"
  by (simp add: part_def take_add drop_drop add.commute [of a n])

lemma blit_app: "blit off (xs @ ys) p = blit (off + length xs) ys (blit off xs p)"
  by (induction off xs p rule: blit.induct) simp_all

declare blit.simps(2) [simp del]

text \<open>A buffer is determined by consecutive fields that cover it.\<close>

fun same_fields :: "nat \<Rightarrow> nat list \<Rightarrow> 'a list \<Rightarrow> 'a list \<Rightarrow> bool" where
  "same_fields a [] p q = True"
| "same_fields a (n # ns) p q = (part a n p = part a n q \<and> same_fields (a + n) ns p q)"

lemma same_fields_part:
  "same_fields a ns p q \<Longrightarrow> part a (sum_list ns) p = part a (sum_list ns) q"
  by (induction ns arbitrary: a) (simp_all add: part_add, simp add: part_def)

lemma eq_by_fields:
  assumes "same_fields 0 ns p q" and "length p = sum_list ns" and "length q = sum_list ns"
  shows "p = q"
  using same_fields_part[OF assms(1)] assms(2,3) by (simp add: part_all)

section \<open>Little- and big-endian fields\<close>

text \<open>\<open>put\<^sub>n\<close>: byte \<open>i\<close> is \<open>(uint8_t)(v >> 8*i)\<close>; \<open>get\<^sub>n\<close>: the OR of \<open>(uintN_t)p[i] << 8*i\<close>.\<close>

fun le_bytes :: "nat \<Rightarrow> 'a::len word \<Rightarrow> bytes" where
  "le_bytes 0 v = []"
| "le_bytes (Suc n) v = ucast v # le_bytes n (drop_bit 8 v)"

fun le_val :: "bytes \<Rightarrow> 'a::len word" where
  "le_val [] = 0"
| "le_val (b # bs) = ucast b OR push_bit 8 (le_val bs)"

definition put16 :: "nat \<Rightarrow> u16 \<Rightarrow> bytes \<Rightarrow> bytes" where "put16 off v out = blit off (le_bytes 2 v) out"
definition put32 :: "nat \<Rightarrow> u32 \<Rightarrow> bytes \<Rightarrow> bytes" where "put32 off v out = blit off (le_bytes 4 v) out"
definition put64 :: "nat \<Rightarrow> u64 \<Rightarrow> bytes \<Rightarrow> bytes" where "put64 off v out = blit off (le_bytes 8 v) out"

definition get16 :: "nat \<Rightarrow> bytes \<Rightarrow> u16" where "get16 off p = le_val (part off 2 p)"
definition get32 :: "nat \<Rightarrow> bytes \<Rightarrow> u32" where "get32 off p = le_val (part off 4 p)"
definition get64 :: "nat \<Rightarrow> bytes \<Rightarrow> u64" where "get64 off p = le_val (part off 8 p)"

lemma length_le_bytes [simp]: "length (le_bytes n v) = n"
  by (induction n arbitrary: v) auto

lemma length_puts [simp]:
  "length (put16 off a out) = length out" "length (put32 off b out) = length out"
  "length (put64 off c out) = length out"
  by (simp_all add: put16_def put32_def put64_def)

lemma bit_le_val:
  "bit (le_val bs :: 'a::len word) i \<longleftrightarrow>
     i < LENGTH('a) \<and> i div 8 < length bs \<and> bit (bs ! (i div 8)) (i mod 8)"
proof (induction bs arbitrary: i)
  case Nil
  then show ?case by simp
next
  case (Cons b bs)
  show ?case
  proof (cases "i < 8")
    case True
    then show ?thesis by (auto simp: bit_or_iff bit_push_bit_iff bit_ucast_iff)
  next
    case False
    then have "i div 8 = Suc ((i - 8) div 8)" "i mod 8 = (i - 8) mod 8"
      by (simp_all add: le_div_geq le_mod_geq)
    moreover have "\<not> bit b i"
      using False bit_imp_le_length [of b i] by auto
    ultimately show ?thesis
      using False Cons.IH [of "i - 8"]
      by (auto simp: bit_or_iff bit_push_bit_iff bit_ucast_iff dest: bit_imp_le_length)
  qed
qed

lemma nth_le_bytes: "i < n \<Longrightarrow> le_bytes n v ! i = ucast (drop_bit (8 * i) v)"
proof (induction n arbitrary: i v)
  case 0
  then show ?case by simp
next
  case (Suc n)
  then show ?case by (cases i) (simp_all add: drop_bit_drop_bit add.commute)
qed

lemma le_val_le_bytes [simp]:
  assumes "LENGTH('a) \<le> 8 * n"
  shows "le_val (le_bytes n (v :: 'a::len word)) = v"
proof (rule bit_word_eqI)
  fix i assume i: "i < LENGTH('a)"
  with assms have "i div 8 < n" by auto
  then show "bit (le_val (le_bytes n v) :: 'a word) i = bit v i"
    using i by (simp add: bit_le_val nth_le_bytes bit_ucast_iff bit_drop_bit_eq)
qed

lemma le_bytes_inj [simp]:
  assumes "LENGTH('a) \<le> 8 * n"
  shows "le_bytes n (v :: 'a::len word) = le_bytes n w \<longleftrightarrow> v = w"
  using le_val_le_bytes [OF assms] by metis

lemma le_bytes_le_val:
  assumes "length bs = n" and "8 * n \<le> LENGTH('a)"
  shows "le_bytes n (le_val bs :: 'a::len word) = bs"
proof (rule nth_equalityI)
  show "length (le_bytes n (le_val bs :: 'a word)) = length bs" using assms by simp
  fix i assume "i < length (le_bytes n (le_val bs :: 'a word))"
  then have i: "i < n" by simp
  show "le_bytes n (le_val bs :: 'a word) ! i = bs ! i"
  proof (rule bit_word_eqI)
    fix k assume k: "k < LENGTH(8)"
    then show "bit (le_bytes n (le_val bs :: 'a word) ! i) k = bit (bs ! i) k"
      using i assms by (simp add: nth_le_bytes bit_ucast_iff bit_drop_bit_eq bit_le_val)
  qed
qed

lemma le_bytes_eq_iff:
  assumes "length bs = n" and "8 * n = LENGTH('a)"
  shows "le_val bs = (v :: 'a::len word) \<longleftrightarrow> bs = le_bytes n v"
proof
  assume "le_val bs = v"
  then show "bs = le_bytes n v" using assms le_bytes_le_val [of bs n, where 'a = 'a] by auto
next
  assume "bs = le_bytes n v"
  then show "le_val bs = v" using assms by simp
qed

text \<open>The collection below decides every fixed-offset little-endian field of the codecs.\<close>

lemma get_put [buf]:
  "off + 2 \<le> length out \<Longrightarrow> get16 off (put16 off a out) = a"
  "off + 4 \<le> length out \<Longrightarrow> get32 off (put32 off b out) = b"
  "off + 8 \<le> length out \<Longrightarrow> get64 off (put64 off c out) = c"
  by (simp_all add: get16_def put16_def get32_def put32_def get64_def put64_def buf)

lemma get_eq_iff:
  "off + 2 \<le> length p \<Longrightarrow> get16 off p = a \<longleftrightarrow> part off 2 p = le_bytes 2 a"
  "off + 4 \<le> length p \<Longrightarrow> get32 off p = b \<longleftrightarrow> part off 4 p = le_bytes 4 b"
  "off + 8 \<le> length p \<Longrightarrow> get64 off p = c \<longleftrightarrow> part off 8 p = le_bytes 8 c"
  by (simp_all add: get16_def get32_def get64_def le_bytes_eq_iff)

lemma le_val_le_bytes_take:
  "le_val (le_bytes n (v :: 'a::len word)) = take_bit (8 * n) v"
proof (rule bit_word_eqI)
  fix i assume i: "i < LENGTH('a)"
  have *: "i div 8 < n \<longleftrightarrow> i < 8 * n" by (simp add: less_mult_imp_div_less div_less_iff_less_mult mult.commute)
  show "bit (le_val (le_bytes n v) :: 'a word) i = bit (take_bit (8 * n) v) i"
  proof (cases "i div 8 < n")
    case True
    with i * show ?thesis by (simp add: bit_le_val nth_le_bytes bit_ucast_iff bit_drop_bit_eq bit_take_bit_iff)
  next
    case False
    with i * show ?thesis by (simp add: bit_le_val bit_take_bit_iff)
  qed
qed

lemma le_bytes_get [buf]:
  "off + 2 \<le> length p \<Longrightarrow> le_bytes 2 (get16 off p) = part off 2 p"
  "off + 4 \<le> length p \<Longrightarrow> le_bytes 4 (get32 off p) = part off 4 p"
  "off + 8 \<le> length p \<Longrightarrow> le_bytes 8 (get64 off p) = part off 8 p"
  by (simp_all add: get16_def get32_def get64_def le_bytes_le_val)

text \<open>Single-byte stores \<open>out[off] = v\<close>.\<close>

definition put8 :: "nat \<Rightarrow> u8 \<Rightarrow> bytes \<Rightarrow> bytes" where "put8 off v out = blit off [v] out"

lemma length_put8 [simp]: "length (put8 off v out) = length out"
  by (simp add: put8_def)

lemma part_1: "off < length p \<Longrightarrow> part off 1 p = [p ! off]"
  by (rule nth_equalityI) (auto simp: nth_part)

lemmas wire_defs = put8_def put16_def put32_def put64_def

text \<open>Loops that store or compare an array of 32-bit values.\<close>

fun put32s :: "nat \<Rightarrow> u32 list \<Rightarrow> bytes \<Rightarrow> bytes" where
  "put32s off [] p = p"
| "put32s off (v # vs) p = put32s (off + 4) vs (put32 off v p)"

definition le32s :: "u32 list \<Rightarrow> bytes" where "le32s vs = concat (map (le_bytes 4) vs)"

lemma length_le32s [simp]: "length (le32s vs) = 4 * length vs"
  by (induction vs) (simp_all add: le32s_def)

lemma put32s_blit [buf]: "put32s off vs p = blit off (le32s vs) p"
  by (induction vs arbitrary: off p) (simp_all add: le32s_def put32_def blit_app)

lemma le32s_inj: "le32s vs = le32s ws \<Longrightarrow> length vs = length ws \<Longrightarrow> vs = ws"
proof (induction vs arbitrary: ws)
  case Nil
  then show ?case by simp
next
  case (Cons v vs)
  then obtain w ws' where ws: "ws = w # ws'" by (cases ws) auto
  with Cons.prems have "le_bytes 4 v = le_bytes 4 w" "le32s vs = le32s ws'"
    by (simp_all add: le32s_def)
  moreover from this(1) have "v = w" by simp
  ultimately show ?case using Cons ws by simp
qed

lemma get32s_iff:
  assumes "off + 4 * length vs \<le> length p"
  shows "(\<forall>i<length vs. get32 (off + 4 * i) p = vs ! i) \<longleftrightarrow> part off (4 * length vs) p = le32s vs"
  using assms
proof (induction vs arbitrary: off)
  case Nil
  then show ?case by (simp add: le32s_def part_def)
next
  case (Cons v vs)
  have "(\<forall>i<length (v # vs). get32 (off + 4 * i) p = (v # vs) ! i) \<longleftrightarrow>
      get32 off p = v \<and> (\<forall>i<length vs. get32 (off + 4 + 4 * i) p = vs ! i)"
    by (simp add: All_less_Suc2 add.assoc)
  also have "\<dots> \<longleftrightarrow> part off 4 p = le_bytes 4 v \<and> part (off + 4) (4 * length vs) p = le32s vs"
    using Cons.IH [of "off + 4"] Cons.prems by (simp add: get_eq_iff)
  also have "\<dots> \<longleftrightarrow> part off (4 * length (v # vs)) p = le32s (v # vs)"
    using Cons.prems by (auto simp: part_add [of off 4] le32s_def)
  finally show ?case .
qed

text \<open>Big-endian: byte \<open>n-1-i\<close> is \<open>(uint8_t)(v >> 8*i)\<close>; reading shifts the accumulator left.\<close>

definition be_bytes :: "nat \<Rightarrow> 'a::len word \<Rightarrow> bytes" where
  "be_bytes n v = rev (le_bytes n v)"

definition be_val :: "bytes \<Rightarrow> 'a::len word" where
  "be_val bs = foldl (\<lambda>v b. push_bit 8 v OR ucast b) 0 bs"

lemma be_val_rev: "be_val bs = le_val (rev bs)"
  unfolding be_val_def
  by (induction bs rule: rev_induct) (simp_all add: or.commute)

lemma length_be_bytes [simp]: "length (be_bytes n v) = n"
  by (simp add: be_bytes_def)

lemma be_val_be_bytes [simp]:
  "LENGTH('a) \<le> 8 * n \<Longrightarrow> be_val (be_bytes n (v :: 'a::len word)) = v"
  by (simp add: be_val_rev be_bytes_def)

lemma be_bytes_be_val:
  "length bs = n \<Longrightarrow> 8 * n \<le> LENGTH('a) \<Longrightarrow> be_bytes n (be_val bs :: 'a::len word) = bs"
  by (simp add: be_val_rev be_bytes_def le_bytes_le_val)

lemma be_val_eq_iff:
  assumes "length bs = n" and "8 * n \<le> LENGTH('a)" and "take_bit (8 * n) v = v"
  shows "be_val bs = (v :: 'a::len word) \<longleftrightarrow> bs = be_bytes n v"
proof
  assume "be_val bs = v"
  then show "bs = be_bytes n v" using assms be_bytes_be_val [of bs n, where 'a = 'a] by auto
next
  assume "bs = be_bytes n v"
  then show "be_val bs = v" using assms by (simp add: be_val_rev be_bytes_def le_val_le_bytes_take)
qed

lemma le_val_eq_iff:
  assumes "length bs = n" and "8 * n \<le> LENGTH('a)" and "take_bit (8 * n) v = v"
  shows "le_val bs = (v :: 'a::len word) \<longleftrightarrow> bs = le_bytes n v"
proof
  assume "le_val bs = v"
  then show "bs = le_bytes n v" using assms le_bytes_le_val [of bs n, where 'a = 'a] by auto
next
  assume "bs = le_bytes n v"
  then show "le_val bs = v" using assms by (simp add: le_val_le_bytes_take)
qed

lemma take_bit_ucast_u32: "take_bit 32 (ucast (x :: u32) :: u64) = ucast x"
  by (rule bit_word_eqI) (auto simp: bit_take_bit_iff bit_ucast_iff dest: bit_imp_le_length)

lemma take_bit_full [simp]: "take_bit 64 (v :: u64) = v" "take_bit 32 (w :: u32) = w"
  by (simp_all add: take_bit_word_eq_self)

lemma word_and_63: "(x AND 63 = 0) = (unat x mod 64 = 0)" for x :: u32
proof -
  have "x AND 63 = take_bit 6 x" by (simp add: take_bit_eq_mask mask_eq_exp_minus_1)
  then have "unat (x AND 63) = unat x mod 64" by (simp add: take_bit_eq_mod unat_mod)
  then show ?thesis by (metis unat_eq_zero)
qed

lemma ucast_u32_u64_inj [simp]: "(ucast (x :: u32) :: u64) = ucast y \<longleftrightarrow> x = y"
proof
  assume eq: "(ucast x :: u64) = ucast y"
  show "x = y"
  proof (rule bit_word_eqI)
    fix n assume "n < LENGTH(32)"
    then show "bit x n = bit y n"
      using arg_cong [OF eq, of "\<lambda>w. bit w n"] by (simp add: bit_ucast_iff)
  qed
qed simp

lemma unat_u32_less: "unat (x :: u32) < 4294967296"
  using unsigned_less [of x, where ?'a = nat] by simp

lemma unat_u64_less: "unat (x :: u64) < 18446744073709551616"
  using unsigned_less [of x, where ?'a = nat] by simp

lemma unat_ucast_u32_u64 [simp]: "unat (ucast (x :: u32) :: u64) = unat x"
  using unat_u32_less [of x] by (simp add: unsigned_ucast_eq take_bit_nat_eq_self)

lemma unat_add_le: "unat a + unat b \<le> unat (c :: u64) \<Longrightarrow> unat (a + b :: u64) = unat a + unat b"
  using unat_u64_less [of c] by (simp add: unat_word_ariths)

text \<open>String literals as byte arrays.\<close>

definition ascii :: "string \<Rightarrow> bytes" where "ascii s = map of_char s"

lemma length_ascii [simp]: "length (ascii s) = length s"
  by (simp add: ascii_def)

section \<open>Byte-wise tests\<close>

text \<open>The constant-time loops of the sources: accumulate \<open>p[i] ^ v\<close> (or \<open>p[i]\<close>) with OR and test the
  accumulator.  \<open>all_eq\<close> is the helper \<open>all\<close>/\<open>ct_all\<close>, \<open>ct_equal\<close> the helper \<open>equal\<close>/\<open>eq\<close>, \<open>identity\<close>
  the test "neither all 00 nor all FF".\<close>

definition all_eq :: "bytes \<Rightarrow> u8 \<Rightarrow> bool" where
  "all_eq p v = (foldl (\<lambda>d b. d OR (b XOR v)) 0 p = 0)"

definition ct_equal :: "bytes \<Rightarrow> bytes \<Rightarrow> bool" where
  "ct_equal a b = (foldl (\<lambda>d (x, y). d OR (x XOR y)) 0 (zip a b) = (0::u8))"

definition identity :: "bytes \<Rightarrow> bool" where
  "identity p = (\<not> all_eq p 0 \<and> \<not> all_eq p 0xff)"

lemma xor_eq_0_iff: "(a XOR b = 0) = (a = (b :: 'a::len word))"
  by (auto simp: bit_eq_iff bit_xor_iff)

lemma foldl_or_xor: "foldl (\<lambda>d b. d OR (b XOR v)) d p = 0 \<longleftrightarrow> d = 0 \<and> (\<forall>b\<in>set p. b = (v::u8))"
  by (induction p arbitrary: d) (auto simp: or_eq_0_iff xor_eq_0_iff)

lemma all_eq_iff: "all_eq p v \<longleftrightarrow> p = replicate (length p) v"
  unfolding all_eq_def foldl_or_xor by (metis in_set_replicate replicate_length_same)

lemma all_eq_replicate [simp]: "all_eq (replicate n v) v"
  by (simp add: all_eq_iff)

lemma identity_replicate [simp]:
  "0 < n \<Longrightarrow> identity (replicate n v) \<longleftrightarrow> v \<noteq> 0 \<and> v \<noteq> 0xff"
  by (auto simp: identity_def all_eq_iff replicate_eq_replicate)

lemma foldl_or_xor2:
  "length a = length b \<Longrightarrow>
   foldl (\<lambda>d (x, y). d OR (x XOR y)) d (zip a b) = (0::u8) \<longleftrightarrow> d = 0 \<and> a = b"
  by (induction a b arbitrary: d rule: list_induct2) (auto simp: or_eq_0_iff xor_eq_0_iff)

lemma ct_equal_iff: "length a = length b \<Longrightarrow> ct_equal a b \<longleftrightarrow> a = b"
  by (simp add: ct_equal_def foldl_or_xor2)

lemma ct_equal_refl [simp]: "ct_equal a a"
  by (simp add: ct_equal_iff)

text \<open>The early-exit test that every byte is zero.\<close>

fun zero :: "bytes \<Rightarrow> bool" where
  "zero [] = True"
| "zero (b # bs) = (if b \<noteq> 0 then False else zero bs)"

lemma zero_iff: "zero bs \<longleftrightarrow> bs = replicate (length bs) 0"
  by (induction bs) auto

lemma zero_replicate [simp]: "zero (replicate n 0)"
  by (simp add: zero_iff)

lemma identity_not_zero: "identity bs \<Longrightarrow> \<not> zero bs"
  by (simp add: identity_def all_eq_iff zero_iff)

section \<open>CRC-32\<close>

text \<open>The bit loop \<open>v = (v>>1) ^ ((0U-(v&1U)) & 0xedb88320U)\<close>, eight times per byte, over bytes whose
  checksum field \<open>[lo, hi)\<close> reads as zero.\<close>

definition crc_bit :: "u32 \<Rightarrow> u32" where
  "crc_bit v = drop_bit 1 v XOR ((0 - (v AND 1)) AND 0xedb88320)"

definition crc_byte :: "u32 \<Rightarrow> u8 \<Rightarrow> u32" where
  "crc_byte v b = (crc_bit ^^ 8) (v XOR ucast b)"

definition crc_mask :: "nat \<Rightarrow> nat \<Rightarrow> bytes \<Rightarrow> bytes" where
  "crc_mask lo hi p = map (\<lambda>i. if lo \<le> i \<and> i < hi then 0 else p ! i) [0..<length p]"

definition crc32 :: "bytes \<Rightarrow> u32" where
  "crc32 p = NOT (foldl crc_byte UINT32_MAX p)"

lemma crc_mask_blit:
  "off = lo \<Longrightarrow> off + length bs = hi \<Longrightarrow> crc_mask lo hi (blit off bs p) = crc_mask lo hi p"
  by (rule nth_equalityI) (auto simp: crc_mask_def nth_blit)

lemma crc_mask_cong:
  assumes "length x = length y" and "part 0 lo x = part 0 lo y"
    and "part hi (length x - hi) x = part hi (length x - hi) y"
  shows "crc_mask lo hi x = crc_mask lo hi y"
proof (rule nth_equalityI)
  show "length (crc_mask lo hi x) = length (crc_mask lo hi y)" using assms(1) by (simp add: crc_mask_def)
  fix i assume "i < length (crc_mask lo hi x)"
  then have i: "i < length x" by (simp add: crc_mask_def)
  have "x ! i = y ! i" if "i < lo"
    using that i assms(1) arg_cong [OF assms(2), of "\<lambda>l. l ! i"] by (simp add: nth_part)
  moreover have "x ! i = y ! i" if "hi \<le> i"
    using that i assms(1) arg_cong [OF assms(3), of "\<lambda>l. l ! (i - hi)"] by (simp add: nth_part)
  ultimately show "crc_mask lo hi x ! i = crc_mask lo hi y ! i"
    using i assms(1) by (auto simp: crc_mask_def)
qed

lemma funpow_8: "(f ^^ 8) x = f (f (f (f (f (f (f (f x)))))))"
  by (simp add: numeral_eq_Suc)

text \<open>The standard check value of the reflected polynomial, CRC-32 of the ASCII digits 1 to 9.\<close>

lemma crc32_check: "crc32 [49, 50, 51, 52, 53, 54, 55, 56, 57] = 0xcbf43926"
  by (simp add: crc32_def crc_byte_def funpow_8 crc_bit_def)

section \<open>Lexicographic comparison\<close>

text \<open>\<open>memcmp(a, b, n) < 0\<close> on unsigned bytes.\<close>

fun mem_less :: "bytes \<Rightarrow> bytes \<Rightarrow> bool" where
  "mem_less (a # as) (b # bs) = (if a = b then mem_less as bs else a < b)"
| "mem_less _ _ = False"

lemma mem_less_irrefl [simp]: "\<not> mem_less a a"
  by (induction a) auto

lemma mem_less_trans: "mem_less a b \<Longrightarrow> mem_less b c \<Longrightarrow> mem_less a c"
proof (induction a b arbitrary: c rule: mem_less.induct)
  case (1 a as b bs)
  then obtain d ds where "c = d # ds" by (cases c) auto
  with 1 show ?case by (auto split: if_splits)
qed auto

lemma mem_less_sorted_distinct:
  assumes "sorted_wrt mem_less xs"
  shows "distinct xs"
  using assms by (induction xs) auto

section \<open>Pointers\<close>

text \<open>A C pointer argument is NULL or an address with the object stored there.  \<open>overlap\<close> is the
  helper of the same name: it also answers true when a span would run past the address space of the
  32-bit target.\<close>

datatype 'a ptr = Null | Ptr (addr: nat) (pt: 'a)

definition UINTPTR_MAX :: nat where "UINTPTR_MAX = 4294967295"

definition overlap :: "nat \<Rightarrow> nat \<Rightarrow> nat \<Rightarrow> nat \<Rightarrow> bool" where
  "overlap a an b bn =
     (if an > UINTPTR_MAX - a \<or> bn > UINTPTR_MAX - b then True else a < b + bn \<and> b < a + an)"

text \<open>\<open>clash p n q m\<close>: pointer \<open>q\<close> is not NULL and its object overlaps that of \<open>p\<close>.\<close>

fun clash :: "'a ptr \<Rightarrow> nat \<Rightarrow> 'b ptr \<Rightarrow> nat \<Rightarrow> bool" where
  "clash (Ptr a x) n (Ptr b y) m = overlap a n b m"
| "clash p n q m = False"

lemma overlap_sym: "overlap a n b m = overlap b m a n"
  by (auto simp: overlap_def)

lemma overlap_False_disjoint:
  "\<not> overlap a n b m \<Longrightarrow> {a..<a + n} \<inter> {b..<b + m} = {}"
  by (auto simp: overlap_def split: if_splits)

text \<open>Pairwise disjoint spans (address, length).\<close>

fun spans_apart :: "(nat \<times> nat) list \<Rightarrow> bool" where
  "spans_apart [] = True"
| "spans_apart ((a, n) # ss) = (list_all (\<lambda>(b, m). \<not> overlap a n b m) ss \<and> spans_apart ss)"

section \<open>The SHA-256 provider\<close>

text \<open>\<open>struct owned_page_hash\<close> carries a callback that is not part of the firmware's own code.  It is a
  parameter of the model: from the input it yields a return code, the bytes it stored into the
  32-byte output buffer and the length it reported.  \<open>sha_run\<close> is the shared wrapper (\<open>digest\<close>,
  \<open>ct_digest\<close>, \<open>sha\<close>): the buffer starts zeroed, and a nonzero code or a length other than 32 is
  a failure.  The buffer has 32 bytes whatever the provider does.\<close>

type_synonym sha_provider = "bytes \<Rightarrow> int \<times> bytes \<times> nat"

definition sha_run :: "sha_provider \<Rightarrow> bytes \<Rightarrow> bytes option" where
  "sha_run h p = (case h p of (rc, out, n) \<Rightarrow>
     if rc \<noteq> 0 \<or> n \<noteq> 32 then None else Some (blit 0 out (replicate 32 0)))"

lemma sha_run_length: "sha_run h p = Some d \<Longrightarrow> length d = 32"
  by (auto simp: sha_run_def split: prod.splits if_splits)

text \<open>A provider used by the witnesses only: it reports success and stores the CRC of its input.\<close>

definition demo_sha :: sha_provider where
  "demo_sha p = (0, le_bytes 4 (crc32 p), 32)"

section \<open>Postconditions of state-passing functions\<close>

text \<open>\<open>post Q r\<close>: the result code and the state that a function returns satisfy \<open>Q\<close>.  The rules follow
  the shape of a body: conditionals, lets and calls in sequence.\<close>

definition post :: "('r \<Rightarrow> 's \<Rightarrow> bool) \<Rightarrow> 'r \<times> 's \<Rightarrow> bool" where
  "post Q r \<longleftrightarrow> Q (fst r) (snd r)"

lemma post_return: "Q rc s \<Longrightarrow> post Q (rc, s)"
  by (simp add: post_def)

lemma post_if: "(c \<Longrightarrow> post Q a) \<Longrightarrow> (\<not> c \<Longrightarrow> post Q b) \<Longrightarrow> post Q (if c then a else b)"
  by simp

lemma post_let: "(\<And>x. x = e \<Longrightarrow> post Q (f x)) \<Longrightarrow> post Q (Let e f)"
  by simp

lemma post_let_pair: "(\<And>a b. e = (a, b) \<Longrightarrow> post Q (f a b)) \<Longrightarrow> post Q (Let e (case_prod f))"
  by (cases e) simp

lemma post_let_triple: "(\<And>a b c. e = (a, b, c) \<Longrightarrow> post Q (f a b c)) \<Longrightarrow> post Q (Let e (\<lambda>(a, b, c). f a b c))"
  by (cases e) simp

lemma post_call: "post R e \<Longrightarrow> (\<And>rc s. R rc s \<Longrightarrow> post Q (f rc s)) \<Longrightarrow> post Q (Let e (case_prod f))"
  by (cases e) (simp add: post_def)

lemma post_mono: "post R e \<Longrightarrow> (\<And>rc s. R rc s \<Longrightarrow> Q rc s) \<Longrightarrow> post Q e"
  by (simp add: post_def)

lemma postD: "post Q r \<Longrightarrow> r = (rc, s) \<Longrightarrow> Q rc s"
  by (simp add: post_def)

lemmas post_intros = post_if post_return post_let_triple post_let_pair post_let

end
