(* ===== verification/Owned_Page.thy ===== *)
theory Owned_Page
  imports Prelude
begin

text \<open>
  The owned NAND page format (\<open>owned_page.c\<close>): a 4096-byte page with a 96-byte header, a 2048-byte
  payload, a SHA-256 digest and FF padding; DATA pages and the COMMIT page that refers to the DATA
  page just before it.  The group shows that validation accepts exactly what the builders produce,
  so every byte of a page is covered, and that a commit page matches exactly the data page and
  object it was built for.
\<close>

section \<open>Model\<close>

datatype owned_page_result =
  OWNED_PAGE_VALID | OWNED_PAGE_ERASED_LOOKING | OWNED_PAGE_NOT_VALID
  | OWNED_PAGE_ARGUMENT | OWNED_PAGE_HASH_ERROR

record owned_page_binding =
  pg_device_id :: bytes
  pg_volume_id :: bytes
  pg_generation :: u64
  pg_logical_page :: u32
  pg_physical_row :: u32
  pg_lease_id :: u64
  pg_kind :: u16

record owned_page_view =
  pv_payload :: "bytes option"
  pv_digest :: bytes

abbreviation OWNED_PAGE_DATA :: u16 where "OWNED_PAGE_DATA \<equiv> 1"
abbreviation OWNED_PAGE_COMMIT :: u16 where "OWNED_PAGE_COMMIT \<equiv> 2"
abbreviation sizeof_pg_binding :: nat where "sizeof_pg_binding \<equiv> 64"
abbreviation sizeof_hash :: nat where "sizeof_hash \<equiv> 8"
abbreviation sizeof_view :: nat where "sizeof_view \<equiv> 36"

type_synonym hash_arg = "sha_provider option ptr"

text \<open>The array bounds of the C struct.\<close>

definition wf_pg_binding :: "owned_page_binding \<Rightarrow> bool" where
  "wf_pg_binding b \<longleftrightarrow> length (pg_device_id b) = 16 \<and> length (pg_volume_id b) = 16"

definition page_magic :: bytes where "page_magic = ascii ''OPNDPG1'' @ [0]"
definition commit_magic :: bytes where "commit_magic = ascii ''OPNDCM1'' @ [0]"

definition pg_binding_valid :: "owned_page_binding \<Rightarrow> bool" where
  "pg_binding_valid b \<longleftrightarrow>
     identity (pg_device_id b) \<and> identity (pg_volume_id b) \<and>
     pg_generation b \<noteq> 0 \<and> pg_generation b \<le> INT64_MAX \<and> pg_lease_id b \<noteq> 0 \<and>
     pg_logical_page b < 131072 \<and> pg_physical_row b < 131072 \<and>
     pg_logical_page b AND 63 = pg_physical_row b AND 63 \<and>
     (pg_kind b = OWNED_PAGE_DATA \<or> pg_kind b = OWNED_PAGE_COMMIT)"

fun hash_fn :: "hash_arg \<Rightarrow> sha_provider option" where
  "hash_fn Null = None"
| "hash_fn (Ptr a h) = h"

definition hash_valid :: "hash_arg \<Rightarrow> bool" where
  "hash_valid hash \<longleftrightarrow> hash_fn hash \<noteq> None"

definition pg_crc :: "bytes \<Rightarrow> bool \<Rightarrow> u32" where
  "pg_crc p header = crc32 (if header then crc_mask 76 80 p else p)"

fun output_safe :: "bytes ptr \<Rightarrow> nat \<Rightarrow> owned_page_binding ptr \<Rightarrow> hash_arg \<Rightarrow> bool" where
  "output_safe (Ptr oa out) n (Ptr ba b) hash =
     (n = 4096 \<and> pg_binding_valid b \<and> hash_valid hash \<and>
      \<not> overlap oa n ba sizeof_pg_binding \<and> \<not> clash (Ptr oa out) n hash sizeof_hash)"
| "output_safe out n b hash = False"

text \<open>The stores of \<open>header\<close>, in order.\<close>

definition pg_header :: "owned_page_binding \<Rightarrow> bytes \<Rightarrow> bytes" where
  "pg_header b out =
    (let p = blit 0 (replicate 96 0) out;
         p = blit 0 page_magic p; p = put16 8 1 p; p = put16 10 (pg_kind b) p;
         p = put16 12 96 p; p = put16 14 2048 p;
         p = blit 16 (pg_device_id b) p; p = blit 32 (pg_volume_id b) p;
         p = put64 48 (pg_generation b) p; p = put32 56 (pg_logical_page b) p;
         p = put32 60 (pg_physical_row b) p; p = put64 64 (pg_lease_id b) p;
         p = put32 72 (pg_crc (part 96 2048 p) False) p;
         p = put32 76 (pg_crc (part 0 96 p) True) p
     in p)"

definition pg_digest :: "sha_provider \<Rightarrow> bytes \<Rightarrow> bytes option" where
  "pg_digest h page = sha_run h (part 0 2144 page)"

definition pg_seal :: "bytes \<Rightarrow> owned_page_binding \<Rightarrow> sha_provider \<Rightarrow> owned_page_result \<times> bytes" where
  "pg_seal out b h =
    (let p = pg_header b out in
     case pg_digest h p of
       Some value \<Rightarrow> (OWNED_PAGE_VALID, blit 2144 value p)
     | None \<Rightarrow> (OWNED_PAGE_HASH_ERROR, replicate (length p) 0))"

fun owned_page_build_data ::
  "bytes ptr \<Rightarrow> nat \<Rightarrow> owned_page_binding ptr \<Rightarrow> bytes ptr \<Rightarrow> nat \<Rightarrow> hash_arg
     \<Rightarrow> owned_page_result \<times> bytes ptr" where
  "owned_page_build_data (Ptr oa out) n (Ptr ba b) (Ptr ya payload) m hash =
     (if \<not> output_safe (Ptr oa out) n (Ptr ba b) hash \<or> pg_kind b \<noteq> OWNED_PAGE_DATA \<or>
         m \<noteq> 2048 \<or> overlap oa n ya m
      then (OWNED_PAGE_ARGUMENT, Ptr oa out)
      else let p = blit 0 (replicate n 0xff) out;
               p = blit 96 payload p;
               (rc, p) = pg_seal p b (the (hash_fn hash))
           in (rc, Ptr oa p))"
| "owned_page_build_data out n b payload m hash = (OWNED_PAGE_ARGUMENT, out)"

definition header_matches :: "bytes \<Rightarrow> owned_page_binding \<Rightarrow> bool" where
  "header_matches p b \<longleftrightarrow>
     ct_equal (part 0 8 p) page_magic \<and> get16 8 p = 1 \<and> get16 10 p = pg_kind b \<and>
     get16 12 p = 96 \<and> get16 14 p = 2048 \<and>
     ct_equal (part 16 16 p) (pg_device_id b) \<and> ct_equal (part 32 16 p) (pg_volume_id b) \<and>
     get64 48 p = pg_generation b \<and> get32 56 p = pg_logical_page b \<and>
     get32 60 p = pg_physical_row b \<and> get64 64 p = pg_lease_id b \<and> all_eq (part 80 16 p) 0"

definition commit_syntax :: "bytes \<Rightarrow> owned_page_binding \<Rightarrow> bool" where
  "commit_syntax p b \<longleftrightarrow>
     ct_equal (part 0 8 p) commit_magic \<and> get16 8 p = 1 \<and> get16 10 p = 96 \<and>
     get32 12 p = 2048 \<and> identity (part 16 16 p) \<and>
     pg_logical_page b > 0 \<and> pg_physical_row b > 0 \<and> pg_logical_page b AND 63 \<noteq> 0 \<and>
     get32 32 p = pg_logical_page b - 1 \<and> get32 36 p = pg_physical_row b - 1 \<and>
     get64 40 p = pg_lease_id b \<and> all_eq (part 80 16 p) 0 \<and>
     all_eq (part 96 (2048 - 96) p) 0xff"

definition cleared_view :: owned_page_view where
  "cleared_view = \<lparr>pv_payload = None, pv_digest = replicate 32 0\<rparr>"

text \<open>\<open>owned_page_validate\<close> after the guards on the output view and its clearing.  Callers inside the
  module pass a local view, which overlaps nothing, and use this body.\<close>

fun pg_validate_body ::
  "bytes ptr \<Rightarrow> nat \<Rightarrow> owned_page_binding ptr \<Rightarrow> hash_arg \<Rightarrow> owned_page_result \<times> owned_page_view" where
  "pg_validate_body (Ptr pa page) n (Ptr ea expected) hash =
     (if n \<noteq> 4096 \<or> \<not> pg_binding_valid expected \<or> \<not> hash_valid hash
      then (OWNED_PAGE_ARGUMENT, cleared_view)
      else if overlap pa n ea sizeof_pg_binding \<or> clash (Ptr pa page) n hash sizeof_hash
      then (OWNED_PAGE_ARGUMENT, cleared_view)
      else if all_eq page 0xff then (OWNED_PAGE_ERASED_LOOKING, cleared_view)
      else if \<not> header_matches page expected \<or> \<not> all_eq (part 2176 (4096 - 2176) page) 0xff \<or>
              get32 76 page \<noteq> pg_crc (part 0 96 page) True \<or>
              get32 72 page \<noteq> pg_crc (part 96 2048 page) False \<or>
              (pg_kind expected = OWNED_PAGE_COMMIT \<and> \<not> commit_syntax (part 96 2048 page) expected)
      then (OWNED_PAGE_NOT_VALID, cleared_view)
      else (case pg_digest (the (hash_fn hash)) page of
              None \<Rightarrow> (OWNED_PAGE_HASH_ERROR, cleared_view)
            | Some value \<Rightarrow>
                if \<not> ct_equal value (part 2144 32 page) then (OWNED_PAGE_NOT_VALID, cleared_view)
                else (OWNED_PAGE_VALID,
                      \<lparr>pv_payload = Some (part 96 2048 page), pv_digest = value\<rparr>)))"
| "pg_validate_body page n expected hash = (OWNED_PAGE_ARGUMENT, cleared_view)"

fun owned_page_validate ::
  "bytes ptr \<Rightarrow> nat \<Rightarrow> owned_page_binding ptr \<Rightarrow> hash_arg \<Rightarrow> owned_page_view ptr
     \<Rightarrow> owned_page_result \<times> owned_page_view ptr" where
  "owned_page_validate page n expected hash Null = (OWNED_PAGE_ARGUMENT, Null)"
| "owned_page_validate page n expected hash (Ptr va view) =
     (if clash (Ptr va view) sizeof_view page n \<or>
         clash (Ptr va view) sizeof_view expected sizeof_pg_binding \<or>
         clash (Ptr va view) sizeof_view hash sizeof_hash
      then (OWNED_PAGE_ARGUMENT, Ptr va view)
      else let (rc, view) = pg_validate_body page n expected hash in (rc, Ptr va view))"

fun pg_pair :: "owned_page_binding ptr \<Rightarrow> owned_page_binding ptr \<Rightarrow> bool" where
  "pg_pair (Ptr ca c) (Ptr da d) =
     (pg_binding_valid c \<and> pg_binding_valid d \<and> pg_kind c = OWNED_PAGE_COMMIT \<and>
      pg_kind d = OWNED_PAGE_DATA \<and> ct_equal (pg_device_id c) (pg_device_id d) \<and>
      ct_equal (pg_volume_id c) (pg_volume_id d) \<and> pg_generation c = pg_generation d \<and>
      pg_lease_id c = pg_lease_id d \<and> pg_logical_page c = pg_logical_page d + 1 \<and>
      pg_physical_row c = pg_physical_row d + 1 \<and>
      drop_bit 6 (pg_logical_page c) = drop_bit 6 (pg_logical_page d) \<and>
      drop_bit 6 (pg_physical_row c) = drop_bit 6 (pg_physical_row d))"
| "pg_pair c d = False"

text \<open>The commit payload stores of \<open>owned_page_build_commit\<close>, relative to the payload.\<close>

definition pg_commit_payload :: "bytes \<Rightarrow> owned_page_binding \<Rightarrow> bytes \<Rightarrow> bytes \<Rightarrow> bytes" where
  "pg_commit_payload object_id d data_digest p =
    (let p = blit 0 (replicate 96 0) p; p = blit 0 commit_magic p;
         p = put16 8 1 p; p = put16 10 96 p; p = put32 12 2048 p; p = blit 16 object_id p;
         p = put32 32 (pg_logical_page d) p; p = put32 36 (pg_physical_row d) p;
         p = put64 40 (pg_lease_id d) p; p = blit 48 data_digest p
     in p)"

fun owned_page_build_commit ::
  "bytes ptr \<Rightarrow> nat \<Rightarrow> owned_page_binding ptr \<Rightarrow> bytes ptr \<Rightarrow> bytes ptr \<Rightarrow> nat \<Rightarrow>
   owned_page_binding ptr \<Rightarrow> hash_arg \<Rightarrow> owned_page_result \<times> bytes ptr" where
  "owned_page_build_commit (Ptr oa out) n (Ptr ca c) (Ptr ia object_id) (Ptr ya data_page) m (Ptr da d) hash =
     (if \<not> output_safe (Ptr oa out) n (Ptr ca c) hash \<or> \<not> pg_pair (Ptr ca c) (Ptr da d) \<or>
         \<not> identity object_id \<or> m \<noteq> 4096 \<or>
         overlap oa n ia 16 \<or> overlap oa n ya m \<or> overlap oa n da sizeof_pg_binding
      then (OWNED_PAGE_ARGUMENT, Ptr oa out)
      else case pg_validate_body (Ptr ya data_page) m (Ptr da d) hash of
        (OWNED_PAGE_VALID, data) \<Rightarrow>
          (let p = blit 0 (replicate n 0xff) out;
               p = blit 96 (pg_commit_payload object_id d (pv_digest data) (part 96 2048 p)) p;
               (rc, p) = pg_seal p c (the (hash_fn hash))
           in (rc, Ptr oa p))
      | (OWNED_PAGE_HASH_ERROR, data) \<Rightarrow> (OWNED_PAGE_HASH_ERROR, Ptr oa (replicate (length out) 0))
      | (OWNED_PAGE_ERASED_LOOKING, data) \<Rightarrow> (OWNED_PAGE_NOT_VALID, Ptr oa out)
      | (rc, data) \<Rightarrow> (rc, Ptr oa out))"
| "owned_page_build_commit out n c object_id data_page m d hash = (OWNED_PAGE_ARGUMENT, out)"

definition not_erased :: "owned_page_result \<Rightarrow> owned_page_result" where
  "not_erased rc = (if rc = OWNED_PAGE_ERASED_LOOKING then OWNED_PAGE_NOT_VALID else rc)"

fun owned_page_match_commit ::
  "bytes ptr \<Rightarrow> nat \<Rightarrow> owned_page_binding ptr \<Rightarrow> bytes ptr \<Rightarrow> bytes ptr \<Rightarrow> nat \<Rightarrow>
   owned_page_binding ptr \<Rightarrow> hash_arg \<Rightarrow> owned_page_result" where
  "owned_page_match_commit commit_page n c (Ptr ia object_id) data_page m d hash =
     (if \<not> pg_pair c d \<or> \<not> identity object_id then OWNED_PAGE_ARGUMENT
      else let (rc, commit) = pg_validate_body commit_page n c hash in
        if rc \<noteq> OWNED_PAGE_VALID then not_erased rc
        else let (rc, data) = pg_validate_body data_page m d hash in
          if rc = OWNED_PAGE_VALID \<and>
             (\<not> ct_equal (part 16 16 (the (pv_payload commit))) object_id \<or>
              \<not> ct_equal (part 48 32 (the (pv_payload commit))) (pv_digest data))
          then OWNED_PAGE_NOT_VALID else not_erased rc)"
| "owned_page_match_commit commit_page n c Null data_page m d hash = OWNED_PAGE_ARGUMENT"

declare output_safe.simps [simp del] owned_page_build_data.simps [simp del]
  pg_validate_body.simps [simp del] owned_page_validate.simps [simp del] pg_pair.simps [simp del]
  owned_page_build_commit.simps [simp del] owned_page_match_commit.simps [simp del]

lemmas pg_api = output_safe.simps owned_page_build_data.simps owned_page_validate.simps
  owned_page_build_commit.simps owned_page_match_commit.simps

section \<open>Field lemmas\<close>

lemma length_pg_consts [simp]: "length page_magic = 8" "length commit_magic = 8"
  by (simp_all add: page_magic_def commit_magic_def)

lemma length_pg_header [simp]: "length (pg_header b out) = length out"
  by (simp add: pg_header_def Let_def)

lemma length_pg_commit_payload [simp]: "length (pg_commit_payload i d g p) = length p"
  by (simp add: pg_commit_payload_def Let_def)

lemma pg_digest_length: "pg_digest h p = Some d \<Longrightarrow> length d = 32"
  by (auto simp: pg_digest_def dest: sha_run_length)

lemmas put_defs = put16_def put32_def put64_def

lemma pg_header_fields:
  assumes "wf_pg_binding b" and "length out = 4096"
  shows "part 0 8 (pg_header b out) = page_magic" "part 8 2 (pg_header b out) = le_bytes 2 (1::u16)"
    "part 10 2 (pg_header b out) = le_bytes 2 (pg_kind b)"
    "part 12 2 (pg_header b out) = le_bytes 2 (96::u16)"
    "part 14 2 (pg_header b out) = le_bytes 2 (2048::u16)"
    "part 16 16 (pg_header b out) = pg_device_id b" "part 32 16 (pg_header b out) = pg_volume_id b"
    "part 48 8 (pg_header b out) = le_bytes 8 (pg_generation b)"
    "part 56 4 (pg_header b out) = le_bytes 4 (pg_logical_page b)"
    "part 60 4 (pg_header b out) = le_bytes 4 (pg_physical_row b)"
    "part 64 8 (pg_header b out) = le_bytes 8 (pg_lease_id b)"
    "part 80 16 (pg_header b out) = replicate 16 0"
    "part 96 4000 (pg_header b out) = part 96 4000 out"
    "part 72 4 (pg_header b out) = le_bytes 4 (pg_crc (part 96 2048 out) False)"
  using assms by (simp_all add: pg_header_def Let_def put_defs wf_pg_binding_def buf)

lemma pg_header_prefix:
  assumes "wf_pg_binding b" and "length out = 4096" and "length out' = 4096"
    and "part 96 2048 out = part 96 2048 out'"
  shows "part 0 96 (pg_header b out) = part 0 96 (pg_header b out')"
  using assms
  by (simp add: pg_header_def Let_def put_defs wf_pg_binding_def buf part_blit_prefix)

lemma pg_header_crc:
  assumes "wf_pg_binding b" and "length out = 4096"
  shows "part 76 4 (pg_header b out) = le_bytes 4 (pg_crc (part 0 96 (pg_header b out)) True)"
  using assms
  by (simp add: pg_header_def Let_def put_defs wf_pg_binding_def buf part_blit_prefix pg_crc_def
      crc_mask_blit)

abbreviation pg_layout :: "nat list" where
  "pg_layout \<equiv> [8, 2, 2, 2, 2, 16, 16, 8, 4, 4, 8, 4, 4, 16, 4000]"

text \<open>The header checks hold exactly when writing the header again changes nothing.\<close>

definition pg_header_ok :: "bytes \<Rightarrow> owned_page_binding \<Rightarrow> bool" where
  "pg_header_ok p b \<longleftrightarrow> header_matches p b \<and> get32 76 p = pg_crc (part 0 96 p) True \<and>
     get32 72 p = pg_crc (part 96 2048 p) False"

lemma pg_header_ok_fields:
  assumes "wf_pg_binding b" and "length p = 4096"
  shows "pg_header_ok p b \<longleftrightarrow>
    part 0 8 p = page_magic \<and> part 8 2 p = le_bytes 2 (1::u16) \<and>
    part 10 2 p = le_bytes 2 (pg_kind b) \<and> part 12 2 p = le_bytes 2 (96::u16) \<and>
    part 14 2 p = le_bytes 2 (2048::u16) \<and> part 16 16 p = pg_device_id b \<and>
    part 32 16 p = pg_volume_id b \<and> part 48 8 p = le_bytes 8 (pg_generation b) \<and>
    part 56 4 p = le_bytes 4 (pg_logical_page b) \<and> part 60 4 p = le_bytes 4 (pg_physical_row b) \<and>
    part 64 8 p = le_bytes 8 (pg_lease_id b) \<and> part 80 16 p = replicate 16 0 \<and>
    part 76 4 p = le_bytes 4 (pg_crc (part 0 96 p) True) \<and>
    part 72 4 p = le_bytes 4 (pg_crc (part 96 2048 p) False)"
  using assms
  by (simp add: pg_header_ok_def header_matches_def get_eq_iff ct_equal_iff all_eq_iff
      wf_pg_binding_def)

lemma pg_header_ok_iff:
  assumes "wf_pg_binding b" and "length p = 4096"
  shows "pg_header_ok p b \<longleftrightarrow> pg_header b p = p"
proof
  let ?h = "pg_header b p"
  note hf = pg_header_fields [OF assms]
  assume ok: "pg_header_ok p b"
  note pf = ok [unfolded pg_header_ok_fields [OF assms]]
  have lo: "part 0 76 ?h = part 0 76 p"
    using same_fields_part [of 0 "[8, 2, 2, 2, 2, 16, 16, 8, 4, 4, 8, 4]" ?h p] hf pf by simp
  have "crc_mask 76 80 (part 0 96 ?h) = crc_mask 76 80 (part 0 96 p)"
    by (rule crc_mask_cong) (use lo hf pf assms in \<open>simp_all add: buf\<close>)
  then have "part 76 4 ?h = part 76 4 p"
    using pf pg_header_crc [OF assms] by (simp add: pg_crc_def)
  then have "same_fields 0 pg_layout ?h p" using hf pf by simp
  then show "?h = p" by (rule eq_by_fields) (use assms in simp_all)
next
  assume eq: "pg_header b p = p"
  note hf = pg_header_fields [OF assms, unfolded eq] pg_header_crc [OF assms, unfolded eq]
  show "pg_header_ok p b" unfolding pg_header_ok_fields [OF assms] using hf by simp
qed

text \<open>The page that the data builder produces for a payload, when hashing succeeds.\<close>

definition pg_page :: "owned_page_binding \<Rightarrow> bytes \<Rightarrow> bytes \<Rightarrow> bytes" where
  "pg_page b payload value =
     blit 2144 value (pg_header b (blit 96 payload (replicate 4096 0xff)))"

lemma pg_page_parts:
  assumes "wf_pg_binding b" and "length payload = 2048" and "length value = 32"
  shows "part 0 96 (pg_page b payload value) = part 0 96 (pg_header b (blit 96 payload (replicate 4096 0xff)))"
    "part 96 2048 (pg_page b payload value) = payload"
    "part 2144 32 (pg_page b payload value) = value"
    "part 2176 1920 (pg_page b payload value) = replicate 1920 0xff"
proof -
  let ?q = "blit 96 payload (replicate 4096 (0xff::u8))"
  have *: "part 96 4000 (pg_header b ?q) = part 96 4000 ?q"
    by (rule pg_header_fields(13)) (use assms in simp_all)
  have sub: "part (96 + a) m (pg_header b ?q) = part (96 + a) m ?q" if "a + m \<le> 4000" for a m
    using that arg_cong [OF *, of "part a m"] by (simp add: buf)
  show "part 0 96 (pg_page b payload value) = part 0 96 (pg_header b ?q)"
    "part 2144 32 (pg_page b payload value) = value"
    using assms by (simp_all add: pg_page_def buf)
  show "part 96 2048 (pg_page b payload value) = payload"
    using assms sub [of 0 2048] by (simp add: pg_page_def buf)
  show "part 2176 1920 (pg_page b payload value) = replicate 1920 0xff"
    using assms sub [of 2080 1920] by (simp add: pg_page_def buf)
qed

lemma length_pg_page [simp]: "length (pg_page b payload value) = 4096"
  by (simp add: pg_page_def)

text \<open>A page passes the header, padding and checksum tests exactly when it is the page rebuilt from
  its own payload and digest.\<close>

lemma pg_page_canonical:
  assumes "wf_pg_binding b" and "length p = 4096"
  shows "pg_header_ok p b \<and> all_eq (part 2176 1920 p) 0xff \<longleftrightarrow>
         p = pg_page b (part 96 2048 p) (part 2144 32 p)"
proof -
  let ?y = "part 96 2048 p" and ?v = "part 2144 32 p"
  let ?q = "blit 96 ?y (replicate 4096 (0xff::u8))"
  note pp = pg_page_parts [OF assms(1), of ?y ?v]
  have pre: "part 0 96 (pg_header b p) = part 0 96 (pg_header b ?q)"
    by (rule pg_header_prefix) (use assms in \<open>simp_all add: buf\<close>)
  show ?thesis
  proof (intro iffI conjI)
    assume l: "pg_header_ok p b \<and> all_eq (part 2176 1920 p) 0xff"
    then have "part 0 96 p = part 0 96 (pg_header b ?q)"
      using pre pg_header_ok_iff [OF assms] by simp
    moreover have "part 2176 1920 p = replicate 1920 0xff"
      using l assms by (simp add: all_eq_iff)
    ultimately have "same_fields 0 [96, 2048, 32, 1920] p (pg_page b ?y ?v)"
      using pp assms by simp
    then show "p = pg_page b ?y ?v" by (rule eq_by_fields) (use assms in simp_all)
  next
    assume r: "p = pg_page b ?y ?v"
    have "part 0 96 p = part 0 96 (pg_header b p)"
      using pre pp(1) r assms by simp
    moreover have "part 96 4000 (pg_header b p) = part 96 4000 p"
      by (rule pg_header_fields(13) [OF assms])
    ultimately have "same_fields 0 [96, 4000] (pg_header b p) p" by simp
    then have "pg_header b p = p" by (rule eq_by_fields) (use assms in simp_all)
    then show "pg_header_ok p b" using pg_header_ok_iff [OF assms] by simp
    show "all_eq (part 2176 1920 p) 0xff"
      using pp(4) r assms by (simp add: all_eq_iff)
  qed
qed

section \<open>Validation against construction\<close>

lemma pg_page_not_erased:
  assumes "wf_pg_binding b"
  shows "\<not> all_eq (pg_page b y v) 0xff"
proof
  assume "all_eq (pg_page b y v) 0xff"
  then have "part 0 1 (pg_page b y v) = part 0 1 (replicate 4096 0xff)"
    by (simp add: all_eq_iff)
  moreover have "part 0 1 (pg_page b y v) = part 0 1 page_magic"
    using assms by (simp add: pg_page_def pg_header_def Let_def put_defs wf_pg_binding_def buf)
  ultimately show False by (simp add: buf page_magic_def ascii_def part_def)
qed

text \<open>What the validation body accepts, with the guards on the arguments discharged.\<close>

lemma pg_validate_body_valid:
  assumes "wf_pg_binding b" and "length p = 4096" and "pg_binding_valid b"
    and "\<not> overlap pa 4096 ba sizeof_pg_binding" and "\<not> overlap pa 4096 ha sizeof_hash"
  shows "pg_validate_body (Ptr pa p) 4096 (Ptr ba b) (Ptr ha (Some h)) = (OWNED_PAGE_VALID, w) \<longleftrightarrow>
    p = pg_page b (part 96 2048 p) (part 2144 32 p) \<and>
    (pg_kind b = OWNED_PAGE_COMMIT \<longrightarrow> commit_syntax (part 96 2048 p) b) \<and>
    pg_digest h p = Some (part 2144 32 p) \<and>
    w = \<lparr>pv_payload = Some (part 96 2048 p), pv_digest = part 2144 32 p\<rparr>"
proof -
  have erased: "\<not> all_eq p 0xff" if "p = pg_page b (part 96 2048 p) (part 2144 32 p)"
    using that pg_page_not_erased [OF assms(1)] by metis
  have eq: "ct_equal v (part 2144 32 p) \<longleftrightarrow> v = part 2144 32 p"
    if "pg_digest h p = Some v" for v
    using pg_digest_length [OF that] assms(2) by (simp add: ct_equal_iff)
  show ?thesis
    using assms(2-5) erased eq pg_page_canonical [OF assms(1,2)]
    by (auto simp: pg_validate_body.simps hash_valid_def pg_header_ok_def split: option.splits if_splits)
qed

lemma pg_digest_page:
  "length y = 2048 \<Longrightarrow> length v = 32 \<Longrightarrow>
   pg_digest h (pg_page b y v) = pg_digest h (pg_header b (blit 96 y (replicate 4096 0xff)))"
  by (simp add: pg_digest_def pg_page_def buf)

lemma pg_seal_page:
  assumes "length out = 4096" and "length y = 2048"
  shows "pg_seal (blit 96 y (blit 0 (replicate 4096 0xff) out)) b h =
    (case pg_digest h (pg_header b (blit 96 y (replicate 4096 0xff))) of
       Some v \<Rightarrow> (OWNED_PAGE_VALID, pg_page b y v)
     | None \<Rightarrow> (OWNED_PAGE_HASH_ERROR, replicate 4096 0))"
  using assms by (simp add: pg_seal_def pg_page_def blit_append split: option.split)

lemma pg_seal_valid_iff:
  assumes "length out = 4096" and "length y = 2048" and "wf_pg_binding b" and "length p = 4096"
  shows "pg_seal (blit 96 y (blit 0 (replicate 4096 0xff) out)) b h = (OWNED_PAGE_VALID, p) \<longleftrightarrow>
    part 96 2048 p = y \<and> p = pg_page b (part 96 2048 p) (part 2144 32 p) \<and>
    pg_digest h p = Some (part 2144 32 p)"
    (is "?l \<longleftrightarrow> ?r")
proof
  assume ?l
  then obtain v where v: "pg_digest h (pg_header b (blit 96 y (replicate 4096 0xff))) = Some v"
      and p: "p = pg_page b y v"
    unfolding pg_seal_page [OF assms(1,2)] by (auto split: option.splits)
  have lv: "length v = 32" by (rule pg_digest_length [OF v])
  show ?r
    using p v lv pg_page_parts [OF assms(3,2) lv] pg_digest_page [OF assms(2) lv]
    by simp
next
  assume r: ?r
  then have "pg_digest h (pg_header b (blit 96 y (replicate 4096 0xff))) = Some (part 2144 32 p)"
    using pg_digest_page [OF assms(2), of "part 2144 32 p" h b] assms(4) by auto
  moreover have "pg_page b y (part 2144 32 p) = p" using r by metis
  ultimately show ?l unfolding pg_seal_page [OF assms(1,2)] by simp
qed

section \<open>Properties of data pages\<close>

text \<open>Claim C12.  On disjoint arguments, validating a 4096-byte page as a DATA page returns
  \<open>OWNED_PAGE_VALID\<close> with payload \<open>y\<close> and digest \<open>d\<close> exactly when building a DATA page from \<open>y\<close> with the
  same binding and provider succeeds and yields that very page: build and validate are inverse, and
  every byte of header, payload, digest and padding is checked.\<close>

theorem owned_page_canonical:
  assumes "wf_pg_binding b" and "pg_binding_valid b" and "pg_kind b = OWNED_PAGE_DATA"
    and "length p = 4096" and "length y = 2048" and "length out = 4096"
    and "spans_apart [(pa, 4096), (ba, 64), (ha, 8), (va, 36), (oa, 4096), (ya, 2048)]"
  shows "owned_page_validate (Ptr pa p) 4096 (Ptr ba b) (Ptr ha (Some h)) (Ptr va view)
           = (OWNED_PAGE_VALID, Ptr va \<lparr>pv_payload = Some y, pv_digest = d\<rparr>) \<longleftrightarrow>
         owned_page_build_data (Ptr oa out) 4096 (Ptr ba b) (Ptr ya y) 2048 (Ptr ha (Some h))
           = (OWNED_PAGE_VALID, Ptr oa p) \<and> d = part 2144 32 p"
proof -
  have apart: "\<not> overlap pa 4096 ba 64" "\<not> overlap pa 4096 ha 8" "\<not> overlap va 36 pa 4096"
    "\<not> overlap va 36 ba 64" "\<not> overlap va 36 ha 8" "\<not> overlap oa 4096 ba 64"
    "\<not> overlap oa 4096 ha 8" "\<not> overlap oa 4096 ya 2048"
    using assms(7) by (auto simp: overlap_sym)
  have "owned_page_validate (Ptr pa p) 4096 (Ptr ba b) (Ptr ha (Some h)) (Ptr va view)
           = (OWNED_PAGE_VALID, Ptr va \<lparr>pv_payload = Some y, pv_digest = d\<rparr>) \<longleftrightarrow>
        pg_validate_body (Ptr pa p) 4096 (Ptr ba b) (Ptr ha (Some h))
           = (OWNED_PAGE_VALID, \<lparr>pv_payload = Some y, pv_digest = d\<rparr>)"
    using apart by (simp add: pg_api case_prod_beta prod_eq_iff)
  moreover have "owned_page_build_data (Ptr oa out) 4096 (Ptr ba b) (Ptr ya y) 2048 (Ptr ha (Some h))
           = (OWNED_PAGE_VALID, Ptr oa p) \<longleftrightarrow>
         pg_seal (blit 96 y (blit 0 (replicate 4096 0xff) out)) b h = (OWNED_PAGE_VALID, p)"
    using assms apart by (simp add: pg_api hash_valid_def case_prod_beta prod_eq_iff Let_def)
  ultimately show ?thesis
    using pg_validate_body_valid [OF assms(1,4,2) apart(1,2)] assms(3)
      pg_seal_valid_iff [OF assms(6,5,1,4)]
    by auto
qed

definition demo_pg_binding :: owned_page_binding where
  "demo_pg_binding = \<lparr>pg_device_id = replicate 16 1, pg_volume_id = replicate 16 2,
     pg_generation = 1, pg_logical_page = 5, pg_physical_row = 69, pg_lease_id = 9, pg_kind = 1\<rparr>"

lemma demo_pg_binding_ok:
  "wf_pg_binding demo_pg_binding" "pg_binding_valid demo_pg_binding" "pg_kind demo_pg_binding = 1"
  by (simp_all add: demo_pg_binding_def wf_pg_binding_def pg_binding_valid_def
      word_less_nat_alt word_le_nat_alt)

lemma demo_sha_run: "\<exists>d. sha_run demo_sha p = Some d"
  by (simp add: sha_run_def demo_sha_def)

theorem owned_page_canonical_witness:
  "\<exists>page. owned_page_validate (Ptr 10000 page) 4096 (Ptr 20000 demo_pg_binding)
       (Ptr 21000 (Some demo_sha)) (Ptr 22000 cleared_view) =
     (OWNED_PAGE_VALID,
      Ptr 22000 \<lparr>pv_payload = Some (replicate 2048 7), pv_digest = part 2144 32 page\<rparr>)"
proof -
  let ?y = "replicate 2048 (7::u8)" and ?b = demo_pg_binding
  obtain v where v: "pg_digest demo_sha (pg_header ?b (blit 96 ?y (replicate 4096 0xff))) = Some v"
    using demo_sha_run by (auto simp: pg_digest_def)
  let ?page = "pg_page ?b ?y v"
  have apart: "spans_apart [(10000, 4096), (20000, 64), (21000, 8), (22000, 36), (40000, 4096), (50000, 2048)]"
    by (simp add: overlap_def UINTPTR_MAX_def)
  have "owned_page_build_data (Ptr 40000 (replicate 4096 0)) 4096 (Ptr 20000 ?b) (Ptr 50000 ?y) 2048
      (Ptr 21000 (Some demo_sha)) = (OWNED_PAGE_VALID, Ptr 40000 ?page)"
    using apart demo_pg_binding_ok v
    by (simp add: pg_api hash_valid_def case_prod_beta Let_def pg_seal_page overlap_sym [of 40000])
  then show ?thesis
    using owned_page_canonical [OF demo_pg_binding_ok, of ?page ?y "replicate 4096 0"
        10000 20000 21000 22000 40000 50000 demo_sha cleared_view "part 2144 32 ?page"] apart
    by auto
qed

section \<open>Commit pages\<close>

lemma pg_commit_payload_fields:
  assumes "length object_id = 16" and "length g = 32" and "length p = 2048"
  shows "part 0 8 (pg_commit_payload object_id d g p) = commit_magic"
    "part 8 2 (pg_commit_payload object_id d g p) = le_bytes 2 (1::u16)"
    "part 10 2 (pg_commit_payload object_id d g p) = le_bytes 2 (96::u16)"
    "part 12 4 (pg_commit_payload object_id d g p) = le_bytes 4 (2048::u32)"
    "part 16 16 (pg_commit_payload object_id d g p) = object_id"
    "part 32 4 (pg_commit_payload object_id d g p) = le_bytes 4 (pg_logical_page d)"
    "part 36 4 (pg_commit_payload object_id d g p) = le_bytes 4 (pg_physical_row d)"
    "part 40 8 (pg_commit_payload object_id d g p) = le_bytes 8 (pg_lease_id d)"
    "part 48 32 (pg_commit_payload object_id d g p) = g"
    "part 80 16 (pg_commit_payload object_id d g p) = replicate 16 0"
    "part 96 1952 (pg_commit_payload object_id d g p) = part 96 1952 p"
  using assms by (simp_all add: pg_commit_payload_def Let_def put_defs buf)

abbreviation commit_layout :: "nat list" where
  "commit_layout \<equiv> [8, 2, 2, 4, 16, 4, 4, 8, 32, 16, 1952]"

text \<open>The data page of a pair stays in the same eraseblock, so the commit page is never the first page
  of its block.\<close>

lemma pg_pair_successor:
  fixes c d :: u32
  assumes "c = d + 1" and "d < 131072" and "drop_bit 6 c = drop_bit 6 d"
  shows "c > 0" "c AND 63 \<noteq> 0" "c - 1 = d"
proof -
  have u: "unat c = Suc (unat d)"
    using assms(1,2) by (simp add: unat_word_ariths word_less_nat_alt)
  have "unat c div 64 = unat d div 64"
    using arg_cong [OF assms(3), of unat] by (simp add: drop_bit_eq_div unat_div)
  then have "Suc (unat d) div 64 = unat d div 64" using u by simp
  then have "unat c mod 64 \<noteq> 0" unfolding u by (simp add: div_Suc mod_Suc split: if_splits)
  then show "c AND 63 \<noteq> 0" using word_and_63 [of c] by simp
  show "c > 0" using u by (simp add: word_less_nat_alt)
  show "c - 1 = d" using assms(1) by simp
qed

lemma commit_payload_iff:
  assumes "length y = 2048" and "length object_id = 16" and "length g = 32"
    and "identity object_id" and "pg_pair (Ptr ca c) (Ptr da d)"
  shows "commit_syntax y c \<and> part 16 16 y = object_id \<and> part 48 32 y = g \<longleftrightarrow>
         y = pg_commit_payload object_id d g (replicate 2048 0xff)"
proof -
  let ?f = "pg_commit_payload object_id d g (replicate 2048 0xff)"
  note ff = pg_commit_payload_fields [OF assms(2,3), of "replicate 2048 0xff" d, simplified]
  have dl: "pg_logical_page d < 131072" "pg_physical_row d < 131072"
    using assms(5) by (simp_all add: pg_binding_valid_def pg_pair.simps)
  note sl = pg_pair_successor [of "pg_logical_page c" "pg_logical_page d"]
  note sp = pg_pair_successor [of "pg_physical_row c" "pg_physical_row d"]
  have succ: "pg_logical_page c > 0" "pg_logical_page c AND 63 \<noteq> 0"
    "pg_logical_page c - 1 = pg_logical_page d" "pg_physical_row c > 0"
    "pg_physical_row c - 1 = pg_physical_row d" "pg_lease_id c = pg_lease_id d"
    using sl sp dl assms(5) by (auto simp: pg_pair.simps)
  show ?thesis
  proof
    assume l: "commit_syntax y c \<and> part 16 16 y = object_id \<and> part 48 32 y = g"
    then have "same_fields 0 commit_layout y ?f"
      using ff succ assms(1) by (simp add: commit_syntax_def get_eq_iff ct_equal_iff all_eq_iff buf)
    then show "y = ?f" by (rule eq_by_fields) (use assms(1) in simp_all)
  next
    assume "y = ?f"
    then show "commit_syntax y c \<and> part 16 16 y = object_id \<and> part 48 32 y = g"
      using ff succ assms(1,2,4)
      by (simp add: commit_syntax_def get_eq_iff ct_equal_iff all_eq_iff buf)
  qed
qed

text \<open>A commit page matches a data page and an object identifier exactly when the data page
  is valid and building the commit page for that data page and object yields those very bytes: a
  commit record can neither be forged from other fields nor be replayed for another data page,
  object, lease or location.\<close>

theorem owned_page_commit_canonical:
  assumes "wf_pg_binding c" and "wf_pg_binding d" and "pg_pair (Ptr ca c) (Ptr da d)"
    and "length cp = 4096" and "length dp = 4096" and "length out = 4096"
    and "length object_id = 16" and "identity object_id"
    and "spans_apart [(cpa, 4096), (dpa, 4096), (ca, 64), (da, 64), (ha, 8), (oa, 4096), (ia, 16)]"
  shows "owned_page_match_commit (Ptr cpa cp) 4096 (Ptr ca c) (Ptr ia object_id) (Ptr dpa dp) 4096
           (Ptr da d) (Ptr ha (Some h)) = OWNED_PAGE_VALID \<longleftrightarrow>
         owned_page_build_commit (Ptr oa out) 4096 (Ptr ca c) (Ptr ia object_id) (Ptr dpa dp) 4096
           (Ptr da d) (Ptr ha (Some h)) = (OWNED_PAGE_VALID, Ptr oa cp)"
proof -
  have apart: "\<not> overlap cpa 4096 ca 64" "\<not> overlap cpa 4096 ha 8" "\<not> overlap dpa 4096 da 64"
    "\<not> overlap dpa 4096 ha 8" "\<not> overlap oa 4096 ca 64" "\<not> overlap oa 4096 ha 8"
    "\<not> overlap oa 4096 ia 16" "\<not> overlap oa 4096 dpa 4096" "\<not> overlap oa 4096 da 64"
    using assms(9) by (auto simp: overlap_sym)
  have kinds: "pg_kind c = OWNED_PAGE_COMMIT" "pg_kind d = OWNED_PAGE_DATA"
    "pg_binding_valid c" "pg_binding_valid d"
    using assms(3) by (simp_all add: pg_pair.simps)
  obtain rc view where dv: "pg_validate_body (Ptr dpa dp) 4096 (Ptr da d) (Ptr ha (Some h)) = (rc, view)"
    by fastforce
  note vc = pg_validate_body_valid [OF assms(1,4) kinds(3) apart(1,2), of h]
  show ?thesis
  proof (cases "rc = OWNED_PAGE_VALID")
    case False
    then have "\<not> owned_page_match_commit (Ptr cpa cp) 4096 (Ptr ca c) (Ptr ia object_id) (Ptr dpa dp) 4096
           (Ptr da d) (Ptr ha (Some h)) = OWNED_PAGE_VALID"
      using dv by (auto simp: pg_api not_erased_def case_prod_beta Let_def split: if_splits)
    moreover have "\<not> owned_page_build_commit (Ptr oa out) 4096 (Ptr ca c) (Ptr ia object_id) (Ptr dpa dp)
        4096 (Ptr da d) (Ptr ha (Some h)) = (OWNED_PAGE_VALID, Ptr oa cp)"
      using dv False by (auto simp: pg_api split: owned_page_result.splits if_splits)
    ultimately show ?thesis by simp
  next
    case True
    note dw = pg_validate_body_valid [OF assms(2,5) kinds(4) apart(3,4), of h view]
    have g: "length (pv_digest view) = 32" using dv True dw assms(5) by auto
    let ?y = "pg_commit_payload object_id d (pv_digest view) (replicate 2048 0xff)"
    have ff: "part 96 2048 (blit 0 (replicate 4096 255) out) = replicate 2048 255"
      using assms(6) by (simp add: buf)
    have "owned_page_build_commit (Ptr oa out) 4096 (Ptr ca c) (Ptr ia object_id) (Ptr dpa dp) 4096
           (Ptr da d) (Ptr ha (Some h)) = (OWNED_PAGE_VALID, Ptr oa cp) \<longleftrightarrow>
        pg_seal (blit 96 ?y (blit 0 (replicate 4096 0xff) out)) c h = (OWNED_PAGE_VALID, cp)"
      using dv True assms apart kinds ff
      by (simp add: pg_api hash_valid_def case_prod_beta prod_eq_iff Let_def)
    also have "\<dots> \<longleftrightarrow> part 96 2048 cp = ?y \<and> cp = pg_page c (part 96 2048 cp) (part 2144 32 cp) \<and>
        pg_digest h cp = Some (part 2144 32 cp)"
      by (rule pg_seal_valid_iff) (use assms in simp_all)
    also have "\<dots> \<longleftrightarrow> owned_page_match_commit (Ptr cpa cp) 4096 (Ptr ca c) (Ptr ia object_id)
        (Ptr dpa dp) 4096 (Ptr da d) (Ptr ha (Some h)) = OWNED_PAGE_VALID"
    proof -
      obtain rcc cv where cv: "pg_validate_body (Ptr cpa cp) 4096 (Ptr ca c) (Ptr ha (Some h)) = (rcc, cv)"
        by fastforce
      have "owned_page_match_commit (Ptr cpa cp) 4096 (Ptr ca c) (Ptr ia object_id)
          (Ptr dpa dp) 4096 (Ptr da d) (Ptr ha (Some h)) = OWNED_PAGE_VALID \<longleftrightarrow>
          rcc = OWNED_PAGE_VALID \<and> part 16 16 (the (pv_payload cv)) = object_id \<and>
          part 48 32 (the (pv_payload cv)) = pv_digest view"
        using cv dv True assms(3,7,8) g vc [of cv] assms(4)
        by (auto simp: pg_api not_erased_def ct_equal_iff Let_def split: if_splits)
      also have "\<dots> \<longleftrightarrow> cp = pg_page c (part 96 2048 cp) (part 2144 32 cp) \<and>
          pg_digest h cp = Some (part 2144 32 cp) \<and> commit_syntax (part 96 2048 cp) c \<and>
          part 16 16 (part 96 2048 cp) = object_id \<and> part 48 32 (part 96 2048 cp) = pv_digest view"
        using vc [of cv] vc [of "\<lparr>pv_payload = Some (part 96 2048 cp), pv_digest = part 2144 32 cp\<rparr>"]
          cv kinds(1) by auto
      finally show ?thesis
        using commit_payload_iff [OF _ assms(7) g assms(8,3), of "part 96 2048 cp"] assms(4) by auto
    qed
    finally show ?thesis by simp
  qed
qed

definition demo_pg_commit :: owned_page_binding where
  "demo_pg_commit = demo_pg_binding\<lparr>pg_logical_page := 6, pg_physical_row := 70, pg_kind := 2\<rparr>"

lemma demo_pg_pair: "wf_pg_binding demo_pg_commit" "pg_pair (Ptr 30000 demo_pg_commit) (Ptr 20000 demo_pg_binding)"
  by (simp_all add: demo_pg_commit_def demo_pg_binding_def wf_pg_binding_def pg_pair.simps
      pg_binding_valid_def word_less_nat_alt word_le_nat_alt)

lemma demo_data_page:
  obtains dp view where "length dp = 4096" "pg_validate_body (Ptr 10000 dp) 4096 (Ptr 20000 demo_pg_binding)
    (Ptr 21000 (Some demo_sha)) = (OWNED_PAGE_VALID, view)"
proof -
  let ?y = "replicate 2048 (7::u8)" and ?b = demo_pg_binding
  obtain v where v: "pg_digest demo_sha (pg_header ?b (blit 96 ?y (replicate 4096 0xff))) = Some v"
    using demo_sha_run by (auto simp: pg_digest_def)
  have "pg_seal (blit 96 ?y (blit 0 (replicate 4096 0xff) (replicate 4096 0))) ?b demo_sha
      = (OWNED_PAGE_VALID, pg_page ?b ?y v)"
    using v by (simp add: pg_seal_page)
  then have "part 96 2048 (pg_page ?b ?y v) = ?y"
    "pg_page ?b ?y v = pg_page ?b (part 96 2048 (pg_page ?b ?y v)) (part 2144 32 (pg_page ?b ?y v))"
    "pg_digest demo_sha (pg_page ?b ?y v) = Some (part 2144 32 (pg_page ?b ?y v))"
    by (subst (asm) pg_seal_valid_iff, simp_all add: demo_pg_binding_ok)+
  then show ?thesis
    using that [of "pg_page ?b ?y v"] pg_validate_body_valid [OF demo_pg_binding_ok(1),
        of "pg_page ?b ?y v" 10000 20000 21000 demo_sha] demo_pg_binding_ok
    by (simp add: overlap_def UINTPTR_MAX_def)
qed

theorem owned_page_commit_canonical_witness:
  "\<exists>cp dp. owned_page_match_commit (Ptr 40000 cp) 4096 (Ptr 30000 demo_pg_commit)
     (Ptr 60000 (replicate 16 5)) (Ptr 10000 dp) 4096 (Ptr 20000 demo_pg_binding)
     (Ptr 21000 (Some demo_sha)) = OWNED_PAGE_VALID"
proof -
  let ?c = demo_pg_commit and ?d = demo_pg_binding and ?i = "replicate 16 (5::u8)"
  obtain dp view where dp: "length dp = 4096" and dv: "pg_validate_body (Ptr 10000 dp) 4096
      (Ptr 20000 ?d) (Ptr 21000 (Some demo_sha)) = (OWNED_PAGE_VALID, view)"
    by (rule demo_data_page)
  let ?y = "pg_commit_payload ?i ?d (pv_digest view) (replicate 2048 0xff)"
  obtain v where v: "pg_digest demo_sha (pg_header ?c (blit 96 ?y (replicate 4096 0xff))) = Some v"
    using demo_sha_run by (auto simp: pg_digest_def)
  have apart: "spans_apart [(40000, 4096), (10000, 4096), (30000, 64), (20000, 64), (21000, 8),
      (70000, 4096), (60000, 16)]"
    by (simp add: overlap_def UINTPTR_MAX_def)
  have "pg_binding_valid ?c" using demo_pg_pair(2) by (simp add: pg_pair.simps)
  moreover have "part 96 2048 (blit 0 (replicate 4096 255) (replicate 4096 0)) = replicate 2048 (255::u8)"
    by (simp add: buf)
  ultimately have "owned_page_build_commit (Ptr 70000 (replicate 4096 0)) 4096 (Ptr 30000 ?c)
      (Ptr 60000 ?i) (Ptr 10000 dp) 4096 (Ptr 20000 ?d) (Ptr 21000 (Some demo_sha))
      = (OWNED_PAGE_VALID, Ptr 70000 (pg_page ?c ?y v))"
    using apart dv demo_pg_pair(2) v
    by (simp add: pg_api hash_valid_def Let_def pg_seal_page overlap_sym [of 70000])
  then show ?thesis
    using owned_page_commit_canonical [OF demo_pg_pair(1) demo_pg_binding_ok(1) demo_pg_pair(2),
        of "pg_page ?c ?y v" dp "replicate 4096 0" ?i 40000 10000 21000 70000 60000 demo_sha] dp apart
    by auto
qed

end
