(* ===== verification/Volume_Descriptor.thy ===== *)
theory Volume_Descriptor
  imports Owned_Page
begin

text \<open>
  The owned-volume descriptor (\<open>owned_volume_descriptor.c\<close>): 512 bytes naming the identities of a
  volume, its 32 map blocks and its 2 control blocks, and the arithmetic from logical page to
  physical row.  The group shows that validation accepts exactly the built descriptor, that the
  logical-to-physical map is injective and never reaches a control block or the reserved range.
\<close>

section \<open>Model\<close>

datatype owned_volume_result =
  OWNED_VOLUME_VALID | OWNED_VOLUME_NOT_VALID | OWNED_VOLUME_ARGUMENT | OWNED_VOLUME_HASH_ERROR

record owned_volume_spec =
  vs_device_id :: bytes
  vs_volume_id :: bytes
  vs_generation :: u64
  vs_recipient_fingerprint :: bytes
  vs_preservation_manifest :: bytes
  vs_map_blocks :: "u32 list"
  vs_control_blocks :: "u32 list"

record owned_volume_decoded =
  vd_spec :: owned_volume_spec
  vd_digest :: bytes

abbreviation sizeof_vs :: nat where "sizeof_vs \<equiv> 240"
abbreviation sizeof_vd :: nat where "sizeof_vd \<equiv> 272"

definition wf_vs :: "owned_volume_spec \<Rightarrow> bool" where
  "wf_vs s \<longleftrightarrow> length (vs_device_id s) = 16 \<and> length (vs_volume_id s) = 16 \<and>
     length (vs_recipient_fingerprint s) = 32 \<and> length (vs_preservation_manifest s) = 32 \<and>
     length (vs_map_blocks s) = 32 \<and> length (vs_control_blocks s) = 2"

definition vd_magic :: bytes where "vd_magic = ascii ''OPNDVD1'' @ [0]"

definition owned_volume_dhara_sha256 :: bytes where
  "owned_volume_dhara_sha256 =
    [0xfc, 0x38, 0x49, 0x09, 0x4b, 0x35, 0x4c, 0x7b, 0xc4, 0x74, 0xa1, 0x65, 0xcf, 0x08, 0xcf, 0xf0,
     0xe3, 0x6a, 0x9e, 0x33, 0x95, 0x4a, 0xf8, 0x5f, 0xb7, 0x8b, 0xfd, 0x6b, 0xac, 0x3a, 0x3c, 0xbd]"

definition block_valid :: "u32 \<Rightarrow> bool" where
  "block_valid b \<longleftrightarrow> b < 1536 \<and> \<not> (b \<ge> 1549 \<and> b \<le> 1569)"

definition vs_spec_valid :: "owned_volume_spec \<Rightarrow> bool" where
  "vs_spec_valid s \<longleftrightarrow>
     identity (vs_device_id s) \<and> identity (vs_volume_id s) \<and>
     vs_generation s \<noteq> 0 \<and> vs_generation s \<le> INT64_MAX \<and>
     identity (vs_recipient_fingerprint s) \<and> identity (vs_preservation_manifest s) \<and>
     list_all (\<lambda>i. block_valid (vs_map_blocks s ! i) \<and>
         list_all (\<lambda>j. vs_map_blocks s ! i \<noteq> vs_map_blocks s ! j) [0..<i] \<and>
         list_all (\<lambda>j. vs_map_blocks s ! i \<noteq> vs_control_blocks s ! j) [0..<2]) [0..<32] \<and>
     list_all (\<lambda>i. block_valid (vs_control_blocks s ! i) \<and>
         list_all (\<lambda>j. vs_control_blocks s ! i \<noteq> vs_control_blocks s ! j) [0..<i]) [0..<2]"

definition vd_crc :: "bytes \<Rightarrow> u32" where
  "vd_crc p = crc32 (crc_mask 320 324 (part 0 352 p))"

definition vd_digest_of :: "sha_provider \<Rightarrow> bytes \<Rightarrow> bytes option" where
  "vd_digest_of h p = sha_run h (part 0 352 p)"

text \<open>The stores of \<open>encode\<close>, in order.\<close>

definition vd_encode :: "owned_volume_spec \<Rightarrow> bytes \<Rightarrow> bytes" where
  "vd_encode s p =
    (let p = blit 0 (replicate 352 0) p; p = blit 0 vd_magic p;
         p = put16 8 1 p; p = put16 10 352 p; p = put32 12 512 p;
         p = blit 16 (vs_device_id s) p; p = blit 32 (vs_volume_id s) p;
         p = put64 48 (vs_generation s) p;
         p = put32 56 4096 p; p = put16 60 256 p; p = put16 62 64 p; p = put32 64 2048 p;
         p = put16 68 32 p; p = put16 70 2 p; p = blit 72 [1] p; p = blit 73 [1] p; p = put16 74 1 p;
         p = blit 76 owned_volume_dhara_sha256 p;
         p = blit 108 (vs_recipient_fingerprint s) p; p = blit 140 (vs_preservation_manifest s) p;
         p = put32s 172 (vs_map_blocks s) p;
         p = put32s 300 (vs_control_blocks s) p;
         p = put16 308 1536 p; p = put32 320 (vd_crc p) p
     in p)"

definition vd_matches :: "bytes \<Rightarrow> owned_volume_spec \<Rightarrow> bool" where
  "vd_matches p s \<longleftrightarrow>
     \<not> (\<not> ct_equal (part 0 8 p) vd_magic \<or> get16 8 p \<noteq> 1 \<or> get16 10 p \<noteq> 352 \<or>
        get32 12 p \<noteq> 512 \<or> \<not> ct_equal (part 16 16 p) (vs_device_id s) \<or>
        \<not> ct_equal (part 32 16 p) (vs_volume_id s) \<or> get64 48 p \<noteq> vs_generation s \<or>
        get32 56 p \<noteq> 4096 \<or> get16 60 p \<noteq> 256 \<or> get16 62 p \<noteq> 64 \<or> get32 64 p \<noteq> 2048 \<or>
        get16 68 p \<noteq> 32 \<or> get16 70 p \<noteq> 2 \<or> p ! 72 \<noteq> 1 \<or> p ! 73 \<noteq> 1 \<or> get16 74 p \<noteq> 1 \<or>
        \<not> ct_equal (part 76 32 p) owned_volume_dhara_sha256 \<or>
        \<not> ct_equal (part 108 32 p) (vs_recipient_fingerprint s) \<or>
        \<not> ct_equal (part 140 32 p) (vs_preservation_manifest s) \<or>
        get16 308 p \<noteq> 1536 \<or> \<not> all_eq (part 310 10 p) 0 \<or> \<not> all_eq (part 324 28 p) 0) \<and>
     list_all (\<lambda>i. get32 (172 + 4 * i) p = vs_map_blocks s ! i) [0..<32] \<and>
     list_all (\<lambda>i. get32 (300 + 4 * i) p = vs_control_blocks s ! i) [0..<2]"

fun owned_volume_descriptor_build ::
  "bytes ptr \<Rightarrow> nat \<Rightarrow> owned_volume_spec ptr \<Rightarrow> hash_arg \<Rightarrow> owned_volume_result \<times> bytes ptr" where
  "owned_volume_descriptor_build (Ptr oa out) n (Ptr sa s) hash =
     (if n \<noteq> 512 \<or> \<not> vs_spec_valid s \<or> \<not> hash_valid hash \<or> overlap oa n sa sizeof_vs \<or>
         clash (Ptr oa out) n hash sizeof_hash
      then (OWNED_VOLUME_ARGUMENT, Ptr oa out)
      else let p = blit 0 (replicate n 0xff) out; p = vd_encode s p in
        case vd_digest_of (the (hash_fn hash)) p of
          Some v \<Rightarrow> (OWNED_VOLUME_VALID, Ptr oa (blit 352 v p))
        | None \<Rightarrow> (OWNED_VOLUME_HASH_ERROR, Ptr oa (replicate (length p) 0)))"
| "owned_volume_descriptor_build out n s hash = (OWNED_VOLUME_ARGUMENT, out)"

definition vd_cleared :: owned_volume_decoded where
  "vd_cleared = \<lparr>vd_spec = \<lparr>vs_device_id = replicate 16 0, vs_volume_id = replicate 16 0,
      vs_generation = 0, vs_recipient_fingerprint = replicate 32 0,
      vs_preservation_manifest = replicate 32 0, vs_map_blocks = replicate 32 0,
      vs_control_blocks = replicate 2 0\<rparr>, vd_digest = replicate 32 0\<rparr>"

text \<open>The decoded copy that a successful validation publishes.\<close>

definition vd_decode :: "bytes \<Rightarrow> bytes \<Rightarrow> owned_volume_decoded" where
  "vd_decode bytes v = \<lparr>vd_spec = \<lparr>vs_device_id = part 16 16 bytes, vs_volume_id = part 32 16 bytes,
      vs_generation = get64 48 bytes, vs_recipient_fingerprint = part 108 32 bytes,
      vs_preservation_manifest = part 140 32 bytes,
      vs_map_blocks = map (\<lambda>i. get32 (172 + 4 * i) bytes) [0..<32],
      vs_control_blocks = map (\<lambda>i. get32 (300 + 4 * i) bytes) [0..<2]\<rparr>, vd_digest = v\<rparr>"

text \<open>\<open>owned_volume_descriptor_validate\<close> after the guards on the output and its clearing; callers with
  a local output use this body.\<close>

fun vd_validate_body ::
  "bytes ptr \<Rightarrow> nat \<Rightarrow> owned_volume_spec ptr \<Rightarrow> hash_arg \<Rightarrow> owned_volume_result \<times> owned_volume_decoded" where
  "vd_validate_body (Ptr pa p) n (Ptr ea expected) hash =
     (if n \<noteq> 512 \<or> \<not> vs_spec_valid expected \<or> \<not> hash_valid hash \<or>
         overlap pa n ea sizeof_vs \<or> clash (Ptr pa p) n hash sizeof_hash
      then (OWNED_VOLUME_ARGUMENT, vd_cleared)
      else if \<not> vd_matches p expected \<or> get32 320 p \<noteq> vd_crc p \<or> \<not> all_eq (part 384 128 p) 0xff
      then (OWNED_VOLUME_NOT_VALID, vd_cleared)
      else (case vd_digest_of (the (hash_fn hash)) p of
              None \<Rightarrow> (OWNED_VOLUME_HASH_ERROR, vd_cleared)
            | Some v \<Rightarrow> if \<not> ct_equal v (part 352 32 p) then (OWNED_VOLUME_NOT_VALID, vd_cleared)
                        else (OWNED_VOLUME_VALID, vd_decode p v)))"
| "vd_validate_body p n expected hash = (OWNED_VOLUME_ARGUMENT, vd_cleared)"

fun owned_volume_descriptor_validate ::
  "bytes ptr \<Rightarrow> nat \<Rightarrow> owned_volume_spec ptr \<Rightarrow> hash_arg \<Rightarrow> owned_volume_decoded ptr
     \<Rightarrow> owned_volume_result \<times> owned_volume_decoded ptr" where
  "owned_volume_descriptor_validate p n expected hash Null = (OWNED_VOLUME_ARGUMENT, Null)"
| "owned_volume_descriptor_validate p n expected hash (Ptr da d) =
     (if clash (Ptr da d) sizeof_vd p n \<or> clash (Ptr da d) sizeof_vd expected sizeof_vs \<or>
         clash (Ptr da d) sizeof_vd hash sizeof_hash
      then (OWNED_VOLUME_ARGUMENT, Ptr da d)
      else let (rc, d) = vd_validate_body p n expected hash in (rc, Ptr da d))"

fun owned_volume_descriptor_map ::
  "bytes ptr \<Rightarrow> nat \<Rightarrow> owned_volume_spec ptr \<Rightarrow> hash_arg \<Rightarrow> u32 \<Rightarrow> u32 ptr
     \<Rightarrow> owned_volume_result \<times> u32 ptr" where
  "owned_volume_descriptor_map p n expected hash logical_page Null = (OWNED_VOLUME_ARGUMENT, Null)"
| "owned_volume_descriptor_map p n expected hash logical_page (Ptr ra r) =
     (if logical_page \<ge> 2048 \<or> clash (Ptr ra r) 4 p n \<or> clash (Ptr ra r) 4 expected sizeof_vs \<or>
         clash (Ptr ra r) 4 hash sizeof_hash
      then (OWNED_VOLUME_ARGUMENT, Ptr ra r)
      else let (rc, decoded) = vd_validate_body p n expected hash in
        if rc \<noteq> OWNED_VOLUME_VALID then (rc, Ptr ra r)
        else let block = vs_map_blocks (vd_spec decoded) ! unat (logical_page div 64) in
          if \<not> block_valid block \<or> block > (UINT32_MAX - 63) div 64 then (OWNED_VOLUME_NOT_VALID, Ptr ra r)
          else (OWNED_VOLUME_VALID, Ptr ra (block * 64 + logical_page mod 64)))"

declare owned_volume_descriptor_build.simps [simp del] vd_validate_body.simps [simp del]
  owned_volume_descriptor_validate.simps [simp del] owned_volume_descriptor_map.simps [simp del]

lemmas vd_api = owned_volume_descriptor_build.simps owned_volume_descriptor_validate.simps
  owned_volume_descriptor_map.simps

section \<open>Field lemmas\<close>

lemma length_vd_consts [simp]: "length vd_magic = 8" "length owned_volume_dhara_sha256 = 32"
  by (simp_all add: vd_magic_def owned_volume_dhara_sha256_def)

lemma length_vd_encode [simp]: "length (vd_encode s p) = length p"
  by (simp add: vd_encode_def Let_def put32s_blit)

lemma vd_encode_fields:
  assumes "wf_vs s" and "length p = 512"
  shows "part 0 8 (vd_encode s p) = vd_magic" "part 8 2 (vd_encode s p) = le_bytes 2 (1::u16)"
    "part 10 2 (vd_encode s p) = le_bytes 2 (352::u16)" "part 12 4 (vd_encode s p) = le_bytes 4 (512::u32)"
    "part 16 16 (vd_encode s p) = vs_device_id s" "part 32 16 (vd_encode s p) = vs_volume_id s"
    "part 48 8 (vd_encode s p) = le_bytes 8 (vs_generation s)"
    "part 56 4 (vd_encode s p) = le_bytes 4 (4096::u32)" "part 60 2 (vd_encode s p) = le_bytes 2 (256::u16)"
    "part 62 2 (vd_encode s p) = le_bytes 2 (64::u16)" "part 64 4 (vd_encode s p) = le_bytes 4 (2048::u32)"
    "part 68 2 (vd_encode s p) = le_bytes 2 (32::u16)" "part 70 2 (vd_encode s p) = le_bytes 2 (2::u16)"
    "part 72 1 (vd_encode s p) = [1]" "part 73 1 (vd_encode s p) = [1]"
    "part 74 2 (vd_encode s p) = le_bytes 2 (1::u16)"
    "part 76 32 (vd_encode s p) = owned_volume_dhara_sha256"
    "part 108 32 (vd_encode s p) = vs_recipient_fingerprint s"
    "part 140 32 (vd_encode s p) = vs_preservation_manifest s"
    "part 172 128 (vd_encode s p) = le32s (vs_map_blocks s)"
    "part 300 8 (vd_encode s p) = le32s (vs_control_blocks s)"
    "part 308 2 (vd_encode s p) = le_bytes 2 (1536::u16)"
    "part 310 10 (vd_encode s p) = replicate 10 0"
    "part 324 28 (vd_encode s p) = replicate 28 0"
    "part 352 160 (vd_encode s p) = part 352 160 p"
  using assms by (simp_all add: vd_encode_def Let_def put_defs wf_vs_def buf)

lemma vd_encode_crc:
  assumes "wf_vs s" and "length p = 512"
  shows "part 320 4 (vd_encode s p) = le_bytes 4 (vd_crc (vd_encode s p))"
  using assms
  by (simp add: vd_encode_def Let_def put_defs wf_vs_def buf part_blit_prefix vd_crc_def crc_mask_blit)

lemma vd_encode_prefix:
  assumes "wf_vs s" and "length p = 512" and "length q = 512"
  shows "part 0 352 (vd_encode s p) = part 0 352 (vd_encode s q)"
  using assms
  by (simp add: vd_encode_def Let_def put_defs wf_vs_def buf part_blit_prefix vd_crc_def)

abbreviation vd_layout :: "nat list" where
  "vd_layout \<equiv> [8, 2, 2, 4, 16, 16, 8, 4, 2, 2, 4, 2, 2, 1, 1, 2, 32, 32, 32, 128, 8, 2, 10, 4, 28, 160]"

definition vd_header_ok :: "bytes \<Rightarrow> owned_volume_spec \<Rightarrow> bool" where
  "vd_header_ok p s \<longleftrightarrow> vd_matches p s \<and> get32 320 p = vd_crc p"

lemma part_1_iff: "i < length p \<Longrightarrow> part i 1 p = [x] \<longleftrightarrow> p ! i = x"
  by (simp add: part_def Cons_nth_drop_Suc [symmetric])

lemma vd_header_ok_fields:
  assumes "wf_vs s" and "length p = 512"
  shows "vd_header_ok p s \<longleftrightarrow>
    part 0 8 p = vd_magic \<and> part 8 2 p = le_bytes 2 (1::u16) \<and> part 10 2 p = le_bytes 2 (352::u16) \<and>
    part 12 4 p = le_bytes 4 (512::u32) \<and> part 16 16 p = vs_device_id s \<and>
    part 32 16 p = vs_volume_id s \<and> part 48 8 p = le_bytes 8 (vs_generation s) \<and>
    part 56 4 p = le_bytes 4 (4096::u32) \<and> part 60 2 p = le_bytes 2 (256::u16) \<and>
    part 62 2 p = le_bytes 2 (64::u16) \<and> part 64 4 p = le_bytes 4 (2048::u32) \<and>
    part 68 2 p = le_bytes 2 (32::u16) \<and> part 70 2 p = le_bytes 2 (2::u16) \<and>
    part 72 1 p = [1] \<and> part 73 1 p = [1] \<and> part 74 2 p = le_bytes 2 (1::u16) \<and>
    part 76 32 p = owned_volume_dhara_sha256 \<and> part 108 32 p = vs_recipient_fingerprint s \<and>
    part 140 32 p = vs_preservation_manifest s \<and> part 172 128 p = le32s (vs_map_blocks s) \<and>
    part 300 8 p = le32s (vs_control_blocks s) \<and> part 308 2 p = le_bytes 2 (1536::u16) \<and>
    part 310 10 p = replicate 10 0 \<and> part 324 28 p = replicate 28 0 \<and>
    part 320 4 p = le_bytes 4 (vd_crc p)"
proof -
  have m: "list_all (\<lambda>i. get32 (172 + 4 * i) p = vs_map_blocks s ! i) [0..<32] \<longleftrightarrow>
      part 172 128 p = le32s (vs_map_blocks s)"
    using get32s_iff [of 172 "vs_map_blocks s" p] assms by (simp add: wf_vs_def list_all_iff atLeast0LessThan lessThan_def)
  have c: "list_all (\<lambda>i. get32 (300 + 4 * i) p = vs_control_blocks s ! i) [0..<2] \<longleftrightarrow>
      part 300 8 p = le32s (vs_control_blocks s)"
    using get32s_iff [of 300 "vs_control_blocks s" p] assms by (simp add: wf_vs_def list_all_iff atLeast0LessThan lessThan_def)
  show ?thesis
    unfolding vd_header_ok_def vd_matches_def m c using assms
    by (simp add: get_eq_iff ct_equal_iff all_eq_iff wf_vs_def part_1_iff [symmetric] del: One_nat_def) blast
qed

lemma vd_header_ok_iff:
  assumes "wf_vs s" and "length p = 512"
  shows "vd_header_ok p s \<longleftrightarrow> vd_encode s p = p"
proof
  let ?h = "vd_encode s p"
  note hf = vd_encode_fields [OF assms]
  assume ok: "vd_header_ok p s"
  note pf = ok [unfolded vd_header_ok_fields [OF assms]]
  have lo: "part 0 320 ?h = part 0 320 p"
    using same_fields_part [of 0 "[8, 2, 2, 4, 16, 16, 8, 4, 2, 2, 4, 2, 2, 1, 1, 2, 32, 32, 32, 128, 8, 2, 10]" ?h p]
      hf pf by simp
  have "crc_mask 320 324 (part 0 352 ?h) = crc_mask 320 324 (part 0 352 p)"
    by (rule crc_mask_cong) (use lo hf pf assms in \<open>simp_all add: buf\<close>)
  then have "part 320 4 ?h = part 320 4 p"
    using pf vd_encode_crc [OF assms] by (simp add: vd_crc_def)
  then have "same_fields 0 vd_layout ?h p" using hf pf by simp
  then show "?h = p" by (rule eq_by_fields) (use assms in simp_all)
next
  assume eq: "vd_encode s p = p"
  note hf = vd_encode_fields [OF assms, unfolded eq] vd_encode_crc [OF assms, unfolded eq]
  show "vd_header_ok p s" unfolding vd_header_ok_fields [OF assms] using hf by simp
qed

text \<open>The descriptor that the builder produces when hashing yields \<open>v\<close>.\<close>

definition vd_image :: "owned_volume_spec \<Rightarrow> bytes \<Rightarrow> bytes" where
  "vd_image s v = blit 352 v (vd_encode s (replicate 512 0xff))"

lemma vd_image_parts:
  assumes "wf_vs s" and "length v = 32"
  shows "part 0 352 (vd_image s v) = part 0 352 (vd_encode s (replicate 512 0xff))"
    "part 352 32 (vd_image s v) = v" "part 384 128 (vd_image s v) = replicate 128 0xff"
proof -
  have "part 352 160 (vd_encode s (replicate 512 0xff)) = part 352 160 (replicate 512 0xff)"
    by (rule vd_encode_fields(25)) (use assms in simp_all)
  from arg_cong [OF this, of "part 32 128"]
  have "part 384 128 (vd_encode s (replicate 512 0xff)) = replicate 128 0xff" by (simp add: buf)
  then show "part 384 128 (vd_image s v) = replicate 128 0xff"
    using assms by (simp add: vd_image_def buf)
qed (use assms in \<open>simp_all add: vd_image_def buf\<close>)

lemma vd_image_canonical:
  assumes "wf_vs s" and "length p = 512"
  shows "vd_header_ok p s \<and> all_eq (part 384 128 p) 0xff \<longleftrightarrow> p = vd_image s (part 352 32 p)"
proof -
  let ?v = "part 352 32 p"
  note ip = vd_image_parts [OF assms(1), of ?v]
  have len: "length (vd_image s ?v) = 512" by (simp add: vd_image_def)
  have pre: "part 0 352 (vd_encode s p) = part 0 352 (vd_encode s (replicate 512 0xff))"
    by (rule vd_encode_prefix) (use assms in simp_all)
  show ?thesis
  proof (intro iffI conjI)
    assume l: "vd_header_ok p s \<and> all_eq (part 384 128 p) 0xff"
    then have "same_fields 0 [352, 32, 128] p (vd_image s ?v)"
      using pre ip assms vd_header_ok_iff [OF assms] by (simp add: all_eq_iff)
    then show "p = vd_image s ?v" by (rule eq_by_fields) (use assms len in simp_all)
  next
    assume r: "p = vd_image s ?v"
    then have "part 0 352 p = part 0 352 (vd_encode s p)" using pre ip(1) assms by simp
    moreover have "part 352 160 (vd_encode s p) = part 352 160 p"
      by (rule vd_encode_fields(25) [OF assms])
    ultimately have "same_fields 0 [352, 160] (vd_encode s p) p" by simp
    then have "vd_encode s p = p" by (rule eq_by_fields) (use assms in simp_all)
    then show "vd_header_ok p s" using vd_header_ok_iff [OF assms] by simp
    show "all_eq (part 384 128 p) 0xff" using ip(3) r assms by (simp add: all_eq_iff)
  qed
qed

lemma vd_decode_image:
  assumes "wf_vs s" and "length p = 512" and "vd_header_ok p s"
  shows "vd_decode p v = \<lparr>vd_spec = s, vd_digest = v\<rparr>"
proof -
  note pf = assms(3) [unfolded vd_header_ok_fields [OF assms(1,2)]]
  have "map (\<lambda>i. get32 (172 + 4 * i) p) [0..<32] = vs_map_blocks s"
    using get32s_iff [of 172 "vs_map_blocks s" p] assms pf
    by (intro nth_equalityI) (simp_all add: wf_vs_def)
  moreover have "map (\<lambda>i. get32 (300 + 4 * i) p) [0..<2] = vs_control_blocks s"
    using get32s_iff [of 300 "vs_control_blocks s" p] assms pf
    by (intro nth_equalityI) (simp_all add: wf_vs_def)
  moreover have "get64 48 p = vs_generation s" using pf assms(2) by (simp add: get_eq_iff)
  ultimately show ?thesis using pf by (simp add: vd_decode_def)
qed

section \<open>Validation against construction\<close>

lemma vd_validate_body_valid:
  assumes "wf_vs s" and "length p = 512" and "vs_spec_valid s"
    and "\<not> overlap pa 512 sa sizeof_vs" and "\<not> overlap pa 512 ha sizeof_hash"
  shows "vd_validate_body (Ptr pa p) 512 (Ptr sa s) (Ptr ha (Some h)) = (OWNED_VOLUME_VALID, d) \<longleftrightarrow>
    p = vd_image s (part 352 32 p) \<and> vd_digest_of h p = Some (part 352 32 p) \<and>
    d = \<lparr>vd_spec = s, vd_digest = part 352 32 p\<rparr>"
proof -
  have eq: "ct_equal v (part 352 32 p) \<longleftrightarrow> v = part 352 32 p" if "vd_digest_of h p = Some v" for v
    using that assms(2) by (auto simp: vd_digest_of_def ct_equal_iff dest: sha_run_length)
  show ?thesis
    using assms(2-5) eq vd_image_canonical [OF assms(1,2)] vd_decode_image [OF assms(1,2)]
    by (auto simp: vd_validate_body.simps hash_valid_def vd_header_ok_def split: option.splits if_splits)
qed

text \<open>Whenever the body validates, the guards held.\<close>

lemma vd_validate_body_guards:
  assumes "vd_validate_body p n e h = (OWNED_VOLUME_VALID, d)"
  obtains pa bs sa s where "p = Ptr pa bs" "e = Ptr sa s" "n = 512" "vs_spec_valid s" "hash_valid h"
  using assms by (cases p; cases e) (auto simp: vd_validate_body.simps split: if_splits)


lemma vd_validate_body_spec:
  assumes "vd_validate_body (Ptr pa p) n (Ptr sa s) h = (OWNED_VOLUME_VALID, d)"
    and "wf_vs s" and "length p = n"
  shows "n = 512 \<and> vs_spec_valid s \<and> vd_spec d = s"
proof -
  have n: "n = 512" using assms(1) by (auto simp: vd_validate_body.simps split: if_splits)
  then have "length p = 512" using assms(3) by simp
  from vd_decode_image [OF assms(2) this] show ?thesis
    using assms(1) by (auto simp: vd_validate_body.simps vd_header_ok_def split: if_splits option.splits)
qed

section \<open>The logical-to-physical map\<close>

lemma vs_spec_valid_blocks:
  assumes "vs_spec_valid s" and "wf_vs s"
  shows "\<And>i. i < 32 \<Longrightarrow> block_valid (vs_map_blocks s ! i)"
    and "\<And>i. i < 32 \<Longrightarrow> vs_map_blocks s ! i \<notin> set (vs_control_blocks s)"
    and "distinct (vs_map_blocks s)" and "distinct (vs_control_blocks s)"
proof -
  have len: "length (vs_map_blocks s) = 32" "length (vs_control_blocks s) = 2"
    using assms(2) by (simp_all add: wf_vs_def)
  have m: "block_valid (vs_map_blocks s ! i)" "\<And>j. j < i \<Longrightarrow> vs_map_blocks s ! i \<noteq> vs_map_blocks s ! j"
    "\<And>j. j < 2 \<Longrightarrow> vs_map_blocks s ! i \<noteq> vs_control_blocks s ! j" if "i < 32" for i
    using assms(1) that by (simp_all add: vs_spec_valid_def list_all_iff del: upt_rec_numeral)
  have c: "\<And>j. j < i \<Longrightarrow> vs_control_blocks s ! i \<noteq> vs_control_blocks s ! j" if "i < 2" for i
    using assms(1) that by (simp add: vs_spec_valid_def list_all_iff del: upt_rec_numeral)
  show "block_valid (vs_map_blocks s ! i)" if "i < 32" for i using m(1) that .
  show "vs_map_blocks s ! i \<notin> set (vs_control_blocks s)" if "i < 32" for i
    using m(3) [OF that] len by (metis in_set_conv_nth)
  show "distinct (vs_map_blocks s)"
    unfolding distinct_conv_nth len
  proof (intro allI impI)
    fix i j :: nat assume "i < 32" "j < 32" "i \<noteq> j"
    then show "vs_map_blocks s ! i \<noteq> vs_map_blocks s ! j"
      using m(2) [of i j] m(2) [of j i] by (cases "j < i") auto
  qed
  show "distinct (vs_control_blocks s)"
    unfolding distinct_conv_nth len
  proof (intro allI impI)
    fix i j :: nat assume "i < 2" "j < 2" "i \<noteq> j"
    then show "vs_control_blocks s ! i \<noteq> vs_control_blocks s ! j"
      using c [of i j] c [of j i] by (cases "j < i") auto
  qed
qed

definition vd_row :: "owned_volume_spec \<Rightarrow> u32 \<Rightarrow> nat" where
  "vd_row s lp = 64 * unat (vs_map_blocks s ! (unat lp div 64)) + unat lp mod 64"

lemma vd_map_row:
  assumes "owned_volume_descriptor_map (Ptr pa p) n (Ptr sa s) h lp (Ptr ra r) = (OWNED_VOLUME_VALID, Ptr ra' row)"
    and "wf_vs s" and "length p = n"
  shows "vs_spec_valid s" and "unat lp < 2048" and "unat row = vd_row s lp"
proof -
  obtain d where d: "vd_validate_body (Ptr pa p) n (Ptr sa s) h = (OWNED_VOLUME_VALID, d)"
    and row: "row = vs_map_blocks (vd_spec d) ! unat (lp div 64) * 64 + lp mod 64"
    and blk: "block_valid (vs_map_blocks (vd_spec d) ! unat (lp div 64))" and lp: "\<not> lp \<ge> 2048"
    using assms(1) by (auto simp: vd_api Let_def split: if_splits prod.splits)
  note ds = vd_validate_body_spec [OF d assms(2,3)]
  show "vs_spec_valid s" using ds by simp
  show "unat lp < 2048" using lp by (simp add: word_le_nat_alt)
  have q: "unat (lp div 64) = unat lp div 64" "unat (lp mod 64) = unat lp mod 64"
    by (simp_all add: unat_div unat_mod)
  have "unat (vs_map_blocks s ! (unat lp div 64)) < 1536"
    using blk ds q by (simp add: block_valid_def word_less_nat_alt)
  moreover have "unat lp mod 64 < 64" by simp
  ultimately show "unat row = vd_row s lp"
    using ds q row by (simp add: vd_row_def unat_word_ariths)
qed

lemma mul_add_unique:
  assumes "64 * a + r = 64 * b + t" and "r < 64" and "t < 64"
  shows "a = b \<and> r = (t::nat)"
  using arg_cong [OF assms(1), of "\<lambda>x. x div 64"] arg_cong [OF assms(1), of "\<lambda>x. x mod 64"] assms(2,3)
  by simp

lemma vd_row_inj:
  assumes "vs_spec_valid s" and "wf_vs s" and "unat lp < 2048" and "unat lp' < 2048"
    and "vd_row s lp = vd_row s lp'"
  shows "lp = lp'"
proof -
  have "unat lp mod 64 < 64" "unat lp' mod 64 < 64" by simp_all
  from mul_add_unique [OF assms(5) [unfolded vd_row_def] this]
  have "vs_map_blocks s ! (unat lp div 64) = vs_map_blocks s ! (unat lp' div 64)"
    and m: "unat lp mod 64 = unat lp' mod 64" by (simp_all add: word_unat_eq_iff)
  then have "unat lp div 64 = unat lp' div 64"
    using vs_spec_valid_blocks(3) [OF assms(1,2)] assms by (simp add: wf_vs_def nth_eq_iff_index_eq)
  then have "unat lp = unat lp'" using m div_mult_mod_eq [of "unat lp" 64] by simp
  then show ?thesis by (simp add: word_unat_eq_iff)
qed

text \<open>Claim C14.  The physical row of a logical page is the page's offset inside the map block of its
  64-page group, computed without wrap-around.  It lies below the block limit, never in a control
  block, and two logical pages that share a row are the same page.\<close>

theorem owned_volume_map_injective:
  assumes "wf_vs s" and "length p = n"
    and "owned_volume_descriptor_map (Ptr pa p) n (Ptr sa s) h lp (Ptr ra r)
           = (OWNED_VOLUME_VALID, Ptr ra row)"
    and "owned_volume_descriptor_map (Ptr pa p) n (Ptr sa s) h lp' (Ptr ra r)
           = (OWNED_VOLUME_VALID, Ptr ra row')"
  shows "unat row = 64 * unat (vs_map_blocks s ! (unat lp div 64)) + unat lp mod 64 \<and>
     unat row < 1536 * 64 \<and> row div 64 \<notin> set (vs_control_blocks s) \<and> (row = row' \<longrightarrow> lp = lp')"
proof (intro conjI impI)
  note a = vd_map_row [OF assms(3,1,2)] and b = vd_map_row [OF assms(4,1,2)]
  note bl = vs_spec_valid_blocks [OF a(1) assms(1)]
  have i: "unat lp div 64 < 32" using a(2) by simp
  have blk: "unat (vs_map_blocks s ! (unat lp div 64)) < 1536"
    using bl(1) [OF i] by (simp add: block_valid_def word_less_nat_alt)
  show "unat row = 64 * unat (vs_map_blocks s ! (unat lp div 64)) + unat lp mod 64"
    using a(3) by (simp add: vd_row_def)
  show "unat row < 1536 * 64"
    using a(3) blk mod_less_divisor [of 64 "unat lp"] by (simp add: vd_row_def)
  have "unat (row div 64) = unat (vs_map_blocks s ! (unat lp div 64))"
    using a(3) by (simp add: unat_div vd_row_def)
  then show "row div 64 \<notin> set (vs_control_blocks s)" using bl(2) [OF i] by (metis word_unat_eq_iff)
  assume "row = row'"
  then show "lp = lp'" using a b vd_row_inj [OF a(1) assms(1) a(2) b(2)] by simp
qed

definition demo_vs :: owned_volume_spec where
  "demo_vs = \<lparr>vs_device_id = replicate 16 1, vs_volume_id = replicate 16 2, vs_generation = 3,
     vs_recipient_fingerprint = replicate 32 4, vs_preservation_manifest = replicate 32 5,
     vs_map_blocks = map of_nat [100..<132], vs_control_blocks = [40, 41]\<rparr>"

lemma demo_vs_block: "i < 32 \<Longrightarrow> unat (vs_map_blocks demo_vs ! i) = 100 + i"
  by (simp add: demo_vs_def unat_word_ariths unat_of_nat del: upt_rec_numeral)

lemma demo_vs_ok: "wf_vs demo_vs" "vs_spec_valid demo_vs"
proof -
  show "wf_vs demo_vs" by (simp add: demo_vs_def wf_vs_def)
  have c: "vs_control_blocks demo_vs = [40, 41]" by (simp add: demo_vs_def)
  have "block_valid (vs_map_blocks demo_vs ! i)" "vs_map_blocks demo_vs ! i \<noteq> 40"
    "vs_map_blocks demo_vs ! i \<noteq> 41" if "i < 32" for i
    using demo_vs_block [OF that] that
    by (auto simp: block_valid_def word_less_nat_alt word_le_nat_alt)
  moreover have "vs_map_blocks demo_vs ! i \<noteq> vs_map_blocks demo_vs ! j" if "i < 32" "j < i" for i j
    using demo_vs_block [of i] demo_vs_block [of j] that by auto
  moreover have "[0..<2] = [0, 1]" by (simp add: upt_rec)
  ultimately show "vs_spec_valid demo_vs"
    unfolding vs_spec_valid_def c
    by (simp add: list_all_iff block_valid_def del: upt_rec_numeral)
       (simp add: demo_vs_def identity_replicate del: upt_rec_numeral)
qed

lemma demo_vd_valid:
  obtains p where "length p = 512" and "owned_volume_descriptor_build (Ptr 9000 (replicate 512 0)) 512
     (Ptr 2000 demo_vs) (Ptr 3000 (Some demo_sha)) = (OWNED_VOLUME_VALID, Ptr 9000 p)"
proof -
  obtain v where "vd_digest_of demo_sha (vd_encode demo_vs (replicate 512 0xff)) = Some v"
    using demo_sha_run by (auto simp: vd_digest_of_def)
  then show ?thesis
    using that [of "vd_image demo_vs v"] demo_vs_ok(2)
    by (simp add: vd_api hash_valid_def Let_def vd_image_def overlap_def UINTPTR_MAX_def blit_append)
qed


lemma demo_vd_body:
  assumes "\<And>x. \<exists>v. sha_run h x = Some v"
  obtains p where "length p = 512" and "vd_validate_body (Ptr 1000 p) 512 (Ptr 2000 demo_vs)
     (Ptr 3000 (Some h)) = (OWNED_VOLUME_VALID, \<lparr>vd_spec = demo_vs, vd_digest = part 352 32 p\<rparr>)"
    and "vd_digest_of h p = Some (part 352 32 p)"
proof -
  obtain v where v: "vd_digest_of h (vd_encode demo_vs (replicate 512 0xff)) = Some v"
    using assms by (auto simp: vd_digest_of_def)
  then have l: "length v = 32" by (auto simp: vd_digest_of_def dest: sha_run_length)
  let ?p = "vd_image demo_vs v"
  have len: "length ?p = 512" by (simp add: vd_image_def)
  have "?p = vd_image demo_vs (part 352 32 ?p)" and d: "vd_digest_of h ?p = Some (part 352 32 ?p)"
    using v l vd_image_parts [OF demo_vs_ok(1) l] by (simp_all add: vd_digest_of_def)
  then show ?thesis
    using that [OF len _ d] vd_validate_body_valid [OF demo_vs_ok(1) len demo_vs_ok(2), of 1000 2000 3000]
    by (simp add: overlap_def UINTPTR_MAX_def)
qed

theorem owned_volume_map_injective_witness:
  "\<exists>p. owned_volume_descriptor_map (Ptr 1000 p) 512 (Ptr 2000 demo_vs) (Ptr 3000 (Some demo_sha)) 130
      (Ptr 4000 0) = (OWNED_VOLUME_VALID, Ptr 4000 6530) \<and>
     unat (6530 :: u32) = 64 * unat (vs_map_blocks demo_vs ! 2) + 2 \<and>
     (6530 :: u32) div 64 \<notin> set (vs_control_blocks demo_vs)"
proof -
  obtain p where p: "length p = 512" and v: "vd_validate_body (Ptr 1000 p) 512 (Ptr 2000 demo_vs)
     (Ptr 3000 (Some demo_sha)) = (OWNED_VOLUME_VALID, \<lparr>vd_spec = demo_vs, vd_digest = part 352 32 p\<rparr>)"
    using demo_vd_body [OF demo_sha_run] by metis
  have "vs_map_blocks demo_vs ! 2 = 102" by (simp add: demo_vs_def)
  then have r: "owned_volume_descriptor_map (Ptr 1000 p) 512 (Ptr 2000 demo_vs) (Ptr 3000 (Some demo_sha)) 130
      (Ptr 4000 0) = (OWNED_VOLUME_VALID, Ptr 4000 6530)"
    by (simp add: vd_api v block_valid_def overlap_def UINTPTR_MAX_def)
  from owned_volume_map_injective [OF demo_vs_ok(1) p r r] r show ?thesis by auto
qed

end
