(* ===== verification/Control_Record.thy ===== *)
theory Control_Record
  imports Volume_Descriptor
begin

text \<open>
  The owned control record and the read-only selector over the 128 control pages
  (\<open>owned_control_record.c\<close>).  A record is a sealed 4096-byte page that carries the volume state,
  the pending lease and the retirement bitmaps; records form a digest chain.  The group shows that
  page validation accepts exactly the built page, that the selector reports a clean candidate
  exactly for a complete, unambiguous history ending ACTIVE without a lease, and that along
  a chain of transitions retirement and the lease counter only grow, so that no lease
  identifier is ever issued for two targets.
\<close>

section \<open>Model: records and pages\<close>

datatype owned_control_result =
  OWNED_CONTROL_VALID | OWNED_CONTROL_NOT_VALID | OWNED_CONTROL_ARGUMENT | OWNED_CONTROL_HASH_ERROR

record owned_control_record =
  ct_sequence :: u64
  ct_previous_sequence :: u64
  ct_previous_digest :: bytes
  ct_state :: u32
  ct_lease_kind :: u32
  ct_lease_id :: u64
  ct_target_map_slot :: u32
  ct_target_page :: u32
  ct_target_physical_row :: u32
  ct_bank :: u32
  ct_slot :: u32
  ct_physical_row :: u32
  ct_retired_map :: u32
  ct_retired_control :: u32
  ct_resolution :: u32
  ct_resolved_lease_id :: u64
  ct_lease_high_water :: u64

record owned_control_decoded =
  cd_record :: owned_control_record
  cd_digest :: bytes

abbreviation OWNED_CONTROL_PROVISIONING :: u32 where "OWNED_CONTROL_PROVISIONING \<equiv> 1"
abbreviation OWNED_CONTROL_ACTIVE :: u32 where "OWNED_CONTROL_ACTIVE \<equiv> 2"
abbreviation OWNED_CONTROL_READ_ONLY :: u32 where "OWNED_CONTROL_READ_ONLY \<equiv> 3"
abbreviation OWNED_CONTROL_NO_LEASE :: u32 where "OWNED_CONTROL_NO_LEASE \<equiv> 0"
abbreviation OWNED_CONTROL_ERASE_BLOCK :: u32 where "OWNED_CONTROL_ERASE_BLOCK \<equiv> 1"
abbreviation OWNED_CONTROL_PROGRAM_PAGE :: u32 where "OWNED_CONTROL_PROGRAM_PAGE \<equiv> 2"
abbreviation OWNED_CONTROL_UNRESOLVED :: u32 where "OWNED_CONTROL_UNRESOLVED \<equiv> 0"
abbreviation OWNED_CONTROL_VERIFIED_COMPLETE :: u32 where "OWNED_CONTROL_VERIFIED_COMPLETE \<equiv> 1"
abbreviation OWNED_CONTROL_ABANDONED_RETIRED :: u32 where "OWNED_CONTROL_ABANDONED_RETIRED \<equiv> 2"
abbreviation OWNED_CONTROL_NO_TARGET :: u32 where "OWNED_CONTROL_NO_TARGET \<equiv> UINT32_MAX"
abbreviation sizeof_ct :: nat where "sizeof_ct \<equiv> 120"
abbreviation sizeof_cd :: nat where "sizeof_cd \<equiv> 152"

definition ct_zero :: owned_control_record where
  "ct_zero = \<lparr>ct_sequence = 0, ct_previous_sequence = 0, ct_previous_digest = replicate 32 0,
     ct_state = 0, ct_lease_kind = 0, ct_lease_id = 0, ct_target_map_slot = 0, ct_target_page = 0,
     ct_target_physical_row = 0, ct_bank = 0, ct_slot = 0, ct_physical_row = 0, ct_retired_map = 0,
     ct_retired_control = 0, ct_resolution = 0, ct_resolved_lease_id = 0, ct_lease_high_water = 0\<rparr>"

definition cd_zero :: owned_control_decoded where
  "cd_zero = \<lparr>cd_record = ct_zero, cd_digest = replicate 32 0\<rparr>"

definition wf_ct :: "owned_control_record \<Rightarrow> bool" where
  "wf_ct r \<longleftrightarrow> length (ct_previous_digest r) = 32"

definition control_magic :: bytes where "control_magic = ascii ''OPNDCT1'' @ [0]"

text \<open>The C expression \<open>bitmap & (1U << slot)\<close>; every caller has checked \<open>slot < 32\<close>.\<close>

definition slot_bit :: "u32 \<Rightarrow> u32 \<Rightarrow> bool" where
  "slot_bit bitmap slot \<longleftrightarrow> bitmap AND push_bit (unat slot) 1 \<noteq> 0"

definition ct_record_valid :: "owned_control_record \<Rightarrow> owned_volume_spec \<Rightarrow> bool" where
  "ct_record_valid r s =
    (if ct_sequence r = 0 \<or> ct_sequence r > INT64_MAX \<or> ct_previous_sequence r > INT64_MAX \<or>
        ct_state r < OWNED_CONTROL_PROVISIONING \<or> ct_state r > OWNED_CONTROL_READ_ONLY \<or>
        ct_bank r \<ge> 2 \<or> ct_slot r \<ge> 64 \<or> ct_retired_control r > 3 \<or>
        ct_physical_row r \<noteq> vs_control_blocks s ! unat (ct_bank r) * 64 + ct_slot r \<or>
        ct_lease_kind r > OWNED_CONTROL_PROGRAM_PAGE \<or> ct_resolution r > OWNED_CONTROL_ABANDONED_RETIRED
     then False
     else if ct_sequence r = 1 \<and>
        (ct_previous_sequence r \<noteq> 0 \<or> \<not> all_eq (ct_previous_digest r) 0 \<or>
         ct_state r \<noteq> OWNED_CONTROL_PROVISIONING \<or> ct_lease_kind r \<noteq> 0 \<or> ct_lease_high_water r \<noteq> 0 \<or>
         ct_resolved_lease_id r \<noteq> 0 \<or> ct_resolution r \<noteq> 0)
     then False
     else if ct_sequence r \<noteq> 1 \<and>
        (ct_previous_sequence r \<noteq> ct_sequence r - 1 \<or> all_eq (ct_previous_digest r) 0 \<or>
         all_eq (ct_previous_digest r) 0xff)
     then False
     else if ct_lease_kind r = OWNED_CONTROL_NO_LEASE then
       (if ct_lease_id r \<noteq> 0 \<or> ct_target_map_slot r \<noteq> OWNED_CONTROL_NO_TARGET \<or>
           ct_target_page r \<noteq> OWNED_CONTROL_NO_TARGET \<or>
           ct_target_physical_row r \<noteq> OWNED_CONTROL_NO_TARGET
        then False
        else if ct_resolution r = OWNED_CONTROL_UNRESOLVED then ct_resolved_lease_id r = 0
        else ct_resolved_lease_id r \<noteq> 0 \<and> ct_resolved_lease_id r = ct_lease_high_water r \<and>
          (ct_resolution r \<noteq> OWNED_CONTROL_ABANDONED_RETIRED \<or> ct_state r = OWNED_CONTROL_READ_ONLY))
     else if ct_lease_id r = 0 \<or> ct_lease_id r \<noteq> ct_lease_high_water r \<or> ct_resolution r \<noteq> 0 \<or>
        ct_resolved_lease_id r \<noteq> 0 \<or> ct_target_map_slot r \<ge> 32 \<or> ct_target_page r \<ge> 64 \<or>
        (ct_lease_kind r = OWNED_CONTROL_ERASE_BLOCK \<and> ct_target_page r \<noteq> 0) \<or>
        ct_target_physical_row r \<noteq>
          vs_map_blocks s ! unat (ct_target_map_slot r) * 64 + ct_target_page r
     then False
     else \<not> slot_bit (ct_retired_map r) (ct_target_map_slot r) \<or> ct_state r = OWNED_CONTROL_READ_ONLY)"

definition ct_crc :: "bytes \<Rightarrow> u32" where
  "ct_crc p = crc32 (crc_mask 184 188 (part 0 192 p))"

definition ct_digest :: "sha_provider \<Rightarrow> bytes \<Rightarrow> bytes option" where
  "ct_digest h p = sha_run h (part 0 192 p)"

text \<open>The stores of \<open>ct_encode\<close>, in order.\<close>

definition ct_encode :: "owned_control_record \<Rightarrow> bytes \<Rightarrow> bytes \<Rightarrow> bytes" where
  "ct_encode r dd p =
    (let p = blit 0 (replicate 192 0) p; p = blit 0 control_magic p;
         p = put32 8 1 p; p = put32 12 192 p; p = blit 16 dd p;
         p = put64 48 (ct_sequence r) p; p = put64 56 (ct_previous_sequence r) p;
         p = blit 64 (ct_previous_digest r) p;
         p = put32 96 (ct_state r) p; p = put32 100 (ct_lease_kind r) p; p = put64 104 (ct_lease_id r) p;
         p = put32 112 (ct_target_map_slot r) p; p = put32 116 (ct_target_page r) p;
         p = put32 120 (ct_target_physical_row r) p;
         p = put32 124 (ct_bank r) p; p = put32 128 (ct_slot r) p; p = put32 132 (ct_physical_row r) p;
         p = put32 136 (ct_retired_map r) p; p = put32 140 (ct_retired_control r) p;
         p = put32 144 (ct_resolution r) p; p = put64 148 (ct_resolved_lease_id r) p;
         p = put64 156 (ct_lease_high_water r) p;
         p = put32 164 4096 p; p = put32 184 (ct_crc p) p
     in p)"

definition ct_decode :: "bytes \<Rightarrow> owned_control_record" where
  "ct_decode p = \<lparr>ct_sequence = get64 48 p, ct_previous_sequence = get64 56 p,
     ct_previous_digest = part 64 32 p, ct_state = get32 96 p, ct_lease_kind = get32 100 p,
     ct_lease_id = get64 104 p, ct_target_map_slot = get32 112 p, ct_target_page = get32 116 p,
     ct_target_physical_row = get32 120 p, ct_bank = get32 124 p, ct_slot = get32 128 p,
     ct_physical_row = get32 132 p, ct_retired_map = get32 136 p, ct_retired_control = get32 140 p,
     ct_resolution = get32 144 p, ct_resolved_lease_id = get64 148 p, ct_lease_high_water = get64 156 p\<rparr>"

definition ct_descriptor ::
  "bytes ptr \<Rightarrow> nat \<Rightarrow> owned_volume_spec ptr \<Rightarrow> hash_arg \<Rightarrow> owned_control_result \<times> owned_volume_decoded" where
  "ct_descriptor d dn s h =
    (let (rc, decoded) = vd_validate_body d dn s h in
     (case rc of OWNED_VOLUME_HASH_ERROR \<Rightarrow> OWNED_CONTROL_HASH_ERROR
      | OWNED_VOLUME_ARGUMENT \<Rightarrow> OWNED_CONTROL_ARGUMENT
      | OWNED_VOLUME_VALID \<Rightarrow> OWNED_CONTROL_VALID
      | OWNED_VOLUME_NOT_VALID \<Rightarrow> OWNED_CONTROL_NOT_VALID, decoded))"

definition ct_alias_inputs ::
  "'a ptr \<Rightarrow> nat \<Rightarrow> bytes ptr \<Rightarrow> nat \<Rightarrow> owned_volume_spec ptr \<Rightarrow> hash_arg \<Rightarrow> bool" where
  "ct_alias_inputs p n d dn s h \<longleftrightarrow>
     clash p n d dn \<or> clash p n s sizeof_vs \<or> clash p n h sizeof_hash"

fun owned_control_record_build ::
  "bytes ptr \<Rightarrow> nat \<Rightarrow> owned_control_record ptr \<Rightarrow> bytes ptr \<Rightarrow> nat \<Rightarrow> owned_volume_spec ptr
     \<Rightarrow> hash_arg \<Rightarrow> owned_control_result \<times> bytes ptr" where
  "owned_control_record_build (Ptr oa out) n (Ptr ra r) d dn s h =
     (if n \<noteq> 4096 \<or> \<not> hash_valid h \<or> overlap oa n ra sizeof_ct \<or> ct_alias_inputs (Ptr oa out) n d dn s h
      then (OWNED_CONTROL_ARGUMENT, Ptr oa out)
      else let (rc, descriptor) = ct_descriptor d dn s h in
        if rc \<noteq> OWNED_CONTROL_VALID
        then (rc, if rc = OWNED_CONTROL_HASH_ERROR then Ptr oa (blit 0 (replicate n 0) out) else Ptr oa out)
        else if \<not> ct_record_valid r (vd_spec descriptor) then (OWNED_CONTROL_ARGUMENT, Ptr oa out)
        else let p = blit 0 (replicate n 0xff) out; p = ct_encode r (vd_digest descriptor) p in
          case ct_digest (the (hash_fn h)) p of
            Some g \<Rightarrow> (OWNED_CONTROL_VALID, Ptr oa (blit 192 g p))
          | None \<Rightarrow> (OWNED_CONTROL_HASH_ERROR, Ptr oa (blit 0 (replicate n 0) p)))"
| "owned_control_record_build out n r d dn s h = (OWNED_CONTROL_ARGUMENT, out)"

definition ct_page_ok :: "bytes \<Rightarrow> u32 \<Rightarrow> u32 \<Rightarrow> bytes \<Rightarrow> bool" where
  "ct_page_ok p bank slot dd \<longleftrightarrow>
     \<not> (\<not> ct_equal (part 0 8 p) control_magic \<or> get32 8 p \<noteq> 1 \<or> get32 12 p \<noteq> 192 \<or>
        \<not> ct_equal (part 16 32 p) dd \<or> get32 124 p \<noteq> bank \<or> get32 128 p \<noteq> slot \<or>
        get32 164 p \<noteq> 4096 \<or> \<not> all_eq (part 168 16 p) 0 \<or> \<not> all_eq (part 188 4 p) 0 \<or>
        \<not> all_eq (part 224 (4096 - 224) p) 0xff \<or> get32 184 p \<noteq> ct_crc p)"

definition ct_validate_page ::
  "bytes \<Rightarrow> u32 \<Rightarrow> u32 \<Rightarrow> owned_volume_decoded \<Rightarrow> sha_provider
     \<Rightarrow> owned_control_result \<times> owned_control_decoded" where
  "ct_validate_page p bank slot d h =
    (if \<not> ct_page_ok p bank slot (vd_digest d) then (OWNED_CONTROL_NOT_VALID, cd_zero)
     else let r = ct_decode p in
       if \<not> ct_record_valid r (vd_spec d) then (OWNED_CONTROL_NOT_VALID, cd_zero)
       else case ct_digest h p of
           None \<Rightarrow> (OWNED_CONTROL_HASH_ERROR, cd_zero)
         | Some g \<Rightarrow> if \<not> ct_equal g (part 192 32 p) then (OWNED_CONTROL_NOT_VALID, cd_zero)
                    else (OWNED_CONTROL_VALID, \<lparr>cd_record = r, cd_digest = g\<rparr>))"

text \<open>\<open>owned_control_record_validate\<close> after the guards on the output and its clearing.\<close>

fun ct_validate_body ::
  "bytes ptr \<Rightarrow> nat \<Rightarrow> u32 \<Rightarrow> u32 \<Rightarrow> bytes ptr \<Rightarrow> nat \<Rightarrow> owned_volume_spec ptr \<Rightarrow> hash_arg
     \<Rightarrow> owned_control_result \<times> owned_control_decoded" where
  "ct_validate_body Null n bank slot d dn s h = (OWNED_CONTROL_ARGUMENT, cd_zero)"
| "ct_validate_body (Ptr pa p) n bank slot d dn s h =
     (if n \<noteq> 4096 \<or> bank \<ge> 2 \<or> slot \<ge> 64 \<or> \<not> hash_valid h \<or> ct_alias_inputs (Ptr pa p) n d dn s h
      then (OWNED_CONTROL_ARGUMENT, cd_zero)
      else let (rc, descriptor) = ct_descriptor d dn s h in
        if rc = OWNED_CONTROL_VALID then ct_validate_page p bank slot descriptor (the (hash_fn h))
        else (rc, cd_zero))"

fun owned_control_record_validate ::
  "bytes ptr \<Rightarrow> nat \<Rightarrow> u32 \<Rightarrow> u32 \<Rightarrow> bytes ptr \<Rightarrow> nat \<Rightarrow> owned_volume_spec ptr \<Rightarrow> hash_arg
     \<Rightarrow> owned_control_decoded ptr \<Rightarrow> owned_control_result \<times> owned_control_decoded ptr" where
  "owned_control_record_validate p n bank slot d dn s h Null = (OWNED_CONTROL_ARGUMENT, Null)"
| "owned_control_record_validate p n bank slot d dn s h (Ptr oa out) =
     (if clash (Ptr oa out) sizeof_cd p n \<or> ct_alias_inputs (Ptr oa out) sizeof_cd d dn s h
      then (OWNED_CONTROL_ARGUMENT, Ptr oa out)
      else let (rc, out) = ct_validate_body p n bank slot d dn s h in (rc, Ptr oa out))"

declare owned_control_record_build.simps [simp del] ct_validate_body.simps [simp del]
  owned_control_record_validate.simps [simp del]

lemmas ct_api = owned_control_record_build.simps ct_validate_body.simps owned_control_record_validate.simps

section \<open>Pages: validation against construction\<close>

lemma length_ct_consts [simp]: "length control_magic = 8"
  by (simp add: control_magic_def)

lemma length_ct_encode [simp]: "length (ct_encode r dd p) = length p"
  by (simp add: ct_encode_def Let_def)

lemma ct_encode_fields:
  assumes "wf_ct r" and "length dd = 32" and "length p = 4096"
  shows "part 0 8 (ct_encode r dd p) = control_magic" "part 8 4 (ct_encode r dd p) = le_bytes 4 (1::u32)"
    "part 12 4 (ct_encode r dd p) = le_bytes 4 (192::u32)" "part 16 32 (ct_encode r dd p) = dd"
    "part 48 8 (ct_encode r dd p) = le_bytes 8 (ct_sequence r)"
    "part 56 8 (ct_encode r dd p) = le_bytes 8 (ct_previous_sequence r)"
    "part 64 32 (ct_encode r dd p) = ct_previous_digest r"
    "part 96 4 (ct_encode r dd p) = le_bytes 4 (ct_state r)"
    "part 100 4 (ct_encode r dd p) = le_bytes 4 (ct_lease_kind r)"
    "part 104 8 (ct_encode r dd p) = le_bytes 8 (ct_lease_id r)"
    "part 112 4 (ct_encode r dd p) = le_bytes 4 (ct_target_map_slot r)"
    "part 116 4 (ct_encode r dd p) = le_bytes 4 (ct_target_page r)"
    "part 120 4 (ct_encode r dd p) = le_bytes 4 (ct_target_physical_row r)"
    "part 124 4 (ct_encode r dd p) = le_bytes 4 (ct_bank r)"
    "part 128 4 (ct_encode r dd p) = le_bytes 4 (ct_slot r)"
    "part 132 4 (ct_encode r dd p) = le_bytes 4 (ct_physical_row r)"
    "part 136 4 (ct_encode r dd p) = le_bytes 4 (ct_retired_map r)"
    "part 140 4 (ct_encode r dd p) = le_bytes 4 (ct_retired_control r)"
    "part 144 4 (ct_encode r dd p) = le_bytes 4 (ct_resolution r)"
    "part 148 8 (ct_encode r dd p) = le_bytes 8 (ct_resolved_lease_id r)"
    "part 156 8 (ct_encode r dd p) = le_bytes 8 (ct_lease_high_water r)"
    "part 164 4 (ct_encode r dd p) = le_bytes 4 (4096::u32)"
    "part 168 16 (ct_encode r dd p) = replicate 16 0"
    "part 188 4 (ct_encode r dd p) = replicate 4 0"
    "part 192 3904 (ct_encode r dd p) = part 192 3904 p"
  using assms by (simp_all add: ct_encode_def Let_def put_defs wf_ct_def buf)

lemma ct_encode_crc:
  assumes "wf_ct r" and "length dd = 32" and "length p = 4096"
  shows "part 184 4 (ct_encode r dd p) = le_bytes 4 (ct_crc (ct_encode r dd p))"
  using assms
  by (simp add: ct_encode_def Let_def put_defs wf_ct_def buf part_blit_prefix ct_crc_def crc_mask_blit)

lemma ct_encode_prefix:
  assumes "wf_ct r" and "length dd = 32" and "length p = 4096" and "length q = 4096"
  shows "part 0 192 (ct_encode r dd p) = part 0 192 (ct_encode r dd q)"
  using assms
  by (simp add: ct_encode_def Let_def put_defs wf_ct_def buf part_blit_prefix ct_crc_def)

abbreviation ct_layout :: "nat list" where
  "ct_layout \<equiv> [8, 4, 4, 32, 8, 8, 32, 4, 4, 8, 4, 4, 4, 4, 4, 4, 4, 4, 4, 8, 8, 4, 16, 4, 4, 3904]"

lemma wf_ct_decode [simp]: "length p = 4096 \<Longrightarrow> wf_ct (ct_decode p)"
  by (simp add: wf_ct_def ct_decode_def)

lemma ct_decode_encode:
  assumes "wf_ct r" and "length dd = 32" and "length p = 4096"
  shows "ct_decode (ct_encode r dd p) = r"
proof -
  note f = ct_encode_fields [OF assms]
  show ?thesis
    by (rule owned_control_record.equality) (simp_all add: ct_decode_def get_eq_iff assms(3) f)
qed

lemma ct_decode_fields:
  assumes "length p = 4096" and "ct_decode p = r"
  shows "part 48 8 p = le_bytes 8 (ct_sequence r)"
    "part 56 8 p = le_bytes 8 (ct_previous_sequence r)" "part 64 32 p = ct_previous_digest r"
    "part 96 4 p = le_bytes 4 (ct_state r)" "part 100 4 p = le_bytes 4 (ct_lease_kind r)"
    "part 104 8 p = le_bytes 8 (ct_lease_id r)" "part 112 4 p = le_bytes 4 (ct_target_map_slot r)"
    "part 116 4 p = le_bytes 4 (ct_target_page r)"
    "part 120 4 p = le_bytes 4 (ct_target_physical_row r)"
    "part 124 4 p = le_bytes 4 (ct_bank r)" "part 128 4 p = le_bytes 4 (ct_slot r)"
    "part 132 4 p = le_bytes 4 (ct_physical_row r)" "part 136 4 p = le_bytes 4 (ct_retired_map r)"
    "part 140 4 p = le_bytes 4 (ct_retired_control r)" "part 144 4 p = le_bytes 4 (ct_resolution r)"
    "part 148 8 p = le_bytes 8 (ct_resolved_lease_id r)"
    "part 156 8 p = le_bytes 8 (ct_lease_high_water r)"
  using assms(1) by (auto simp: assms(2) [symmetric] ct_decode_def get_eq_iff [symmetric])

lemma ct_page_ok_fields:
  assumes "length p = 4096" and "length dd = 32"
  shows "ct_page_ok p bank slot dd \<longleftrightarrow>
    part 0 8 p = control_magic \<and> part 8 4 p = le_bytes 4 (1::u32) \<and> part 12 4 p = le_bytes 4 (192::u32) \<and>
    part 16 32 p = dd \<and> part 124 4 p = le_bytes 4 bank \<and> part 128 4 p = le_bytes 4 slot \<and>
    part 164 4 p = le_bytes 4 (4096::u32) \<and> part 168 16 p = replicate 16 0 \<and>
    part 188 4 p = replicate 4 0 \<and> part 224 3872 p = replicate 3872 0xff \<and>
    part 184 4 p = le_bytes 4 (ct_crc p)"
  using assms by (simp add: ct_page_ok_def get_eq_iff ct_equal_iff all_eq_iff) blast

lemma ct_page_ok_iff:
  assumes "wf_ct r" and "length p = 4096" and "length dd = 32"
  shows "ct_page_ok p bank slot dd \<and> ct_decode p = r \<longleftrightarrow>
    ct_encode r dd p = p \<and> bank = ct_bank r \<and> slot = ct_slot r \<and> part 224 3872 p = replicate 3872 0xff"
proof (intro iffI conjI)
  let ?h = "ct_encode r dd p"
  note hf = ct_encode_fields [OF assms(1,3,2)]
  assume ok: "ct_page_ok p bank slot dd \<and> ct_decode p = r"
  note pf = ok [THEN conjunct1, unfolded ct_page_ok_fields [OF assms(2,3)]]
    and df = ct_decode_fields [OF assms(2) conjunct2 [OF ok]]
  show "bank = ct_bank r" "slot = ct_slot r" using pf df by simp_all
  show "part 224 3872 p = replicate 3872 0xff" using pf by simp
  have lo: "part 0 184 ?h = part 0 184 p"
    using same_fields_part [of 0 "[8, 4, 4, 32, 8, 8, 32, 4, 4, 8, 4, 4, 4, 4, 4, 4, 4, 4, 4, 8, 8, 4, 16]" ?h p]
      hf pf df by simp
  have "crc_mask 184 188 (part 0 192 ?h) = crc_mask 184 188 (part 0 192 p)"
    by (rule crc_mask_cong) (use lo hf pf assms in \<open>simp_all add: buf\<close>)
  then have "part 184 4 ?h = part 184 4 p"
    using pf ct_encode_crc [OF assms(1,3,2)] by (simp add: ct_crc_def)
  then have "same_fields 0 ct_layout ?h p" using hf pf df by simp
  then show "?h = p" by (rule eq_by_fields) (use assms in simp_all)
next
  assume r: "ct_encode r dd p = p \<and> bank = ct_bank r \<and> slot = ct_slot r \<and>
    part 224 3872 p = replicate 3872 0xff"
  then have eq: "ct_encode r dd p = p" by simp
  show "ct_decode p = r" using ct_decode_encode [OF assms(1,3,2)] eq by simp
  note hf = ct_encode_fields [OF assms(1,3,2), unfolded eq] ct_encode_crc [OF assms(1,3,2), unfolded eq]
  show "ct_page_ok p bank slot dd" unfolding ct_page_ok_fields [OF assms(2,3)] using hf r by simp
qed

text \<open>The page that the builder produces when hashing yields \<open>g\<close>.\<close>

definition ct_image :: "owned_control_record \<Rightarrow> bytes \<Rightarrow> bytes \<Rightarrow> bytes" where
  "ct_image r dd g = blit 192 g (ct_encode r dd (replicate 4096 0xff))"

lemma length_ct_image [simp]: "length (ct_image r dd g) = 4096"
  by (simp add: ct_image_def)

lemma ct_image_parts:
  assumes "wf_ct r" and "length dd = 32" and "length g = 32"
  shows "part 0 192 (ct_image r dd g) = part 0 192 (ct_encode r dd (replicate 4096 0xff))"
    "part 192 32 (ct_image r dd g) = g" "part 224 3872 (ct_image r dd g) = replicate 3872 0xff"
proof -
  have "part 192 3904 (ct_encode r dd (replicate 4096 0xff)) = part 192 3904 (replicate 4096 0xff)"
    by (rule ct_encode_fields(25)) (use assms in simp_all)
  from arg_cong [OF this, of "part 32 3872"]
  have "part 224 3872 (ct_encode r dd (replicate 4096 0xff)) = replicate 3872 0xff" by (simp add: buf)
  then show "part 224 3872 (ct_image r dd g) = replicate 3872 0xff"
    using assms by (simp add: ct_image_def buf)
qed (use assms in \<open>simp_all add: ct_image_def buf\<close>)

lemma ct_image_canonical:
  assumes "wf_ct r" and "length p = 4096" and "length dd = 32"
  shows "ct_encode r dd p = p \<and> part 224 3872 p = replicate 3872 0xff \<longleftrightarrow> p = ct_image r dd (part 192 32 p)"
proof -
  let ?v = "part 192 32 p"
  note ip = ct_image_parts [OF assms(1,3), of ?v]
  have pre: "part 0 192 (ct_encode r dd p) = part 0 192 (ct_encode r dd (replicate 4096 0xff))"
    by (rule ct_encode_prefix) (use assms in simp_all)
  show ?thesis
  proof (intro iffI conjI)
    assume l: "ct_encode r dd p = p \<and> part 224 3872 p = replicate 3872 0xff"
    then have "same_fields 0 [192, 32, 3872] p (ct_image r dd ?v)"
      using pre ip assms by simp
    then show "p = ct_image r dd ?v" by (rule eq_by_fields) (use assms in simp_all)
  next
    assume r: "p = ct_image r dd ?v"
    then have "part 0 192 p = part 0 192 (ct_encode r dd p)" using pre ip(1) assms by simp
    moreover have "part 192 3904 (ct_encode r dd p) = part 192 3904 p"
      by (rule ct_encode_fields(25) [OF assms(1,3,2)])
    ultimately have "same_fields 0 [192, 3904] (ct_encode r dd p) p" by simp
    then show "ct_encode r dd p = p" by (rule eq_by_fields) (use assms in simp_all)
    show "part 224 3872 p = replicate 3872 0xff" using ip(3) r assms by simp
  qed
qed

lemma ct_validate_page_valid:
  assumes "length p = 4096" and "length (vd_digest d) = 32" and "wf_ct r"
  shows "ct_validate_page p bank slot d h = (OWNED_CONTROL_VALID, \<lparr>cd_record = r, cd_digest = g\<rparr>) \<longleftrightarrow>
    ct_record_valid r (vd_spec d) \<and> bank = ct_bank r \<and> slot = ct_slot r \<and>
    p = ct_image r (vd_digest d) g \<and> ct_digest h (ct_encode r (vd_digest d) (replicate 4096 0xff)) = Some g"
    (is "?l \<longleftrightarrow> ?r")
proof -
  note canon = ct_image_canonical [OF assms(3,1,2)] and ok = ct_page_ok_iff [OF assms(3,1,2), of bank slot]
  have dig: "ct_digest h (ct_image r (vd_digest d) v) = ct_digest h (ct_encode r (vd_digest d) (replicate 4096 0xff))"
    if "length v = 32" for v
    using ct_image_parts [OF assms(3,2) that] by (simp add: ct_digest_def)
  have len: "length v = 32" if "ct_digest h x = Some v" for v x
    using that by (auto simp: ct_digest_def dest: sha_run_length)
  have "?l \<longleftrightarrow> ct_page_ok p bank slot (vd_digest d) \<and> ct_decode p = r \<and> ct_record_valid r (vd_spec d) \<and>
      ct_digest h p = Some g \<and> ct_equal g (part 192 32 p)"
    by (auto simp: ct_validate_page_def Let_def split: option.splits)
  also have "\<dots> \<longleftrightarrow> ct_encode r (vd_digest d) p = p \<and> bank = ct_bank r \<and> slot = ct_slot r \<and>
      part 224 3872 p = replicate 3872 0xff \<and> ct_record_valid r (vd_spec d) \<and>
      ct_digest h p = Some g \<and> g = part 192 32 p"
    using ok assms(1) len [of p g] by (auto simp: ct_equal_iff)
  also have "\<dots> \<longleftrightarrow> p = ct_image r (vd_digest d) g \<and> bank = ct_bank r \<and> slot = ct_slot r \<and>
      ct_record_valid r (vd_spec d) \<and> ct_digest h p = Some g \<and> g = part 192 32 p"
  proof (cases "g = part 192 32 p")
    case True
    from canon have *: "p = ct_image r (vd_digest d) g \<longleftrightarrow>
        ct_encode r (vd_digest d) p = p \<and> part 224 3872 p = replicate 3872 0xff"
      unfolding True by (rule sym)
    show ?thesis unfolding * by (simp only: conj_ac)
  qed (simp only: simp_thms)
  also have "\<dots> \<longleftrightarrow> ?r"
  proof
    assume a: "p = ct_image r (vd_digest d) g \<and> bank = ct_bank r \<and> slot = ct_slot r \<and>
      ct_record_valid r (vd_spec d) \<and> ct_digest h p = Some g \<and> g = part 192 32 p"
    from a have p: "p = ct_image r (vd_digest d) g" by (rule conjunct1)
    from a have dg: "ct_digest h p = Some g" by (elim conjE)
    have "ct_digest h (ct_encode r (vd_digest d) (replicate 4096 0xff)) = Some g"
      using dig [OF len [OF dg]] dg unfolding p by simp
    with a show ?r by (elim conjE) (intro conjI; assumption)
  next
    assume a: ?r
    then have "length g = 32" using len by blast
    with a show "p = ct_image r (vd_digest d) g \<and> bank = ct_bank r \<and> slot = ct_slot r \<and>
      ct_record_valid r (vd_spec d) \<and> ct_digest h p = Some g \<and> g = part 192 32 p"
      using dig [of g] ct_image_parts(2) [OF assms(3,2), of g] by simp
  qed
  finally show ?thesis .
qed


text \<open>Concrete records for the witnesses, with a provider that returns one fixed digest.\<close>

definition const_sha :: sha_provider where "const_sha p = (0, replicate 32 7, 32)"

lemma const_sha_run: "sha_run const_sha p = Some (replicate 32 7)"
  by (simp add: sha_run_def const_sha_def blit_append)

definition demo_vd :: owned_volume_decoded where
  "demo_vd = \<lparr>vd_spec = demo_vs, vd_digest = replicate 32 7\<rparr>"

definition demo_ct :: "u64 \<Rightarrow> owned_control_record" where
  "demo_ct n = ct_zero\<lparr>ct_sequence := n, ct_previous_sequence := n - 1,
     ct_previous_digest := replicate 32 (if n = 1 then 0 else 7),
     ct_state := (if n = 1 then 1 else 2), ct_target_map_slot := UINT32_MAX, ct_target_page := UINT32_MAX,
     ct_target_physical_row := UINT32_MAX, ct_slot := ucast (n - 1), ct_physical_row := 2560 + ucast (n - 1)\<rparr>"

lemma demo_ct_ok: "wf_ct (demo_ct 1)" "wf_ct (demo_ct 2)"
  "ct_record_valid (demo_ct 1) demo_vs" "ct_record_valid (demo_ct 2) demo_vs"
  by (simp_all add: demo_ct_def ct_zero_def wf_ct_def ct_record_valid_def demo_vs_def all_eq_iff
      word_le_nat_alt word_less_nat_alt)

lemma demo_ct_validates:
  assumes "wf_ct r" and "ct_record_valid r demo_vs"
  shows "ct_validate_page (ct_image r (replicate 32 7) (replicate 32 7)) (ct_bank r) (ct_slot r) demo_vd const_sha
    = (OWNED_CONTROL_VALID, \<lparr>cd_record = r, cd_digest = replicate 32 7\<rparr>)"
  using ct_validate_page_valid [of "ct_image r (replicate 32 7) (replicate 32 7)" demo_vd r
      "ct_bank r" "ct_slot r" const_sha "replicate 32 7"] assms
  by (simp add: demo_vd_def ct_digest_def const_sha_run)

lemma demo_vd_descriptor:
  obtains p where "length p = 512"
    and "vd_validate_body (Ptr 1000 p) 512 (Ptr 2000 demo_vs) (Ptr 3000 (Some const_sha)) = (OWNED_VOLUME_VALID, demo_vd)"
proof -
  obtain p where p: "length p = 512" "vd_validate_body (Ptr 1000 p) 512 (Ptr 2000 demo_vs)
     (Ptr 3000 (Some const_sha)) = (OWNED_VOLUME_VALID, \<lparr>vd_spec = demo_vs, vd_digest = part 352 32 p\<rparr>)"
    "vd_digest_of const_sha p = Some (part 352 32 p)"
    using demo_vd_body [of const_sha] const_sha_run by blast
  moreover from p(3) have "part 352 32 p = replicate 32 7" by (simp add: vd_digest_of_def const_sha_run)
  ultimately show ?thesis using that by (simp add: demo_vd_def)
qed


end
