(* ===== verification/Control_Select.thy ===== *)
theory Control_Select
  imports Control_Record
begin

text \<open>
  The transition relation between consecutive control records and the selector
  \<open>owned_control_select\<close> (\<open>owned_control_record.c\<close>), which reads 128 observed control pages and
  decides whether they form one complete, clean history.
\<close>

section \<open>Model\<close>

definition ct_transition :: "owned_control_record \<Rightarrow> owned_control_record \<Rightarrow> bool" where
  "ct_transition a b =
    (if ct_retired_map b AND ct_retired_map a \<noteq> ct_retired_map a \<or>
        ct_retired_control b AND ct_retired_control a \<noteq> ct_retired_control a \<or>
        (ct_state a = OWNED_CONTROL_READ_ONLY \<and> ct_state b \<noteq> OWNED_CONTROL_READ_ONLY) \<or>
        (ct_state a = OWNED_CONTROL_ACTIVE \<and> ct_state b = OWNED_CONTROL_PROVISIONING) \<or>
        ct_lease_high_water b < ct_lease_high_water a
     then False
     else if ct_lease_kind a = 0 \<and> ct_lease_kind b = 0 then
       ct_resolution b = 0 \<and> ct_resolved_lease_id b = 0 \<and> ct_lease_high_water b = ct_lease_high_water a
     else if ct_lease_kind a = 0 then
       ct_lease_id b > ct_lease_high_water a \<and> \<not> slot_bit (ct_retired_map b) (ct_target_map_slot b) \<and>
       ct_state b = ct_state a \<and> ct_state b \<noteq> OWNED_CONTROL_READ_ONLY
     else if ct_lease_kind b \<noteq> 0 then
       ct_lease_kind b = ct_lease_kind a \<and> ct_lease_id b = ct_lease_id a \<and>
       ct_target_map_slot b = ct_target_map_slot a \<and> ct_target_page b = ct_target_page a \<and>
       ct_target_physical_row b = ct_target_physical_row a \<and>
       ct_lease_high_water b = ct_lease_high_water a \<and>
       (ct_state b = ct_state a \<or> ct_state b = OWNED_CONTROL_READ_ONLY)
     else if ct_resolved_lease_id b \<noteq> ct_lease_id a \<or> ct_lease_high_water b \<noteq> ct_lease_high_water a
     then False
     else if ct_resolution b = OWNED_CONTROL_VERIFIED_COMPLETE then
       \<not> slot_bit (ct_retired_map b) (ct_target_map_slot a) \<and>
       (ct_state b = ct_state a \<or> ct_state b = OWNED_CONTROL_READ_ONLY)
     else ct_resolution b = OWNED_CONTROL_ABANDONED_RETIRED \<and>
       slot_bit (ct_retired_map b) (ct_target_map_slot a) \<and> ct_state b = OWNED_CONTROL_READ_ONLY)"

abbreviation OWNED_CONTROL_UNKNOWN_OBSERVATION :: u32 where "OWNED_CONTROL_UNKNOWN_OBSERVATION \<equiv> 0"
abbreviation OWNED_CONTROL_PROVEN_UNUSED :: u32 where "OWNED_CONTROL_PROVEN_UNUSED \<equiv> 1"
abbreviation OWNED_CONTROL_PAGE_PRESENT :: u32 where "OWNED_CONTROL_PAGE_PRESENT \<equiv> 2"
abbreviation OWNED_CONTROL_ERASED_LOOKING :: u32 where "OWNED_CONTROL_ERASED_LOOKING \<equiv> 3"
abbreviation OWNED_CONTROL_UNREADABLE :: u32 where "OWNED_CONTROL_UNREADABLE \<equiv> 4"

record owned_control_observation =
  ob_kind :: u32
  ob_page :: "bytes ptr"

abbreviation OWNED_CONTROL_NO_CANDIDATE :: u32 where "OWNED_CONTROL_NO_CANDIDATE \<equiv> 0"
abbreviation OWNED_CONTROL_CLEAN_CANDIDATE :: u32 where "OWNED_CONTROL_CLEAN_CANDIDATE \<equiv> 1"
abbreviation OWNED_CONTROL_RECOVER_READ_ONLY :: u32 where "OWNED_CONTROL_RECOVER_READ_ONLY \<equiv> 2"

abbreviation OWNED_CONTROL_UNKNOWN :: u32 where "OWNED_CONTROL_UNKNOWN \<equiv> 1"
abbreviation OWNED_CONTROL_BAD_RECORD :: u32 where "OWNED_CONTROL_BAD_RECORD \<equiv> 2"
abbreviation OWNED_CONTROL_DUPLICATE_SEQUENCE :: u32 where "OWNED_CONTROL_DUPLICATE_SEQUENCE \<equiv> 4"
abbreviation OWNED_CONTROL_CHAIN_GAP :: u32 where "OWNED_CONTROL_CHAIN_GAP \<equiv> 8"
abbreviation OWNED_CONTROL_BAD_TRANSITION :: u32 where "OWNED_CONTROL_BAD_TRANSITION \<equiv> 16"
abbreviation OWNED_CONTROL_PENDING_LEASE :: u32 where "OWNED_CONTROL_PENDING_LEASE \<equiv> 32"
abbreviation OWNED_CONTROL_RETIRED_CONTROL :: u32 where "OWNED_CONTROL_RETIRED_CONTROL \<equiv> 64"
abbreviation OWNED_CONTROL_NOT_ACTIVE :: u32 where "OWNED_CONTROL_NOT_ACTIVE \<equiv> 128"
abbreviation OWNED_CONTROL_INCOMPLETE_HISTORY :: u32 where "OWNED_CONTROL_INCOMPLETE_HISTORY \<equiv> 256"

record owned_control_selection =
  cs_kind :: u32
  cs_reasons :: u32
  cs_latest_valid :: u32
  cs_latest_bank :: u32
  cs_latest_slot :: u32
  cs_latest_sequence :: u64
  cs_latest_digest :: bytes
  cs_retired_map :: u32
  cs_retired_control :: u32
  cs_quarantine_all_map_tails :: u32
  cs_pending_lease_valid :: u32
  cs_pending_lease_id :: u64
  cs_pending_map_slot :: u32
  cs_pending_physical_block :: u32

record owned_control_workspace =
  cw_records :: "owned_control_decoded list"
  cw_valid :: "u8 list"

abbreviation sizeof_workspace :: nat where "sizeof_workspace \<equiv> 19584"
abbreviation sizeof_selection :: nat where "sizeof_selection \<equiv> 96"
abbreviation sizeof_observation :: nat where "sizeof_observation \<equiv> 8"

definition cw_zero :: owned_control_workspace where
  "cw_zero = \<lparr>cw_records = replicate 128 cd_zero, cw_valid = replicate 128 0\<rparr>"

definition cs_zero :: owned_control_selection where
  "cs_zero = \<lparr>cs_kind = 0, cs_reasons = 0, cs_latest_valid = 0, cs_latest_bank = 0, cs_latest_slot = 0,
     cs_latest_sequence = 0, cs_latest_digest = replicate 32 0, cs_retired_map = 0, cs_retired_control = 0,
     cs_quarantine_all_map_tails = 0, cs_pending_lease_valid = 0, cs_pending_lease_id = 0,
     cs_pending_map_slot = 0, cs_pending_physical_block = 0\<rparr>"

text \<open>The locals of \<open>owned_control_select\<close> during the first loop.\<close>

record scan =
  sc_work :: owned_control_workspace
  sc_best :: nat
  sc_valid_count :: nat
  sc_reasons :: u32
  sc_retired_map :: u32
  sc_retired_control :: u32

definition scan_init :: scan where
  "scan_init = \<lparr>sc_work = cw_zero, sc_best = 0, sc_valid_count = 0, sc_reasons = 0,
     sc_retired_map = 0, sc_retired_control = 0\<rparr>"

abbreviation rec_at :: "owned_control_workspace \<Rightarrow> nat \<Rightarrow> owned_control_record" where
  "rec_at w i \<equiv> cd_record (cw_records w ! i)"

abbreviation valid_at :: "owned_control_workspace \<Rightarrow> nat \<Rightarrow> bool" where
  "valid_at w i \<equiv> cw_valid w ! i \<noteq> 0"

text \<open>One iteration of the first loop; \<open>None\<close> is the return on a hash error.\<close>

definition select_scan_step ::
  "owned_volume_decoded \<Rightarrow> sha_provider \<Rightarrow> owned_control_observation list \<Rightarrow> nat \<Rightarrow> scan \<Rightarrow> scan option" where
  "select_scan_step descriptor h obs i st =
    (let o' = obs ! i in
     if ob_kind o' = OWNED_CONTROL_PROVEN_UNUSED then Some st
     else if ob_kind o' \<noteq> OWNED_CONTROL_PAGE_PRESENT
     then Some (st\<lparr>sc_reasons := sc_reasons st OR OWNED_CONTROL_UNKNOWN\<rparr>)
     else let (rc, dec) = ct_validate_page (pt (ob_page o')) (of_nat (i div 64)) (of_nat (i mod 64)) descriptor h;
              w = (sc_work st)\<lparr>cw_records := (cw_records (sc_work st))[i := dec]\<rparr> in
       if rc = OWNED_CONTROL_HASH_ERROR then None
       else if rc \<noteq> OWNED_CONTROL_VALID
       then Some (st\<lparr>sc_work := w, sc_reasons := sc_reasons st OR OWNED_CONTROL_BAD_RECORD\<rparr>)
       else let w = w\<lparr>cw_valid := (cw_valid w)[i := 1]\<rparr>;
                best = (if sc_valid_count st = 0 \<or> ct_sequence (rec_at w i) > ct_sequence (rec_at w (sc_best st))
                        then i else sc_best st);
                dup = list_ex (\<lambda>j. valid_at w j \<and> ct_sequence (rec_at w j) = ct_sequence (rec_at w i)) [0..<i]
            in Some (st\<lparr>sc_work := w, sc_best := best, sc_valid_count := sc_valid_count st + 1,
                 sc_retired_map := sc_retired_map st OR ct_retired_map (rec_at w i),
                 sc_retired_control := sc_retired_control st OR ct_retired_control (rec_at w i),
                 sc_reasons := (if dup then sc_reasons st OR OWNED_CONTROL_DUPLICATE_SEQUENCE else sc_reasons st)\<rparr>))"

fun select_scan ::
  "owned_volume_decoded \<Rightarrow> sha_provider \<Rightarrow> owned_control_observation list \<Rightarrow> nat \<Rightarrow> scan option" where
  "select_scan descriptor h obs 0 = Some scan_init"
| "select_scan descriptor h obs (Suc i) =
     (case select_scan descriptor h obs i of None \<Rightarrow> None | Some st \<Rightarrow> select_scan_step descriptor h obs i st)"

text \<open>One iteration of the second loop, which checks placement, chain and transition of record \<open>i\<close>.\<close>

definition select_chain_step :: "owned_control_workspace \<Rightarrow> nat \<Rightarrow> u32 \<Rightarrow> u32" where
  "select_chain_step w i reasons =
    (if \<not> valid_at w i then reasons
     else let r = rec_at w i;
              reasons = (if ct_sequence r \<noteq> of_nat i + 1 then reasons OR OWNED_CONTROL_INCOMPLETE_HISTORY else reasons)
       in if i = 0 then reasons
          else if \<not> valid_at w (i - 1) \<or> ct_previous_sequence r \<noteq> ct_sequence (rec_at w (i - 1)) \<or>
                  \<not> ct_equal (ct_previous_digest r) (cd_digest (cw_records w ! (i - 1)))
          then reasons OR OWNED_CONTROL_CHAIN_GAP
          else if \<not> ct_transition (rec_at w (i - 1)) r then reasons OR OWNED_CONTROL_BAD_TRANSITION
          else reasons)"

definition select_chain :: "owned_control_workspace \<Rightarrow> u32 \<Rightarrow> u32" where
  "select_chain w reasons = fold (select_chain_step w) [0..<128] reasons"

abbreviation quarantine_mask :: u32 where
  "quarantine_mask \<equiv> OWNED_CONTROL_UNKNOWN OR OWNED_CONTROL_BAD_RECORD OR OWNED_CONTROL_DUPLICATE_SEQUENCE OR
     OWNED_CONTROL_CHAIN_GAP OR OWNED_CONTROL_BAD_TRANSITION OR OWNED_CONTROL_INCOMPLETE_HISTORY"

text \<open>\<open>if(c) reasons |= bit;\<close>\<close>

definition flag :: "bool \<Rightarrow> u32 \<Rightarrow> u32 \<Rightarrow> u32" where
  "flag c b reasons = (if c then reasons OR b else reasons)"

text \<open>The reasons and the published fields when at least one record is valid.\<close>

definition select_reasons :: "scan \<Rightarrow> u32" where
  "select_reasons st =
    (let w = sc_work st; r = rec_at w (sc_best st);
         reasons = flag (\<not> valid_at w 0 \<or> ct_sequence (rec_at w 0) \<noteq> 1 \<or> sc_best st + 1 \<noteq> sc_valid_count st)
           OWNED_CONTROL_INCOMPLETE_HISTORY (sc_reasons st);
         reasons = select_chain w reasons;
         reasons = flag (ct_lease_kind r \<noteq> 0) OWNED_CONTROL_PENDING_LEASE reasons;
         reasons = flag (sc_retired_control st \<noteq> 0) OWNED_CONTROL_RETIRED_CONTROL reasons
     in flag (ct_state r \<noteq> OWNED_CONTROL_ACTIVE) OWNED_CONTROL_NOT_ACTIVE reasons)"

definition select_latest :: "owned_volume_decoded \<Rightarrow> scan \<Rightarrow> owned_control_selection" where
  "select_latest descriptor st =
    (let lst = cw_records (sc_work st) ! sc_best st; r = cd_record lst;
         out = cs_zero\<lparr>cs_latest_valid := 1, cs_latest_bank := ct_bank r, cs_latest_slot := ct_slot r,
           cs_latest_sequence := ct_sequence r, cs_latest_digest := cd_digest lst,
           cs_retired_map := sc_retired_map st, cs_retired_control := sc_retired_control st\<rparr>
     in if ct_lease_kind r \<noteq> 0 then
          out\<lparr>cs_pending_lease_valid := 1, cs_pending_lease_id := ct_lease_id r,
            cs_pending_map_slot := ct_target_map_slot r,
            cs_pending_physical_block := vs_map_blocks (vd_spec descriptor) ! unat (ct_target_map_slot r)\<rparr>
        else out)"

text \<open>The publication of the selection after the first loop.\<close>

definition select_publish :: "owned_volume_decoded \<Rightarrow> scan \<Rightarrow> owned_control_selection" where
  "select_publish descriptor st =
    (let (reasons, out) =
          (if sc_valid_count st \<noteq> 0 then
             let reasons = select_reasons st in
             (reasons, (select_latest descriptor st)\<lparr>cs_kind :=
                if reasons \<noteq> 0 then OWNED_CONTROL_RECOVER_READ_ONLY else OWNED_CONTROL_CLEAN_CANDIDATE\<rparr>)
           else (sc_reasons st, cs_zero\<lparr>cs_kind :=
                if sc_reasons st \<noteq> 0 then OWNED_CONTROL_RECOVER_READ_ONLY else OWNED_CONTROL_NO_CANDIDATE\<rparr>));
         out = out\<lparr>cs_reasons := reasons\<rparr>
     in if reasons AND quarantine_mask \<noteq> 0 then out\<lparr>cs_quarantine_all_map_tails := 1\<rparr> else out)"

text \<open>The checks on every observation before any output is cleared.\<close>

definition select_obs_ok ::
  "(nat \<times> owned_control_observation list) \<Rightarrow> (nat \<times> owned_control_workspace) \<Rightarrow> (nat \<times> owned_control_selection)
     \<Rightarrow> bytes ptr \<Rightarrow> nat \<Rightarrow> owned_volume_spec ptr \<Rightarrow> hash_arg \<Rightarrow> owned_control_observation \<Rightarrow> bool" where
  "select_obs_ok obs work out d dn s h o' \<longleftrightarrow>
     \<not> (ob_kind o' > OWNED_CONTROL_UNREADABLE \<or> (ob_kind o' = OWNED_CONTROL_PAGE_PRESENT) \<noteq> (ob_page o' \<noteq> Null)) \<and>
     \<not> (ob_page o' \<noteq> Null \<and>
        (clash (Ptr (fst work) (snd work)) sizeof_workspace (ob_page o') 4096 \<or>
         clash (Ptr (fst out) (snd out)) sizeof_selection (ob_page o') 4096 \<or>
         clash (Ptr (fst obs) (snd obs)) (128 * sizeof_observation) (ob_page o') 4096 \<or>
         ct_alias_inputs (ob_page o') 4096 d dn s h))"

fun owned_control_select ::
  "owned_control_observation list ptr \<Rightarrow> nat \<Rightarrow> bytes ptr \<Rightarrow> nat \<Rightarrow> owned_volume_spec ptr \<Rightarrow> hash_arg
     \<Rightarrow> owned_control_workspace ptr \<Rightarrow> owned_control_selection ptr
     \<Rightarrow> owned_control_result \<times> owned_control_workspace ptr \<times> owned_control_selection ptr" where
  "owned_control_select (Ptr ba obs) n d dn s h (Ptr wa work) (Ptr oa out) =
     (if n \<noteq> 128 \<or> \<not> hash_valid h \<or> overlap wa sizeof_workspace oa sizeof_selection \<or>
         overlap wa sizeof_workspace ba (n * sizeof_observation) \<or>
         overlap oa sizeof_selection ba (n * sizeof_observation) \<or>
         ct_alias_inputs (Ptr wa work) sizeof_workspace d dn s h \<or>
         ct_alias_inputs (Ptr oa out) sizeof_selection d dn s h
      then (OWNED_CONTROL_ARGUMENT, Ptr wa work, Ptr oa out)
      else if \<not> list_all (\<lambda>i. select_obs_ok (ba, obs) (wa, work) (oa, out) d dn s h (obs ! i)) [0..<n]
      then (OWNED_CONTROL_ARGUMENT, Ptr wa work, Ptr oa out)
      else let (rc, descriptor) = ct_descriptor d dn s h in
        if rc \<noteq> OWNED_CONTROL_VALID then (rc, Ptr wa cw_zero, Ptr oa cs_zero)
        else case select_scan descriptor (the (hash_fn h)) obs 128 of
            None \<Rightarrow> (OWNED_CONTROL_HASH_ERROR, Ptr wa cw_zero, Ptr oa cs_zero)
          | Some st \<Rightarrow> (OWNED_CONTROL_VALID, Ptr wa cw_zero, Ptr oa (select_publish descriptor st)))"
| "owned_control_select obs n d dn s h work out = (OWNED_CONTROL_ARGUMENT, work, out)"

declare owned_control_select.simps [simp del]

section \<open>Chains of records\<close>

text \<open>A history: consecutive records are related by \<open>ct_transition\<close> and each is valid.\<close>

definition ct_history :: "owned_volume_spec \<Rightarrow> owned_control_record list \<Rightarrow> bool" where
  "ct_history s rs \<longleftrightarrow> (\<forall>r\<in>set rs. ct_record_valid r s) \<and>
     (\<forall>i. Suc i < length rs \<longrightarrow> ct_transition (rs ! i) (rs ! Suc i))"

text \<open>What a transition never undoes.\<close>

definition ct_mono :: "owned_control_record \<Rightarrow> owned_control_record \<Rightarrow> bool" where
  "ct_mono a b \<longleftrightarrow> ct_retired_map b AND ct_retired_map a = ct_retired_map a \<and>
     ct_retired_control b AND ct_retired_control a = ct_retired_control a \<and>
     (ct_state a = OWNED_CONTROL_READ_ONLY \<longrightarrow> ct_state b = OWNED_CONTROL_READ_ONLY) \<and>
     ct_lease_high_water a \<le> ct_lease_high_water b"

text \<open>The lease that a record carries.\<close>

definition ct_lease :: "owned_control_record \<Rightarrow> u32 \<times> u64 \<times> u32 \<times> u32 \<times> u32" where
  "ct_lease r = (ct_lease_kind r, ct_lease_id r, ct_target_map_slot r, ct_target_page r, ct_target_physical_row r)"

lemma and_absorb_trans: "b AND a = a \<Longrightarrow> c AND b = b \<Longrightarrow> c AND a = (a :: 'a::len word)"
  by (metis and.assoc)

lemma ct_mono_refl: "ct_mono a a"
  by (simp add: ct_mono_def)

lemma ct_mono_trans: "ct_mono a b \<Longrightarrow> ct_mono b c \<Longrightarrow> ct_mono a c"
  by (auto simp: ct_mono_def intro: and_absorb_trans)

lemma if_False_guard: "(if G then False else X) \<Longrightarrow> \<not> G \<and> X"
  by (simp split: if_split_asm)

lemma ct_transition_mono:
  assumes "ct_transition a b"
  shows "ct_mono a b"
  using if_False_guard [OF assms [unfolded ct_transition_def], THEN conjunct1]
  by (simp only: de_Morgan_disj de_Morgan_conj not_not not_less ct_mono_def imp_conv_disj HOL.simp_thms)

lemma ct_transition_lease:
  assumes "ct_transition a b" and "ct_lease_kind a \<noteq> 0" and "ct_lease_kind b \<noteq> 0"
  shows "ct_lease b = ct_lease a"
  using if_False_guard [OF assms(1) [unfolded ct_transition_def], THEN conjunct2] assms(2,3)
  by (simp only: ct_lease_def prod.inject if_False HOL.simp_thms if_True)

lemma ct_transition_fresh:
  assumes "ct_transition a b" and "ct_lease_kind a = 0" and "ct_lease_kind b \<noteq> 0"
  shows "ct_lease_high_water a < ct_lease_id b"
  using if_False_guard [OF assms(1) [unfolded ct_transition_def], THEN conjunct2] assms(2,3)
  by (simp only: if_False HOL.simp_thms if_True)

lemma ct_history_mono:
  assumes "ct_history s rs" and "i \<le> j" and "j < length rs"
  shows "ct_mono (rs ! i) (rs ! j)"
  using assms(2,3)
proof (induction j rule: dec_induct)
  case base
  show ?case by (rule ct_mono_refl)
next
  case (step n)
  then have "ct_transition (rs ! n) (rs ! Suc n)" using assms(1) by (simp add: ct_history_def)
  with step show ?case using ct_mono_trans ct_transition_mono by fastforce
qed

lemma ct_valid_lease_id: "ct_record_valid r s \<Longrightarrow> ct_lease_kind r \<noteq> 0 \<Longrightarrow> ct_lease_id r = ct_lease_high_water r"
  by (auto simp: ct_record_valid_def split: if_splits)

text \<open>Between two records, either both hold the same lease or the later lease is newer.\<close>

lemma ct_history_lease:
  assumes "ct_history s rs" and "i \<le> j" and "j < length rs"
    and "ct_lease_kind (rs ! i) \<noteq> 0" and "ct_lease_kind (rs ! j) \<noteq> 0"
  shows "ct_lease (rs ! j) = ct_lease (rs ! i) \<or> ct_lease_id (rs ! i) < ct_lease_id (rs ! j)"
  using assms(2,3,5)
proof (induction j rule: dec_induct)
  case base
  show ?case by simp
next
  case (step n)
  have tr: "ct_transition (rs ! n) (rs ! Suc n)" using assms(1) step by (simp add: ct_history_def)
  have val: "ct_record_valid (rs ! i) s" "ct_record_valid (rs ! n) s"
    using assms(1) step by (simp_all add: ct_history_def)
  show ?case
  proof (cases "ct_lease_kind (rs ! n) = 0")
    case True
    have "ct_lease_high_water (rs ! i) \<le> ct_lease_high_water (rs ! n)"
      using ct_history_mono [OF assms(1), of i n] step by (simp add: ct_mono_def)
    also have "\<dots> < ct_lease_id (rs ! Suc n)" by (rule ct_transition_fresh [OF tr True step.prems(2)])
    finally show ?thesis using ct_valid_lease_id [OF val(1) assms(4)] by simp
  next
    case False
    then have "ct_lease (rs ! Suc n) = ct_lease (rs ! n)" using ct_transition_lease [OF tr] step by simp
    with False step.IH step.prems show ?thesis by (auto simp: ct_lease_def)
  qed
qed

text \<open>Claim C3.  Along any history of valid records linked by \<open>ct_transition\<close>, retired map and control
  blocks stay retired, READ\_ONLY is final, the lease counter never decreases, and two records that
  carry the same lease identifier carry the same lease on the same target.\<close>

theorem control_history_safe:
  assumes "ct_history s rs" and "i \<le> j" and "j < length rs"
  shows "ct_retired_map (rs ! j) AND ct_retired_map (rs ! i) = ct_retired_map (rs ! i) \<and>
     ct_retired_control (rs ! j) AND ct_retired_control (rs ! i) = ct_retired_control (rs ! i) \<and>
     (ct_state (rs ! i) = OWNED_CONTROL_READ_ONLY \<longrightarrow> ct_state (rs ! j) = OWNED_CONTROL_READ_ONLY) \<and>
     ct_lease_high_water (rs ! i) \<le> ct_lease_high_water (rs ! j) \<and>
     (ct_lease_kind (rs ! i) \<noteq> 0 \<and> ct_lease_kind (rs ! j) \<noteq> 0 \<and>
        ct_lease_id (rs ! i) = ct_lease_id (rs ! j) \<longrightarrow> ct_lease (rs ! i) = ct_lease (rs ! j))"
  using ct_history_mono [OF assms] ct_history_lease [OF assms] by (auto simp: ct_mono_def)

theorem control_history_safe_witness:
  "ct_history demo_vs [demo_ct 1, demo_ct 2] \<and>
   ct_lease_high_water (demo_ct 1) \<le> ct_lease_high_water (demo_ct 2)"
proof -
  have h: "ct_history demo_vs [demo_ct 1, demo_ct 2]"
    using demo_ct_ok(3,4) by (simp add: ct_history_def ct_transition_def demo_ct_def ct_zero_def)
  from control_history_safe [OF h, of 0 1] h show ?thesis by simp
qed

section \<open>The scan loop\<close>

text \<open>The record that observation \<open>i\<close> contributes.\<close>

definition obs_record ::
  "owned_volume_decoded \<Rightarrow> sha_provider \<Rightarrow> owned_control_observation list \<Rightarrow> nat \<Rightarrow> owned_control_decoded option" where
  "obs_record d h obs i =
    (if ob_kind (obs ! i) \<noteq> OWNED_CONTROL_PAGE_PRESENT then None
     else case ct_validate_page (pt (ob_page (obs ! i))) (of_nat (i div 64)) (of_nat (i mod 64)) d h of
       (rc, r) \<Rightarrow> if rc = OWNED_CONTROL_VALID then Some r else None)"

abbreviation seq_of :: "owned_control_decoded option \<Rightarrow> u64" where
  "seq_of x \<equiv> ct_sequence (cd_record (the x))"

text \<open>The facts after \<open>n\<close> iterations, for \<open>V i\<close> the record of observation \<open>i\<close>: what the workspace
  holds, the running maximum, and when no reason and no retired control block was seen.\<close>

definition scan_inv ::
  "(nat \<Rightarrow> owned_control_decoded option) \<Rightarrow> (nat \<Rightarrow> bool) \<Rightarrow> nat \<Rightarrow> scan \<Rightarrow> bool" where
  "scan_inv V unused n st \<longleftrightarrow>
     length (cw_records (sc_work st)) = 128 \<and> length (cw_valid (sc_work st)) = 128 \<and>
     (\<forall>i<128. valid_at (sc_work st) i \<longleftrightarrow> i < n \<and> V i \<noteq> None) \<and>
     (\<forall>i<n. V i \<noteq> None \<longrightarrow> cw_records (sc_work st) ! i = the (V i)) \<and>
     sc_valid_count st = card {i. i < n \<and> V i \<noteq> None} \<and>
     (sc_valid_count st \<noteq> 0 \<longrightarrow> sc_best st < n \<and> V (sc_best st) \<noteq> None \<and>
        (\<forall>i<n. V i \<noteq> None \<longrightarrow> seq_of (V i) \<le> seq_of (V (sc_best st)))) \<and>
     (sc_reasons st = 0 \<longleftrightarrow> (\<forall>i<n. unused i \<or> V i \<noteq> None) \<and>
        (\<forall>i<n. \<forall>j<i. V i \<noteq> None \<and> V j \<noteq> None \<longrightarrow> seq_of (V j) \<noteq> seq_of (V i))) \<and>
     (sc_retired_control st = 0 \<longleftrightarrow>
        (\<forall>i<n. V i \<noteq> None \<longrightarrow> ct_retired_control (cd_record (the (V i))) = 0))"

lemma scan_inv_init: "scan_inv V unused 0 scan_init"
  by (simp add: scan_inv_def scan_init_def cw_zero_def)

lemma prefix_card:
  "card {i. i < Suc n \<and> P i} = (if P n then Suc (card {i. i < n \<and> P i}) else card {i. i < n \<and> P i})"
proof -
  have "{i. i < Suc n \<and> P i} = (if P n then insert n {i. i < n \<and> P i} else {i. i < n \<and> P i})"
    by (auto simp: less_Suc_eq)
  then show ?thesis by simp
qed

lemma scan_inv_skip:
  assumes "scan_inv V unused n st" and "n < 128" and "V n = None"
    and "length recs = 128" and "\<And>i. i \<noteq> n \<Longrightarrow> recs ! i = cw_records (sc_work st) ! i"
    and "reasons = 0 \<longleftrightarrow> sc_reasons st = 0 \<and> unused n"
  shows "scan_inv V unused (Suc n) (st\<lparr>sc_work := (sc_work st)\<lparr>cw_records := recs\<rparr>, sc_reasons := reasons\<rparr>)"
proof -
  have "recs ! i = the (V i)" if "i < n" "V i \<noteq> None" for i
    using assms(1,5) that by (simp add: scan_inv_def)
  then show ?thesis
    using assms(1-4,6) unfolding scan_inv_def prefix_card All_less_Suc
    by (auto simp: less_Suc_eq)
qed

lemma scan_inv_record:
  assumes "scan_inv V unused n st" and "n < 128" and "V n = Some r"
    and "w = (sc_work st)\<lparr>cw_records := (cw_records (sc_work st))[n := r], cw_valid := (cw_valid (sc_work st))[n := 1]\<rparr>"
    and "best = (if sc_valid_count st = 0 \<or> ct_sequence (rec_at w n) > ct_sequence (rec_at w (sc_best st))
           then n else sc_best st)"
    and "reasons = 0 \<longleftrightarrow> sc_reasons st = 0 \<and>
           \<not> (\<exists>j<n. valid_at w j \<and> ct_sequence (rec_at w j) = ct_sequence (rec_at w n))"
  shows "scan_inv V unused (Suc n) (st\<lparr>sc_work := w, sc_best := best, sc_valid_count := sc_valid_count st + 1,
     sc_retired_map := rm, sc_retired_control := sc_retired_control st OR ct_retired_control (rec_at w n),
     sc_reasons := reasons\<rparr>)"
proof -
  note inv = assms(1) [unfolded scan_inv_def]
  have len: "length (cw_records w) = 128" "length (cw_valid w) = 128" using inv assms(4) by simp_all
  have val: "valid_at w i \<longleftrightarrow> i < Suc n \<and> V i \<noteq> None" if "i < 128" for i
    using inv that assms(2,3,4) by (cases "i = n") (auto simp: less_Suc_eq)
  have rec: "cw_records w ! i = the (V i)" if "i < Suc n" "V i \<noteq> None" for i
    using inv that assms(2,3,4) by (cases "i = n") auto
  have cnt: "sc_valid_count st + 1 = card {i. i < Suc n \<and> V i \<noteq> None}"
    using inv assms(3) by (simp add: prefix_card)
  have none: "V i = None" if "sc_valid_count st = 0" "i < n" for i
    using inv that by auto
  have rn: "rec_at w n = cd_record r" using rec [of n] assms(3) by simp
  have bst: "best < Suc n \<and> V best \<noteq> None \<and> (\<forall>i<Suc n. V i \<noteq> None \<longrightarrow> seq_of (V i) \<le> seq_of (V best))"
  proof (cases "sc_valid_count st = 0")
    case True
    then show ?thesis using assms(3,5) none by (auto simp: less_Suc_eq)
  next
    case False
    then have b: "sc_best st < n" "V (sc_best st) \<noteq> None"
      "\<forall>i<n. V i \<noteq> None \<longrightarrow> seq_of (V i) \<le> seq_of (V (sc_best st))" using inv by blast+
    have "rec_at w (sc_best st) = cd_record (the (V (sc_best st)))" using rec [of "sc_best st"] b by simp
    then show ?thesis using b False assms(3,5) rn
      by (auto simp: less_Suc_eq not_less intro: order_trans less_imp_le)
  qed
  have dup: "reasons = 0 \<longleftrightarrow> sc_reasons st = 0 \<and> (\<forall>j<n. V j \<noteq> None \<longrightarrow> seq_of (V j) \<noteq> seq_of (V n))"
  proof -
    have "j < n \<and> valid_at w j \<and> ct_sequence (rec_at w j) = ct_sequence (rec_at w n) \<longleftrightarrow>
        j < n \<and> V j \<noteq> None \<and> seq_of (V j) = seq_of (V n)" for j
      using val [of j] rec [of j] assms(2,3) rn by auto
    then show ?thesis unfolding assms(6) by auto
  qed
  have rsn: "reasons = 0 \<longleftrightarrow> (\<forall>i<Suc n. unused i \<or> V i \<noteq> None) \<and>
     (\<forall>i<Suc n. \<forall>j<i. V i \<noteq> None \<and> V j \<noteq> None \<longrightarrow> seq_of (V j) \<noteq> seq_of (V i))"
    unfolding dup All_less_Suc using inv assms(3) by auto
  have ret: "sc_retired_control st OR ct_retired_control (rec_at w n) = 0 \<longleftrightarrow>
     (\<forall>i<Suc n. V i \<noteq> None \<longrightarrow> ct_retired_control (cd_record (the (V i))) = 0)"
    unfolding All_less_Suc rn using inv assms(3) by (auto simp: or_eq_0_iff)
  show ?thesis
    unfolding scan_inv_def using len val rec cnt bst rsn ret by simp
qed

lemma select_scan_step_inv:
  assumes "scan_inv (obs_record d h obs) unused n st" and "n < 128"
    and "unused = (\<lambda>i. ob_kind (obs ! i) = OWNED_CONTROL_PROVEN_UNUSED)"
    and "select_scan_step d h obs n st = Some st'"
  shows "scan_inv (obs_record d h obs) unused (Suc n) st'"
proof -
  let ?V = "obs_record d h obs"
  have len: "length (cw_records (sc_work st)) = 128" using assms(1) by (simp add: scan_inv_def)
  note skip = scan_inv_skip [OF assms(1,2)]
  consider (unused) "ob_kind (obs ! n) = OWNED_CONTROL_PROVEN_UNUSED"
    | (unknown) "ob_kind (obs ! n) \<noteq> OWNED_CONTROL_PROVEN_UNUSED" "ob_kind (obs ! n) \<noteq> OWNED_CONTROL_PAGE_PRESENT"
    | (page) "ob_kind (obs ! n) = OWNED_CONTROL_PAGE_PRESENT" by auto
  then show ?thesis
  proof cases
    case unused
    then have "st' = st" "?V n = None" using assms(4) by (simp_all add: select_scan_step_def obs_record_def)
    then show ?thesis using skip [of "cw_records (sc_work st)" "sc_reasons st"] len assms(3) unused by simp
  next
    case unknown
    then have "st' = st\<lparr>sc_reasons := sc_reasons st OR OWNED_CONTROL_UNKNOWN\<rparr>" "?V n = None"
      using assms(4) by (simp_all add: select_scan_step_def obs_record_def)
    then show ?thesis
      using skip [of "cw_records (sc_work st)" "sc_reasons st OR OWNED_CONTROL_UNKNOWN"] len assms(3) unknown
      by (simp add: or_eq_0_iff)
  next
    case page
    obtain rc r where v: "ct_validate_page (pt (ob_page (obs ! n))) (of_nat (n div 64)) (of_nat (n mod 64)) d h = (rc, r)"
      by (cases "ct_validate_page (pt (ob_page (obs ! n))) (of_nat (n div 64)) (of_nat (n mod 64)) d h")
    show ?thesis
    proof (cases "rc = OWNED_CONTROL_VALID")
      case False
      then have "?V n = None" "st' = st\<lparr>sc_work := (sc_work st)\<lparr>cw_records := (cw_records (sc_work st))[n := r]\<rparr>,
          sc_reasons := sc_reasons st OR OWNED_CONTROL_BAD_RECORD\<rparr>"
        using assms(4) page v by (simp_all add: select_scan_step_def obs_record_def Let_def split: if_splits)
      then show ?thesis
        using skip [of "(cw_records (sc_work st))[n := r]" "sc_reasons st OR OWNED_CONTROL_BAD_RECORD"] len assms(3) page
        by (simp add: or_eq_0_iff)
    next
      case True
      define w where "w = (sc_work st)\<lparr>cw_records := (cw_records (sc_work st))[n := r],
        cw_valid := (cw_valid (sc_work st))[n := 1]\<rparr>"
      define dup where "dup = list_ex (\<lambda>j. valid_at w j \<and> ct_sequence (rec_at w j) = ct_sequence (rec_at w n)) [0..<n]"
      have V: "?V n = Some r" using page v True by (simp add: obs_record_def)
      have st': "st' = st\<lparr>sc_work := w, sc_best := (if sc_valid_count st = 0 \<or>
            ct_sequence (rec_at w n) > ct_sequence (rec_at w (sc_best st)) then n else sc_best st),
          sc_valid_count := sc_valid_count st + 1,
          sc_retired_map := sc_retired_map st OR ct_retired_map (rec_at w n),
          sc_retired_control := sc_retired_control st OR ct_retired_control (rec_at w n),
          sc_reasons := (if dup then sc_reasons st OR OWNED_CONTROL_DUPLICATE_SEQUENCE else sc_reasons st)\<rparr>"
        using assms(4) page v True by (simp add: select_scan_step_def Let_def w_def dup_def)
      show ?thesis unfolding st'
        by (rule scan_inv_record [OF assms(1,2) V w_def refl]) (auto simp: dup_def list_ex_iff or_eq_0_iff)
    qed
  qed
qed

lemma select_scan_inv:
  assumes "select_scan d h obs n = Some st" and "n \<le> 128"
  shows "scan_inv (obs_record d h obs) (\<lambda>i. ob_kind (obs ! i) = OWNED_CONTROL_PROVEN_UNUSED) n st"
  using assms
proof (induction n arbitrary: st)
  case 0
  then show ?case by (simp add: scan_inv_init)
next
  case (Suc n)
  then obtain st0 where "select_scan d h obs n = Some st0" "select_scan_step d h obs n st0 = Some st"
    by (auto split: option.splits)
  with Suc show ?case using select_scan_step_inv [of d h obs _ n st0 st] by simp
qed

section \<open>The chain loop\<close>

definition chain_ok :: "owned_control_workspace \<Rightarrow> nat \<Rightarrow> bool" where
  "chain_ok w i \<longleftrightarrow> (valid_at w i \<longrightarrow> ct_sequence (rec_at w i) = of_nat i + 1 \<and>
     (i \<noteq> 0 \<longrightarrow> valid_at w (i - 1) \<and> ct_previous_sequence (rec_at w i) = ct_sequence (rec_at w (i - 1)) \<and>
        ct_equal (ct_previous_digest (rec_at w i)) (cd_digest (cw_records w ! (i - 1))) \<and>
        ct_transition (rec_at w (i - 1)) (rec_at w i)))"

lemma select_chain_step_zero: "select_chain_step w i reasons = 0 \<longleftrightarrow> reasons = 0 \<and> chain_ok w i"
  by (auto simp: select_chain_step_def chain_ok_def Let_def or_eq_0_iff)

lemma select_chain_zero: "select_chain w reasons = 0 \<longleftrightarrow> reasons = 0 \<and> (\<forall>i<128. chain_ok w i)"
proof -
  have "fold (select_chain_step w) xs r = 0 \<longleftrightarrow> r = 0 \<and> (\<forall>i\<in>set xs. chain_ok w i)" for xs r
    by (induction xs arbitrary: r) (auto simp: select_chain_step_zero)
  then show ?thesis by (simp add: select_chain_def atLeast0LessThan Ball_def del: upt_rec_numeral)
qed

lemma flag_zero: "b \<noteq> 0 \<Longrightarrow> flag c b reasons = 0 \<longleftrightarrow> reasons = 0 \<and> \<not> c"
  by (auto simp: flag_def or_eq_0_iff)

lemma select_reasons_zero:
  "select_reasons st = 0 \<longleftrightarrow> sc_reasons st = 0 \<and>
    (valid_at (sc_work st) 0 \<and> ct_sequence (rec_at (sc_work st) 0) = 1 \<and> sc_best st + 1 = sc_valid_count st) \<and>
    (\<forall>i<128. chain_ok (sc_work st) i) \<and> ct_lease_kind (rec_at (sc_work st) (sc_best st)) = 0 \<and>
    sc_retired_control st = 0 \<and> ct_state (rec_at (sc_work st) (sc_best st)) = OWNED_CONTROL_ACTIVE"
  unfolding select_reasons_def Let_def by (simp add: flag_zero select_chain_zero) blast

lemma select_publish_clean:
  "cs_kind (select_publish d st) = OWNED_CONTROL_CLEAN_CANDIDATE \<longleftrightarrow>
    sc_valid_count st \<noteq> 0 \<and> select_reasons st = 0"
  by (simp add: select_publish_def Let_def)

section \<open>Clean histories\<close>

text \<open>What the observations must be for a clean candidate: the first \<open>length rs\<close> pages are valid and hold
  the records \<open>rs\<close> in sequence, each chained by digest and transition to the one before, every later
  page is proven unused, no control block is retired, and the last record is ACTIVE without a lease.\<close>

definition clean_history ::
  "owned_volume_decoded \<Rightarrow> sha_provider \<Rightarrow> owned_control_observation list \<Rightarrow> owned_control_decoded list \<Rightarrow> bool" where
  "clean_history d h obs rs \<longleftrightarrow> rs \<noteq> [] \<and> length rs \<le> 128 \<and>
     (\<forall>i<length rs. obs_record d h obs i = Some (rs ! i) \<and> ct_sequence (cd_record (rs ! i)) = of_nat i + 1 \<and>
        ct_retired_control (cd_record (rs ! i)) = 0) \<and>
     (\<forall>i. length rs \<le> i \<and> i < 128 \<longrightarrow> ob_kind (obs ! i) = OWNED_CONTROL_PROVEN_UNUSED) \<and>
     (\<forall>i. Suc i < length rs \<longrightarrow> ct_previous_digest (cd_record (rs ! Suc i)) = cd_digest (rs ! i) \<and>
        ct_transition (cd_record (rs ! i)) (cd_record (rs ! Suc i))) \<and>
     ct_state (cd_record (last rs)) = OWNED_CONTROL_ACTIVE \<and> ct_lease_kind (cd_record (last rs)) = 0"

lemma prefix_closed:
  assumes "\<And>i. Suc i < N \<Longrightarrow> P (Suc i) \<Longrightarrow> P i" and "k = card {i. i < N \<and> P i}"
  shows "k \<le> N \<and> (\<forall>i<N. P i \<longleftrightarrow> i < k)"
proof -
  have down: "P i" if "i \<le> j" "j < N" "P j" for i j
    using that by (induction j rule: dec_induct) (use assms(1) in auto)
  define m where "m = (if \<exists>i<N. \<not> P i then LEAST i. i < N \<and> \<not> P i else N)"
  have m: "i < m \<longleftrightarrow> P i" if "i < N" for i
  proof (cases "\<exists>i<N. \<not> P i")
    case True
    then have "m < N \<and> \<not> P m" unfolding m_def using LeastI_ex [of "\<lambda>i. i < N \<and> \<not> P i"] by auto
    moreover have "P i" if "i < m" "i < N" for i
      using that not_less_Least [of i "\<lambda>i. i < N \<and> \<not> P i"] True by (auto simp: m_def)
    ultimately show ?thesis using down [of m i] that by (meson not_less)
  next
    case False
    then show ?thesis using that by (auto simp: m_def)
  qed
  have "m \<le> N"
  proof (cases "\<exists>i<N. \<not> P i")
    case True
    then show ?thesis unfolding m_def using LeastI_ex [of "\<lambda>i. i < N \<and> \<not> P i"] by auto
  qed (auto simp: m_def)
  then have "{i. i < N \<and> P i} = {..<m}" using m by (auto intro: order_less_le_trans)
  then have "k = m" using assms(2) by simp
  with m \<open>m \<le> N\<close> show ?thesis by auto
qed

lemma of_nat_seq_inj: "i < 128 \<Longrightarrow> j < 128 \<Longrightarrow> (of_nat i + 1 :: u64) \<le> of_nat j + 1 \<longleftrightarrow> i \<le> j"
  by (simp add: word_le_nat_alt unat_word_ariths unat_of_nat)

lemma obs_record_lengths:
  assumes "obs_record d h obs i = Some r"
    and "ob_kind (obs ! i) = OWNED_CONTROL_PAGE_PRESENT \<Longrightarrow> length (pt (ob_page (obs ! i))) = 4096"
  shows "length (ct_previous_digest (cd_record r)) = 32" "length (cd_digest r) = 32"
proof -
  from assms(1) have k: "ob_kind (obs ! i) = OWNED_CONTROL_PAGE_PRESENT"
    by (auto simp: obs_record_def split: if_splits)
  from assms(1) have "ct_validate_page (pt (ob_page (obs ! i))) (of_nat (i div 64)) (of_nat (i mod 64)) d h
      = (OWNED_CONTROL_VALID, r)"
    by (auto simp: obs_record_def split: if_splits prod.splits)
  then obtain g where "ct_digest h (pt (ob_page (obs ! i))) = Some g"
    "r = \<lparr>cd_record = ct_decode (pt (ob_page (obs ! i))), cd_digest = g\<rparr>"
    by (auto simp: ct_validate_page_def Let_def split: if_splits option.splits)
  then show "length (ct_previous_digest (cd_record r)) = 32" "length (cd_digest r) = 32"
    using assms(2) [OF k] by (auto simp: ct_decode_def ct_digest_def dest: sha_run_length)
qed

text \<open>The chain condition on entry \<open>i\<close> in terms of the records.\<close>

lemma chain_ok_records:
  assumes "scan_inv V unused 128 st" and "i < 128"
    and "\<And>j r. j < 128 \<Longrightarrow> V j = Some r \<Longrightarrow> length (ct_previous_digest (cd_record r)) = 32 \<and> length (cd_digest r) = 32"
  shows "chain_ok (sc_work st) i \<longleftrightarrow> (\<forall>r. V i = Some r \<longrightarrow> ct_sequence (cd_record r) = of_nat i + 1 \<and>
     (i \<noteq> 0 \<longrightarrow> (\<exists>q. V (i - 1) = Some q \<and> ct_previous_sequence (cd_record r) = ct_sequence (cd_record q) \<and>
        ct_previous_digest (cd_record r) = cd_digest q \<and> ct_transition (cd_record q) (cd_record r))))"
proof -
  have val: "valid_at (sc_work st) j \<longleftrightarrow> V j \<noteq> None" if "j < 128" for j
    using assms(1) that by (simp add: scan_inv_def)
  have rec: "cw_records (sc_work st) ! j = r" if "j < 128" "V j = Some r" for j r
    using assms(1) that by (simp add: scan_inv_def)
  have i1: "i - 1 < 128" using assms(2) by simp
  show ?thesis
  proof (cases "V i")
    case None
    then show ?thesis using val [OF assms(2)] by (simp add: chain_ok_def)
  next
    case (Some r)
    note r = rec [OF assms(2) Some]
    show ?thesis
    proof (cases "V (i - 1)")
      case None
      then show ?thesis using val [OF assms(2)] val [OF i1] Some r by (simp add: chain_ok_def)
    next
      case (Some q)
      with \<open>V i = Some r\<close> show ?thesis
        using val [OF assms(2)] val [OF i1] r rec [OF i1 Some] assms(3) [OF assms(2) \<open>V i = Some r\<close>] assms(3) [OF i1 Some]
        by (simp add: chain_ok_def ct_equal_iff)
    qed
  qed
qed

lemma obs_unused_None: "ob_kind (obs ! i) = OWNED_CONTROL_PROVEN_UNUSED \<Longrightarrow> obs_record d h obs i = None"
  by (simp add: obs_record_def)

lemma select_clean_imp:
  assumes scan: "select_scan d h obs 128 = Some st" and cnt: "sc_valid_count st \<noteq> 0"
    and zero: "select_reasons st = 0" and len: "\<And>i. i < 128 \<Longrightarrow> ob_kind (obs ! i) = OWNED_CONTROL_PAGE_PRESENT \<Longrightarrow> length (pt (ob_page (obs ! i))) = 4096"
  shows "\<exists>rs. clean_history d h obs rs \<and> last rs = cw_records (sc_work st) ! sc_best st"
proof -
  let ?V = "obs_record d h obs"
  note si = select_scan_inv [OF scan order_refl]
  note inv = si [unfolded scan_inv_def] and rz = zero [unfolded select_reasons_zero]
  have len': "length (ct_previous_digest (cd_record r)) = 32 \<and> length (cd_digest r) = 32"
    if "j < 128" "?V j = Some r" for j r using obs_record_lengths [OF that(2) len [OF that(1)]] by simp
  from rz have co: "\<forall>i<128. chain_ok (sc_work st) i" by (elim conjE)
  have ch: "\<forall>r. ?V i = Some r \<longrightarrow> ct_sequence (cd_record r) = of_nat i + 1 \<and>
     (i \<noteq> 0 \<longrightarrow> (\<exists>q. ?V (i - 1) = Some q \<and> ct_previous_sequence (cd_record r) = ct_sequence (cd_record q) \<and>
        ct_previous_digest (cd_record r) = cd_digest q \<and> ct_transition (cd_record q) (cd_record r)))"
    if "i < 128" for i
    by (rule chain_ok_records [OF si that len', THEN iffD1]) (use co that in simp_all)
  define k where "k = sc_valid_count st"
  have k: "k = card {i. i < 128 \<and> ?V i \<noteq> None}" using inv by (simp add: k_def)
  have "?V i \<noteq> None" if "Suc i < 128" "?V (Suc i) \<noteq> None" for i using ch [OF that(1)] that(2) by auto
  from prefix_closed [of 128 "\<lambda>i. ?V i \<noteq> None", OF this k]
  have kle: "k \<le> 128" and kV: "\<And>i. i < 128 \<Longrightarrow> ?V i \<noteq> None \<longleftrightarrow> i < k" by auto
  define rs where "rs = map (\<lambda>i. the (?V i)) [0..<k]"
  have nth: "?V i = Some (rs ! i)" if "i < k" for i using kV [of i] kle that by (auto simp: rs_def)
  have "sc_best st + 1 = k" using rz unfolding k_def by (elim conjE)
  then have best: "sc_best st = k - 1" "k \<noteq> 0" by simp_all
  from inv have rec: "\<forall>i<128. ?V i \<noteq> None \<longrightarrow> cw_records (sc_work st) ! i = the (?V i)" by (elim conjE)
  have "last rs = rs ! (k - 1)" using best by (simp add: rs_def last_conv_nth)
  then have lst: "last rs = cw_records (sc_work st) ! sc_best st"
    using rec [rule_format, of "k - 1"] nth [of "k - 1"] best kle by simp
  have reas: "\<forall>i<128. ob_kind (obs ! i) = OWNED_CONTROL_PROVEN_UNUSED \<or> ?V i \<noteq> None"
    using inv rz by blast
  have ret: "\<forall>i<128. ?V i \<noteq> None \<longrightarrow> ct_retired_control (cd_record (the (?V i))) = 0"
    using inv rz by blast
  have "clean_history d h obs rs"
    unfolding clean_history_def
  proof (intro conjI allI impI)
    show "rs \<noteq> []" "length rs \<le> 128" using best kle by (simp_all add: rs_def)
    show "ct_state (cd_record (last rs)) = OWNED_CONTROL_ACTIVE" "ct_lease_kind (cd_record (last rs)) = 0"
      using rz lst by simp_all
  next
    fix i assume "i < length rs"
    then have i: "i < k" "i < 128" using kle by (simp_all add: rs_def)
    show "?V i = Some (rs ! i)" using nth i by simp
    show "ct_sequence (cd_record (rs ! i)) = of_nat i + 1" using ch [OF i(2)] nth [OF i(1)] by simp
    show "ct_retired_control (cd_record (rs ! i)) = 0" using ret [rule_format, OF i(2)] nth [OF i(1)] by simp
  next
    fix i assume "length rs \<le> i \<and> i < 128"
    then show "ob_kind (obs ! i) = OWNED_CONTROL_PROVEN_UNUSED" using reas kV [of i] by (auto simp: rs_def)
  next
    fix i assume "Suc i < length rs"
    then have i: "Suc i < k" "i < k" "Suc i < 128" using kle by (simp_all add: rs_def)
    show "ct_previous_digest (cd_record (rs ! Suc i)) = cd_digest (rs ! i)"
      and "ct_transition (cd_record (rs ! i)) (cd_record (rs ! Suc i))"
      using ch [OF i(3)] nth [OF i(1)] nth [OF i(2)] by simp_all
  qed
  with lst show ?thesis by blast
qed

lemma select_clean_conv:
  assumes scan: "select_scan d h obs 128 = Some st" and clean: "clean_history d h obs rs"
    and len: "\<And>i. i < 128 \<Longrightarrow> ob_kind (obs ! i) = OWNED_CONTROL_PAGE_PRESENT \<Longrightarrow> length (pt (ob_page (obs ! i))) = 4096"
    and prev: "\<And>i. Suc i < length rs \<Longrightarrow>
      ct_previous_sequence (cd_record (rs ! Suc i)) = ct_sequence (cd_record (rs ! Suc i)) - 1"
  shows "sc_valid_count st \<noteq> 0 \<and> select_reasons st = 0"
proof -
  let ?V = "obs_record d h obs" and ?k = "length rs"
  note si = select_scan_inv [OF scan order_refl]
  note inv = si [unfolded scan_inv_def] and c = clean [unfolded clean_history_def]
  have k: "?k \<noteq> 0" "?k \<le> 128" using c by auto
  have V: "?V i = Some (rs ! i)" "ct_sequence (cd_record (rs ! i)) = of_nat i + 1"
    "ct_retired_control (cd_record (rs ! i)) = 0" if "i < ?k" for i using c that by blast+
  have VN: "ob_kind (obs ! i) = OWNED_CONTROL_PROVEN_UNUSED" "?V i = None" if "\<not> i < ?k" "i < 128" for i
    using c that obs_unused_None by (auto simp: not_less)
  have Viff: "?V i \<noteq> None \<longleftrightarrow> i < ?k" if "i < 128" for i using V(1) [of i] VN(2) [of i] that by (cases "i < ?k") auto
  then have "{i. i < 128 \<and> ?V i \<noteq> None} = {..<?k}" using k by auto
  then have cnt: "sc_valid_count st = ?k" using inv by simp
  then have b: "sc_best st < ?k" "\<forall>i<128. ?V i \<noteq> None \<longrightarrow> seq_of (?V i) \<le> seq_of (?V (sc_best st))"
    using inv k Viff by auto
  have "?k - 1 \<le> sc_best st"
  proof -
    obtain m where m: "?k = Suc m" "m < ?k" using k by (cases ?k) auto
    have "seq_of (?V m) \<le> seq_of (?V (sc_best st))" 
      using b(2) [rule_format, of m] V(1) [OF m(2)] m k by simp
    then show ?thesis using V [OF m(2)] V [OF b(1)] of_nat_seq_inj [of m "sc_best st"] b(1) m k by simp
  qed
  then have best: "sc_best st = ?k - 1" using b(1) by simp
  have rec: "cw_records (sc_work st) ! i = rs ! i" if "i < ?k" for i using inv V(1) [OF that] that k by simp
  have len': "length (ct_previous_digest (cd_record r)) = 32 \<and> length (cd_digest r) = 32"
    if "j < 128" "?V j = Some r" for j r using obs_record_lengths [OF that(2) len [OF that(1)]] by simp
  have "chain_ok (sc_work st) i" if i: "i < 128" for i
  proof (rule chain_ok_records [OF si i len', THEN iffD2]; (assumption | intro allI impI))
    fix r assume r: "?V i = Some r"
    then have ik: "i < ?k" using Viff [OF i] by simp
    have ri: "r = rs ! i" using r V(1) [OF ik] by simp
    show "ct_sequence (cd_record r) = of_nat i + 1 \<and> (i \<noteq> 0 \<longrightarrow> (\<exists>q. ?V (i - 1) = Some q \<and>
        ct_previous_sequence (cd_record r) = ct_sequence (cd_record q) \<and>
        ct_previous_digest (cd_record r) = cd_digest q \<and> ct_transition (cd_record q) (cd_record r)))"
    proof (cases i)
      case 0
      then show ?thesis using V(2) [OF ik] ri by simp
    next
      case (Suc j)
      then have j: "j < ?k" "Suc j < ?k" using ik by simp_all
      have "ct_previous_digest (cd_record (rs ! Suc j)) = cd_digest (rs ! j) \<and>
        ct_transition (cd_record (rs ! j)) (cd_record (rs ! Suc j))" using c j(2) by blast
      then show ?thesis using V [OF j(1)] V [OF j(2)] ri Suc prev [OF j(2)] by simp
    qed
  qed
  moreover have "sc_reasons st = 0"
  proof -
    have "\<forall>i<128. ob_kind (obs ! i) = OWNED_CONTROL_PROVEN_UNUSED \<or> ?V i \<noteq> None" using VN(1) Viff by blast
    moreover have "seq_of (?V j) \<noteq> seq_of (?V i)" if "i < 128" "j < i" "?V i \<noteq> None" "?V j \<noteq> None" for i j
    proof -
      have "i < ?k" "j < ?k" using Viff [of i] Viff [of j] that by simp_all
      then show ?thesis using V [of i] V [of j] of_nat_seq_inj [of i j] that k by auto
    qed
    ultimately show ?thesis using inv by blast
  qed
  moreover have "sc_retired_control st = 0"
    using inv V Viff by (metis option.sel)
  moreover have "valid_at (sc_work st) 0" "ct_sequence (rec_at (sc_work st) 0) = 1"
    using inv V [of 0] k rec [of 0] by simp_all
  moreover have "last rs = cw_records (sc_work st) ! sc_best st"
    using rec [of "?k - 1"] k best by (simp add: last_conv_nth)
  ultimately show ?thesis
    using c cnt k best unfolding select_reasons_zero by simp
qed

lemma ct_validate_page_record:
  "ct_validate_page p b l d h = (OWNED_CONTROL_VALID, r) \<Longrightarrow> ct_record_valid (cd_record r) (vd_spec d)"
  by (auto simp: ct_validate_page_def Let_def split: if_splits option.splits)

lemma ct_valid_previous:
  "ct_record_valid r s \<Longrightarrow> ct_sequence r \<noteq> 1 \<Longrightarrow> ct_previous_sequence r = ct_sequence r - 1"
  by (simp add: ct_record_valid_def split: if_split_asm)

lemma clean_history_previous:
  assumes "clean_history d h obs rs" and "Suc i < length rs"
  shows "ct_previous_sequence (cd_record (rs ! Suc i)) = ct_sequence (cd_record (rs ! Suc i)) - 1"
proof (rule ct_valid_previous)
  have v: "obs_record d h obs (Suc i) = Some (rs ! Suc i)"
    and sq: "ct_sequence (cd_record (rs ! Suc i)) = of_nat (Suc i) + 1" and n: "Suc i < 128"
    using assms by (auto simp: clean_history_def)
  show "ct_record_valid (cd_record (rs ! Suc i)) (vd_spec d)"
    using v by (auto simp: obs_record_def dest: ct_validate_page_record split: if_splits prod.splits)
  have "unat (of_nat (Suc i) + 1 :: u64) = Suc i + 1"
    using n by (simp add: unat_word_ariths unat_of_nat)
  then have "unat (of_nat (Suc i) + 1 :: u64) \<noteq> unat (1 :: u64)" by (simp only: unat_1)
  then show "ct_sequence (cd_record (rs ! Suc i)) \<noteq> 1" unfolding sq by metis
qed

lemma owned_control_select_VALID:
  assumes "owned_control_select (Ptr ba obs) n d dn s h (Ptr wa work) (Ptr oa out)
      = (OWNED_CONTROL_VALID, work', Ptr oa' sel)"
  obtains descriptor st where "ct_descriptor d dn s h = (OWNED_CONTROL_VALID, descriptor)"
    and "select_scan descriptor (the (hash_fn h)) obs 128 = Some st" and "sel = select_publish descriptor st"
  using assms by (auto simp: owned_control_select.simps Let_def split: if_splits prod.splits option.splits)

text \<open>Claim C16.  When the selector runs on 128 observations, it reports CLEAN\_CANDIDATE exactly when the
  observed pages form a clean history: a complete, digest-chained prefix of valid records from
  sequence 1, everything after it proven unused, the last record ACTIVE without a lease and no control
  block retired.  In every other case, missing evidence included, it reports no clean candidate.\<close>

theorem owned_control_select_clean:
  assumes "owned_control_select (Ptr ba obs) n d dn s (Ptr ha (Some h)) (Ptr wa work) (Ptr oa out)
      = (OWNED_CONTROL_VALID, work', Ptr oa' sel)"
    and "ct_descriptor d dn s (Ptr ha (Some h)) = (OWNED_CONTROL_VALID, descriptor)"
    and "\<forall>i<128. ob_kind (obs ! i) = OWNED_CONTROL_PAGE_PRESENT \<longrightarrow> length (pt (ob_page (obs ! i))) = 4096"
  shows "cs_kind sel = OWNED_CONTROL_CLEAN_CANDIDATE \<longleftrightarrow> (\<exists>rs. clean_history descriptor h obs rs)"
proof -
  obtain st where scan: "select_scan descriptor h obs 128 = Some st" and sel: "sel = select_publish descriptor st"
    using owned_control_select_VALID [OF assms(1)] assms(2) by auto
  have len: "length (pt (ob_page (obs ! i))) = 4096"
    if "i < 128" "ob_kind (obs ! i) = OWNED_CONTROL_PAGE_PRESENT" for i using assms(3) that by simp
  show ?thesis unfolding sel select_publish_clean
  proof
    assume "sc_valid_count st \<noteq> 0 \<and> select_reasons st = 0"
    then show "\<exists>rs. clean_history descriptor h obs rs"
      using select_clean_imp [OF scan _ _ len] by blast
  next
    assume "\<exists>rs. clean_history descriptor h obs rs"
    then obtain rs where rs: "clean_history descriptor h obs rs" ..
    show "sc_valid_count st \<noteq> 0 \<and> select_reasons st = 0"
      by (rule select_clean_conv [OF scan rs len clean_history_previous [OF rs]])
  qed
qed

text \<open>Two pages (PROVISIONING, then ACTIVE) followed by unused ones are a clean history.\<close>

definition demo_page :: "u64 \<Rightarrow> bytes" where
  "demo_page n = ct_image (demo_ct n) (replicate 32 7) (replicate 32 7)"

definition demo_obs :: "owned_control_observation list" where
  "demo_obs = [\<lparr>ob_kind = 2, ob_page = Ptr 100000 (demo_page 1)\<rparr>, \<lparr>ob_kind = 2, ob_page = Ptr 110000 (demo_page 2)\<rparr>]
     @ replicate 126 \<lparr>ob_kind = 1, ob_page = Null\<rparr>"

lemma demo_obs_nth: "i < 128 \<Longrightarrow> demo_obs ! i = (if i = 0 then \<lparr>ob_kind = 2, ob_page = Ptr 100000 (demo_page 1)\<rparr>
    else if i = 1 then \<lparr>ob_kind = 2, ob_page = Ptr 110000 (demo_page 2)\<rparr> else \<lparr>ob_kind = 1, ob_page = Null\<rparr>)"
  by (cases i rule: nat.exhaust [case_product]; cases "i - 1") (auto simp: demo_obs_def nth_Cons')

lemma demo_clean: "clean_history demo_vd const_sha demo_obs
    [\<lparr>cd_record = demo_ct 1, cd_digest = replicate 32 7\<rparr>, \<lparr>cd_record = demo_ct 2, cd_digest = replicate 32 7\<rparr>]"
proof -
  have r: "obs_record demo_vd const_sha demo_obs 0 = Some \<lparr>cd_record = demo_ct 1, cd_digest = replicate 32 7\<rparr>"
    "obs_record demo_vd const_sha demo_obs 1 = Some \<lparr>cd_record = demo_ct 2, cd_digest = replicate 32 7\<rparr>"
    using demo_ct_validates [OF demo_ct_ok(1,3)] demo_ct_validates [OF demo_ct_ok(2,4)]
    by (simp_all add: obs_record_def demo_obs_def demo_page_def demo_ct_def ct_zero_def)
  have u: "ob_kind (demo_obs ! i) = 1" if "2 \<le> i" "i < 128" for i using that by (simp add: demo_obs_nth)
  have t: "ct_transition (demo_ct 1) (demo_ct 2)" by (simp add: ct_transition_def demo_ct_def ct_zero_def)
  show ?thesis
    using r u t unfolding clean_history_def
    by (simp add: All_less_Suc numeral_2_eq_2 less_Suc_eq) (simp add: demo_ct_def ct_zero_def)
qed

lemma const_sha_no_error:
  "fst (ct_validate_page p b l d const_sha) \<noteq> OWNED_CONTROL_HASH_ERROR"
  by (simp add: ct_validate_page_def Let_def ct_digest_def const_sha_run)

lemma const_sha_scan: "\<exists>st. select_scan d const_sha obs n = Some st"
proof (induction n)
  case (Suc n)
  then obtain st where "select_scan d const_sha obs n = Some st" ..
  then show ?case
    using const_sha_no_error [of "pt (ob_page (obs ! n))" "of_nat (n div 64)" "of_nat (n mod 64)" d]
    by (auto simp: select_scan_step_def Let_def split: prod.splits)
qed simp

theorem owned_control_select_clean_witness:
  "\<exists>d sel. owned_control_select (Ptr 50000 demo_obs) 128 (Ptr 1000 d) 512 (Ptr 2000 demo_vs) (Ptr 3000 (Some const_sha))
      (Ptr 60000 cw_zero) (Ptr 4000 cs_zero) = (OWNED_CONTROL_VALID, Ptr 60000 cw_zero, Ptr 4000 sel) \<and>
     cs_kind sel = OWNED_CONTROL_CLEAN_CANDIDATE"
proof -
  obtain d where d: "length d = 512" "vd_validate_body (Ptr 1000 d) 512 (Ptr 2000 demo_vs)
      (Ptr 3000 (Some const_sha)) = (OWNED_VOLUME_VALID, demo_vd)" by (rule demo_vd_descriptor)
  obtain st where st: "select_scan demo_vd const_sha demo_obs 128 = Some st" using const_sha_scan by blast
  have desc: "ct_descriptor (Ptr 1000 d) 512 (Ptr 2000 demo_vs) (Ptr 3000 (Some const_sha)) = (OWNED_CONTROL_VALID, demo_vd)"
    using d(2) by (simp add: ct_descriptor_def)
  have ok: "select_obs_ok (50000, demo_obs) (60000, cw_zero) (4000, cs_zero) (Ptr 1000 d) 512 (Ptr 2000 demo_vs)
      (Ptr 3000 (Some const_sha)) (demo_obs ! i)" if "i < 128" for i
    using that by (simp add: demo_obs_nth select_obs_ok_def ct_alias_inputs_def overlap_def UINTPTR_MAX_def)
  have run: "owned_control_select (Ptr 50000 demo_obs) 128 (Ptr 1000 d) 512 (Ptr 2000 demo_vs) (Ptr 3000 (Some const_sha))
      (Ptr 60000 cw_zero) (Ptr 4000 cs_zero) = (OWNED_CONTROL_VALID, Ptr 60000 cw_zero, Ptr 4000 (select_publish demo_vd st))"
    using ok desc st
    by (simp add: owned_control_select.simps hash_valid_def ct_alias_inputs_def overlap_def UINTPTR_MAX_def
        list_all_iff del: upt_rec_numeral)
  have "\<forall>i<128. ob_kind (demo_obs ! i) = 2 \<longrightarrow> length (pt (ob_page (demo_obs ! i))) = 4096"
    by (simp add: demo_obs_nth demo_page_def)
  from owned_control_select_clean [OF run desc this] demo_clean run show ?thesis by blast
qed

end
