(* ===== verification/Frame_Queue.thy ===== *)
theory Frame_Queue
  imports Prelude "HOL-Library.Sublist"
begin

text \<open>
  The single-producer single-consumer PCM frame queue (\<open>recording_frame_queue.c\<close>): eight slots, 32-bit
  wrapping tickets, a sticky stop reason and the life cycle FRESH, RUNNING, FENCED, CLOSED.  Every
  entry point is one function on the queue record; the busy guards are modelled, so a call that finds
  its guard taken behaves as the source does.  The group shows that the ring is a FIFO of at most
  eight frames whatever the tickets are, that accepted frames are contiguous in time, that a slot is
  wiped as soon as it is free, and (through the interface \<open>fifo\<close>) that any sequence of calls delivers
  an exact prefix of the accepted frames.
\<close>

section \<open>Model\<close>

type_synonym i16 = "16 word"

datatype rfq_state = RFQ_FRESH | RFQ_INITIALIZING | RFQ_RUNNING | RFQ_FENCED | RFQ_CLOSED
datatype rfq_reason = RFQ_NONE | RFQ_USER | RFQ_FULL | RFQ_CONTINUITY | RFQ_SAMPLE_OVERFLOW
  | RFQ_REENTRY | RFQ_INVARIANT
datatype rfq_rc = RFQ_OK | RFQ_EMPTY | RFQ_DRAINED | RFQ_ARGUMENT | RFQ_STATE | RFQ_BUSY | RFQ_STOPPED
  | RFQ_NEEDS_FENCE | RFQ_NOT_EMPTY | RFQ_UNSUPPORTED

record rfq_frame =
  fr_first_sample :: u64
  fr_pcm :: "i16 list"

record rfq_summary =
  su_state :: rfq_state
  su_reason :: rfq_reason
  su_queued :: u32
  su_first_sample :: u64
  su_next_sample :: u64
  su_accepted :: u64
  su_consumed :: u64
  su_discarded :: u64

record rfq_queue =
  q_state :: rfq_state
  q_reason :: rfq_reason
  q_head :: u32
  q_tail :: u32
  q_producer_busy :: bool
  q_consumer_busy :: bool
  q_first_sample :: u64
  q_next_sample :: u64
  q_accepted :: u64
  q_consumed :: u64
  q_discarded :: u64
  q_slots :: "rfq_frame list"

definition fr_zero :: rfq_frame where
  "fr_zero = \<lparr>fr_first_sample = 0, fr_pcm = replicate 320 0\<rparr>"

definition RFQ_INITIALIZER :: rfq_queue where
  "RFQ_INITIALIZER = \<lparr>q_state = RFQ_FRESH, q_reason = RFQ_NONE, q_head = 0, q_tail = 0,
     q_producer_busy = False, q_consumer_busy = False, q_first_sample = 0, q_next_sample = 0,
     q_accepted = 0, q_consumed = 0, q_discarded = 0, q_slots = replicate 8 fr_zero\<rparr>"

abbreviation sizeof_queue :: nat where "sizeof_queue \<equiv> 5248"

definition ptr_span :: "nat \<Rightarrow> nat \<Rightarrow> nat \<Rightarrow> bool" where
  "ptr_span at n align \<longleftrightarrow> at \<noteq> 0 \<and> at mod align = 0 \<and> at \<le> UINTPTR_MAX - n"

fun queue_valid :: "rfq_queue ptr \<Rightarrow> bool" where
  "queue_valid Null = False"
| "queue_valid (Ptr a q) = ptr_span a sizeof_queue 8"

fun apart :: "rfq_queue ptr \<Rightarrow> 'a ptr \<Rightarrow> nat \<Rightarrow> nat \<Rightarrow> bool" where
  "apart (Ptr a q) (Ptr b x) n align =
     (queue_valid (Ptr a q) \<and> ptr_span b n align \<and> (a + sizeof_queue \<le> b \<or> b + n \<le> a))"
| "apart q p n align = False"

definition admitted :: "rfq_state \<Rightarrow> bool" where
  "admitted st \<longleftrightarrow> st = RFQ_RUNNING \<or> st = RFQ_FENCED \<or> st = RFQ_CLOSED"

text \<open>\<open>stop\<close>: the first reason wins.\<close>

definition rfq_stop :: "rfq_reason \<Rightarrow> rfq_queue \<Rightarrow> rfq_queue" where
  "rfq_stop r q = (if q_reason q = RFQ_NONE then q\<lparr>q_reason := r\<rparr> else q)"

text \<open>\<open>atomic_is_lock_free\<close> is a property of the platform and a parameter.\<close>

definition init_body :: "bool \<Rightarrow> u64 \<Rightarrow> rfq_queue \<Rightarrow> rfq_rc \<times> rfq_queue" where
  "init_body lock_free first q =
    (if \<not> lock_free then (RFQ_UNSUPPORTED, q)
     else if q_state q \<noteq> RFQ_FRESH then (RFQ_STATE, q)
     else (RFQ_OK, q\<lparr>q_state := RFQ_RUNNING, q_reason := RFQ_NONE, q_head := 0, q_tail := 0,
        q_producer_busy := False, q_consumer_busy := False, q_first_sample := first, q_next_sample := first,
        q_accepted := 0, q_consumed := 0, q_discarded := 0, q_slots := replicate 8 fr_zero\<rparr>))"

definition slot_ix :: "u32 \<Rightarrow> nat" where "slot_ix ticket = unat (ticket AND 7)"

text \<open>The part of \<open>rfq_push\<close> between taking and releasing the producer guard.\<close>

definition push_guarded :: "u64 \<Rightarrow> i16 list \<Rightarrow> rfq_queue \<Rightarrow> rfq_rc \<times> rfq_queue" where
  "push_guarded first pcm q =
    (if q_state q \<noteq> RFQ_RUNNING \<or> q_reason q \<noteq> RFQ_NONE then (RFQ_STOPPED, q)
     else if first \<noteq> q_next_sample q then (RFQ_STOPPED, rfq_stop RFQ_CONTINUITY q)
     else if first > UINT64_MAX - 320 then (RFQ_STOPPED, rfq_stop RFQ_SAMPLE_OVERFLOW q)
     else let used = q_head q - q_tail q in
       if used \<ge> 8 then (RFQ_STOPPED, rfq_stop (if used = 8 then RFQ_FULL else RFQ_INVARIANT) q)
       else (RFQ_OK, q\<lparr>q_slots := (q_slots q)[slot_ix (q_head q) := \<lparr>fr_first_sample = first, fr_pcm = pcm\<rparr>],
               q_next_sample := first + 320, q_accepted := q_accepted q + 1, q_head := q_head q + 1\<rparr>))"

definition push_body :: "u64 \<Rightarrow> i16 list \<Rightarrow> rfq_queue \<Rightarrow> rfq_rc \<times> rfq_queue" where
  "push_body first pcm q =
    (if q_state q \<noteq> RFQ_RUNNING then (RFQ_STATE, q)
     else if q_producer_busy q then (RFQ_BUSY, rfq_stop RFQ_REENTRY q)
     else let (rc, q) = push_guarded first pcm (q\<lparr>q_producer_busy := True\<rparr>) in
       (rc, q\<lparr>q_producer_busy := False\<rparr>))"

definition slots_nonzero :: "rfq_queue \<Rightarrow> bool" where
  "slots_nonzero q \<longleftrightarrow> list_ex (\<lambda>f. fr_first_sample f \<noteq> 0 \<or> list_ex (\<lambda>s. s \<noteq> 0) (fr_pcm f)) (q_slots q)"

definition rearm_body :: "u64 \<Rightarrow> rfq_queue \<Rightarrow> rfq_rc \<times> rfq_queue" where
  "rearm_body first q =
    (if q_state q \<noteq> RFQ_CLOSED then (RFQ_STATE, q)
     else if q_producer_busy q then (RFQ_BUSY, q)
     else if q_consumer_busy q then (RFQ_BUSY, q\<lparr>q_producer_busy := False\<rparr>)
     else if q_head q \<noteq> q_tail q then (RFQ_STATE, q)
     else if slots_nonzero q then (RFQ_STATE, q)
     else (RFQ_OK, q\<lparr>q_first_sample := first, q_next_sample := first, q_accepted := 0, q_consumed := 0,
             q_discarded := 0, q_reason := RFQ_NONE, q_head := 0, q_tail := 0, q_state := RFQ_RUNNING\<rparr>))"

text \<open>The part of \<open>rfq_pop\<close> between taking and releasing the consumer guard; \<open>Some f\<close> is the copy-out.\<close>

definition pop_guarded :: "rfq_queue \<Rightarrow> rfq_rc \<times> rfq_frame option \<times> rfq_queue" where
  "pop_guarded q =
    (if q_state q \<noteq> RFQ_RUNNING \<and> q_state q \<noteq> RFQ_FENCED then (RFQ_STATE, None, q)
     else if q_state q = RFQ_RUNNING \<and> q_reason q \<noteq> RFQ_NONE then (RFQ_NEEDS_FENCE, None, q)
     else let used = q_head q - q_tail q in
       if used > 8 then (RFQ_STOPPED, None, rfq_stop RFQ_INVARIANT q)
       else if used = 0 then (if q_state q = RFQ_FENCED then RFQ_DRAINED else RFQ_EMPTY, None, q)
       else (RFQ_OK, Some (q_slots q ! slot_ix (q_tail q)),
             q\<lparr>q_slots := (q_slots q)[slot_ix (q_tail q) := fr_zero], q_consumed := q_consumed q + 1,
               q_tail := q_tail q + 1\<rparr>))"

definition pop_body :: "rfq_queue \<Rightarrow> rfq_rc \<times> rfq_frame option \<times> rfq_queue" where
  "pop_body q =
    (if q_state q \<noteq> RFQ_RUNNING \<and> q_state q \<noteq> RFQ_FENCED then (RFQ_STATE, None, q)
     else if q_consumer_busy q then (RFQ_BUSY, None, rfq_stop RFQ_REENTRY q)
     else let (rc, f, q) = pop_guarded (q\<lparr>q_consumer_busy := True\<rparr>) in
       (rc, f, q\<lparr>q_consumer_busy := False\<rparr>))"

definition request_stop_body :: "rfq_queue \<Rightarrow> rfq_rc \<times> rfq_queue" where
  "request_stop_body q =
    (if q_state q \<noteq> RFQ_RUNNING \<and> q_state q \<noteq> RFQ_FENCED then (RFQ_STATE, q)
     else (RFQ_OK, rfq_stop RFQ_USER q))"

definition confirm_body :: "rfq_queue \<Rightarrow> rfq_rc \<times> rfq_queue" where
  "confirm_body q =
    (if q_state q = RFQ_FENCED then (RFQ_OK, q)
     else if q_state q \<noteq> RFQ_RUNNING \<or> q_reason q = RFQ_NONE then (RFQ_STATE, q)
     else if q_producer_busy q then (RFQ_BUSY, q)
     else (RFQ_OK, q\<lparr>q_state := RFQ_FENCED\<rparr>))"

definition close_body :: "bool \<Rightarrow> rfq_queue \<Rightarrow> rfq_rc \<times> rfq_queue" where
  "close_body discard q =
    (if q_state q \<noteq> RFQ_FENCED then (RFQ_NEEDS_FENCE, q)
     else if q_consumer_busy q then (RFQ_BUSY, rfq_stop RFQ_REENTRY q)
     else let used = q_head q - q_tail q in
       if used > 8 then (RFQ_STOPPED, rfq_stop RFQ_INVARIANT q)
       else if used \<noteq> 0 \<and> \<not> discard then (RFQ_NOT_EMPTY, q)
       else (RFQ_OK, q\<lparr>q_slots := replicate 8 fr_zero, q_discarded := q_discarded q + ucast used,
               q_tail := q_head q, q_state := RFQ_CLOSED\<rparr>))"

definition summary_body :: "rfq_queue \<Rightarrow> rfq_rc \<times> rfq_summary option" where
  "summary_body q =
    (if q_state q \<noteq> RFQ_FENCED \<and> q_state q \<noteq> RFQ_CLOSED then (RFQ_NEEDS_FENCE, None)
     else if q_consumer_busy q then (RFQ_BUSY, None)
     else (RFQ_OK, Some \<lparr>su_state = q_state q, su_reason = q_reason q, su_queued = q_head q - q_tail q,
        su_first_sample = q_first_sample q, su_next_sample = q_next_sample q, su_accepted = q_accepted q,
        su_consumed = q_consumed q, su_discarded = q_discarded q\<rparr>))"

text \<open>The entry points with their pointer guards.\<close>

definition with_queue :: "(rfq_queue \<Rightarrow> rfq_rc \<times> rfq_queue) \<Rightarrow> rfq_queue ptr \<Rightarrow> rfq_rc \<times> rfq_queue ptr" where
  "with_queue f p = (if \<not> queue_valid p then (RFQ_ARGUMENT, p)
     else let (rc, q) = f (pt p) in (rc, Ptr (addr p) q))"

definition rfq_init :: "bool \<Rightarrow> rfq_queue ptr \<Rightarrow> u64 \<Rightarrow> rfq_rc \<times> rfq_queue ptr" where
  "rfq_init lock_free p first = with_queue (init_body lock_free first) p"

definition rfq_push :: "rfq_queue ptr \<Rightarrow> u64 \<Rightarrow> i16 list ptr \<Rightarrow> rfq_rc \<times> rfq_queue ptr" where
  "rfq_push p first pcm = (if \<not> apart p pcm 640 2 then (RFQ_ARGUMENT, p)
     else with_queue (push_body first (pt pcm)) p)"

definition rfq_rearm_closed :: "rfq_queue ptr \<Rightarrow> u64 \<Rightarrow> rfq_rc \<times> rfq_queue ptr" where
  "rfq_rearm_closed p first = with_queue (rearm_body first) p"

definition rfq_pop :: "rfq_queue ptr \<Rightarrow> rfq_frame ptr \<Rightarrow> rfq_rc \<times> rfq_frame ptr \<times> rfq_queue ptr" where
  "rfq_pop p out = (if \<not> apart p out 648 8 then (RFQ_ARGUMENT, out, p)
     else let (rc, f, q) = pop_body (pt p) in
       (rc, (case f of None \<Rightarrow> out | Some x \<Rightarrow> Ptr (addr out) x), Ptr (addr p) q))"

definition rfq_request_stop :: "rfq_queue ptr \<Rightarrow> rfq_rc \<times> rfq_queue ptr" where
  "rfq_request_stop p = with_queue request_stop_body p"

definition rfq_stop_reason :: "rfq_queue ptr \<Rightarrow> rfq_rc + rfq_reason" where
  "rfq_stop_reason p = (if \<not> queue_valid p then Inl RFQ_ARGUMENT
     else if \<not> admitted (q_state (pt p)) then Inl RFQ_STATE else Inr (q_reason (pt p)))"

definition rfq_confirm_producer_stopped :: "rfq_queue ptr \<Rightarrow> rfq_rc \<times> rfq_queue ptr" where
  "rfq_confirm_producer_stopped p = with_queue confirm_body p"

definition rfq_finish :: "rfq_queue ptr \<Rightarrow> rfq_rc \<times> rfq_queue ptr" where
  "rfq_finish p = with_queue (close_body False) p"

definition rfq_discard :: "rfq_queue ptr \<Rightarrow> rfq_rc \<times> rfq_queue ptr" where
  "rfq_discard p = with_queue (close_body True) p"

definition rfq_get_summary :: "rfq_queue ptr \<Rightarrow> rfq_summary ptr \<Rightarrow> rfq_rc \<times> rfq_summary ptr" where
  "rfq_get_summary p out = (if \<not> apart p out 56 8 then (RFQ_ARGUMENT, out)
     else let (rc, s) = summary_body (pt p) in
       (rc, case s of None \<Rightarrow> out | Some x \<Rightarrow> Ptr (addr out) x))"

section \<open>Ticket arithmetic\<close>

lemma slot_ix_mod: "slot_ix t = unat t mod 8"
proof -
  have "t AND 7 = take_bit 3 t" by (simp add: take_bit_eq_mask mask_eq_exp_minus_1)
  then show ?thesis by (simp add: slot_ix_def take_bit_eq_mod unat_mod)
qed

lemma slot_ix_add: "slot_ix (t + of_nat i) = (unat t + i) mod 8"
proof -
  have "(8::nat) dvd 4294967296" by simp
  then show ?thesis
    by (simp add: slot_ix_mod unat_word_ariths unat_of_nat mod_mod_cancel mod_add_right_eq)
qed

lemma slot_ix_less [simp]: "slot_ix t < 8"
  by (simp add: slot_ix_mod)

lemma mod8_inj: "(a + i) mod 8 = (a + j) mod 8 \<Longrightarrow> i < 8 \<Longrightarrow> j < 8 \<Longrightarrow> i = (j::nat)"
proof (induction i j rule: linorder_wlog)
  case (le i j)
  then have "8 dvd (a + j) - (a + i)" by (metis add_le_cancel_left mod_eq_dvd_iff_nat)
  then have "8 dvd j - i" by simp
  with le show ?case by (auto dest: dvd_imp_le)
qed simp

lemma slot_ix_inj: "slot_ix (t + of_nat i) = slot_ix (t + of_nat j) \<Longrightarrow> i < 8 \<Longrightarrow> j < 8 \<Longrightarrow> i = j"
  unfolding slot_ix_add by (rule mod8_inj)

section \<open>The ring as a list\<close>

definition q_used :: "rfq_queue \<Rightarrow> nat" where "q_used q = unat (q_head q - q_tail q)"

definition q_contents :: "rfq_queue \<Rightarrow> rfq_frame list" where
  "q_contents q = map (\<lambda>i. q_slots q ! slot_ix (q_tail q + of_nat i)) [0..<q_used q]"

lemma q_head_used: "q_head q = q_tail q + of_nat (q_used q)"
  by (simp add: q_used_def)

text \<open>The queue invariant: at most eight frames are outstanding, every slot outside the queued range is
  wiped, the counters account for every accepted frame, and the queued frames are the most recent
  consecutive frames of the timeline.\<close>

definition q_inv :: "rfq_queue \<Rightarrow> bool" where
  "q_inv q \<longleftrightarrow> length (q_slots q) = 8 \<and> q_used q \<le> 8 \<and>
     (\<forall>k<8. (\<forall>i<q_used q. k \<noteq> slot_ix (q_tail q + of_nat i)) \<longrightarrow> q_slots q ! k = fr_zero) \<and>
     q_accepted q = q_consumed q + q_discarded q + of_nat (q_used q) \<and>
     q_next_sample q = q_first_sample q + 320 * q_accepted q \<and>
     (\<forall>i<q_used q. fr_first_sample (q_slots q ! slot_ix (q_tail q + of_nat i)) =
        q_first_sample q + 320 * (q_consumed q + q_discarded q + of_nat i)) \<and>
     (q_state q = RFQ_CLOSED \<longrightarrow> q_used q = 0)"

lemma length_q_contents [simp]: "length (q_contents q) = q_used q"
  by (simp add: q_contents_def)

lemma q_inv_cong:
  assumes "q_inv q" and "q_head q' = q_head q" and "q_tail q' = q_tail q" and "q_slots q' = q_slots q"
    and "q_accepted q' = q_accepted q" and "q_consumed q' = q_consumed q" and "q_discarded q' = q_discarded q"
    and "q_first_sample q' = q_first_sample q" and "q_next_sample q' = q_next_sample q"
    and "q_state q' = RFQ_CLOSED \<longrightarrow> q_state q = RFQ_CLOSED"
  shows "q_inv q'" and "q_contents q' = q_contents q"
  using assms by (auto simp: q_inv_def q_contents_def q_used_def)

lemma rfq_stop_inv [simp]: "q_inv q \<Longrightarrow> q_inv (rfq_stop r q)" "q_contents (rfq_stop r q) = q_contents q"
  by (auto simp: rfq_stop_def q_inv_def q_contents_def q_used_def)

lemma rfq_stop_fields [simp]: "q_state (rfq_stop r q) = q_state q" "q_slots (rfq_stop r q) = q_slots q"
  by (simp_all add: rfq_stop_def)

lemma of_nat_used_less: "q_head q - q_tail q < 8 \<longleftrightarrow> q_used q < 8" "q_head q - q_tail q > 8 \<longleftrightarrow> q_used q > 8"
  "q_head q - q_tail q = 0 \<longleftrightarrow> q_used q = 0" "q_head q - q_tail q = 8 \<longleftrightarrow> q_used q = 8"
proof -
  have e: "unat (8::u32) = 8" by simp
  show "q_head q - q_tail q < 8 \<longleftrightarrow> q_used q < 8" "q_head q - q_tail q > 8 \<longleftrightarrow> q_used q > 8"
    by (simp_all add: q_used_def word_less_nat_alt)
  show "q_head q - q_tail q = 0 \<longleftrightarrow> q_used q = 0" by (simp add: q_used_def unat_eq_0)
  show "q_head q - q_tail q = 8 \<longleftrightarrow> q_used q = 8" unfolding q_used_def by (metis e word_unat_eq_iff)
qed

definition q_put :: "rfq_frame \<Rightarrow> rfq_queue \<Rightarrow> rfq_queue" where
  "q_put f q = q\<lparr>q_slots := (q_slots q)[slot_ix (q_head q) := f],
     q_next_sample := fr_first_sample f + 320, q_accepted := q_accepted q + 1, q_head := q_head q + 1\<rparr>"

lemma q_put_used:
  assumes "q_used q < 8"
  shows "q_used (q_put f q) = Suc (q_used q)"
proof -
  have "q_head (q_put f q) - q_tail (q_put f q) = q_head q - q_tail q + 1" by (simp add: q_put_def)
  then have "q_used (q_put f q) = unat (q_head q - q_tail q + 1)" by (simp add: q_used_def)
  also have "\<dots> = Suc (q_used q)" using assms by (simp add: q_used_def unat_word_ariths)
  finally show ?thesis .
qed

lemma q_put_slot:
  assumes "q_used q < 8" and "length (q_slots q) = 8" and "i \<le> q_used q"
  shows "q_slots (q_put f q) ! slot_ix (q_tail q + of_nat i) =
    (if i = q_used q then f else q_slots q ! slot_ix (q_tail q + of_nat i))"
proof -
  have "slot_ix (q_tail q + of_nat i) = slot_ix (q_head q) \<longleftrightarrow> i = q_used q"
    using slot_ix_inj [of "q_tail q" i "q_used q"] assms by (auto simp: q_head_used)
  then show ?thesis using assms(2) by (auto simp: q_put_def nth_list_update)
qed

lemma q_put_contents:
  assumes "q_used q < 8" and "length (q_slots q) = 8"
  shows "q_contents (q_put f q) = q_contents q @ [f]"
proof -
  have "q_tail (q_put f q) = q_tail q" by (simp add: q_put_def)
  then show ?thesis
    unfolding q_contents_def q_put_used [OF assms(1)] using q_put_slot [OF assms] by simp
qed

lemma q_put_fields [simp]:
  "q_tail (q_put f q) = q_tail q" "q_state (q_put f q) = q_state q" "q_consumed (q_put f q) = q_consumed q"
  "q_discarded (q_put f q) = q_discarded q" "q_first_sample (q_put f q) = q_first_sample q"
  "q_accepted (q_put f q) = q_accepted q + 1" "q_next_sample (q_put f q) = fr_first_sample f + 320"
  "length (q_slots (q_put f q)) = length (q_slots q)"
  by (simp_all add: q_put_def)

lemma q_put_inv:
  assumes "q_inv q" and "q_used q < 8" and "fr_first_sample f = q_next_sample q" and "q_state q \<noteq> RFQ_CLOSED"
  shows "q_inv (q_put f q)"
proof -
  note inv = assms(1) [unfolded q_inv_def]
  have len: "length (q_slots q) = 8" using inv by simp
  have "q_slots (q_put f q) ! k = fr_zero"
    if "k < 8" "\<forall>i<Suc (q_used q). k \<noteq> slot_ix (q_tail q + of_nat i)" for k
  proof -
    have "k \<noteq> slot_ix (q_head q)" using that(2) by (simp add: q_head_used)
    then show ?thesis using inv that len by (simp add: q_put_def)
  qed
  moreover have "fr_first_sample (q_slots (q_put f q) ! slot_ix (q_tail q + of_nat i)) =
      q_first_sample q + 320 * (q_consumed q + q_discarded q + of_nat i)" if "i < Suc (q_used q)" for i
    using inv assms(3) that q_put_slot [OF assms(2) len, of i f] by (cases "i = q_used q") auto
  ultimately show ?thesis
    using inv assms(2-4) unfolding q_inv_def q_put_used [OF assms(2)] by (auto simp: algebra_simps)
qed

definition q_get :: "rfq_queue \<Rightarrow> rfq_queue" where
  "q_get q = q\<lparr>q_slots := (q_slots q)[slot_ix (q_tail q) := fr_zero], q_consumed := q_consumed q + 1,
     q_tail := q_tail q + 1\<rparr>"

lemma q_get_used:
  assumes "q_used q \<noteq> 0"
  shows "q_used (q_get q) = q_used q - 1"
proof -
  have "q_used (q_get q) = unat (q_head q - q_tail q - 1)"
    by (simp add: q_used_def q_get_def algebra_simps)
  moreover have "q_head q - q_tail q \<noteq> 0" using assms unfolding q_used_def by (metis unat_0)
  ultimately show ?thesis by (simp add: q_used_def unat_minus_one)
qed

lemma q_get_ticket: "q_tail (q_get q) + of_nat i = q_tail q + of_nat (Suc i)"
  by (simp add: q_get_def add.assoc)

lemma q_get_slot:
  assumes "Suc i < q_used q" and "q_used q \<le> 8"
  shows "q_slots (q_get q) ! slot_ix (q_tail q + of_nat (Suc i)) = q_slots q ! slot_ix (q_tail q + of_nat (Suc i))"
proof -
  have "slot_ix (q_tail q + of_nat (Suc i)) \<noteq> slot_ix (q_tail q + of_nat 0)"
    using slot_ix_inj [of "q_tail q" "Suc i" 0] assms by linarith
  then show ?thesis unfolding q_get_def by (simp del: of_nat_Suc)
qed

lemma q_get_contents:
  assumes "q_used q \<noteq> 0" and "q_used q \<le> 8"
  shows "q_contents q = q_slots q ! slot_ix (q_tail q) # q_contents (q_get q)"
proof -
  obtain n where n: "q_used q = Suc n" using assms(1) by (cases "q_used q") auto
  have n': "q_used (q_get q) = n" using q_get_used [OF assms(1)] n by simp
  show ?thesis
    unfolding q_contents_def n n' upt_conv_Cons [OF zero_less_Suc] map_Suc_upt [symmetric] list.map map_map
    using assms n by (auto simp: q_get_ticket q_get_slot simp del: of_nat_Suc)
qed

lemma q_get_fields [simp]:
  "q_head (q_get q) = q_head q" "q_state (q_get q) = q_state q" "q_consumed (q_get q) = q_consumed q + 1"
  "q_discarded (q_get q) = q_discarded q" "q_first_sample (q_get q) = q_first_sample q"
  "q_accepted (q_get q) = q_accepted q" "q_next_sample (q_get q) = q_next_sample q"
  "length (q_slots (q_get q)) = length (q_slots q)"
  by (simp_all add: q_get_def)

lemma q_get_inv:
  assumes "q_inv q" and "q_used q \<noteq> 0"
  shows "q_inv (q_get q)"
proof -
  note inv = assms(1) [unfolded q_inv_def]
  from inv have ts: "\<forall>i<q_used q. fr_first_sample (q_slots q ! slot_ix (q_tail q + of_nat i)) =
      q_first_sample q + 320 * (q_consumed q + q_discarded q + of_nat i)" by (elim conjE)
  obtain n where n: "q_used q = Suc n" using assms(2) by (cases "q_used q") auto
  have n': "q_used (q_get q) = n" using q_get_used [OF assms(2)] n by simp
  have "q_slots (q_get q) ! k = fr_zero"
    if "k < 8" "\<forall>i<n. k \<noteq> slot_ix (q_tail q + of_nat (Suc i))" for k
  proof (cases "k = slot_ix (q_tail q)")
    case True
    then show ?thesis using inv that(1) by (simp add: q_get_def)
  next
    case False
    have "k \<noteq> slot_ix (q_tail q + of_nat i)" if "i < Suc n" for i
      using False \<open>\<forall>i<n. k \<noteq> slot_ix (q_tail q + of_nat (Suc i))\<close> that by (cases i) (simp_all del: of_nat_Suc)
    then have "q_slots q ! k = fr_zero" using inv that(1) n by simp
    then show ?thesis using False by (simp add: q_get_def)
  qed
  moreover have "fr_first_sample (q_slots (q_get q) ! slot_ix (q_tail q + of_nat (Suc i))) =
      q_first_sample q + 320 * (q_consumed q + 1 + q_discarded q + of_nat i)" if "i < n" for i
  proof -
    have "fr_first_sample (q_slots q ! slot_ix (q_tail q + of_nat (Suc i))) =
        q_first_sample q + 320 * (q_consumed q + q_discarded q + of_nat (Suc i))"
      using ts [rule_format, of "Suc i"] n that by (simp del: of_nat_Suc)
    moreover have "q_slots (q_get q) ! slot_ix (q_tail q + of_nat (Suc i)) = q_slots q ! slot_ix (q_tail q + of_nat (Suc i))"
      by (rule q_get_slot) (use inv n that in auto)
    ultimately show ?thesis by (simp add: algebra_simps)
  qed
  ultimately show ?thesis
    using inv n unfolding q_inv_def n' q_get_ticket by (auto simp: algebra_simps)
qed

section \<open>The entry points on the list view\<close>

lemma busy_inv [simp]:
  "q_inv (q\<lparr>q_producer_busy := b\<rparr>) = q_inv q" "q_contents (q\<lparr>q_producer_busy := b\<rparr>) = q_contents q"
  "q_inv (q\<lparr>q_consumer_busy := b\<rparr>) = q_inv q" "q_contents (q\<lparr>q_consumer_busy := b\<rparr>) = q_contents q"
  "q_inv (q\<lparr>q_reason := r\<rparr>) = q_inv q" "q_contents (q\<lparr>q_reason := r\<rparr>) = q_contents q"
  by (simp_all add: q_inv_def q_contents_def q_used_def)

lemma push_guarded_cases:
  assumes "q_inv q"
  obtains (ok) "push_guarded first pcm q = (RFQ_OK, q_put \<lparr>fr_first_sample = first, fr_pcm = pcm\<rparr> q)"
      "q_used q < 8" "first = q_next_sample q" "q_state q = RFQ_RUNNING" "q_reason q = RFQ_NONE"
    | (stopped) q' where "push_guarded first pcm q = (RFQ_STOPPED, q')" "q_inv q'" "q_contents q' = q_contents q"
        "q_reason q' \<noteq> RFQ_NONE \<or> q_state q' \<noteq> RFQ_RUNNING"
proof -
  have "\<exists>q'. push_guarded first pcm q = (RFQ_STOPPED, q') \<and> q_inv q' \<and> q_contents q' = q_contents q \<and>
      (q_reason q' \<noteq> RFQ_NONE \<or> q_state q' \<noteq> RFQ_RUNNING)"
    if "\<not> (q_state q = RFQ_RUNNING \<and> q_reason q = RFQ_NONE \<and> first = q_next_sample q \<and>
        \<not> first > UINT64_MAX - 320 \<and> q_used q < 8)"
    using that assms of_nat_used_less(1) [of q]
    by (auto simp: push_guarded_def Let_def not_le [symmetric] rfq_stop_def)
  then show ?thesis
    using that of_nat_used_less(1) [of q]
    by (cases "q_state q = RFQ_RUNNING \<and> q_reason q = RFQ_NONE \<and> first = q_next_sample q \<and>
        \<not> first > UINT64_MAX - 320 \<and> q_used q < 8")
       (auto simp: push_guarded_def Let_def q_put_def not_le [symmetric])
qed

lemma pop_guarded_cases:
  assumes "q_inv q"
  obtains (ok) "pop_guarded q = (RFQ_OK, Some (q_slots q ! slot_ix (q_tail q)), q_get q)"
      "q_used q \<noteq> 0" "q_state q = RFQ_RUNNING \<or> q_state q = RFQ_FENCED"
    | (none) rc where "pop_guarded q = (rc, None, q)" "rc \<noteq> RFQ_OK"
proof (cases "(q_state q = RFQ_RUNNING \<and> q_reason q = RFQ_NONE \<or> q_state q = RFQ_FENCED) \<and> q_used q \<noteq> 0")
  case True
  have "\<not> q_head q - q_tail q > 8" using assms of_nat_used_less(2) [of q] by (simp add: q_inv_def)
  with True ok of_nat_used_less(3) [of q] show ?thesis
    by (auto simp: pop_guarded_def Let_def q_get_def)
next
  case False
  have "\<not> q_head q - q_tail q > 8" using assms of_nat_used_less(2) [of q] by (simp add: q_inv_def)
  with False of_nat_used_less(3) [of q] have "\<exists>rc. pop_guarded q = (rc, None, q) \<and> rc \<noteq> RFQ_OK"
    by (auto simp: pop_guarded_def Let_def)
  with none show ?thesis by blast
qed

lemma close_inv:
  assumes "q_inv q" and "close_body b q = (rc, q')"
  shows "q_inv q'" and "q_state q' = RFQ_CLOSED \<and> q_contents q' = [] \<or> q_state q' = q_state q \<and> q_contents q' = q_contents q"
    and "rc = RFQ_OK \<Longrightarrow> b \<or> q_contents q = []" and "rc \<noteq> RFQ_OK \<Longrightarrow> q_state q' = q_state q \<and> q_contents q' = q_contents q"
proof -
  define fin where "fin = q\<lparr>q_slots := replicate 8 fr_zero,
    q_discarded := q_discarded q + ucast (q_head q - q_tail q), q_tail := q_head q, q_state := RFQ_CLOSED\<rparr>"
  have le: "\<not> q_head q - q_tail q > 8" using assms(1) of_nat_used_less(2) [of q] by (simp add: q_inv_def)
  have cast: "(ucast (q_head q - q_tail q) :: u64) = of_nat (q_used q)"
    by (simp add: q_used_def)
  have dinv: "q_inv fin"
  proof -
    have u: "q_used fin = 0" by (simp add: fin_def q_used_def)
    have "q_accepted q = q_consumed q + q_discarded q + of_nat (q_used q)"
      "q_next_sample q = q_first_sample q + 320 * q_accepted q" using assms(1) by (simp_all add: q_inv_def)
    then show ?thesis
      unfolding q_inv_def u by (simp add: fin_def cast add.assoc)
  qed
  have dc: "q_contents fin = []" "q_state fin = RFQ_CLOSED"
    by (simp_all add: fin_def q_contents_def q_used_def)
  have u0: "q_contents q = [] \<longleftrightarrow> q_head q - q_tail q = 0"
    using of_nat_used_less(3) [of q] by (simp add: q_contents_def)
  have *: "(rc, q') = (RFQ_OK, fin) \<and> (b \<or> q_contents q = []) \<or>
      rc \<noteq> RFQ_OK \<and> (q' = q \<or> q' = rfq_stop RFQ_REENTRY q)"
    using assms(2) le u0 by (auto simp: close_body_def Let_def fin_def split: if_splits)
  from * dinv assms(1) show "q_inv q'" by auto
  from * dc show "q_state q' = RFQ_CLOSED \<and> q_contents q' = [] \<or> q_state q' = q_state q \<and> q_contents q' = q_contents q"
    by auto
  from * show "rc = RFQ_OK \<Longrightarrow> b \<or> q_contents q = []" by auto
  from * show "rc \<noteq> RFQ_OK \<Longrightarrow> q_state q' = q_state q \<and> q_contents q' = q_contents q" by auto
qed

section \<open>Sequences of calls\<close>

datatype ('a, 'c) fifo_op = Put 'a | Get | Ctl 'c

text \<open>Run a sequence of calls; collect what was accepted and what was delivered.\<close>

fun fifo_run ::
  "('a \<Rightarrow> 's \<Rightarrow> bool \<times> 's) \<Rightarrow> ('s \<Rightarrow> 'a option \<times> 's) \<Rightarrow> ('c \<Rightarrow> 's \<Rightarrow> 's) \<Rightarrow> ('a, 'c) fifo_op list \<Rightarrow> 's
     \<Rightarrow> 's \<times> 'a list \<times> 'a list" where
  "fifo_run put get ctl [] s = (s, [], [])"
| "fifo_run put get ctl (Put x # ops) s =
     (let (ok, s1) = put x s; (s2, acc, del) = fifo_run put get ctl ops s1 in
      (s2, if ok then x # acc else acc, del))"
| "fifo_run put get ctl (Get # ops) s =
     (let (r, s1) = get s; (s2, acc, del) = fifo_run put get ctl ops s1 in
      (s2, acc, case r of Some x \<Rightarrow> x # del | None \<Rightarrow> del))"
| "fifo_run put get ctl (Ctl c # ops) s = fifo_run put get ctl ops (ctl c s)"

text \<open>The contract of a FIFO with a life cycle: an accepted element goes to the end, a delivered one
  comes from the front, control calls keep the contents unless they close the queue, and a closed
  queue accepts and delivers nothing.\<close>

locale fifo =
  fixes inv :: "'s \<Rightarrow> bool" and contents :: "'s \<Rightarrow> 'a list" and closed :: "'s \<Rightarrow> bool"
    and put :: "'a \<Rightarrow> 's \<Rightarrow> bool \<times> 's" and get :: "'s \<Rightarrow> 'a option \<times> 's" and ctl :: "'c \<Rightarrow> 's \<Rightarrow> 's"
  assumes put_inv: "inv s \<Longrightarrow> inv (snd (put x s))"
    and put_contents: "inv s \<Longrightarrow> contents (snd (put x s)) = contents s @ (if fst (put x s) then [x] else [])"
    and get_inv: "inv s \<Longrightarrow> inv (snd (get s))"
    and get_contents: "inv s \<Longrightarrow> contents s = (case fst (get s) of Some x \<Rightarrow> [x] | None \<Rightarrow> []) @ contents (snd (get s))"
    and ctl_inv: "inv s \<Longrightarrow> inv (ctl c s)"
    and ctl_contents: "inv s \<Longrightarrow> contents (ctl c s) = contents s \<or> closed (ctl c s)"
    and closed_empty: "inv s \<Longrightarrow> closed s \<Longrightarrow> contents s = []"
    and closed_put: "closed s \<Longrightarrow> put x s = (False, s)"
    and closed_get: "closed s \<Longrightarrow> get s = (None, s)"
    and closed_ctl: "closed s \<Longrightarrow> closed (ctl c s)"
begin

lemma run_closed: "closed s \<Longrightarrow> fifo_run put get ctl ops s = (s', acc, del) \<Longrightarrow> closed s' \<and> acc = [] \<and> del = []"
proof (induction ops arbitrary: s acc del)
  case (Cons op ops)
  show ?case
  proof (cases op)
    case (Ctl c)
    with Cons.prems show ?thesis using Cons.IH [OF closed_ctl [of s c]] by simp
  qed (use Cons in \<open>auto simp: closed_put closed_get split: prod.splits\<close>)
qed simp

lemma run_inv: "inv s \<Longrightarrow> fifo_run put get ctl ops s = (s', acc, del) \<Longrightarrow> inv s'"
proof (induction ops arbitrary: s acc del)
  case (Cons op ops)
  show ?case
  proof (cases op)
    case (Put x)
    with Cons.prems show ?thesis using Cons.IH [OF put_inv [of s x]] by (auto split: prod.splits)
  next
    case Get
    with Cons.prems show ?thesis using Cons.IH [OF get_inv [of s]] by (auto split: prod.splits)
  next
    case (Ctl c)
    with Cons.prems show ?thesis using Cons.IH [OF ctl_inv [of s c]] by simp
  qed
qed simp

lemma run_fifo:
  "inv s \<Longrightarrow> fifo_run put get ctl ops s = (s', acc, del) \<Longrightarrow>
   \<exists>lost. contents s @ acc = del @ lost @ contents s' \<and> (lost = [] \<or> closed s')"
proof (induction ops arbitrary: s acc del)
  case Nil
  then show ?case by simp
next
  case (Cons op ops)
  show ?case
  proof (cases op)
    case (Put x)
    obtain ok s1 where p: "put x s = (ok, s1)" by (cases "put x s")
    obtain acc1 where r: "fifo_run put get ctl ops s1 = (s', acc1, del)" "acc = (if ok then x # acc1 else acc1)"
      using Cons.prems(2) Put p by (auto split: prod.splits)
    have "inv s1" "contents s1 = contents s @ (if ok then [x] else [])"
      using put_inv [OF Cons.prems(1), of x] put_contents [OF Cons.prems(1), of x] p by simp_all
    with Cons.IH [OF _ r(1)] r(2) show ?thesis by (cases ok) auto
  next
    case Get
    obtain x s1 where g: "get s = (x, s1)" by (cases "get s")
    obtain del1 where r: "fifo_run put get ctl ops s1 = (s', acc, del1)"
      "del = (case x of Some y \<Rightarrow> y # del1 | None \<Rightarrow> del1)"
      using Cons.prems(2) Get g by (auto split: prod.splits)
    have "inv s1" "contents s = (case x of Some y \<Rightarrow> [y] | None \<Rightarrow> []) @ contents s1"
      using get_inv [OF Cons.prems(1)] get_contents [OF Cons.prems(1)] g by simp_all
    with Cons.IH [OF _ r(1)] r(2) show ?thesis by (cases x) auto
  next
    case (Ctl c)
    then have r: "fifo_run put get ctl ops (ctl c s) = (s', acc, del)" using Cons.prems(2) by simp
    show ?thesis
    proof (cases "closed (ctl c s)")
      case True
      have "inv s'" by (rule run_inv [OF ctl_inv [OF Cons.prems(1)] r])
      with run_closed [OF True r] closed_empty show ?thesis by auto
    next
      case False
      then show ?thesis using Cons.IH [OF ctl_inv [OF Cons.prems(1)] r] ctl_contents [OF Cons.prems(1), of c] by auto
    qed
  qed
qed

end

section \<open>The queue meets the contract\<close>

datatype rfq_ctl = RequestStop | ConfirmProducerStopped | Finish | Discard

definition rfq_put :: "rfq_frame \<Rightarrow> rfq_queue \<Rightarrow> bool \<times> rfq_queue" where
  "rfq_put f q = (let (rc, q) = push_body (fr_first_sample f) (fr_pcm f) q in (rc = RFQ_OK, q))"

definition rfq_take :: "rfq_queue \<Rightarrow> rfq_frame option \<times> rfq_queue" where
  "rfq_take q = (let (rc, f, q) = pop_body q in (f, q))"

fun rfq_control :: "rfq_ctl \<Rightarrow> rfq_queue \<Rightarrow> rfq_queue" where
  "rfq_control RequestStop q = snd (request_stop_body q)"
| "rfq_control ConfirmProducerStopped q = snd (confirm_body q)"
| "rfq_control Finish q = snd (close_body False q)"
| "rfq_control Discard q = snd (close_body True q)"

type_synonym rfq_op = "(rfq_frame, rfq_ctl) fifo_op"

definition rfq_exec :: "rfq_op list \<Rightarrow> rfq_queue \<Rightarrow> rfq_queue \<times> rfq_frame list \<times> rfq_frame list" where
  "rfq_exec = fifo_run rfq_put rfq_take rfq_control"

lemma rfq_put_law:
  assumes "q_inv q" and "rfq_put f q = (ok, q')"
  shows "q_inv q' \<and> q_contents q' = q_contents q @ (if ok then [f] else []) \<and>
    (ok \<longrightarrow> fr_first_sample f = q_next_sample q \<and> q_next_sample q' = q_next_sample q + 320) \<and>
    (\<not> ok \<longrightarrow> q_next_sample q' = q_next_sample q) \<and> q_first_sample q' = q_first_sample q"
proof (cases "q_state q = RFQ_RUNNING \<and> \<not> q_producer_busy q")
  case False
  then show ?thesis
    using assms by (auto simp: rfq_put_def push_body_def rfq_stop_def split: if_splits)
next
  case True
  let ?q = "q\<lparr>q_producer_busy := True\<rparr>"
  have inv: "q_inv ?q" using assms(1) by simp
  have r: "rfq_put f q = (case push_guarded (fr_first_sample f) (fr_pcm f) ?q of
      (rc, q1) \<Rightarrow> (rc = RFQ_OK, q1\<lparr>q_producer_busy := False\<rparr>))"
    using True by (simp add: rfq_put_def push_body_def case_prod_beta)
  have pf: "q_next_sample q1 = q_next_sample ?q \<and> q_first_sample q1 = q_first_sample ?q"
    if "push_guarded (fr_first_sample f) (fr_pcm f) ?q = (RFQ_STOPPED, q1)" for q1
    using that by (auto simp: push_guarded_def rfq_stop_def Let_def split: if_splits)
  from inv show ?thesis
  proof (cases rule: push_guarded_cases [of ?q "fr_first_sample f" "fr_pcm f"])
    case ok
    have f: "\<lparr>fr_first_sample = fr_first_sample f, fr_pcm = fr_pcm f\<rparr> = f" by simp
    have len: "length (q_slots ?q) = 8" using inv by (simp add: q_inv_def)
    have res: "ok \<and> q' = (q_put f ?q)\<lparr>q_producer_busy := False\<rparr>"
      using r assms(2) ok(1) [unfolded f] by simp
    have nx: "fr_first_sample f = q_next_sample q" "q_state ?q \<noteq> RFQ_CLOSED" using ok(3,4) by simp_all
    show ?thesis
      using res nx q_put_inv [OF inv ok(2), of f] q_put_contents [OF ok(2) len, of f] by simp
  next
    case (stopped q1)
    then show ?thesis using r assms(2) pf [OF stopped(1)] by auto
  qed
qed

lemma rfq_take_law:
  assumes "q_inv q" and "rfq_take q = (x, q')"
  shows "q_inv q' \<and> q_contents q = (case x of Some y \<Rightarrow> [y] | None \<Rightarrow> []) @ q_contents q' \<and>
    q_next_sample q' = q_next_sample q \<and> q_first_sample q' = q_first_sample q"
proof (cases "(q_state q = RFQ_RUNNING \<or> q_state q = RFQ_FENCED) \<and> \<not> q_consumer_busy q")
  case False
  then show ?thesis
    using assms by (auto simp: rfq_take_def pop_body_def rfq_stop_def split: if_splits)
next
  case True
  let ?q = "q\<lparr>q_consumer_busy := True\<rparr>"
  have inv: "q_inv ?q" using assms(1) by simp
  have r: "rfq_take q = (case pop_guarded ?q of (rc, f, q1) \<Rightarrow> (f, q1\<lparr>q_consumer_busy := False\<rparr>))"
    using True by (auto simp: rfq_take_def pop_body_def case_prod_beta)
  from inv show ?thesis
  proof (cases rule: pop_guarded_cases [of ?q])
    case ok
    have le: "q_used ?q \<le> 8" using inv by (simp add: q_inv_def)
    show ?thesis
      using ok(1) r assms(2) q_get_inv [OF inv ok(2)] q_get_contents [OF ok(2) le] by auto
  next
    case (none rc)
    then show ?thesis using r assms by auto
  qed
qed

lemma rfq_control_law:
  assumes "q_inv q"
  shows "q_inv (rfq_control c q) \<and>
    (q_contents (rfq_control c q) = q_contents q \<or> q_state (rfq_control c q) = RFQ_CLOSED) \<and>
    q_next_sample (rfq_control c q) = q_next_sample q \<and> q_first_sample (rfq_control c q) = q_first_sample q"
proof -
  have c: "q_next_sample (snd (close_body b q)) = q_next_sample q \<and> q_first_sample (snd (close_body b q)) = q_first_sample q" for b
    by (simp add: close_body_def Let_def rfq_stop_def)
  have f: "q_inv (q\<lparr>q_state := RFQ_FENCED\<rparr>) \<and> q_contents (q\<lparr>q_state := RFQ_FENCED\<rparr>) = q_contents q"
    using q_inv_cong [OF assms, of "q\<lparr>q_state := RFQ_FENCED\<rparr>"] by simp
  show ?thesis
  proof (cases c)
    case Finish
    then show ?thesis using close_inv [OF assms surjective_pairing, of False] c [of False] by auto
  next
    case Discard
    then show ?thesis using close_inv [OF assms surjective_pairing, of True] c [of True] by auto
  qed (use assms f in \<open>auto simp: request_stop_body_def confirm_body_def rfq_stop_def\<close>)
qed

interpretation rfq: fifo q_inv q_contents "\<lambda>q. q_state q = RFQ_CLOSED" rfq_put rfq_take rfq_control
proof unfold_locales
  fix q :: rfq_queue and f c
  show "q_inv q \<Longrightarrow> q_inv (snd (rfq_put f q))" using rfq_put_law [of q f] by (cases "rfq_put f q") auto
  show "q_inv q \<Longrightarrow> q_contents (snd (rfq_put f q)) = q_contents q @ (if fst (rfq_put f q) then [f] else [])"
    using rfq_put_law [of q f] by (cases "rfq_put f q") auto
  show "q_inv q \<Longrightarrow> q_inv (snd (rfq_take q))" using rfq_take_law [of q] by (cases "rfq_take q") auto
  show "q_inv q \<Longrightarrow> q_contents q = (case fst (rfq_take q) of Some y \<Rightarrow> [y] | None \<Rightarrow> []) @ q_contents (snd (rfq_take q))"
    using rfq_take_law [of q] by (cases "rfq_take q") auto
  show "q_inv q \<Longrightarrow> q_inv (rfq_control c q)" using rfq_control_law by blast
  show "q_inv q \<Longrightarrow> q_contents (rfq_control c q) = q_contents q \<or> q_state (rfq_control c q) = RFQ_CLOSED"
    using rfq_control_law by blast
  show "q_inv q \<Longrightarrow> q_state q = RFQ_CLOSED \<Longrightarrow> q_contents q = []" by (simp add: q_inv_def q_contents_def)
  show "q_state q = RFQ_CLOSED \<Longrightarrow> rfq_put f q = (False, q)" by (simp add: rfq_put_def push_body_def)
  show "q_state q = RFQ_CLOSED \<Longrightarrow> rfq_take q = (None, q)" by (simp add: rfq_take_def pop_body_def)
  show "q_state q = RFQ_CLOSED \<Longrightarrow> q_state (rfq_control c q) = RFQ_CLOSED"
    by (cases c) (simp_all add: request_stop_body_def confirm_body_def close_body_def)
qed

text \<open>Claim C10.  Whatever the call sequence (pushes, pops, stop requests, fence, finish, discard) and
  wherever the 32-bit tickets stand, the frames already queued followed by the accepted ones are
  exactly the delivered ones followed by the ones still queued; frames can only be missing in
  between once the queue is closed.\<close>

theorem rfq_fifo:
  assumes "q_inv q" and "rfq_exec calls q = (q', accepted, delivered)"
  shows "\<exists>lost. q_contents q @ accepted = delivered @ lost @ q_contents q' \<and> (lost = [] \<or> q_state q' = RFQ_CLOSED)"
  using rfq.run_fifo assms unfolding rfq_exec_def by blast

definition demo_pcm :: "nat \<Rightarrow> rfq_frame" where
  "demo_pcm n = \<lparr>fr_first_sample = 1000 + 320 * of_nat n, fr_pcm = replicate 320 (of_nat n)\<rparr>"

text \<open>A queue whose tickets are about to wrap.\<close>

definition demo_queue :: rfq_queue where
  "demo_queue = RFQ_INITIALIZER\<lparr>q_state := RFQ_RUNNING, q_first_sample := 1000, q_next_sample := 1000,
     q_head := UINT32_MAX, q_tail := UINT32_MAX\<rparr>"

lemma demo_queue_inv: "q_inv demo_queue"
  by (simp add: q_inv_def demo_queue_def RFQ_INITIALIZER_def q_used_def)

lemma demo_pcm_first: "fr_first_sample (demo_pcm n) = 1000 + 320 * of_nat n"
  by (simp add: demo_pcm_def)

lemma frame_eta: "\<lparr>fr_first_sample = fr_first_sample f, fr_pcm = fr_pcm f\<rparr> = f"
  by simp

lemma rfq_put_eval:
  assumes "q_state q = RFQ_RUNNING" and "\<not> q_producer_busy q" and "q_reason q = RFQ_NONE"
    and "fr_first_sample f = q_next_sample q" and "fr_first_sample f \<le> UINT64_MAX - 320" and "q_head q - q_tail q < 8"
  shows "rfq_put f q = (True, (q_put f q)\<lparr>q_producer_busy := False\<rparr>)"
  using assms
  by (simp add: rfq_put_def push_body_def push_guarded_def Let_def q_put_def linorder_not_le [symmetric])
     (simp add: frame_eta assms(4) [symmetric])

lemma rfq_take_eval:
  assumes "q_state q = RFQ_RUNNING" and "\<not> q_consumer_busy q" and "q_reason q = RFQ_NONE"
    and "q_head q - q_tail q \<le> 8" and "q_head q \<noteq> q_tail q"
  shows "rfq_take q = (Some (q_slots q ! slot_ix (q_tail q)), (q_get q)\<lparr>q_consumer_busy := False\<rparr>)"
  using assms by (simp add: rfq_take_def pop_body_def pop_guarded_def Let_def q_get_def linorder_not_less [symmetric])

theorem rfq_fifo_witness:
  "\<exists>q' lost. rfq_exec [Put (demo_pcm 0), Put (demo_pcm 1), Get] demo_queue =
     (q', [demo_pcm 0, demo_pcm 1], [demo_pcm 0]) \<and>
   [demo_pcm 0, demo_pcm 1] = [demo_pcm 0] @ lost @ q_contents q'"
proof -
  have "\<exists>q'. rfq_exec [Put (demo_pcm 0), Put (demo_pcm 1), Get] demo_queue =
     (q', [demo_pcm 0, demo_pcm 1], [demo_pcm 0])"
    by (simp add: rfq_exec_def rfq_put_eval rfq_take_eval demo_queue_def RFQ_INITIALIZER_def demo_pcm_first
        slot_ix_def q_put_def)
  then obtain q' where q': "rfq_exec [Put (demo_pcm 0), Put (demo_pcm 1), Get] demo_queue =
     (q', [demo_pcm 0, demo_pcm 1], [demo_pcm 0])" ..
  moreover have "q_contents demo_queue = []"
    by (simp add: q_contents_def q_used_def demo_queue_def RFQ_INITIALIZER_def)
  ultimately show ?thesis using rfq_fifo [OF demo_queue_inv q'] by auto
qed

section \<open>The timeline\<close>

lemma init_body_inv:
  assumes "init_body lf first q = (RFQ_OK, q')"
  shows "q_inv q'" "q_contents q' = []" "q_next_sample q' = first" "q_first_sample q' = first"
  using assms by (auto simp: init_body_def q_inv_def q_contents_def q_used_def split: if_splits)

lemma rearm_body_inv:
  assumes "q_inv q" and "rearm_body first q = (RFQ_OK, q')"
  shows "q_inv q'" "q_contents q' = []" "q_next_sample q' = first"
proof -
  have "q_used q = 0" "\<forall>k<8. q_slots q ! k = fr_zero" "length (q_slots q) = 8"
    using assms by (auto simp: q_inv_def rearm_body_def split: if_splits)
  then show "q_inv q'" "q_contents q' = []" "q_next_sample q' = first"
    using assms(2) by (auto simp: rearm_body_def q_inv_def q_contents_def q_used_def split: if_splits)
qed

lemma rfq_exec_timeline:
  assumes "q_inv q" and "fifo_run rfq_put rfq_take rfq_control calls q = (q', acc, del)"
  shows "q_next_sample q' = q_next_sample q + 320 * of_nat (length acc) \<and>
    (\<forall>i<length acc. fr_first_sample (acc ! i) = q_next_sample q + 320 * of_nat i)"
  using assms
proof (induction calls arbitrary: q acc del)
  case Nil
  then show ?case by simp
next
  case (Cons op calls)
  show ?case
  proof (cases op)
    case (Put f)
    obtain ok q1 where p: "rfq_put f q = (ok, q1)" by (cases "rfq_put f q")
    note law = rfq_put_law [OF Cons.prems(1) p]
    obtain acc1 where r: "fifo_run rfq_put rfq_take rfq_control calls q1 = (q', acc1, del)"
      "acc = (if ok then f # acc1 else acc1)"
      using Cons.prems(2) Put p by (auto split: prod.splits)
    from Cons.IH [OF _ r(1)] law
    have IH: "q_next_sample q' = q_next_sample q1 + 320 * of_nat (length acc1)"
      "\<And>i. i < length acc1 \<Longrightarrow> fr_first_sample (acc1 ! i) = q_next_sample q1 + 320 * of_nat i" by auto
    show ?thesis
    proof (cases ok)
      case False
      then show ?thesis using IH law r(2) by simp
    next
      case True
      have "fr_first_sample ((f # acc1) ! i) = q_next_sample q + 320 * of_nat i" if "i < Suc (length acc1)" for i
        using that IH(2) law True by (cases i) (auto simp: algebra_simps)
      then show ?thesis using IH(1) law True r(2) by (simp add: algebra_simps)
    qed
  next
    case Get
    obtain x q1 where p: "rfq_take q = (x, q1)" by (cases "rfq_take q")
    note law = rfq_take_law [OF Cons.prems(1) p]
    obtain del1 where "fifo_run rfq_put rfq_take rfq_control calls q1 = (q', acc, del1)"
      using Cons.prems(2) Get p by (auto split: prod.splits)
    from Cons.IH [OF _ this] law show ?thesis by simp
  next
    case (Ctl c)
    then have "fifo_run rfq_put rfq_take rfq_control calls (rfq_control c q) = (q', acc, del)" using Cons.prems(2) by simp
    from Cons.IH [OF _ this] rfq_control_law [OF Cons.prems(1), of c] show ?thesis by simp
  qed
qed

text \<open>Claim C17.  After initialisation at \<open>first\<close>, whatever calls follow: the accepted frames are
  contiguous in time from \<open>first\<close> in steps of 320 samples, the delivered frames are an exact prefix of
  them, at most eight frames are ever outstanding, and every slot that holds no queued frame is
  wiped.\<close>

theorem rfq_delivery:
  assumes "rfq_init lock_free (Ptr a RFQ_INITIALIZER) first = (RFQ_OK, Ptr a q)"
    and "rfq_exec calls q = (q', accepted, delivered)"
  shows "prefix delivered accepted \<and> length (q_contents q') \<le> 8 \<and>
    (\<forall>i<length accepted. fr_first_sample (accepted ! i) = first + 320 * of_nat i) \<and>
    (\<forall>k<8. q_slots q' ! k \<noteq> fr_zero \<longrightarrow> q_slots q' ! k \<in> set (q_contents q'))"
proof -
  have "init_body lock_free first RFQ_INITIALIZER = (RFQ_OK, q)"
    using assms(1) by (auto simp: rfq_init_def with_queue_def split: if_splits prod.splits)
  note init = init_body_inv [OF this]
  note run = assms(2) [unfolded rfq_exec_def]
  have inv: "q_inv q'" by (rule rfq.run_inv [OF init(1) run])
  obtain lost where "accepted = delivered @ lost @ q_contents q'"
    using rfq.run_fifo [OF init(1) run] init(2) by auto
  moreover have "q_slots q' ! k \<in> set (q_contents q')" if "k < 8" "q_slots q' ! k \<noteq> fr_zero" for k
  proof -
    have "\<forall>k<8. (\<forall>i<q_used q'. k \<noteq> slot_ix (q_tail q' + of_nat i)) \<longrightarrow> q_slots q' ! k = fr_zero"
      using inv unfolding q_inv_def by (elim conjE)
    from this [rule_format, OF that(1)] that(2)
    obtain i where "i < q_used q'" "k = slot_ix (q_tail q' + of_nat i)" by blast
    then show ?thesis by (auto simp: q_contents_def)
  qed
  ultimately show ?thesis
    using inv rfq_exec_timeline [OF init(1) run] init(3) by (auto simp: q_inv_def prefix_def)
qed

theorem rfq_delivery_witness:
  "\<exists>q q' acc. rfq_init True (Ptr 4096 RFQ_INITIALIZER) 1000 = (RFQ_OK, Ptr 4096 q) \<and>
     rfq_exec [Put (demo_pcm 0), Get] q = (q', acc, [demo_pcm 0]) \<and> prefix [demo_pcm 0] acc"
proof -
  obtain q where q: "rfq_init True (Ptr 4096 RFQ_INITIALIZER) 1000 = (RFQ_OK, Ptr 4096 q)"
    and qd: "init_body True 1000 RFQ_INITIALIZER = (RFQ_OK, q)"
    by (simp add: rfq_init_def with_queue_def ptr_span_def UINTPTR_MAX_def init_body_def RFQ_INITIALIZER_def)
  obtain q' where "rfq_exec [Put (demo_pcm 0), Get] q = (q', [demo_pcm 0], [demo_pcm 0])"
    using qd by (auto simp: rfq_exec_def rfq_put_eval rfq_take_eval init_body_def RFQ_INITIALIZER_def demo_pcm_first
        slot_ix_def q_put_def)
  with q rfq_delivery [OF q this] show ?thesis by blast
qed

end
