(* ===== verification/Host_Permit.thy ===== *)
theory Host_Permit
  imports Prelude
begin

text \<open>
  The one-shot host permit (\<open>host_permit.c\<close>): an offer that is issued once per boot and never
  renewed, and a consume operation that burns the permit before it looks at anything else.  The
  trusted snapshot callback is a parameter: a function from an environment state to a return code, a
  view and the next environment state.  The group shows that at most one consume of a boot succeeds,
  that a success proves exact binding, epoch, running task and both deadlines, and that every offer
  handed out in a boot is the same offer.
\<close>

section \<open>Model\<close>

record hp_binding =
  hb_device :: bytes
  hb_transaction :: bytes
  hb_record_digest :: bytes

record hp_view =
  hv_now :: u64
  hv_epoch :: u32
  hv_allowed :: u32
  hv_command_busy :: u32
  hv_task :: u32
  hv_running :: u32
  hv_used :: u32

record hp_offer =
  ho_binding :: hp_binding
  ho_issued :: u64
  ho_expires :: u64
  ho_epoch :: u32

text \<open>The callback of \<open>struct hp_port\<close>; \<open>None\<close> is a NULL function pointer.\<close>

type_synonym 'e hp_snapshot = "'e \<Rightarrow> int \<times> hp_view \<times> 'e"

record 'e host_permit =
  hp_gate :: u32
  hp_magic :: u32
  hp_offered :: u32
  hp_consumed :: u32
  hp_fault :: u32
  hp_last :: u64
  hp_bind :: hp_binding
  hp_port :: "'e hp_snapshot option"
  hp_offer_of :: hp_offer

abbreviation HP_MAGIC :: u32 where "HP_MAGIC \<equiv> 0x48504d31"
abbreviation HP_OFFER_MS :: u64 where "HP_OFFER_MS \<equiv> 30000"
abbreviation sizeof_hp :: nat where "sizeof_hp \<equiv> 192"
abbreviation sizeof_hp_binding :: nat where "sizeof_hp_binding \<equiv> 64"
abbreviation sizeof_hp_port :: nat where "sizeof_hp_port \<equiv> 8"
abbreviation sizeof_hp_offer :: nat where "sizeof_hp_offer \<equiv> 88"

definition hb_zero :: hp_binding where
  "hb_zero = \<lparr>hb_device = replicate 16 0, hb_transaction = replicate 16 0, hb_record_digest = replicate 32 0\<rparr>"

definition ho_zero :: hp_offer where
  "ho_zero = \<lparr>ho_binding = hb_zero, ho_issued = 0, ho_expires = 0, ho_epoch = 0\<rparr>"

definition hp_zero :: "'e host_permit" where
  "hp_zero = \<lparr>hp_gate = 0, hp_magic = 0, hp_offered = 0, hp_consumed = 0, hp_fault = 0, hp_last = 0,
     hp_bind = hb_zero, hp_port = None, hp_offer_of = ho_zero\<rparr>"

fun separate :: "'a ptr \<Rightarrow> nat \<Rightarrow> 'b ptr \<Rightarrow> nat \<Rightarrow> bool" where
  "separate (Ptr x a) n (Ptr y b) m =
     (n \<le> UINTPTR_MAX - x \<and> m \<le> UINTPTR_MAX - y \<and> (x + n \<le> y \<or> y + m \<le> x))"
| "separate p n q m = False"

definition non_sentinel :: "bytes \<Rightarrow> bool" where
  "non_sentinel p \<longleftrightarrow> foldl (OR) 0 p \<noteq> (0::u8) \<and> foldl (\<lambda>f b. f OR (b XOR 255)) 0 p \<noteq> (0::u8)"

definition hp_finish :: "'e host_permit \<Rightarrow> int \<Rightarrow> int \<times> 'e host_permit" where
  "hp_finish p rc = (rc, (if rc \<noteq> 0 then p\<lparr>hp_fault := 1\<rparr> else p)\<lparr>hp_gate := 0\<rparr>)"

text \<open>\<open>view\<close>: the snapshot, or \<open>None\<close> where the source returns -1.\<close>

definition take_view :: "'e host_permit \<Rightarrow> 'e \<Rightarrow> hp_view option \<times> 'e host_permit \<times> 'e" where
  "take_view p e =
    (let (rc, v, e') = the (hp_port p) e in
     if rc \<noteq> 0 \<or> hv_allowed v \<noteq> 1 \<or> hv_command_busy v \<noteq> 1 \<or> hv_epoch v = 0 \<or> hv_epoch v > 0x7fffffff \<or>
        hv_now v < hp_last p
     then (None, p, e') else (Some v, p\<lparr>hp_last := hv_now v\<rparr>, e'))"

fun hp_init ::
  "bool \<Rightarrow> 'e host_permit ptr \<Rightarrow> hp_binding ptr \<Rightarrow> 'e hp_snapshot option ptr \<Rightarrow> int \<times> 'e host_permit ptr" where
  "hp_init lock_free (Ptr pa p) (Ptr ba b) (Ptr ta port) =
    (if \<not> separate (Ptr pa p) sizeof_hp (Ptr ba b) sizeof_hp_binding \<or>
        \<not> separate (Ptr pa p) sizeof_hp (Ptr ta port) sizeof_hp_port \<or>
        hp_magic p \<noteq> 0 \<or> hp_fault p \<noteq> 0 \<or> port = None \<or> \<not> non_sentinel (hb_device b) \<or>
        \<not> non_sentinel (hb_transaction b) \<or> \<not> non_sentinel (hb_record_digest b)
     then (-1, Ptr pa p)
     else if \<not> lock_free then (-1, Ptr pa (hp_zero\<lparr>hp_fault := 1\<rparr>))
     else (0, Ptr pa (hp_zero\<lparr>hp_bind := b, hp_port := port, hp_magic := HP_MAGIC\<rparr>)))"
| "hp_init lock_free p b port = (-1, p)"

text \<open>\<open>view(p,&v) || bad(v)\<close>: the view, or \<open>None\<close> where the source refuses.\<close>

definition view_when :: "(hp_view \<Rightarrow> bool) \<Rightarrow> 'e host_permit \<Rightarrow> 'e \<Rightarrow> hp_view option \<times> 'e host_permit \<times> 'e" where
  "view_when good p e =
    (case take_view p e of (None, p, e) \<Rightarrow> (None, p, e)
     | (Some v, p, e) \<Rightarrow> if good v then (Some v, p, e) else (None, p, e))"

definition refuse :: "'e host_permit \<Rightarrow> 'e \<Rightarrow> int \<times> 'e host_permit \<times> 'e" where
  "refuse p e = (let (rc, p) = hp_finish p (-1) in (rc, p, e))"

definition idle_view :: "hp_view \<Rightarrow> bool" where
  "idle_view v \<longleftrightarrow> \<not> (hv_task v \<noteq> 0 \<or> hv_running v \<noteq> 0 \<or> hv_used v \<noteq> 0)"

definition task_view :: "u32 \<Rightarrow> u64 \<Rightarrow> u64 \<Rightarrow> hp_view \<Rightarrow> bool" where
  "task_view epoch d expires v \<longleftrightarrow> \<not> (hv_epoch v \<noteq> epoch \<or> hv_task v \<noteq> 11 \<or> hv_running v \<noteq> 1 \<or> hv_used v \<noteq> 1 \<or>
     hv_now v \<ge> d \<or> hv_now v \<ge> expires)"

text \<open>The frozen offer, or the first one.\<close>

definition current_offer :: "'e host_permit \<Rightarrow> hp_view \<Rightarrow> hp_offer" where
  "current_offer p v = (if hp_offered p \<noteq> 0 then hp_offer_of p
     else \<lparr>ho_binding = hp_bind p, ho_issued = hv_now v, ho_expires = hv_now v + HP_OFFER_MS, ho_epoch = hv_epoch v\<rparr>)"

text \<open>\<open>hp_get_offer\<close> once the span guards hold; the second component is the stored output.\<close>

definition get_offer_body :: "'e host_permit \<Rightarrow> 'e \<Rightarrow> int \<times> hp_offer option \<times> 'e host_permit \<times> 'e" where
  "get_offer_body p e =
    (if hp_magic p \<noteq> HP_MAGIC \<or> hp_gate p \<noteq> 0 then (-1, None, p, e)
     else let p = p\<lparr>hp_gate := 1\<rparr> in
       if hp_fault p \<noteq> 0 \<or> hp_consumed p \<noteq> 0 then let (rc, r) = refuse p e in (rc, None, r)
       else case view_when (\<lambda>v. idle_view v \<and> \<not> hv_now v > UINT64_MAX - HP_OFFER_MS) p e of
         (None, p, e) \<Rightarrow> let (rc, r) = refuse p e in (rc, None, r)
       | (Some v, p, e) \<Rightarrow>
         let offer = current_offer p v in
         if hv_epoch v \<noteq> ho_epoch offer \<or> hv_now v \<ge> ho_expires offer
         then let (rc, r) = refuse p e in (rc, None, r)
         else case view_when (\<lambda>w. idle_view w \<and> hv_epoch w = ho_epoch offer \<and> \<not> hv_now w \<ge> ho_expires offer) p e of
             (None, p, e) \<Rightarrow> let (rc, r) = refuse p e in (rc, None, r)
           | (Some w, p, e) \<Rightarrow>
             let (rc, p) = hp_finish (p\<lparr>hp_offer_of := offer, hp_offered := 1\<rparr>) 0 in (rc, Some offer, p, e))"

definition consume_body ::
  "'e host_permit \<Rightarrow> bytes \<Rightarrow> bytes \<Rightarrow> u32 \<Rightarrow> u64 \<Rightarrow> 'e \<Rightarrow> int \<times> 'e host_permit \<times> 'e" where
  "consume_body p transaction digest epoch d e =
    (if hp_magic p \<noteq> HP_MAGIC \<or> hp_gate p \<noteq> 0 then (-1, p, e)
     else let p = p\<lparr>hp_gate := 1\<rparr> in
       if hp_consumed p \<noteq> 0 then refuse p e
       else let p = p\<lparr>hp_consumed := 1\<rparr> in
         if hp_fault p \<noteq> 0 \<or> hp_offered p = 0 \<or> transaction \<noteq> hb_transaction (hp_bind p) \<or>
            digest \<noteq> hb_record_digest (hp_bind p) \<or> epoch \<noteq> ho_epoch (hp_offer_of p) \<or> d = 0
         then refuse p e
         else case view_when (task_view epoch d (ho_expires (hp_offer_of p))) p e of
             (None, p, e) \<Rightarrow> refuse p e
           | (Some v, p, e) \<Rightarrow>
             (case view_when (task_view epoch d (ho_expires (hp_offer_of p))) p e of
                (None, p, e) \<Rightarrow> refuse p e
              | (Some w, p, e) \<Rightarrow> let (rc, p) = hp_finish p 0 in (rc, p, e)))"

fun hp_get_offer ::
  "'e host_permit ptr \<Rightarrow> hp_offer ptr \<Rightarrow> 'e \<Rightarrow> int \<times> hp_offer ptr \<times> 'e host_permit ptr \<times> 'e" where
  "hp_get_offer (Ptr pa p) out e =
    (if \<not> separate (Ptr pa p) sizeof_hp out sizeof_hp_offer then (-1, out, Ptr pa p, e)
     else let (rc, r, p, e) = get_offer_body p e in
       (rc, case r of None \<Rightarrow> out | Some o' \<Rightarrow> Ptr (addr out) o', Ptr pa p, e))"
| "hp_get_offer Null out e = (-1, out, Null, e)"

fun hp_consume ::
  "'e host_permit ptr \<Rightarrow> bytes ptr \<Rightarrow> bytes ptr \<Rightarrow> u32 \<Rightarrow> u64 \<Rightarrow> 'e \<Rightarrow> int \<times> 'e host_permit ptr \<times> 'e" where
  "hp_consume (Ptr pa p) transaction digest epoch d e =
    (if \<not> separate (Ptr pa p) sizeof_hp transaction 16 \<or> \<not> separate (Ptr pa p) sizeof_hp digest 32
     then (-1, Ptr pa p, e)
     else let (rc, p, e) = consume_body p (pt transaction) (pt digest) epoch d e in (rc, Ptr pa p, e))"
| "hp_consume Null transaction digest epoch d e = (-1, Null, e)"

declare hp_init.simps [simp del] hp_get_offer.simps [simp del] hp_consume.simps [simp del]

section \<open>Effects of the operations\<close>

text \<open>A view only moves the time of the last snapshot forward.\<close>

lemma view_when_cases:
  assumes "view_when good p e = (r, p', e')"
  obtains l where "p' = p\<lparr>hp_last := l\<rparr>" and "hp_last p \<le> l" and "\<And>v. r = Some v \<Longrightarrow> good v \<and> hv_now v = l"
proof -
  obtain r1 p1 e1 where t: "take_view p e = (r1, p1, e1)" by (cases "take_view p e")
  then have "\<exists>l. p1 = p\<lparr>hp_last := l\<rparr> \<and> hp_last p \<le> l \<and> (\<forall>v. r1 = Some v \<longrightarrow> hv_now v = l)"
    by (auto simp: take_view_def split: if_splits prod.splits intro!: exI [of _ "hp_last p1"])
  then obtain l where l: "p1 = p\<lparr>hp_last := l\<rparr>" "hp_last p \<le> l" "\<forall>v. r1 = Some v \<longrightarrow> hv_now v = l" by blast
  show ?thesis
    by (rule that [of l]) (use assms t l in \<open>auto simp: view_when_def split: option.splits if_splits\<close>)
qed

text \<open>What every operation keeps.\<close>

definition hp_keeps :: "'e host_permit \<Rightarrow> 'e host_permit \<Rightarrow> bool" where
  "hp_keeps p q \<longleftrightarrow> hp_magic q = hp_magic p \<and> hp_bind q = hp_bind p \<and> hp_port q = hp_port p \<and>
     hp_last p \<le> hp_last q \<and> (hp_consumed p \<noteq> 0 \<longrightarrow> hp_consumed q \<noteq> 0) \<and>
     (hp_offered p \<noteq> 0 \<longrightarrow> hp_offered q \<noteq> 0 \<and> hp_offer_of q = hp_offer_of p)"

lemma hp_keeps_trans: "hp_keeps p q \<Longrightarrow> hp_keeps q r \<Longrightarrow> hp_keeps p r"
  by (auto simp: hp_keeps_def)

lemma hp_keeps_refl: "hp_keeps p p"
  by (simp add: hp_keeps_def)

lemma refuse_result: "refuse p e = (rc, p', e') \<Longrightarrow> rc = -1 \<and> e' = e \<and> p' = p\<lparr>hp_fault := 1, hp_gate := 0\<rparr>"
  by (simp add: refuse_def hp_finish_def)

lemma get_offer_result:
  assumes "get_offer_body p e = (rc, r, p', e')"
  shows "hp_keeps p p' \<and> (rc = 0 \<longrightarrow> r = Some (hp_offer_of p') \<and> hp_offered p' \<noteq> 0 \<and>
     hp_last p' < ho_expires (hp_offer_of p'))"
proof -
  let ?p0 = "p\<lparr>hp_gate := 1\<rparr>"
  let ?g = "\<lambda>v. idle_view v \<and> \<not> hv_now v > UINT64_MAX - HP_OFFER_MS"
  obtain r1 p1 e1 where v1: "view_when ?g ?p0 e = (r1, p1, e1)" by (cases "view_when ?g ?p0 e")
  obtain l1 where p1: "p1 = ?p0\<lparr>hp_last := l1\<rparr>" "hp_last ?p0 \<le> l1" by (rule view_when_cases [OF v1])
  show ?thesis
  proof (cases "hp_magic p \<noteq> HP_MAGIC \<or> hp_gate p \<noteq> 0 \<or> hp_fault p \<noteq> 0 \<or> hp_consumed p \<noteq> 0 \<or> r1 = None")
    case True
    then have body: "get_offer_body p e = (if hp_magic p \<noteq> HP_MAGIC \<or> hp_gate p \<noteq> 0 then (-1, None, p, e)
        else if hp_fault p \<noteq> 0 \<or> hp_consumed p \<noteq> 0 then let (rc, r) = refuse ?p0 e in (rc, None, r)
        else let (rc, r) = refuse p1 e1 in (rc, None, r))"
      using v1 by (auto simp: get_offer_body_def)
    show ?thesis
      using assms unfolding body
      using p1 by (auto simp: hp_keeps_def refuse_def hp_finish_def split: if_splits)
  next
    case False
    then obtain v where v: "r1 = Some v" by auto
    define offer where "offer = current_offer p1 v"
    have frozen: "hp_offered p \<noteq> 0 \<Longrightarrow> offer = hp_offer_of p" using p1(1) by (simp add: offer_def current_offer_def)
    let ?h = "\<lambda>w. idle_view w \<and> hv_epoch w = ho_epoch offer \<and> \<not> hv_now w \<ge> ho_expires offer"
    obtain r2 p2 e2 where v2: "view_when ?h p1 e1 = (r2, p2, e2)" by (cases "view_when ?h p1 e1")
    obtain l2 where p2: "p2 = p1\<lparr>hp_last := l2\<rparr>" "hp_last p1 \<le> l2"
      "\<And>w. r2 = Some w \<Longrightarrow> ?h w \<and> hv_now w = l2" by (rule view_when_cases [OF v2]) blast
    have body: "get_offer_body p e = (if hv_epoch v \<noteq> ho_epoch offer \<or> hv_now v \<ge> ho_expires offer
        then let (rc, r) = refuse p1 e1 in (rc, None, r)
        else case r2 of None \<Rightarrow> let (rc, r) = refuse p2 e2 in (rc, None, r)
          | Some w \<Rightarrow> let (rc, p) = hp_finish (p2\<lparr>hp_offer_of := offer, hp_offered := 1\<rparr>) 0 in (rc, Some offer, p, e2))"
      using False v1 v v2 unfolding offer_def by (cases r2) (simp_all add: get_offer_body_def Let_def)
    have mono: "hp_last p \<le> l2" using p1 p2(1,2) by simp
    show ?thesis
      using assms unfolding body
      using p1 p2 mono frozen
      by (cases r2) (auto simp: refuse_def hp_finish_def hp_keeps_def split: if_splits)
  qed
qed

lemma consume_result:
  assumes "consume_body p tx dg epoch d e = (rc, p', e')"
  shows "hp_keeps p p' \<and> hp_offered p' = hp_offered p \<and> hp_offer_of p' = hp_offer_of p \<and>
    (rc = 0 \<longrightarrow> hp_consumed p = 0 \<and> hp_consumed p' \<noteq> 0 \<and> hp_fault p = 0 \<and> hp_offered p \<noteq> 0 \<and>
       tx = hb_transaction (hp_bind p) \<and> dg = hb_record_digest (hp_bind p) \<and> epoch = ho_epoch (hp_offer_of p) \<and>
       hp_last p' < d \<and> hp_last p' < ho_expires (hp_offer_of p))"
proof -
  let ?p0 = "p\<lparr>hp_gate := 1, hp_consumed := 1\<rparr>" and ?g = "task_view epoch d (ho_expires (hp_offer_of p))"
  obtain r1 p1 e1 where v1: "view_when ?g ?p0 e = (r1, p1, e1)" by (cases "view_when ?g ?p0 e")
  obtain l1 where p1: "p1 = ?p0\<lparr>hp_last := l1\<rparr>" "hp_last ?p0 \<le> l1" by (rule view_when_cases [OF v1])
  obtain r2 p2 e2 where v2: "view_when ?g p1 e1 = (r2, p2, e2)" by (cases "view_when ?g p1 e1")
  obtain l2 where p2: "p2 = p1\<lparr>hp_last := l2\<rparr>" "hp_last p1 \<le> l2"
    "\<And>w. r2 = Some w \<Longrightarrow> ?g w \<and> hv_now w = l2" by (rule view_when_cases [OF v2]) blast
  have mono: "hp_last p \<le> l2" using p1 p2(1,2) by simp
  have off: "hp_offer_of p1 = hp_offer_of p" using p1 by simp
  define guard where "guard \<longleftrightarrow> hp_fault p \<noteq> 0 \<or> hp_offered p = 0 \<or> tx \<noteq> hb_transaction (hp_bind p) \<or>
    dg \<noteq> hb_record_digest (hp_bind p) \<or> epoch \<noteq> ho_epoch (hp_offer_of p) \<or> d = 0"
  have body: "consume_body p tx dg epoch d e =
     (if hp_magic p \<noteq> HP_MAGIC \<or> hp_gate p \<noteq> 0 then (-1, p, e)
      else if hp_consumed p \<noteq> 0 then refuse (p\<lparr>hp_gate := 1\<rparr>) e
      else if guard then refuse ?p0 e
      else case r1 of None \<Rightarrow> refuse p1 e1
        | Some v \<Rightarrow> (case r2 of None \<Rightarrow> refuse p2 e2 | Some w \<Rightarrow> let (rc, p) = hp_finish p2 0 in (rc, p, e2)))"
  proof (cases "epoch = ho_epoch (hp_offer_of p)")
    case True
    show ?thesis
      using v1 v2 off unfolding True by (cases r1; cases r2) (simp_all add: consume_body_def Let_def guard_def True)
  qed (simp add: consume_body_def Let_def guard_def)
  consider (stay) "rc = -1" "p' = p" | (stop) x y where "refuse x y = (rc, p', e')"
      "x = p\<lparr>hp_gate := 1\<rparr> \<or> x = ?p0 \<or> x = p1 \<or> x = p2"
    | (ok) w where "rc = 0" "p' = p2\<lparr>hp_gate := 0\<rparr>" "\<not> guard" "hp_consumed p = 0" "r2 = Some w"
    using assms unfolding body hp_finish_def Let_def
    by (simp only: prod.case prod.inject split: if_split_asm option.split_asm) (auto simp only: refl prod.inject)
  then show ?thesis
  proof cases
    case stay
    then show ?thesis by (simp add: hp_keeps_refl)
  next
    case stop
    then show ?thesis using refuse_result [OF stop(1)] p1 p2(1) mono by (auto simp: hp_keeps_def)
  next
    case ok
    then show ?thesis using p1 p2(1) mono p2(3) [OF ok(5)] by (auto simp: hp_keeps_def guard_def task_view_def)
  qed
qed

section \<open>A boot\<close>

text \<open>The calls of one boot on the one owner object, and their results.\<close>

datatype 'e hp_call =
    Init bool "hp_binding ptr" "'e hp_snapshot option ptr"
  | GetOffer "hp_offer ptr"
  | Consume "bytes ptr" "bytes ptr" u32 u64

datatype hp_event = EvInit int | EvOffer int "hp_offer ptr" | EvConsume int

fun hp_call_step :: "'e hp_call \<Rightarrow> 'e host_permit ptr \<Rightarrow> 'e \<Rightarrow> hp_event \<times> 'e host_permit ptr \<times> 'e" where
  "hp_call_step (Init lf b port) p e = (let (rc, p) = hp_init lf p b port in (EvInit rc, p, e))"
| "hp_call_step (GetOffer out) p e = (let (rc, out, p, e) = hp_get_offer p out e in (EvOffer rc out, p, e))"
| "hp_call_step (Consume tx dg epoch d) p e =
     (let (rc, p, e) = hp_consume p tx dg epoch d e in (EvConsume rc, p, e))"

fun hp_boot :: "'e hp_call list \<Rightarrow> 'e host_permit ptr \<Rightarrow> 'e \<Rightarrow> hp_event list \<times> 'e host_permit ptr \<times> 'e" where
  "hp_boot [] p e = ([], p, e)"
| "hp_boot (c # cs) p e =
     (let (ev, p, e) = hp_call_step c p e; (evs, p, e) = hp_boot cs p e in (ev # evs, p, e))"

text \<open>The events that are possible from a permit: after magic is set, no init succeeds; after a consume,
  no consume succeeds; after an offer, only that offer is returned.\<close>

fun ev_ok :: "'e host_permit \<Rightarrow> hp_event \<Rightarrow> bool" where
  "ev_ok p (EvInit rc) = (hp_magic p = HP_MAGIC \<longrightarrow> rc \<noteq> 0)"
| "ev_ok p (EvOffer rc out) = (rc = 0 \<and> hp_offered p \<noteq> 0 \<longrightarrow> pt out = hp_offer_of p)"
| "ev_ok p (EvConsume rc) = (hp_consumed p \<noteq> 0 \<longrightarrow> rc \<noteq> 0)"

lemma hp_call_step_ready:
  assumes "hp_call_step c (Ptr a p) e = (ev, q, e')" and "hp_magic p = HP_MAGIC"
  obtains p' where "q = Ptr a p'" and "hp_keeps p p'" and "ev_ok p ev"
    and "\<And>rc out. ev = EvOffer rc out \<Longrightarrow> rc = 0 \<Longrightarrow> hp_offered p' \<noteq> 0 \<and> hp_offer_of p' = pt out"
    and "\<And>rc. ev = EvConsume rc \<Longrightarrow> rc = 0 \<Longrightarrow> hp_consumed p' \<noteq> 0"
proof (cases c)
  case (Init lf b port)
  then have "q = Ptr a p \<and> ev = EvInit (-1)"
    using assms by (cases b; cases port) (auto simp: hp_init.simps)
  then show ?thesis using that [of p] by (simp add: hp_keeps_refl)
next
  case (GetOffer out)
  show ?thesis
  proof (cases "separate (Ptr a p) sizeof_hp out sizeof_hp_offer")
    case False
    then show ?thesis using assms(1) GetOffer that [of p] by (auto simp: hp_get_offer.simps hp_keeps_refl)
  next
    case True
    obtain rc r p' e1 where b: "get_offer_body p e = (rc, r, p', e1)" by (cases "get_offer_body p e")
    note res = get_offer_result [OF b]
    have "q = Ptr a p'" "ev = EvOffer rc (case r of None \<Rightarrow> out | Some o' \<Rightarrow> Ptr (addr out) o')"
      using assms(1) GetOffer True b by (auto simp: hp_get_offer.simps)
    then show ?thesis using that [of p'] res by (auto simp: hp_keeps_def)
  qed
next
  case (Consume tx dg epoch d)
  show ?thesis
  proof (cases "separate (Ptr a p) sizeof_hp tx 16 \<and> separate (Ptr a p) sizeof_hp dg 32")
    case False
    then show ?thesis using assms(1) Consume that [of p] by (auto simp: hp_consume.simps hp_keeps_refl)
  next
    case True
    obtain rc p' e1 where b: "consume_body p (pt tx) (pt dg) epoch d e = (rc, p', e1)"
      by (cases "consume_body p (pt tx) (pt dg) epoch d e")
    note res = consume_result [OF b]
    have "q = Ptr a p'" "ev = EvConsume rc" using assms(1) Consume True b by (auto simp: hp_consume.simps)
    then show ?thesis using that [of p'] res by auto
  qed
qed

lemma hp_boot_ready:
  assumes "hp_boot cs (Ptr a p) e = (evs, q, e')" and "hp_magic p = HP_MAGIC"
  shows "\<forall>ev\<in>set evs. ev_ok p ev"
  using assms
proof (induction cs arbitrary: p e evs)
  case Nil
  then show ?case by simp
next
  case (Cons c cs)
  obtain ev q1 e1 where s: "hp_call_step c (Ptr a p) e = (ev, q1, e1)" by (cases "hp_call_step c (Ptr a p) e")
  obtain p1 where p1: "q1 = Ptr a p1" "hp_keeps p p1" "ev_ok p ev" by (rule hp_call_step_ready [OF s Cons.prems(2)])
  obtain evs1 where r: "hp_boot cs (Ptr a p1) e1 = (evs1, q, e')" "evs = ev # evs1"
    using Cons.prems(1) s p1(1) by (auto split: prod.splits)
  have "\<forall>x\<in>set evs1. ev_ok p1 x" using Cons.IH [OF r(1)] p1(2) Cons.prems(2) by (simp add: hp_keeps_def)
  moreover have "ev_ok p1 x \<Longrightarrow> ev_ok p x" for x
    using p1(2) by (cases x) (auto simp: hp_keeps_def)
  ultimately show ?case using p1(3) r(2) by auto
qed

text \<open>Claim C18.  In one boot on one initialised owner, at most one consume succeeds: whatever calls follow
  a successful consume (further consumes, offers or initialisations, with any arguments and
  any snapshots), none of the later consumes succeeds.\<close>

theorem hp_consume_once:
  assumes "hp_magic p = HP_MAGIC" and "hp_boot cs (Ptr a p) e = (evs, q, e')"
    and "i < j" and "j < length evs" and "evs ! i = EvConsume 0"
  shows "evs ! j \<noteq> EvConsume 0"
  using assms
proof (induction cs arbitrary: p e evs i j)
  case Nil
  then show ?case by simp
next
  case (Cons c cs)
  obtain ev q1 e1 where s: "hp_call_step c (Ptr a p) e = (ev, q1, e1)" by (cases "hp_call_step c (Ptr a p) e")
  obtain p1 where p1: "q1 = Ptr a p1" "hp_keeps p p1" "\<And>rc. ev = EvConsume rc \<Longrightarrow> rc = 0 \<Longrightarrow> hp_consumed p1 \<noteq> 0"
    by (rule hp_call_step_ready [OF s Cons.prems(1)]) blast
  obtain evs1 where r: "hp_boot cs (Ptr a p1) e1 = (evs1, q, e')" "evs = ev # evs1"
    using Cons.prems(2) s p1(1) by (auto split: prod.splits)
  have m: "hp_magic p1 = HP_MAGIC" using p1(2) Cons.prems(1) by (simp add: hp_keeps_def)
  obtain j' where j: "j = Suc j'" "j' < length evs1" using Cons.prems(3,4) r(2) by (cases j) auto
  show ?case
  proof (cases i)
    case 0
    then have "hp_consumed p1 \<noteq> 0" using p1(3) Cons.prems(5) r(2) by simp
    moreover have "ev_ok p1 (evs1 ! j')" using hp_boot_ready [OF r(1) m] j(2) by simp
    ultimately show ?thesis using j r(2) by (cases "evs1 ! j'") auto
  next
    case (Suc i')
    then show ?thesis using Cons.IH [OF m r(1), of i' j'] Cons.prems j r(2) by simp
  qed
qed

text \<open>A concrete boot: snapshots count time; the permit task runs from the third snapshot on.\<close>

definition demo_snapshot :: "nat hp_snapshot" where
  "demo_snapshot n = (0, \<lparr>hv_now = 100 + of_nat n, hv_epoch = 5, hv_allowed = 1, hv_command_busy = 1,
     hv_task = (if n < 4 then 0 else 11), hv_running = (if n < 4 then 0 else 1), hv_used = (if n < 4 then 0 else 1)\<rparr>, Suc n)"

definition demo_binding :: hp_binding where
  "demo_binding = \<lparr>hb_device = replicate 16 1, hb_transaction = replicate 16 2, hb_record_digest = replicate 32 3\<rparr>"

definition demo_permit :: "nat host_permit" where
  "demo_permit = hp_zero\<lparr>hp_bind := demo_binding, hp_port := Some demo_snapshot, hp_magic := HP_MAGIC\<rparr>"

definition demo_offer :: hp_offer where
  "demo_offer = \<lparr>ho_binding = demo_binding, ho_issued = 100, ho_expires = 30100, ho_epoch = 5\<rparr>"

abbreviation demo_calls :: "nat hp_call list" where
  "demo_calls \<equiv> [GetOffer (Ptr 500 ho_zero), GetOffer (Ptr 500 ho_zero), Consume (Ptr 600 (replicate 16 2)) (Ptr 700 (replicate 32 3)) 5 9000,
     Consume (Ptr 600 (replicate 16 2)) (Ptr 700 (replicate 32 3)) 5 9000]"

lemma demo_boot:
  obtains q e where "hp_boot demo_calls (Ptr 100 demo_permit) 0 =
    ([EvOffer 0 (Ptr 500 demo_offer), EvOffer 0 (Ptr 500 demo_offer), EvConsume 0, EvConsume (-1)], q, e)"
  by (simp add: hp_get_offer.simps hp_consume.simps UINTPTR_MAX_def get_offer_body_def consume_body_def Let_def
      demo_permit_def hp_zero_def view_when_def take_view_def demo_snapshot_def idle_view_def task_view_def
      current_offer_def refuse_def hp_finish_def demo_binding_def demo_offer_def)

theorem hp_consume_once_witness:
  "\<exists>q e. hp_boot demo_calls (Ptr 100 demo_permit) 0 =
     ([EvOffer 0 (Ptr 500 demo_offer), EvOffer 0 (Ptr 500 demo_offer), EvConsume 0, EvConsume (-1)], q, e) \<and>
     EvConsume (-1) \<noteq> EvConsume 0"
proof -
  obtain q e where b: "hp_boot demo_calls (Ptr 100 demo_permit) 0 =
    ([EvOffer 0 (Ptr 500 demo_offer), EvOffer 0 (Ptr 500 demo_offer), EvConsume 0, EvConsume (-1)], q, e)"
    by (rule demo_boot)
  have "hp_magic demo_permit = HP_MAGIC" by (simp add: demo_permit_def)
  from hp_consume_once [OF this b, of 2 3] b show ?thesis by simp
qed

text \<open>Every offer returned in a boot is the same offer: its expiry and epoch are never renewed.\<close>

theorem hp_offer_frozen:
  assumes "hp_magic p = HP_MAGIC" and "hp_boot cs (Ptr a p) e = (evs, q, e')"
    and "i < j" and "j < length evs" and "evs ! i = EvOffer 0 out" and "evs ! j = EvOffer 0 out'"
  shows "pt out' = pt out"
  using assms
proof (induction cs arbitrary: p e evs i j)
  case Nil
  then show ?case by simp
next
  case (Cons c cs)
  obtain ev q1 e1 where s: "hp_call_step c (Ptr a p) e = (ev, q1, e1)" by (cases "hp_call_step c (Ptr a p) e")
  obtain p1 where p1: "q1 = Ptr a p1" "hp_keeps p p1"
    "\<And>rc out. ev = EvOffer rc out \<Longrightarrow> rc = 0 \<Longrightarrow> hp_offered p1 \<noteq> 0 \<and> hp_offer_of p1 = pt out"
    by (rule hp_call_step_ready [OF s Cons.prems(1)]) blast
  obtain evs1 where r: "hp_boot cs (Ptr a p1) e1 = (evs1, q, e')" "evs = ev # evs1"
    using Cons.prems(2) s p1(1) by (auto split: prod.splits)
  have m: "hp_magic p1 = HP_MAGIC" using p1(2) Cons.prems(1) by (simp add: hp_keeps_def)
  obtain j' where j: "j = Suc j'" "j' < length evs1" using Cons.prems(3,4) r(2) by (cases j) auto
  show ?case
  proof (cases i)
    case 0
    then have "hp_offered p1 \<noteq> 0 \<and> hp_offer_of p1 = pt out" using p1(3) Cons.prems(5) r(2) by simp
    moreover have "ev_ok p1 (evs1 ! j')" using hp_boot_ready [OF r(1) m] j(2) by simp
    ultimately show ?thesis using j r(2) Cons.prems(6) by simp
  next
    case (Suc i')
    then show ?thesis using Cons.IH [OF m r(1), of i' j'] Cons.prems j r(2) by simp
  qed
qed

theorem hp_offer_frozen_witness:
  "\<exists>evs q e. hp_boot demo_calls (Ptr 100 demo_permit) 0 = (evs, q, e) \<and>
     evs ! 0 = EvOffer 0 (Ptr 500 demo_offer) \<and> evs ! 1 = EvOffer 0 (Ptr 500 demo_offer) \<and>
     pt (Ptr 500 demo_offer) = pt (Ptr 500 demo_offer)"
proof -
  obtain q e where b: "hp_boot demo_calls (Ptr 100 demo_permit) 0 =
    ([EvOffer 0 (Ptr 500 demo_offer), EvOffer 0 (Ptr 500 demo_offer), EvConsume 0, EvConsume (-1)], q, e)"
    by (rule demo_boot)
  have "hp_magic demo_permit = HP_MAGIC" by (simp add: demo_permit_def)
  from hp_offer_frozen [OF this b, of 0 1] b show ?thesis by simp
qed

end
