(* ===== verification/Segment_Header.thy ===== *)
theory Segment_Header
  imports Prelude
begin

text \<open>
  The encrypted-segment container header (\<open>encrypted_segment_header.c\<close>): a 128-byte big-endian
  header that binds a recipient key fingerprint, device, volume, generation, recording and segment
  number, the structural check of a header or container against an expected binding, and the HPKE
  info string.  The group shows that validation accepts exactly the bytes the builder produces and
  that a header determines its binding.
\<close>

section \<open>Model\<close>

datatype es_result = ES_OK | ES_ARGUMENT | ES_INVALID

record es_binding =
  es_key_fingerprint :: bytes
  es_device_id :: bytes
  es_volume_id :: bytes
  es_recording_id :: bytes
  es_generation :: u64
  es_segment_sequence :: u32
  es_plaintext_bytes :: u32

text \<open>The array bounds of the C struct.\<close>

definition wf_es_binding :: "es_binding \<Rightarrow> bool" where
  "wf_es_binding b \<longleftrightarrow> length (es_key_fingerprint b) = 32 \<and> length (es_device_id b) = 16 \<and>
     length (es_volume_id b) = 16 \<and> length (es_recording_id b) = 16"

abbreviation sizeof_es_binding :: nat where "sizeof_es_binding \<equiv> 96"

definition es_magic :: bytes where "es_magic = ascii ''OPNDES1'' @ [0]"
definition es_domain :: bytes where "es_domain = ascii ''OpenPendant encrypted segment v1'' @ [0]"

definition es_put :: "nat \<Rightarrow> u64 \<Rightarrow> nat \<Rightarrow> bytes \<Rightarrow> bytes" where
  "es_put off v n out = blit off (be_bytes n v) out"

definition es_get :: "nat \<Rightarrow> nat \<Rightarrow> bytes \<Rightarrow> u64" where
  "es_get off n p = be_val (part off n p)"

definition es_valid :: "es_binding \<Rightarrow> bool" where
  "es_valid b \<longleftrightarrow>
     identity (es_key_fingerprint b) \<and> identity (es_device_id b) \<and>
     identity (es_volume_id b) \<and> identity (es_recording_id b) \<and>
     es_generation b > 0 \<and> es_generation b \<le> INT64_MAX \<and> es_segment_sequence b \<le> INT32_MAX \<and>
     es_plaintext_bytes b > 0 \<and> es_plaintext_bytes b \<le> 65536"

text \<open>The stores of \<open>es_header_build\<close>, in order.\<close>

definition es_encode :: "es_binding \<Rightarrow> bytes \<Rightarrow> bytes" where
  "es_encode b out =
    (let p = blit 0 (replicate 128 0) out;
         p = blit 0 es_magic p; p = es_put 8 1 2 p; p = es_put 10 128 2 p;
         p = es_put 12 16 2 p; p = es_put 14 1 2 p; p = es_put 16 2 2 p;
         p = blit 20 (es_key_fingerprint b) p; p = blit 52 (es_device_id b) p;
         p = blit 68 (es_volume_id b) p;
         p = es_put 84 (es_generation b) 8 p; p = blit 92 (es_recording_id b) p;
         p = es_put 108 (ucast (es_segment_sequence b)) 4 p;
         p = es_put 112 (ucast (es_plaintext_bytes b)) 4 p
     in p)"

fun es_header_build :: "bytes ptr \<Rightarrow> nat \<Rightarrow> es_binding ptr \<Rightarrow> es_result \<times> bytes ptr" where
  "es_header_build (Ptr oa out) sz (Ptr ba b) =
     (if sz \<noteq> 128 \<or> \<not> es_valid b \<or> overlap oa sz ba sizeof_es_binding
      then (ES_ARGUMENT, Ptr oa out) else (ES_OK, Ptr oa (es_encode b out)))"
| "es_header_build out sz b = (ES_ARGUMENT, out)"

text \<open>The field comparisons of \<open>es_header_validate\<close>.\<close>

definition es_matches :: "bytes \<Rightarrow> es_binding \<Rightarrow> bool" where
  "es_matches p b \<longleftrightarrow>
     \<not> (\<not> ct_equal (part 0 8 p) es_magic \<or> es_get 8 2 p \<noteq> 1 \<or> es_get 10 2 p \<noteq> 128 \<or>
        es_get 12 2 p \<noteq> 16 \<or> es_get 14 2 p \<noteq> 1 \<or> es_get 16 2 p \<noteq> 2 \<or> es_get 18 2 p \<noteq> 0 \<or>
        \<not> all_eq (part 116 12 p) 0 \<or> \<not> ct_equal (part 20 32 p) (es_key_fingerprint b) \<or>
        \<not> ct_equal (part 52 16 p) (es_device_id b) \<or>
        \<not> ct_equal (part 68 16 p) (es_volume_id b) \<or> es_get 84 8 p \<noteq> es_generation b \<or>
        \<not> ct_equal (part 92 16 p) (es_recording_id b) \<or>
        es_get 108 4 p \<noteq> ucast (es_segment_sequence b) \<or>
        es_get 112 4 p \<noteq> ucast (es_plaintext_bytes b))"

fun es_header_validate :: "bytes ptr \<Rightarrow> nat \<Rightarrow> es_binding ptr \<Rightarrow> es_result" where
  "es_header_validate (Ptr pa p) sz (Ptr ba b) =
     (if sz \<noteq> 128 \<or> \<not> es_valid b \<or> overlap pa sz ba sizeof_es_binding then ES_ARGUMENT
      else if \<not> es_matches p b then ES_INVALID else ES_OK)"
| "es_header_validate p sz b = ES_ARGUMENT"

fun es_container_validate :: "bytes ptr \<Rightarrow> nat \<Rightarrow> es_binding ptr \<Rightarrow> es_result" where
  "es_container_validate (Ptr pa p) sz (Ptr ba b) =
     (if \<not> es_valid b \<or> sz < 128 \<or> sz > 128 + 65 + 65536 + 16 \<or>
         overlap pa sz ba sizeof_es_binding then ES_ARGUMENT
      else if sz \<noteq> 128 + 65 + unat (es_plaintext_bytes b) + 16 then ES_INVALID
      else (case es_header_validate (Ptr pa p) 128 (Ptr ba b) of
              ES_OK \<Rightarrow> if p ! 128 = 4 then ES_OK else ES_INVALID
            | e \<Rightarrow> e))"
| "es_container_validate p sz b = ES_ARGUMENT"

fun es_info_build ::
  "bytes ptr \<Rightarrow> nat \<Rightarrow> bytes ptr \<Rightarrow> nat \<Rightarrow> es_binding ptr \<Rightarrow> es_result \<times> bytes ptr" where
  "es_info_build (Ptr oa out) sz (Ptr pa p) psz (Ptr ba b) =
     (if sz \<noteq> 161 \<or> overlap oa sz pa psz \<or> overlap oa sz ba sizeof_es_binding
      then (ES_ARGUMENT, Ptr oa out)
      else (case es_header_validate (Ptr pa p) psz (Ptr ba b) of
              ES_OK \<Rightarrow> (ES_OK, Ptr oa (blit 33 (part 0 128 p) (blit 0 es_domain out)))
            | e \<Rightarrow> (e, Ptr oa out)))"
| "es_info_build out sz p psz b = (ES_ARGUMENT, out)"

section \<open>Field lemmas\<close>

lemma length_es_consts [simp]: "length es_magic = 8" "length es_domain = 33"
  by (simp_all add: es_magic_def es_domain_def)

lemma length_es_encode [simp]: "length (es_encode b out) = length out"
  by (simp add: es_encode_def Let_def es_put_def)

lemma es_get_eq_iff:
  "off + n \<le> length p \<Longrightarrow> 8 * n \<le> 64 \<Longrightarrow> take_bit (8 * n) v = v \<Longrightarrow>
   es_get off n p = v \<longleftrightarrow> part off n p = be_bytes n v"
  unfolding es_get_def by (rule be_val_eq_iff) auto

text \<open>The consecutive fields of the header.\<close>

abbreviation es_layout :: "nat list" where
  "es_layout \<equiv> [8, 2, 2, 2, 2, 2, 2, 32, 16, 16, 8, 16, 4, 4, 12]"

lemma es_encode_fields:
  assumes "wf_es_binding b" and "length out = 128"
  shows "part 0 8 (es_encode b out) = es_magic" "part 8 2 (es_encode b out) = be_bytes 2 (1::u64)"
    "part 10 2 (es_encode b out) = be_bytes 2 (128::u64)"
    "part 12 2 (es_encode b out) = be_bytes 2 (16::u64)"
    "part 14 2 (es_encode b out) = be_bytes 2 (1::u64)"
    "part 16 2 (es_encode b out) = be_bytes 2 (2::u64)"
    "part 18 2 (es_encode b out) = replicate 2 0"
    "part 20 32 (es_encode b out) = es_key_fingerprint b"
    "part 52 16 (es_encode b out) = es_device_id b"
    "part 68 16 (es_encode b out) = es_volume_id b"
    "part 84 8 (es_encode b out) = be_bytes 8 (es_generation b)"
    "part 92 16 (es_encode b out) = es_recording_id b"
    "part 108 4 (es_encode b out) = be_bytes 4 (ucast (es_segment_sequence b) :: u64)"
    "part 112 4 (es_encode b out) = be_bytes 4 (ucast (es_plaintext_bytes b) :: u64)"
    "part 116 12 (es_encode b out) = replicate 12 0"
  using assms by (simp_all add: es_encode_def Let_def es_put_def wf_es_binding_def buf)

lemma be_bytes_0: "be_bytes 2 (0::u64) = replicate 2 0"
  by (simp add: be_bytes_def numeral_eq_Suc)

lemma es_matches_iff:
  assumes "wf_es_binding b" and "length p = 128"
  shows "es_matches p b \<longleftrightarrow> p = es_encode b (replicate 128 0)"
proof
  assume "es_matches p b"
  then have "same_fields 0 es_layout p (es_encode b (replicate 128 0))"
    using assms
    by (simp add: es_matches_def es_encode_fields es_get_eq_iff wf_es_binding_def ct_equal_iff
        all_eq_iff take_bit_ucast_u32 be_bytes_0)
  then show "p = es_encode b (replicate 128 0)"
    by (rule eq_by_fields) (use assms in simp_all)
next
  assume "p = es_encode b (replicate 128 0)"
  then show "es_matches p b"
    using assms
    by (simp add: es_matches_def es_encode_fields es_get_eq_iff wf_es_binding_def ct_equal_iff
        all_eq_iff take_bit_ucast_u32 be_bytes_0)
qed

lemma es_encode_out: "length out = 128 \<Longrightarrow> es_encode b out = es_encode b (replicate 128 0)"
  by (simp add: es_encode_def blit_append)

section \<open>Properties\<close>

text \<open>Claim C11.  For a well-typed binding and a 128-byte buffer that do not overlap, header validation
  answers \<open>ES_OK\<close> exactly when the binding is admissible and the buffer holds, byte for byte, what
  \<open>es_header_build\<close> stores for that binding into any disjoint 128-byte output.\<close>

theorem es_header_canonical:
  assumes "wf_es_binding b" and "length p = 128" and "\<not> overlap pa 128 ba sizeof_es_binding"
    and "length out = 128" and "\<not> overlap oa 128 ba sizeof_es_binding"
  shows "es_header_validate (Ptr pa p) 128 (Ptr ba b) = ES_OK \<longleftrightarrow>
         es_header_build (Ptr oa out) 128 (Ptr ba b) = (ES_OK, Ptr oa p)"
  using assms es_matches_iff [OF assms(1,2)] es_encode_out [OF assms(4)] by auto

definition demo_es_binding :: es_binding where
  "demo_es_binding = \<lparr>es_key_fingerprint = replicate 32 1, es_device_id = replicate 16 2,
     es_volume_id = replicate 16 3, es_recording_id = replicate 16 4, es_generation = 1,
     es_segment_sequence = 7, es_plaintext_bytes = 148\<rparr>"

lemma demo_es_binding_ok: "wf_es_binding demo_es_binding" "es_valid demo_es_binding"
  by (simp_all add: demo_es_binding_def wf_es_binding_def es_valid_def word_less_nat_alt
      word_le_nat_alt)

theorem es_header_canonical_witness:
  "es_header_validate (Ptr 1000 (es_encode demo_es_binding (replicate 128 0))) 128
     (Ptr 2000 demo_es_binding) = ES_OK"
proof -
  let ?h = "es_encode demo_es_binding (replicate 128 0)"
  have "es_header_build (Ptr 4000 (replicate 128 0)) 128 (Ptr 2000 demo_es_binding)
      = (ES_OK, Ptr 4000 ?h)"
    by (simp add: demo_es_binding_ok overlap_def UINTPTR_MAX_def)
  then show ?thesis
    using es_header_canonical [of demo_es_binding ?h 1000 2000 "replicate 128 0" 4000]
    by (simp add: demo_es_binding_ok overlap_def UINTPTR_MAX_def)
qed

lemma be_bytes_ucast_inj:
  assumes "be_bytes 4 (ucast (x :: u32) :: u64) = be_bytes 4 (ucast y :: u64)"
  shows "x = y"
proof -
  have "be_val (be_bytes 4 (ucast z :: u64)) = (ucast z :: u64)" for z :: u32
    by (simp add: be_val_rev be_bytes_def le_val_le_bytes_take take_bit_ucast_u32)
  then show ?thesis using assms by (metis ucast_u32_u64_inj)
qed

text \<open>A header determines its binding: if the same 128 bytes validate against two
  well-typed bindings, the bindings are equal field by field, so a header sealed for one recording,
  segment, volume, generation or recipient is never accepted for another.\<close>

theorem es_header_binds:
  assumes "wf_es_binding b" and "wf_es_binding c" and "length p = 128"
    and "es_header_validate (Ptr pa p) 128 (Ptr ba b) = ES_OK"
    and "es_header_validate (Ptr pa p) 128 (Ptr ca c) = ES_OK"
  shows "b = c"
proof -
  have pb: "p = es_encode b (replicate 128 0)" and pc: "p = es_encode c (replicate 128 0)"
    using assms es_matches_iff [OF assms(1,3)] es_matches_iff [OF assms(2,3)]
    by (auto split: if_splits)
  note fb = es_encode_fields [OF assms(1), of "replicate 128 0", folded pb, simplified]
  note fc = es_encode_fields [OF assms(2), of "replicate 128 0", folded pc, simplified]
  have "es_key_fingerprint b = es_key_fingerprint c" "es_device_id b = es_device_id c"
    "es_volume_id b = es_volume_id c" "es_recording_id b = es_recording_id c"
    using fb fc by simp_all
  moreover have "es_generation b = es_generation c"
    using fb(11) fc(11) be_val_be_bytes [of 8 "es_generation b"]
      be_val_be_bytes [of 8 "es_generation c"] by simp
  moreover have "es_segment_sequence b = es_segment_sequence c"
    "es_plaintext_bytes b = es_plaintext_bytes c"
    using fb(13,14) fc(13,14) be_bytes_ucast_inj by metis+
  ultimately show ?thesis by simp
qed

theorem es_header_binds_witness:
  "es_header_validate (Ptr 1000 (es_encode demo_es_binding (replicate 128 0))) 128
     (Ptr 2000 demo_es_binding) = ES_OK \<and> demo_es_binding = demo_es_binding"
proof -
  let ?h = "es_encode demo_es_binding (replicate 128 0)"
  have v: "es_header_validate (Ptr 1000 ?h) 128 (Ptr a demo_es_binding) = ES_OK"
    if "\<not> overlap 1000 128 a sizeof_es_binding" for a
    using that by (simp add: demo_es_binding_ok es_matches_iff)
  have o: "\<not> overlap 1000 128 2000 96" "\<not> overlap 1000 128 3000 96"
    by (simp_all add: overlap_def UINTPTR_MAX_def)
  show ?thesis
    using v [OF o(1)] es_header_binds [OF demo_es_binding_ok(1) demo_es_binding_ok(1) _
        v [OF o(1)] v [OF o(2)]] by simp
qed

end
