(* ===== verification/Pipeline.thy ===== *)
theory Pipeline
  imports Segment_Header
begin

text \<open>
  The recording pipeline (\<open>recording_pipeline.c\<close>): frames are encoded by Opus into 500-frame segments,
  each segment is handed to a sink that seals and commits it, optionally deferred, and the recording
  is finalised with an exact completion record.  Opus and the sink are not part of this code: the
  codec entry points and the sink callbacks are parameters, functions on an encoder state and on an
  opaque store state.  The module's static variables are the record \<open>rp\<close>, which extends the public
  status record; every entry point is one function on it.  The group shows that captured samples are
  always exactly committed, pending, discarded or in the open segment, that at most one segment is
  pending and its number is the next one, and that the segment built from accepted packets always
  passes the structural validator.
\<close>

section \<open>Model: types\<close>

datatype rp_state = RP_UNINITIALIZED | RP_IDLE | RP_RECORDING | RP_PAUSED | RP_FINALIZING | RP_STOPPED
  | RP_FULL | RP_OVERFLOW | RP_LOW_POWER | RP_FAULT | RP_DRAINING
datatype rp_reason = RP_REASON_NONE | RP_REASON_USER | RP_REASON_FULL | RP_REASON_OVERFLOW
  | RP_REASON_LOW_POWER | RP_REASON_CODEC | RP_REASON_STORE | RP_REASON_RECEIPT | RP_REASON_CONTINUITY
  | RP_REASON_EXTERNAL | RP_REASON_LIMIT
datatype rp_rc = RP_OK | RP_PENDING | RP_ARGUMENT | RP_BUSY | RP_STATE | RP_CODEC_ERROR | RP_STORE_ERROR
  | RP_RECEIPT_ERROR | RP_CONTINUITY_ERROR | RP_STORAGE_FULL | RP_LIMIT | RP_EXTERNAL_ERROR

text \<open>A callback may return any integer.\<close>

abbreviation RP_IO_OK :: int where "RP_IO_OK \<equiv> 0"
abbreviation RP_IO_FULL :: int where "RP_IO_FULL \<equiv> 1"
abbreviation RP_IO_FAILED :: int where "RP_IO_FAILED \<equiv> 2"
abbreviation RP_IO_UNCERTAIN :: int where "RP_IO_UNCERTAIN \<equiv> 3"
abbreviation RP_IO_PENDING :: int where "RP_IO_PENDING \<equiv> 4"
abbreviation RP_MANUAL :: u32 where "RP_MANUAL \<equiv> 0"
abbreviation RP_CONTINUOUS :: u32 where "RP_CONTINUOUS \<equiv> 1"
abbreviation RP_PROFILE_LEGACY_VOIP :: u32 where "RP_PROFILE_LEGACY_VOIP \<equiv> 1"
abbreviation RP_PROFILE_CELT_LOW_DELAY :: u32 where "RP_PROFILE_CELT_LOW_DELAY \<equiv> 2"
abbreviation RP_PLAINTEXT_CAPACITY :: nat where "RP_PLAINTEXT_CAPACITY \<equiv> 34148"

record rp_segment_receipt =
  sr_durable :: u32
  sr_es_header :: bytes

record rp_completion =
  cp_session :: es_binding
  cp_mode :: u32
  cp_reason :: rp_reason
  cp_segments :: u32
  cp_gaps :: u32
  cp_captured_samples :: u64
  cp_committed_samples :: u64
  cp_next_sample :: u64

record rp_final_receipt =
  fr_completion :: rp_completion
  fr_durable :: u32

record 'e rp_sink =
  sk_reserve :: "(es_binding \<Rightarrow> 'e \<Rightarrow> int \<times> 'e) option"
  sk_seal_commit :: "(es_binding \<Rightarrow> bytes \<Rightarrow> 'e \<Rightarrow> int \<times> rp_segment_receipt \<times> 'e) option"
  sk_finalize :: "(rp_completion \<Rightarrow> 'e \<Rightarrow> int \<times> rp_final_receipt \<times> 'e) option"

type_synonym 'e rp_poll_fn = "es_binding \<Rightarrow> 'e \<Rightarrow> int \<times> rp_segment_receipt \<times> 'e"

datatype opus_request = OPUS_SET_BITRATE int | OPUS_SET_COMPLEXITY int | OPUS_SET_VBR int | OPUS_SET_DTX int
  | OPUS_SET_SIGNAL_VOICE | OPUS_SET_INBAND_FEC int | OPUS_SET_PACKET_LOSS_PERC int

datatype opus_application = OPUS_APPLICATION_VOIP | OPUS_APPLICATION_RESTRICTED_LOWDELAY

text \<open>The Opus entry points that the module calls, on an encoder state of type \<open>'c\<close>.\<close>

record 'c opus_api =
  op_version_string :: "string option"
  op_encoder_get_size :: int
  op_encoder_init :: "opus_application \<Rightarrow> int \<times> 'c"
  op_encoder_ctl :: "opus_request \<Rightarrow> 'c \<Rightarrow> int \<times> 'c"
  op_get_lookahead :: "'c \<Rightarrow> int \<times> int"
  op_encode :: "16 word list \<Rightarrow> 'c \<Rightarrow> int \<times> bytes \<times> 'c"
  op_packet_nb_samples :: "bytes \<Rightarrow> int"
  op_packet_nb_channels :: "bytes \<Rightarrow> int"
  op_packet_parse :: "bytes \<Rightarrow> int"

record rp_status =
  st_state :: rp_state
  st_mode :: u32
  st_reason :: rp_reason
  st_segments :: u32
  st_segment_frames :: u32
  st_gaps :: u32
  st_lookahead :: u32
  st_session_reserved :: bool
  st_manifest_finalized :: bool
  st_commit_uncertain :: bool
  st_buffers_wiped :: bool
  st_error :: rp_rc
  st_codec_error :: int
  st_store_error :: int
  st_captured_samples :: u64
  st_committed_samples :: u64
  st_next_sample :: u64
  st_discarded_samples :: u64
  st_codec_profile :: u32
  st_pending_segments :: u32
  st_pending_samples :: u64

record ('c, 'e) rp = rp_status +
  rp_active :: bool
  rp_initialized :: bool
  rp_sink :: "'e rp_sink"
  rp_session :: es_binding
  rp_encoder_state :: "'c option"
  rp_plaintext :: bytes
  rp_packet_count :: u32
  rp_segment_flags :: u32
  rp_segment_first :: u64
  rp_committed_next :: u64
  rp_async_poll :: "'e rp_poll_fn option"
  rp_pending_binding :: es_binding
  rp_pending_next :: u64
  rp_drain_action :: u32
  rp_drain_reason :: rp_reason
  rp_store :: 'e

definition es_none :: es_binding where
  "es_none = \<lparr>es_key_fingerprint = replicate 32 0, es_device_id = replicate 16 0, es_volume_id = replicate 16 0,
     es_recording_id = replicate 16 0, es_generation = 0, es_segment_sequence = 0, es_plaintext_bytes = 0\<rparr>"

section \<open>Model: helpers\<close>

definition clear_scratch :: "('c, 'e) rp \<Rightarrow> ('c, 'e) rp" where
  "clear_scratch s = s\<lparr>rp_encoder_state := None, rp_plaintext := replicate RP_PLAINTEXT_CAPACITY 0,
     st_buffers_wiped := True, rp_packet_count := 0, st_segment_frames := 0\<rparr>"

text \<open>\<open>memset(&status, 0, sizeof(status))\<close>\<close>

definition zero_status :: "('c, 'e) rp \<Rightarrow> ('c, 'e) rp" where
  "zero_status s = s\<lparr>st_state := RP_UNINITIALIZED, st_mode := 0, st_reason := RP_REASON_NONE, st_segments := 0,
     st_segment_frames := 0, st_gaps := 0, st_lookahead := 0, st_session_reserved := False,
     st_manifest_finalized := False, st_commit_uncertain := False, st_buffers_wiped := False, st_error := RP_OK,
     st_codec_error := 0, st_store_error := 0, st_captured_samples := 0, st_committed_samples := 0,
     st_next_sample := 0, st_discarded_samples := 0, st_codec_profile := 0, st_pending_segments := 0,
     st_pending_samples := 0\<rparr>"

definition receipt_zero :: "rp_segment_receipt \<Rightarrow> bool" where
  "receipt_zero r \<longleftrightarrow> sr_durable r = 0 \<and> all_eq (sr_es_header r) 0"

text \<open>\<open>es_header_validate\<close> on two distinct local objects.\<close>

definition receipt_header_ok :: "rp_segment_receipt \<Rightarrow> es_binding \<Rightarrow> bool" where
  "receipt_header_ok r b \<longleftrightarrow> es_valid b \<and> es_matches (sr_es_header r) b"

definition complete_state :: "('c, 'e) rp \<Rightarrow> bool" where
  "complete_state s \<longleftrightarrow> st_state s \<in> {RP_STOPPED, RP_FULL, RP_OVERFLOW, RP_LOW_POWER}"

definition can_start :: "('c, 'e) rp \<Rightarrow> bool" where
  "can_start s \<longleftrightarrow> st_pending_segments s = 0 \<and>
     (st_state s = RP_IDLE \<or> (complete_state s \<and> (st_manifest_finalized s \<or> \<not> st_session_reserved s)))"

text \<open>\<open>same_identity\<close> and \<open>same_completion\<close> compare every field.\<close>

definition same_identity :: "es_binding \<Rightarrow> es_binding \<Rightarrow> bool" where
  "same_identity a b \<longleftrightarrow> es_key_fingerprint a = es_key_fingerprint b \<and> es_device_id a = es_device_id b \<and>
     es_volume_id a = es_volume_id b \<and> es_recording_id a = es_recording_id b \<and>
     es_generation a = es_generation b \<and> es_segment_sequence a = es_segment_sequence b \<and>
     es_plaintext_bytes a = es_plaintext_bytes b"

definition same_completion :: "rp_completion \<Rightarrow> rp_completion \<Rightarrow> bool" where
  "same_completion a b \<longleftrightarrow> same_identity (cp_session a) (cp_session b) \<and> cp_mode a = cp_mode b \<and>
     cp_reason a = cp_reason b \<and> cp_segments a = cp_segments b \<and> cp_gaps a = cp_gaps b \<and>
     cp_captured_samples a = cp_captured_samples b \<and> cp_committed_samples a = cp_committed_samples b \<and>
     cp_next_sample a = cp_next_sample b"

definition rp_fault :: "rp_rc \<Rightarrow> rp_reason \<Rightarrow> ('c, 'e) rp \<Rightarrow> rp_rc \<times> ('c, 'e) rp" where
  "rp_fault rc reason s =
    (let s = (if st_pending_segments s \<noteq> 0 then s\<lparr>st_commit_uncertain := True\<rparr> else s);
         s = s\<lparr>st_discarded_samples := st_discarded_samples s + ucast (st_segment_frames s) * 320\<rparr>;
         s = s\<lparr>st_error := rc, st_reason := reason, st_state := RP_FAULT\<rparr>
     in (rc, clear_scratch s))"

definition valid_packet :: "'c opus_api \<Rightarrow> bytes \<Rightarrow> u32 \<Rightarrow> bool" where
  "valid_packet opus p profile \<longleftrightarrow>
     (profile = RP_PROFILE_LEGACY_VOIP \<or> (profile = RP_PROFILE_CELT_LOW_DELAY \<and> p ! 0 AND 0x80 \<noteq> 0)) \<and>
     op_packet_nb_samples opus p = 320 \<and> op_packet_nb_channels opus p = 1 \<and> op_packet_parse opus p > 0"

definition codec_requests :: "opus_request list" where
  "codec_requests = [OPUS_SET_BITRATE 24000, OPUS_SET_COMPLEXITY 3, OPUS_SET_VBR 0, OPUS_SET_DTX 0,
     OPUS_SET_SIGNAL_VOICE, OPUS_SET_INBAND_FEC 0, OPUS_SET_PACKET_LOSS_PERC 0]"

text \<open>The sequence of \<open>CODEC(...)\<close> calls: the first error stops it.\<close>

fun codec_ctls :: "'c opus_api \<Rightarrow> opus_request list \<Rightarrow> 'c \<Rightarrow> int \<times> 'c" where
  "codec_ctls opus [] enc = (0, enc)"
| "codec_ctls opus (r # rs) enc =
     (let (err, enc) = op_encoder_ctl opus r enc in if err \<noteq> 0 then (err, enc) else codec_ctls opus rs enc)"

definition codec_init :: "'c opus_api \<Rightarrow> ('c, 'e) rp \<Rightarrow> rp_rc \<times> ('c, 'e) rp" where
  "codec_init opus s =
    (let s = (clear_scratch s)\<lparr>st_buffers_wiped := False\<rparr>;
         failed = rp_fault RP_CODEC_ERROR RP_REASON_CODEC in
     if op_version_string opus \<noteq> Some ''libopus 1.6.1-fixed'' then failed s
     else if op_encoder_get_size opus \<le> 0 \<or> op_encoder_get_size opus > 32768 then failed s
     else if st_codec_profile s \<noteq> RP_PROFILE_LEGACY_VOIP \<and> st_codec_profile s \<noteq> RP_PROFILE_CELT_LOW_DELAY
     then failed s
     else let (err, enc) = op_encoder_init opus (if st_codec_profile s = RP_PROFILE_CELT_LOW_DELAY
            then OPUS_APPLICATION_RESTRICTED_LOWDELAY else OPUS_APPLICATION_VOIP) in
       if err \<noteq> 0 then failed (s\<lparr>st_codec_error := err\<rparr>)
       else let (err, enc) = codec_ctls opus codec_requests enc in
         if err \<noteq> 0 then failed (s\<lparr>st_codec_error := err\<rparr>)
         else let (err, delay) = op_get_lookahead opus enc in
           if err \<noteq> 0 then failed (s\<lparr>st_codec_error := err\<rparr>)
           else if delay \<noteq> (if st_codec_profile s = RP_PROFILE_CELT_LOW_DELAY then 40 else 104)
           then failed (s\<lparr>st_codec_error := 0\<rparr>)
           else (RP_OK, s\<lparr>st_codec_error := 0, rp_encoder_state := Some enc, st_lookahead := word_of_int delay,
                  rp_segment_first := st_next_sample s,
                  rp_segment_flags := (if st_next_sample s =
                     (if st_pending_segments s \<noteq> 0 then rp_pending_next s else rp_committed_next s) then 1 else 3)\<rparr>))"

text \<open>The 68-byte record of one packet.\<close>

definition packet_record :: "bool \<Rightarrow> u32 \<Rightarrow> bytes \<Rightarrow> bytes" where
  "packet_record flushing count packet =
     le_bytes 2 (60::u64) @ le_bytes 2 (if flushing then 1 else 0 :: u64) @ le_bytes 4 (ucast count :: u64) @ packet"

text \<open>\<open>encode\<close>: the 1275-byte packet buffer is zero before the call.\<close>

definition encode_frame :: "'c opus_api \<Rightarrow> 16 word list \<Rightarrow> bool \<Rightarrow> ('c, 'e) rp \<Rightarrow> rp_rc \<times> ('c, 'e) rp" where
  "encode_frame opus pcm flushing s =
    (if rp_packet_count s \<ge> 501 then rp_fault RP_LIMIT RP_REASON_LIMIT s
     else let (n, bs, enc) = op_encode opus pcm (the (rp_encoder_state s));
              packet = part 0 60 (blit 0 bs (replicate 1275 0));
              s = s\<lparr>rp_encoder_state := Some enc, st_codec_error := (if n < 0 then n else 0)\<rparr> in
       if n \<noteq> 60 \<or> \<not> valid_packet opus packet (st_codec_profile s)
       then rp_fault RP_CODEC_ERROR RP_REASON_CODEC s
       else (RP_OK, s\<lparr>rp_plaintext := blit (80 + unat (rp_packet_count s) * 68)
                (packet_record flushing (rp_packet_count s) packet) (rp_plaintext s),
              rp_packet_count := rp_packet_count s + 1\<rparr>))"

definition rp_get :: "nat \<Rightarrow> nat \<Rightarrow> bytes \<Rightarrow> u64" where "rp_get off n p = le_val (part off n p)"
definition rp_put :: "nat \<Rightarrow> u64 \<Rightarrow> nat \<Rightarrow> bytes \<Rightarrow> bytes" where "rp_put off v n p = blit off (le_bytes n v) p"

definition rp_magic :: bytes where "rp_magic = ascii ''OPNDOP1'' @ [0]"

definition segment_record_ok :: "'c opus_api \<Rightarrow> bytes \<Rightarrow> nat \<Rightarrow> nat \<Rightarrow> u32 \<Rightarrow> bool" where
  "segment_record_ok opus p frames i profile \<longleftrightarrow>
     (let off = 80 + i * 68 in
      \<not> (rp_get off 2 p \<noteq> 60 \<or> rp_get (off + 2) 2 p \<noteq> (if i \<ge> frames then 1 else 0) \<or>
         rp_get (off + 4) 4 p \<noteq> of_nat i \<or> \<not> valid_packet opus (part (off + 8) 60 p) profile))"

definition rp_segment_validate :: "'c opus_api \<Rightarrow> bytes \<Rightarrow> nat \<Rightarrow> rp_rc" where
  "rp_segment_validate opus p n =
    (if n < 80 \<or> n > RP_PLAINTEXT_CAPACITY then RP_ARGUMENT
     else let frames = (ucast (rp_get 48 4 p) :: u32); packets = (ucast (rp_get 52 4 p) :: u32);
              delay = (ucast (rp_get 56 4 p) :: u32); profile = (ucast (rp_get 72 4 p) :: u32) in
       if part 0 8 p \<noteq> rp_magic \<or> rp_get 8 2 p \<noteq> 1 \<or> rp_get 10 2 p \<noteq> 80 \<or> rp_get 12 4 p \<noteq> 16000 \<or>
          rp_get 16 2 p \<noteq> 1 \<or> rp_get 18 2 p \<noteq> 320 \<or> rp_get 20 4 p \<noteq> 24000 \<or> rp_get 24 4 p \<noteq> 3 \<or>
          (rp_get 28 4 p \<noteq> 1 \<and> rp_get 28 4 p \<noteq> 3) \<or> frames = 0 \<or> frames > 500 \<or> delay > 320 \<or>
          packets \<noteq> frames + (if delay \<noteq> 0 then 1 else 0) \<or>
          rp_get 60 4 p \<noteq> ucast (if delay \<noteq> 0 then 320 - delay else 0) \<or>
          rp_get 64 4 p \<noteq> ucast (packets * 68) \<or> rp_get 68 4 p \<noteq> ucast (frames * 320) \<or>
          (profile \<noteq> RP_PROFILE_LEGACY_VOIP \<and> profile \<noteq> RP_PROFILE_CELT_LOW_DELAY) \<or>
          (profile = RP_PROFILE_CELT_LOW_DELAY \<and> delay \<noteq> 40) \<or>
          rp_get 76 4 p \<noteq> 0 \<or> n \<noteq> 80 + unat packets * 68 \<or>
          rp_get 32 8 p > UINT64_MAX - ucast frames * 320 \<or> rp_get 40 8 p \<noteq> rp_get 32 8 p + ucast frames * 320
       then RP_ARGUMENT
       else if list_all (\<lambda>i. segment_record_ok opus p (unat frames) i profile) [0..<unat packets]
       then RP_OK else RP_ARGUMENT)"

section \<open>Model: sealing and finishing\<close>

definition poll_pending :: "('c, 'e) rp \<Rightarrow> rp_rc \<times> ('c, 'e) rp" where
  "poll_pending s =
    (if st_pending_segments s = 0 then (RP_OK, s)
     else if rp_async_poll s = None \<or> st_pending_segments s \<noteq> 1 \<or> st_pending_samples s = 0
     then rp_fault RP_RECEIPT_ERROR RP_REASON_RECEIPT s
     else let (rc, receipt, e) = the (rp_async_poll s) (rp_pending_binding s) (rp_store s);
              s = s\<lparr>rp_store := e, st_store_error := rc\<rparr> in
       if rc = RP_IO_PENDING \<and> receipt_zero receipt then (RP_PENDING, s)
       else if rc \<noteq> RP_IO_OK then rp_fault RP_STORE_ERROR RP_REASON_STORE s
       else if sr_durable receipt \<noteq> 1 \<or> \<not> receipt_header_ok receipt (rp_pending_binding s)
       then rp_fault RP_RECEIPT_ERROR RP_REASON_RECEIPT s
       else if st_segments s \<ge> INT32_MAX \<or> st_committed_samples s > UINT64_MAX - st_pending_samples s
       then rp_fault RP_LIMIT RP_REASON_LIMIT s
       else (RP_OK, s\<lparr>st_segments := st_segments s + 1,
              st_committed_samples := st_committed_samples s + st_pending_samples s,
              rp_committed_next := rp_pending_next s, st_pending_segments := 0, st_pending_samples := 0,
              rp_pending_next := 0, rp_pending_binding := es_none\<rparr>))"

text \<open>The header stores of \<open>seal\<close>, in order.\<close>

definition segment_header :: "('c, 'e) rp \<Rightarrow> bytes \<Rightarrow> bytes" where
  "segment_header s p =
    (let p = blit 0 rp_magic p; p = rp_put 8 1 2 p; p = rp_put 10 80 2 p; p = rp_put 12 16000 4 p;
         p = rp_put 16 1 2 p; p = rp_put 18 320 2 p; p = rp_put 20 24000 4 p; p = rp_put 24 3 4 p;
         p = rp_put 28 (ucast (rp_segment_flags s)) 4 p; p = rp_put 32 (rp_segment_first s) 8 p;
         p = rp_put 40 (st_next_sample s) 8 p; p = rp_put 48 (ucast (st_segment_frames s)) 4 p;
         p = rp_put 52 (ucast (rp_packet_count s)) 4 p; p = rp_put 56 (ucast (st_lookahead s)) 4 p;
         p = rp_put 60 (ucast (if st_lookahead s \<noteq> 0 then 320 - st_lookahead s else 0)) 4 p;
         p = rp_put 64 (ucast (rp_packet_count s * 68)) 4 p; p = rp_put 68 (ucast (st_segment_frames s * 320)) 4 p;
         p = rp_put 72 (ucast (st_codec_profile s)) 4 p; p = rp_put 76 0 4 p
     in p)"

text \<open>\<open>seal\<close> after the flush packet: build, self-check, submit and account.\<close>

definition seal_submit :: "'c opus_api \<Rightarrow> ('c, 'e) rp \<Rightarrow> rp_rc \<times> ('c, 'e) rp" where
  "seal_submit opus s =
    (let s = s\<lparr>rp_plaintext := segment_header s (rp_plaintext s)\<rparr>;
         size = 80 + unat (rp_packet_count s) * 68 in
     if rp_segment_validate opus (rp_plaintext s) size \<noteq> RP_OK then rp_fault RP_CODEC_ERROR RP_REASON_CODEC s
     else let binding = (rp_session s)\<lparr>es_segment_sequence := st_segments s, es_plaintext_bytes := of_nat size\<rparr>;
              (rc, receipt, e) = the (sk_seal_commit (rp_sink s)) binding (part 0 size (rp_plaintext s)) (rp_store s);
              s = s\<lparr>st_state := RP_FINALIZING, rp_store := e, st_store_error := rc\<rparr>;
              samples = ucast (st_segment_frames s) * 320 in
       if rp_async_poll s \<noteq> None \<and> rc = RP_IO_PENDING \<and> receipt_zero receipt
       then (RP_OK, clear_scratch (s\<lparr>rp_pending_binding := binding, rp_pending_next := st_next_sample s,
               st_pending_segments := 1, st_pending_samples := samples\<rparr>))
       else if rc = RP_IO_FULL \<and> receipt_zero receipt
       then (RP_STORAGE_FULL, clear_scratch (s\<lparr>st_discarded_samples := st_discarded_samples s + samples\<rparr>))
       else if rc \<noteq> RP_IO_OK
       then rp_fault RP_STORE_ERROR RP_REASON_STORE
              (s\<lparr>st_commit_uncertain := (rc \<noteq> RP_IO_FULL \<and> rc \<noteq> RP_IO_FAILED)\<rparr>)
       else if sr_durable receipt \<noteq> 1 \<or> \<not> receipt_header_ok receipt binding
       then rp_fault RP_RECEIPT_ERROR RP_REASON_RECEIPT (s\<lparr>st_commit_uncertain := True\<rparr>)
       else (RP_OK, clear_scratch (s\<lparr>st_segments := st_segments s + 1,
               st_committed_samples := st_committed_samples s + samples, rp_committed_next := st_next_sample s\<rparr>)))"

definition rp_seal :: "'c opus_api \<Rightarrow> ('c, 'e) rp \<Rightarrow> rp_rc \<times> ('c, 'e) rp" where
  "rp_seal opus s =
    (if st_segment_frames s = 0 then (RP_OK, s)
     else let (polled, s) = poll_pending s in
       if polled \<noteq> RP_OK \<and> polled \<noteq> RP_PENDING then (polled, s)
       else if polled = RP_PENDING then rp_fault RP_STORE_ERROR RP_REASON_STORE s
       else if st_segments s \<ge> INT32_MAX then rp_fault RP_LIMIT RP_REASON_LIMIT s
       else if st_lookahead s \<noteq> 0 then
         (let (rc, s) = encode_frame opus (replicate 320 0) True s in
          if rc \<noteq> RP_OK then (rc, s) else seal_submit opus s)
       else seal_submit opus s)"

definition completion_of :: "rp_reason \<Rightarrow> ('c, 'e) rp \<Rightarrow> rp_completion" where
  "completion_of reason s = \<lparr>cp_session = rp_session s, cp_mode = st_mode s, cp_reason = reason,
     cp_segments = st_segments s, cp_gaps = st_gaps s, cp_captured_samples = st_captured_samples s,
     cp_committed_samples = st_committed_samples s, cp_next_sample = st_next_sample s\<rparr>"

definition finish_state :: "rp_reason \<Rightarrow> rp_state" where
  "finish_state reason = (if reason = RP_REASON_FULL then RP_FULL else if reason = RP_REASON_OVERFLOW then RP_OVERFLOW
     else if reason = RP_REASON_LOW_POWER then RP_LOW_POWER else RP_STOPPED)"

text \<open>\<open>finish\<close> once nothing is pending: the finalize callback and its exact receipt.\<close>

definition finish_commit :: "rp_reason \<Rightarrow> ('c, 'e) rp \<Rightarrow> rp_rc \<times> ('c, 'e) rp" where
  "finish_commit reason s =
    (let s = s\<lparr>st_state := RP_FINALIZING, st_reason := reason\<rparr>; completion = completion_of reason s;
         (rc, receipt, e) = the (sk_finalize (rp_sink s)) completion (rp_store s);
         s = s\<lparr>rp_store := e, st_store_error := rc\<rparr> in
     if rc \<noteq> RP_IO_OK
     then rp_fault RP_STORE_ERROR RP_REASON_STORE (s\<lparr>st_commit_uncertain := (rc \<noteq> RP_IO_FAILED \<and> rc \<noteq> RP_IO_FULL)\<rparr>)
     else if fr_durable receipt \<noteq> 1 \<or> \<not> same_completion (fr_completion receipt) completion
     then rp_fault RP_RECEIPT_ERROR RP_REASON_RECEIPT (s\<lparr>st_commit_uncertain := True\<rparr>)
     else let err = (if reason = RP_REASON_FULL then RP_STORAGE_FULL else RP_OK);
              s = (clear_scratch (s\<lparr>st_manifest_finalized := True\<rparr>))
                    \<lparr>st_reason := reason, st_state := finish_state reason, st_error := err\<rparr>
          in (err, s))"

definition rp_drain :: "u32 \<Rightarrow> rp_reason \<Rightarrow> ('c, 'e) rp \<Rightarrow> rp_rc \<times> ('c, 'e) rp" where
  "rp_drain action reason s = (RP_PENDING, s\<lparr>rp_drain_action := action, rp_drain_reason := reason, st_state := RP_DRAINING\<rparr>)"

definition rp_finish :: "'c opus_api \<Rightarrow> rp_reason \<Rightarrow> ('c, 'e) rp \<Rightarrow> rp_rc \<times> ('c, 'e) rp" where
  "rp_finish opus reason s =
    (if st_pending_segments s \<noteq> 0 then rp_drain 2 reason s
     else let (rc, s) = rp_seal opus s in
       if rc \<noteq> RP_OK \<and> rc \<noteq> RP_STORAGE_FULL then (rc, s)
       else let reason = (if rc = RP_STORAGE_FULL then RP_REASON_FULL else reason) in
         if st_pending_segments s \<noteq> 0 then rp_drain 2 reason s else finish_commit reason s)"

definition pause_finish :: "'c opus_api \<Rightarrow> ('c, 'e) rp \<Rightarrow> rp_rc \<times> ('c, 'e) rp" where
  "pause_finish opus s =
    (if st_pending_segments s \<noteq> 0 then rp_drain 1 (rp_drain_reason s) s
     else let (rc, s) = rp_seal opus s in
       if rc = RP_STORAGE_FULL then rp_finish opus RP_REASON_FULL s
       else if rc \<noteq> RP_OK then (rc, s)
       else if st_pending_segments s \<noteq> 0 then rp_drain 1 (rp_drain_reason s) s
       else (RP_OK, (clear_scratch (s\<lparr>rp_drain_action := 0\<rparr>))\<lparr>st_state := RP_PAUSED\<rparr>))"

section \<open>Model: entry points\<close>

text \<open>\<open>lock\<close> and \<open>unlock\<close> around the body of an entry point.\<close>

definition rp_locked :: "(('c, 'e) rp \<Rightarrow> rp_rc \<times> ('c, 'e) rp) \<Rightarrow> ('c, 'e) rp \<Rightarrow> rp_rc \<times> ('c, 'e) rp" where
  "rp_locked f s = (if rp_active s then (RP_BUSY, s)
     else let (rc, s) = f (s\<lparr>rp_active := True\<rparr>) in (rc, s\<lparr>rp_active := False\<rparr>))"

definition init_core ::
  "'e rp_sink option \<Rightarrow> u32 \<Rightarrow> u32 \<Rightarrow> u32 \<Rightarrow> 'e rp_poll_fn option \<Rightarrow> ('c, 'e) rp \<Rightarrow> rp_rc \<times> ('c, 'e) rp" where
  "init_core callbacks mode stack profile poll s =
    (case callbacks of None \<Rightarrow> (RP_ARGUMENT, s)
     | Some cb \<Rightarrow>
       if sk_reserve cb = None \<or> sk_seal_commit cb = None \<or> sk_finalize cb = None \<or>
          (mode \<noteq> RP_MANUAL \<and> mode \<noteq> RP_CONTINUOUS) \<or> stack < 65536 \<or>
          (profile \<noteq> RP_PROFILE_LEGACY_VOIP \<and> profile \<noteq> RP_PROFILE_CELT_LOW_DELAY)
       then (RP_ARGUMENT, s)
       else rp_locked (\<lambda>s. if rp_initialized s then (RP_STATE, s)
         else (RP_OK, clear_scratch ((zero_status (s\<lparr>rp_initialized := True, rp_sink := cb\<rparr>))
            \<lparr>st_state := RP_IDLE, st_mode := mode, rp_async_poll := poll, rp_pending_binding := es_none,
             rp_pending_next := 0, rp_drain_action := 0, rp_drain_reason := RP_REASON_NONE,
             st_codec_profile := profile\<rparr>))) s)"

definition rp_init_profile :: "'e rp_sink option \<Rightarrow> u32 \<Rightarrow> u32 \<Rightarrow> u32 \<Rightarrow> ('c, 'e) rp \<Rightarrow> rp_rc \<times> ('c, 'e) rp" where
  "rp_init_profile callbacks mode stack profile s = init_core callbacks mode stack profile None s"

definition rp_init :: "'e rp_sink option \<Rightarrow> u32 \<Rightarrow> u32 \<Rightarrow> ('c, 'e) rp \<Rightarrow> rp_rc \<times> ('c, 'e) rp" where
  "rp_init callbacks mode stack s = rp_init_profile callbacks mode stack RP_PROFILE_LEGACY_VOIP s"

definition rp_init_async_profile ::
  "('e rp_sink \<times> 'e rp_poll_fn option) option \<Rightarrow> u32 \<Rightarrow> u32 \<Rightarrow> u32 \<Rightarrow> ('c, 'e) rp \<Rightarrow> rp_rc \<times> ('c, 'e) rp" where
  "rp_init_async_profile callbacks mode stack profile s =
    (case callbacks of Some (submit, Some poll) \<Rightarrow> init_core (Some submit) mode stack profile (Some poll) s
     | _ \<Rightarrow> (RP_ARGUMENT, s))"

definition rp_poll :: "'c opus_api \<Rightarrow> ('c, 'e) rp \<Rightarrow> rp_rc \<times> ('c, 'e) rp" where
  "rp_poll opus = rp_locked (\<lambda>s.
     if rp_async_poll s = None \<or> st_state s \<notin> {RP_RECORDING, RP_DRAINING, RP_PAUSED} then (RP_STATE, s)
     else let (rc, s) = poll_pending s in
       if rc \<noteq> RP_OK then (rc, s)
       else if st_state s = RP_DRAINING then
         (if rp_drain_action s = 1 then pause_finish opus s
          else if rp_drain_action s = 2 then rp_finish opus (rp_drain_reason s) (s\<lparr>rp_drain_action := 0\<rparr>)
          else rp_fault RP_STATE RP_REASON_EXTERNAL s)
       else (RP_OK, s))"

definition rp_get_status :: "('c, 'e) rp \<Rightarrow> rp_rc \<times> rp_status option" where
  "rp_get_status s = (if rp_active s then (RP_BUSY, None) else (RP_OK, Some (rp_status.truncate s)))"

definition rp_select_mode :: "u32 \<Rightarrow> ('c, 'e) rp \<Rightarrow> rp_rc \<times> ('c, 'e) rp" where
  "rp_select_mode mode s = (if mode \<noteq> RP_MANUAL \<and> mode \<noteq> RP_CONTINUOUS then (RP_ARGUMENT, s)
     else rp_locked (\<lambda>s. if \<not> can_start s then (RP_STATE, s) else (RP_OK, s\<lparr>st_mode := mode\<rparr>)) s)"

text \<open>The body of \<open>rp_start\<close> after \<open>can_start\<close> and the identity checks.\<close>

definition start_session :: "'c opus_api \<Rightarrow> es_binding \<Rightarrow> u64 \<Rightarrow> ('c, 'e) rp \<Rightarrow> rp_rc \<times> ('c, 'e) rp" where
  "start_session opus ident first s =
    (let mode = st_mode s; profile = st_codec_profile s;
         s = (zero_status s)\<lparr>st_mode := mode, st_codec_profile := profile, rp_session := ident,
            st_next_sample := first, rp_committed_next := first, rp_drain_action := 0,
            rp_drain_reason := RP_REASON_NONE, st_state := RP_FINALIZING\<rparr>;
         (rc, e) = the (sk_reserve (rp_sink s)) ident (rp_store s);
         s = s\<lparr>rp_store := e, st_store_error := rc\<rparr> in
     if rc = RP_IO_FULL
     then (RP_STORAGE_FULL, clear_scratch (s\<lparr>st_state := RP_FULL, st_reason := RP_REASON_FULL, st_error := RP_STORAGE_FULL\<rparr>))
     else if rc \<noteq> RP_IO_OK
     then rp_fault RP_STORE_ERROR RP_REASON_STORE (s\<lparr>st_commit_uncertain := (rc \<noteq> RP_IO_FAILED)\<rparr>)
     else let (rc, s) = codec_init opus (s\<lparr>st_session_reserved := True\<rparr>) in
       if rc \<noteq> RP_OK then (rc, s) else (RP_OK, s\<lparr>st_state := RP_RECORDING\<rparr>))"

definition rp_start :: "'c opus_api \<Rightarrow> es_binding option \<Rightarrow> u64 \<Rightarrow> ('c, 'e) rp \<Rightarrow> rp_rc \<times> ('c, 'e) rp" where
  "rp_start opus ident first s =
    (case ident of None \<Rightarrow> (RP_ARGUMENT, s)
     | Some b \<Rightarrow>
       if es_segment_sequence b \<noteq> 0 \<or> es_plaintext_bytes b \<noteq> 0 \<or> first > UINT64_MAX - 320 \<or>
          \<not> es_valid (b\<lparr>es_plaintext_bytes := 1\<rparr>)
       then (RP_ARGUMENT, s)
       else rp_locked (\<lambda>s. if \<not> can_start s then (RP_STATE, s)
         else if st_session_reserved s \<and> same_identity b (rp_session s) then (RP_ARGUMENT, s)
         else start_session opus b first s) s)"

text \<open>The segment boundary of \<open>rp_push_frame\<close>.\<close>

definition push_boundary :: "'c opus_api \<Rightarrow> ('c, 'e) rp \<Rightarrow> rp_rc \<times> ('c, 'e) rp" where
  "push_boundary opus s =
    (let (rc, s) = rp_seal opus s in
     if rc = RP_STORAGE_FULL then rp_finish opus RP_REASON_FULL s
     else if rc \<noteq> RP_OK then (rc, s)
     else let (rc, s) = codec_init opus s in
       if rc \<noteq> RP_OK then (rc, s) else (RP_OK, s\<lparr>st_state := RP_RECORDING\<rparr>))"

definition push_frame_body :: "'c opus_api \<Rightarrow> u64 \<Rightarrow> 16 word list \<Rightarrow> ('c, 'e) rp \<Rightarrow> rp_rc \<times> ('c, 'e) rp" where
  "push_frame_body opus first pcm s =
    (if st_state s \<noteq> RP_RECORDING then (RP_STATE, s)
     else let (rc, s) = poll_pending s in
       if rc \<noteq> RP_OK \<and> rc \<noteq> RP_PENDING then (rc, s)
       else if first \<noteq> st_next_sample s then rp_fault RP_CONTINUITY_ERROR RP_REASON_CONTINUITY s
       else if first > UINT64_MAX - 320 \<or> st_captured_samples s > UINT64_MAX - 320
       then rp_fault RP_LIMIT RP_REASON_LIMIT s
       else let (rc, s) = encode_frame opus pcm False s in
         if rc \<noteq> RP_OK then (rc, s)
         else let s = s\<lparr>st_segment_frames := st_segment_frames s + 1, st_next_sample := st_next_sample s + 320,
                     st_captured_samples := st_captured_samples s + 320\<rparr> in
           if st_segment_frames s = 500 then push_boundary opus s else (RP_OK, s))"

fun rp_push_frame :: "'c opus_api \<Rightarrow> u64 \<Rightarrow> 16 word list ptr \<Rightarrow> ('c, 'e) rp \<Rightarrow> rp_rc \<times> ('c, 'e) rp" where
  "rp_push_frame opus first Null s = (RP_ARGUMENT, s)"
| "rp_push_frame opus first (Ptr a pcm) s =
     (if a > UINTPTR_MAX - 640 then (RP_ARGUMENT, s) else rp_locked (push_frame_body opus first pcm) s)"

definition rp_pause :: "'c opus_api \<Rightarrow> ('c, 'e) rp \<Rightarrow> rp_rc \<times> ('c, 'e) rp" where
  "rp_pause opus = rp_locked (\<lambda>s. if st_state s \<noteq> RP_RECORDING then (RP_STATE, s) else pause_finish opus s)"

definition resume_body :: "'c opus_api \<Rightarrow> u64 \<Rightarrow> ('c, 'e) rp \<Rightarrow> rp_rc \<times> ('c, 'e) rp" where
  "resume_body opus next s =
    (if st_state s \<noteq> RP_PAUSED then (RP_STATE, s)
     else if next < st_next_sample s \<or> next > UINT64_MAX - 320 then (RP_ARGUMENT, s)
     else let gap = (next \<noteq> st_next_sample s) in
       if gap \<and> st_gaps s = UINT32_MAX then rp_fault RP_LIMIT RP_REASON_LIMIT s
       else let (rc, s) = codec_init opus (s\<lparr>st_next_sample := next\<rparr>) in
         if rc \<noteq> RP_OK then (rc, s)
         else let s = (if gap then s\<lparr>st_gaps := st_gaps s + 1, rp_segment_flags := rp_segment_flags s OR 2\<rparr> else s)
           in (RP_OK, s\<lparr>st_state := RP_RECORDING\<rparr>))"

definition rp_resume :: "'c opus_api \<Rightarrow> u64 \<Rightarrow> ('c, 'e) rp \<Rightarrow> rp_rc \<times> ('c, 'e) rp" where
  "rp_resume opus next = rp_locked (resume_body opus next)"

definition rp_end :: "'c opus_api \<Rightarrow> rp_reason \<Rightarrow> ('c, 'e) rp \<Rightarrow> rp_rc \<times> ('c, 'e) rp" where
  "rp_end opus reason s =
    (if reason \<notin> {RP_REASON_USER, RP_REASON_FULL, RP_REASON_OVERFLOW, RP_REASON_LOW_POWER} then (RP_ARGUMENT, s)
     else rp_locked (\<lambda>s.
       if st_state s = RP_DRAINING \<and> rp_drain_action s = 1
       then (RP_PENDING, s\<lparr>rp_drain_action := 2, rp_drain_reason := reason\<rparr>)
       else if st_state s \<noteq> RP_RECORDING \<and> st_state s \<noteq> RP_PAUSED then (RP_STATE, s)
       else rp_finish opus reason s) s)"

definition rp_external_fault :: "('c, 'e) rp \<Rightarrow> rp_rc \<times> ('c, 'e) rp" where
  "rp_external_fault = rp_locked (\<lambda>s.
     if st_state s \<notin> {RP_RECORDING, RP_PAUSED, RP_DRAINING} then (RP_STATE, s)
     else rp_fault RP_EXTERNAL_ERROR RP_REASON_EXTERNAL s)"

section \<open>Accounting\<close>

text \<open>Every captured sample is committed, pending, discarded or in the open segment; at most one
  segment is pending.\<close>

definition rp_acct :: "('c, 'e) rp \<Rightarrow> bool" where
  "rp_acct s \<longleftrightarrow> unat (st_captured_samples s) = unat (st_committed_samples s) + unat (st_pending_samples s) +
      unat (st_discarded_samples s) + 320 * unat (st_segment_frames s) \<and>
     st_segment_frames s \<le> 500 \<and> st_pending_segments s \<le> 1 \<and>
     (st_pending_segments s = 0 \<longleftrightarrow> st_pending_samples s = 0)"

lemma frames_samples: "st_segment_frames s \<le> 500 \<Longrightarrow> unat (ucast (st_segment_frames s) * 320 :: u64) = 320 * unat (st_segment_frames s)"
proof -
  assume "st_segment_frames s \<le> 500"
  then have le: "unat (st_segment_frames s) \<le> 500" by (simp add: word_le_nat_alt)
  then show ?thesis by (simp add: unat_word_ariths)
qed

lemma clear_scratch_fields [simp]:
  "st_state (clear_scratch s) = st_state s" "st_captured_samples (clear_scratch s) = st_captured_samples s"
  "st_committed_samples (clear_scratch s) = st_committed_samples s" "st_pending_samples (clear_scratch s) = st_pending_samples s"
  "st_pending_segments (clear_scratch s) = st_pending_segments s" "st_discarded_samples (clear_scratch s) = st_discarded_samples s"
  "st_segment_frames (clear_scratch s) = 0" "st_next_sample (clear_scratch s) = st_next_sample s"
  "st_segments (clear_scratch s) = st_segments s" "rp_packet_count (clear_scratch s) = 0"
  by (simp_all add: clear_scratch_def)

lemma rp_fault_acct:
  assumes "rp_acct s" and "rp_fault rc reason s = (rc', s')"
  shows "rp_acct s'"
proof -
  note a = assms(1) [unfolded rp_acct_def]
  have "unat (st_discarded_samples s) + unat (ucast (st_segment_frames s) * 320 :: u64) \<le> unat (st_captured_samples s)"
    using a frames_samples [of s] by simp
  then have "unat (st_discarded_samples s + ucast (st_segment_frames s) * 320) =
      unat (st_discarded_samples s) + 320 * unat (st_segment_frames s)"
    using unat_add_le frames_samples [of s] a by metis
  then show ?thesis
    using assms(2) a by (auto simp: rp_fault_def Let_def rp_acct_def)
qed

lemma rp_fault_facts:
  assumes "rp_fault rc reason s = (rc', s')"
  shows "rc' = rc" "st_state s' = RP_FAULT" "st_segment_frames s' = 0" "rp_packet_count s' = 0"
    "st_captured_samples s' = st_captured_samples s" "st_committed_samples s' = st_committed_samples s"
  using assms by (auto simp: rp_fault_def Let_def)

text \<open>The fields that the accounting reads.\<close>

definition acct_same :: "('c, 'e) rp \<Rightarrow> ('c, 'e) rp \<Rightarrow> bool" where
  "acct_same s t \<longleftrightarrow> st_captured_samples t = st_captured_samples s \<and> st_committed_samples t = st_committed_samples s \<and>
     st_pending_samples t = st_pending_samples s \<and> st_discarded_samples t = st_discarded_samples s \<and>
     st_segment_frames t = st_segment_frames s \<and> st_pending_segments t = st_pending_segments s"

lemma acct_cong: "acct_same s t \<Longrightarrow> rp_acct t = rp_acct s"
  by (simp add: acct_same_def rp_acct_def)

lemma acct_same_refl: "acct_same s s"
  by (simp add: acct_same_def)

text \<open>A step that faults keeps the accounting if the state it faults from did.\<close>

lemma post_fault:
  assumes "rp_acct s" and "acct_same s t"
    and "\<And>s'. rp_acct s' \<Longrightarrow> st_state s' = RP_FAULT \<Longrightarrow> st_segment_frames s' = 0 \<Longrightarrow> Q rc s'"
  shows "post Q (rp_fault rc reason t)"
proof -
  obtain rc' s' where r: "rp_fault rc reason t = (rc', s')" by (cases "rp_fault rc reason t")
  show ?thesis
    using rp_fault_acct [OF _ r] rp_fault_facts [OF r] acct_cong [OF assms(2)] assms(1,3) r by (simp add: post_def)
qed

lemma encode_frame_acct:
  assumes "rp_acct s"
  shows "post (\<lambda>rc s'. rp_acct s' \<and> (if rc = RP_OK then acct_same s s' \<and> st_state s' = st_state s \<and>
    st_next_sample s' = st_next_sample s else st_state s' = RP_FAULT)) (encode_frame opus pcm b s)"
  unfolding encode_frame_def
  by (intro post_intros; (rule post_fault [OF assms])?; insert assms; auto simp: acct_same_def rp_acct_def)

lemma poll_pending_acct:
  assumes "rp_acct s"
  shows "post (\<lambda>rc s'. rp_acct s' \<and> (if rc = RP_OK then st_pending_segments s' = 0 \<and>
      st_segment_frames s' = st_segment_frames s \<and> st_state s' = st_state s
    else if rc = RP_PENDING then acct_same s s' \<and> st_state s' = st_state s else st_state s' = RP_FAULT) \<and>
    (rc = RP_OK \<or> rc = RP_PENDING \<longrightarrow> st_next_sample s' = st_next_sample s \<and> st_captured_samples s' = st_captured_samples s \<and>
       st_lookahead s' = st_lookahead s)) (poll_pending s)"
proof -
  note a = assms [unfolded rp_acct_def]
  have c: "unat (st_committed_samples s + st_pending_samples s) = unat (st_committed_samples s) + unat (st_pending_samples s)"
    by (rule unat_add_le [of _ _ "st_captured_samples s"]) (use a in simp)
  show ?thesis
    unfolding poll_pending_def
    by (intro post_intros; (rule post_fault [OF assms])?; insert assms; auto simp: acct_same_def rp_acct_def c)
qed

lemma samples_add:
  assumes "rp_acct s"
  shows "unat (st_discarded_samples s + ucast (st_segment_frames s) * 320) =
      unat (st_discarded_samples s) + 320 * unat (st_segment_frames s)"
    "unat (st_committed_samples s + ucast (st_segment_frames s) * 320) =
      unat (st_committed_samples s) + 320 * unat (st_segment_frames s)"
proof -
  note a = assms [unfolded rp_acct_def]
  have f: "unat (ucast (st_segment_frames s) * 320 :: u64) = 320 * unat (st_segment_frames s)"
    using frames_samples [of s] a by simp
  show "unat (st_discarded_samples s + ucast (st_segment_frames s) * 320) =
      unat (st_discarded_samples s) + 320 * unat (st_segment_frames s)"
    unfolding f [symmetric] by (rule unat_add_le [of _ _ "st_captured_samples s"]) (use a f in simp)
  show "unat (st_committed_samples s + ucast (st_segment_frames s) * 320) =
      unat (st_committed_samples s) + 320 * unat (st_segment_frames s)"
    unfolding f [symmetric] by (rule unat_add_le [of _ _ "st_captured_samples s"]) (use a f in simp)
qed

text \<open>After sealing, either the segment is closed (and empty) or the pipeline has faulted.\<close>

abbreviation sealed :: "('c, 'e) rp \<Rightarrow> rp_rc \<Rightarrow> ('c, 'e) rp \<Rightarrow> bool" where
  "sealed s rc s' \<equiv> rp_acct s' \<and> st_captured_samples s' = st_captured_samples s \<and> st_segment_frames s' = 0 \<and>
     (if rc = RP_OK \<or> rc = RP_STORAGE_FULL then st_next_sample s' = st_next_sample s \<and>
        (rc = RP_STORAGE_FULL \<longrightarrow> st_pending_segments s' = 0)
      else st_state s' = RP_FAULT)"

lemma post_fault':
  assumes "rp_acct s" and "acct_same s t" and "rc \<noteq> RP_OK" and "rc \<noteq> RP_STORAGE_FULL"
  shows "post (sealed s) (rp_fault rc reason t)"
proof -
  obtain rc' s' where r: "rp_fault rc reason t = (rc', s')" by (cases "rp_fault rc reason t")
  show ?thesis
    using rp_fault_acct [OF _ r] rp_fault_facts [OF r] acct_cong [OF assms(2)] assms r
    by (simp add: post_def acct_same_def)
qed

lemma seal_submit_acct:
  assumes "rp_acct s" and "st_pending_segments s = 0" and "st_segment_frames s \<noteq> 0"
  shows "post (sealed s) (seal_submit opus s)"
proof -
  note a = assms(1) [unfolded rp_acct_def] and add = samples_add [OF assms(1)]
  have f: "unat (ucast (st_segment_frames s) * 320 :: u64) = 320 * unat (st_segment_frames s)"
    using frames_samples [of s] a by simp
  moreover have "unat (st_segment_frames s) \<noteq> 0" using assms(3) by (simp add: unat_eq_zero)
  ultimately have nz: "ucast (st_segment_frames s) * 320 \<noteq> (0 :: u64)" by (metis mult_eq_0_iff unat_0 zero_neq_numeral)
  have p: "st_pending_samples s = 0" using a assms(2) by simp
  show ?thesis
    unfolding seal_submit_def
    by (intro post_intros; (rule post_fault' [OF assms(1)])?)
       (use assms a add f nz p in \<open>auto simp: acct_same_def rp_acct_def\<close>)
qed

lemma post_seal_submit:
  assumes "rp_acct t" and "st_pending_segments t = 0" and "st_segment_frames t \<noteq> 0"
    and "st_captured_samples t = st_captured_samples s" and "st_next_sample t = st_next_sample s"
  shows "post (sealed s) (seal_submit opus t)"
  by (rule post_mono [OF seal_submit_acct [OF assms(1-3)]]) (use assms(4,5) in auto)

lemma post_fault_sealed:
  assumes "rp_acct t" and "rc \<noteq> RP_OK" and "rc \<noteq> RP_STORAGE_FULL" and "st_captured_samples t = st_captured_samples s"
  shows "post (sealed s) (rp_fault rc reason t)"
proof -
  obtain rc' s' where r: "rp_fault rc reason t = (rc', s')" by (cases "rp_fault rc reason t")
  show ?thesis using rp_fault_acct [OF assms(1) r] rp_fault_facts [OF r] assms r by (simp add: post_def)
qed

lemma rp_fault_zero_frames: "post (\<lambda>rc s'. st_segment_frames s' = 0 \<and> st_captured_samples s' = st_captured_samples s) (rp_fault rc reason s)"
  by (simp add: rp_fault_def Let_def post_def)

lemma poll_pending_captured:
  "post (\<lambda>rc s'. st_captured_samples s' = st_captured_samples s \<and> (rc \<noteq> RP_OK \<and> rc \<noteq> RP_PENDING \<longrightarrow> st_segment_frames s' = 0)
     \<and> rc \<noteq> RP_STORAGE_FULL) (poll_pending s)"
  unfolding poll_pending_def rp_fault_def by (intro post_intros) auto

lemma encode_frame_captured:
  "post (\<lambda>rc s'. st_captured_samples s' = st_captured_samples s \<and> (rc \<noteq> RP_OK \<longrightarrow> st_segment_frames s' = 0)
     \<and> rc \<noteq> RP_STORAGE_FULL) (encode_frame opus pcm b s)"
  unfolding encode_frame_def rp_fault_def by (intro post_intros) auto

lemma post_conj: "post P r \<Longrightarrow> post Q r \<Longrightarrow> post (\<lambda>rc s. P rc s \<and> Q rc s) r"
  by (simp add: post_def)

lemma rp_seal_acct:
  assumes "rp_acct s"
  shows "post (sealed s) (rp_seal opus s)"
  unfolding rp_seal_def
  by (intro post_if post_return post_fault_sealed post_seal_submit
        post_call [OF post_conj [OF poll_pending_acct [OF assms] poll_pending_captured]]
        post_call [OF post_conj [OF encode_frame_acct encode_frame_captured]])
     (use assms in \<open>auto simp: acct_same_def split: if_splits\<close>)

text \<open>After a finish the accounting holds and the open segment is empty, unless it waits for a
  pending segment.\<close>

abbreviation settled :: "('c, 'e) rp \<Rightarrow> rp_rc \<Rightarrow> ('c, 'e) rp \<Rightarrow> bool" where
  "settled s rc s' \<equiv> rp_acct s' \<and> st_captured_samples s' = st_captured_samples s \<and> st_state s' \<noteq> RP_RECORDING \<and>
     (st_state s' = RP_PAUSED \<longrightarrow> st_segment_frames s' = 0 \<and> st_pending_segments s' = 0)"

lemma post_settled_fault:
  assumes "rp_acct t" and "st_captured_samples t = st_captured_samples s"
  shows "post (settled s) (rp_fault rc reason t)"
proof -
  obtain rc' s' where r: "rp_fault rc reason t = (rc', s')" by (cases "rp_fault rc reason t")
  show ?thesis using rp_fault_acct [OF assms(1) r] rp_fault_facts [OF r] assms(2) r by (simp add: post_def)
qed

lemma finish_state_not_paused [simp]: "finish_state reason \<noteq> RP_PAUSED" "finish_state reason \<noteq> RP_RECORDING"
  by (simp_all add: finish_state_def)

lemma finish_commit_acct:
  assumes "rp_acct s" and "st_segment_frames s = 0"
  shows "post (settled s) (finish_commit reason s)"
  unfolding finish_commit_def
  by (intro post_intros; (rule post_settled_fault)?)
     (use assms in \<open>auto simp: rp_acct_def\<close>)

lemma post_finish_commit:
  assumes "rp_acct t" and "st_segment_frames t = 0" and "st_captured_samples t = st_captured_samples s"
  shows "post (settled s) (finish_commit reason t)"
  by (rule post_mono [OF finish_commit_acct [OF assms(1,2)]]) (use assms(3) in auto)

lemma rp_finish_acct:
  assumes "rp_acct s"
  shows "post (settled s) (rp_finish opus reason s)"
  unfolding rp_finish_def rp_drain_def
  by (intro post_if post_return post_let post_finish_commit post_call [OF rp_seal_acct [OF assms]])
     (use assms in \<open>auto simp: rp_acct_def split: if_splits\<close>)

lemma pause_finish_acct:
  assumes "rp_acct s"
  shows "post (settled s) (pause_finish opus s)"
proof -
  have fin: "post (settled s) (rp_finish opus r t)" if "rp_acct t" "st_captured_samples t = st_captured_samples s" for r t
    by (rule post_mono [OF rp_finish_acct [OF that(1)]]) (use that(2) in auto)
  show ?thesis
    unfolding pause_finish_def rp_drain_def
    by (intro post_if post_return fin post_call [OF rp_seal_acct [OF assms]])
       (use assms in \<open>auto simp: rp_acct_def split: if_splits\<close>)
qed

abbreviation codec_ready :: "('c, 'e) rp \<Rightarrow> rp_rc \<Rightarrow> ('c, 'e) rp \<Rightarrow> bool" where
  "codec_ready s rc s' \<equiv> rp_acct s' \<and> st_captured_samples s' = st_captured_samples s \<and> st_segment_frames s' = 0 \<and>
     (if rc = RP_OK then st_state s' = st_state s \<and> st_pending_segments s' = st_pending_segments s
      else st_state s' = RP_FAULT)"

lemma codec_init_acct:
  assumes "rp_acct s" and "st_segment_frames s = 0"
  shows "post (codec_ready s) (codec_init opus s)"
proof -
  have f: "post (codec_ready s) (rp_fault RP_CODEC_ERROR r t)"
    if "rp_acct t" "st_captured_samples t = st_captured_samples s" for r t
  proof -
    obtain rc' s' where r: "rp_fault RP_CODEC_ERROR r t = (rc', s')" by (cases "rp_fault RP_CODEC_ERROR r t")
    show ?thesis using rp_fault_acct [OF that(1) r] rp_fault_facts [OF r] that(2) r by (simp add: post_def)
  qed
  have c: "rp_acct ((clear_scratch s)\<lparr>st_buffers_wiped := b, st_codec_error := err\<rparr>)"
    "rp_acct ((clear_scratch s)\<lparr>st_buffers_wiped := b\<rparr>)" for b err
    using assms by (auto simp: rp_acct_def)
  show ?thesis
    unfolding codec_init_def Let_def
    by (intro post_if post_return post_let_pair [unfolded Let_def] f)
       (use assms c in \<open>auto simp: rp_acct_def\<close>)
qed

section \<open>The entry points keep the accounting\<close>

definition rp_inv :: "('c, 'e) rp \<Rightarrow> bool" where
  "rp_inv s \<longleftrightarrow> rp_acct s \<and> (st_state s = RP_RECORDING \<longrightarrow> st_segment_frames s < 500) \<and>
     (st_state s = RP_PAUSED \<longrightarrow> st_segment_frames s = 0 \<and> st_pending_segments s = 0)"

abbreviation keeps_inv :: "rp_rc \<times> ('c, 'e) rp \<Rightarrow> bool" where "keeps_inv \<equiv> post (\<lambda>rc s. rp_inv s)"

lemma settled_inv: "post (settled s) r \<Longrightarrow> keeps_inv r"
  by (auto simp: post_def rp_inv_def)

lemma keeps_fault: "rp_acct s \<Longrightarrow> keeps_inv (rp_fault rc reason s)"
  by (rule settled_inv [OF post_settled_fault [OF _ refl]])

lemma active_inv [simp]: "rp_inv (s\<lparr>rp_active := b\<rparr>) = rp_inv s"
  by (simp add: rp_inv_def rp_acct_def)

lemma keeps_locked:
  assumes "\<And>t. rp_inv t \<Longrightarrow> keeps_inv (f t)" and "rp_inv s"
  shows "keeps_inv (rp_locked f s)"
  unfolding rp_locked_def
  by (intro post_if post_return post_call [OF assms(1)]) (use assms(2) in auto)

lemma keeps_finish: "rp_acct s \<Longrightarrow> keeps_inv (rp_finish opus reason s)"
  by (rule settled_inv [OF rp_finish_acct])

lemma keeps_pause_finish: "rp_acct s \<Longrightarrow> keeps_inv (pause_finish opus s)"
  by (rule settled_inv [OF pause_finish_acct])

lemma keeps_push_boundary:
  assumes "rp_acct s"
  shows "keeps_inv (push_boundary opus s)"
  unfolding push_boundary_def
  by (intro post_if post_return keeps_finish post_call [OF rp_seal_acct [OF assms]] post_call [OF codec_init_acct])
     (use assms in \<open>auto simp: rp_inv_def rp_acct_def split: if_splits\<close>)

lemma frame_added:
  assumes "rp_acct s" and "st_segment_frames s < 500" and "\<not> st_captured_samples s > UINT64_MAX - 320"
  shows "rp_acct (s\<lparr>st_segment_frames := st_segment_frames s + 1, st_next_sample := n, st_captured_samples := st_captured_samples s + 320\<rparr>)"
proof -
  have c: "unat (st_captured_samples s + 320) = unat (st_captured_samples s) + 320"
    using assms(3) by (simp add: word_less_nat_alt unat_word_ariths)
  have f: "unat (st_segment_frames s + 1) = unat (st_segment_frames s) + 1" "st_segment_frames s + 1 \<le> 500"
    using assms(2) by (simp_all add: word_less_nat_alt word_le_nat_alt unat_word_ariths)
  show ?thesis using assms(1) c f by (simp add: rp_acct_def)
qed

lemma frames_500: "(n :: u32) < 500 \<Longrightarrow> n + 1 \<noteq> 500 \<Longrightarrow> n + 1 < 500"
  by (metis add.commute inc_less_eq_iff order_le_less word_less_1 word_less_nat_alt)

lemma keeps_push_frame_body:
  assumes "rp_inv s"
  shows "keeps_inv (push_frame_body opus first pcm s)"
proof -
  have a: "rp_acct s" using assms by (simp add: rp_inv_def)
  show ?thesis
  proof (cases "st_state s = RP_RECORDING")
    case False
    then show ?thesis using assms by (simp add: push_frame_body_def post_def)
  next
    case True
    then have lt: "st_segment_frames s < 500" using assms by (simp add: rp_inv_def)
    have add: "rp_acct (t\<lparr>st_segment_frames := f, st_next_sample := n, st_captured_samples := c\<rparr>)"
      if "rp_acct t" "st_segment_frames t = st_segment_frames s" "\<not> st_captured_samples t > UINT64_MAX - 320"
        "f = st_segment_frames t + 1" "c = st_captured_samples t + 320" for t n f c
      unfolding that(4,5) by (rule frame_added) (use that lt in simp_all)
    have le: "n + 1 < 500" if "n = st_segment_frames s" "n + 1 \<noteq> 500" for n using frames_500 lt that by blast
    show ?thesis
      unfolding push_frame_body_def
      by (intro post_call [OF poll_pending_acct [OF a]] post_call [OF encode_frame_acct]
            post_if post_return keeps_fault keeps_push_boundary post_let)
         (use True lt le in \<open>auto simp: rp_inv_def acct_same_def split: if_splits intro!: add\<close>)
  qed
qed

lemma zero_acct:
  assumes "st_captured_samples s = 0" and "st_committed_samples s = 0" and "st_pending_samples s = 0"
    and "st_discarded_samples s = 0" and "st_segment_frames s = 0" and "st_pending_segments s = 0"
  shows "rp_acct s"
  using assms by (simp add: rp_acct_def)

lemma keeps_start_session: "keeps_inv (start_session opus b first s)"
  unfolding start_session_def
  by (intro post_call [OF codec_init_acct] post_if post_return keeps_fault zero_acct post_let_pair post_let)
     (auto simp: zero_status_def rp_inv_def rp_acct_def split: if_splits)

lemma keeps_resume_body:
  assumes "rp_inv s"
  shows "keeps_inv (resume_body opus n s)"
  unfolding resume_body_def
  by (intro post_call [OF codec_init_acct] post_if post_return keeps_fault post_let)
     (use assms in \<open>auto simp: rp_inv_def rp_acct_def split: if_splits\<close>)

text \<open>Every entry point that changes state.\<close>

datatype ('c, 'e) rp_call =
    RpInit "'e rp_sink option" u32 u32 u32 "'e rp_poll_fn option"
  | RpPoll | RpSelectMode u32 | RpStart "es_binding option" u64 | RpPushFrame u64 "16 word list ptr"
  | RpPause | RpResume u64 | RpEnd rp_reason | RpExternalFault

fun rp_exec1 :: "'c opus_api \<Rightarrow> ('c, 'e) rp_call \<Rightarrow> ('c, 'e) rp \<Rightarrow> rp_rc \<times> ('c, 'e) rp" where
  "rp_exec1 opus (RpInit cb mode stack profile poll) s = init_core cb mode stack profile poll s"
| "rp_exec1 opus RpPoll s = rp_poll opus s"
| "rp_exec1 opus (RpSelectMode mode) s = rp_select_mode mode s"
| "rp_exec1 opus (RpStart b first) s = rp_start opus b first s"
| "rp_exec1 opus (RpPushFrame first pcm) s = rp_push_frame opus first pcm s"
| "rp_exec1 opus RpPause s = rp_pause opus s"
| "rp_exec1 opus (RpResume n) s = rp_resume opus n s"
| "rp_exec1 opus (RpEnd reason) s = rp_end opus reason s"
| "rp_exec1 opus RpExternalFault s = rp_external_fault s"

fun rp_exec :: "'c opus_api \<Rightarrow> ('c, 'e) rp_call list \<Rightarrow> ('c, 'e) rp \<Rightarrow> ('c, 'e) rp" where
  "rp_exec opus [] s = s"
| "rp_exec opus (c # cs) s = rp_exec opus cs (snd (rp_exec1 opus c s))"

lemma keeps_init:
  assumes "rp_inv s"
  shows "keeps_inv (init_core cb mode stack profile poll s)"
proof (cases cb)
  case None
  then show ?thesis using assms by (simp add: init_core_def post_def)
next
  case (Some c)
  then show ?thesis
    unfolding init_core_def Some option.case
    by (intro post_if post_return keeps_locked) (use assms in \<open>auto simp: rp_inv_def rp_acct_def zero_status_def\<close>)
qed

lemma keeps_poll:
  assumes "rp_inv s"
  shows "keeps_inv (rp_poll opus s)"
  unfolding rp_poll_def
proof (rule keeps_locked [OF _ assms])
  fix t :: "('a, 'b) rp" assume t: "rp_inv t"
  then have a: "rp_acct t" by (simp add: rp_inv_def)
  show "keeps_inv (if rp_async_poll t = None \<or> st_state t \<notin> {RP_RECORDING, RP_DRAINING, RP_PAUSED} then (RP_STATE, t)
     else let (rc, s) = poll_pending t in
       if rc \<noteq> RP_OK then (rc, s)
       else if st_state s = RP_DRAINING then
         (if rp_drain_action s = 1 then pause_finish opus s
          else if rp_drain_action s = 2 then rp_finish opus (rp_drain_reason s) (s\<lparr>rp_drain_action := 0\<rparr>)
          else rp_fault RP_STATE RP_REASON_EXTERNAL s)
       else (RP_OK, s))"
    by (intro post_if post_return keeps_pause_finish keeps_finish keeps_fault post_call [OF poll_pending_acct [OF a]])
       (use t in \<open>auto simp: rp_inv_def rp_acct_def acct_same_def split: if_splits\<close>)
qed

lemma keeps_exec1:
  assumes "rp_inv s"
  shows "keeps_inv (rp_exec1 opus c s)"
proof -
  have ret: "keeps_inv (rc, t)" if "rp_inv t" for rc and t :: "('a, 'b) rp" using that by (simp add: post_def)
  show ?thesis
  proof (cases c)
    case RpInit
    then show ?thesis using keeps_init [OF assms] by simp
  next
    case RpPoll
    then show ?thesis using keeps_poll [OF assms] by simp
  next
    case (RpSelectMode mode)
    have "keeps_inv (rp_select_mode mode s)"
      unfolding rp_select_mode_def
      by (intro post_if ret keeps_locked) (use assms in \<open>auto simp: rp_inv_def rp_acct_def\<close>)
    with RpSelectMode show ?thesis by simp
  next
    case (RpStart b first)
    have "keeps_inv (rp_start opus b first s)"
      unfolding rp_start_def
      by (cases b; simp only: option.case; intro post_if ret keeps_locked keeps_start_session) (use assms in auto)
    with RpStart show ?thesis by simp
  next
    case (RpPushFrame first pcm)
    have "keeps_inv (rp_push_frame opus first pcm s)"
      by (cases pcm; simp only: rp_push_frame.simps; intro post_if ret keeps_locked keeps_push_frame_body) (use assms in auto)
    with RpPushFrame show ?thesis by simp
  next
    case RpPause
    have "keeps_inv (rp_pause opus s)"
      unfolding rp_pause_def by (intro post_if ret keeps_locked keeps_pause_finish) (use assms in \<open>auto simp: rp_inv_def\<close>)
    with RpPause show ?thesis by simp
  next
    case (RpResume n)
    have "keeps_inv (rp_resume opus n s)"
      unfolding rp_resume_def by (intro keeps_locked keeps_resume_body) (use assms in auto)
    with RpResume show ?thesis by simp
  next
    case (RpEnd reason)
    have "keeps_inv (rp_end opus reason s)"
      unfolding rp_end_def
      by (intro post_if ret keeps_locked keeps_finish) (use assms in \<open>auto simp: rp_inv_def rp_acct_def\<close>)
    with RpEnd show ?thesis by simp
  next
    case RpExternalFault
    have "keeps_inv (rp_external_fault s)"
      unfolding rp_external_fault_def by (intro post_if ret keeps_locked keeps_fault) (use assms in \<open>auto simp: rp_inv_def\<close>)
    with RpExternalFault show ?thesis by simp
  qed
qed

lemma rp_exec_inv: "rp_inv s \<Longrightarrow> rp_inv (rp_exec opus calls s)"
proof (induction calls arbitrary: s)
  case (Cons c cs)
  then show ?case using keeps_exec1 [OF Cons.prems, of opus c] by (simp add: post_def)
qed simp

text \<open>The statics before the first call.\<close>

definition rp_fresh :: "('c, 'e) rp \<Rightarrow> bool" where
  "rp_fresh s \<longleftrightarrow> \<not> rp_initialized s \<and> \<not> rp_active s \<and> s = zero_status s"

lemma rp_fresh_inv: "rp_fresh s \<Longrightarrow> rp_inv s"
proof -
  assume "rp_fresh s"
  then have "s = zero_status s" by (simp add: rp_fresh_def)
  moreover have "rp_inv (zero_status s)" by (simp add: zero_status_def rp_inv_def rp_acct_def)
  ultimately show ?thesis by simp
qed

text \<open>Claim C9.  From the zeroed statics, after any sequence of entry-point calls with any codec and any
  sink behaviour, every captured sample is counted exactly once: committed, pending, discarded or in
  the open segment, which holds at most 500 frames; at most one segment is pending.\<close>

theorem rp_accounting:
  assumes "rp_fresh s" and "t = rp_exec opus calls s"
  shows "unat (st_captured_samples t) = unat (st_committed_samples t) + unat (st_pending_samples t) +
      unat (st_discarded_samples t) + 320 * unat (st_segment_frames t) \<and>
    unat (st_segment_frames t) \<le> 500 \<and> st_pending_segments t \<le> 1"
  using rp_exec_inv [OF rp_fresh_inv [OF assms(1)], of opus calls] assms(2)
  by (simp add: rp_inv_def rp_acct_def word_le_nat_alt)

section \<open>Finalisation is exact\<close>

definition all_final :: "('c, 'e) rp \<Rightarrow> bool" where
  "all_final s \<longleftrightarrow> unat (st_captured_samples s) = unat (st_committed_samples s) + unat (st_discarded_samples s) \<and>
     st_segment_frames s = 0 \<and> st_pending_segments s = 0"

definition exact_receipt :: "('c, 'e) rp \<Rightarrow> bool" where
  "exact_receipt s \<longleftrightarrow> (\<exists>e receipt e'. the (sk_finalize (rp_sink s)) (completion_of (st_reason s) s) e = (RP_IO_OK, receipt, e') \<and>
     fr_durable receipt = 1 \<and> same_completion (fr_completion receipt) (completion_of (st_reason s) s))"

lemma rp_fault_keeps_final: "post (\<lambda>rc s'. st_manifest_finalized s' = st_manifest_finalized s) (rp_fault rc reason s)"
  by (simp add: rp_fault_def Let_def post_def clear_scratch_def)

lemma post_fault_final:
  "st_manifest_finalized t = b \<Longrightarrow> post (\<lambda>rc s'. st_manifest_finalized s' = b) (rp_fault rc reason t)"
  using rp_fault_keeps_final [of t rc reason] by (simp add: post_def)

lemma poll_keeps_final: "post (\<lambda>rc s'. st_manifest_finalized s' = st_manifest_finalized s) (poll_pending s)"
  unfolding poll_pending_def by (intro post_intros post_fault_final) auto

lemma encode_keeps_final: "post (\<lambda>rc s'. st_manifest_finalized s' = st_manifest_finalized s) (encode_frame opus pcm b s)"
  unfolding encode_frame_def by (intro post_intros; (rule post_fault_final)?) auto

lemma submit_keeps_final:
  "st_manifest_finalized s = b \<Longrightarrow> post (\<lambda>rc s'. st_manifest_finalized s' = b) (seal_submit opus s)"
  unfolding seal_submit_def by (intro post_intros; (rule post_fault_final)?) (auto simp: clear_scratch_def)

lemma seal_keeps_final: "post (\<lambda>rc s'. st_manifest_finalized s' = st_manifest_finalized s) (rp_seal opus s)"
  unfolding rp_seal_def
  by (intro post_call [OF poll_keeps_final] post_call [OF encode_keeps_final] post_if post_return post_fault_final submit_keeps_final)
     auto

lemma finish_commit_final:
  assumes "rp_acct s" and "st_segment_frames s = 0" and "st_pending_segments s = 0" and "\<not> st_manifest_finalized s"
  shows "post (\<lambda>rc s'. st_manifest_finalized s' \<longrightarrow> all_final s' \<and> exact_receipt s') (finish_commit reason s)"
proof -
  have f: "post (\<lambda>rc s'. st_manifest_finalized s' \<longrightarrow> P s') (rp_fault rc r t)" if "\<not> st_manifest_finalized t" for P rc r t
    using post_fault_final [of t False rc r] that by (simp add: post_def)
  show ?thesis
    unfolding finish_commit_def
    by (intro post_intros; (rule f)?)
       (use assms in \<open>auto simp: all_final_def rp_acct_def exact_receipt_def completion_of_def clear_scratch_def\<close>)
qed

text \<open>Claim C19.  When a finish marks the recording finalised, nothing is pending or open, every captured
  sample is committed or discarded, and the sink returned a durable receipt that echoes every field of
  the completion: identity, mode, reason, segment and gap counts and the sample counters.\<close>

theorem rp_finish_exact:
  assumes "rp_acct s" and "\<not> st_manifest_finalized s"
    and "rp_finish opus reason s = (rc, s')" and "st_manifest_finalized s'"
  shows "all_final s' \<and> exact_receipt s'"
proof -
  have "post (\<lambda>rc s'. st_manifest_finalized s' \<longrightarrow> all_final s' \<and> exact_receipt s') (rp_finish opus reason s)"
    unfolding rp_finish_def rp_drain_def
    by (intro post_call [OF post_conj [OF rp_seal_acct [OF assms(1)] seal_keeps_final]]
          post_if post_return finish_commit_final post_let)
       (use assms(2) in \<open>auto split: if_splits\<close>)
  from postD [OF this assms(3)] assms(4) show ?thesis by simp
qed

text \<open>A concrete codec and sink: packets of 60 ones, a sink that acknowledges everything.\<close>

definition demo_opus :: "unit opus_api" where
  "demo_opus = \<lparr>op_version_string = Some ''libopus 1.6.1-fixed'', op_encoder_get_size = 1000,
     op_encoder_init = (\<lambda>a. (0, ())), op_encoder_ctl = (\<lambda>r c. (0, ())), op_get_lookahead = (\<lambda>c. (0, 104)),
     op_encode = (\<lambda>pcm c. (60, replicate 60 1, ())), op_packet_nb_samples = (\<lambda>p. 320),
     op_packet_nb_channels = (\<lambda>p. 1), op_packet_parse = (\<lambda>p. 1)\<rparr>"

definition demo_sink :: "unit rp_sink" where
  "demo_sink = \<lparr>sk_reserve = Some (\<lambda>b e. (0, ())),
     sk_seal_commit = Some (\<lambda>b p e. (0, \<lparr>sr_durable = 1, sr_es_header = es_encode b (replicate 128 0)\<rparr>, ())),
     sk_finalize = Some (\<lambda>c e. (0, \<lparr>fr_completion = c, fr_durable = 1\<rparr>, ()))\<rparr>"

definition demo_rp :: "(unit, unit) rp" where
  "demo_rp = \<lparr>st_state = RP_UNINITIALIZED, st_mode = 0, st_reason = RP_REASON_NONE, st_segments = 0,
     st_segment_frames = 0, st_gaps = 0, st_lookahead = 0, st_session_reserved = False,
     st_manifest_finalized = False, st_commit_uncertain = False, st_buffers_wiped = False, st_error = RP_OK,
     st_codec_error = 0, st_store_error = 0, st_captured_samples = 0, st_committed_samples = 0,
     st_next_sample = 0, st_discarded_samples = 0, st_codec_profile = 0, st_pending_segments = 0,
     st_pending_samples = 0, rp_active = False, rp_initialized = False, rp_sink = demo_sink, rp_session = es_none,
     rp_encoder_state = None, rp_plaintext = [], rp_packet_count = 0, rp_segment_flags = 0, rp_segment_first = 0,
     rp_committed_next = 0, rp_async_poll = None, rp_pending_binding = es_none, rp_pending_next = 0,
     rp_drain_action = 0, rp_drain_reason = RP_REASON_NONE, rp_store = ()\<rparr>"

lemma demo_rp_fresh: "rp_fresh demo_rp"
  by (simp add: rp_fresh_def demo_rp_def zero_status_def)

abbreviation demo_rp_calls :: "(unit, unit) rp_call list" where
  "demo_rp_calls \<equiv> [RpInit (Some demo_sink) 0 65536 1 None, RpStart (Some (es_none\<lparr>es_generation := 1\<rparr>)) 0,
     RpPushFrame 0 (Ptr 4096 (replicate 320 0)), RpPause, RpEnd RP_REASON_USER]"

theorem rp_accounting_witness:
  "rp_fresh demo_rp \<and> unat (st_captured_samples (rp_exec demo_opus demo_rp_calls demo_rp)) =
    unat (st_committed_samples (rp_exec demo_opus demo_rp_calls demo_rp)) +
    unat (st_pending_samples (rp_exec demo_opus demo_rp_calls demo_rp)) +
    unat (st_discarded_samples (rp_exec demo_opus demo_rp_calls demo_rp)) +
    320 * unat (st_segment_frames (rp_exec demo_opus demo_rp_calls demo_rp))"
  using rp_accounting [OF demo_rp_fresh refl, of demo_opus demo_rp_calls] demo_rp_fresh by simp

theorem rp_finish_exact_witness:
  "\<exists>s'. rp_finish demo_opus RP_REASON_USER demo_rp = (RP_OK, s') \<and> all_final s' \<and> exact_receipt s'"
proof -
  obtain s' where s': "rp_finish demo_opus RP_REASON_USER demo_rp = (RP_OK, s')" "st_manifest_finalized s'"
    by (simp add: rp_finish_def rp_seal_def finish_commit_def demo_rp_def demo_sink_def completion_of_def
        same_completion_def same_identity_def Let_def clear_scratch_def)
  have "rp_acct demo_rp" "\<not> st_manifest_finalized demo_rp" by (simp_all add: rp_acct_def demo_rp_def)
  from rp_finish_exact [OF this s'] s'(1) show ?thesis by blast
qed

end
