(* ===== verification/Long_Control.thy ===== *)
theory Long_Control
  imports Prelude
begin

text \<open>
  The long-recording control protocol (\<open>long_recording_control_codec.c\<close>): request frames of 80 bytes,
  response frames of 81 bytes, the admissibility rules on a reported state and the check that two
  observations of one operation are in progress order.  The build flag
  \<open>OPENPENDANT_PORTABLE_RECORDING\<close> is the argument \<open>portable\<close>.  The group shows that both parsers accept
  exactly one byte string per value (no malleability), that response parsing inverts encoding, and
  that the progress check is a preorder on a chain of observations whose terminal states are frozen.
\<close>

section \<open>Model\<close>

datatype lc_result = LC_OK | LC_ARGUMENT | LC_INVALID

record lc_request =
  rq_boot :: bytes
  rq_operation :: bytes
  rq_binding :: bytes
  rq_sequence :: u16
  rq_command :: u8
  rq_mode :: u8

record lc_state =
  st_boot :: bytes
  st_operation :: bytes
  st_recording :: bytes
  st_phase :: u8
  st_reason :: u8
  st_flags :: u16
  st_epoch :: u32
  st_accepted :: u32
  st_committed :: u32
  st_admitted :: u32

abbreviation LC_STATUS :: u8 where "LC_STATUS \<equiv> 0x40"
abbreviation LC_START :: u8 where "LC_START \<equiv> 0x41"
abbreviation LC_STOP :: u8 where "LC_STOP \<equiv> 0x42"
abbreviation LC_MAX_FRAMES :: u32 where "LC_MAX_FRAMES \<equiv> 2560000"

abbreviation LC_IDLE :: u8 where "LC_IDLE \<equiv> 0"
abbreviation LC_STARTING :: u8 where "LC_STARTING \<equiv> 1"
abbreviation LC_RUNNING :: u8 where "LC_RUNNING \<equiv> 2"
abbreviation LC_STOPPING :: u8 where "LC_STOPPING \<equiv> 3"
abbreviation LC_DRAINING :: u8 where "LC_DRAINING \<equiv> 4"
abbreviation LC_STOPPED :: u8 where "LC_STOPPED \<equiv> 5"
abbreviation LC_NO_CAPACITY :: u8 where "LC_NO_CAPACITY \<equiv> 6"
abbreviation LC_CANCELLED_BEFORE_START :: u8 where "LC_CANCELLED_BEFORE_START \<equiv> 7"
abbreviation LC_FAULT :: u8 where "LC_FAULT \<equiv> 8"

abbreviation LC_USB_PRESENT :: u16 where "LC_USB_PRESENT \<equiv> 1"
abbreviation LC_MIC_ON :: u16 where "LC_MIC_ON \<equiv> 2"
abbreviation LC_PRODUCER_JOINED :: u16 where "LC_PRODUCER_JOINED \<equiv> 4"
abbreviation LC_STORAGE_JOINED :: u16 where "LC_STORAGE_JOINED \<equiv> 8"
abbreviation LC_FINALIZED :: u16 where "LC_FINALIZED \<equiv> 16"
abbreviation LC_RELEASED :: u16 where "LC_RELEASED \<equiv> 32"
abbreviation LC_SESSION_CREATED :: u16 where "LC_SESSION_CREATED \<equiv> 64"
abbreviation LC_FAULT_LATCH :: u16 where "LC_FAULT_LATCH \<equiv> 128"
abbreviation LC_CAPACITY_KNOWN :: u16 where "LC_CAPACITY_KNOWN \<equiv> 256"
abbreviation LC_STOP_REQUESTED :: u16 where "LC_STOP_REQUESTED \<equiv> 512"
abbreviation LC_BUTTON_ARMED :: u16 where "LC_BUTTON_ARMED \<equiv> 1024"
abbreviation LC_PORTABLE :: u16 where "LC_PORTABLE \<equiv> 2048"

definition LC_FLAGS_MASK :: "bool \<Rightarrow> u16" where
  "LC_FLAGS_MASK portable = (if portable then 4095 else 2047)"

abbreviation sizeof_lc_request :: nat where "sizeof_lc_request \<equiv> 68"
abbreviation sizeof_lc_state :: nat where "sizeof_lc_state \<equiv> 68"

definition wf_lc_request :: "lc_request \<Rightarrow> bool" where
  "wf_lc_request r \<longleftrightarrow> length (rq_boot r) = 16 \<and> length (rq_operation r) = 16 \<and> length (rq_binding r) = 32"

definition wf_lc_state :: "lc_state \<Rightarrow> bool" where
  "wf_lc_state s \<longleftrightarrow> length (st_boot s) = 16 \<and> length (st_operation s) = 16 \<and> length (st_recording s) = 16"

fun lc_span :: "'a ptr \<Rightarrow> nat \<Rightarrow> bool" where
  "lc_span Null n = False"
| "lc_span (Ptr a x) n = (n \<noteq> 0 \<and> a \<le> UINTPTR_MAX - n)"

definition lc_separate :: "'a ptr \<Rightarrow> nat \<Rightarrow> 'b ptr \<Rightarrow> nat \<Rightarrow> bool" where
  "lc_separate p n q m \<longleftrightarrow> lc_span p n \<and> lc_span q m \<and> (addr p + n \<le> addr q \<or> addr q + m \<le> addr p)"

text \<open>\<open>f & m\<close> used as a truth value.\<close>

definition has :: "u16 \<Rightarrow> u16 \<Rightarrow> bool" where "has f m \<longleftrightarrow> f AND m \<noteq> 0"

definition lc_request_valid :: "lc_request \<Rightarrow> bool" where
  "lc_request_valid r =
    (if rq_sequence r = 0 \<or> \<not> identity (rq_binding r) then False
     else if rq_command r = LC_STATUS then
       (if rq_mode r \<noteq> 0 then False
        else (identity (rq_boot r) \<or> zero (rq_boot r)) \<and> (identity (rq_operation r) \<or> zero (rq_operation r)) \<and>
             (\<not> zero (rq_boot r) \<or> zero (rq_operation r)))
     else (rq_command r = LC_START \<or> rq_command r = LC_STOP) \<and> identity (rq_boot r) \<and> identity (rq_operation r) \<and>
          (if rq_command r = LC_START then rq_mode r = 1 \<or> rq_mode r = 2 else rq_mode r = 0))"

text \<open>The local \<open>struct lc_request r\<close> filled from the frame.\<close>

definition lc_read_request :: "bytes \<Rightarrow> lc_request" where
  "lc_read_request p = \<lparr>rq_boot = part 8 16 p, rq_operation = part 24 16 p, rq_binding = part 40 32 p,
     rq_sequence = get16 4 p, rq_command = p ! 3, rq_mode = p ! 72\<rparr>"

fun lc_parse_request ::
  "bytes ptr \<Rightarrow> nat \<Rightarrow> bytes ptr \<Rightarrow> bytes ptr \<Rightarrow> lc_request ptr \<Rightarrow> lc_result \<times> lc_request ptr" where
  "lc_parse_request pp n bp kp out =
    (if n \<noteq> 80 \<or> \<not> lc_separate pp n out sizeof_lc_request \<or> \<not> lc_separate bp 32 out sizeof_lc_request \<or>
        \<not> lc_separate kp 16 out sizeof_lc_request then (LC_ARGUMENT, out)
     else let p = pt pp; binding = pt bp; boot = pt kp in
       if \<not> identity binding \<or> \<not> identity boot \<or> p ! 0 \<noteq> 79 \<or> p ! 1 \<noteq> 80 \<or> p ! 2 \<noteq> 1 \<or> get16 6 p \<noteq> 72 \<or>
          \<not> zero (part 73 7 p) then (LC_INVALID, out)
       else let r = lc_read_request p in
         if \<not> lc_request_valid r \<or> rq_binding r \<noteq> binding \<or> (\<not> zero (rq_boot r) \<and> rq_boot r \<noteq> boot)
         then (LC_INVALID, out) else (LC_OK, Ptr (addr out) r))"

text \<open>\<open>lc_validate_state\<close>: the shape guards that come before the dispatch on the phase, the branch for
  each phase, and the common part of STOPPING and DRAINING.\<close>

definition lc_shape_bad :: "bool \<Rightarrow> lc_state \<Rightarrow> bool" where
  "lc_shape_bad portable s = (let f = st_flags s in
     \<not> identity (st_boot s) \<or> st_phase s > LC_FAULT \<or> st_reason s > 12 \<or> has f (NOT (LC_FLAGS_MASK portable)) \<or>
     st_epoch s > 0x7fffffff \<or> st_accepted s > LC_MAX_FRAMES \<or> st_committed s > st_accepted s \<or>
     st_admitted s > LC_MAX_FRAMES \<or> st_admitted s mod 500 \<noteq> 0 \<or>
     (\<not> has f LC_CAPACITY_KNOWN \<and> st_admitted s \<noteq> 0) \<or>
     (has f LC_CAPACITY_KNOWN \<and> st_accepted s > st_admitted s) \<or>
     (has f LC_MIC_ON \<and> has f LC_PRODUCER_JOINED) \<or>
     (has f LC_RELEASED \<and> (\<not> has f LC_PRODUCER_JOINED \<or> \<not> has f LC_STORAGE_JOINED \<or> has f LC_MIC_ON)))"

definition lc_button_bad :: "lc_state \<Rightarrow> bool" where
  "lc_button_bad s \<longleftrightarrow> has (st_flags s) LC_BUTTON_ARMED \<and>
     (st_phase s \<noteq> LC_STARTING \<or> has (st_flags s) (LC_SESSION_CREATED OR LC_MIC_ON OR LC_STOP_REQUESTED) \<or>
      st_epoch s \<noteq> 0 \<or> st_accepted s \<noteq> 0 \<or> st_committed s \<noteq> 0)"

definition lc_no_frames :: "lc_state \<Rightarrow> bool" where
  "lc_no_frames s \<longleftrightarrow> st_accepted s = 0 \<and> st_committed s = 0"

definition lc_idle_ok :: "lc_state \<Rightarrow> bool" where
  "lc_idle_ok s \<longleftrightarrow> zero (st_operation s) \<and> zero (st_recording s) \<and> st_epoch s = 0 \<and> st_reason s = 0 \<and> lc_no_frames s \<and>
     st_flags s AND (LC_PRODUCER_JOINED OR LC_STORAGE_JOINED OR LC_RELEASED) = 44 \<and>
     \<not> has (st_flags s) (LC_MIC_ON OR LC_FINALIZED OR LC_SESSION_CREATED OR LC_FAULT_LATCH OR LC_STOP_REQUESTED)"

definition lc_no_capacity_ok :: "lc_state \<Rightarrow> bool" where
  "lc_no_capacity_ok s \<longleftrightarrow> st_reason s = 11 \<and> zero (st_recording s) \<and> st_epoch s = 0 \<and> lc_no_frames s \<and> st_admitted s = 0 \<and>
     st_flags s AND (LC_PRODUCER_JOINED OR LC_STORAGE_JOINED OR LC_RELEASED OR LC_CAPACITY_KNOWN) = 300 \<and>
     \<not> has (st_flags s) (LC_MIC_ON OR LC_FINALIZED OR LC_SESSION_CREATED)"

definition lc_cancelled_ok :: "lc_state \<Rightarrow> bool" where
  "lc_cancelled_ok s \<longleftrightarrow> st_reason s = 1 \<and> zero (st_recording s) \<and> st_epoch s = 0 \<and> lc_no_frames s \<and>
     st_flags s AND (LC_PRODUCER_JOINED OR LC_STORAGE_JOINED OR LC_RELEASED) = 44 \<and>
     \<not> has (st_flags s) (LC_MIC_ON OR LC_FINALIZED OR LC_SESSION_CREATED)"

definition lc_starting_ok :: "lc_state \<Rightarrow> bool" where
  "lc_starting_ok s \<longleftrightarrow> (let f = st_flags s in
     st_reason s = 0 \<and> lc_no_frames s \<and> \<not> has f (LC_MIC_ON OR LC_FINALIZED) \<and>
     (if has f LC_SESSION_CREATED
      then st_epoch s \<noteq> 0 \<and> identity (st_recording s) \<and> has f LC_CAPACITY_KNOWN \<and> st_admitted s \<noteq> 0 \<and> \<not> has f LC_RELEASED
      else st_epoch s = 0 \<and> zero (st_recording s)))"

definition lc_stopping_early_ok :: "lc_state \<Rightarrow> bool" where
  "lc_stopping_early_ok s \<longleftrightarrow> st_reason s = 1 \<and> st_epoch s = 0 \<and> zero (st_recording s) \<and> lc_no_frames s \<and>
     \<not> has (st_flags s) (LC_MIC_ON OR LC_FINALIZED OR LC_RELEASED)"

definition lc_running_ok :: "lc_state \<Rightarrow> bool" where
  "lc_running_ok s \<longleftrightarrow> st_reason s = 0 \<and> has (st_flags s) LC_MIC_ON \<and> has (st_flags s) (LC_USB_PRESENT OR LC_PORTABLE) \<and>
     \<not> has (st_flags s) (LC_PRODUCER_JOINED OR LC_FINALIZED OR LC_RELEASED)"

definition lc_stop_reason :: "lc_state \<Rightarrow> bool" where
  "lc_stop_reason s \<longleftrightarrow> st_reason s = 1 \<or> st_reason s = 11 \<or> (st_reason s = 2 \<and> has (st_flags s) LC_PORTABLE)"

definition lc_stopped_ok :: "lc_state \<Rightarrow> bool" where
  "lc_stopped_ok s \<longleftrightarrow> lc_stop_reason s \<and> st_accepted s = st_committed s \<and>
     st_flags s AND (LC_PRODUCER_JOINED OR LC_STORAGE_JOINED OR LC_FINALIZED OR LC_RELEASED) = 60 \<and>
     \<not> has (st_flags s) LC_MIC_ON \<and> (st_reason s \<noteq> 11 \<or> st_accepted s = st_admitted s)"

definition lc_check :: "bool \<Rightarrow> lc_result" where "lc_check b = (if b then LC_OK else LC_INVALID)"

definition lc_validate_body :: "bool \<Rightarrow> lc_state \<Rightarrow> lc_result" where
  "lc_validate_body portable s = (let f = st_flags s in
     if lc_shape_bad portable s then LC_INVALID
     else if lc_button_bad s then LC_INVALID
     else if (\<not> identity (st_recording s) \<and> \<not> zero (st_recording s)) \<or>
             (\<not> identity (st_operation s) \<and> \<not> zero (st_operation s)) then LC_INVALID
     else if st_phase s = LC_IDLE then lc_check (lc_idle_ok s)
     else if \<not> identity (st_operation s) then LC_INVALID
     else if st_phase s = LC_FAULT then lc_check (has f LC_FAULT_LATCH \<and> st_reason s \<noteq> 0 \<and> \<not> has f LC_FINALIZED)
     else if has f LC_FAULT_LATCH then LC_INVALID
     else if st_phase s = LC_NO_CAPACITY then lc_check (lc_no_capacity_ok s)
     else if st_phase s = LC_CANCELLED_BEFORE_START then lc_check (lc_cancelled_ok s)
     else if st_phase s = LC_STARTING then lc_check (lc_starting_ok s)
     else if st_phase s = LC_STOPPING \<and> \<not> has f LC_SESSION_CREATED then lc_check (lc_stopping_early_ok s)
     else if \<not> identity (st_recording s) \<or> st_epoch s = 0 \<or> \<not> has f LC_SESSION_CREATED \<or> \<not> has f LC_CAPACITY_KNOWN \<or>
             st_admitted s = 0 then LC_INVALID
     else if st_phase s = LC_RUNNING then lc_check (lc_running_ok s)
     else if st_phase s = LC_STOPPED then lc_check (lc_stopped_ok s)
     else if \<not> lc_stop_reason s then LC_INVALID
     else if has f (LC_FINALIZED OR LC_RELEASED) then LC_INVALID
     else if st_phase s = LC_DRAINING \<and> (\<not> has f LC_PRODUCER_JOINED \<or> has f LC_MIC_ON) then LC_INVALID
     else LC_OK)"

definition lc_validate_state :: "bool \<Rightarrow> lc_state ptr \<Rightarrow> lc_result" where
  "lc_validate_state portable s = (if \<not> lc_span s sizeof_lc_state then LC_ARGUMENT else lc_validate_body portable (pt s))"

definition lc_selected :: "bool \<Rightarrow> lc_request \<Rightarrow> lc_state \<Rightarrow> bool" where
  "lc_selected portable r s \<longleftrightarrow> lc_request_valid r \<and> lc_validate_body portable s = LC_OK \<and>
     (zero (rq_boot r) \<or> rq_boot r = st_boot s) \<and>
     (zero (rq_operation r) \<or> rq_operation r = st_operation s) \<and>
     (rq_command r \<noteq> LC_START \<or> st_phase s \<noteq> LC_IDLE) \<and>
     (rq_command r \<noteq> LC_STOP \<or> (st_phase s \<noteq> LC_IDLE \<and>
       (has (st_flags s) LC_STOP_REQUESTED \<or> (st_phase s \<noteq> LC_STARTING \<and> st_phase s \<noteq> LC_RUNNING))))"

text \<open>The local response buffer of \<open>lc_encode_response\<close>.\<close>

definition lc_response :: "lc_request \<Rightarrow> lc_state \<Rightarrow> bytes" where
  "lc_response r s =
    (let p = replicate 81 0;
         p = put8 0 79 p; p = put8 1 80 p; p = put8 2 1 p; p = put8 3 (rq_command r OR 128) p;
         p = put16 4 (rq_sequence r) p; p = put16 6 73 p;
         p = blit 9 (st_boot s) p; p = blit 25 (st_operation s) p; p = blit 41 (st_recording s) p;
         p = put8 57 (st_phase s) p; p = put8 58 (st_reason s) p; p = put16 59 (st_flags s) p;
         p = put32 61 (st_epoch s) p; p = put32 65 (st_accepted s) p; p = put32 69 (st_committed s) p
     in put32 73 (st_admitted s) p)"

fun lc_encode_response ::
  "bool \<Rightarrow> bytes ptr \<Rightarrow> nat \<Rightarrow> lc_request ptr \<Rightarrow> lc_state ptr \<Rightarrow> lc_result \<times> bytes ptr" where
  "lc_encode_response portable out n r s =
    (if n \<noteq> 81 \<or> \<not> lc_separate out n r sizeof_lc_request \<or> \<not> lc_separate out n s sizeof_lc_state then (LC_ARGUMENT, out)
     else if \<not> lc_selected portable (pt r) (pt s) then (LC_INVALID, out)
     else (LC_OK, Ptr (addr out) (blit 0 (lc_response (pt r) (pt s)) (pt out))))"

definition lc_read_state :: "bytes \<Rightarrow> lc_state" where
  "lc_read_state p = \<lparr>st_boot = part 9 16 p, st_operation = part 25 16 p, st_recording = part 41 16 p,
     st_phase = p ! 57, st_reason = p ! 58, st_flags = get16 59 p, st_epoch = get32 61 p,
     st_accepted = get32 65 p, st_committed = get32 69 p, st_admitted = get32 73 p\<rparr>"

fun lc_parse_response ::
  "bool \<Rightarrow> bytes ptr \<Rightarrow> nat \<Rightarrow> lc_request ptr \<Rightarrow> lc_state ptr \<Rightarrow> lc_result \<times> lc_state ptr" where
  "lc_parse_response portable pp n rp out =
    (if n \<noteq> 81 \<or> \<not> lc_separate pp n out sizeof_lc_state \<or> \<not> lc_separate rp sizeof_lc_request out sizeof_lc_state
     then (LC_ARGUMENT, out)
     else let p = pt pp; r = pt rp in
       if p ! 0 \<noteq> 79 \<or> p ! 1 \<noteq> 80 \<or> p ! 2 \<noteq> 1 \<or> p ! 3 \<noteq> rq_command r OR 128 \<or> get16 4 p \<noteq> rq_sequence r \<or>
          get16 6 p \<noteq> 73 \<or> p ! 8 \<noteq> 0 \<or> \<not> zero (part 77 4 p) then (LC_INVALID, out)
       else let s = lc_read_state p in
         if \<not> lc_selected portable r s then (LC_INVALID, out) else (LC_OK, Ptr (addr out) s))"

definition lc_progress_bad :: "lc_state \<Rightarrow> lc_state \<Rightarrow> bool" where
  "lc_progress_bad a b \<longleftrightarrow> \<not> identity (st_operation a) \<or> st_boot a \<noteq> st_boot b \<or> st_operation a \<noteq> st_operation b \<or>
     (\<not> zero (st_recording a) \<and> st_recording a \<noteq> st_recording b) \<or>
     (st_flags a XOR st_flags b) AND LC_PORTABLE \<noteq> 0 \<or>
     (st_epoch a \<noteq> 0 \<and> st_epoch a \<noteq> st_epoch b) \<or> st_accepted a > st_accepted b \<or>
     st_committed a > st_committed b \<or> st_phase a > st_phase b \<or>
     (st_reason a \<noteq> 0 \<and> st_phase b \<noteq> LC_FAULT \<and> st_reason a \<noteq> st_reason b) \<or>
     (has (st_flags a) LC_SESSION_CREATED \<and> \<not> has (st_flags b) LC_SESSION_CREATED) \<or>
     (has (st_flags a) LC_CAPACITY_KNOWN \<and> (\<not> has (st_flags b) LC_CAPACITY_KNOWN \<or> st_admitted a \<noteq> st_admitted b)) \<or>
     (st_phase b = LC_NO_CAPACITY \<and> st_phase a \<noteq> LC_STARTING \<and> st_phase a \<noteq> LC_NO_CAPACITY) \<or>
     (st_phase b = LC_CANCELLED_BEFORE_START \<and> has (st_flags a) LC_SESSION_CREATED)"

definition lc_terminal_bad :: "lc_state \<Rightarrow> lc_state \<Rightarrow> bool" where
  "lc_terminal_bad a b \<longleftrightarrow> st_phase a \<ge> LC_STOPPED \<and>
     (st_phase a \<noteq> st_phase b \<or> st_reason a \<noteq> st_reason b \<or> st_epoch a \<noteq> st_epoch b \<or>
      st_accepted a \<noteq> st_accepted b \<or> st_committed a \<noteq> st_committed b \<or> st_admitted a \<noteq> st_admitted b \<or>
      (st_flags a XOR st_flags b) AND NOT LC_USB_PRESENT \<noteq> 0)"

definition lc_same_operation_progress :: "bool \<Rightarrow> lc_state ptr \<Rightarrow> lc_state ptr \<Rightarrow> lc_result" where
  "lc_same_operation_progress portable a b =
    (if lc_validate_state portable a \<noteq> LC_OK \<or> lc_validate_state portable b \<noteq> LC_OK then LC_INVALID
     else if lc_progress_bad (pt a) (pt b) then LC_INVALID
     else if lc_terminal_bad (pt a) (pt b) then LC_INVALID else LC_OK)"

declare lc_parse_request.simps [simp del] lc_encode_response.simps [simp del] lc_parse_response.simps [simp del]

section \<open>Frames\<close>

lemma length_lc_response [simp]: "length (lc_response r s) = 81"
  by (simp add: lc_response_def Let_def)

abbreviation lc_response_layout :: "nat list" where
  "lc_response_layout \<equiv> [1, 1, 1, 1, 2, 2, 1, 16, 16, 16, 1, 1, 2, 4, 4, 4, 4, 4]"

lemma lc_response_fields:
  assumes "wf_lc_state s"
  shows "lc_response r s ! 0 = 79" "lc_response r s ! 1 = 80" "lc_response r s ! 2 = 1"
    "lc_response r s ! 3 = rq_command r OR 128" "part 4 2 (lc_response r s) = le_bytes 2 (rq_sequence r)"
    "part 6 2 (lc_response r s) = le_bytes 2 (73::u16)" "lc_response r s ! 8 = 0"
    "part 9 16 (lc_response r s) = st_boot s" "part 25 16 (lc_response r s) = st_operation s"
    "part 41 16 (lc_response r s) = st_recording s" "lc_response r s ! 57 = st_phase s"
    "lc_response r s ! 58 = st_reason s" "part 59 2 (lc_response r s) = le_bytes 2 (st_flags s)"
    "part 61 4 (lc_response r s) = le_bytes 4 (st_epoch s)" "part 65 4 (lc_response r s) = le_bytes 4 (st_accepted s)"
    "part 69 4 (lc_response r s) = le_bytes 4 (st_committed s)" "part 73 4 (lc_response r s) = le_bytes 4 (st_admitted s)"
    "part 77 4 (lc_response r s) = replicate 4 0"
  using assms by (simp_all add: lc_response_def Let_def wire_defs wf_lc_state_def buf)

definition lc_response_frame :: "bytes \<Rightarrow> lc_request \<Rightarrow> bool" where
  "lc_response_frame p r \<longleftrightarrow> p ! 0 = 79 \<and> p ! 1 = 80 \<and> p ! 2 = 1 \<and> p ! 3 = rq_command r OR 128 \<and>
     get16 4 p = rq_sequence r \<and> get16 6 p = 73 \<and> p ! 8 = 0 \<and> zero (part 77 4 p)"

lemma lc_response_iff:
  assumes "wf_lc_state s" and "length p = 81"
  shows "lc_response_frame p r \<and> lc_read_state p = s \<longleftrightarrow> p = lc_response r s"
proof
  assume "lc_response_frame p r \<and> lc_read_state p = s"
  then have "same_fields 0 lc_response_layout p (lc_response r s)"
    using assms
    by (auto simp: lc_response_fields [OF assms(1)] lc_response_frame_def lc_read_state_def zero_iff part_1 get_eq_iff buf simp del: One_nat_def)
  then show "p = lc_response r s" by (rule eq_by_fields) (use assms in simp_all)
next
  assume p: "p = lc_response r s"
  then show "lc_response_frame p r \<and> lc_read_state p = s"
    using assms
    by (simp add: lc_response_frame_def lc_read_state_def get_eq_iff lc_response_fields del: One_nat_def)
qed

text \<open>The request frame as the peer writes it: the specification that the parser is compared with.\<close>

definition lc_request_frame :: "lc_request \<Rightarrow> bytes" where
  "lc_request_frame r =
    (let p = replicate 80 0;
         p = put8 0 79 p; p = put8 1 80 p; p = put8 2 1 p; p = put8 3 (rq_command r) p;
         p = put16 4 (rq_sequence r) p; p = put16 6 72 p; p = blit 8 (rq_boot r) p;
         p = blit 24 (rq_operation r) p; p = blit 40 (rq_binding r) p
     in put8 72 (rq_mode r) p)"

abbreviation lc_request_layout :: "nat list" where
  "lc_request_layout \<equiv> [1, 1, 1, 1, 2, 2, 16, 16, 32, 1, 7]"

lemma lc_request_frame_fields:
  assumes "wf_lc_request r"
  shows "lc_request_frame r ! 0 = 79" "lc_request_frame r ! 1 = 80" "lc_request_frame r ! 2 = 1"
    "lc_request_frame r ! 3 = rq_command r" "part 4 2 (lc_request_frame r) = le_bytes 2 (rq_sequence r)"
    "part 6 2 (lc_request_frame r) = le_bytes 2 (72::u16)" "part 8 16 (lc_request_frame r) = rq_boot r"
    "part 24 16 (lc_request_frame r) = rq_operation r" "part 40 32 (lc_request_frame r) = rq_binding r"
    "lc_request_frame r ! 72 = rq_mode r" "part 73 7 (lc_request_frame r) = replicate 7 0"
    "length (lc_request_frame r) = 80"
  using assms by (simp_all add: lc_request_frame_def Let_def wire_defs wf_lc_request_def buf)

lemma lc_request_iff:
  assumes "wf_lc_request r" and "length p = 80"
  shows "p ! 0 = 79 \<and> p ! 1 = 80 \<and> p ! 2 = 1 \<and> get16 6 p = 72 \<and> zero (part 73 7 p) \<and> lc_read_request p = r \<longleftrightarrow>
    p = lc_request_frame r" (is "?L \<longleftrightarrow> _")
proof
  assume ?L
  then have "same_fields 0 lc_request_layout p (lc_request_frame r)"
    using assms
    by (auto simp: lc_request_frame_fields [OF assms(1)] lc_read_request_def zero_iff part_1 get_eq_iff buf
        simp del: One_nat_def)
  then show "p = lc_request_frame r"
    by (rule eq_by_fields) (use assms in \<open>simp_all add: lc_request_frame_fields\<close>)
next
  assume p: "p = lc_request_frame r"
  then show ?L
    using assms by (simp add: lc_read_request_def get_eq_iff lc_request_frame_fields del: One_nat_def)
qed

lemma lc_read_wf: "length p = 80 \<Longrightarrow> wf_lc_request (lc_read_request p)" "length q = 81 \<Longrightarrow> wf_lc_state (lc_read_state q)"
  by (simp_all add: wf_lc_request_def lc_read_request_def wf_lc_state_def lc_read_state_def)

section \<open>Progress\<close>

definition lc_progress :: "bool \<Rightarrow> lc_state \<Rightarrow> lc_state \<Rightarrow> bool" where
  "lc_progress portable a b \<longleftrightarrow> lc_validate_body portable a = LC_OK \<and> lc_validate_body portable b = LC_OK \<and>
     \<not> lc_progress_bad a b \<and> \<not> lc_terminal_bad a b"

lemma lc_progress_iff:
  "lc_span (Ptr x a) sizeof_lc_state \<Longrightarrow> lc_span (Ptr y b) sizeof_lc_state \<Longrightarrow>
   lc_same_operation_progress portable (Ptr x a) (Ptr y b) = LC_OK \<longleftrightarrow> lc_progress portable a b"
  by (auto simp: lc_same_operation_progress_def lc_validate_state_def lc_progress_def)

lemma xor_mask_trans:
  assumes "(a XOR b) AND m = 0" and "(b XOR c) AND m = 0"
  shows "(a XOR c) AND m = (0 :: 'a::len word)"
proof (rule bit_word_eqI)
  fix n assume "n < LENGTH('a)"
  then show "bit ((a XOR c) AND m) n = bit 0 n"
    using arg_cong [OF assms(1), of "\<lambda>w. bit w n"] arg_cong [OF assms(2), of "\<lambda>w. bit w n"]
    by (auto simp: bit_and_iff bit_xor_iff)
qed

text \<open>An idle state names no operation, so a state with an operation is past IDLE.\<close>

lemma lc_idle_no_operation:
  "lc_validate_body portable s = LC_OK \<Longrightarrow> identity (st_operation s) \<Longrightarrow> st_phase s \<noteq> LC_IDLE"
  by (auto simp: lc_validate_body_def Let_def lc_check_def lc_idle_ok_def identity_not_zero split: if_splits)

lemma lc_phase_le: "lc_validate_body portable s = LC_OK \<Longrightarrow> st_phase s \<le> LC_FAULT"
  by (auto simp: lc_validate_body_def Let_def lc_shape_bad_def not_less split: if_splits)

lemma word_le_1: "(x :: u8) \<le> 1 \<Longrightarrow> x = 0 \<or> x = 1"
  by (auto simp: word_le_nat_alt word_unat_eq_iff)

lemma lc_starting_before:
  assumes "lc_validate_body portable a = LC_OK" and "identity (st_operation a)" and "st_phase a \<le> LC_STARTING"
  shows "st_phase a = LC_STARTING"
  using assms lc_idle_no_operation word_le_1 by blast

lemma lc_terminal_trans:
  assumes "\<not> lc_terminal_bad a b" and "\<not> lc_terminal_bad b c"
  shows "\<not> lc_terminal_bad a c"
  using assms xor_mask_trans [of "st_flags a" "st_flags b" "NOT LC_USB_PRESENT" "st_flags c"]
  by (auto simp: lc_terminal_bad_def)

lemma lc_progressD:
  assumes "lc_progress portable a b"
  shows "lc_validate_body portable a = LC_OK" "lc_validate_body portable b = LC_OK"
    "identity (st_operation a)" "st_boot a = st_boot b" "st_operation a = st_operation b"
    "zero (st_recording a) \<or> st_recording a = st_recording b"
    "(st_flags a XOR st_flags b) AND LC_PORTABLE = 0"
    "st_epoch a = 0 \<or> st_epoch a = st_epoch b" "st_accepted a \<le> st_accepted b" "st_committed a \<le> st_committed b"
    "st_phase a \<le> st_phase b" "st_reason a = 0 \<or> st_phase b = LC_FAULT \<or> st_reason a = st_reason b"
    "has (st_flags a) LC_SESSION_CREATED \<longrightarrow> has (st_flags b) LC_SESSION_CREATED"
    "has (st_flags a) LC_CAPACITY_KNOWN \<longrightarrow> has (st_flags b) LC_CAPACITY_KNOWN \<and> st_admitted a = st_admitted b"
    "st_phase b = LC_NO_CAPACITY \<longrightarrow> st_phase a = LC_STARTING \<or> st_phase a = LC_NO_CAPACITY"
    "st_phase b = LC_CANCELLED_BEFORE_START \<longrightarrow> \<not> has (st_flags a) LC_SESSION_CREATED"
    "\<not> lc_terminal_bad a b"
  using assms unfolding lc_progress_def lc_progress_bad_def by (simp_all add: not_less)

lemma lc_progressI:
  assumes "lc_validate_body portable a = LC_OK" "lc_validate_body portable b = LC_OK"
    "identity (st_operation a)" "st_boot a = st_boot b" "st_operation a = st_operation b"
    "zero (st_recording a) \<or> st_recording a = st_recording b"
    "(st_flags a XOR st_flags b) AND LC_PORTABLE = 0"
    "st_epoch a = 0 \<or> st_epoch a = st_epoch b" "st_accepted a \<le> st_accepted b" "st_committed a \<le> st_committed b"
    "st_phase a \<le> st_phase b" "st_reason a = 0 \<or> st_phase b = LC_FAULT \<or> st_reason a = st_reason b"
    "has (st_flags a) LC_SESSION_CREATED \<longrightarrow> has (st_flags b) LC_SESSION_CREATED"
    "has (st_flags a) LC_CAPACITY_KNOWN \<longrightarrow> has (st_flags b) LC_CAPACITY_KNOWN \<and> st_admitted a = st_admitted b"
    "st_phase b = LC_NO_CAPACITY \<longrightarrow> st_phase a = LC_STARTING \<or> st_phase a = LC_NO_CAPACITY"
    "st_phase b = LC_CANCELLED_BEFORE_START \<longrightarrow> \<not> has (st_flags a) LC_SESSION_CREATED"
    "\<not> lc_terminal_bad a b"
  shows "lc_progress portable a b"
  using assms unfolding lc_progress_def lc_progress_bad_def by (simp add: not_less)

lemma lc_progress_trans:
  assumes ab: "lc_progress portable a b" and bc: "lc_progress portable b c"
  shows "lc_progress portable a c"
proof (rule lc_progressI)
  note A = lc_progressD [OF ab] and C = lc_progressD [OF bc]
  show "lc_validate_body portable a = LC_OK" "lc_validate_body portable c = LC_OK"
    "identity (st_operation a)" "st_boot a = st_boot c" "st_operation a = st_operation c"
    using A(1,3,4,5) C(2,4,5) by simp_all
  show "zero (st_recording a) \<or> st_recording a = st_recording c" using A(6) C(6) by auto
  show "(st_flags a XOR st_flags c) AND LC_PORTABLE = 0" using A(7) C(7) by (rule xor_mask_trans)
  show "st_epoch a = 0 \<or> st_epoch a = st_epoch c" using A(8) C(8) by auto
  show "st_accepted a \<le> st_accepted c" "st_committed a \<le> st_committed c" "st_phase a \<le> st_phase c"
    using A(9,10,11) C(9,10,11) by (meson order_trans)+
  have "st_phase b = LC_FAULT \<Longrightarrow> st_phase c = LC_FAULT"
    using C(11) lc_phase_le [OF C(2)] by (metis order_antisym)
  then show "st_reason a = 0 \<or> st_phase c = LC_FAULT \<or> st_reason a = st_reason c" using A(12) C(12) by metis
  show "has (st_flags a) LC_SESSION_CREATED \<longrightarrow> has (st_flags c) LC_SESSION_CREATED" using A(13) C(13) by blast
  show "has (st_flags a) LC_CAPACITY_KNOWN \<longrightarrow> has (st_flags c) LC_CAPACITY_KNOWN \<and> st_admitted a = st_admitted c"
    using A(14) C(14) by simp
  have "st_phase b = LC_STARTING \<Longrightarrow> st_phase a = LC_STARTING"
    using A(11) lc_starting_before [OF A(1,3)] by simp
  then show "st_phase c = LC_NO_CAPACITY \<longrightarrow> st_phase a = LC_STARTING \<or> st_phase a = LC_NO_CAPACITY"
    using A(15) C(15) by blast
  show "st_phase c = LC_CANCELLED_BEFORE_START \<longrightarrow> \<not> has (st_flags a) LC_SESSION_CREATED" using A(13) C(16) by blast
  show "\<not> lc_terminal_bad a c" using A(17) C(17) by (rule lc_terminal_trans)
qed

lemma has_mono: "has f m \<Longrightarrow> m AND k = m \<Longrightarrow> has f k"
  unfolding has_def using and.assoc [of f k m] and.commute [of k m] by auto

lemma lc_cancelled_no_session:
  assumes "lc_validate_body portable s = LC_OK" and "st_phase s = LC_CANCELLED_BEFORE_START"
  shows "\<not> has (st_flags s) LC_SESSION_CREATED"
proof -
  have "lc_cancelled_ok s"
    using assms unfolding lc_validate_body_def Let_def lc_check_def by (simp split: if_split_asm)
  then have "\<not> has (st_flags s) (LC_MIC_ON OR LC_FINALIZED OR LC_SESSION_CREATED)" by (simp add: lc_cancelled_ok_def)
  then show ?thesis by (rule contrapos_nn) (erule has_mono, simp)
qed

lemma lc_progress_refl:
  "lc_validate_body portable a = LC_OK \<Longrightarrow> identity (st_operation a) \<Longrightarrow> lc_progress portable a a"
  by (rule lc_progressI) (auto simp: lc_terminal_bad_def dest: lc_cancelled_no_session)

lemma lc_history_progress:
  assumes "\<And>i. Suc i < length xs \<Longrightarrow> lc_progress portable (xs ! i) (xs ! Suc i)" and "i < j" and "j < length xs"
  shows "lc_progress portable (xs ! i) (xs ! j)"
  using assms(2,3)
proof (induction j)
  case 0
  then show ?case by simp
next
  case (Suc j)
  then show ?case using assms(1) [of j] lc_progress_trans by (cases "i = j") auto
qed

section \<open>Properties\<close>

text \<open>Claim C20.  Response parsing inverts encoding, in both directions and byte for byte: an 81-byte frame
  parses under a request to a state exactly when encoding that state for that request succeeds and
  produces that frame.  So no second frame parses to the same state, and no state that the encoder
  refuses is accepted by the parser.\<close>

theorem lc_response_roundtrip:
  assumes "wf_lc_state s" and "length p = 81" and "length out = 81"
    and "lc_separate (Ptr pa p) 81 (Ptr sa s0) sizeof_lc_state"
    and "lc_separate (Ptr ra r) sizeof_lc_request (Ptr sa s0) sizeof_lc_state"
    and "lc_separate (Ptr oa out) 81 (Ptr ra r) sizeof_lc_request"
    and "lc_separate (Ptr oa out) 81 (Ptr sb s) sizeof_lc_state"
  shows "lc_parse_response portable (Ptr pa p) 81 (Ptr ra r) (Ptr sa s0) = (LC_OK, Ptr sa s) \<longleftrightarrow>
         lc_encode_response portable (Ptr oa out) 81 (Ptr ra r) (Ptr sb s) = (LC_OK, Ptr oa p)"
proof -
  have "lc_parse_response portable (Ptr pa p) 81 (Ptr ra r) (Ptr sa s0) = (LC_OK, Ptr sa s) \<longleftrightarrow>
      lc_response_frame p r \<and> lc_read_state p = s \<and> lc_selected portable r s"
    using assms(4,5) by (auto simp: lc_parse_response.simps Let_def lc_response_frame_def)
  also have "\<dots> \<longleftrightarrow> p = lc_response r s \<and> lc_selected portable r s"
    using lc_response_iff [OF assms(1,2), of r] by blast
  also have "\<dots> \<longleftrightarrow> lc_encode_response portable (Ptr oa out) 81 (Ptr ra r) (Ptr sb s) = (LC_OK, Ptr oa p)"
    using assms(3,6,7) by (auto simp: lc_encode_response.simps blit_append)
  finally show ?thesis .
qed

definition demo_lc_request :: lc_request where
  "demo_lc_request = \<lparr>rq_boot = replicate 16 1, rq_operation = replicate 16 2, rq_binding = replicate 32 3,
     rq_sequence = 9, rq_command = LC_START, rq_mode = 1\<rparr>"

definition demo_lc_state :: lc_state where
  "demo_lc_state = \<lparr>st_boot = replicate 16 1, st_operation = replicate 16 2, st_recording = replicate 16 4,
     st_phase = LC_RUNNING, st_reason = 0, st_flags = 0x143, st_epoch = 5, st_accepted = 100, st_committed = 50,
     st_admitted = 1000\<rparr>"

lemma demo_lc_ok: "wf_lc_state demo_lc_state" "lc_request_valid demo_lc_request" "lc_validate_body False demo_lc_state = LC_OK"
  "lc_selected False demo_lc_request demo_lc_state" "wf_lc_request demo_lc_request"
proof -
  show v: "lc_validate_body False demo_lc_state = LC_OK"
    by (simp add: demo_lc_state_def lc_validate_body_def lc_shape_bad_def lc_button_bad_def has_def LC_FLAGS_MASK_def
        lc_check_def lc_running_ok_def)
  show r: "lc_request_valid demo_lc_request"
    by (simp add: demo_lc_request_def lc_request_valid_def)
  show "wf_lc_state demo_lc_state" "wf_lc_request demo_lc_request"
    by (simp_all add: demo_lc_state_def wf_lc_state_def demo_lc_request_def wf_lc_request_def)
  show "lc_selected False demo_lc_request demo_lc_state"
    using v r by (simp add: lc_selected_def) (simp add: demo_lc_state_def demo_lc_request_def)
qed

theorem lc_response_roundtrip_witness:
  "lc_parse_response False (Ptr 1000 (lc_response demo_lc_request demo_lc_state)) 81 (Ptr 2000 demo_lc_request)
     (Ptr 3000 demo_lc_state) = (LC_OK, Ptr 3000 demo_lc_state)"
  by (rule lc_response_roundtrip [of demo_lc_state "lc_response demo_lc_request demo_lc_state" "replicate 81 0" 1000 3000
        demo_lc_state 2000 demo_lc_request 4000 3000, THEN iffD2])
    (simp_all add: demo_lc_ok lc_separate_def UINTPTR_MAX_def lc_encode_response.simps blit_append)

text \<open>A request frame is accepted exactly when it is the canonical frame of a well-formed, valid
  request whose binding is the enrolled one and whose boot identity is zero (first contact) or the
  current boot; the request stored is that request.\<close>

theorem lc_request_canonical:
  assumes "length p = 80" and "length binding = 32" and "length boot = 16"
    and "lc_separate (Ptr pa p) 80 (Ptr oa r0) sizeof_lc_request"
    and "lc_separate (Ptr ba binding) 32 (Ptr oa r0) sizeof_lc_request"
    and "lc_separate (Ptr ka boot) 16 (Ptr oa r0) sizeof_lc_request"
  shows "lc_parse_request (Ptr pa p) 80 (Ptr ba binding) (Ptr ka boot) (Ptr oa r0) = (LC_OK, Ptr oa r) \<longleftrightarrow>
    wf_lc_request r \<and> lc_request_valid r \<and> identity boot \<and> rq_binding r = binding \<and>
    (zero (rq_boot r) \<or> rq_boot r = boot) \<and> p = lc_request_frame r"
proof -
  let ?F = "p ! 0 = 79 \<and> p ! 1 = 80 \<and> p ! 2 = 1 \<and> get16 6 p = 72 \<and> zero (part 73 7 p) \<and> lc_read_request p = r"
  let ?G = "lc_request_valid r \<and> identity boot \<and> rq_binding r = binding \<and> (zero (rq_boot r) \<or> rq_boot r = boot)"
  have v: "lc_request_valid r \<Longrightarrow> identity (rq_binding r)" by (auto simp: lc_request_valid_def split: if_splits)
  have "lc_parse_request (Ptr pa p) 80 (Ptr ba binding) (Ptr ka boot) (Ptr oa r0) = (LC_OK, Ptr oa r) \<longleftrightarrow>
      ?F \<and> identity binding \<and> ?G"
    using assms(4-6) by (auto simp: lc_parse_request.simps Let_def)
  also have "\<dots> \<longleftrightarrow> wf_lc_request r \<and> ?G \<and> p = lc_request_frame r"
    using v lc_request_iff [OF _ assms(1), of r] lc_read_wf(1) [OF assms(1)] by blast
  finally show ?thesis by blast
qed

theorem lc_request_canonical_witness:
  "lc_parse_request (Ptr 1000 (lc_request_frame demo_lc_request)) 80 (Ptr 2000 (replicate 32 3)) (Ptr 2100 (replicate 16 1))
     (Ptr 3000 demo_lc_request) = (LC_OK, Ptr 3000 demo_lc_request)"
  by (rule lc_request_canonical [THEN iffD2])
    (simp_all add: demo_lc_ok lc_request_frame_fields lc_separate_def UINTPTR_MAX_def,
      simp add: demo_lc_request_def)

text \<open>Claim C21.  Along a sequence of observations in which every adjacent pair passes the progress check,
  every earlier observation passes the check against every later one: accepted and committed frame
  counts never decrease, the phase never goes back, and once a terminal phase (STOPPED or later) has
  been observed the phase, reason, epoch and all counts stay the same for good.\<close>

theorem lc_history_frozen:
  assumes "lc_span (Ptr x ()) sizeof_lc_state" and "lc_span (Ptr y ()) sizeof_lc_state"
    and "\<forall>i. Suc i < length xs \<longrightarrow> lc_same_operation_progress portable (Ptr x (xs ! i)) (Ptr y (xs ! Suc i)) = LC_OK"
    and "i < j" and "j < length xs"
  shows "lc_same_operation_progress portable (Ptr x (xs ! i)) (Ptr y (xs ! j)) = LC_OK \<and>
    st_accepted (xs ! i) \<le> st_accepted (xs ! j) \<and> st_committed (xs ! i) \<le> st_committed (xs ! j) \<and>
    st_phase (xs ! i) \<le> st_phase (xs ! j) \<and> st_operation (xs ! i) = st_operation (xs ! j) \<and>
    (st_phase (xs ! i) \<ge> LC_STOPPED \<longrightarrow>
      st_phase (xs ! j) = st_phase (xs ! i) \<and> st_reason (xs ! j) = st_reason (xs ! i) \<and> st_epoch (xs ! j) = st_epoch (xs ! i) \<and>
      st_accepted (xs ! j) = st_accepted (xs ! i) \<and> st_committed (xs ! j) = st_committed (xs ! i) \<and>
      st_admitted (xs ! j) = st_admitted (xs ! i))"
proof -
  have *: "lc_same_operation_progress portable (Ptr x a) (Ptr y b) = LC_OK \<longleftrightarrow> lc_progress portable a b" for a b
    using assms(1,2) by (intro lc_progress_iff) simp_all
  have p: "lc_progress portable (xs ! i) (xs ! j)"
    using lc_history_progress [of xs portable i j] assms(3-5) by (simp add: *)
  show ?thesis using lc_progressD [OF p] p by (simp add: * lc_terminal_bad_def)
qed

theorem lc_history_frozen_witness:
  "lc_same_operation_progress False (Ptr 1000 demo_lc_state) (Ptr 2000 (demo_lc_state\<lparr>st_committed := 75\<rparr>)) = LC_OK"
proof -
  let ?b = "demo_lc_state\<lparr>st_committed := 75\<rparr>"
  have v: "lc_validate_body False ?b = LC_OK"
    by (simp add: demo_lc_state_def lc_validate_body_def lc_shape_bad_def lc_button_bad_def has_def LC_FLAGS_MASK_def
        lc_check_def lc_running_ok_def)
  have "lc_progress False demo_lc_state ?b"
    using demo_lc_ok(3) v by (simp add: lc_progress_def) (simp add: demo_lc_state_def lc_progress_bad_def lc_terminal_bad_def has_def)
  then have "lc_same_operation_progress False (Ptr 1000 demo_lc_state) (Ptr 2000 ?b) = LC_OK"
    by (subst lc_progress_iff) (simp_all add: UINTPTR_MAX_def)
  then show ?thesis
    using lc_history_frozen [of 1000 2000 "[demo_lc_state, ?b]" False 0 1] by (simp add: UINTPTR_MAX_def)
qed

end
