(* ===== verification/Durable_BLE.thy ===== *)
theory Durable_BLE
  imports Prelude
begin

text \<open>
  The durable-library protocol (\<open>durable_ble_codec.c\<close>): catalogue, manifest and segment reads, receive
  acknowledgements and deletes, each in a short and a full-chip form.  The group shows that request
  parsing accepts exactly one frame per valid request, that a paged read driven by the response codec
  reassembles the object byte for byte in finitely many requests, and that a catalogue page can only
  be built from strictly ordered, self-consistent entries and determines them.
\<close>

section \<open>Model\<close>

datatype db_result = DB_OK | DB_ARGUMENT | DB_INVALID

record db_request =
  dr_nonce :: bytes
  dr_recording :: bytes
  dr_operation :: bytes
  dr_sha256 :: bytes
  dr_revision :: u64
  dr_segment :: u32
  dr_container_bytes :: u32
  dr_offset :: u32
  dr_sequence :: u16
  dr_maximum :: u16
  dr_command :: u8

record db_volume =
  dv_device :: bytes
  dv_volume :: bytes
  dv_fingerprint :: bytes
  dv_generation :: u64

record db_catalog_entry =
  de_recording :: bytes
  de_manifest_sha256 :: bytes
  de_revision :: u64
  de_segments :: u32
  de_state :: u32

abbreviation DB_CATALOG :: u8 where "DB_CATALOG \<equiv> 0x30"
abbreviation DB_MANIFEST :: u8 where "DB_MANIFEST \<equiv> 0x31"
abbreviation DB_SEGMENT :: u8 where "DB_SEGMENT \<equiv> 0x32"
abbreviation DB_RECEIVE_ACK :: u8 where "DB_RECEIVE_ACK \<equiv> 0x33"
abbreviation DB_DELETE :: u8 where "DB_DELETE \<equiv> 0x34"
abbreviation DB_FULL_CATALOG :: u8 where "DB_FULL_CATALOG \<equiv> 0x38"
abbreviation DB_FULL_STREAM :: u8 where "DB_FULL_STREAM \<equiv> 0x3d"
abbreviation DB_FULL_RECEIVE_RANGE :: u8 where "DB_FULL_RECEIVE_RANGE \<equiv> 0x3e"
abbreviation DB_MAX_CONTAINER :: u32 where "DB_MAX_CONTAINER \<equiv> 34357"
abbreviation DB_FULL_MAX_SEGMENTS :: u32 where "DB_FULL_MAX_SEGMENTS \<equiv> 5120"
abbreviation sizeof_db_request :: nat where "sizeof_db_request \<equiv> 112"
abbreviation sizeof_db_volume :: nat where "sizeof_db_volume \<equiv> 72"
abbreviation sizeof_db_catalog_entry :: nat where "sizeof_db_catalog_entry \<equiv> 64"

fun db_span :: "'a ptr \<Rightarrow> nat \<Rightarrow> bool" where
  "db_span Null n = False"
| "db_span (Ptr a x) n = (n \<noteq> 0 \<and> a \<le> UINTPTR_MAX - (n - 1))"

definition db_separate :: "'a ptr \<Rightarrow> nat \<Rightarrow> 'b ptr \<Rightarrow> nat \<Rightarrow> bool" where
  "db_separate p n q m =
    (if \<not> db_span p n \<or> \<not> db_span q m then False
     else if addr p < addr q then addr q - addr p \<ge> n else addr p - addr q \<ge> m)"

definition durable_ble_is_full :: "u8 \<Rightarrow> bool" where
  "durable_ble_is_full c \<longleftrightarrow> c \<ge> DB_FULL_CATALOG \<and> c \<le> DB_FULL_RECEIVE_RANGE"

definition db_kind :: "u8 \<Rightarrow> u8" where
  "db_kind c = (if c = DB_FULL_RECEIVE_RANGE then DB_RECEIVE_ACK else if c = DB_FULL_STREAM then DB_SEGMENT
     else if durable_ble_is_full c then c - 8 else c)"

definition db_revision :: "u64 \<Rightarrow> bool \<Rightarrow> bool" where
  "db_revision v full \<longleftrightarrow> v \<le> (if full then 5120 * 4 + 2 else 130) \<and> v mod 4 \<le> 2"

definition db_container :: "u32 \<Rightarrow> bool" where
  "db_container n \<longleftrightarrow> n \<ge> 425 \<and> n \<le> DB_MAX_CONTAINER \<and> (n - 357) mod 68 = 0"

definition db_max_data :: "u8 \<Rightarrow> u32" where
  "db_max_data c = (if c = DB_FULL_STREAM then 4096 else if durable_ble_is_full c then 192 else 52)"

definition db_max_segments :: "u8 \<Rightarrow> u32" where
  "db_max_segments c = (if durable_ble_is_full c then DB_FULL_MAX_SEGMENTS else 32)"

definition db_max_catalog :: "bool \<Rightarrow> u32" where
  "db_max_catalog full = (if full then 128 + 64 * 32 else 640)"

definition db_page_ok :: "db_request \<Rightarrow> bool" where
  "db_page_ok r \<longleftrightarrow> dr_maximum r \<ge> 1 \<and> ucast (dr_maximum r) \<le> db_max_data (dr_command r)"

definition db_manifest_total :: "db_request \<Rightarrow> u64" where
  "db_manifest_total r = 128 + 64 * (dr_revision r div 4)"

text \<open>The switch of \<open>request_valid\<close>, one case per kind.\<close>

definition db_catalog_ok :: "db_request \<Rightarrow> bool" where
  "db_catalog_ok r \<longleftrightarrow> dr_offset r < db_max_catalog (durable_ble_is_full (dr_command r)) \<and> db_page_ok r \<and>
     all_eq (dr_recording r) 0 \<and> all_eq (dr_operation r) 0 \<and> all_eq (dr_sha256 r) 0 \<and> dr_revision r = 0 \<and>
     dr_segment r = 0 \<and> dr_container_bytes r = 0"

definition db_manifest_ok :: "db_request \<Rightarrow> bool" where
  "db_manifest_ok r \<longleftrightarrow> identity (dr_recording r) \<and> identity (dr_sha256 r) \<and>
     db_revision (dr_revision r) (durable_ble_is_full (dr_command r)) \<and>
     ucast (dr_offset r) < db_manifest_total r \<and> db_page_ok r \<and>
     all_eq (dr_operation r) 0 \<and> dr_segment r = 0 \<and> dr_container_bytes r = 0"

definition db_segment_ok :: "db_request \<Rightarrow> bool" where
  "db_segment_ok r \<longleftrightarrow> identity (dr_recording r) \<and> identity (dr_sha256 r) \<and>
     dr_segment r < db_max_segments (dr_command r) \<and> dr_offset r < DB_MAX_CONTAINER \<and> db_page_ok r \<and>
     all_eq (dr_operation r) 0 \<and> dr_revision r = 0 \<and> dr_container_bytes r = 0"

definition db_receive_ok :: "db_request \<Rightarrow> bool" where
  "db_receive_ok r \<longleftrightarrow> identity (dr_recording r) \<and> identity (dr_sha256 r) \<and>
     dr_segment r < db_max_segments (dr_command r) \<and>
     (if dr_command r = DB_FULL_RECEIVE_RANGE
      then dr_container_bytes r \<ge> 1 \<and> dr_container_bytes r \<le> 32 \<and>
           dr_container_bytes r \<le> db_max_segments (dr_command r) - dr_segment r
      else db_container (dr_container_bytes r)) \<and>
     all_eq (dr_operation r) 0 \<and> dr_revision r = 0 \<and> dr_offset r = 0 \<and> dr_maximum r = 0"

definition db_delete_ok :: "db_request \<Rightarrow> bool" where
  "db_delete_ok r \<longleftrightarrow> identity (dr_operation r) \<and> identity (dr_sha256 r) \<and> all_eq (dr_recording r) 0 \<and>
     dr_revision r = 0 \<and> dr_segment r = 0 \<and> dr_container_bytes r = 0 \<and> dr_offset r = 0 \<and> dr_maximum r = 0"

definition db_request_valid :: "db_request \<Rightarrow> bool" where
  "db_request_valid r =
    (if \<not> identity (dr_nonce r) \<or> dr_sequence r = 0 then False
     else let k = db_kind (dr_command r) in
       if k = DB_CATALOG then db_catalog_ok r
       else if k = DB_MANIFEST then db_manifest_ok r
       else if k = DB_SEGMENT then db_segment_ok r
       else if k = DB_RECEIVE_ACK then db_receive_ok r
       else if k = DB_DELETE then db_delete_ok r else False)"

definition db_zero_request :: db_request where
  "db_zero_request = \<lparr>dr_nonce = replicate 16 0, dr_recording = replicate 16 0, dr_operation = replicate 16 0,
     dr_sha256 = replicate 32 0, dr_revision = 0, dr_segment = 0, dr_container_bytes = 0, dr_offset = 0,
     dr_sequence = 0, dr_maximum = 0, dr_command = 0\<rparr>"

text \<open>The field reads of \<open>durable_ble_parse_request\<close> for each kind; \<open>None\<close> where a reserved byte is not
  zero.  \<open>p\<close> is the payload, \<open>extra\<close> the two bytes by which full frames are longer.\<close>

definition db_read_offset :: "bool \<Rightarrow> nat \<Rightarrow> bytes \<Rightarrow> u32" where
  "db_read_offset full off p = (if full then get32 off p else ucast (get16 off p))"

definition db_read_catalog :: "bool \<Rightarrow> bytes \<Rightarrow> db_request \<Rightarrow> db_request option" where
  "db_read_catalog full p r = (let extra = (if full then 2 else 0) in
     if p ! (19 + extra) \<noteq> 0 then None
     else Some (r\<lparr>dr_offset := db_read_offset full 16 p, dr_maximum := ucast (p ! (18 + extra))\<rparr>))"

definition db_read_manifest :: "bool \<Rightarrow> bytes \<Rightarrow> db_request \<Rightarrow> db_request option" where
  "db_read_manifest full p r = (let extra = (if full then 2 else 0) in
     if p ! (71 + extra) \<noteq> 0 then None
     else Some (r\<lparr>dr_recording := part 16 16 p, dr_revision := ucast (get32 32 p), dr_sha256 := part 36 32 p,
       dr_offset := db_read_offset full 68 p, dr_maximum := ucast (p ! (70 + extra))\<rparr>))"

definition db_read_segment :: "u8 \<Rightarrow> bytes \<Rightarrow> db_request \<Rightarrow> db_request option" where
  "db_read_segment wire p r = (let full = durable_ble_is_full wire; extra = (if full then 2 else 0) in
     if wire \<noteq> DB_FULL_STREAM \<and> p ! (39 + extra) \<noteq> 0 then None
     else Some (r\<lparr>dr_recording := part 16 16 p, dr_segment := get32 32 p, dr_offset := db_read_offset full 36 p,
       dr_maximum := (if wire = DB_FULL_STREAM then get16 40 p else ucast (p ! (38 + extra))),
       dr_sha256 := part (40 + extra) 32 p\<rparr>))"

definition db_read_receive :: "bytes \<Rightarrow> db_request \<Rightarrow> db_request option" where
  "db_read_receive p r = Some (r\<lparr>dr_recording := part 16 16 p, dr_segment := get32 32 p,
     dr_container_bytes := get32 36 p, dr_sha256 := part 40 32 p\<rparr>)"

definition db_read_delete :: "bytes \<Rightarrow> db_request \<Rightarrow> db_request option" where
  "db_read_delete p r = (if \<not> all_eq (part 64 8 p) 0 then None
     else Some (r\<lparr>dr_operation := part 16 16 p, dr_sha256 := part 32 32 p\<rparr>))"

definition db_expected :: "u8 \<Rightarrow> nat" where
  "db_expected wire = (if db_kind wire = DB_CATALOG then 20 else 72) +
     (if durable_ble_is_full wire \<and> db_kind wire \<le> DB_SEGMENT then 2 else 0)"

definition db_read_fields :: "bytes \<Rightarrow> db_request option" where
  "db_read_fields f = (let wire = f ! 3; k = db_kind wire; full = durable_ble_is_full wire; p = drop 8 f;
       r = db_zero_request\<lparr>dr_command := wire, dr_sequence := get16 4 f, dr_nonce := part 0 16 p\<rparr> in
     if k = DB_CATALOG then db_read_catalog full p r
     else if k = DB_MANIFEST then db_read_manifest full p r
     else if k = DB_SEGMENT then db_read_segment wire p r
     else if k = DB_RECEIVE_ACK then db_read_receive p r
     else db_read_delete p r)"

definition durable_ble_parse_request ::
  "bytes ptr \<Rightarrow> nat \<Rightarrow> db_request ptr \<Rightarrow> db_result \<times> db_request ptr" where
  "durable_ble_parse_request fp n out =
    (if n < 8 \<or> n > 82 \<or> \<not> db_separate fp n out sizeof_db_request then (DB_ARGUMENT, out)
     else let f = pt fp; wire = f ! 3; k = db_kind wire; payload = n - 8 in
       if \<not> durable_ble_is_full wire \<and> n > 80 then (DB_ARGUMENT, out)
       else if f ! 0 \<noteq> 79 \<or> f ! 1 \<noteq> 80 \<or> f ! 2 \<noteq> 1 \<or> unat (get16 6 f) \<noteq> payload \<or> k < DB_CATALOG \<or> k > DB_DELETE \<or>
          get16 4 f = 0 then (DB_INVALID, out)
       else if payload \<noteq> db_expected wire then (DB_INVALID, out)
       else case db_read_fields f of None \<Rightarrow> (DB_INVALID, out)
         | Some r \<Rightarrow> if \<not> db_request_valid r then (DB_INVALID, out) else (DB_OK, Ptr (addr out) r))"

section \<open>Responses\<close>

definition db_header :: "db_request \<Rightarrow> u16 \<Rightarrow> bytes \<Rightarrow> bytes" where
  "db_header r payload out =
    (let out = put8 0 79 out; out = put8 1 80 out; out = put8 2 1 out; out = put8 3 (dr_command r OR 0x80) out;
         out = put16 4 (dr_sequence r) out; out = put16 6 (payload + 1) out in put8 8 0 out)"

text \<open>The number of bytes a read response must carry.\<close>

definition db_wanted :: "db_request \<Rightarrow> u32 \<Rightarrow> nat" where
  "db_wanted r tot = (let remaining = unat tot - unat (dr_offset r);
       wanted = (if remaining < unat (dr_maximum r) then remaining else unat (dr_maximum r)) in
     if dr_command r = DB_FULL_STREAM \<and> wanted > 192 then 192 else wanted)"

definition db_read_bad :: "db_request \<Rightarrow> u32 \<Rightarrow> bool" where
  "db_read_bad r tot = (let full = durable_ble_is_full (dr_command r); k = db_kind (dr_command r) in
     \<not> db_request_valid r \<or> k < DB_CATALOG \<or> k > DB_SEGMENT \<or> dr_offset r \<ge> tot \<or> (\<not> full \<and> tot > 65535) \<or>
     (k = DB_CATALOG \<and> (tot < 128 \<or> tot > db_max_catalog full \<or> (tot - 128) mod 64 \<noteq> 0)) \<or>
     (k = DB_MANIFEST \<and> ucast tot \<noteq> db_manifest_total r) \<or>
     (k = DB_SEGMENT \<and> \<not> db_container tot))"

definition db_prefix :: "db_request \<Rightarrow> nat" where
  "db_prefix r = (if durable_ble_is_full (dr_command r) then 33 else 29)"

definition db_read_encode :: "db_request \<Rightarrow> u32 \<Rightarrow> bytes \<Rightarrow> bytes \<Rightarrow> bytes" where
  "db_read_encode r tot data out =
    (let prefix = db_prefix r;
         out = db_header r (of_nat (prefix - 9 + length data)) out;
         out = blit 9 (dr_nonce r) out;
         out = (if durable_ble_is_full (dr_command r) then put32 29 tot (put32 25 (dr_offset r) out)
                else put16 27 (ucast tot) (put16 25 (ucast (dr_offset r)) out))
     in blit prefix data out)"

fun durable_ble_read_response ::
  "bytes ptr \<Rightarrow> nat \<Rightarrow> db_request ptr \<Rightarrow> u32 \<Rightarrow> bytes ptr \<Rightarrow> nat \<Rightarrow> db_result \<times> bytes ptr" where
  "durable_ble_read_response out capacity Null tot data n = (DB_ARGUMENT, out)"
| "durable_ble_read_response out capacity (Ptr ra r) tot data n =
    (if n < 1 \<or> n > (if durable_ble_is_full (dr_command r) then 192 else 52) \<or> capacity \<noteq> db_prefix r + n \<or>
        \<not> db_separate out capacity (Ptr ra r) sizeof_db_request \<or> \<not> db_separate out capacity data n \<or>
        \<not> db_separate (Ptr ra r) sizeof_db_request data n then (DB_ARGUMENT, out)
     else if db_read_bad r tot then (DB_INVALID, out)
     else if n \<noteq> db_wanted r tot then (DB_INVALID, out)
     else (DB_OK, Ptr (addr out) (db_read_encode r tot (part 0 n (pt data)) (pt out))))"

definition durable_ble_receipt_response ::
  "bytes ptr \<Rightarrow> nat \<Rightarrow> db_request ptr \<Rightarrow> db_result \<times> bytes ptr" where
  "durable_ble_receipt_response out capacity rp =
    (if capacity \<noteq> 81 \<or> \<not> db_separate out capacity rp sizeof_db_request then (DB_ARGUMENT, out)
     else let r = pt rp in
       if \<not> db_request_valid r \<or> db_kind (dr_command r) \<noteq> DB_RECEIVE_ACK then (DB_INVALID, out)
       else (DB_OK, Ptr (addr out)
         (let o1 = db_header r 72 (pt out); o1 = blit 9 (dr_nonce r) o1; o1 = blit 25 (dr_recording r) o1;
              o1 = put32 41 (dr_segment r) o1; o1 = put32 45 (dr_container_bytes r) o1 in blit 49 (dr_sha256 r) o1)))"

definition durable_ble_delete_response ::
  "bytes ptr \<Rightarrow> nat \<Rightarrow> db_request ptr \<Rightarrow> u64 \<Rightarrow> u64 \<Rightarrow> db_result \<times> bytes ptr" where
  "durable_ble_delete_response out capacity rp original tombstone =
    (if capacity \<noteq> 81 \<or> \<not> db_separate out capacity rp sizeof_db_request then (DB_ARGUMENT, out)
     else let r = pt rp in
       if \<not> db_request_valid r \<or> db_kind (dr_command r) \<noteq> DB_DELETE \<or>
          \<not> db_revision original (durable_ble_is_full (dr_command r)) \<or> original mod 4 = 0 \<or>
          tombstone \<le> original \<or> tombstone > INT64_MAX then (DB_INVALID, out)
       else (DB_OK, Ptr (addr out)
         (let o1 = db_header r 72 (pt out); o1 = blit 9 (dr_nonce r) o1; o1 = blit 25 (dr_operation r) o1;
              o1 = blit 41 (dr_sha256 r) o1 in put64 73 tombstone o1)))"

section \<open>Catalogue\<close>

definition db_entry_ok :: "bool \<Rightarrow> db_catalog_entry \<Rightarrow> bool" where
  "db_entry_ok full e \<longleftrightarrow> identity (de_recording e) \<and> identity (de_manifest_sha256 e) \<and>
     de_segments e \<le> (if full then DB_FULL_MAX_SEGMENTS else 32) \<and> de_state e \<le> 2 \<and>
     de_revision e = ucast (de_segments e) * 4 + ucast (de_state e)"

text \<open>The checking loop: each entry, and its order against the one before it.\<close>

fun db_entries_ok :: "bool \<Rightarrow> db_catalog_entry list \<Rightarrow> bool" where
  "db_entries_ok full [] = True"
| "db_entries_ok full [e] = db_entry_ok full e"
| "db_entries_ok full (e # e' # es) =
     (if \<not> db_entry_ok full e \<or> \<not> mem_less (de_recording e) (de_recording e') then False
      else db_entries_ok full (e' # es))"

definition db_entry_encode :: "nat \<Rightarrow> db_catalog_entry \<Rightarrow> bytes \<Rightarrow> bytes" where
  "db_entry_encode at e out =
    (let out = blit at (de_recording e) out; out = put64 (at + 16) (de_revision e) out;
         out = put32 (at + 24) (de_segments e) out; out = put32 (at + 28) (de_state e) out
     in blit (at + 32) (de_manifest_sha256 e) out)"

fun db_entries_encode :: "nat \<Rightarrow> db_catalog_entry list \<Rightarrow> bytes \<Rightarrow> bytes" where
  "db_entries_encode at [] out = out"
| "db_entries_encode at (e # es) out = db_entries_encode (at + 64) es (db_entry_encode at e out)"

definition db_catalog_header :: "bool \<Rightarrow> db_volume \<Rightarrow> bytes \<Rightarrow> u64 \<Rightarrow> nat \<Rightarrow> bytes \<Rightarrow> bytes" where
  "db_catalog_header full v nonce snapshot count out =
    (let out = replicate (length out) 0;
         out = blit 0 (ascii (if full then ''OPNDCT2'' else ''OPNDCT1'')) out;
         out = put16 8 (if full then 2 else 1) out; out = put16 10 128 out; out = put16 12 64 out;
         out = blit 16 (dv_device v) out; out = blit 32 (dv_volume v) out; out = put64 48 (dv_generation v) out;
         out = blit 56 nonce out; out = put64 72 snapshot out; out = blit 80 (dv_fingerprint v) out;
         out = put32 112 (of_nat count) out
     in put32 116 2 out)"

definition catalog_build ::
  "bytes ptr \<Rightarrow> nat \<Rightarrow> db_volume ptr \<Rightarrow> bytes ptr \<Rightarrow> u64 \<Rightarrow> db_catalog_entry list ptr \<Rightarrow> nat \<Rightarrow> bool \<Rightarrow>
   db_result \<times> bytes ptr" where
  "catalog_build out capacity vp np snapshot ep count full =
    (let en = sizeof_db_catalog_entry * count in
     if count > (if full then 32 else 8) \<or> capacity \<noteq> 128 + 64 * count \<or>
        \<not> db_separate out capacity vp sizeof_db_volume \<or> \<not> db_separate out capacity np 16 \<or>
        \<not> db_separate vp sizeof_db_volume np 16 \<or>
        (count \<noteq> 0 \<and> (\<not> db_separate out capacity ep en \<or> \<not> db_separate vp sizeof_db_volume ep en \<or>
           \<not> db_separate np 16 ep en)) then (DB_ARGUMENT, out)
     else let v = pt vp; nonce = pt np; es = (if count = 0 then [] else take count (pt ep)) in
       if \<not> identity (dv_device v) \<or> \<not> identity (dv_volume v) \<or> \<not> identity (dv_fingerprint v) \<or> \<not> identity nonce \<or>
          dv_generation v = 0 \<or> dv_generation v > INT64_MAX \<or> snapshot = 0 \<or> snapshot > INT64_MAX then (DB_INVALID, out)
       else if \<not> db_entries_ok full es then (DB_INVALID, out)
       else (DB_OK, Ptr (addr out) (db_entries_encode 128 es (db_catalog_header full v nonce snapshot count (pt out)))))"

definition durable_ble_catalog_build ::
  "bytes ptr \<Rightarrow> nat \<Rightarrow> db_volume ptr \<Rightarrow> bytes ptr \<Rightarrow> u64 \<Rightarrow> db_catalog_entry list ptr \<Rightarrow> nat \<Rightarrow> db_result \<times> bytes ptr" where
  "durable_ble_catalog_build out capacity v nonce revision es count = catalog_build out capacity v nonce revision es count False"

definition durable_ble_catalog_build_full ::
  "bytes ptr \<Rightarrow> nat \<Rightarrow> db_volume ptr \<Rightarrow> bytes ptr \<Rightarrow> u64 \<Rightarrow> db_catalog_entry list ptr \<Rightarrow> nat \<Rightarrow> db_result \<times> bytes ptr" where
  "durable_ble_catalog_build_full out capacity v nonce revision es count = catalog_build out capacity v nonce revision es count True"

section \<open>Frames\<close>

lemma db_kind_simps [simp]:
  "db_kind 0x30 = 0x30" "db_kind 0x31 = 0x31" "db_kind 0x32 = 0x32" "db_kind 0x33 = 0x33" "db_kind 0x34 = 0x34"
  "db_kind 0x38 = 0x30" "db_kind 0x39 = 0x31" "db_kind 0x3a = 0x32" "db_kind 0x3b = 0x33" "db_kind 0x3c = 0x34"
  "db_kind 0x3d = 0x32" "db_kind 0x3e = 0x33"
  by (simp_all add: db_kind_def durable_ble_is_full_def)

lemma db_is_full_simps [simp]:
  "\<not> durable_ble_is_full 0x30" "\<not> durable_ble_is_full 0x31" "\<not> durable_ble_is_full 0x32" "\<not> durable_ble_is_full 0x33"
  "\<not> durable_ble_is_full 0x34" "durable_ble_is_full 0x38" "durable_ble_is_full 0x39" "durable_ble_is_full 0x3a"
  "durable_ble_is_full 0x3b" "durable_ble_is_full 0x3c" "durable_ble_is_full 0x3d" "durable_ble_is_full 0x3e"
  by (simp_all add: durable_ble_is_full_def)

lemma db_kind_iff:
  "db_kind c = 0x30 \<longleftrightarrow> c = 0x30 \<or> c = 0x38" "db_kind c = 0x31 \<longleftrightarrow> c = 0x31 \<or> c = 0x39"
  "db_kind c = 0x32 \<longleftrightarrow> c = 0x32 \<or> c = 0x3a \<or> c = 0x3d" "db_kind c = 0x33 \<longleftrightarrow> c = 0x33 \<or> c = 0x3b \<or> c = 0x3e"
  "db_kind c = 0x34 \<longleftrightarrow> c = 0x34 \<or> c = 0x3c"
  by (auto simp: db_kind_def durable_ble_is_full_def diff_eq_eq)

definition db_commands :: "u8 list" where
  "db_commands = [0x30, 0x31, 0x32, 0x33, 0x34, 0x38, 0x39, 0x3a, 0x3b, 0x3c, 0x3d, 0x3e]"

lemma word_between_48_52: "(0x30 :: u8) \<le> k \<Longrightarrow> k \<le> 0x34 \<Longrightarrow> k = 0x30 \<or> k = 0x31 \<or> k = 0x32 \<or> k = 0x33 \<or> k = 0x34"
  by (auto simp: word_le_nat_alt word_unat_eq_iff)

lemma db_kind_range: "db_kind c \<ge> DB_CATALOG \<Longrightarrow> db_kind c \<le> DB_DELETE \<Longrightarrow> c \<in> set db_commands"
  using word_between_48_52 [of "db_kind c"] by (auto simp: db_kind_iff db_commands_def)

lemma db_valid_command: "db_request_valid r \<Longrightarrow> dr_command r \<in> set db_commands"
  by (auto simp: db_request_valid_def Let_def db_kind_iff db_commands_def split: if_splits)

text \<open>The frame of a request, as the peer writes it.\<close>

definition db_put_offset :: "bool \<Rightarrow> nat \<Rightarrow> db_request \<Rightarrow> bytes \<Rightarrow> bytes" where
  "db_put_offset full at r f = (if full then put32 at (dr_offset r) f else put16 at (ucast (dr_offset r)) f)"

definition db_frame :: "db_request \<Rightarrow> bytes" where
  "db_frame r = (let c = dr_command r; k = db_kind c; full = durable_ble_is_full c; extra = (if full then 2 else 0);
       f = replicate (8 + db_expected c) 0; f = put8 0 79 f; f = put8 1 80 f; f = put8 2 1 f; f = put8 3 c f;
       f = put16 4 (dr_sequence r) f; f = put16 6 (of_nat (db_expected c)) f; f = blit 8 (dr_nonce r) f in
     if k = DB_CATALOG then put8 (26 + extra) (ucast (dr_maximum r)) (db_put_offset full 24 r f)
     else if k = DB_MANIFEST then
       let f = blit 24 (dr_recording r) f; f = put32 40 (ucast (dr_revision r)) f; f = blit 44 (dr_sha256 r) f
       in put8 (78 + extra) (ucast (dr_maximum r)) (db_put_offset full 76 r f)
     else if k = DB_SEGMENT then
       let f = blit 24 (dr_recording r) f; f = put32 40 (dr_segment r) f; f = db_put_offset full 44 r f;
           f = (if c = DB_FULL_STREAM then put16 48 (dr_maximum r) f else put8 (46 + extra) (ucast (dr_maximum r)) f)
       in blit (48 + extra) (dr_sha256 r) f
     else if k = DB_RECEIVE_ACK then
       let f = blit 24 (dr_recording r) f; f = put32 40 (dr_segment r) f; f = put32 44 (dr_container_bytes r) f
       in blit 48 (dr_sha256 r) f
     else let f = blit 24 (dr_operation r) f in blit 40 (dr_sha256 r) f)"

definition wf_db_request :: "db_request \<Rightarrow> bool" where
  "wf_db_request r \<longleftrightarrow> length (dr_nonce r) = 16 \<and> length (dr_recording r) = 16 \<and> length (dr_operation r) = 16 \<and>
     length (dr_sha256 r) = 32"

definition db_layout :: "u8 \<Rightarrow> nat list" where
  "db_layout c = [1, 1, 1, 1, 2, 2, 16] @
    (let k = db_kind c; full = durable_ble_is_full c; ow = (if full then 4 else 2) in
     if k = DB_CATALOG then [ow, 1, 1]
     else if k = DB_MANIFEST then [16, 4, 32, ow, 1, 1]
     else if k = DB_SEGMENT then (if c = DB_FULL_STREAM then [16, 4, 4, 2, 32] else [16, 4, ow, 1, 1, 32])
     else if k = DB_RECEIVE_ACK then [16, 4, 4, 32]
     else [16, 32, 8])"

lemma part_drop [buf]: "part a n (drop m f) = part (m + a) n f"
  by (simp add: part_def add.commute)

lemma get_drop [buf]: "get16 a (drop m f) = get16 (m + a) f" "get32 a (drop m f) = get32 (m + a) f"
  by (simp_all add: get16_def get32_def part_drop)

lemma ucast_down_up [simp]:
  "ucast (ucast (x :: u16) :: u32) = x" "ucast (ucast (b :: u8) :: u16) = b" "ucast (ucast (y :: u32) :: u64) = y"
  by (rule bit_word_eqI; simp add: bit_ucast_iff)+

lemma length_db_frame: "length (db_frame r) = 8 + db_expected (dr_command r)"
  by (simp add: db_frame_def Let_def db_put_offset_def)

lemmas db_read_defs = db_read_fields_def db_read_catalog_def db_read_manifest_def db_read_segment_def
  db_read_receive_def db_read_delete_def db_read_offset_def

text \<open>What the field reads return determines every byte of the frame.\<close>

definition db_frame_head :: "u8 \<Rightarrow> bytes \<Rightarrow> bool" where
  "db_frame_head c f \<longleftrightarrow> f ! 3 = c \<and> length f = 8 + db_expected c \<and> f ! 0 = 79 \<and> f ! 1 = 80 \<and> f ! 2 = 1 \<and>
     get16 6 f = of_nat (db_expected c)"

lemma replicate_one: "replicate 1 x = [x]"
  by simp

lemmas db_frame_eval = replicate_one db_frame_def db_put_offset_def Let_def wire_defs part_1 get_eq_iff buf db_layout_def

lemma db_commandE:
  assumes "c \<in> set db_commands"
  obtains "c = 0x30" | "c = 0x31" | "c = 0x32" | "c = 0x33" | "c = 0x34" | "c = 0x38" | "c = 0x39" | "c = 0x3a"
    | "c = 0x3b" | "c = 0x3c" | "c = 0x3d" | "c = 0x3e"
  using assms by (auto simp: db_commands_def)

lemma db_frame_same:
  assumes "c \<in> set db_commands" and "db_frame_head c f" and "db_read_fields f = Some r"
  shows "same_fields 0 (db_layout c) f (db_frame r)"
  using assms(1)
  by (rule db_commandE; insert assms(2,3); hypsubst;
      clarsimp simp: db_read_defs db_frame_head_def db_expected_def Let_def all_eq_iff simp del: One_nat_def
        split: if_split_asm;
      simp add: db_frame_eval db_expected_def del: One_nat_def)

lemma db_read_command: "db_read_fields f = Some r \<Longrightarrow> dr_command r = f ! 3"
  by (auto simp: db_read_defs Let_def split: if_split_asm)

lemma db_read_frame:
  assumes "c \<in> set db_commands" and "db_frame_head c f" and "db_read_fields f = Some r"
  shows "f = db_frame r"
proof (rule eq_by_fields [OF db_frame_same [OF assms]])
  have "dr_command r = c" using db_read_command [OF assms(3)] assms(2) by (simp add: db_frame_head_def)
  then show "length f = sum_list (db_layout c)" "length (db_frame r) = sum_list (db_layout c)"
    using assms(1,2) by (auto simp: db_commands_def db_layout_def db_expected_def length_db_frame db_frame_head_def)
qed

text \<open>Conversely every valid request is what its frame parses to: validity bounds the fields that the
  short form stores in fewer bits.\<close>

lemma ucast_up_down:
  "unat x < 65536 \<Longrightarrow> ucast (ucast (x :: u32) :: u16) = x"
  "unat y < 256 \<Longrightarrow> ucast (ucast (y :: u16) :: u8) = y"
  "unat z < 4294967296 \<Longrightarrow> ucast (ucast (z :: u64) :: u32) = z"
  by (simp_all add: word_unat_eq_iff unsigned_ucast_eq unsigned_take_bit_eq take_bit_nat_eq_self)

lemma unat_ucast_u16_u32 [simp]: "unat (ucast (x :: u16) :: u32) = unat x"
  using unsigned_less [of x, where ?'a = nat] by (simp add: unsigned_ucast_eq unsigned_take_bit_eq take_bit_nat_eq_self)

lemma db_validD:
  assumes "db_request_valid r"
  shows "identity (dr_nonce r)" "dr_sequence r \<noteq> 0"
    "db_kind (dr_command r) = DB_CATALOG \<Longrightarrow> db_catalog_ok r" "db_kind (dr_command r) = DB_MANIFEST \<Longrightarrow> db_manifest_ok r"
    "db_kind (dr_command r) = DB_SEGMENT \<Longrightarrow> db_segment_ok r" "db_kind (dr_command r) = DB_RECEIVE_ACK \<Longrightarrow> db_receive_ok r"
    "db_kind (dr_command r) = DB_DELETE \<Longrightarrow> db_delete_ok r"
  using assms unfolding db_request_valid_def Let_def by (simp_all split: if_split_asm)

lemma db_revision_le: "db_revision v full \<Longrightarrow> unat v \<le> (if full then 20482 else 130)"
  by (auto simp: db_revision_def word_le_nat_alt split: if_splits)

lemma unat_manifest_total:
  assumes "unat (dr_revision r) \<le> 20482"
  shows "unat (db_manifest_total r) = 128 + 64 * (unat (dr_revision r) div 4)"
  using assms by (simp add: db_manifest_total_def unat_word_ariths unat_div)

lemma db_valid_bounds:
  assumes "db_request_valid r" and "db_kind (dr_command r) \<in> {DB_CATALOG, DB_MANIFEST, DB_SEGMENT}"
  shows "\<not> durable_ble_is_full (dr_command r) \<Longrightarrow> unat (dr_offset r) < 65536"
    and "dr_command r \<noteq> DB_FULL_STREAM \<Longrightarrow> unat (dr_maximum r) < 256"
    and "unat (dr_revision r) < 4294967296"
    and "db_page_ok r"
proof -
  note v = db_validD [OF assms(1)]
  show p: "db_page_ok r"
    using assms(2) v by (auto simp: db_catalog_ok_def db_manifest_ok_def db_segment_ok_def)
  show "unat (dr_maximum r) < 256" if "dr_command r \<noteq> DB_FULL_STREAM"
    using p that by (auto simp: db_page_ok_def word_le_nat_alt db_max_data_def split: if_splits)
  show "unat (dr_revision r) < 4294967296"
    using assms(2) v db_revision_le [of "dr_revision r" "durable_ble_is_full (dr_command r)"]
    by (auto simp: db_catalog_ok_def db_manifest_ok_def db_segment_ok_def split: if_splits)
  show "unat (dr_offset r) < 65536" if "\<not> durable_ble_is_full (dr_command r)"
  proof -
    consider "db_catalog_ok r" | "db_manifest_ok r" | "db_segment_ok r" using assms(2) v by blast
    then show ?thesis
    proof cases
      case 2
      then have k: "unat (dr_revision r) \<le> 130" using that db_revision_le [of "dr_revision r" False] by (auto simp: db_manifest_ok_def)
      moreover have "unat (dr_offset r) < unat (db_manifest_total r)"
        using 2 by (simp add: db_manifest_ok_def word_less_nat_alt)
      ultimately show ?thesis using unat_manifest_total [of r] by simp
    qed (use that in \<open>auto simp: db_catalog_ok_def db_segment_ok_def db_max_catalog_def word_less_nat_alt\<close>)
  qed
qed

lemma db_zero_fields:
  assumes "db_request_valid r" and "wf_db_request r"
  shows "db_kind (dr_command r) = DB_CATALOG \<Longrightarrow> dr_recording r = replicate 16 0 \<and> dr_operation r = replicate 16 0 \<and>
      dr_sha256 r = replicate 32 0 \<and> dr_revision r = 0 \<and> dr_segment r = 0 \<and> dr_container_bytes r = 0"
    and "db_kind (dr_command r) = DB_MANIFEST \<Longrightarrow> dr_operation r = replicate 16 0 \<and> dr_segment r = 0 \<and> dr_container_bytes r = 0"
    and "db_kind (dr_command r) = DB_SEGMENT \<Longrightarrow> dr_operation r = replicate 16 0 \<and> dr_revision r = 0 \<and> dr_container_bytes r = 0"
    and "db_kind (dr_command r) = DB_RECEIVE_ACK \<Longrightarrow> dr_operation r = replicate 16 0 \<and> dr_revision r = 0 \<and> dr_offset r = 0 \<and>
      dr_maximum r = 0"
    and "db_kind (dr_command r) = DB_DELETE \<Longrightarrow> dr_recording r = replicate 16 0 \<and> dr_revision r = 0 \<and> dr_segment r = 0 \<and>
      dr_container_bytes r = 0 \<and> dr_offset r = 0 \<and> dr_maximum r = 0"
  using db_validD(3-7) [OF assms(1)] assms(2)
  by (simp_all add: db_catalog_ok_def db_manifest_ok_def db_segment_ok_def db_receive_ok_def db_delete_ok_def all_eq_iff
      wf_db_request_def)

lemma db_frame_head_frame:
  assumes "dr_command r = c" and "c \<in> set db_commands" and "wf_db_request r"
  shows "db_frame_head c (db_frame r)"
  using assms(2)
  by (rule db_commandE; insert assms(1,3); hypsubst;
      simp add: db_frame_head_def db_frame_eval db_expected_def wf_db_request_def del: One_nat_def)

lemma db_frame_reads:
  assumes "db_request_valid r" and "wf_db_request r"
  shows "db_read_fields (db_frame r) = Some r"
proof -
  note eval = db_read_defs db_frame_eval get16_def get32_def db_expected_def db_zero_request_def wf_db_request_def
  have cmd: "dr_command r \<in> set db_commands" using assms(1) by (rule db_valid_command)
  have wide: "ucast (ucast (dr_offset r) :: u16) = dr_offset r" if "\<not> durable_ble_is_full (dr_command r)"
      "db_kind (dr_command r) \<in> {DB_CATALOG, DB_MANIFEST, DB_SEGMENT}"
    using db_valid_bounds(1) [OF assms(1)] that by (simp add: ucast_up_down)
  have small: "ucast (ucast (dr_maximum r) :: u8) = dr_maximum r" if "dr_command r \<noteq> DB_FULL_STREAM"
      "db_kind (dr_command r) \<in> {DB_CATALOG, DB_MANIFEST, DB_SEGMENT}"
    using db_valid_bounds(2) [OF assms(1)] that by (simp add: ucast_up_down)
  have rev: "ucast (ucast (dr_revision r) :: u32) = dr_revision r" if "db_kind (dr_command r) = DB_MANIFEST"
    using db_valid_bounds(3) [OF assms(1)] that by (simp add: ucast_up_down)
  note z = db_zero_fields [OF assms]
  show ?thesis
    by (rule db_commandE [OF cmd]; insert z wide small rev assms(2); cases r; hypsubst_thin;
        simp add: eval del: One_nat_def)
qed

lemma db_read_wf:
  assumes "c \<in> set db_commands" and "db_frame_head c f" and "db_read_fields f = Some r"
  shows "wf_db_request r"
  using assms(1)
  by (rule db_commandE; insert assms(2,3); hypsubst;
      clarsimp simp: db_read_defs db_frame_head_def db_expected_def Let_def split: if_split_asm;
      simp add: wf_db_request_def db_zero_request_def)

lemma of_nat_eq_u16: "unat (x :: u16) = n \<longleftrightarrow> n < 65536 \<and> x = of_nat n"
  using unsigned_less [of x, where ?'a = nat] by (auto simp: unsigned_of_nat take_bit_nat_eq_self)

lemma db_expected_le: "db_expected c \<le> 74"
  by (simp add: db_expected_def)

section \<open>Paged reads\<close>

text \<open>The peer's read loop: ask for the bytes at the current offset, check that the response echoes the
  request's nonce, offset and total, append its data and go on behind it.  \<open>db_serve\<close> is one round on
  the device side, with the object's bytes as the back end supplies them.\<close>

definition db_serve :: "db_request \<Rightarrow> bytes \<Rightarrow> db_result \<times> bytes ptr" where
  "db_serve r obj = (let tot = of_nat (length obj); n = db_wanted r tot in
     durable_ble_read_response (Ptr 0x1000 (replicate (db_prefix r + n) 0)) (db_prefix r + n) (Ptr 0x2000 r) tot
       (Ptr 0x3000 (part (unat (dr_offset r)) n obj)) n)"

definition db_accepts :: "db_request \<Rightarrow> u32 \<Rightarrow> bytes \<Rightarrow> bool" where
  "db_accepts r tot page \<longleftrightarrow> length page > db_prefix r \<and> part 9 16 page = dr_nonce r \<and> page ! 3 = dr_command r OR 0x80 \<and>
     unat (get16 6 page) + 8 = length page \<and>
     (if durable_ble_is_full (dr_command r) then get32 25 page = dr_offset r \<and> get32 29 page = tot
      else ucast (get16 25 page) = dr_offset r \<and> ucast (get16 27 page) = tot)"

fun db_fetch :: "nat \<Rightarrow> db_request \<Rightarrow> bytes \<Rightarrow> bytes \<Rightarrow> bytes option" where
  "db_fetch 0 r obj got = None"
| "db_fetch (Suc fuel) r obj got =
    (if unat (dr_offset r) = length obj then Some got
     else case db_serve r obj of
       (DB_OK, Ptr a page) \<Rightarrow>
         if db_accepts r (of_nat (length obj)) page
         then db_fetch fuel (r\<lparr>dr_offset := dr_offset r + of_nat (length page - db_prefix r)\<rparr>) obj (got @ drop (db_prefix r) page)
         else None
     | _ \<Rightarrow> None)"

lemma word_between_48_50: "(0x30 :: u8) \<le> k \<Longrightarrow> k \<le> 0x32 \<Longrightarrow> k \<in> {0x30, 0x31, 0x32}"
  by (auto simp: word_le_nat_alt word_unat_eq_iff)

lemma db_readD:
  assumes "\<not> db_read_bad r tot"
  shows "db_request_valid r" "db_kind (dr_command r) \<in> {DB_CATALOG, DB_MANIFEST, DB_SEGMENT}" "dr_offset r < tot"
    "durable_ble_is_full (dr_command r) \<or> tot \<le> 65535"
    "db_kind (dr_command r) = DB_CATALOG \<Longrightarrow> tot \<le> db_max_catalog (durable_ble_is_full (dr_command r))"
    "db_kind (dr_command r) = DB_MANIFEST \<Longrightarrow> ucast tot = db_manifest_total r"
    "db_kind (dr_command r) = DB_SEGMENT \<Longrightarrow> db_container tot"
  using assms word_between_48_50 [of "db_kind (dr_command r)"] unfolding db_read_bad_def Let_def
  by (simp_all add: not_less not_le)

lemma db_valid_offset:
  assumes "\<not> db_read_bad r tot" and "x < tot"
  shows "\<not> db_read_bad (r\<lparr>dr_offset := x\<rparr>) tot"
proof -
  let ?r = "r\<lparr>dr_offset := x\<rparr>" and ?k = "db_kind (dr_command r)"
  note d = db_readD [OF assms(1)]
  note v = d(1) and t = d(5-7)
  have u: "(ucast x :: u64) < ucast tot" using assms(2) by (simp add: word_less_nat_alt)
  have "db_request_valid ?r"
  proof -
    have "db_catalog_ok ?r" if "?k = DB_CATALOG"
      using db_validD(3) [OF v that] t(1) [OF that] assms(2) by (auto simp: db_catalog_ok_def db_page_ok_def)
    moreover have "db_manifest_ok ?r" if "?k = DB_MANIFEST"
      using db_validD(4) [OF v that] t(2) [OF that] u by (auto simp: db_manifest_ok_def db_page_ok_def db_manifest_total_def)
    moreover have "db_segment_ok ?r" if "?k = DB_SEGMENT"
      using db_validD(5) [OF v that] t(3) [OF that] assms(2) by (auto simp: db_segment_ok_def db_page_ok_def db_container_def)
    ultimately show ?thesis using d(2) db_validD(1,2) [OF v] by (auto simp: db_request_valid_def)
  qed
  then show ?thesis using assms by (auto simp: db_read_bad_def Let_def db_manifest_total_def)
qed

lemma db_wanted_bounds:
  assumes "\<not> db_read_bad r tot"
  shows "1 \<le> db_wanted r tot" "db_wanted r tot \<le> (if durable_ble_is_full (dr_command r) then 192 else 52)"
    "unat (dr_offset r) + db_wanted r tot \<le> unat tot"
proof -
  note d = db_readD [OF assms]
  have o: "unat (dr_offset r) < unat tot" using d(3) by (simp add: word_less_nat_alt)
  have p: "db_page_ok r" by (rule db_valid_bounds(4) [OF d(1,2)])
  show "1 \<le> db_wanted r tot" "unat (dr_offset r) + db_wanted r tot \<le> unat tot"
    using p o by (auto simp: db_wanted_def Let_def db_page_ok_def word_le_nat_alt)
  show "db_wanted r tot \<le> (if durable_ble_is_full (dr_command r) then 192 else 52)"
    using p by (auto simp: db_wanted_def Let_def db_page_ok_def word_le_nat_alt db_max_data_def split: if_splits)
qed

lemma drop_blit_end: "off + length bs = length out \<Longrightarrow> drop off (blit off bs out) = bs"
  by (simp add: blit_append)

lemma length_db_read_encode [simp]: "length (db_read_encode r tot data out) = length out"
  by (simp add: db_read_encode_def db_header_def Let_def)

text \<open>One round: the page has the right length, is accepted and carries the wanted bytes.\<close>

lemma db_read_encode_page:
  fixes r data tot
  defines "page \<equiv> db_read_encode r tot data (replicate (db_prefix r + length data) 0)"
  assumes "\<not> db_read_bad r tot" and "length (dr_nonce r) = 16" and "data \<noteq> []" and "length data \<le> 192"
  shows "db_accepts r tot page" "drop (db_prefix r) page = data" "length page = db_prefix r + length data"
proof -
  show len: "length page = db_prefix r + length data" by (simp add: page_def)
  show "drop (db_prefix r) page = data"
    by (simp add: page_def db_read_encode_def db_header_def Let_def drop_blit_end)
  note d = db_readD [OF assms(2)]
  have short: "unat (dr_offset r) < 65536" "unat tot < 65536" if "\<not> durable_ble_is_full (dr_command r)"
    using d(3,4) that by (auto simp: word_less_nat_alt word_le_nat_alt)
  have n: "unat (of_nat (db_prefix r - 9 + length data) + 1 :: u16) = db_prefix r - 8 + length data"
    using assms(5) by (auto simp: db_prefix_def unat_word_ariths unsigned_of_nat take_bit_nat_eq_self)
  show "db_accepts r tot page"
  proof (cases "durable_ble_is_full (dr_command r)")
    case True
    then show ?thesis
      using assms(3-5) n
      by (simp add: db_accepts_def page_def db_read_encode_def db_header_def db_prefix_def Let_def wire_defs
          get16_def get32_def buf)
  next
    case False
    then show ?thesis
      using assms(3-5) n short
      by (simp add: db_accepts_def page_def db_read_encode_def db_header_def db_prefix_def Let_def wire_defs
          get16_def get32_def buf ucast_up_down)
  qed
qed

lemma db_serve_ok:
  assumes "\<not> db_read_bad r (of_nat (length obj))" and "length (dr_nonce r) = 16" and "length obj < 4294967296"
  obtains page n where "db_serve r obj = (DB_OK, Ptr 0x1000 page)" and "db_accepts r (of_nat (length obj)) page"
    and "drop (db_prefix r) page = part (unat (dr_offset r)) n obj" and "length page = db_prefix r + n"
    and "0 < n" and "unat (dr_offset r) + n \<le> length obj"
proof -
  let ?tot = "of_nat (length obj) :: u32" and ?n = "db_wanted r (of_nat (length obj))"
  let ?data = "part (unat (dr_offset r)) ?n obj"
  let ?page = "db_read_encode r ?tot ?data (replicate (db_prefix r + ?n) 0)"
  have tot: "unat ?tot = length obj" using assms(3) by (simp add: unsigned_of_nat take_bit_nat_eq_self)
  note b = db_wanted_bounds [OF assms(1), unfolded tot]
  have n: "?n \<le> 192" using b(2) by (auto split: if_splits)
  have len: "length ?data = ?n" using b(3) by simp
  have "db_serve r obj = (DB_OK, Ptr 0x1000 ?page)"
    using assms(1) b n len
    by (simp add: db_serve_def Let_def db_separate_def UINTPTR_MAX_def db_prefix_def part_all) (intro conjI impI; linarith)
  moreover have "?data \<noteq> []" using len b(1) by (metis list.size(3) not_one_le_zero)
  note pg = db_read_encode_page [OF assms(1,2) this, unfolded len, OF n]
  ultimately show thesis using that [of ?page ?n] pg b len by simp
qed

lemma db_fetch_all:
  assumes "length obj < 4294967296" and "length (dr_nonce r) = 16"
    and "\<not> db_read_bad (r\<lparr>dr_offset := 0\<rparr>) (of_nat (length obj))"
    and "unat (dr_offset r) \<le> length obj" and "length obj - unat (dr_offset r) < fuel"
  shows "db_fetch fuel r obj (take (unat (dr_offset r)) obj) = Some obj"
  using assms(2-5)
proof (induction fuel arbitrary: r)
  case 0
  then show ?case by simp
next
  case (Suc fuel)
  let ?o = "unat (dr_offset r)"
  show ?case
  proof (cases "?o = length obj")
    case True
    then show ?thesis by simp
  next
    case False
    have tot: "unat (of_nat (length obj) :: u32) = length obj"
      using assms(1) by (simp add: unsigned_of_nat take_bit_nat_eq_self)
    have "\<not> db_read_bad (r\<lparr>dr_offset := 0\<rparr>\<lparr>dr_offset := dr_offset r\<rparr>) (of_nat (length obj))"
      by (rule db_valid_offset [OF Suc.prems(2)]) (use False Suc.prems(3) tot in \<open>simp add: word_less_nat_alt\<close>)
    then have ok: "\<not> db_read_bad r (of_nat (length obj))" by simp
    obtain page n where p: "db_serve r obj = (DB_OK, Ptr 0x1000 page)" "db_accepts r (of_nat (length obj)) page"
        "drop (db_prefix r) page = part ?o n obj" "length page = db_prefix r + n" "0 < n" "?o + n \<le> length obj"
      using db_serve_ok [OF ok Suc.prems(1) assms(1)] by blast
    let ?r = "r\<lparr>dr_offset := dr_offset r + of_nat n\<rparr>"
    have o: "unat (dr_offset ?r) = ?o + n"
      using p(6) assms(1) by (simp add: unat_word_ariths unsigned_of_nat take_bit_nat_eq_self)
    have "db_fetch fuel ?r obj (take (?o + n) obj) = Some obj"
      using Suc.IH [of ?r] Suc.prems p(5,6) o by simp
    moreover have "take ?o obj @ part ?o n obj = take (?o + n) obj" by (simp add: part_def take_add)
    ultimately show ?thesis using False p by simp
  qed
qed

section \<open>Catalogue pages\<close>

definition wf_db_entry :: "db_catalog_entry \<Rightarrow> bool" where
  "wf_db_entry e \<longleftrightarrow> length (de_recording e) = 16 \<and> length (de_manifest_sha256 e) = 32"

text \<open>Reading a page back.\<close>

definition db_entry_at :: "bytes \<Rightarrow> nat \<Rightarrow> db_catalog_entry" where
  "db_entry_at page at = \<lparr>de_recording = part at 16 page, de_manifest_sha256 = part (at + 32) 32 page,
     de_revision = get64 (at + 16) page, de_segments = get32 (at + 24) page, de_state = get32 (at + 28) page\<rparr>"

definition db_catalog_entries :: "bytes \<Rightarrow> db_catalog_entry list" where
  "db_catalog_entries page = map (\<lambda>i. db_entry_at page (128 + 64 * i)) [0..<unat (get32 112 page)]"

lemma length_db_entry_encode [simp]: "length (db_entry_encode at e out) = length out"
  by (simp add: db_entry_encode_def Let_def)

lemma length_db_entries_encode [simp]: "length (db_entries_encode at es out) = length out"
  by (induction at es out rule: db_entries_encode.induct) simp_all

lemma part_entry_encode: "wf_db_entry e \<Longrightarrow> off + n \<le> at \<Longrightarrow> part off n (db_entry_encode at e out) = part off n out"
  by (simp add: db_entry_encode_def Let_def wire_defs wf_db_entry_def buf)

lemma part_entries_encode:
  "list_all wf_db_entry es \<Longrightarrow> off + n \<le> at \<Longrightarrow> part off n (db_entries_encode at es out) = part off n out"
  by (induction at es out rule: db_entries_encode.induct) (simp_all add: part_entry_encode)

lemma db_entry_at_cong: "part at 64 p = part at 64 q \<Longrightarrow> db_entry_at p at = db_entry_at q at"
proof -
  assume eq: "part at 64 p = part at 64 q"
  have "part (at + k) n p = part (at + k) n q" if "k + n \<le> 64" for k n
    using arg_cong [OF eq, of "part k n"] that by (simp add: part_part)
  from this [of 0 16] this [of 16 8] this [of 24 4] this [of 28 4] this [of 32 32] show ?thesis
    by (simp add: db_entry_at_def get32_def get64_def)
qed

lemma db_entry_at_encode:
  "wf_db_entry e \<Longrightarrow> at + 64 \<le> length out \<Longrightarrow> db_entry_at (db_entry_encode at e out) at = e"
  by (cases e) (simp add: db_entry_at_def db_entry_encode_def Let_def wire_defs wf_db_entry_def get32_def get64_def buf)

lemma db_entries_encode_at:
  assumes "list_all wf_db_entry es" and "at + 64 * length es \<le> length out" and "i < length es"
  shows "db_entry_at (db_entries_encode at es out) (at + 64 * i) = es ! i"
  using assms
proof (induction at es out arbitrary: i rule: db_entries_encode.induct)
  case (1 at out)
  then show ?case by simp
next
  case (2 at e es out)
  show ?case
  proof (cases i)
    case 0
    have "part at 64 (db_entries_encode (at + 64) es (db_entry_encode at e out)) = part at 64 (db_entry_encode at e out)"
      using 2 by (intro part_entries_encode) simp_all
    from db_entry_at_cong [OF this] show ?thesis using 2(2,3) 0 db_entry_at_encode [of e at out] by simp
  next
    case (Suc j)
    then show ?thesis using 2(1) [of j] 2(2-) by (simp add: add.assoc)
  qed
qed

lemma db_entries_ok_sorted:
  "db_entries_ok full es \<Longrightarrow> sorted_wrt mem_less (map de_recording es) \<and> list_all (db_entry_ok full) es"
proof (induction full es rule: db_entries_ok.induct)
  case (3 full e e' es)
  have ok: "db_entry_ok full e" "mem_less (de_recording e) (de_recording e')" "db_entries_ok full (e' # es)"
    using 3(2) by (simp_all only: db_entries_ok.simps split: if_split_asm) blast+
  then have ih: "sorted_wrt mem_less (map de_recording (e' # es))" "list_all (db_entry_ok full) (e' # es)"
    using 3(1) by blast+
  then have "\<forall>y\<in>set es. mem_less (de_recording e) (de_recording y)"
    using mem_less_trans [OF ok(2)] by simp
  then show ?case using ih ok(1,2) by simp
qed simp_all

section \<open>Properties\<close>

text \<open>Claim C22.  A request frame is accepted exactly when it is the canonical frame of a well-formed request
  that satisfies the rules of its command, and the request stored is that request: every byte of an
  accepted frame is determined, reserved bytes included, and every valid request has a frame.\<close>

theorem durable_request_canonical:
  assumes "length f = n" and "db_separate (Ptr fa f) n (Ptr oa r0) sizeof_db_request"
  shows "durable_ble_parse_request (Ptr fa f) n (Ptr oa r0) = (DB_OK, Ptr oa r) \<longleftrightarrow>
    wf_db_request r \<and> db_request_valid r \<and> f = db_frame r" (is "?P \<longleftrightarrow> ?Q")
proof
  assume p: ?P
  let ?c = "f ! 3"
  have k: "db_kind ?c \<ge> DB_CATALOG" "db_kind ?c \<le> DB_DELETE" and n: "8 \<le> n" "n - 8 = db_expected ?c"
    and h: "f ! 0 = 79" "f ! 1 = 80" "f ! 2 = 1" "unat (get16 6 f) = n - 8"
    and r: "db_read_fields f = Some r" "db_request_valid r"
    using p assms(2) unfolding durable_ble_parse_request_def Let_def
    by (simp_all del: One_nat_def split: if_split_asm option.split_asm add: not_less)
  have c: "?c \<in> set db_commands" using k by (rule db_kind_range)
  have "db_frame_head ?c f"
    using h n assms(1) of_nat_eq_u16 [of "get16 6 f" "n - 8"] by (simp add: db_frame_head_def del: One_nat_def)
  then show ?Q using db_read_frame [OF c _ r(1)] db_read_wf [OF c _ r(1)] r(2) by blast
next
  assume q: ?Q
  let ?c = "dr_command r"
  have c: "?c \<in> set db_commands" using q db_valid_command by blast
  have h: "db_frame_head ?c f" using db_frame_head_frame [OF refl c] q by simp
  have l: "n = 8 + db_expected ?c" "f ! 3 = ?c" using h assms(1) by (simp_all add: db_frame_head_def)
  have k: "db_kind ?c \<ge> DB_CATALOG" "db_kind ?c \<le> DB_DELETE" "durable_ble_is_full ?c \<or> n \<le> 80"
    using c l(1) by (auto simp: db_commands_def db_expected_def)
  have s: "unat (get16 6 f) = n - 8" using h l(1) db_expected_le [of ?c] of_nat_eq_u16 [of "get16 6 f" "n - 8"]
    by (simp add: db_frame_head_def)
  have rd: "db_read_fields f = Some r" using db_frame_reads q by blast
  then have "get16 4 f = dr_sequence r" by (auto simp: db_read_defs Let_def split: if_split_asm)
  then have sq: "get16 4 f \<noteq> 0" using q db_validD(2) by simp
  show ?P
    using h k l s sq rd q assms db_expected_le [of ?c]
    by (simp add: durable_ble_parse_request_def db_frame_head_def Let_def not_less del: One_nat_def)
qed

definition demo_db_request :: db_request where
  "demo_db_request = \<lparr>dr_nonce = replicate 16 7, dr_recording = replicate 16 0, dr_operation = replicate 16 0,
     dr_sha256 = replicate 32 0, dr_revision = 0, dr_segment = 0, dr_container_bytes = 0, dr_offset = 0,
     dr_sequence = 3, dr_maximum = 52, dr_command = DB_CATALOG\<rparr>"

lemma demo_db_ok: "wf_db_request demo_db_request" "db_request_valid demo_db_request" "\<not> db_read_bad demo_db_request 192"
  by (simp_all add: demo_db_request_def wf_db_request_def db_request_valid_def db_catalog_ok_def db_page_ok_def
      db_max_data_def db_max_catalog_def db_read_bad_def)

theorem durable_request_canonical_witness:
  "durable_ble_parse_request (Ptr 1000 (db_frame demo_db_request)) 28 (Ptr 2000 db_zero_request) =
     (DB_OK, Ptr 2000 demo_db_request)"
  using durable_request_canonical [of "db_frame demo_db_request" 28 1000 2000 db_zero_request demo_db_request] demo_db_ok
  by (simp add: length_db_frame db_separate_def UINTPTR_MAX_def) (simp add: demo_db_request_def db_expected_def)

text \<open>Claim C23.  Paged reading is complete: for any object whose first page request the device admits, the
  loop that follows each accepted response finishes within one round per byte and returns exactly
  the object; no round is refused, every response echoes nonce, offset and total, no byte is lost,
  repeated or reordered.\<close>

theorem durable_paged_read:
  assumes "\<not> db_read_bad r (of_nat (length obj))" and "wf_db_request r" and "dr_offset r = 0"
    and "length obj < 4294967296"
  shows "db_fetch (Suc (length obj)) r obj [] = Some obj"
proof -
  have "r\<lparr>dr_offset := 0\<rparr> = r" using assms(3) by (cases r) simp
  then have "\<not> db_read_bad (r\<lparr>dr_offset := 0\<rparr>) (of_nat (length obj))" using assms(1) by simp
  then show ?thesis
    using db_fetch_all [of obj r "Suc (length obj)"] assms(2-4) by (simp add: wf_db_request_def del: db_fetch.simps)
qed

theorem durable_paged_read_witness: "db_fetch 193 demo_db_request (replicate 192 5) [] = Some (replicate 192 5)"
proof -
  have "\<not> db_read_bad demo_db_request (of_nat (length (replicate 192 5 :: bytes)))" using demo_db_ok(3) by simp
  from durable_paged_read [OF this demo_db_ok(1)] show ?thesis by (simp add: demo_db_request_def del: db_fetch.simps)
qed

text \<open>A catalogue page that is built lists entries strictly increasing in their recording
  identity (so none is listed twice), each with a revision that agrees with its segment count and state,
  and the page determines the entries: reading it back gives exactly the list it was built from.\<close>

theorem durable_catalog_faithful:
  assumes "catalog_build (Ptr oa out) cap (Ptr va v) (Ptr na nonce) snap (Ptr ea es) count full = (DB_OK, Ptr oa page)"
    and "length out = cap" and "length es = count" and "list_all wf_db_entry es"
    and "length (dv_device v) = 16" and "length (dv_volume v) = 16" and "length (dv_fingerprint v) = 32" and "length nonce = 16"
  shows "sorted_wrt mem_less (map de_recording es) \<and> distinct (map de_recording es) \<and> list_all (db_entry_ok full) es \<and>
    db_catalog_entries page = es"
proof -
  have c: "count \<le> 32" "cap = 128 + 64 * count" and ok: "db_entries_ok full es"
    and page: "page = db_entries_encode 128 es (db_catalog_header full v nonce snap count out)"
    using assms(1,3) unfolding catalog_build_def Let_def
    by (auto split: if_split_asm)
  have "part 112 4 page = part 112 4 (db_catalog_header full v nonce snap count out)"
    using page assms(4) by (simp add: part_entries_encode)
  also have "\<dots> = le_bytes 4 (of_nat count :: u32)"
    using assms(2,5-8) c by (simp add: db_catalog_header_def Let_def wire_defs buf)
  finally have "unat (get32 112 page) = length es"
    using c(1) assms(3) by (simp add: get32_def unsigned_of_nat take_bit_nat_eq_self)
  moreover have "db_entry_at page (128 + 64 * i) = es ! i" if "i < length es" for i
    unfolding page using that assms(2-4) c by (intro db_entries_encode_at) (simp_all add: db_catalog_header_def Let_def)
  ultimately have "db_catalog_entries page = es"
    by (auto simp: db_catalog_entries_def intro!: nth_equalityI)
  then show ?thesis using db_entries_ok_sorted [OF ok] mem_less_sorted_distinct by blast
qed

definition demo_db_entry :: "u8 \<Rightarrow> db_catalog_entry" where
  "demo_db_entry k = \<lparr>de_recording = k # replicate 15 1, de_manifest_sha256 = replicate 32 9, de_revision = 13,
     de_segments = 3, de_state = 1\<rparr>"

definition demo_db_volume :: db_volume where
  "demo_db_volume = \<lparr>dv_device = replicate 16 1, dv_volume = replicate 16 2, dv_fingerprint = replicate 32 3, dv_generation = 1\<rparr>"

theorem durable_catalog_faithful_witness:
  "\<exists>page. durable_ble_catalog_build (Ptr 1000 (replicate 256 0)) 256 (Ptr 2000 demo_db_volume) (Ptr 3000 (replicate 16 7)) 1
      (Ptr 4000 [demo_db_entry 1, demo_db_entry 2]) 2 = (DB_OK, Ptr 1000 page) \<and>
     db_catalog_entries page = [demo_db_entry 1, demo_db_entry 2]"
proof -
  let ?es = "[demo_db_entry 1, demo_db_entry 2]"
  have "identity (k # replicate 15 1)" if "k = 1 \<or> k = 2" for k :: u8
  proof -
    have "replicate 16 x = x # replicate 15 x" for x :: u8 by (simp add: numeral_eq_Suc)
    then show ?thesis using that by (auto simp: identity_def all_eq_iff)
  qed
  then have e: "db_entries_ok False ?es" "list_all wf_db_entry ?es"
    by (simp_all add: demo_db_entry_def db_entry_ok_def wf_db_entry_def)
  obtain page where "catalog_build (Ptr 1000 (replicate 256 0)) 256 (Ptr 2000 demo_db_volume) (Ptr 3000 (replicate 16 7)) 1
      (Ptr 4000 ?es) 2 False = (DB_OK, Ptr 1000 page)"
    using e(1)
    by (simp add: catalog_build_def db_separate_def UINTPTR_MAX_def demo_db_volume_def del: db_entries_ok.simps)
  with durable_catalog_faithful [OF this] e(2) show ?thesis
    by (simp add: durable_ble_catalog_build_def demo_db_volume_def)
qed

end
