(* ===== verification/Manifest.thy ===== *)
theory Manifest
  imports Pipeline Owned_Page
begin

text \<open>
  Recording manifests (\<open>recording_manifest.c\<close>): the one-shot builder for the short layout, the streaming
  builder for the full-chip layout with its hash callbacks, and the incremental validator that the paged
  catalogue drives one segment at a time.  The hash engine and the segment reader of
  \<open>struct rm_stream_port\<close> are parameters: functions on an environment state.  The group shows that the
  incremental validator, driven in order, does exactly what the streaming builder does, and that a
  manifest is only produced for a gap-exact, non-overlapping timeline in distinct slots.
\<close>

section \<open>Model\<close>

datatype rm_result = RM_OK | RM_ARGUMENT | RM_INVALID | RM_HASH

record ros_record =
  ro_identity :: es_binding
  ro_first_sample :: u64
  ro_next_sample :: u64
  ro_committed_samples :: u64
  ro_present :: u32
  ro_finalized :: u32
  ro_interrupted :: u32
  ro_mode :: u32
  ro_segments :: u32
  ro_gaps :: u32
  ro_profile :: u32
  ro_blocked :: u32
  ro_completion :: rp_completion

record ros_segment =
  sg_identity :: es_binding
  sg_first_sample :: u64
  sg_next_sample :: u64
  sg_samples :: u64
  sg_root :: u32
  sg_slot :: u32
  sg_profile :: u32
  sg_gap :: u32
  sg_container_bytes :: u32
  sg_pages :: u32
  sg_digest :: bytes

abbreviation RLL_ROOTS :: u32 where "RLL_ROOTS \<equiv> 32"
abbreviation RLL_SLOTS :: u32 where "RLL_SLOTS \<equiv> 5120"
abbreviation ROS_ROOTS :: u32 where "ROS_ROOTS \<equiv> 8"
abbreviation ROS_SLOTS :: u32 where "ROS_SLOTS \<equiv> 32"
abbreviation sizeof_ros_record :: nat where "sizeof_ros_record \<equiv> 288"
abbreviation sizeof_ros_segment :: nat where "sizeof_ros_segment \<equiv> 176"
abbreviation sizeof_rm_incremental :: nat where "sizeof_rm_incremental \<equiv> 960"
abbreviation sizeof_rm_stream_port :: nat where "sizeof_rm_stream_port \<equiv> 24"

definition rm_overlap :: "nat \<Rightarrow> nat \<Rightarrow> nat \<Rightarrow> nat \<Rightarrow> bool" where
  "rm_overlap x an y bn \<longleftrightarrow> an > UINTPTR_MAX - x \<or> bn > UINTPTR_MAX - y \<or> (an \<noteq> 0 \<and> bn \<noteq> 0 \<and> x < y + bn \<and> y < x + an)"

fun ptr_addr :: "'a ptr \<Rightarrow> nat" where
  "ptr_addr Null = 0"
| "ptr_addr (Ptr a x) = a"

text \<open>The double loop over \<open>spans[]\<close> and \<open>sizes[]\<close>.\<close>

fun rm_spans_clash :: "(nat \<times> nat) list \<Rightarrow> bool" where
  "rm_spans_clash [] = False"
| "rm_spans_clash ((a, n) # ss) = (list_ex (\<lambda>(b, m). rm_overlap a n b m) ss \<or> rm_spans_clash ss)"

definition rm_put :: "nat \<Rightarrow> u64 \<Rightarrow> nat \<Rightarrow> bytes \<Rightarrow> bytes" where
  "rm_put off v n out = blit off (le_bytes n v) out"

definition rm_identity :: "es_binding \<Rightarrow> es_binding \<Rightarrow> bool" where
  "rm_identity a b \<longleftrightarrow> es_generation a = es_generation b \<and> es_key_fingerprint a = es_key_fingerprint b \<and>
     es_device_id a = es_device_id b \<and> es_volume_id a = es_volume_id b \<and> es_recording_id a = es_recording_id b"

text \<open>The guard on the record that all three builders share.\<close>

definition rm_record_bad :: "ros_record \<Rightarrow> bool" where
  "rm_record_bad r \<longleftrightarrow> ro_profile r \<noteq> 2 \<or> ro_mode r > 1 \<or> ro_blocked r > 1 \<or> ro_finalized r > 1 \<or> ro_interrupted r > 1 \<or>
     ro_finalized r + ro_interrupted r > 1 \<or> es_segment_sequence (ro_identity r) \<noteq> 0 \<or>
     es_plaintext_bytes (ro_identity r) \<noteq> 0 \<or> ro_first_sample r > INT64_MAX \<or> ro_next_sample r > INT64_MAX \<or>
     ro_next_sample r < ro_first_sample r \<or> ro_committed_samples r > INT64_MAX"

text \<open>\<open>check = r->identity; check.plaintext_bytes = 1; es_header_build(header, 128, &check)\<close>: both objects
  are locals, so only the binding itself decides the outcome.\<close>

definition rm_binding_ok :: "ros_record \<Rightarrow> bool" where
  "rm_binding_ok r \<longleftrightarrow> fst (es_header_build (Ptr 1000 (replicate 128 0)) 128
     (Ptr 2000 ((ro_identity r)\<lparr>es_plaintext_bytes := 1\<rparr>))) = ES_OK"

definition rm_flags :: "ros_record \<Rightarrow> u32" where
  "rm_flags r = ro_finalized r OR push_bit 1 (ro_interrupted r)"

text \<open>The header stores; \<open>full\<close> selects the tag and version of the streaming layout.\<close>

definition rm_header :: "bool \<Rightarrow> ros_record \<Rightarrow> u64 \<Rightarrow> u64 \<Rightarrow> bytes \<Rightarrow> bytes" where
  "rm_header full r count tot out =
    (let flags = ucast (rm_flags r);
         out = blit 0 (ascii (if full then ''OPNDMF2'' else ''OPNDMF1'')) out;
         out = rm_put 8 (if full then 2 else 1) 2 out; out = rm_put 10 128 2 out; out = rm_put 12 64 2 out;
         out = rm_put 14 flags 2 out;
         out = blit 16 (es_device_id (ro_identity r)) out; out = blit 32 (es_volume_id (ro_identity r)) out;
         out = rm_put 48 (es_generation (ro_identity r)) 8 out;
         out = blit 56 (es_recording_id (ro_identity r)) out; out = rm_put 72 (count * 4 + flags) 8 out;
         out = blit 80 (es_key_fingerprint (ro_identity r)) out; out = rm_put 112 count 4 out; out = rm_put 116 2 4 out
     in rm_put 120 tot 8 out)"

definition rm_entry :: "nat \<Rightarrow> u64 \<Rightarrow> ros_segment \<Rightarrow> bytes \<Rightarrow> bytes" where
  "rm_entry at i s out =
    (let out = rm_put at i 4 out; out = rm_put (at + 4) (ucast (sg_container_bytes s)) 4 out;
         out = rm_put (at + 8) (sg_first_sample s) 8 out; out = rm_put (at + 16) (sg_next_sample s) 8 out;
         out = rm_put (at + 24) (sg_samples s) 4 out; out = rm_put (at + 28) (ucast (sg_gap s)) 4 out
     in blit (at + 32) (sg_digest s) out)"

subsection \<open>One-shot builder\<close>

record rm_build_state =
  bs_total :: u64
  bs_next :: u64
  bs_gaps :: u32
  bs_root :: u32
  bs_slots :: u32

definition rm_gap :: "bool \<Rightarrow> u32" where "rm_gap b = (if b then 1 else 0)"

definition rm_container :: "u64 \<Rightarrow> u64" where "rm_container samples = 80 + (samples div 320 + 1) * 68 + 209"

definition rm_build_bad :: "ros_record \<Rightarrow> nat \<Rightarrow> ros_segment \<Rightarrow> rm_build_state \<Rightarrow> bool" where
  "rm_build_bad r i s c \<longleftrightarrow> \<not> rm_identity (ro_identity r) (sg_identity s) \<or>
     unat (es_segment_sequence (sg_identity s)) \<noteq> i \<or> sg_profile s \<noteq> 2 \<or>
     sg_root s \<ge> ROS_ROOTS \<or> sg_slot s \<ge> ROS_SLOTS \<or> sg_gap s > 1 \<or> sg_samples s = 0 \<or> sg_samples s > 160000 \<or>
     sg_samples s mod 320 \<noteq> 0 \<or> sg_first_sample s > INT64_MAX \<or> sg_next_sample s > INT64_MAX \<or>
     sg_first_sample s < bs_next c \<or> sg_next_sample s \<le> sg_first_sample s \<or>
     sg_next_sample s - sg_first_sample s \<noteq> sg_samples s \<or>
     sg_gap s \<noteq> rm_gap (sg_first_sample s > bs_next c) \<or> \<not> identity (sg_digest s) \<or>
     ucast (sg_container_bytes s) \<noteq> rm_container (sg_samples s) \<or>
     es_plaintext_bytes (sg_identity s) \<noteq> sg_container_bytes s - 209 \<or>
     sg_pages s \<noteq> (sg_container_bytes s + 2047) div 2048 \<or>
     bs_slots c AND push_bit (unat (sg_slot s)) 1 \<noteq> 0 \<or> (i \<noteq> 0 \<and> sg_root s \<noteq> bs_root c) \<or>
     bs_total c > INT64_MAX - sg_samples s"

fun rm_build_check :: "ros_record \<Rightarrow> nat \<Rightarrow> ros_segment list \<Rightarrow> rm_build_state \<Rightarrow> rm_build_state option" where
  "rm_build_check r i [] c = Some c"
| "rm_build_check r i (s # ss) c =
    (if rm_build_bad r i s c then None
     else rm_build_check r (Suc i) ss
       \<lparr>bs_total = bs_total c + sg_samples s, bs_next = sg_next_sample s, bs_gaps = bs_gaps c + sg_gap s,
        bs_root = sg_root s, bs_slots = bs_slots c OR push_bit (unat (sg_slot s)) 1\<rparr>)"

fun rm_entries :: "nat \<Rightarrow> ros_segment list \<Rightarrow> bytes \<Rightarrow> bytes" where
  "rm_entries i [] out = out"
| "rm_entries i (s # ss) out = rm_entries (Suc i) ss (rm_entry (128 + i * 64) (of_nat i) s out)"

text \<open>\<open>recording_manifest_build\<close> behind its argument guards: the result, the output and the digest.\<close>

definition rm_build_body ::
  "ros_record \<Rightarrow> ros_segment list \<Rightarrow> sha_provider \<Rightarrow> bytes \<Rightarrow> bytes \<Rightarrow> rm_result \<times> bytes \<times> bytes" where
  "rm_build_body r ss h out digest =
    (if ro_present r \<noteq> 1 \<or> unat (ro_segments r) \<noteq> length ss \<or> rm_record_bad r then (RM_INVALID, out, digest)
     else if \<not> rm_binding_ok r then (RM_INVALID, out, digest)
     else case rm_build_check r 0 ss \<lparr>bs_total = 0, bs_next = ro_first_sample r, bs_gaps = 0, bs_root = 0, bs_slots = 0\<rparr> of
       None \<Rightarrow> (RM_INVALID, out, digest)
     | Some c \<Rightarrow>
       if bs_total c \<noteq> ro_committed_samples r \<or> bs_next c \<noteq> ro_next_sample r \<or> bs_gaps c \<noteq> ro_gaps r
       then (RM_INVALID, out, digest)
       else let out = rm_entries 0 ss (rm_header False r (of_nat (length ss)) (bs_total c) (replicate (length out) 0));
                (rc, d, n) = h out in
         if rc \<noteq> 0 \<or> n \<noteq> 32 then (RM_HASH, replicate (length out) 0, replicate 32 0) else (RM_OK, out, blit 0 d digest))"

definition recording_manifest_build ::
  "bytes ptr \<Rightarrow> nat \<Rightarrow> bytes ptr \<Rightarrow> ros_record ptr \<Rightarrow> ros_segment list ptr \<Rightarrow> nat \<Rightarrow> hash_arg \<Rightarrow>
   rm_result \<times> bytes ptr \<times> bytes ptr" where
  "recording_manifest_build out n digest r segments count hash =
    (if out = Null \<or> digest = Null \<or> r = Null \<or> hash = Null \<or> hash_fn hash = None \<or> count > 32 \<or>
        (segments = Null \<and> count \<noteq> 0) \<or> n \<noteq> 128 + count * 64 then (RM_ARGUMENT, out, digest)
     else if rm_spans_clash [(ptr_addr out, n), (ptr_addr digest, 32), (ptr_addr r, sizeof_ros_record),
         (ptr_addr segments, count * sizeof_ros_segment), (ptr_addr hash, sizeof_hash)] then (RM_ARGUMENT, out, digest)
     else let (rc, o1, d1) = rm_build_body (pt r) (if count = 0 then [] else take count (pt segments))
            (the (hash_fn hash)) (pt out) (pt digest)
       in (rc, Ptr (addr out) o1, Ptr (addr digest) d1))"

subsection \<open>Full-chip entries\<close>

definition full_segment_valid :: "ros_segment \<Rightarrow> bool" where
  "full_segment_valid s \<longleftrightarrow> es_segment_sequence (sg_identity s) < RLL_SLOTS \<and> sg_root s < RLL_ROOTS \<and> sg_slot s < RLL_SLOTS \<and>
     sg_profile s = 2 \<and> sg_gap s \<le> 1 \<and> sg_samples s \<noteq> 0 \<and> sg_samples s \<le> 160000 \<and> sg_samples s mod 320 = 0 \<and>
     sg_first_sample s \<le> INT64_MAX \<and> sg_next_sample s \<le> INT64_MAX \<and> sg_next_sample s > sg_first_sample s \<and>
     sg_next_sample s - sg_first_sample s = sg_samples s \<and> identity (sg_digest s) \<and>
     ucast (sg_container_bytes s) = rm_container (sg_samples s) \<and>
     es_plaintext_bytes (sg_identity s) = sg_container_bytes s - 209 \<and>
     sg_pages s = (sg_container_bytes s + 2047) div 2048"

definition rm_entry_bytes :: "ros_segment \<Rightarrow> bytes \<Rightarrow> bytes" where
  "rm_entry_bytes s out = rm_entry 0 (ucast (es_segment_sequence (sg_identity s))) s out"

fun recording_manifest_entry :: "bytes ptr \<Rightarrow> ros_segment ptr \<Rightarrow> rm_result \<times> bytes ptr" where
  "recording_manifest_entry (Ptr oa out) (Ptr sa s) =
    (if rm_overlap oa 64 sa sizeof_ros_segment then (RM_ARGUMENT, Ptr oa out)
     else if \<not> full_segment_valid s then (RM_INVALID, Ptr oa out)
     else (RM_OK, Ptr oa (rm_entry_bytes s out)))"
| "recording_manifest_entry out s = (RM_ARGUMENT, out)"

text \<open>The slot bitmap \<open>slots[RLL_SLOTS/8]\<close>.\<close>

definition slot_used :: "bytes \<Rightarrow> u32 \<Rightarrow> bool" where
  "slot_used slots k \<longleftrightarrow> slots ! (unat k div 8) AND push_bit (unat k mod 8) 1 \<noteq> 0"

definition slot_mark :: "bytes \<Rightarrow> u32 \<Rightarrow> bytes" where
  "slot_mark slots k = slots[unat k div 8 := slots ! (unat k div 8) OR push_bit (unat k mod 8) 1]"

subsection \<open>Incremental validator\<close>

record rm_incremental =
  rm_record :: ros_record
  rm_slots :: bytes
  rm_total :: u64
  rm_next :: u64
  rm_count :: u32
  rm_gaps :: u32
  rm_root :: u32
  rm_state :: u32

definition rm_push_bad :: "rm_incremental \<Rightarrow> ros_segment \<Rightarrow> bool" where
  "rm_push_bad c s \<longleftrightarrow> \<not> rm_identity (ro_identity (rm_record c)) (sg_identity s) \<or>
     es_segment_sequence (sg_identity s) \<noteq> rm_count c \<or> \<not> full_segment_valid s \<or> sg_first_sample s < rm_next c \<or>
     sg_gap s \<noteq> rm_gap (sg_first_sample s > rm_next c) \<or> slot_used (rm_slots c) (sg_slot s) \<or>
     (rm_count c \<noteq> 0 \<and> sg_root s \<noteq> rm_root c) \<or> rm_total c > INT64_MAX - sg_samples s"

definition rm_push_accept :: "rm_incremental \<Rightarrow> ros_segment \<Rightarrow> rm_incremental" where
  "rm_push_accept c s = c\<lparr>rm_slots := slot_mark (rm_slots c) (sg_slot s), rm_root := sg_root s, rm_next := sg_next_sample s,
     rm_total := rm_total c + sg_samples s, rm_gaps := rm_gaps c + sg_gap s, rm_count := rm_count c + 1\<rparr>"

definition rm_fresh :: "ros_record \<Rightarrow> rm_incremental" where
  "rm_fresh r = \<lparr>rm_record = r, rm_slots = replicate 640 0, rm_total = 0, rm_next = ro_first_sample r, rm_count = 0,
     rm_gaps = 0, rm_root = 0, rm_state = 1\<rparr>"

definition rm_full_header :: "ros_record \<Rightarrow> bytes" where
  "rm_full_header r = rm_header True r (ucast (ro_segments r)) (ro_committed_samples r) (replicate 128 0)"

definition rm_start_bad :: "ros_record \<Rightarrow> bool" where
  "rm_start_bad r \<longleftrightarrow> ro_present r \<noteq> 1 \<or> ro_segments r > RLL_SLOTS \<or> rm_record_bad r"

fun recording_manifest_start ::
  "rm_incremental ptr \<Rightarrow> ros_record ptr \<Rightarrow> bytes ptr \<Rightarrow> rm_result \<times> rm_incremental ptr \<times> bytes ptr" where
  "recording_manifest_start (Ptr ca c) (Ptr ra r) (Ptr oa out) =
    (if rm_overlap ca sizeof_rm_incremental ra sizeof_ros_record \<or> rm_overlap ca sizeof_rm_incremental oa 128 \<or>
        rm_overlap ra sizeof_ros_record oa 128 \<or> rm_state c \<noteq> 0 then (RM_ARGUMENT, Ptr ca c, Ptr oa out)
     else if rm_start_bad r then (RM_INVALID, Ptr ca (c\<lparr>rm_state := 2\<rparr>), Ptr oa out)
     else if \<not> rm_binding_ok r then (RM_INVALID, Ptr ca (c\<lparr>rm_state := 2\<rparr>), Ptr oa out)
     else (RM_OK, Ptr ca (rm_fresh r), Ptr oa (blit 0 (rm_full_header r) out)))"
| "recording_manifest_start c r out = (RM_ARGUMENT, c, out)"

fun recording_manifest_push ::
  "rm_incremental ptr \<Rightarrow> ros_segment ptr \<Rightarrow> bytes ptr \<Rightarrow> rm_result \<times> rm_incremental ptr \<times> bytes ptr" where
  "recording_manifest_push (Ptr ca c) (Ptr sa s) (Ptr oa out) =
    (if rm_overlap ca sizeof_rm_incremental sa sizeof_ros_segment \<or> rm_overlap ca sizeof_rm_incremental oa 64 \<or>
        rm_overlap sa sizeof_ros_segment oa 64 then (RM_ARGUMENT, Ptr ca c, Ptr oa out)
     else if rm_state c \<noteq> 1 then (RM_INVALID, Ptr ca c, Ptr oa out)
     else if rm_count c \<ge> ro_segments (rm_record c) \<or> rm_push_bad c s
     then (RM_INVALID, Ptr ca (c\<lparr>rm_state := 2\<rparr>), Ptr oa out)
     else if \<not> full_segment_valid s then (RM_INVALID, Ptr ca (c\<lparr>rm_state := 2\<rparr>), Ptr oa out)
     else (RM_OK, Ptr ca (rm_push_accept c s), Ptr oa (blit 0 (rm_entry_bytes s (replicate 64 0)) out)))"
| "recording_manifest_push c s out = (RM_ARGUMENT, c, out)"

definition rm_finish_bad :: "rm_incremental \<Rightarrow> bool" where
  "rm_finish_bad c \<longleftrightarrow> rm_total c \<noteq> ro_committed_samples (rm_record c) \<or> rm_next c \<noteq> ro_next_sample (rm_record c) \<or>
     rm_gaps c \<noteq> ro_gaps (rm_record c)"

fun recording_manifest_finish :: "rm_incremental ptr \<Rightarrow> rm_result \<times> rm_incremental ptr" where
  "recording_manifest_finish Null = (RM_ARGUMENT, Null)"
| "recording_manifest_finish (Ptr ca c) =
    (if rm_state c \<noteq> 1 then (RM_INVALID, Ptr ca c)
     else if rm_count c \<noteq> ro_segments (rm_record c) \<or> rm_finish_bad c then (RM_INVALID, Ptr ca (c\<lparr>rm_state := 2\<rparr>))
     else (RM_OK, Ptr ca (c\<lparr>rm_state := 3\<rparr>)))"

text \<open>\<open>wipe(c, sizeof( *c))\<close>: every field of the context reads as zero.\<close>

definition es_zero :: es_binding where
  "es_zero = \<lparr>es_key_fingerprint = replicate 32 0, es_device_id = replicate 16 0, es_volume_id = replicate 16 0,
     es_recording_id = replicate 16 0, es_generation = 0, es_segment_sequence = 0, es_plaintext_bytes = 0\<rparr>"

definition ros_record_zero :: ros_record where
  "ros_record_zero = \<lparr>ro_identity = es_zero, ro_first_sample = 0, ro_next_sample = 0, ro_committed_samples = 0,
     ro_present = 0, ro_finalized = 0, ro_interrupted = 0, ro_mode = 0, ro_segments = 0, ro_gaps = 0, ro_profile = 0,
     ro_blocked = 0, ro_completion = \<lparr>cp_session = es_zero, cp_mode = 0, cp_reason = RP_REASON_NONE, cp_segments = 0,
       cp_gaps = 0, cp_captured_samples = 0, cp_committed_samples = 0, cp_next_sample = 0\<rparr>\<rparr>"

definition rm_cleared :: rm_incremental where
  "rm_cleared = (rm_fresh ros_record_zero)\<lparr>rm_state := 0\<rparr>"

fun recording_manifest_clear :: "rm_incremental ptr \<Rightarrow> rm_incremental ptr" where
  "recording_manifest_clear Null = Null"
| "recording_manifest_clear (Ptr ca c) = Ptr ca rm_cleared"

subsection \<open>Streaming builder\<close>

record 'e rm_stream_port =
  po_begin :: "('e \<Rightarrow> int \<times> 'e) option"
  po_update :: "(bytes \<Rightarrow> 'e \<Rightarrow> int \<times> 'e) option"
  po_finish :: "('e \<Rightarrow> int \<times> bytes \<times> 'e) option"
  po_abort :: "('e \<Rightarrow> 'e) option"
  po_segment :: "(u32 \<Rightarrow> 'e \<Rightarrow> int \<times> ros_segment \<times> 'e) option"

definition rm_port_complete :: "'e rm_stream_port \<Rightarrow> bool" where
  "rm_port_complete p \<longleftrightarrow> po_begin p \<noteq> None \<and> po_update p \<noteq> None \<and> po_finish p \<noteq> None \<and> po_abort p \<noteq> None \<and> po_segment p \<noteq> None"

text \<open>The loop over the segments.  Its locals \<open>slots\<close>, \<open>total\<close>, \<open>next\<close>, \<open>gaps\<close>, \<open>root\<close> and \<open>i\<close> are the fields of
  \<open>rm_incremental\<close>, so the loop is written on that record; \<open>left\<close> is \<open>r->segments - i\<close>.\<close>

fun rm_stream_loop :: "'e rm_stream_port \<Rightarrow> nat \<Rightarrow> rm_incremental \<Rightarrow> 'e \<Rightarrow> rm_result \<times> rm_incremental \<times> 'e" where
  "rm_stream_loop p 0 c e = (RM_OK, c, e)"
| "rm_stream_loop p (Suc left) c e =
    (let (rc, s, e) = the (po_segment p) (rm_count c) e in
     if rc \<noteq> 0 \<or> rm_push_bad c s then (RM_INVALID, c, e)
     else let c = rm_push_accept c s in
       if \<not> full_segment_valid s then (RM_INVALID, c, e)
       else let (rc, e) = the (po_update p) (rm_entry_bytes s (replicate 64 0)) e in
         if rc \<noteq> 0 then (RM_HASH, c, e) else rm_stream_loop p left c e)"

definition rm_stream_run :: "'e rm_stream_port \<Rightarrow> ros_record \<Rightarrow> 'e \<Rightarrow> rm_result \<times> bytes \<times> 'e" where
  "rm_stream_run p r e =
    (let (rc, e) = the (po_begin p) e in
     if rc \<noteq> 0 then (RM_HASH, [], e)
     else let (rc, e) = the (po_update p) (rm_full_header r) e in
     if rc \<noteq> 0 then (RM_HASH, [], e)
     else let (res, c, e) = rm_stream_loop p (unat (ro_segments r)) (rm_fresh r) e in
     if res \<noteq> RM_OK then (res, [], e)
     else if rm_finish_bad c then (RM_INVALID, [], e)
     else let (rc, sum, e) = the (po_finish p) e in
     if rc \<noteq> 0 then (RM_HASH, [], e) else (RM_OK, sum, e))"

fun recording_manifest_stream ::
  "bytes ptr \<Rightarrow> bytes ptr \<Rightarrow> ros_record ptr \<Rightarrow> 'e rm_stream_port ptr \<Rightarrow> 'e \<Rightarrow> rm_result \<times> bytes ptr \<times> bytes ptr \<times> 'e" where
  "recording_manifest_stream (Ptr oa out) (Ptr da digest) (Ptr ra r) (Ptr pa p) e =
    (if \<not> rm_port_complete p then (RM_ARGUMENT, Ptr oa out, Ptr da digest, e)
     else if rm_spans_clash [(oa, 128), (da, 32), (ra, sizeof_ros_record), (pa, sizeof_rm_stream_port)]
     then (RM_ARGUMENT, Ptr oa out, Ptr da digest, e)
     else if rm_start_bad r \<or> \<not> rm_binding_ok r then (RM_INVALID, Ptr oa out, Ptr da digest, e)
     else let (res, sum, e) = rm_stream_run p r e; e = the (po_abort p) e in
       if res = RM_OK then (RM_OK, Ptr oa (blit 0 (rm_full_header r) out), Ptr da (blit 0 sum digest), e)
       else (res, Ptr oa out, Ptr da digest, e))"
| "recording_manifest_stream out digest r p e = (RM_ARGUMENT, out, digest, e)"

section \<open>The streaming builder and the incremental validator agree\<close>

text \<open>The incremental validator driven as the paged catalogue drives it: start, then for every sequence
  number read the segment, push it and hash the entry, then finish.  \<open>ca\<close>, \<open>sa\<close> and \<open>ba\<close> are the
  addresses of the context, the segment and the staging buffer.\<close>

fun rm_drive :: "nat \<Rightarrow> nat \<Rightarrow> nat \<Rightarrow> 'e rm_stream_port \<Rightarrow> nat \<Rightarrow> rm_incremental \<Rightarrow> 'e \<Rightarrow> rm_result \<times> rm_incremental \<times> 'e" where
  "rm_drive ca sa ba p 0 c e = (RM_OK, c, e)"
| "rm_drive ca sa ba p (Suc left) c e =
    (let (rc, s, e) = the (po_segment p) (rm_count c) e in
     if rc \<noteq> 0 then (RM_INVALID, c, e)
     else let (res, cp, op) = recording_manifest_push (Ptr ca c) (Ptr sa s) (Ptr ba (replicate 64 0)) in
       if res \<noteq> RM_OK then (res, pt cp, e)
       else let (rc, e) = the (po_update p) (pt op) e in
         if rc \<noteq> 0 then (RM_HASH, pt cp, e) else rm_drive ca sa ba p left (pt cp) e)"

definition rm_drive_run ::
  "nat \<Rightarrow> nat \<Rightarrow> nat \<Rightarrow> 'e rm_stream_port \<Rightarrow> ros_record \<Rightarrow> rm_incremental \<Rightarrow> bytes \<Rightarrow> 'e \<Rightarrow> rm_result \<times> bytes \<times> 'e" where
  "rm_drive_run ca sa ba p r c header e =
    (let (rc, e) = the (po_begin p) e in
     if rc \<noteq> 0 then (RM_HASH, [], e)
     else let (rc, e) = the (po_update p) header e in
     if rc \<noteq> 0 then (RM_HASH, [], e)
     else let (res, c, e) = rm_drive ca sa ba p (unat (ro_segments r)) c e in
     if res \<noteq> RM_OK then (res, [], e)
     else let (res, cp) = recording_manifest_finish (Ptr ca c) in
     if res \<noteq> RM_OK then (res, [], e)
     else let (rc, sum, e) = the (po_finish p) e in
     if rc \<noteq> 0 then (RM_HASH, [], e) else (RM_OK, sum, e))"

definition rm_incremental_run ::
  "nat \<Rightarrow> nat \<Rightarrow> nat \<Rightarrow> nat \<Rightarrow> 'e rm_stream_port \<Rightarrow> rm_incremental \<Rightarrow> ros_record \<Rightarrow> 'e \<Rightarrow> rm_result \<times> bytes \<times> bytes \<times> 'e" where
  "rm_incremental_run ca ra sa ba p c0 r e =
    (let (res, cp, hp) = recording_manifest_start (Ptr ca c0) (Ptr ra r) (Ptr ba (replicate 128 0)) in
     if res \<noteq> RM_OK then (res, [], [], e)
     else let (res, sum, e) = rm_drive_run ca sa ba p r (pt cp) (pt hp) e; e = the (po_abort p) e
       in if res = RM_OK then (RM_OK, pt hp, sum, e) else (res, [], [], e))"

definition rm_apart :: "nat \<Rightarrow> nat \<Rightarrow> nat \<Rightarrow> nat \<Rightarrow> bool" where
  "rm_apart ca ra sa ba \<longleftrightarrow> \<not> rm_overlap ca sizeof_rm_incremental ra sizeof_ros_record \<and>
     \<not> rm_overlap ca sizeof_rm_incremental sa sizeof_ros_segment \<and> \<not> rm_overlap ca sizeof_rm_incremental ba 128 \<and>
     \<not> rm_overlap ca sizeof_rm_incremental ba 64 \<and> \<not> rm_overlap ra sizeof_ros_record ba 128 \<and>
     \<not> rm_overlap sa sizeof_ros_segment ba 64"

lemma rm_accept_simps [simp]:
  "rm_state (rm_push_accept c s) = rm_state c" "rm_record (rm_push_accept c s) = rm_record c"
  "rm_count (rm_push_accept c s) = rm_count c + 1"
  by (simp_all add: rm_push_accept_def)

lemma length_rm_entry [simp]: "length (rm_entry at i s out) = length out"
  by (simp add: rm_entry_def Let_def rm_put_def)

lemma length_rm_entry_bytes [simp]: "length (rm_entry_bytes s out) = length out"
  by (simp add: rm_entry_bytes_def)

lemma length_rm_header [simp]: "length (rm_header full r count tot out) = length out"
  by (simp add: rm_header_def Let_def rm_put_def)

lemma length_rm_full_header [simp]: "length (rm_full_header r) = 128"
  by (simp add: rm_full_header_def)

lemma blit_full: "length bs = length out \<Longrightarrow> blit 0 bs out = bs"
  by (simp add: blit_append)

lemma rm_push_eval:
  assumes "rm_apart ca ra sa ba" and "rm_state c = 1" and "rm_count c < ro_segments (rm_record c)"
  shows "recording_manifest_push (Ptr ca c) (Ptr sa s) (Ptr ba (replicate 64 0)) =
    (if rm_push_bad c s then (RM_INVALID, Ptr ca (c\<lparr>rm_state := 2\<rparr>), Ptr ba (replicate 64 0))
     else (RM_OK, Ptr ca (rm_push_accept c s), Ptr ba (rm_entry_bytes s (replicate 64 0))))"
  using assms by (auto simp: rm_apart_def blit_full rm_push_bad_def)

lemma rm_count_step:
  assumes "unat (rm_count c) + Suc left = unat (ro_segments (rm_record c))"
  shows "rm_count c < ro_segments (rm_record c)"
    "unat (rm_count (rm_push_accept c s)) + left = unat (ro_segments (rm_record (rm_push_accept c s)))"
  using assms unat_u32_less [of "ro_segments (rm_record c)"] by (simp_all add: word_less_nat_alt unat_word_ariths)

text \<open>The two loops agree on the result and on the environment, and on the context while they succeed.\<close>

lemma rm_drive_loop:
  assumes "rm_apart ca ra sa ba" and "rm_state c = 1" and "unat (rm_count c) + left = unat (ro_segments (rm_record c))"
  shows "case (rm_drive ca sa ba p left c e, rm_stream_loop p left c e) of
    ((res, c1, e1), (res', c2, e2)) \<Rightarrow> res = res' \<and> e1 = e2 \<and> (res = RM_OK \<longrightarrow> c1 = c2 \<and> rm_state c1 = 1 \<and>
       rm_record c1 = rm_record c \<and> rm_count c1 = ro_segments (rm_record c))"
  using assms(2,3)
proof (induction p left c e rule: rm_stream_loop.induct)
  case (1 p c e)
  then show ?case by (simp add: word_unat_eq_iff)
next
  case (2 p left c e)
  obtain rc s e1 where seg: "the (po_segment p) (rm_count c) e = (rc, s, e1)" by (metis prod_cases3)
  obtain rc2 e2 where upd: "the (po_update p) (rm_entry_bytes s (replicate 64 0)) e1 = (rc2, e2)" by fastforce
  note n = rm_count_step [OF 2(3)]
  show ?case
  proof (cases "rc \<noteq> 0 \<or> rm_push_bad c s \<or> rc2 \<noteq> 0")
    case True
    then show ?thesis
      using seg upd rm_push_eval [OF assms(1) 2(2) n(1), of s] by (auto simp: rm_push_bad_def)
  next
    case False
    then have v: "full_segment_valid s" by (simp add: rm_push_bad_def)
    show ?thesis
      using 2(1) [OF seg [symmetric] refl refl _ refl _ upd [symmetric]] False v seg upd 2(2) n
        rm_push_eval [OF assms(1) 2(2) n(1), of s] by (simp add: Let_def)
  qed
qed

lemma rm_fresh_simps [simp]:
  "rm_state (rm_fresh r) = 1" "rm_record (rm_fresh r) = r" "rm_count (rm_fresh r) = 0" "rm_total (rm_fresh r) = 0"
  "rm_next (rm_fresh r) = ro_first_sample r" "rm_gaps (rm_fresh r) = 0" "rm_root (rm_fresh r) = 0"
  "rm_slots (rm_fresh r) = replicate 640 0"
  by (simp_all add: rm_fresh_def)

lemma rm_finish_eval:
  "rm_state c = 1 \<Longrightarrow> rm_count c = ro_segments (rm_record c) \<Longrightarrow>
   fst (recording_manifest_finish (Ptr ca c)) = (if rm_finish_bad c then RM_INVALID else RM_OK)"
  by simp

lemma rm_start_eval:
  assumes "rm_apart ca ra sa ba" and "rm_state c0 = 0"
  shows "recording_manifest_start (Ptr ca c0) (Ptr ra r) (Ptr ba (replicate 128 0)) =
    (if rm_start_bad r \<or> \<not> rm_binding_ok r then (RM_INVALID, Ptr ca (c0\<lparr>rm_state := 2\<rparr>), Ptr ba (replicate 128 0))
     else (RM_OK, Ptr ca (rm_fresh r), Ptr ba (rm_full_header r)))"
  using assms by (simp add: rm_apart_def blit_full)

lemma rm_run_tail:
  assumes "rm_apart ca ra sa ba"
  shows "(let (res, c, e) = rm_drive ca sa ba p (unat (ro_segments r)) (rm_fresh r) e in
      if res \<noteq> RM_OK then (res, [], e)
      else let (res, cp) = recording_manifest_finish (Ptr ca c) in if res \<noteq> RM_OK then (res, [], e) else K e) =
    (let (res, c, e) = rm_stream_loop p (unat (ro_segments r)) (rm_fresh r) e in
      if res \<noteq> RM_OK then (res, [], e) else if rm_finish_bad c then (RM_INVALID, [], e) else K e)"
proof -
  obtain res c1 e1 where d: "rm_drive ca sa ba p (unat (ro_segments r)) (rm_fresh r) e = (res, c1, e1)" by (metis prod_cases3)
  obtain res' c2 e2 where l: "rm_stream_loop p (unat (ro_segments r)) (rm_fresh r) e = (res', c2, e2)" by (metis prod_cases3)
  have "res = res' \<and> e1 = e2 \<and> (res = RM_OK \<longrightarrow> c1 = c2 \<and> rm_state c1 = 1 \<and> rm_record c1 = r \<and> rm_count c1 = ro_segments r)"
    using rm_drive_loop [OF assms, of "rm_fresh r" "unat (ro_segments r)" p e] d l by auto
  then show ?thesis using d l by auto
qed

lemma rm_drive_run_eq:
  "rm_apart ca ra sa ba \<Longrightarrow> rm_drive_run ca sa ba p r (rm_fresh r) (rm_full_header r) e = rm_stream_run p r e"
  unfolding rm_drive_run_def rm_stream_run_def by (simp only: rm_run_tail)

section \<open>What an accepted sequence of segments is\<close>

text \<open>The declarative contract: \<open>rm_step_ok r ss s\<close> says that \<open>s\<close> may follow the segments \<open>ss\<close> of the recording
  \<open>r\<close>, and \<open>rm_timeline r ss\<close> that every segment of \<open>ss\<close> may follow those before it.\<close>

definition rm_end :: "ros_record \<Rightarrow> ros_segment list \<Rightarrow> u64" where
  "rm_end r ss = (if ss = [] then ro_first_sample r else sg_next_sample (last ss))"

definition rm_samples :: "ros_segment list \<Rightarrow> nat" where
  "rm_samples ss = sum_list (map (\<lambda>s. unat (sg_samples s)) ss)"

definition rm_gap_count :: "ros_segment list \<Rightarrow> nat" where
  "rm_gap_count ss = sum_list (map (\<lambda>s. unat (sg_gap s)) ss)"

definition rm_step_ok :: "ros_record \<Rightarrow> ros_segment list \<Rightarrow> ros_segment \<Rightarrow> bool" where
  "rm_step_ok r ss s \<longleftrightarrow> rm_identity (ro_identity r) (sg_identity s) \<and>
     unat (es_segment_sequence (sg_identity s)) = length ss \<and> full_segment_valid s \<and>
     rm_end r ss \<le> sg_first_sample s \<and> (sg_gap s = (if rm_end r ss < sg_first_sample s then 1 else 0)) \<and>
     sg_slot s \<notin> sg_slot ` set ss \<and> (\<forall>t\<in>set ss. sg_root t = sg_root s) \<and>
     rm_samples ss + unat (sg_samples s) \<le> unat INT64_MAX"

definition rm_timeline :: "ros_record \<Rightarrow> ros_segment list \<Rightarrow> bool" where
  "rm_timeline r ss \<longleftrightarrow> (\<forall>i < length ss. rm_step_ok r (take i ss) (ss ! i))"

definition rm_contract :: "ros_record \<Rightarrow> ros_segment list \<Rightarrow> bool" where
  "rm_contract r ss \<longleftrightarrow> length ss = unat (ro_segments r) \<and> rm_timeline r ss \<and>
     rm_samples ss = unat (ro_committed_samples r) \<and> rm_end r ss = ro_next_sample r \<and> rm_gap_count ss = unat (ro_gaps r)"

lemma rm_timeline_snoc: "rm_timeline r (ss @ [s]) \<longleftrightarrow> rm_timeline r ss \<and> rm_step_ok r ss s"
  by (auto simp: rm_timeline_def nth_append less_Suc_eq)

lemma rm_timeline_Nil [simp]: "rm_timeline r []"
  by (simp add: rm_timeline_def)

lemma slot_bit:
  assumes "length slots = 640" and "k < RLL_SLOTS"
  shows "unat k div 8 < length slots" and "slot_used slots k \<longleftrightarrow> bit (slots ! (unat k div 8)) (unat k mod 8)"
proof -
  show "unat k div 8 < length slots" using assms by (simp add: word_less_nat_alt)
  have *: "x AND push_bit n 1 \<noteq> 0 \<longleftrightarrow> bit x n" if "n < 8" for x :: u8 and n
  proof -
    have "bit (x AND push_bit n 1) m \<longleftrightarrow> m = n \<and> bit x n" for m
      using that by (auto simp: bit_and_iff bit_exp_iff)
    then show ?thesis using bit_eq_iff [of "x AND push_bit n 1" 0] that by auto
  qed
  show "slot_used slots k \<longleftrightarrow> bit (slots ! (unat k div 8)) (unat k mod 8)"
    unfolding slot_used_def by (rule *) simp
qed

lemma slot_mark_used:
  assumes "length slots = 640" and "k < RLL_SLOTS" and "j < RLL_SLOTS"
  shows "slot_used (slot_mark slots k) j \<longleftrightarrow> j = k \<or> slot_used slots j"
proof -
  have l: "length (slot_mark slots k) = 640" using assms(1) by (simp add: slot_mark_def)
  have jk: "j = k" if "unat j div 8 = unat k div 8" "unat j mod 8 = unat k mod 8"
    using that by (metis div_mult_mod_eq word_unat_eq_iff)
  have o: "bit (x OR push_bit n 1) m \<longleftrightarrow> bit x m \<or> m = n" if "n < 8" for x :: u8 and n m
    using that by (auto simp: bit_or_iff bit_exp_iff)
  show ?thesis
  proof (cases "unat j div 8 = unat k div 8")
    case True
    then have "slot_used (slot_mark slots k) j \<longleftrightarrow> slot_used slots j \<or> unat j mod 8 = unat k mod 8"
      unfolding slot_bit(2) [OF l assms(3)] slot_bit(2) [OF assms(1,3)]
      using slot_bit(1) [OF assms(1,2)] o [of "unat k mod 8"] by (simp add: slot_mark_def)
    then show ?thesis using jk [OF True] by blast
  next
    case False
    then have "slot_used (slot_mark slots k) j \<longleftrightarrow> slot_used slots j"
      unfolding slot_bit(2) [OF l assms(3)] slot_bit(2) [OF assms(1,3)] by (simp add: slot_mark_def)
    then show ?thesis using False by blast
  qed
qed

lemma slot_used_fresh: "k < RLL_SLOTS \<Longrightarrow> \<not> slot_used (replicate 640 0) k"
  using slot_bit [of "replicate 640 0" k] by simp

text \<open>The context after pushing \<open>ss\<close>.\<close>

definition rm_inv :: "ros_record \<Rightarrow> ros_segment list \<Rightarrow> rm_incremental \<Rightarrow> bool" where
  "rm_inv r ss c \<longleftrightarrow> rm_record c = r \<and> rm_state c = 1 \<and> unat (rm_count c) = length ss \<and> unat (rm_total c) = rm_samples ss \<and>
     rm_samples ss \<le> unat INT64_MAX \<and> rm_next c = rm_end r ss \<and> unat (rm_gaps c) = rm_gap_count ss \<and>
     rm_gap_count ss \<le> length ss \<and> (\<forall>t\<in>set ss. sg_root t = rm_root c) \<and>
     length (rm_slots c) = 640 \<and> (\<forall>k<RLL_SLOTS. slot_used (rm_slots c) k \<longleftrightarrow> k \<in> sg_slot ` set ss) \<and> rm_timeline r ss"

lemma rm_inv_fresh: "rm_inv r [] (rm_fresh r)"
  by (simp add: rm_inv_def rm_samples_def rm_gap_count_def rm_end_def slot_used_fresh)

lemma rm_total_guard:
  assumes "x \<le> 160000" and "unat t = n"
  shows "t > INT64_MAX - x \<longleftrightarrow> \<not> n + unat x \<le> unat INT64_MAX"
proof -
  have "unat (INT64_MAX - x) = unat INT64_MAX - unat x"
    using assms(1) by (intro unat_sub) (simp add: word_le_nat_alt)
  then show ?thesis using assms by (auto simp: word_less_nat_alt word_le_nat_alt)
qed

lemma rm_root_guard:
  assumes "\<forall>t\<in>set ss. sg_root t = x" and "first \<longleftrightarrow> ss = []"
  shows "\<not> first \<and> sg_root s \<noteq> x \<longleftrightarrow> \<not> (\<forall>t\<in>set ss. sg_root t = sg_root s)"
proof (cases "ss = []")
  case False
  then have "last ss \<in> set ss" by simp
  then show ?thesis using assms by auto
qed (use assms in simp)

lemma rm_push_bad_iff:
  assumes "rm_inv r ss c"
  shows "\<not> rm_push_bad c s \<longleftrightarrow> rm_step_ok r ss s"
proof -
  have E1: "es_segment_sequence (sg_identity s) = rm_count c \<longleftrightarrow> unat (es_segment_sequence (sg_identity s)) = length ss"
    using assms by (simp add: rm_inv_def word_unat_eq_iff)
  have E2: "full_segment_valid s \<Longrightarrow> slot_used (rm_slots c) (sg_slot s) \<longleftrightarrow> sg_slot s \<in> sg_slot ` set ss"
    using assms by (simp add: rm_inv_def full_segment_valid_def)
  have E3: "(rm_count c \<noteq> 0 \<and> sg_root s \<noteq> rm_root c) \<longleftrightarrow> \<not> (\<forall>t\<in>set ss. sg_root t = sg_root s)"
    by (rule rm_root_guard) (use assms in \<open>auto simp: rm_inv_def unat_eq_zero [symmetric]\<close>)
  have E4: "full_segment_valid s \<Longrightarrow> rm_total c > INT64_MAX - sg_samples s \<longleftrightarrow> \<not> rm_samples ss + unat (sg_samples s) \<le> unat INT64_MAX"
    by (rule rm_total_guard) (use assms in \<open>simp_all add: rm_inv_def full_segment_valid_def\<close>)
  have "rm_record c = r" "rm_next c = rm_end r ss" using assms by (simp_all add: rm_inv_def)
  then show ?thesis
    unfolding rm_push_bad_def rm_step_ok_def rm_gap_def
    by (cases "full_segment_valid s") (simp_all only: E1 E2 E3 E4 not_less de_Morgan_disj not_not simp_thms)
qed

lemma rm_inv_push:
  assumes "rm_inv r ss c" and "rm_step_ok r ss s"
  shows "rm_inv r (ss @ [s]) (rm_push_accept c s)"
proof -
  note v = assms(2) [unfolded rm_step_ok_def]
  have seq: "length ss < 5120" using v by (auto simp: full_segment_valid_def word_less_nat_alt)
  have tot: "unat (rm_total c + sg_samples s) = rm_samples ss + unat (sg_samples s)"
    using assms(1) v unat_add_le [of "rm_total c" "sg_samples s" INT64_MAX] by (simp add: rm_inv_def)
  have gap: "unat (sg_gap s) \<le> 1" using v by auto
  then have g: "unat (rm_gaps c + sg_gap s) = rm_gap_count ss + unat (sg_gap s)"
    using assms(1) seq by (simp add: rm_inv_def unat_word_ariths)
  have cnt: "unat (rm_count c + 1) = Suc (length ss)"
    using assms(1) seq by (simp add: rm_inv_def unat_word_ariths)
  have slots: "slot_used (slot_mark (rm_slots c) (sg_slot s)) k \<longleftrightarrow> k \<in> sg_slot ` set (ss @ [s])" if "k < RLL_SLOTS" for k
    using assms(1) v that slot_mark_used [of "rm_slots c" "sg_slot s" k] by (auto simp: rm_inv_def full_segment_valid_def)
  show ?thesis
    using assms v tot g cnt gap slots
    unfolding rm_inv_def rm_push_accept_def
    by (auto simp: rm_samples_def rm_gap_count_def rm_end_def rm_timeline_snoc slot_mark_def)
qed

text \<open>A whole run of the incremental validator on a list of segments.\<close>

fun rm_pushes :: "nat \<Rightarrow> nat \<Rightarrow> nat \<Rightarrow> ros_segment list \<Rightarrow> rm_incremental \<Rightarrow> rm_incremental option" where
  "rm_pushes ca sa ba [] c = Some c"
| "rm_pushes ca sa ba (s # ss) c =
    (case recording_manifest_push (Ptr ca c) (Ptr sa s) (Ptr ba (replicate 64 0)) of
       (RM_OK, cp, op) \<Rightarrow> rm_pushes ca sa ba ss (pt cp)
     | _ \<Rightarrow> None)"

definition rm_accepts :: "nat \<Rightarrow> nat \<Rightarrow> nat \<Rightarrow> nat \<Rightarrow> ros_record \<Rightarrow> ros_segment list \<Rightarrow> bool" where
  "rm_accepts ca ra sa ba r ss =
    (case recording_manifest_start (Ptr ca rm_cleared) (Ptr ra r) (Ptr ba (replicate 128 0)) of
       (RM_OK, cp, op) \<Rightarrow> (case rm_pushes ca sa ba ss (pt cp) of
           None \<Rightarrow> False | Some c \<Rightarrow> fst (recording_manifest_finish (Ptr ca c)) = RM_OK)
     | _ \<Rightarrow> False)"

lemma rm_timeline_prefix: "rm_timeline r (xs @ ys) \<Longrightarrow> rm_timeline r xs"
  by (induction ys rule: rev_induct) (simp_all add: rm_timeline_snoc flip: append_assoc)

lemma rm_push_full:
  assumes "rm_apart ca ra sa ba" and "rm_state c = 1" and "\<not> rm_count c < ro_segments (rm_record c)"
  shows "fst (recording_manifest_push (Ptr ca c) (Ptr sa s) (Ptr ba (replicate 64 0))) \<noteq> RM_OK"
  using assms by (simp add: rm_apart_def not_less)

lemma rm_pushes_iff:
  assumes "rm_apart ca ra sa ba" and "rm_inv r pre c"
  shows "(case rm_pushes ca sa ba ss c of None \<Rightarrow> \<not> (rm_timeline r (pre @ ss) \<and> (ss = [] \<or> length (pre @ ss) \<le> unat (ro_segments r)))
      | Some c' \<Rightarrow> rm_inv r (pre @ ss) c' \<and> (ss = [] \<or> length (pre @ ss) \<le> unat (ro_segments r)))"
  using assms(2)
proof (induction ss arbitrary: pre c)
  case Nil
  then show ?case by simp
next
  case (Cons s ss)
  have i: "rm_record c = r" "rm_state c = 1" "unat (rm_count c) = length pre" using Cons.prems by (simp_all add: rm_inv_def)
  show ?case
  proof (cases "rm_count c < ro_segments (rm_record c)")
    case False
    then have "length (pre @ s # ss) > unat (ro_segments r)" using i by (simp add: word_less_nat_alt)
    moreover have "rm_pushes ca sa ba (s # ss) c = None"
      using rm_push_full [OF assms(1) i(2) False, of s] by (auto split: prod.splits rm_result.splits)
    ultimately show ?thesis by simp
  next
    case True
    note ev = rm_push_eval [OF assms(1) i(2) True, of s] and iff = rm_push_bad_iff [OF Cons.prems, of s]
    show ?thesis
    proof (cases "rm_push_bad c s")
      case True
      then have "\<not> rm_timeline r (pre @ s # ss)"
        using iff rm_timeline_snoc rm_timeline_prefix [of r "pre @ [s]" ss] by auto
      then show ?thesis using True ev by simp
    next
      case False
      then have "rm_inv r (pre @ [s]) (rm_push_accept c s)" using iff rm_inv_push [OF Cons.prems] by blast
      from Cons.IH [OF this] show ?thesis
        using False ev \<open>rm_count c < _\<close> i by (auto simp: word_less_nat_alt split: option.splits)
    qed
  qed
qed

lemma rm_finish_contract:
  assumes "rm_inv r ss c"
  shows "fst (recording_manifest_finish (Ptr ca c)) = RM_OK \<longleftrightarrow> length ss = unat (ro_segments r) \<and>
    rm_samples ss = unat (ro_committed_samples r) \<and> rm_end r ss = ro_next_sample r \<and> rm_gap_count ss = unat (ro_gaps r)"
  using assms by (auto simp: rm_inv_def rm_finish_bad_def word_unat_eq_iff)

lemma rm_accepts_iff:
  assumes "rm_apart ca ra sa ba"
  shows "rm_accepts ca ra sa ba r ss \<longleftrightarrow> \<not> rm_start_bad r \<and> rm_binding_ok r \<and> rm_contract r ss"
proof -
  have z: "rm_state rm_cleared = 0" by (simp add: rm_cleared_def)
  note st = rm_start_eval [OF assms z, of r]
  have p: "(case rm_pushes ca sa ba ss (rm_fresh r) of None \<Rightarrow> False | Some c \<Rightarrow> fst (recording_manifest_finish (Ptr ca c)) = RM_OK)
      \<longleftrightarrow> rm_contract r ss"
    using rm_pushes_iff [OF assms rm_inv_fresh, of r ss] rm_finish_contract [of r ss _ ca]
    by (auto simp: rm_contract_def rm_inv_def simp del: recording_manifest_finish.simps split: option.splits)
  show ?thesis
    using p st unfolding rm_accepts_def by (simp del: recording_manifest_finish.simps recording_manifest_start.simps)
qed

section \<open>The one-shot builder\<close>

definition rm_short :: "ros_segment list \<Rightarrow> bool" where
  "rm_short ss \<longleftrightarrow> (\<forall>s\<in>set ss. sg_root s < ROS_ROOTS \<and> sg_slot s < ROS_SLOTS)"

text \<open>The locals of the checking loop after the segments \<open>ss\<close>.\<close>

definition bs_inv :: "ros_record \<Rightarrow> ros_segment list \<Rightarrow> rm_build_state \<Rightarrow> bool" where
  "bs_inv r ss b \<longleftrightarrow> unat (bs_total b) = rm_samples ss \<and> rm_samples ss \<le> unat INT64_MAX \<and> bs_next b = rm_end r ss \<and>
     unat (bs_gaps b) = rm_gap_count ss \<and> rm_gap_count ss \<le> length ss \<and> (\<forall>t\<in>set ss. sg_root t = bs_root b) \<and>
     (\<forall>k<ROS_SLOTS. bit (bs_slots b) (unat k) \<longleftrightarrow> k \<in> sg_slot ` set ss) \<and> rm_timeline r ss \<and> rm_short ss"

lemma mask_bit: "n < 32 \<Longrightarrow> x AND push_bit n 1 \<noteq> 0 \<longleftrightarrow> bit (x :: u32) n"
proof -
  assume n: "n < 32"
  then have "bit (x AND push_bit n 1) m \<longleftrightarrow> m = n \<and> bit x n" for m by (auto simp: bit_and_iff bit_exp_iff)
  then show ?thesis using bit_eq_iff [of "x AND push_bit n 1" 0] n by auto
qed

lemma mask_bit_or: "n < 32 \<Longrightarrow> bit (x OR push_bit n 1 :: u32) m \<longleftrightarrow> bit x m \<or> m = n"
  by (auto simp: bit_or_iff bit_exp_iff)

lemma rm_build_bad_iff:
  assumes "bs_inv r ss b" and "length ss < 32"
  shows "\<not> rm_build_bad r (length ss) s b \<longleftrightarrow> rm_step_ok r ss s \<and> rm_short [s]"
proof (cases "sg_root s < ROS_ROOTS \<and> sg_slot s < ROS_SLOTS \<and> sg_samples s \<le> 160000 \<and>
    unat (es_segment_sequence (sg_identity s)) = length ss")
  case True
  have E2: "bs_slots b AND push_bit (unat (sg_slot s)) 1 \<noteq> 0 \<longleftrightarrow> sg_slot s \<in> sg_slot ` set ss"
    using assms(1) True mask_bit [of "unat (sg_slot s)"] by (simp add: bs_inv_def word_less_nat_alt)
  have E3: "(length ss \<noteq> 0 \<and> sg_root s \<noteq> bs_root b) \<longleftrightarrow> \<not> (\<forall>t\<in>set ss. sg_root t = sg_root s)"
    by (rule rm_root_guard) (use assms in \<open>auto simp: bs_inv_def\<close>)
  have E4: "bs_total b > INT64_MAX - sg_samples s \<longleftrightarrow> \<not> rm_samples ss + unat (sg_samples s) \<le> unat INT64_MAX"
    by (rule rm_total_guard) (use assms True in \<open>simp_all add: bs_inv_def\<close>)
  have n: "bs_next b = rm_end r ss" using assms(1) by (simp add: bs_inv_def)
  have b: "sg_root s < RLL_ROOTS" "sg_slot s < RLL_SLOTS" "es_segment_sequence (sg_identity s) < RLL_SLOTS"
    using True assms(2) by (simp_all add: word_less_nat_alt)
  define m where "m = sg_samples s mod 320"
  have g: "sg_gap s = (if c then 1 else 0) \<Longrightarrow> sg_gap s \<le> 1" for c by auto
  have "rm_short [s]" using True by (simp add: rm_short_def)
  note facts = this True [THEN conjunct1] True [THEN conjunct2, THEN conjunct1] b
  show ?thesis
    unfolding rm_build_bad_def rm_step_ok_def rm_gap_def full_segment_valid_def n E2 E3 E4 m_def [symmetric]
      de_Morgan_disj not_not not_less not_le
    by (intro iffI; elim conjE; intro conjI; (assumption | rule facts | erule g))
next
  case False
  then have "rm_build_bad r (length ss) s b" unfolding rm_build_bad_def de_Morgan_conj not_less not_le by blast
  moreover have "\<not> (rm_step_ok r ss s \<and> rm_short [s])"
    using False by (simp add: rm_step_ok_def rm_short_def full_segment_valid_def del: de_Morgan_conj) blast
  ultimately show ?thesis by blast
qed

lemma bs_inv_step:
  assumes "bs_inv r ss b" and "rm_step_ok r ss s" and "rm_short [s]" and "length ss < 32"
  shows "bs_inv r (ss @ [s]) \<lparr>bs_total = bs_total b + sg_samples s, bs_next = sg_next_sample s,
    bs_gaps = bs_gaps b + sg_gap s, bs_root = sg_root s, bs_slots = bs_slots b OR push_bit (unat (sg_slot s)) 1\<rparr>"
proof -
  note v = assms(2) [unfolded rm_step_ok_def]
  have tot: "unat (bs_total b + sg_samples s) = rm_samples ss + unat (sg_samples s)"
    using assms(1) v unat_add_le [of "bs_total b" "sg_samples s" INT64_MAX] by (simp add: bs_inv_def)
  have gap: "unat (sg_gap s) \<le> 1" using v by auto
  then have g: "unat (bs_gaps b + sg_gap s) = rm_gap_count ss + unat (sg_gap s)"
    using assms(1,4) by (simp add: bs_inv_def unat_word_ariths)
  have slots: "bit (bs_slots b OR push_bit (unat (sg_slot s)) 1) (unat k) \<longleftrightarrow> k \<in> sg_slot ` set (ss @ [s])"
    if "k < ROS_SLOTS" for k
    using assms(1,3) that mask_bit_or [of "unat (sg_slot s)"]
    by (auto simp: bs_inv_def rm_short_def word_less_nat_alt word_unat_eq_iff simp del: push_bit_of_1)
  show ?thesis
    using assms v tot g gap slots unfolding bs_inv_def
    by (auto simp: rm_samples_def rm_gap_count_def rm_end_def rm_timeline_snoc rm_short_def simp del: push_bit_of_1)
qed

lemma rm_build_check_iff:
  assumes "bs_inv r pre b" and "length (pre @ ss) \<le> 32"
  shows "case rm_build_check r (length pre) ss b of None \<Rightarrow> \<not> (rm_timeline r (pre @ ss) \<and> rm_short (pre @ ss))
    | Some b' \<Rightarrow> bs_inv r (pre @ ss) b'"
  using assms
proof (induction ss arbitrary: pre b)
  case Nil
  then show ?case by simp
next
  case (Cons s ss)
  have l: "length pre < 32" using Cons.prems by simp
  note iff = rm_build_bad_iff [OF Cons.prems(1) l, of s]
  show ?case
  proof (cases "rm_build_bad r (length pre) s b")
    case True
    then have "\<not> (rm_timeline r (pre @ s # ss) \<and> rm_short (pre @ s # ss))"
      using iff rm_timeline_snoc rm_timeline_prefix [of r "pre @ [s]" ss] by (auto simp: rm_short_def)
    then show ?thesis using True by simp
  next
    case False
    then have "bs_inv r (pre @ [s]) \<lparr>bs_total = bs_total b + sg_samples s, bs_next = sg_next_sample s,
        bs_gaps = bs_gaps b + sg_gap s, bs_root = sg_root s, bs_slots = bs_slots b OR push_bit (unat (sg_slot s)) 1\<rparr>"
      using iff bs_inv_step [OF Cons.prems(1) _ _ l] by blast
    from Cons.IH [OF this, unfolded append_assoc append_Cons append_Nil] show ?thesis
      using False Cons.prems(2) by (simp del: push_bit_of_1)
  qed
qed

lemma rm_build_check_contract:
  assumes "length ss \<le> 32" and "length ss = unat (ro_segments r)"
  shows "(case rm_build_check r 0 ss \<lparr>bs_total = 0, bs_next = ro_first_sample r, bs_gaps = 0, bs_root = 0, bs_slots = 0\<rparr> of
      None \<Rightarrow> False
    | Some c \<Rightarrow> \<not> (bs_total c \<noteq> ro_committed_samples r \<or> bs_next c \<noteq> ro_next_sample r \<or> bs_gaps c \<noteq> ro_gaps r)) \<longleftrightarrow>
    rm_contract r ss \<and> rm_short ss"
proof -
  let ?b = "\<lparr>bs_total = 0, bs_next = ro_first_sample r, bs_gaps = 0, bs_root = 0, bs_slots = 0\<rparr>"
  have i: "bs_inv r [] ?b" by (simp add: bs_inv_def rm_samples_def rm_gap_count_def rm_end_def rm_short_def)
  note c = rm_build_check_iff [OF i, of ss, simplified]
  show ?thesis
  proof (cases "rm_build_check r 0 ss ?b")
    case None
    then show ?thesis using c assms by (auto simp: rm_contract_def)
  next
    case (Some b)
    then have "bs_inv r ss b" using c assms(1) by simp
    then show ?thesis using Some assms(2) by (auto simp: bs_inv_def rm_contract_def word_unat_eq_iff)
  qed
qed

section \<open>Properties\<close>

text \<open>Claim C24.  The incremental validator is equivalent to the streaming builder: for any record, any hash
  engine and any segment reader, driving start, push and finish gives the same result code, header,
  digest and final environment as \<open>recording_manifest_stream\<close>; on failure the outputs are untouched.\<close>

theorem manifest_stream_incremental:
  assumes "rm_apart ca ra sa ba" and "rm_state c0 = 0" and "rm_port_complete p" and "length out = 128"
    and "\<not> rm_spans_clash [(oa, 128), (da, 32), (rb, sizeof_ros_record), (pa, sizeof_rm_stream_port)]"
  shows "recording_manifest_stream (Ptr oa out) (Ptr da digest) (Ptr rb r) (Ptr pa p) e =
    (case rm_incremental_run ca ra sa ba p c0 r e of (res, header, dg, e') \<Rightarrow>
       if res = RM_OK then (RM_OK, Ptr oa header, Ptr da (blit 0 dg digest), e') else (res, Ptr oa out, Ptr da digest, e'))"
  unfolding rm_incremental_run_def rm_start_eval [OF assms(1,2)]
  using assms(3-5) rm_drive_run_eq [OF assms(1), of p r e]
  by (cases "rm_start_bad r \<or> \<not> rm_binding_ok r"; cases "rm_stream_run p r e")
    (auto simp: Let_def blit_full simp del: rm_spans_clash.simps)

text \<open>A recording of one 20 ms segment.\<close>

definition demo_ros_record :: ros_record where
  "demo_ros_record = ros_record_zero\<lparr>ro_identity := demo_es_binding\<lparr>es_segment_sequence := 0, es_plaintext_bytes := 0\<rparr>,
     ro_next_sample := 320, ro_committed_samples := 320, ro_present := 1, ro_segments := 1, ro_profile := 2\<rparr>"

definition demo_ros_segment :: ros_segment where
  "demo_ros_segment = \<lparr>sg_identity = demo_es_binding\<lparr>es_segment_sequence := 0, es_plaintext_bytes := 216\<rparr>,
     sg_first_sample = 0, sg_next_sample = 320, sg_samples = 320, sg_root = 0, sg_slot = 3, sg_profile = 2, sg_gap = 0,
     sg_container_bytes = 425, sg_pages = 1, sg_digest = replicate 32 7\<rparr>"

definition demo_rm_port :: "unit rm_stream_port" where
  "demo_rm_port = \<lparr>po_begin = Some (\<lambda>e. (0, e)), po_update = Some (\<lambda>bs e. (0, e)),
     po_finish = Some (\<lambda>e. (0, replicate 32 9, e)), po_abort = Some id, po_segment = Some (\<lambda>i e. (0, demo_ros_segment, e))\<rparr>"

theorem manifest_stream_incremental_witness:
  "recording_manifest_stream (Ptr 1000 (replicate 128 0)) (Ptr 2000 (replicate 32 0)) (Ptr 3000 demo_ros_record)
     (Ptr 4000 demo_rm_port) () =
   (case rm_incremental_run 10000 20000 30000 40000 demo_rm_port rm_cleared demo_ros_record () of (res, header, dg, e') \<Rightarrow>
      if res = RM_OK then (RM_OK, Ptr 1000 header, Ptr 2000 (blit 0 dg (replicate 32 0)), e')
      else (res, Ptr 1000 (replicate 128 0), Ptr 2000 (replicate 32 0), e'))"
  by (rule manifest_stream_incremental)
    (simp_all add: rm_apart_def rm_overlap_def UINTPTR_MAX_def rm_cleared_def rm_port_complete_def demo_rm_port_def)

text \<open>Claim C25.  The incremental validator accepts a recording and its segments exactly when the record is
  admissible and the segments satisfy the declarative contract: the announced number of them, in
  sequence, each valid and of the same identity and root, in pairwise distinct slots, none starting
  before its predecessor ended, each gap flag true exactly when samples are missing, with sample and
  gap totals that do not wrap and equal the committed ones.\<close>

theorem manifest_incremental_contract:
  assumes "rm_apart ca ra sa ba"
  shows "rm_accepts ca ra sa ba r ss \<longleftrightarrow> \<not> rm_start_bad r \<and> rm_binding_ok r \<and> rm_contract r ss"
  using assms by (rule rm_accepts_iff)

lemma demo_ros_ok: "\<not> rm_start_bad demo_ros_record" "rm_binding_ok demo_ros_record" "rm_contract demo_ros_record [demo_ros_segment]"
proof -
  show "\<not> rm_start_bad demo_ros_record"
    by (simp add: rm_start_bad_def rm_record_bad_def demo_ros_record_def ros_record_zero_def)
  show "rm_binding_ok demo_ros_record"
    by (simp add: rm_binding_ok_def demo_ros_record_def ros_record_zero_def demo_es_binding_def es_valid_def overlap_def UINTPTR_MAX_def)
  have "full_segment_valid demo_ros_segment"
    by (simp add: full_segment_valid_def demo_ros_segment_def rm_container_def)
  then have "rm_timeline demo_ros_record [demo_ros_segment]"
    by (simp add: rm_timeline_def rm_step_ok_def)
      (simp add: demo_ros_record_def demo_ros_segment_def ros_record_zero_def rm_end_def rm_samples_def rm_identity_def)
  then show "rm_contract demo_ros_record [demo_ros_segment]"
    by (simp add: rm_contract_def)
      (simp add: demo_ros_record_def demo_ros_segment_def ros_record_zero_def rm_end_def rm_samples_def rm_gap_count_def)
qed

theorem manifest_incremental_contract_witness: "rm_accepts 10000 20000 30000 40000 demo_ros_record [demo_ros_segment]"
  by (rule manifest_incremental_contract [THEN iffD2])
    (simp_all add: demo_ros_ok rm_apart_def rm_overlap_def UINTPTR_MAX_def)

text \<open>With a hash engine that succeeds, the one-shot builder accepts exactly the recordings of at
  most 32 segments that the incremental validator accepts and that lie in the short layout (roots
  below 8, slots below 32); the two implementations never disagree.\<close>

theorem manifest_build_agrees:
  assumes "rm_apart ca ra sa ba" and "length ss \<le> 32" and "ro_segments r = of_nat (length ss)"
    and "\<And>x. \<exists>d. h x = (0, d, 32)"
    and "\<not> rm_spans_clash [(oa, 128 + length ss * 64), (da, 32), (rb, sizeof_ros_record),
      (ga, length ss * sizeof_ros_segment), (ha, sizeof_hash)]"
  shows "fst (recording_manifest_build (Ptr oa out) (128 + length ss * 64) (Ptr da digest) (Ptr rb r) (Ptr ga ss)
      (length ss) (Ptr ha (Some h))) = RM_OK \<longleftrightarrow>
    rm_accepts ca ra sa ba r ss \<and> rm_short ss"
proof -
  have n: "unat (ro_segments r) = length ss" using assms(2,3) by (simp add: unsigned_of_nat take_bit_nat_eq_self)
  obtain d where d: "h x = (0, d x, 32)" for x using assms(4) by metis
  have s: "rm_start_bad r \<longleftrightarrow> ro_present r \<noteq> 1 \<or> rm_record_bad r"
    using n assms(2) by (auto simp: rm_start_bad_def word_less_nat_alt)
  have "fst (recording_manifest_build (Ptr oa out) (128 + length ss * 64) (Ptr da digest) (Ptr rb r) (Ptr ga ss)
      (length ss) (Ptr ha (Some h))) = fst (rm_build_body r ss h out digest)"
    using assms(2,5) by (auto simp: recording_manifest_build_def Let_def simp del: rm_spans_clash.simps split: prod.splits)
  also have "fst (rm_build_body r ss h out digest) = RM_OK \<longleftrightarrow>
      \<not> rm_start_bad r \<and> rm_binding_ok r \<and> rm_contract r ss \<and> rm_short ss"
    using rm_build_check_contract [OF assms(2) n [symmetric]] n s
    unfolding rm_build_body_def Let_def by (auto simp: d split: option.splits)
  finally show ?thesis using rm_accepts_iff [OF assms(1), of r ss] by blast
qed

theorem manifest_build_agrees_witness:
  "fst (recording_manifest_build (Ptr 1000 (replicate 192 0)) 192 (Ptr 2000 (replicate 32 0)) (Ptr 3000 demo_ros_record)
     (Ptr 4000 [demo_ros_segment]) 1 (Ptr 5000 (Some demo_sha))) = RM_OK"
proof -
  have a: "rm_apart 10000 20000 30000 40000" by (simp add: rm_apart_def rm_overlap_def UINTPTR_MAX_def)
  have "rm_accepts 10000 20000 30000 40000 demo_ros_record [demo_ros_segment]"
    using rm_accepts_iff [OF a] demo_ros_ok by blast
  moreover have "rm_short [demo_ros_segment]" by (simp add: rm_short_def demo_ros_segment_def)
  moreover have "ro_segments demo_ros_record = of_nat (length [demo_ros_segment])" by (simp add: demo_ros_record_def)
  ultimately show ?thesis
    using manifest_build_agrees [OF a, of "[demo_ros_segment]" demo_ros_record demo_sha 1000 2000 3000 4000 5000]
    by (simp add: demo_sha_def rm_overlap_def UINTPTR_MAX_def)
qed

end
