(* ===== verification/Journal_Codec.thy ===== *)
theory Journal_Codec
  imports Control_Record
begin

text \<open>
  The pages of the owned control journal (first part of \<open>owned_control_journal.c\<close>): a snapshot of the
  volume's control state, its admissibility rules, the 4096-byte page that stores it and the transition
  rule between successive snapshots.  The group shows that decoding accepts exactly the encoded page of
  an admissible snapshot, and that reservation ranges of different map slots never share an identifier.
\<close>

section \<open>Model\<close>

abbreviation OCJ_OK :: int where "OCJ_OK \<equiv> 0"
abbreviation OCJ_NO_ROOT :: int where "OCJ_NO_ROOT \<equiv> 1"
abbreviation OCJ_ARGUMENT :: int where "OCJ_ARGUMENT \<equiv> -1"
abbreviation OCJ_REFUSED :: int where "OCJ_REFUSED \<equiv> -2"
abbreviation OCJ_FAULT :: int where "OCJ_FAULT \<equiv> -3"
abbreviation OCJ_CONFLICT :: int where "OCJ_CONFLICT \<equiv> -4"
abbreviation OCJ_BUSY :: int where "OCJ_BUSY \<equiv> -5"

record ocj_block =
  bl_base :: u64
  bl_valid :: u64
  bl_range_sequence :: u64
  bl_consumed :: u32

record ocj_snapshot =
  sn_epoch :: u64
  sn_previous_epoch :: u64
  sn_high_water :: u64
  sn_previous_digest :: bytes
  sn_digest :: bytes
  sn_state :: u32
  sn_bank :: u32
  sn_slot :: u32
  sn_retired :: u32
  sn_quarantine :: u32
  sn_open :: u32
  sn_pending_kind :: u32
  sn_pending_slot :: u32
  sn_pending_lease :: u64
  sn_blocks :: "ocj_block list"

abbreviation sizeof_ocj_snapshot :: nat where "sizeof_ocj_snapshot \<equiv> 1152"

definition bl_zero :: ocj_block where
  "bl_zero = \<lparr>bl_base = 0, bl_valid = 0, bl_range_sequence = 0, bl_consumed = 0\<rparr>"

definition sn_zero :: ocj_snapshot where
  "sn_zero = \<lparr>sn_epoch = 0, sn_previous_epoch = 0, sn_high_water = 0, sn_previous_digest = replicate 32 0,
     sn_digest = replicate 32 0, sn_state = 0, sn_bank = 0, sn_slot = 0, sn_retired = 0, sn_quarantine = 0, sn_open = 0,
     sn_pending_kind = 0, sn_pending_slot = 0, sn_pending_lease = 0, sn_blocks = replicate 32 bl_zero\<rparr>"

definition wf_sn :: "ocj_snapshot \<Rightarrow> bool" where
  "wf_sn s \<longleftrightarrow> length (sn_previous_digest s) = 32 \<and> length (sn_digest s) = 32 \<and> length (sn_blocks s) = 32"

definition ocj_magic :: bytes where "ocj_magic = ascii ''OPNDCJ2'' @ [0]"

definition ocj_crc :: "bytes \<Rightarrow> u32" where
  "ocj_crc p = crc32 (crc_mask 252 256 (part 0 1280 p))"

definition ocj_sha :: "sha_provider option \<Rightarrow> bytes \<Rightarrow> bytes option" where
  "ocj_sha h p = (case h of None \<Rightarrow> None | Some f \<Rightarrow> sha_run f (part 0 1280 p))"

text \<open>\<open>syntax\<close>: the guards on the snapshot, on each block, on the pairwise ranges and on the pending erase.\<close>

definition ocj_head_bad :: "ocj_snapshot \<Rightarrow> bool" where
  "ocj_head_bad s \<longleftrightarrow> sn_epoch s = 0 \<or> sn_epoch s > INT64_MAX \<or> sn_previous_epoch s \<noteq> sn_epoch s - 1 \<or>
     sn_bank s > 1 \<or> sn_slot s > 63 \<or> sn_state s < 1 \<or> sn_state s > 3 \<or>
     (sn_epoch s = 1 \<and> (sn_bank s \<noteq> 0 \<or> sn_slot s \<noteq> 0 \<or> sn_high_water s \<noteq> 0 \<or> sn_pending_kind s \<noteq> 0 \<or>
        sn_state s \<noteq> OWNED_CONTROL_PROVISIONING \<or> sn_retired s \<noteq> 0 \<or> sn_quarantine s \<noteq> 0 \<or> sn_open s \<noteq> 0)) \<or>
     (if sn_epoch s = 1 then \<not> all_eq (sn_previous_digest s) 0 else all_eq (sn_previous_digest s) 0) \<or>
     sn_retired s AND NOT (sn_quarantine s) \<noteq> 0 \<or> sn_open s AND sn_quarantine s \<noteq> 0"

definition ocj_pending_bad :: "ocj_snapshot \<Rightarrow> bool" where
  "ocj_pending_bad s \<longleftrightarrow> (sn_pending_kind s \<noteq> 0 \<and> sn_pending_kind s \<noteq> OWNED_CONTROL_ERASE_BLOCK) \<or>
     (if sn_pending_kind s = 0 then sn_pending_slot s \<noteq> UINT32_MAX \<or> sn_pending_lease s \<noteq> 0
      else sn_pending_slot s \<ge> 32 \<or> sn_pending_lease s = 0 \<or> \<not> slot_bit (sn_quarantine s) (sn_pending_slot s) \<or>
           slot_bit (sn_retired s) (sn_pending_slot s))"

definition ocj_block_bad :: "ocj_snapshot \<Rightarrow> nat \<Rightarrow> bool" where
  "ocj_block_bad s i = (let b = sn_blocks s ! i in
     bl_consumed b > 64 \<or>
     (bl_base b = 0 \<and> (bl_valid b \<noteq> 0 \<or> bl_range_sequence b \<noteq> 0 \<or> bl_consumed b \<noteq> 64)) \<or>
     (bl_base b \<noteq> 0 \<and> (bl_base b > UINT64_MAX - 64 \<or> bl_base b + 64 > sn_high_water s \<or> bl_range_sequence b = 0 \<or>
        bl_range_sequence b > sn_epoch s)) \<or>
     (bl_consumed b < 64 \<and> drop_bit (unat (bl_consumed b)) (bl_valid b) \<noteq> 0) \<or>
     (slot_bit (sn_open s) (of_nat i) \<and> (bl_base b = 0 \<or> bl_consumed b = 64)))"

definition ocj_range_clash :: "ocj_block \<Rightarrow> ocj_block \<Rightarrow> bool" where
  "ocj_range_clash b a \<longleftrightarrow> bl_base a \<noteq> 0 \<and> bl_base b \<le> bl_base a + 64 \<and> bl_base a \<le> bl_base b + 64"

definition ocj_ranges_bad :: "ocj_snapshot \<Rightarrow> nat \<Rightarrow> bool" where
  "ocj_ranges_bad s i = (bl_base (sn_blocks s ! i) \<noteq> 0 \<and>
     list_ex (\<lambda>k. ocj_range_clash (sn_blocks s ! i) (sn_blocks s ! k)) [0..<i])"

definition ocj_pending_block_bad :: "ocj_snapshot \<Rightarrow> bool" where
  "ocj_pending_block_bad s \<longleftrightarrow> sn_pending_kind s \<noteq> 0 \<and> (let b = sn_blocks s ! unat (sn_pending_slot s) in
     bl_base b \<noteq> sn_pending_lease s \<or> bl_valid b \<noteq> 0 \<or> bl_consumed b \<noteq> 64)"

definition ocj_syntax :: "ocj_snapshot \<Rightarrow> bool" where
  "ocj_syntax s =
    (if ocj_head_bad s then False else if ocj_pending_bad s then False
     else if list_ex (\<lambda>i. ocj_block_bad s i \<or> ocj_ranges_bad s i) [0..<32] then False
     else if ocj_pending_block_bad s then False else True)"

text \<open>The stores of \<open>ocj_encode\<close>, in order.\<close>

fun ocj_put_blocks :: "nat \<Rightarrow> ocj_block list \<Rightarrow> bytes \<Rightarrow> bytes" where
  "ocj_put_blocks at [] p = p"
| "ocj_put_blocks at (b # bs) p =
    (let p = put64 at (bl_base b) p; p = put64 (at + 8) (bl_valid b) p; p = put64 (at + 16) (bl_range_sequence b) p;
         p = put32 (at + 24) (bl_consumed b) p
     in ocj_put_blocks (at + 32) bs p)"

definition ocj_pending_row :: "owned_volume_decoded \<Rightarrow> ocj_snapshot \<Rightarrow> u32" where
  "ocj_pending_row v s = (if sn_pending_kind s \<noteq> 0 then vs_map_blocks (vd_spec v) ! unat (sn_pending_slot s) * 64 else UINT32_MAX)"

definition ocj_body :: "owned_volume_decoded \<Rightarrow> ocj_snapshot \<Rightarrow> bytes" where
  "ocj_body v s =
    (let p = blit 0 (replicate 1280 0) (replicate 4096 0xff); p = blit 0 ocj_magic p;
         p = put32 8 2 p; p = put32 12 256 p; p = blit 16 (vd_digest v) p;
         p = put64 48 (sn_epoch s) p; p = put64 56 (sn_previous_epoch s) p; p = blit 64 (sn_previous_digest s) p;
         p = put32 96 (sn_state s) p; p = put32 100 (sn_bank s) p; p = put32 104 (sn_slot s) p;
         p = put32 108 (vs_control_blocks (vd_spec v) ! unat (sn_bank s) * 64 + sn_slot s) p;
         p = put32 112 (1 - sn_bank s) p;
         p = put32 116 (sn_retired s) p; p = put32 120 (sn_quarantine s) p; p = put32 124 (sn_open s) p;
         p = put64 128 (sn_high_water s) p; p = put32 136 (sn_pending_kind s) p; p = put32 140 (sn_pending_slot s) p;
         p = put32 144 (ocj_pending_row v s) p;
         p = put64 152 (sn_pending_lease s) p; p = put32 160 4096 p; p = put32 164 1280 p
     in ocj_put_blocks 256 (sn_blocks s) p)"

definition ocj_image :: "owned_volume_decoded \<Rightarrow> ocj_snapshot \<Rightarrow> bytes" where
  "ocj_image v s = (let p = ocj_body v s in put32 252 (ocj_crc p) p)"

text \<open>\<open>ocj_encode\<close> behind its pointer guards: the result code and the output page.\<close>

definition ocj_encode_body :: "owned_volume_decoded \<Rightarrow> ocj_snapshot \<Rightarrow> sha_provider option \<Rightarrow> int \<times> bytes" where
  "ocj_encode_body v s h =
    (let p = ocj_image v s in
     case ocj_sha h p of None \<Rightarrow> (OCJ_FAULT, replicate 4096 0) | Some d \<Rightarrow> (OCJ_OK, blit 1280 d p))"

fun ocj_encode ::
  "owned_volume_decoded ptr \<Rightarrow> ocj_snapshot ptr \<Rightarrow> hash_arg \<Rightarrow> bytes ptr \<Rightarrow> int \<times> bytes ptr" where
  "ocj_encode (Ptr va v) (Ptr sa s) (Ptr ha h) (Ptr oa out) =
    (if \<not> ocj_syntax s \<or> overlap oa 4096 va sizeof_vd \<or> overlap oa 4096 sa sizeof_ocj_snapshot \<or>
        overlap oa 4096 ha sizeof_hash then (OCJ_ARGUMENT, Ptr oa out)
     else let (rc, p) = ocj_encode_body v s h in (rc, Ptr oa p))"
| "ocj_encode v s h out = (OCJ_ARGUMENT, out)"

text \<open>The field reads of \<open>ocj_decode\<close>.\<close>

definition ocj_block_at :: "bytes \<Rightarrow> nat \<Rightarrow> ocj_block" where
  "ocj_block_at p at = \<lparr>bl_base = get64 at p, bl_valid = get64 (at + 8) p, bl_range_sequence = get64 (at + 16) p,
     bl_consumed = get32 (at + 24) p\<rparr>"

definition ocj_read :: "u32 \<Rightarrow> u32 \<Rightarrow> bytes \<Rightarrow> ocj_snapshot" where
  "ocj_read bank slot p = \<lparr>sn_epoch = get64 48 p, sn_previous_epoch = get64 56 p, sn_high_water = get64 128 p,
     sn_previous_digest = part 64 32 p, sn_digest = replicate 32 0, sn_state = get32 96 p, sn_bank = bank, sn_slot = slot,
     sn_retired = get32 116 p, sn_quarantine = get32 120 p, sn_open = get32 124 p, sn_pending_kind = get32 136 p,
     sn_pending_slot = get32 140 p, sn_pending_lease = get64 152 p,
     sn_blocks = map (\<lambda>i. ocj_block_at p (256 + i * 32)) [0..<32]\<rparr>"

definition ocj_place_bad :: "owned_volume_decoded \<Rightarrow> u32 \<Rightarrow> u32 \<Rightarrow> bytes \<Rightarrow> bool" where
  "ocj_place_bad v bank slot p \<longleftrightarrow> part 16 32 p \<noteq> vd_digest v \<or> get32 100 p \<noteq> bank \<or> get32 104 p \<noteq> slot \<or>
     get32 108 p \<noteq> vs_control_blocks (vd_spec v) ! unat bank * 64 + slot \<or> get32 112 p \<noteq> 1 - bank \<or>
     get32 160 p \<noteq> 4096 \<or> get32 164 p \<noteq> 1280 \<or> \<not> all_eq (part 148 4 p) 0 \<or> \<not> all_eq (part 168 84 p) 0"

text \<open>\<open>ocj_decode\<close> behind its pointer guards: result code 0 (valid), 1 (torn or not a journal page) or an
  error, and the snapshot stored.\<close>

definition ocj_decode_body :: "owned_volume_decoded \<Rightarrow> u32 \<Rightarrow> u32 \<Rightarrow> sha_provider option \<Rightarrow> bytes \<Rightarrow> int \<times> ocj_snapshot" where
  "ocj_decode_body v bank slot h p =
    (if part 0 7 p = ascii ''OPNDCT1'' then (OCJ_CONFLICT, sn_zero)
     else if part 0 8 p \<noteq> ocj_magic \<or> get32 8 p \<noteq> 2 \<or> get32 12 p \<noteq> 256 \<or> get32 252 p \<noteq> ocj_crc p \<or>
        \<not> all_eq (part 1312 2784 p) 0xff then (1, sn_zero)
     else case ocj_sha h p of None \<Rightarrow> (OCJ_FAULT, sn_zero)
       | Some d \<Rightarrow>
         if d \<noteq> part 1280 32 p then (1, sn_zero)
         else if ocj_place_bad v bank slot p then (OCJ_CONFLICT, sn_zero)
         else if list_ex (\<lambda>i. \<not> all_eq (part (256 + i * 32 + 28) 4 p) 0) [0..<32] then (OCJ_CONFLICT, sn_zero)
         else let s = ocj_read bank slot p in
           if ocj_syntax s \<and> get32 144 p = ocj_pending_row v s then (OCJ_OK, s\<lparr>sn_digest := d\<rparr>) else (OCJ_CONFLICT, sn_zero))"

fun ocj_decode ::
  "owned_volume_decoded ptr \<Rightarrow> u32 \<Rightarrow> u32 \<Rightarrow> hash_arg \<Rightarrow> bytes ptr \<Rightarrow> ocj_snapshot ptr \<Rightarrow> int \<times> ocj_snapshot ptr" where
  "ocj_decode (Ptr va v) bank slot (Ptr ha h) (Ptr pa p) (Ptr sa s) =
    (if bank > 1 \<or> slot > 63 \<or> overlap sa sizeof_ocj_snapshot pa 4096 \<or> overlap sa sizeof_ocj_snapshot va sizeof_vd \<or>
        overlap sa sizeof_ocj_snapshot ha sizeof_hash then (OCJ_ARGUMENT, Ptr sa s)
     else let (rc, s) = ocj_decode_body v bank slot h p in (rc, Ptr sa s))"
| "ocj_decode v bank slot h p s = (OCJ_ARGUMENT, s)"

subsection \<open>Transitions\<close>

definition ocj_link_bad :: "ocj_snapshot \<Rightarrow> ocj_snapshot \<Rightarrow> bool" where
  "ocj_link_bad a b \<longleftrightarrow> sn_epoch b \<noteq> sn_epoch a + 1 \<or> sn_previous_epoch b \<noteq> sn_epoch a \<or>
     sn_previous_digest b \<noteq> sn_digest a \<or>
     (if sn_bank b = sn_bank a then sn_slot b \<noteq> sn_slot a + 1 else sn_slot b \<noteq> 0) \<or>
     sn_retired a AND NOT (sn_retired b) \<noteq> 0 \<or> sn_high_water b < sn_high_water a \<or>
     (sn_state a = OWNED_CONTROL_ACTIVE \<and> sn_state b = OWNED_CONTROL_PROVISIONING) \<or>
     (sn_state a = OWNED_CONTROL_READ_ONLY \<and> sn_state b \<noteq> OWNED_CONTROL_READ_ONLY)"

text \<open>One round of the loop over the blocks: refused, or whether the block got a new range.\<close>

definition ocj_new_range_bad :: "ocj_snapshot \<Rightarrow> ocj_snapshot \<Rightarrow> nat \<Rightarrow> bool" where
  "ocj_new_range_bad a b i = (let y = sn_blocks b ! i in
     sn_pending_kind b \<noteq> OWNED_CONTROL_ERASE_BLOCK \<or> unat (sn_pending_slot b) \<noteq> i \<or> sn_high_water a > UINT64_MAX - 65 \<or>
     bl_base y \<noteq> sn_high_water a + 1 \<or> bl_valid y \<noteq> 0 \<or> bl_range_sequence y \<noteq> sn_epoch b \<or> sn_high_water b \<noteq> bl_base y + 64)"

definition ocj_same_range_bad :: "ocj_snapshot \<Rightarrow> ocj_snapshot \<Rightarrow> nat \<Rightarrow> bool" where
  "ocj_same_range_bad a b i = (let x = sn_blocks a ! i; y = sn_blocks b ! i in
     bl_valid x AND NOT (bl_valid y) \<noteq> 0 \<or> bl_range_sequence y \<noteq> bl_range_sequence x \<or>
     (bl_consumed y < bl_consumed x \<and> \<not> (sn_pending_kind a \<noteq> 0 \<and> unat (sn_pending_slot a) = i \<and> sn_pending_kind b = 0)))"

definition ocj_reopen_bad :: "ocj_snapshot \<Rightarrow> ocj_snapshot \<Rightarrow> nat \<Rightarrow> bool" where
  "ocj_reopen_bad a b i = (let y = sn_blocks b ! i in
     slot_bit ((sn_quarantine a AND NOT (sn_quarantine b)) OR (sn_open b AND NOT (sn_open a))) (of_nat i) \<and>
     (sn_pending_kind a = 0 \<or> unat (sn_pending_slot a) \<noteq> i \<or> sn_pending_kind b \<noteq> 0 \<or> bl_consumed y \<noteq> 0 \<or> bl_valid y \<noteq> 0 \<or>
      \<not> slot_bit (sn_open b) (of_nat i) \<or> slot_bit (sn_quarantine b) (of_nat i)))"

definition ocj_changed :: "ocj_snapshot \<Rightarrow> ocj_snapshot \<Rightarrow> nat \<Rightarrow> bool" where
  "ocj_changed a b i \<longleftrightarrow> bl_base (sn_blocks b ! i) \<noteq> bl_base (sn_blocks a ! i)"

definition ocj_transition :: "ocj_snapshot \<Rightarrow> ocj_snapshot \<Rightarrow> bool" where
  "ocj_transition a b =
    (if ocj_link_bad a b then False
     else if sn_pending_kind a \<noteq> 0 \<and> sn_pending_kind b \<noteq> 0 then False
     else if list_ex (\<lambda>i. (if ocj_changed a b i then ocj_new_range_bad a b i else ocj_same_range_bad a b i) \<or>
         ocj_reopen_bad a b i) [0..<32] then False
     else let changed = length (List.filter (ocj_changed a b) [0..<32]) in
       \<not> (changed > 1 \<or> (changed = 0 \<and> sn_high_water b \<noteq> sn_high_water a) \<or> (sn_pending_kind b \<noteq> 0 \<and> changed = 0)))"

section \<open>Pages\<close>

text \<open>The 32 bytes of a block entry, with their zero padding.\<close>

definition ocj_block_bytes :: "ocj_block \<Rightarrow> bytes" where
  "ocj_block_bytes b = le_bytes 8 (bl_base b) @ le_bytes 8 (bl_valid b) @ le_bytes 8 (bl_range_sequence b) @
     le_bytes 4 (bl_consumed b) @ replicate 4 0"

definition ocj_blocks_bytes :: "ocj_block list \<Rightarrow> bytes" where
  "ocj_blocks_bytes bs = concat (map ocj_block_bytes bs)"

lemma length_ocj_block_bytes [simp]: "length (ocj_block_bytes b) = 32"
  by (simp add: ocj_block_bytes_def)

lemma length_ocj_blocks_bytes [simp]: "length (ocj_blocks_bytes bs) = 32 * length bs"
  by (induction bs) (simp_all add: ocj_blocks_bytes_def)

lemma length_ocj_put_blocks [simp]: "length (ocj_put_blocks at bs p) = length p"
  by (induction at bs p rule: ocj_put_blocks.induct) (simp_all add: Let_def)

lemma blit_zero_id:
  assumes "part at n p = replicate n 0" and "at + n \<le> length p"
  shows "blit at (replicate n 0) p = p"
proof (rule nth_equalityI)
  fix i assume "i < length (blit at (replicate n 0) p)"
  moreover have "p ! i = 0" if "at \<le> i" "i < at + n"
    using that assms nth_part [of "i - at" n at p] by simp
  ultimately show "blit at (replicate n 0) p ! i = p ! i" by (auto simp: nth_blit)
qed simp

lemma ocj_put_block:
  assumes "part at 32 p = replicate 32 0" and "at + 32 \<le> length p"
  shows "put32 (at + 24) (bl_consumed b) (put64 (at + 16) (bl_range_sequence b)
      (put64 (at + 8) (bl_valid b) (put64 at (bl_base b) p))) = blit at (ocj_block_bytes b) p"
proof -
  let ?q = "put32 (at + 24) (bl_consumed b) (put64 (at + 16) (bl_range_sequence b)
      (put64 (at + 8) (bl_valid b) (put64 at (bl_base b) p)))"
  have "part (at + 28) 4 p = replicate 4 0"
    using arg_cong [OF assms(1), of "part 28 4"] by (simp add: part_part part_replicate)
  then have "part (at + 28) 4 ?q = replicate 4 0" by (simp add: put32_def put64_def part_blit_after)
  then have "blit (at + 28) (replicate 4 0) ?q = ?q" using assms(2) by (intro blit_zero_id) simp_all
  then show ?thesis by (simp add: ocj_block_bytes_def blit_app put32_def put64_def add.assoc)
qed

lemma ocj_put_blocks_blit:
  assumes "part at (32 * length bs) p = replicate (32 * length bs) 0" and "at + 32 * length bs \<le> length p"
  shows "ocj_put_blocks at bs p = blit at (ocj_blocks_bytes bs) p"
  using assms
proof (induction at bs p rule: ocj_put_blocks.induct)
  case (1 at p)
  then show ?case by (simp add: ocj_blocks_bytes_def)
next
  case (2 at b bs p)
  have z: "part at 32 p = replicate 32 0"
    using arg_cong [OF 2(2), of "part 0 32"] by (simp add: part_part part_replicate)
  have z2: "part (at + 32) (32 * length bs) p = replicate (32 * length bs) 0"
    using arg_cong [OF 2(2), of "part 32 (32 * length bs)"] by (simp add: part_part part_replicate)
  have "ocj_put_blocks (at + 32) bs (blit at (ocj_block_bytes b) p) =
      blit (at + 32) (ocj_blocks_bytes bs) (blit at (ocj_block_bytes b) p)"
    using 2(1) [OF refl refl refl refl] z z2 2(3) by (simp add: ocj_put_block part_blit_after)
  then show ?case using z 2(3) by (simp add: ocj_put_block ocj_blocks_bytes_def blit_app)
qed

text \<open>The consecutive fields of a page.\<close>

abbreviation ocj_layout :: "nat list" where
  "ocj_layout \<equiv> [8, 4, 4, 32, 8, 8, 32, 4, 4, 4, 4, 4, 4, 4, 4, 8, 4, 4, 4, 4, 8, 4, 4, 84, 4, 1024, 32, 2784]"

definition wf_vd :: "owned_volume_decoded \<Rightarrow> bool" where
  "wf_vd v \<longleftrightarrow> length (vd_digest v) = 32"

lemma length_ocj_magic [simp]: "length ocj_magic = 8"
  by (simp add: ocj_magic_def)

lemma length_ocj_body [simp]: "length (ocj_body v s) = 4096"
  by (simp add: ocj_body_def Let_def)

lemma ocj_body_blit:
  assumes "wf_sn s" and "wf_vd v"
  shows "ocj_body v s = blit 256 (ocj_blocks_bytes (sn_blocks s)) (ocj_body v (s\<lparr>sn_blocks := []\<rparr>))"
proof -
  have "part 256 1024 (ocj_body v (s\<lparr>sn_blocks := []\<rparr>)) = replicate 1024 0"
    using assms by (simp add: ocj_body_def Let_def wf_sn_def wf_vd_def put32_def put64_def buf)
  then have "ocj_put_blocks 256 (sn_blocks s) (ocj_body v (s\<lparr>sn_blocks := []\<rparr>)) =
      blit 256 (ocj_blocks_bytes (sn_blocks s)) (ocj_body v (s\<lparr>sn_blocks := []\<rparr>))"
    using assms(1) by (intro ocj_put_blocks_blit) (simp_all add: wf_sn_def)
  moreover have "ocj_body v s = ocj_put_blocks 256 (sn_blocks s) (ocj_body v (s\<lparr>sn_blocks := []\<rparr>))"
    by (simp add: ocj_body_def Let_def ocj_pending_row_def)
  ultimately show ?thesis by simp
qed

lemma ocj_body_fields:
  assumes "wf_sn s" and "wf_vd v"
  shows "part 0 8 (ocj_body v s) = ocj_magic" "part 8 4 (ocj_body v s) = le_bytes 4 (2::u32)"
    "part 12 4 (ocj_body v s) = le_bytes 4 (256::u32)" "part 16 32 (ocj_body v s) = vd_digest v"
    "part 48 8 (ocj_body v s) = le_bytes 8 (sn_epoch s)" "part 56 8 (ocj_body v s) = le_bytes 8 (sn_previous_epoch s)"
    "part 64 32 (ocj_body v s) = sn_previous_digest s" "part 96 4 (ocj_body v s) = le_bytes 4 (sn_state s)"
    "part 100 4 (ocj_body v s) = le_bytes 4 (sn_bank s)" "part 104 4 (ocj_body v s) = le_bytes 4 (sn_slot s)"
    "part 108 4 (ocj_body v s) = le_bytes 4 (vs_control_blocks (vd_spec v) ! unat (sn_bank s) * 64 + sn_slot s)"
    "part 112 4 (ocj_body v s) = le_bytes 4 (1 - sn_bank s)" "part 116 4 (ocj_body v s) = le_bytes 4 (sn_retired s)"
    "part 120 4 (ocj_body v s) = le_bytes 4 (sn_quarantine s)" "part 124 4 (ocj_body v s) = le_bytes 4 (sn_open s)"
    "part 128 8 (ocj_body v s) = le_bytes 8 (sn_high_water s)" "part 136 4 (ocj_body v s) = le_bytes 4 (sn_pending_kind s)"
    "part 140 4 (ocj_body v s) = le_bytes 4 (sn_pending_slot s)" "part 144 4 (ocj_body v s) = le_bytes 4 (ocj_pending_row v s)"
    "part 148 4 (ocj_body v s) = replicate 4 0" "part 152 8 (ocj_body v s) = le_bytes 8 (sn_pending_lease s)"
    "part 160 4 (ocj_body v s) = le_bytes 4 (4096::u32)" "part 164 4 (ocj_body v s) = le_bytes 4 (1280::u32)"
    "part 168 84 (ocj_body v s) = replicate 84 0" "part 256 1024 (ocj_body v s) = ocj_blocks_bytes (sn_blocks s)"
    "part 1312 2784 (ocj_body v s) = replicate 2784 0xff"
proof -
  show "part 256 1024 (ocj_body v s) = ocj_blocks_bytes (sn_blocks s)"
    unfolding ocj_body_blit [OF assms] using assms(1) by (intro part_blit_same) (simp_all add: wf_sn_def)
qed (unfold ocj_body_blit [OF assms], use assms in \<open>simp_all add: part_blit_before part_blit_after wf_sn_def\<close>,
     simp_all add: ocj_body_def Let_def ocj_pending_row_def wf_sn_def wf_vd_def put32_def put64_def buf)

lemma ocj_block_at_iff:
  assumes "at + 32 \<le> length p"
  shows "ocj_block_at p at = b \<and> part (at + 28) 4 p = replicate 4 0 \<longleftrightarrow> part at 32 p = ocj_block_bytes b"
proof -
  have "part at 32 p = part at 8 p @ part (at + 8) 8 p @ part (at + 16) 8 p @ part (at + 24) 4 p @ part (at + 28) 4 p"
    using part_add [of at 8 24 p] part_add [of "at + 8" 8 16 p] part_add [of "at + 16" 8 8 p] part_add [of "at + 24" 4 4 p]
    by (simp add: add.commute)
  moreover have "ocj_block_at p at = b \<longleftrightarrow> part at 8 p = le_bytes 8 (bl_base b) \<and> part (at + 8) 8 p = le_bytes 8 (bl_valid b) \<and>
      part (at + 16) 8 p = le_bytes 8 (bl_range_sequence b) \<and> part (at + 24) 4 p = le_bytes 4 (bl_consumed b)"
    using assms by (cases b) (simp add: ocj_block_at_def get_eq_iff)
  ultimately show ?thesis using assms by (auto simp: ocj_block_bytes_def)
qed

lemma ocj_blocks_iff:
  assumes "at + 32 * length bs \<le> length p"
  shows "(\<forall>i<length bs. ocj_block_at p (at + i * 32) = bs ! i \<and> part (at + i * 32 + 28) 4 p = replicate 4 0) \<longleftrightarrow>
    part at (32 * length bs) p = ocj_blocks_bytes bs"
  using assms
proof (induction bs arbitrary: at)
  case Nil
  then show ?case by (simp add: ocj_blocks_bytes_def part_def)
next
  case (Cons b bs)
  have "(\<forall>i<length (b # bs). ocj_block_at p (at + i * 32) = (b # bs) ! i \<and> part (at + i * 32 + 28) 4 p = replicate 4 0) \<longleftrightarrow>
      (ocj_block_at p at = b \<and> part (at + 28) 4 p = replicate 4 0) \<and>
      (\<forall>i<length bs. ocj_block_at p (at + 32 + i * 32) = bs ! i \<and> part (at + 32 + i * 32 + 28) 4 p = replicate 4 0)"
    by (simp add: All_less_Suc2 add.assoc)
  also have "\<dots> \<longleftrightarrow> part at 32 p = ocj_block_bytes b \<and> part (at + 32) (32 * length bs) p = ocj_blocks_bytes bs"
    using Cons.IH [of "at + 32"] Cons.prems ocj_block_at_iff [of at p b] by simp
  also have "\<dots> \<longleftrightarrow> part at (32 * length (b # bs)) p = ocj_blocks_bytes (b # bs)"
    using Cons.prems by (auto simp: part_add [of at 32] ocj_blocks_bytes_def)
  finally show ?case .
qed

lemma length_ocj_image [simp]: "length (ocj_image v s) = 4096"
  by (simp add: ocj_image_def Let_def)

lemma ocj_image_part: "off + n \<le> 252 \<or> 256 \<le> off \<Longrightarrow> part off n (ocj_image v s) = part off n (ocj_body v s)"
  by (auto simp: ocj_image_def Let_def put32_def part_blit_before part_blit_after)

lemma ocj_crc_put: "length p = 4096 \<Longrightarrow> ocj_crc (put32 252 c p) = ocj_crc p"
  by (simp add: ocj_crc_def put32_def part_blit_prefix crc_mask_blit)

lemma ocj_image_crc: "part 252 4 (ocj_image v s) = le_bytes 4 (ocj_crc (ocj_image v s))"
  by (simp add: ocj_image_def Let_def ocj_crc_put) (simp add: put32_def buf)

text \<open>The finished page: the image with the digest \<open>d\<close>.\<close>

definition ocj_page :: "owned_volume_decoded \<Rightarrow> ocj_snapshot \<Rightarrow> bytes \<Rightarrow> bytes" where
  "ocj_page v s d = blit 1280 d (ocj_image v s)"

definition ocj_page_ok :: "owned_volume_decoded \<Rightarrow> ocj_snapshot \<Rightarrow> bytes \<Rightarrow> bool" where
  "ocj_page_ok v s p \<longleftrightarrow> part 0 8 p = ocj_magic \<and> get32 8 p = 2 \<and> get32 12 p = 256 \<and> get32 252 p = ocj_crc p \<and>
     all_eq (part 1312 2784 p) 0xff \<and> \<not> ocj_place_bad v (sn_bank s) (sn_slot s) p \<and>
     (\<forall>i<32. all_eq (part (256 + i * 32 + 28) 4 p) 0) \<and>
     ocj_read (sn_bank s) (sn_slot s) p = s\<lparr>sn_digest := replicate 32 0\<rparr> \<and> get32 144 p = ocj_pending_row v s"

lemma ocj_crc_cong:
  assumes "length p = 4096" and "length q = 4096" and "part 0 252 p = part 0 252 q" and "part 256 1024 p = part 256 1024 q"
  shows "ocj_crc p = ocj_crc q"
proof -
  have "crc_mask 252 256 (part 0 1280 p) = crc_mask 252 256 (part 0 1280 q)"
    by (rule crc_mask_cong) (use assms in \<open>simp_all add: part_part\<close>)
  then show ?thesis by (simp add: ocj_crc_def)
qed

lemma ocj_read_iff:
  assumes "length p = 4096" and "wf_sn s"
  shows "ocj_read (sn_bank s) (sn_slot s) p = s\<lparr>sn_digest := replicate 32 0\<rparr> \<and> (\<forall>i<32. all_eq (part (256 + i * 32 + 28) 4 p) 0) \<longleftrightarrow>
    part 48 8 p = le_bytes 8 (sn_epoch s) \<and> part 56 8 p = le_bytes 8 (sn_previous_epoch s) \<and>
    part 64 32 p = sn_previous_digest s \<and> part 96 4 p = le_bytes 4 (sn_state s) \<and> part 116 4 p = le_bytes 4 (sn_retired s) \<and>
    part 120 4 p = le_bytes 4 (sn_quarantine s) \<and> part 124 4 p = le_bytes 4 (sn_open s) \<and>
    part 128 8 p = le_bytes 8 (sn_high_water s) \<and> part 136 4 p = le_bytes 4 (sn_pending_kind s) \<and>
    part 140 4 p = le_bytes 4 (sn_pending_slot s) \<and> part 152 8 p = le_bytes 8 (sn_pending_lease s) \<and>
    part 256 1024 p = ocj_blocks_bytes (sn_blocks s)"
proof -
  have b: "map (\<lambda>i. ocj_block_at p (256 + i * 32)) [0..<32] = sn_blocks s \<and> (\<forall>i<32. all_eq (part (256 + i * 32 + 28) 4 p) 0) \<longleftrightarrow>
      part 256 1024 p = ocj_blocks_bytes (sn_blocks s)"
  proof -
    have l: "length (sn_blocks s) = 32" using assms(2) by (simp add: wf_sn_def)
    have "map (\<lambda>i. ocj_block_at p (256 + i * 32)) [0..<32] = sn_blocks s \<longleftrightarrow> (\<forall>i<32. ocj_block_at p (256 + i * 32) = sn_blocks s ! i)"
      using l by (simp add: list_eq_iff_nth_eq)
    moreover have "all_eq (part (256 + i * 32 + 28) 4 p) 0 \<longleftrightarrow> part (256 + i * 32 + 28) 4 p = replicate 4 0" if "i < 32" for i
    proof -
      have "length (part (256 + i * 32 + 28) 4 p) = 4" using that assms(1) by simp
      then show ?thesis by (simp only: all_eq_iff)
    qed
    ultimately show ?thesis using ocj_blocks_iff [of 256 "sn_blocks s" p] l assms(1) by auto
  qed
  show ?thesis
    using assms(1) b by (cases s) (auto simp: ocj_read_def get_eq_iff)
qed

lemma ocj_page_parts:
  assumes "length d = 32"
  shows "part 0 1280 (ocj_page v s d) = part 0 1280 (ocj_image v s)" "part 1280 32 (ocj_page v s d) = d"
    "part 1312 2784 (ocj_page v s d) = part 1312 2784 (ocj_image v s)" "length (ocj_page v s d) = 4096"
  using assms by (simp_all add: ocj_page_def part_blit_before part_blit_after part_blit_same)

lemma ocj_page_part:
  "length d = 32 \<Longrightarrow> off + n \<le> 252 \<Longrightarrow> part off n (ocj_page v s d) = part off n (ocj_body v s)"
  "length d = 32 \<Longrightarrow> part 256 1024 (ocj_page v s d) = part 256 1024 (ocj_body v s)"
  "length d = 32 \<Longrightarrow> part 1312 2784 (ocj_page v s d) = part 1312 2784 (ocj_body v s)"
  by (simp_all add: ocj_page_def part_blit_before part_blit_after ocj_image_part)

lemma ocj_page_crc: "length d = 32 \<Longrightarrow> part 252 4 (ocj_page v s d) = le_bytes 4 (ocj_crc (ocj_page v s d))"
proof -
  assume d: "length d = 32"
  have "ocj_crc (ocj_page v s d) = ocj_crc (ocj_image v s)"
    by (rule ocj_crc_cong) (use d in \<open>simp_all add: ocj_page_def part_blit_before\<close>)
  then show ?thesis using d by (simp add: ocj_page_def part_blit_before ocj_image_crc)
qed

lemma ocj_page_ok_iff:
  assumes "wf_sn s" and "wf_vd v" and "length p = 4096"
  shows "ocj_page_ok v s p \<longleftrightarrow> p = ocj_page v s (part 1280 32 p)"
proof
  let ?d = "part 1280 32 p"
  have d: "length ?d = 32" using assms(3) by simp
  note pf = ocj_page_part [OF d] ocj_body_fields [OF assms(1,2)]
  assume ok: "ocj_page_ok v s p"
  then have r: "ocj_read (sn_bank s) (sn_slot s) p = s\<lparr>sn_digest := replicate 32 0\<rparr> \<and> (\<forall>i<32. all_eq (part (256 + i * 32 + 28) 4 p) 0)"
    by (simp add: ocj_page_ok_def)
  have f: "part 0 8 p = ocj_magic" "part 8 4 p = le_bytes 4 (2::u32)" "part 12 4 p = le_bytes 4 (256::u32)"
    "part 252 4 p = le_bytes 4 (ocj_crc p)" "part 1312 2784 p = replicate 2784 0xff"
    "part 144 4 p = le_bytes 4 (ocj_pending_row v s)" "\<not> ocj_place_bad v (sn_bank s) (sn_slot s) p"
    using ok assms(3) by (simp_all add: ocj_page_ok_def get_eq_iff all_eq_iff)
  note g = f(7) [unfolded ocj_place_bad_def de_Morgan_disj not_not]
  have h: "part 16 32 p = vd_digest v" "part 100 4 p = le_bytes 4 (sn_bank s)" "part 104 4 p = le_bytes 4 (sn_slot s)"
    "part 108 4 p = le_bytes 4 (vs_control_blocks (vd_spec v) ! unat (sn_bank s) * 64 + sn_slot s)"
    "part 112 4 p = le_bytes 4 (1 - sn_bank s)" "part 160 4 p = le_bytes 4 (4096::u32)" "part 164 4 p = le_bytes 4 (1280::u32)"
    "part 148 4 p = replicate 4 0" "part 168 84 p = replicate 84 0"
    using g assms(3) by (simp_all add: get_eq_iff all_eq_iff)
  note rf = r [unfolded ocj_read_iff [OF assms(3,1)]]
  have body: "same_fields 0 [8, 4, 4, 32, 8, 8, 32, 4, 4, 4, 4, 4, 4, 4, 4, 8, 4, 4, 4, 4, 8, 4, 4, 84] p (ocj_page v s ?d)"
    using f h rf by (simp add: pf)
  have "part 0 252 p = part 0 252 (ocj_page v s ?d)"
    using same_fields_part [OF body] by simp
  moreover have b: "part 256 1024 p = part 256 1024 (ocj_page v s ?d)" using rf by (simp add: pf)
  ultimately have "ocj_crc p = ocj_crc (ocj_page v s ?d)"
    by (intro ocj_crc_cong) (use assms(3) d ocj_page_parts(4) in simp_all)
  then have "part 252 4 p = part 252 4 (ocj_page v s ?d)" using f(4) ocj_page_crc [OF d, of v s] by simp
  then have "same_fields 0 ocj_layout p (ocj_page v s ?d)"
    using body b f(5) ocj_page_parts(2) [OF d, of v s] by (simp add: pf(3) ocj_body_fields(26) [OF assms(1,2)])
  then show "p = ocj_page v s ?d"
    by (rule eq_by_fields) (use assms(3) d ocj_page_parts(4) in simp_all)
next
  assume p0: "p = ocj_page v s (part 1280 32 p)"
  define d where "d = part 1280 32 p"
  have d: "length d = 32" using assms(3) by (simp add: d_def)
  have p: "p = ocj_page v s d" using p0 unfolding d_def .
  note pf = ocj_page_part [OF d] ocj_body_fields [OF assms(1,2)]
  have "ocj_read (sn_bank s) (sn_slot s) p = s\<lparr>sn_digest := replicate 32 0\<rparr> \<and> (\<forall>i<32. all_eq (part (256 + i * 32 + 28) 4 p) 0)"
    unfolding ocj_read_iff [OF assms(3,1)] by (simp add: p pf)
  moreover have "\<not> ocj_place_bad v (sn_bank s) (sn_slot s) p"
    using assms(3) by (simp add: ocj_place_bad_def get_eq_iff all_eq_iff) (simp add: p pf)
  moreover have "get32 252 p = ocj_crc p" using assms(3) ocj_page_crc [OF d, of v s] by (simp add: get_eq_iff p)
  moreover have "part 0 8 p = ocj_magic \<and> get32 8 p = 2 \<and> get32 12 p = 256 \<and> all_eq (part 1312 2784 p) 0xff \<and>
      get32 144 p = ocj_pending_row v s"
    using assms(3) by (simp add: get_eq_iff all_eq_iff) (simp add: p pf)
  ultimately show "ocj_page_ok v s p" by (simp add: ocj_page_ok_def)
qed

text \<open>Neither the image nor the admissibility rules look at the stored digest.\<close>

lemma ocj_digest_irrelevant [simp]:
  "ocj_syntax (s\<lparr>sn_digest := d\<rparr>) = ocj_syntax s" "ocj_image v (s\<lparr>sn_digest := d\<rparr>) = ocj_image v s"
  "ocj_pending_row v (s\<lparr>sn_digest := d\<rparr>) = ocj_pending_row v s"
  by (simp_all add: ocj_syntax_def ocj_head_bad_def ocj_pending_bad_def ocj_block_bad_def ocj_ranges_bad_def
      ocj_pending_block_bad_def ocj_image_def ocj_body_def ocj_pending_row_def Let_def)

lemma ocj_sha_page: "length d = 32 \<Longrightarrow> ocj_sha h (ocj_page v s d) = ocj_sha h (ocj_image v s)"
  by (cases h) (simp_all add: ocj_sha_def ocj_page_parts(1))

lemma ocj_sha_length: "ocj_sha h p = Some d \<Longrightarrow> length d = 32"
  by (auto simp: ocj_sha_def dest: sha_run_length split: option.splits)

lemma ocj_magic_differs: "part 0 8 p = ocj_magic \<Longrightarrow> part 0 7 p \<noteq> ascii ''OPNDCT1''"
proof
  assume "part 0 8 p = ocj_magic" "part 0 7 p = ascii ''OPNDCT1''"
  then have "part 0 7 ocj_magic = ascii ''OPNDCT1''" using arg_cong [of _ _ "part 0 7"] by (simp add: part_part flip: \<open>part 0 8 p = _\<close>)
  then show False by (simp add: ocj_magic_def ascii_def part_def)
qed

lemma ocj_read_digest: "(ocj_read bank slot p)\<lparr>sn_digest := replicate 32 0\<rparr> = ocj_read bank slot p"
  by (simp add: ocj_read_def)

lemma ocj_decode_iff:
  assumes "wf_vd v" and "length p = 4096"
  shows "ocj_decode_body v bank slot h p = (OCJ_OK, s) \<longleftrightarrow>
    sn_bank s = bank \<and> sn_slot s = slot \<and> wf_sn s \<and> ocj_syntax s \<and> ocj_encode_body v s h = (OCJ_OK, p) \<and>
    sn_digest s = part 1280 32 p" (is "?L \<longleftrightarrow> ?R")
proof
  assume ?L
  then obtain d where d: "ocj_sha h p = Some d" "d = part 1280 32 p" "s = (ocj_read bank slot p)\<lparr>sn_digest := d\<rparr>"
    and ok: "ocj_syntax (ocj_read bank slot p)" "get32 144 p = ocj_pending_row v (ocj_read bank slot p)"
      "part 0 8 p = ocj_magic" "get32 8 p = 2" "get32 12 p = 256" "get32 252 p = ocj_crc p" "all_eq (part 1312 2784 p) 0xff"
      "\<not> ocj_place_bad v bank slot p" "\<forall>i<32. all_eq (part (256 + i * 32 + 28) 4 p) 0"
    by (auto simp: ocj_decode_body_def Let_def list_ex_iff split: if_split_asm option.split_asm)
  have w: "wf_sn s" and bs: "sn_bank s = bank" "sn_slot s = slot"
    using d assms(2) by (simp_all add: wf_sn_def ocj_read_def)
  have "ocj_page_ok v s p"
    using ok bs d(3) unfolding ocj_page_ok_def by (simp add: ocj_read_digest)
  then have "p = ocj_page v s (part 1280 32 p)" using ocj_page_ok_iff [OF w assms] by blast
  then have pg: "p = ocj_page v s d" using d(2) by simp
  have "ocj_sha h (ocj_image v s) = Some d"
    using d(1) ocj_sha_page [OF ocj_sha_length [OF d(1)], of h v s] pg by simp
  then have "ocj_encode_body v s h = (OCJ_OK, p)" using pg by (simp add: ocj_encode_body_def Let_def ocj_page_def)
  then show ?R using w bs ok(1) d(2,3) by simp
next
  assume r: ?R
  then obtain d where d: "ocj_sha h (ocj_image v s) = Some d" "p = ocj_page v s d"
    by (auto simp: ocj_encode_body_def ocj_page_def Let_def split: option.splits)
  have ld: "length d = 32" using ocj_sha_length [OF d(1)] .
  have dd: "part 1280 32 p = d" using d(2) ocj_page_parts(2) [OF ld] by simp
  then have "ocj_page_ok v s p" using ocj_page_ok_iff [of s v p] r assms d(2) by simp
  moreover have "ocj_sha h p = Some d" using d ocj_sha_page [OF ld] by simp
  moreover have "s\<lparr>sn_digest := replicate 32 0\<rparr>\<lparr>sn_digest := d\<rparr> = s" using r dd by (cases s) simp
  ultimately show ?L
    using r dd ocj_magic_differs [of p] unfolding ocj_page_ok_def
    by (auto simp: ocj_decode_body_def Let_def list_ex_iff)
qed

end
