(* ===== verification/Control_Journal.thy ===== *)
theory Control_Journal
  imports Journal_Codec
begin

text \<open>
  The owned control journal (\<open>owned_control_journal.c\<close>): boot, provisioning, reconciliation, activation,
  the lease operations of the map (acquire, resolve, retire, page query) and the durable history sync,
  on top of the page codec.  The physical callbacks of \<open>struct ocj_io\<close> are parameters: functions on an
  environment state that may return anything.  Flags that the code sets to 0 or 1 only are booleans.
\<close>

section \<open>Model\<close>

abbreviation OCJ_MAGIC :: u32 where "OCJ_MAGIC \<equiv> 0x4f434a32"
abbreviation OCJ_ADMIT_BOOT :: u32 where "OCJ_ADMIT_BOOT \<equiv> 1"
abbreviation OCJ_ADMIT_PROVISION :: u32 where "OCJ_ADMIT_PROVISION \<equiv> 2"
abbreviation OCJ_ADMIT_RECYCLE :: u32 where "OCJ_ADMIT_RECYCLE \<equiv> 3"
abbreviation OCJ_ADMIT_MAP :: u32 where "OCJ_ADMIT_MAP \<equiv> 4"
abbreviation OCJ_ADMIT_ACTIVE :: u32 where "OCJ_ADMIT_ACTIVE \<equiv> 5"
abbreviation OCJ_IO_OK :: int where "OCJ_IO_OK \<equiv> 0"
abbreviation OCJ_IO_CHECKED_RAW :: int where "OCJ_IO_CHECKED_RAW \<equiv> 1"
abbreviation OCJ_IO_MEDIA :: int where "OCJ_IO_MEDIA \<equiv> 2"
abbreviation OCJ_IO_UNCERTAIN :: int where "OCJ_IO_UNCERTAIN \<equiv> -2"
abbreviation OD_PAGE_UNUSED :: u32 where "OD_PAGE_UNUSED \<equiv> 1"
abbreviation OD_PAGE_COMMITTED :: u32 where "OD_PAGE_COMMITTED \<equiv> 2"
abbreviation OD_PAGE_ABANDONED :: u32 where "OD_PAGE_ABANDONED \<equiv> 3"
abbreviation sizeof_ocj :: nat where "sizeof_ocj \<equiv> 20928"
abbreviation sizeof_ocj_io :: nat where "sizeof_ocj_io \<equiv> 36"
abbreviation sizeof_od_lease :: nat where "sizeof_od_lease \<equiv> 72"
abbreviation sizeof_od_capability :: nat where "sizeof_od_capability \<equiv> 88"
abbreviation sizeof_od_page_info :: nat where "sizeof_od_page_info \<equiv> 16"

record owned_dhara_page_info =
  pi_state :: u32
  pi_lease_id :: u64

record owned_dhara_capability =
  cap_descriptor_digest :: bytes
  cap_control_digest :: bytes
  cap_sequence :: u64
  cap_lease_high_water :: u64
  cap_state :: u32
  cap_retired_map :: u32

record owned_dhara_lease =
  le_descriptor_digest :: bytes
  le_sequence :: u64
  le_lease_id :: u64
  le_range_base :: u64
  le_kind :: u32
  le_map_slot :: u32
  le_physical_row :: u32

definition lease_zero :: owned_dhara_lease where
  "lease_zero = \<lparr>le_descriptor_digest = replicate 32 0, le_sequence = 0, le_lease_id = 0, le_range_base = 0,
     le_kind = 0, le_map_slot = 0, le_physical_row = 0\<rparr>"

record 'e ocj_io =
  io_now_ms :: "('e \<Rightarrow> u64 \<times> 'e) option"
  io_admit :: "(u32 \<Rightarrow> bytes \<Rightarrow> u32 \<Rightarrow> u64 \<Rightarrow> u64 \<Rightarrow> 'e \<Rightarrow> int \<times> 'e) option"
  io_read :: "(u32 \<Rightarrow> u64 \<Rightarrow> 'e \<Rightarrow> int \<times> bytes \<times> 'e) option"
  io_raw :: "(u32 \<Rightarrow> u64 \<Rightarrow> 'e \<Rightarrow> int \<times> bytes \<times> 'e) option"
  io_erase :: "(u32 \<Rightarrow> u64 \<Rightarrow> 'e \<Rightarrow> int \<times> 'e) option"
  io_program :: "(u32 \<Rightarrow> bytes \<Rightarrow> u64 \<Rightarrow> 'e \<Rightarrow> int \<times> 'e) option"
  io_fault_latched :: "('e \<Rightarrow> int \<times> 'e) option"
  io_latch_fault :: "(u32 \<Rightarrow> u64 \<Rightarrow> 'e \<Rightarrow> int \<times> 'e) option"

definition ocj_io_complete :: "'e ocj_io \<Rightarrow> bool" where
  "ocj_io_complete io \<longleftrightarrow> io_now_ms io \<noteq> None \<and> io_admit io \<noteq> None \<and> io_read io \<noteq> None \<and> io_raw io \<noteq> None \<and>
     io_erase io \<noteq> None \<and> io_program io \<noteq> None \<and> io_fault_latched io \<noteq> None \<and> io_latch_fault io \<noteq> None"

text \<open>\<open>struct owned_control_journal\<close>; \<open>ocj_env\<close> is the environment behind \<open>io.user\<close>.\<close>

record 'e owned_control_journal =
  ocj_initialized :: u32
  ocj_busy :: bool
  ocj_fault :: bool
  ocj_retained :: bool
  ocj_booted :: bool
  ocj_reconciled :: bool
  ocj_tail_fresh :: bool
  ocj_next_slot :: u32
  ocj_fresh_map :: u32
  ocj_map_inflight :: bool
  ocj_deadline :: u64
  ocj_last_now :: u64
  ocj_volume :: owned_volume_decoded
  ocj_hash :: "sha_provider option"
  ocj_port :: "'e ocj_io"
  ocj_current :: ocj_snapshot
  ocj_candidate :: ocj_snapshot
  ocj_first :: "ocj_snapshot list"
  ocj_last :: "ocj_snapshot list"
  ocj_working :: "ocj_block list"
  ocj_inflight :: owned_dhara_lease
  ocj_tx :: bytes
  ocj_rx :: bytes
  ocj_rawbuf :: bytes
  ocj_env :: 'e

definition bit_of :: "u32 \<Rightarrow> u32" where "bit_of b = push_bit (unat b) 1"

definition j_fault :: "int \<Rightarrow> 'e owned_control_journal \<Rightarrow> int \<times> 'e owned_control_journal" where
  "j_fault code j = ((if code < 0 then code else OCJ_FAULT), j\<lparr>ocj_fault := True, ocj_reconciled := False\<rparr>)"

definition j_now :: "'e owned_control_journal \<Rightarrow> u64 \<times> 'e owned_control_journal" where
  "j_now j = (let (n, e) = the (io_now_ms (ocj_port j)) (ocj_env j) in (n, j\<lparr>ocj_env := e\<rparr>))"

definition j_check :: "'e owned_control_journal \<Rightarrow> int \<times> 'e owned_control_journal" where
  "j_check j = (let (n, j) = j_now j in
     if ocj_fault j \<or> n < ocj_last_now j \<or> n \<ge> ocj_deadline j then j_fault OCJ_FAULT j else (0, j\<lparr>ocj_last_now := n\<rparr>))"

text \<open>\<open>begin\<close>, after the NULL j_check that every entry point makes through it.\<close>

definition j_begin :: "u64 \<Rightarrow> 'e owned_control_journal \<Rightarrow> int \<times> 'e owned_control_journal" where
  "j_begin deadline j =
    (if ocj_initialized j \<noteq> OCJ_MAGIC then (OCJ_ARGUMENT, j)
     else if ocj_busy j then (OCJ_BUSY, j)
     else if ocj_fault j then (OCJ_FAULT, j)
     else let (now, j) = j_now j in
       if now < ocj_last_now j \<or> now \<ge> deadline \<or> deadline - now > 120000 then j_fault OCJ_FAULT j
       else (0, j\<lparr>ocj_deadline := deadline, ocj_last_now := now, ocj_busy := True\<rparr>))"

definition j_finish :: "int \<Rightarrow> 'e owned_control_journal \<Rightarrow> int \<times> 'e owned_control_journal" where
  "j_finish rc j =
    (let j = (if \<not> ocj_retained j then j\<lparr>ocj_tx := replicate 4096 0, ocj_rx := replicate 4096 0, ocj_rawbuf := replicate 4352 0\<rparr> else j);
         j = j\<lparr>ocj_busy := False\<rparr>
     in ((if ocj_fault j then (if rc < 0 then rc else OCJ_FAULT) else rc), j))"

definition j_latch :: "u32 \<Rightarrow> 'e owned_control_journal \<Rightarrow> 'e owned_control_journal" where
  "j_latch bank j = (let (rc, e) = the (io_latch_fault (ocj_port j)) bank (ocj_deadline j) (ocj_env j) in j\<lparr>ocj_env := e\<rparr>)"

definition j_control_row :: "'e owned_control_journal \<Rightarrow> u32 \<Rightarrow> u32 \<Rightarrow> u32" where
  "j_control_row j bank slot = vs_control_blocks (vd_spec (ocj_volume j)) ! unat bank * 64 + slot"

definition j_admitted :: "u32 \<Rightarrow> u32 \<Rightarrow> 'e owned_control_journal \<Rightarrow> int \<times> 'e owned_control_journal" where
  "j_admitted reason bank j =
    (let (rc, j) = j_check j in
     if rc \<noteq> 0 then (OCJ_FAULT, j)
     else let (rc, e) = the (io_fault_latched (ocj_port j)) (ocj_env j); j = j\<lparr>ocj_env := e\<rparr> in
     if rc \<noteq> 0 then j_fault OCJ_FAULT j
     else let (rc, e) = the (io_admit (ocj_port j)) reason (vd_digest (ocj_volume j))
            (if bank < 2 then vs_control_blocks (vd_spec (ocj_volume j)) ! unat bank else UINT32_MAX)
            (sn_epoch (ocj_current j)) (ocj_deadline j) (ocj_env j); j = j\<lparr>ocj_env := e\<rparr> in
     if rc \<noteq> 0 then (OCJ_REFUSED, j) else j_check j)"

definition j_io_result :: "int \<Rightarrow> u32 \<Rightarrow> bool \<Rightarrow> 'e owned_control_journal \<Rightarrow> int \<times> 'e owned_control_journal" where
  "j_io_result rc bank reading j =
    (let j = (if rc = OCJ_IO_UNCERTAIN then j\<lparr>ocj_retained := True\<rparr> else j) in
     if rc = OCJ_IO_MEDIA then (let j = j_latch bank j in j_fault OCJ_FAULT j)
     else if rc \<noteq> OCJ_IO_OK \<and> \<not> (reading \<and> rc = OCJ_IO_CHECKED_RAW) then j_fault OCJ_FAULT j
     else j_check j)"

definition j_read_control :: "u32 \<Rightarrow> u32 \<Rightarrow> 'e owned_control_journal \<Rightarrow> int \<times> 'e owned_control_journal" where
  "j_read_control bank slot j =
    (let (rc, j) = j_check j in
     if rc \<noteq> 0 then (OCJ_FAULT, j)
     else let (rc, data, e) = the (io_read (ocj_port j)) (j_control_row j bank slot) (ocj_deadline j) (ocj_env j);
              j = j\<lparr>ocj_rx := blit 0 (part 0 4096 data) (ocj_rx j), ocj_env := e\<rparr> in
       j_io_result rc bank True j)"

definition zero_journal :: "'e ocj_io \<Rightarrow> 'e \<Rightarrow> 'e owned_control_journal" where
  "zero_journal io e = \<lparr>ocj_initialized = 0, ocj_busy = False, ocj_fault = False, ocj_retained = False, ocj_booted = False,
     ocj_reconciled = False, ocj_tail_fresh = False, ocj_next_slot = 0, ocj_fresh_map = 0, ocj_map_inflight = False,
     ocj_deadline = 0, ocj_last_now = 0, ocj_volume = vd_cleared, ocj_hash = None, ocj_port = io, ocj_current = sn_zero,
     ocj_candidate = sn_zero, ocj_first = replicate 2 sn_zero, ocj_last = replicate 2 sn_zero,
     ocj_working = replicate 32 bl_zero, ocj_inflight = lease_zero, ocj_tx = replicate 4096 0, ocj_rx = replicate 4096 0,
     ocj_rawbuf = replicate 4352 0, ocj_env = e\<rparr>"

fun ocj_init ::
  "'e owned_control_journal ptr \<Rightarrow> bytes ptr \<Rightarrow> owned_volume_spec ptr \<Rightarrow> hash_arg \<Rightarrow> 'e ocj_io ptr \<Rightarrow>
   int \<times> 'e owned_control_journal ptr" where
  "ocj_init (Ptr ja j) (Ptr da d) (Ptr sa s) (Ptr ha h) (Ptr ia io) =
    (if ocj_initialized j \<noteq> 0 \<or> overlap ja sizeof_ocj da 512 \<or> overlap ja sizeof_ocj sa sizeof_vs \<or>
        overlap ja sizeof_ocj ha sizeof_hash \<or> overlap ja sizeof_ocj ia sizeof_ocj_io \<or> \<not> ocj_io_complete io
     then (OCJ_ARGUMENT, Ptr ja j)
     else case vd_validate_body (Ptr da d) 512 (Ptr sa s) (Ptr ha h) of
       (OWNED_VOLUME_VALID, v) \<Rightarrow> (0, Ptr ja ((zero_journal io (ocj_env j))\<lparr>ocj_volume := v, ocj_hash := h, ocj_initialized := OCJ_MAGIC\<rparr>))
     | _ \<Rightarrow> (OCJ_ARGUMENT, Ptr ja j))"
| "ocj_init j d s h io = (OCJ_ARGUMENT, j)"

subsection \<open>Boot\<close>

record boot_scan =
  bt_gap :: bool
  bt_broken :: bool
  bt_highest :: u64

text \<open>The inner loop of \<open>ocj_boot\<close>: read and decode each slot of a bank in order.\<close>

definition j_boot_record :: "u32 \<Rightarrow> boot_scan \<Rightarrow> 'e owned_control_journal \<Rightarrow> boot_scan \<times> 'e owned_control_journal" where
  "j_boot_record bank t j =
    (let c = ocj_candidate j; k = unat bank;
         t = (if sn_epoch c > bt_highest t then t\<lparr>bt_highest := sn_epoch c\<rparr> else t);
         t = (if bt_gap t \<or> (sn_epoch (ocj_last j ! k) \<noteq> 0 \<and> \<not> ocj_transition (ocj_last j ! k) c) then t\<lparr>bt_broken := True\<rparr> else t);
         j = (if sn_epoch (ocj_first j ! k) = 0 then j\<lparr>ocj_first := (ocj_first j)[k := c]\<rparr> else j)
     in (t, j\<lparr>ocj_last := (ocj_last j)[k := c]\<rparr>))"

fun j_boot_bank :: "u32 \<Rightarrow> u32 list \<Rightarrow> boot_scan \<Rightarrow> 'e owned_control_journal \<Rightarrow> int \<times> boot_scan \<times> 'e owned_control_journal" where
  "j_boot_bank bank [] t j = (0, t, j)"
| "j_boot_bank bank (slot # slots) t j =
    (let (rc, j) = j_read_control bank slot j in
     if rc \<noteq> 0 then (OCJ_FAULT, t, j)
     else let (rc, c) = ocj_decode_body (ocj_volume j) bank slot (ocj_hash j) (ocj_rx j); j = j\<lparr>ocj_candidate := c\<rparr> in
       if rc < 0 then (let (rc, j) = j_fault rc j in (rc, t, j))
       else if rc = 1 then j_boot_bank bank slots (t\<lparr>bt_gap := True\<rparr>) j
       else let (t, j) = j_boot_record bank t j in j_boot_bank bank slots t j)"

definition boot_slots :: "u32 list" where "boot_slots = map of_nat [0..<64]"

definition boot_fresh :: boot_scan where "boot_fresh = \<lparr>bt_gap = False, bt_broken = False, bt_highest = 0\<rparr>"

text \<open>The choice of the bank with the newest snapshot and the checks on it.\<close>

definition j_boot_select :: "boot_scan \<Rightarrow> boot_scan \<Rightarrow> 'e owned_control_journal \<Rightarrow> int \<times> 'e owned_control_journal" where
  "j_boot_select t0 t1 j =
    (let selected = (if sn_epoch (ocj_last j ! 1) > sn_epoch (ocj_last j ! 0) then 1 else 0) :: nat;
         other = 1 - selected; ts = (if selected = 0 then t0 else t1); too = (if selected = 0 then t1 else t0);
         l = ocj_last j ! selected; f = ocj_first j ! selected; lo = ocj_last j ! other in
     if sn_epoch l = 0 then j_finish OCJ_NO_ROOT j
     else if bt_broken ts \<or> sn_slot f \<noteq> 0 \<or> (bt_highest too \<ge> sn_epoch f \<and> bt_highest too \<noteq> 0) \<or>
        (sn_epoch lo = sn_previous_epoch f \<and> sn_epoch lo \<noteq> 0 \<and> \<not> ocj_transition lo f)
     then (let (rc, j) = j_fault OCJ_CONFLICT j in j_finish rc j)
     else j_finish 0 (j\<lparr>ocj_current := l, ocj_working := sn_blocks l, ocj_booted := True, ocj_tail_fresh := False,
       ocj_fresh_map := 0, ocj_reconciled := False\<rparr>))"

definition ocj_boot :: "u64 \<Rightarrow> 'e owned_control_journal \<Rightarrow> int \<times> 'e owned_control_journal" where
  "ocj_boot deadline j =
    (let (rc, j) = j_begin deadline j in
     if rc \<noteq> 0 then (rc, j)
     else if ocj_booted j then j_finish OCJ_REFUSED j
     else let (rc, j) = j_admitted OCJ_ADMIT_BOOT 2 j in
     if rc \<noteq> 0 then j_finish rc j
     else let j = j\<lparr>ocj_first := replicate 2 sn_zero, ocj_last := replicate 2 sn_zero\<rparr>;
              (rc, t0, j) = j_boot_bank 0 boot_slots boot_fresh j in
     if rc \<noteq> 0 then j_finish rc j
     else let (rc, t1, j) = j_boot_bank 1 boot_slots boot_fresh j in
     if rc \<noteq> 0 then j_finish rc j else j_boot_select t0 t1 j)"

subsection \<open>Publication\<close>

text \<open>\<open>erase_fresh\<close>: erase a control block and read every page back raw.\<close>

fun j_verify_erased :: "u32 \<Rightarrow> u32 \<Rightarrow> u32 list \<Rightarrow> 'e owned_control_journal \<Rightarrow> int \<times> 'e owned_control_journal" where
  "j_verify_erased bank block [] j = (0, j)"
| "j_verify_erased bank block (p # ps) j =
    (let (rc, j) = j_check j in
     if rc \<noteq> 0 then (OCJ_FAULT, j)
     else let (rc, data, e) = the (io_raw (ocj_port j)) (block * 64 + p) (ocj_deadline j) (ocj_env j);
              j = j\<lparr>ocj_rawbuf := blit 0 (part 0 4352 data) (ocj_rawbuf j), ocj_env := e\<rparr>;
              (rc, j) = j_io_result rc bank False j in
     if rc \<noteq> 0 then (OCJ_FAULT, j)
     else if \<not> all_eq (ocj_rawbuf j) 0xff then (let j = j_latch bank j in j_fault OCJ_FAULT j)
     else j_verify_erased bank block ps j)"

definition erase_fresh :: "u32 \<Rightarrow> u32 \<Rightarrow> 'e owned_control_journal \<Rightarrow> int \<times> 'e owned_control_journal" where
  "erase_fresh bank reason j =
    (let (rc, j) = j_admitted reason bank j in
     if rc \<noteq> 0 then (rc, j)
     else let block = vs_control_blocks (vd_spec (ocj_volume j)) ! unat bank;
              (rc, e) = the (io_erase (ocj_port j)) block (ocj_deadline j) (ocj_env j); j = j\<lparr>ocj_env := e\<rparr>;
              (rc, j) = j_io_result rc bank False j in
     if rc \<noteq> 0 then (OCJ_FAULT, j) else j_verify_erased bank block boot_slots j)"

text \<open>The place of the next snapshot: the next slot of a fresh tail, or slot 0 of the other bank.\<close>

definition publish_place :: "'e owned_control_journal \<Rightarrow> ocj_snapshot" where
  "publish_place j =
    (let cur = ocj_current j; s = (ocj_candidate j)\<lparr>sn_epoch := sn_epoch cur + 1, sn_previous_epoch := sn_epoch cur,
           sn_previous_digest := sn_digest cur\<rparr>;
         s = s\<lparr>sn_bank := (if ocj_tail_fresh j \<and> ocj_next_slot j < 64 then sn_bank cur else 1 - sn_bank cur)\<rparr>
     in s\<lparr>sn_slot := (if sn_bank s = sn_bank cur then ocj_next_slot j else 0)\<rparr>)"

text \<open>The rest of \<open>publish\<close> once the page is encoded: program, read back, compare, adopt.\<close>

definition publish_program :: "'e owned_control_journal \<Rightarrow> int \<times> 'e owned_control_journal" where
  "publish_program j =
    (let (rc, j) = j_check j in
     if rc \<noteq> 0 then (OCJ_FAULT, j)
     else let s = ocj_candidate j; j = j\<lparr>ocj_tail_fresh := False\<rparr>;
              (rc, e) = the (io_program (ocj_port j)) (j_control_row j (sn_bank s) (sn_slot s)) (ocj_tx j) (ocj_deadline j) (ocj_env j);
              j = j\<lparr>ocj_env := e\<rparr>; (rc, j) = j_io_result rc (sn_bank s) False j in
     if rc \<noteq> 0 then (OCJ_FAULT, j)
     else let (rc, j) = j_read_control (sn_bank s) (sn_slot s) j in
     if rc \<noteq> 0 then (OCJ_FAULT, j)
     else if ocj_tx j \<noteq> ocj_rx j then (let j = j_latch (sn_bank s) j in j_fault OCJ_FAULT j)
     else let j = j\<lparr>ocj_candidate := s\<lparr>sn_digest := part 1280 32 (ocj_tx j)\<rparr>\<rparr>; (rc, j) = j_check j in
     if rc \<noteq> 0 then (OCJ_FAULT, j)
     else (0, j\<lparr>ocj_current := ocj_candidate j, ocj_tail_fresh := True, ocj_next_slot := sn_slot s + 1\<rparr>))"

definition publish :: "bool \<Rightarrow> 'e owned_control_journal \<Rightarrow> int \<times> 'e owned_control_journal" where
  "publish genesis j =
    (let (rc, j) = (if genesis then (0, j) else j_admitted OCJ_ADMIT_MAP 2 j) in
     if rc \<noteq> 0 then j_fault rc j
     else if \<not> genesis \<and> sn_epoch (ocj_current j) = INT64_MAX then j_fault OCJ_REFUSED j
     else let j = (if genesis then j else j\<lparr>ocj_candidate := publish_place j\<rparr>); s = ocj_candidate j in
     if \<not> ocj_syntax s then j_fault OCJ_CONFLICT j
     else let (rc, page) = ocj_encode_body (ocj_volume j) s (ocj_hash j); j = j\<lparr>ocj_tx := page\<rparr> in
     if rc \<noteq> 0 then j_fault OCJ_CONFLICT j
     else if \<not> genesis \<and> \<not> ocj_transition (ocj_current j) s then j_fault OCJ_CONFLICT j
     else let (rc, j) = (if \<not> genesis \<and> sn_bank s \<noteq> sn_bank (ocj_current j) then erase_fresh (sn_bank s) OCJ_ADMIT_RECYCLE j else (0, j)) in
     if rc \<noteq> 0 then j_fault rc j else publish_program j)"

definition genesis_snapshot :: ocj_snapshot where
  "genesis_snapshot = sn_zero\<lparr>sn_epoch := 1, sn_state := OWNED_CONTROL_PROVISIONING, sn_pending_slot := UINT32_MAX,
     sn_blocks := replicate 32 (bl_zero\<lparr>bl_consumed := 64\<rparr>)\<rparr>"

definition ocj_provision :: "u64 \<Rightarrow> 'e owned_control_journal \<Rightarrow> int \<times> 'e owned_control_journal" where
  "ocj_provision deadline j =
    (let (rc, j) = j_begin deadline j in
     if rc \<noteq> 0 then (rc, j)
     else if ocj_booted j \<or> sn_epoch (ocj_current j) \<noteq> 0 then j_finish OCJ_REFUSED j
     else let (rc, j) = erase_fresh 1 OCJ_ADMIT_PROVISION j;
              (rc, j) = (if rc = 0 then erase_fresh 0 OCJ_ADMIT_PROVISION j else (rc, j)) in
     if rc \<noteq> 0 then (let (rc, j) = j_fault rc j in j_finish rc j)
     else let j = j\<lparr>ocj_candidate := genesis_snapshot\<rparr>; (rc, j) = publish True j;
              j = (if rc = 0 then j\<lparr>ocj_booted := True, ocj_reconciled := True, ocj_working := sn_blocks (ocj_current j)\<rparr> else j)
       in j_finish rc j)"

definition reconciled_snapshot :: "ocj_snapshot \<Rightarrow> ocj_snapshot" where
  "reconciled_snapshot s =
    (let q = sn_quarantine s OR sn_open s; q = (if sn_pending_kind s \<noteq> 0 then q OR bit_of (sn_pending_slot s) else q)
     in s\<lparr>sn_quarantine := q, sn_open := 0, sn_pending_kind := 0, sn_pending_slot := UINT32_MAX, sn_pending_lease := 0\<rparr>)"

definition ocj_reconcile :: "u64 \<Rightarrow> 'e owned_control_journal \<Rightarrow> int \<times> 'e owned_control_journal" where
  "ocj_reconcile deadline j =
    (let (rc, j) = j_begin deadline j in
     if rc \<noteq> 0 then (rc, j)
     else if \<not> ocj_booted j \<or> ocj_reconciled j \<or> ocj_map_inflight j then j_finish OCJ_REFUSED j
     else let j = j\<lparr>ocj_candidate := reconciled_snapshot (ocj_current j)\<rparr>; (rc, j) = publish False j;
              j = (if rc = 0 then j\<lparr>ocj_reconciled := True, ocj_working := sn_blocks (ocj_current j)\<rparr> else j)
       in j_finish rc j)"

definition ocj_activate :: "u64 \<Rightarrow> 'e owned_control_journal \<Rightarrow> int \<times> 'e owned_control_journal" where
  "ocj_activate deadline j =
    (let (rc, j) = j_begin deadline j in
     if rc \<noteq> 0 then (rc, j)
     else if \<not> ocj_booted j \<or> \<not> ocj_reconciled j \<or> ocj_map_inflight j \<or> sn_pending_kind (ocj_current j) \<noteq> 0 \<or>
        sn_state (ocj_current j) \<noteq> OWNED_CONTROL_PROVISIONING then j_finish OCJ_REFUSED j
     else let (rc, j) = j_admitted OCJ_ADMIT_ACTIVE 2 j in
     if rc \<noteq> 0 then j_finish rc j
     else let j = j\<lparr>ocj_candidate := (ocj_current j)\<lparr>sn_state := OWNED_CONTROL_ACTIVE\<rparr>\<rparr>; (rc, j) = publish False j
       in j_finish rc j)"

subsection \<open>Capabilities\<close>

definition capability_of :: "'e owned_control_journal \<Rightarrow> owned_dhara_capability" where
  "capability_of j = \<lparr>cap_descriptor_digest = vd_digest (ocj_volume j), cap_control_digest = sn_digest (ocj_current j),
     cap_sequence = sn_epoch (ocj_current j), cap_lease_high_water = sn_high_water (ocj_current j),
     cap_state = sn_state (ocj_current j), cap_retired_map = sn_retired (ocj_current j)\<rparr>"

definition capability_rc :: "'e owned_control_journal \<Rightarrow> int" where
  "capability_rc j =
    (if ocj_initialized j \<noteq> OCJ_MAGIC then OCJ_ARGUMENT
     else if ocj_busy j then OCJ_BUSY
     else if ocj_fault j \<or> \<not> ocj_booted j \<or> \<not> ocj_reconciled j \<or> ocj_map_inflight j \<or> sn_pending_kind (ocj_current j) \<noteq> 0 \<or>
        sn_state (ocj_current j) = OWNED_CONTROL_READ_ONLY then OCJ_REFUSED
     else 0)"

fun ocj_capability :: "'e owned_control_journal ptr \<Rightarrow> owned_dhara_capability ptr \<Rightarrow> int \<times> owned_dhara_capability ptr" where
  "ocj_capability (Ptr ja j) (Ptr ca c) =
    (if ocj_initialized j \<noteq> OCJ_MAGIC \<or> overlap ca sizeof_od_capability ja sizeof_ocj then (OCJ_ARGUMENT, Ptr ca c)
     else if capability_rc j \<noteq> 0 then (capability_rc j, Ptr ca c)
     else (0, Ptr ca (capability_of j)))"
| "ocj_capability j c = (OCJ_ARGUMENT, c)"

fun ocj_validate_capability :: "owned_dhara_capability ptr \<Rightarrow> u64 \<Rightarrow> 'e owned_control_journal \<Rightarrow> int \<times> 'e owned_control_journal" where
  "ocj_validate_capability Null deadline j = (OCJ_REFUSED, j)"
| "ocj_validate_capability (Ptr ca c) deadline j =
    (if capability_rc j \<noteq> 0 \<or> c \<noteq> capability_of j then (OCJ_REFUSED, j)
     else let (rc, j) = j_begin deadline j in
     if rc \<noteq> 0 then (rc, j)
     else let (rc, j) = j_admitted (if cap_state c = OWNED_CONTROL_ACTIVE then OCJ_ADMIT_ACTIVE else OCJ_ADMIT_MAP) 2 j
       in j_finish rc j)"

subsection \<open>Leases\<close>

text \<open>\<open>mapped\<close>: the slot and page of a row, or \<open>None\<close> where the source faults.\<close>

fun mapped_from :: "nat \<Rightarrow> u32 list \<Rightarrow> u32 \<Rightarrow> (nat \<times> u32) option" where
  "mapped_from b [] row = None"
| "mapped_from b (m # ms) row = (if m = row div 64 then Some (b, row mod 64) else mapped_from (Suc b) ms row)"

definition j_mapped :: "'e owned_control_journal \<Rightarrow> u32 \<Rightarrow> (nat \<times> u32) option" where
  "j_mapped j row = mapped_from 0 (take 32 (vs_map_blocks (vd_spec (ocj_volume j)))) row"

definition page_info_of :: "'e owned_control_journal \<Rightarrow> nat \<Rightarrow> u32 \<Rightarrow> owned_dhara_page_info" where
  "page_info_of j b p = (let block = ocj_working j ! b in
     if bl_valid block AND push_bit (unat p) 1 \<noteq> 0 then \<lparr>pi_state = OD_PAGE_COMMITTED, pi_lease_id = bl_base block + 1 + ucast p\<rparr>
     else if slot_bit (ocj_fresh_map j) (of_nat b) \<and> \<not> slot_bit (sn_retired (ocj_current j)) (of_nat b) \<and> p \<ge> bl_consumed block
     then \<lparr>pi_state = OD_PAGE_UNUSED, pi_lease_id = 0\<rparr>
     else \<lparr>pi_state = OD_PAGE_ABANDONED, pi_lease_id = 0\<rparr>)"

text \<open>The address \<open>ja\<close> of the journal is needed for the overlap guards of the output arguments.\<close>

definition ocj_page_info ::
  "nat \<Rightarrow> u32 \<Rightarrow> owned_dhara_page_info ptr \<Rightarrow> u64 \<Rightarrow> 'e owned_control_journal \<Rightarrow>
   int \<times> owned_dhara_page_info ptr \<times> 'e owned_control_journal" where
  "ocj_page_info ja row i deadline j =
    (let (rc, j) = j_begin deadline j in
     if rc \<noteq> 0 then (rc, i, j)
     else if i = Null \<or> overlap (addr i) sizeof_od_page_info ja sizeof_ocj \<or> \<not> ocj_booted j
     then (let (rc, j) = j_finish OCJ_ARGUMENT j in (rc, i, j))
     else case j_mapped j row of
       None \<Rightarrow> (let (rc, j) = j_fault OCJ_ARGUMENT j; (rc, j) = j_finish OCJ_ARGUMENT j in (rc, i, j))
     | Some (b, p) \<Rightarrow> let info = page_info_of j b p; (rc, j) = j_check j; (rc, j) = j_finish rc j
         in (rc, Ptr (addr i) info, j))"

definition ticket :: "'e owned_control_journal \<Rightarrow> u32 \<Rightarrow> u32 \<Rightarrow> u32 \<Rightarrow> owned_dhara_lease" where
  "ticket j kind b row = (let base = bl_base (ocj_working j ! unat b) in
     \<lparr>le_descriptor_digest = vd_digest (ocj_volume j), le_sequence = sn_epoch (ocj_current j),
      le_lease_id = base + (if kind = OWNED_CONTROL_PROGRAM_PAGE then 1 + ucast (row mod 64) else 0), le_range_base = base,
      le_kind = kind, le_map_slot = b, le_physical_row = row\<rparr>)"

definition acquire_refused :: "u32 \<Rightarrow> u32 \<Rightarrow> 'e owned_control_journal \<Rightarrow> bool" where
  "acquire_refused b row j \<longleftrightarrow> b \<ge> 32 \<or> row \<noteq> vs_map_blocks (vd_spec (ocj_volume j)) ! unat b * 64 + row mod 64 \<or>
     \<not> ocj_booted j \<or> \<not> ocj_reconciled j \<or> ocj_map_inflight j \<or> sn_pending_kind (ocj_current j) \<noteq> 0 \<or>
     sn_state (ocj_current j) = OWNED_CONTROL_READ_ONLY \<or> slot_bit (sn_retired (ocj_current j)) b"

definition erase_candidate :: "u32 \<Rightarrow> ocj_snapshot \<Rightarrow> ocj_snapshot" where
  "erase_candidate b s =
    (let x = \<lparr>bl_base = sn_high_water s + 1, bl_valid = 0, bl_range_sequence = sn_epoch s + 1, bl_consumed = 64\<rparr>
     in s\<lparr>sn_blocks := (sn_blocks s)[unat b := x], sn_high_water := bl_base x + 64, sn_pending_kind := OWNED_CONTROL_ERASE_BLOCK,
         sn_pending_slot := b, sn_pending_lease := bl_base x, sn_quarantine := sn_quarantine s OR bit_of b,
         sn_open := sn_open s AND NOT (bit_of b)\<rparr>)"

text \<open>The branch of \<open>ocj_acquire\<close> on the kind: the code, or 0 when the lease is to be issued.\<close>

definition acquire_kind :: "u32 \<Rightarrow> u32 \<Rightarrow> u32 \<Rightarrow> 'e owned_control_journal \<Rightarrow> int \<times> 'e owned_control_journal" where
  "acquire_kind kind b row j =
    (if kind = OWNED_CONTROL_ERASE_BLOCK then
       (if row mod 64 \<noteq> 0 \<or> sn_high_water (ocj_current j) > UINT64_MAX - 65 then j_fault OCJ_REFUSED j
        else let j = j\<lparr>ocj_candidate := erase_candidate b (ocj_current j)\<rparr>; (rc, j) = publish False j in
          if rc \<noteq> 0 then (rc, j)
          else (0, j\<lparr>ocj_working := (ocj_working j)[unat b := sn_blocks (ocj_current j) ! unat b],
                     ocj_fresh_map := ocj_fresh_map j AND NOT (bit_of b)\<rparr>))
     else if kind = OWNED_CONTROL_PROGRAM_PAGE then
       (if \<not> slot_bit (ocj_fresh_map j) b \<or> row mod 64 < bl_consumed (ocj_working j ! unat b) then j_fault OCJ_REFUSED j
        else (0, j\<lparr>ocj_working := (ocj_working j)[unat b := (ocj_working j ! unat b)\<lparr>bl_consumed := row mod 64 + 1\<rparr>]\<rparr>))
     else (OCJ_ARGUMENT, j))"

definition ocj_acquire ::
  "nat \<Rightarrow> u32 \<Rightarrow> u32 \<Rightarrow> u32 \<Rightarrow> owned_dhara_lease ptr \<Rightarrow> u64 \<Rightarrow> 'e owned_control_journal \<Rightarrow>
   int \<times> owned_dhara_lease ptr \<times> 'e owned_control_journal" where
  "ocj_acquire ja kind b row l deadline j =
    (let (rc, j) = j_begin deadline j in
     if rc \<noteq> 0 then (rc, l, j)
     else if l = Null \<or> overlap (addr l) sizeof_od_lease ja sizeof_ocj \<or> acquire_refused b row j
     then (let (rc, j) = j_finish OCJ_REFUSED j in (rc, l, j))
     else let (rc, j) = j_admitted OCJ_ADMIT_MAP 2 j in
     if rc \<noteq> 0 then (let (rc, j) = j_finish rc j in (rc, l, j))
     else let (rc, j) = acquire_kind kind b row j in
     if rc \<noteq> 0 then (let (rc, j) = j_finish rc j in (rc, l, j))
     else let t = ticket j kind b row; j = j\<lparr>ocj_inflight := t, ocj_map_inflight := True\<rparr>;
              (rc, j) = j_check j; (rc, j) = j_finish rc j
       in (rc, Ptr (addr l) t, j))"

definition resolve_candidate :: "u32 \<Rightarrow> ocj_snapshot \<Rightarrow> ocj_snapshot" where
  "resolve_candidate b s = s\<lparr>sn_pending_kind := 0, sn_pending_slot := UINT32_MAX, sn_pending_lease := 0,
     sn_blocks := (sn_blocks s)[unat b := (sn_blocks s ! unat b)\<lparr>bl_consumed := 0\<rparr>],
     sn_quarantine := sn_quarantine s AND NOT (bit_of b), sn_open := sn_open s OR bit_of b\<rparr>"

definition resolve_kind :: "owned_dhara_lease \<Rightarrow> 'e owned_control_journal \<Rightarrow> int \<times> 'e owned_control_journal" where
  "resolve_kind l j = (let b = le_map_slot l in
     if le_kind l = OWNED_CONTROL_ERASE_BLOCK then
       (let j = j\<lparr>ocj_candidate := resolve_candidate b (ocj_current j)\<rparr>; (rc, j) = publish False j in
        if rc \<noteq> 0 then (rc, j)
        else (0, j\<lparr>ocj_working := (ocj_working j)[unat b := sn_blocks (ocj_current j) ! unat b],
                   ocj_fresh_map := ocj_fresh_map j OR bit_of b\<rparr>))
     else (0, j\<lparr>ocj_working := (ocj_working j)[unat b := (ocj_working j ! unat b)\<lparr>bl_valid :=
            bl_valid (ocj_working j ! unat b) OR push_bit (unat (le_physical_row l) mod 64) 1\<rparr>]\<rparr>))"

definition ocj_resolve :: "owned_dhara_lease ptr \<Rightarrow> u64 \<Rightarrow> 'e owned_control_journal \<Rightarrow> int \<times> 'e owned_control_journal" where
  "ocj_resolve l deadline j =
    (let (rc, j) = j_begin deadline j in
     if rc \<noteq> 0 then (rc, j)
     else if l = Null \<or> \<not> ocj_map_inflight j \<or> pt l \<noteq> ocj_inflight j then (let (rc, j) = j_fault OCJ_REFUSED j in j_finish rc j)
     else let (rc, j) = resolve_kind (pt l) j in
     if rc \<noteq> 0 then j_finish rc j
     else let j = j\<lparr>ocj_map_inflight := False, ocj_inflight := lease_zero\<rparr>; (rc, j) = j_check j in j_finish rc j)"

definition sync_open :: "ocj_block list \<Rightarrow> u32 \<Rightarrow> u32" where
  "sync_open bs op = foldl (\<lambda>op b. if bl_consumed (bs ! b) = 64 then op AND NOT (bit_of (of_nat b)) else op) op [0..<32]"

definition ocj_history_sync :: "u64 \<Rightarrow> 'e owned_control_journal \<Rightarrow> int \<times> 'e owned_control_journal" where
  "ocj_history_sync deadline j =
    (let (rc, j) = j_begin deadline j in
     if rc \<noteq> 0 then (rc, j)
     else if \<not> ocj_booted j \<or> \<not> ocj_reconciled j \<or> ocj_map_inflight j \<or> sn_pending_kind (ocj_current j) \<noteq> 0 \<or>
        sn_state (ocj_current j) = OWNED_CONTROL_READ_ONLY then j_finish OCJ_REFUSED j
     else let j = j\<lparr>ocj_candidate := (ocj_current j)\<lparr>sn_blocks := ocj_working j,
                sn_open := sync_open (ocj_working j) (sn_open (ocj_current j))\<rparr>\<rparr>;
              (rc, j) = publish False j in j_finish rc j)"

definition retire_candidate :: "u32 \<Rightarrow> u32 \<Rightarrow> 'e owned_control_journal \<Rightarrow> ocj_snapshot" where
  "retire_candidate b bitmap j = (let s = ocj_current j in
     s\<lparr>sn_retired := bitmap, sn_quarantine := sn_quarantine s OR bit_of b, sn_open := sn_open s AND NOT (bit_of b),
       sn_pending_kind := 0, sn_pending_slot := UINT32_MAX, sn_pending_lease := 0,
       sn_blocks := (sn_blocks s)[unat b := (sn_blocks s ! unat b)\<lparr>bl_consumed := bl_consumed (ocj_working j ! unat b)\<rparr>]\<rparr>)"

definition ocj_retire ::
  "u32 \<Rightarrow> u32 \<Rightarrow> u32 \<Rightarrow> owned_dhara_lease ptr \<Rightarrow> u64 \<Rightarrow> 'e owned_control_journal \<Rightarrow> int \<times> 'e owned_control_journal" where
  "ocj_retire b block bitmap l deadline j =
    (let (rc, j) = j_begin deadline j in
     if rc \<noteq> 0 then (rc, j)
     else if b \<ge> 32 \<or> block \<noteq> vs_map_blocks (vd_spec (ocj_volume j)) ! unat b \<or>
        bitmap \<noteq> sn_retired (ocj_current j) OR bit_of b \<or> l = Null \<or> \<not> ocj_map_inflight j \<or> pt l \<noteq> ocj_inflight j
     then (let (rc, j) = j_fault OCJ_REFUSED j in j_finish rc j)
     else let j = j\<lparr>ocj_candidate := retire_candidate b bitmap j\<rparr>; (rc, j) = publish False j;
              j = (if rc = 0 then j\<lparr>ocj_fresh_map := ocj_fresh_map j AND NOT (bit_of b), ocj_map_inflight := False,
                     ocj_inflight := lease_zero\<rparr> else j)
       in j_finish rc j)"

end
