(* ===== verification/Journal_Leases.thy ===== *)
theory Journal_Leases
  imports Control_Journal
begin

text \<open>
  Properties of the control journal that hold whatever the physical callbacks do: a failed operation
  fences the journal, a snapshot is adopted only after the medium returned exactly its page, and no
  lease identifier is issued twice.
\<close>

section \<open>What the helpers leave alone\<close>

definition jcore where
  "jcore j = (ocj_initialized j, ocj_booted j, ocj_fresh_map j, ocj_map_inflight j, ocj_volume j, ocj_hash j,
     ocj_current j, ocj_working j, ocj_inflight j)"

text \<open>\<open>held j j'\<close>: the helper changed neither the core nor the candidate, and cleared no fault.\<close>

definition held :: "'e owned_control_journal \<Rightarrow> 'e owned_control_journal \<Rightarrow> bool" where
  "held j j' \<longleftrightarrow> jcore j' = jcore j \<and> ocj_candidate j' = ocj_candidate j \<and> ocj_tx j' = ocj_tx j \<and>
     ocj_last j' = ocj_last j \<and> (ocj_fault j \<longrightarrow> ocj_fault j') \<and> (\<not> ocj_fault j' \<longrightarrow> ocj_reconciled j' = ocj_reconciled j)"

text \<open>\<open>quiet j rc j'\<close>: in addition a nonzero code means that the journal is fenced.\<close>

definition quiet :: "'e owned_control_journal \<Rightarrow> int \<Rightarrow> 'e owned_control_journal \<Rightarrow> bool" where
  "quiet j rc j' \<longleftrightarrow> held j j' \<and> (rc \<noteq> 0 \<longrightarrow> ocj_fault j') \<and> (rc = 0 \<longrightarrow> ocj_fault j' = ocj_fault j)"

lemma held_refl [simp]: "held j j"
  by (simp add: held_def)

lemma held_trans: "held j k \<Longrightarrow> held k l \<Longrightarrow> held j l"
  by (auto simp: held_def)

lemma held_simps [simp]:
  "held j (k\<lparr>ocj_env := e\<rparr>) = held j k" "held j (k\<lparr>ocj_rx := r\<rparr>) = held j k" "held j (k\<lparr>ocj_rawbuf := r\<rparr>) = held j k"
  "held j (k\<lparr>ocj_last_now := n\<rparr>) = held j k" "held j (k\<lparr>ocj_retained := b\<rparr>) = held j k" "held j (k\<lparr>ocj_tail_fresh := b\<rparr>) = held j k"
  "held j (k\<lparr>ocj_busy := b\<rparr>) = held j k" "held j (k\<lparr>ocj_deadline := n\<rparr>) = held j k"
  by (simp_all add: held_def jcore_def)

lemma held_fault: "held j k \<Longrightarrow> held j (k\<lparr>ocj_fault := True, ocj_reconciled := False\<rparr>)"
  by (simp add: held_def jcore_def)

lemma post_j_fault: "held j k \<Longrightarrow> post (quiet j) (j_fault c k)"
  by (simp add: post_def j_fault_def quiet_def held_fault)

lemma j_now_held: "j_now k = (n, k') \<Longrightarrow> (held j k' \<longleftrightarrow> held j k) \<and> ocj_fault k' = ocj_fault k"
  by (auto simp: j_now_def split: prod.splits)

lemma post_check: "held j k \<Longrightarrow> ocj_fault k = ocj_fault j \<Longrightarrow> post (quiet j) (j_check k)"
  unfolding j_check_def
  by (intro post_let_pair post_if post_return post_j_fault) (auto simp: quiet_def dest: j_now_held)

lemma post_latch_fault: "held j k \<Longrightarrow> post (quiet j) (let k = j_latch b k in j_fault c k)"
  by (intro post_let post_j_fault) (auto simp: j_latch_def split: prod.splits)

lemma post_io_result: "held j k \<Longrightarrow> ocj_fault k = ocj_fault j \<Longrightarrow> post (quiet j) (j_io_result rc b r k)"
  unfolding j_io_result_def
  by (intro post_let post_if post_latch_fault post_j_fault post_check) (auto split: if_splits)

text \<open>\<open>kept\<close>: like \<open>quiet\<close>, but an admission may be refused without a fault.\<close>

definition kept :: "'e owned_control_journal \<Rightarrow> int \<Rightarrow> 'e owned_control_journal \<Rightarrow> bool" where
  "kept j rc j' \<longleftrightarrow> held j j' \<and> (rc = 0 \<longrightarrow> ocj_fault j' = ocj_fault j)"

lemma quiet_kept: "quiet j rc k \<Longrightarrow> kept j rc k"
  by (simp add: quiet_def kept_def)

lemma quiet_held: "quiet j rc k \<Longrightarrow> held j k"
  by (simp add: quiet_def)

lemma quiet_ok: "quiet j rc k \<Longrightarrow> rc = 0 \<Longrightarrow> ocj_fault k = ocj_fault j"
  by (simp add: quiet_def)

lemma post_kept: "post (quiet j) r \<Longrightarrow> post (kept j) r"
  by (erule post_mono) (rule quiet_kept)

lemma post_quiet_then:
  assumes "post (quiet j) r" and "\<And>rc k. quiet j rc k \<Longrightarrow> rc \<noteq> 0 \<Longrightarrow> post Q (f rc k)"
    and "\<And>k. held j k \<Longrightarrow> ocj_fault k = ocj_fault j \<Longrightarrow> post Q (f 0 k)"
  shows "post Q (Let r (case_prod f))"
  by (rule post_call [OF assms(1)]) (metis assms(2,3) quiet_held quiet_ok)

lemma post_quiet_fail: "quiet j rc k \<Longrightarrow> rc \<noteq> 0 \<Longrightarrow> c \<noteq> 0 \<Longrightarrow> post (quiet j) (c, k)"
  by (auto simp: post_def quiet_def)

lemma post_admitted:
  assumes "held j k" and "ocj_fault k = ocj_fault j"
  shows "post (kept j) (j_admitted r b k)"
  unfolding j_admitted_def
proof (rule post_quiet_then [OF post_check [OF assms]], goal_cases)
  case (1 rc k)
  then show ?case by (simp add: post_def kept_def quiet_def)
next
  case (2 k)
  then show ?case
    by (simp add: case_prod_beta Let_def post_if post_kept [OF post_j_fault] post_kept [OF post_check])
      (simp add: post_def kept_def)
qed

lemma post_read_control:
  assumes "held j k" and "ocj_fault k = ocj_fault j"
  shows "post (quiet j) (j_read_control b s k)"
  unfolding j_read_control_def
proof (rule post_quiet_then [OF post_check [OF assms]], goal_cases)
  case (1 rc k)
  then show ?case by (auto intro: post_quiet_fail)
next
  case (2 k)
  then show ?case by (auto simp: case_prod_beta Let_def intro!: post_io_result)
qed

lemma post_verify_erased:
  "held j k \<Longrightarrow> ocj_fault k = ocj_fault j \<Longrightarrow> post (quiet j) (j_verify_erased b blk ps k)"
proof (induction ps arbitrary: k)
  case Nil
  then show ?case by (simp add: post_def quiet_def)
next
  case (Cons p ps)
  show ?case
    unfolding j_verify_erased.simps
  proof (rule post_quiet_then [OF post_check [OF Cons.prems]], goal_cases)
    case (1 rc k)
    then show ?case by (auto intro: post_quiet_fail)
  next
    case (2 k)
    then show ?case
      apply (simp only: if_False simp_thms)
      apply (rule post_let_triple)
      apply (rule post_let)
      apply (rule post_quiet_then [OF post_io_result])
      apply simp
      apply simp
      apply (auto intro: post_quiet_fail) []
      apply (simp add: post_latch_fault [unfolded Let_def] Cons.IH)
      done
  qed
qed

lemma post_kept_then:
  assumes "post (kept j) r" and "\<And>rc k. held j k \<Longrightarrow> rc \<noteq> 0 \<Longrightarrow> post Q (f rc k)"
    and "\<And>k. held j k \<Longrightarrow> ocj_fault k = ocj_fault j \<Longrightarrow> post Q (f 0 k)"
  shows "post Q (Let r (case_prod f))"
  by (rule post_call [OF assms(1)]) (metis assms(2,3) kept_def)

lemma post_erase_fresh:
  assumes "held j k" and "ocj_fault k = ocj_fault j"
  shows "post (kept j) (erase_fresh b r k)"
  unfolding erase_fresh_def
proof (rule post_kept_then [OF post_admitted [OF assms]], goal_cases)
  case (1 rc k)
  then show ?case by (simp add: post_def kept_def)
next
  case (2 k)
  have io: "post (quiet j) (j_io_result c b False (k\<lparr>ocj_env := e\<rparr>))" for c e
    by (rule post_io_result) (use 2 in simp_all)
  have v: "post (kept j) (j_verify_erased b blk ps k')" if "held j k'" "ocj_fault k' = ocj_fault j" for blk ps k'
    by (rule post_kept [OF post_verify_erased [OF that]])
  show ?case
    by (simp add: case_prod_beta Let_def)
      (use io v in \<open>auto simp: post_def quiet_def kept_def case_prod_beta Let_def\<close>)
qed

section \<open>Publication\<close>

text \<open>What \<open>publish\<close> makes of the candidate before it encodes it.\<close>

definition placed :: "bool \<Rightarrow> ocj_snapshot \<Rightarrow> ocj_snapshot \<Rightarrow> ocj_snapshot \<Rightarrow> bool" where
  "placed genesis cur c s \<longleftrightarrow> (if genesis then s = c
     else \<exists>b n. s = c\<lparr>sn_epoch := sn_epoch cur + 1, sn_previous_epoch := sn_epoch cur, sn_previous_digest := sn_digest cur,
       sn_bank := b, sn_slot := n\<rparr>)"

text \<open>\<open>adopted g j k\<close>: the journal \<open>k\<close> is \<open>j\<close> with the placed candidate as its current snapshot, admissible and
  (except for the genesis record) a legal successor, and the page read back last is its encoding.\<close>

definition adopted :: "bool \<Rightarrow> 'e owned_control_journal \<Rightarrow> 'e owned_control_journal \<Rightarrow> bool" where
  "adopted genesis j k \<longleftrightarrow> (\<exists>s page. placed genesis (ocj_current j) (ocj_candidate j) s \<and> ocj_syntax s \<and>
     (\<not> genesis \<longrightarrow> ocj_transition (ocj_current j) s) \<and> ocj_encode_body (ocj_volume j) s (ocj_hash j) = (OCJ_OK, page) \<and>
     ocj_rx k = page \<and> ocj_tx k = page \<and> ocj_current k = s\<lparr>sn_digest := part 1280 32 page\<rparr> \<and>
     jcore (k\<lparr>ocj_current := ocj_current j\<rparr>) = jcore j \<and> ocj_reconciled k = ocj_reconciled j)"

definition published :: "bool \<Rightarrow> 'e owned_control_journal \<Rightarrow> int \<Rightarrow> 'e owned_control_journal \<Rightarrow> bool" where
  "published genesis j rc k \<longleftrightarrow> (rc \<noteq> 0 \<longrightarrow> ocj_fault k) \<and> (rc = 0 \<longrightarrow> \<not> ocj_fault k \<and> adopted genesis j k)"

lemma published_fail: "ocj_fault k \<Longrightarrow> rc \<noteq> 0 \<Longrightarrow> post (published g j) (rc, k)"
  by (simp add: post_def published_def)

lemma published_fault: "post (published g j) (j_fault c k)"
  by (simp add: post_def published_def j_fault_def)

lemma published_latch: "post (published g j) (let k = j_latch b k in j_fault c k)"
  by (simp add: Let_def published_fault)

lemma check_rx: "j_check k = (0, k') \<Longrightarrow> ocj_rx k' = ocj_rx k"
  by (auto simp: j_check_def j_now_def j_fault_def Let_def split: prod.splits if_split_asm)

lemma published_program:
  assumes s: "placed g (ocj_current j) (ocj_candidate j) (ocj_candidate k)" "ocj_syntax (ocj_candidate k)"
      "\<not> g \<longrightarrow> ocj_transition (ocj_current j) (ocj_candidate k)"
      "ocj_encode_body (ocj_volume j) (ocj_candidate k) (ocj_hash j) = (OCJ_OK, ocj_tx k)"
    and k: "\<not> ocj_fault k" "jcore k = jcore j" "ocj_reconciled k = ocj_reconciled j"
  shows "post (published g j) (publish_program k)"
  unfolding publish_program_def
proof (rule post_quiet_then [OF post_check [of k k]], goal_cases)
  case (3 rc l)
  then show ?case by (auto simp: post_def published_def quiet_def)
next
  case (4 l)
  let ?s = "ocj_candidate l"
  have io: "post (quiet k) (j_io_result c b False (l\<lparr>ocj_tail_fresh := f, ocj_env := e\<rparr>))" for c b f e
    by (rule post_io_result) (use 4 in simp_all)
  have adopt: "post (published g j) (let (rc, m) = j_check (m\<lparr>ocj_candidate := ?s\<lparr>sn_digest := part 1280 32 (ocj_tx m)\<rparr>\<rparr>) in
      if rc \<noteq> 0 then (OCJ_FAULT, m)
      else (0, m\<lparr>ocj_current := ocj_candidate m, ocj_tail_fresh := True, ocj_next_slot := n\<rparr>))"
    if m: "held k m" "ocj_fault m = ocj_fault k" "ocj_tx m = ocj_rx m" for m n
  proof (rule post_let_pair, goal_cases)
    case (1 rc m')
    have "quiet (m\<lparr>ocj_candidate := ?s\<lparr>sn_digest := part 1280 32 (ocj_tx m)\<rparr>\<rparr>) rc m'"
      using postD [OF post_check [OF held_refl refl] 1] .
    moreover have "rc = 0 \<Longrightarrow> ocj_rx m' = ocj_rx m" using check_rx 1 by fastforce
    ultimately show ?case
      using m 4 s k
      by (auto simp: post_def published_def adopted_def quiet_def held_def jcore_def)
  qed
  show ?case
    apply (simp only: if_False simp_thms)
    apply (rule post_let, rule post_let)
    apply (rule post_let_pair)
    apply (rule post_let)
    apply (rule post_quiet_then [of k])
      apply (simp add: io)
     apply (auto simp: post_def published_def quiet_def) []
    apply (simp only: if_False simp_thms)
    apply (rule post_quiet_then [of k])
      apply (rule post_read_control; assumption)
     apply (auto simp: post_def published_def quiet_def) []
    apply (simp only: if_False simp_thms)
    apply (rule post_if)
     apply (rule published_latch)
    apply (rule post_let)
    apply hypsubst
    apply (rule adopt; simp)
    done
qed simp_all

lemma published_publish:
  assumes "\<not> ocj_fault j"
  shows "post (published g j) (publish g j)"
proof -
  have adm: "post (kept j) (if g then (0, j) else j_admitted OCJ_ADMIT_MAP 2 j)"
    by (simp add: post_admitted) (simp add: post_def kept_def)
  have place: "placed False (ocj_current j) (ocj_candidate j) (publish_place k)" if "held j k" for k
    using that by (auto simp: placed_def publish_place_def Let_def held_def jcore_def)
  show ?thesis
    unfolding publish_def
  proof (rule post_kept_then [OF adm], goal_cases)
    case (1 rc k)
    then show ?case by (simp add: published_fault)
  next
    case (2 k)
    let ?k = "if g then k else k\<lparr>ocj_candidate := publish_place k\<rparr>"
    let ?s = "ocj_candidate ?k"
    have s: "placed g (ocj_current j) (ocj_candidate j) ?s"
      using place [OF 2(1)] 2(1) by (auto simp: placed_def held_def)
    have core: "jcore ?k = jcore j" "ocj_reconciled ?k = ocj_reconciled j" "\<not> ocj_fault ?k"
      using 2 assms by (auto simp: held_def jcore_def)
    have prog: "post (published g j) (let (rc, m) =
          (if \<not> g \<and> sn_bank ?s \<noteq> b then erase_fresh (sn_bank ?s) OCJ_ADMIT_RECYCLE (?k\<lparr>ocj_tx := page\<rparr>) else (0, ?k\<lparr>ocj_tx := page\<rparr>)) in
        if rc \<noteq> 0 then j_fault rc m else publish_program m)"
      if "ocj_syntax ?s" "ocj_encode_body (ocj_volume ?k) ?s (ocj_hash ?k) = (0, page)"
        "g \<or> ocj_transition (ocj_current ?k) ?s" for page b
    proof (rule post_kept_then [where j = "?k\<lparr>ocj_tx := page\<rparr>"], goal_cases)
      case 1
      then show ?case by (auto simp: post_return kept_def intro: post_erase_fresh)
    next
      case (2 rc m)
      then show ?case by (simp add: published_fault)
    next
      case (3 m)
      then have m: "ocj_candidate m = ?s" "ocj_tx m = page" "jcore m = jcore j" "ocj_reconciled m = ocj_reconciled j" "\<not> ocj_fault m"
        using core by (auto simp: held_def jcore_def split: if_splits)
      have "post (published g j) (publish_program m)"
        by (rule published_program) (use m s that core in \<open>auto simp: jcore_def\<close>)
      then show ?case by simp
    qed
    show ?case
      apply (simp only: if_False simp_thms)
      apply (rule post_if, rule published_fault)
      apply (rule post_let, hypsubst, rule post_let, hypsubst)
      apply (rule post_if, rule published_fault)
      apply (rule post_let_pair, rule post_let, hypsubst)
      apply (rule post_if, rule published_fault)
      apply (rule post_if, rule published_fault)
      apply (rule prog; auto)
      done
  qed
qed

section \<open>Slots and ranges\<close>

lemma slot_bit_iff: "c < 32 \<Longrightarrow> slot_bit m (of_nat c) \<longleftrightarrow> bit m c"
proof -
  assume c: "c < 32"
  have u: "unat (of_nat c :: u32) = c" using c by (simp add: unsigned_of_nat take_bit_nat_eq_self)
  have "m AND push_bit c 1 \<noteq> 0 \<longleftrightarrow> bit m c"
    by (simp only: bit_iff_and_push_bit_not_eq_0)
  then show ?thesis by (simp add: slot_bit_def u)
qed

lemma slot_bit_unat: "b < 32 \<Longrightarrow> slot_bit m b \<longleftrightarrow> bit m (unat b)"
  using slot_bit_iff [of "unat b" m] by (simp add: word_less_nat_alt)

lemma bit_bit_of: "b < 32 \<Longrightarrow> bit (bit_of b) c \<longleftrightarrow> c = unat b"
  by (auto simp: bit_of_def bit_simps word_less_nat_alt)

lemma bit_set_slot: "b < 32 \<Longrightarrow> bit (m OR bit_of b) c \<longleftrightarrow> bit m c \<or> c = unat b"
  by (simp add: bit_or_iff bit_bit_of)

lemma bit_clear_slot: "b < 32 \<Longrightarrow> c < 32 \<Longrightarrow> bit (m AND NOT (bit_of b)) c \<longleftrightarrow> bit m c \<and> c \<noteq> unat b"
  by (simp add: bit_and_iff bit_not_iff bit_bit_of)

lemma unat_add_small: "unat b + n < 2 ^ 64 \<Longrightarrow> unat (b + of_nat n :: u64) = unat b + n"
  by (simp add: unat_word_ariths unsigned_of_nat take_bit_nat_eq_self)

lemma unat_add_64: "(b :: u64) \<le> UINT64_MAX - 64 \<Longrightarrow> unat (b + 64) = unat b + 64"
  using unat_add_small [of b 64] by (simp add: word_le_nat_alt)

lemma syntax_parts:
  assumes "ocj_syntax s"
  shows "\<not> ocj_head_bad s" "\<not> ocj_pending_bad s" "\<And>i. i < 32 \<Longrightarrow> \<not> ocj_block_bad s i"
    "\<And>i. i < 32 \<Longrightarrow> \<not> ocj_ranges_bad s i" "\<not> ocj_pending_block_bad s"
  using assms by (auto simp: ocj_syntax_def list_ex_iff split: if_split_asm)

lemma syntax_base:
  assumes "ocj_syntax s" and "i < 32" and "bl_base (sn_blocks s ! i) \<noteq> 0"
  shows "unat (bl_base (sn_blocks s ! i)) + 64 \<le> unat (sn_high_water s)"
    "unat (bl_base (sn_blocks s ! i) + 64) = unat (bl_base (sn_blocks s ! i)) + 64"
proof -
  have "\<not> bl_base (sn_blocks s ! i) > UINT64_MAX - 64" "\<not> bl_base (sn_blocks s ! i) + 64 > sn_high_water s"
    using syntax_parts(3) [OF assms(1,2)] assms(3) by (simp_all add: ocj_block_bad_def Let_def)
  then show "unat (bl_base (sn_blocks s ! i)) + 64 \<le> unat (sn_high_water s)"
    "unat (bl_base (sn_blocks s ! i) + 64) = unat (bl_base (sn_blocks s ! i)) + 64"
    using unat_add_64 by (simp_all add: not_less word_le_nat_alt)
qed

lemma syntax_apart_less:
  assumes "ocj_syntax s" and "k < i" and "i < 32"
    and "bl_base (sn_blocks s ! i) \<noteq> 0" and "bl_base (sn_blocks s ! k) \<noteq> 0"
  shows "unat (bl_base (sn_blocks s ! i)) + 64 < unat (bl_base (sn_blocks s ! k)) \<or>
    unat (bl_base (sn_blocks s ! k)) + 64 < unat (bl_base (sn_blocks s ! i))"
proof -
  have "\<not> ocj_range_clash (sn_blocks s ! i) (sn_blocks s ! k)"
    using syntax_parts(4) [OF assms(1,3)] assms(2,4) by (auto simp: ocj_ranges_bad_def list_ex_iff)
  then have "bl_base (sn_blocks s ! k) + 64 < bl_base (sn_blocks s ! i) \<or> bl_base (sn_blocks s ! i) + 64 < bl_base (sn_blocks s ! k)"
    using assms(5) by (auto simp: ocj_range_clash_def)
  then show ?thesis
    using syntax_base(2) [OF assms(1)] assms(2-5) by (auto simp: word_less_nat_alt)
qed

lemma syntax_apart:
  assumes "ocj_syntax s" and "i < 32" and "k < 32" and "i \<noteq> k"
    and "bl_base (sn_blocks s ! i) \<noteq> 0" and "bl_base (sn_blocks s ! k) \<noteq> 0"
  shows "unat (bl_base (sn_blocks s ! i)) + 64 < unat (bl_base (sn_blocks s ! k)) \<or>
    unat (bl_base (sn_blocks s ! k)) + 64 < unat (bl_base (sn_blocks s ! i))"
  using syntax_apart_less [OF assms(1), of i k] syntax_apart_less [OF assms(1), of k i] assms(2-6)
  by (cases "i < k") auto

lemma syntax_pending:
  assumes "ocj_syntax s" and "sn_pending_kind s \<noteq> 0"
  shows "sn_pending_slot s < 32" "bl_base (sn_blocks s ! unat (sn_pending_slot s)) \<noteq> 0"
  using syntax_parts(2,5) [OF assms(1)] assms(2)
  by (auto simp: ocj_pending_bad_def ocj_pending_block_bad_def Let_def split: if_split_asm)

section \<open>The lease invariant\<close>

text \<open>\<open>unspent I base c\<close>: no identifier of the range of \<open>base\<close> from page \<open>c\<close> on has been issued.\<close>

definition unspent :: "u64 list \<Rightarrow> u64 \<Rightarrow> u32 \<Rightarrow> bool" where
  "unspent I base c \<longleftrightarrow> (\<forall>x\<in>set I. \<not> (unat base + unat c < unat x \<and> unat x \<le> unat base + 64))"

definition fresh_ok :: "u64 list \<Rightarrow> u32 \<Rightarrow> ocj_block list \<Rightarrow> bool" where
  "fresh_ok I fresh bs \<longleftrightarrow> (\<forall>b<32. bit fresh b \<longrightarrow> bl_base (bs ! b) \<noteq> 0 \<and> unspent I (bl_base (bs ! b)) (bl_consumed (bs ! b)))"

definition pending_ok :: "u64 list \<Rightarrow> ocj_snapshot \<Rightarrow> bool" where
  "pending_ok I s \<longleftrightarrow> (sn_pending_kind s \<noteq> 0 \<longrightarrow> unspent I (bl_base (sn_blocks s ! unat (sn_pending_slot s))) 0)"

definition flight_ok :: "bool \<Rightarrow> owned_dhara_lease \<Rightarrow> ocj_snapshot \<Rightarrow> bool" where
  "flight_ok inflight l s \<longleftrightarrow> (inflight \<longrightarrow> le_map_slot l < 32 \<and>
     (le_kind l = OWNED_CONTROL_ERASE_BLOCK \<longrightarrow> sn_pending_kind s \<noteq> 0 \<and> sn_pending_slot s = le_map_slot l))"

definition rooted :: "ocj_snapshot \<Rightarrow> ocj_block list \<Rightarrow> bool" where
  "rooted s bs \<longleftrightarrow> ocj_syntax s \<and> length (sn_blocks s) = 32 \<and> map bl_base bs = map bl_base (sn_blocks s)"

definition live :: "u64 list \<Rightarrow> 'e owned_control_journal \<Rightarrow> bool" where
  "live I j \<longleftrightarrow>
    (if ocj_booted j then rooted (ocj_current j) (ocj_working j) else I = [] \<and> \<not> ocj_map_inflight j \<and> ocj_fresh_map j = 0) \<and>
    (\<not> ocj_reconciled j \<longrightarrow> ocj_fresh_map j = 0 \<and> \<not> ocj_map_inflight j) \<and>
    (\<forall>x\<in>set I. x \<le> sn_high_water (ocj_current j)) \<and> fresh_ok I (ocj_fresh_map j) (ocj_working j) \<and>
    pending_ok I (ocj_current j) \<and> flight_ok (ocj_map_inflight j) (ocj_inflight j) (ocj_current j)"

definition lease_inv :: "u64 list \<Rightarrow> 'e owned_control_journal \<Rightarrow> bool" where
  "lease_inv I j \<longleftrightarrow> distinct I \<and> (ocj_fault j \<or> live I j)"

lemma live_core: "jcore k = jcore j \<Longrightarrow> ocj_reconciled k = ocj_reconciled j \<Longrightarrow> live I k = live I j"
  by (simp add: jcore_def live_def)

lemma live_held: "held j k \<Longrightarrow> live I j \<Longrightarrow> ocj_fault k \<or> live I k"
  using live_core by (auto simp: held_def)

lemma rooted_base: "rooted s bs \<Longrightarrow> i < 32 \<Longrightarrow> bl_base (bs ! i) = bl_base (sn_blocks s ! i)"
  unfolding rooted_def by (metis length_map nth_map)

lemma rooted_length: "rooted s bs \<Longrightarrow> length bs = 32"
  unfolding rooted_def by (metis length_map)

lemma inv_held: "held j k \<Longrightarrow> lease_inv I j \<Longrightarrow> lease_inv I k"
  using live_held [of j k I] by (auto simp: lease_inv_def held_def)

lemma inv_faulted: "lease_inv I j \<Longrightarrow> ocj_fault k \<Longrightarrow> lease_inv I k"
  by (simp add: lease_inv_def)

lemma inv_live: "lease_inv I j \<Longrightarrow> \<not> ocj_fault j \<Longrightarrow> live I j"
  by (simp add: lease_inv_def)

lemma inv_finish: "lease_inv I k \<Longrightarrow> post (\<lambda>rc. lease_inv I) (j_finish rc k)"
  using live_core [of "snd (j_finish rc k)" k] by (simp add: post_def j_finish_def Let_def lease_inv_def jcore_def)

lemma inv_fault: "lease_inv I k \<Longrightarrow> post (\<lambda>rc. lease_inv I) (let (rc, k) = j_fault c k in j_finish rc k)"
  by (simp add: j_fault_def inv_finish lease_inv_def)

lemma post_begin: "post (kept j) (j_begin d j)"
proof -
  obtain n e where n: "j_now j = (n, j\<lparr>ocj_env := e\<rparr>)" by (simp add: j_now_def case_prod_beta Let_def)
  show ?thesis unfolding j_begin_def n by (simp add: post_def j_fault_def kept_def held_fault)
qed

lemma begin_fault: "ocj_fault j \<Longrightarrow> j_begin d j = (rc, k) \<Longrightarrow> rc \<noteq> 0"
  by (auto simp: j_begin_def split: if_split_asm)

lemma inv_begin:
  assumes "lease_inv I j" and "\<And>rc k. lease_inv I k \<Longrightarrow> rc \<noteq> 0 \<Longrightarrow> post Q (f rc k)"
    and "\<And>k. lease_inv I k \<Longrightarrow> \<not> ocj_fault k \<Longrightarrow> post Q (f 0 k)"
  shows "post Q (Let (j_begin d j) (case_prod f))"
proof (rule post_let_pair)
  fix rc k assume b: "j_begin d j = (rc, k)"
  have k: "kept j rc k" using postD [OF post_begin b] .
  then have "lease_inv I k" using inv_held assms(1) by (auto simp: kept_def)
  moreover have "rc = 0 \<Longrightarrow> \<not> ocj_fault k" using k begin_fault [OF _ b] by (auto simp: kept_def)
  ultimately show "post Q (f rc k)" using assms(2,3) by (cases "rc = 0") auto
qed

lemma inv_kept:
  assumes "lease_inv I k" and "\<not> ocj_fault k" and "post (kept k) r"
    and "\<And>rc m. lease_inv I m \<Longrightarrow> rc \<noteq> 0 \<Longrightarrow> post Q (f rc m)"
    and "\<And>m. held k m \<Longrightarrow> lease_inv I m \<Longrightarrow> \<not> ocj_fault m \<Longrightarrow> post Q (f 0 m)"
  shows "post Q (Let r (case_prod f))"
  by (rule post_kept_then [OF assms(3)]) (use assms inv_held in blast)+

lemma inv_publish:
  assumes "\<not> ocj_fault k" and "\<And>rc m. ocj_fault m \<Longrightarrow> rc \<noteq> 0 \<Longrightarrow> post Q (f rc m)"
    and "\<And>m. adopted g k m \<Longrightarrow> \<not> ocj_fault m \<Longrightarrow> post Q (f 0 m)"
  shows "post Q (Let (publish g k) (case_prod f))"
proof (rule post_call [OF published_publish [OF assms(1), of g]])
  fix rc m assume "published g k rc m"
  then show "post Q (f rc m)" using assms(2,3) by (cases "rc = 0") (auto simp: published_def)
qed

lemma adoptedD:
  assumes "adopted g j k"
  shows "sn_blocks (ocj_current k) = sn_blocks (ocj_candidate j)" "sn_high_water (ocj_current k) = sn_high_water (ocj_candidate j)"
    "sn_pending_kind (ocj_current k) = sn_pending_kind (ocj_candidate j)"
    "sn_pending_slot (ocj_current k) = sn_pending_slot (ocj_candidate j)"
    "ocj_syntax (ocj_current k)" "ocj_booted k = ocj_booted j" "ocj_fresh_map k = ocj_fresh_map j" "ocj_working k = ocj_working j"
    "ocj_map_inflight k = ocj_map_inflight j" "ocj_inflight k = ocj_inflight j" "ocj_reconciled k = ocj_reconciled j"
proof -
  obtain s page where a: "placed g (ocj_current j) (ocj_candidate j) s" "ocj_syntax s"
      "ocj_current k = s\<lparr>sn_digest := part 1280 32 page\<rparr>" "jcore (k\<lparr>ocj_current := ocj_current j\<rparr>) = jcore j"
      "ocj_reconciled k = ocj_reconciled j"
    using assms unfolding adopted_def by blast
  have s: "sn_blocks s = sn_blocks (ocj_candidate j) \<and> sn_high_water s = sn_high_water (ocj_candidate j) \<and>
      sn_pending_kind s = sn_pending_kind (ocj_candidate j) \<and> sn_pending_slot s = sn_pending_slot (ocj_candidate j)"
    using a(1) by (auto simp: placed_def split: if_split_asm)
  show "sn_blocks (ocj_current k) = sn_blocks (ocj_candidate j)" "sn_high_water (ocj_current k) = sn_high_water (ocj_candidate j)"
    "sn_pending_kind (ocj_current k) = sn_pending_kind (ocj_candidate j)"
    "sn_pending_slot (ocj_current k) = sn_pending_slot (ocj_candidate j)" "ocj_syntax (ocj_current k)"
    using a(2) s unfolding a(3) by simp_all
  show "ocj_booted k = ocj_booted j" "ocj_fresh_map k = ocj_fresh_map j" "ocj_working k = ocj_working j"
    "ocj_map_inflight k = ocj_map_inflight j" "ocj_inflight k = ocj_inflight j" "ocj_reconciled k = ocj_reconciled j"
    using a(4,5) by (simp_all add: jcore_def)
qed

section \<open>Each operation keeps the invariant\<close>

lemma live_booted: "live I j \<Longrightarrow> ocj_booted j \<Longrightarrow> rooted (ocj_current j) (ocj_working j)"
  by (simp add: live_def)

lemma live_rooted:
  assumes "live I j" and "ocj_booted j"
  shows "ocj_syntax (ocj_current j)" "length (sn_blocks (ocj_current j)) = 32"
    "map bl_base (ocj_working j) = map bl_base (sn_blocks (ocj_current j))"
  using live_booted [OF assms] by (simp_all add: rooted_def)

lemma fresh_ok_none [simp]: "fresh_ok I 0 bs"
  by (simp add: fresh_ok_def)

lemma inv_commit:
  assumes "lease_inv I k" and "\<not> ocj_fault k"
    and "\<And>m. adopted g (k\<lparr>ocj_candidate := c\<rparr>) m \<Longrightarrow> \<not> ocj_fault m \<Longrightarrow> live I (F m)"
  shows "post (\<lambda>rc. lease_inv I) (let k = k\<lparr>ocj_candidate := c\<rparr>; (rc, m) = publish g k; m = (if rc = 0 then F m else m) in j_finish rc m)"
  unfolding Let_def [of "k\<lparr>ocj_candidate := c\<rparr>"]
proof (rule inv_publish, goal_cases)
  case (3 m)
  then have "lease_inv I (F m)" using assms(1,3) by (simp add: lease_inv_def)
  then show ?case by (simp add: inv_finish)
qed (use assms in \<open>simp_all add: inv_finish inv_faulted\<close>)

lemma inv_commit_only:
  assumes "lease_inv I k" and "\<not> ocj_fault k"
    and "\<And>m. adopted g (k\<lparr>ocj_candidate := c\<rparr>) m \<Longrightarrow> \<not> ocj_fault m \<Longrightarrow> live I m"
  shows "post (\<lambda>rc. lease_inv I) (let k = k\<lparr>ocj_candidate := c\<rparr>; (rc, m) = publish g k in j_finish rc m)"
  using inv_commit [of I k g c "\<lambda>m. m"] assms by (simp add: Let_def)

lemmas inv_parts = live_def rooted_def pending_ok_def flight_ok_def adoptedD

lemma inv_reconcile: "lease_inv I j \<Longrightarrow> post (\<lambda>rc. lease_inv I) (ocj_reconcile d j)"
  unfolding ocj_reconcile_def
proof (erule inv_begin, goal_cases)
  case (2 k)
  then have l: "live I k" by (rule inv_live)
  show ?case
    by (simp only: simp_thms if_False, rule post_if, rule inv_finish [OF 2(1)], rule inv_commit [OF 2])
      (use l in \<open>auto simp: reconciled_snapshot_def Let_def inv_parts\<close>)
qed (simp add: post_def)

lemma inv_history_sync: "lease_inv I j \<Longrightarrow> post (\<lambda>rc. lease_inv I) (ocj_history_sync d j)"
  unfolding ocj_history_sync_def
proof (erule inv_begin, goal_cases)
  case (2 k)
  then have l: "live I k" by (rule inv_live)
  show ?case
    by (simp only: simp_thms if_False, rule post_if, rule inv_finish [OF 2(1)], rule inv_commit_only [OF 2])
      (use l rooted_length live_booted [OF l] in \<open>auto simp: inv_parts\<close>)
qed (simp add: post_def)

lemma inv_activate: "lease_inv I j \<Longrightarrow> post (\<lambda>rc. lease_inv I) (ocj_activate d j)"
  unfolding ocj_activate_def
proof (erule inv_begin, goal_cases)
  case (2 k)
  show ?case
  proof (simp only: simp_thms if_False, rule post_if, rule inv_finish [OF 2(1)],
      rule inv_kept [OF 2 post_admitted [OF held_refl refl]], goal_cases)
    case (1 rc m)
    then show ?case by (simp add: inv_finish)
  next
    case (2 m)
    then have l: "live I m" by (intro inv_live)
    show ?case
      by (simp only: simp_thms if_False, rule inv_commit_only [OF 2(3,4)]) (use l in \<open>auto simp: inv_parts\<close>)
  qed
qed (simp add: post_def)

text \<open>Genesis: nothing has been issued yet.\<close>

lemma live_unbooted: "live I j \<Longrightarrow> \<not> ocj_booted j \<Longrightarrow> I = [] \<and> \<not> ocj_map_inflight j \<and> ocj_fresh_map j = 0"
  by (simp add: live_def)

lemma live_start:
  assumes "ocj_syntax (ocj_current m)" and "length (sn_blocks (ocj_current m)) = 32" and "ocj_booted m"
    and "map bl_base (ocj_working m) = map bl_base (sn_blocks (ocj_current m))" and "ocj_fresh_map m = 0" and "\<not> ocj_map_inflight m"
  shows "live [] m"
  using assms by (simp add: live_def rooted_def pending_ok_def flight_ok_def unspent_def)

lemma post_erase_both:
  "post (kept k) (let (rc, m) = erase_fresh 1 r k; (rc, m) = (if rc = 0 then erase_fresh 0 r m else (rc, m)) in (rc, m))"
proof (rule post_kept_then [OF post_erase_fresh [OF held_refl refl]], goal_cases)
  case (1 rc m)
  then show ?case by (simp add: post_def kept_def)
next
  case (2 m)
  then show ?case using post_erase_fresh [OF 2] by (simp add: case_prod_beta)
qed

lemma inv_provision: "lease_inv I j \<Longrightarrow> post (\<lambda>rc. lease_inv I) (ocj_provision d j)"
  unfolding ocj_provision_def
proof (erule inv_begin, goal_cases)
  case (2 k)
  have adopt: "live I (m\<lparr>ocj_booted := True, ocj_reconciled := True, ocj_working := sn_blocks (ocj_current m)\<rparr>)"
    if "adopted True (k'\<lparr>ocj_candidate := genesis_snapshot\<rparr>) m" "live I k'" "\<not> ocj_booted k'" for k' m
    using live_unbooted [OF that(2,3)] by (auto simp: adoptedD [OF that(1)] genesis_snapshot_def intro!: live_start)
  have split: "(let (rc, m) = a; (rc, m) = b rc m in f rc m) = (let (rc, m) = (let (rc, m) = a; (rc, m) = b rc m in (rc, m)) in f rc m)"
    for a :: "int \<times> 'a owned_control_journal" and b and f :: "int \<Rightarrow> 'a owned_control_journal \<Rightarrow> int \<times> 'a owned_control_journal"
    by (simp add: case_prod_beta Let_def)
  show ?case
  proof (simp only: simp_thms if_False, rule post_if, rule inv_finish [OF 2(1)], subst split,
      rule inv_kept [OF 2 post_erase_both], goal_cases)
    case (1 rc m)
    then show ?case by (simp add: inv_fault [unfolded Let_def])
  next
    case (2 m)
    then have l: "live I m" "\<not> ocj_booted m" by (auto intro: inv_live simp: held_def jcore_def)
    show ?case
      by (simp only: simp_thms if_False, rule inv_commit [OF 2(3,4)]) (rule adopt [OF _ l])
  qed
qed (simp add: post_def)

text \<open>Boot adopts only decoded snapshots.\<close>

lemma decode_ok: "ocj_decode_body v b n h p = (0, s) \<Longrightarrow> ocj_syntax s \<and> length (sn_blocks s) = 32"
proof -
  have "length (sn_blocks (ocj_read b n p)) = 32" by (simp add: ocj_read_def)
  then show "ocj_decode_body v b n h p = (0, s) \<Longrightarrow> ocj_syntax s \<and> length (sn_blocks s) = 32"
    by (auto simp: ocj_decode_body_def Let_def split: if_split_asm option.split_asm)
qed

lemma decode_codes: "ocj_decode_body v b n h p = (rc, s) \<Longrightarrow> rc = 0 \<or> rc = 1 \<or> rc < 0"
  unfolding ocj_decode_body_def Let_def
  by (simp split: if_split_asm option.split_asm)

definition scanned :: "'e owned_control_journal \<Rightarrow> 'e owned_control_journal \<Rightarrow> bool" where
  "scanned j k \<longleftrightarrow> jcore k = jcore j \<and> (\<not> ocj_fault k \<longrightarrow> ocj_reconciled k = ocj_reconciled j \<and> \<not> ocj_fault j) \<and> length (ocj_last k) = 2 \<and>
     (\<forall>i<2. sn_epoch (ocj_last k ! i) \<noteq> 0 \<longrightarrow> ocj_syntax (ocj_last k ! i) \<and> length (sn_blocks (ocj_last k ! i)) = 32)"

lemma scanned_held: "scanned j k \<Longrightarrow> held k m \<Longrightarrow> scanned j m"
  by (auto simp: scanned_def held_def)

lemma scanned_candidate: "scanned j k \<Longrightarrow> scanned j (k\<lparr>ocj_candidate := c\<rparr>)"
  by (simp add: scanned_def jcore_def)

lemma scanned_inv: "scanned j k \<Longrightarrow> lease_inv I j \<Longrightarrow> lease_inv I k"
  using live_core by (auto simp: scanned_def lease_inv_def)

lemma scanned_record:
  assumes "scanned j k" and "j_boot_record b t k = (t', m)" and "ocj_syntax (ocj_candidate k)" and "length (sn_blocks (ocj_candidate k)) = 32"
  shows "scanned j m \<and> ocj_fault m = ocj_fault k"
proof -
  have m_eq: "m = snd (j_boot_record b t k)" using assms(2) by simp
  have m: "ocj_last m = (ocj_last k)[unat b := ocj_candidate k]" "jcore m = jcore k" "ocj_fault m = ocj_fault k"
      "ocj_reconciled m = ocj_reconciled k"
    unfolding m_eq by (simp_all add: j_boot_record_def Let_def jcore_def)
  have "\<forall>i<2. sn_epoch (ocj_last m ! i) \<noteq> 0 \<longrightarrow> ocj_syntax (ocj_last m ! i) \<and> length (sn_blocks (ocj_last m ! i)) = 32"
    using assms(1,3,4) by (cases "unat b < 2") (auto simp: m(1) scanned_def nth_list_update list_update_beyond)
  then show ?thesis using assms(1) m by (simp add: scanned_def)
qed

lemma scanned_bank:
  "scanned j k \<Longrightarrow> \<not> ocj_fault k \<Longrightarrow> j_boot_bank b slots t k = (rc, t', m) \<Longrightarrow> scanned j m \<and> (rc = 0 \<longrightarrow> \<not> ocj_fault m)"
proof (induction b slots t k rule: j_boot_bank.induct)
  case (1 b t k)
  then show ?case by simp
next
  case (2 b slot slots t k)
  obtain rc1 k1 where r: "j_read_control b slot k = (rc1, k1)" by fastforce
  have q: "quiet k rc1 k1" using postD [OF post_read_control [OF held_refl refl] r] .
  have s1: "scanned j k1" using q 2(3) scanned_held by (auto simp: quiet_def)
  show ?case
  proof (cases "rc1 = 0")
    case False
    then show ?thesis using 2(5) s1 by (simp add: r)
  next
    case True
    have f1: "\<not> ocj_fault k1" using q True 2(4) by (simp add: quiet_def)
    obtain rc2 c where d: "ocj_decode_body (ocj_volume k1) b slot (ocj_hash k1) (ocj_rx k1) = (rc2, c)" by fastforce
    let ?k = "k1\<lparr>ocj_candidate := c\<rparr>"
    have s2: "scanned j ?k" "\<not> ocj_fault ?k" using s1 f1 scanned_candidate by auto
    obtain t3 k3 where b: "j_boot_record b t ?k = (t3, k3)" by fastforce
    have step: "(if rc2 < 0 then (let (rc, j) = j_fault rc2 ?k in (rc, t, j))
        else if rc2 = 1 then j_boot_bank b slots (t\<lparr>bt_gap := True\<rparr>) ?k else j_boot_bank b slots t3 k3) = (rc, t', m)"
      using 2(5) True by (simp only: j_boot_bank.simps r d b Let_def prod.case simp_thms if_False)
    consider "rc2 < 0" | "rc2 = 1" | "\<not> rc2 < 0" "rc2 \<noteq> 1" by fastforce
    then show ?thesis
    proof cases
      case 1
      then show ?thesis using step scanned_held [OF s2(1) held_fault [OF held_refl]] by (simp add: j_fault_def)
    next
      case gap: 2
      show ?thesis
        by (rule 2(1) [OF r [symmetric] refl _ d [symmetric] refl refl _ _ s2]) (use step True gap in simp_all)
    next
      case 3
      have "rc2 = 0" using 3 decode_codes [OF d] by auto
      then have s3: "scanned j k3 \<and> ocj_fault k3 = ocj_fault ?k"
        using d decode_ok by (intro scanned_record [OF s2(1) b]) auto
      show ?thesis
        by (rule 2(2) [OF r [symmetric] refl _ d [symmetric] refl refl _ _ b [symmetric] refl])
          (use step True 3 s3 s2 in simp_all)
    qed
  qed
qed

lemma inv_boot_select:
  assumes "lease_inv I j" and "\<not> ocj_booted j" and "scanned j k" and "\<not> ocj_fault k"
  shows "post (\<lambda>rc. lease_inv I) (j_boot_select t0 t1 k)"
proof -
  have inv: "lease_inv I k" using scanned_inv [OF assms(3,1)] .
  have "\<not> ocj_booted k" using assms(2,3) by (simp add: scanned_def jcore_def)
  then have nil: "I = []" "\<not> ocj_map_inflight k" using live_unbooted [OF inv_live [OF inv assms(4)]] by auto
  have start: "live I (k\<lparr>ocj_current := ocj_last k ! i, ocj_working := sn_blocks (ocj_last k ! i), ocj_booted := True,
      ocj_tail_fresh := False, ocj_fresh_map := 0, ocj_reconciled := False\<rparr>)"
    if "i < 2" "sn_epoch (ocj_last k ! i) \<noteq> 0" for i
    using that assms(3) nil by (auto simp: scanned_def intro!: live_start)
  define i :: nat where "i = (if sn_epoch (ocj_last k ! 1) > sn_epoch (ocj_last k ! 0) then 1 else 0)"
  have i: "i < 2" by (simp add: i_def)
  show ?thesis
    unfolding j_boot_select_def i_def [symmetric] Let_def [of i]
    by (rule post_let, rule post_let, rule post_let, rule post_let, rule post_let, rule post_let, rule post_if,
        rule inv_finish [OF inv], rule post_if, rule inv_fault [OF inv], rule inv_finish)
      (use start [OF i] inv in \<open>auto simp: lease_inv_def\<close>)
qed

lemma inv_boot: "lease_inv I j \<Longrightarrow> post (\<lambda>rc. lease_inv I) (ocj_boot d j)"
  unfolding ocj_boot_def
proof (erule inv_begin, goal_cases)
  case (2 k)
  show ?case
  proof (simp only: simp_thms if_False, rule post_if, rule inv_finish [OF 2(1)],
      rule inv_kept [OF 2 post_admitted [OF held_refl refl]], goal_cases)
    case (1 rc m)
    then show ?case by (simp add: inv_finish)
  next
    case (2 m)
    let ?m = "m\<lparr>ocj_first := replicate 2 sn_zero, ocj_last := replicate 2 sn_zero\<rparr>"
    have inv: "lease_inv I ?m" using 2(3) live_core [of ?m m I] by (simp add: lease_inv_def jcore_def)
    have fresh: "scanned ?m ?m" "\<not> ocj_fault ?m" "\<not> ocj_booted ?m"
      using 2 by (auto simp: scanned_def less_2_cases_iff held_def jcore_def sn_zero_def)
    show ?case
    proof (simp only: simp_thms if_False, rule post_let, hypsubst, rule post_let_triple)
      fix rc t0 n assume a: "j_boot_bank 0 boot_slots boot_fresh ?m = (rc, t0, n)"
      note sa = scanned_bank [OF fresh(1,2) a]
      have n: "lease_inv I n" using scanned_inv sa inv by blast
      show "post (\<lambda>rc. lease_inv I) (if rc \<noteq> 0 then j_finish rc n else
          let (rc, t1, n) = j_boot_bank 1 boot_slots boot_fresh n in if rc \<noteq> 0 then j_finish rc n else j_boot_select t0 t1 n)"
      proof (rule post_if, rule inv_finish [OF n], rule post_let_triple)
        fix rc' t1 l assume rc: "\<not> rc \<noteq> 0" and b: "j_boot_bank 1 boot_slots boot_fresh n = (rc', t1, l)"
        then have n': "scanned ?m n" "\<not> ocj_fault n" using sa by auto
        note sb = scanned_bank [OF n' b]
        then have l: "lease_inv I l" using scanned_inv inv by blast
        show "post (\<lambda>rc. lease_inv I) (if rc' \<noteq> 0 then j_finish rc' l else j_boot_select t0 t1 l)"
          by (rule post_if, rule inv_finish [OF l], rule inv_boot_select [OF inv fresh(3)]) (use sb in auto)
      qed
    qed
  qed
qed (simp add: post_def)

lemma inv_validate: "lease_inv I j \<Longrightarrow> post (\<lambda>rc. lease_inv I) (ocj_validate_capability c d j)"
proof (cases c)
  case (Ptr a cap)
  assume inv: "lease_inv I j"
  show ?thesis
    unfolding Ptr ocj_validate_capability.simps
  proof (rule post_if, rule post_return, rule inv, rule inv_begin [OF inv], goal_cases)
    case (2 k)
    show ?case
      by (simp only: simp_thms if_False, rule inv_kept [OF 2(2,3) post_admitted [OF held_refl refl]]) (simp_all only: inv_finish)
  qed (simp add: post_def)
qed (simp add: post_def)

lemma inv_check:
  assumes "lease_inv I k"
  shows "post (\<lambda>rc. lease_inv I) (let (rc, k) = j_check k in j_finish rc k)"
  by (rule post_call [OF post_check [OF held_refl refl]]) (use assms inv_held in \<open>auto simp: quiet_def intro!: inv_finish\<close>)

lemma inv_retire: "lease_inv I j \<Longrightarrow> post (\<lambda>rc. lease_inv I) (ocj_retire b blk bm l d j)"
  unfolding ocj_retire_def
proof (erule inv_begin, goal_cases)
  case (2 k)
  then have l: "live I k" by (rule inv_live)
  show ?case
  proof (simp only: simp_thms if_False, rule post_if, rule inv_fault [OF 2(1)], rule inv_commit [OF 2])
    fix m :: "'a owned_control_journal"
    assume g: "\<not> (b \<ge> 32 \<or> blk \<noteq> vs_map_blocks (vd_spec (ocj_volume k)) ! unat b \<or> bm \<noteq> sn_retired (ocj_current k) OR bit_of b \<or>
        l = Null \<or> \<not> ocj_map_inflight k \<or> pt l \<noteq> ocj_inflight k)"
      and a: "adopted False (k\<lparr>ocj_candidate := retire_candidate b bm k\<rparr>) m"
    let ?c = "retire_candidate b bm k"
    have b: "b < 32" "unat b < 32" and "ocj_booted k"
      using g l by (auto simp: live_def word_less_nat_alt not_le split: if_splits)
    note r = live_rooted [OF l this(3)]
    have bases: "map bl_base (sn_blocks ?c) = map bl_base (sn_blocks (ocj_current k))"
      using r b by (auto simp: retire_candidate_def Let_def nth_list_update intro!: nth_equalityI)
    have "fresh_ok I (ocj_fresh_map k AND NOT (bit_of b)) (ocj_working k)"
      using l by (auto simp: live_def fresh_ok_def bit_clear_slot [OF b(1)])
    then show "live I (m\<lparr>ocj_fresh_map := ocj_fresh_map m AND NOT (bit_of b), ocj_map_inflight := False, ocj_inflight := lease_zero\<rparr>)"
      using l bases r \<open>ocj_booted k\<close>
      by (simp add: live_def rooted_def pending_ok_def flight_ok_def adoptedD [OF a]) (auto simp: retire_candidate_def Let_def)
  qed
qed (simp add: post_def)

lemma map_bases_update:
  "i < length xs \<Longrightarrow> bl_base y = bl_base (xs ! i) \<Longrightarrow> map bl_base (xs[i := y]) = map bl_base xs"
  by (auto simp: nth_list_update intro!: nth_equalityI)

lemma live_flight:
  assumes "live I k" and "ocj_map_inflight k"
  shows "ocj_booted k" "ocj_reconciled k" "unat (le_map_slot (ocj_inflight k)) < 32" "le_map_slot (ocj_inflight k) < 32"
    "le_kind (ocj_inflight k) = OWNED_CONTROL_ERASE_BLOCK \<Longrightarrow>
       sn_pending_kind (ocj_current k) \<noteq> 0 \<and> sn_pending_slot (ocj_current k) = le_map_slot (ocj_inflight k)"
  using assms by (auto simp: live_def flight_ok_def word_less_nat_alt split: if_split_asm)

lemma live_resolve_program:
  assumes "live I k" and "ocj_map_inflight k" and "i < 32"
    and w: "bl_base w = bl_base (ocj_working k ! i)" "bl_consumed w = bl_consumed (ocj_working k ! i)"
  shows "live I (k\<lparr>ocj_working := (ocj_working k)[i := w], ocj_map_inflight := False, ocj_inflight := lease_zero\<rparr>)"
proof -
  note f = live_flight [OF assms(1,2)]
  have n: "length (ocj_working k) = 32" using rooted_length [OF live_booted [OF assms(1) f(1)]] .
  have "fresh_ok I (ocj_fresh_map k) ((ocj_working k)[i := w])"
    using assms(1) w n \<open>i < 32\<close> unfolding live_def fresh_ok_def by (auto simp: nth_list_update)
  then show ?thesis
    using assms(1,3) f(1,2) n w by (simp add: live_def rooted_def flight_ok_def map_bases_update)
qed

lemma live_resolve_erase:
  assumes "live I k" and "ocj_map_inflight k" and l: "l = ocj_inflight k" and "le_kind l = OWNED_CONTROL_ERASE_BLOCK"
    and b: "b = le_map_slot l" and a: "adopted False (k\<lparr>ocj_candidate := resolve_candidate b (ocj_current k)\<rparr>) m"
  shows "live I (m\<lparr>ocj_working := (ocj_working m)[unat b := sn_blocks (ocj_current m) ! unat b],
      ocj_fresh_map := ocj_fresh_map m OR bit_of b, ocj_map_inflight := False, ocj_inflight := lease_zero\<rparr>)"
proof -
  note f = live_flight [OF assms(1,2)] and r = live_rooted [OF assms(1) live_flight(1) [OF assms(1,2)]]
  have b32: "b < 32" "unat b < 32" using f(3,4) b l by auto
  have p: "sn_pending_kind (ocj_current k) \<noteq> 0" "sn_pending_slot (ocj_current k) = b"
    using f(5) b l assms(4) by auto
  let ?bs = "sn_blocks (ocj_current k)" and ?w = "ocj_working k"
  have n: "length ?w = 32" using rooted_length [OF live_booted [OF assms(1) f(1)]] .
  have cur: "sn_blocks (ocj_current m) = ?bs[unat b := (?bs ! unat b)\<lparr>bl_consumed := 0\<rparr>]" "sn_pending_kind (ocj_current m) = 0"
      "sn_high_water (ocj_current m) = sn_high_water (ocj_current k)"
    using adoptedD(1-3) [OF a] by (simp_all add: resolve_candidate_def)
  have base: "bl_base (?w ! unat b) = bl_base (?bs ! unat b)" using rooted_base [OF live_booted [OF assms(1) f(1)] b32(2)] .
  have "bl_base (?bs ! unat b) \<noteq> 0" using syntax_pending(2) [OF r(1) p(1)] p(2) by simp
  moreover have "unspent I (bl_base (?bs ! unat b)) 0" using assms(1) p by (simp add: live_def pending_ok_def)
  ultimately have "fresh_ok I (ocj_fresh_map k OR bit_of b) (?w[unat b := (?bs ! unat b)\<lparr>bl_consumed := 0\<rparr>])"
    using assms(1) n b32(2) by (auto simp: fresh_ok_def live_def bit_set_slot [OF b32(1)] nth_list_update)
  then show ?thesis
    using assms(1) r n f(1,2) b32 base
    by (simp add: live_def rooted_def pending_ok_def flight_ok_def adoptedD(5-11) [OF a] cur map_bases_update)
qed

lemma post_resolve_kind:
  assumes "live I k" and "\<not> ocj_fault k" and "ocj_map_inflight k" and "l = ocj_inflight k"
  shows "post (\<lambda>rc m. (rc \<noteq> 0 \<longrightarrow> ocj_fault m) \<and> (rc = 0 \<longrightarrow> \<not> ocj_fault m \<and>
      live I (m\<lparr>ocj_map_inflight := False, ocj_inflight := lease_zero\<rparr>))) (resolve_kind l k)"
proof (cases "le_kind l = OWNED_CONTROL_ERASE_BLOCK")
  case True
  show ?thesis
    unfolding resolve_kind_def
  proof (rule post_let, simp only: True simp_thms if_True, rule post_let, hypsubst, rule inv_publish, goal_cases)
    case (3 b k' m)
    then show ?case
      using live_resolve_erase [where m = m, OF assms(1,3,4) True refl] by (simp add: post_def)
  qed (use assms(2) in \<open>simp_all add: post_def\<close>)
next
  case False
  then show ?thesis
    using live_resolve_program [OF assms(1,3) live_flight(3) [OF assms(1,3)]] assms(2,4)
    by (simp add: post_def resolve_kind_def Let_def)
qed

lemma inv_resolve: "lease_inv I j \<Longrightarrow> post (\<lambda>rc. lease_inv I) (ocj_resolve l d j)"
  unfolding ocj_resolve_def
proof (erule inv_begin, goal_cases)
  case (2 k)
  show ?case
  proof (simp only: simp_thms if_False, rule post_if, rule inv_fault [OF 2(1)])
    assume g: "\<not> (l = Null \<or> \<not> ocj_map_inflight k \<or> pt l \<noteq> ocj_inflight k)"
    then have fl: "ocj_map_inflight k" "pt l = ocj_inflight k" by auto
    show "post (\<lambda>rc. lease_inv I) (let (rc, m) = resolve_kind (pt l) k in if rc \<noteq> 0 then j_finish rc m
        else let m = m\<lparr>ocj_map_inflight := False, ocj_inflight := lease_zero\<rparr>; (rc, m) = j_check m in j_finish rc m)"
    proof (rule post_call [OF post_resolve_kind [OF inv_live [OF 2] 2(2) fl]], rule post_if, goal_cases)
      case (1 rc m)
      then show ?case using inv_faulted [OF 2(1)] by (intro inv_finish) auto
    next
      case (2 rc m)
      then show ?case
        using \<open>lease_inv I k\<close> inv_check [of I "m\<lparr>ocj_map_inflight := False, ocj_inflight := lease_zero\<rparr>"]
        by (simp add: lease_inv_def Let_def)
    qed
  qed
qed (simp add: post_def)

section \<open>Issuing a lease\<close>

lemma unspent_Cons: "unspent (x # I) base c \<longleftrightarrow> unspent I base c \<and> \<not> (unat base + unat c < unat x \<and> unat x \<le> unat base + 64)"
  by (auto simp: unspent_def)

text \<open>A new range: its erase identifier lies above everything issued.\<close>

lemma live_acquire_erase:
  assumes "live I k" and "ocj_booted k" and rec: "ocj_reconciled k" and b: "b < 32" and hw: "\<not> sn_high_water (ocj_current k) > UINT64_MAX - 65"
    and a: "adopted False (k\<lparr>ocj_candidate := erase_candidate b (ocj_current k)\<rparr>) m"
    and t: "le_map_slot t = b" "le_kind t = OWNED_CONTROL_ERASE_BLOCK" "le_lease_id t = sn_high_water (ocj_current k) + 1"
  shows "le_lease_id t \<notin> set I"
    "live (le_lease_id t # I) (m\<lparr>ocj_working := (ocj_working m)[unat b := sn_blocks (ocj_current m) ! unat b],
       ocj_fresh_map := ocj_fresh_map m AND NOT (bit_of b), ocj_inflight := t, ocj_map_inflight := True\<rparr>)"
proof -
  note r = live_rooted [OF assms(1,2)]
  let ?bs = "sn_blocks (ocj_current k)" and ?w = "ocj_working k" and ?hw = "sn_high_water (ocj_current k)"
  have b32: "unat b < 32" using b by (simp add: word_less_nat_alt)
  have n: "length ?w = 32" using rooted_length [OF live_booted [OF assms(1,2)]] .
  have h: "unat ?hw + 65 < 2 ^ 64" using hw by (simp add: word_le_nat_alt not_less)
  then have h1: "unat (?hw + 1) = unat ?hw + 1" "unat (?hw + 65) = unat ?hw + 65"
    using unat_add_small [of ?hw 1] unat_add_small [of ?hw 65] by simp_all
  have le: "\<forall>x\<in>set I. unat x \<le> unat ?hw" using assms(1) by (simp add: live_def word_le_nat_alt)
  then show new: "le_lease_id t \<notin> set I" using h1(1) t(3) by fastforce
  define x where "x = \<lparr>bl_base = ?hw + 1, bl_valid = 0, bl_range_sequence = sn_epoch (ocj_current k) + 1, bl_consumed = 64\<rparr>"
  have cur: "sn_blocks (ocj_current m) = ?bs[unat b := x]" "sn_pending_kind (ocj_current m) = OWNED_CONTROL_ERASE_BLOCK"
      "sn_pending_slot (ocj_current m) = b" "sn_high_water (ocj_current m) = ?hw + 65"
    using adoptedD(1-4) [OF a] by (simp_all add: erase_candidate_def Let_def x_def algebra_simps)
  have bound: "unat (bl_base (?w ! c)) + 64 \<le> unat ?hw" if "c < 32" "bl_base (?w ! c) \<noteq> 0" for c
    using syntax_base(1) [OF r(1) that(1)] rooted_base [OF live_booted [OF assms(1,2)] that(1)] that(2) by simp
  have "fresh_ok (le_lease_id t # I) (ocj_fresh_map k AND NOT (bit_of b)) (?w[unat b := x])"
    using assms(1) bound h1(1) t(3)
    by (fastforce simp: live_def fresh_ok_def bit_clear_slot [OF b] unspent_Cons)
  moreover have "unspent (le_lease_id t # I) (?hw + 1) 0" using le h1(1) t(3) by (fastforce simp: unspent_def)
  moreover have "\<forall>y\<in>set (le_lease_id t # I). y \<le> ?hw + 65" using le h1 t(3) by (auto simp: word_le_nat_alt)
  moreover have "map bl_base (?w[unat b := x]) = map bl_base (?bs[unat b := x])"
    using r(3) by (simp add: map_update)
  ultimately show "live (le_lease_id t # I) (m\<lparr>ocj_working := (ocj_working m)[unat b := sn_blocks (ocj_current m) ! unat b],
       ocj_fresh_map := ocj_fresh_map m AND NOT (bit_of b), ocj_inflight := t, ocj_map_inflight := True\<rparr>)"
    using r n assms(2) rec b b32 t
    by (simp add: live_def rooted_def pending_ok_def flight_ok_def adoptedD(5-11) [OF a] cur) (simp add: x_def)
qed

text \<open>A page of an open range: its identifier lies beyond the pages handed out.\<close>

lemma live_acquire_program:
  assumes "live I k" and "ocj_booted k" and rec: "ocj_reconciled k" and b: "b < 32" and pend: "sn_pending_kind (ocj_current k) = 0"
    and fresh: "slot_bit (ocj_fresh_map k) b" and p: "\<not> p < bl_consumed (ocj_working k ! unat b)" "p < 64"
    and t: "le_map_slot t = b" "le_kind t \<noteq> OWNED_CONTROL_ERASE_BLOCK" "le_lease_id t = bl_base (ocj_working k ! unat b) + (1 + ucast p)"
  shows "le_lease_id t \<notin> set I"
    "live (le_lease_id t # I) (k\<lparr>ocj_working := (ocj_working k)[unat b := (ocj_working k ! unat b)\<lparr>bl_consumed := p + 1\<rparr>],
       ocj_inflight := t, ocj_map_inflight := True\<rparr>)"
proof -
  note r = live_rooted [OF assms(1,2)]
  let ?w = "ocj_working k" and ?hw = "sn_high_water (ocj_current k)" and ?x = "le_lease_id t"
  have base: "\<And>c. c < 32 \<Longrightarrow> bl_base (?w ! c) = bl_base (sn_blocks (ocj_current k) ! c)"
    using rooted_base [OF live_booted [OF assms(1,2)]] .
  have b32: "unat b < 32" using b by (simp add: word_less_nat_alt)
  have n: "length ?w = 32" using rooted_length [OF live_booted [OF assms(1,2)]] .
  have fok: "fresh_ok I (ocj_fresh_map k) ?w" using assms(1) by (simp add: live_def)
  have fb: "bl_base (?w ! unat b) \<noteq> 0" "unspent I (bl_base (?w ! unat b)) (bl_consumed (?w ! unat b))"
    using fok fresh b32 by (auto simp: fresh_ok_def slot_bit_unat [OF b])
  have top: "unat (bl_base (?w ! unat b)) + 64 \<le> unat ?hw"
    using syntax_base(1) [OF r(1) b32] fb(1) base [OF b32] by simp
  have p64: "unat p < 64" using p(2) by (simp add: word_less_nat_alt)
  have "1 + ucast p = (of_nat (1 + unat p) :: u64)" by simp
  moreover have "unat (bl_base (?w ! unat b)) + (1 + unat p) < 2 ^ 64"
    using top p64 unsigned_less [of ?hw, where ?'a = nat] by simp
  ultimately have x: "unat ?x = unat (bl_base (?w ! unat b)) + 1 + unat p"
    using unat_add_small unfolding t(3) by (metis add.assoc)
  have c: "unat (bl_consumed (?w ! unat b)) \<le> unat p" using p(1) by (simp add: word_le_nat_alt not_less)
  show new: "?x \<notin> set I" using fb(2) x c p64 by (auto simp: unspent_def)
  have p1: "unat (p + 1) = unat p + 1" using p64 by (simp add: unat_word_ariths)
  have apart: "\<not> (unat (bl_base (?w ! i)) + d < unat ?x \<and> unat ?x \<le> unat (bl_base (?w ! i)) + 64)"
    if "i < 32" "i \<noteq> unat b" "bl_base (?w ! i) \<noteq> 0" for i d
    using syntax_apart [OF r(1) that(1) b32 that(2)] that(3) fb(1) base [OF that(1)] base [OF b32] x p64 by auto
  have "fresh_ok (?x # I) (ocj_fresh_map k) (?w[unat b := (?w ! unat b)\<lparr>bl_consumed := p + 1\<rparr>])"
    unfolding fresh_ok_def
  proof (intro allI impI)
    fix i assume i: "i < 32" "bit (ocj_fresh_map k) i"
    then have "bl_base (?w ! i) \<noteq> 0" "unspent I (bl_base (?w ! i)) (bl_consumed (?w ! i))" using fok by (auto simp: fresh_ok_def)
    then show "bl_base (?w[unat b := (?w ! unat b)\<lparr>bl_consumed := p + 1\<rparr>] ! i) \<noteq> 0 \<and>
        unspent (?x # I) (bl_base (?w[unat b := (?w ! unat b)\<lparr>bl_consumed := p + 1\<rparr>] ! i))
          (bl_consumed (?w[unat b := (?w ! unat b)\<lparr>bl_consumed := p + 1\<rparr>] ! i))"
      using n b32 i apart [of i] x c p1 by (cases "i = unat b") (auto simp: unspent_Cons, auto simp: unspent_def)
  qed
  moreover have "\<forall>y\<in>set (?x # I). y \<le> ?hw" using assms(1) x top p64 by (auto simp: live_def word_le_nat_alt)
  ultimately show "live (?x # I) (k\<lparr>ocj_working := ?w[unat b := (?w ! unat b)\<lparr>bl_consumed := p + 1\<rparr>],
       ocj_inflight := t, ocj_map_inflight := True\<rparr>)"
    using r n assms(2) rec b b32 t(1,2) pend
    by (simp add: live_def rooted_def pending_ok_def flight_ok_def map_bases_update)
qed

definition issuing :: "u64 list \<Rightarrow> u32 \<Rightarrow> u32 \<Rightarrow> u32 \<Rightarrow> 'e owned_control_journal \<Rightarrow> bool" where
  "issuing I kind b row m \<longleftrightarrow> (let t = ticket m kind b row in
     le_lease_id t \<notin> set I \<and> live (le_lease_id t # I) (m\<lparr>ocj_inflight := t, ocj_map_inflight := True\<rparr>))"

lemma post_acquire_kind:
  assumes l: "live I k" and nf: "\<not> ocj_fault k" and g: "\<not> acquire_refused b row k"
  shows "post (\<lambda>rc m. (rc \<noteq> 0 \<longrightarrow> ocj_fault m \<or> m = k) \<and> (rc = 0 \<longrightarrow> \<not> ocj_fault m \<and> issuing I kind b row m)) (acquire_kind kind b row k)"
proof -
  have b: "b < 32" and bt: "ocj_booted k" and rc: "ocj_reconciled k" and p0: "sn_pending_kind (ocj_current k) = 0"
    using g by (auto simp: acquire_refused_def not_le)
  have b32: "unat b < 32" using b by (simp add: word_less_nat_alt)
  have n: "length (ocj_working k) = 32" "length (sn_blocks (ocj_current k)) = 32"
    using rooted_length [OF live_booted [OF l bt]] live_rooted(2) [OF l bt] by auto
  consider "kind = OWNED_CONTROL_ERASE_BLOCK" | "kind = OWNED_CONTROL_PROGRAM_PAGE" | "kind \<noteq> OWNED_CONTROL_ERASE_BLOCK" "kind \<noteq> OWNED_CONTROL_PROGRAM_PAGE"
    by blast
  then show ?thesis
  proof cases
    case 1
    have er: "issuing I kind b row (m\<lparr>ocj_working := (ocj_working m)[unat b := sn_blocks (ocj_current m) ! unat b],
        ocj_fresh_map := ocj_fresh_map m AND NOT (bit_of b)\<rparr>)"
      if hw: "\<not> sn_high_water (ocj_current k) > UINT64_MAX - 65"
        and a: "adopted False (k\<lparr>ocj_candidate := erase_candidate b (ocj_current k)\<rparr>) m" for m
    proof -
      let ?t = "ticket (m\<lparr>ocj_working := (ocj_working m)[unat b := sn_blocks (ocj_current m) ! unat b],
        ocj_fresh_map := ocj_fresh_map m AND NOT (bit_of b)\<rparr>) kind b row"
      have t: "le_map_slot ?t = b" "le_kind ?t = OWNED_CONTROL_ERASE_BLOCK" "le_lease_id ?t = sn_high_water (ocj_current k) + 1"
        using n b32 by (simp_all add: ticket_def Let_def 1 adoptedD(1,8) [OF a] erase_candidate_def)
      show ?thesis
        using live_acquire_erase [OF l bt rc b hw a t] by (simp add: issuing_def Let_def)
    qed
    show ?thesis
      unfolding acquire_kind_def
    proof (simp only: 1 simp_thms if_True, rule post_if, simp add: post_def j_fault_def, rule post_let, hypsubst,
        rule inv_publish, goal_cases)
      case (3 k' m)
      then show ?case using er [unfolded 1] by (simp add: post_def)
    qed (simp_all add: nf post_def)
  next
    case 2
    have r: "row mod 64 < 64" by (rule word_mod_less_divisor) simp
    let ?k = "k\<lparr>ocj_working := (ocj_working k)[unat b := (ocj_working k ! unat b)\<lparr>bl_consumed := row mod 64 + 1\<rparr>]\<rparr>"
    have t: "le_map_slot (ticket ?k kind b row) = b" "le_kind (ticket ?k kind b row) \<noteq> OWNED_CONTROL_ERASE_BLOCK"
        "le_lease_id (ticket ?k kind b row) = bl_base (ocj_working k ! unat b) + (1 + ucast (row mod 64))"
      using n b32 by (simp_all add: ticket_def Let_def 2)
    have "issuing I kind b row ?k"
      if "slot_bit (ocj_fresh_map k) b" "\<not> row mod 64 < bl_consumed (ocj_working k ! unat b)"
      using live_acquire_program [OF l bt rc b p0 that r t] by (simp add: issuing_def Let_def)
    then show ?thesis using nf by (simp add: acquire_kind_def 2 post_def j_fault_def)
  next
    case 3
    then show ?thesis by (simp add: acquire_kind_def post_def)
  qed
qed

lemma acquire_failed:
  assumes "lease_inv I k" and "rc \<noteq> 0"
  shows "post (\<lambda>rc (l, m). rc \<noteq> 0 \<and> lease_inv I m) (let (rc, m) = j_finish rc k in (rc, l, m))"
  using postD [OF inv_finish [OF assms(1)], of rc] assms(2)
  by (cases "j_finish rc k") (auto simp: post_def j_finish_def Let_def split: if_splits)

lemma inv_acquire:
  assumes "lease_inv I j"
  shows "post (\<lambda>rc (l', m). if rc = 0 then l' \<noteq> Null \<and> lease_inv (le_lease_id (pt l') # I) m else lease_inv I m) (ocj_acquire ja kind b row l d j)"
    (is "post ?Q _")
proof -
  have fail: "post ?Q (let (rc, m) = j_finish rc k in (rc, l, m))" if "lease_inv I k" "rc \<noteq> 0" for rc k
    using acquire_failed [OF that] by (rule post_mono) auto
  have issue: "post ?Q (let t = ticket m kind b row; m = m\<lparr>ocj_inflight := t, ocj_map_inflight := True\<rparr>;
      (rc, m) = j_check m; (rc, m) = j_finish rc m in (rc, Ptr a t, m))"
    if m: "\<not> ocj_fault m" "issuing I kind b row m" for m a
  proof -
    define t where "t = ticket m kind b row"
    let ?m = "m\<lparr>ocj_inflight := t, ocj_map_inflight := True\<rparr>"
    obtain rc n where c: "j_check ?m = (rc, n)" by fastforce
    have q: "quiet ?m rc n" using postD [OF post_check [OF held_refl refl] c] .
    have inv: "lease_inv (le_lease_id t # I) ?m" using m assms by (simp add: issuing_def t_def Let_def lease_inv_def)
    have "lease_inv (le_lease_id t # I) n" using inv_held [OF quiet_held [OF q] inv] .
    moreover have "rc \<noteq> 0 \<Longrightarrow> lease_inv I n" using q assms by (simp add: lease_inv_def quiet_def)
    moreover have "rc = 0 \<Longrightarrow> \<not> ocj_fault n" using q m(1) by (simp add: quiet_def)
    moreover obtain rc' n' where f: "j_finish rc n = (rc', n')" by fastforce
    moreover have "rc' = 0 \<longleftrightarrow> rc = 0 \<and> \<not> ocj_fault n" using f by (auto simp: j_finish_def Let_def split: if_splits)
    moreover have "\<And>J. lease_inv J n \<Longrightarrow> lease_inv J n'" using postD [OF inv_finish f] .
    ultimately show ?thesis by (simp add: t_def [symmetric] c post_def)
  qed
  show ?thesis
    unfolding ocj_acquire_def
  proof (rule inv_begin [OF assms], goal_cases)
    case (2 k)
    show ?case
    proof (simp only: simp_thms if_False, rule post_if, rule fail [OF 2(1)], simp,
        rule inv_kept [OF 2 post_admitted [OF held_refl refl]], goal_cases)
      case (1 rc m)
      then show ?case using fail by simp
    next
      case (2 m)
      then have g: "\<not> acquire_refused b row m" by (auto simp: acquire_refused_def held_def jcore_def)
      show ?case
      proof (simp only: simp_thms if_False, rule post_call [OF post_acquire_kind [OF inv_live [OF 2(3,4)] 2(4) g]], rule post_if, goal_cases)
        case (1 rc n)
        then show ?case using fail inv_faulted [OF 2(3)] 2(3) by blast
      next
        case (2 rc n)
        then show ?case using issue by auto
      qed
    qed
  qed (simp add: post_def)
qed

lemma post_snd: "post (\<lambda>rc. lease_inv I) r \<Longrightarrow> lease_inv I (snd r)"
  by (simp add: post_def)

lemma inv_page_info:
  assumes "lease_inv I j"
  shows "post (\<lambda>rc x. lease_inv I (snd x)) (ocj_page_info ja row i d j)"
  unfolding ocj_page_info_def
proof (rule inv_begin [OF assms], goal_cases)
  case (2 k)
  have c: "lease_inv I (snd (j_check k))"
    using inv_held [OF _ 2(1)] post_check [of k k] by (simp add: post_def quiet_def)
  have f: "lease_inv I (snd (j_fault c k))" for c using inv_faulted [OF 2(1), of "snd (j_fault c k)"] by (simp add: j_fault_def)
  show ?case using 2(1) by (simp add: post_def case_prod_beta Let_def c f post_snd [OF inv_finish] split: option.splits)
qed (simp add: post_def)

section \<open>Sequences of operations\<close>

text \<open>Every operation of the journal, with arbitrary arguments.\<close>

datatype journal_op =
    Boot u64 | Provision u64 | Reconcile u64 | Activate u64 | Validate "owned_dhara_capability ptr" u64
  | Page_info u32 "owned_dhara_page_info ptr" u64 | Acquire u32 u32 u32 "owned_dhara_lease ptr" u64
  | Resolve "owned_dhara_lease ptr" u64 | History_sync u64 | Retire u32 u32 u32 "owned_dhara_lease ptr" u64

text \<open>One operation: the identifiers it issued (at most one) and the journal after it.\<close>

fun journal_step :: "nat \<Rightarrow> journal_op \<Rightarrow> 'e owned_control_journal \<Rightarrow> u64 list \<times> 'e owned_control_journal" where
  "journal_step ja (Boot d) j = ([], snd (ocj_boot d j))"
| "journal_step ja (Provision d) j = ([], snd (ocj_provision d j))"
| "journal_step ja (Reconcile d) j = ([], snd (ocj_reconcile d j))"
| "journal_step ja (Activate d) j = ([], snd (ocj_activate d j))"
| "journal_step ja (Validate c d) j = ([], snd (ocj_validate_capability c d j))"
| "journal_step ja (Page_info row i d) j = ([], snd (snd (ocj_page_info ja row i d j)))"
| "journal_step ja (Acquire kind b row l d) j =
    (let (rc, l, j) = ocj_acquire ja kind b row l d j in (if rc = 0 then [le_lease_id (pt l)] else [], j))"
| "journal_step ja (Resolve l d) j = ([], snd (ocj_resolve l d j))"
| "journal_step ja (History_sync d) j = ([], snd (ocj_history_sync d j))"
| "journal_step ja (Retire b blk bm l d) j = ([], snd (ocj_retire b blk bm l d j))"

fun journal_run :: "nat \<Rightarrow> journal_op list \<Rightarrow> 'e owned_control_journal \<Rightarrow> u64 list \<times> 'e owned_control_journal" where
  "journal_run ja [] j = ([], j)"
| "journal_run ja (a # as) j = (let (x, j) = journal_step ja a j; (y, j) = journal_run ja as j in (x @ y, j))"

lemmas inv_ops = inv_boot inv_provision inv_reconcile inv_activate inv_validate inv_resolve inv_history_sync inv_retire

lemma inv_step:
  assumes "lease_inv I j" and "journal_step ja a j = (x, k)"
  shows "lease_inv (x @ I) k"
proof (cases a)
  case (Acquire kind b row l d)
  then show ?thesis
    using assms inv_acquire [OF assms(1), of ja kind b row l d] by (auto simp: post_def split: prod.splits if_splits)
next
  case (Page_info row i d)
  then show ?thesis using assms inv_page_info [OF assms(1), of ja row i d] by (auto simp: post_def)
qed (use assms inv_ops [THEN post_snd] in auto)

lemma lease_inv_set:
  assumes "lease_inv I j" and "set I' = set I" and "distinct I'"
  shows "lease_inv I' j"
proof -
  have "I' = [] \<longleftrightarrow> I = []" "unspent I' = unspent I" using assms(2) by (auto simp: unspent_def fun_eq_iff)
  then have "live I' j = live I j" by (simp only: live_def fresh_ok_def pending_ok_def assms(2))
  then show ?thesis using assms by (simp add: lease_inv_def)
qed

lemma inv_run: "lease_inv I j \<Longrightarrow> journal_run ja as j = (ids, k) \<Longrightarrow> lease_inv (I @ ids) k"
proof (induction as arbitrary: I j ids k)
  case (Cons a as)
  obtain x m where s: "journal_step ja a j = (x, m)" by fastforce
  obtain y k' where r: "journal_run ja as m = (y, k')" by fastforce
  have "lease_inv (x @ I) m" using inv_step [OF Cons.prems(1) s] .
  then have "lease_inv (I @ x) m" by (rule lease_inv_set) (use \<open>lease_inv (x @ I) m\<close> in \<open>auto simp: lease_inv_def\<close>)
  then have "lease_inv ((I @ x) @ y) k'" using Cons.IH r by blast
  then show ?case using Cons.prems(2) s r by auto
qed simp

end
