(* ===== verification/Journal_Medium.thy ===== *)
theory Journal_Medium
  imports Journal_Leases
begin

text \<open>
  The control journal on a medium that works: callbacks over an addressable memory of pages.  The group
  shows that a legal publication then succeeds, and it states the properties of the journal: what a
  publication leaves behind, that a fenced journal refuses everything, and that lease identifiers are
  never issued twice.
\<close>

section \<open>A working medium\<close>

definition mem_erase :: "u32 \<Rightarrow> (u32 \<Rightarrow> bytes) \<Rightarrow> u32 \<Rightarrow> bytes" where
  "mem_erase block e row = (if row - block * 64 < 64 then replicate 4096 0xff else e row)"

definition mem_io :: "u64 \<Rightarrow> (u32 \<Rightarrow> bytes) ocj_io" where
  "mem_io now = \<lparr>io_now_ms = Some (\<lambda>e. (now, e)), io_admit = Some (\<lambda>_ _ _ _ _ e. (0, e)),
     io_read = Some (\<lambda>row _ e. (0, e row, e)), io_raw = Some (\<lambda>row _ e. (0, e row @ replicate 256 0xff, e)),
     io_erase = Some (\<lambda>block _ e. (0, mem_erase block e)), io_program = Some (\<lambda>row p _ e. (0, e(row := p))),
     io_fault_latched = Some (\<lambda>e. (0, e)), io_latch_fault = Some (\<lambda>_ _ e. (0, e))\<rparr>"

text \<open>The journal inside an operation: clock \<open>now\<close>, before the deadline, not fenced, buffers in place.\<close>

definition ready :: "u64 \<Rightarrow> (u32 \<Rightarrow> bytes) owned_control_journal \<Rightarrow> bool" where
  "ready now j \<longleftrightarrow> ocj_port j = mem_io now \<and> \<not> ocj_fault j \<and> ocj_last_now j = now \<and> now < ocj_deadline j \<and>
     length (ocj_rx j) = 4096 \<and> length (ocj_rawbuf j) = 4352"

lemma ready_simps [simp]:
  "ready now (j\<lparr>ocj_env := e\<rparr>) = ready now j" "ready now (j\<lparr>ocj_candidate := c\<rparr>) = ready now j" "ready now (j\<lparr>ocj_tx := p\<rparr>) = ready now j"
  "ready now (j\<lparr>ocj_tail_fresh := b\<rparr>) = ready now j" "ready now (j\<lparr>ocj_current := c\<rparr>) = ready now j"
  "ready now (j\<lparr>ocj_next_slot := n\<rparr>) = ready now j"
  by (simp_all add: ready_def)

lemma ready_check: "ready now j \<Longrightarrow> j_check j = (0, j)"
  by (cases j) (auto simp: ready_def j_check_def j_now_def mem_io_def)

lemma ready_admitted: "ready now j \<Longrightarrow> j_admitted r b j = (0, j)"
  by (frule ready_check) (cases j, auto simp: ready_def j_admitted_def mem_io_def)

lemma ready_io_result: "ready now j \<Longrightarrow> j_io_result 0 b r j = (0, j)"
  using ready_check [of now j] by (simp add: j_io_result_def)

lemma ready_read:
  assumes "ready now j" and "length (ocj_env j (j_control_row j b s)) = 4096"
  shows "j_read_control b s j = (0, j\<lparr>ocj_rx := ocj_env j (j_control_row j b s)\<rparr>)"
proof -
  let ?k = "j\<lparr>ocj_rx := ocj_env j (j_control_row j b s)\<rparr>"
  have p: "ocj_port j = mem_io now" "length (ocj_rx j) = 4096" using assms(1) by (simp_all add: ready_def)
  have k: "ready now ?k" using assms by (simp add: ready_def)
  have "j\<lparr>ocj_rx := blit 0 (part 0 4096 (ocj_env j (j_control_row j b s))) (ocj_rx j), ocj_env := ocj_env j\<rparr> = ?k"
    using p(2) assms(2) by (cases j) (simp add: blit_append part_def)
  then show ?thesis
    using ready_io_result [OF k] by (simp add: j_read_control_def ready_check [OF assms(1)] p(1) mem_io_def)
qed

lemma ready_verify:
  assumes "ready now j" and "\<forall>p\<in>set ps. ocj_env j (blk * 64 + p) = replicate 4096 0xff"
  shows "\<exists>raw. j_verify_erased b blk ps j = (0, j\<lparr>ocj_rawbuf := raw\<rparr>) \<and> ready now (j\<lparr>ocj_rawbuf := raw\<rparr>)"
  using assms
proof (induction ps arbitrary: j)
  case Nil
  then show ?case by (intro exI [of _ "ocj_rawbuf j"]) (simp add: ready_def)
next
  case (Cons p ps)
  have j: "ocj_port j = mem_io now" "length (ocj_rawbuf j) = 4352" using Cons.prems(1) by (simp_all add: ready_def)
  let ?k = "j\<lparr>ocj_rawbuf := replicate 4352 0xff\<rparr>"
  have k: "ready now ?k" using Cons.prems(1) by (simp add: ready_def)
  have page: "ocj_env j (blk * 64 + p) @ replicate 256 0xff = replicate 4352 0xff"
    using Cons.prems(2) by (simp add: replicate_add [symmetric])
  have "j\<lparr>ocj_rawbuf := blit 0 (part 0 4352 (replicate 4352 0xff)) (ocj_rawbuf j), ocj_env := ocj_env j\<rparr> = ?k"
    using j(2) by (cases j) (simp add: blit_append part_def)
  then have "j_verify_erased b blk (p # ps) j = j_verify_erased b blk ps ?k"
    using ready_io_result [OF k] page by (simp add: ready_check [OF Cons.prems(1)] j(1) mem_io_def all_eq_iff)
  moreover obtain raw where "j_verify_erased b blk ps ?k = (0, ?k\<lparr>ocj_rawbuf := raw\<rparr>) \<and> ready now (?k\<lparr>ocj_rawbuf := raw\<rparr>)"
    using Cons.IH [OF k] Cons.prems(2) by auto
  ultimately show ?case by auto
qed

lemma ready_erase:
  assumes "ready now j"
  shows "\<exists>raw e. erase_fresh b r j = (0, j\<lparr>ocj_env := e, ocj_rawbuf := raw\<rparr>) \<and> ready now (j\<lparr>ocj_env := e, ocj_rawbuf := raw\<rparr>)"
proof -
  let ?blk = "vs_control_blocks (vd_spec (ocj_volume j)) ! unat b"
  let ?k = "j\<lparr>ocj_env := mem_erase ?blk (ocj_env j)\<rparr>"
  have k: "ready now ?k" using assms by simp
  have "\<forall>p\<in>set boot_slots. ocj_env ?k (?blk * 64 + p) = replicate 4096 0xff"
    by (auto simp: boot_slots_def mem_erase_def word_less_nat_alt unsigned_of_nat take_bit_nat_eq_self)
  from ready_verify [OF k this, of b] obtain raw where
    "j_verify_erased b ?blk boot_slots ?k = (0, ?k\<lparr>ocj_rawbuf := raw\<rparr>)" "ready now (?k\<lparr>ocj_rawbuf := raw\<rparr>)" by blast
  moreover have "ocj_port j = mem_io now" using assms by (simp add: ready_def)
  ultimately have "erase_fresh b r j = (0, ?k\<lparr>ocj_rawbuf := raw\<rparr>)" "ready now (?k\<lparr>ocj_rawbuf := raw\<rparr>)"
    using ready_io_result [OF k] by (simp_all add: erase_fresh_def ready_admitted [OF assms] mem_io_def)
  then show ?thesis by blast
qed

lemma ready_program:
  assumes "ready now j" and "length (ocj_tx j) = 4096"
  shows "\<exists>k. publish_program j = (0, k) \<and> ready now k \<and> ocj_tail_fresh k \<and>
    ocj_current k = (ocj_candidate j)\<lparr>sn_digest := part 1280 32 (ocj_tx j)\<rparr> \<and> ocj_next_slot k = sn_slot (ocj_candidate j) + 1 \<and>
    ocj_env k (j_control_row j (sn_bank (ocj_candidate j)) (sn_slot (ocj_candidate j))) = ocj_tx j"
proof -
  let ?s = "ocj_candidate j"
  define row where "row = j_control_row j (sn_bank ?s) (sn_slot ?s)"
  define k where "k = j\<lparr>ocj_tail_fresh := False, ocj_env := (ocj_env j)(row := ocj_tx j)\<rparr>"
  have p: "ocj_port j = mem_io now" using assms(1) by (simp add: ready_def)
  have k: "ready now k" "ocj_env k row = ocj_tx j" "ocj_tx k = ocj_tx j" "ocj_candidate k = ?s"
    using assms(1) by (simp_all add: k_def)
  have rj: "j_control_row (j\<lparr>ocj_tail_fresh := False\<rparr>) b n = j_control_row j b n" for b n by (simp add: j_control_row_def)
  have rk: "j_control_row k (sn_bank ?s) (sn_slot ?s) = row" by (simp add: row_def j_control_row_def k_def)
  have rd: "j_read_control (sn_bank ?s) (sn_slot ?s) k = (0, k\<lparr>ocj_rx := ocj_tx j\<rparr>)"
    using ready_read [OF k(1), of "sn_bank ?s" "sn_slot ?s"] assms(2) k(2) by (simp add: rk)
  have "ready now (k\<lparr>ocj_rx := ocj_tx j, ocj_candidate := c\<rparr>)" for c using k(1) assms(2) by (simp add: ready_def)
  note c = ready_check [OF this]
  have "publish_program j = (0, k\<lparr>ocj_rx := ocj_tx j, ocj_candidate := ?s\<lparr>sn_digest := part 1280 32 (ocj_tx j)\<rparr>,
      ocj_current := ?s\<lparr>sn_digest := part 1280 32 (ocj_tx j)\<rparr>, ocj_tail_fresh := True, ocj_next_slot := sn_slot ?s + 1\<rparr>)"
    using ready_io_result [OF k(1)] rd c k(3) unfolding k_def
    by (simp add: publish_program_def ready_check [OF assms(1)] p mem_io_def rj row_def [symmetric] Let_def)
  moreover have "ready now (k\<lparr>ocj_rx := ocj_tx j\<rparr>)" using k(1) assms(2) by (simp add: ready_def)
  ultimately show ?thesis using k(2) by (simp add: row_def ready_def)
qed

lemma encode_length: "ocj_encode_body v s h = (0, page) \<Longrightarrow> length page = 4096"
  by (auto simp: ocj_encode_body_def Let_def split: option.splits)

lemma ready_publish:
  assumes "ready now j" and s: "s = (if g then ocj_candidate j else publish_place j)" "ocj_syntax s"
      "ocj_encode_body (ocj_volume j) s (ocj_hash j) = (0, page)"
    and "\<not> g \<longrightarrow> ocj_transition (ocj_current j) s \<and> sn_epoch (ocj_current j) \<noteq> INT64_MAX"
  shows "\<exists>k. publish g j = (0, k) \<and> ready now k \<and> ocj_tail_fresh k \<and>
    ocj_current k = s\<lparr>sn_digest := part 1280 32 page\<rparr> \<and> ocj_next_slot k = sn_slot s + 1 \<and>
    ocj_env k (j_control_row j (sn_bank s) (sn_slot s)) = page"
proof -
  define k where "k = (if g then j else j\<lparr>ocj_candidate := publish_place j\<rparr>)\<lparr>ocj_tx := page\<rparr>"
  have k: "ready now k" "ocj_candidate k = s" "ocj_tx k = page" "j_control_row k = j_control_row j"
    using assms(1) s(1) by (auto simp: k_def j_control_row_def fun_eq_iff)
  obtain raw e where er: "erase_fresh (sn_bank s) OCJ_ADMIT_RECYCLE k = (0, k\<lparr>ocj_env := e, ocj_rawbuf := raw\<rparr>)"
    "ready now (k\<lparr>ocj_env := e, ocj_rawbuf := raw\<rparr>)" using ready_erase [OF k(1)] by blast
  define m where "m = (if \<not> g \<and> sn_bank s \<noteq> sn_bank (ocj_current j) then k\<lparr>ocj_env := e, ocj_rawbuf := raw\<rparr> else k)"
  have m: "ready now m" "ocj_candidate m = s" "ocj_tx m = page" "j_control_row m = j_control_row j"
    using er(2) k by (auto simp: m_def j_control_row_def fun_eq_iff)
  have "publish g j = publish_program m"
    using assms s er(1) by (cases g) (simp_all add: publish_def ready_admitted [OF assms(1)] k_def m_def Let_def)
  then show ?thesis using ready_program [OF m(1)] m encode_length [OF s(3)] by simp
qed

section \<open>Properties\<close>

lemma page_decodes:
  assumes "wf_vd v" and "wf_sn s" and "ocj_syntax s" and "ocj_encode_body v s h = (0, page)"
  shows "ocj_decode_body v (sn_bank s) (sn_slot s) h page = (OCJ_OK, s\<lparr>sn_digest := part 1280 32 page\<rparr>)"
proof -
  have n: "length page = 4096" using encode_length [OF assms(4)] .
  moreover have "ocj_encode_body v (s\<lparr>sn_digest := d\<rparr>) h = (0, page)" for d using assms(4) by (simp add: ocj_encode_body_def)
  moreover have "wf_sn (s\<lparr>sn_digest := part 1280 32 page\<rparr>)" using assms(2) n by (simp add: wf_sn_def)
  ultimately show ?thesis using assms(3) ocj_decode_iff [OF assms(1) n] by simp
qed

lemma wf_placed: "wf_sn cur \<Longrightarrow> wf_sn c \<Longrightarrow> placed g cur c s \<Longrightarrow> wf_sn s"
  by (auto simp: placed_def wf_sn_def split: if_split_asm)

lemma transition_digest: "ocj_transition a (s\<lparr>sn_digest := d\<rparr>) = ocj_transition a s"
  by (simp add: ocj_transition_def ocj_link_bad_def ocj_new_range_bad_def ocj_same_range_bad_def ocj_reopen_bad_def ocj_changed_def [abs_def])

lemma adopted_decodes:
  assumes "adopted g j k" and "wf_vd (ocj_volume j)" and "wf_sn (ocj_current j)" and "wf_sn (ocj_candidate j)"
  shows "(g \<or> ocj_transition (ocj_current j) (ocj_current k)) \<and>
    ocj_decode_body (ocj_volume k) (sn_bank (ocj_current k)) (sn_slot (ocj_current k)) (ocj_hash k) (ocj_rx k) = (OCJ_OK, ocj_current k)"
proof -
  obtain s page where a: "placed g (ocj_current j) (ocj_candidate j) s" "ocj_syntax s" "g \<or> ocj_transition (ocj_current j) s"
      "ocj_encode_body (ocj_volume j) s (ocj_hash j) = (0, page)" "ocj_rx k = page" "ocj_current k = s\<lparr>sn_digest := part 1280 32 page\<rparr>"
      "jcore (k\<lparr>ocj_current := ocj_current j\<rparr>) = jcore j"
    using assms(1) unfolding adopted_def by blast
  have "ocj_volume k = ocj_volume j" "ocj_hash k = ocj_hash j" using a(7) by (simp_all add: jcore_def)
  then show ?thesis
    using page_decodes [OF assms(2) wf_placed [OF assms(3,4) a(1)] a(2,4)] a(3) by (simp add: a(5,6) transition_digest)
qed

text \<open>Claim C7.  A successful publication (\<open>publish\<close>) leaves a current snapshot that is admissible and, except
  for the genesis record, a legal successor of the previous one; the page that the medium returned last
  decodes, under the bank and slot of the snapshot, to exactly that snapshot.  A publication that fails fences
  the journal.  This holds whatever the physical callbacks do.\<close>

theorem journal_publish_verified:
  assumes "publish g j = (rc, k)" and "\<not> ocj_fault j" and "wf_vd (ocj_volume j)" and "wf_sn (ocj_current j)" and "wf_sn (ocj_candidate j)"
  shows "if rc = 0 then \<not> ocj_fault k \<and> ocj_syntax (ocj_current k) \<and> (g \<or> ocj_transition (ocj_current j) (ocj_current k)) \<and>
      ocj_decode_body (ocj_volume k) (sn_bank (ocj_current k)) (sn_slot (ocj_current k)) (ocj_hash k) (ocj_rx k) = (OCJ_OK, ocj_current k)
    else ocj_fault k"
proof -
  have "published g j rc k" using postD [OF published_publish [OF assms(2)] assms(1)] .
  then show ?thesis using adopted_decodes [OF _ assms(3-5)] adoptedD(5) [of g j k] by (auto simp: published_def)
qed

text \<open>Claim C26.  Progress: on a medium that works (pages are stored and returned, erased blocks read as
  \<open>0xff\<close>, admission granted, deadline ahead), \<open>publish\<close> succeeds for every legal candidate, and afterwards the
  page at the row of the snapshot's bank and slot decodes to the current snapshot.\<close>

theorem journal_publish_progress:
  assumes "ready now j" and "wf_vd (ocj_volume j)" and "wf_sn (ocj_current j)" and "wf_sn (ocj_candidate j)"
    and "s = (if g then ocj_candidate j else publish_place j)" and "ocj_syntax s"
    and "ocj_encode_body (ocj_volume j) s (ocj_hash j) = (OCJ_OK, page)"
    and "\<not> g \<longrightarrow> ocj_transition (ocj_current j) s \<and> sn_epoch (ocj_current j) \<noteq> INT64_MAX"
  shows "\<exists>k. publish g j = (0, k) \<and> ready now k \<and> ocj_current k = s\<lparr>sn_digest := part 1280 32 page\<rparr> \<and>
    ocj_env k (j_control_row k (sn_bank s) (sn_slot s)) = page \<and>
    ocj_decode_body (ocj_volume k) (sn_bank s) (sn_slot s) (ocj_hash k) page = (OCJ_OK, ocj_current k)"
proof -
  obtain k where k: "publish g j = (0, k)" "ready now k" "ocj_env k (j_control_row j (sn_bank s) (sn_slot s)) = page"
      "ocj_current k = s\<lparr>sn_digest := part 1280 32 page\<rparr>"
    using ready_publish [OF assms(1,5-8)] by blast
  have nf: "\<not> ocj_fault j" using assms(1) by (simp add: ready_def)
  have "adopted g j k" using postD [OF published_publish [OF nf] k(1)] by (simp add: published_def)
  then have core: "ocj_volume k = ocj_volume j" "ocj_hash k = ocj_hash j" by (auto simp: adopted_def jcore_def)
  have w: "wf_sn s" using assms(3-5) by (auto simp: wf_sn_def publish_place_def Let_def)
  have "j_control_row k = j_control_row j" by (simp add: fun_eq_iff j_control_row_def core)
  then show ?thesis using k core page_decodes [OF assms(2) w assms(6,7)] by auto
qed

subsection \<open>A run on the working medium\<close>

text \<open>The journal between two operations.\<close>

definition idle :: "u64 \<Rightarrow> (u32 \<Rightarrow> bytes) owned_control_journal \<Rightarrow> bool" where
  "idle now j \<longleftrightarrow> ocj_initialized j = OCJ_MAGIC \<and> \<not> ocj_busy j \<and> ocj_port j = mem_io now \<and> \<not> ocj_fault j \<and>
     ocj_last_now j \<le> now \<and> ocj_volume j = demo_vd \<and> ocj_hash j = Some const_sha"

lemma idle_begin:
  assumes "idle now j" and "now < d" and "d - now \<le> 120000" and "length (ocj_rx j) = 4096" and "length (ocj_rawbuf j) = 4352"
  shows "j_begin d j = (0, j\<lparr>ocj_deadline := d, ocj_last_now := now, ocj_busy := True\<rparr>)"
    "ready now (j\<lparr>ocj_deadline := d, ocj_last_now := now, ocj_busy := True\<rparr>)"
proof -
  have "j_now j = (now, j)" using assms(1) by (cases j) (simp add: idle_def j_now_def mem_io_def)
  then show "j_begin d j = (0, j\<lparr>ocj_deadline := d, ocj_last_now := now, ocj_busy := True\<rparr>)"
    using assms(1-3) by (auto simp: j_begin_def idle_def)
  show "ready now (j\<lparr>ocj_deadline := d, ocj_last_now := now, ocj_busy := True\<rparr>)"
    using assms by (simp add: ready_def idle_def)
qed

lemma demo_encode: "ocj_encode_body v s (Some const_sha) = (0, ocj_page v s (replicate 32 7))"
  by (simp add: ocj_encode_body_def ocj_sha_def const_sha_run ocj_page_def Let_def)

lemma demo_digest: "part 1280 32 (ocj_page v s (replicate 32 7)) = replicate 32 7"
  by (simp add: ocj_page_parts)

definition demo_journal :: "(u32 \<Rightarrow> bytes) owned_control_journal" where
  "demo_journal = (zero_journal (mem_io 5) (\<lambda>_. []))\<lparr>ocj_volume := demo_vd, ocj_hash := Some const_sha, ocj_initialized := OCJ_MAGIC\<rparr>"

definition demo_root :: ocj_snapshot where
  "demo_root = genesis_snapshot\<lparr>sn_digest := replicate 32 7\<rparr>"

definition demo_next :: ocj_snapshot where
  "demo_next = (erase_candidate 0 demo_root)\<lparr>sn_epoch := 2, sn_previous_epoch := 1, sn_previous_digest := replicate 32 7, sn_bank := 0, sn_slot := 1\<rparr>"

lemma demo_legal: "ocj_syntax genesis_snapshot" "ocj_syntax demo_next" "ocj_transition demo_root demo_next"
  by code_simp+

text \<open>The journal after provisioning.\<close>

definition demo_standing :: "(u32 \<Rightarrow> bytes) owned_control_journal \<Rightarrow> bool" where
  "demo_standing j \<longleftrightarrow> idle 5 j \<and> length (ocj_rx j) = 4096 \<and> length (ocj_rawbuf j) = 4352 \<and> ocj_booted j \<and> ocj_reconciled j \<and> \<not> ocj_map_inflight j \<and>
     ocj_current j = demo_root \<and> ocj_working j = sn_blocks demo_root \<and> ocj_fresh_map j = 0 \<and> ocj_tail_fresh j \<and> ocj_next_slot j = 1"

lemma adopted_port: "publish g j = (0, k) \<Longrightarrow> \<not> ocj_fault j \<Longrightarrow> jcore (k\<lparr>ocj_current := ocj_current j\<rparr>) = jcore j \<and> ocj_reconciled k = ocj_reconciled j"
  using postD [OF published_publish, of j g 0 k] by (auto simp: published_def adopted_def)

lemma demo_provision: "\<exists>k. ocj_provision 100 demo_journal = (0, k) \<and> demo_standing k"
proof -
  have i: "idle 5 demo_journal" "length (ocj_rx demo_journal) = 4096" "length (ocj_rawbuf demo_journal) = 4352"
    by (simp_all add: idle_def demo_journal_def zero_journal_def)
  define j where "j = demo_journal\<lparr>ocj_deadline := 100, ocj_last_now := 5, ocj_busy := True\<rparr>"
  have b: "j_begin 100 demo_journal = (0, j)" "ready 5 j"
    using idle_begin [OF i(1) _ _ i(2,3), of 100] unfolding j_def by auto
  obtain raw1 e1 where e1: "erase_fresh 1 OCJ_ADMIT_PROVISION j = (0, j\<lparr>ocj_env := e1, ocj_rawbuf := raw1\<rparr>)"
    "ready 5 (j\<lparr>ocj_env := e1, ocj_rawbuf := raw1\<rparr>)" using ready_erase [OF b(2)] by blast
  obtain raw2 e2 where e2: "erase_fresh 0 OCJ_ADMIT_PROVISION (j\<lparr>ocj_env := e1, ocj_rawbuf := raw1\<rparr>) = (0, j\<lparr>ocj_env := e2, ocj_rawbuf := raw2\<rparr>)"
    "ready 5 (j\<lparr>ocj_env := e2, ocj_rawbuf := raw2\<rparr>)" using ready_erase [OF e1(2)] by fastforce
  define m where "m = j\<lparr>ocj_env := e2, ocj_rawbuf := raw2, ocj_candidate := genesis_snapshot\<rparr>"
  have m: "ready 5 m" "\<not> ocj_fault m" using e2(2) by (simp_all add: m_def ready_def)
  have g: "genesis_snapshot = (if True then ocj_candidate m else publish_place m)" by (simp add: m_def)
  have enc: "ocj_encode_body (ocj_volume m) genesis_snapshot (ocj_hash m) = (0, ocj_page demo_vd genesis_snapshot (replicate 32 7))"
    by (simp add: m_def j_def demo_journal_def demo_encode)
  obtain k where k: "publish True m = (0, k)" "ready 5 k" "ocj_tail_fresh k" "ocj_current k = demo_root" "ocj_next_slot k = 1"
    using ready_publish [OF m(1) g demo_legal(1) enc] by (auto simp: demo_digest demo_root_def genesis_snapshot_def sn_zero_def)
  note core = adopted_port [OF k(1) m(2)]
  let ?k = "k\<lparr>ocj_booted := True, ocj_reconciled := True, ocj_working := sn_blocks (ocj_current k)\<rparr>"
  have start: "\<not> ocj_booted j" "sn_epoch (ocj_current j) = 0" by (simp_all add: j_def demo_journal_def zero_journal_def sn_zero_def)
  have "ocj_provision 100 demo_journal = j_finish 0 ?k"
    using start k(1) unfolding ocj_provision_def b(1) by (simp add: e1(1) e2(1) m_def)
  moreover have "demo_standing (snd (j_finish 0 ?k))" "fst (j_finish 0 ?k) = 0"
    using core k by (simp_all add: j_finish_def Let_def demo_standing_def idle_def ready_def jcore_def m_def j_def demo_journal_def zero_journal_def)
  ultimately show ?thesis by (metis prod.collapse)
qed

definition demo_ops :: "journal_op list" where
  "demo_ops = [Provision 100, Acquire OWNED_CONTROL_ERASE_BLOCK 0 6400 (Ptr 50000 lease_zero) 100]"

lemma demo_acquire:
  assumes "demo_standing j"
  shows "\<exists>l k. ocj_acquire 100000 OWNED_CONTROL_ERASE_BLOCK 0 6400 (Ptr 50000 lease_zero) 100 j = (0, l, k) \<and> le_lease_id (pt l) = 1 \<and>
    \<not> ocj_fault k \<and> sn_high_water (ocj_current k) = 65"
proof -
  note d = assms [unfolded demo_standing_def]
  have i: "idle 5 j" "length (ocj_rx j) = 4096" "length (ocj_rawbuf j) = 4352" using d by auto
  define k where "k = j\<lparr>ocj_deadline := 100, ocj_last_now := 5, ocj_busy := True\<rparr>"
  have b: "j_begin 100 j = (0, k)" "ready 5 k" using idle_begin [OF i(1) _ _ i(2,3), of 100] unfolding k_def by auto
  have ok: "\<not> acquire_refused 0 6400 k"
    using d by (simp add: acquire_refused_def k_def idle_def demo_vd_def demo_vs_def demo_root_def genesis_snapshot_def sn_zero_def slot_bit_def)
  define m where "m = k\<lparr>ocj_candidate := erase_candidate 0 demo_root\<rparr>"
  have m: "ready 5 m" "\<not> ocj_fault m" using b(2) by (simp_all add: m_def ready_def)
  have s: "demo_next = (if False then ocj_candidate m else publish_place m)"
    using d by (simp add: m_def k_def publish_place_def Let_def demo_next_def) (simp add: demo_root_def genesis_snapshot_def sn_zero_def)
  have enc: "ocj_encode_body (ocj_volume m) demo_next (ocj_hash m) = (0, ocj_page demo_vd demo_next (replicate 32 7))"
    using d by (simp add: m_def k_def idle_def demo_encode)
  have "ocj_transition (ocj_current m) demo_next" "sn_epoch (ocj_current m) \<noteq> INT64_MAX"
    using d demo_legal(3) by (simp_all add: m_def k_def) (simp add: demo_root_def genesis_snapshot_def)
  then obtain n where n: "publish False m = (0, n)" "ready 5 n" "ocj_current n = demo_next\<lparr>sn_digest := replicate 32 7\<rparr>"
    using ready_publish [OF m(1) s demo_legal(2) enc] by (auto simp: demo_digest)
  note core = adopted_port [OF n(1) m(2)]
  let ?n = "n\<lparr>ocj_working := (ocj_working n)[0 := sn_blocks (ocj_current n) ! 0], ocj_fresh_map := ocj_fresh_map n AND NOT (bit_of 0)\<rparr>"
  let ?t = "ticket ?n OWNED_CONTROL_ERASE_BLOCK 0 6400"
  let ?q = "?n\<lparr>ocj_inflight := ?t, ocj_map_inflight := True\<rparr>"
  have hw: "\<not> (6400 mod 64 \<noteq> (0::u32) \<or> sn_high_water (ocj_current k) > UINT64_MAX - 65)"
    using d by (simp add: k_def demo_root_def genesis_snapshot_def sn_zero_def)
  have cur: "ocj_current k = demo_root" using d by (simp add: k_def)
  have kind: "acquire_kind OWNED_CONTROL_ERASE_BLOCK 0 6400 k = (0, ?n)"
    using hw n(1) by (simp add: acquire_kind_def m_def cur)
  have q: "ready 5 ?q" using n(2) by (simp add: ready_def)
  have t: "le_lease_id ?t = 1"
    using core d by (simp add: ticket_def Let_def jcore_def m_def k_def n(3))
      (simp add: demo_next_def erase_candidate_def demo_root_def genesis_snapshot_def sn_zero_def)
  have "ocj_acquire 100000 OWNED_CONTROL_ERASE_BLOCK 0 6400 (Ptr 50000 lease_zero) 100 j = (let (rc, x) = j_finish 0 ?q in (rc, Ptr 50000 ?t, x))"
    unfolding ocj_acquire_def b(1) using ok by (simp add: ready_admitted [OF b(2)] kind ready_check [OF q] Let_def overlap_def UINTPTR_MAX_def)
  then show ?thesis
    using q t by (simp add: j_finish_def Let_def ready_def n(3))
      (simp add: demo_next_def erase_candidate_def demo_root_def genesis_snapshot_def sn_zero_def)
qed

lemma demo_run: "\<exists>k. journal_run 100000 demo_ops demo_journal = ([1], k) \<and> \<not> ocj_fault k \<and> sn_high_water (ocj_current k) = 65"
  using demo_provision demo_acquire by (fastforce simp: demo_ops_def)

lemma demo_ready: "ready 5 (demo_journal\<lparr>ocj_deadline := 100, ocj_last_now := 5, ocj_candidate := genesis_snapshot\<rparr>)"
  by (simp add: ready_def demo_journal_def zero_journal_def)

lemma demo_wf: "wf_vd demo_vd" "wf_sn sn_zero" "wf_sn genesis_snapshot"
  by (simp_all add: wf_vd_def demo_vd_def wf_sn_def sn_zero_def genesis_snapshot_def)

theorem journal_publish_progress_witness:
  "\<exists>k. publish True (demo_journal\<lparr>ocj_deadline := 100, ocj_last_now := 5, ocj_candidate := genesis_snapshot\<rparr>) = (0, k) \<and>
    ocj_current k = demo_root"
proof -
  let ?j = "demo_journal\<lparr>ocj_deadline := 100, ocj_last_now := 5, ocj_candidate := genesis_snapshot\<rparr>"
  have v: "ocj_volume ?j = demo_vd" "ocj_hash ?j = Some const_sha" "ocj_current ?j = sn_zero"
    by (simp_all add: demo_journal_def zero_journal_def)
  show ?thesis
    using journal_publish_progress [OF demo_ready, of genesis_snapshot True] demo_wf demo_legal(1)
    unfolding v by (simp add: demo_encode demo_digest demo_root_def) blast
qed

theorem journal_publish_verified_witness:
  "\<exists>k. publish True (demo_journal\<lparr>ocj_deadline := 100, ocj_last_now := 5, ocj_candidate := genesis_snapshot\<rparr>) = (0, k) \<and>
    ocj_decode_body (ocj_volume k) (sn_bank (ocj_current k)) (sn_slot (ocj_current k)) (ocj_hash k) (ocj_rx k) = (OCJ_OK, ocj_current k)"
proof -
  let ?j = "demo_journal\<lparr>ocj_deadline := 100, ocj_last_now := 5, ocj_candidate := genesis_snapshot\<rparr>"
  have v: "ocj_volume ?j = demo_vd" "ocj_hash ?j = Some const_sha" "ocj_current ?j = sn_zero" "\<not> ocj_fault ?j"
    by (simp_all add: demo_journal_def zero_journal_def)
  obtain k where k: "publish True ?j = (0, k)"
    using ready_publish [OF demo_ready, of genesis_snapshot True] demo_legal(1) v by (auto simp: demo_encode)
  show ?thesis using journal_publish_verified [OF k] demo_wf v k by simp
qed

text \<open>Claim C8.  No lease identifier is ever issued twice: from a freshly initialised journal, for any
  callbacks, any addresses and any sequence of operations with any arguments, the identifiers of the leases
  that \<open>ocj_acquire\<close> grants are pairwise distinct, and as long as the journal is not fenced none of them
  exceeds the high-water mark of the current snapshot.\<close>

theorem journal_leases_unique:
  assumes "ocj_init (Ptr ja j0) d s h io = (0, Ptr ja j)" and "journal_run ja ops j = (ids, k)"
  shows "distinct ids \<and> (ocj_fault k \<or> (\<forall>x\<in>set ids. x \<le> sn_high_water (ocj_current k)))"
proof -
  have "lease_inv [] j" using assms(1)
    by (cases d; cases s; cases h; cases io)
      (auto simp: lease_inv_def live_def zero_journal_def sn_zero_def pending_ok_def flight_ok_def split: if_split_asm prod.split_asm owned_volume_result.split_asm)
  then have "lease_inv ids k" using inv_run [OF _ assms(2)] by fastforce
  then show ?thesis by (auto simp: lease_inv_def live_def)
qed

theorem journal_leases_unique_witness:
  "\<exists>p j k. ocj_init (Ptr 100000 (zero_journal (mem_io 5) (\<lambda>_. []))) (Ptr 1000 p) (Ptr 2000 demo_vs) (Ptr 3000 (Some const_sha)) (Ptr 4000 (mem_io 5)) =
     (0, Ptr 100000 j) \<and> journal_run 100000 demo_ops j = ([1], k) \<and> \<not> ocj_fault k \<and> distinct [1 :: u64] \<and> 1 \<le> sn_high_water (ocj_current k)"
proof -
  obtain p where p: "vd_validate_body (Ptr 1000 p) 512 (Ptr 2000 demo_vs) (Ptr 3000 (Some const_sha)) =
      (OWNED_VOLUME_VALID, \<lparr>vd_spec = demo_vs, vd_digest = part 352 32 p\<rparr>)" "vd_digest_of const_sha p = Some (part 352 32 p)"
    using demo_vd_body [of const_sha] const_sha_run by (metis (no_types))
  then have vd: "\<lparr>vd_spec = demo_vs, vd_digest = part 352 32 p\<rparr> = demo_vd"
    using const_sha_run by (auto simp: vd_digest_of_def demo_vd_def)
  have io: "ocj_io_complete (mem_io 5)" by (simp add: ocj_io_complete_def mem_io_def)
  have init: "ocj_init (Ptr 100000 (zero_journal (mem_io 5) (\<lambda>_. []))) (Ptr 1000 p) (Ptr 2000 demo_vs) (Ptr 3000 (Some const_sha)) (Ptr 4000 (mem_io 5)) =
      (0, Ptr 100000 demo_journal)"
    using p(1) io unfolding vd by (simp add: overlap_def UINTPTR_MAX_def demo_journal_def) (simp add: zero_journal_def)
  obtain k where k: "journal_run 100000 demo_ops demo_journal = ([1], k)" "\<not> ocj_fault k" using demo_run by blast
  have u: "1 \<le> sn_high_water (ocj_current k)" using journal_leases_unique [OF init k(1)] k(2) by simp
  show ?thesis by (rule exI [of _ p], rule exI [of _ demo_journal], rule exI [of _ k]) (intro conjI init k u, simp)
qed

text \<open>Claim C27.  A fenced journal refuses every operation: once the fault flag is set, boot, provisioning,
  reconciliation, activation, page queries, lease acquisition, resolution, retirement and history sync return
  \<open>OCJ_FAULT\<close>, capabilities are refused, no output is written, no callback runs, and nothing changes, so the
  flag stays set through any sequence of operations.\<close>

theorem journal_fenced:
  assumes "ocj_fault j" and "ocj_initialized j = OCJ_MAGIC" and "\<not> ocj_busy j"
  shows "ocj_boot d j = (OCJ_FAULT, j) \<and> ocj_provision d j = (OCJ_FAULT, j) \<and> ocj_reconcile d j = (OCJ_FAULT, j) \<and>
    ocj_activate d j = (OCJ_FAULT, j) \<and> ocj_history_sync d j = (OCJ_FAULT, j) \<and> ocj_page_info ja row i d j = (OCJ_FAULT, i, j) \<and>
    ocj_acquire ja kind b row l d j = (OCJ_FAULT, l, j) \<and> ocj_resolve l d j = (OCJ_FAULT, j) \<and>
    ocj_retire b blk bm l d j = (OCJ_FAULT, j) \<and> ocj_validate_capability c d j = (OCJ_REFUSED, j) \<and>
    fst (ocj_capability (Ptr ja j) out) < 0 \<and> snd (ocj_capability (Ptr ja j) out) = out \<and> journal_run ja ops j = ([], j)"
proof -
  have b: "j_begin d j = (OCJ_FAULT, j)" for d using assms by (simp add: j_begin_def)
  have c: "capability_rc j = OCJ_REFUSED" using assms by (simp add: capability_rc_def)
  have v: "ocj_validate_capability c d j = (OCJ_REFUSED, j)" for c d by (cases c) (simp_all add: c)
  have "journal_step ja a j = ([], j)" for a
    by (cases a) (simp_all add: v ocj_boot_def ocj_provision_def ocj_reconcile_def ocj_activate_def ocj_history_sync_def
        ocj_page_info_def ocj_acquire_def ocj_resolve_def ocj_retire_def b)
  then have "journal_run ja ops j = ([], j)" by (induction ops) simp_all
  moreover have "fst (ocj_capability (Ptr ja j) out) < 0 \<and> snd (ocj_capability (Ptr ja j) out) = out"
    by (cases out) (simp_all add: c)
  ultimately show ?thesis
    by (simp add: v ocj_boot_def ocj_provision_def ocj_reconcile_def ocj_activate_def ocj_history_sync_def
        ocj_page_info_def ocj_acquire_def ocj_resolve_def ocj_retire_def b)
qed

theorem journal_fenced_witness:
  "ocj_boot 100 (demo_journal\<lparr>ocj_fault := True\<rparr>) = (OCJ_FAULT, demo_journal\<lparr>ocj_fault := True\<rparr>)"
  using journal_fenced [of "demo_journal\<lparr>ocj_fault := True\<rparr>" 100] by (simp add: demo_journal_def zero_journal_def)

text \<open>Claim C28.  A journal page is canonical: \<open>ocj_decode\<close> accepts a 4096-byte page for a bank and slot exactly
  when the page is what \<open>ocj_encode\<close> writes for some admissible snapshot of that bank and slot, and then it
  returns that snapshot with the digest of the page; the pages that are not journal pages of this volume yield
  a nonzero code and a cleared snapshot.\<close>

theorem journal_page_canonical:
  assumes "wf_vd v" and "length p = 4096" and "bank \<le> 1" and "slot \<le> 63"
    and "spans_apart [(va, sizeof_vd), (ha, sizeof_hash), (pa, 4096), (sa, sizeof_ocj_snapshot), (ca, sizeof_ocj_snapshot), (oa, 4096)]"
  shows "if fst (ocj_decode (Ptr va v) bank slot (Ptr ha h) (Ptr pa p) (Ptr sa old)) = OCJ_OK
    then (\<exists>s. ocj_decode (Ptr va v) bank slot (Ptr ha h) (Ptr pa p) (Ptr sa old) = (OCJ_OK, Ptr sa s) \<and> sn_bank s = bank \<and> sn_slot s = slot \<and>
      sn_digest s = part 1280 32 p \<and> ocj_encode (Ptr va v) (Ptr ca s) (Ptr ha h) (Ptr oa out) = (OCJ_OK, Ptr oa p))
    else snd (ocj_decode (Ptr va v) bank slot (Ptr ha h) (Ptr pa p) (Ptr sa old)) = Ptr sa sn_zero \<and>
      (\<nexists>s. wf_sn s \<and> sn_bank s = bank \<and> sn_slot s = slot \<and> ocj_encode (Ptr va v) (Ptr ca s) (Ptr ha h) (Ptr oa out) = (OCJ_OK, Ptr oa p))"
proof -
  let ?d = "ocj_decode_body v bank slot h p"
  have dec: "ocj_decode (Ptr va v) bank slot (Ptr ha h) (Ptr pa p) (Ptr sa old) = (fst ?d, Ptr sa (snd ?d))"
    using assms(3-5) by (simp add: overlap_sym case_prod_beta leD)
  have enc: "ocj_encode (Ptr va v) (Ptr ca s) (Ptr ha h) (Ptr oa out) = (OCJ_OK, Ptr oa p) \<longleftrightarrow> ocj_syntax s \<and> ocj_encode_body v s h = (OCJ_OK, p)" for s
    using assms(5) by (auto simp: overlap_sym case_prod_beta prod_eq_iff)
  show ?thesis
  proof (cases "fst ?d = OCJ_OK")
    case True
    then have "?d = (OCJ_OK, snd ?d)" by (metis prod.collapse)
    from this [unfolded ocj_decode_iff [OF assms(1,2)]] show ?thesis using True unfolding dec enc by simp
  next
    case False
    have "snd ?d = sn_zero" using False by (auto simp: ocj_decode_body_def Let_def split: option.splits)
    moreover have "\<not> (wf_sn s \<and> sn_bank s = bank \<and> sn_slot s = slot \<and> ocj_syntax s \<and> ocj_encode_body v s h = (OCJ_OK, p))" for s
      using page_decodes [OF assms(1), of s h p] False by auto
    ultimately show ?thesis using False unfolding dec enc by auto
  qed
qed

theorem journal_page_canonical_witness:
  "\<exists>p s. ocj_decode (Ptr 10000 demo_vd) 0 0 (Ptr 20000 (Some const_sha)) (Ptr 30000 p) (Ptr 40000 sn_zero) = (OCJ_OK, Ptr 40000 s) \<and>
     ocj_encode (Ptr 10000 demo_vd) (Ptr 50000 s) (Ptr 20000 (Some const_sha)) (Ptr 60000 []) = (OCJ_OK, Ptr 60000 p)"
proof -
  let ?p = "ocj_page demo_vd genesis_snapshot (replicate 32 7)"
  let ?d = "ocj_decode (Ptr 10000 demo_vd) 0 0 (Ptr 20000 (Some const_sha)) (Ptr 30000 ?p) (Ptr 40000 sn_zero)"
  have sp: "spans_apart [(10000, sizeof_vd), (20000, sizeof_hash), (30000, 4096), (40000, sizeof_ocj_snapshot), (50000, sizeof_ocj_snapshot), (60000, 4096)]"
    by (simp add: overlap_def UINTPTR_MAX_def)
  have n: "length ?p = 4096" by (simp add: ocj_page_parts)
  have "ocj_decode_body demo_vd 0 0 (Some const_sha) ?p = (OCJ_OK, genesis_snapshot\<lparr>sn_digest := replicate 32 7\<rparr>)"
    using page_decodes [OF demo_wf(1,3) demo_legal(1) demo_encode] by (simp add: demo_digest genesis_snapshot_def sn_zero_def)
  then have "fst ?d = OCJ_OK" by (simp add: overlap_def UINTPTR_MAX_def)
  then show ?thesis
    using journal_page_canonical [OF demo_wf(1) n _ _ sp, of 0 0 "Some const_sha" sn_zero "[]"] by (auto simp del: ocj_decode.simps ocj_encode.simps)
qed

end
