(* ===== verification/Device_Wire.thy ===== *)
theory Device_Wire
  imports Owned_Page
begin

text \<open>
  Byte records of the device: the preference block and its update rule (\<open>device_preferences.c\<close>), the
  telemetry frames (\<open>device_telemetry.c\<close>) and the descriptor of the large extent (\<open>recording_extent.c\<close>).  The group
  shows which updates are accepted, that a telemetry frame carries exactly its sources, and that an extent
  descriptor is accepted only for the identity it was built from.
\<close>

section \<open>Preferences\<close>

datatype dp_event = DP_OFF | DP_RECORDING | DP_LOW | DP_CONNECTED | DP_USB | DP_FAULT | DP_CHARGING

fun dp_event_code :: "dp_event \<Rightarrow> nat" where
  "dp_event_code DP_OFF = 0" | "dp_event_code DP_RECORDING = 1" | "dp_event_code DP_LOW = 2" | "dp_event_code DP_CONNECTED = 3"
| "dp_event_code DP_USB = 4" | "dp_event_code DP_FAULT = 5" | "dp_event_code DP_CHARGING = 6"

definition dp_revision :: "bytes \<Rightarrow> u32" where
  "dp_revision p = ucast (p ! 12) OR push_bit 8 (ucast (p ! 13)) OR push_bit 16 (ucast (p ! 14)) OR push_bit 24 (ucast (p ! 15))"

definition dp_defaults :: "bytes \<Rightarrow> bytes" where
  "dp_defaults p = blit 0 [2, 0, 32, 1, 4, 0, 0, 1, 25, 1, 0, 0, 0, 0, 0, 0] p"

text \<open>A null pointer is \<open>None\<close>.\<close>

fun dp_valid :: "bytes option \<Rightarrow> nat \<Rightarrow> bool" where
  "dp_valid None n = False"
| "dp_valid (Some p) n \<longleftrightarrow> n = 16 \<and> (p ! 0 = 1 \<or> p ! 0 = 2) \<and> p ! 1 \<le> 2 \<and> p ! 2 \<ge> 8 \<and> p ! 2 \<le> 64 \<and> p ! 3 \<ge> 1 \<and> p ! 3 \<le> 7 \<and>
     p ! 4 \<ge> 1 \<and> p ! 4 \<le> 7 \<and> p ! 5 \<le> 7 \<and> p ! 6 \<le> 7 \<and> p ! 7 \<ge> 1 \<and> p ! 7 \<le> 7 \<and> p ! 8 \<ge> 20 \<and> p ! 8 \<le> 50 \<and> p ! 9 \<le> 3 \<and>
     p ! 10 \<le> 1 \<and> p ! 11 \<le> 7 \<and> (p ! 0 = 2 \<or> (p ! 10 = 0 \<and> p ! 11 = 0))"

definition dp_upgrade :: "bytes \<Rightarrow> bytes" where
  "dp_upgrade p = (if dp_valid (Some p) 16 \<and> p ! 0 = 1 then p[0 := 2] else p)"

fun dp_next :: "bytes option \<Rightarrow> bytes option \<Rightarrow> bytes option \<Rightarrow> int \<times> bytes option" where
  "dp_next (Some c) (Some r) (Some out) =
    (if \<not> dp_valid (Some c) 16 \<or> \<not> dp_valid (Some r) 16 \<or> c ! 0 \<noteq> r ! 0 \<or> dp_revision c \<noteq> dp_revision r \<or> dp_revision c = UINT32_MAX
     then (-1, Some out) else (0, Some (blit 12 (le_bytes 4 (dp_revision c + 1)) (blit 0 (part 0 16 r) out))))"
| "dp_next c r out = (-1, out)"

definition dp_idle_ms :: "bytes option \<Rightarrow> u32" where
  "dp_idle_ms p = (if dp_valid p 16 then [0, 60000, 300000, 900000] ! unat (the p ! 9) else 0)"

definition dp_advertising_units :: "bytes option \<Rightarrow> bool \<Rightarrow> u16" where
  "dp_advertising_units p idle = (if \<not> dp_valid p 16 \<or> \<not> idle \<or> dp_idle_ms p = 0 then 48
     else if the p ! 1 = 2 then 1600 else if the p ! 1 = 1 then 400 else 48)"

definition dp_colors :: "bytes list" where
  "dp_colors = [[0, 0, 0], [1, 0, 0], [0, 1, 0], [0, 0, 1], [1, 1, 0], [0, 1, 1], [1, 0, 1], [1, 1, 1]]"

definition dp_color :: "bytes option \<Rightarrow> dp_event \<Rightarrow> u64 \<Rightarrow> bytes" where
  "dp_color p event now =
    (if \<not> dp_valid p 16 \<or> event = DP_OFF then [0, 0, 0]
     else let color = unat (if event = DP_CHARGING then the p ! 11 else the p ! (2 + dp_event_code event)) in
       if event = DP_LOW \<and> now mod 2000 \<ge> 250 then [0, 0, 0]
       else map (\<lambda>i. (dp_colors ! color) ! i * (the p ! 2)) [0..<3])"

definition dp_blink :: "u32 \<Rightarrow> u64 \<Rightarrow> u64 \<Rightarrow> int" where
  "dp_blink count began now =
    (if (count \<noteq> 2 \<and> count \<noteq> 3) \<or> now < began \<or> now - began \<ge> ucast (count * 300) then -1
     else if (now - began) mod 300 < 150 then 1 else 0)"

lemma dp_revision_get: "length p \<ge> 16 \<Longrightarrow> dp_revision p = get32 12 p"
proof -
  assume n: "length p \<ge> 16"
  have "part 12 4 p = [p ! 12, p ! 13, p ! 14, p ! 15]"
    using n by (intro nth_equalityI) (auto simp: nth_part less_Suc_eq numeral_nat)
  then show ?thesis by (simp add: get32_def dp_revision_def push_bit_push_bit or.assoc)
qed

lemma dp_valid_cong:
  assumes "\<And>i. i < 12 \<Longrightarrow> p ! i = q ! i"
  shows "dp_valid (Some p) n = dp_valid (Some q) n"
  using assms by simp

declare dp_valid.simps [simp del]

lemma dp_color_channels:
  assumes "dp_valid (Some p) 16" and "x \<in> set (dp_color (Some p) event now)"
  shows "x = 0 \<or> x = p ! 2"
proof -
  define color where "color = unat (if event = DP_CHARGING then p ! 11 else p ! (2 + dp_event_code event))"
  have "event \<noteq> DP_OFF \<Longrightarrow> color \<le> 7" using assms(1) by (cases event) (auto simp: color_def word_le_nat_alt dp_valid.simps)
  moreover have "\<forall>c\<in>set dp_colors. c ! 0 \<in> {0, 1} \<and> c ! 1 \<in> {0, 1} \<and> c ! 2 \<in> {0, 1}" by (simp add: dp_colors_def)
  moreover have "length dp_colors = 8" by (simp add: dp_colors_def)
  ultimately have "event \<noteq> DP_OFF \<Longrightarrow> dp_colors ! color ! 0 \<in> {0, 1} \<and> dp_colors ! color ! 1 \<in> {0, 1} \<and> dp_colors ! color ! 2 \<in> {0, 1}"
    using nth_mem [of color dp_colors] by fastforce
  then have "event \<noteq> DP_OFF \<Longrightarrow> i < 3 \<Longrightarrow> dp_colors ! color ! i \<in> {0, 1}" for i
    by (auto simp: less_Suc_eq numeral_3_eq_3 numeral_2_eq_2)
  moreover have "x = 0 \<or> (event \<noteq> DP_OFF \<and> (\<exists>i<3. x = dp_colors ! color ! i * (p ! 2)))"
  proof (cases "event = DP_OFF \<or> (event = DP_LOW \<and> now mod 2000 \<ge> 250)")
    case True
    then show ?thesis using assms by (auto simp: dp_color_def Let_def)
  next
    case False
    then have "x \<in> set (map (\<lambda>i. dp_colors ! color ! i * (p ! 2)) [0..<3])"
      using assms unfolding dp_color_def Let_def color_def by (simp only: if_False option.sel simp_thms de_Morgan_disj split: if_split_asm)
    then show ?thesis using False by (auto simp del: upt_rec_numeral)
  qed
  ultimately show ?thesis by fastforce
qed

text \<open>A preference update is accepted by \<open>dp_next\<close> exactly when the stored and the requested block are
  valid, of one schema and of one revision that is not exhausted.  The stored result is then valid, carries the
  requested settings with the next revision, lights every indicator at most at the configured brightness,
  and the same request is refused from then on; a refused update writes nothing.\<close>

theorem preferences_update:
  assumes "length c = 16" and "length r = 16" and "length out = 16"
  shows "let ok = dp_valid (Some c) 16 \<and> dp_valid (Some r) 16 \<and> c ! 0 = r ! 0 \<and> dp_revision c = dp_revision r \<and> dp_revision c \<noteq> UINT32_MAX in
    if ok then \<exists>new. dp_next (Some c) (Some r) (Some out) = (0, Some new) \<and> length new = 16 \<and> dp_valid (Some new) 16 \<and>
        part 0 12 new = part 0 12 r \<and> unat (dp_revision new) = unat (dp_revision c) + 1 \<and>
        (\<forall>event now x. x \<in> set (dp_color (Some new) event now) \<longrightarrow> x \<le> r ! 2 \<and> x \<le> 64) \<and>
        dp_next (Some new) (Some r) (Some out) = (-1, Some out)
    else dp_next (Some c) (Some r) (Some out) = (-1, Some out)"
proof (cases "dp_valid (Some c) 16 \<and> dp_valid (Some r) 16 \<and> c ! 0 = r ! 0 \<and> dp_revision c = dp_revision r \<and> dp_revision c \<noteq> UINT32_MAX")
  case True
  define new where "new = blit 12 (le_bytes 4 (dp_revision c + 1)) (blit 0 (part 0 16 r) out)"
  have n: "length new = 16" using assms by (simp add: new_def)
  have parts: "part 0 12 new = part 0 12 r" "part 12 4 new = le_bytes 4 (dp_revision c + 1)"
    using assms by (simp_all add: new_def buf part_part)
  have nth: "new ! i = r ! i" if "i < 12" for i
    using parts(1) that nth_part [of i 12 0 new] nth_part [of i 12 0 r] n assms by simp
  have v: "dp_valid (Some new) 16" using True dp_valid_cong [of new r 16] nth by blast
  have rev: "dp_revision new = dp_revision c + 1" using parts(2) n by (simp add: dp_revision_get get32_def)
  have "unat (dp_revision c) < 4294967295"
    using True unsigned_less [of "dp_revision c", where ?'a = nat] by (auto simp: word_unat_eq_iff order_less_le)
  then have "unat (dp_revision new) = unat (dp_revision c) + 1" by (simp add: rev unat_word_ariths)
  moreover have "x \<le> r ! 2 \<and> x \<le> 64" if "x \<in> set (dp_color (Some new) event now)" for x event now
    using dp_color_channels [OF v that] nth [of 2] True by (auto simp: dp_valid.simps)
  moreover have "dp_next (Some c) (Some r) (Some out) = (0, Some new)" using True by (auto simp: new_def)
  moreover have "dp_next (Some new) (Some r) (Some out) = (-1, Some out)" using True rev by simp
  ultimately show ?thesis unfolding Let_def if_P [OF True] using n v parts(1) by blast
next
  case False
  then show ?thesis unfolding Let_def if_not_P [OF False] by auto
qed

theorem preferences_update_witness:
  "\<exists>new. dp_next (Some (dp_defaults (replicate 16 0))) (Some (dp_defaults (replicate 16 0))) (Some (replicate 16 0)) = (0, Some new) \<and> dp_revision new = 1"
proof -
  let ?d = "[2, 0, 32, 1, 4, 0, 0, 1, 25, 1, 0, 0, 0, 0, 0, 0] :: bytes"
  have d: "dp_defaults (replicate 16 0) = ?d" by (simp add: dp_defaults_def blit_append)
  have v: "dp_valid (Some ?d) 16 \<and> dp_valid (Some ?d) 16 \<and> ?d ! 0 = ?d ! 0 \<and> dp_revision ?d = dp_revision ?d \<and> dp_revision ?d \<noteq> UINT32_MAX"
    by (simp add: dp_revision_def dp_valid.simps)
  have "dp_revision ?d = 0" by (simp add: dp_revision_def)
  then show ?thesis
    using preferences_update [of ?d ?d "replicate 16 0", unfolded Let_def if_P [OF v]] unfolding d by (auto simp: word_unat_eq_iff simp del: dp_next.simps)
qed

section \<open>Telemetry\<close>

record device_telemetry =
  dt_uptime_ms :: u64
  dt_major :: u16
  dt_minor :: u16
  dt_patch :: u16
  dt_led_known :: bool
  dt_microphone_power :: bool
  dt_resource_busy :: bool
  dt_red :: u8
  dt_green :: u8
  dt_blue :: u8
  dt_faults :: u32

record recorder_telemetry =
  rl_flags :: u16
  rl_slots_used :: u16
  rl_slots_total :: u16
  rl_state :: u8
  rl_reason :: u8
  rl_mode :: u8
  rl_roots_used :: u8
  rl_roots_total :: u8
  rl_captured_samples :: u32
  rl_committed_samples :: u32

record battery_telemetry =
  ba_mv :: u16
  ba_temp :: u16
  ba_soc :: u16
  ba_gauge_flags :: u16
  ba_age_ms :: u32
  ba_sequence :: u32
  ba_flags :: u8

definition dt_base :: "device_telemetry \<Rightarrow> bytes \<Rightarrow> bytes" where
  "dt_base s out =
    (let out = blit 0 (replicate 48 0) out; out = put8 0 1 out; out = put8 1 48 out;
         out = put8 2 (0x0b OR (if dt_led_known s then 4 else 0)) out; out = put64 4 (dt_uptime_ms s) out;
         out = put16 12 (dt_major s) out; out = put16 14 (dt_minor s) out; out = put16 16 (dt_patch s) out;
         out = put8 18 (of_bool (dt_microphone_power s)) out; out = put8 19 (of_bool (dt_resource_busy s)) out;
         out = (if dt_led_known s then put8 22 (dt_blue s) (put8 21 (dt_green s) (put8 20 (dt_red s) out)) else out);
         out = put8 26 0xff out
     in put32 44 (dt_faults s) out)"

fun device_telemetry_encode :: "device_telemetry option \<Rightarrow> bytes option \<Rightarrow> nat \<Rightarrow> int \<times> bytes option" where
  "device_telemetry_encode (Some s) (Some out) cap =
    (if cap < 48 \<or> dt_uptime_ms s > INT64_MAX \<or> dt_faults s AND NOT 3 \<noteq> 0 then (-1, Some out) else (0, Some (dt_base s out)))"
| "device_telemetry_encode s out cap = (-1, out)"

definition rl_bad :: "recorder_telemetry \<Rightarrow> bool" where
  "rl_bad r \<longleftrightarrow> rl_flags r AND NOT 1023 \<noteq> 0 \<or> rl_flags r AND 512 = 0 \<or>
     (if rl_flags r AND 32 \<noteq> 0 then rl_state r > 7 \<or> rl_reason r > 12 \<or> rl_mode r > 1 \<or> rl_captured_samples r mod 320 \<noteq> 0 \<or>
        rl_committed_samples r mod 320 \<noteq> 0 \<or> rl_committed_samples r > rl_captured_samples r
      else rl_state r \<noteq> 0 \<or> rl_reason r \<noteq> 0 \<or> rl_mode r \<noteq> 0 \<or> rl_captured_samples r \<noteq> 0 \<or> rl_committed_samples r \<noteq> 0) \<or>
     (if rl_flags r AND 16 \<noteq> 0 then rl_flags r AND (4 OR 8 OR 64 OR 128 OR 256) \<noteq> 4 OR 8 \<or> rl_roots_total r = 0 \<or>
        (rl_roots_total r > 8 \<and> \<not> (rl_roots_total r = 32 \<and> rl_slots_total r = 5120)) \<or> rl_roots_used r > rl_roots_total r \<or>
        rl_slots_total r = 0 \<or> rl_slots_used r > rl_slots_total r
      else rl_roots_used r \<noteq> 0 \<or> rl_roots_total r \<noteq> 0 \<or> rl_slots_used r \<noteq> 0 \<or> rl_slots_total r \<noteq> 0)"

definition rl_extend :: "recorder_telemetry \<Rightarrow> bytes \<Rightarrow> bytes" where
  "rl_extend r out =
    (let out = blit 48 (replicate 24 0) out; out = put8 0 2 out; out = put8 1 72 out; out = put16 48 (rl_flags r) out;
         out = put8 50 (rl_state r) out; out = put8 51 (rl_reason r) out; out = put8 52 (rl_mode r) out;
         out = put8 53 (rl_roots_used r) out; out = put8 54 (rl_roots_total r) out; out = put16 56 (rl_slots_used r) out;
         out = put16 58 (rl_slots_total r) out; out = put32 60 (rl_captured_samples r) out
     in put32 64 (rl_committed_samples r) out)"

fun device_telemetry_encode_recorder ::
  "device_telemetry option \<Rightarrow> recorder_telemetry option \<Rightarrow> bytes option \<Rightarrow> nat \<Rightarrow> int \<times> bytes option" where
  "device_telemetry_encode_recorder s (Some r) (Some out) cap =
    (if cap < 72 \<or> rl_bad r then (-1, Some out)
     else case device_telemetry_encode s (Some out) cap of (rc, p) \<Rightarrow> if rc \<noteq> 0 then (-1, p) else (0, map_option (rl_extend r) p))"
| "device_telemetry_encode_recorder s r out cap = (-1, out)"

definition ba_bad :: "battery_telemetry \<Rightarrow> bool" where
  "ba_bad b \<longleftrightarrow> ba_flags b AND NOT 15 \<noteq> 0 \<or> ba_flags b AND 4 = 0 \<or> (ba_flags b AND 2 \<noteq> 0 \<and> ba_flags b AND 1 = 0) \<or>
     (ba_flags b AND 8 \<noteq> 0 \<and> ba_flags b AND 3 \<noteq> 0) \<or>
     (if ba_flags b AND 1 \<noteq> 0 then ba_mv b = 0 \<or> ba_mv b > 6000 \<or> ba_soc b > 100 \<or> ba_temp b < 2300 \<or> ba_temp b > 3700 \<or>
        ba_age_ms b > 20000 \<or> ba_sequence b = 0 \<or> ba_gauge_flags b AND 8 = 0 \<or> ba_gauge_flags b AND 0xfc30 \<noteq> 0 \<or>
        (ba_flags b AND 2 \<noteq> 0 \<and> (ba_mv b < 3800 \<or> ba_mv b > 4450 \<or> ba_soc b < 25 \<or> ba_temp b < 2781 \<or> ba_temp b > 3131))
      else ba_mv b \<noteq> 0 \<or> ba_soc b \<noteq> 0 \<or> ba_temp b \<noteq> 0 \<or> ba_gauge_flags b \<noteq> 0 \<or> ba_age_ms b \<noteq> 0 \<or> ba_sequence b \<noteq> 0)"

definition ba_extend :: "battery_telemetry \<Rightarrow> bytes \<Rightarrow> bytes" where
  "ba_extend b out =
    (let out = put8 0 3 out; out = put8 27 (ba_flags b) out in
     if ba_flags b AND 1 \<noteq> 0 then
       (let out = put8 2 (out ! 2 OR 0x10) out; out = put8 26 (ucast (ba_soc b)) out; out = put16 28 (ba_mv b) out;
            out = put16 30 (ba_temp b) out; out = put32 32 (ba_age_ms b) out; out = put32 36 (ba_sequence b) out
        in put16 40 (ba_gauge_flags b) out)
     else out)"

fun device_telemetry_encode_battery ::
  "device_telemetry option \<Rightarrow> recorder_telemetry option \<Rightarrow> battery_telemetry option \<Rightarrow> bytes option \<Rightarrow> nat \<Rightarrow> int \<times> bytes option" where
  "device_telemetry_encode_battery s r (Some b) out cap =
    (if ba_bad b then (-1, out)
     else case device_telemetry_encode_recorder s r out cap of (rc, p) \<Rightarrow> if rc \<noteq> 0 then (-1, p) else (0, map_option (ba_extend b) p))"
| "device_telemetry_encode_battery s r None out cap = (-1, out)"

lemma dt_lengths [simp]: "length (dt_base s p) = length p" "length (rl_extend r p) = length p" "length (ba_extend b p) = length p"
  by (simp_all add: dt_base_def rl_extend_def ba_extend_def Let_def)

lemma encode_recorder_refuses:
  "device_telemetry_encode_recorder s r out cap = (rc, p) \<Longrightarrow> rc \<noteq> 0 \<Longrightarrow> p = out \<and> rc = -1"
  by (cases s; cases r; cases out) (auto split: if_split_asm)

lemma encode_battery_result:
  "device_telemetry_encode_battery (Some s) (Some r) (Some b) (Some out) cap =
    (if ba_bad b \<or> rl_bad r \<or> cap < 72 \<or> dt_uptime_ms s > INT64_MAX \<or> dt_faults s AND NOT 3 \<noteq> 0 then (-1, Some out)
     else (0, Some (ba_extend b (rl_extend r (dt_base s out)))))"
  by simp

definition telemetry_frame :: "device_telemetry \<Rightarrow> recorder_telemetry \<Rightarrow> battery_telemetry \<Rightarrow> bytes \<Rightarrow> bool" where
  "telemetry_frame s r b p \<longleftrightarrow> p ! 0 = 3 \<and> p ! 1 = 72 \<and> get64 4 p = dt_uptime_ms s \<and> get16 12 p = dt_major s \<and> get16 14 p = dt_minor s \<and>
     get16 16 p = dt_patch s \<and> get32 44 p = dt_faults s \<and> get16 48 p = rl_flags r \<and> p ! 50 = rl_state r \<and> p ! 51 = rl_reason r \<and>
     p ! 52 = rl_mode r \<and> p ! 53 = rl_roots_used r \<and> p ! 54 = rl_roots_total r \<and> get16 56 p = rl_slots_used r \<and>
     get16 58 p = rl_slots_total r \<and> get32 60 p = rl_captured_samples r \<and> get32 64 p = rl_committed_samples r \<and>
     p ! 27 = ba_flags b \<and> get16 28 p = ba_mv b \<and> get16 30 p = ba_temp b \<and> get32 32 p = ba_age_ms b \<and> get32 36 p = ba_sequence b \<and>
     get16 40 p = ba_gauge_flags b \<and> unat (p ! 26) = (if ba_flags b AND 1 \<noteq> 0 then unat (ba_soc b) else 255)"

lemma soc_byte: "ba_soc b \<le> 100 \<Longrightarrow> unat (ucast (ba_soc b) :: u8) = unat (ba_soc b)"
  by (simp add: word_le_nat_alt unsigned_ucast_eq take_bit_nat_eq_self)

lemma le_val_zero [simp]: "le_val (replicate n 0) = 0"
  by (induction n) simp_all

lemma telemetry_fields:
  assumes "72 \<le> length out" and "\<not> ba_bad b"
  shows "telemetry_frame s r b (ba_extend b (rl_extend r (dt_base s out)))"
proof (cases "ba_flags b AND 1 = 0")
  have ne: "out \<noteq> []" using assms(1) by auto
  case True
  then have z: "ba_mv b = 0" "ba_temp b = 0" "ba_age_ms b = 0" "ba_sequence b = 0" "ba_gauge_flags b = 0"
    using assms(2) by (simp_all add: ba_bad_def)
  show ?thesis
    using assms(1) ne True unfolding telemetry_frame_def z ba_extend_def rl_extend_def dt_base_def Let_def
    by (simp add: get16_def get32_def get64_def wire_defs buf)
next
  have ne: "out \<noteq> []" using assms(1) by auto
  case False
  then have "ba_soc b \<le> 100" using assms(2) by (simp add: ba_bad_def not_less)
  then show ?thesis
    using assms(1) ne False soc_byte unfolding telemetry_frame_def ba_extend_def rl_extend_def dt_base_def Let_def
    by (simp add: get16_def get32_def get64_def wire_defs buf)
qed

text \<open>A battery telemetry frame carries exactly its sources: \<open>device_telemetry_encode_battery\<close> refuses
  inconsistent inputs without writing, and otherwise every field read back from the 72-byte frame is the
  field of the device, recorder or battery state, committed samples never exceed captured ones, and bytes
  after the frame are untouched.\<close>

theorem telemetry_faithful:
  assumes "72 \<le> length out"
  shows "if ba_bad b \<or> rl_bad r \<or> cap < 72 \<or> dt_uptime_ms s > INT64_MAX \<or> dt_faults s AND NOT 3 \<noteq> 0
    then device_telemetry_encode_battery (Some s) (Some r) (Some b) (Some out) cap = (-1, Some out)
    else \<exists>p. device_telemetry_encode_battery (Some s) (Some r) (Some b) (Some out) cap = (0, Some p) \<and> length p = length out \<and>
      drop 72 p = drop 72 out \<and> telemetry_frame s r b p \<and> rl_committed_samples r \<le> rl_captured_samples r"
proof -
  have "drop 72 (ba_extend b (rl_extend r (dt_base s out))) = drop 72 out"
    by (rule nth_equalityI) (auto simp: ba_extend_def rl_extend_def dt_base_def Let_def wire_defs nth_blit)
  moreover have "\<not> rl_bad r \<Longrightarrow> rl_committed_samples r \<le> rl_captured_samples r"
    by (auto simp: rl_bad_def not_less split: if_split_asm)
  ultimately show ?thesis using telemetry_fields [OF assms] unfolding encode_battery_result by auto
qed

definition demo_dt :: device_telemetry where
  "demo_dt = \<lparr>dt_uptime_ms = 5, dt_major = 1, dt_minor = 2, dt_patch = 3, dt_led_known = True, dt_microphone_power = False,
     dt_resource_busy = True, dt_red = 1, dt_green = 2, dt_blue = 3, dt_faults = 1\<rparr>"

definition demo_rl :: recorder_telemetry where
  "demo_rl = \<lparr>rl_flags = 544, rl_slots_used = 0, rl_slots_total = 0, rl_state = 2, rl_reason = 0, rl_mode = 1, rl_roots_used = 0,
     rl_roots_total = 0, rl_captured_samples = 640, rl_committed_samples = 320\<rparr>"

definition demo_ba :: battery_telemetry where
  "demo_ba = \<lparr>ba_mv = 4000, ba_temp = 2981, ba_soc = 80, ba_gauge_flags = 8, ba_age_ms = 10, ba_sequence = 7, ba_flags = 7\<rparr>"

theorem telemetry_faithful_witness:
  "\<exists>p. device_telemetry_encode_battery (Some demo_dt) (Some demo_rl) (Some demo_ba) (Some (replicate 80 9)) 80 = (0, Some p) \<and>
     telemetry_frame demo_dt demo_rl demo_ba p"
proof -
  have ok: "\<not> (ba_bad demo_ba \<or> rl_bad demo_rl \<or> (80::nat) < 72 \<or> dt_uptime_ms demo_dt > INT64_MAX \<or> dt_faults demo_dt AND NOT 3 \<noteq> 0)"
    by (simp add: ba_bad_def rl_bad_def demo_ba_def demo_rl_def demo_dt_def)
  have n: "72 \<le> length (replicate 80 (9 :: u8))" by simp
  show ?thesis using telemetry_faithful [OF n, of demo_ba demo_rl 80 demo_dt, unfolded if_not_P [OF ok]] by blast
qed

section \<open>Large extent descriptor\<close>

abbreviation REX_FIRST_BLOCK :: u32 where "REX_FIRST_BLOCK \<equiv> 0"
abbreviation REX_BLOCKS :: u32 where "REX_BLOCKS \<equiv> 1536"
abbreviation REX_CAPACITY :: u32 where "REX_CAPACITY \<equiv> 65536"
abbreviation REX_MAX_BAD_BLOCKS :: u32 where "REX_MAX_BAD_BLOCKS \<equiv> 40"
abbreviation RLL_BLOCKS :: u32 where "RLL_BLOCKS \<equiv> 2048"
abbreviation RLL_CAPACITY :: u32 where "RLL_CAPACITY \<equiv> 94208"
abbreviation sizeof_rex :: nat where "sizeof_rex \<equiv> 72"

record recording_extent_identity =
  ri_device_id :: bytes
  ri_volume_id :: bytes
  ri_generation :: u64
  ri_recipient_fingerprint :: bytes

definition wf_ri :: "recording_extent_identity \<Rightarrow> bool" where
  "wf_ri i \<longleftrightarrow> length (ri_device_id i) = 16 \<and> length (ri_volume_id i) = 16 \<and> length (ri_recipient_fingerprint i) = 32"

definition rex_dhara :: bytes where
  "rex_dhara = [0xfc, 0x38, 0x49, 0x09, 0x4b, 0x35, 0x4c, 0x7b, 0xc4, 0x74, 0xa1, 0x65, 0xcf, 0x08, 0xcf, 0xf0,
     0xe3, 0x6a, 0x9e, 0x33, 0x95, 0x4a, 0xf8, 0x5f, 0xb7, 0x8b, 0xfd, 0x6b, 0xac, 0x3a, 0x3c, 0xbd]"

text \<open>The copies of the labels stop before the version digit, as the lengths 33 and 32 in the source do.\<close>

definition rex_label :: bytes where "rex_label = take 33 (ascii ''OpenPendant large native extent v1'')"
definition rex_full_label :: bytes where "rex_full_label = take 32 (ascii ''OpenPendant full native extent v2'')"

definition rex_large :: "recording_extent_identity \<Rightarrow> bytes" where
  "rex_large i =
    (let p = replicate 256 0; p = blit 0 (ascii ''OPNDEX1'') p; p = put32 8 1 p; p = put32 12 256 p;
         p = blit 16 (ri_device_id i) p; p = blit 32 (ri_volume_id i) p; p = put64 48 (ri_generation i) p;
         p = blit 56 (ri_recipient_fingerprint i) p; p = put32 88 REX_FIRST_BLOCK p; p = put32 92 REX_BLOCKS p; p = put32 96 REX_CAPACITY p;
         p = put32 100 4096 p; p = put32 104 256 p; p = put32 108 64 p; p = put32 112 2048 p; p = put32 116 4 p;
         p = put32 120 REX_MAX_BAD_BLOCKS p; p = put8 124 0x2c p; p = put8 125 0x35 p; p = put8 126 0x48 p; p = put8 127 0x7c p;
         p = blit 128 rex_dhara p
     in blit 160 rex_label p)"

definition rex_full :: "bytes \<Rightarrow> bytes" where
  "rex_full p =
    (let p = blit 0 (ascii ''OPNDEX2'') p; p = put32 8 2 p; p = put32 92 RLL_BLOCKS p; p = put32 96 RLL_CAPACITY p;
         p = put8 126 0 p; p = blit 160 (replicate 64 0) p
     in blit 160 rex_full_label p)"

definition rex_body :: "recording_extent_identity \<Rightarrow> bool \<Rightarrow> bytes" where
  "rex_body i full = (if full then rex_full (rex_large i) else rex_large i)"

definition rex_identity_bad :: "recording_extent_identity \<Rightarrow> bool" where
  "rex_identity_bad i \<longleftrightarrow> \<not> identity (ri_device_id i) \<or> \<not> identity (ri_volume_id i) \<or> \<not> identity (ri_recipient_fingerprint i) \<or>
     ri_generation i = 0 \<or> ri_generation i > INT64_MAX"

text \<open>\<open>build\<close> behind its pointer guards.\<close>

definition rex_build_body :: "recording_extent_identity \<Rightarrow> sha_provider \<Rightarrow> bool \<Rightarrow> bytes \<Rightarrow> int \<times> bytes" where
  "rex_build_body i f full out =
    (if rex_identity_bad i then (-1, out)
     else let p = rex_body i full in
       case sha_run f (part 0 224 p) of None \<Rightarrow> (-2, replicate 256 0) | Some d \<Rightarrow> (0, blit 224 d p))"

fun rex_build_with :: "bool \<Rightarrow> bytes ptr \<Rightarrow> recording_extent_identity ptr \<Rightarrow> hash_arg \<Rightarrow> int \<times> bytes ptr" where
  "rex_build_with full (Ptr oa out) (Ptr ia i) (Ptr ha (Some f)) =
    (if overlap oa 256 ia sizeof_rex \<or> overlap oa 256 ha sizeof_hash then (-1, Ptr oa out)
     else let (rc, p) = rex_build_body i f full out in (rc, Ptr oa p))"
| "rex_build_with full out i h = (-1, out)"

definition rex_build :: "bytes ptr \<Rightarrow> recording_extent_identity ptr \<Rightarrow> hash_arg \<Rightarrow> int \<times> bytes ptr" where
  "rex_build = rex_build_with False"

definition rex_build_full :: "bytes ptr \<Rightarrow> recording_extent_identity ptr \<Rightarrow> hash_arg \<Rightarrow> int \<times> bytes ptr" where
  "rex_build_full = rex_build_with True"

text \<open>The validators build into a local buffer, which overlaps nothing.\<close>

fun rex_validate_with :: "bool \<Rightarrow> bytes ptr \<Rightarrow> recording_extent_identity ptr \<Rightarrow> hash_arg \<Rightarrow> int" where
  "rex_validate_with full (Ptr ba b) (Ptr ia i) (Ptr ha (Some f)) =
    (let (rc, expected) = rex_build_body i f full (replicate 256 0) in if rc = 0 \<and> b \<noteq> expected then -1 else rc)"
| "rex_validate_with full b i h = -1"

definition rex_validate :: "bytes ptr \<Rightarrow> recording_extent_identity ptr \<Rightarrow> hash_arg \<Rightarrow> int" where
  "rex_validate = rex_validate_with False"

definition rex_validate_full :: "bytes ptr \<Rightarrow> recording_extent_identity ptr \<Rightarrow> hash_arg \<Rightarrow> int" where
  "rex_validate_full = rex_validate_with True"

lemma rex_constants [simp]: "length rex_dhara = 32" "length rex_label = 33" "length rex_full_label = 32"
  by (simp_all add: rex_dhara_def rex_label_def rex_full_label_def)

lemma length_rex_body [simp]: "length (rex_body i full) = 256"
  by (simp add: rex_body_def rex_full_def rex_large_def Let_def)

lemma rex_body_fields:
  assumes "wf_ri i"
  shows "part 0 7 (rex_body i full) = (if full then ascii ''OPNDEX2'' else ascii ''OPNDEX1'')"
    "part 16 16 (rex_body i full) = ri_device_id i" "part 32 16 (rex_body i full) = ri_volume_id i"
    "part 48 8 (rex_body i full) = le_bytes 8 (ri_generation i)" "part 56 32 (rex_body i full) = ri_recipient_fingerprint i"
  using assms by (simp_all add: rex_body_def rex_full_def rex_large_def Let_def wire_defs wf_ri_def buf)

lemma rex_build_ok:
  "rex_build_body i f full out = (0, p) \<longleftrightarrow> \<not> rex_identity_bad i \<and>
     (\<exists>d. sha_run f (part 0 224 (rex_body i full)) = Some d \<and> p = blit 224 d (rex_body i full))"
  by (auto simp: rex_build_body_def Let_def split: option.splits)

lemma rex_build_field:
  "rex_build_body i f full out = (0, p) \<Longrightarrow> off + n \<le> 224 \<Longrightarrow> part off n p = part off n (rex_body i full)"
  by (auto simp: rex_build_ok part_blit_before)

lemma rex_build_inj:
  assumes "wf_ri i" and "wf_ri i'" and "rex_build_body i f full out = (0, p)" and "rex_build_body i' f' full' out' = (0, p)"
  shows "i = i' \<and> full = full'"
proof -
  note a = rex_build_field [OF assms(3)] and b = rex_build_field [OF assms(4)]
  note fa = rex_body_fields [OF assms(1), of full] and fb = rex_body_fields [OF assms(2), of full']
  have "(if full then ascii ''OPNDEX2'' else ascii ''OPNDEX1'') = (if full' then ascii ''OPNDEX2'' else ascii ''OPNDEX1'')"
    using a [of 0 7] b [of 0 7] fa(1) fb(1) by simp
  then have "full = full'" by (cases full; cases full') (simp_all add: ascii_def)
  moreover have "ri_device_id i = ri_device_id i'" "ri_volume_id i = ri_volume_id i'" "ri_recipient_fingerprint i = ri_recipient_fingerprint i'"
      "le_bytes 8 (ri_generation i) = le_bytes 8 (ri_generation i')"
    using a [of 16 16] b [of 16 16] a [of 32 16] b [of 32 16] a [of 56 32] b [of 56 32] a [of 48 8] b [of 48 8] fa fb by simp_all
  ultimately show ?thesis by (cases i; cases i') simp
qed

text \<open>An extent descriptor proves its identity and its profile: \<open>rex_validate\<close> (\<open>rex_validate_full\<close>) accepts
  256 bytes exactly when \<open>rex_build\<close> (\<open>rex_build_full\<close>) produces them from the trusted identity, and bytes accepted for one
  identity and profile are accepted for no other, whatever hash provider is used.\<close>

theorem extent_canonical:
  assumes "wf_ri i" and "wf_ri i'" and "\<not> overlap oa 256 ia sizeof_rex" and "\<not> overlap oa 256 ha sizeof_hash"
  shows "(rex_validate (Ptr ba p) (Ptr ia i) (Ptr ha h) = 0 \<longleftrightarrow> rex_build (Ptr oa out) (Ptr ia i) (Ptr ha h) = (0, Ptr oa p)) \<and>
    (rex_validate_full (Ptr ba p) (Ptr ia i) (Ptr ha h) = 0 \<longleftrightarrow> rex_build_full (Ptr oa out) (Ptr ia i) (Ptr ha h) = (0, Ptr oa p)) \<and>
    (rex_validate (Ptr ba p) (Ptr ia i) (Ptr ha h) = 0 \<and> rex_validate (Ptr ba p) (Ptr ia i') (Ptr ha' h') = 0 \<longrightarrow> i = i') \<and>
    (rex_validate_full (Ptr ba p) (Ptr ia i) (Ptr ha h) = 0 \<and> rex_validate_full (Ptr ba p) (Ptr ia i') (Ptr ha' h') = 0 \<longrightarrow> i = i') \<and>
    \<not> (rex_validate (Ptr ba p) (Ptr ia i) (Ptr ha h) = 0 \<and> rex_validate_full (Ptr ba p) (Ptr ia i') (Ptr ha' h') = 0)"
proof -
  have v: "rex_validate_with full (Ptr ba p) (Ptr ia i) (Ptr ha h) = 0 \<longleftrightarrow> (\<exists>f. h = Some f \<and> rex_build_body i f full (replicate 256 0) = (0, p))"
    for full i ha h
    by (cases h) (auto simp: rex_build_body_def Let_def split: prod.splits option.splits if_split_asm)
  have b: "rex_build_with full (Ptr oa out) (Ptr ia i) (Ptr ha h) = (0, Ptr oa p) \<longleftrightarrow> (\<exists>f. h = Some f \<and> rex_build_body i f full out = (0, p))" for full
    using assms(3,4) by (cases h) (auto split: prod.splits)
  have c: "rex_build_body i f full (replicate 256 0) = (0, p) \<longleftrightarrow> rex_build_body i f full out = (0, p)" for f full
    by (simp add: rex_build_ok)
  show ?thesis
    unfolding rex_validate_def rex_validate_full_def rex_build_def rex_build_full_def v b c
    using rex_build_inj [OF assms(1,2)] by blast
qed

theorem extent_canonical_witness:
  "\<exists>p. rex_validate (Ptr 1000 p) (Ptr 2000 \<lparr>ri_device_id = replicate 16 1, ri_volume_id = replicate 16 2, ri_generation = 3,
      ri_recipient_fingerprint = replicate 32 4\<rparr>) (Ptr 3000 (Some demo_sha)) = 0"
proof -
  let ?i = "\<lparr>ri_device_id = replicate 16 1, ri_volume_id = replicate 16 2, ri_generation = 3, ri_recipient_fingerprint = replicate 32 4\<rparr>"
  have w: "wf_ri ?i" by (simp add: wf_ri_def)
  have ok: "\<not> rex_identity_bad ?i" by (simp add: rex_identity_bad_def identity_replicate)
  obtain d where "sha_run demo_sha (part 0 224 (rex_body ?i False)) = Some d" using demo_sha_run by blast
  then have "rex_build (Ptr 5000 []) (Ptr 2000 ?i) (Ptr 3000 (Some demo_sha)) = (0, Ptr 5000 (blit 224 d (rex_body ?i False)))"
    using ok by (simp add: rex_build_def rex_build_body_def Let_def overlap_def UINTPTR_MAX_def)
  then show ?thesis
    using extent_canonical [OF w w, of 5000 2000 3000 1000 _ "Some demo_sha" "[]"] by (auto simp: overlap_def UINTPTR_MAX_def)
qed

text \<open>The stored labels lack the version digit of the string literals they are copied from.\<close>

lemma rex_label_truncated:
  "rex_label = ascii ''OpenPendant large native extent v'' \<and> rex_full_label = ascii ''OpenPendant full native extent v''"
  by (simp add: rex_label_def rex_full_label_def ascii_def)

end
