(* ===== verification/Device_Policy.thy ===== *)
theory Device_Policy
  imports Prelude
begin

text \<open>
  The small policy modules of the device: the battery admission lease (\<open>battery_power.c\<close>), the button
  gesture decoder (\<open>button_gesture.h\<close>), the saturating profile counters (\<open>recording_timing.h\<close>) and the
  microphone frame moment (\<open>mic_frame_math.h\<close>).  The group bounds what each of them can do: how long a save may
  run on a bad battery, which taps make a gesture, and that the arithmetic cannot overflow.
\<close>

section \<open>Battery lease\<close>

abbreviation BP_FRESH_MS :: u64 where "BP_FRESH_MS \<equiv> 20000"
abbreviation BP_SAVE_MS :: u64 where "BP_SAVE_MS \<equiv> 32000"

record bp_sample =
  bp_at :: u64
  bp_mv :: u16
  bp_temp :: u16
  bp_soc :: u16
  bp_flags :: u16
  bp_valid :: u32
  bp_sequence :: u32
  bp_current_ma :: u16

record bp_lease =
  bp_last :: u64
  bp_drain_until :: u64
  bp_held :: u32
  bp_draining :: u32

text \<open>A null sample or lease pointer is \<open>None\<close>; \<open>current_ma\<close> is an \<open>int16_t\<close>, read with \<open>sint\<close>.\<close>

fun bp_fresh :: "bp_sample option \<Rightarrow> u64 \<Rightarrow> bool" where
  "bp_fresh None t = False"
| "bp_fresh (Some s) t \<longleftrightarrow> bp_valid s = 1 \<and> bp_sequence s \<noteq> 0 \<and> t \<ge> bp_at s \<and> t - bp_at s \<le> BP_FRESH_MS \<and>
     bp_mv s > 0 \<and> bp_mv s \<le> 6000 \<and> bp_soc s \<le> 100 \<and> bp_flags s AND 8 \<noteq> 0 \<and> bp_flags s AND 0xfc30 = 0"

fun bp_charging :: "bp_sample option \<Rightarrow> u64 \<Rightarrow> bool" where
  "bp_charging None t = False"
| "bp_charging (Some s) t \<longleftrightarrow> bp_fresh (Some s) t \<and> bp_flags s AND 0x0201 = 0 \<and> sint (bp_current_ma s) \<ge> 5 \<and> sint (bp_current_ma s) \<le> 1000"

fun bp_start :: "bp_sample option \<Rightarrow> u64 \<Rightarrow> bool" where
  "bp_start None t = False"
| "bp_start (Some s) t \<longleftrightarrow> bp_fresh (Some s) t \<and> bp_mv s \<ge> 3800 \<and> bp_mv s \<le> 4450 \<and> bp_soc s \<ge> 25 \<and> bp_temp s \<ge> 2781 \<and> bp_temp s \<le> 3131"

fun bp_continue :: "bp_sample option \<Rightarrow> u64 \<Rightarrow> bool" where
  "bp_continue None t = False"
| "bp_continue (Some s) t \<longleftrightarrow> bp_fresh (Some s) t \<and> bp_mv s \<ge> 3700 \<and> bp_mv s \<le> 4450 \<and> bp_soc s \<ge> 20 \<and> bp_temp s \<ge> 2731 \<and> bp_temp s \<le> 3181"

fun bp_begin :: "bp_lease option \<Rightarrow> bp_sample option \<Rightarrow> u64 \<Rightarrow> bool \<times> bp_lease option" where
  "bp_begin None s t = (False, None)"
| "bp_begin (Some l) s t = (if bp_held l \<noteq> 0 \<or> \<not> bp_start s t then (False, Some l)
     else (True, Some \<lparr>bp_last = t, bp_drain_until = 0, bp_held = 1, bp_draining = 0\<rparr>))"

definition bp_critical :: "bp_sample option \<Rightarrow> bool" where
  "bp_critical s = (case s of None \<Rightarrow> False | Some s \<Rightarrow> bp_flags s AND 0xc000 \<noteq> 0 \<or>
     (bp_valid s \<noteq> 0 \<and> (bp_mv s < 3300 \<or> bp_mv s > 4500 \<or> bp_temp s < 2631 \<or> bp_temp s > 3231)))"

fun bp_check :: "bp_lease option \<Rightarrow> bp_sample option \<Rightarrow> u64 \<Rightarrow> bool \<times> bp_lease option" where
  "bp_check None s t = (False, None)"
| "bp_check (Some l) s t =
    (if bp_held l = 0 \<or> t < bp_last l then (False, Some l)
     else let l = l\<lparr>bp_last := t\<rparr> in
     if bp_critical s then (False, Some l)
     else if bp_draining l = 0 \<and> \<not> bp_continue s t then
       (if t > UINT64_MAX - BP_SAVE_MS then (False, Some l)
        else let l = l\<lparr>bp_draining := 1, bp_drain_until := t + BP_SAVE_MS\<rparr> in (bp_draining l = 0 \<or> t < bp_drain_until l, Some l))
     else (bp_draining l = 0 \<or> t < bp_drain_until l, Some l))"

text \<open>A sequence of checks that stops at the first refusal.\<close>

fun bp_checks :: "bp_lease option \<Rightarrow> (bp_sample option \<times> u64) list \<Rightarrow> bool \<times> bp_lease option" where
  "bp_checks l [] = (True, l)"
| "bp_checks l ((s, t) # cs) = (let (ok, l) = bp_check l s t in if ok then bp_checks l cs else (False, l))"

text \<open>The time of the first observation that no longer permits new work.\<close>

fun first_warning :: "(bp_sample option \<times> u64) list \<Rightarrow> u64 option" where
  "first_warning [] = None"
| "first_warning ((s, t) # cs) = (if bp_continue s t then first_warning cs else Some t)"

lemma bp_check_ok:
  assumes "bp_check (Some l) s t = (True, l')"
  shows "\<exists>m. l' = Some m \<and> bp_held m = bp_held l \<and> bp_held l \<noteq> 0 \<and> bp_last l \<le> t \<and> bp_last m = t \<and> \<not> bp_critical s \<and>
    (if bp_draining l \<noteq> 0 then m = l\<lparr>bp_last := t\<rparr> \<and> t < bp_drain_until l
     else if bp_continue s t then m = l\<lparr>bp_last := t\<rparr>
     else bp_draining m = 1 \<and> bp_drain_until m = t + BP_SAVE_MS \<and> t \<le> UINT64_MAX - BP_SAVE_MS)"
  using assms by (auto simp: Let_def not_less split: if_split_asm)

lemma bp_checks_step:
  assumes "bp_checks l ((s, t) # cs) = (True, l')"
  obtains m where "bp_check l s t = (True, m)" and "bp_checks m cs = (True, l')"
  using assms by (auto simp: Let_def split: prod.splits if_split_asm)

lemma bp_checks_mono: "bp_checks (Some l) cs = (True, l') \<Longrightarrow> c \<in> set cs \<Longrightarrow> bp_last l \<le> snd c"
proof (induction cs arbitrary: l)
  case (Cons a cs)
  obtain s t where a: "a = (s, t)" by fastforce
  from Cons.prems(1) [unfolded a] obtain m where m: "bp_check (Some l) s t = (True, m)" "bp_checks m cs = (True, l')"
    by (rule bp_checks_step)
  from bp_check_ok [OF m(1)] obtain n where n: "m = Some n" "bp_last n = t" "bp_last l \<le> t" by auto
  then show ?case using Cons.IH [of n] Cons.prems(2) m(2) by (fastforce simp: a)
qed simp

lemma first_warning_in: "first_warning cs = Some d \<Longrightarrow> d \<in> snd ` set cs"
  by (induction cs rule: first_warning.induct) (auto split: if_split_asm)

lemma bp_checks_draining:
  "bp_checks (Some l) cs = (True, l') \<Longrightarrow> bp_draining l \<noteq> 0 \<Longrightarrow> \<forall>(s, t)\<in>set cs. t < bp_drain_until l \<and> \<not> bp_critical s"
proof (induction cs arbitrary: l)
  case (Cons c cs)
  obtain s t where c: "c = (s, t)" by fastforce
  from Cons.prems(1) [unfolded c] obtain m where m: "bp_check (Some l) s t = (True, m)" "bp_checks m cs = (True, l')"
    by (rule bp_checks_step)
  from bp_check_ok [OF m(1)] Cons.prems(2) have "m = Some (l\<lparr>bp_last := t\<rparr>)" "t < bp_drain_until l" "\<not> bp_critical s" by auto
  then show ?case using Cons.IH [of "l\<lparr>bp_last := t\<rparr>"] m(2) Cons.prems(2) by (auto simp: c)
qed simp

lemma bp_checks_bounded:
  "bp_checks (Some l) cs = (True, l') \<Longrightarrow> bp_draining l = 0 \<Longrightarrow>
   (\<forall>(s, t)\<in>set cs. \<not> bp_critical s) \<and>
   (case first_warning cs of None \<Rightarrow> True | Some d \<Rightarrow> \<forall>(s, t)\<in>set cs. unat t < unat d + 32000)"
proof (induction cs arbitrary: l)
  case (Cons c cs)
  obtain s t where c: "c = (s, t)" by fastforce
  from Cons.prems(1) [unfolded c] obtain m where m: "bp_check (Some l) s t = (True, m)" "bp_checks m cs = (True, l')"
    by (rule bp_checks_step)
  obtain n where n: "m = Some n" "\<not> bp_critical s" "bp_last n = t"
      "if bp_continue s t then n = l\<lparr>bp_last := t\<rparr> else bp_draining n = 1 \<and> bp_drain_until n = t + BP_SAVE_MS \<and> t \<le> UINT64_MAX - BP_SAVE_MS"
    using bp_check_ok [OF m(1)] Cons.prems(2) by auto
  show ?case
  proof (cases "bp_continue s t")
    case True
    then have "n = l\<lparr>bp_last := t\<rparr>" using n(4) by simp
    note ih = Cons.IH [of n, OF m(2) [unfolded n(1)]]
    have "unat t < unat d + 32000" if "first_warning cs = Some d" for d
      using bp_checks_mono [OF m(2) [unfolded n(1)]] first_warning_in [OF that] n(3) by (fastforce simp: word_le_nat_alt)
    then show ?thesis using ih \<open>n = _\<close> Cons.prems(2) True n(2) by (auto simp: c split: option.splits)
  next
    case False
    then have d: "bp_draining n \<noteq> 0" "bp_drain_until n = t + BP_SAVE_MS" "t \<le> UINT64_MAX - BP_SAVE_MS" using n(4) by auto
    have "unat (t + BP_SAVE_MS) = unat t + 32000"
      using d(3) by (simp add: unat_word_ariths word_le_nat_alt)
    then show ?thesis
      using bp_checks_draining [OF m(2) [unfolded n(1)] d(1)] d(2) False n(2) by (auto simp: c word_less_nat_alt)
  qed
qed simp

text \<open>Claim C29.  The battery policy bounds the work done on a bad battery: if a lease was granted by
  \<open>bp_begin\<close> and every later \<open>bp_check\<close> up to now succeeded, then the granting sample passed the start thresholds,
  no sample was critical, the times never went back, and from the first observation that no longer permits new
  work at most 32 seconds have passed, whatever later samples say.\<close>

theorem battery_save_bounded:
  assumes "bp_begin (Some l0) s0 t0 = (True, l)" and "bp_checks l cs = (True, l')" and "(s, t) \<in> set cs"
  shows "bp_start s0 t0 \<and> t0 \<le> t \<and> \<not> bp_critical s \<and>
    (case first_warning cs of None \<Rightarrow> bp_continue s t | Some d \<Rightarrow> unat t < unat d + 32000)"
proof -
  obtain m where m: "l = Some m" "bp_last m = t0" "bp_draining m = 0" "bp_start s0 t0"
    using assms(1) by (auto split: if_split_asm)
  have "bp_continue s t" if "first_warning cs = None"
    using that assms(3) by (induction cs rule: first_warning.induct) (auto split: if_split_asm)
  then show ?thesis
    using bp_checks_bounded [OF assms(2) [unfolded m(1)] m(3)] bp_checks_mono [OF assms(2) [unfolded m(1)] assms(3)] assms(3) m
    by (auto split: option.splits)
qed

definition demo_sample :: "u64 \<Rightarrow> u16 \<Rightarrow> bp_sample option" where
  "demo_sample t mv = Some \<lparr>bp_at = t, bp_mv = mv, bp_temp = 2981, bp_soc = 80, bp_flags = 8, bp_valid = 1, bp_sequence = 1, bp_current_ma = 0\<rparr>"

theorem battery_save_bounded_witness:
  "\<exists>l. bp_begin (Some \<lparr>bp_last = 0, bp_drain_until = 0, bp_held = 0, bp_draining = 0\<rparr>) (demo_sample 5 4000) 10 = (True, l) \<and>
    fst (bp_checks l [(demo_sample 20 3650, 30), (demo_sample 20 3650, 32029)]) \<and> unat (32029 :: u64) < unat (30 :: u64) + 32000"
proof -
  define l where "l = \<lparr>bp_last = 10, bp_drain_until = 0, bp_held = 1, bp_draining = 0\<rparr>"
  have b: "bp_begin (Some \<lparr>bp_last = 0, bp_drain_until = 0, bp_held = 0, bp_draining = 0\<rparr>) (demo_sample 5 4000) 10 = (True, Some l)"
    by (simp add: demo_sample_def l_def)
  have c: "bp_checks (Some l) [(demo_sample 20 3650, 30), (demo_sample 20 3650, 32029)] =
      (True, Some \<lparr>bp_last = 32029, bp_drain_until = 32030, bp_held = 1, bp_draining = 1\<rparr>)"
    by (simp add: demo_sample_def l_def bp_critical_def)
  have "first_warning [(demo_sample 20 3650, 30), (demo_sample 20 3650, 32029)] = Some 30" by (simp add: demo_sample_def)
  then show ?thesis using battery_save_bounded [OF b c, of "demo_sample 20 3650" 32029] b c by auto
qed

section \<open>Button gestures\<close>

datatype bg_event = BG_NONE | BG_PRESS | BG_SINGLE | BG_FIVE

record button_gesture =
  bg_last :: u64
  bg_changed :: u64
  bg_pressed :: u64
  bg_deadline :: u64
  bg_first :: u64
  bg_seen :: u8
  bg_candidate :: u8
  bg_stable :: u8
  bg_released :: u8
  bg_count :: u8

definition bg_zero :: button_gesture where
  "bg_zero = \<lparr>bg_last = 0, bg_changed = 0, bg_pressed = 0, bg_deadline = 0, bg_first = 0, bg_seen = 0, bg_candidate = 0,
     bg_stable = 0, bg_released = 0, bg_count = 0\<rparr>"

text \<open>\<open>bg_sample\<close> in pieces: the first sample, the state after five taps, the debounced edge (with the event
  it returns, if it returns), and the quiet period.\<close>

definition bg_start :: "int \<Rightarrow> u64 \<Rightarrow> button_gesture \<Rightarrow> button_gesture" where
  "bg_start pressed t g = g\<lparr>bg_seen := 1, bg_candidate := of_int pressed, bg_stable := of_int pressed,
     bg_released := (if pressed = 0 then 1 else 0), bg_changed := t, bg_pressed := t\<rparr>"

definition bg_consumed :: "int \<Rightarrow> u64 \<Rightarrow> button_gesture \<Rightarrow> button_gesture" where
  "bg_consumed pressed t g =
    (let g = (if pressed \<noteq> 0 then g\<lparr>bg_deadline := t + 600\<rparr> else g);
         g = (if bg_stable g \<noteq> bg_candidate g \<and> t - bg_changed g \<ge> 50 then g\<lparr>bg_stable := bg_candidate g\<rparr> else g)
     in if pressed = 0 \<and> bg_stable g = 0 \<and> t \<ge> bg_deadline g then g\<lparr>bg_count := 0, bg_released := 1\<rparr> else g)"

definition bg_press_edge :: "u64 \<Rightarrow> button_gesture \<Rightarrow> bg_event option \<times> button_gesture" where
  "bg_press_edge t g =
    (let g = g\<lparr>bg_pressed := t\<rparr>;
         g = (if bg_count g \<noteq> 0 \<and> t \<ge> bg_deadline g then g\<lparr>bg_count := 0, bg_released := 0\<rparr> else g)
     in if bg_count g = 0 \<and> bg_released g \<noteq> 0 then (Some BG_PRESS, g\<lparr>bg_first := t\<rparr>) else (None, g))"

definition bg_release_edge :: "u64 \<Rightarrow> button_gesture \<Rightarrow> bg_event option \<times> button_gesture" where
  "bg_release_edge t g =
    (let held = t - bg_pressed g in
     if bg_released g \<noteq> 0 \<and> held \<ge> 50 \<and> held \<le> 1000 \<and> t - bg_first g \<le> 3500 then
       (let g = g\<lparr>bg_count := bg_count g + 1, bg_deadline := t + 600\<rparr> in
        if bg_count g = 5 then (Some BG_FIVE, g) else (None, g\<lparr>bg_released := 1\<rparr>))
     else (None, g\<lparr>bg_count := 0, bg_released := 1\<rparr>))"

definition bg_edge :: "int \<Rightarrow> u64 \<Rightarrow> button_gesture \<Rightarrow> bg_event option \<times> button_gesture" where
  "bg_edge pressed t g =
    (if bg_stable g \<noteq> bg_candidate g \<and> t - bg_changed g \<ge> 50 then
       (let g = g\<lparr>bg_stable := bg_candidate g\<rparr> in if pressed \<noteq> 0 then bg_press_edge t g else bg_release_edge t g)
     else (None, g))"

definition bg_quiet :: "u64 \<Rightarrow> button_gesture \<Rightarrow> bg_event \<times> button_gesture" where
  "bg_quiet t g =
    (if bg_count g \<noteq> 0 \<and> bg_stable g = 0 \<and> bg_candidate g = 0 \<and> t \<ge> bg_deadline g
     then (if bg_count g = 1 then BG_SINGLE else BG_NONE, g\<lparr>bg_count := 0\<rparr>) else (BG_NONE, g))"

definition bg_sample :: "button_gesture \<Rightarrow> int \<Rightarrow> u64 \<Rightarrow> bg_event \<times> button_gesture" where
  "bg_sample g pressed t =
    (if (pressed \<noteq> 0 \<and> pressed \<noteq> 1) \<or> (bg_seen g \<noteq> 0 \<and> t < bg_last g) \<or> t > UINT64_MAX - 4000 then (BG_NONE, bg_zero)
     else let g = g\<lparr>bg_last := t\<rparr> in
     if bg_seen g = 0 then (BG_NONE, bg_start pressed t g)
     else let g = (if bg_candidate g \<noteq> of_int pressed then g\<lparr>bg_candidate := of_int pressed, bg_changed := t\<rparr> else g) in
     if bg_count g = 5 then (BG_NONE, bg_consumed pressed t g)
     else case bg_edge pressed t g of (Some e, g) \<Rightarrow> (e, g) | (None, g) \<Rightarrow> bg_quiet t g)"

fun bg_trace :: "button_gesture \<Rightarrow> (int \<times> u64) list \<Rightarrow> (bg_event \<times> u64) list" where
  "bg_trace g [] = []"
| "bg_trace g ((p, t) # xs) = (let (e, g) = bg_sample g p t in (e, t) # bg_trace g xs)"

text \<open>What the events promise: a command is preceded by its own press, which was at least 650 ms ago for a single
  tap, and between 250 ms and 3.5 s ago for five taps.  The first argument is the time of the press since the last command.\<close>

fun commands_ok :: "u64 option \<Rightarrow> (bg_event \<times> u64) list \<Rightarrow> bool" where
  "commands_ok a [] = True"
| "commands_ok a ((e, t) # es) = (case e of
     BG_NONE \<Rightarrow> commands_ok a es
   | BG_PRESS \<Rightarrow> commands_ok (Some t) es
   | BG_SINGLE \<Rightarrow> (case a of None \<Rightarrow> False | Some p \<Rightarrow> unat p + 650 \<le> unat t \<and> commands_ok None es)
   | BG_FIVE \<Rightarrow> (case a of None \<Rightarrow> False | Some p \<Rightarrow> unat p + 250 \<le> unat t \<and> unat t \<le> unat p + 3500 \<and> commands_ok None es))"

text \<open>The state invariant: times are ordered, so no difference wraps, and a tap sequence in progress has an announced press.\<close>

definition bg_times :: "button_gesture \<Rightarrow> bool" where
  "bg_times g \<longleftrightarrow> bg_changed g \<le> bg_last g \<and> bg_pressed g \<le> bg_last g \<and> bg_first g \<le> bg_last g \<and> unat (bg_last g) + 4000 < 2 ^ 64 \<and>
     unat (bg_deadline g) \<le> unat (bg_last g) + 600 \<and>
     bg_candidate g \<le> 1 \<and> bg_stable g \<le> 1 \<and> bg_count g \<le> 5"

definition bg_armed :: "u64 option \<Rightarrow> button_gesture \<Rightarrow> bool" where
  "bg_armed a g \<longleftrightarrow>
    (bg_stable g \<noteq> 0 \<and> bg_released g \<noteq> 0 \<and> bg_count g \<noteq> 5 \<longrightarrow>
       a = Some (bg_first g) \<and> unat (bg_first g) + 50 * unat (bg_count g) \<le> unat (bg_pressed g)) \<and>
    (bg_stable g = 0 \<and> bg_count g \<noteq> 0 \<and> bg_count g \<noteq> 5 \<longrightarrow> bg_released g \<noteq> 0 \<and>
       a = Some (bg_first g) \<and> unat (bg_first g) + 50 * unat (bg_count g) + 600 \<le> unat (bg_deadline g))"

definition bg_inv :: "u64 option \<Rightarrow> button_gesture \<Rightarrow> bool" where
  "bg_inv a g \<longleftrightarrow> (bg_seen g = 0 \<and> g = bg_zero) \<or> (bg_seen g \<noteq> 0 \<and> bg_times g \<and> bg_armed a g)"

text \<open>How an event changes the pending press.\<close>

fun bg_after :: "u64 option \<Rightarrow> bg_event \<Rightarrow> u64 \<Rightarrow> u64 option" where
  "bg_after a BG_NONE t = a"
| "bg_after a BG_PRESS t = Some t"
| "bg_after a _ t = None"

fun bg_event_ok :: "u64 option \<Rightarrow> bg_event \<Rightarrow> u64 \<Rightarrow> bool" where
  "bg_event_ok a BG_SINGLE t = (case a of None \<Rightarrow> False | Some p \<Rightarrow> unat p + 650 \<le> unat t)"
| "bg_event_ok a BG_FIVE t = (case a of None \<Rightarrow> False | Some p \<Rightarrow> unat p + 250 \<le> unat t \<and> unat t \<le> unat p + 3500)"
| "bg_event_ok a _ t = True"

lemma unat_diff: "b \<le> (a :: 'a::len word) \<Longrightarrow> unat (a - b) = unat a - unat b"
  by (simp add: unat_sub_if_size word_le_nat_alt)

lemma bg_quiet_ok:
  assumes "bg_times g" and "bg_armed a g" and "bg_last g = t" and "bg_count g \<noteq> 5" and "bg_quiet t g = (e, g')"
  shows "bg_times g' \<and> bg_armed (bg_after a e t) g' \<and> bg_event_ok a e t \<and> bg_seen g' = bg_seen g"
  using assms by (auto simp: bg_quiet_def bg_times_def bg_armed_def word_le_nat_alt split: if_split_asm)

lemma bg_deadline_set: "unat (t :: u64) + 4000 < 2 ^ 64 \<Longrightarrow> unat (t + 600) = unat t + 600"
  by (simp add: unat_word_ariths)

lemma bg_press_ok:
  assumes "bg_times g" and "bg_armed a g" and "bg_last g = t" and "bg_count g \<noteq> 5" and "bg_stable g = 0"
    and "bg_press_edge t (g\<lparr>bg_stable := 1\<rparr>) = (e, g')"
  shows "bg_times g' \<and> bg_seen g' = bg_seen g \<and> bg_count g' \<noteq> 5 \<and> bg_last g' = t \<and>
    bg_armed (case e of None \<Rightarrow> a | Some x \<Rightarrow> bg_after a x t) g' \<and> (\<forall>x. e = Some x \<longrightarrow> bg_event_ok a x t)"
  using assms by (auto simp: bg_press_edge_def bg_times_def bg_armed_def word_le_nat_alt Let_def split: if_split_asm)

lemma bg_release_ok:
  assumes "bg_times g" and "bg_armed a g" and "bg_last g = t" and "bg_count g \<noteq> 5" and "bg_stable g \<noteq> 0"
    and "bg_release_edge t (g\<lparr>bg_stable := 0\<rparr>) = (e, g')"
  shows "bg_times g' \<and> bg_seen g' = bg_seen g \<and> bg_last g' = t \<and> (e = None \<longrightarrow> bg_count g' \<noteq> 5) \<and>
    bg_armed (case e of None \<Rightarrow> a | Some x \<Rightarrow> bg_after a x t) g' \<and> (\<forall>x. e = Some x \<longrightarrow> bg_event_ok a x t)"
proof (cases "bg_released g \<noteq> 0 \<and> t - bg_pressed g \<ge> 50 \<and> t - bg_pressed g \<le> 1000 \<and> t - bg_first g \<le> 3500")
  case True
  have tm: "bg_pressed g \<le> t" "bg_first g \<le> t" "unat t + 4000 < 2 ^ 64" using assms(1,3) by (auto simp: bg_times_def)
  have c: "bg_count g < 5" using assms(1,4) by (simp add: bg_times_def order_less_le)
  have c1: "unat (bg_count g + 1) = unat (bg_count g) + 1" using c by (simp add: unat_word_ariths word_less_nat_alt)
  have arm: "a = Some (bg_first g)" "unat (bg_first g) + 50 * unat (bg_count g) \<le> unat (bg_pressed g)"
    using assms(2,4,5) True by (auto simp: bg_armed_def)
  have h: "50 \<le> unat t - unat (bg_pressed g)" "unat t - unat (bg_first g) \<le> 3500"
    using True tm by (auto simp: word_le_nat_alt unat_diff)
  have five: "bg_count g + 1 = 5 \<Longrightarrow> unat (bg_count g) = 4" using c1 by simp
  let ?g = "g\<lparr>bg_stable := 0, bg_count := bg_count g + 1, bg_deadline := t + 600\<rparr>"
  have "bg_times ?g" using assms(1,3) c1 c bg_deadline_set [OF tm(3)] by (auto simp: bg_times_def word_le_nat_alt word_less_nat_alt)
  moreover have "unat (bg_first g) + 50 * (unat (bg_count g) + 1) \<le> unat t" using arm(2) h(1) by simp
  ultimately show ?thesis
    using assms(3,6) True arm(1) h(2) five c1 bg_deadline_set [OF tm(3)] tm(2)
    by (auto simp: bg_release_edge_def Let_def bg_armed_def bg_times_def word_le_nat_alt split: if_split_asm)
next
  case False
  then have "(e, g') = (None, g\<lparr>bg_stable := 0, bg_count := 0, bg_released := 1\<rparr>)"
    using assms(6) by (auto simp: bg_release_edge_def Let_def)
  then show ?thesis using assms(1,3) by (auto simp: bg_times_def bg_armed_def)
qed

lemma bg_edge_ok:
  assumes "bg_times g" and "bg_armed a g" and "bg_last g = t" and "bg_count g \<noteq> 5" and "p = 0 \<or> p = 1" and "bg_candidate g = of_int p"
    and "bg_edge p t g = (e, g')"
  shows "bg_times g' \<and> bg_seen g' = bg_seen g \<and> bg_last g' = t \<and> (e = None \<longrightarrow> bg_count g' \<noteq> 5) \<and>
    bg_armed (case e of None \<Rightarrow> a | Some x \<Rightarrow> bg_after a x t) g' \<and> (\<forall>x. e = Some x \<longrightarrow> bg_event_ok a x t)"
proof (cases "bg_stable g \<noteq> bg_candidate g \<and> t - bg_changed g \<ge> 50")
  case False
  then show ?thesis using assms by (auto simp: bg_edge_def)
next
  case True
  have b: "bg_stable g = 0 \<or> bg_stable g = 1" using assms(1) by (auto simp: bg_times_def) uint_arith
  show ?thesis
  proof (cases "p = 0")
    case True
    then show ?thesis
      using bg_release_ok [OF assms(1-4), of e g'] assms(6,7) \<open>bg_stable g \<noteq> bg_candidate g \<and> _\<close> by (simp add: bg_edge_def)
  next
    case False
    then have p: "p = 1" using assms(5) by simp
    then have "bg_stable g = 0" using b assms(6) \<open>bg_stable g \<noteq> bg_candidate g \<and> _\<close> by auto
    then show ?thesis
      using bg_press_ok [OF assms(1-4), of e g'] assms(6,7) p \<open>bg_stable g \<noteq> bg_candidate g \<and> _\<close> by (simp add: bg_edge_def)
  qed
qed

lemma bg_consumed_ok:
  assumes "bg_times g" and "bg_last g = t" and "bg_count g = 5"
  shows "bg_times (bg_consumed p t g) \<and> bg_armed a (bg_consumed p t g) \<and> bg_seen (bg_consumed p t g) = bg_seen g"
proof -
  have "unat (t + 600) = unat t + 600" using assms by (intro bg_deadline_set) (auto simp: bg_times_def)
  then show ?thesis using assms by (simp add: bg_consumed_def bg_times_def bg_armed_def Let_def)
qed

lemma bg_sample_inv:
  assumes "bg_inv a g" and s: "bg_sample g p t = (e, g')"
  shows "bg_inv (bg_after a e t) g' \<and> bg_event_ok a e t"
proof -
  let ?bad = "(p \<noteq> 0 \<and> p \<noteq> 1) \<or> (bg_seen g \<noteq> 0 \<and> t < bg_last g) \<or> t > UINT64_MAX - 4000"
  have zero: "bg_inv b bg_zero" for b by (simp add: bg_inv_def bg_zero_def)
  consider "?bad" | "\<not> ?bad" "bg_seen g = 0" | "\<not> ?bad" "bg_seen g \<noteq> 0" by blast
  then show ?thesis
  proof cases
    case 1
    then have "e = BG_NONE" "g' = bg_zero" using s unfolding bg_sample_def if_P [OF 1] by auto
    then show ?thesis using zero by simp
  next
    case 2
    then have "g = bg_zero" using assms(1) by (simp add: bg_inv_def)
    moreover have "unat t + 4000 < 2 ^ 64" using 2 by (simp add: word_le_nat_alt not_less)
    moreover have "p = 0 \<or> p = 1" using 2 by blast
    ultimately show ?thesis
      using s 2 by (auto simp: bg_sample_def bg_start_def bg_inv_def bg_times_def bg_armed_def bg_zero_def Let_def)
  next
    case 3
    define h where "h = (let g = g\<lparr>bg_last := t\<rparr> in if bg_candidate g \<noteq> of_int p then g\<lparr>bg_candidate := of_int p, bg_changed := t\<rparr> else g)"
    have p: "p = 0 \<or> p = 1" and tl: "bg_last g \<le> t" "unat t + 4000 < 2 ^ 64" using 3 by (auto simp: word_le_nat_alt not_less)
    have inv: "bg_times g" "bg_armed a g" using assms(1) 3(2) by (auto simp: bg_inv_def)
    have h: "bg_times h" "bg_armed a h" "bg_last h = t" "bg_candidate h = of_int p" "bg_seen h = bg_seen g" "bg_count h = bg_count g"
      using inv tl p by (auto simp: h_def Let_def bg_times_def bg_armed_def word_le_nat_alt)
    have s': "(if bg_count h = 5 then (BG_NONE, bg_consumed p t h)
        else case bg_edge p t h of (Some e, g) \<Rightarrow> (e, g) | (None, g) \<Rightarrow> bg_quiet t g) = (e, g')"
      using s 3(2) unfolding bg_sample_def if_not_P [OF 3(1)] h_def Let_def by (simp split del: if_split)
    show ?thesis
    proof (cases "bg_count h = 5")
      case True
      then show ?thesis using bg_consumed_ok [OF h(1,3) True, of p a] s' h(5) 3(2) by (auto simp: bg_inv_def)
    next
      case False
      obtain x k where x: "bg_edge p t h = (x, k)" by fastforce
      note ek = bg_edge_ok [OF h(1-3) False p h(4) x]
      show ?thesis
      proof (cases x)
        case None
        then show ?thesis
          using ek bg_quiet_ok [of k a t e g'] s' False x h(5) 3(2) by (auto simp: bg_inv_def)
      next
        case (Some y)
        then show ?thesis using ek s' False x h(5) 3(2) by (auto simp: bg_inv_def)
      qed
    qed
  qed
qed

lemma commands_ok_trace: "bg_inv a g \<Longrightarrow> commands_ok a (bg_trace g xs)"
proof (induction xs arbitrary: a g)
  case (Cons x xs)
  obtain p t where x: "x = (p, t)" by fastforce
  obtain e g' where s: "bg_sample g p t = (e, g')" by fastforce
  note i = bg_sample_inv [OF Cons.prems s]
  then have "commands_ok (bg_after a e t) (bg_trace g' xs)" using Cons.IH by blast
  then show ?case using i by (cases e) (auto simp: x s split: option.splits)
qed simp

text \<open>Claim C30.  The gesture decoder commands only what was tapped: for any sequence of samples, from a zeroed decoder,
  every single-tap event is preceded by a reported press of its own at least 650 ms earlier, every five-tap
  event by a reported press between 250 ms and 3.5 s earlier, and no press serves two commands.\<close>

theorem button_commands_announced: "commands_ok None (bg_trace bg_zero samples)"
  by (rule commands_ok_trace) (simp add: bg_inv_def bg_zero_def)

lemma button_events_happen:
  "map fst (bg_trace bg_zero [(0, 0), (1, 100), (1, 150), (0, 200), (0, 250), (0, 850)]) =
     [BG_NONE, BG_NONE, BG_PRESS, BG_NONE, BG_NONE, BG_SINGLE]"
  by code_simp

section \<open>Profile counters\<close>

abbreviation RT_STAGES :: u32 where "RT_STAGES \<equiv> 10"

record rt_stage_counter =
  st_calls :: u32
  st_ticks :: u32
  st_codec_ticks :: u32

record recording_timing =
  tm_codec_calls :: u32
  tm_codec_ticks :: u32
  tm_codec_max :: u32
  tm_job_calls :: u32
  tm_job_ticks :: u32
  tm_job_max :: u32
  tm_stages :: "rt_stage_counter list"

definition rt_add :: "u32 \<Rightarrow> u32 \<Rightarrow> u32" where
  "rt_add a b = (if b > UINT32_MAX - a then UINT32_MAX else a + b)"

definition rt_codec :: "u32 \<Rightarrow> recording_timing \<Rightarrow> recording_timing" where
  "rt_codec ticks p = (let p = p\<lparr>tm_codec_calls := rt_add (tm_codec_calls p) 1, tm_codec_ticks := rt_add (tm_codec_ticks p) ticks\<rparr>
     in if ticks > tm_codec_max p then p\<lparr>tm_codec_max := ticks\<rparr> else p)"

definition rt_job :: "u32 \<Rightarrow> recording_timing \<Rightarrow> recording_timing" where
  "rt_job ticks p = (let p = p\<lparr>tm_job_calls := rt_add (tm_job_calls p) 1, tm_job_ticks := rt_add (tm_job_ticks p) ticks\<rparr>
     in if ticks > tm_job_max p then p\<lparr>tm_job_max := ticks\<rparr> else p)"

definition rt_stage :: "u32 \<Rightarrow> u32 \<Rightarrow> u32 \<Rightarrow> recording_timing \<Rightarrow> recording_timing" where
  "rt_stage stage ticks codec p =
    (if stage \<ge> RT_STAGES then p
     else let s = tm_stages p ! unat stage;
              s = s\<lparr>st_calls := rt_add (st_calls s) 1, st_ticks := rt_add (st_ticks s) ticks, st_codec_ticks := rt_add (st_codec_ticks s) codec\<rparr>
       in p\<lparr>tm_stages := (tm_stages p)[unat stage := s]\<rparr>)"

lemma unat_rt_add: "unat (rt_add a b) = min (unat a + unat b) 4294967295"
proof -
  have a: "unat a \<le> 4294967295" using unsigned_less [of a, where ?'a = nat] by simp
  then have "unat (UINT32_MAX - a) = 4294967295 - unat a" by (simp add: unat_diff word_le_nat_alt)
  then show ?thesis
    using a by (cases "b > UINT32_MAX - a") (auto simp: rt_add_def word_less_nat_alt not_less unat_word_ariths)
qed

text \<open>The profile counters saturate and never wrap: after any sequence of codec intervals the call and
  tick counters hold the exact totals, cut off at \<open>UINT32_MAX\<close>, and the maximum is exact.\<close>

lemma timing_saturates:
  "unat (tm_codec_calls (fold rt_codec ts p)) = min (unat (tm_codec_calls p) + length ts) 4294967295 \<and>
   unat (tm_codec_ticks (fold rt_codec ts p)) = min (unat (tm_codec_ticks p) + sum_list (map unat ts)) 4294967295 \<and>
   tm_codec_max (fold rt_codec ts p) = fold max ts (tm_codec_max p)"
proof (induction ts arbitrary: p)
  case Nil
  then show ?case using unsigned_less [of "tm_codec_calls p", where ?'a = nat] unsigned_less [of "tm_codec_ticks p", where ?'a = nat] by simp
next
  case (Cons t ts)
  have "tm_codec_max (rt_codec t p) = max t (tm_codec_max p)" by (auto simp: rt_codec_def Let_def max_def)
  moreover have "tm_codec_calls (rt_codec t p) = rt_add (tm_codec_calls p) 1" "tm_codec_ticks (rt_codec t p) = rt_add (tm_codec_ticks p) t"
    by (simp_all add: rt_codec_def Let_def)
  ultimately show ?case using Cons.IH [of "rt_codec t p"] by (auto simp: unat_rt_add)
qed

section \<open>Microphone frame moment\<close>

text \<open>\<open>signed_sum\<close> is an \<open>int64_t\<close>: it is compared through \<open>sint\<close>, and its product is the 64-bit product.  A null
  output pointer is \<open>None\<close>.\<close>

definition mic_frame_ac_numerator :: "u64 \<Rightarrow> u64 \<Rightarrow> u64 option \<Rightarrow> bool \<times> u64 option" where
  "mic_frame_ac_numerator signed_sum sum_square output =
    (if output = None \<or> sint signed_sum < -10485760 \<or> sint signed_sum > 10485440 \<or> sum_square > 343597383680 then (False, output)
     else let weighted_square = 320 * sum_square; squared_sum = signed_sum * signed_sum in
       if weighted_square < squared_sum then (False, output) else (True, Some (weighted_square - squared_sum)))"

lemma cauchy_list: "(sum_list xs :: int)\<^sup>2 \<le> int (length xs) * (\<Sum>x\<leftarrow>xs. x\<^sup>2)"
proof (induction xs)
  case (Cons a xs)
  let ?S = "sum_list xs" and ?Q = "\<Sum>x\<leftarrow>xs. x\<^sup>2" and ?n = "int (length xs)"
  have q: "0 \<le> ?Q" by (induction xs) auto
  have "2 * a * ?S \<le> ?n * a\<^sup>2 + ?Q"
  proof (cases "xs = []")
    case False
    then have n: "0 < ?n" by simp
    have "0 \<le> (?n * a - ?S)\<^sup>2 + (?n * ?Q - ?S\<^sup>2)" using Cons.IH by simp
    also have "\<dots> = ?n * (?n * a\<^sup>2 + ?Q - 2 * a * ?S)" by (simp add: power2_eq_square algebra_simps)
    finally show ?thesis using n by (simp add: zero_le_mult_iff)
  qed simp
  then show ?case using Cons.IH by (simp add: power2_eq_square algebra_simps)
qed simp

lemma sum_bounds: "\<forall>x\<in>set xs. lo \<le> x \<and> x \<le> (hi :: int) \<Longrightarrow> int (length xs) * lo \<le> sum_list xs \<and> sum_list xs \<le> int (length xs) * hi"
  by (induction xs) (auto simp: algebra_simps)

lemma frame_bounds:
  fixes xs :: "u16 list"
  assumes "length xs = 320"
  defines "S \<equiv> \<Sum>x\<leftarrow>xs. sint x" and "Q \<equiv> \<Sum>x\<leftarrow>xs. (sint x)\<^sup>2"
  shows "-10485760 \<le> S" "S \<le> 10485440" "0 \<le> Q" "Q \<le> 343597383680" "S\<^sup>2 \<le> 320 * Q"
proof -
  have r: "-32768 \<le> sint x \<and> sint x \<le> 32767" for x :: u16
    using sint_ge [of x] sint_lt [of x] by simp
  have sq: "0 \<le> (sint x)\<^sup>2 \<and> (sint x)\<^sup>2 \<le> 1073741824" for x :: u16
  proof -
    have "\<bar>sint x\<bar> \<le> 32768" using r [of x] by (simp add: abs_le_iff)
    then have "(sint x)\<^sup>2 \<le> 32768\<^sup>2" by (rule power2_le_iff_abs_le [THEN iffD2, rotated]) simp
    then show ?thesis by simp
  qed
  show "-10485760 \<le> S" "S \<le> 10485440" using sum_bounds [of "map sint xs" "-32768" 32767] r assms(1) by (auto simp: S_def)
  show "0 \<le> Q" "Q \<le> 343597383680" using sum_bounds [of "map (\<lambda>x. (sint x)\<^sup>2) xs" 0 1073741824] sq assms(1) by (auto simp: Q_def)
  show "S\<^sup>2 \<le> 320 * Q" using cauchy_list [of "map sint xs"] assms(1) by (simp add: S_def Q_def comp_def)
qed

text \<open>The microphone moment is exact for every frame: for the sum and the sum of squares of any 320 signed
  16-bit samples \<open>mic_frame_ac_numerator\<close> succeeds and stores \<open>320 * sum(x^2) - sum(x)^2\<close>, which is not negative and
  fits in 64 bits; no intermediate product overflows.\<close>

lemma mic_frame_exact:
  fixes xs :: "u16 list"
  assumes "length xs = 320"
  defines "S \<equiv> \<Sum>x\<leftarrow>xs. sint x" and "Q \<equiv> \<Sum>x\<leftarrow>xs. (sint x)\<^sup>2"
  shows "mic_frame_ac_numerator (of_int S) (of_int Q) (Some old) = (True, Some (of_int (320 * Q - S\<^sup>2))) \<and>
    0 \<le> 320 * Q - S\<^sup>2 \<and> 320 * Q - S\<^sup>2 < 2 ^ 64 \<and> 320 * Q < 2 ^ 64 \<and> S\<^sup>2 < 2 ^ 63"
proof -
  note b = frame_bounds [OF assms(1), folded S_def Q_def]
  have s2: "S\<^sup>2 \<le> 109951162777600"
  proof -
    have "\<bar>S\<bar> \<le> 10485760" using b(1,2) by (simp add: abs_le_iff)
    then have "S\<^sup>2 \<le> 10485760\<^sup>2" by (rule power2_le_iff_abs_le [THEN iffD2, rotated]) simp
    then show ?thesis by simp
  qed
  have "sint (of_int S :: u64) = S"
    by (rule signed_of_int [THEN trans]) (use b(1,2) in \<open>simp add: signed_take_bit_int_eq_self\<close>)
  moreover have q: "uint (of_int Q :: u64) = Q" using b(3,4) by (simp add: unsigned_of_int take_bit_int_eq_self)
  moreover have w: "uint (320 * of_int Q :: u64) = 320 * Q"
    using b(3,4) by (simp add: uint_word_ariths q)
  moreover have ss: "uint (of_int S * of_int S :: u64) = S\<^sup>2"
  proof -
    have "(of_int S * of_int S :: u64) = of_int (S\<^sup>2)" by (simp add: power2_eq_square)
    then show ?thesis using s2 by (simp only: unsigned_of_int) (simp add: take_bit_int_eq_self)
  qed
  moreover have "(320 * of_int Q - of_int S * of_int S :: u64) = of_int (320 * Q - S\<^sup>2)" by (simp add: power2_eq_square)
  moreover have "320 * Q - S\<^sup>2 < 18446744073709551616" using b(4) zero_le_power2 [of S] by linarith
  ultimately show ?thesis
    using b s2 by (simp add: mic_frame_ac_numerator_def Let_def word_less_alt)
qed

lemma mic_frame_exact_witness: "mic_frame_ac_numerator 0 0 (Some 5) = (True, Some 0)"
proof -
  have "sum_list (map sint (replicate 320 (0::u16))) = 0" "(\<Sum>x\<leftarrow>replicate 320 (0::u16). (sint x)\<^sup>2) = 0"
    by (simp_all only: map_replicate sum_list_replicate) simp_all
  then show ?thesis using mic_frame_exact [of "replicate 320 0" 5] by simp
qed

end
