(* ===== verification/Recording_Control.thy ===== *)
theory Recording_Control
  imports Long_Control Device_Policy
begin

text \<open>
  The coordinator of long recordings (\<open>recording_control.c\<close>): remote commands, the physical button, the
  worker's publications and disconnects share one record behind the gate \<open>gate\<close>.  Each section between
  \<open>enter\<close> and \<open>leave\<close> is one function on the record; what the callbacks of \<open>struct lrc_port\<close> return, whether the
  gate was free and what other actors did while it was free are arguments.  The step relation interleaves the
  sections of all operations freely.  The group shows that every remote operation identity is retained and
  started at most once, and that a stop request is never lost.
\<close>

section \<open>Model\<close>

abbreviation LRC_OPERATIONS :: u32 where "LRC_OPERATIONS \<equiv> 32"
abbreviation LRC_PREPARE_MS :: u64 where "LRC_PREPARE_MS \<equiv> 120000"
abbreviation LRC_LOCAL_TICKET :: u32 where "LRC_LOCAL_TICKET \<equiv> 0x80000000"
abbreviation sizeof_lrc :: nat where "sizeof_lrc \<equiv> 2640"
abbreviation sizeof_lrc_port :: nat where "sizeof_lrc_port \<equiv> 28"

datatype lrc_rc = LRC_OK | LRC_PENDING | LRC_DEFERRED | LRC_PAIRING_REQUEST | LRC_ARGUMENT | LRC_BUSY | LRC_REFUSED | LRC_FAULT

text \<open>\<open>struct recording_control\<close> without the gate and the port; atomics that hold 0 or 1 are booleans.\<close>

record recording_control =
  rc_stop :: "bool list"
  rc_issued :: u32
  rc_fault :: bool
  rc_submitting :: bool
  rc_states :: "lc_state list"
  rc_idle :: lc_state
  rc_binding :: bytes
  rc_last_now :: u64
  rc_connection :: u64
  rc_last_connection :: u64
  rc_sequence :: u16
  rc_initialized :: bool
  rc_used :: u32
  rc_current :: u32
  rc_armed :: u32
  rc_button_ticket :: u32
  rc_armed_deadline :: u64
  rc_button :: button_gesture
  rc_local :: lc_state
  rc_local_ticket :: u32
  rc_local_stop :: bool
  rc_local_count :: u32
  rc_standalone :: bool
  rc_button_local_ready :: bool

definition lc_state_zero :: lc_state where
  "lc_state_zero = \<lparr>st_boot = replicate 16 0, st_operation = replicate 16 0, st_recording = replicate 16 0, st_phase = 0, st_reason = 0,
     st_flags = 0, st_epoch = 0, st_accepted = 0, st_committed = 0, st_admitted = 0\<rparr>"

definition LC_PROFILE_FLAGS :: "bool \<Rightarrow> u16" where
  "LC_PROFILE_FLAGS portable = (if portable then LC_PORTABLE else 0)"

definition active :: "lc_state \<Rightarrow> bool" where
  "active s \<longleftrightarrow> st_phase s \<ge> LC_STARTING \<and> st_phase s \<le> LC_DRAINING"

definition is_local :: "u32 \<Rightarrow> bool" where "is_local ticket \<longleftrightarrow> ticket AND LRC_LOCAL_TICKET \<noteq> 0"

definition state_at :: "recording_control \<Rightarrow> u32 \<Rightarrow> lc_state option" where
  "state_at c ticket =
    (if is_local ticket then (if ticket = rc_local_ticket c then Some (rc_local c) else None)
     else if ticket \<noteq> 0 \<and> ticket \<le> rc_used c then Some (rc_states c ! unat (ticket - 1)) else None)"

text \<open>A store through the pointer that \<open>state_at\<close> returns.\<close>

definition put_state :: "u32 \<Rightarrow> lc_state \<Rightarrow> recording_control \<Rightarrow> recording_control" where
  "put_state ticket s c =
    (if is_local ticket then (if ticket = rc_local_ticket c then c\<lparr>rc_local := s\<rparr> else c)
     else if ticket \<noteq> 0 \<and> ticket \<le> rc_used c then c\<lparr>rc_states := (rc_states c)[unat (ticket - 1) := s]\<rparr> else c)"

definition active_at :: "recording_control \<Rightarrow> u32 \<Rightarrow> bool" where
  "active_at c ticket = (case state_at c ticket of None \<Rightarrow> False | Some s \<Rightarrow> active s)"

definition stop_ticket :: "u32 \<Rightarrow> recording_control \<Rightarrow> recording_control" where
  "stop_ticket ticket c =
    (if is_local ticket then (if ticket = rc_local_ticket c then c\<lparr>rc_local_stop := True\<rparr> else c)
     else if ticket \<noteq> 0 \<and> ticket \<le> rc_used c then c\<lparr>rc_stop := (rc_stop c)[unat (ticket - 1) := True]\<rparr> else c)"

fun find_from :: "nat \<Rightarrow> lc_state list \<Rightarrow> bytes \<Rightarrow> u32" where
  "find_from i [] operation = 0"
| "find_from i (s # ss) operation = (if st_operation s = operation then of_nat i + 1 else find_from (Suc i) ss operation)"

definition find_operation :: "recording_control \<Rightarrow> bytes \<Rightarrow> u32" where
  "find_operation c operation =
    (if rc_local_ticket c \<noteq> 0 \<and> operation = st_operation (rc_local c) then rc_local_ticket c
     else find_from 0 (take (unat (rc_used c)) (rc_states c)) operation)"

definition local_operation :: "bytes \<Rightarrow> u32 \<Rightarrow> bytes" where
  "local_operation boot count =
    (let p = boot; p = p[0 := p ! 0 XOR 0xa5]; p = p[1 := p ! 1 XOR 0x73]; p = p[6 := (p ! 6 AND 15) OR 0x40]; p = p[8 := (p ! 8 AND 63) OR 0x80]
     in blit 12 (map (\<lambda>i. ucast (drop_bit (24 - i * 8) count)) [0..<4]) p)"

definition local_namespace :: "recording_control \<Rightarrow> bytes \<Rightarrow> bool" where
  "local_namespace c operation \<longleftrightarrow> part 0 12 (local_operation (st_boot (rc_idle c)) 0) = part 0 12 operation"

definition tick :: "u64 \<Rightarrow> recording_control \<Rightarrow> bool \<times> recording_control" where
  "tick t c = (if t < rc_last_now c then (False, c\<lparr>rc_fault := True\<rparr>) else (True, c\<lparr>rc_last_now := t\<rparr>))"

definition usb_flag :: "bool \<Rightarrow> u16" where "usb_flag usb = (if usb then LC_USB_PRESENT else 0)"

definition cancel_arm :: "bool \<Rightarrow> bool \<Rightarrow> recording_control \<Rightarrow> recording_control" where
  "cancel_arm portable usb c =
    (let k = unat (rc_armed c - 1); s = (rc_states c ! k)\<lparr>st_phase := LC_CANCELLED_BEFORE_START, st_reason := 1,
         st_flags := LC_PROFILE_FLAGS portable OR LC_PRODUCER_JOINED OR LC_STORAGE_JOINED OR LC_RELEASED OR usb_flag usb\<rparr>
     in c\<lparr>rc_stop := (rc_stop c)[k := True], rc_states := (rc_states c)[k := s], rc_armed := 0, rc_armed_deadline := 0\<rparr>)"

fun lrc_init :: "bool \<Rightarrow> nat \<Rightarrow> bool \<Rightarrow> bool \<Rightarrow> nat \<Rightarrow> bytes ptr \<Rightarrow> bytes ptr \<Rightarrow> recording_control \<Rightarrow> lrc_rc \<times> recording_control" where
  "lrc_init portable ca port_complete lock_free pa (Ptr ba boot) (Ptr na binding) c =
    (if overlap ca sizeof_lrc pa sizeof_lrc_port \<or> overlap ca sizeof_lrc ba 16 \<or> overlap ca sizeof_lrc na 32 \<or> \<not> port_complete \<or>
        rc_initialized c \<or> \<not> identity boot \<or> \<not> identity binding then (LRC_ARGUMENT, c)
     else let z = \<lparr>rc_stop = replicate 32 False, rc_issued = 0, rc_fault = False, rc_submitting = False, rc_states = replicate 32 lc_state_zero,
            rc_idle = lc_state_zero, rc_binding = replicate 32 0, rc_last_now = 0, rc_connection = 0, rc_last_connection = 0, rc_sequence = 0,
            rc_initialized = False, rc_used = 0, rc_current = 0, rc_armed = 0, rc_button_ticket = 0, rc_armed_deadline = 0, rc_button = bg_zero,
            rc_local = lc_state_zero, rc_local_ticket = 0, rc_local_stop = False, rc_local_count = 0, rc_standalone = False,
            rc_button_local_ready = False\<rparr> in
       if \<not> lock_free then (LRC_REFUSED, z)
       else (LRC_OK, z\<lparr>rc_binding := binding, rc_idle := lc_state_zero\<lparr>st_boot := boot, st_flags := LC_PROFILE_FLAGS portable OR
              LC_PRODUCER_JOINED OR LC_STORAGE_JOINED OR LC_RELEASED\<rparr>, rc_initialized := True\<rparr>))"
| "lrc_init portable ca port_complete lock_free pa boot binding c = (LRC_ARGUMENT, c)"

subsection \<open>Remote commands\<close>

definition lrc_stop_requested :: "recording_control \<Rightarrow> u32 \<Rightarrow> int" where
  "lrc_stop_requested c ticket =
    (if \<not> rc_initialized c \<or> ticket = 0 \<or> rc_fault c then -1
     else if is_local ticket then (if ticket = rc_local_ticket c then (if rc_local_stop c then 1 else 0) else -1)
     else if ticket > rc_issued c then -1
     else if rc_stop c ! unat (ticket - 1) then 1 else 0)"

text \<open>A new operation: the branch of \<open>lrc_command\<close> for a START whose identity is not known.\<close>

definition start_refused :: "bool \<Rightarrow> lc_request \<Rightarrow> bool \<Rightarrow> int \<Rightarrow> u64 \<Rightarrow> recording_control \<Rightarrow> bool" where
  "start_refused portable r usb ready now c \<longleftrightarrow> ready \<noteq> 1 \<or> (\<not> portable \<and> \<not> usb) \<or> rc_used c = LRC_OPERATIONS \<or>
     (rc_current c \<noteq> 0 \<and> active_at c (rc_current c)) \<or> now > UINT64_MAX - LRC_PREPARE_MS \<or>
     (rq_mode r = 2 \<and> (bg_seen (rc_button c) = 0 \<or> bg_candidate (rc_button c) \<noteq> 0 \<or> bg_stable (rc_button c) \<noteq> 0 \<or> bg_count (rc_button c) \<noteq> 0))"

definition command_start :: "bool \<Rightarrow> lc_request \<Rightarrow> bool \<Rightarrow> u64 \<Rightarrow> recording_control \<Rightarrow> (u32 \<times> bool) \<times> recording_control" where
  "command_start portable r usb now c =
    (let ticket = rc_used c + 1; k = unat (ticket - 1);
         s = (rc_states c ! k)\<lparr>st_boot := st_boot (rc_idle c), st_operation := rq_operation r, st_phase := LC_STARTING,
               st_flags := LC_PROFILE_FLAGS portable OR usb_flag usb OR LC_PRODUCER_JOINED OR LC_STORAGE_JOINED\<rparr>;
         c = c\<lparr>rc_used := ticket, rc_current := ticket, rc_stop := (rc_stop c)[k := False], rc_issued := ticket, rc_submitting := True\<rparr>
     in if rq_mode r = 2
        then ((ticket, False), c\<lparr>rc_states := (rc_states c)[k := s\<lparr>st_flags := st_flags s OR LC_BUTTON_ARMED\<rparr>], rc_armed := ticket,
               rc_armed_deadline := now + LRC_PREPARE_MS, rc_submitting := False\<rparr>)
        else ((ticket, True), c\<lparr>rc_states := (rc_states c)[k := s]\<rparr>))"

definition command_stop :: "bool \<Rightarrow> lc_request \<Rightarrow> u32 \<Rightarrow> bool \<Rightarrow> recording_control \<Rightarrow> recording_control" where
  "command_stop portable r ticket usb c =
    (let c = (if rq_command r = LC_STOP \<and> ticket \<noteq> 0 \<and> active_at c ticket then stop_ticket ticket c else c)
     in if rq_command r = LC_STOP \<and> ticket \<noteq> 0 \<and> rc_armed c = ticket then cancel_arm portable usb c else c)"

text \<open>The first gated section of \<open>lrc_command\<close>: a refusal, or the selected ticket and whether to queue it.\<close>

definition command_admit ::
  "bool \<Rightarrow> u64 \<Rightarrow> lc_request \<Rightarrow> bool \<Rightarrow> int \<Rightarrow> u64 \<Rightarrow> recording_control \<Rightarrow> (lrc_rc + u32 \<times> bool) \<times> recording_control" where
  "command_admit portable conn r usb ready now c =
    (if rc_fault c then (Inl LRC_REFUSED, c)
     else let (ok, c) = tick now c in
     if \<not> ok \<or> rc_submitting c \<or> (rc_connection c \<noteq> 0 \<and> rc_connection c \<noteq> conn) \<or> (rc_connection c = 0 \<and> conn \<le> rc_last_connection c)
     then (Inl LRC_REFUSED, c)
     else let c = (if rc_connection c = 0 then c\<lparr>rc_connection := conn, rc_last_connection := conn, rc_sequence := 0\<rparr> else c) in
     if rq_sequence r \<le> rc_sequence c then (Inl LRC_REFUSED, c)
     else let c = c\<lparr>rc_sequence := rq_sequence r\<rparr>;
              ticket = (if zero (rq_operation r) then rc_current c else find_operation c (rq_operation r)) in
     if rq_command r = LC_START \<and> local_namespace c (rq_operation r) then (Inl LRC_REFUSED, c)
     else if rq_command r = LC_START \<and> ticket = 0 then
       (if start_refused portable r usb ready now c then (Inl LRC_REFUSED, c)
        else let (t, c) = command_start portable r usb now c in (Inr t, c))
     else if ticket = 0 \<and> \<not> zero (rq_operation r) then (Inl LRC_REFUSED, c)
     else (Inr (ticket, False), command_stop portable r ticket usb c))"

text \<open>The second section, after the platform was asked to queue the start (\<open>queued\<close>: it refused); \<open>free\<close>: the gate
  was taken.\<close>

definition command_queued :: "bool \<Rightarrow> u32 \<Rightarrow> bool \<Rightarrow> bool \<Rightarrow> bool \<Rightarrow> recording_control \<Rightarrow> lrc_rc option \<times> recording_control" where
  "command_queued portable ticket usb queued free c =
    (if \<not> free then (Some (if queued then LRC_FAULT else LRC_BUSY), c\<lparr>rc_fault := rc_fault c \<or> queued, rc_submitting := False\<rparr>)
     else let c = c\<lparr>rc_submitting := False\<rparr>; s = rc_states c ! unat (ticket - 1) in
     if \<not> queued then (None, c)
     else if st_phase s \<noteq> LC_STARTING \<or> st_epoch s \<noteq> 0 then (Some LRC_FAULT, c\<lparr>rc_fault := True\<rparr>)
     else (None, c\<lparr>rc_states := (rc_states c)[unat (ticket - 1) := s\<lparr>st_phase := LC_FAULT, st_reason := 10,
            st_flags := LC_PROFILE_FLAGS portable OR LC_FAULT_LATCH OR usb_flag usb\<rparr>]\<rparr>))"

text \<open>The state that a reply reports.\<close>

definition reply_snapshot :: "recording_control \<Rightarrow> u32 \<Rightarrow> bool \<Rightarrow> lc_state" where
  "reply_snapshot c ticket usb =
    (let s = (if ticket \<noteq> 0 then the (state_at c ticket) else rc_idle c);
         s = (if ticket \<noteq> 0 \<and> lrc_stop_requested c ticket = 1 then s\<lparr>st_flags := st_flags s OR LC_STOP_REQUESTED\<rparr> else s)
     in s\<lparr>st_flags := st_flags s AND NOT LC_USB_PRESENT OR usb_flag usb\<rparr>)"

text \<open>\<open>sp\<close> is the address of the local variables \<open>request\<close> and \<open>snapshot\<close>.\<close>

definition encode_reply :: "bool \<Rightarrow> nat \<Rightarrow> lc_request \<Rightarrow> lc_state \<Rightarrow> bytes ptr \<Rightarrow> lrc_rc \<times> bytes ptr" where
  "encode_reply portable sp r s reply =
    (let (res, reply) = lc_encode_response portable reply 81 (Ptr sp r) (Ptr (sp + sizeof_lc_request) s)
     in (if res = LC_OK then LRC_OK else LRC_PENDING, reply))"

definition command_reply ::
  "bool \<Rightarrow> nat \<Rightarrow> u64 \<Rightarrow> lc_request \<Rightarrow> u32 \<Rightarrow> bool \<Rightarrow> u64 \<Rightarrow> bool \<Rightarrow> bytes ptr \<Rightarrow> recording_control \<Rightarrow> lrc_rc \<times> bytes ptr \<times> recording_control" where
  "command_reply portable sp conn r ticket usb now free reply c =
    (if \<not> free then (LRC_BUSY, reply, c)
     else if rc_fault c then (LRC_REFUSED, reply, c)
     else let (ok, c) = tick now c in
     if \<not> ok \<or> rc_connection c \<noteq> conn \<or> rc_sequence c \<noteq> rq_sequence r \<or> (ticket \<noteq> 0 \<and> state_at c ticket = None) then (LRC_REFUSED, reply, c)
     else let (rc, reply) = encode_reply portable sp r (reply_snapshot c ticket usb) reply in (rc, reply, c))"

text \<open>What the world does during one command: the callback results in the order of the calls, whether each \<open>enter\<close>
  succeeds, and the effect of the other actors while the gate is free.\<close>

record lrc_world =
  w_authorized :: bool
  w_usb :: int
  w_ready :: int
  w_free1 :: bool
  w_now1 :: u64
  w_queued :: bool
  w_other1 :: "recording_control \<Rightarrow> recording_control"
  w_free2 :: bool
  w_other2 :: "recording_control \<Rightarrow> recording_control"
  w_free3 :: bool
  w_now2 :: u64

definition lrc_parse :: "nat \<Rightarrow> nat \<Rightarrow> recording_control \<Rightarrow> bytes ptr \<Rightarrow> nat \<Rightarrow> lc_result \<times> lc_request ptr" where
  "lrc_parse ca sp c frame n =
    lc_parse_request frame n (Ptr (ca + 2416) (rc_binding c)) (Ptr (ca + 2348) (st_boot (rc_idle c))) (Ptr sp (lc_read_request (replicate 80 0)))"

definition outside :: "nat \<Rightarrow> 'a ptr \<Rightarrow> nat \<Rightarrow> bool" where
  "outside ca p n \<longleftrightarrow> p \<noteq> Null \<and> \<not> overlap ca sizeof_lrc (addr p) n"

definition lrc_command ::
  "bool \<Rightarrow> nat \<Rightarrow> nat \<Rightarrow> u64 \<Rightarrow> bytes ptr \<Rightarrow> nat \<Rightarrow> bytes ptr \<Rightarrow> lrc_world \<Rightarrow> recording_control \<Rightarrow> lrc_rc \<times> bytes ptr \<times> recording_control" where
  "lrc_command portable ca sp conn frame n reply w c =
    (if \<not> outside ca frame n \<or> \<not> outside ca reply 81 \<or> \<not> rc_initialized c \<or> conn = 0 then (LRC_ARGUMENT, reply, c)
     else case lrc_parse ca sp c frame n of (res, request) \<Rightarrow>
     if res \<noteq> LC_OK then (LRC_ARGUMENT, reply, c)
     else if \<not> w_authorized w \<or> (w_usb w \<noteq> 0 \<and> w_usb w \<noteq> 1) then (LRC_REFUSED, reply, c)
     else let r = pt request; usb = w_usb w = 1; ready = (if rq_command r = LC_START then w_ready w else 0) in
     if \<not> w_free1 w then (LRC_DEFERRED, reply, c)
     else case command_admit portable conn r usb ready (w_now1 w) c of
       (Inl rc, c) \<Rightarrow> (rc, reply, c)
     | (Inr (ticket, start), c) \<Rightarrow>
         (let (rc, c) = (if start then command_queued portable ticket usb (w_queued w) (w_free2 w) (w_other1 w c) else (None, c)) in
          case rc of Some rc \<Rightarrow> (rc, reply, c)
          | None \<Rightarrow> command_reply portable sp conn r ticket usb (w_now2 w) (w_free3 w) reply (w_other2 w c)))"

definition lrc_reply_allowed :: "u64 \<Rightarrow> u16 \<Rightarrow> bool \<Rightarrow> bool \<Rightarrow> u64 \<Rightarrow> recording_control \<Rightarrow> bool \<times> recording_control" where
  "lrc_reply_allowed conn seq authorized free now c =
    (if \<not> rc_initialized c \<or> conn = 0 \<or> seq = 0 \<or> \<not> authorized \<or> \<not> free \<or> rc_fault c then (False, c)
     else let (ok, c) = tick now c in (ok \<and> rc_connection c = conn \<and> rc_sequence c = seq, c))"

definition lrc_disconnected :: "u64 \<Rightarrow> bool \<Rightarrow> recording_control \<Rightarrow> lrc_rc \<times> recording_control" where
  "lrc_disconnected conn free c =
    (if \<not> rc_initialized c \<or> conn = 0 then (LRC_ARGUMENT, c)
     else if \<not> free then (LRC_BUSY, c)
     else if rc_connection c \<noteq> conn then
       (if conn \<le> rc_last_connection c then (LRC_REFUSED, c) else (LRC_OK, c\<lparr>rc_last_connection := conn\<rparr>))
     else (LRC_OK, c\<lparr>rc_connection := 0, rc_sequence := 0\<rparr>))"

definition lrc_pending_reply ::
  "bool \<Rightarrow> nat \<Rightarrow> nat \<Rightarrow> u64 \<Rightarrow> bytes ptr \<Rightarrow> nat \<Rightarrow> bytes ptr \<Rightarrow> bool \<Rightarrow> int \<Rightarrow> bool \<Rightarrow> u64 \<Rightarrow> recording_control \<Rightarrow>
   lrc_rc \<times> bytes ptr \<times> recording_control" where
  "lrc_pending_reply portable ca sp conn frame n reply authorized usb free now c =
    (if \<not> outside ca frame n \<or> \<not> outside ca reply 81 \<or> \<not> rc_initialized c then (LRC_ARGUMENT, reply, c)
     else case lrc_parse ca sp c frame n of (res, request) \<Rightarrow>
     if res \<noteq> LC_OK then (LRC_ARGUMENT, reply, c)
     else if \<not> authorized \<or> (usb \<noteq> 0 \<and> usb \<noteq> 1) then (LRC_REFUSED, reply, c)
     else if \<not> free then (LRC_BUSY, reply, c)
     else if rc_fault c then (LRC_REFUSED, reply, c)
     else let r = pt request; (ok, c) = tick now c in
     if \<not> ok \<or> rc_connection c \<noteq> conn \<or> rc_sequence c \<noteq> rq_sequence r then (LRC_REFUSED, reply, c)
     else if rc_submitting c then (LRC_BUSY, reply, c)
     else let ticket = (if zero (rq_operation r) then rc_current c else find_operation c (rq_operation r)) in
     if ticket = 0 \<and> \<not> zero (rq_operation r) then (LRC_REFUSED, reply, c)
     else let (rc, reply) = encode_reply portable sp r (reply_snapshot c ticket (usb = 1)) reply in (rc, reply, c))"

text \<open>\<open>ta\<close> is the address of the target inside the coordinator; both spans are only checked for their bounds.\<close>

definition lrc_publish :: "bool \<Rightarrow> nat \<Rightarrow> u32 \<Rightarrow> lc_state ptr \<Rightarrow> bool \<Rightarrow> nat \<Rightarrow> recording_control \<Rightarrow> lrc_rc \<times> recording_control" where
  "lrc_publish portable ca ticket s free ta c =
    (if \<not> outside ca s sizeof_lc_state \<or> \<not> rc_initialized c then (LRC_ARGUMENT, c)
     else if \<not> free then (LRC_BUSY, c)
     else case state_at c ticket of None \<Rightarrow> (LRC_REFUSED, c)
       | Some target \<Rightarrow>
         if rc_fault c \<or> ticket \<noteq> rc_current c then (LRC_REFUSED, c)
         else if lc_same_operation_progress portable (Ptr ta target) s \<noteq> LC_OK then (LRC_FAULT, c\<lparr>rc_fault := True\<rparr>)
         else (LRC_OK, put_state ticket (pt s) c))"

definition lrc_snapshot :: "nat \<Rightarrow> u32 \<Rightarrow> lc_state ptr \<Rightarrow> bool \<Rightarrow> recording_control \<Rightarrow> lrc_rc \<times> lc_state ptr" where
  "lrc_snapshot ca ticket out free c =
    (if \<not> outside ca out sizeof_lc_state \<or> \<not> rc_initialized c then (LRC_ARGUMENT, out)
     else if \<not> free then (LRC_BUSY, out)
     else if rc_fault c \<or> (ticket \<noteq> 0 \<and> state_at c ticket = None) then (LRC_REFUSED, out)
     else (LRC_OK, Ptr (addr out) (if ticket \<noteq> 0 then the (state_at c ticket) else rc_idle c)))"

text \<open>A successful claim keeps the gate; \<open>lrc_maintenance_release\<close> only gives it back.\<close>

definition lrc_maintenance_claim :: "bool \<Rightarrow> recording_control \<Rightarrow> bool" where
  "lrc_maintenance_claim free c \<longleftrightarrow> rc_initialized c \<and> free \<and> \<not> rc_fault c \<and> \<not> rc_submitting c \<and> rc_armed c = 0 \<and>
     \<not> (rc_current c \<noteq> 0 \<and> active_at c (rc_current c))"

definition lrc_set_standalone :: "int \<Rightarrow> bool \<Rightarrow> recording_control \<Rightarrow> lrc_rc \<times> recording_control" where
  "lrc_set_standalone enabled free c =
    (if \<not> rc_initialized c \<or> (enabled \<noteq> 0 \<and> enabled \<noteq> 1) \<or> \<not> free then (LRC_ARGUMENT, c)
     else if rc_fault c \<or> rc_submitting c \<or> rc_armed c \<noteq> 0 \<or> (rc_current c \<noteq> 0 \<and> active_at c (rc_current c)) then (LRC_REFUSED, c)
     else (LRC_OK, c\<lparr>rc_standalone := enabled = 1, rc_button := bg_zero, rc_button_local_ready := False\<rparr>))"

subsection \<open>The physical button\<close>

text \<open>The branches of \<open>lrc_button_sample\<close> on the event, with the ticket to start (0: none) and whether to wake.\<close>

definition button_start_armed :: "bool \<Rightarrow> bool \<Rightarrow> int \<Rightarrow> u64 \<Rightarrow> u32 \<Rightarrow> recording_control \<Rightarrow> u32 \<times> recording_control" where
  "button_start_armed portable usb ready t selected c =
    (if ready \<noteq> 1 \<or> (\<not> portable \<and> \<not> usb) \<or> t > UINT64_MAX - LRC_PREPARE_MS then (0, cancel_arm portable usb c)
     else let k = unat (selected - 1); s = rc_states c ! k in
       (selected, c\<lparr>rc_armed := 0, rc_armed_deadline := 0, rc_states := (rc_states c)[k := s\<lparr>st_flags := st_flags s AND NOT LC_BUTTON_ARMED\<rparr>],
          rc_submitting := True\<rparr>))"

definition button_start_local :: "bool \<Rightarrow> bool \<Rightarrow> recording_control \<Rightarrow> u32 \<times> recording_control" where
  "button_start_local portable usb c =
    (let n = rc_local_count c + 1; ticket = LRC_LOCAL_TICKET OR n;
         s = lc_state_zero\<lparr>st_boot := st_boot (rc_idle c), st_operation := local_operation (st_boot (rc_idle c)) n, st_phase := LC_STARTING,
               st_flags := LC_PROFILE_FLAGS portable OR usb_flag usb OR LC_PRODUCER_JOINED OR LC_STORAGE_JOINED\<rparr>
     in (ticket, c\<lparr>rc_local_count := n, rc_local := s, rc_local_stop := False, rc_local_ticket := ticket, rc_current := ticket, rc_submitting := True\<rparr>))"

definition button_single :: "bool \<Rightarrow> bool \<Rightarrow> bool \<Rightarrow> int \<Rightarrow> u64 \<Rightarrow> recording_control \<Rightarrow> u32 \<times> recording_control" where
  "button_single portable usb_here usb_any ready t c =
    (let selected = rc_button_ticket c; c = c\<lparr>rc_button_ticket := 0\<rparr>;
         (start, c) =
           (if selected \<noteq> 0 \<and> selected = rc_current c \<and> active_at c selected then
              (if rc_armed c = selected then button_start_armed portable usb_here ready t selected c else (0, stop_ticket selected c))
            else if selected = rc_current c \<and> rc_button_local_ready c \<and> rc_standalone c \<and> ready = 1 \<and> (portable \<or> usb_here) \<and>
                rc_local_count c < LRC_LOCAL_TICKET - 1 \<and> t \<le> UINT64_MAX - LRC_PREPARE_MS then button_start_local portable usb_any c
            else (0, c))
     in (start, c\<lparr>rc_button_local_ready := False\<rparr>))"

definition button_press :: "recording_control \<Rightarrow> recording_control" where
  "button_press c = c\<lparr>rc_button_ticket := rc_current c,
     rc_button_local_ready := rc_standalone c \<and> (rc_current c = 0 \<or> \<not> active_at c (rc_current c))\<rparr>"

text \<open>The first gated section of \<open>lrc_button_sample\<close>: an immediate result, or the ticket to queue (0: none).\<close>

definition button_section ::
  "bool \<Rightarrow> int \<Rightarrow> int \<Rightarrow> int \<Rightarrow> u64 \<Rightarrow> recording_control \<Rightarrow> (lrc_rc + u32) \<times> recording_control" where
  "button_section portable pressed usb ready now c =
    (if rc_fault c then (Inl LRC_REFUSED, c)
     else let (ok, c) = tick now c in
     if \<not> ok \<or> rc_submitting c then (Inl LRC_REFUSED, c)
     else let c = (if rc_armed c \<noteq> 0 \<and> ((\<not> portable \<and> usb \<noteq> 1) \<or> pressed < 0 \<or> now \<ge> rc_armed_deadline c) then cancel_arm portable (usb = 1) c else c);
              (e, g) = bg_sample (rc_button c) pressed now; c = c\<lparr>rc_button := g\<rparr> in
     if pressed \<noteq> 0 \<and> pressed \<noteq> 1 then (Inl LRC_REFUSED, c\<lparr>rc_button_local_ready := False\<rparr>)
     else case e of
       BG_NONE \<Rightarrow> (Inr 0, c)
     | BG_PRESS \<Rightarrow> (Inr 0, button_press c)
     | BG_FIVE \<Rightarrow> (Inl (if rc_button_local_ready c \<and> rc_button_ticket c = rc_current c \<and> rc_armed c = 0 \<and>
           (rc_current c = 0 \<or> \<not> active_at c (rc_current c)) then LRC_PAIRING_REQUEST else LRC_REFUSED), c\<lparr>rc_button_local_ready := False\<rparr>)
     | BG_SINGLE \<Rightarrow> (let (start, c) = button_single portable (usb = 1) (usb \<noteq> 0) ready now c in (Inr start, c)))"

text \<open>The second section.  The source stores through \<open>state_at\<close> without a test; while \<open>submitting\<close> is set no other section can
  replace the local slot, so the pointer is valid there, and the model leaves the record alone where it would be NULL.\<close>

definition button_queued :: "bool \<Rightarrow> u32 \<Rightarrow> int \<Rightarrow> bool \<Rightarrow> bool \<Rightarrow> recording_control \<Rightarrow> lrc_rc \<times> recording_control" where
  "button_queued portable start usb queued free c =
    (if \<not> free then (if queued then LRC_FAULT else LRC_BUSY, c\<lparr>rc_fault := rc_fault c \<or> queued, rc_submitting := False\<rparr>)
     else let c = c\<lparr>rc_submitting := False\<rparr> in
     if \<not> queued then (LRC_OK, c)
     else (LRC_REFUSED, case state_at c start of None \<Rightarrow> c | Some s \<Rightarrow> put_state start (s\<lparr>st_phase := LC_FAULT, st_reason := 10,
            st_flags := LC_PROFILE_FLAGS portable OR LC_FAULT_LATCH OR usb_flag (usb = 1)\<rparr>) c))"

definition lrc_button_sample ::
  "bool \<Rightarrow> int \<Rightarrow> int \<Rightarrow> int \<Rightarrow> bool \<Rightarrow> u64 \<Rightarrow> bool \<Rightarrow> (recording_control \<Rightarrow> recording_control) \<Rightarrow> bool \<Rightarrow> recording_control \<Rightarrow>
   lrc_rc \<times> recording_control" where
  "lrc_button_sample portable pressed usb ready free1 now queued other free2 c =
    (if \<not> rc_initialized c then (LRC_ARGUMENT, c)
     else if \<not> free1 then (LRC_BUSY, c)
     else case button_section portable pressed usb ready now c of
       (Inl rc, c) \<Rightarrow> (rc, c)
     | (Inr start, c) \<Rightarrow> if start = 0 then (LRC_OK, c) else button_queued portable start usb queued free2 (other c))"

section \<open>Interleavings\<close>

text \<open>One gated section of any operation, with any arguments.  Remote requests have passed \<open>lc_parse_request\<close>; the second
  section of a command or of a button start runs for a ticket that its first section returned.\<close>

inductive lrc_step :: "bool \<Rightarrow> recording_control \<Rightarrow> recording_control \<Rightarrow> bool" for portable :: bool where
  admit: "lc_request_valid r \<Longrightarrow> command_admit portable conn r usb ready now c = (x, c') \<Longrightarrow> lrc_step portable c c'"
| queued: "ticket \<noteq> 0 \<Longrightarrow> ticket \<le> rc_used c \<Longrightarrow> command_queued portable ticket usb q free c = (y, c') \<Longrightarrow> lrc_step portable c c'"
| reply: "command_reply portable sp conn r ticket usb now free out c = (z, out', c') \<Longrightarrow> lrc_step portable c c'"
| allowed: "lrc_reply_allowed conn seq auth free now c = (b, c') \<Longrightarrow> lrc_step portable c c'"
| disconnected: "lrc_disconnected conn free c = (z, c') \<Longrightarrow> lrc_step portable c c'"
| pending: "lrc_pending_reply portable ca sp conn frame n out auth u free now c = (z, out', c') \<Longrightarrow> lrc_step portable c c'"
| published: "lrc_publish portable ca ticket s free ta c = (z, c') \<Longrightarrow> lrc_step portable c c'"
| standalone: "lrc_set_standalone enabled free c = (z, c') \<Longrightarrow> lrc_step portable c c'"
| button: "button_section portable pressed u ready now c = (v, c') \<Longrightarrow> lrc_step portable c c'"
| button_queue: "button_queued portable ticket u q free c = (z, c') \<Longrightarrow> lrc_step portable c c'"

text \<open>The part of the record that the invariant reads.\<close>

definition lcore where
  "lcore c = (rc_stop c, rc_issued c, rc_states c, rc_idle c, rc_used c, rc_current c, rc_armed c, rc_local_ticket c, rc_local_count c,
     rc_local_stop c, st_operation (rc_local c))"

definition operations :: "recording_control \<Rightarrow> bytes list" where
  "operations c = map st_operation (take (unat (rc_used c)) (rc_states c))"

definition lrc_ok :: "recording_control \<Rightarrow> bool" where
  "lrc_ok c \<longleftrightarrow> length (rc_stop c) = 32 \<and> length (rc_states c) = 32 \<and> rc_used c \<le> 32 \<and> rc_issued c = rc_used c \<and> rc_armed c \<le> rc_used c \<and>
     (rc_current c = 0 \<or> state_at c (rc_current c) \<noteq> None) \<and>
     (if rc_local_count c = 0 then rc_local_ticket c = 0 else rc_local_ticket c = LRC_LOCAL_TICKET OR rc_local_count c) \<and>
     rc_local_count c < LRC_LOCAL_TICKET \<and>
     (rc_local_ticket c \<noteq> 0 \<longrightarrow> local_namespace c (st_operation (rc_local c))) \<and>
     distinct (operations c) \<and> (\<forall>p\<in>set (operations c). \<not> local_namespace c p)"

definition extends :: "recording_control \<Rightarrow> recording_control \<Rightarrow> bool" where
  "extends c d \<longleftrightarrow> rc_idle d = rc_idle c \<and> rc_used c \<le> rc_used d \<and> (\<forall>i<unat (rc_used c).
     st_operation (rc_states d ! i) = st_operation (rc_states c ! i) \<and> (rc_stop c ! i \<longrightarrow> rc_stop d ! i)) \<and>
     rc_local_count c \<le> rc_local_count d \<and> (rc_local_count d = rc_local_count c \<and> rc_local_stop c \<longrightarrow> rc_local_stop d)"

definition good :: "recording_control \<Rightarrow> recording_control \<Rightarrow> bool" where
  "good c d \<longleftrightarrow> lrc_ok d \<and> extends c d"

lemma state_at_core: "lcore d = lcore c \<Longrightarrow> (state_at d t = None) = (state_at c t = None)"
  by (simp add: state_at_def lcore_def)

lemma good_core: "lrc_ok c \<Longrightarrow> lcore d = lcore c \<Longrightarrow> good c d"
  using state_at_core [of d c "rc_current c"]
  by (simp add: good_def lrc_ok_def extends_def operations_def local_namespace_def lcore_def)

lemma extends_trans: "extends a b \<Longrightarrow> extends b c \<Longrightarrow> extends a c"
  using order.antisym [of "rc_local_count a" "rc_local_count b"] unfolding extends_def word_le_nat_alt by fastforce

lemma good_trans: "good a b \<Longrightarrow> good b c \<Longrightarrow> good a c"
  using extends_trans by (auto simp: good_def)

lemma good_refl: "lrc_ok c \<Longrightarrow> good c c"
  by (simp add: good_core)

text \<open>A change of one retained state that keeps its identity, and of its stop flag towards true.\<close>

lemma good_update:
  assumes ok: "lrc_ok c" and k: "k < 32" and op: "st_operation s = st_operation (rc_states c ! k)"
    and d: "rc_idle d = rc_idle c" "rc_used d = rc_used c" "rc_issued d = rc_issued c" "rc_armed d \<le> rc_used c" "rc_current d = rc_current c"
      "rc_local_ticket d = rc_local_ticket c" "rc_local_count d = rc_local_count c"
      "rc_states d = (rc_states c)[k := s]" "length (rc_stop d) = 32" "\<forall>i<32. rc_stop c ! i \<longrightarrow> rc_stop d ! i"
      "st_operation (rc_local d) = st_operation (rc_local c)" "rc_local_stop d = rc_local_stop c"
  shows "good c d"
proof -
  have n: "length (rc_states c) = 32" using ok by (simp add: lrc_ok_def)
  have "map st_operation (rc_states d) = map st_operation (rc_states c)"
    unfolding d(8) using n k op by (intro nth_equalityI) (auto simp: nth_list_update)
  then have o: "operations d = operations c" by (simp add: operations_def d(2) flip: take_map)
  have "(state_at d t = None) = (state_at c t = None)" for t by (simp add: state_at_def d(2,6))
  moreover have "local_namespace d = local_namespace c" by (simp add: local_namespace_def fun_eq_iff d(1))
  moreover have "st_operation (rc_states d ! i) = st_operation (rc_states c ! i)" if "i < 32" for i
    using that n k op by (simp add: d(8) nth_list_update)
  ultimately show ?thesis
    using ok d(1-7,9-12) o n unfolding good_def lrc_ok_def extends_def d(8) by (auto simp: word_le_nat_alt)
qed

lemma tick_core: "tick t c = (b, d) \<Longrightarrow> lcore d = lcore c \<and> rc_idle d = rc_idle c"
  by (auto simp: tick_def lcore_def split: if_split_asm)

lemma ticket_index:
  assumes "lrc_ok c" and "t \<noteq> 0" and "t \<le> rc_used c"
  shows "unat (t - 1) < unat (rc_used c)" "unat (t - 1) < 32"
proof -
  have "unat (t - 1) = unat t - 1" using assms(2) by (simp add: unat_minus_one)
  moreover have "0 < unat t" using assms(2) by (simp add: unat_gt_0)
  ultimately show "unat (t - 1) < unat (rc_used c)" "unat (t - 1) < 32"
    using assms(1,3) by (auto simp: lrc_ok_def word_le_nat_alt)
qed

lemma set_flag_mono: "xs ! i \<Longrightarrow> i < length xs \<Longrightarrow> xs[k := True] ! i"
  by (cases "k = i") simp_all

lemma good_stop_ticket: "lrc_ok c \<Longrightarrow> good c (stop_ticket t c)"
proof -
  assume ok: "lrc_ok c"
  show ?thesis
  proof (cases "\<not> is_local t \<and> t \<noteq> 0 \<and> t \<le> rc_used c")
    case True
    have n: "length (rc_stop c) = 32" using ok by (simp add: lrc_ok_def)
    show ?thesis
      using True ok n by (intro good_update [OF ok ticket_index(2) [OF ok], of t "rc_states c ! unat (t - 1)"])
        (auto simp: stop_ticket_def set_flag_mono lrc_ok_def)
  next
    case False
    then have "stop_ticket t c = c \<or> stop_ticket t c = c\<lparr>rc_local_stop := True\<rparr>" unfolding stop_ticket_def by auto
    moreover have "state_at (c\<lparr>rc_local_stop := True\<rparr>) = state_at c" by (simp add: fun_eq_iff state_at_def)
    then have "good c (c\<lparr>rc_local_stop := True\<rparr>)"
      using ok by (simp add: good_def lrc_ok_def extends_def operations_def local_namespace_def)
    ultimately show ?thesis using good_refl [OF ok] by metis
  qed
qed

lemma good_put_state:
  assumes ok: "lrc_ok c" and s: "state_at c t = Some old" "st_operation s = st_operation old"
  shows "good c (put_state t s c)"
proof (cases "is_local t")
  case True
  then show ?thesis using s by (intro good_core [OF ok]) (auto simp: put_state_def lcore_def state_at_def split: if_split_asm)
next
  case False
  then have t: "t \<noteq> 0" "t \<le> rc_used c" "old = rc_states c ! unat (t - 1)" using s(1) by (auto simp: state_at_def split: if_split_asm)
  show ?thesis
    using False t s ok by (intro good_update [OF ok ticket_index(2) [OF ok t(1,2)], of s]) (auto simp: put_state_def lrc_ok_def)
qed

lemma good_cancel_arm: "lrc_ok c \<Longrightarrow> rc_armed c \<noteq> 0 \<Longrightarrow> good c (cancel_arm portable usb c)"
proof -
  assume ok: "lrc_ok c" and a: "rc_armed c \<noteq> 0"
  have le: "rc_armed c \<le> rc_used c" "length (rc_stop c) = 32" using ok by (simp_all add: lrc_ok_def)
  show ?thesis
    unfolding cancel_arm_def Let_def
    by (rule good_update [OF ok ticket_index(2) [OF ok a le(1)]]) (use le in \<open>auto simp: set_flag_mono\<close>)
qed

lemma find_from_zero:
  "i + length ss < 2 ^ 32 \<Longrightarrow> find_from i ss p = 0 \<longleftrightarrow> p \<notin> st_operation ` set ss"
proof (induction ss arbitrary: i)
  case (Cons s ss)
  have "unat (of_nat i + 1 :: u32) = i + 1" using Cons.prems by (simp add: unat_word_ariths unsigned_of_nat take_bit_nat_eq_self)
  then have "(of_nat i + 1 :: u32) \<noteq> 0" by (metis add_is_0 one_neq_zero unsigned_0)
  then show ?case using Cons by auto
qed simp

lemma is_local_bit: "is_local t \<longleftrightarrow> bit t 31"
proof -
  have "(0x80000000 :: u32) = push_bit 31 1" by simp
  then show ?thesis by (simp only: is_local_def bit_iff_and_push_bit_not_eq_0)
qed

lemma small_not_local: "unat t \<le> 32 \<Longrightarrow> \<not> is_local t"
proof -
  assume t: "unat t \<le> 32"
  have "is_local t \<longleftrightarrow> bit (unat t) 31" by (simp add: is_local_bit bit_unsigned_iff)
  then show ?thesis using t by (simp add: bit_iff_odd)
qed

lemma local_is_local: "is_local (LRC_LOCAL_TICKET OR n)"
proof -
  have "bit (0x80000000 :: u32) 31" by (simp add: bit_iff_odd)
  then show ?thesis unfolding is_local_bit bit_or_iff by blast
qed

lemma lrc_lengths: "lrc_ok c \<Longrightarrow> length (rc_states c) = 32 \<and> length (rc_stop c) = 32 \<and> unat (rc_used c) \<le> 32"
  by (simp add: lrc_ok_def word_le_nat_alt)

lemma find_operation_zero:
  assumes "lrc_ok c" and "find_operation c p = 0"
  shows "p \<notin> set (operations c)"
proof -
  have l: "length (take (unat (rc_used c)) (rc_states c)) < 2 ^ 32" using lrc_lengths [OF assms(1)] by simp
  have "find_from 0 (take (unat (rc_used c)) (rc_states c)) p = 0" using assms(2) by (auto simp: find_operation_def split: if_split_asm)
  then show ?thesis using find_from_zero [of 0 "take (unat (rc_used c)) (rc_states c)" p] l by (simp add: operations_def)
qed

lemma good_start:
  assumes ok: "lrc_ok c" and new: "rq_operation r \<notin> set (operations c)" "\<not> local_namespace c (rq_operation r)" and room: "rc_used c \<noteq> 32"
    and d: "command_start portable r usb now c = (t, d)"
  shows "good c d"
proof -
  note l = lrc_lengths [OF ok]
  let ?n = "unat (rc_used c)"
  have n: "?n < 32" using l room by (auto simp: word_unat_eq_iff order_less_le)
  then have u: "unat (rc_used c + 1) = ?n + 1" by (simp add: unat_word_ariths)
  define s where "s = rc_states d ! ?n"
  have k: "unat (rc_used c + 1 - 1) = ?n" by simp
  have dd: "rc_states d = (rc_states c)[?n := s]" "st_operation s = rq_operation r" "rc_stop d = (rc_stop c)[?n := False]"
      "rc_used d = rc_used c + 1" "rc_current d = rc_used c + 1" "rc_issued d = rc_used c + 1" "rc_idle d = rc_idle c"
      "rc_local_ticket d = rc_local_ticket c" "rc_local_count d = rc_local_count c" "rc_armed d = rc_armed c \<or> rc_armed d = rc_used c + 1"
      "rc_local d = rc_local c" "rc_local_stop d = rc_local_stop c"
    using d l n unfolding s_def command_start_def Let_def k by (auto split: if_split_asm)
  have ops: "operations d = operations c @ [rq_operation r]"
    using l n u by (simp add: operations_def dd(1,2,4) take_Suc_conv_app_nth take_update_cancel)
  have "state_at d (rc_used c + 1) \<noteq> None"
    using small_not_local [of "rc_used c + 1"] n u by (simp add: state_at_def dd(4)) (metis Suc_eq_plus1 nat.distinct(1) unsigned_0)
  moreover have "rc_armed d \<le> rc_used c + 1" using dd(10) ok u by (auto simp: lrc_ok_def word_le_nat_alt)
  moreover have "local_namespace d = local_namespace c" by (simp add: local_namespace_def fun_eq_iff dd(7))
  moreover have "st_operation (rc_states d ! i) = st_operation (rc_states c ! i) \<and> (rc_stop c ! i \<longrightarrow> rc_stop d ! i)" if "i < ?n" for i
    using that by (simp add: dd(1,3))
  ultimately show ?thesis
    using ok new n u l unfolding good_def lrc_ok_def extends_def ops dd(4-9,11,12) by (auto simp: dd(1,3) word_le_nat_alt)
qed

lemma local_prefix: "part 0 12 (local_operation boot n) = part 0 12 (local_operation boot 0)"
  unfolding local_operation_def Let_def by (simp add: part_blit_before)

lemma button_start_local_fields:
  fixes portable usb c
  defines "d \<equiv> snd (button_start_local portable usb c)"
  shows "rc_stop d = rc_stop c" "rc_issued d = rc_issued c" "rc_states d = rc_states c" "rc_idle d = rc_idle c" "rc_used d = rc_used c"
    "rc_armed d = rc_armed c" "rc_current d = rc_local_ticket d" "rc_local_count d = rc_local_count c + 1"
    "rc_local_ticket d = LRC_LOCAL_TICKET OR (rc_local_count c + 1)"
    "st_operation (rc_local d) = local_operation (st_boot (rc_idle c)) (rc_local_count c + 1)"
  by (simp_all add: d_def button_start_local_def Let_def)

lemma good_local:
  assumes ok: "lrc_ok c" and "rc_local_count c < LRC_LOCAL_TICKET - 1"
  shows "good c (snd (button_start_local portable usb c))"
proof -
  have "unat (rc_local_count c) < 0x7fffffff" using assms(2) by (simp add: word_less_nat_alt)
  then have "unat (rc_local_count c + 1) = unat (rc_local_count c) + 1" by (simp add: unat_word_ariths)
  moreover from this have "rc_local_count c + 1 \<noteq> 0" by (metis Suc_eq_plus1 nat.distinct(1) unsigned_0)
  moreover from \<open>unat (rc_local_count c) < 0x7fffffff\<close> calculation
  have "rc_local_count c + 1 < LRC_LOCAL_TICKET" "rc_local_count c \<le> rc_local_count c + 1" by (simp_all add: word_less_nat_alt word_le_nat_alt)
  ultimately show ?thesis
    using ok local_is_local [of "rc_local_count c + 1"] local_prefix [of "st_boot (rc_idle c)" "rc_local_count c + 1"]
    by (simp add: good_def lrc_ok_def extends_def button_start_local_fields state_at_def operations_def local_namespace_def)
qed

lemma good_command_stop: "lrc_ok c \<Longrightarrow> good c (command_stop portable r t usb c)"
proof -
  assume ok: "lrc_ok c"
  define d where "d = (if rq_command r = LC_STOP \<and> t \<noteq> 0 \<and> active_at c t then stop_ticket t c else c)"
  have d: "good c d" using good_stop_ticket [OF ok] good_refl [OF ok] by (simp add: d_def)
  then have "lrc_ok d" by (simp add: good_def)
  then have "good d (if rq_command r = LC_STOP \<and> t \<noteq> 0 \<and> rc_armed d = t then cancel_arm portable usb d else d)"
    using good_cancel_arm [of d] good_refl [of d] by auto
  then show ?thesis unfolding command_stop_def Let_def d_def [symmetric] by (rule good_trans [OF d])
qed

lemma good_queued:
  assumes ok: "lrc_ok c" and t: "t \<noteq> 0" "t \<le> rc_used c" and d: "command_queued portable t usb q free c = (y, d)"
  shows "good c d"
proof (cases "free \<and> q \<and> st_phase (rc_states c ! unat (t - 1)) = LC_STARTING \<and> st_epoch (rc_states c ! unat (t - 1)) = 0")
  case True
  define s where "s = (rc_states c ! unat (t - 1))\<lparr>st_phase := LC_FAULT, st_reason := 10,
    st_flags := LC_PROFILE_FLAGS portable OR LC_FAULT_LATCH OR usb_flag usb\<rparr>"
  have "d = c\<lparr>rc_submitting := False, rc_states := (rc_states c)[unat (t - 1) := s]\<rparr>" using d True by (simp add: command_queued_def s_def)
  then show ?thesis
    using ok by (intro good_update [OF ok ticket_index(2) [OF ok t], of s]) (simp_all add: s_def lrc_ok_def)
next
  case False
  then show ?thesis using d by (intro good_core [OF ok]) (auto simp: command_queued_def Let_def lcore_def split: if_split_asm)
qed

lemma reply_core: "command_reply portable sp conn r t usb now free out c = (z, out', d) \<Longrightarrow> lcore d = lcore c"
  using tick_core [of now c] by (auto simp: command_reply_def Let_def split: if_split_asm prod.splits option.splits)

lemma allowed_core: "lrc_reply_allowed conn seq auth free now c = (b, d) \<Longrightarrow> lcore d = lcore c"
  using tick_core [of now c] by (auto simp: lrc_reply_allowed_def split: if_split_asm prod.splits)

lemma disconnected_core: "lrc_disconnected conn free c = (z, d) \<Longrightarrow> lcore d = lcore c"
  by (auto simp: lrc_disconnected_def lcore_def split: if_split_asm)

lemma pending_core: "lrc_pending_reply portable ca sp conn frame n out auth u free now c = (z, out', d) \<Longrightarrow> lcore d = lcore c"
  using tick_core [of now c] by (auto simp: lrc_pending_reply_def Let_def split: if_split_asm prod.splits)

lemma standalone_core: "lrc_set_standalone enabled free c = (z, d) \<Longrightarrow> lcore d = lcore c"
  by (auto simp: lrc_set_standalone_def lcore_def split: if_split_asm)

lemma progress_operation: "lc_same_operation_progress portable (Ptr x a) s = LC_OK \<Longrightarrow> st_operation (pt s) = st_operation a"
  by (auto simp: lc_same_operation_progress_def lc_progress_bad_def split: if_split_asm)

lemma good_publish: "lrc_ok c \<Longrightarrow> lrc_publish portable ca t s free ta c = (z, d) \<Longrightarrow> good c d"
proof -
  assume ok: "lrc_ok c" and d: "lrc_publish portable ca t s free ta c = (z, d)"
  consider "d = c" | "d = c\<lparr>rc_fault := True\<rparr>"
    | old where "state_at c t = Some old" "lc_same_operation_progress portable (Ptr ta old) s = LC_OK" "d = put_state t (pt s) c"
  proof (cases "state_at c t")
    case None then show ?thesis using d that(1) by (simp add: lrc_publish_def split: if_split_asm)
  next
    case (Some old) then show ?thesis using d that unfolding lrc_publish_def by (simp split: if_split_asm)
  qed
  then show ?thesis
  proof cases
    case 1 then show ?thesis using good_refl [OF ok] by simp
  next
    case 2 then show ?thesis by (intro good_core [OF ok]) (simp add: lcore_def)
  next
    case 3 then show ?thesis using good_put_state [OF ok 3(1) progress_operation [OF 3(2)]] by simp
  qed
qed

text \<open>What the first section of a command does after the admission checks.\<close>

lemma admit_cases:
  assumes "command_admit portable conn r usb ready now c = (x, d)"
  obtains (plain) "lcore d = lcore c" "x = Inl LRC_REFUSED"
  | (start) b v where "lcore b = lcore c" "rq_command r = LC_START" "\<not> local_namespace b (rq_operation r)"
      "(if zero (rq_operation r) then rc_current b else find_operation b (rq_operation r)) = 0"
      "rc_used b \<noteq> 32" "command_start portable r usb now b = (v, d)" "x = Inr v" "rc_local b = rc_local c"
  | (stop) b t where "lcore b = lcore c" "d = command_stop portable r t usb b" "x = Inr (t, False)"
      "t = (if zero (rq_operation r) then rc_current b else find_operation b (rq_operation r))" "t \<noteq> 0 \<or> zero (rq_operation r)"
      "rq_command r = LC_START \<longrightarrow> \<not> local_namespace b (rq_operation r)"
proof -
  obtain ok c1 where t: "tick now c = (ok, c1)" by fastforce
  define c2 where "c2 = (if rc_connection c1 = 0 then c1\<lparr>rc_connection := conn, rc_last_connection := conn, rc_sequence := 0\<rparr> else c1)"
  define c3 where "c3 = c2\<lparr>rc_sequence := rq_sequence r\<rparr>"
  have l1: "lcore c1 = lcore c" "rc_local c1 = rc_local c" using tick_core [OF t] t by (auto simp: tick_def split: if_split_asm)
  have l2: "lcore c2 = lcore c" "rc_local c2 = rc_local c" using l1 by (simp_all add: c2_def lcore_def)
  have l3: "lcore c3 = lcore c" "rc_local c3 = rc_local c" using l2 by (simp_all add: c3_def lcore_def)
  note a = assms [unfolded command_admit_def t Let_def prod.case c2_def [symmetric] c3_def [symmetric]]
  let ?busy = "\<not> ok \<or> rc_submitting c1 \<or> (rc_connection c1 \<noteq> 0 \<and> rc_connection c1 \<noteq> conn) \<or>
      (rc_connection c1 = 0 \<and> conn \<le> rc_last_connection c1)"
  consider (1) "rc_fault c" | (2) "\<not> rc_fault c" "?busy" | (3) "\<not> rc_fault c" "\<not> ?busy" "rq_sequence r \<le> rc_sequence c2"
    | (4) "\<not> rc_fault c" "\<not> ?busy" "\<not> rq_sequence r \<le> rc_sequence c2" by blast
  then show ?thesis
  proof cases
    case 1
    then show ?thesis using a plain by auto
  next
    case 2
    then have "x = Inl LRC_REFUSED" "d = c1" using a by (simp_all add: if_P [OF 2(2)])
    then show ?thesis using plain l1 by simp
  next
    case 3
    then have "x = Inl LRC_REFUSED" "d = c2" using a unfolding if_not_P [OF 3(2)] by simp_all
    then show ?thesis using plain l2 by simp
  next
    case 4
    let ?t = "if zero (rq_operation r) then rc_current c3 else find_operation c3 (rq_operation r)"
    have a': "(if rq_command r = LC_START \<and> local_namespace c3 (rq_operation r) then (Inl LRC_REFUSED, c3)
      else if rq_command r = LC_START \<and> ?t = 0 then
       (if start_refused portable r usb ready now c3 then (Inl LRC_REFUSED, c3)
        else (case command_start portable r usb now c3 of (t, c) \<Rightarrow> (Inr t, c)))
      else if ?t = 0 \<and> \<not> zero (rq_operation r) then (Inl LRC_REFUSED, c3)
      else (Inr (?t, False), command_stop portable r ?t usb c3)) = (x, d)" using a 4(1,3) unfolding if_not_P [OF 4(2)] by simp
    consider "d = c3" "x = Inl LRC_REFUSED" | "rq_command r = LC_START" "\<not> local_namespace c3 (rq_operation r)" "?t = 0"
        "\<not> start_refused portable r usb ready now c3"
      | "d = command_stop portable r ?t usb c3" "x = Inr (?t, False)" "?t \<noteq> 0 \<or> zero (rq_operation r)"
        "rq_command r = LC_START \<longrightarrow> \<not> local_namespace c3 (rq_operation r)"
      using a' by (simp split del: if_split split: if_split_asm)
    then show ?thesis
    proof cases
      case 1 then show ?thesis using plain l3 by auto
    next
      case 2
      obtain v e where e: "command_start portable r usb now c3 = (v, e)" by fastforce
      have "x = Inr v" "d = e" using a' 2 e by simp_all
      moreover have "rc_used c3 \<noteq> 32" using 2(4) by (auto simp: start_refused_def)
      ultimately show ?thesis using start [OF l3(1) 2(1-3)] e l3 by simp
    next
      case 3 then show ?thesis using stop [OF l3(1) 3(1,2) refl 3(3,4)] by blast
    qed
  qed
qed

lemma core_fields:
  "lcore d = lcore c \<Longrightarrow> operations d = operations c \<and> local_namespace d = local_namespace c \<and> rc_used d = rc_used c"
  by (simp add: operations_def lcore_def local_namespace_def fun_eq_iff)

lemma start_named: "lc_request_valid r \<Longrightarrow> rq_command r = LC_START \<Longrightarrow> \<not> zero (rq_operation r)"
  by (auto simp: lc_request_valid_def identity_def all_eq_iff zero_iff split: if_split_asm)

lemma good_admit: "lrc_ok c \<Longrightarrow> lc_request_valid r \<Longrightarrow> command_admit portable conn r usb ready now c = (x, d) \<Longrightarrow> good c d"
proof -
  assume ok: "lrc_ok c" and r: "lc_request_valid r" and d: "command_admit portable conn r usb ready now c = (x, d)"
  from d show ?thesis
  proof (cases rule: admit_cases)
    case plain then show ?thesis using good_core [OF ok] by blast
  next
    case (start b v)
    have b: "good c b" "lrc_ok b" using good_core [OF ok start(1)] by (simp_all add: good_def)
    have "find_operation b (rq_operation r) = 0" using start(4) start_named [OF r start(2)] by simp
    then show ?thesis using good_trans [OF b(1) good_start [OF b(2) find_operation_zero [OF b(2)] start(3) start(5) start(6)]] by simp
  next
    case (stop b t)
    have b: "good c b" "lrc_ok b" using good_core [OF ok stop(1)] by (simp_all add: good_def)
    show ?thesis using good_trans [OF b(1) good_command_stop [OF b(2)]] stop(2) by simp
  qed
qed

lemma good_start_armed:
  assumes ok: "lrc_ok c" and a: "rc_armed c \<noteq> 0"
  shows "good c (snd (button_start_armed portable usb ready t (rc_armed c) c))"
proof (cases "ready \<noteq> 1 \<or> (\<not> portable \<and> \<not> usb) \<or> t > UINT64_MAX - LRC_PREPARE_MS")
  case True
  then show ?thesis using good_cancel_arm [OF ok a] by (simp add: button_start_armed_def if_P [OF True])
next
  case False
  have le: "rc_armed c \<le> rc_used c" using ok by (simp add: lrc_ok_def)
  show ?thesis
    unfolding button_start_armed_def if_not_P [OF False] Let_def
    by (rule good_update [OF ok ticket_index(2) [OF ok a le]]) (use ok in \<open>auto simp: lrc_ok_def\<close>)
qed

lemma good_single: "lrc_ok c \<Longrightarrow> button_single portable u v ready t c = (z, d) \<Longrightarrow> good c d"
proof -
  assume ok: "lrc_ok c" and d: "button_single portable u v ready t c = (z, d)"
  define b where "b = c\<lparr>rc_button_ticket := 0\<rparr>"
  have b: "good c b" "lrc_ok b" using good_core [OF ok, of b] by (simp_all add: good_def b_def lcore_def)
  define q where "q =
           (if rc_button_ticket c \<noteq> 0 \<and> rc_button_ticket c = rc_current b \<and> active_at b (rc_button_ticket c) then
              (if rc_armed b = rc_button_ticket c then button_start_armed portable u ready t (rc_button_ticket c) b else (0, stop_ticket (rc_button_ticket c) b))
            else if rc_button_ticket c = rc_current b \<and> rc_button_local_ready b \<and> rc_standalone b \<and> ready = 1 \<and> (portable \<or> u) \<and>
                rc_local_count b < LRC_LOCAL_TICKET - 1 \<and> t \<le> UINT64_MAX - LRC_PREPARE_MS then button_start_local portable v b
            else (0, b))"
  have "good b (snd q)"
    using good_start_armed [OF b(2)] good_stop_ticket [OF b(2)] good_local [OF b(2)] good_refl [OF b(2)] unfolding q_def by auto
  moreover from this have "lrc_ok (snd q)" by (simp add: good_def)
  moreover have "d = (snd q)\<lparr>rc_button_local_ready := False\<rparr>"
    using d unfolding button_single_def Let_def b_def [symmetric] q_def [symmetric] by (simp split: prod.splits)
  ultimately have "good b d" using good_trans good_core [of "snd q" d] by (auto simp: lcore_def)
  then show ?thesis by (rule good_trans [OF b(1)])
qed

lemma good_button_queued: "lrc_ok c \<Longrightarrow> button_queued portable t u q free c = (z, d) \<Longrightarrow> good c d"
proof -
  assume ok: "lrc_ok c" and d: "button_queued portable t u q free c = (z, d)"
  define b where "b = c\<lparr>rc_submitting := False\<rparr>"
  have b: "good c b" "lrc_ok b" using good_core [OF ok, of b] by (simp_all add: good_def b_def lcore_def)
  let ?fault = "\<lambda>s. s\<lparr>st_phase := LC_FAULT, st_reason := 10, st_flags := LC_PROFILE_FLAGS portable OR LC_FAULT_LATCH OR usb_flag (u = 1)\<rparr>"
  consider "lcore d = lcore c" | s s' where "state_at b t = Some s" "st_operation s' = st_operation s" "d = put_state t s' b"
  proof (cases "free \<and> q \<and> state_at b t \<noteq> None")
    case True
    then obtain s where s: "state_at b t = Some s" by blast
    show ?thesis using d True s by (intro that(2) [OF s, of "?fault s"]) (simp_all add: button_queued_def Let_def b_def)
  next
    case False
    then show ?thesis using d by (intro that(1)) (auto simp: button_queued_def Let_def b_def lcore_def split: if_split_asm)
  qed
  then show ?thesis
  proof cases
    case 1 then show ?thesis by (rule good_core [OF ok])
  next
    case 2 then show ?thesis using good_trans [OF b(1) good_put_state [OF b(2) 2(1,2)]] by simp
  qed
qed

lemma good_button: "lrc_ok c \<Longrightarrow> button_section portable pressed u ready now c = (x, d) \<Longrightarrow> good c d"
proof -
  assume ok: "lrc_ok c" and d: "button_section portable pressed u ready now c = (x, d)"
  obtain b1 c1 where t: "tick now c = (b1, c1)" by fastforce
  define c2 where "c2 = (if rc_armed c1 \<noteq> 0 \<and> ((\<not> portable \<and> u \<noteq> 1) \<or> pressed < 0 \<or> now \<ge> rc_armed_deadline c1)
    then cancel_arm portable (u = 1) c1 else c1)"
  obtain e g where g: "bg_sample (rc_button c2) pressed now = (e, g)" by fastforce
  define c3 where "c3 = c2\<lparr>rc_button := g\<rparr>"
  have c1: "good c c1" "lrc_ok c1" using good_core [OF ok, of c1] tick_core [OF t] by (simp_all add: good_def)
  have c2: "good c c2" "lrc_ok c2"
    using good_trans [OF c1(1) good_cancel_arm [OF c1(2)]] c1 unfolding c2_def by (auto simp: good_def)
  have c3: "good c c3" "lrc_ok c3" using good_trans [OF c2(1) good_core [OF c2(2), of c3]] by (simp_all add: c3_def lcore_def good_def)
  note a = d [unfolded button_section_def t Let_def prod.case c2_def [symmetric] g c3_def [symmetric]]
  have keep: "good c d" if "lcore d = lcore c3" using good_trans [OF c3(1) good_core [OF c3(2) that]] .
  consider (1) "rc_fault c \<or> \<not> b1 \<or> rc_submitting c1" | (2) "lcore d = lcore c3"
    | (3) z where "button_single portable (u = 1) (u \<noteq> 0) ready now c3 = (z, d)"
    using a by (cases e) (auto simp: lcore_def button_press_def split: if_split_asm prod.splits)
  then show ?thesis
  proof cases
    case 1 then show ?thesis using a c1(1) good_refl [OF ok] by (auto split: if_split_asm)
  next
    case 2 then show ?thesis by (rule keep)
  next
    case 3 then show ?thesis using good_trans [OF c3(1) good_single [OF c3(2)]] by blast
  qed
qed

lemma lrc_step_good: "lrc_step portable c d \<Longrightarrow> lrc_ok c \<Longrightarrow> good c d"
proof (induction rule: lrc_step.induct)
  case admit then show ?case by (blast intro: good_admit)
next
  case queued then show ?case by (blast intro: good_queued)
next
  case reply then show ?case by (blast intro: good_core reply_core)
next
  case allowed then show ?case by (blast intro: good_core allowed_core)
next
  case disconnected then show ?case by (blast intro: good_core disconnected_core)
next
  case pending then show ?case by (blast intro: good_core pending_core)
next
  case published then show ?case by (blast intro: good_publish)
next
  case standalone then show ?case by (blast intro: good_core standalone_core)
next
  case button then show ?case by (blast intro: good_button)
next
  case button_queue then show ?case by (blast intro: good_button_queued)
qed

lemma lrc_steps_good: "(lrc_step portable)\<^sup>*\<^sup>* c d \<Longrightarrow> lrc_ok c \<Longrightarrow> good c d"
proof (induction rule: rtranclp_induct)
  case base then show ?case by (rule good_refl)
next
  case (step b d)
  then have b: "good c b" by blast
  then have "lrc_ok b" by (simp add: good_def)
  then show ?case using good_trans [OF b lrc_step_good [OF step(2)]] by blast
qed

section \<open>Complete operations\<close>

lemma find_from_some:
  "find_from i ss p \<noteq> 0 \<Longrightarrow> \<exists>k<length ss. st_operation (ss ! k) = p \<and> find_from i ss p = of_nat (i + k) + 1"
proof (induction ss arbitrary: i)
  case (Cons s ss)
  show ?case
  proof (cases "st_operation s = p")
    case False
    then obtain k where "k < length ss" "st_operation (ss ! k) = p" "find_from (Suc i) ss p = of_nat (Suc i + k) + 1"
      using Cons.IH [of "Suc i"] Cons.prems by auto
    then show ?thesis using False by (intro exI [of _ "Suc k"]) simp
  qed (auto intro: exI [of _ 0])
qed simp

lemma find_remote:
  assumes ok: "lrc_ok c" and p: "\<not> local_namespace c p" and t: "find_operation c p = t" "t \<noteq> 0"
  shows "t \<le> rc_used c \<and> st_operation (rc_states c ! unat (t - 1)) = p"
proof -
  note l = lrc_lengths [OF ok]
  have "find_operation c p = find_from 0 (take (unat (rc_used c)) (rc_states c)) p"
    using ok p by (auto simp: find_operation_def lrc_ok_def)
  then obtain k where k: "k < unat (rc_used c)" "st_operation (rc_states c ! k) = p" "t = of_nat k + 1"
    using find_from_some [of 0 "take (unat (rc_used c)) (rc_states c)" p] t l by auto
  have "unat (of_nat k :: u32) = k" using k(1) l by (simp add: unsigned_of_nat take_bit_nat_eq_self)
  then show ?thesis using k l by (simp add: word_le_nat_alt unat_word_ariths)
qed

lemma find_known:
  assumes ok: "lrc_ok c" and t: "t \<noteq> 0" "t \<le> rc_used c"
  shows "find_operation c (st_operation (rc_states c ! unat (t - 1))) = t"
proof -
  note l = lrc_lengths [OF ok] and i = ticket_index [OF ok t]
  let ?p = "st_operation (rc_states c ! unat (t - 1))" and ?u = "find_operation c (st_operation (rc_states c ! unat (t - 1)))"
  have nth: "operations c ! j = st_operation (rc_states c ! j)" if "j < unat (rc_used c)" for j using that l by (simp add: operations_def)
  have len: "length (operations c) = unat (rc_used c)" using l by (simp add: operations_def)
  then have mem: "?p \<in> set (operations c)" using i(1) nth [OF i(1)] by (metis nth_mem)
  then have loc: "\<not> local_namespace c ?p" using ok by (simp add: lrc_ok_def)
  have u: "?u \<noteq> 0" using find_operation_zero [OF ok] mem by blast
  note f = find_remote [OF ok loc refl u]
  note j = ticket_index [OF ok u conjunct1 [OF f]]
  have "distinct (operations c)" using ok by (simp add: lrc_ok_def)
  then have "unat (?u - 1) = unat (t - 1)"
    using nth_eq_iff_index_eq [of "operations c" "unat (?u - 1)" "unat (t - 1)"] nth [OF i(1)] nth [OF j(1)] len i(1) j(1) f by simp
  then have "?u - 1 = t - 1" by (simp add: word_unat_eq_iff)
  then show ?thesis by simp
qed

lemma admit_known:
  assumes ok: "lrc_ok c" and r: "lc_request_valid r" "rq_command r = LC_START" and d: "command_admit portable conn r usb ready now c = (Inr (t, s), d)"
  shows "t \<noteq> 0 \<and> t \<le> rc_used d \<and> st_operation (rc_states d ! unat (t - 1)) = rq_operation r"
  using d
proof (cases rule: admit_cases)
  case plain then show ?thesis by simp
next
  case (start b v)
  have b: "lrc_ok b" using good_core [OF ok start(1)] by (simp add: good_def)
  note l = lrc_lengths [OF b]
  have n: "unat (rc_used b) < 32" using l start(5) by (auto simp: word_unat_eq_iff order_less_le)
  then have "unat (rc_used b + 1) = unat (rc_used b) + 1" by (simp add: unat_word_ariths)
  then have "rc_used b + 1 \<noteq> 0" by (metis Suc_eq_plus1 nat.distinct(1) unsigned_0)
  then show ?thesis using start(6,7) n l by (auto simp: command_start_def Let_def split: if_split_asm)
next
  case (stop b u)
  have b: "lrc_ok b" using good_core [OF ok stop(1)] by (simp add: good_def)
  have "d = b" using stop(2) r(2) by (simp add: command_stop_def)
  then show ?thesis using find_remote [OF b, of "rq_operation r" t] stop start_named [OF r] r(2) by auto
qed

lemma admit_again:
  assumes ok: "lrc_ok c" and r: "lc_request_valid r" "rq_command r = LC_START"
    and t: "t \<noteq> 0" "t \<le> rc_used c" "st_operation (rc_states c ! unat (t - 1)) = rq_operation r"
    and d: "command_admit portable conn r usb ready now c = (x, d)"
  shows "(x = Inl LRC_REFUSED \<or> x = Inr (t, False)) \<and> rc_used d = rc_used c"
proof -
  have nz: "\<not> zero (rq_operation r)" using start_named [OF r] .
  have known: "find_operation b (rq_operation r) = t" if "lcore b = lcore c" for b
    using good_core [OF ok that] find_known [of b t] t that by (simp add: good_def lcore_def)
  from d show ?thesis
  proof (cases rule: admit_cases)
    case plain then show ?thesis using core_fields by blast
  next
    case (start b v) then show ?thesis using known [of b] nz t(1) by simp
  next
    case (stop b u)
    have "d = b" using stop(2) r(2) by (simp add: command_stop_def)
    then show ?thesis using stop known [OF stop(1)] nz core_fields [OF stop(1)] by simp
  qed
qed

lemma local_ticket_inj:
  fixes n m :: u32
  assumes "n < LRC_LOCAL_TICKET" "m < LRC_LOCAL_TICKET" and eq: "LRC_LOCAL_TICKET OR n = LRC_LOCAL_TICKET OR m"
  shows "n = m"
proof (rule bit_word_eqI)
  fix j
  assume "j < LENGTH(32)"
  have top: "\<not> bit (k :: u32) 31" if "k < LRC_LOCAL_TICKET" for k
  proof -
    have "unat k < 2147483648" using that by (simp add: word_less_nat_alt)
    then have "\<not> bit (unat k) 31" by (simp add: bit_iff_odd)
    then show ?thesis by (simp add: bit_unsigned_iff)
  qed
  have "(0x80000000 :: u32) = push_bit 31 1" by simp
  then have "bit (0x80000000 :: u32) j \<Longrightarrow> j = 31" by (simp only: bit_push_bit_iff) (auto simp: bit_1_iff)
  moreover have "bit (LRC_LOCAL_TICKET OR n) j = bit (LRC_LOCAL_TICKET OR m) j" using eq by simp
  ultimately show "bit n j = bit m j" using top [OF assms(1)] top [OF assms(2)] unfolding bit_or_iff by metis
qed

lemma stop_sticky:
  assumes ok: "lrc_ok c" and g: "good c d" and t: "lrc_stop_requested c t = 1"
  shows "lrc_stop_requested d t \<noteq> 0"
proof (cases "is_local t")
  case True
  have c: "t \<noteq> 0" "t = rc_local_ticket c" "rc_local_stop c" using t True by (auto simp: lrc_stop_requested_def split: if_split_asm)
  have "rc_local_stop d" if d: "t = rc_local_ticket d"
  proof -
    have n: "rc_local_ticket x = LRC_LOCAL_TICKET OR rc_local_count x \<and> rc_local_count x < LRC_LOCAL_TICKET"
      if "lrc_ok x" "rc_local_ticket x \<noteq> 0" for x
      using that unfolding lrc_ok_def by metis
    have "lrc_ok d" using g by (simp add: good_def)
    then have "rc_local_count c = rc_local_count d" using n [OF ok] n [of d] c d local_ticket_inj by metis
    then show ?thesis using g c(3) by (simp add: good_def extends_def)
  qed
  then show ?thesis using True by (simp add: lrc_stop_requested_def)
next
  case False
  have c: "t \<noteq> 0" "t \<le> rc_used c" "rc_stop c ! unat (t - 1)"
    using t False ok by (auto simp: lrc_stop_requested_def lrc_ok_def split: if_split_asm)
  then have "rc_stop d ! unat (t - 1)" using g ticket_index(1) [OF ok c(1,2)] by (simp add: good_def extends_def)
  then show ?thesis using False by (simp add: lrc_stop_requested_def)
qed

lemma operations_kept:
  assumes "lrc_ok c" and "good c d"
  shows "take (length (operations c)) (operations d) = operations c"
proof -
  have "lrc_ok d" using assms(2) by (simp add: good_def)
  note l = lrc_lengths [OF assms(1)] lrc_lengths [OF this]
  show ?thesis
    using l assms(2) by (intro nth_equalityI) (auto simp: operations_def good_def extends_def word_le_nat_alt)
qed

lemma lrc_init_ok:
  assumes "lrc_init portable ca pc lock pa boot binding z = (LRC_OK, c)"
  shows "lrc_ok c"
proof -
  have "rc_stop c = replicate 32 False \<and> rc_states c = replicate 32 lc_state_zero \<and> rc_used c = 0 \<and> rc_issued c = 0 \<and> rc_armed c = 0 \<and>
      rc_current c = 0 \<and> rc_local_count c = 0 \<and> rc_local_ticket c = 0"
    using assms by (cases boot; cases binding) (simp_all add: Let_def split: if_split_asm, auto)
  then show ?thesis by (simp add: lrc_ok_def operations_def)
qed

lemma parse_valid: "lc_parse_request frame n binding boot request = (LC_OK, r) \<Longrightarrow> lc_request_valid (pt r)"
  by (cases frame; cases binding; cases boot; cases request) (auto simp: lc_parse_request.simps Let_def split: if_split_asm)

text \<open>What the other actors do to the record while an operation has released the gate.\<close>

definition interleaves :: "bool \<Rightarrow> (recording_control \<Rightarrow> recording_control) \<Rightarrow> bool" where
  "interleaves portable f \<longleftrightarrow> (\<forall>c. (lrc_step portable)\<^sup>*\<^sup>* c (f c))"

lemma interleavesD: "interleaves portable f \<Longrightarrow> (lrc_step portable)\<^sup>*\<^sup>* c (f c)"
  by (simp add: interleaves_def)

lemma admit_queued:
  assumes ok: "lrc_ok c" and r: "lc_request_valid r" and a: "command_admit portable conn r usb ready now c = (Inr (t, True), b)"
    and d: "(lrc_step portable)\<^sup>*\<^sup>* b d" and q: "command_queued portable t u q free d = (y, e)"
  shows "(lrc_step portable)\<^sup>*\<^sup>* c e"
proof -
  have st: "rq_command r = LC_START" using a by (cases rule: admit_cases) auto
  note k = admit_known [OF ok r st a]
  have "good c b" by (rule good_admit [OF ok r a])
  then have "good b d" using lrc_steps_good [OF d] by (simp add: good_def)
  then have "t \<le> rc_used d" using k order_trans unfolding good_def extends_def by blast
  then have "lrc_step portable d e" using lrc_step.queued q k by blast
  moreover have "lrc_step portable c b" using lrc_step.admit r a by blast
  ultimately show ?thesis using d by (meson converse_rtranclp_into_rtranclp rtranclp.rtrancl_into_rtrancl)
qed

lemma lrc_command_steps:
  assumes ok: "lrc_ok c" and w: "interleaves portable (w_other1 w)" "interleaves portable (w_other2 w)"
    and d: "lrc_command portable ca sp conn frame n reply w c = (z, out, d)"
  shows "(lrc_step portable)\<^sup>*\<^sup>* c d"
proof (cases "d = c")
  case False
  obtain res request where p: "lrc_parse ca sp c frame n = (res, request)" by fastforce
  let ?r = "pt request" and ?u = "w_usb w = 1" and ?ready = "if rq_command (pt request) = LC_START then w_ready w else 0"
  obtain x b where a: "command_admit portable conn ?r ?u ?ready (w_now1 w) c = (x, b)" by fastforce
  note d' = d [unfolded lrc_command_def p prod.case Let_def a]
  have valid: "lc_request_valid ?r" using d' False p parse_valid unfolding lrc_parse_def by (auto split: if_split_asm)
  have b: "lrc_step portable c b" using lrc_step.admit valid a by blast
  have fin: "(lrc_step portable)\<^sup>*\<^sup>* e d"
    if "command_reply portable sp conn ?r t ?u (w_now2 w) (w_free3 w) reply (w_other2 w e) = (z, out, d)" for t e
    using interleavesD [OF w(2), of e] lrc_step.reply [OF that] by (rule rtranclp.rtrancl_into_rtrancl)
  consider (1) "d = b" | (2) t where "x = Inr (t, False)" "command_reply portable sp conn ?r t ?u (w_now2 w) (w_free3 w) reply (w_other2 w b) = (z, out, d)"
    | (3) t y e where "x = Inr (t, True)" "command_queued portable t ?u (w_queued w) (w_free2 w) (w_other1 w b) = (y, e)"
        "d = e \<or> command_reply portable sp conn ?r t ?u (w_now2 w) (w_free3 w) reply (w_other2 w e) = (z, out, d)"
    using d' False by (auto split: if_split_asm sum.splits prod.splits option.splits)
  then show ?thesis
  proof cases
    case 1 then show ?thesis using b by blast
  next
    case 2 then show ?thesis using b fin by (meson converse_rtranclp_into_rtranclp)
  next
    case 3
    have "(lrc_step portable)\<^sup>*\<^sup>* c e"
      using admit_queued [OF ok valid _ interleavesD [OF w(1)] 3(2)] a 3(1) by simp
    then show ?thesis using 3(3) fin by (meson rtranclp_trans)
  qed
qed simp

lemma lrc_button_steps:
  assumes w: "interleaves portable other" and d: "lrc_button_sample portable pressed u ready free1 now q other free2 c = (z, d)"
  shows "(lrc_step portable)\<^sup>*\<^sup>* c d"
proof -
  obtain x b where a: "button_section portable pressed u ready now c = (x, b)" by fastforce
  have b: "lrc_step portable c b" using lrc_step.button a by blast
  consider "d = c" | "d = b" | t where "button_queued portable t u q free2 (other b) = (z, d)"
    using d by (auto simp: lrc_button_sample_def a split: if_split_asm sum.splits)
  then show ?thesis
  proof cases
    case 3
    show ?thesis using b interleavesD [OF w, of b] lrc_step.button_queue [OF 3]
      by (meson converse_rtranclp_into_rtranclp rtranclp.rtrancl_into_rtrancl)
  qed (use b in auto)
qed

section \<open>Properties\<close>

text \<open>Claim C6. Start from a successful \<open>lrc_init\<close> and let the sections of remote commands, replies, disconnects, worker publications,
  button samples and standalone changes interleave in any order with any arguments.  At every moment at most 32 remote
  operations are retained, their identities are distinct and none lies in the namespace reserved for local recordings; the
  current ticket always names a retained state.  Later sections only append operations, and a stop that was requested for
  a ticket is never withdrawn: the query never answers "no stop" again, for remote and for local tickets.\<close>

theorem control_interleavings:
  assumes "lrc_init portable ca complete lock pa boot binding z = (LRC_OK, c)"
    and "(lrc_step portable)\<^sup>*\<^sup>* c d" and "(lrc_step portable)\<^sup>*\<^sup>* d e"
  shows "length (operations d) \<le> 32 \<and> distinct (operations d) \<and> (\<forall>p\<in>set (operations d). \<not> local_namespace d p) \<and>
    (rc_current d \<noteq> 0 \<longrightarrow> state_at d (rc_current d) \<noteq> None) \<and> take (length (operations d)) (operations e) = operations d \<and>
    (\<forall>t. lrc_stop_requested d t = 1 \<longrightarrow> lrc_stop_requested e t \<noteq> 0)"
proof -
  have ok: "lrc_ok d" using lrc_steps_good [OF assms(2) lrc_init_ok [OF assms(1)]] by (simp add: good_def)
  have g: "good d e" by (rule lrc_steps_good [OF assms(3) ok])
  have "length (operations d) \<le> 32" using lrc_lengths [OF ok] by (simp add: operations_def)
  moreover have "distinct (operations d)" "\<forall>p\<in>set (operations d). \<not> local_namespace d p" "rc_current d \<noteq> 0 \<longrightarrow> state_at d (rc_current d) \<noteq> None"
    using ok unfolding lrc_ok_def by blast+
  ultimately show ?thesis using operations_kept [OF ok g] stop_sticky [OF ok g] by blast
qed

definition demo_memory :: recording_control where
  "demo_memory = \<lparr>rc_stop = [], rc_issued = 0, rc_fault = False, rc_submitting = False, rc_states = [],
     rc_idle = lc_state_zero, rc_binding = [], rc_last_now = 0, rc_connection = 0, rc_last_connection = 0, rc_sequence = 0,
     rc_initialized = False, rc_used = 0, rc_current = 0, rc_armed = 0, rc_button_ticket = 0, rc_armed_deadline = 0, rc_button = bg_zero,
     rc_local = lc_state_zero, rc_local_ticket = 0, rc_local_stop = False, rc_local_count = 0, rc_standalone = False,
     rc_button_local_ready = False\<rparr>"

definition demo_rc :: recording_control where
  "demo_rc = demo_memory\<lparr>rc_stop := replicate 32 False, rc_states := replicate 32 lc_state_zero, rc_binding := replicate 32 2,
     rc_idle := lc_state_zero\<lparr>st_boot := replicate 16 1, st_flags := LC_PRODUCER_JOINED OR LC_STORAGE_JOINED OR LC_RELEASED\<rparr>, rc_initialized := True\<rparr>"

definition demo_start :: lc_request where
  "demo_start = \<lparr>rq_boot = replicate 16 1, rq_operation = replicate 16 3, rq_binding = replicate 32 2, rq_sequence = 1, rq_command = LC_START, rq_mode = 1\<rparr>"

text \<open>The record after the first remote START.\<close>

definition demo_running :: recording_control where
  "demo_running = snd (command_admit False 7 demo_start True 1 100 demo_rc)"

lemma demo_init: "lrc_init False 1000 True True 100000 (Ptr 200000 (replicate 16 1)) (Ptr 300000 (replicate 32 2)) demo_memory = (LRC_OK, demo_rc)"
  by (simp add: demo_rc_def demo_memory_def overlap_def UINTPTR_MAX_def LC_PROFILE_FLAGS_def)

lemma demo_start_valid: "lc_request_valid demo_start"
  by (simp add: demo_start_def lc_request_valid_def)

lemma demo_namespace: "\<not> local_namespace demo_rc (replicate 16 3)"
proof -
  have "part 0 12 (local_operation (replicate 16 1) 0) \<noteq> replicate 12 (3 :: u8)" by code_simp
  then show ?thesis by (simp add: local_namespace_def demo_rc_def part_def)
qed

lemma demo_admit: "command_admit False 7 demo_start True 1 100 demo_rc = (Inr (1, True), demo_running)"
proof -
  have n: "\<not> local_namespace (demo_rc\<lparr>rc_last_now := 100, rc_connection := 7, rc_last_connection := 7, rc_sequence := 1\<rparr>) (replicate 16 3)"
    using demo_namespace by (simp add: local_namespace_def)
  have "fst (command_admit False 7 demo_start True 1 100 demo_rc) = Inr (1, True)"
    using n by (simp add: command_admit_def tick_def Let_def demo_start_def)
       (simp add: demo_rc_def demo_memory_def find_operation_def start_refused_def command_start_def)
  then show ?thesis unfolding demo_running_def by (metis prod.collapse)
qed

lemma demo_ok: "lrc_ok demo_rc"
  by (rule lrc_init_ok [OF demo_init])

lemma demo_step: "(lrc_step False)\<^sup>*\<^sup>* demo_rc demo_running"
  using lrc_step.admit [OF demo_start_valid demo_admit] by blast

text \<open>The theorem at a boot, the first START and a second section after it.\<close>

theorem control_interleavings_witness:
  "length (operations demo_running) \<le> 32 \<and> distinct (operations demo_running) \<and>
    take (length (operations demo_running)) (operations (snd (lrc_disconnected 7 True demo_running))) = operations demo_running"
proof -
  have "lrc_step False demo_running (snd (lrc_disconnected 7 True demo_running))"
    by (rule lrc_step.disconnected [of 7 True _ "fst (lrc_disconnected 7 True demo_running)"]) simp
  then have "(lrc_step False)\<^sup>*\<^sup>* demo_running (snd (lrc_disconnected 7 True demo_running))" by blast
  from control_interleavings [OF demo_init demo_step this] show ?thesis by blast
qed

text \<open>Claim C31. A remote operation is started at most once, however often its START is repeated.  Once a START for an operation identity
  has been admitted with a ticket, a later START with the same identity, over any connection and after any interleaving of
  other sections, is either refused or answered with that same ticket and without a new submission to the worker; it
  allocates no further operation.\<close>

theorem control_start_once:
  assumes "lrc_ok c" and "lc_request_valid r" and "rq_command r = LC_START"
    and "command_admit portable conn r usb ready now c = (Inr (t, s), d)"
    and "(lrc_step portable)\<^sup>*\<^sup>* d e"
    and "lc_request_valid q" and "rq_command q = LC_START" and "rq_operation q = rq_operation r"
    and "command_admit portable conn' q usb' ready' now' e = (x, f)"
  shows "(x = Inl LRC_REFUSED \<or> x = Inr (t, False)) \<and> operations f = operations e"
proof -
  note k = admit_known [OF assms(1-4)]
  have d: "lrc_ok d" using good_admit [OF assms(1,2,4)] by (simp add: good_def)
  have g: "good d e" by (rule lrc_steps_good [OF assms(5) d])
  then have e: "lrc_ok e" by (simp add: good_def)
  have "rc_used d \<le> rc_used e" using g by (simp add: good_def extends_def)
  then have te: "t \<le> rc_used e" using k by (meson order_trans)
  have st: "st_operation (rc_states e ! unat (t - 1)) = rq_operation q"
    using g k assms(8) ticket_index(1) [OF d, of t] by (simp add: good_def extends_def)
  note a = admit_again [OF e assms(6,7) conjunct1 [OF k] te st assms(9)]
  have f: "good e f" by (rule good_admit [OF e assms(6,9)])
  then have "length (operations f) = length (operations e)" using a lrc_lengths [OF e] lrc_lengths [of f] by (simp add: operations_def good_def)
  then show ?thesis using a operations_kept [OF e f] by simp
qed

theorem control_start_once_witness:
  "(fst (command_admit False 8 demo_start True 1 300 demo_running) = Inl LRC_REFUSED \<or>
    fst (command_admit False 8 demo_start True 1 300 demo_running) = Inr (1, False)) \<and>
   operations (snd (command_admit False 8 demo_start True 1 300 demo_running)) = operations demo_running"
proof (rule control_start_once [OF demo_ok demo_start_valid _ demo_admit rtranclp.rtrancl_refl demo_start_valid _ refl prod.collapse [symmetric]])
qed (simp_all add: demo_start_def)


text \<open>The frame of \<open>demo_start\<close>.\<close>

definition demo_frame :: bytes where
  "demo_frame = [79, 80, 1, LC_START, 1, 0, 72, 0] @ replicate 16 1 @ replicate 16 3 @ replicate 32 2 @ [1] @ replicate 7 0"

text \<open>The other actors do nothing, or a peer disconnects.\<close>

definition demo_world :: lrc_world where
  "demo_world = \<lparr>w_authorized = True, w_usb = 1, w_ready = 1, w_free1 = True, w_now1 = 5, w_queued = False, w_other1 = (\<lambda>c. c),
     w_free2 = True, w_other2 = (\<lambda>c. snd (lrc_disconnected 9 True c)), w_free3 = True, w_now2 = 6\<rparr>"


end
