(* ===== verification/Wire_Transport.thy ===== *)
theory Wire_Transport
  imports Prelude
begin

text \<open>
  The metadata transport that the bounded NAND drivers speak over the serial console.  \<open>nrr_wire.c\<close> (read-rate runs) and
  \<open>nwr_wire.c\<close> (write-rate runs) hold the same transport with different constants, which are the fs of \<open>wire_config\<close>.  The
  callbacks of \<open>struct nrr_wire_io\<close> are functions on a host state of any type.  The group shows that each exchange makes a
  bounded number of I/O callbacks whatever the host does, and how every failure leaves the transport.
\<close>

section \<open>Model\<close>

datatype wire_rc = WIRE_OK | WIRE_ARGUMENT | WIRE_IO | WIRE_TIMEOUT | WIRE_PROTOCOL | WIRE_HOST_ABORT | WIRE_STATE | WIRE_GLOBAL_TIMEOUT

text \<open>The callbacks.  \<open>io_write\<close> gets the offered bytes and reports failure and the accepted count; \<open>io_read\<close> gets the
  requested count and reports failure, the received count and what it stored at the destination; \<open>io_pending\<close> reports
  failure and the flag.\<close>

record 'h wire_io =
  io_write :: "bytes \<Rightarrow> 'h \<Rightarrow> bool \<times> nat \<times> 'h"
  io_read :: "nat \<Rightarrow> 'h \<Rightarrow> bool \<times> nat \<times> bytes \<times> 'h"
  io_now :: "'h \<Rightarrow> u32 \<times> 'h"
  io_yield :: "u32 \<Rightarrow> 'h \<Rightarrow> 'h"
  io_pending :: "'h \<Rightarrow> bool \<times> bool \<times> 'h"

record wire_config =
  wc_magic :: bytes
  wc_ready :: bytes
  wc_words :: nat
  wc_data_ms :: u32

record wire =
  wi_nonce :: bytes
  wi_tx_header :: bytes
  wi_tx_metadata :: bytes
  wi_rx_control :: bytes
  wi_data_deadline :: u32
  wi_events_sent :: u16
  wi_events_acked :: u16
  wi_last_rc :: wire_rc
  wi_host_abort_reason :: u8
  wi_initialized :: bool
  wi_handshake_started :: bool
  wi_hello_received :: bool
  wi_deadline_armed :: bool
  wi_output_frame_boundary :: bool
  wi_transport_usable :: bool
  wi_data_stopped :: bool
  wi_end_attempted :: bool
  wi_end_sent :: bool
  wi_clean_end_acknowledged :: bool
  wi_console_reuse_allowed :: bool
  wi_quarantined :: bool

record budget =
  bd_deadline :: u32
  bd_attempts :: u32
  bd_data :: bool

abbreviation WIRE_IO_MAX :: nat where "WIRE_IO_MAX \<equiv> 64"
abbreviation WIRE_ATTEMPTS :: u32 where "WIRE_ATTEMPTS \<equiv> 8192"
abbreviation WIRE_FRAME_MS :: u32 where "WIRE_FRAME_MS \<equiv> 2000"
abbreviation HELLO :: u16 where "HELLO \<equiv> 1"
abbreviation PROGRESS :: u16 where "PROGRESS \<equiv> 2"
abbreviation END :: u16 where "END \<equiv> 3"
abbreviation ACK :: u16 where "ACK \<equiv> 4"
abbreviation ABORT :: u16 where "ABORT \<equiv> 5"

definition crc_update :: "u32 \<Rightarrow> bytes \<Rightarrow> u32" where
  "crc_update crc p = foldl crc_byte crc p"

text \<open>Every call passes a buffer, so the NULL guard of the source has no branch here.\<close>

definition wire_crc32 :: "bytes \<Rightarrow> u32" where
  "wire_crc32 p = crc_update UINT32_MAX p XOR UINT32_MAX"

definition before :: "u32 \<Rightarrow> u32 \<Rightarrow> bool" where
  "before now deadline = (let remaining = deadline - now in remaining \<noteq> 0 \<and> remaining \<le> INT32_MAX)"

definition fail :: "wire_rc \<Rightarrow> bool \<Rightarrow> 'a wire_scheme \<Rightarrow> 'a wire_scheme" where
  "fail rc usable w = w\<lparr>wi_last_rc := rc, wi_data_stopped := True, wi_quarantined := True, wi_console_reuse_allowed := False,
     wi_transport_usable := wi_transport_usable w \<and> usable\<rparr>"

definition new_budget :: "'h wire_io \<Rightarrow> bool \<Rightarrow> 'a wire_scheme \<Rightarrow> 'h \<Rightarrow> budget \<times> 'h" where
  "new_budget io data w h =
    (let (now, h) = io_now io h; b = \<lparr>bd_deadline = now + WIRE_FRAME_MS, bd_attempts = 0, bd_data = data\<rparr> in
     (if data \<and> before now (wi_data_deadline w) \<and> wi_data_deadline w - now < WIRE_FRAME_MS then b\<lparr>bd_deadline := wi_data_deadline w\<rparr> else b, h))"

definition deadline_check :: "'h wire_io \<Rightarrow> budget \<Rightarrow> 'a wire_scheme \<Rightarrow> 'h \<Rightarrow> wire_rc \<times> 'a wire_scheme \<times> 'h" where
  "deadline_check io b w h =
    (let (now, h) = io_now io h in
     if bd_data b \<and> \<not> before now (wi_data_deadline w) then (WIRE_GLOBAL_TIMEOUT, fail WIRE_GLOBAL_TIMEOUT False w, h)
     else if \<not> before now (bd_deadline b) then (WIRE_TIMEOUT, fail WIRE_TIMEOUT False w, h)
     else (WIRE_OK, w, h))"

definition permit :: "'h wire_io \<Rightarrow> budget \<Rightarrow> 'a wire_scheme \<Rightarrow> 'h \<Rightarrow> wire_rc \<times> budget \<times> 'a wire_scheme \<times> 'h" where
  "permit io b w h =
    (let (rc, w, h) = deadline_check io b w h in
     if rc \<noteq> WIRE_OK then (rc, b, w, h)
     else if bd_attempts b \<ge> WIRE_ATTEMPTS then (WIRE_TIMEOUT, b, fail WIRE_TIMEOUT False w, h)
     else (WIRE_OK, b\<lparr>bd_attempts := bd_attempts b + 1\<rparr>, w, h))"

definition no_pending :: "'h wire_io \<Rightarrow> 'a wire_scheme \<Rightarrow> 'h \<Rightarrow> wire_rc \<times> 'a wire_scheme \<times> 'h" where
  "no_pending io w h =
    (let (err, pending, h) = io_pending io h in
     if err then (WIRE_IO, fail WIRE_IO False w, h)
     else if pending then (WIRE_PROTOCOL, fail WIRE_PROTOCOL False w, h)
     else (WIRE_OK, w, h))"

lemma permit_attempts:
  assumes "permit io b w h = (WIRE_OK, b', w', h')"
  shows "bd_attempts b < WIRE_ATTEMPTS" "unat (bd_attempts b') = unat (bd_attempts b) + 1"
proof -
  show l: "bd_attempts b < WIRE_ATTEMPTS" using assms by (auto simp: permit_def split: prod.splits if_split_asm)
  have "bd_attempts b' = bd_attempts b + 1" using assms by (auto simp: permit_def split: prod.splits if_split_asm)
  then show "unat (bd_attempts b') = unat (bd_attempts b) + 1" using l by (simp add: word_less_nat_alt unat_word_ariths)
qed

text \<open>The loop of \<open>write_spans\<close> over one span; \<open>fin\<close>: it is the last of the frame.\<close>

function write_span ::
  "'h wire_io \<Rightarrow> bytes \<Rightarrow> bool \<Rightarrow> nat \<Rightarrow> budget \<Rightarrow> 'a wire_scheme \<Rightarrow> 'h \<Rightarrow> wire_rc \<times> budget \<times> 'a wire_scheme \<times> 'h" where
  "write_span io p fin offset b w h =
    (if offset < length p then
       (case permit io b w h of (rc, b, w, h) \<Rightarrow>
        if rc \<noteq> WIRE_OK then (rc, b, w, h)
        else let requested = min WIRE_IO_MAX (length p - offset); (err, accepted, h) = io_write io (part offset requested p) h in
        if accepted > requested then (WIRE_IO, b, fail WIRE_IO False w, h)
        else let offset = offset + accepted; w = (if fin \<and> offset = length p then w\<lparr>wi_output_frame_boundary := True\<rparr> else w) in
        if err then (WIRE_IO, b, fail WIRE_IO False w, h)
        else let (rc, w, h) = deadline_check io b w h in
        if rc \<noteq> WIRE_OK then (rc, b, w, h)
        else write_span io p fin offset b w (if accepted = 0 then io_yield io 250 h else h))
     else (WIRE_OK, b, w, h))"
  by pat_completeness auto
termination
proof (relation "measure (\<lambda>(io, p, fin, offset, b, w, h). 8192 - unat (bd_attempts b))", goal_cases)
  case (2 io p fin offset b w h x y xa ya xb yb)
  then have "permit io b w h = (WIRE_OK, xa, xb, yb)" by simp
  from permit_attempts [OF this] show ?case by (simp add: word_less_nat_alt)
qed simp

declare write_span.simps [simp del]

fun write_parts :: "'h wire_io \<Rightarrow> bytes list \<Rightarrow> budget \<Rightarrow> 'a wire_scheme \<Rightarrow> 'h \<Rightarrow> wire_rc \<times> budget \<times> 'a wire_scheme \<times> 'h" where
  "write_parts io [] b w h = (WIRE_OK, b, w, h)"
| "write_parts io (p # ps) b w h =
    (case write_span io p (ps = []) 0 b w h of (rc, b, w, h) \<Rightarrow> if rc \<noteq> WIRE_OK then (rc, b, w, h) else write_parts io ps b w h)"

definition write_spans :: "'h wire_io \<Rightarrow> bytes list \<Rightarrow> budget \<Rightarrow> 'a wire_scheme \<Rightarrow> 'h \<Rightarrow> wire_rc \<times> budget \<times> 'a wire_scheme \<times> 'h" where
  "write_spans io spans b w h = write_parts io spans b (w\<lparr>wi_output_frame_boundary := False\<rparr>) h"

text \<open>\<open>read_exact\<close> into \<open>rx_control + base\<close>, from \<open>offset\<close> on.\<close>

function read_from ::
  "'h wire_io \<Rightarrow> nat \<Rightarrow> nat \<Rightarrow> nat \<Rightarrow> budget \<Rightarrow> 'a wire_scheme \<Rightarrow> 'h \<Rightarrow> wire_rc \<times> budget \<times> 'a wire_scheme \<times> 'h" where
  "read_from io base n offset b w h =
    (if offset < n then
       (case permit io b w h of (rc, b, w, h) \<Rightarrow>
        if rc \<noteq> WIRE_OK then (rc, b, w, h)
        else let requested = min WIRE_IO_MAX (n - offset); (err, received, data, h) = io_read io requested h;
                 w = w\<lparr>wi_rx_control := blit (base + offset) (take requested data) (wi_rx_control w)\<rparr> in
        if received > requested \<or> err then (WIRE_IO, b, fail WIRE_IO False w, h)
        else let offset = offset + received; (rc, w, h) = deadline_check io b w h in
        if rc \<noteq> WIRE_OK then (rc, b, w, h)
        else read_from io base n offset b w (if received = 0 then io_yield io 250 h else h))
     else (WIRE_OK, b, w, h))"
  by pat_completeness auto
termination
proof (relation "measure (\<lambda>(io, base, n, offset, b, w, h). 8192 - unat (bd_attempts b))", goal_cases)
  case (2 io base n offset b w h x y xa ya xb yb)
  then have "permit io b w h = (WIRE_OK, xa, xb, yb)" by simp
  from permit_attempts [OF this] show ?case by (simp add: word_less_nat_alt)
qed simp

declare read_from.simps [simp del]

definition read_exact :: "'h wire_io \<Rightarrow> nat \<Rightarrow> nat \<Rightarrow> budget \<Rightarrow> 'a wire_scheme \<Rightarrow> 'h \<Rightarrow> wire_rc \<times> budget \<times> 'a wire_scheme \<times> 'h" where
  "read_exact io base n b w h = read_from io base n 0 b w h"

definition header_common :: "wire_config \<Rightarrow> bytes \<Rightarrow> bool" where
  "header_common cfg p \<longleftrightarrow> part 0 8 p = wc_magic cfg \<and> get16 8 p = 1 \<and> get16 12 p = 48 \<and> get16 14 p = 0 \<and> get32 44 p = wire_crc32 (part 0 44 p)"

definition serialize :: "u32 list \<Rightarrow> nat \<Rightarrow> 'a wire_scheme \<Rightarrow> 'a wire_scheme" where
  "serialize fs count w = w\<lparr>wi_tx_metadata := foldl (\<lambda>p i. put32 (4 * i) (fs ! i) p) (wi_tx_metadata w) [0..<count]\<rparr>"

definition frame_header :: "wire_config \<Rightarrow> u16 \<Rightarrow> u16 \<Rightarrow> bytes list \<Rightarrow> u16 \<Rightarrow> 'a wire_scheme \<Rightarrow> u32 \<times> 'a wire_scheme" where
  "frame_header cfg kind sequence bodies body_length w =
    (let crc = foldl crc_update UINT32_MAX bodies XOR UINT32_MAX;
         p = blit 0 (wc_magic cfg) (wi_tx_header w); p = put16 8 1 p; p = put16 10 kind p; p = put16 12 48 p; p = put16 14 0 p;
         p = blit 16 (wi_nonce w) p; p = put16 32 sequence p; p = put16 34 body_length p; p = put32 36 65536 p; p = put32 40 crc p;
         p = put32 44 (wire_crc32 (part 0 44 p)) p
     in (crc, w\<lparr>wi_tx_header := p\<rparr>))"

text \<open>\<open>receive_ack\<close>: what it accepts of the 48 header bytes, and the verdict on the body.\<close>

definition ack_header_ok :: "wire_config \<Rightarrow> u16 \<Rightarrow> u32 \<Rightarrow> 'a wire_scheme \<Rightarrow> bool" where
  "ack_header_ok cfg sequence row w =
    (let p = wi_rx_control w; kind = get16 10 p; n = get16 34 p in
     header_common cfg p \<and> part 16 16 p = wi_nonce w \<and> get16 32 p = sequence \<and> get32 36 p = row \<and>
     ((kind = ACK \<and> n = 8) \<or> (kind = ABORT \<and> n = 4)))"

definition ack_verdict :: "u32 \<Rightarrow> u32 \<Rightarrow> 'a wire_scheme \<Rightarrow> wire_rc \<times> 'a wire_scheme" where
  "ack_verdict body_crc pages w =
    (let p = wi_rx_control w in
     if get16 10 p = ABORT then
       (let reason = get32 48 p in
        if reason < 1 \<or> reason > 4 then (WIRE_PROTOCOL, fail WIRE_PROTOCOL False w)
        else (WIRE_HOST_ABORT, fail WIRE_HOST_ABORT True (w\<lparr>wi_host_abort_reason := ucast reason\<rparr>)))
     else if get32 48 p \<noteq> body_crc \<or> get32 52 p \<noteq> pages then (WIRE_PROTOCOL, fail WIRE_PROTOCOL False w)
     else (WIRE_OK, w))"

definition receive_ack ::
  "wire_config \<Rightarrow> 'h wire_io \<Rightarrow> u16 \<Rightarrow> u32 \<Rightarrow> u32 \<Rightarrow> u32 \<Rightarrow> budget \<Rightarrow> 'a wire_scheme \<Rightarrow> 'h \<Rightarrow> wire_rc \<times> budget \<times> 'a wire_scheme \<times> 'h" where
  "receive_ack cfg io sequence row body_crc pages b w h =
    (case read_exact io 0 48 b w h of (rc, b, w, h) \<Rightarrow>
     if rc \<noteq> WIRE_OK then (rc, b, w, h)
     else if \<not> ack_header_ok cfg sequence row w then (WIRE_PROTOCOL, b, fail WIRE_PROTOCOL False w, h)
     else let n = unat (get16 34 (wi_rx_control w)) in
     case read_exact io 48 n b w h of (rc, b, w, h) \<Rightarrow>
     if rc \<noteq> WIRE_OK then (rc, b, w, h)
     else if get32 40 (wi_rx_control w) \<noteq> wire_crc32 (part 48 n (wi_rx_control w)) then (WIRE_PROTOCOL, b, fail WIRE_PROTOCOL False w, h)
     else case no_pending io w h of (rc, w, h) \<Rightarrow>
     if rc \<noteq> WIRE_OK then (rc, b, w, h)
     else case deadline_check io b w h of (rc, w, h) \<Rightarrow>
     if rc \<noteq> WIRE_OK then (rc, b, w, h)
     else case ack_verdict body_crc pages w of (rc, w) \<Rightarrow> (rc, b, w, h))"

definition wire_handshake :: "wire_config \<Rightarrow> 'h wire_io \<Rightarrow> 'a wire_scheme \<Rightarrow> 'h \<Rightarrow> wire_rc \<times> 'a wire_scheme \<times> 'h" where
  "wire_handshake cfg io w h =
    (if \<not> wi_initialized w then (WIRE_ARGUMENT, w, h)
     else if wi_handshake_started w then (WIRE_STATE, fail WIRE_STATE False w, h)
     else let w = w\<lparr>wi_handshake_started := True\<rparr>; (b, h) = new_budget io False w h in
     case write_spans io [wc_ready cfg] b w h of (rc, b, w, h) \<Rightarrow>
     if rc \<noteq> WIRE_OK then (rc, w, h)
     else case read_exact io 0 48 b w h of (rc, b, w, h) \<Rightarrow>
     if rc \<noteq> WIRE_OK then (rc, w, h)
     else let p = wi_rx_control w in
     if \<not> header_common cfg p \<or> get16 10 p \<noteq> HELLO \<or> get16 32 p \<noteq> 0xffff \<or> get16 34 p \<noteq> 0 \<or> get32 36 p \<noteq> UINT32_MAX \<or>
        get32 40 p \<noteq> 0 \<or> zero (part 16 16 p) then (WIRE_PROTOCOL, fail WIRE_PROTOCOL False w, h)
     else case no_pending io w h of (rc, w, h) \<Rightarrow>
     if rc \<noteq> WIRE_OK then (rc, w, h)
     else case deadline_check io b w h of (rc, w, h) \<Rightarrow>
     if rc \<noteq> WIRE_OK then (rc, w, h)
     else (WIRE_OK, w\<lparr>wi_nonce := part 16 16 (wi_rx_control w), wi_hello_received := True\<rparr>, h))"

definition wire_arm_data_deadline :: "wire_config \<Rightarrow> 'h wire_io \<Rightarrow> u32 \<Rightarrow> 'a wire_scheme \<Rightarrow> 'h \<Rightarrow> wire_rc \<times> 'a wire_scheme \<times> 'h" where
  "wire_arm_data_deadline cfg io absolute_ms w h =
    (if \<not> wi_initialized w then (WIRE_ARGUMENT, w, h)
     else if \<not> wi_hello_received w \<or> wi_deadline_armed w \<or> wi_data_stopped w \<or> wi_end_attempted w then (WIRE_STATE, fail WIRE_STATE False w, h)
     else let (now, h) = io_now io h in
     if \<not> before now absolute_ms \<or> absolute_ms - now > wc_data_ms cfg then (WIRE_GLOBAL_TIMEOUT, fail WIRE_GLOBAL_TIMEOUT True w, h)
     else (WIRE_OK, w\<lparr>wi_data_deadline := absolute_ms, wi_deadline_armed := True\<rparr>, h))"

definition data_admitted :: "'a wire_scheme \<Rightarrow> bool" where
  "data_admitted w \<longleftrightarrow> wi_hello_received w \<and> wi_deadline_armed w \<and> wi_transport_usable w \<and> wi_output_frame_boundary w \<and>
     \<not> wi_data_stopped w \<and> \<not> wi_end_attempted w"

text \<open>The three checks before every frame and every data START.\<close>

definition wire_admit :: "'h wire_io \<Rightarrow> budget \<Rightarrow> 'a wire_scheme \<Rightarrow> 'h \<Rightarrow> wire_rc \<times> 'a wire_scheme \<times> 'h" where
  "wire_admit io b w h =
    (case deadline_check io b w h of (rc, w, h) \<Rightarrow>
     if rc \<noteq> WIRE_OK then (rc, w, h)
     else case no_pending io w h of (rc, w, h) \<Rightarrow>
     if rc \<noteq> WIRE_OK then (rc, w, h) else deadline_check io b w h)"

definition wire_check :: "'h wire_io \<Rightarrow> 'a wire_scheme \<Rightarrow> 'h \<Rightarrow> wire_rc \<times> 'a wire_scheme \<times> 'h" where
  "wire_check io w h =
    (if \<not> wi_initialized w then (WIRE_ARGUMENT, w, h)
     else if \<not> data_admitted w then (WIRE_STATE, fail WIRE_STATE False w, h)
     else let (b, h) = new_budget io True w h in wire_admit io b w h)"

text \<open>The frame of a PROGRESS or END message: the sequence number, the body's checksum and the transmission.\<close>

definition wire_frame ::
  "wire_config \<Rightarrow> 'h wire_io \<Rightarrow> u16 \<Rightarrow> u32 list \<Rightarrow> budget \<Rightarrow> 'a wire_scheme \<Rightarrow> 'h \<Rightarrow> u16 \<times> u32 \<times> wire_rc \<times> budget \<times> 'a wire_scheme \<times> 'h" where
  "wire_frame cfg io kind fs b w h =
    (let w = serialize fs (wc_words cfg) w; sequence = wi_events_sent w + 1; body = part 0 (4 * wc_words cfg) (wi_tx_metadata w);
         (crc, w) = frame_header cfg kind sequence [body] (of_nat (4 * wc_words cfg)) w;
         (rc, b, w, h) = write_spans io [wi_tx_header w, body] b w h
     in (sequence, crc, rc, b, w, h))"

section \<open>What an exchange may change\<close>

text \<open>The part of the record that no helper of the transport changes.\<close>

definition wire_core where
  "wire_core w = (wi_events_sent w, wi_events_acked w, wi_initialized w, wi_handshake_started w, wi_hello_received w, wi_deadline_armed w,
     wi_data_deadline w, wi_end_attempted w, wi_end_sent w, wi_clean_end_acknowledged w, wi_nonce w, wire.more w)"

definition buffers where
  "buffers w = (length (wi_tx_header w), length (wi_tx_metadata w), length (wi_rx_control w))"

text \<open>A helper that returns \<open>rc\<close>: success leaves the state flags alone, a failure quarantines the transport.\<close>

definition kept :: "wire_rc \<Rightarrow> 'a wire_scheme \<Rightarrow> 'a wire_scheme \<Rightarrow> bool" where
  "kept rc w w' \<longleftrightarrow> wire_core w' = wire_core w \<and> buffers w' = buffers w \<and>
     (if rc = WIRE_OK then wi_data_stopped w' = wi_data_stopped w \<and> wi_quarantined w' = wi_quarantined w \<and>
        wi_console_reuse_allowed w' = wi_console_reuse_allowed w \<and> wi_transport_usable w' = wi_transport_usable w
      else wi_data_stopped w' \<and> wi_quarantined w' \<and> \<not> wi_console_reuse_allowed w' \<and> wi_last_rc w' = rc)"

lemma kept_refl [simp]: "kept WIRE_OK w w"
  by (simp add: kept_def)

lemma kept_fail: "kept WIRE_OK w w' \<Longrightarrow> rc \<noteq> WIRE_OK \<Longrightarrow> kept rc w (fail rc u w')"
  by (simp add: kept_def fail_def wire_core_def buffers_def)

lemma kept_fail_same [simp]: "rc \<noteq> WIRE_OK \<Longrightarrow> kept rc w (fail rc u w)"
  by (simp add: kept_fail)

lemma kept_trans: "kept WIRE_OK a b \<Longrightarrow> kept rc b c \<Longrightarrow> kept rc a c"
  by (simp add: kept_def split: if_split_asm)

lemma kept_deadline: "deadline_check io b w h = (rc, w', h') \<Longrightarrow> kept rc w w'"
  by (auto simp: deadline_check_def split: prod.splits if_split_asm)

lemma kept_permit: "permit io b w h = (rc, b', w', h') \<Longrightarrow> kept rc w w'"
  using kept_deadline [of io b w h] kept_fail by (fastforce simp: permit_def split: prod.splits if_split_asm)

lemma kept_pending: "no_pending io w h = (rc, w', h') \<Longrightarrow> kept rc w w'"
  by (auto simp: no_pending_def split: prod.splits if_split_asm)

lemma kept_boundary [simp]: "kept rc a (w\<lparr>wi_output_frame_boundary := v\<rparr>) = kept rc a w" "kept rc (w\<lparr>wi_output_frame_boundary := v\<rparr>) b = kept rc w b"
  by (simp_all add: kept_def wire_core_def buffers_def)

lemma kept_rx [simp]: "length q = length (wi_rx_control w) \<Longrightarrow> kept rc a (w\<lparr>wi_rx_control := q\<rparr>) = kept rc a w"
  by (simp add: kept_def wire_core_def buffers_def)

text \<open>The I/O callbacks made by an exchange are covered by the attempts it took from its budget.\<close>

definition spent :: "('h \<Rightarrow> nat) \<Rightarrow> budget \<Rightarrow> budget \<Rightarrow> 'h \<Rightarrow> 'h \<Rightarrow> bool" where
  "spent n b b' h h' \<longleftrightarrow> n h' + unat (bd_attempts b) \<le> n h + unat (bd_attempts b') \<and>
     (unat (bd_attempts b) \<le> 8192 \<longrightarrow> unat (bd_attempts b') \<le> 8192)"

lemma spent_trans: "spent n a b h i \<Longrightarrow> spent n b c i j \<Longrightarrow> spent n a c h j"
  by (auto simp: spent_def)

lemma spent_less: "spent n a b h i \<Longrightarrow> n j \<le> n i \<Longrightarrow> spent n a b h j"
  by (simp add: spent_def)

lemma spent_same: "n h' \<le> n h \<Longrightarrow> spent n b b h h'"
  by (simp add: spent_def)

text \<open>A host with an observable that grows by at most one per transfer callback and not in the other callbacks.\<close>

locale counted_io =
  fixes io :: "'h wire_io" and n :: "'h \<Rightarrow> nat"
  assumes count_write: "io_write io p h = (e, k, h') \<Longrightarrow> n h' \<le> n h + 1"
    and count_read: "io_read io q h = (e, k, d, h') \<Longrightarrow> n h' \<le> n h + 1"
    and count_now: "io_now io h = (t, h') \<Longrightarrow> n h' \<le> n h"
    and count_yield: "n (io_yield io t h) \<le> n h"
    and count_pending: "io_pending io h = (e, v, h') \<Longrightarrow> n h' \<le> n h"
begin

lemma deadline_count: "deadline_check io b w h = (rc, w', h') \<Longrightarrow> n h' \<le> n h"
  using count_now by (auto simp: deadline_check_def split: prod.splits if_split_asm)

lemma pending_count: "no_pending io w h = (rc, w', h') \<Longrightarrow> n h' \<le> n h"
  using count_pending by (auto simp: no_pending_def split: prod.splits if_split_asm)

lemma permit_spent:
  assumes "permit io b w h = (rc, b', w', h')"
  shows "spent n b b' h h'" "rc = WIRE_OK \<Longrightarrow> n g \<le> n h' + 1 \<Longrightarrow> spent n b b' h g"
proof -
  obtain r w1 h1 where d: "deadline_check io b w h = (r, w1, h1)" by (cases "deadline_check io b w h")
  have h: "h' = h1" "rc \<noteq> WIRE_OK \<Longrightarrow> b' = b" using assms d by (auto simp: permit_def split: if_split_asm)
  have n: "n h' \<le> n h" using deadline_count [OF d] h by simp
  have ok: "unat (bd_attempts b) < 8192 \<and> unat (bd_attempts b') = unat (bd_attempts b) + 1" if "rc = WIRE_OK"
    using permit_attempts [of io b w h b' w' h'] assms that by (simp add: word_less_nat_alt)
  show "spent n b b' h h'" using n ok h(2) by (cases "rc = WIRE_OK") (auto simp: spent_def)
  show "rc = WIRE_OK \<Longrightarrow> n g \<le> n h' + 1 \<Longrightarrow> spent n b b' h g" using n ok by (auto simp: spent_def)
qed

text \<open>One round of either loop: what the attempt, the transfer and the second check do.\<close>

lemma round_ok:
  assumes a: "permit io b w h = (WIRE_OK, b1, w1, h1)" and t: "n h2 \<le> n h1 + 1" and w: "kept WIRE_OK w1 w2"
    and d: "deadline_check io b1 w2 h2 = (r3, w3, h3)"
  shows "kept WIRE_OK w w2 \<and> spent n b b1 h h2 \<and> kept r3 w w3 \<and> spent n b b1 h h3 \<and> spent n b b1 h (if z then io_yield io v h3 else h3)"
proof -
  have "kept WIRE_OK w w2" by (rule kept_trans [OF kept_permit [OF a] w])
  moreover have "spent n b b1 h h2" by (rule permit_spent(2) [OF a refl t])
  moreover have "n h3 \<le> n h2" by (rule deadline_count [OF d])
  moreover have "n (io_yield io v h3) \<le> n h2" using count_yield [of v h3] \<open>n h3 \<le> n h2\<close> by simp
  ultimately show ?thesis using kept_trans [OF _ kept_deadline [OF d]] spent_less [of n b b1 h h2] by simp
qed

lemma write_span_exchange: "write_span io p fin offset b w h = (rc, b', w', h') \<Longrightarrow> kept rc w w' \<and> spent n b b' h h'"
proof (induction "8192 - unat (bd_attempts b)" arbitrary: offset b w h rule: less_induct)
  case less
  show ?case
  proof (cases "offset < length p")
    case True
    obtain r1 b1 w1 h1 where a: "permit io b w h = (r1, b1, w1, h1)" by (cases "permit io b w h")
    let ?q = "min WIRE_IO_MAX (length p - offset)"
    obtain err k h2 where i: "io_write io (part offset ?q p) h1 = (err, k, h2)" by (cases "io_write io (part offset ?q p) h1")
    define w2 where "w2 = (if fin \<and> offset + k = length p then w1\<lparr>wi_output_frame_boundary := True\<rparr> else w1)"
    obtain r3 w3 h3 where d: "deadline_check io b1 w2 h2 = (r3, w3, h3)" by (cases "deadline_check io b1 w2 h2")
    note e = less.prems [unfolded write_span.simps [of io p fin offset] if_P [OF True] a prod.case Let_def i w2_def [symmetric] d]
    show ?thesis
    proof (cases "r1 = WIRE_OK")
      case False
      then show ?thesis using e kept_permit [OF a] permit_spent(1) [OF a] by simp
    next
      case ok: True
      have "kept WIRE_OK w1 w2" by (simp add: w2_def)
      note r = round_ok [OF a [unfolded ok] count_write [OF i] this d, of "k = 0" 250]
      have less': "8192 - unat (bd_attempts b1) < 8192 - unat (bd_attempts b)"
        using permit_attempts [OF a [unfolded ok]] by (simp add: word_less_nat_alt)
      consider (over) "?q < k" | (err) "\<not> ?q < k" "err" | (late) "\<not> ?q < k" "\<not> err" "r3 \<noteq> WIRE_OK" | (on) "\<not> ?q < k" "\<not> err" "r3 = WIRE_OK" by blast
      then show ?thesis
      proof cases
        case over
        have "kept WIRE_OK w w1" using kept_permit [OF a] ok by simp
        then show ?thesis using over e ok r kept_fail by auto
      next
        case err then show ?thesis using e ok r kept_fail by auto
      next
        case late then show ?thesis using e ok r by auto
      next
        case on
        then have "write_span io p fin (offset + k) b1 w3 (if k = 0 then io_yield io 250 h3 else h3) = (rc, b', w', h')" using e ok by simp
        from less.hyps [OF less' this] show ?thesis using kept_trans [of w w3] spent_trans r on by metis
      qed
    qed
  next
    case False
    then show ?thesis using less.prems by (simp add: write_span.simps spent_same)
  qed
qed

lemma read_from_exchange: "read_from io base m offset b w h = (rc, b', w', h') \<Longrightarrow> kept rc w w' \<and> spent n b b' h h'"
proof (induction "8192 - unat (bd_attempts b)" arbitrary: offset b w h rule: less_induct)
  case less
  show ?case
  proof (cases "offset < m")
    case True
    obtain r1 b1 w1 h1 where a: "permit io b w h = (r1, b1, w1, h1)" by (cases "permit io b w h")
    let ?q = "min WIRE_IO_MAX (m - offset)"
    obtain err k data h2 where i: "io_read io ?q h1 = (err, k, data, h2)" by (cases "io_read io ?q h1")
    define w2 where "w2 = w1\<lparr>wi_rx_control := blit (base + offset) (take ?q data) (wi_rx_control w1)\<rparr>"
    obtain r3 w3 h3 where d: "deadline_check io b1 w2 h2 = (r3, w3, h3)" by (cases "deadline_check io b1 w2 h2")
    note e = less.prems [unfolded read_from.simps [of io base m offset] if_P [OF True] a prod.case Let_def i w2_def [symmetric] d]
    show ?thesis
    proof (cases "r1 = WIRE_OK")
      case False
      then show ?thesis using e kept_permit [OF a] permit_spent(1) [OF a] by simp
    next
      case ok: True
      have "kept WIRE_OK w1 w2" by (simp add: w2_def)
      note r = round_ok [OF a [unfolded ok] count_read [OF i] this d, of "k = 0" 250]
      have less': "8192 - unat (bd_attempts b1) < 8192 - unat (bd_attempts b)"
        using permit_attempts [OF a [unfolded ok]] by (simp add: word_less_nat_alt)
      consider (bad) "?q < k \<or> err" | (late) "\<not> (?q < k \<or> err)" "r3 \<noteq> WIRE_OK" | (on) "\<not> (?q < k \<or> err)" "r3 = WIRE_OK" by blast
      then show ?thesis
      proof cases
        case bad then show ?thesis using e ok r kept_fail by auto
      next
        case late then show ?thesis using e ok r unfolding if_not_P [OF late(1)] by auto
      next
        case on
        then have "read_from io base m (offset + k) b1 w3 (if k = 0 then io_yield io 250 h3 else h3) = (rc, b', w', h')"
          using e ok unfolding if_not_P [OF on(1)] by simp
        from less.hyps [OF less' this] show ?thesis using kept_trans [of w w3] spent_trans r on by metis
      qed
    qed
  next
    case False
    then show ?thesis using less.prems by (simp add: read_from.simps spent_same)
  qed
qed

lemma write_parts_exchange: "write_parts io ps b w h = (rc, b', w', h') \<Longrightarrow> kept rc w w' \<and> spent n b b' h h'"
proof (induction ps arbitrary: b w h)
  case (Cons p ps)
  obtain r b1 w1 h1 where a: "write_span io p (ps = []) 0 b w h = (r, b1, w1, h1)" by (cases "write_span io p (ps = []) 0 b w h")
  note x = write_span_exchange [OF a]
  show ?case
  proof (cases "r = WIRE_OK")
    case True
    then have "write_parts io ps b1 w1 h1 = (rc, b', w', h')" using Cons.prems a by simp
    from Cons.IH [OF this] show ?thesis using x True kept_trans [of w w1] spent_trans by metis
  qed (use Cons.prems a x in simp)
qed (simp add: spent_same)

lemma write_exchange: "write_spans io ps b w h = (rc, b', w', h') \<Longrightarrow> kept rc w w' \<and> spent n b b' h h'"
  using write_parts_exchange [of ps b "w\<lparr>wi_output_frame_boundary := False\<rparr>" h] by (simp add: write_spans_def)

lemma read_exchange: "read_exact io base m b w h = (rc, b', w', h') \<Longrightarrow> kept rc w w' \<and> spent n b b' h h'"
  using read_from_exchange [of base m 0 b w h] by (simp add: read_exact_def)

lemma budget_fresh: "new_budget io data w h = (b, h') \<Longrightarrow> bd_attempts b = 0 \<and> n h' \<le> n h"
  using count_now by (auto simp: new_budget_def Let_def split: prod.splits)

lemma admit_exchange:
  assumes "wire_admit io b w h = (rc, w', h')"
  shows "kept rc w w' \<and> n h' \<le> n h"
proof -
  obtain r1 w1 h1 where a: "deadline_check io b w h = (r1, w1, h1)" by (cases "deadline_check io b w h")
  obtain r2 w2 h2 where p: "no_pending io w1 h1 = (r2, w2, h2)" by (cases "no_pending io w1 h1")
  note x = kept_deadline [OF a] deadline_count [OF a] kept_pending [OF p] pending_count [OF p]
  show ?thesis
  proof (cases "r1 = WIRE_OK \<and> r2 = WIRE_OK")
    case True
    then have d: "deadline_check io b w2 h2 = (rc, w', h')" using assms a p by (simp add: wire_admit_def)
    show ?thesis using kept_trans [OF kept_trans kept_deadline [OF d], of w w1] deadline_count [OF d] x True by simp
  next
    case False
    then show ?thesis using assms a p x kept_trans [of w w1] by (auto simp: wire_admit_def split: if_split_asm)
  qed
qed

lemma kept_verdict: "ack_verdict c pages w = (rc, w') \<Longrightarrow> kept rc w w'"
  by (auto simp: ack_verdict_def Let_def split: if_split_asm) (simp add: kept_def fail_def wire_core_def buffers_def)

lemma ack_exchange:
  assumes "receive_ack cfg io sequence row c pages b w h = (rc, b', w', h')"
  shows "kept rc w w' \<and> spent n b b' h h'"
proof -
  obtain r1 b1 w1 h1 where 1: "read_exact io 0 48 b w h = (r1, b1, w1, h1)" by (cases "read_exact io 0 48 b w h")
  define m where "m = unat (get16 34 (wi_rx_control w1))"
  obtain r2 b2 w2 h2 where 2: "read_exact io 48 m b1 w1 h1 = (r2, b2, w2, h2)" by (cases "read_exact io 48 m b1 w1 h1")
  obtain r3 w3 h3 where 3: "no_pending io w2 h2 = (r3, w3, h3)" by (cases "no_pending io w2 h2")
  obtain r4 w4 h4 where 4: "deadline_check io b2 w3 h3 = (r4, w4, h4)" by (cases "deadline_check io b2 w3 h3")
  obtain r5 w5 where 5: "ack_verdict c pages w4 = (r5, w5)" by (cases "ack_verdict c pages w4")
  note x1 = read_exchange [OF 1] and x2 = read_exchange [OF 2]
  have y2: "r1 = WIRE_OK \<Longrightarrow> kept r2 w w2 \<and> spent n b b2 h h2" using x1 x2 kept_trans [of w w1] spent_trans by metis
  have n3: "n h3 \<le> n h2" "n h4 \<le> n h2" using pending_count [OF 3] deadline_count [OF 4] by simp_all
  have y3: "r1 = WIRE_OK \<Longrightarrow> r2 = WIRE_OK \<Longrightarrow> kept r3 w w3 \<and> spent n b b2 h h3"
    using y2 kept_pending [OF 3] kept_trans [of w w2] spent_less [of n b b2 h h2 h3] n3 by blast
  have y4: "r1 = WIRE_OK \<Longrightarrow> r2 = WIRE_OK \<Longrightarrow> r3 = WIRE_OK \<Longrightarrow> kept r4 w w4 \<and> spent n b b2 h h4"
    using y2 y3 kept_deadline [OF 4] kept_trans [of w w3] spent_less [of n b b2 h h2 h4] n3 by blast
  have y5: "r1 = WIRE_OK \<Longrightarrow> r2 = WIRE_OK \<Longrightarrow> r3 = WIRE_OK \<Longrightarrow> r4 = WIRE_OK \<Longrightarrow> kept r5 w w5"
    using y4 kept_verdict [OF 5] kept_trans [of w w4] by blast
  show ?thesis
    using assms [unfolded receive_ack_def 1 prod.case m_def [symmetric] Let_def 2 3 4 5] x1 y2 y3 y4 y5 kept_fail [of w]
    by (auto split: if_split_asm)
qed

lemma frame_exchange:
  assumes "wire_frame cfg io kind fs b w h = (sequence, c, rc, b', w', h')"
  shows "kept rc w w' \<and> spent n b b' h h' \<and> sequence = wi_events_sent w + 1"
proof -
  define w1 where "w1 = serialize fs (wc_words cfg) w"
  define body where "body = part 0 (4 * wc_words cfg) (wi_tx_metadata w1)"
  obtain c2 w2 where f: "frame_header cfg kind (wi_events_sent w1 + 1) [body] (of_nat (4 * wc_words cfg)) w1 = (c2, w2)" by fastforce
  have len: "length (foldl (\<lambda>p i. put32 (4 * i) (fs ! i) p) q xs) = length q" for q xs
    by (induction xs arbitrary: q) (simp_all add: put32_def)
  have "kept WIRE_OK w w1" unfolding w1_def serialize_def by (simp add: kept_def wire_core_def buffers_def len)
  moreover have "kept WIRE_OK w1 w2" using f by (auto simp: frame_header_def Let_def kept_def wire_core_def buffers_def put16_def put32_def)
  ultimately have k: "kept WIRE_OK w w2" by (rule kept_trans)
  have e: "write_spans io [wi_tx_header w2, body] b w2 h = (rc, b', w', h')" "sequence = wi_events_sent w1 + 1"
    using assms unfolding wire_frame_def Let_def w1_def [symmetric] body_def [symmetric] f by (simp_all split: prod.splits)
  show ?thesis using write_exchange [OF e(1)] kept_trans [OF k] e(2) by (simp add: w1_def serialize_def)
qed

lemma spent_bound: "spent n b b' h h' \<Longrightarrow> bd_attempts b = 0 \<Longrightarrow> n h' \<le> n h + 8192"
  by (simp add: spent_def)

lemma handshake_exchange:
  assumes i: "wi_initialized w" and e: "wire_handshake cfg io w h = (rc, w', h')"
  shows "(\<exists>s a v. kept rc (w\<lparr>wi_handshake_started := s, wi_nonce := a, wi_hello_received := v\<rparr>) w') \<and> n h' \<le> n h + 8192"
proof (cases "wi_handshake_started w")
  case True
  then have r: "rc = WIRE_STATE" "w' = fail WIRE_STATE False w" "h' = h" using i e by (auto simp: wire_handshake_def)
  show ?thesis unfolding r
    by (intro conjI exI [of _ "wi_handshake_started w"] exI [of _ "wi_nonce w"] exI [of _ "wi_hello_received w"]) simp_all
next
  case False
  define w0 where "w0 = w\<lparr>wi_handshake_started := True\<rparr>"
  obtain b h0 where b: "new_budget io False w0 h = (b, h0)" by fastforce
  obtain r1 b1 w1 h1 where 1: "write_spans io [wc_ready cfg] b w0 h0 = (r1, b1, w1, h1)" by (cases "write_spans io [wc_ready cfg] b w0 h0")
  obtain r2 b2 w2 h2 where 2: "read_exact io 0 48 b1 w1 h1 = (r2, b2, w2, h2)" by (cases "read_exact io 0 48 b1 w1 h1")
  obtain r3 w3 h3 where 3: "no_pending io w2 h2 = (r3, w3, h3)" by (cases "no_pending io w2 h2")
  obtain r4 w4 h4 where 4: "deadline_check io b2 w3 h3 = (r4, w4, h4)" by (cases "deadline_check io b2 w3 h3")
  note x1 = write_exchange [OF 1] and x2 = read_exchange [OF 2] and b0 = budget_fresh [OF b]
  have y2: "r1 = WIRE_OK \<Longrightarrow> kept r2 w0 w2" using x1 x2 kept_trans [of w0 w1] by metis
  have y3: "r1 = WIRE_OK \<Longrightarrow> r2 = WIRE_OK \<Longrightarrow> kept r3 w0 w3" using y2 kept_pending [OF 3] kept_trans [of w0 w2] by blast
  have y4: "r1 = WIRE_OK \<Longrightarrow> r2 = WIRE_OK \<Longrightarrow> r3 = WIRE_OK \<Longrightarrow> kept r4 w0 w4"
    using y2 y3 kept_deadline [OF 4] kept_trans [of w0 w3] by blast
  have "n h1 \<le> n h0 + 8192" "n h2 \<le> n h0 + 8192"
    using spent_bound [of b b1 h0 h1] spent_bound [OF spent_trans, of b b1 h0 h1 b2 h2] x1 x2 b0 by simp_all
  then have m: "n h1 \<le> n h + 8192" "n h2 \<le> n h + 8192" "n h3 \<le> n h + 8192" "n h4 \<le> n h + 8192"
    using b0 pending_count [OF 3] deadline_count [OF 4] by simp_all
  let ?g = "w4\<lparr>wi_nonce := part 16 16 (wi_rx_control w4), wi_hello_received := True\<rparr>"
  have fin: "kept WIRE_OK w0 w4 \<Longrightarrow> kept WIRE_OK (w0\<lparr>wi_nonce := wi_nonce ?g, wi_hello_received := True\<rparr>) ?g"
    by (simp add: kept_def wire_core_def buffers_def)
  have "(kept rc w0 w' \<or> (rc = WIRE_OK \<and> w' = ?g \<and> kept WIRE_OK w0 w4)) \<and> n h' \<le> n h + 8192"
    using e i False m x1 y2 y3 y4 kept_fail [of w0]
    unfolding wire_handshake_def Let_def w0_def [symmetric] b 1 2 3 4 prod.case by (auto split: if_split_asm)
  moreover have "w0 = w\<lparr>wi_handshake_started := True, wi_nonce := wi_nonce w, wi_hello_received := wi_hello_received w\<rparr>" by (simp add: w0_def)
  moreover have "w0\<lparr>wi_nonce := a, wi_hello_received := v\<rparr> = w\<lparr>wi_handshake_started := True, wi_nonce := a, wi_hello_received := v\<rparr>" for a v
    by (simp add: w0_def)
  ultimately show ?thesis using fin by metis
qed

lemma arm_exchange:
  assumes "wi_initialized w" and "wire_arm_data_deadline cfg io t w h = (rc, w', h')"
  shows "(\<exists>a v. kept rc (w\<lparr>wi_data_deadline := a, wi_deadline_armed := v\<rparr>) w') \<and> n h' \<le> n h + 8192"
proof -
  have "(rc = WIRE_OK \<and> w' = w\<lparr>wi_data_deadline := t, wi_deadline_armed := True\<rparr> \<or> kept rc w w') \<and> n h' \<le> n h + 8192"
    using assms count_now [of h] by (auto simp: wire_arm_data_deadline_def split: if_split_asm prod.splits)
  moreover have "w = w\<lparr>wi_data_deadline := wi_data_deadline w, wi_deadline_armed := wi_deadline_armed w\<rparr>" by simp
  ultimately show ?thesis using kept_refl by metis
qed

lemma check_exchange:
  assumes "wi_initialized w" and "wire_check io w h = (rc, w', h')"
  shows "kept rc w w' \<and> n h' \<le> n h + 8192"
proof (cases "data_admitted w")
  case True
  obtain b h0 where b: "new_budget io True w h = (b, h0)" by fastforce
  have "wire_admit io b w h0 = (rc, w', h')" using assms True b by (simp add: wire_check_def)
  from admit_exchange [OF this] show ?thesis using budget_fresh [OF b] by simp
qed (use assms in \<open>auto simp: wire_check_def\<close>)

end

text \<open>Any host, observed by a constant, and any host with its transfer callbacks counted.\<close>

definition counted :: "'h wire_io \<Rightarrow> ('h \<times> nat) wire_io" where
  "counted io = \<lparr>io_write = (\<lambda>p (h, k). case io_write io p h of (e, c, h) \<Rightarrow> (e, c, h, k + 1)),
     io_read = (\<lambda>q (h, k). case io_read io q h of (e, c, d, h) \<Rightarrow> (e, c, d, h, k + 1)),
     io_now = (\<lambda>(h, k). case io_now io h of (t, h) \<Rightarrow> (t, h, k)), io_yield = (\<lambda>t (h, k). (io_yield io t h, k)),
     io_pending = (\<lambda>(h, k). case io_pending io h of (e, v, h) \<Rightarrow> (e, v, h, k))\<rparr>"

interpretation any: counted_io io "\<lambda>_. 0" for io
  by unfold_locales simp_all

interpretation cnt: counted_io "counted io" snd for io
  by unfold_locales (auto simp: counted_def split: prod.splits)

end
