(* ===== verification/Wire_Session.thy ===== *)
theory Wire_Session
  imports Wire_Transport
begin

text \<open>
  What the operations PROGRESS and END of the two rate transports share: the exchange of an event frame and of the final
  frame, and the contract of a session.  The locale \<open>rate_session\<close> states what one call of such a transport does to the flags
  that decide on the console; its lemmas say when the console is released and how many transfer callbacks a session makes.
\<close>

section \<open>Event and final frames\<close>

text \<open>The common tail of \<open>nrr_wire_progress\<close> and \<open>nwr_wire_progress\<close>: \<open>upd\<close> is what a complete transmission records.\<close>

definition wire_event ::
  "wire_config \<Rightarrow> 'h wire_io \<Rightarrow> u32 list \<Rightarrow> ('a wire_scheme \<Rightarrow> 'a wire_scheme) \<Rightarrow> budget \<Rightarrow> 'a wire_scheme \<Rightarrow> 'h \<Rightarrow> wire_rc \<times> 'a wire_scheme \<times> 'h" where
  "wire_event cfg io f upd b w h =
    (case wire_admit io b w h of (rc, w, h) \<Rightarrow>
     if rc \<noteq> WIRE_OK then (rc, w, h)
     else case wire_frame cfg io PROGRESS f b w h of (sequence, crc, rc, b, w, h) \<Rightarrow>
     let w = (if wi_output_frame_boundary w then upd w else w) in
     if rc \<noteq> WIRE_OK then (rc, w, h)
     else case receive_ack cfg io sequence 65536 crc (ucast sequence) b w h of (rc, b, w, h) \<Rightarrow>
     if rc = WIRE_OK then (WIRE_OK, w\<lparr>wi_events_acked := wi_events_acked w + 1\<rparr>, h) else (rc, w, h))"

text \<open>The common tail of the two \<open>finish\<close> operations.\<close>

definition wire_end :: "wire_config \<Rightarrow> 'h wire_io \<Rightarrow> u32 list \<Rightarrow> bool \<Rightarrow> 'a wire_scheme \<Rightarrow> 'h \<Rightarrow> wire_rc \<times> 'a wire_scheme \<times> 'h" where
  "wire_end cfg io f clean w h =
    (let (b, h) = new_budget io False w h in
     case wire_admit io b w h of (rc, w, h) \<Rightarrow>
     if rc \<noteq> WIRE_OK then (rc, w, h)
     else case wire_frame cfg io END f b w h of (sequence, crc, rc, b, w, h) \<Rightarrow>
     let w = (if wi_output_frame_boundary w then w\<lparr>wi_end_sent := True\<rparr> else w) in
     if rc \<noteq> WIRE_OK then (rc, w, h)
     else if \<not> clean then (WIRE_OK, w\<lparr>wi_data_stopped := True\<rparr>, h)
     else case receive_ack cfg io sequence 65536 crc (ucast (wi_events_acked w)) b w h of (rc, b, w, h) \<Rightarrow>
     if rc = WIRE_OK then (WIRE_OK, w\<lparr>wi_clean_end_acknowledged := True, wi_console_reuse_allowed := True, wi_quarantined := False\<rparr>, h)
     else (rc, w, h))"

text \<open>The guard of \<open>finish\<close> on the state of the transport.\<close>

definition end_admitted :: "'a wire_scheme \<Rightarrow> bool" where
  "end_admitted w \<longleftrightarrow> wi_hello_received w \<and> wi_transport_usable w \<and> wi_output_frame_boundary w \<and> \<not> wi_end_attempted w"

section \<open>The contract of a call\<close>

datatype wire_class = Plain | Event | End bool

definition flags_kept :: "'a wire_scheme \<Rightarrow> 'a wire_scheme \<Rightarrow> bool" where
  "flags_kept w w' \<longleftrightarrow> wi_data_stopped w' = wi_data_stopped w \<and> wi_quarantined w' = wi_quarantined w \<and>
     wi_console_reuse_allowed w' = wi_console_reuse_allowed w \<and> wi_clean_end_acknowledged w' = wi_clean_end_acknowledged w"

definition stepped :: "wire_class \<Rightarrow> wire_rc \<Rightarrow> 'a wire_scheme \<Rightarrow> 'a wire_scheme \<Rightarrow> bool" where
  "stepped c rc w w' \<longleftrightarrow> wi_initialized w' \<and> buffers w' = buffers w \<and> (wi_end_attempted w \<longrightarrow> wi_end_attempted w') \<and>
     (if rc \<noteq> WIRE_OK then wi_data_stopped w' \<and> wi_quarantined w' \<and> \<not> wi_console_reuse_allowed w'
      else case c of
        Plain \<Rightarrow> flags_kept w w' \<and> wi_events_acked w' = wi_events_acked w
      | Event \<Rightarrow> flags_kept w w' \<and> \<not> wi_end_attempted w \<and> wi_events_acked w < 32 \<and> wi_events_acked w' = wi_events_acked w + 1
      | End clean \<Rightarrow> \<not> wi_end_attempted w \<and> wi_end_attempted w' \<and> wi_events_acked w' = wi_events_acked w \<and>
          (if clean then \<not> wi_data_stopped w \<and> \<not> wi_data_stopped w' \<and> wi_console_reuse_allowed w' \<and> \<not> wi_quarantined w' \<and>
             wi_clean_end_acknowledged w'
           else wi_data_stopped w' \<and> wi_quarantined w' = wi_quarantined w \<and> wi_console_reuse_allowed w' = wi_console_reuse_allowed w))"

lemma kept_flags:
  assumes "kept rc w w'"
  shows "wi_initialized w' = wi_initialized w" "buffers w' = buffers w" "wi_end_attempted w' = wi_end_attempted w"
    "wi_events_acked w' = wi_events_acked w" "wi_clean_end_acknowledged w' = wi_clean_end_acknowledged w"
    "rc = WIRE_OK \<Longrightarrow> flags_kept w w'"
    "rc \<noteq> WIRE_OK \<Longrightarrow> wi_data_stopped w' \<and> wi_quarantined w' \<and> \<not> wi_console_reuse_allowed w'"
  using assms unfolding kept_def wire_core_def flags_kept_def by simp_all

lemma stepped_kept:
  assumes k: "kept rc v w'" and i: "wi_initialized w"
    and v: "wi_initialized v = wi_initialized w" "buffers v = buffers w" "wi_end_attempted v = wi_end_attempted w"
      "wi_events_acked v = wi_events_acked w" "flags_kept w v"
  shows "stepped Plain rc w w'"
  using kept_flags [OF k] v i unfolding stepped_def flags_kept_def by simp

lemma stepped_fail: "wi_initialized w \<Longrightarrow> rc \<noteq> WIRE_OK \<Longrightarrow> kept rc w w' \<Longrightarrow> stepped c rc w w'"
  using kept_flags [of rc w w'] by (simp add: stepped_def)

text \<open>An update that touches only the transport's own bookkeeping.\<close>

definition quiet_update :: "('a wire_scheme \<Rightarrow> 'a wire_scheme) \<Rightarrow> bool" where
  "quiet_update upd \<longleftrightarrow> (\<forall>w. wi_initialized (upd w) = wi_initialized w \<and> buffers (upd w) = buffers w \<and> wi_end_attempted (upd w) = wi_end_attempted w \<and>
     wi_events_acked (upd w) = wi_events_acked w \<and> flags_kept w (upd w))"

context counted_io
begin

lemma event_step:
  assumes i: "wi_initialized w" and u: "quiet_update upd" and b: "bd_attempts b = 0" and room: "wi_events_acked w < 32" "\<not> wi_end_attempted w"
    and e: "wire_event cfg io f upd b w h = (rc, w', h')"
  shows "stepped Event rc w w' \<and> n h' \<le> n h + 8192"
proof -
  obtain r2 w2 h2 where 2: "wire_admit io b w h = (r2, w2, h2)" by (cases "wire_admit io b w h")
  obtain sq c r3 b3 w3 h3 where 3: "wire_frame cfg io PROGRESS f b w2 h2 = (sq, c, r3, b3, w3, h3)" by (cases "wire_frame cfg io PROGRESS f b w2 h2")
  define w4 where "w4 = (if wi_output_frame_boundary w3 then upd w3 else w3)"
  obtain r5 b5 w5 h5 where 5: "receive_ack cfg io sq 65536 c (ucast sq) b3 w4 h3 = (r5, b5, w5, h5)"
    by (cases "receive_ack cfg io sq 65536 c (ucast sq) b3 w4 h3")
  note x2 = admit_exchange [OF 2] and x3 = frame_exchange [OF 3] and x5 = ack_exchange [OF 5]
  have m: "n h2 \<le> n h + 8192" "n h3 \<le> n h + 8192" "n h5 \<le> n h + 8192"
    using b x2 spent_bound [of b b3 h2 h3] spent_bound [of b b5 h2 h5] spent_trans [of n b b3 h2 h3 b5 h5] x3 x5 by auto
  have y3: "r2 = WIRE_OK \<Longrightarrow> kept r3 w w3" using x2 x3 kept_trans [of w w2] by blast
  have y4: "wi_initialized w4 = wi_initialized w3 \<and> buffers w4 = buffers w3 \<and> wi_end_attempted w4 = wi_end_attempted w3 \<and>
      wi_events_acked w4 = wi_events_acked w3 \<and> flags_kept w3 w4" using u by (simp add: w4_def quiet_update_def flags_kept_def)
  have s3: "stepped Event r3 w w4" if "r2 = WIRE_OK" "r3 \<noteq> WIRE_OK"
    using kept_flags [OF y3 [OF that(1)]] that(2) y4 i by (simp add: stepped_def flags_kept_def)
  have s5: "stepped Event r5 w (if r5 = WIRE_OK then w5\<lparr>wi_events_acked := wi_events_acked w5 + 1\<rparr> else w5)" if "r2 = WIRE_OK" "r3 = WIRE_OK"
    using kept_flags [OF y3 [OF that(1)]] kept_flags [OF conjunct1 [OF x5]] that(2) y4 i room by (simp add: stepped_def flags_kept_def buffers_def)
  have e': "(rc, w', h') = (if r2 \<noteq> WIRE_OK then (r2, w2, h2) else if r3 \<noteq> WIRE_OK then (r3, w4, h3)
      else if r5 = WIRE_OK then (WIRE_OK, w5\<lparr>wi_events_acked := wi_events_acked w5 + 1\<rparr>, h5) else (r5, w5, h5))"
    using e unfolding wire_event_def Let_def 2 3 w4_def [symmetric] 5 prod.case by auto
  show ?thesis using e' m s3 s5 x2 stepped_fail [OF i, of r2 w2] by (auto split: if_split_asm)
qed

lemma end_step:
  assumes i: "wi_initialized w" and a: "\<not> wi_end_attempted w" and w0: "w0 = w\<lparr>wi_end_attempted := True\<rparr>"
    and c: "clean \<Longrightarrow> \<not> wi_data_stopped w" and e: "wire_end cfg io f clean w0 h = (rc, w', h')"
  shows "stepped (End clean) rc w w' \<and> n h' \<le> n h + 8192"
proof -
  have v: "wi_initialized w0" "buffers w0 = buffers w" "wi_end_attempted w0" "wi_events_acked w0 = wi_events_acked w" "flags_kept w w0"
    by (simp_all add: w0 i buffers_def flags_kept_def)
  have failed: "stepped (End clean) r w x" if "kept r w0 x" "r \<noteq> WIRE_OK" for r x
    using kept_flags [OF that(1)] that(2) v by (simp add: stepped_def)
  obtain b h1 where b: "new_budget io False w0 h = (b, h1)" by fastforce
  obtain r2 w2 h2 where 2: "wire_admit io b w0 h1 = (r2, w2, h2)" by (cases "wire_admit io b w0 h1")
  obtain sq c r3 b3 w3 h3 where 3: "wire_frame cfg io END f b w2 h2 = (sq, c, r3, b3, w3, h3)" by (cases "wire_frame cfg io END f b w2 h2")
  define w4 where "w4 = (if wi_output_frame_boundary w3 then w3\<lparr>wi_end_sent := True\<rparr> else w3)"
  obtain r5 b5 w5 h5 where 5: "receive_ack cfg io sq 65536 c (ucast (wi_events_acked w4)) b3 w4 h3 = (r5, b5, w5, h5)"
    by (cases "receive_ack cfg io sq 65536 c (ucast (wi_events_acked w4)) b3 w4 h3")
  note x2 = admit_exchange [OF 2] and x3 = frame_exchange [OF 3] and x5 = ack_exchange [OF 5]
  have m: "n h2 \<le> n h + 8192" "n h3 \<le> n h + 8192" "n h5 \<le> n h + 8192"
    using budget_fresh [OF b] x2 spent_bound [of b b3 h2 h3] spent_bound [of b b5 h2 h5] spent_trans [of n b b3 h2 h3 b5 h5] x3 x5 by auto
  have y3: "r2 = WIRE_OK \<Longrightarrow> kept r3 w0 w3" using x2 x3 kept_trans [of w0 w2] by blast
  have y4: "wi_initialized w4 = wi_initialized w3 \<and> buffers w4 = buffers w3 \<and> wi_end_attempted w4 = wi_end_attempted w3 \<and>
      wi_events_acked w4 = wi_events_acked w3 \<and> flags_kept w3 w4" by (simp add: w4_def buffers_def flags_kept_def)
  note f5 = kept_flags [OF conjunct1 [OF x5]]
  have s3: "stepped (End clean) r3 w w4" if "r2 = WIRE_OK" "r3 \<noteq> WIRE_OK"
    using kept_flags [OF y3 [OF that(1)]] that(2) y4 v by (simp add: stepped_def flags_kept_def)
  have s4: "stepped (End False) WIRE_OK w (w4\<lparr>wi_data_stopped := True\<rparr>)" if "r2 = WIRE_OK" "r3 = WIRE_OK"
    using kept_flags [OF y3 [OF that(1)]] that(2) y4 v a by (simp add: stepped_def flags_kept_def buffers_def)
  have s5: "stepped (End clean) r5 w w5" if "r2 = WIRE_OK" "r3 = WIRE_OK" "r5 \<noteq> WIRE_OK"
    using kept_flags [OF y3 [OF that(1)]] f5 that(2,3) y4 v by (simp add: stepped_def flags_kept_def)
  have s6: "stepped (End True) WIRE_OK w (w5\<lparr>wi_clean_end_acknowledged := True, wi_console_reuse_allowed := True, wi_quarantined := False\<rparr>)"
    if "\<not> wi_data_stopped w" "r2 = WIRE_OK" "r3 = WIRE_OK" "r5 = WIRE_OK"
    using kept_flags [OF y3 [OF that(2)]] f5 that(1,3,4) y4 v a by (simp add: stepped_def flags_kept_def buffers_def)
  have e': "(rc, w', h') = (if r2 \<noteq> WIRE_OK then (r2, w2, h2) else if r3 \<noteq> WIRE_OK then (r3, w4, h3)
      else if \<not> clean then (WIRE_OK, w4\<lparr>wi_data_stopped := True\<rparr>, h3)
      else if r5 = WIRE_OK then (WIRE_OK, w5\<lparr>wi_clean_end_acknowledged := True, wi_console_reuse_allowed := True, wi_quarantined := False\<rparr>, h5)
      else (r5, w5, h5))"
    using e unfolding wire_end_def Let_def b prod.case 2 3 w4_def [symmetric] 5 by auto
  show ?thesis
    by (cases "r2 = WIRE_OK"; cases "r3 = WIRE_OK"; cases clean; cases "r5 = WIRE_OK") (use e' m s3 s4 s5 s6 c x2 failed in \<open>simp_all\<close>)
qed

lemma handshake_step: "wi_initialized w \<Longrightarrow> wire_handshake cfg io w h = (rc, w', h') \<Longrightarrow> stepped Plain rc w w' \<and> n h' \<le> n h + 8192"
  using handshake_exchange [of w cfg h rc w' h'] stepped_kept [of rc _ w' w] by (auto simp: buffers_def flags_kept_def)

lemma arm_step: "wi_initialized w \<Longrightarrow> wire_arm_data_deadline cfg io t w h = (rc, w', h') \<Longrightarrow> stepped Plain rc w w' \<and> n h' \<le> n h + 8192"
  using arm_exchange [of w cfg t h rc w' h'] stepped_kept [of rc _ w' w] by (auto simp: buffers_def flags_kept_def)

lemma check_step: "wi_initialized w \<Longrightarrow> wire_check io w h = (rc, w', h') \<Longrightarrow> stepped Plain rc w w' \<and> n h' \<le> n h + 8192"
  using check_exchange [of w h rc w' h'] stepped_kept [of rc w w' w] by (auto simp: flags_kept_def)

end

section \<open>Sessions\<close>

text \<open>The calls of a driver in order, with their results.\<close>

fun wire_run :: "('c \<Rightarrow> 'w \<Rightarrow> 'h \<Rightarrow> wire_rc \<times> 'w \<times> 'h) \<Rightarrow> 'c list \<Rightarrow> 'w \<Rightarrow> 'h \<Rightarrow> wire_rc list \<times> 'w \<times> 'h" where
  "wire_run call [] w h = ([], w, h)"
| "wire_run call (c # cs) w h = (let (rc, w, h) = call c w h; (rcs, w, h) = wire_run call cs w h in (rc # rcs, w, h))"

text \<open>A fresh transport after its \<open>init\<close>.\<close>

definition wire_fresh :: "'a wire_scheme \<Rightarrow> bool" where
  "wire_fresh w \<longleftrightarrow> wi_initialized w \<and> wi_quarantined w \<and> \<not> wi_console_reuse_allowed w \<and> wi_events_acked w = 0"

text \<open>What a client of a rate transport relies on: how a call moves the flags, and that a clean END succeeds only after the required
  number of acknowledged events and with good metadata.\<close>

locale rate_session =
  fixes call :: "'c \<Rightarrow> 'a wire_scheme \<Rightarrow> 'h \<Rightarrow> wire_rc \<times> 'a wire_scheme \<times> 'h"
    and class_of :: "'c \<Rightarrow> wire_class" and n :: "'h \<Rightarrow> nat" and required :: u16 and good :: "'c \<Rightarrow> bool"
  assumes call_step: "wi_initialized w \<Longrightarrow> call c w h = (rc, w', h') \<Longrightarrow> stepped (class_of c) rc w w' \<and> n h' \<le> n h + 8192"
    and clean_end: "wi_initialized w \<Longrightarrow> class_of c = End True \<Longrightarrow> call c w h = (WIRE_OK, w', h') \<Longrightarrow> wi_events_acked w = required \<and> good c"
begin

definition events :: "'c list \<Rightarrow> nat" where
  "events cs = length (filter (\<lambda>c. class_of c = Event) cs)"

definition session_ok :: "'c list \<Rightarrow> wire_rc list \<Rightarrow> 'a wire_scheme \<Rightarrow> bool" where
  "session_ok cs rcs w \<longleftrightarrow> wi_initialized w \<and> wi_console_reuse_allowed w = (\<not> wi_quarantined w) \<and> (set rcs \<subseteq> {WIRE_OK} \<or> wi_data_stopped w) \<and>
     (set rcs \<subseteq> {WIRE_OK} \<longrightarrow> unat (wi_events_acked w) = events cs) \<and>
     (wi_console_reuse_allowed w \<longrightarrow> \<not> wi_data_stopped w \<and> wi_end_attempted w \<and> wi_clean_end_acknowledged w \<and> wi_events_acked w = required \<and>
        (\<exists>c\<in>set cs. class_of c = End True \<and> good c))"

lemma session_ok_step:
  assumes s: "session_ok cs rcs w" and e: "call c w h = (rc, w', h')"
  shows "session_ok (cs @ [c]) (rcs @ [rc]) w'"
proof -
  have i: "wi_initialized w" using s by (simp add: session_ok_def)
  note t = conjunct1 [OF call_step [OF i e]]
  show ?thesis
  proof (cases "rc = WIRE_OK")
    case False
    then show ?thesis using t by (simp add: session_ok_def stepped_def)
  next
    case ok: True
    show ?thesis
    proof (cases "class_of c")
      case Plain
      then show ?thesis using s t ok by (auto simp: session_ok_def stepped_def flags_kept_def events_def)
    next
      case Event
      have a: "wi_events_acked w < 32" "wi_events_acked w' = wi_events_acked w + 1" "flags_kept w w'" "wi_initialized w'" "\<not> wi_end_attempted w"
        using t ok Event by (simp_all add: stepped_def)
      have "unat (wi_events_acked w') = unat (wi_events_acked w) + 1" using a(1,2) by (simp add: word_less_nat_alt unat_word_ariths)
      moreover have "\<not> wi_console_reuse_allowed w" using s a(5) by (auto simp: session_ok_def)
      ultimately show ?thesis using s a(3,4) Event ok by (auto simp: session_ok_def flags_kept_def events_def)
    next
      case (End clean)
      have "\<not> wi_console_reuse_allowed w" using s t ok End by (auto simp: session_ok_def stepped_def)
      moreover have "clean \<Longrightarrow> wi_events_acked w = required \<and> good c" using clean_end [OF i _ e [unfolded ok]] End by simp
      ultimately show ?thesis using s t ok End by (auto simp: session_ok_def stepped_def events_def split: if_split_asm)
    qed
  qed
qed

lemma session_ok_run:
  "wire_run call ds w h = (rds, w', h') \<Longrightarrow> session_ok cs rcs w \<Longrightarrow>
   session_ok (cs @ ds) (rcs @ rds) w' \<and> length rds = length ds \<and> n h' \<le> n h + 8192 * length ds"
proof (induction ds arbitrary: cs rcs w h rds w' h')
  case (Cons d ds)
  obtain rc w1 h1 where 1: "call d w h = (rc, w1, h1)" by (cases "call d w h")
  obtain ts w2 h2 where 2: "wire_run call ds w1 h1 = (ts, w2, h2)" by (cases "wire_run call ds w1 h1")
  have "wi_initialized w" using Cons.prems by (simp add: session_ok_def)
  note x = conjunct2 [OF call_step [OF this 1]]
  from Cons.IH [OF 2 session_ok_step [OF Cons.prems(2) 1]] show ?case using Cons.prems(1) 1 2 x by auto
qed simp

lemma fresh_ok: "wire_fresh w \<Longrightarrow> session_ok [] [] w"
  by (simp add: wire_fresh_def session_ok_def events_def)

lemma release:
  assumes "wire_fresh w" and "wire_run call cs w h = (rcs, w', h')"
  shows "wi_console_reuse_allowed w' = (\<not> wi_quarantined w') \<and>
    (wi_console_reuse_allowed w' \<longrightarrow> set rcs \<subseteq> {WIRE_OK} \<and> length (filter (\<lambda>c. class_of c = Event) cs) = unat required \<and>
      wi_events_acked w' = required \<and> wi_clean_end_acknowledged w' \<and> (\<exists>c\<in>set cs. class_of c = End True \<and> good c))"
  using session_ok_run [OF assms(2) fresh_ok [OF assms(1)]] unfolding session_ok_def events_def by auto

lemma bounded:
  assumes "wire_fresh w" and "wire_run call cs w h = (rcs, w', h')"
  shows "length rcs = length cs \<and> n h' \<le> n h + 8192 * length cs"
  using session_ok_run [OF assms(2) fresh_ok [OF assms(1)]] by blast

end

text \<open>A host that accepts every byte and never answers; its clock advances with each query.\<close>

definition silent_host :: "u32 wire_io" where
  "silent_host = \<lparr>io_write = (\<lambda>p t. (False, length p, t)), io_read = (\<lambda>q t. (False, 0, [], t)), io_now = (\<lambda>t. (t, t + 1)),
     io_yield = (\<lambda>d t. t + 1), io_pending = (\<lambda>t. (False, False, t))\<rparr>"

end
