(* ===== verification/Rate_Wire.thy ===== *)
theory Rate_Wire
  imports Wire_Session
begin

text \<open>
  The read-rate transport (\<open>nrr_wire.c\<close>): the closed metadata schema of 72 words that a frame may carry, the predicate of a
  clean run, and the operations PROGRESS and END on top of the shared transport.  The group shows that the console is given
  back only after thirteen acknowledged runs and an acknowledged END with no failed call in the whole session, and that no
  operation makes more than 8192 transfer callbacks.
\<close>

section \<open>Model\<close>

text \<open>\<open>enum npo_field\<close> (words 0 to 39) and \<open>enum nrr_field\<close> (words 40 to 71).\<close>

abbreviation "NP_RC \<equiv> 0 :: nat"
abbreviation "NP_OUTCOME \<equiv> 1 :: nat"
abbreviation "NP_PRIMARY_RC \<equiv> 2 :: nat"
abbreviation "NP_PRIMARY_OUTCOME \<equiv> 3 :: nat"
abbreviation "NP_MODE \<equiv> 4 :: nat"
abbreviation "NP_PHASE \<equiv> 5 :: nat"
abbreviation "NP_TRANSFERS \<equiv> 6 :: nat"
abbreviation "NP_BLANK_ROWS \<equiv> 7 :: nat"
abbreviation "NP_PATTERN_VALID \<equiv> 8 :: nat"
abbreviation "NP_DATA_VALID \<equiv> 9 :: nat"
abbreviation "NP_COMMIT_VALID \<equiv> 10 :: nat"
abbreviation "NP_COMMITTED \<equiv> 11 :: nat"
abbreviation "NP_PROGRAM_LOADS \<equiv> 12 :: nat"
abbreviation "NP_PROGRAM_EXECUTES \<equiv> 13 :: nat"
abbreviation "NP_PROGRAM_COMPLETED \<equiv> 14 :: nat"
abbreviation "NP_WREN_STARTS \<equiv> 15 :: nat"
abbreviation "NP_WRDI_STARTS \<equiv> 16 :: nat"
abbreviation "NP_ARRAY_MAY_CHANGE \<equiv> 17 :: nat"
abbreviation "NP_A0_DIRTY \<equiv> 18 :: nat"
abbreviation "NP_B0_DIRTY \<equiv> 19 :: nat"
abbreviation "NP_A0_VALID \<equiv> 20 :: nat"
abbreviation "NP_A0 \<equiv> 21 :: nat"
abbreviation "NP_B0_VALID \<equiv> 22 :: nat"
abbreviation "NP_B0 \<equiv> 23 :: nat"
abbreviation "NP_C0_VALID \<equiv> 24 :: nat"
abbreviation "NP_C0 \<equiv> 25 :: nat"
abbreviation "NP_READY_UNKNOWN \<equiv> 26 :: nat"
abbreviation "NP_RESTORE_RC \<equiv> 27 :: nat"
abbreviation "NP_RESTORED \<equiv> 28 :: nat"
abbreviation "NP_FAULT \<equiv> 29 :: nat"
abbreviation "NP_STOPPED \<equiv> 30 :: nat"
abbreviation "NP_BUS_RELEASED \<equiv> 31 :: nat"
abbreviation "NP_RAM_SCRUBBED \<equiv> 32 :: nat"
abbreviation "NP_ELAPSED_MS \<equiv> 33 :: nat"
abbreviation "NP_OBSERVER_RC \<equiv> 34 :: nat"
abbreviation "NP_EVENT_COUNT \<equiv> 35 :: nat"
abbreviation "NP_WRITE_INTENT \<equiv> 36 :: nat"
abbreviation "NP_LAST_OPERATION \<equiv> 37 :: nat"
abbreviation "NP_LAST_STARTED \<equiv> 38 :: nat"
abbreviation "NP_BLOCK_QUARANTINED \<equiv> 39 :: nat"
abbreviation "NR_RUN_INDEX \<equiv> 40 :: nat"
abbreviation "NR_RATE_INDEX \<equiv> 41 :: nat"
abbreviation "NR_RATE_HZ \<equiv> 42 :: nat"
abbreviation "NR_RATE_REGISTER \<equiv> 43 :: nat"
abbreviation "NR_FINAL_REGISTER \<equiv> 44 :: nat"
abbreviation "NR_RUN_DEFAULT_VALID \<equiv> 45 :: nat"
abbreviation "NR_CACHE_STARTS \<equiv> 46 :: nat"
abbreviation "NR_CACHE_COMPLETED \<equiv> 47 :: nat"
abbreviation "NR_TIMING_VALID \<equiv> 48 :: nat"
abbreviation "NR_CYCLE_HZ \<equiv> 49 :: nat"
abbreviation "NR_CACHE0_CYCLES \<equiv> 50 :: nat"
abbreviation "NR_CACHE1_CYCLES \<equiv> 51 :: nat"
abbreviation "NR_CACHE2_CYCLES \<equiv> 52 :: nat"
abbreviation "NR_RUN_WALL_MS \<equiv> 53 :: nat"
abbreviation "NR_RATE_SETS \<equiv> 54 :: nat"
abbreviation "NR_RATE_RESTORES \<equiv> 55 :: nat"
abbreviation "NR_RC \<equiv> 56 :: nat"
abbreviation "NR_OUTCOME \<equiv> 57 :: nat"
abbreviation "NR_ATTEMPTED \<equiv> 58 :: nat"
abbreviation "NR_RUNS_STARTED \<equiv> 59 :: nat"
abbreviation "NR_RUNS_VERIFIED \<equiv> 60 :: nat"
abbreviation "NR_RUNS_ACKED \<equiv> 61 :: nat"
abbreviation "NR_STARTS \<equiv> 62 :: nat"
abbreviation "NR_ELAPSED_MS \<equiv> 63 :: nat"
abbreviation "NR_OBSERVER_RC \<equiv> 64 :: nat"
abbreviation "NR_FAULT \<equiv> 65 :: nat"
abbreviation "NR_STOPPED \<equiv> 66 :: nat"
abbreviation "NR_BUS_RELEASED \<equiv> 67 :: nat"
abbreviation "NR_RAM_SCRUBBED \<equiv> 68 :: nat"
abbreviation "NR_DEFAULT_VALID \<equiv> 69 :: nat"
abbreviation "NR_QUARANTINED \<equiv> 70 :: nat"
abbreviation "NR_EVENT_COUNT \<equiv> 71 :: nat"
abbreviation "NRR_WIRE_EVENTS \<equiv> 13 :: u16"
abbreviation "NRR_WIRE_DATA_MS \<equiv> 20000 :: u32"
abbreviation "NRR_MAX_STARTS \<equiv> 598 :: u32"
abbreviation "NPO_DONE \<equiv> 8 :: u32"
abbreviation "NPO_CLEANUP_ERROR \<equiv> 16 :: u32"
abbreviation "NRR_CLEANUP_ERROR \<equiv> 7 :: u32"

record nrr_wire = wire +
  nw_last_run :: "u32 list"
  nw_last_starts :: u32
  nw_last_elapsed_ms :: u32
  nw_cycle_hz :: u32

definition nrr_config :: wire_config where
  "nrr_config = \<lparr>wc_magic = ascii ''OPNDRR1'' @ [0],
     wc_ready = ascii ''NAND_READ_RATE_READY protocol=1 block=1024 runs=13 write_max=0'' @ [13, 10], wc_words = 72, wc_data_ms = NRR_WIRE_DATA_MS\<rparr>"

definition nrr_wire_rates :: "(u32 \<times> u32) list" where
  "nrr_wire_rates = [(125000, 0x02000000), (500000, 0x08000000), (1000000, 0x10000000), (2000000, 0x20000000)]"

definition nrr_wire_schedule :: "u32 list" where
  "nrr_wire_schedule = [0, 0, 0, 1, 1, 1, 2, 2, 2, 3, 3, 3, 0]"

text \<open>\<open>metadata_valid\<close>: the closed value sets, the counters of the session, a record before the first run, and a record
  of a run.\<close>

definition nrr_closed :: "u32 list \<Rightarrow> bool" where
  "nrr_closed f \<longleftrightarrow>
     (\<forall>i\<in>set [8, 9, 10, 11, 17, 18, 19, 20, 22, 24, 26, 28, 29, 30, 31, 32, 36, 38, 39, NR_RUN_DEFAULT_VALID, NR_ATTEMPTED, NR_FAULT,
        NR_STOPPED, NR_BUS_RELEASED, NR_RAM_SCRUBBED, NR_DEFAULT_VALID, NR_QUARANTINED]. f ! i \<le> 1) \<and>
     (\<forall>i\<in>set [0, 2, 27, 34, NR_RC, NR_OBSERVER_RC]. f ! i = 0 \<or> f ! i \<ge> 0xfffff001) \<and>
     (\<forall>i\<in>set [NP_BLANK_ROWS, NP_PROGRAM_LOADS, NP_PROGRAM_EXECUTES, NP_PROGRAM_COMPLETED, NP_WREN_STARTS, NP_WRDI_STARTS,
        NP_ARRAY_MAY_CHANGE, NP_A0_DIRTY, NP_B0_DIRTY, NP_EVENT_COUNT, NP_WRITE_INTENT]. f ! i = 0)"

definition nrr_counters_bad :: "u32 list \<Rightarrow> bool" where
  "nrr_counters_bad f \<longleftrightarrow> f ! NR_OUTCOME > NRR_CLEANUP_ERROR \<or> f ! NR_RUNS_STARTED > 13 \<or> f ! NR_RUNS_VERIFIED > f ! NR_RUNS_STARTED \<or>
     f ! NR_RUNS_ACKED > f ! NR_RUNS_VERIFIED \<or> f ! NR_RUNS_STARTED - f ! NR_RUNS_VERIFIED > 1 \<or> f ! NR_RUNS_VERIFIED - f ! NR_RUNS_ACKED > 1 \<or>
     f ! NR_EVENT_COUNT \<noteq> f ! NR_RUNS_VERIFIED \<or> f ! NR_STARTS > NRR_MAX_STARTS \<or> f ! NR_STARTS > 46 * f ! NR_RUNS_STARTED \<or>
     f ! NR_STARTS < 25 * f ! NR_RUNS_VERIFIED \<or> f ! NR_QUARANTINED \<noteq> 1 \<or> f ! NR_CACHE_STARTS > 3 \<or>
     f ! NR_CACHE_COMPLETED > f ! NR_CACHE_STARTS \<or> f ! NR_TIMING_VALID > 7 \<or> f ! NR_CACHE_STARTS - f ! NR_CACHE_COMPLETED > 1 \<or>
     f ! NR_TIMING_VALID \<noteq> push_bit (unat (f ! NR_CACHE_COMPLETED)) 1 - 1 \<or> f ! NR_RATE_SETS > 3 \<or>
     f ! NR_RATE_RESTORES > f ! NR_RATE_SETS \<or> f ! NR_DEFAULT_VALID \<noteq> f ! NR_RUN_DEFAULT_VALID"

definition nrr_idle_ok :: "u32 list \<Rightarrow> bool" where
  "nrr_idle_ok f \<longleftrightarrow> f ! NR_RUN_INDEX = UINT32_MAX \<and> f ! NR_RATE_INDEX = UINT32_MAX \<and> (\<forall>i\<in>set [0..<40]. f ! i = 0) \<and>
     (\<forall>i\<in>set [NR_RATE_HZ..<NR_RATE_RESTORES + 1]. f ! i = 0) \<and> f ! NR_STARTS = 0"

definition nrr_run_bad :: "u32 list \<Rightarrow> bool" where
  "nrr_run_bad f \<longleftrightarrow> f ! NR_ATTEMPTED = 0 \<or> f ! NR_RUN_INDEX \<noteq> f ! NR_RUNS_STARTED - 1 \<or>
     f ! NR_RATE_INDEX \<noteq> nrr_wire_schedule ! unat (f ! NR_RUN_INDEX) \<or> f ! NR_RATE_HZ \<noteq> fst (nrr_wire_rates ! unat (f ! NR_RATE_INDEX)) \<or>
     f ! NR_CYCLE_HZ = 0 \<or> f ! NP_MODE \<noteq> 2 \<or> f ! NP_OUTCOME > NPO_CLEANUP_ERROR \<or> f ! NP_PRIMARY_OUTCOME > NPO_CLEANUP_ERROR \<or>
     f ! NP_PHASE > NPO_DONE \<or> (f ! NP_PHASE \<ge> 3 \<and> f ! NP_PHASE \<le> 5) \<or> f ! NP_TRANSFERS > 46 \<or> f ! NP_TRANSFERS > f ! NR_STARTS \<or>
     f ! NP_A0 > 255 \<or> f ! NP_B0 > 255 \<or> f ! NP_C0 > 255 \<or> f ! NP_BLOCK_QUARANTINED \<noteq> 1 \<or>
     \<not> (f ! NP_LAST_OPERATION \<le> 3 \<or> f ! NP_LAST_OPERATION = 8 \<or> f ! NP_LAST_OPERATION = 10)"

definition nrr_timing_ok :: "u32 list \<Rightarrow> bool" where
  "nrr_timing_ok f \<longleftrightarrow> (\<forall>i\<in>set [0..<3]. (f ! NR_TIMING_VALID AND push_bit i 1 \<noteq> 0) = (f ! (NR_CACHE0_CYCLES + i) \<noteq> 0)) \<and>
     of_nat (length (filter (\<lambda>i. f ! NR_TIMING_VALID AND push_bit i 1 \<noteq> 0) [0..<3])) = f ! NR_CACHE_COMPLETED"

definition metadata_valid :: "u32 list option \<Rightarrow> bool" where
  "metadata_valid fp = (case fp of None \<Rightarrow> False | Some f \<Rightarrow>
     if \<not> nrr_closed f \<or> nrr_counters_bad f then False
     else if f ! NR_RUNS_STARTED = 0 then nrr_idle_ok f
     else \<not> nrr_run_bad f \<and> \<not> (f ! NR_RATE_INDEX = 0 \<and> (f ! NR_RATE_SETS \<noteq> 0 \<or> f ! NR_RATE_RESTORES \<noteq> 0)) \<and> nrr_timing_ok f)"

text \<open>\<open>clean_run\<close>: the public object was read back, the session state is clean, and the cycles fit the wall clock.\<close>

definition clean_object :: "u32 list \<Rightarrow> bool" where
  "clean_object f \<longleftrightarrow> f ! NP_RC = 0 \<and> f ! NP_OUTCOME = 1 \<and> f ! NP_PRIMARY_RC = 0 \<and> f ! NP_PRIMARY_OUTCOME = 0 \<and> f ! NP_PHASE = NPO_DONE \<and>
     f ! NP_PATTERN_VALID \<noteq> 0 \<and> f ! NP_DATA_VALID \<noteq> 0 \<and> f ! NP_COMMIT_VALID \<noteq> 0 \<and> f ! NP_COMMITTED \<noteq> 0 \<and>
     f ! NP_A0_VALID \<noteq> 0 \<and> f ! NP_A0 = 0x7c \<and> f ! NP_B0_VALID \<noteq> 0 \<and> f ! NP_B0 = 0x10 \<and> f ! NP_C0_VALID \<noteq> 0 \<and> f ! NP_C0 = 0 \<and>
     f ! NP_READY_UNKNOWN = 0 \<and> f ! NP_RESTORE_RC = 0 \<and> f ! NP_RESTORED \<noteq> 0 \<and> f ! NP_FAULT = 0 \<and> f ! NP_STOPPED \<noteq> 0 \<and>
     f ! NP_BUS_RELEASED \<noteq> 0 \<and> f ! NP_RAM_SCRUBBED \<noteq> 0 \<and> f ! NP_OBSERVER_RC = 0 \<and> f ! NP_LAST_OPERATION = 1 \<and>
     f ! NP_LAST_STARTED \<noteq> 0 \<and> f ! NP_TRANSFERS \<ge> 25"

definition clean_session :: "u32 list \<Rightarrow> bool" where
  "clean_session f \<longleftrightarrow> f ! NR_ATTEMPTED \<noteq> 0 \<and> f ! NR_OBSERVER_RC = 0 \<and> f ! NR_FAULT = 0 \<and> f ! NR_STOPPED \<noteq> 0 \<and> f ! NR_BUS_RELEASED \<noteq> 0 \<and>
     f ! NR_RAM_SCRUBBED \<noteq> 0 \<and> f ! NR_DEFAULT_VALID \<noteq> 0 \<and> f ! NR_RUN_DEFAULT_VALID \<noteq> 0 \<and> f ! NR_CACHE_STARTS = 3 \<and>
     f ! NR_CACHE_COMPLETED = 3 \<and> f ! NR_TIMING_VALID = 7 \<and> f ! NR_FINAL_REGISTER = 0x02000000 \<and>
     f ! NR_RATE_REGISTER = snd (nrr_wire_rates ! unat (f ! NR_RATE_INDEX)) \<and> f ! NR_RATE_SETS = (if f ! NR_RATE_INDEX \<noteq> 0 then 3 else 0) \<and>
     f ! NR_RATE_RESTORES = f ! NR_RATE_SETS \<and> f ! NR_ELAPSED_MS \<le> NRR_WIRE_DATA_MS \<and> f ! NR_RUN_WALL_MS \<le> f ! NR_ELAPSED_MS \<and>
     f ! NP_ELAPSED_MS \<le> f ! NR_RUN_WALL_MS"

definition clean_timing :: "u32 list \<Rightarrow> bool" where
  "clean_timing f \<longleftrightarrow> f ! NR_CYCLE_HZ \<le> 1000000000 \<and>
     (ucast (f ! NR_CACHE0_CYCLES) + ucast (f ! NR_CACHE1_CYCLES) + ucast (f ! NR_CACHE2_CYCLES) :: u64) * 1000 \<le>
     (ucast (f ! NR_RUN_WALL_MS) + 1) * ucast (f ! NR_CYCLE_HZ) + 3000"

definition clean_run :: "u32 list option \<Rightarrow> bool" where
  "clean_run fp \<longleftrightarrow> metadata_valid fp \<and> clean_object (the fp) \<and> clean_session (the fp) \<and> clean_timing (the fp)"

definition nrr_wire_clean_result :: "u32 list option \<Rightarrow> bool" where
  "nrr_wire_clean_result fp = (let f = the fp in
     clean_run fp \<and> f ! NR_RC = 0 \<and> f ! NR_OUTCOME = 1 \<and> f ! NR_RUN_INDEX = 12 \<and> f ! NR_RATE_INDEX = 0 \<and> f ! NR_RUNS_STARTED = 13 \<and>
     f ! NR_RUNS_VERIFIED = 13 \<and> f ! NR_RUNS_ACKED = 13 \<and> f ! NR_EVENT_COUNT = 13 \<and> f ! NR_STARTS \<ge> 325)"

definition progress_valid :: "u32 list option \<Rightarrow> bool" where
  "progress_valid fp = (let f = the fp in
     clean_run fp \<and> f ! NR_RC = 0 \<and> f ! NR_OUTCOME = 0 \<and> f ! NR_RUNS_STARTED = f ! NR_RUNS_VERIFIED \<and>
     f ! NR_RUNS_ACKED + 1 = f ! NR_RUNS_VERIFIED)"

definition nrr_wire_init :: "bool \<Rightarrow> nrr_wire option \<Rightarrow> wire_rc \<times> nrr_wire option" where
  "nrr_wire_init io_complete w =
    (if w = None \<or> \<not> io_complete then (WIRE_ARGUMENT, w)
     else (WIRE_OK, Some \<lparr>wi_nonce = replicate 16 0, wi_tx_header = replicate 48 0, wi_tx_metadata = replicate 288 0,
       wi_rx_control = replicate 56 0, wi_data_deadline = 0, wi_events_sent = 0, wi_events_acked = 0, wi_last_rc = WIRE_OK,
       wi_host_abort_reason = 0, wi_initialized = True, wi_handshake_started = False, wi_hello_received = False, wi_deadline_armed = False,
       wi_output_frame_boundary = True, wi_transport_usable = True, wi_data_stopped = False, wi_end_attempted = False, wi_end_sent = False,
       wi_clean_end_acknowledged = False, wi_console_reuse_allowed = False, wi_quarantined = True, nw_last_run = replicate 56 0,
       nw_last_starts = 0, nw_last_elapsed_ms = 0, nw_cycle_hz = 0\<rparr>))"

definition nrr_progress_refused :: "nrr_wire \<Rightarrow> u32 list option \<Rightarrow> bool" where
  "nrr_progress_refused w fp = (let f = the fp in
     \<not> progress_valid fp \<or> f ! NR_EVENT_COUNT \<noteq> ucast (wi_events_sent w) + 1 \<or> f ! NR_STARTS \<noteq> nw_last_starts w + f ! NP_TRANSFERS \<or>
     f ! NR_ELAPSED_MS < nw_last_elapsed_ms w \<or> (nw_cycle_hz w \<noteq> 0 \<and> f ! NR_CYCLE_HZ \<noteq> nw_cycle_hz w))"

definition nrr_wire_progress :: "'h wire_io \<Rightarrow> u32 list option \<Rightarrow> u32 \<Rightarrow> nrr_wire \<Rightarrow> 'h \<Rightarrow> wire_rc \<times> nrr_wire \<times> 'h" where
  "nrr_wire_progress io fp event_deadline w h =
    (if \<not> wi_initialized w then (WIRE_ARGUMENT, w, h)
     else if \<not> data_admitted w \<or> wi_events_sent w \<noteq> wi_events_acked w \<or> wi_events_sent w \<ge> NRR_WIRE_EVENTS then (WIRE_STATE, fail WIRE_STATE False w, h)
     else if nrr_progress_refused w fp then (WIRE_ARGUMENT, fail WIRE_ARGUMENT True w, h)
     else let f = the fp; (b, h) = new_budget io True w h; (now, h) = io_now io h in
     if \<not> before now event_deadline \<or> event_deadline - now > WIRE_FRAME_MS \<or> \<not> before now (wi_data_deadline w) \<or>
        event_deadline - now > wi_data_deadline w - now then (WIRE_TIMEOUT, fail WIRE_TIMEOUT False w, h)
     else let b = b\<lparr>bd_deadline := event_deadline\<rparr> in
     wire_event nrr_config io f (\<lambda>w. w\<lparr>wi_events_sent := wi_events_sent w + 1, nw_last_run := take 56 f, nw_last_starts := f ! NR_STARTS,
       nw_last_elapsed_ms := f ! NR_ELAPSED_MS, nw_cycle_hz := f ! NR_CYCLE_HZ\<rparr>) b w h)"

definition nrr_finish_refused :: "nrr_wire \<Rightarrow> u32 list option \<Rightarrow> bool \<Rightarrow> bool" where
  "nrr_finish_refused w fp clean = (let f = the fp in
     \<not> metadata_valid fp \<or> f ! NR_EVENT_COUNT < ucast (wi_events_sent w) \<or> f ! NR_EVENT_COUNT > ucast (wi_events_sent w) + 1 \<or>
     f ! NR_RUNS_ACKED > ucast (wi_events_acked w) \<or> ucast (wi_events_acked w) - f ! NR_RUNS_ACKED > 1 \<or> f ! NR_STARTS < nw_last_starts w \<or>
     f ! NR_ELAPSED_MS < nw_last_elapsed_ms w \<or>
     (if clean then \<not> nrr_wire_clean_result fp \<or> wi_data_stopped w \<or> \<not> wi_deadline_armed w \<or> wi_events_sent w \<noteq> 13 \<or> wi_events_acked w \<noteq> 13 \<or>
        f ! NR_STARTS \<noteq> nw_last_starts w \<or> take 56 f \<noteq> nw_last_run w
      else f ! NR_RC = 0 \<or> f ! NR_OUTCOME < 2))"

definition nrr_wire_finish :: "'h wire_io \<Rightarrow> u32 list option \<Rightarrow> bool \<Rightarrow> nrr_wire \<Rightarrow> 'h \<Rightarrow> wire_rc \<times> nrr_wire \<times> 'h" where
  "nrr_wire_finish io fp clean w h =
    (if \<not> wi_initialized w then (WIRE_ARGUMENT, w, h)
     else if \<not> end_admitted w then (WIRE_STATE, fail WIRE_STATE False w, h)
     else let w = w\<lparr>wi_end_attempted := True\<rparr> in
     if nrr_finish_refused w fp clean then (WIRE_ARGUMENT, fail WIRE_ARGUMENT True w, h)
     else wire_end nrr_config io (the fp) clean w h)"

section \<open>Sessions\<close>

datatype nrr_call = Handshake | Arm u32 | Check | Progress "u32 list option" u32 | Finish "u32 list option" bool

fun nrr_do :: "'h wire_io \<Rightarrow> nrr_call \<Rightarrow> nrr_wire \<Rightarrow> 'h \<Rightarrow> wire_rc \<times> nrr_wire \<times> 'h" where
  "nrr_do io Handshake w h = wire_handshake nrr_config io w h"
| "nrr_do io (Arm t) w h = wire_arm_data_deadline nrr_config io t w h"
| "nrr_do io Check w h = wire_check io w h"
| "nrr_do io (Progress fp t) w h = nrr_wire_progress io fp t w h"
| "nrr_do io (Finish fp clean) w h = nrr_wire_finish io fp clean w h"

fun nrr_class :: "nrr_call \<Rightarrow> wire_class" where
  "nrr_class (Progress fp t) = Event"
| "nrr_class (Finish fp clean) = End clean"
| "nrr_class c = Plain"

fun nrr_good :: "nrr_call \<Rightarrow> bool" where
  "nrr_good (Finish fp clean) = nrr_wire_clean_result fp"
| "nrr_good c = True"

context counted_io
begin

lemma nrr_progress_step:
  assumes i: "wi_initialized w" and e: "nrr_wire_progress io fp t w h = (rc, w', h')"
  shows "stepped Event rc w w' \<and> n h' \<le> n h + 8192"
proof (cases "\<not> data_admitted w \<or> wi_events_sent w \<noteq> wi_events_acked w \<or> wi_events_sent w \<ge> NRR_WIRE_EVENTS \<or> nrr_progress_refused w fp")
  case True
  then have "rc \<noteq> WIRE_OK \<and> h' = h \<and> w' = fail rc (rc = WIRE_ARGUMENT) w"
    using e i by (auto simp: nrr_wire_progress_def split: if_split_asm)
  then show ?thesis using stepped_fail [OF i, of rc w'] by auto
next
  case False
  obtain b0 h0 where b: "new_budget io True w h = (b0, h0)" by fastforce
  obtain now h1 where t: "io_now io h0 = (now, h1)" by fastforce
  let ?upd = "\<lambda>w. w\<lparr>wi_events_sent := wi_events_sent w + 1, nw_last_run := take 56 (the fp), nw_last_starts := the fp ! NR_STARTS,
       nw_last_elapsed_ms := the fp ! NR_ELAPSED_MS, nw_cycle_hz := the fp ! NR_CYCLE_HZ\<rparr>"
  have n1: "n h1 \<le> n h" "bd_attempts b0 = 0" using budget_fresh [OF b] count_now [OF t] by simp_all
  let ?late = "\<not> before now t \<or> t - now > WIRE_FRAME_MS \<or> \<not> before now (wi_data_deadline w) \<or> t - now > wi_data_deadline w - now"
  have e': "(rc, w', h') = (if ?late then (WIRE_TIMEOUT, fail WIRE_TIMEOUT False w, h1)
      else wire_event nrr_config io (the fp) ?upd (b0\<lparr>bd_deadline := t\<rparr>) w h1)"
    using e i False unfolding nrr_wire_progress_def Let_def b prod.case t by auto
  consider "rc = WIRE_TIMEOUT" "w' = fail WIRE_TIMEOUT False w" "h' = h1"
    | "wire_event nrr_config io (the fp) ?upd (b0\<lparr>bd_deadline := t\<rparr>) w h1 = (rc, w', h')"
    using e' by (cases ?late) auto
  then show ?thesis
  proof cases
    case 1
    then show ?thesis using stepped_fail [OF i, of rc w'] n1 by simp
  next
    case 2
    have "wi_events_sent w = wi_events_acked w" "wi_events_sent w < 13" "\<not> wi_end_attempted w" using False by (auto simp: data_admitted_def)
    then have "wi_events_acked w < 32" "\<not> wi_end_attempted w" using order.strict_trans [of "wi_events_acked w" 13 32] by simp_all
    moreover have "quiet_update ?upd" by (simp add: quiet_update_def flags_kept_def buffers_def)
    ultimately show ?thesis using event_step [OF i _ _ _ _ 2] n1 by auto
  qed
qed

lemma nrr_finish_step:
  assumes i: "wi_initialized w" and e: "nrr_wire_finish io fp clean w h = (rc, w', h')"
  shows "stepped (End clean) rc w w' \<and> n h' \<le> n h + 8192"
proof -
  define w0 where "w0 = w\<lparr>wi_end_attempted := True\<rparr>"
  have v: "wi_initialized w0" "buffers w0 = buffers w" "wi_end_attempted w0" by (simp_all add: w0_def i buffers_def)
  have k: "stepped (End clean) WIRE_ARGUMENT w (fail WIRE_ARGUMENT True w0)"
    using kept_flags [OF kept_fail_same [of WIRE_ARGUMENT w0 True]] v by (simp add: stepped_def)
  consider (state) "rc = WIRE_STATE" "w' = fail WIRE_STATE False w" "h' = h" | (refused) "rc = WIRE_ARGUMENT" "w' = fail WIRE_ARGUMENT True w0" "h' = h"
    | (on) "end_admitted w" "\<not> nrr_finish_refused w0 fp clean" "wire_end nrr_config io (the fp) clean w0 h = (rc, w', h')"
    using e i unfolding nrr_wire_finish_def Let_def w0_def [symmetric] by (auto split: if_split_asm)
  then show ?thesis
  proof cases
    case state then show ?thesis using stepped_fail [OF i, of rc w'] by simp
  next
    case refused then show ?thesis using k by simp
  next
    case on
    have "clean \<Longrightarrow> \<not> wi_data_stopped w" using on(2) by (auto simp: nrr_finish_refused_def Let_def w0_def)
    then show ?thesis using end_step [OF i _ w0_def _ on(3)] on(1) by (simp add: end_admitted_def)
  qed
qed

lemma nrr_call_step:
  assumes "wi_initialized w" and "nrr_do io c w h = (rc, w', h')"
  shows "stepped (nrr_class c) rc w w' \<and> n h' \<le> n h + 8192"
  using assms handshake_step arm_step check_step nrr_progress_step nrr_finish_step by (cases c) simp_all

end

lemma nrr_clean_end:
  assumes "wi_initialized w" and "nrr_class c = End True" and "nrr_do io c w h = (WIRE_OK, w', h')"
  shows "wi_events_acked w = 13 \<and> nrr_good c"
proof -
  obtain fp where c: "c = Finish fp True" using assms(2) by (cases c) auto
  have "\<not> nrr_finish_refused (w\<lparr>wi_end_attempted := True\<rparr>) fp True"
    using assms(1,3) c by (auto simp: nrr_wire_finish_def Let_def split: if_split_asm)
  then show ?thesis using c by (auto simp: nrr_finish_refused_def Let_def)
qed

lemma nrr_session_law: "counted_io io n \<Longrightarrow> rate_session (nrr_do io) nrr_class n 13 nrr_good"
  by unfold_locales (simp_all add: counted_io.nrr_call_step nrr_clean_end)

interpretation nrr: rate_session "nrr_do io" nrr_class "\<lambda>_. 0" 13 nrr_good for io
  by (rule nrr_session_law) (rule any.counted_io_axioms)

interpretation nrr_cnt: rate_session "nrr_do (counted io)" nrr_class snd 13 nrr_good for io
  by (rule nrr_session_law) (rule cnt.counted_io_axioms)

lemma nrr_init_fresh: "nrr_wire_init complete (Some v) = (WIRE_OK, Some w) \<Longrightarrow> wire_fresh w"
  by (auto simp: nrr_wire_init_def wire_fresh_def split: if_split_asm)

section \<open>Properties\<close>

text \<open>Claim C33. The console is released only by a clean session.  Start from \<open>nrr_wire_init\<close> and make any calls, against a host whose callbacks
  behave in any way.  The console may be reused exactly when the transport is not quarantined, and then every single call
  of the session succeeded, exactly thirteen PROGRESS calls were made and acknowledged, and a clean END whose metadata is
  a clean result was acknowledged.  In particular one failed call keeps the console quarantined for good.\<close>

theorem nrr_console_release:
  assumes "nrr_wire_init complete (Some v) = (WIRE_OK, Some w)" and "wire_run (nrr_do io) cs w h = (rcs, w', h')"
  shows "wi_console_reuse_allowed w' = (\<not> wi_quarantined w') \<and>
    (wi_console_reuse_allowed w' \<longrightarrow> set rcs \<subseteq> {WIRE_OK} \<and> length (filter (\<lambda>c. nrr_class c = Event) cs) = 13 \<and> wi_events_acked w' = 13 \<and>
      wi_clean_end_acknowledged w' \<and> (\<exists>fp. Finish fp True \<in> set cs \<and> nrr_wire_clean_result fp))"
proof -
  have "\<exists>fp. Finish fp True \<in> set cs \<and> nrr_wire_clean_result fp" if "\<exists>c\<in>set cs. nrr_class c = End True \<and> nrr_good c"
    using that
  proof (elim bexE)
    fix c assume "c \<in> set cs" "nrr_class c = End True \<and> nrr_good c"
    then show ?thesis by - (cases c, auto)
  qed
  then show ?thesis using nrr.release [OF nrr_init_fresh [OF assms(1)] assms(2)] by simp
qed

definition demo_nrr :: nrr_wire where
  "demo_nrr = \<lparr>wi_nonce = replicate 16 0, wi_tx_header = replicate 48 0, wi_tx_metadata = replicate 288 0,
     wi_rx_control = replicate 56 0, wi_data_deadline = 0, wi_events_sent = 0, wi_events_acked = 0, wi_last_rc = WIRE_OK,
     wi_host_abort_reason = 0, wi_initialized = True, wi_handshake_started = False, wi_hello_received = False, wi_deadline_armed = False,
     wi_output_frame_boundary = True, wi_transport_usable = True, wi_data_stopped = False, wi_end_attempted = False, wi_end_sent = False,
     wi_clean_end_acknowledged = False, wi_console_reuse_allowed = False, wi_quarantined = True, nw_last_run = replicate 56 0,
     nw_last_starts = 0, nw_last_elapsed_ms = 0, nw_cycle_hz = 0\<rparr>"

lemma demo_nrr_init: "nrr_wire_init True (Some demo_nrr) = (WIRE_OK, Some demo_nrr)"
  by (simp add: demo_nrr_def nrr_wire_init_def)

theorem nrr_console_release_witness:
  "wi_console_reuse_allowed (fst (snd (wire_run (nrr_do silent_host) [Handshake, Check] demo_nrr 0))) =
     (\<not> wi_quarantined (fst (snd (wire_run (nrr_do silent_host) [Handshake, Check] demo_nrr 0))))"
  using nrr_console_release [OF demo_nrr_init, of silent_host "[Handshake, Check]" 0] by (metis prod.collapse)



end
