(* ===== verification/Write_Rate_Wire.thy ===== *)
theory Write_Rate_Wire
  imports Wire_Session
begin

text \<open>
  The write-rate transport (\<open>nwr_wire.c\<close>): its metadata schema of 96 words with two program samples, the predicate of a clean
  result, and its PROGRESS and END operations on top of the shared transport and session contract.
\<close>

section \<open>Model\<close>

text \<open>\<open>enum nwr_field\<close> and \<open>enum nwr_sample_field\<close>.\<close>

abbreviation "NW_RC \<equiv> 0 :: nat"
abbreviation "NW_OUTCOME \<equiv> 1 :: nat"
abbreviation "NW_PRIMARY_RC \<equiv> 2 :: nat"
abbreviation "NW_PRIMARY_OUTCOME \<equiv> 3 :: nat"
abbreviation "NW_PHASE \<equiv> 4 :: nat"
abbreviation "NW_EVENT \<equiv> 5 :: nat"
abbreviation "NW_ROW_INDEX \<equiv> 6 :: nat"
abbreviation "NW_STARTS \<equiv> 7 :: nat"
abbreviation "NW_PREIMAGE_ROWS \<equiv> 8 :: nat"
abbreviation "NW_BLANK_TAIL \<equiv> 9 :: nat"
abbreviation "NW_OLD_PRE_VALID \<equiv> 10 :: nat"
abbreviation "NW_OLD_POST_VALID \<equiv> 11 :: nat"
abbreviation "NW_MARKER_PRE \<equiv> 12 :: nat"
abbreviation "NW_MARKER_POST \<equiv> 13 :: nat"
abbreviation "NW_BINDING_VALID \<equiv> 14 :: nat"
abbreviation "NW_WHOLE_VALID \<equiv> 15 :: nat"
abbreviation "NW_WREN \<equiv> 16 :: nat"
abbreviation "NW_WRDI \<equiv> 17 :: nat"
abbreviation "NW_LOADS \<equiv> 18 :: nat"
abbreviation "NW_EXECUTES \<equiv> 19 :: nat"
abbreviation "NW_COMPLETED \<equiv> 20 :: nat"
abbreviation "NW_ARRAY_MAY_CHANGE \<equiv> 21 :: nat"
abbreviation "NW_A0_DIRTY \<equiv> 22 :: nat"
abbreviation "NW_B0_DIRTY \<equiv> 23 :: nat"
abbreviation "NW_A0_VALID \<equiv> 24 :: nat"
abbreviation "NW_A0 \<equiv> 25 :: nat"
abbreviation "NW_B0_VALID \<equiv> 26 :: nat"
abbreviation "NW_B0 \<equiv> 27 :: nat"
abbreviation "NW_C0_VALID \<equiv> 28 :: nat"
abbreviation "NW_C0 \<equiv> 29 :: nat"
abbreviation "NW_READY_UNKNOWN \<equiv> 30 :: nat"
abbreviation "NW_RESTORE_RC \<equiv> 31 :: nat"
abbreviation "NW_RESTORED \<equiv> 32 :: nat"
abbreviation "NW_STOPPED \<equiv> 33 :: nat"
abbreviation "NW_BUS_RELEASED \<equiv> 34 :: nat"
abbreviation "NW_RAM_SCRUBBED \<equiv> 35 :: nat"
abbreviation "NW_FAULT \<equiv> 36 :: nat"
abbreviation "NW_ATTEMPTED \<equiv> 37 :: nat"
abbreviation "NW_QUARANTINED \<equiv> 38 :: nat"
abbreviation "NW_ELAPSED_MS \<equiv> 39 :: nat"
abbreviation "NW_OBSERVER_RC \<equiv> 40 :: nat"
abbreviation "NW_EVENT_COUNT \<equiv> 41 :: nat"
abbreviation "NW_DEFAULT_VALID \<equiv> 42 :: nat"
abbreviation "NW_RATE_REGISTER \<equiv> 43 :: nat"
abbreviation "NW_RATE_SETS \<equiv> 44 :: nat"
abbreviation "NW_RATE_RESTORES \<equiv> 45 :: nat"
abbreviation "NW_CYCLE_HZ \<equiv> 46 :: nat"
abbreviation "NW_ACK_MS \<equiv> 47 :: nat"
abbreviation "NW_HASH_RC \<equiv> 48 :: nat"
abbreviation "NW_LAST_OPERATION \<equiv> 49 :: nat"
abbreviation "NW_LAST_STARTED \<equiv> 50 :: nat"
abbreviation "NW_LAST_TX \<equiv> 51 :: nat"
abbreviation "NW_LAST_RX \<equiv> 52 :: nat"
abbreviation "NW_VERIFIED_MASK \<equiv> 53 :: nat"
abbreviation "NW_RESERVED0 \<equiv> 54 :: nat"
abbreviation "NW_RESERVED1 \<equiv> 55 :: nat"
abbreviation "NS_ROW \<equiv> 0 :: nat"
abbreviation "NS_RATE_HZ \<equiv> 1 :: nat"
abbreviation "NS_RATE_REGISTER \<equiv> 2 :: nat"
abbreviation "NS_LOAD_STARTED \<equiv> 3 :: nat"
abbreviation "NS_LOAD_VALID \<equiv> 4 :: nat"
abbreviation "NS_LOAD_TX \<equiv> 5 :: nat"
abbreviation "NS_LOAD_RX \<equiv> 6 :: nat"
abbreviation "NS_LOAD_CYCLES \<equiv> 7 :: nat"
abbreviation "NS_EXEC_STARTED \<equiv> 8 :: nat"
abbreviation "NS_EXEC_VALID \<equiv> 9 :: nat"
abbreviation "NS_EXEC_CYCLES \<equiv> 10 :: nat"
abbreviation "NS_PROGRAM_POLLS \<equiv> 11 :: nat"
abbreviation "NS_READ0_CYCLES \<equiv> 12 :: nat"
abbreviation "NS_READ1_CYCLES \<equiv> 13 :: nat"
abbreviation "NS_READ0_VALID \<equiv> 14 :: nat"
abbreviation "NS_READ1_VALID \<equiv> 15 :: nat"
abbreviation "NS_SHA_VALID \<equiv> 16 :: nat"
abbreviation "NS_CRC32 \<equiv> 17 :: nat"
abbreviation "NS_ACTIVE_CYCLES \<equiv> 18 :: nat"
abbreviation "NS_RESERVED \<equiv> 19 :: nat"
abbreviation "NW_SAMPLE0 \<equiv> 56 :: nat"
abbreviation "NW_SAMPLE1 \<equiv> 76 :: nat"
abbreviation "NWR_WIRE_EVENTS \<equiv> 32 :: u16"
abbreviation "NWR_MAX_STARTS \<equiv> 1707 :: u32"
abbreviation "NWR_VERIFIED \<equiv> 1 :: u32"
abbreviation "NWR_CLEANUP_ERROR \<equiv> 19 :: u32"
abbreviation "NWR_PREFLIGHT \<equiv> 1 :: u32"
abbreviation "NWR_MARKER \<equiv> 7 :: u32"
abbreviation "NWR_DONE \<equiv> 9 :: u32"
abbreviation "NE_PRESERVED \<equiv> 8 :: u32"

definition nwr_config :: wire_config where
  "nwr_config = \<lparr>wc_magic = ascii ''OPNDWR1'' @ [0],
     wc_ready = ascii ''NAND_WRITE_RATE_READY protocol=1 block=1024 rows=65539,65540 erase_max=0'' @ [13, 10], wc_words = 96, wc_data_ms = 120000\<rparr>"

text \<open>\<open>metadata_valid\<close>: the closed value sets, the ranges of the session, and the ranges of sample \<open>s\<close>.\<close>

definition nwr_closed :: "u32 list \<Rightarrow> bool" where
  "nwr_closed f \<longleftrightarrow>
     (\<forall>i\<in>set [NW_BINDING_VALID, NW_WHOLE_VALID, NW_ARRAY_MAY_CHANGE, NW_A0_DIRTY, NW_B0_DIRTY, NW_A0_VALID, NW_B0_VALID, NW_C0_VALID,
        NW_READY_UNKNOWN, NW_RESTORED, NW_STOPPED, NW_BUS_RELEASED, NW_RAM_SCRUBBED, NW_FAULT, NW_ATTEMPTED, NW_QUARANTINED,
        NW_DEFAULT_VALID, NW_LAST_STARTED]. f ! i \<le> 1) \<and>
     (\<forall>i\<in>set [NW_RC, NW_PRIMARY_RC, NW_RESTORE_RC, NW_OBSERVER_RC, NW_HASH_RC]. f ! i = 0 \<or> f ! i \<ge> 0xfffff001)"

definition nwr_ranges_bad :: "u32 list \<Rightarrow> bool" where
  "nwr_ranges_bad f \<longleftrightarrow> f ! NW_OUTCOME > NWR_CLEANUP_ERROR \<or> f ! NW_PRIMARY_OUTCOME > NWR_CLEANUP_ERROR \<or> f ! NW_PHASE > NWR_DONE \<or>
     f ! NW_EVENT > NE_PRESERVED \<or> f ! NW_STARTS > NWR_MAX_STARTS \<or> (f ! NW_ROW_INDEX \<ge> 64 \<and> f ! NW_ROW_INDEX \<noteq> UINT32_MAX) \<or>
     f ! NW_PREIMAGE_ROWS > 64 \<or> f ! NW_BLANK_TAIL > 61 \<or> f ! NW_OLD_PRE_VALID > 7 \<or> f ! NW_OLD_POST_VALID > 7 \<or>
     (f ! NW_MARKER_PRE \<noteq> 0 \<and> f ! NW_MARKER_PRE \<noteq> 0xffff) \<or> (f ! NW_MARKER_POST \<noteq> 0 \<and> f ! NW_MARKER_POST \<noteq> 0xffff) \<or>
     f ! NW_WREN > 2 \<or> f ! NW_WRDI > 1 \<or> f ! NW_LOADS > 2 \<or> f ! NW_EXECUTES > 2 \<or> f ! NW_COMPLETED > 2 \<or> f ! NW_A0 > 255 \<or>
     f ! NW_B0 > 255 \<or> f ! NW_C0 > 255 \<or> f ! NW_EVENT_COUNT > 32 \<or> f ! NW_RATE_SETS > 11 \<or> f ! NW_RATE_RESTORES > 11 \<or>
     (f ! NW_LAST_OPERATION \<ge> 17 \<and> f ! NW_LAST_OPERATION \<noteq> UINT32_MAX) \<or> f ! NW_LAST_TX > 4356 \<or> f ! NW_LAST_RX > 4356 \<or>
     f ! NW_VERIFIED_MASK > 3 \<or> f ! NW_RESERVED0 \<noteq> 0 \<or> f ! NW_RESERVED1 \<noteq> 0 \<or> f ! NW_QUARANTINED \<noteq> 1"

definition nwr_sample :: "u32 list \<Rightarrow> bool \<Rightarrow> nat \<Rightarrow> u32" where
  "nwr_sample f s i = f ! ((if s then NW_SAMPLE1 else NW_SAMPLE0) + i)"

definition nwr_sample_bad :: "u32 list \<Rightarrow> bool \<Rightarrow> bool" where
  "nwr_sample_bad f s = (let v = nwr_sample f s in
     v NS_ROW \<noteq> (if s then 65540 else 65539) \<or> v NS_RATE_HZ \<noteq> (if s then 2000000 else 125000) \<or>
     (v NS_RATE_REGISTER \<noteq> 0 \<and> v NS_RATE_REGISTER \<noteq> (if s then 0x20000000 else 0x02000000)) \<or> v NS_LOAD_STARTED > 1 \<or> v NS_LOAD_VALID > 1 \<or>
     v NS_LOAD_TX > 4099 \<or> v NS_LOAD_RX > 4099 \<or> v NS_EXEC_STARTED > 1 \<or> v NS_EXEC_VALID > 1 \<or> v NS_PROGRAM_POLLS > 32 \<or>
     v NS_READ0_VALID > 1 \<or> v NS_READ1_VALID > 1 \<or> v NS_SHA_VALID > 1 \<or> v NS_RESERVED \<noteq> 0)"

definition nwr_metadata_valid :: "u32 list option \<Rightarrow> bool" where
  "nwr_metadata_valid fp = (case fp of None \<Rightarrow> False | Some f \<Rightarrow>
     nwr_closed f \<and> \<not> nwr_ranges_bad f \<and> \<not> nwr_sample_bad f False \<and> \<not> nwr_sample_bad f True)"

definition nwr_clean_fields :: "u32 list \<Rightarrow> bool" where
  "nwr_clean_fields f \<longleftrightarrow> f ! NW_RC = 0 \<and> f ! NW_OUTCOME = NWR_VERIFIED \<and> f ! NW_PRIMARY_RC = 0 \<and> f ! NW_PRIMARY_OUTCOME = 0 \<and> f ! NW_PHASE = NWR_DONE \<and>
     f ! NW_PREIMAGE_ROWS = 64 \<and> f ! NW_BLANK_TAIL = 61 \<and> f ! NW_ROW_INDEX = 0 \<and> f ! NW_OLD_PRE_VALID = 7 \<and> f ! NW_OLD_POST_VALID = 7 \<and>
     f ! NW_MARKER_PRE = 0xffff \<and> f ! NW_MARKER_POST = 0xffff \<and> f ! NW_BINDING_VALID \<noteq> 0 \<and> f ! NW_WHOLE_VALID \<noteq> 0 \<and> f ! NW_WREN = 2 \<and>
     f ! NW_LOADS = 2 \<and> f ! NW_EXECUTES = 2 \<and> f ! NW_COMPLETED = 2 \<and> f ! NW_ARRAY_MAY_CHANGE \<noteq> 0 \<and> f ! NW_A0_DIRTY = 0 \<and> f ! NW_B0_DIRTY = 0 \<and>
     f ! NW_A0_VALID \<noteq> 0 \<and> f ! NW_A0 = 0x7c \<and> f ! NW_B0_VALID \<noteq> 0 \<and> f ! NW_B0 = 0x10 \<and> f ! NW_C0_VALID \<noteq> 0 \<and> f ! NW_C0 AND 0x8f = 0 \<and>
     f ! NW_READY_UNKNOWN = 0 \<and> f ! NW_RESTORE_RC = 0 \<and> f ! NW_RESTORED \<noteq> 0 \<and> f ! NW_FAULT = 0 \<and> f ! NW_STOPPED \<noteq> 0 \<and>
     f ! NW_BUS_RELEASED \<noteq> 0 \<and> f ! NW_RAM_SCRUBBED \<noteq> 0 \<and> f ! NW_ATTEMPTED \<noteq> 0 \<and> f ! NW_OBSERVER_RC = 0 \<and> f ! NW_HASH_RC = 0 \<and>
     f ! NW_DEFAULT_VALID \<noteq> 0 \<and> f ! NW_RATE_REGISTER = 0x02000000 \<and> f ! NW_RATE_SETS = 11 \<and> f ! NW_RATE_RESTORES = 11 \<and> f ! NW_CYCLE_HZ \<noteq> 0 \<and>
     f ! NW_EVENT_COUNT = 19 \<and> f ! NW_EVENT = NE_PRESERVED \<and> f ! NW_VERIFIED_MASK = 3 \<and> f ! NW_ELAPSED_MS \<le> 120100 \<and> f ! NW_ACK_MS \<le> 120000 \<and>
     f ! NW_STARTS \<ge> 670 + 2 * f ! NW_WRDI \<and> f ! NW_LAST_OPERATION = 1 \<and> f ! NW_LAST_STARTED \<noteq> 0 \<and> f ! NW_LAST_TX = 3 \<and> f ! NW_LAST_RX = 3"

definition nwr_sample_clean :: "u32 list \<Rightarrow> bool \<Rightarrow> bool" where
  "nwr_sample_clean f s = (let v = nwr_sample f s in
     v NS_LOAD_STARTED \<noteq> 0 \<and> v NS_LOAD_VALID \<noteq> 0 \<and> v NS_LOAD_TX = 4099 \<and> v NS_LOAD_RX = 4099 \<and> v NS_EXEC_STARTED \<noteq> 0 \<and> v NS_EXEC_VALID \<noteq> 0 \<and>
     v NS_PROGRAM_POLLS \<noteq> 0 \<and> v NS_READ0_VALID \<noteq> 0 \<and> v NS_READ1_VALID \<noteq> 0 \<and> v NS_SHA_VALID \<noteq> 0 \<and>
     v NS_CRC32 = (if s then 841828657 else 3609480481) \<and> v NS_RATE_REGISTER = (if s then 0x20000000 else 0x02000000))"

definition nwr_wire_clean_result :: "u32 list option \<Rightarrow> bool" where
  "nwr_wire_clean_result fp \<longleftrightarrow> nwr_metadata_valid fp \<and> nwr_clean_fields (the fp) \<and> nwr_sample_clean (the fp) False \<and> nwr_sample_clean (the fp) True"

definition nwr_progress_valid :: "u32 list option \<Rightarrow> bool" where
  "nwr_progress_valid fp = (let f = the fp in nwr_metadata_valid fp \<and> f ! NW_RC = 0 \<and> f ! NW_OUTCOME = 0 \<and> f ! NW_PRIMARY_RC = 0 \<and>
     f ! NW_PRIMARY_OUTCOME = 0 \<and> f ! NW_OBSERVER_RC = 0 \<and> f ! NW_STOPPED \<noteq> 0 \<and> f ! NW_READY_UNKNOWN = 0 \<and> f ! NW_FAULT = 0 \<and>
     f ! NW_BINDING_VALID \<noteq> 0 \<and> f ! NW_ATTEMPTED \<noteq> 0 \<and> f ! NW_DEFAULT_VALID \<noteq> 0 \<and> f ! NW_PHASE \<ge> NWR_PREFLIGHT \<and> f ! NW_PHASE \<le> NWR_MARKER \<and>
     f ! NW_BUS_RELEASED = 0 \<and> f ! NW_EVENT_COUNT \<ge> 1 \<and> f ! NW_ELAPSED_MS < 120000 \<and> f ! NW_ACK_MS < 120000)"

definition nwr_wire_init :: "bool \<Rightarrow> wire option \<Rightarrow> wire_rc \<times> wire option" where
  "nwr_wire_init io_complete w =
    (if w = None \<or> \<not> io_complete then (WIRE_ARGUMENT, w)
     else (WIRE_OK, Some \<lparr>wi_nonce = replicate 16 0, wi_tx_header = replicate 48 0, wi_tx_metadata = replicate 384 0,
       wi_rx_control = replicate 56 0, wi_data_deadline = 0, wi_events_sent = 0, wi_events_acked = 0, wi_last_rc = WIRE_OK,
       wi_host_abort_reason = 0, wi_initialized = True, wi_handshake_started = False, wi_hello_received = False, wi_deadline_armed = False,
       wi_output_frame_boundary = True, wi_transport_usable = True, wi_data_stopped = False, wi_end_attempted = False, wi_end_sent = False,
       wi_clean_end_acknowledged = False, wi_console_reuse_allowed = False, wi_quarantined = True\<rparr>))"

definition nwr_wire_handshake :: "'h wire_io \<Rightarrow> wire \<Rightarrow> 'h \<Rightarrow> wire_rc \<times> wire \<times> 'h" where
  "nwr_wire_handshake io w h = wire_handshake nwr_config io w h"

definition nwr_wire_arm_data_deadline :: "'h wire_io \<Rightarrow> u32 \<Rightarrow> wire \<Rightarrow> 'h \<Rightarrow> wire_rc \<times> wire \<times> 'h" where
  "nwr_wire_arm_data_deadline io absolute_ms w h = wire_arm_data_deadline nwr_config io absolute_ms w h"

definition nwr_wire_check :: "'h wire_io \<Rightarrow> wire \<Rightarrow> 'h \<Rightarrow> wire_rc \<times> wire \<times> 'h" where
  "nwr_wire_check io w h = wire_check io w h"

definition nwr_wire_progress :: "'h wire_io \<Rightarrow> u32 list option \<Rightarrow> wire \<Rightarrow> 'h \<Rightarrow> wire_rc \<times> wire \<times> 'h" where
  "nwr_wire_progress io fp w h =
    (if \<not> wi_initialized w then (WIRE_ARGUMENT, w, h)
     else if \<not> data_admitted w \<or> wi_events_sent w \<noteq> wi_events_acked w \<or> wi_events_sent w \<ge> NWR_WIRE_EVENTS then (WIRE_STATE, fail WIRE_STATE False w, h)
     else if \<not> nwr_progress_valid fp \<or> the fp ! NW_EVENT_COUNT \<noteq> ucast (wi_events_sent w) + 1 then (WIRE_ARGUMENT, fail WIRE_ARGUMENT True w, h)
     else let (b, h) = new_budget io True w h in
     wire_event nwr_config io (the fp) (\<lambda>w. w\<lparr>wi_events_sent := wi_events_sent w + 1\<rparr>) b w h)"

definition nwr_finish_refused :: "wire \<Rightarrow> u32 list option \<Rightarrow> bool \<Rightarrow> bool" where
  "nwr_finish_refused w fp clean = (let f = the fp in
     \<not> nwr_metadata_valid fp \<or> f ! NW_EVENT_COUNT < ucast (wi_events_sent w) \<or> f ! NW_EVENT_COUNT > ucast (wi_events_sent w) + 1 \<or>
     (if clean then \<not> nwr_wire_clean_result fp \<or> wi_data_stopped w \<or> wi_events_sent w \<noteq> wi_events_acked w \<or>
        f ! NW_EVENT_COUNT \<noteq> ucast (wi_events_acked w)
      else f ! NW_RC = 0 \<or> f ! NW_OUTCOME = NWR_VERIFIED))"

definition nwr_wire_finish :: "'h wire_io \<Rightarrow> u32 list option \<Rightarrow> bool \<Rightarrow> wire \<Rightarrow> 'h \<Rightarrow> wire_rc \<times> wire \<times> 'h" where
  "nwr_wire_finish io fp clean w h =
    (if \<not> wi_initialized w then (WIRE_ARGUMENT, w, h)
     else if \<not> end_admitted w then (WIRE_STATE, fail WIRE_STATE False w, h)
     else let w = w\<lparr>wi_end_attempted := True\<rparr> in
     if nwr_finish_refused w fp clean then (WIRE_ARGUMENT, fail WIRE_ARGUMENT True w, h)
     else wire_end nwr_config io (the fp) clean w h)"

section \<open>Sessions\<close>

datatype nwr_call = WHandshake | WArm u32 | WCheck | WProgress "u32 list option" | WFinish "u32 list option" bool

fun nwr_do :: "'h wire_io \<Rightarrow> nwr_call \<Rightarrow> wire \<Rightarrow> 'h \<Rightarrow> wire_rc \<times> wire \<times> 'h" where
  "nwr_do io WHandshake w h = nwr_wire_handshake io w h"
| "nwr_do io (WArm t) w h = nwr_wire_arm_data_deadline io t w h"
| "nwr_do io WCheck w h = nwr_wire_check io w h"
| "nwr_do io (WProgress fp) w h = nwr_wire_progress io fp w h"
| "nwr_do io (WFinish fp clean) w h = nwr_wire_finish io fp clean w h"

fun nwr_class :: "nwr_call \<Rightarrow> wire_class" where
  "nwr_class (WProgress fp) = Event"
| "nwr_class (WFinish fp clean) = End clean"
| "nwr_class c = Plain"

fun nwr_good :: "nwr_call \<Rightarrow> bool" where
  "nwr_good (WFinish fp clean) = nwr_wire_clean_result fp"
| "nwr_good c = True"

context counted_io
begin

lemma nwr_progress_step:
  assumes i: "wi_initialized w" and e: "nwr_wire_progress io fp w h = (rc, w', h')"
  shows "stepped Event rc w w' \<and> n h' \<le> n h + 8192"
proof (cases "\<not> data_admitted w \<or> wi_events_sent w \<noteq> wi_events_acked w \<or> wi_events_sent w \<ge> NWR_WIRE_EVENTS \<or> \<not> nwr_progress_valid fp \<or>
    the fp ! NW_EVENT_COUNT \<noteq> ucast (wi_events_sent w) + 1")
  case True
  then have "rc \<noteq> WIRE_OK \<and> h' = h \<and> w' = fail rc (rc = WIRE_ARGUMENT) w"
    using e i by (auto simp: nwr_wire_progress_def split: if_split_asm)
  then show ?thesis using stepped_fail [OF i, of rc w'] by auto
next
  case False
  obtain b h0 where b: "new_budget io True w h = (b, h0)" by fastforce
  let ?upd = "\<lambda>w :: wire. w\<lparr>wi_events_sent := wi_events_sent w + 1\<rparr>"
  have e': "wire_event nwr_config io (the fp) ?upd b w h0 = (rc, w', h')" using e i False by (simp add: nwr_wire_progress_def b)
  have "wi_events_acked w < 32" "\<not> wi_end_attempted w" using False by (auto simp: data_admitted_def)
  moreover have "quiet_update ?upd" by (simp add: quiet_update_def flags_kept_def buffers_def)
  ultimately show ?thesis using event_step [OF i _ _ _ _ e'] budget_fresh [OF b] by auto
qed

lemma nwr_finish_step:
  assumes i: "wi_initialized w" and e: "nwr_wire_finish io fp clean w h = (rc, w', h')"
  shows "stepped (End clean) rc w w' \<and> n h' \<le> n h + 8192"
proof -
  define w0 where "w0 = w\<lparr>wi_end_attempted := True\<rparr>"
  have v: "wi_initialized w0" "buffers w0 = buffers w" "wi_end_attempted w0" by (simp_all add: w0_def i buffers_def)
  have k: "stepped (End clean) WIRE_ARGUMENT w (fail WIRE_ARGUMENT True w0)"
    using kept_flags [OF kept_fail_same [of WIRE_ARGUMENT w0 True]] v by (simp add: stepped_def)
  consider (state) "rc = WIRE_STATE" "w' = fail WIRE_STATE False w" "h' = h" | (refused) "rc = WIRE_ARGUMENT" "w' = fail WIRE_ARGUMENT True w0" "h' = h"
    | (on) "end_admitted w" "\<not> nwr_finish_refused w0 fp clean" "wire_end nwr_config io (the fp) clean w0 h = (rc, w', h')"
    using e i unfolding nwr_wire_finish_def Let_def w0_def [symmetric] by (auto split: if_split_asm)
  then show ?thesis
  proof cases
    case state then show ?thesis using stepped_fail [OF i, of rc w'] by simp
  next
    case refused then show ?thesis using k by simp
  next
    case on
    have "clean \<Longrightarrow> \<not> wi_data_stopped w" using on(2) by (auto simp: nwr_finish_refused_def Let_def w0_def)
    then show ?thesis using end_step [OF i _ w0_def _ on(3)] on(1) by (simp add: end_admitted_def)
  qed
qed

lemma nwr_call_step:
  assumes "wi_initialized w" and "nwr_do io c w h = (rc, w', h')"
  shows "stepped (nwr_class c) rc w w' \<and> n h' \<le> n h + 8192"
  using assms handshake_step arm_step check_step nwr_progress_step nwr_finish_step
  by (cases c) (simp_all add: nwr_wire_handshake_def nwr_wire_arm_data_deadline_def nwr_wire_check_def)

end

lemma nwr_clean_end:
  assumes "wi_initialized w" and "nwr_class c = End True" and "nwr_do io c w h = (WIRE_OK, w', h')"
  shows "wi_events_acked w = 19 \<and> nwr_good c"
proof -
  obtain fp where c: "c = WFinish fp True" using assms(2) by (cases c) auto
  have r: "\<not> nwr_finish_refused (w\<lparr>wi_end_attempted := True\<rparr>) fp True"
    using assms(1,3) c by (auto simp: nwr_wire_finish_def Let_def split: if_split_asm)
  then have "(ucast (wi_events_acked w) :: u32) = 19"
    by (auto simp: nwr_finish_refused_def nwr_wire_clean_result_def nwr_clean_fields_def Let_def)
  then have "unat (ucast (wi_events_acked w) :: u32) = 19" by simp
  then have "unat (wi_events_acked w) = 19"
    using unsigned_less [of "wi_events_acked w", where ?'a = nat] by (simp add: unsigned_ucast_eq unsigned_take_bit_eq take_bit_nat_eq_self)
  then have "wi_events_acked w = 19" by (simp add: word_unat_eq_iff)
  then show ?thesis using r c by (simp add: nwr_finish_refused_def Let_def)
qed

lemma nwr_session_law: "counted_io io n \<Longrightarrow> rate_session (nwr_do io) nwr_class n 19 nwr_good"
  by unfold_locales (simp_all add: counted_io.nwr_call_step nwr_clean_end)

interpretation nwr: rate_session "nwr_do io" nwr_class "\<lambda>_. 0" 19 nwr_good for io
  by (rule nwr_session_law) (rule any.counted_io_axioms)

lemma nwr_init_fresh: "nwr_wire_init complete (Some v) = (WIRE_OK, Some w) \<Longrightarrow> wire_fresh w"
  by (auto simp: nwr_wire_init_def wire_fresh_def split: if_split_asm)

section \<open>Properties\<close>

text \<open>The write-rate console is released only by a clean session, in a bounded exchange.  Start from \<open>nwr_wire_init\<close> and make any calls
  against a host whose callbacks behave in any way.  The console may be reused exactly when the transport is not quarantined, and
  then every call succeeded, exactly nineteen PROGRESS calls were made and acknowledged, and a clean END was acknowledged whose
  metadata says that both rows were programmed once, read back with the pinned checksums and left the older rows intact.
  Whatever the host does, a session of n calls returns n results after at most 8192 * n transfer callbacks.\<close>

theorem nwr_console_release:
  assumes "counted_io io n" and "nwr_wire_init complete (Some v) = (WIRE_OK, Some w)" and "wire_run (nwr_do io) cs w h = (rcs, w', h')"
  shows "wi_console_reuse_allowed w' = (\<not> wi_quarantined w') \<and> length rcs = length cs \<and> n h' \<le> n h + 8192 * length cs \<and>
    (wi_console_reuse_allowed w' \<longrightarrow> set rcs \<subseteq> {WIRE_OK} \<and> length (filter (\<lambda>c. nwr_class c = Event) cs) = 19 \<and> wi_events_acked w' = 19 \<and>
      wi_clean_end_acknowledged w' \<and> (\<exists>f. WFinish (Some f) True \<in> set cs \<and> f ! NW_EXECUTES = 2 \<and> f ! NW_COMPLETED = 2 \<and>
        f ! NW_OLD_POST_VALID = 7 \<and> nwr_sample f False NS_CRC32 = 3609480481 \<and> nwr_sample f True NS_CRC32 = 841828657))"
proof -
  have "\<exists>f. WFinish (Some f) True \<in> set cs \<and> f ! NW_EXECUTES = 2 \<and> f ! NW_COMPLETED = 2 \<and> f ! NW_OLD_POST_VALID = 7 \<and>
      nwr_sample f False NS_CRC32 = 3609480481 \<and> nwr_sample f True NS_CRC32 = 841828657"
    if "\<exists>c\<in>set cs. nwr_class c = End True \<and> nwr_good c"
    using that
  proof (elim bexE)
    fix c assume c: "c \<in> set cs" "nwr_class c = End True \<and> nwr_good c"
    then obtain fp where fp: "c = WFinish fp True" "nwr_wire_clean_result fp" by - (cases c, auto)
    then obtain f where "fp = Some f" by (cases fp) (auto simp: nwr_wire_clean_result_def nwr_metadata_valid_def)
    then show ?thesis
      using c fp by (intro exI [of _ f]) (simp add: nwr_wire_clean_result_def nwr_clean_fields_def nwr_sample_clean_def Let_def)
  qed
  then show ?thesis
    using rate_session.release [OF nwr_session_law [OF assms(1)] nwr_init_fresh [OF assms(2)] assms(3)]
      rate_session.bounded [OF nwr_session_law [OF assms(1)] nwr_init_fresh [OF assms(2)] assms(3)] by simp
qed

definition demo_nwr :: wire where
  "demo_nwr = \<lparr>wi_nonce = replicate 16 0, wi_tx_header = replicate 48 0, wi_tx_metadata = replicate 384 0,
     wi_rx_control = replicate 56 0, wi_data_deadline = 0, wi_events_sent = 0, wi_events_acked = 0, wi_last_rc = WIRE_OK,
     wi_host_abort_reason = 0, wi_initialized = True, wi_handshake_started = False, wi_hello_received = False, wi_deadline_armed = False,
     wi_output_frame_boundary = True, wi_transport_usable = True, wi_data_stopped = False, wi_end_attempted = False, wi_end_sent = False,
     wi_clean_end_acknowledged = False, wi_console_reuse_allowed = False, wi_quarantined = True\<rparr>"

lemma demo_nwr_init: "nwr_wire_init True (Some demo_nwr) = (WIRE_OK, Some demo_nwr)"
  by (simp add: demo_nwr_def nwr_wire_init_def)

theorem nwr_console_release_witness:
  "length (fst (wire_run (nwr_do (counted silent_host)) [WHandshake, WFinish None False] demo_nwr (0, 0))) = 2 \<and>
   snd (snd (snd (wire_run (nwr_do (counted silent_host)) [WHandshake, WFinish None False] demo_nwr (0, 0)))) \<le> 16384"
proof -
  obtain rcs w' h' k where e: "wire_run (nwr_do (counted silent_host)) [WHandshake, WFinish None False] demo_nwr (0, 0) = (rcs, w', h', k)"
    by (metis prod.collapse)
  show ?thesis using nwr_console_release [OF cnt.counted_io_axioms demo_nwr_init e] unfolding e by simp
qed

end
