(* ===== verification/Object_Store.thy ===== *)
theory Object_Store
  imports Manifest
begin

text \<open>
  The recording object store (\<open>recording_object_store.c\<close>): the layer that turns a sealed segment into a durable,
  verified object on a logical page map.  The context of the C code is the record \<open>ros_context\<close>; the port
  (\<open>struct ros_port\<close>: clock, cancellation, admission, page read and write, map sync and sealing) and the SHA-256
  provider are parameters, functions on an environment of any type.  Every entry point and every step of the
  recovery, reservation, segment, finalisation, load and metadata jobs is a definition; return codes are the
  integers of \<open>enum ros_rc\<close>, because a backend may report any integer.
\<close>

section \<open>Model: types\<close>

abbreviation ROS_OK :: int where "ROS_OK \<equiv> 0"
abbreviation ROS_PENDING :: int where "ROS_PENDING \<equiv> 1"
abbreviation ROS_READY :: int where "ROS_READY \<equiv> 2"
abbreviation ROS_ARGUMENT :: int where "ROS_ARGUMENT \<equiv> -1"
abbreviation ROS_BUSY :: int where "ROS_BUSY \<equiv> -2"
abbreviation ROS_STATE :: int where "ROS_STATE \<equiv> -3"
abbreviation ROS_FULL :: int where "ROS_FULL \<equiv> -4"
abbreviation ROS_FAILED :: int where "ROS_FAILED \<equiv> -5"
abbreviation ROS_NOT_FOUND :: int where "ROS_NOT_FOUND \<equiv> -6"
abbreviation ROS_READ_OK :: int where "ROS_READ_OK \<equiv> 0"
abbreviation ROS_READ_MISSING :: int where "ROS_READ_MISSING \<equiv> 1"
abbreviation ROS_EXTENT_ROOTS :: u32 where "ROS_EXTENT_ROOTS \<equiv> 32"
abbreviation ROS_EXTENT_SLOTS :: u32 where "ROS_EXTENT_SLOTS \<equiv> 3600"
abbreviation ROS_SLOT_PAGES :: u32 where "ROS_SLOT_PAGES \<equiv> 18"
abbreviation ROS_DATA_PAGES :: u32 where "ROS_DATA_PAGES \<equiv> 17"
abbreviation ROS_CONTAINER_BYTES :: nat where "ROS_CONTAINER_BYTES \<equiv> 34357"
abbreviation ROS_JOB_MAX_MS :: u64 where "ROS_JOB_MAX_MS \<equiv> 30000"
abbreviation ROS_EXTENT_RECOVER_MS :: u64 where "ROS_EXTENT_RECOVER_MS \<equiv> 120000"
abbreviation ROS_RETIRED_MAX :: nat where "ROS_RETIRED_MAX \<equiv> 14"
abbreviation RLL_TOMBSTONES :: nat where "RLL_TOMBSTONES \<equiv> 512"
abbreviation ROS_MAGIC :: u32 where "ROS_MAGIC \<equiv> 0x524f5331"
abbreviation ROOT_ACTIVE :: u32 where "ROOT_ACTIVE \<equiv> 1"
abbreviation ROOT_FINAL :: u32 where "ROOT_FINAL \<equiv> 2"
abbreviation SLOT_INTENT :: u32 where "SLOT_INTENT \<equiv> 3"
abbreviation SLOT_COMMIT :: u32 where "SLOT_COMMIT \<equiv> 4"
abbreviation SLOT_RETIRED :: u32 where "SLOT_RETIRED \<equiv> 5"
abbreviation sizeof_ros_port :: nat where "sizeof_ros_port \<equiv> 32"
abbreviation sizeof_rp_completion :: nat where "sizeof_rp_completion \<equiv> 136"
abbreviation sizeof_rp_segment_receipt :: nat where "sizeof_rp_segment_receipt \<equiv> 132"
abbreviation sizeof_rp_final_receipt :: nat where "sizeof_rp_final_receipt \<equiv> 144"
abbreviation sizeof_ros_status :: nat where "sizeof_ros_status \<equiv> 32"
abbreviation sizeof_ros_geometry :: nat where "sizeof_ros_geometry \<equiv> 12"
abbreviation sizeof_ros_context :: nat where "sizeof_ros_context \<equiv> 59480"

datatype ros_job = ROS_NONE | ROS_RECOVER | ROS_RESERVE | ROS_SEGMENT | ROS_FINALIZE | ROS_LOAD | ROS_META

text \<open>The callbacks of \<open>struct ros_port\<close>; \<open>None\<close> is a NULL function pointer.  \<open>po_read\<close> yields what it stored into the page,
  \<open>po_seal\<close> the encapsulated key, the ciphertext and the length it reported.\<close>

record 'e ros_port =
  ps_now_ms :: "('e \<Rightarrow> u64 \<times> 'e) option"
  ps_cancelled :: "('e \<Rightarrow> int \<times> 'e) option"
  ps_admit :: "(int \<Rightarrow> u64 \<Rightarrow> 'e \<Rightarrow> int \<times> 'e) option"
  ps_read :: "(u32 \<Rightarrow> u64 \<Rightarrow> 'e \<Rightarrow> int \<times> bytes \<times> 'e) option"
  ps_write :: "(u32 \<Rightarrow> bytes \<Rightarrow> u64 \<Rightarrow> 'e \<Rightarrow> int \<times> 'e) option"
  ps_sync :: "(u64 \<Rightarrow> 'e \<Rightarrow> int \<times> 'e) option"
  ps_seal :: "(bytes \<Rightarrow> bytes \<Rightarrow> bytes \<Rightarrow> nat \<Rightarrow> 'e \<Rightarrow> int \<times> bytes \<times> bytes \<times> nat \<times> 'e) option"

record ros_status =
  ss_mounted :: u32
  ss_fault :: u32
  ss_job :: ros_job
  ss_stage :: u32
  ss_ready :: u32
  ss_slot_count :: u32
  ss_consumed_slots :: u32
  ss_error :: int

text \<open>\<open>oc_retired\<close> holds the first \<open>retired_count\<close> rows of \<open>retired[][16]\<close>; \<open>oc_env\<close> is the world behind \<open>port.user\<close>.\<close>

record 'e ros_context = ros_status +
  oc_gate :: u32
  oc_initialized :: u32
  oc_port :: "'e ros_port"
  oc_hash :: sha_provider
  oc_volume :: es_binding
  oc_recipient :: bytes
  oc_deadline :: u64
  oc_last_now :: u64
  oc_root :: u32
  oc_slot :: u32
  oc_index :: u32
  oc_scan_root :: u32
  oc_scan_slot :: u32
  oc_active_root :: u32
  oc_root_count :: u32
  oc_segment_limit :: u32
  oc_extent_profile :: u32
  oc_used :: bytes
  oc_retired :: "bytes list"
  oc_records :: "ros_record list"
  oc_pending_record :: ros_record
  oc_segment :: ros_segment
  oc_receipt :: rp_segment_receipt
  oc_final_receipt :: rp_final_receipt
  oc_container :: bytes
  oc_catalog :: bytes
  oc_page :: bytes
  oc_env :: 'e

record ros_geometry =
  ge_roots :: u32
  ge_slots :: u32
  ge_profile :: u32

definition ros_segment_zero :: ros_segment where
  "ros_segment_zero = \<lparr>sg_identity = es_zero, sg_first_sample = 0, sg_next_sample = 0, sg_samples = 0, sg_root = 0, sg_slot = 0,
     sg_profile = 0, sg_gap = 0, sg_container_bytes = 0, sg_pages = 0, sg_digest = replicate 32 0\<rparr>"

definition receipt_none :: rp_segment_receipt where
  "receipt_none = \<lparr>sr_durable = 0, sr_es_header = replicate 128 0\<rparr>"

definition final_none :: rp_final_receipt where
  "final_none = \<lparr>fr_completion = ro_completion ros_record_zero, fr_durable = 0\<rparr>"

section \<open>Model: helpers\<close>

definition ros_magic :: bytes where "ros_magic = ascii ''OPNDOS1'' @ [0]"
definition extent_magic :: bytes where "extent_magic = ascii ''OPNDOS2'' @ [0]"
definition full_magic :: bytes where "full_magic = ascii ''OPNDOS3'' @ [0]"

definition format_tag :: "'e ros_context \<Rightarrow> bytes" where
  "format_tag c = (if oc_extent_profile c = 2 then full_magic else if oc_extent_profile c \<noteq> 0 then extent_magic else ros_magic)"

definition ros_fill :: "bytes \<Rightarrow> u8 \<Rightarrow> bool" where "ros_fill p v = list_all (\<lambda>b. b = v) p"

fun external :: "nat \<Rightarrow> 'a ptr \<Rightarrow> nat \<Rightarrow> bool" where
  "external ca Null n = False"
| "external ca (Ptr a x) n = (n \<noteq> 0 \<and> \<not> overlap ca sizeof_ros_context a n)"

definition ros_id :: "bytes \<Rightarrow> bool" where "ros_id p \<longleftrightarrow> \<not> ros_fill p 0 \<and> \<not> ros_fill p 255"

definition volume_equal :: "es_binding \<Rightarrow> es_binding \<Rightarrow> bool" where
  "volume_equal a b \<longleftrightarrow> es_generation a = es_generation b \<and> es_key_fingerprint a = es_key_fingerprint b \<and>
     es_device_id a = es_device_id b \<and> es_volume_id a = es_volume_id b"

definition identity_equal :: "es_binding \<Rightarrow> es_binding \<Rightarrow> bool" where
  "identity_equal a b \<longleftrightarrow> volume_equal a b \<and> es_recording_id a = es_recording_id b"

definition ros_retired :: "'e ros_context \<Rightarrow> bytes \<Rightarrow> bool" where
  "ros_retired c uuid \<longleftrightarrow> list_ex (\<lambda>r. r = uuid) (oc_retired c)"

definition ros_sector :: "'e ros_context \<Rightarrow> u32 \<Rightarrow> u32" where
  "ros_sector c slot = oc_root_count c + slot * ROS_SLOT_PAGES"

definition slot_state :: "'e ros_context \<Rightarrow> u32 \<Rightarrow> u32" where
  "slot_state c slot = ucast (drop_bit (unat slot mod 2 * 4) (oc_used c ! (unat slot div 2))) AND 15"

definition set_slot_state :: "u32 \<Rightarrow> u32 \<Rightarrow> 'e ros_context \<Rightarrow> 'e ros_context" where
  "set_slot_state slot state c =
    (let shift = unat slot mod 2 * 4; i = unat slot div 2 in
     c\<lparr>oc_used := (oc_used c)[i := (oc_used c ! i AND NOT (push_bit shift 15)) OR push_bit shift (ucast state)]\<rparr>)"

text \<open>\<open>lock\<close> and \<open>unlock\<close> around the body of an entry point.\<close>

fun ros_locked :: "('e ros_context \<Rightarrow> int \<times> 'e ros_context) \<Rightarrow> 'e ros_context ptr \<Rightarrow> int \<times> 'e ros_context ptr" where
  "ros_locked body Null = (ROS_ARGUMENT, Null)"
| "ros_locked body (Ptr a c) =
    (if oc_initialized c \<noteq> ROS_MAGIC then (ROS_ARGUMENT, Ptr a c)
     else if oc_gate c \<noteq> 0 then (ROS_BUSY, Ptr a c)
     else let (rc, c) = body (c\<lparr>oc_gate := 1\<rparr>) in (rc, Ptr a (c\<lparr>oc_gate := 0\<rparr>)))"

definition ros_buffers :: "'e ros_context \<Rightarrow> 'e ros_context" where
  "ros_buffers c = c\<lparr>oc_container := replicate ROS_CONTAINER_BYTES 0, oc_catalog := replicate 2048 0, oc_page := replicate 2048 0\<rparr>"

definition ros_fault :: "int \<Rightarrow> 'e ros_context \<Rightarrow> int \<times> 'e ros_context" where
  "ros_fault rc c = (ROS_FAILED, ros_buffers (c\<lparr>ss_fault := 1, ss_ready := 0, ss_error := rc, oc_receipt := receipt_none,
     oc_final_receipt := final_none\<rparr>))"

definition ros_guard :: "'e ros_context \<Rightarrow> int \<times> 'e ros_context" where
  "ros_guard c =
    (let (before, e) = the (ps_now_ms (oc_port c)) (oc_env c);
         (cancelled, e) = the (ps_cancelled (oc_port c)) e;
         (now, e) = the (ps_now_ms (oc_port c)) e;
         c = c\<lparr>oc_env := e\<rparr> in
     if before < oc_last_now c \<or> now < before \<or> now \<ge> oc_deadline c \<or> cancelled \<noteq> 0 then ros_fault ROS_FAILED c
     else (ROS_OK, c\<lparr>oc_last_now := now\<rparr>))"

text \<open>The tail of every callback: \<open>return guard(c) ? ROS_FAILED : (rc ? fault(c, rc) : ROS_OK)\<close>.\<close>

definition ros_settle :: "int \<Rightarrow> 'e ros_context \<Rightarrow> int \<times> 'e ros_context" where
  "ros_settle rc c = (let (g, c) = ros_guard c in if g \<noteq> 0 then (ROS_FAILED, c) else if rc \<noteq> 0 then ros_fault rc c else (ROS_OK, c))"

definition ros_admit :: "int \<Rightarrow> 'e ros_context \<Rightarrow> int \<times> 'e ros_context" where
  "ros_admit writing c =
    (let (g, c) = ros_guard c in
     if g \<noteq> 0 then (ROS_FAILED, c)
     else let (rc, e) = the (ps_admit (oc_port c)) writing (oc_deadline c) (oc_env c) in ros_settle rc (c\<lparr>oc_env := e\<rparr>))"

text \<open>\<open>hash(c, p, n, out)\<close>: the code, the 32 bytes that \<open>out\<close> holds afterwards and the context.\<close>

definition ros_hash :: "bytes \<Rightarrow> bytes \<Rightarrow> 'e ros_context \<Rightarrow> int \<times> bytes \<times> 'e ros_context" where
  "ros_hash p out c =
    (let (g, c) = ros_guard c in
     if g \<noteq> 0 then (ROS_FAILED, out, c)
     else let (rc, d, n) = oc_hash c p; out = blit 0 d out;
              (rc, c) = ros_settle (if rc \<noteq> 0 then rc else if n \<noteq> 32 then ROS_FAILED else 0) c in (rc, out, c))"

definition ros_read_page :: "u32 \<Rightarrow> 'e ros_context \<Rightarrow> int \<times> 'e ros_context" where
  "ros_read_page p c =
    (let (a, c) = ros_admit 0 c in
     if a \<noteq> 0 then (ROS_FAILED, c)
     else let (rc, d, e) = the (ps_read (oc_port c)) p (oc_deadline c) (oc_env c);
              (g, c) = ros_guard (c\<lparr>oc_page := blit 0 d (oc_page c), oc_env := e\<rparr>) in
       if g \<noteq> 0 then (ROS_FAILED, c)
       else if rc \<noteq> ROS_READ_OK \<and> rc \<noteq> ROS_READ_MISSING then ros_fault rc c else (rc, c))"

definition ros_write_page :: "u32 \<Rightarrow> bytes \<Rightarrow> 'e ros_context \<Rightarrow> int \<times> 'e ros_context" where
  "ros_write_page p data c =
    (let (a, c) = ros_admit 1 c in
     if a \<noteq> 0 then (ROS_FAILED, c)
     else let (rc, e) = the (ps_write (oc_port c)) p data (oc_deadline c) (oc_env c) in ros_settle rc (c\<lparr>oc_env := e\<rparr>))"

definition ros_sync_map :: "'e ros_context \<Rightarrow> int \<times> 'e ros_context" where
  "ros_sync_map c =
    (let (a, c) = ros_admit 1 c in
     if a \<noteq> 0 then (ROS_FAILED, c)
     else let (rc, e) = the (ps_sync (oc_port c)) (oc_deadline c) (oc_env c) in ros_settle rc (c\<lparr>oc_env := e\<rparr>))"

definition ros_begin :: "ros_job \<Rightarrow> u64 \<Rightarrow> 'e ros_context \<Rightarrow> int \<times> 'e ros_context" where
  "ros_begin job deadline c =
    (if ss_fault c \<noteq> 0 \<or> ss_job c \<noteq> ROS_NONE then (ROS_STATE, c)
     else let (now, e) = the (ps_now_ms (oc_port c)) (oc_env c); c = c\<lparr>oc_env := e\<rparr> in
       if now < oc_last_now c then ros_fault ROS_FAILED c
       else let max_ms = (if oc_extent_profile c \<noteq> 0 \<and> job = ROS_RECOVER then ROS_EXTENT_RECOVER_MS else ROS_JOB_MAX_MS) in
       if deadline \<le> now \<or> deadline - now > max_ms then (ROS_ARGUMENT, c)
       else (ROS_OK, (ros_buffers c)\<lparr>oc_last_now := now, oc_deadline := deadline, ss_job := job, ss_stage := 0, ss_ready := 0,
         ss_error := 0, oc_index := 0, oc_receipt := receipt_none, oc_final_receipt := final_none\<rparr>))"

section \<open>Model: catalogue pages\<close>

definition encode_identity :: "es_binding \<Rightarrow> bytes \<Rightarrow> bytes" where
  "encode_identity b p =
    (let p = blit 24 (es_key_fingerprint b) p; p = blit 56 (es_device_id b) p; p = blit 72 (es_volume_id b) p;
         p = blit 88 (es_recording_id b) p; p = put64 104 (es_generation b) p; p = put32 112 (es_segment_sequence b) p
     in put32 116 (es_plaintext_bytes b) p)"

definition decode_identity :: "bytes \<Rightarrow> es_binding" where
  "decode_identity p = \<lparr>es_key_fingerprint = part 24 32 p, es_device_id = part 56 16 p, es_volume_id = part 72 16 p,
     es_recording_id = part 88 16 p, es_generation = get64 104 p, es_segment_sequence = get32 112 p, es_plaintext_bytes = get32 116 p\<rparr>"

definition catalog_start :: "u32 \<Rightarrow> u32 \<Rightarrow> u32 \<Rightarrow> es_binding \<Rightarrow> 'e ros_context \<Rightarrow> bytes" where
  "catalog_start kind where root b c =
    (let p = blit 0 (replicate 224 0) (replicate 2048 255); p = blit 0 (format_tag c) p;
         p = put16 8 (ucast (oc_extent_profile c + 1)) p; p = put16 10 (ucast kind) p; p = put32 12 where p; p = put32 16 root p
     in encode_identity b p)"

text \<open>The numbers of \<open>enum rp_reason\<close>.\<close>

fun reason_code :: "rp_reason \<Rightarrow> u32" where
  "reason_code RP_REASON_NONE = 0" | "reason_code RP_REASON_USER = 1" | "reason_code RP_REASON_FULL = 2"
| "reason_code RP_REASON_OVERFLOW = 3" | "reason_code RP_REASON_LOW_POWER = 4" | "reason_code RP_REASON_CODEC = 5"
| "reason_code RP_REASON_STORE = 6" | "reason_code RP_REASON_RECEIPT = 7" | "reason_code RP_REASON_CONTINUITY = 8"
| "reason_code RP_REASON_EXTERNAL = 9" | "reason_code RP_REASON_LIMIT = 10"

text \<open>A stored number above \<open>RP_REASON_LIMIT\<close> reads as \<open>RP_REASON_NONE\<close>: the parser refuses both alike.\<close>

definition code_reason :: "u32 \<Rightarrow> rp_reason" where
  "code_reason v = (if v = 1 then RP_REASON_USER else if v = 2 then RP_REASON_FULL else if v = 3 then RP_REASON_OVERFLOW
     else if v = 4 then RP_REASON_LOW_POWER else if v = 5 then RP_REASON_CODEC else if v = 6 then RP_REASON_STORE
     else if v = 7 then RP_REASON_RECEIPT else if v = 8 then RP_REASON_CONTINUITY else if v = 9 then RP_REASON_EXTERNAL
     else if v = 10 then RP_REASON_LIMIT else RP_REASON_NONE)"

text \<open>The stores of \<open>catalog_root\<close> and \<open>catalog_segment\<close> before the digest.\<close>

definition root_fields :: "u32 \<Rightarrow> ros_record \<Rightarrow> 'e ros_context \<Rightarrow> bytes" where
  "root_fields kind r c =
    (let p = catalog_start kind (oc_root c) (oc_root c) (ro_identity r) c; f = ro_completion r;
         p = put64 160 (ro_first_sample r) p;
         p = put64 168 (if kind = ROOT_FINAL then cp_next_sample f else ro_first_sample r) p;
         p = put32 184 (ro_mode r) p; p = put32 216 2 p in
     if kind = ROOT_FINAL
     then let p = put32 188 (reason_code (cp_reason f)) p; p = put32 192 (cp_segments f) p; p = put32 196 (cp_gaps f) p;
              p = put64 200 (cp_captured_samples f) p in put64 208 (cp_committed_samples f) p
     else p)"

definition segment_fields :: "u32 \<Rightarrow> 'e ros_context \<Rightarrow> bytes" where
  "segment_fields kind c =
    (let s = oc_segment c; p = catalog_start kind (ros_sector c (sg_slot s)) (sg_root s) (sg_identity s) c;
         p = put32 120 (sg_container_bytes s) p; p = put32 124 (sg_pages s) p; p = blit 128 (sg_digest s) p;
         p = put64 160 (sg_first_sample s) p; p = put64 168 (sg_next_sample s) p; p = put64 176 (sg_samples s) p;
         p = put32 184 (ro_mode (oc_records c ! unat (sg_root s))) p; p = put32 216 (sg_profile s) p
     in put32 220 (sg_gap s) p)"

text \<open>\<open>return hash(c, c->catalog, 224, c->catalog + 224)\<close>.\<close>

definition catalog_seal :: "bytes \<Rightarrow> 'e ros_context \<Rightarrow> int \<times> 'e ros_context" where
  "catalog_seal p c =
    (let (rc, d, c) = ros_hash (part 0 224 p) (part 224 32 p) (c\<lparr>oc_catalog := p\<rparr>) in
     if rc \<noteq> 0 then (rc, c) else (ROS_OK, c\<lparr>oc_catalog := blit 224 d p\<rparr>))"

definition catalog_root :: "u32 \<Rightarrow> ros_record \<Rightarrow> 'e ros_context \<Rightarrow> int \<times> 'e ros_context" where
  "catalog_root kind r c = catalog_seal (root_fields kind r c) c"

definition catalog_segment :: "u32 \<Rightarrow> 'e ros_context \<Rightarrow> int \<times> 'e ros_context" where
  "catalog_segment kind c = catalog_seal (segment_fields kind c) c"

definition catalog_check :: "u32 \<Rightarrow> 'e ros_context \<Rightarrow> int \<times> u32 \<times> es_binding \<times> 'e ros_context" where
  "catalog_check where c =
    (let p = oc_page c; kind = ucast (get16 10 p); b = decode_identity p in
     if part 0 8 p \<noteq> format_tag c \<or> ucast (get16 8 p) \<noteq> oc_extent_profile c + 1 \<or> get32 12 p \<noteq> where \<or> \<not> ros_fill (part 20 4 p) 0 \<or>
        \<not> ros_fill (part 256 1792 p) 255 \<or> get32 216 p \<noteq> 2
     then let (rc, c) = ros_fault ROS_FAILED c in (rc, kind, b, c)
     else let (rc, digest, c) = ros_hash (part 0 224 p) (replicate 32 0) c in
       if rc \<noteq> 0 then (ROS_FAILED, kind, b, c)
       else if digest \<noteq> part 224 32 p then let (rc, c) = ros_fault ROS_FAILED c in (rc, kind, b, c)
       else if \<not> volume_equal b (oc_volume c) \<or> \<not> ros_id (es_recording_id b)
       then let (rc, c) = ros_fault ROS_FAILED c in (rc, kind, b, c)
       else (ROS_OK, kind, b, c))"

text \<open>The shape check of a root page, and the record it describes.\<close>

definition root_bad :: "u32 \<Rightarrow> u32 \<Rightarrow> es_binding \<Rightarrow> bytes \<Rightarrow> bool" where
  "root_bad root kind b p \<longleftrightarrow> (kind \<noteq> ROOT_ACTIVE \<and> kind \<noteq> ROOT_FINAL) \<or> get32 16 p \<noteq> root \<or> es_segment_sequence b \<noteq> 0 \<or>
     es_plaintext_bytes b \<noteq> 0 \<or> \<not> ros_fill (part 120 40 p) 0 \<or> get64 176 p \<noteq> 0 \<or> get32 184 p > 1 \<or> get32 220 p \<noteq> 0 \<or>
     get64 168 p < get64 160 p"

definition root_record :: "u32 \<Rightarrow> es_binding \<Rightarrow> bytes \<Rightarrow> ros_record" where
  "root_record kind b p = ros_record_zero\<lparr>ro_identity := b, ro_present := 1, ro_profile := 2,
     ro_finalized := (if kind = ROOT_FINAL then 1 else 0), ro_interrupted := (if kind = ROOT_FINAL then 0 else 1),
     ro_mode := get32 184 p, ro_first_sample := get64 160 p, ro_next_sample := get64 160 p\<rparr>"

definition root_completion :: "es_binding \<Rightarrow> bytes \<Rightarrow> rp_completion" where
  "root_completion b p = \<lparr>cp_session = b, cp_mode = get32 184 p, cp_reason = code_reason (get32 188 p), cp_segments = get32 192 p,
     cp_gaps = get32 196 p, cp_captured_samples = get64 200 p, cp_committed_samples = get64 208 p, cp_next_sample = get64 168 p\<rparr>"

definition parse_root :: "u32 \<Rightarrow> 'e ros_context \<Rightarrow> int \<times> 'e ros_context" where
  "parse_root root c =
    (let p = oc_page c; (rc, kind, b, c) = catalog_check root c in
     if rc \<noteq> 0 then (ROS_FAILED, c)
     else if root_bad root kind b p then ros_fault ROS_FAILED c
     else if list_ex (\<lambda>r. ro_present r \<noteq> 0 \<and> identity_equal b (ro_identity r)) (take (unat root) (oc_records c))
     then ros_fault ROS_FAILED c
     else let r = root_record kind b p; c1 = c\<lparr>oc_records := (oc_records c)[unat root := r]\<rparr> in
       if kind = ROOT_ACTIVE \<and> (get64 168 p \<noteq> ro_first_sample r \<or> \<not> ros_fill (part 188 28 p) 0) then ros_fault ROS_FAILED c1
       else let f = root_completion b p; r = (if kind = ROOT_ACTIVE then r else r\<lparr>ro_completion := f\<rparr>);
                c2 = c\<lparr>oc_records := (oc_records c)[unat root := r]\<rparr> in
       if kind \<noteq> ROOT_ACTIVE \<and> (cp_reason f = RP_REASON_NONE \<or> cp_segments f > oc_segment_limit c \<or>
            cp_captured_samples f < cp_committed_samples f \<or> cp_next_sample f - ro_first_sample r < cp_captured_samples f)
       then ros_fault ROS_FAILED c2
       else if ros_retired c (es_recording_id b) then (ROS_OK, c\<lparr>oc_records := (oc_records c)[unat root := ros_record_zero]\<rparr>)
       else (ROS_OK, c2))"

definition segment_bad :: "u32 \<Rightarrow> es_binding \<Rightarrow> bytes \<Rightarrow> 'e ros_context \<Rightarrow> bool" where
  "segment_bad kind b p c \<longleftrightarrow> (kind \<noteq> SLOT_INTENT \<and> kind \<noteq> SLOT_COMMIT) \<or> get32 16 p \<ge> oc_root_count c \<or>
     es_plaintext_bytes b = 0 \<or> es_plaintext_bytes b > 34148 \<or> es_segment_sequence b \<ge> oc_segment_limit c \<or>
     get32 120 p \<noteq> es_plaintext_bytes b + 209 \<or> get32 124 p \<noteq> (get32 120 p + 2047) div 2048 \<or> get32 124 p > ROS_DATA_PAGES \<or>
     get32 184 p > 1 \<or> \<not> ros_fill (part 188 28 p) 0 \<or> get32 220 p > 1 \<or> get64 168 p \<le> get64 160 p \<or>
     get64 168 p - get64 160 p \<noteq> get64 176 p \<or> get64 176 p = 0 \<or> get64 176 p > 160000 \<or> get64 176 p mod 320 \<noteq> 0"

definition parsed_segment :: "u32 \<Rightarrow> es_binding \<Rightarrow> bytes \<Rightarrow> ros_segment" where
  "parsed_segment slot b p = \<lparr>sg_identity = b, sg_first_sample = get64 160 p, sg_next_sample = get64 168 p, sg_samples = get64 176 p,
     sg_root = get32 16 p, sg_slot = slot, sg_profile = 2, sg_gap = get32 220 p, sg_container_bytes = get32 120 p,
     sg_pages = get32 124 p, sg_digest = part 128 32 p\<rparr>"

text \<open>\<open>parse_segment\<close>: the code, \<open>*kind\<close> and the context.\<close>

definition parse_segment :: "u32 \<Rightarrow> 'e ros_context \<Rightarrow> int \<times> u32 \<times> 'e ros_context" where
  "parse_segment slot c =
    (let p = oc_page c; (rc, kind, b, c) = catalog_check (ros_sector c slot) c in
     if rc \<noteq> 0 then (ROS_FAILED, kind, c)
     else if segment_bad kind b p c then let (rc, c) = ros_fault ROS_FAILED c in (rc, kind, c)
     else if ros_retired c (es_recording_id b) then (ROS_OK, SLOT_RETIRED, c)
     else let r = oc_records c ! unat (get32 16 p) in
       if ro_present r = 0 \<or> \<not> identity_equal b (ro_identity r) \<or> get32 184 p \<noteq> ro_mode r
       then let (rc, c) = ros_fault ROS_FAILED c in (rc, kind, c)
       else (ROS_OK, kind, c\<lparr>oc_segment := parsed_segment slot b p\<rparr>))"

definition sequence_valid :: "'e ros_context \<Rightarrow> int \<times> 'e ros_context" where
  "sequence_valid c =
    (let s = oc_segment c; r = oc_records c ! unat (sg_root s) in
     if ro_blocked r \<noteq> 0 \<or> es_segment_sequence (sg_identity s) \<noteq> ro_segments r \<or> sg_first_sample s < ro_next_sample r \<or>
        sg_gap s \<noteq> (if sg_first_sample s > ro_next_sample r then 1 else 0) \<or> ro_committed_samples r > UINT64_MAX - sg_samples s
     then ros_fault ROS_FAILED c else (ROS_OK, c))"

definition ros_account :: "'e ros_context \<Rightarrow> 'e ros_context" where
  "ros_account c =
    (let s = oc_segment c; r = oc_records c ! unat (sg_root s) in
     c\<lparr>oc_records := (oc_records c)[unat (sg_root s) := r\<lparr>ro_segments := ro_segments r + 1, ro_gaps := ro_gaps r + sg_gap s,
       ro_committed_samples := ro_committed_samples r + sg_samples s, ro_next_sample := sg_next_sample s\<rparr>]\<rparr>)"

definition complete_valid :: "ros_record \<Rightarrow> rp_completion \<Rightarrow> 'e ros_context \<Rightarrow> int \<times> 'e ros_context" where
  "complete_valid r f c =
    (if \<not> identity_equal (ro_identity r) (cp_session f) \<or> es_segment_sequence (cp_session f) \<noteq> 0 \<or>
        es_plaintext_bytes (cp_session f) \<noteq> 0 \<or> cp_mode f \<noteq> ro_mode r \<or> cp_reason f = RP_REASON_NONE \<or>
        cp_segments f \<noteq> ro_segments r \<or> cp_gaps f < ro_gaps r \<or> cp_committed_samples f \<noteq> ro_committed_samples r \<or>
        cp_captured_samples f < cp_committed_samples f \<or> cp_next_sample f < ro_next_sample r \<or>
        cp_next_sample f < ro_first_sample r \<or> cp_next_sample f - ro_first_sample r < cp_captured_samples f
     then ros_fault ROS_FAILED c else (ROS_OK, c))"

text \<open>\<open>container\<close> and \<open>segment.identity\<close> are members of one struct, so they never overlap; the two addresses below only say that.\<close>

definition container_ok :: "bytes \<Rightarrow> nat \<Rightarrow> es_binding \<Rightarrow> bool" where
  "container_ok p n b \<longleftrightarrow> es_container_validate (Ptr 0x200000 p) n (Ptr 0x100000 b) = ES_OK"

definition container_valid :: "'e ros_context \<Rightarrow> int \<times> 'e ros_context" where
  "container_valid c =
    (let s = oc_segment c; n = unat (sg_container_bytes s) in
     if \<not> container_ok (oc_container c) n (sg_identity s) then ros_fault ROS_FAILED c
     else let (rc, digest, c) = ros_hash (part 0 n (oc_container c)) (replicate 32 0) c in
       if rc \<noteq> 0 then ros_fault ROS_FAILED c
       else if digest \<noteq> sg_digest s then ros_fault ROS_FAILED c else (ROS_OK, c))"

definition ros_ready :: "'e ros_context \<Rightarrow> int \<times> 'e ros_context" where
  "ros_ready c = (let (g, c) = ros_guard c in if g \<noteq> 0 then (ROS_FAILED, c) else (ROS_READY, c\<lparr>ss_ready := 1\<rparr>))"

text \<open>The bytes of the container that page \<open>index\<close> carries.\<close>

definition page_bytes :: "'e ros_context \<Rightarrow> nat" where
  "page_bytes c = min 2048 (unat (sg_container_bytes (oc_segment c)) - unat (oc_index c) * 2048)"

definition read_container_page :: "'e ros_context \<Rightarrow> int \<times> 'e ros_context" where
  "read_container_page c =
    (let (rc, c) = ros_read_page (ros_sector c (sg_slot (oc_segment c)) + 1 + oc_index c) c in
     if rc \<noteq> ROS_READ_OK then ros_fault rc c
     else let n = page_bytes c in
       if \<not> ros_fill (part n (2048 - n) (oc_page c)) 255 then ros_fault ROS_FAILED c
       else (ROS_PENDING, c\<lparr>oc_container := blit (unat (oc_index c) * 2048) (part 0 n (oc_page c)) (oc_container c),
         oc_index := oc_index c + 1\<rparr>))"

section \<open>Model: entry points\<close>

definition port_complete :: "'e ros_port \<Rightarrow> bool" where
  "port_complete p \<longleftrightarrow> ps_now_ms p \<noteq> None \<and> ps_cancelled p \<noteq> None \<and> ps_admit p \<noteq> None \<and> ps_read p \<noteq> None \<and> ps_write p \<noteq> None \<and>
     ps_sync p \<noteq> None \<and> ps_seal p \<noteq> None"

definition fingerprint_input :: "bytes \<Rightarrow> bytes" where
  "fingerprint_input recipient = ascii ''OpenPendant recipient public key v1'' @ [0] @ [0, 16] @ recipient"

definition ros_initial :: "'e ros_port \<Rightarrow> sha_provider \<Rightarrow> es_binding \<Rightarrow> bytes \<Rightarrow> u32 \<Rightarrow> u32 \<Rightarrow> 'e \<Rightarrow> 'e ros_context" where
  "ros_initial p h v recipient capacity extent e =
    (let roots = (if extent \<noteq> 0 then ROS_EXTENT_ROOTS else ROS_ROOTS);
         limit = (if extent = 2 then RLL_SLOTS else if extent \<noteq> 0 then ROS_EXTENT_SLOTS else ROS_SLOTS);
         slots = (capacity - roots) div ROS_SLOT_PAGES in
     \<lparr>ss_mounted = 0, ss_fault = 0, ss_job = ROS_NONE, ss_stage = 0, ss_ready = 0,
      ss_slot_count = (if slots > limit then limit else slots), ss_consumed_slots = 0, ss_error = 0,
      oc_gate = 0, oc_initialized = ROS_MAGIC, oc_port = p, oc_hash = h, oc_volume = v, oc_recipient = recipient,
      oc_deadline = 0, oc_last_now = 0, oc_root = 0, oc_slot = 0, oc_index = 0, oc_scan_root = 0, oc_scan_slot = 0,
      oc_active_root = roots, oc_root_count = roots, oc_segment_limit = limit, oc_extent_profile = extent,
      oc_used = replicate 2560 0, oc_retired = [], oc_records = replicate 32 ros_record_zero,
      oc_pending_record = ros_record_zero, oc_segment = ros_segment_zero, oc_receipt = receipt_none,
      oc_final_receipt = final_none, oc_container = replicate ROS_CONTAINER_BYTES 0, oc_catalog = replicate 2048 0,
      oc_page = replicate 2048 0, oc_env = e\<rparr>)"

definition ros_init_bad :: "nat \<Rightarrow> 'e ros_port ptr \<Rightarrow> hash_arg \<Rightarrow> es_binding ptr \<Rightarrow> bytes ptr \<Rightarrow> u32 \<Rightarrow> bool" where
  "ros_init_bad ca p h v recipient capacity \<longleftrightarrow>
     \<not> external ca p sizeof_ros_port \<or> \<not> external ca h sizeof_hash \<or> \<not> external ca v sizeof_es_binding \<or>
     \<not> external ca recipient 65 \<or> \<not> port_complete (pt p) \<or> hash_fn h = None \<or> pt recipient ! 0 \<noteq> 4 \<or>
     \<not> ros_id (es_key_fingerprint (pt v)) \<or> \<not> ros_id (es_device_id (pt v)) \<or> \<not> ros_id (es_volume_id (pt v)) \<or>
     es_generation (pt v) = 0 \<or> es_generation (pt v) > INT64_MAX \<or> \<not> ros_fill (es_recording_id (pt v)) 0 \<or>
     es_segment_sequence (pt v) \<noteq> 0 \<or> es_plaintext_bytes (pt v) \<noteq> 0 \<or> capacity < ROS_ROOTS + ROS_SLOT_PAGES"

text \<open>\<open>initialize\<close>: the storage may hold anything with \<open>initialized\<close> zero.\<close>

fun ros_initialize ::
  "'e ros_port ptr \<Rightarrow> hash_arg \<Rightarrow> es_binding ptr \<Rightarrow> bytes ptr \<Rightarrow> u32 \<Rightarrow> u32 \<Rightarrow> 'e ros_context ptr \<Rightarrow> int \<times> 'e ros_context ptr" where
  "ros_initialize p h v recipient capacity extent Null = (ROS_ARGUMENT, Null)"
| "ros_initialize p h v recipient capacity extent (Ptr ca c) =
    (if oc_initialized c \<noteq> 0 \<or> ros_init_bad ca p h v recipient capacity then (ROS_ARGUMENT, Ptr ca c)
     else if sha_run (the (hash_fn h)) (fingerprint_input (pt recipient)) \<noteq> Some (es_key_fingerprint (pt v))
     then (ROS_ARGUMENT, Ptr ca c)
     else (ROS_OK, Ptr ca (ros_initial (pt p) (the (hash_fn h)) (pt v) (pt recipient) capacity extent (oc_env c))))"

definition ros_init ::
  "'e ros_port ptr \<Rightarrow> hash_arg \<Rightarrow> es_binding ptr \<Rightarrow> bytes ptr \<Rightarrow> u32 \<Rightarrow> 'e ros_context ptr \<Rightarrow> int \<times> 'e ros_context ptr" where
  "ros_init p h v recipient capacity = ros_initialize p h v recipient capacity 0"

definition ros_init_extent ::
  "'e ros_port ptr \<Rightarrow> hash_arg \<Rightarrow> es_binding ptr \<Rightarrow> bytes ptr \<Rightarrow> 'e ros_context ptr \<Rightarrow> int \<times> 'e ros_context ptr" where
  "ros_init_extent p h v recipient = ros_initialize p h v recipient (32 + 3600 * 18) 1"

definition ros_init_full ::
  "'e ros_port ptr \<Rightarrow> hash_arg \<Rightarrow> es_binding ptr \<Rightarrow> bytes ptr \<Rightarrow> 'e ros_context ptr \<Rightarrow> int \<times> 'e ros_context ptr" where
  "ros_init_full p h v recipient = ros_initialize p h v recipient (32 + 5120 * 18) 2"


definition rescan :: "'e ros_context \<Rightarrow> 'e ros_context" where
  "rescan c = c\<lparr>oc_scan_root := 0, oc_scan_slot := 0, oc_records := replicate 32 ros_record_zero, oc_used := replicate 2560 0,
     ss_consumed_slots := 0\<rparr>"

definition recover_body :: "u64 \<Rightarrow> 'e ros_context \<Rightarrow> int \<times> 'e ros_context" where
  "recover_body deadline c =
    (if ss_mounted c \<noteq> 0 then (ROS_STATE, c)
     else let (rc, c) = ros_begin ROS_RECOVER deadline c in if rc \<noteq> 0 then (rc, c) else (ROS_PENDING, rescan c))"

definition ros_recover :: "u64 \<Rightarrow> 'e ros_context ptr \<Rightarrow> int \<times> 'e ros_context ptr" where
  "ros_recover deadline = ros_locked (recover_body deadline)"

definition id_rows :: "bytes \<Rightarrow> u32 \<Rightarrow> bytes list" where
  "id_rows ids count = map (\<lambda>i. part (16 * i) 16 ids) [0..<unat count]"

text \<open>The two loops over the new identifiers: each is an identity and none repeats an earlier one.\<close>

fun ids_valid :: "bytes list \<Rightarrow> bytes list \<Rightarrow> bool" where
  "ids_valid seen [] = True"
| "ids_valid seen (u # us) = (ros_id u \<and> \<not> list_ex (\<lambda>v. u = v) seen \<and> ids_valid (seen @ [u]) us)"

definition recover_retired_bad :: "nat \<Rightarrow> es_binding ptr \<Rightarrow> bytes ptr \<Rightarrow> u32 \<Rightarrow> 'e ros_context \<Rightarrow> bool" where
  "recover_retired_bad ca v ids count c \<longleftrightarrow>
     \<not> external ca v sizeof_es_binding \<or> \<not> volume_equal (pt v) (oc_volume c) \<or> es_segment_sequence (pt v) \<noteq> 0 \<or>
     es_plaintext_bytes (pt v) \<noteq> 0 \<or> \<not> ros_fill (es_recording_id (pt v)) 0 \<or>
     unat count > (if oc_extent_profile c = 2 then RLL_TOMBSTONES else ROS_RETIRED_MAX) \<or>
     (count \<noteq> 0 \<and> (\<not> external ca ids (unat count * 16) \<or> clash v sizeof_es_binding ids (unat count * 16)))"

definition recover_retired_body :: "nat \<Rightarrow> es_binding ptr \<Rightarrow> bytes ptr \<Rightarrow> u32 \<Rightarrow> u64 \<Rightarrow> 'e ros_context \<Rightarrow> int \<times> 'e ros_context" where
  "recover_retired_body ca v ids count deadline c =
    (if recover_retired_bad ca v ids count c then (ROS_ARGUMENT, c)
     else let rows = (if count = 0 then [] else id_rows (pt ids) count) in
       if \<not> ids_valid [] rows then (ROS_ARGUMENT, c)
       else if \<not> list_all (\<lambda>r. list_ex (\<lambda>u. r = u) rows) (oc_retired c) then (ROS_STATE, c)
       else if oc_active_root c < oc_root_count c then (ROS_STATE, c)
       else let (rc, c) = ros_begin ROS_RECOVER deadline c in
         if rc \<noteq> 0 then (rc, c)
         else if ss_mounted c \<noteq> 0 \<and> unat count = length (oc_retired c) then (ROS_OK, c\<lparr>ss_job := ROS_NONE\<rparr>)
         else (ROS_PENDING, rescan (c\<lparr>oc_retired := rows, ss_mounted := 0\<rparr>)))"

fun ros_recover_retired ::
  "es_binding ptr \<Rightarrow> bytes ptr \<Rightarrow> u32 \<Rightarrow> u64 \<Rightarrow> 'e ros_context ptr \<Rightarrow> int \<times> 'e ros_context ptr" where
  "ros_recover_retired v ids count deadline cp = ros_locked (recover_retired_body (ptr_addr cp) v ids count deadline) cp"

text \<open>The search for a free root: \<open>None\<close> when the recording is already present, \<open>root_count\<close> when no root is free.\<close>

fun free_root :: "es_binding \<Rightarrow> u32 \<Rightarrow> ros_record list \<Rightarrow> u32 \<Rightarrow> u32 \<Rightarrow> u32 option" where
  "free_root b root_count [] i free = Some free"
| "free_root b root_count (r # rs) i free =
    (if ro_present r \<noteq> 0
     then if identity_equal b (ro_identity r) then None else free_root b root_count rs (i + 1) free
     else free_root b root_count rs (i + 1) (if free = root_count then i else free))"

definition reserve_record :: "es_binding \<Rightarrow> u32 \<Rightarrow> u64 \<Rightarrow> ros_record" where
  "reserve_record b mode first = ros_record_zero\<lparr>ro_identity := b, ro_present := 1, ro_mode := mode, ro_profile := 2,
     ro_first_sample := first, ro_next_sample := first\<rparr>"

definition reserve_body :: "nat \<Rightarrow> es_binding ptr \<Rightarrow> u32 \<Rightarrow> u64 \<Rightarrow> u64 \<Rightarrow> 'e ros_context \<Rightarrow> int \<times> 'e ros_context" where
  "reserve_body ca bp mode first deadline c =
    (let b = pt bp in
     if \<not> external ca bp sizeof_es_binding \<or> \<not> volume_equal b (oc_volume c) \<or> \<not> ros_id (es_recording_id b) \<or>
        es_plaintext_bytes b \<noteq> 0 \<or> es_segment_sequence b \<noteq> 0 \<or> (mode \<noteq> RP_MANUAL \<and> mode \<noteq> RP_CONTINUOUS) then (ROS_ARGUMENT, c)
     else if ss_mounted c = 0 \<or> oc_active_root c < oc_root_count c \<or> ros_retired c (es_recording_id b) then (ROS_STATE, c)
     else case free_root b (oc_root_count c) (take (unat (oc_root_count c)) (oc_records c)) 0 (oc_root_count c) of
       None \<Rightarrow> (ROS_STATE, c)
     | Some root \<Rightarrow>
       if root = oc_root_count c \<or> ss_consumed_slots c = ss_slot_count c then (ROS_FULL, c)
       else let (rc, c) = ros_begin ROS_RESERVE deadline c in
         if rc \<noteq> 0 then (rc, c)
         else let r = reserve_record b mode first;
                  (rc, c) = catalog_root ROOT_ACTIVE r (c\<lparr>oc_root := root, oc_pending_record := r\<rparr>) in
           (if rc \<noteq> 0 then rc else ROS_PENDING, c))"

fun ros_reserve :: "es_binding ptr \<Rightarrow> u32 \<Rightarrow> u64 \<Rightarrow> u64 \<Rightarrow> 'e ros_context ptr \<Rightarrow> int \<times> 'e ros_context ptr" where
  "ros_reserve bp mode first deadline cp = ros_locked (reserve_body (ptr_addr cp) bp mode first deadline) cp"

text \<open>\<open>seal_prepared\<close>.  The plaintext is either the caller's or the staged copy at \<open>container + 193\<close>.  The header and the info
  string are built in \<open>container\<close> and a local; the addresses only say that these objects are distinct.\<close>

definition seal_header :: "'e ros_context \<Rightarrow> bytes option" where
  "seal_header c =
    (case es_header_build (Ptr 0x200000 (part 0 128 (oc_container c))) 128 (Ptr 0x100000 (sg_identity (oc_segment c))) of
       (ES_OK, Ptr a h) \<Rightarrow> Some h | _ \<Rightarrow> None)"

definition seal_info :: "bytes \<Rightarrow> es_binding \<Rightarrow> bytes option" where
  "seal_info header b =
    (case es_info_build (Ptr 0x300000 (replicate 161 0)) 161 (Ptr 0x200000 header) 128 (Ptr 0x100000 b) of
       (ES_OK, Ptr a info) \<Rightarrow> Some info | _ \<Rightarrow> None)"

definition seal_record :: "nat \<Rightarrow> 'e ros_context \<Rightarrow> int \<times> 'e ros_context" where
  "seal_record n c =
    (let (rc, d, c) = ros_hash (part 0 (n + 209) (oc_container c)) (sg_digest (oc_segment c)) c;
         c = c\<lparr>oc_segment := (oc_segment c)\<lparr>sg_digest := d\<rparr>\<rparr> in
     if rc \<noteq> 0 then (ROS_FAILED, c)
     else let (rc, c) = catalog_segment SLOT_INTENT c in if rc \<noteq> 0 then (ROS_FAILED, c) else (ROS_PENDING, c))"

definition seal_call :: "bytes \<Rightarrow> bytes \<Rightarrow> nat \<Rightarrow> 'e ros_context \<Rightarrow> int \<times> 'e ros_context" where
  "seal_call info plain n c =
    (let (rc, enc, cipher, actual, e) = the (ps_seal (oc_port c)) (oc_recipient c) info plain (n + 16) (oc_env c);
         c = c\<lparr>oc_container := blit 193 (take (n + 16) cipher) (blit 128 (take 65 enc) (oc_container c)), oc_env := e\<rparr>;
         (g, c) = ros_guard c in
     if g \<noteq> 0 \<or> rc \<noteq> 0 \<or> actual \<noteq> n + 16 \<or> \<not> container_ok (oc_container c) (n + 209) (sg_identity (oc_segment c))
     then ros_fault (if rc \<noteq> 0 then rc else ROS_FAILED) c else seal_record n c)"

definition seal_prepared :: "bytes \<Rightarrow> nat \<Rightarrow> 'e ros_context \<Rightarrow> int \<times> 'e ros_context" where
  "seal_prepared plain n c =
    (case seal_header c of None \<Rightarrow> ros_fault ROS_FAILED c
     | Some h \<Rightarrow> let c = c\<lparr>oc_container := blit 0 h (oc_container c)\<rparr> in
       case seal_info h (sg_identity (oc_segment c)) of None \<Rightarrow> ros_fault ROS_FAILED c
       | Some info \<Rightarrow> let (a, c) = ros_admit 1 c in if a \<noteq> 0 then ros_fault ROS_FAILED c else seal_call info plain n c)"

text \<open>\<open>while (slot < slot_count && slot_state(c, slot)) ++slot\<close>, with the number of slots left.\<close>

fun first_free :: "'e ros_context \<Rightarrow> nat \<Rightarrow> u32 \<Rightarrow> u32" where
  "first_free c 0 slot = slot"
| "first_free c (Suc left) slot = (if slot_state c slot \<noteq> 0 then first_free c left (slot + 1) else slot)"

definition prepare_segment :: "es_binding \<Rightarrow> bytes \<Rightarrow> nat \<Rightarrow> u32 \<Rightarrow> 'e ros_context \<Rightarrow> ros_segment" where
  "prepare_segment b plain n slot c =
    (let bytes = of_nat n + 209 in
     ros_segment_zero\<lparr>sg_identity := b, sg_slot := slot, sg_root := oc_active_root c, sg_container_bytes := bytes,
       sg_pages := (bytes + 2047) div 2048, sg_profile := 2, sg_first_sample := get64 32 plain, sg_next_sample := get64 40 plain,
       sg_samples := ucast (get32 68 plain), sg_gap := drop_bit 1 (get32 28 plain)\<rparr>)"

definition prepare_bad :: "'c opus_api \<Rightarrow> nat \<Rightarrow> es_binding ptr \<Rightarrow> bytes ptr \<Rightarrow> nat \<Rightarrow> bool" where
  "prepare_bad opus ca bp pp n \<longleftrightarrow> \<not> external ca bp sizeof_es_binding \<or> \<not> external ca pp n \<or> clash bp sizeof_es_binding pp n \<or>
     n > RP_PLAINTEXT_CAPACITY \<or> n \<noteq> unat (es_plaintext_bytes (pt bp)) \<or> rp_segment_validate opus (pt pp) n \<noteq> RP_OK \<or>
     get32 72 (pt pp) \<noteq> 2"

definition prepare_refused :: "es_binding \<Rightarrow> 'e ros_context \<Rightarrow> bool" where
  "prepare_refused b c \<longleftrightarrow>
    (let r = oc_records c ! unat (oc_active_root c) in
     \<not> identity_equal b (ro_identity r) \<or> es_segment_sequence b \<noteq> ro_segments r \<or> es_segment_sequence b \<ge> oc_segment_limit c \<or>
     ro_blocked r \<noteq> 0 \<or> ro_finalized r \<noteq> 0 \<or> ro_interrupted r \<noteq> 0)"

definition prepare_body ::
  "'c opus_api \<Rightarrow> bool \<Rightarrow> nat \<Rightarrow> es_binding ptr \<Rightarrow> bytes ptr \<Rightarrow> nat \<Rightarrow> u64 \<Rightarrow> 'e ros_context \<Rightarrow> int \<times> 'e ros_context" where
  "prepare_body opus deferred ca bp pp n deadline c =
    (let b = pt bp; plain = part 0 n (pt pp) in
     if prepare_bad opus ca bp pp n then (ROS_ARGUMENT, c)
     else if ss_mounted c = 0 \<or> oc_active_root c \<ge> oc_root_count c then (ROS_STATE, c)
     else if prepare_refused b c then (ROS_STATE, c)
     else let slot = first_free c (unat (ss_slot_count c)) 0 in
       if slot = ss_slot_count c then (ROS_FULL, c)
       else let (rc, c) = ros_begin ROS_SEGMENT deadline c in
         if rc \<noteq> 0 then (rc, c)
         else let (rc, c) = sequence_valid (c\<lparr>oc_segment := prepare_segment b plain n slot c\<rparr>) in
           if rc \<noteq> 0 then (ROS_FAILED, c)
           else if deferred
           then let (g, c) = ros_guard (c\<lparr>oc_container := blit 193 plain (oc_container c), ss_stage := 9\<rparr>) in
             (if g \<noteq> 0 then ROS_FAILED else ROS_PENDING, c)
           else seal_prepared plain n c)"

fun ros_prepare ::
  "'c opus_api \<Rightarrow> es_binding ptr \<Rightarrow> bytes ptr \<Rightarrow> nat \<Rightarrow> u64 \<Rightarrow> 'e ros_context ptr \<Rightarrow> int \<times> 'e ros_context ptr" where
  "ros_prepare opus bp pp n deadline cp = ros_locked (prepare_body opus False (ptr_addr cp) bp pp n deadline) cp"

fun ros_prepare_deferred ::
  "'c opus_api \<Rightarrow> es_binding ptr \<Rightarrow> bytes ptr \<Rightarrow> nat \<Rightarrow> u64 \<Rightarrow> 'e ros_context ptr \<Rightarrow> int \<times> 'e ros_context ptr" where
  "ros_prepare_deferred opus bp pp n deadline cp = ros_locked (prepare_body opus True (ptr_addr cp) bp pp n deadline) cp"

definition finalize_body :: "nat \<Rightarrow> rp_completion ptr \<Rightarrow> u64 \<Rightarrow> 'e ros_context \<Rightarrow> int \<times> 'e ros_context" where
  "finalize_body ca fp deadline c =
    (if \<not> external ca fp sizeof_rp_completion then (ROS_ARGUMENT, c)
     else if ss_mounted c = 0 \<or> oc_active_root c \<ge> oc_root_count c then (ROS_STATE, c)
     else if ss_fault c \<noteq> 0 \<or> ss_job c \<noteq> ROS_NONE then (ROS_STATE, c)
     else let r = oc_records c ! unat (oc_active_root c); (rc, c) = complete_valid r (pt fp) c in
       if rc \<noteq> 0 then (ROS_FAILED, c)
       else let (rc, c) = ros_begin ROS_FINALIZE deadline c in
         if rc \<noteq> 0 then (rc, c)
         else let r = r\<lparr>ro_finalized := 1, ro_completion := pt fp\<rparr>;
                  (rc, c) = catalog_root ROOT_FINAL r (c\<lparr>oc_root := oc_active_root c, oc_pending_record := r\<rparr>) in
           (if rc \<noteq> 0 then rc else ROS_PENDING, c))"

fun ros_finalize :: "rp_completion ptr \<Rightarrow> u64 \<Rightarrow> 'e ros_context ptr \<Rightarrow> int \<times> 'e ros_context ptr" where
  "ros_finalize fp deadline cp = ros_locked (finalize_body (ptr_addr cp) fp deadline) cp"

definition open_committed :: "ros_job \<Rightarrow> u32 \<Rightarrow> u64 \<Rightarrow> 'e ros_context \<Rightarrow> int \<times> 'e ros_context" where
  "open_committed job slot deadline c =
    (if ss_mounted c = 0 \<or> slot \<ge> ss_slot_count c \<or> slot_state c slot \<noteq> SLOT_COMMIT then (ROS_NOT_FOUND, c)
     else let (rc, c) = ros_begin job deadline c in if rc \<noteq> 0 then (rc, c) else (ROS_PENDING, c\<lparr>oc_slot := slot\<rparr>))"

definition ros_load :: "u32 \<Rightarrow> u64 \<Rightarrow> 'e ros_context ptr \<Rightarrow> int \<times> 'e ros_context ptr" where
  "ros_load slot deadline = ros_locked (open_committed ROS_LOAD slot deadline)"

definition ros_describe_committed :: "u32 \<Rightarrow> u64 \<Rightarrow> 'e ros_context ptr \<Rightarrow> int \<times> 'e ros_context ptr" where
  "ros_describe_committed slot deadline = ros_locked (open_committed ROS_META slot deadline)"

section \<open>Model: job steps\<close>

fun recover_records :: "ros_record list \<Rightarrow> 'e ros_context \<Rightarrow> int \<times> 'e ros_context" where
  "recover_records [] c = (ROS_OK, c)"
| "recover_records (r # rs) c =
    (if ro_finalized r \<noteq> 0
     then if ro_blocked r \<noteq> 0 then ros_fault ROS_FAILED c
       else let (rc, c) = complete_valid r (ro_completion r) c in
         if rc \<noteq> 0 then ros_fault ROS_FAILED c else recover_records rs c
     else recover_records rs c)"

definition recover_roots :: "'e ros_context \<Rightarrow> int \<times> 'e ros_context" where
  "recover_roots c =
    (if oc_scan_root c < oc_root_count c
     then let (rc, c) = ros_read_page (oc_scan_root c) c in
       if rc < 0 then (rc, c)
       else let (prc, c) = (if rc = ROS_READ_OK then parse_root (oc_scan_root c) c else (ROS_OK, c)) in
         if prc \<noteq> 0 then (ROS_FAILED, c) else (ROS_PENDING, c\<lparr>oc_scan_root := oc_scan_root c + 1\<rparr>)
     else (ROS_PENDING, c\<lparr>ss_stage := 10\<rparr>))"

definition scan_next :: "'e ros_context \<Rightarrow> 'e ros_context" where
  "scan_next c = c\<lparr>oc_scan_slot := oc_scan_slot c + 1\<rparr>"

definition recover_found :: "u32 \<Rightarrow> 'e ros_context \<Rightarrow> int \<times> 'e ros_context" where
  "recover_found kind c =
    (let c = set_slot_state (oc_scan_slot c) kind c; c = c\<lparr>ss_consumed_slots := ss_consumed_slots c + 1\<rparr>;
         root = unat (sg_root (oc_segment c)) in
     if kind = SLOT_INTENT
     then (ROS_PENDING, scan_next (c\<lparr>oc_records := (oc_records c)[root := (oc_records c ! root)\<lparr>ro_blocked := 1, ro_interrupted := 1\<rparr>]\<rparr>))
     else if oc_extent_profile c \<noteq> 0 then (ROS_PENDING, scan_next (ros_account c))
     else (ROS_PENDING, c\<lparr>oc_index := 0, ss_stage := 11\<rparr>))"

definition recover_slots :: "'e ros_context \<Rightarrow> int \<times> 'e ros_context" where
  "recover_slots c =
    (if oc_scan_slot c = ss_slot_count c
     then let (rc, c) = recover_records (take (unat (oc_root_count c)) (oc_records c)) c in
       if rc \<noteq> 0 then (rc, c) else ros_ready (c\<lparr>ss_mounted := 1\<rparr>)
     else let (rc, c) = ros_read_page (ros_sector c (oc_scan_slot c)) c in
       if rc < 0 then (rc, c)
       else if rc = ROS_READ_MISSING then (ROS_PENDING, scan_next c)
       else let (rc, kind, c) = parse_segment (oc_scan_slot c) c in
         if rc \<noteq> 0 then (ROS_FAILED, c)
         else if kind = SLOT_RETIRED then (ROS_PENDING, scan_next c)
         else let (rc, c) = sequence_valid c in
           if rc \<noteq> 0 then (ROS_FAILED, c) else recover_found kind c)"

definition recover_payload :: "'e ros_context \<Rightarrow> int \<times> 'e ros_context" where
  "recover_payload c =
    (if oc_index c < sg_pages (oc_segment c) then read_container_page c
     else let (rc, c) = container_valid c in
       if rc \<noteq> 0 then (ROS_FAILED, c)
       else (ROS_PENDING, (scan_next (ros_account c))\<lparr>oc_container := replicate ROS_CONTAINER_BYTES 0, ss_stage := 10\<rparr>))"

definition recover_step :: "'e ros_context \<Rightarrow> int \<times> 'e ros_context" where
  "recover_step c = (if ss_stage c = 0 then recover_roots c else if ss_stage c = 10 then recover_slots c else recover_payload c)"

definition stage_next :: "'e ros_context \<Rightarrow> 'e ros_context" where "stage_next c = c\<lparr>ss_stage := ss_stage c + 1\<rparr>"

definition root_step :: "'e ros_context \<Rightarrow> int \<times> 'e ros_context" where
  "root_step c =
    (if ss_stage c = 0
     then let (rc, c) = ros_write_page (oc_root c) (oc_catalog c) c in if rc \<noteq> 0 then (ROS_FAILED, c) else (ROS_PENDING, stage_next c)
     else if ss_stage c = 1
     then let (rc, c) = ros_sync_map c in if rc \<noteq> 0 then (ROS_FAILED, c) else (ROS_PENDING, stage_next c)
     else let (rc, c) = ros_read_page (oc_root c) c in
       if rc \<noteq> ROS_READ_OK \<or> oc_page c \<noteq> oc_catalog c then ros_fault ROS_FAILED c
       else let c = c\<lparr>oc_records := (oc_records c)[unat (oc_root c) := oc_pending_record c]\<rparr> in
         if ss_job c = ROS_RESERVE then ros_ready (c\<lparr>oc_active_root := oc_root c\<rparr>)
         else ros_ready (c\<lparr>oc_active_root := oc_root_count c,
           oc_final_receipt := \<lparr>fr_completion = ro_completion (oc_pending_record c), fr_durable = 1\<rparr>\<rparr>))"

text \<open>The payload page that stage 3 writes, and the comparison that stage 5 makes with a page read back.\<close>

definition payload_page :: "'e ros_context \<Rightarrow> bytes" where
  "payload_page c = blit 0 (part (unat (oc_index c) * 2048) (page_bytes c) (oc_container c)) (replicate 2048 255)"

definition payload_differs :: "'e ros_context \<Rightarrow> bool" where
  "payload_differs c \<longleftrightarrow> (let n = page_bytes c in
     part 0 n (oc_page c) \<noteq> part (unat (oc_index c) * 2048) n (oc_container c) \<or> \<not> ros_fill (part n (2048 - n) (oc_page c)) 255)"

definition index_next :: "'e ros_context \<Rightarrow> 'e ros_context" where "index_next c = c\<lparr>oc_index := oc_index c + 1\<rparr>"

definition segment_sector :: "'e ros_context \<Rightarrow> u32" where "segment_sector c = ros_sector c (sg_slot (oc_segment c))"

definition segment_intent :: "'e ros_context \<Rightarrow> int \<times> 'e ros_context" where
  "segment_intent c =
    (let (rc, c) = ros_read_page (segment_sector c) c in
     if rc \<noteq> ROS_READ_OK \<or> oc_page c \<noteq> oc_catalog c then ros_fault ROS_FAILED c
     else let c = set_slot_state (sg_slot (oc_segment c)) SLOT_INTENT c;
              (rc, c) = catalog_segment SLOT_COMMIT (c\<lparr>ss_consumed_slots := ss_consumed_slots c + 1\<rparr>) in
       if rc \<noteq> 0 then (ROS_FAILED, c) else (ROS_PENDING, stage_next (c\<lparr>oc_index := 0\<rparr>)))"

definition segment_write :: "'e ros_context \<Rightarrow> int \<times> 'e ros_context" where
  "segment_write c =
    (if oc_index c = sg_pages (oc_segment c) then (ROS_PENDING, c\<lparr>ss_stage := 6\<rparr>)
     else let c = c\<lparr>oc_page := payload_page c\<rparr>; (rc, c) = ros_write_page (segment_sector c + 1 + oc_index c) (oc_page c) c in
       if rc \<noteq> 0 then (ROS_FAILED, c) else (ROS_PENDING, index_next c))"

definition segment_verify :: "'e ros_context \<Rightarrow> int \<times> 'e ros_context" where
  "segment_verify c =
    (if oc_index c = sg_pages (oc_segment c) then (ROS_PENDING, c\<lparr>ss_stage := 8\<rparr>)
     else let (rc, c) = ros_read_page (segment_sector c + 1 + oc_index c) c in
       if rc \<noteq> ROS_READ_OK then ros_fault ROS_FAILED c
       else if payload_differs c then ros_fault ROS_FAILED c else (ROS_PENDING, index_next c))"

definition segment_commit :: "'e ros_context \<Rightarrow> int \<times> 'e ros_context" where
  "segment_commit c =
    (let (rc, c) = ros_read_page (segment_sector c) c in
     if rc \<noteq> ROS_READ_OK \<or> oc_page c \<noteq> oc_catalog c then ros_fault ROS_FAILED c
     else let c = ros_account (set_slot_state (sg_slot (oc_segment c)) SLOT_COMMIT c) in
       ros_ready (c\<lparr>oc_receipt := \<lparr>sr_durable = 1, sr_es_header = part 0 128 (oc_container c)\<rparr>\<rparr>))"

definition segment_step :: "'e ros_context \<Rightarrow> int \<times> 'e ros_context" where
  "segment_step c =
    (let stage = ss_stage c in
     if stage = 9
     then let n = unat (es_plaintext_bytes (sg_identity (oc_segment c))); (rc, c) = seal_prepared (part 193 n (oc_container c)) n c in
       (rc, if rc = ROS_PENDING then c\<lparr>ss_stage := 0\<rparr> else c)
     else if stage = 0 \<or> stage = 6
     then let (rc, c) = ros_write_page (segment_sector c) (oc_catalog c) c in if rc \<noteq> 0 then (ROS_FAILED, c) else (ROS_PENDING, stage_next c)
     else if stage = 1
     then let (rc, c) = ros_sync_map c in if rc \<noteq> 0 then (ROS_FAILED, c) else (ROS_PENDING, stage_next c)
     else if stage = 2 then segment_intent c
     else if stage = 3 then segment_write c
     else if stage = 5 then segment_verify c
     else if stage = 7
     then let (rc, c) = ros_sync_map c in if rc \<noteq> 0 then (ROS_FAILED, c) else (ROS_PENDING, c\<lparr>oc_index := 0, ss_stage := 5\<rparr>)
     else segment_commit c)"

definition load_step :: "'e ros_context \<Rightarrow> int \<times> 'e ros_context" where
  "load_step c =
    (if ss_stage c = 0
     then let (rc, c) = ros_read_page (ros_sector c (oc_slot c)) c in
       if rc \<noteq> ROS_READ_OK then ros_fault ROS_FAILED c
       else let (rc, kind, c) = parse_segment (oc_slot c) c in
         if rc \<noteq> 0 \<or> kind \<noteq> SLOT_COMMIT then ros_fault ROS_FAILED c
         else let c = c\<lparr>oc_index := 0, ss_stage := 1\<rparr> in if ss_job c = ROS_META then ros_ready c else (ROS_PENDING, c)
     else if oc_index c < sg_pages (oc_segment c) then read_container_page c
     else let (rc, c) = container_valid c in if rc \<noteq> 0 then (ROS_FAILED, c) else ros_ready c)"

fun job_step :: "ros_job \<Rightarrow> 'e ros_context \<Rightarrow> int \<times> 'e ros_context" where
  "job_step ROS_RECOVER c = recover_step c"
| "job_step ROS_RESERVE c = root_step c"
| "job_step ROS_FINALIZE c = root_step c"
| "job_step ROS_SEGMENT c = segment_step c"
| "job_step ROS_META c = load_step c"
| "job_step ROS_LOAD c = load_step c"
| "job_step ROS_NONE c = ros_fault ROS_FAILED c"

definition step_body :: "'e ros_context \<Rightarrow> int \<times> 'e ros_context" where
  "step_body c =
    (if ss_fault c \<noteq> 0 \<or> ss_job c = ROS_NONE then (ROS_STATE, c)
     else if ss_ready c \<noteq> 0 then (ROS_READY, c)
     else let (g, c) = ros_guard c in if g \<noteq> 0 then (ROS_FAILED, c) else job_step (ss_job c) c)"

definition ros_step :: "'e ros_context ptr \<Rightarrow> int \<times> 'e ros_context ptr" where "ros_step = ros_locked step_body"

section \<open>Model: results\<close>

definition finish_job :: "'e ros_context \<Rightarrow> 'e ros_context" where
  "finish_job c = (ros_buffers c)\<lparr>oc_receipt := receipt_none, oc_final_receipt := final_none, ss_job := ROS_NONE, ss_stage := 0, ss_ready := 0\<rparr>"

text \<open>An entry point with an output: \<open>body\<close> yields the code, the value to store, if any, and the context.\<close>

fun ros_output ::
  "('e ros_context \<Rightarrow> int \<times> 'a option \<times> 'e ros_context) \<Rightarrow> nat \<Rightarrow> 'a ptr \<Rightarrow> 'e ros_context ptr \<Rightarrow> int \<times> 'a ptr \<times> 'e ros_context ptr" where
  "ros_output body n out Null = (ROS_ARGUMENT, out, Null)"
| "ros_output body n out (Ptr a c) =
    (if oc_initialized c \<noteq> ROS_MAGIC then (ROS_ARGUMENT, out, Ptr a c)
     else if oc_gate c \<noteq> 0 then (ROS_BUSY, out, Ptr a c)
     else if \<not> external a out n then (ROS_ARGUMENT, out, Ptr a c)
     else let (rc, v, c) = body (c\<lparr>oc_gate := 1\<rparr>) in
       (rc, case v of None \<Rightarrow> out | Some x \<Rightarrow> Ptr (addr out) x, Ptr a (c\<lparr>oc_gate := 0\<rparr>)))"

definition ros_take_segment_receipt ::
  "rp_segment_receipt ptr \<Rightarrow> 'e ros_context ptr \<Rightarrow> int \<times> rp_segment_receipt ptr \<times> 'e ros_context ptr" where
  "ros_take_segment_receipt = ros_output (\<lambda>c.
     if ss_fault c \<noteq> 0 \<or> ss_ready c = 0 \<or> ss_job c \<noteq> ROS_SEGMENT then (ROS_STATE, None, c)
     else (ROS_OK, Some (oc_receipt c), finish_job c)) sizeof_rp_segment_receipt"

definition ros_take_final_receipt ::
  "rp_final_receipt ptr \<Rightarrow> 'e ros_context ptr \<Rightarrow> int \<times> rp_final_receipt ptr \<times> 'e ros_context ptr" where
  "ros_take_final_receipt = ros_output (\<lambda>c.
     if ss_fault c \<noteq> 0 \<or> ss_ready c = 0 \<or> ss_job c \<noteq> ROS_FINALIZE then (ROS_STATE, None, c)
     else (ROS_OK, Some (oc_final_receipt c), finish_job c)) sizeof_rp_final_receipt"

definition finish_body :: "'e ros_context \<Rightarrow> int \<times> 'e ros_context" where
  "finish_body c =
    (if ss_fault c \<noteq> 0 \<or> ss_ready c = 0 \<or>
        (ss_job c \<noteq> ROS_RECOVER \<and> ss_job c \<noteq> ROS_RESERVE \<and> ss_job c \<noteq> ROS_LOAD \<and> ss_job c \<noteq> ROS_META) then (ROS_STATE, c)
     else (ROS_OK, finish_job c))"

definition ros_finish :: "'e ros_context ptr \<Rightarrow> int \<times> 'e ros_context ptr" where "ros_finish = ros_locked finish_body"

text \<open>\<open>ros_copy_loaded\<close>: the code, the bytes stored into \<open>out\<close> (whose number is \<open>*actual\<close>) and the context.\<close>

fun ros_copy_loaded ::
  "u32 \<Rightarrow> bytes ptr \<Rightarrow> nat \<Rightarrow> nat ptr \<Rightarrow> 'e ros_context ptr \<Rightarrow> int \<times> bytes ptr \<times> nat ptr \<times> 'e ros_context ptr" where
  "ros_copy_loaded offset out capacity actual Null = (ROS_ARGUMENT, out, actual, Null)"
| "ros_copy_loaded offset out capacity actual (Ptr a c) =
    (if oc_initialized c \<noteq> ROS_MAGIC then (ROS_ARGUMENT, out, actual, Ptr a c)
     else if oc_gate c \<noteq> 0 then (ROS_BUSY, out, actual, Ptr a c)
     else if \<not> external a out capacity \<or> \<not> external a actual 4 \<or> capacity > 2048 \<or> clash out capacity actual 4
     then (ROS_ARGUMENT, out, actual, Ptr a c)
     else if ss_fault c \<noteq> 0 \<or> ss_ready c = 0 \<or> ss_job c \<noteq> ROS_LOAD \<or> offset > sg_container_bytes (oc_segment c)
     then (ROS_STATE, out, actual, Ptr a c)
     else let n = min capacity (unat (sg_container_bytes (oc_segment c)) - unat offset) in
       (ROS_OK, Ptr (addr out) (blit 0 (part (unat offset) n (oc_container c)) (pt out)), Ptr (addr actual) n, Ptr a c))"

definition ros_get_status :: "ros_status ptr \<Rightarrow> 'e ros_context ptr \<Rightarrow> int \<times> ros_status ptr \<times> 'e ros_context ptr" where
  "ros_get_status = ros_output (\<lambda>c. (ROS_OK, Some (ros_status.truncate c), c)) sizeof_ros_status"

definition ros_get_geometry :: "ros_geometry ptr \<Rightarrow> 'e ros_context ptr \<Rightarrow> int \<times> ros_geometry ptr \<times> 'e ros_context ptr" where
  "ros_get_geometry = ros_output (\<lambda>c.
     if ss_fault c \<noteq> 0 then (ROS_STATE, None, c)
     else (ROS_OK, Some \<lparr>ge_roots = oc_root_count c, ge_slots = ss_slot_count c, ge_profile = oc_extent_profile c\<rparr>, c)) sizeof_ros_geometry"

definition ros_get_loaded_segment :: "ros_segment ptr \<Rightarrow> 'e ros_context ptr \<Rightarrow> int \<times> ros_segment ptr \<times> 'e ros_context ptr" where
  "ros_get_loaded_segment = ros_output (\<lambda>c.
     if ss_fault c \<noteq> 0 \<or> ss_ready c = 0 \<or> (ss_job c \<noteq> ROS_LOAD \<and> ss_job c \<noteq> ROS_META) then (ROS_STATE, None, c)
     else (ROS_OK, Some (oc_segment c), c)) sizeof_ros_segment"

definition ros_get_record :: "u32 \<Rightarrow> ros_record ptr \<Rightarrow> 'e ros_context ptr \<Rightarrow> int \<times> ros_record ptr \<times> 'e ros_context ptr" where
  "ros_get_record root = ros_output (\<lambda>c.
     if root \<ge> oc_root_count c then (ROS_ARGUMENT, None, c)
     else if ss_mounted c = 0 \<or> ss_fault c \<noteq> 0 \<or> ro_present (oc_records c ! unat root) = 0 then (ROS_NOT_FOUND, None, c)
     else (ROS_OK, Some (oc_records c ! unat root), c)) sizeof_ros_record"

end
