(* ===== verification/Store_Calls.thy ===== *)
theory Store_Calls
  imports Object_Store
begin

text \<open>
  Reasoning about the object store whatever its port does.  A callback may return anything, so the lemmas here say what the
  helpers of \<open>recording_object_store.c\<close> do to the context on each outcome: \<open>moved\<close> (only the clock and the environment
  changed) or \<open>fenced\<close> (the context went through \<open>fault\<close>).  Two locales are the interface between the store and a port:
  \<open>port_frame\<close> has a relation on environments that the clock, cancellation, admission and sealing callbacks respect; \<open>store_port\<close> has a
  predicate on environments that every callback keeps, a page transfer at least when its sector is below a bound.
\<close>

section \<open>Outcomes of the helpers\<close>

definition moved :: "('e \<Rightarrow> 'e \<Rightarrow> bool) \<Rightarrow> 'e ros_context \<Rightarrow> 'e ros_context \<Rightarrow> bool" where
  "moved E c c' \<longleftrightarrow> (\<exists>e t. E (oc_env c) e \<and> c' = c\<lparr>oc_env := e, oc_last_now := t\<rparr>)"

definition fenced :: "('e \<Rightarrow> 'e \<Rightarrow> bool) \<Rightarrow> 'e ros_context \<Rightarrow> 'e ros_context \<Rightarrow> bool" where
  "fenced E c c' \<longleftrightarrow> (\<exists>e t err. E (oc_env c) e \<and> c' = snd (ros_fault err (c\<lparr>oc_env := e, oc_last_now := t\<rparr>)))"

definition ran :: "('e \<Rightarrow> 'e \<Rightarrow> bool) \<Rightarrow> 'e ros_context \<Rightarrow> int \<Rightarrow> 'e ros_context \<Rightarrow> bool" where
  "ran E c rc c' \<longleftrightarrow> rc = ROS_FAILED \<and> fenced E c c' \<or> rc = ROS_OK \<and> moved E c c'"

definition read_ran :: "('e \<Rightarrow> 'e \<Rightarrow> bool) \<Rightarrow> 'e ros_context \<Rightarrow> int \<Rightarrow> 'e ros_context \<Rightarrow> bool" where
  "read_ran E c rc c' \<longleftrightarrow> rc = ROS_FAILED \<and> fenced E c c' \<or>
     (rc = ROS_READ_OK \<or> rc = ROS_READ_MISSING) \<and> (\<exists>d. moved E (c\<lparr>oc_page := blit 0 d (oc_page c)\<rparr>) c')"

lemma movedI: "E (oc_env c) e \<Longrightarrow> c' = c\<lparr>oc_env := e, oc_last_now := t\<rparr> \<Longrightarrow> moved E c c'"
  unfolding moved_def by blast

lemma movedE:
  assumes "moved E c c'"
  obtains e t where "E (oc_env c) e" and "c' = c\<lparr>oc_env := e, oc_last_now := t\<rparr>"
  using assms unfolding moved_def by blast

lemma fencedI: "E (oc_env c) e \<Longrightarrow> c' = snd (ros_fault err (c\<lparr>oc_env := e, oc_last_now := t\<rparr>)) \<Longrightarrow> fenced E c c'"
  unfolding fenced_def by blast

lemma fencedE:
  assumes "fenced E c c'"
  obtains e t err where "E (oc_env c) e" and "c' = snd (ros_fault err (c\<lparr>oc_env := e, oc_last_now := t\<rparr>))"
  using assms unfolding fenced_def by blast

lemma fst_fault [simp]: "fst (ros_fault err c) = ROS_FAILED"
  by (simp add: ros_fault_def)

lemma fenced_page: "fenced E (c\<lparr>oc_page := p\<rparr>) c' \<Longrightarrow> fenced E c c'"
  unfolding fenced_def by (simp add: ros_fault_def ros_buffers_def)

lemma fenced_container: "fenced E (c\<lparr>oc_container := k\<rparr>) c' \<Longrightarrow> fenced E c c'"
  unfolding fenced_def by (simp add: ros_fault_def ros_buffers_def)

lemma moved_fields:
  assumes "moved E c c'"
  shows "oc_port c' = oc_port c" "oc_hash c' = oc_hash c" "oc_volume c' = oc_volume c" "oc_root_count c' = oc_root_count c"
    "oc_segment_limit c' = oc_segment_limit c" "oc_records c' = oc_records c" "oc_retired c' = oc_retired c" "oc_page c' = oc_page c"
  using assms by (auto elim: movedE)

lemma moved_segment: "moved E c s \<Longrightarrow> moved E (c\<lparr>oc_segment := g\<rparr>) (s\<lparr>oc_segment := g\<rparr>)"
proof (erule movedE)
  fix e t assume "E (oc_env c) e" "s = c\<lparr>oc_env := e, oc_last_now := t\<rparr>"
  then show ?thesis by - (rule movedI [where e = e and t = t], simp_all)
qed

lemma moved_records: "moved E c s \<Longrightarrow> moved E (c\<lparr>oc_records := rs\<rparr>) (s\<lparr>oc_records := rs\<rparr>)"
proof (erule movedE)
  fix e t assume "E (oc_env c) e" "s = c\<lparr>oc_env := e, oc_last_now := t\<rparr>"
  then show ?thesis by - (rule movedI [where e = e and t = t], simp_all)
qed

lemma post_ran:
  assumes "post (ran E c) r" and "\<And>s. fenced E c s \<Longrightarrow> post Q (f ROS_FAILED s)" and "\<And>s. moved E c s \<Longrightarrow> post Q (f ROS_OK s)"
  shows "post Q (Let r (case_prod f))"
  using assms by (cases r) (auto simp: post_def ran_def)

lemma post_read:
  assumes "post (read_ran E c) r" and "\<And>s. fenced E c s \<Longrightarrow> post Q (f ROS_FAILED s)"
    and "\<And>d s. moved E (c\<lparr>oc_page := blit 0 d (oc_page c)\<rparr>) s \<Longrightarrow> post Q (f ROS_READ_OK s)"
    and "\<And>d s. moved E (c\<lparr>oc_page := blit 0 d (oc_page c)\<rparr>) s \<Longrightarrow> post Q (f ROS_READ_MISSING s)"
  shows "post Q (Let r (case_prod f))"
  using assms by (cases r) (auto simp: post_def read_ran_def)

section \<open>Clock, cancellation, admission and sealing\<close>

locale port_frame =
  fixes p :: "'e ros_port"
    and E :: "'e \<Rightarrow> 'e \<Rightarrow> bool"
  assumes E_refl: "E e e"
    and E_trans: "E e f \<Longrightarrow> E f g \<Longrightarrow> E e g"
    and E_now: "E e (snd (the (ps_now_ms p) e))"
    and E_cancelled: "E e (snd (the (ps_cancelled p) e))"
    and E_admit: "E e (snd (the (ps_admit p) w d e))"
    and E_seal: "E e (snd (snd (snd (snd (the (ps_seal p) r i x k e)))))"
begin

lemma moved_refl: "moved E c c"
  by (rule movedI [where e = "oc_env c" and t = "oc_last_now c"]) (simp_all add: E_refl)

lemma moved_trans: "moved E c c' \<Longrightarrow> moved E c' c'' \<Longrightarrow> moved E c c''"
proof (elim movedE)
  fix e t e' t' assume "E (oc_env c) e" "c' = c\<lparr>oc_env := e, oc_last_now := t\<rparr>" "E (oc_env c') e'"
    "c'' = c'\<lparr>oc_env := e', oc_last_now := t'\<rparr>"
  then show "moved E c c''" using E_trans by - (rule movedI [where e = e' and t = t'], auto)
qed

lemma moved_env: "E (oc_env c) e \<Longrightarrow> moved E c (c\<lparr>oc_env := e\<rparr>)"
  by (rule movedI [where e = e and t = "oc_last_now c"]) simp_all

lemma fenced_fault: "fenced E c (snd (ros_fault err c))"
  by (rule fencedI [where err = err and e = "oc_env c" and t = "oc_last_now c"]) (simp_all add: E_refl)

lemma fenced_moved: "moved E c c' \<Longrightarrow> fenced E c' c'' \<Longrightarrow> fenced E c c''"
proof (elim movedE fencedE)
  fix e t e' t' err assume "E (oc_env c) e" "c' = c\<lparr>oc_env := e, oc_last_now := t\<rparr>" "E (oc_env c') e'"
    "c'' = snd (ros_fault err (c'\<lparr>oc_env := e', oc_last_now := t'\<rparr>))"
  then show "fenced E c c''" using E_trans by - (rule fencedI [where err = err and e = e' and t = t'], auto)
qed

lemma moved_fault: "moved E c c' \<Longrightarrow> fenced E c (snd (ros_fault err c'))"
  using fenced_moved fenced_fault by blast

lemma fenced_again: "fenced E c c' \<Longrightarrow> fenced E c (snd (ros_fault err c'))"
proof (elim fencedE)
  fix e t er assume "E (oc_env c) e" "c' = snd (ros_fault er (c\<lparr>oc_env := e, oc_last_now := t\<rparr>))"
  then show ?thesis by - (rule fencedI [where err = err and e = e and t = t], simp_all add: ros_fault_def ros_buffers_def)
qed

lemma ran_trans: "moved E c c' \<Longrightarrow> ran E c' rc c'' \<Longrightarrow> ran E c rc c''"
  unfolding ran_def using fenced_moved moved_trans by metis

lemma ran_fault: "moved E c c' \<Longrightarrow> post (ran E c) (ros_fault err c')"
  by (simp add: post_def ran_def moved_fault)

lemma guard_ran: "oc_port c = p \<Longrightarrow> post (ran E c) (ros_guard c)"
proof -
  assume p: "oc_port c = p"
  obtain b e1 where 1: "the (ps_now_ms p) (oc_env c) = (b, e1)" by (cases "the (ps_now_ms p) (oc_env c)")
  obtain k e2 where 2: "the (ps_cancelled p) e1 = (k, e2)" by (cases "the (ps_cancelled p) e1")
  obtain n e3 where 3: "the (ps_now_ms p) e2 = (n, e3)" by (cases "the (ps_now_ms p) e2")
  have e: "E (oc_env c) e3"
    using E_now [of "oc_env c"] E_cancelled [of e1] E_now [of e2] E_trans 1 2 3 by (metis snd_conv)
  have "post (ran E c) (ROS_OK, c\<lparr>oc_env := e3, oc_last_now := n\<rparr>)"
    using e by (auto simp: post_def ran_def intro!: movedI [where e = e3 and t = n])
  then show ?thesis
    unfolding ros_guard_def p 1 2 3 Let_def prod.case
    using ran_fault [OF moved_env [OF e]] by (auto intro!: post_if)
qed

lemma settle_ran: "oc_port c = p \<Longrightarrow> post (\<lambda>r c'. ran E c r c' \<and> (r = 0 \<longrightarrow> rc = 0)) (ros_settle rc c)"
  unfolding ros_settle_def
  by (rule post_ran [OF guard_ran]) (auto simp: post_def ran_def intro: moved_fault)

lemma settle_from:
  assumes "moved E c s" and "oc_port s = p"
  shows "post (\<lambda>r c'. ran E c r c' \<and> (r = 0 \<longrightarrow> rc = 0)) (ros_settle rc s)"
  using settle_ran [OF assms(2), of rc] ran_trans [OF assms(1)] by (auto simp: post_def)

lemma admit_ran: "oc_port c = p \<Longrightarrow> post (ran E c) (ros_admit w c)"
proof -
  assume p: "oc_port c = p"
  have "post (ran E c) (let (rc, e) = the (ps_admit (oc_port s)) w (oc_deadline s) (oc_env s) in ros_settle rc (s\<lparr>oc_env := e\<rparr>))"
    if m: "moved E c s" for s
  proof -
    have s: "oc_port s = p" using m p moved_fields(1) by metis
    obtain rc e where a: "the (ps_admit p) w (oc_deadline s) (oc_env s) = (rc, e)"
      by (cases "the (ps_admit p) w (oc_deadline s) (oc_env s)")
    have "moved E c (s\<lparr>oc_env := e\<rparr>)"
      using moved_trans [OF m moved_env] E_admit [of "oc_env s" w "oc_deadline s"] a by simp
    from settle_from [OF this, of rc] show ?thesis using s by (simp add: a post_def)
  qed
  then show ?thesis
    unfolding ros_admit_def by - (rule post_ran [OF guard_ran [OF p]], auto simp: post_def ran_def)
qed

lemma hash_ran:
  assumes p: "oc_port c = p" and r: "ros_hash x out c = (rc, d, c')"
  shows "ran E c rc c' \<and> length d = length out \<and>
    (rc = 0 \<longrightarrow> fst (oc_hash c x) = 0 \<and> snd (snd (oc_hash c x)) = 32 \<and> d = blit 0 (fst (snd (oc_hash c x))) out)"
proof -
  obtain g c1 where g: "ros_guard c = (g, c1)" by (cases "ros_guard c")
  have m: "ran E c g c1" using guard_ran [OF p] g by (simp add: post_def)
  obtain h hd n where h: "oc_hash c x = (h, hd, n)" by (cases "oc_hash c x")
  show ?thesis
  proof (cases "g = 0")
    case False
    then have "rc = ROS_FAILED" "c' = c1" "d = out" using r by (auto simp: ros_hash_def g)
    then show ?thesis using m False by (auto simp: ran_def)
  next
    case True
    then have m1: "moved E c c1" using m by (auto simp: ran_def)
    then have f: "oc_port c1 = p" "oc_hash c1 = oc_hash c" using p moved_fields by metis+
    let ?r = "if h \<noteq> 0 then h else if n \<noteq> 32 then ROS_FAILED else 0"
    obtain rc2 c2 where st: "ros_settle ?r c1 = (rc2, c2)" by (cases "ros_settle ?r c1")
    have "ran E c rc2 c2 \<and> (rc2 = 0 \<longrightarrow> ?r = 0)" using settle_from [OF m1 f(1), of ?r] st by (simp add: post_def)
    moreover have "rc = rc2" "d = blit 0 hd out" "c' = c2"
      using r True st by (auto simp: ros_hash_def g f(2) h Let_def split: prod.splits)
    ultimately show ?thesis by (auto simp: h split: if_splits)
  qed
qed

lemma catalog_seal_ran:
  assumes "oc_port c = p"
  shows "post (\<lambda>rc c'. rc = ROS_FAILED \<and> fenced E c c' \<or>
     rc = ROS_OK \<and> (\<exists>d. length d = length (part 224 32 q) \<and> moved E (c\<lparr>oc_catalog := blit 224 d q\<rparr>) c' \<and>
       fst (oc_hash c (part 0 224 q)) = 0 \<and> d = blit 0 (fst (snd (oc_hash c (part 0 224 q)))) (part 224 32 q))) (catalog_seal q c)"
proof -
  obtain rc d c' where r: "ros_hash (part 0 224 q) (part 224 32 q) (c\<lparr>oc_catalog := q\<rparr>) = (rc, d, c')"
    by (cases "ros_hash (part 0 224 q) (part 224 32 q) (c\<lparr>oc_catalog := q\<rparr>)")
  note h = hash_ran [OF _ r]
  show ?thesis
  proof (cases "rc = 0")
    case True
    then have "moved E (c\<lparr>oc_catalog := q\<rparr>) c'" using h assms by (simp add: ran_def)
    then obtain e t where "E (oc_env c) e" "c' = c\<lparr>oc_catalog := q, oc_env := e, oc_last_now := t\<rparr>"
      by (rule movedE) simp
    then have "moved E (c\<lparr>oc_catalog := blit 224 d q\<rparr>) (c'\<lparr>oc_catalog := blit 224 d q\<rparr>)"
      by - (rule movedI [where e = e and t = t], simp_all)
    moreover have "length d = length (part 224 32 q)" "fst (oc_hash c (part 0 224 q)) = 0"
      "d = blit 0 (fst (snd (oc_hash c (part 0 224 q)))) (part 224 32 q)" using True h assms by simp_all
    ultimately have "\<exists>d. length d = length (part 224 32 q) \<and> moved E (c\<lparr>oc_catalog := blit 224 d q\<rparr>) (snd (catalog_seal q c)) \<and>
        fst (oc_hash c (part 0 224 q)) = 0 \<and> d = blit 0 (fst (snd (oc_hash c (part 0 224 q)))) (part 224 32 q)"
      unfolding catalog_seal_def r using True by - (rule exI [of _ d], simp)
    moreover have "fst (catalog_seal q c) = ROS_OK" using True by (simp add: catalog_seal_def r)
    ultimately show ?thesis unfolding post_def by blast
  next
    case False
    then have "rc = ROS_FAILED" "fenced E (c\<lparr>oc_catalog := q\<rparr>) c'" using h assms by (auto simp: ran_def)
    moreover from this(2) have "fenced E c c'" unfolding fenced_def by (simp add: ros_fault_def ros_buffers_def)
    ultimately show ?thesis by (simp add: catalog_seal_def r post_def)
  qed
qed

end

text \<open>Sealing: on success the container passes its structural check, the segment carries its digest and the catalogue buffer holds
  the INTENT page; on failure only the digest of the segment may have changed before the fault.\<close>

definition digested :: "bytes \<Rightarrow> 'e ros_context \<Rightarrow> 'e ros_context" where
  "digested d c = c\<lparr>oc_segment := (oc_segment c)\<lparr>sg_digest := d\<rparr>\<rparr>"

text \<open>What the provider leaves in a 32-byte buffer.\<close>

definition hashed :: "'e ros_context \<Rightarrow> bytes \<Rightarrow> bytes \<Rightarrow> bytes" where "hashed c x out = blit 0 (fst (snd (oc_hash c x))) out"

definition catalog_image :: "bytes \<Rightarrow> 'e ros_context \<Rightarrow> bytes" where
  "catalog_image q c = blit 224 (hashed c (part 0 224 q) (part 224 32 q)) q"

definition sealed_as :: "('e \<Rightarrow> 'e \<Rightarrow> bool) \<Rightarrow> nat \<Rightarrow> 'e ros_context \<Rightarrow> bytes \<Rightarrow> 'e ros_context \<Rightarrow> bool" where
  "sealed_as E n c k s \<longleftrightarrow> length k = length (oc_container c) \<and> container_ok k (n + 209) (sg_identity (oc_segment c)) \<and>
     fst (oc_hash c (part 0 (n + 209) k)) = 0 \<and> snd (snd (oc_hash c (part 0 (n + 209) k))) = 32 \<and>
     (let t = digested (hashed c (part 0 (n + 209) k) (sg_digest (oc_segment c))) (c\<lparr>oc_container := k\<rparr>) in
      moved E (t\<lparr>oc_catalog := catalog_image (segment_fields SLOT_INTENT t) c\<rparr>) s)"

definition seal_ran :: "('e \<Rightarrow> 'e \<Rightarrow> bool) \<Rightarrow> nat \<Rightarrow> 'e ros_context \<Rightarrow> int \<Rightarrow> 'e ros_context \<Rightarrow> bool" where
  "seal_ran E n c rc s \<longleftrightarrow> rc = ROS_FAILED \<and> (\<exists>d. fenced E (digested d c) s) \<or> rc = ROS_PENDING \<and> (\<exists>k. sealed_as E n c k s)"

lemma digested_same: "digested (sg_digest (oc_segment c)) c = c"
  by (simp add: digested_def)

lemma fenced_digested:
  assumes "fenced E (c\<lparr>oc_container := k\<rparr>) s"
  shows "fenced E (digested d c) (digested d s)"
proof (rule fencedE [OF assms])
  fix e t err assume "E (oc_env (c\<lparr>oc_container := k\<rparr>)) e"
    and "s = snd (ros_fault err (c\<lparr>oc_container := k, oc_env := e, oc_last_now := t\<rparr>))"
  then show ?thesis
    by - (rule fencedI [where e = e and t = t and err = err], simp_all add: digested_def ros_fault_def ros_buffers_def)
qed

lemma fenced_digested_container:
  assumes "fenced E (digested d (c\<lparr>oc_container := k\<rparr>)) s"
  shows "fenced E (digested d c) s"
proof -
  have "digested d (c\<lparr>oc_container := k\<rparr>) = (digested d c)\<lparr>oc_container := k\<rparr>" by (simp add: digested_def)
  then show ?thesis using assms fenced_container by metis
qed

lemma segment_fields_cong:
  assumes "oc_segment c = oc_segment d" "oc_records c = oc_records d" "oc_root_count c = oc_root_count d" "oc_extent_profile c = oc_extent_profile d"
  shows "segment_fields k c = segment_fields k d"
  using assms by (simp add: segment_fields_def catalog_start_def format_tag_def ros_sector_def)

context port_frame
begin

lemma seal_fault: "fenced E c (snd (ros_fault err s)) \<Longrightarrow> post (seal_ran E n c) (ros_fault err s)"
  using digested_same [of c] unfolding post_def seal_ran_def by (metis fst_fault)

lemma seal_record_ran:
  assumes m: "moved E (c\<lparr>oc_container := k\<rparr>) s" and p: "oc_port c = p" and l: "length k = length (oc_container c)"
    and ok: "container_ok k (n + 209) (sg_identity (oc_segment c))"
  shows "post (seal_ran E n c) (seal_record n s)"
proof -
  have v: "oc_container s = k" "oc_segment s = oc_segment c" "oc_port s = p" "oc_hash s = oc_hash c" using m p by (auto elim!: movedE)
  obtain hr d s4 where h4: "ros_hash (part 0 (n + 209) k) (sg_digest (oc_segment c)) s = (hr, d, s4)"
    by (cases "ros_hash (part 0 (n + 209) k) (sg_digest (oc_segment c)) s")
  note h = hash_ran [OF v(3) h4, unfolded v(4)]
  have r4: "ran E (c\<lparr>oc_container := k\<rparr>) hr s4" using ran_trans [OF m] h by simp
  show ?thesis
  proof (cases "hr = 0")
    case False
    then have "fenced E (c\<lparr>oc_container := k\<rparr>) s4" using r4 by (simp add: ran_def)
    then have "fenced E (digested d c) (digested d s4)" by (rule fenced_digested)
    moreover have "seal_record n s = (ROS_FAILED, digested d s4)" using False by (simp add: seal_record_def v h4 digested_def)
    ultimately show ?thesis by (auto simp: post_def seal_ran_def)
  next
    case True
    then have "moved E (c\<lparr>oc_container := k\<rparr>) s4" using r4 by (simp add: ran_def)
    then obtain e4 t4 where e4: "E (oc_env c) e4" and s4: "s4 = c\<lparr>oc_container := k, oc_env := e4, oc_last_now := t4\<rparr>" by (rule movedE) simp
    define c5 where "c5 = digested d (c\<lparr>oc_container := k\<rparr>)"
    have d: "d = hashed c (part 0 (n + 209) k) (sg_digest (oc_segment c))" using h True by (simp add: hashed_def)
    have good: "fst (oc_hash c (part 0 (n + 209) k)) = 0" "snd (snd (oc_hash c (part 0 (n + 209) k))) = 32" using h True by simp_all
    have s5: "digested d s4 = c5\<lparr>oc_env := e4, oc_last_now := t4\<rparr>" by (simp add: s4 c5_def digested_def)
    let ?q = "segment_fields SLOT_INTENT c5"
    have q: "segment_fields SLOT_INTENT (digested d s4) = ?q" by (rule segment_fields_cong) (simp_all add: s5)
    have p5: "oc_port (digested d s4) = p" "oc_hash (digested d s4) = oc_hash c" using p by (simp_all add: s4 digested_def)
    obtain cr s6 where c6: "catalog_seal ?q (digested d s4) = (cr, s6)" by (cases "catalog_seal ?q (digested d s4)")
    note cs = catalog_seal_ran [OF p5(1), of ?q, unfolded c6 post_def fst_conv snd_conv p5(2)]
    have rec: "seal_record n s = (if cr \<noteq> 0 then (ROS_FAILED, s6) else (ROS_PENDING, s6))"
      using True c6 q by (simp add: seal_record_def v h4 catalog_segment_def digested_def [symmetric])
    have m5: "moved E c5 (digested d s4)" using e4 by - (rule movedI [where e = e4 and t = t4], simp_all add: s5, simp add: c5_def digested_def)
    show ?thesis
    proof (cases "cr = 0")
      case True
      then have u: "moved E ((digested d s4)\<lparr>oc_catalog := catalog_image ?q c\<rparr>) s6" using cs by (auto simp: catalog_image_def hashed_def)
      have "moved E (c5\<lparr>oc_catalog := catalog_image ?q c\<rparr>) ((digested d s4)\<lparr>oc_catalog := catalog_image ?q c\<rparr>)"
        using e4 by - (rule movedI [where e = e4 and t = t4], simp_all add: s5, simp add: c5_def digested_def)
      from moved_trans [OF this u] have "sealed_as E n c k s6" using l ok good by (simp add: sealed_as_def Let_def c5_def d)
      then show ?thesis using True by (auto simp: rec post_def seal_ran_def)
    next
      case False
      then have "fenced E (digested d s4) s6" using cs by auto
      from fenced_moved [OF m5 this] have "fenced E (digested d c) s6" unfolding c5_def by (rule fenced_digested_container)
      then show ?thesis using False by (auto simp: rec post_def seal_ran_def)
    qed
  qed
qed

lemma seal_call_ran:
  assumes m: "moved E (c\<lparr>oc_container := k0\<rparr>) s" and p: "oc_port c = p" and l: "length k0 = length (oc_container c)"
  shows "post (seal_ran E n c) (seal_call info plain n s)"
proof -
  obtain e1 t1 where e1: "E (oc_env c) e1" and s: "s = c\<lparr>oc_container := k0, oc_env := e1, oc_last_now := t1\<rparr>" using m by (rule movedE) simp
  obtain rc enc cipher actual e2 where sl: "the (ps_seal p) (oc_recipient c) info plain (n + 16) e1 = (rc, enc, cipher, actual, e2)"
    by (cases "the (ps_seal p) (oc_recipient c) info plain (n + 16) e1") auto
  have e2: "E (oc_env c) e2" using E_trans [OF e1] E_seal [of e1 "oc_recipient c" info plain "n + 16"] sl by simp
  define k where "k = blit 193 (take (n + 16) cipher) (blit 128 (take 65 enc) k0)"
  let ?s2 = "s\<lparr>oc_container := k, oc_env := e2\<rparr>" and ?c2 = "c\<lparr>oc_container := k\<rparr>"
  have m2: "moved E ?c2 ?s2" using e2 by (auto simp: s intro!: movedI [where e = e2 and t = t1])
  obtain g s3 where g: "ros_guard ?s2 = (g, s3)" by (cases "ros_guard ?s2")
  have rg: "ran E ?c2 g s3" using guard_ran [of ?s2] p g ran_trans [OF m2] by (simp add: post_def s)
  let ?bad = "g \<noteq> 0 \<or> rc \<noteq> 0 \<or> actual \<noteq> n + 16 \<or> \<not> container_ok (oc_container s3) (n + 209) (sg_identity (oc_segment s3))"
  have unf: "seal_call info plain n s = (if ?bad then ros_fault (if rc \<noteq> 0 then rc else ROS_FAILED) s3 else seal_record n s3)"
    using p sl g by (simp add: seal_call_def s k_def)
  have "fenced E ?c2 (snd (ros_fault err s3))" for err using rg fenced_again moved_fault by (auto simp: ran_def)
  then have "post (seal_ran E n c) (ros_fault err s3)" for err by (rule seal_fault [OF fenced_container])
  moreover have "post (seal_ran E n c) (seal_record n s3)" if "\<not> ?bad"
  proof -
    have "moved E ?c2 s3" using rg that by (simp add: ran_def)
    moreover from this have "oc_container s3 = k" "oc_segment s3 = oc_segment c" by (auto elim!: movedE)
    ultimately show ?thesis using seal_record_ran [OF _ p] that l by (simp add: k_def)
  qed
  ultimately show ?thesis unfolding unf by (auto intro!: post_if)
qed

lemma seal_prepared_ran:
  assumes p: "oc_port c = p"
  shows "post (seal_ran E n c) (seal_prepared plain n c)"
proof (cases "seal_header c")
  case None
  then show ?thesis using seal_fault [OF fenced_fault] by (simp add: seal_prepared_def)
next
  case (Some h)
  let ?c1 = "c\<lparr>oc_container := blit 0 h (oc_container c)\<rparr>"
  have f: "post (seal_ran E n c) (ros_fault err s)" if "fenced E ?c1 (snd (ros_fault err s))" for err s
    using seal_fault [OF fenced_container [OF that]] .
  have "post (seal_ran E n c) (let (a, c) = ros_admit 1 ?c1 in if a \<noteq> 0 then ros_fault ROS_FAILED c else seal_call info plain n c)" for info
    by (rule post_ran [OF admit_ran]) (simp_all add: p f fenced_again seal_call_ran [OF _ p])
  then show ?thesis using Some f [OF fenced_fault] by (simp add: seal_prepared_def Let_def split: option.split)
qed

end

section \<open>Page transfers\<close>

locale store_port =
  fixes p :: "'e ros_port"
    and cap :: nat
    and P :: "'e \<Rightarrow> bool"
  assumes P_now: "P e \<Longrightarrow> P (snd (the (ps_now_ms p) e))"
    and P_cancelled: "P e \<Longrightarrow> P (snd (the (ps_cancelled p) e))"
    and P_admit: "P e \<Longrightarrow> P (snd (the (ps_admit p) w d e))"
    and P_read: "P e \<Longrightarrow> unat n < cap \<Longrightarrow> P (snd (snd (the (ps_read p) n d e)))"
    and P_write: "P e \<Longrightarrow> unat n < cap \<Longrightarrow> P (snd (the (ps_write p) n x d e))"
    and P_sync: "P e \<Longrightarrow> P (snd (the (ps_sync p) d e))"
    and P_seal: "P e \<Longrightarrow> P (snd (snd (snd (snd (the (ps_seal p) r i x k e)))))"

sublocale store_port \<subseteq> frame: port_frame p "\<lambda>e f. P e \<longrightarrow> P f"
  by unfold_locales (auto intro: P_now P_cancelled P_admit P_seal)

context store_port
begin

abbreviation E :: "'e \<Rightarrow> 'e \<Rightarrow> bool" where "E \<equiv> \<lambda>e f. P e \<longrightarrow> P f"

lemma admitted_ran:
  assumes "oc_port c = p" and "\<And>s. moved E c s \<Longrightarrow> oc_port s = p \<Longrightarrow> post (ran E c) (f s)"
  shows "post (ran E c) (let (a, s) = ros_admit w c in if a \<noteq> 0 then (ROS_FAILED, s) else f s)"
  by (rule post_ran [OF frame.admit_ran [OF assms(1)]])
    (use assms moved_fields(1) in \<open>auto simp: ran_def intro!: post_return\<close>)

lemma write_ran:
  assumes "oc_port c = p" and "unat n < cap"
  shows "post (ran E c) (ros_write_page n d c)"
  unfolding ros_write_page_def
proof (rule admitted_ran [OF assms(1)], rule post_let_pair)
  fix s rc e assume s: "moved E c s" "oc_port s = p" "the (ps_write (oc_port s)) n d (oc_deadline s) (oc_env s) = (rc, e)"
  have "moved E c (s\<lparr>oc_env := e\<rparr>)"
    using frame.moved_trans [OF s(1) frame.moved_env] P_write [of "oc_env s" n d "oc_deadline s"] s(2,3) assms(2) by simp
  from frame.settle_from [OF this, of rc] show "post (ran E c) (ros_settle rc (s\<lparr>oc_env := e\<rparr>))"
    using s(2) by (simp add: post_def)
qed

lemma sync_ran:
  assumes "oc_port c = p"
  shows "post (ran E c) (ros_sync_map c)"
  unfolding ros_sync_map_def
proof (rule admitted_ran [OF assms(1)], rule post_let_pair)
  fix s rc e assume s: "moved E c s" "oc_port s = p" "the (ps_sync (oc_port s)) (oc_deadline s) (oc_env s) = (rc, e)"
  have "moved E c (s\<lparr>oc_env := e\<rparr>)"
    using frame.moved_trans [OF s(1) frame.moved_env] P_sync [of "oc_env s" "oc_deadline s"] s(2,3) by simp
  from frame.settle_from [OF this, of rc] show "post (ran E c) (ros_settle rc (s\<lparr>oc_env := e\<rparr>))"
    using s(2) by (simp add: post_def)
qed

lemma moved_page:
  assumes "moved E c s" and "P (oc_env s) \<longrightarrow> P e"
  shows "moved E (c\<lparr>oc_page := blit 0 d (oc_page c)\<rparr>) (s\<lparr>oc_page := blit 0 d (oc_page s), oc_env := e\<rparr>)"
proof (rule movedE [OF assms(1)])
  fix f t assume "P (oc_env c) \<longrightarrow> P f" "s = c\<lparr>oc_env := f, oc_last_now := t\<rparr>"
  then show ?thesis using assms(2) by - (rule movedI [where e = e and t = t], simp_all)
qed

lemma read_page_ran:
  assumes p: "oc_port c = p" and n: "unat n < cap"
  shows "post (read_ran E c) (ros_read_page n c)"
proof -
  have "post (read_ran E c) (let (rc, d, e) = the (ps_read (oc_port s)) n (oc_deadline s) (oc_env s);
              (g, s) = ros_guard (s\<lparr>oc_page := blit 0 d (oc_page s), oc_env := e\<rparr>) in
       if g \<noteq> 0 then (ROS_FAILED, s)
       else if rc \<noteq> ROS_READ_OK \<and> rc \<noteq> ROS_READ_MISSING then ros_fault rc s else (rc, s))" if m: "moved E c s" for s
  proof -
    have s: "oc_port s = p" using m p moved_fields(1) by metis
    obtain rc d e where r: "the (ps_read p) n (oc_deadline s) (oc_env s) = (rc, d, e)"
      by (cases "the (ps_read p) n (oc_deadline s) (oc_env s)")
    let ?s = "s\<lparr>oc_page := blit 0 d (oc_page s), oc_env := e\<rparr>" and ?c = "c\<lparr>oc_page := blit 0 d (oc_page c)\<rparr>"
    have ms: "moved E ?c ?s"
      using moved_page [OF m] P_read [of "oc_env s" n "oc_deadline s"] r n by simp
    obtain g t where g: "ros_guard ?s = (g, t)" by (cases "ros_guard ?s")
    have t: "ran E ?c g t" using frame.guard_ran [of ?s] s g frame.ran_trans [OF ms] by (simp add: post_def)
    show ?thesis
    proof (cases "g = 0")
      case False
      then have "fenced E c t" using t fenced_page by (auto simp: ran_def)
      then show ?thesis using False by (simp add: s r g post_def read_ran_def)
    next
      case True
      then have "moved E ?c t" using t by (simp add: ran_def)
      moreover from frame.moved_fault [OF this] have "fenced E c (snd (ros_fault rc t))" using fenced_page by blast
      ultimately show ?thesis using True by (auto simp: s r g post_def read_ran_def)
    qed
  qed
  then show ?thesis
    unfolding ros_read_page_def
    by - (rule post_ran [OF frame.admit_ran [OF p]], auto simp: post_return read_ran_def)
qed

end

text \<open>Any port at all keeps the trivial predicate.\<close>

interpretation any: store_port p cap "\<lambda>e. True" for p :: "'e ros_port" and cap
  by unfold_locales auto

section \<open>Slot states\<close>

lemma nibble_bits: "bit (ucast (drop_bit m (x :: u8)) AND 15 :: u32) n \<longleftrightarrow> n < 4 \<and> bit x (m + n)"
proof -
  have n: "(15 :: u32) = mask 4" by (simp add: mask_eq_exp_minus_1)
  have "m + n < 8" if "bit x (m + n)" using that bit_imp_le_length by fastforce
  then show ?thesis unfolding n by (auto simp: bit_and_iff bit_ucast_iff bit_drop_bit_eq bit_mask_iff)
qed

lemma slot_state_set:
  assumes "unat a div 2 < length (oc_used c)" and "s AND 15 = s"
  shows "slot_state (set_slot_state a s c) b = (if a = b then s else slot_state c b)"
proof (cases "unat b div 2 = unat a div 2")
  case False
  then have "a \<noteq> b" by auto
  then show ?thesis using False by (auto simp: slot_state_def set_slot_state_def Let_def)
next
  case True
  have n: "(15 :: u8) = mask 4" "(15 :: u32) = mask 4" by (simp_all add: mask_eq_exp_minus_1)
  let ?x = "oc_used c ! (unat a div 2)"
  let ?y = "(?x AND NOT (push_bit (unat a mod 2 * 4) 15)) OR push_bit (unat a mod 2 * 4) (ucast s)"
  have y: "slot_state (set_slot_state a s c) b = ucast (drop_bit (unat b mod 2 * 4) ?y) AND 15"
    using assms True by (simp add: slot_state_def set_slot_state_def Let_def)
  show ?thesis
  proof (cases "a = b")
    case True
    have d: "unat a mod 2 = 0 \<or> unat a mod 2 = 1" by presburger
    have "ucast (drop_bit (unat a mod 2 * 4) ?y) AND 15 = s AND 15"
      unfolding n(1) using d
      by (intro bit_word_eqI) (auto simp: nibble_bits, auto simp: bit_drop_bit_eq n(2) bit_and_iff bit_or_iff bit_not_iff bit_push_bit_iff bit_mask_iff bit_ucast_iff)
    then show ?thesis using True y assms(2) by simp
  next
    case False
    then have "unat a mod 2 \<noteq> unat b mod 2" using True by (metis div_mult_mod_eq word_unat_eq_iff)
    then have d: "unat a mod 2 = 0 \<and> unat b mod 2 = 1 \<or> unat a mod 2 = 1 \<and> unat b mod 2 = 0" by presburger
    have s: "n < 4" if "bit s n" for n using that assms(2) unfolding n(2) by (metis bit_and_iff bit_mask_iff)
    have "ucast (drop_bit (unat b mod 2 * 4) ?y) AND 15 = (ucast (drop_bit (unat b mod 2 * 4) ?x) AND 15 :: u32)"
      unfolding n(1) using d
      by (intro bit_word_eqI) (auto simp: nibble_bits, auto simp: bit_drop_bit_eq n(2) bit_and_iff bit_or_iff bit_not_iff bit_push_bit_iff bit_mask_iff bit_ucast_iff dest: s)
    then have "slot_state (set_slot_state a s c) b = slot_state c b" unfolding y slot_state_def [of c] True .
    then show ?thesis using False by simp
  qed
qed
end
