(* ===== verification/Store_Inv.thy ===== *)
theory Store_Inv
  imports Store_Calls
begin

text \<open>
  The type invariant of the object store: array sizes, geometry, the indices of the running job, and the accounting of slot
  states.  Every operation keeps it whatever the port does, so every array access of \<open>recording_object_store.c\<close> is in
  bounds, every page transfer addresses a sector of the volume, and \<open>consumed_slots\<close> counts the slots that are not free.
\<close>

section \<open>The invariant\<close>

definition ros_shape :: "'e ros_context \<Rightarrow> bool" where
  "ros_shape c \<longleftrightarrow> length (oc_used c) = 2560 \<and> length (oc_records c) = 32 \<and> length (oc_container c) = ROS_CONTAINER_BYTES \<and>
     length (oc_catalog c) = 2048 \<and> length (oc_page c) = 2048 \<and> length (sr_es_header (oc_receipt c)) = 128 \<and>
     (oc_root_count c = ROS_ROOTS \<or> oc_root_count c = ROS_EXTENT_ROOTS) \<and> oc_segment_limit c \<le> RLL_SLOTS \<and>
     ss_slot_count c \<le> oc_segment_limit c \<and> oc_active_root c \<le> oc_root_count c"

definition segment_fits :: "'e ros_context \<Rightarrow> bool" where
  "segment_fits c \<longleftrightarrow> (let s = oc_segment c in sg_root s < oc_root_count c \<and> sg_slot s < ss_slot_count c \<and>
     es_plaintext_bytes (sg_identity s) \<le> 34148 \<and> sg_container_bytes s = es_plaintext_bytes (sg_identity s) + 209 \<and>
     sg_pages s = (sg_container_bytes s + 2047) div 2048 \<and> oc_index c \<le> sg_pages s)"

definition recover_fits :: "'e ros_context \<Rightarrow> bool" where
  "recover_fits c \<longleftrightarrow> oc_scan_root c \<le> oc_root_count c \<and> oc_scan_slot c \<le> ss_slot_count c \<and>
     (\<forall>k. oc_scan_slot c < k \<and> k < ss_slot_count c \<longrightarrow> slot_state c k = 0) \<and>
     (if ss_stage c = 11 then oc_scan_slot c < ss_slot_count c \<and> segment_fits c
      else (ss_stage c = 0 \<or> ss_stage c = 10) \<and> (oc_scan_slot c < ss_slot_count c \<longrightarrow> slot_state c (oc_scan_slot c) = 0))"

definition job_stages :: "u32 list" where "job_stages = [0, 1, 2, 3, 5, 6, 7, 8, 9]"

definition segment_job_fits :: "'e ros_context \<Rightarrow> bool" where
  "segment_job_fits c \<longleftrightarrow> segment_fits c \<and> List.member job_stages (ss_stage c) \<and> slot_state c (sg_slot (oc_segment c)) =
     (if ss_ready c \<noteq> 0 then SLOT_COMMIT else if List.member [3, 5, 6, 7, 8] (ss_stage c) then SLOT_INTENT else 0)"

definition job_fits :: "'e ros_context \<Rightarrow> bool" where
  "job_fits c \<longleftrightarrow> (case ss_job c of ROS_NONE \<Rightarrow> ss_ready c = 0 | ROS_RECOVER \<Rightarrow> ss_ready c = 0 \<longrightarrow> recover_fits c
     | ROS_RESERVE \<Rightarrow> oc_root c < oc_root_count c | ROS_FINALIZE \<Rightarrow> oc_root c < oc_root_count c
     | ROS_SEGMENT \<Rightarrow> segment_job_fits c
     | _ \<Rightarrow> oc_slot c < ss_slot_count c \<and> (ss_stage c \<noteq> 0 \<longrightarrow> segment_fits c))"

definition taken :: "'e ros_context \<Rightarrow> u32 set" where "taken c = {k. k < ss_slot_count c \<and> slot_state c k \<noteq> 0}"

definition slots_fit :: "'e ros_context \<Rightarrow> bool" where
  "slots_fit c \<longleftrightarrow> (\<forall>k < ss_slot_count c. slot_state c k = 0 \<or> slot_state c k = SLOT_INTENT \<or> slot_state c k = SLOT_COMMIT) \<and>
     unat (ss_consumed_slots c) = card (taken c)"

definition ros_typed :: "'e ros_context \<Rightarrow> bool" where
  "ros_typed c \<longleftrightarrow> ros_shape c \<and> (ss_fault c = 0 \<longrightarrow> job_fits c)"

section \<open>Updates that the invariant does not see\<close>

lemma card_below: "card {k :: u32. k < n} = unat n"
proof -
  have "x \<in> unat ` {k :: u32. k < n}" if "x < unat n" for x
  proof -
    have "unat (of_nat x :: u32) = x"
      using that unsigned_less [of n, where ?'a = nat] by (simp add: unsigned_of_nat take_bit_nat_eq_self)
    then show ?thesis using that by (intro image_eqI [of _ _ "of_nat x"]) (auto simp: word_less_nat_alt)
  qed
  then have "unat ` {k :: u32. k < n} = {..<unat n}" by (auto simp: word_less_nat_alt)
  moreover have "inj_on unat {k :: u32. k < n}" by (rule inj_onI) (simp add: word_unat_eq_iff)
  ultimately show ?thesis using card_image [of unat "{k :: u32. k < n}"] by simp
qed

lemma taken_bound: "slots_fit c \<Longrightarrow> ss_consumed_slots c \<le> ss_slot_count c"
  using card_mono [of "{k. k < ss_slot_count c}" "taken c"]
  by (auto simp: slots_fit_def taken_def card_below word_le_nat_alt)

lemma slot_state_used: "oc_used c = oc_used d \<Longrightarrow> slot_state c = slot_state d"
  by (simp add: slot_state_def fun_eq_iff)

text \<open>The invariant for a port \<open>p\<close>, sectors below \<open>cap\<close> and a predicate \<open>P\<close> on the environment.  \<open>store_base\<close> is the part that a
  fenced context keeps.\<close>

definition store_base :: "'e ros_port \<Rightarrow> nat \<Rightarrow> ('e \<Rightarrow> bool) \<Rightarrow> 'e ros_context \<Rightarrow> bool" where
  "store_base p cap P c \<longleftrightarrow> ros_shape c \<and> slots_fit c \<and> oc_port c = p \<and> P (oc_env c) \<and>
     unat (oc_root_count c) + unat (ss_slot_count c) * 18 \<le> cap"

definition store_ok :: "'e ros_port \<Rightarrow> nat \<Rightarrow> ('e \<Rightarrow> bool) \<Rightarrow> 'e ros_context \<Rightarrow> bool" where
  "store_ok p cap P c \<longleftrightarrow> store_base p cap P c \<and> (ss_fault c = 0 \<longrightarrow> job_fits c)"

text \<open>What the invariant reads.\<close>

definition same_job :: "'e ros_context \<Rightarrow> 'e ros_context \<Rightarrow> bool" where
  "same_job c d \<longleftrightarrow> oc_used d = oc_used c \<and> oc_index d = oc_index c \<and> ss_job d = ss_job c \<and> ss_stage d = ss_stage c \<and>
     ss_ready d = ss_ready c \<and> ss_slot_count d = ss_slot_count c \<and> oc_scan_root d = oc_scan_root c \<and> oc_scan_slot d = oc_scan_slot c \<and>
     oc_root d = oc_root c \<and> oc_slot d = oc_slot c \<and> oc_root_count d = oc_root_count c \<and>
     sg_root (oc_segment d) = sg_root (oc_segment c) \<and> sg_slot (oc_segment d) = sg_slot (oc_segment c) \<and>
     sg_identity (oc_segment d) = sg_identity (oc_segment c) \<and> sg_pages (oc_segment d) = sg_pages (oc_segment c) \<and>
     sg_container_bytes (oc_segment d) = sg_container_bytes (oc_segment c)"

lemma same_job_fits: "same_job c d \<Longrightarrow> job_fits d = job_fits c"
  using slot_state_used [of d c]
  by (simp add: same_job_def job_fits_def segment_job_fits_def recover_fits_def segment_fits_def Let_def split: ros_job.split)

lemma same_slots: "oc_used d = oc_used c \<Longrightarrow> ss_slot_count d = ss_slot_count c \<Longrightarrow> ss_consumed_slots d = ss_consumed_slots c \<Longrightarrow> slots_fit d = slots_fit c"
  using slot_state_used [of d c] by (simp add: slots_fit_def taken_def)

lemma base_cong:
  assumes "oc_used d = oc_used c" "ss_slot_count d = ss_slot_count c" "ss_consumed_slots d = ss_consumed_slots c"
    "oc_root_count d = oc_root_count c" "oc_port d = oc_port c" "ros_shape c \<Longrightarrow> ros_shape d" "P (oc_env c) \<Longrightarrow> P (oc_env d)"
  shows "store_base p cap P c \<Longrightarrow> store_base p cap P d"
  using assms same_slots [of d c] by (simp add: store_base_def)

lemma base_moved: "moved (\<lambda>e f. P e \<longrightarrow> P f) c c' \<Longrightarrow> store_base p cap P c \<Longrightarrow> store_base p cap P c'"
  by (erule movedE, rule base_cong [of c' c]) (simp_all add: ros_shape_def)

lemma ok_base: "store_ok p cap P c \<Longrightarrow> store_base p cap P c"
  by (simp add: store_ok_def)

lemma ok_moved: "moved (\<lambda>e f. P e \<longrightarrow> P f) c c' \<Longrightarrow> store_ok p cap P c \<Longrightarrow> store_ok p cap P c'"
proof -
  assume m: "moved (\<lambda>e f. P e \<longrightarrow> P f) c c'" and k: "store_ok p cap P c"
  then have "same_job c c'" "ss_fault c' = ss_fault c" by (auto elim!: movedE simp: same_job_def)
  then show ?thesis using base_moved [OF m] k by (simp add: store_ok_def same_job_fits)
qed

lemma ok_fenced:
  assumes "fenced (\<lambda>e f. P e \<longrightarrow> P f) c c'" and "store_base p cap P c"
  shows "store_ok p cap P c'"
proof (rule fencedE [OF assms(1)])
  fix e t err assume e: "P (oc_env c) \<longrightarrow> P e" and c': "c' = snd (ros_fault err (c\<lparr>oc_env := e, oc_last_now := t\<rparr>))"
  have "store_base p cap P c'"
    by (rule base_cong [OF _ _ _ _ _ _ _ assms(2)]) (simp_all add: c' ros_fault_def ros_buffers_def ros_shape_def receipt_none_def e)
  then show ?thesis by (simp add: store_ok_def c' ros_fault_def ros_buffers_def)
qed

lemma ok_cong:
  assumes "same_job c d" and "ss_consumed_slots d = ss_consumed_slots c" and "ros_shape c \<Longrightarrow> ros_shape d" and "ss_fault d = ss_fault c"
    and "oc_port d = oc_port c" and "P (oc_env c) \<Longrightarrow> P (oc_env d)"
  shows "store_ok p cap P c \<Longrightarrow> store_ok p cap P d"
  using assms same_job_fits [OF assms(1)] same_slots [of d c] by (simp add: store_ok_def store_base_def same_job_def)

section \<open>Slots\<close>

lemma taken_set:
  assumes "unat k div 2 < length (oc_used c)" and "s AND 15 = s" and "s \<noteq> 0" and "k < ss_slot_count c"
  shows "taken (set_slot_state k s c) = insert k (taken c)"
  using assms by (auto simp: taken_def slot_state_set) (simp_all add: set_slot_state_def Let_def)

lemma slot_small: "ros_shape c \<Longrightarrow> k < ss_slot_count c \<Longrightarrow> unat k div 2 < length (oc_used c)"
  by (auto simp: ros_shape_def word_less_nat_alt word_le_nat_alt)

lemma slots_set_new:
  assumes "ros_shape c" and "slots_fit c" and "k < ss_slot_count c" and "slot_state c k = 0" and "s = SLOT_INTENT \<or> s = SLOT_COMMIT"
  shows "slots_fit ((set_slot_state k s c)\<lparr>ss_consumed_slots := ss_consumed_slots c + 1\<rparr>)"
proof -
  let ?d = "set_slot_state k s c" and ?e = "(set_slot_state k s c)\<lparr>ss_consumed_slots := ss_consumed_slots c + 1\<rparr>"
  have s: "s AND 15 = s" "s \<noteq> 0" using assms(5) by auto
  have st: "slot_state ?e j = (if k = j then s else slot_state c j)" for j
    using slot_state_set [OF slot_small [OF assms(1,3)] s(1)] slot_state_used [of ?e ?d] by simp
  have n: "ss_slot_count ?e = ss_slot_count c" by (simp add: set_slot_state_def Let_def)
  have t: "taken ?e = insert k (taken c)" "k \<notin> taken c"
    using assms(3,4) s(2) by (auto simp: taken_def st n split: if_splits)
  have "card (insert k (taken c)) \<le> card {j. j < ss_slot_count c}"
    using assms(3) by (intro card_mono) (auto simp: taken_def)
  then have b: "Suc (card (taken c)) \<le> unat (ss_slot_count c)" using t(2) by (simp add: card_below)
  have "unat (ss_consumed_slots c + 1) = Suc (card (taken c))"
    using assms(2) b unsigned_less [of "ss_slot_count c", where ?'a = nat] by (simp add: slots_fit_def unat_word_ariths)
  then show ?thesis using assms(2,5) t by (auto simp: slots_fit_def st n)
qed

lemma slots_set_old:
  assumes "ros_shape c" and "slots_fit c" and "k < ss_slot_count c" and "slot_state c k \<noteq> 0" and "s = SLOT_INTENT \<or> s = SLOT_COMMIT"
  shows "slots_fit (set_slot_state k s c)"
proof -
  let ?d = "set_slot_state k s c"
  have s: "s AND 15 = s" "s \<noteq> 0" using assms(5) by auto
  have st: "slot_state ?d j = (if k = j then s else slot_state c j)" for j
    using slot_state_set [OF slot_small [OF assms(1,3)] s(1)] by simp
  have n: "ss_slot_count ?d = ss_slot_count c" "ss_consumed_slots ?d = ss_consumed_slots c" by (simp_all add: set_slot_state_def Let_def)
  have "taken ?d = taken c" using assms(3,4) s(2) by (auto simp: taken_def st n split: if_splits)
  then show ?thesis using assms(2,5) by (auto simp: slots_fit_def st n)
qed

lemma set_slot_fields [simp]:
  "oc_segment (set_slot_state k s c) = oc_segment c" "oc_records (set_slot_state k s c) = oc_records c"
  "ss_slot_count (set_slot_state k s c) = ss_slot_count c" "oc_port (set_slot_state k s c) = oc_port c"
  "oc_env (set_slot_state k s c) = oc_env c" "ss_fault (set_slot_state k s c) = ss_fault c" "ss_job (set_slot_state k s c) = ss_job c"
  "ss_stage (set_slot_state k s c) = ss_stage c" "ss_ready (set_slot_state k s c) = ss_ready c" "oc_index (set_slot_state k s c) = oc_index c"
  "oc_root_count (set_slot_state k s c) = oc_root_count c" "oc_scan_slot (set_slot_state k s c) = oc_scan_slot c"
  "oc_scan_root (set_slot_state k s c) = oc_scan_root c" "ros_shape (set_slot_state k s c) = ros_shape c"
  "oc_extent_profile (set_slot_state k s c) = oc_extent_profile c" "oc_container (set_slot_state k s c) = oc_container c"
  "ss_consumed_slots (set_slot_state k s c) = ss_consumed_slots c" "oc_retired (set_slot_state k s c) = oc_retired c"
  "oc_catalog (set_slot_state k s c) = oc_catalog c" "oc_hash (set_slot_state k s c) = oc_hash c" "oc_root (set_slot_state k s c) = oc_root c"
  by (simp_all add: set_slot_state_def Let_def ros_shape_def)

lemma account_fields [simp]:
  "oc_segment (ros_account c) = oc_segment c" "oc_used (ros_account c) = oc_used c" "ss_slot_count (ros_account c) = ss_slot_count c"
  "oc_port (ros_account c) = oc_port c" "oc_env (ros_account c) = oc_env c" "ss_fault (ros_account c) = ss_fault c"
  "ss_job (ros_account c) = ss_job c" "ss_stage (ros_account c) = ss_stage c" "ss_ready (ros_account c) = ss_ready c"
  "oc_index (ros_account c) = oc_index c" "oc_root_count (ros_account c) = oc_root_count c" "oc_scan_slot (ros_account c) = oc_scan_slot c"
  "oc_scan_root (ros_account c) = oc_scan_root c" "ros_shape (ros_account c) = ros_shape c" "ss_consumed_slots (ros_account c) = ss_consumed_slots c"
  "oc_container (ros_account c) = oc_container c" "oc_retired (ros_account c) = oc_retired c" "oc_root (ros_account c) = oc_root c"
  by (simp_all add: ros_account_def Let_def ros_shape_def)

section \<open>Sectors and searches\<close>

lemma sector_below:
  assumes "store_base p cap P c" and "k < ss_slot_count c" and "i \<le> 17"
  shows "unat (ros_sector c k + i) < cap"
proof -
  have r: "unat (oc_root_count c) \<le> 32" "unat (ss_slot_count c) \<le> 5120" and cap: "unat (oc_root_count c) + unat (ss_slot_count c) * 18 \<le> cap"
    using assms(1) by (auto simp: store_base_def ros_shape_def word_le_nat_alt)
  have k: "unat k < unat (ss_slot_count c)" "unat i \<le> 17" using assms(2,3) by (simp_all add: word_less_nat_alt word_le_nat_alt)
  have "unat (k * 18) = unat k * 18" using k r by (simp add: unat_word_ariths)
  then have "unat (ros_sector c k + i) = unat (oc_root_count c) + unat k * 18 + unat i"
    using k r by (simp add: ros_sector_def unat_word_ariths)
  moreover have "unat k * 18 + 17 < unat (ss_slot_count c) * 18" using k(1) by simp
  ultimately show ?thesis using k(2) cap by linarith
qed

lemma root_below: "store_base p cap P c \<Longrightarrow> k < oc_root_count c \<Longrightarrow> unat k < cap"
  by (auto simp: store_base_def word_less_nat_alt)

lemma pages_bound:
  assumes "segment_fits c"
  shows "sg_pages (oc_segment c) \<le> ROS_DATA_PAGES" "unat (sg_container_bytes (oc_segment c)) \<le> ROS_CONTAINER_BYTES"
    "unat (sg_pages (oc_segment c)) = (unat (sg_container_bytes (oc_segment c)) + 2047) div 2048"
proof -
  let ?b = "es_plaintext_bytes (sg_identity (oc_segment c))"
  have b: "unat ?b \<le> 34148" and cb: "sg_container_bytes (oc_segment c) = ?b + 209"
    and pg: "sg_pages (oc_segment c) = (sg_container_bytes (oc_segment c) + 2047) div 2048"
    using assms by (auto simp: segment_fits_def Let_def word_le_nat_alt)
  then have u: "unat (sg_container_bytes (oc_segment c)) = unat ?b + 209" by (simp add: unat_word_ariths)
  then show "unat (sg_container_bytes (oc_segment c)) \<le> ROS_CONTAINER_BYTES" using b by simp
  show v: "unat (sg_pages (oc_segment c)) = (unat (sg_container_bytes (oc_segment c)) + 2047) div 2048"
    using u b unfolding pg by (simp add: unat_word_ariths unat_div)
  then show "sg_pages (oc_segment c) \<le> ROS_DATA_PAGES" using u b by (simp add: word_le_nat_alt)
qed

lemma payload_sector:
  assumes "store_base p cap P c" and "segment_fits c" and "oc_index c < sg_pages (oc_segment c)"
  shows "unat (ros_sector c (sg_slot (oc_segment c)) + 1 + oc_index c) < cap"
proof -
  have "unat (oc_index c) < 17" using assms(3) pages_bound(1) [OF assms(2)] by (simp add: word_less_nat_alt word_le_nat_alt)
  then have "1 + oc_index c \<le> 17" by (simp add: word_le_nat_alt unat_word_ariths)
  with sector_below [OF assms(1) _ this] assms(2) show ?thesis by (simp add: segment_fits_def Let_def add.assoc)
qed

lemma free_root_range:
  "free_root b n rs i free = Some r \<Longrightarrow> unat i + length rs < 2 ^ 32 \<Longrightarrow> r = free \<or> unat r < unat i + length rs"
proof (induction rs arbitrary: i free)
  case (Cons x xs)
  have "unat (i + 1) = unat i + 1" using Cons.prems(2) by (simp add: unat_word_ariths)
  then show ?case using Cons.prems Cons.IH [of "i + 1" free] Cons.IH [of "i + 1" i] by (auto split: if_splits)
qed simp

lemma first_free_range:
  "unat k + left < 2 ^ 32 \<Longrightarrow> unat (first_free c left k) \<le> unat k + left \<and>
     (unat (first_free c left k) < unat k + left \<longrightarrow> slot_state c (first_free c left k) = 0)"
proof (induction left arbitrary: k)
  case (Suc left)
  have "unat (k + 1) = unat k + 1" using Suc.prems by (simp add: unat_word_ariths)
  then show ?case using Suc.IH [of "k + 1"] Suc.prems by auto
qed simp

lemma index_step: "oc_index c < sg_pages (oc_segment c) \<Longrightarrow> oc_index c + 1 \<le> sg_pages (oc_segment c)"
  by (simp add: inc_le)

lemma index_less: "segment_fits c \<Longrightarrow> oc_index c \<noteq> sg_pages (oc_segment c) \<Longrightarrow> oc_index c < sg_pages (oc_segment c)"
  unfolding segment_fits_def Let_def by (elim conjE) (rule order_le_neq_trans)

end
