(* ===== verification/Store_Jobs.thy ===== *)
theory Store_Jobs
  imports Store_Inv
begin

text \<open>
  Every operation of the object store keeps its invariant, on any port that keeps a predicate on the environment.  The lemmas
  stand in the locale \<open>store_port\<close>, so one proof serves both a port about which nothing is known and the recording port of the
  commit protocol.
\<close>

section \<open>Starting a job\<close>

definition begun :: "ros_job \<Rightarrow> u64 \<Rightarrow> u64 \<Rightarrow> 'e \<Rightarrow> 'e ros_context \<Rightarrow> 'e ros_context" where
  "begun job deadline now e c = (ros_buffers c)\<lparr>oc_env := e, oc_last_now := now, oc_deadline := deadline, ss_job := job, ss_stage := 0,
     ss_ready := 0, ss_error := 0, oc_index := 0, oc_receipt := receipt_none, oc_final_receipt := final_none\<rparr>"

lemma begun_fields [simp]:
  "oc_used (begun j d t e c) = oc_used c" "ss_slot_count (begun j d t e c) = ss_slot_count c" "ss_consumed_slots (begun j d t e c) = ss_consumed_slots c"
  "oc_root_count (begun j d t e c) = oc_root_count c" "oc_port (begun j d t e c) = oc_port c" "oc_env (begun j d t e c) = e"
  "ss_job (begun j d t e c) = j" "ss_stage (begun j d t e c) = 0" "ss_ready (begun j d t e c) = 0" "ss_fault (begun j d t e c) = ss_fault c"
  "oc_records (begun j d t e c) = oc_records c" "oc_active_root (begun j d t e c) = oc_active_root c" "oc_index (begun j d t e c) = 0"
  "oc_retired (begun j d t e c) = oc_retired c" "ss_mounted (begun j d t e c) = ss_mounted c" "oc_hash (begun j d t e c) = oc_hash c"
  "oc_segment_limit (begun j d t e c) = oc_segment_limit c" "oc_container (begun j d t e c) = replicate ROS_CONTAINER_BYTES 0"
  "oc_volume (begun j d t e c) = oc_volume c" "oc_deadline (begun j d t e c) = d" "oc_last_now (begun j d t e c) = t"
  "oc_page (begun j d t e c) = replicate 2048 0" "oc_extent_profile (begun j d t e c) = oc_extent_profile c" "oc_slot (begun j d t e c) = oc_slot c"
  by (simp_all add: begun_def ros_buffers_def)

lemma begun_shape: "ros_shape c \<Longrightarrow> ros_shape (begun j d t e c)"
  by (simp add: ros_shape_def begun_def ros_buffers_def receipt_none_def)

definition begin_ran :: "('e \<Rightarrow> 'e \<Rightarrow> bool) \<Rightarrow> ros_job \<Rightarrow> u64 \<Rightarrow> 'e ros_context \<Rightarrow> int \<Rightarrow> 'e ros_context \<Rightarrow> bool" where
  "begin_ran E job deadline c rc c' \<longleftrightarrow>
     rc \<noteq> 0 \<and> (c' = c \<or> fenced E c c' \<or> ss_job c = ROS_NONE \<and> moved E c c') \<or>
     rc = ROS_OK \<and> ss_fault c = 0 \<and> ss_job c = ROS_NONE \<and> (\<exists>t e. E (oc_env c) e \<and> c' = begun job deadline t e c)"

context port_frame
begin

lemma begin_runs:
  assumes "oc_port c = p"
  shows "post (begin_ran E job deadline c) (ros_begin job deadline c)"
proof (cases "ss_fault c \<noteq> 0 \<or> ss_job c \<noteq> ROS_NONE")
  case True
  then show ?thesis by (auto simp: ros_begin_def post_def begin_ran_def)
next
  case False
  obtain now e where n: "the (ps_now_ms p) (oc_env c) = (now, e)" by (cases "the (ps_now_ms p) (oc_env c)")
  then have e: "E (oc_env c) e" using E_now [of "oc_env c"] by simp
  note m = moved_env [OF e]
  have b: "(ros_buffers (c\<lparr>oc_env := e\<rparr>))\<lparr>oc_last_now := now, oc_deadline := deadline, ss_job := job, ss_stage := 0, ss_ready := 0,
         ss_error := 0, oc_index := 0, oc_receipt := receipt_none, oc_final_receipt := final_none\<rparr> = begun job deadline now e c"
    by (simp add: begun_def ros_buffers_def)
  show ?thesis
    unfolding ros_begin_def assms n Let_def prod.case b using False m moved_fault [OF m] e
    by (auto intro!: post_if simp: post_def begin_ran_def)
qed

end

section \<open>Steps\<close>

context store_port
begin

abbreviation base :: "'e ros_context \<Rightarrow> bool" where "base \<equiv> store_base p cap P"
abbreviation ok :: "'e ros_context \<Rightarrow> bool" where "ok \<equiv> store_ok p cap P"
abbreviation stays :: "int \<times> 'e ros_context \<Rightarrow> bool" where "stays \<equiv> post (\<lambda>rc. ok)"

lemma base_port: "base c \<Longrightarrow> oc_port c = p"
  by (simp add: store_base_def)

lemma ok_port: "ok c \<Longrightarrow> oc_port c = p"
  by (simp add: store_ok_def store_base_def)

lemma ok_job: "ok c \<Longrightarrow> ss_fault c = 0 \<Longrightarrow> job_fits c"
  by (simp add: store_ok_def)

lemma stays_fault: "base c \<Longrightarrow> stays (ros_fault err c)"
  using ok_fenced [OF frame.fenced_fault] by (simp add: post_def)

lemma stays_fenced: "fenced E c c' \<Longrightarrow> base c \<Longrightarrow> stays (rc, c')"
  using ok_fenced by (auto simp: post_def)

lemma stays_fenced_fault: "fenced E c c' \<Longrightarrow> base c \<Longrightarrow> stays (ros_fault err c')"
  using ok_fenced [OF frame.fenced_again] by (auto simp: post_def)

lemma stays_ok: "ok c \<Longrightarrow> stays (rc, c)"
  by (simp add: post_def)

lemma ok_page: "length q = 2048 \<Longrightarrow> ok c \<Longrightarrow> ok (c\<lparr>oc_page := q\<rparr>)"
  by (rule ok_cong [of c]) (simp_all add: same_job_def ros_shape_def)

lemma base_page: "length q = 2048 \<Longrightarrow> base c \<Longrightarrow> base (c\<lparr>oc_page := q\<rparr>)"
  by (rule base_cong [of _ c]) (simp_all add: ros_shape_def)

lemma ok_shape: "ok c \<Longrightarrow> ros_shape c" "base c \<Longrightarrow> ros_shape c"
  by (simp_all add: store_ok_def store_base_def)

lemma ok_read: "moved E (c\<lparr>oc_page := blit 0 d (oc_page c)\<rparr>) s \<Longrightarrow> ok c \<Longrightarrow> ok s"
  by (rule ok_moved, assumption, rule ok_page) (use ok_shape(1) [of c] in \<open>simp_all add: ros_shape_def\<close>)

lemma stays_read:
  assumes "ok c" and "unat n < cap"
    and "\<And>d s. moved E (c\<lparr>oc_page := blit 0 d (oc_page c)\<rparr>) s \<Longrightarrow> ok s \<Longrightarrow> stays (f ROS_READ_OK s)"
    and "\<And>d s. moved E (c\<lparr>oc_page := blit 0 d (oc_page c)\<rparr>) s \<Longrightarrow> ok s \<Longrightarrow> stays (f ROS_READ_MISSING s)"
    and "\<And>s. fenced E c s \<Longrightarrow> stays (f ROS_FAILED s)"
  shows "stays (Let (ros_read_page n c) (case_prod f))"
  using assms ok_read by - (rule post_read [OF read_page_ran [OF ok_port [OF assms(1)] assms(2)]], blast+)

lemma stays_ready: "ok c \<Longrightarrow> (\<And>s. moved E c s \<Longrightarrow> ok (s\<lparr>ss_ready := 1\<rparr>)) \<Longrightarrow> stays (ros_ready c)"
  unfolding ros_ready_def
  by (rule post_ran [OF frame.guard_ran [OF ok_port]]) (auto intro: stays_fenced ok_base stays_ok)

lemma seal_catalog_ran:
  assumes "base c" and "length q = 2048"
  shows "post (\<lambda>rc s. rc = ROS_FAILED \<and> fenced E c s \<or> rc = ROS_OK \<and> (\<exists>d. moved E (c\<lparr>oc_catalog := blit 224 d q\<rparr>) s)) (catalog_seal q c)"
  using frame.catalog_seal_ran [OF base_port [OF assms(1)], of q] unfolding post_def by blast

lemma post_seal_catalog:
  assumes "base c" and "length q = 2048" and "\<And>s d. moved E (c\<lparr>oc_catalog := blit 224 d q\<rparr>) s \<Longrightarrow> post Q (f ROS_OK s)"
    and "\<And>s. fenced E c s \<Longrightarrow> post Q (f ROS_FAILED s)"
  shows "post Q (Let (catalog_seal q c) (case_prod f))"
proof -
  obtain rc s where r: "catalog_seal q c = (rc, s)" by (cases "catalog_seal q c")
  then show ?thesis using seal_catalog_ran [OF assms(1,2)] assms(3,4) unfolding r post_def by auto
qed

lemma ok_catalog: "length q = 2048 \<Longrightarrow> ok c \<Longrightarrow> ok (c\<lparr>oc_catalog := q\<rparr>)"
  by (rule ok_cong [of c]) (simp_all add: same_job_def ros_shape_def)

lemma base_catalog: "length q = 2048 \<Longrightarrow> base c \<Longrightarrow> base (c\<lparr>oc_catalog := q\<rparr>)"
  by (rule base_cong [of _ c]) (simp_all add: ros_shape_def)

lemma ok_container: "length q = ROS_CONTAINER_BYTES \<Longrightarrow> ok c \<Longrightarrow> ok (c\<lparr>oc_container := q\<rparr>)"
  by (rule ok_cong [of c]) (simp_all add: same_job_def ros_shape_def)

lemma length_root_fields [simp]: "length (root_fields k r c) = 2048"
  by (simp add: root_fields_def Let_def catalog_start_def encode_identity_def)

lemma length_segment_fields [simp]: "length (segment_fields k c) = 2048"
  by (simp add: segment_fields_def Let_def catalog_start_def encode_identity_def)

text \<open>Jobs on a root.\<close>

lemma ok_stage_root: "ok c \<Longrightarrow> ss_job c = ROS_RESERVE \<or> ss_job c = ROS_FINALIZE \<Longrightarrow> ok (c\<lparr>ss_stage := n\<rparr>)"
  using same_slots [of "c\<lparr>ss_stage := n\<rparr>" c] by (auto simp: store_ok_def store_base_def ros_shape_def job_fits_def)

lemma moved_job: "moved E c s \<Longrightarrow> ss_job s = ss_job c" "moved E c s \<Longrightarrow> ss_stage s = ss_stage c" "moved E c s \<Longrightarrow> ss_fault s = ss_fault c"
  "moved E c s \<Longrightarrow> oc_segment s = oc_segment c" "moved E c s \<Longrightarrow> oc_index s = oc_index c" "moved E c s \<Longrightarrow> oc_root s = oc_root c"
  "moved E c s \<Longrightarrow> ss_ready s = ss_ready c" "moved E c s \<Longrightarrow> oc_scan_slot s = oc_scan_slot c" "moved E c s \<Longrightarrow> oc_scan_root s = oc_scan_root c"
  "moved E c s \<Longrightarrow> oc_slot s = oc_slot c" "moved E c s \<Longrightarrow> oc_root_count s = oc_root_count c" "moved E c s \<Longrightarrow> ss_slot_count s = ss_slot_count c"
  by (auto elim!: movedE)

definition published :: "ros_record list \<Rightarrow> u32 \<Rightarrow> rp_final_receipt \<Rightarrow> u32 \<Rightarrow> 'e ros_context \<Rightarrow> 'e ros_context" where
  "published rs a f n s = s\<lparr>oc_records := rs, oc_active_root := a, oc_final_receipt := f, ss_ready := n\<rparr>"

lemma root_published:
  assumes "ok s" and "ss_job s = ROS_RESERVE \<or> ss_job s = ROS_FINALIZE" and "a \<le> oc_root_count s" and "length rs = 32"
  shows "ok (published rs a f n s)"
  using assms same_slots [of "published rs a f n s" s]
  by (auto simp: published_def store_ok_def store_base_def ros_shape_def job_fits_def)

lemma stays_published:
  assumes "ok s" and "ss_job s = ROS_RESERVE \<or> ss_job s = ROS_FINALIZE" and "a \<le> oc_root_count s" and "length rs = 32"
  shows "stays (ros_ready (published rs a f n s))"
proof (rule stays_ready [OF root_published [OF assms]])
  fix t assume "moved E (published rs a f n s) t"
  then obtain e k where "P (oc_env s) \<longrightarrow> P e" "t = (published rs a f n s)\<lparr>oc_env := e, oc_last_now := k\<rparr>"
    by (rule movedE) (simp add: published_def)
  then have "t\<lparr>ss_ready := 1\<rparr> = published rs a f 1 (s\<lparr>oc_env := e, oc_last_now := k\<rparr>)" "moved E s (s\<lparr>oc_env := e, oc_last_now := k\<rparr>)"
    by (auto simp: published_def intro!: movedI [where e = e and t = k])
  then show "ok (t\<lparr>ss_ready := 1\<rparr>)" using root_published [OF ok_moved [OF _ assms(1)]] assms by simp
qed

lemma root_step_stays:
  assumes "ok c" and "ss_fault c = 0" and j: "ss_job c = ROS_RESERVE \<or> ss_job c = ROS_FINALIZE"
  shows "stays (root_step c)"
proof -
  have r: "oc_root c < oc_root_count c" using ok_job [OF assms(1,2)] j by (auto simp: job_fits_def)
  note n = root_below [OF ok_base [OF assms(1)] r]
  have s: "stays (ROS_FAILED, s)" if "fenced E c s" for s using stays_fenced [OF that ok_base [OF assms(1)]] .
  have nx: "ok (stage_next s)" if "moved E c s" for s
    using ok_stage_root [OF ok_moved [OF that assms(1)]] moved_job(1) [OF that] j by (simp add: stage_next_def)
  have rd: "stays (if ROS_READ_OK \<noteq> ROS_READ_OK \<or> oc_page s \<noteq> oc_catalog s then ros_fault ROS_FAILED s
       else let s = s\<lparr>oc_records := (oc_records s)[unat (oc_root s) := oc_pending_record s]\<rparr> in
         if ss_job s = ROS_RESERVE then ros_ready (s\<lparr>oc_active_root := oc_root s\<rparr>)
         else ros_ready (s\<lparr>oc_active_root := oc_root_count s,
           oc_final_receipt := \<lparr>fr_completion = ro_completion (oc_pending_record s), fr_durable = 1\<rparr>\<rparr>))"
    if m: "moved E (c\<lparr>oc_page := blit 0 d (oc_page c)\<rparr>) s" and k: "ok s" for d s
  proof -
    have f: "ss_job s = ss_job c" "oc_root s = oc_root c" "oc_root_count s = oc_root_count c" using moved_job [OF m] by simp_all
    have l: "length (oc_records s) = 32" using ok_shape(1) [OF k] by (simp add: ros_shape_def)
    let ?rs = "(oc_records s)[unat (oc_root s) := oc_pending_record s]"
    have "stays (ros_ready (published ?rs (oc_root s) (oc_final_receipt s) (ss_ready s) s))"
      "stays (ros_ready (published ?rs (oc_root_count s) \<lparr>fr_completion = ro_completion (oc_pending_record s), fr_durable = 1\<rparr> (ss_ready s) s))"
      using stays_published [OF k] f j r l by simp_all
    then show ?thesis using stays_fault [OF ok_base [OF k]] by (simp add: published_def Let_def)
  qed
  show ?thesis
    unfolding root_step_def
    by (intro post_if, (rule post_ran [OF write_ran [OF ok_port [OF assms(1)] n]]; simp add: s nx stays_ok),
      (rule post_ran [OF sync_ran [OF ok_port [OF assms(1)]]]; simp add: s nx stays_ok),
      rule stays_read [OF assms(1) n], erule (1) rd; simp add: stays_fault ok_base stays_fenced_fault [OF _ ok_base [OF assms(1)]])
qed


lemma okI: "base s \<Longrightarrow> (ss_fault s = 0 \<Longrightarrow> job_fits s) \<Longrightarrow> ok s"
  by (simp add: store_ok_def)

lemma base_stage: "base (s\<lparr>ss_stage := n\<rparr>) = base s" "base (s\<lparr>oc_index := k\<rparr>) = base s" "base (s\<lparr>ss_ready := n\<rparr>) = base s"
  "base (s\<lparr>oc_scan_slot := n\<rparr>) = base s" "base (s\<lparr>ss_mounted := n\<rparr>) = base s" "base (s\<lparr>oc_scan_root := n\<rparr>) = base s"
  "base (s\<lparr>oc_segment := g\<rparr>) = base s" "base (s\<lparr>oc_slot := n\<rparr>) = base s" "base (s\<lparr>oc_root := n\<rparr>) = base s"
  "base (s\<lparr>oc_pending_record := r\<rparr>) = base s" "base (s\<lparr>ss_job := j\<rparr>) = base s" "base (s\<lparr>oc_retired := us\<rparr>) = base s"
  by (auto simp: store_base_def ros_shape_def slots_fit_def taken_def slot_state_def)

end

lemma slot_state_upd [simp]:
  "slot_state (s\<lparr>ss_stage := n\<rparr>) = slot_state s" "slot_state (s\<lparr>oc_index := n\<rparr>) = slot_state s" "slot_state (s\<lparr>ss_ready := n\<rparr>) = slot_state s"
  "slot_state (s\<lparr>oc_catalog := q\<rparr>) = slot_state s" "slot_state (s\<lparr>oc_page := q\<rparr>) = slot_state s" "slot_state (s\<lparr>oc_container := q\<rparr>) = slot_state s"
  "slot_state (s\<lparr>ss_consumed_slots := n\<rparr>) = slot_state s" "slot_state (s\<lparr>oc_records := rs\<rparr>) = slot_state s" "slot_state (s\<lparr>oc_receipt := r\<rparr>) = slot_state s"
  "slot_state (s\<lparr>oc_env := e\<rparr>) = slot_state s" "slot_state (s\<lparr>oc_last_now := t\<rparr>) = slot_state s" "slot_state (s\<lparr>oc_segment := g\<rparr>) = slot_state s"
  "slot_state (s\<lparr>oc_scan_slot := n\<rparr>) = slot_state s" "slot_state (s\<lparr>oc_scan_root := n\<rparr>) = slot_state s" "slot_state (s\<lparr>ss_mounted := n\<rparr>) = slot_state s"
  "slot_state (s\<lparr>ss_job := j\<rparr>) = slot_state s" "slot_state (s\<lparr>oc_gate := n\<rparr>) = slot_state s" "slot_state (ros_account s) = slot_state s"
  "slot_state (begun job d t e s) = slot_state s"
  by (rule slot_state_used, simp)+

lemma shape_upd [simp]:
  "ros_shape (s\<lparr>ss_consumed_slots := n\<rparr>) = ros_shape s" "ros_shape (s\<lparr>ss_stage := n\<rparr>) = ros_shape s" "ros_shape (s\<lparr>oc_index := n\<rparr>) = ros_shape s"
  "ros_shape (s\<lparr>ss_ready := n\<rparr>) = ros_shape s" "ros_shape (s\<lparr>oc_env := e\<rparr>) = ros_shape s" "ros_shape (s\<lparr>oc_last_now := t\<rparr>) = ros_shape s"
  "ros_shape (s\<lparr>oc_scan_slot := n\<rparr>) = ros_shape s" "ros_shape (s\<lparr>ss_mounted := n\<rparr>) = ros_shape s" "ros_shape (s\<lparr>oc_segment := g\<rparr>) = ros_shape s"
  by (simp_all add: ros_shape_def)

lemma segment_fits_upd [simp]:
  "segment_fits (s\<lparr>ss_stage := n\<rparr>) = segment_fits s" "segment_fits (s\<lparr>ss_ready := n\<rparr>) = segment_fits s" "segment_fits (s\<lparr>oc_catalog := q\<rparr>) = segment_fits s"
  "segment_fits (s\<lparr>oc_page := q\<rparr>) = segment_fits s" "segment_fits (s\<lparr>oc_container := q\<rparr>) = segment_fits s" "segment_fits (s\<lparr>oc_receipt := r\<rparr>) = segment_fits s"
  "segment_fits (s\<lparr>ss_consumed_slots := n\<rparr>) = segment_fits s" "segment_fits (s\<lparr>oc_records := rs\<rparr>) = segment_fits s" "segment_fits (ros_account s) = segment_fits s"
  "segment_fits (s\<lparr>oc_env := e\<rparr>) = segment_fits s" "segment_fits (s\<lparr>oc_last_now := t\<rparr>) = segment_fits s" "segment_fits (set_slot_state k x s) = segment_fits s"
  "segment_fits (s\<lparr>oc_scan_slot := n\<rparr>) = segment_fits s"
  by (simp_all add: segment_fits_def)

lemma segment_fits_index: "segment_fits s \<Longrightarrow> k \<le> sg_pages (oc_segment s) \<Longrightarrow> segment_fits (s\<lparr>oc_index := k\<rparr>)"
  by (simp add: segment_fits_def Let_def)

lemma job_fits_index: "job_fits s \<Longrightarrow> k \<le> sg_pages (oc_segment s) \<Longrightarrow> job_fits (s\<lparr>oc_index := k\<rparr>)"
  using segment_fits_index [of s k]
  by (auto simp: job_fits_def recover_fits_def segment_job_fits_def split: ros_job.splits if_splits)

context store_port
begin

lemma ok_index: "ok s \<Longrightarrow> k \<le> sg_pages (oc_segment s) \<Longrightarrow> ok (s\<lparr>oc_index := k\<rparr>)"
  by (simp add: store_ok_def base_stage job_fits_index)

lemma ok_segment: "ok c \<Longrightarrow> ss_fault c = 0 \<Longrightarrow> ss_job c = ROS_SEGMENT \<Longrightarrow> segment_job_fits c"
  by (auto simp: store_ok_def job_fits_def)

lemma seg_okI: "base s \<Longrightarrow> ss_job s = ROS_SEGMENT \<Longrightarrow> segment_job_fits s \<Longrightarrow> ok s"
  by (simp add: store_ok_def job_fits_def)

lemma read_container_stays:
  assumes "ok c" and "segment_fits c" and "oc_index c < sg_pages (oc_segment c)"
  shows "stays (read_container_page c)"
  unfolding read_container_page_def
proof (rule stays_read [OF assms(1) payload_sector [OF ok_base [OF assms(1)] assms(2,3)]])
  fix d s assume m: "moved E (c\<lparr>oc_page := blit 0 d (oc_page c)\<rparr>) s" and k: "ok s"
  have "oc_index s + 1 \<le> sg_pages (oc_segment s)" using index_step assms(3) moved_job [OF m] by simp
  then have "ok (s\<lparr>oc_container := blit n x (oc_container s), oc_index := oc_index s + 1\<rparr>)" for n x
    using ok_index [OF ok_container [OF _ k]] ok_shape(1) [OF k] by (simp add: ros_shape_def)
  then show "stays (if ROS_READ_OK \<noteq> ROS_READ_OK then ros_fault ROS_READ_OK s
     else let n = page_bytes s in
       if \<not> ros_fill (part n (2048 - n) (oc_page s)) 255 then ros_fault ROS_FAILED s
       else (ROS_PENDING, s\<lparr>oc_container := blit (unat (oc_index s) * 2048) (part 0 n (oc_page s)) (oc_container s),
         oc_index := oc_index s + 1\<rparr>))"
    using stays_fault [OF ok_base [OF k]] by (simp add: Let_def stays_ok)
qed (simp_all add: stays_fault ok_base stays_fenced_fault [OF _ ok_base [OF assms(1)]])

lemma container_valid_ran:
  assumes "oc_port c = p"
  shows "post (ran E c) (container_valid c)"
proof -
  obtain rc d s where h: "ros_hash (part 0 (unat (sg_container_bytes (oc_segment c))) (oc_container c)) (replicate 32 0) c = (rc, d, s)"
    by (cases "ros_hash (part 0 (unat (sg_container_bytes (oc_segment c))) (oc_container c)) (replicate 32 0) c")
  have r: "ran E c rc s" using frame.hash_ran [OF assms h] by simp
  have "post (ran E c) (ros_fault err s)" for err
    using r frame.ran_fault [of c s] frame.fenced_again [of c s] by (auto simp: ran_def post_def)
  then show ?thesis
    unfolding container_valid_def Let_def h prod.case
    using r frame.ran_fault [OF frame.moved_refl] by (auto intro!: post_if simp: post_def ran_def)
qed

text \<open>The segment job.\<close>

lemma stage_seg:
  assumes "ok s" and "ss_fault s = 0" and "ss_job s = ROS_SEGMENT" and "ss_ready s = 0" and "List.member job_stages n"
    and "List.member [3, 5, 6, 7, 8] n = List.member [3, 5, 6, 7, 8] (ss_stage s)"
  shows "ok (s\<lparr>ss_stage := n\<rparr>)"
  using ok_segment [OF assms(1-3)] assms by (intro seg_okI) (simp_all add: base_stage ok_base segment_job_fits_def)

lemma segment_intent_stays:
  assumes "ok c" and "ss_fault c = 0" and "ss_job c = ROS_SEGMENT" and "ss_stage c = 2" and "ss_ready c = 0"
  shows "stays (segment_intent c)"
proof -
  have j: "segment_fits c" "slot_state c (sg_slot (oc_segment c)) = 0"
    using ok_segment [OF assms(1-3)] assms(4,5) by (simp_all add: segment_job_fits_def)
  then have n: "sg_slot (oc_segment c) < ss_slot_count c" by (simp add: segment_fits_def Let_def)
  have sec: "unat (segment_sector c) < cap" using sector_below [OF ok_base [OF assms(1)] n, of 0] by (simp add: segment_sector_def)
  have rd: "stays (if ROS_READ_OK \<noteq> ROS_READ_OK \<or> oc_page s \<noteq> oc_catalog s then ros_fault ROS_FAILED s
     else let s = set_slot_state (sg_slot (oc_segment s)) SLOT_INTENT s;
              (rc, s) = catalog_segment SLOT_COMMIT (s\<lparr>ss_consumed_slots := ss_consumed_slots s + 1\<rparr>) in
       if rc \<noteq> 0 then (ROS_FAILED, s) else (ROS_PENDING, stage_next (s\<lparr>oc_index := 0\<rparr>)))"
    if m: "moved E (c\<lparr>oc_page := blit 0 d (oc_page c)\<rparr>) s" and k: "ok s" for d s
  proof -
    let ?k = "sg_slot (oc_segment s)"
    let ?t = "(set_slot_state ?k SLOT_INTENT s)\<lparr>ss_consumed_slots := ss_consumed_slots s + 1\<rparr>"
    have f: "oc_segment s = oc_segment c" "ss_job s = ROS_SEGMENT" "ss_stage s = 2" "ss_ready s = 0" "ss_fault s = 0" "ss_slot_count s = ss_slot_count c"
      using moved_job [OF m] assms by simp_all
    have js: "segment_fits s" "slot_state s ?k = 0" using ok_segment [OF k f(5,2)] f by (simp_all add: segment_job_fits_def)
    have b: "base ?t"
      using slots_set_new [of s ?k SLOT_INTENT] ok_base [OF k] n f js(2) by (simp add: store_base_def)
    have st: "slot_state ?t ?k = SLOT_INTENT"
      using slot_state_set [OF slot_small, of s ?k SLOT_INTENT ?k] ok_shape(1) [OF k] n f by simp
    have fin: "ok (stage_next (u\<lparr>oc_index := 0\<rparr>))" if "moved E (?t\<lparr>oc_catalog := blit 224 e q\<rparr>) u" and "length q = 2048" for u e q
    proof (rule seg_okI)
      have "base u" using base_moved [OF that(1) base_catalog [OF _ b]] that(2) by simp
      then show "base (stage_next (u\<lparr>oc_index := 0\<rparr>))" by (simp add: stage_next_def base_stage)
      have v: "segment_fits u" "ss_stage u = 2" "ss_ready u = 0" "slot_state u ?k = SLOT_INTENT" "oc_segment u = oc_segment s" "ss_job u = ROS_SEGMENT"
        using that(1) js(1) f st by (auto elim!: movedE)
      then show "ss_job (stage_next (u\<lparr>oc_index := 0\<rparr>)) = ROS_SEGMENT" by (simp add: stage_next_def)
      show "segment_job_fits (stage_next (u\<lparr>oc_index := 0\<rparr>))"
        using v segment_fits_index [OF v(1), of 0] by (simp add: stage_next_def segment_job_fits_def job_stages_def)
    qed
    have "stays (let (rc, s) = catalog_segment SLOT_COMMIT ?t in if rc \<noteq> 0 then (ROS_FAILED, s) else (ROS_PENDING, stage_next (s\<lparr>oc_index := 0\<rparr>)))"
      unfolding catalog_segment_def
      by (rule post_seal_catalog [OF b length_segment_fields]) (simp_all add: stays_fenced [OF _ b] stays_ok fin [OF _ length_segment_fields])
    then show ?thesis using stays_fault [OF ok_base [OF k]] by simp
  qed
  show ?thesis
    unfolding segment_intent_def
    by (rule stays_read [OF assms(1) sec], erule (1) rd)
      (simp_all add: stays_fault ok_base stays_fenced_fault [OF _ ok_base [OF assms(1)]])
qed


lemma segment_write_stays:
  assumes "ok c" and "ss_fault c = 0" and "ss_job c = ROS_SEGMENT" and "ss_stage c = 3" and "ss_ready c = 0"
  shows "stays (segment_write c)"
proof -
  have j: "segment_fits c" using ok_segment [OF assms(1-3)] by (simp add: segment_job_fits_def)
  let ?c = "c\<lparr>oc_page := payload_page c\<rparr>"
  have k: "ok ?c" using ok_page [OF _ assms(1), of "payload_page c"] by (simp add: payload_page_def)
  have "stays (let (rc, s) = ros_write_page (segment_sector ?c + 1 + oc_index ?c) (oc_page ?c) ?c in
       if rc \<noteq> 0 then (ROS_FAILED, s) else (ROS_PENDING, index_next s))" if "oc_index c \<noteq> sg_pages (oc_segment c)"
  proof -
    have i: "oc_index c < sg_pages (oc_segment c)" using index_less [OF j that] .
    have n: "unat (segment_sector ?c + 1 + oc_index ?c) < cap"
      using payload_sector [OF ok_base [OF k]] j i by (simp add: segment_sector_def)
    have "ok (index_next s)" if "moved E ?c s" for s
      using ok_index [OF ok_moved [OF that k]] index_step [OF i] moved_job [OF that] by (simp add: index_next_def)
    then show ?thesis
      by - (rule post_ran [OF write_ran [OF ok_port [OF k] n]], simp_all add: stays_fenced [OF _ ok_base [OF k]] stays_ok)
  qed
  moreover have "ok (c\<lparr>ss_stage := 6\<rparr>)" by (rule stage_seg [OF assms(1,2,3,5)]) (simp_all add: job_stages_def assms(4))
  ultimately show ?thesis unfolding segment_write_def Let_def by (auto intro: stays_ok)
qed

lemma segment_verify_stays:
  assumes "ok c" and "ss_fault c = 0" and "ss_job c = ROS_SEGMENT" and "ss_stage c = 5" and "ss_ready c = 0"
  shows "stays (segment_verify c)"
proof -
  have j: "segment_fits c" using ok_segment [OF assms(1-3)] by (simp add: segment_job_fits_def)
  have "stays (let (rc, s) = ros_read_page (segment_sector c + 1 + oc_index c) c in
       if rc \<noteq> ROS_READ_OK then ros_fault ROS_FAILED s else if payload_differs s then ros_fault ROS_FAILED s else (ROS_PENDING, index_next s))"
    if "oc_index c \<noteq> sg_pages (oc_segment c)"
  proof -
    have i: "oc_index c < sg_pages (oc_segment c)" using index_less [OF j that] .
    have n: "unat (segment_sector c + 1 + oc_index c) < cap"
      using payload_sector [OF ok_base [OF assms(1)] j i] by (simp add: segment_sector_def)
    have "ok (index_next s)" if "moved E (c\<lparr>oc_page := blit 0 d (oc_page c)\<rparr>) s" "ok s" for s d
      using ok_index [OF that(2)] index_step [OF i] moved_job [OF that(1)] by (simp add: index_next_def)
    then show ?thesis
      by - (rule stays_read [OF assms(1) n],
        auto intro!: post_if stays_ok simp: stays_fault ok_base stays_fenced_fault [OF _ ok_base [OF assms(1)]])
  qed
  moreover have "ok (c\<lparr>ss_stage := 8\<rparr>)" by (rule stage_seg [OF assms(1,2,3,5)]) (simp_all add: job_stages_def assms(4))
  ultimately show ?thesis unfolding segment_verify_def by (auto intro: stays_ok)
qed

lemma segment_commit_stays:
  assumes "ok c" and "ss_fault c = 0" and "ss_job c = ROS_SEGMENT" and "ss_stage c = 8" and "ss_ready c = 0"
  shows "stays (segment_commit c)"
proof -
  have j: "segment_fits c" "slot_state c (sg_slot (oc_segment c)) = SLOT_INTENT"
    using ok_segment [OF assms(1-3)] assms(4,5) by (simp_all add: segment_job_fits_def)
  then have n: "sg_slot (oc_segment c) < ss_slot_count c" by (simp add: segment_fits_def Let_def)
  have sec: "unat (segment_sector c) < cap" using sector_below [OF ok_base [OF assms(1)] n, of 0] by (simp add: segment_sector_def)
  have rd: "stays (if ROS_READ_OK \<noteq> ROS_READ_OK \<or> oc_page s \<noteq> oc_catalog s then ros_fault ROS_FAILED s
     else let s = ros_account (set_slot_state (sg_slot (oc_segment s)) SLOT_COMMIT s) in
       ros_ready (s\<lparr>oc_receipt := \<lparr>sr_durable = 1, sr_es_header = part 0 128 (oc_container s)\<rparr>\<rparr>))"
    if m: "moved E (c\<lparr>oc_page := blit 0 d (oc_page c)\<rparr>) s" and k: "ok s" for d s
  proof -
    let ?k = "sg_slot (oc_segment s)"
    define t where "t = (ros_account (set_slot_state ?k SLOT_COMMIT s))\<lparr>oc_receipt := \<lparr>sr_durable = 1, sr_es_header = part 0 128 (oc_container s)\<rparr>\<rparr>"
    have f: "oc_segment s = oc_segment c" "ss_job s = ROS_SEGMENT" "ss_stage s = 8" "ss_ready s = 0" "ss_fault s = 0" "ss_slot_count s = ss_slot_count c"
      using moved_job [OF m] assms by simp_all
    have js: "segment_fits s" "slot_state s ?k = SLOT_INTENT" using ok_segment [OF k f(5,2)] f by (simp_all add: segment_job_fits_def)
    have sh: "ros_shape t" using ok_shape(1) [OF k] by (simp add: t_def) (simp add: ros_shape_def set_slot_state_def ros_account_def Let_def)
    have "slots_fit t"
      using slots_set_old [of s ?k SLOT_COMMIT] ok_base [OF k] n f js(2) same_slots [of t "set_slot_state ?k SLOT_COMMIT s"]
      by (simp add: t_def store_base_def)
    then have b: "base t" using sh ok_base [OF k] by (simp add: t_def store_base_def)
    have st: "slot_state t ?k = SLOT_COMMIT"
      using slot_state_set [OF slot_small, of s ?k SLOT_COMMIT ?k] ok_shape(1) [OF k] n f by (simp add: t_def)
    have g: "segment_fits t" "ss_stage t = 8" "ss_job t = ROS_SEGMENT" "oc_segment t = oc_segment s" using js(1) f by (simp_all add: t_def)
    have fin: "ok (u\<lparr>ss_ready := 1\<rparr>)" if "moved E t u" for u
    proof (rule seg_okI)
      show "base (u\<lparr>ss_ready := 1\<rparr>)" using base_moved [OF that b] by (simp add: base_stage)
      show "ss_job (u\<lparr>ss_ready := 1\<rparr>) = ROS_SEGMENT" using moved_job(1) [OF that] g by simp
      show "segment_job_fits (u\<lparr>ss_ready := 1\<rparr>)"
        using that g st by (auto elim!: movedE simp: segment_job_fits_def job_stages_def)
    qed
    have "stays (ros_ready t)"
      unfolding ros_ready_def
      by (rule post_ran [OF frame.guard_ran [OF base_port [OF b]]]) (auto intro: stays_fenced [OF _ b] stays_ok fin)
    then show ?thesis using stays_fault [OF ok_base [OF k]] by (simp add: t_def)
  qed
  show ?thesis
    unfolding segment_commit_def
    by (rule stays_read [OF assms(1) sec], erule (1) rd)
      (simp_all add: stays_fault ok_base stays_fenced_fault [OF _ ok_base [OF assms(1)]])
qed


lemma ok_digested: "ok c \<Longrightarrow> ok (digested d c)"
  by (rule ok_cong [of c]) (simp_all add: same_job_def digested_def ros_shape_def)

lemma length_catalog_image [simp]: "length (catalog_image q c) = length q"
  by (simp add: catalog_image_def)

lemma seal_stays:
  assumes "ok c"
  shows "post (\<lambda>rc s. ok s \<and> (rc = ROS_PENDING \<longrightarrow> ss_fault s = ss_fault c \<and> ss_job s = ss_job c \<and> ss_stage s = ss_stage c \<and> ss_ready s = ss_ready c))
    (seal_prepared plain n c)"
proof (rule post_mono [OF frame.seal_prepared_ran [OF ok_port [OF assms]]])
  fix rc s assume "seal_ran E n c rc s"
  then consider d where "rc = ROS_FAILED" "fenced E (digested d c) s" | k where "rc = ROS_PENDING" "sealed_as E n c k s"
    unfolding seal_ran_def by blast
  then show "ok s \<and> (rc = ROS_PENDING \<longrightarrow> ss_fault s = ss_fault c \<and> ss_job s = ss_job c \<and> ss_stage s = ss_stage c \<and> ss_ready s = ss_ready c)"
  proof cases
    case 1
    then show ?thesis using ok_fenced [OF 1(2) ok_base [OF ok_digested [OF assms]]] by simp
  next
    case 2
    define t where "t = digested (hashed c (part 0 (n + 209) k) (sg_digest (oc_segment c))) (c\<lparr>oc_container := k\<rparr>)"
    have "length k = ROS_CONTAINER_BYTES" and m: "moved E (t\<lparr>oc_catalog := catalog_image (segment_fields SLOT_INTENT t) c\<rparr>) s"
      using 2(2) ok_shape(1) [OF assms] by (simp_all add: sealed_as_def Let_def t_def ros_shape_def)
    then have "ok (t\<lparr>oc_catalog := catalog_image (segment_fields SLOT_INTENT t) c\<rparr>)"
      using ok_catalog [OF _ ok_digested [OF ok_container [OF _ assms]]] by (simp add: t_def)
    then show ?thesis using ok_moved [OF m] moved_job [OF m] by (simp add: t_def digested_def)
  qed
qed

lemma segment_step_stays:
  assumes k: "ok c" and f: "ss_fault c = 0" and j: "ss_job c = ROS_SEGMENT" and r: "ss_ready c = 0"
  shows "stays (segment_step c)"
proof -
  have sj: "segment_job_fits c" using ok_segment [OF k f j] .
  then have n: "sg_slot (oc_segment c) < ss_slot_count c" by (simp add: segment_job_fits_def segment_fits_def Let_def)
  have sec: "unat (segment_sector c) < cap" using sector_below [OF ok_base [OF k] n, of 0] by (simp add: segment_sector_def)
  have fen: "stays (ROS_FAILED, s)" if "fenced E c s" for s using stays_fenced [OF that ok_base [OF k]] .
  have go: "ok (s\<lparr>ss_stage := x\<rparr>)" if "moved E c s" "List.member job_stages x" "List.member [3, 5, 6, 7, 8] x = List.member [3, 5, 6, 7, 8] (ss_stage c)" for s x
    using stage_seg [OF ok_moved [OF that(1) k]] moved_job [OF that(1)] that f j r by simp
  have w: "stays (let (rc, c) = ros_write_page (segment_sector c) (oc_catalog c) c in if rc \<noteq> 0 then (ROS_FAILED, c) else (ROS_PENDING, stage_next c))"
    if "ss_stage c = 0 \<or> ss_stage c = 6"
    by (rule post_ran [OF write_ran [OF ok_port [OF k] sec]])
      (use fen go that moved_job in \<open>auto simp: stage_next_def job_stages_def intro!: stays_ok\<close>)
  have y: "stays (let (rc, c) = ros_sync_map c in if rc \<noteq> 0 then (ROS_FAILED, c) else (ROS_PENDING, stage_next c))" if "ss_stage c = 1"
    by (rule post_ran [OF sync_ran [OF ok_port [OF k]]])
      (use fen go that moved_job in \<open>auto simp: stage_next_def job_stages_def intro!: stays_ok\<close>)
  have z: "stays (let (rc, c) = ros_sync_map c in if rc \<noteq> 0 then (ROS_FAILED, c) else (ROS_PENDING, c\<lparr>oc_index := 0, ss_stage := 5\<rparr>))"
    if "ss_stage c = 7"
  proof (rule post_ran [OF sync_ran [OF ok_port [OF k]]])
    fix s assume "moved E c s"
    then have a: "ok (s\<lparr>ss_stage := 5, oc_index := 0\<rparr>)" using ok_index [OF go [of s 5], of 0] that by (simp add: job_stages_def)
    have "s\<lparr>oc_index := 0, ss_stage := 5\<rparr> = s\<lparr>ss_stage := 5, oc_index := 0\<rparr>" by simp
    then have "ok (s\<lparr>oc_index := 0, ss_stage := 5\<rparr>)" by (rule ssubst) (rule a)
    then show "stays (if ROS_OK \<noteq> 0 then (ROS_FAILED, s) else (ROS_PENDING, s\<lparr>oc_index := 0, ss_stage := 5\<rparr>))" by (simp add: stays_ok)
  qed (simp add: fen)
  have q: "stays (let (rc, s) = seal_prepared x n c in (rc, if rc = ROS_PENDING then s\<lparr>ss_stage := 0\<rparr> else s))" if "ss_stage c = 9" for x n
    by (rule post_call [OF seal_stays [OF k]])
      (use that f j r in \<open>auto simp: job_stages_def intro!: stays_ok stage_seg\<close>)
  have st: "ss_stage c = 8" if "ss_stage c \<noteq> 9" "ss_stage c \<noteq> 0" "ss_stage c \<noteq> 6" "ss_stage c \<noteq> 1" "ss_stage c \<noteq> 2" "ss_stage c \<noteq> 3" "ss_stage c \<noteq> 5" "ss_stage c \<noteq> 7"
    using that sj by (auto simp: segment_job_fits_def job_stages_def)
  show ?thesis
    unfolding segment_step_def Let_def [of "ss_stage c"] Let_def [of "unat _"]
    by (intro post_if; (rule q | rule w | rule y | rule z | rule segment_intent_stays [OF k f j _ r] | rule segment_write_stays [OF k f j _ r] |
          rule segment_verify_stays [OF k f j _ r] | rule segment_commit_stays [OF k f j _ r]); (assumption | rule st; simp))
qed


end

section \<open>Parsing catalogue pages\<close>

definition segment_shaped :: "u32 \<Rightarrow> 'e ros_context \<Rightarrow> ros_segment \<Rightarrow> bool" where
  "segment_shaped slot c g \<longleftrightarrow> sg_slot g = slot \<and> sg_root g < oc_root_count c \<and> es_plaintext_bytes (sg_identity g) \<le> 34148 \<and>
     sg_container_bytes g = es_plaintext_bytes (sg_identity g) + 209 \<and> sg_pages g = (sg_container_bytes g + 2047) div 2048 \<and>
     ro_present (oc_records c ! unat (sg_root g)) \<noteq> 0 \<and> \<not> ros_retired c (es_recording_id (sg_identity g)) \<and>
     identity_equal (sg_identity g) (ro_identity (oc_records c ! unat (sg_root g)))"

definition parse_ran :: "('e \<Rightarrow> 'e \<Rightarrow> bool) \<Rightarrow> u32 \<Rightarrow> 'e ros_context \<Rightarrow> int \<Rightarrow> u32 \<Rightarrow> 'e ros_context \<Rightarrow> bool" where
  "parse_ran E slot c rc kind s \<longleftrightarrow> rc = ROS_FAILED \<and> fenced E c s \<or> rc = ROS_OK \<and> kind = SLOT_RETIRED \<and> moved E c s \<or>
     rc = ROS_OK \<and> (kind = SLOT_INTENT \<or> kind = SLOT_COMMIT) \<and> (\<exists>g. segment_shaped slot c g \<and> moved E (c\<lparr>oc_segment := g\<rparr>) s)"

context port_frame
begin

lemma catalog_check_ran:
  assumes "oc_port c = p" and "catalog_check w c = (rc, kind, b, s)"
  shows "rc = ROS_FAILED \<and> fenced E c s \<or> rc = ROS_OK \<and> moved E c s \<and> kind = ucast (get16 10 (oc_page c)) \<and> b = decode_identity (oc_page c) \<and>
     volume_equal b (oc_volume c) \<and> ros_id (es_recording_id b)"
proof -
  obtain hr d t where h: "ros_hash (part 0 224 (oc_page c)) (replicate 32 0) c = (hr, d, t)"
    by (cases "ros_hash (part 0 224 (oc_page c)) (replicate 32 0) c")
  have r: "ran E c hr t" using hash_ran [OF assms(1) h] by simp
  have "hr = ROS_FAILED \<and> fenced E c t \<or> hr = ROS_OK \<and> moved E c t \<and> oc_volume t = oc_volume c \<and> (\<forall>err. fenced E c (snd (ros_fault err t)))"
    using r moved_fault moved_fields(3) [of E c t] unfolding ran_def by blast
  then show ?thesis
    using assms(2) fenced_fault [of c ROS_FAILED]
    by (auto simp: catalog_check_def Let_def h prod.case_eq_if split: if_splits)
qed

lemma parse_segment_ran:
  assumes "oc_port c = p" and "parse_segment slot c = (rc, kind, s)"
  shows "parse_ran E slot c rc kind s"
proof -
  obtain cr k b t where cc: "catalog_check (ros_sector c slot) c = (cr, k, b, t)" by (cases "catalog_check (ros_sector c slot) c") auto
  let ?p = "oc_page c" and ?r = "\<lambda>t. oc_records t ! unat (get32 16 (oc_page c))"
  show ?thesis
  proof (cases "cr = 0")
    case False
    then have "cr = ROS_FAILED \<and> fenced E c t" using catalog_check_ran [OF assms(1) cc] by auto
    then show ?thesis using assms(2) cc by (auto simp: parse_segment_def parse_ran_def)
  next
    case True
    then have m: "moved E c t" using catalog_check_ran [OF assms(1) cc] by auto
    note v = moved_fields(4-7) [OF this]
    have ret: "ros_retired t = ros_retired c" by (simp add: ros_retired_def v fun_eq_iff)
    note u = assms(2) [unfolded parse_segment_def cc Let_def prod.case]
    consider "rc = ROS_FAILED" "s = snd (ros_fault ROS_FAILED t)" | "rc = ROS_OK" "kind = SLOT_RETIRED" "s = t"
      | "rc = ROS_OK" "kind = k" "\<not> segment_bad k b ?p t" "\<not> ros_retired c (es_recording_id b)" "ro_present (?r c) \<noteq> 0"
        "identity_equal b (ro_identity (?r c))" "s = t\<lparr>oc_segment := parsed_segment slot b ?p\<rparr>"
      using u True unfolding ret v by (auto simp: prod.case_eq_if split: if_splits)
    then show ?thesis
    proof cases
      case 1
      then show ?thesis using moved_fault [OF m] by (simp add: parse_ran_def)
    next
      case 2
      then show ?thesis using m by (simp add: parse_ran_def)
    next
      case 3
      let ?g = "parsed_segment slot b ?p"
      have "segment_shaped slot c ?g"
        using 3 v by (auto simp: segment_shaped_def segment_bad_def parsed_segment_def)
      moreover have "kind = SLOT_INTENT \<or> kind = SLOT_COMMIT" using 3(2,3) by (auto simp: segment_bad_def)
      moreover have "moved E (c\<lparr>oc_segment := ?g\<rparr>) s"
        using moved_segment [OF m] 3(7) by simp
      ultimately show ?thesis using 3(1) by (auto simp: parse_ran_def)
    qed
  qed
qed


lemma parse_root_ran:
  assumes "oc_port c = p"
  shows "post (\<lambda>rc s. rc = ROS_FAILED \<and> (\<exists>r. fenced E (c\<lparr>oc_records := (oc_records c)[unat root := r]\<rparr>) s) \<or>
     rc = ROS_OK \<and> (\<exists>r. (ro_present r \<noteq> 0 \<longrightarrow> \<not> ros_retired c (es_recording_id (ro_identity r))) \<and>
       moved E (c\<lparr>oc_records := (oc_records c)[unat root := r]\<rparr>) s)) (parse_root root c)" (is "post ?Q _")
proof -
  obtain cr k b t where cc: "catalog_check root c = (cr, k, b, t)" by (cases "catalog_check root c") auto
  have same: "c\<lparr>oc_records := (oc_records c)[unat root := oc_records c ! unat root]\<rparr> = c" by simp
  have fail: "?Q ROS_FAILED s" if "fenced E c s" for s using that same by metis
  show ?thesis
  proof (cases "cr = 0")
    case False
    then have "fenced E c t" using catalog_check_ran [OF assms(1) cc] by auto
    then show ?thesis using False fail by (simp add: parse_root_def cc post_def)
  next
    case True
    then have m: "moved E c t" using catalog_check_ran [OF assms(1) cc] by auto
    note v = moved_fields [OF m]
    have mr: "moved E (c\<lparr>oc_records := (oc_records c)[unat root := r]\<rparr>) (t\<lparr>oc_records := (oc_records t)[unat root := r]\<rparr>)" for r
      using moved_records [OF m] v by simp
    have f0: "post ?Q (ros_fault err t)" for err
      unfolding post_def fst_fault by (rule fail [OF moved_fault [OF m]])
    have f1: "post ?Q (ros_fault err (t\<lparr>oc_records := (oc_records t)[unat root := r]\<rparr>))" for err r
      unfolding post_def fst_fault using moved_fault [OF mr] by blast
    have ret: "ros_retired t = ros_retired c" by (simp add: ros_retired_def v fun_eq_iff)
    have good: "post ?Q (ROS_OK, t\<lparr>oc_records := (oc_records t)[unat root := r]\<rparr>)"
      if "ro_present r \<noteq> 0 \<longrightarrow> \<not> ros_retired c (es_recording_id (ro_identity r))" for r
      using mr that by (intro post_return) blast
    show ?thesis
      unfolding parse_root_def cc Let_def prod.case ret True
      by (intro post_if; (rule f0 | rule f1 | rule good | simp); simp add: ros_record_zero_def root_record_def)
  qed
qed

end

context store_port
begin

lemma load_step_stays:
  assumes k: "ok c" and f: "ss_fault c = 0" and j: "ss_job c = ROS_LOAD \<or> ss_job c = ROS_META"
  shows "stays (load_step c)"
proof -
  have jf: "oc_slot c < ss_slot_count c" "ss_stage c \<noteq> 0 \<longrightarrow> segment_fits c" using ok_job [OF k f] j by (auto simp: job_fits_def)
  have rdy: "stays (ros_ready s)" if "ok s" "ss_job s = ROS_LOAD \<or> ss_job s = ROS_META" for s
  proof (rule stays_ready [OF that(1)])
    fix t assume "moved E s t"
    from ok_moved [OF this that(1)] moved_job [OF this] that(2) show "ok (t\<lparr>ss_ready := 1\<rparr>)"
      by (auto simp: store_ok_def base_stage job_fits_def)
  qed
  have rd: "stays (if ROS_READ_OK \<noteq> ROS_READ_OK then ros_fault ROS_FAILED s
       else let (rc, kind, s) = parse_segment (oc_slot s) s in
         if rc \<noteq> 0 \<or> kind \<noteq> SLOT_COMMIT then ros_fault ROS_FAILED s
         else let s = s\<lparr>oc_index := 0, ss_stage := 1\<rparr> in if ss_job s = ROS_META then ros_ready s else (ROS_PENDING, s))"
    if m: "moved E (c\<lparr>oc_page := blit 0 d (oc_page c)\<rparr>) s" and ks: "ok s" for d s
  proof -
    have v: "ss_job s = ss_job c" "oc_slot s < ss_slot_count s" "ss_fault s = 0" using moved_job [OF m] jf f by simp_all
    obtain rc kind t where ps: "parse_segment (oc_slot s) s = (rc, kind, t)" by (cases "parse_segment (oc_slot s) s")
    note pr = frame.parse_segment_ran [OF ok_port [OF ks] ps]
    have "stays (ros_fault ROS_FAILED t)" if "rc \<noteq> 0 \<or> kind \<noteq> SLOT_COMMIT"
    proof -
      have "fenced E s (snd (ros_fault ROS_FAILED t)) \<or> (\<exists>g. fenced E (s\<lparr>oc_segment := g\<rparr>) (snd (ros_fault ROS_FAILED t)))"
        using pr frame.fenced_again frame.moved_fault unfolding parse_ran_def by blast
      then have "ok (snd (ros_fault ROS_FAILED t))"
        by (elim disjE exE) (erule ok_fenced, simp add: ok_base [OF ks] base_stage)+
      then show ?thesis by (simp add: post_def)
    qed
    moreover have "ok (t\<lparr>oc_index := 0, ss_stage := 1\<rparr>) \<and> ss_job t = ss_job c" if good: "\<not> (rc \<noteq> 0 \<or> kind \<noteq> SLOT_COMMIT)"
    proof -
      obtain g where g: "segment_shaped (oc_slot s) s g" and mt: "moved E (s\<lparr>oc_segment := g\<rparr>) t" using pr good by (auto simp: parse_ran_def)
      have "base t" using base_moved [OF mt] ok_base [OF ks] by (simp add: base_stage)
      moreover have "oc_segment t = g" "oc_slot t = oc_slot s" "ss_slot_count t = ss_slot_count s" "ss_job t = ss_job s" "oc_root_count t = oc_root_count s"
        using moved_job [OF mt] by simp_all
      ultimately show ?thesis
        using g v j by (auto simp: store_ok_def base_stage job_fits_def segment_fits_def segment_shaped_def Let_def)
    qed
    ultimately show ?thesis unfolding ps Let_def prod.case using rdy j by (auto intro!: post_if stays_ok)
  qed
  have sec: "unat (ros_sector c (oc_slot c)) < cap" using sector_below [OF ok_base [OF k] jf(1), of 0] by simp
  have cv: "stays (let (rc, s) = container_valid c in if rc \<noteq> 0 then (ROS_FAILED, s) else ros_ready s)"
    by (rule post_ran [OF container_valid_ran [OF ok_port [OF k]]])
      (use rdy j ok_moved [OF _ k] moved_job(1) stays_fenced [OF _ ok_base [OF k]] in auto)
  have s0: "stays (let (rc, s) = ros_read_page (ros_sector c (oc_slot c)) c in
       if rc \<noteq> ROS_READ_OK then ros_fault ROS_FAILED s
       else let (rc, kind, s) = parse_segment (oc_slot s) s in
         if rc \<noteq> 0 \<or> kind \<noteq> SLOT_COMMIT then ros_fault ROS_FAILED s
         else let s = s\<lparr>oc_index := 0, ss_stage := 1\<rparr> in if ss_job s = ROS_META then ros_ready s else (ROS_PENDING, s))"
    by (rule stays_read [OF k sec], erule (1) rd) (simp_all add: stays_fault ok_base stays_fenced_fault [OF _ ok_base [OF k]])
  show ?thesis
    unfolding load_step_def using s0 cv jf(2) read_container_stays [OF k] by (auto intro!: post_if)
qed

end

end
