(* ===== verification/Store_Bodies.thy ===== *)
theory Store_Bodies
  imports Store_Jobs
begin

text \<open>
  The recovery job and the entry points of the object store keep its invariant, and so does every sequence of calls.  The locale
  \<open>store_keeps\<close> is the contract between the entry points and a property of the context: once each body is known to keep
  the property, every sequence of calls does.
\<close>

section \<open>Recovery\<close>

lemma slot_state_zero: "oc_used c = replicate n 0 \<Longrightarrow> unat k div 2 < n \<Longrightarrow> slot_state c k = 0"
  by (simp add: slot_state_def)

definition marked :: "u32 \<Rightarrow> 'e ros_context \<Rightarrow> 'e ros_context" where
  "marked kind s = (set_slot_state (oc_scan_slot s) kind s)\<lparr>ss_consumed_slots := ss_consumed_slots s + 1\<rparr>"

lemma recover_found_eq:
  "recover_found kind s = (let t = marked kind s; root = unat (sg_root (oc_segment t)) in
     if kind = SLOT_INTENT then (ROS_PENDING, scan_next (t\<lparr>oc_records := (oc_records t)[root := (oc_records t ! root)\<lparr>ro_blocked := 1, ro_interrupted := 1\<rparr>]\<rparr>))
     else if oc_extent_profile t \<noteq> 0 then (ROS_PENDING, scan_next (ros_account t)) else (ROS_PENDING, t\<lparr>oc_index := 0, ss_stage := 11\<rparr>))"
  by (simp add: recover_found_def Let_def marked_def)

context store_port
begin

lemma base_records: "length rs = 32 \<Longrightarrow> base c \<Longrightarrow> base (c\<lparr>oc_records := rs\<rparr>)"
  by (rule base_cong [of _ c]) (simp_all add: ros_shape_def)

lemma ok_records: "length rs = 32 \<Longrightarrow> ok c \<Longrightarrow> ok (c\<lparr>oc_records := rs\<rparr>)"
  by (rule ok_cong [of c]) (simp_all add: same_job_def ros_shape_def)

lemma rec_okI: "base s \<Longrightarrow> ss_job s = ROS_RECOVER \<Longrightarrow> recover_fits s \<Longrightarrow> ok s"
  by (simp add: store_ok_def job_fits_def)

lemma rec_ready: "base s \<Longrightarrow> ss_job s = ROS_RECOVER \<Longrightarrow> ss_ready s \<noteq> 0 \<Longrightarrow> ok s"
  by (simp add: store_ok_def job_fits_def)

lemma recover_roots_stays:
  assumes k: "ok c" and f: "ss_fault c = 0" and j: "ss_job c = ROS_RECOVER" and r: "ss_ready c = 0" and st: "ss_stage c = 0"
  shows "stays (recover_roots c)"
proof -
  have fit: "recover_fits c" using ok_job [OF k f] j r by (simp add: job_fits_def)
  have next': "ok (s\<lparr>oc_scan_root := oc_scan_root s + 1\<rparr>)" if "ok s" "ss_fault s = 0" "ss_job s = ROS_RECOVER" "ss_ready s = 0" "ss_stage s = 0"
    "oc_scan_root s < oc_root_count s" for s
    using that inc_le [OF that(6)] by (intro rec_okI) (auto simp: base_stage ok_base store_ok_def job_fits_def recover_fits_def)
  have rd: "stays (if rc < 0 then (rc, s) else let (prc, s) = (if rc = ROS_READ_OK then parse_root (oc_scan_root s) s else (ROS_OK, s)) in
         if prc \<noteq> 0 then (ROS_FAILED, s) else (ROS_PENDING, s\<lparr>oc_scan_root := oc_scan_root s + 1\<rparr>))"
    if m: "moved E (c\<lparr>oc_page := blit 0 d (oc_page c)\<rparr>) s" and ks: "ok s" and rc: "rc = ROS_READ_OK \<or> rc = ROS_READ_MISSING"
      and lt: "oc_scan_root c < oc_root_count c" for d s rc
  proof -
    have v: "ss_fault s = 0" "ss_job s = ROS_RECOVER" "ss_ready s = 0" "ss_stage s = 0" "oc_scan_root s < oc_root_count s"
      using moved_job [OF m] f j r st lt by simp_all
    have l: "length ((oc_records s)[i := x]) = 32" for i x using ok_shape(1) [OF ks] by (simp add: ros_shape_def)
    have "stays (let (prc, s) = parse_root (oc_scan_root s) s in
         if prc \<noteq> 0 then (ROS_FAILED, s) else (ROS_PENDING, s\<lparr>oc_scan_root := oc_scan_root s + 1\<rparr>))"
    proof (rule post_call [OF frame.parse_root_ran [OF ok_port [OF ks]]], elim disjE conjE exE)
      fix prc t x assume "prc = ROS_FAILED" "fenced E (s\<lparr>oc_records := (oc_records s)[unat (oc_scan_root s) := x]\<rparr>) t"
      then show "stays (if prc \<noteq> 0 then (ROS_FAILED, t) else (ROS_PENDING, t\<lparr>oc_scan_root := oc_scan_root t + 1\<rparr>))"
        using stays_fenced [OF _ base_records [OF l ok_base [OF ks]]] by simp
    next
      fix prc t x assume a: "prc = ROS_OK" "moved E (s\<lparr>oc_records := (oc_records s)[unat (oc_scan_root s) := x]\<rparr>) t"
      have "ok t" using ok_moved [OF a(2) ok_records [OF l ks]] .
      then show "stays (if prc \<noteq> 0 then (ROS_FAILED, t) else (ROS_PENDING, t\<lparr>oc_scan_root := oc_scan_root t + 1\<rparr>))"
        using next' [of t] moved_job [OF a(2)] v a(1) by (simp add: stays_ok)
    qed
    then show ?thesis using rc next' [OF ks v] by (auto simp: stays_ok)
  qed
  have "stays (let (rc, s) = ros_read_page (oc_scan_root c) c in
       if rc < 0 then (rc, s) else let (prc, s) = (if rc = ROS_READ_OK then parse_root (oc_scan_root s) s else (ROS_OK, s)) in
         if prc \<noteq> 0 then (ROS_FAILED, s) else (ROS_PENDING, s\<lparr>oc_scan_root := oc_scan_root s + 1\<rparr>))" if "oc_scan_root c < oc_root_count c"
    by (rule stays_read [OF k root_below [OF ok_base [OF k] that]])
      (erule (1) rd, simp, rule that, erule (1) rd, simp, rule that, simp add: stays_fenced [OF _ ok_base [OF k]])
  moreover have "ok (c\<lparr>ss_stage := 10\<rparr>)"
    using fit st j by (intro rec_okI) (simp_all add: base_stage ok_base [OF k] recover_fits_def)
  ultimately show ?thesis unfolding recover_roots_def by (auto simp: stays_ok)
qed

lemma recover_records_cases: "recover_records rs c = (ROS_OK, c) \<or> (\<exists>t. recover_records rs c = (ROS_FAILED, t) \<and> fenced E c t)"
proof (induction rs)
  case (Cons r rs)
  have f: "\<exists>t. ros_fault err s = (ROS_FAILED, t) \<and> fenced E c t" if "s = c \<or> fenced E c s" for err s
    using that frame.fenced_fault [of c err] frame.fenced_again [of c s err]
    by (intro exI [of _ "snd (ros_fault err s)"]) (auto simp: ros_fault_def)
  have "complete_valid r f c = (ROS_OK, c) \<or> (\<exists>t. complete_valid r f c = (ROS_FAILED, t) \<and> fenced E c t)" for f
    unfolding complete_valid_def using f [of c ROS_FAILED] by auto
  from this [of "ro_completion r"] show ?case using Cons.IH f by (auto split: if_splits)
qed simp

lemma recover_found_stays:
  assumes b: "base s" and f: "ss_fault s = 0" and j: "ss_job s = ROS_RECOVER" and r: "ss_ready s = 0" and st: "ss_stage s = 10"
    and lt: "oc_scan_slot s < ss_slot_count s" and z: "slot_state s (oc_scan_slot s) = 0"
    and zs: "\<forall>k. oc_scan_slot s < k \<and> k < ss_slot_count s \<longrightarrow> slot_state s k = 0" and rt: "oc_scan_root s \<le> oc_root_count s"
    and g: "segment_fits (s\<lparr>oc_index := 0\<rparr>)" and kind: "kind = SLOT_INTENT \<or> kind = SLOT_COMMIT"
  shows "stays (recover_found kind s)"
proof -
  define t where "t = marked kind s"
  note t_def = t_def [unfolded marked_def]
  have sh: "ros_shape s" "slots_fit s" using b by (simp_all add: store_base_def)
  have bt: "base t" using slots_set_new [OF sh lt z kind] b sh by (simp add: t_def store_base_def)
  have ss: "slot_state t k = (if oc_scan_slot s = k then kind else slot_state s k)" for k
    using slot_state_set [OF slot_small [OF sh(1) lt], of kind k] kind by (auto simp: t_def)
  have v: "oc_scan_slot t = oc_scan_slot s" "ss_slot_count t = ss_slot_count s" "oc_scan_root t = oc_scan_root s" "oc_root_count t = oc_root_count s"
    "ss_stage t = 10" "ss_job t = ROS_RECOVER" "oc_records t = oc_records s" by (simp_all add: t_def st j)
  have le: "oc_scan_slot s + 1 \<le> ss_slot_count s" "oc_scan_slot s < oc_scan_slot s + 1"
    using inc_le [OF lt] lt by (simp_all add: word_less_nat_alt word_le_nat_alt unat_word_ariths) (use unsigned_less [of "ss_slot_count s", where ?'a = nat] in simp)
  have nx: "ok (scan_next u)" if "base u" "oc_used u = oc_used t" "oc_scan_slot u = oc_scan_slot s" "ss_slot_count u = ss_slot_count s"
    "oc_scan_root u = oc_scan_root s" "oc_root_count u = oc_root_count s" "ss_stage u = 10" "ss_job u = ROS_RECOVER" for u
  proof (rule rec_okI)
    show "base (scan_next u)" "ss_job (scan_next u) = ROS_RECOVER" using that by (simp_all add: scan_next_def base_stage)
    have "slot_state u k = 0" if "oc_scan_slot s + 1 \<le> k" "k < ss_slot_count s" for k
      using slot_state_used [of u t] \<open>oc_used u = oc_used t\<close> ss zs le(2) that by (auto dest: order_less_le_trans)
    then show "recover_fits (scan_next u)" using that le rt by (auto simp: recover_fits_def scan_next_def)
  qed
  have l: "length ((oc_records s)[i := x]) = 32" for i x using sh by (simp add: ros_shape_def)
  have a: "ok (scan_next (t\<lparr>oc_records := (oc_records t)[i := x]\<rparr>))" for i x
    using nx [of "t\<lparr>oc_records := (oc_records t)[i := x]\<rparr>"] base_records [OF l bt] v by simp
  have ac: "ok (scan_next (ros_account t))" using a by (simp add: ros_account_def Let_def)
  have "ok (t\<lparr>oc_index := 0, ss_stage := 11\<rparr>)"
  proof (rule rec_okI)
    show "base (t\<lparr>oc_index := 0, ss_stage := 11\<rparr>)" "ss_job (t\<lparr>oc_index := 0, ss_stage := 11\<rparr>) = ROS_RECOVER"
      using bt v by (simp_all add: base_stage)
    have "segment_fits (t\<lparr>oc_index := 0\<rparr>)" using g by (simp add: segment_fits_def t_def)
    then show "recover_fits (t\<lparr>oc_index := 0, ss_stage := 11\<rparr>)" using v rt lt zs ss by (auto simp: recover_fits_def)
  qed
  then show ?thesis using a ac unfolding recover_found_eq marked_def t_def [symmetric] by (simp add: Let_def stays_ok)
qed

lemma recover_slots_stays:
  assumes k: "ok c" and f: "ss_fault c = 0" and j: "ss_job c = ROS_RECOVER" and r: "ss_ready c = 0" and st: "ss_stage c = 10"
  shows "stays (recover_slots c)"
proof (cases "oc_scan_slot c = ss_slot_count c")
  case True
  have "stays (let (rc, c) = recover_records rs c in if rc \<noteq> 0 then (rc, c) else ros_ready (c\<lparr>ss_mounted := 1\<rparr>))" for rs
  proof -
    have b: "base (c\<lparr>ss_mounted := 1\<rparr>)" using ok_base [OF k] by (simp add: base_stage)
    have "stays (ros_ready (c\<lparr>ss_mounted := 1\<rparr>))"
      unfolding ros_ready_def
      by (rule post_ran [OF frame.guard_ran [OF base_port [OF b]]])
        (use j base_moved [OF _ b] moved_job(1) stays_fenced [OF _ b] in \<open>auto intro!: stays_ok rec_ready simp: base_stage\<close>)
    then show ?thesis using recover_records_cases [of rs c] stays_fenced [OF _ ok_base [OF k]] by auto
  qed
  then show ?thesis using True by (simp add: recover_slots_def)
next
  case False
  have fit: "recover_fits c" using ok_job [OF k f] j r by (simp add: job_fits_def)
  then have lt: "oc_scan_slot c < ss_slot_count c" using False by (auto simp: recover_fits_def order_le_less)
  have sec: "unat (ros_sector c (oc_scan_slot c)) < cap" using sector_below [OF ok_base [OF k] lt, of 0] by simp
  have le: "oc_scan_slot c + 1 \<le> ss_slot_count c" "oc_scan_slot c < oc_scan_slot c + 1"
    using inc_le [OF lt] lt by (simp_all add: word_less_nat_alt word_le_nat_alt unat_word_ariths) (use unsigned_less [of "ss_slot_count c", where ?'a = nat] in simp)
  have nx: "ok (scan_next u)" if "moved E (c\<lparr>oc_page := d\<rparr>) u" "ok u" for u d
  proof (rule rec_okI)
    show "base (scan_next u)" "ss_job (scan_next u) = ROS_RECOVER" using that(2) moved_job [OF that(1)] j by (simp_all add: scan_next_def base_stage ok_base)
    have "slot_state u = slot_state c" using that(1) by (auto elim!: movedE)
    then show "recover_fits (scan_next u)"
      using fit le st moved_job [OF that(1)] by (auto simp: recover_fits_def scan_next_def)
  qed
  have rd: "stays (let (rc, kind, s) = parse_segment (oc_scan_slot s) s in
         if rc \<noteq> 0 then (ROS_FAILED, s)
         else if kind = SLOT_RETIRED then (ROS_PENDING, scan_next s)
         else let (rc, s) = sequence_valid s in if rc \<noteq> 0 then (ROS_FAILED, s) else recover_found kind s)"
    if m: "moved E (c\<lparr>oc_page := blit 0 d (oc_page c)\<rparr>) s" and ks: "ok s" for d s
  proof -
    have sc: "oc_scan_slot s = oc_scan_slot c" using moved_job [OF m] by simp
    obtain rc kind t where ps: "parse_segment (oc_scan_slot s) s = (rc, kind, t)" by (cases "parse_segment (oc_scan_slot s) s")
    note pr = frame.parse_segment_ran [OF ok_port [OF ks] ps]
    consider "rc = ROS_FAILED" "fenced E s t" | "rc = ROS_OK" "kind = SLOT_RETIRED" "moved E s t"
      | g where "rc = ROS_OK" "kind = SLOT_INTENT \<or> kind = SLOT_COMMIT" "segment_shaped (oc_scan_slot s) s g" "moved E (s\<lparr>oc_segment := g\<rparr>) t"
      using pr unfolding parse_ran_def by blast
    then show ?thesis
    proof cases
      case 1
      then show ?thesis using stays_fenced [OF _ ok_base [OF ks]] by (simp add: ps)
    next
      case 2
      then show ?thesis using nx [OF frame.moved_trans [OF m 2(3)] ok_moved [OF 2(3) ks]] by (simp add: ps stays_ok)
    next
      case 3
      have bt: "base t" using base_moved [OF 3(4)] ok_base [OF ks] by (simp add: base_stage)
      have "slot_state t = slot_state c" using 3(4) m by (auto elim!: movedE)
      moreover have "oc_segment t = g" using moved_job [OF 3(4)] by simp
      moreover have v: "oc_scan_slot t = oc_scan_slot c" "ss_slot_count t = ss_slot_count c" "oc_scan_root t = oc_scan_root c"
        "oc_root_count t = oc_root_count c" "ss_stage t = 10" "ss_job t = ROS_RECOVER" "ss_ready t = 0" "ss_fault t = 0"
        using moved_job [OF 3(4)] moved_job [OF m] st j r f by simp_all
      ultimately have fd: "stays (recover_found kind t)"
        using fit lt st 3(2,3) sc moved_job [OF m] by (intro recover_found_stays [OF bt]) (auto simp: recover_fits_def segment_fits_def segment_shaped_def Let_def)
      have "sequence_valid t = (ROS_OK, t) \<or> (\<exists>err. sequence_valid t = ros_fault err t)" unfolding sequence_valid_def Let_def by auto
      then have "stays (let (rc, s) = sequence_valid t in if rc \<noteq> 0 then (ROS_FAILED, s) else recover_found kind s)"
      proof (elim disjE exE)
        fix err assume "sequence_valid t = ros_fault err t"
        then show ?thesis using stays_fault [OF bt, of err] by (cases "ros_fault err t") (auto simp: post_def ros_fault_def)
      qed (simp add: fd)
      then show ?thesis using 3(1,2) by (auto simp: ps)
    qed
  qed
  show ?thesis
    unfolding recover_slots_def if_not_P [OF False]
    by (rule stays_read [OF k sec])
      (use rd nx stays_fenced [OF _ ok_base [OF k]] in \<open>auto simp: stays_ok\<close>)
qed

lemma recover_payload_stays:
  assumes k: "ok c" and f: "ss_fault c = 0" and j: "ss_job c = ROS_RECOVER" and r: "ss_ready c = 0" and st: "ss_stage c = 11"
  shows "stays (recover_payload c)"
proof -
  have fit: "recover_fits c" using ok_job [OF k f] j r by (simp add: job_fits_def)
  then have lt: "oc_scan_slot c < ss_slot_count c" and sf: "segment_fits c" using st by (simp_all add: recover_fits_def)
  have le: "oc_scan_slot c + 1 \<le> ss_slot_count c" "oc_scan_slot c < oc_scan_slot c + 1"
    using inc_le [OF lt] lt by (simp_all add: word_less_nat_alt word_le_nat_alt unat_word_ariths) (use unsigned_less [of "ss_slot_count c", where ?'a = nat] in simp)
  have fin: "ok ((scan_next (ros_account s))\<lparr>oc_container := replicate ROS_CONTAINER_BYTES 0, ss_stage := 10\<rparr>)" if m: "moved E c s" for s
  proof (rule rec_okI)
    have b: "base s" using base_moved [OF m ok_base [OF k]] .
    show "base ((scan_next (ros_account s))\<lparr>oc_container := replicate ROS_CONTAINER_BYTES 0, ss_stage := 10\<rparr>)"
      by (rule base_cong [OF _ _ _ _ _ _ _ b]) (simp_all add: scan_next_def ros_shape_def ros_account_def Let_def)
    show "ss_job ((scan_next (ros_account s))\<lparr>oc_container := replicate ROS_CONTAINER_BYTES 0, ss_stage := 10\<rparr>) = ROS_RECOVER"
      using moved_job [OF m] j by (simp add: scan_next_def)
    have "slot_state s = slot_state c" using m by (auto elim!: movedE)
    then show "recover_fits ((scan_next (ros_account s))\<lparr>oc_container := replicate ROS_CONTAINER_BYTES 0, ss_stage := 10\<rparr>)"
      using fit le moved_job [OF m] by (auto simp: recover_fits_def scan_next_def dest: order_less_le_trans)
  qed
  have "stays (let (rc, s) = container_valid c in if rc \<noteq> 0 then (ROS_FAILED, s)
       else (ROS_PENDING, (scan_next (ros_account s))\<lparr>oc_container := replicate ROS_CONTAINER_BYTES 0, ss_stage := 10\<rparr>))"
    by (rule post_ran [OF container_valid_ran [OF ok_port [OF k]]]) (simp_all add: stays_fenced [OF _ ok_base [OF k]] fin stays_ok)
  then show ?thesis using read_container_stays [OF k sf] by (simp add: recover_payload_def)
qed

lemma step_stays:
  assumes "ok c"
  shows "stays (step_body c)"
proof -
  have "stays (job_step (ss_job s) s)" if "ok s" "ss_fault s = 0" "ss_ready s = 0" for s
  proof (cases "ss_job s")
    case ROS_RECOVER
    then have "ss_stage s = 0 \<or> ss_stage s = 10 \<or> ss_stage s = 11"
      using ok_job [OF that(1,2)] that(3) by (auto simp: job_fits_def recover_fits_def split: if_splits)
    then show ?thesis
      using recover_roots_stays [OF that(1,2) ROS_RECOVER that(3)] recover_slots_stays [OF that(1,2) ROS_RECOVER that(3)]
        recover_payload_stays [OF that(1,2) ROS_RECOVER that(3)] ROS_RECOVER by (auto simp: recover_step_def)
  qed (use that stays_fault [OF ok_base [OF that(1)]] root_step_stays [OF that(1,2)] segment_step_stays [OF that(1,2) _ that(3)]
      load_step_stays [OF that(1,2)] in auto)
  then have "stays (let (g, c) = ros_guard c in if g \<noteq> 0 then (ROS_FAILED, c) else job_step (ss_job c) c)" if "ss_fault c = 0" "ss_ready c = 0"
    by - (rule post_ran [OF frame.guard_ran [OF ok_port [OF assms]]],
      use that moved_job(3,7) ok_moved [OF _ assms] stays_fenced [OF _ ok_base [OF assms]] in auto)
  then show ?thesis unfolding step_body_def using assms by (auto intro!: post_if stays_ok)
qed


section \<open>Entry points\<close>

lemma begun_ok: "base c \<Longrightarrow> P e \<Longrightarrow> base (begun j d t e c)"
  by (rule base_cong [of _ c]) (simp_all add: begun_shape)

text \<open>What is left to show of a body that starts a job.\<close>

lemma stays_begin:
  assumes "ok c" and "\<And>t e. ss_fault c = 0 \<Longrightarrow> ss_job c = ROS_NONE \<Longrightarrow> base (begun job deadline t e c) \<Longrightarrow> stays (f ROS_OK (begun job deadline t e c))"
    and "\<And>rc s. rc \<noteq> 0 \<Longrightarrow> ok s \<Longrightarrow> stays (f rc s)"
  shows "stays (Let (ros_begin job deadline c) (case_prod f))"
proof -
  have e: "P (oc_env c)" using assms(1) by (simp add: store_ok_def store_base_def)
  show ?thesis
    by (rule post_call [OF frame.begin_runs [OF ok_port [OF assms(1)]]])
      (use assms ok_moved [OF _ assms(1)] ok_fenced [OF _ ok_base [OF assms(1)]] begun_ok [OF ok_base [OF assms(1)]] e in \<open>auto simp: begin_ran_def\<close>)
qed

lemma rescan_ok:
  assumes "base c" and "ss_job c = ROS_RECOVER" and "ss_stage c = 0"
  shows "ok (rescan c)"
proof (rule rec_okI)
  have b: "unat k div 2 < 2560" if "k < ss_slot_count c" for k using slot_small [of c k] assms(1) that by (simp add: store_base_def ros_shape_def)
  have z: "slot_state (rescan c) k = 0" if "k < ss_slot_count c" for k
    by (rule slot_state_zero [of _ 2560]) (simp_all add: rescan_def b [OF that])
  have v: "ss_slot_count (rescan c) = ss_slot_count c" "oc_root_count (rescan c) = oc_root_count c" by (simp_all add: rescan_def)
  have "taken (rescan c) = {}" using z by (auto simp: taken_def v)
  then have "slots_fit (rescan c)" using z v by (auto simp: slots_fit_def) (simp add: rescan_def)
  moreover have "ros_shape (rescan c)" using assms(1) by (simp add: rescan_def ros_shape_def store_base_def)
  ultimately show "base (rescan c)" using assms(1) by (simp add: store_base_def rescan_def)
  show "ss_job (rescan c) = ROS_RECOVER" using assms(2) by (simp add: rescan_def)
  show "recover_fits (rescan c)" using z assms(3) v by (auto simp: recover_fits_def) (simp_all add: rescan_def)
qed

lemma recover_stays: "ok c \<Longrightarrow> stays (recover_body deadline c)"
  unfolding recover_body_def
  by (rule post_if, erule stays_ok, rule stays_begin) (auto intro!: stays_ok rescan_ok)

lemma recover_retired_stays:
  assumes "ok c"
  shows "stays (recover_retired_body a v ids n deadline c)"
proof -
  have "stays (let (rc, c) = ros_begin ROS_RECOVER deadline c in
         if rc \<noteq> 0 then (rc, c)
         else if ss_mounted c \<noteq> 0 \<and> unat n = length (oc_retired c) then (ROS_OK, c\<lparr>ss_job := ROS_NONE\<rparr>)
         else (ROS_PENDING, rescan (c\<lparr>oc_retired := us, ss_mounted := 0\<rparr>)))" for us
  proof (rule stays_begin [OF assms])
    fix t e assume b: "base (begun ROS_RECOVER deadline t e c)"
    let ?s = "begun ROS_RECOVER deadline t e c"
    have "ok (rescan (?s\<lparr>oc_retired := us, ss_mounted := 0\<rparr>))" by (rule rescan_ok) (simp_all add: base_stage b)
    moreover have "ok (?s\<lparr>ss_job := ROS_NONE\<rparr>)" using b by (simp add: store_ok_def base_stage job_fits_def)
    ultimately show "stays (if ROS_OK \<noteq> 0 then (ROS_OK, ?s)
        else if ss_mounted ?s \<noteq> 0 \<and> unat n = length (oc_retired ?s) then (ROS_OK, ?s\<lparr>ss_job := ROS_NONE\<rparr>)
        else (ROS_PENDING, rescan (?s\<lparr>oc_retired := us, ss_mounted := 0\<rparr>)))" by (simp add: stays_ok)
  qed (simp add: stays_ok)
  then show ?thesis unfolding recover_retired_body_def Let_def [of "if n = 0 then _ else _"] using assms by (intro post_if stays_ok)
qed

lemma root_job_ok: "base c \<Longrightarrow> ss_job c = ROS_RESERVE \<or> ss_job c = ROS_FINALIZE \<Longrightarrow> oc_root c < oc_root_count c \<Longrightarrow> ok c"
  by (auto simp: store_ok_def job_fits_def)

lemma stays_root_job:
  assumes "base c" and "ss_job c = ROS_RESERVE \<or> ss_job c = ROS_FINALIZE" and "root < oc_root_count c"
  shows "stays (let (rc, s) = catalog_root kind r (c\<lparr>oc_root := root, oc_pending_record := r\<rparr>) in (if rc \<noteq> 0 then rc else ROS_PENDING, s))"
proof -
  let ?c = "c\<lparr>oc_root := root, oc_pending_record := r\<rparr>"
  have k: "ok ?c" using assms by (intro root_job_ok) (simp_all add: base_stage)
  have "ok s" if "moved E (?c\<lparr>oc_catalog := blit 224 d q\<rparr>) s" "length q = 2048" for s d q
    using ok_moved [OF that(1) ok_catalog [OF _ k]] that(2) by simp
  note fin = this [OF _ length_root_fields]
  show ?thesis
    unfolding catalog_root_def
    by (rule post_seal_catalog [OF ok_base [OF k] length_root_fields]) (simp_all add: stays_fenced [OF _ ok_base [OF k]] stays_ok fin)
qed

lemmas stays_root_case = stays_root_job [unfolded Let_def]

lemma reserve_stays:
  assumes "ok c"
  shows "stays (reserve_body a bp mode first deadline c)"
proof -
  have l: "length (take (unat (oc_root_count c)) (oc_records c)) = unat (oc_root_count c)" "unat (oc_root_count c) \<le> 32"
    using ok_shape(1) [OF assms] by (auto simp: ros_shape_def)
  have lt: "root < oc_root_count c"
    if "free_root b (oc_root_count c) (take (unat (oc_root_count c)) (oc_records c)) 0 (oc_root_count c) = Some root" "root \<noteq> oc_root_count c" for root b
    using free_root_range [OF that(1)] that(2) l by (simp add: word_less_nat_alt)
  show ?thesis
    unfolding reserve_body_def Let_def [of "pt bp"]
    by (intro post_if stays_ok assms, split option.split, intro conjI allI impI stays_ok assms post_if stays_begin)
      (auto simp: Let_def [of "reserve_record _ _ _"] lt intro: stays_ok intro!: stays_root_case)
qed

lemma prepared_ok:
  assumes "base c" and "ss_job c = ROS_SEGMENT" and "ss_stage c = 0" and "ss_ready c = 0" and "oc_index c = 0" and "oc_active_root c < oc_root_count c"
    and "slot < ss_slot_count c" and "slot_state c slot = 0" and "n = unat (es_plaintext_bytes b)" and "n \<le> 34148"
  shows "ok (c\<lparr>oc_segment := prepare_segment b plain n slot c\<rparr>)"
proof (rule seg_okI)
  let ?g = "prepare_segment b plain n slot c"
  have "segment_fits (c\<lparr>oc_segment := ?g\<rparr>)"
    using assms by (simp add: segment_fits_def prepare_segment_def Let_def word_le_nat_alt)
  then show "segment_job_fits (c\<lparr>oc_segment := ?g\<rparr>)"
    using assms by (simp add: segment_job_fits_def job_stages_def prepare_segment_def Let_def)
qed (simp_all add: base_stage assms)

lemma stays_prepared:
  assumes k: "ok c" and j: "ss_fault c = 0" "ss_job c = ROS_SEGMENT" "ss_stage c = 0" "ss_ready c = 0"
  shows "stays (let (rc, c) = sequence_valid c in
           if rc \<noteq> 0 then (ROS_FAILED, c)
           else if deferred
           then let (g, c) = ros_guard (c\<lparr>oc_container := blit 193 plain (oc_container c), ss_stage := 9\<rparr>) in
             (if g \<noteq> 0 then ROS_FAILED else ROS_PENDING, c)
           else seal_prepared plain n c)"
proof -
  let ?d = "c\<lparr>oc_container := blit 193 plain (oc_container c), ss_stage := 9\<rparr>"
  have l: "length (blit 193 plain (oc_container c)) = ROS_CONTAINER_BYTES" using ok_shape(1) [OF k] by (simp add: ros_shape_def)
  have d: "ok ?d" using stage_seg [OF ok_container [OF l k], of 9] j by (simp add: job_stages_def)
  have "stays (let (g, c) = ros_guard ?d in (if g \<noteq> 0 then ROS_FAILED else ROS_PENDING, c))"
    by (rule post_ran [OF frame.guard_ran [OF ok_port [OF d]]]) (simp_all add: stays_ok ok_moved [OF _ d] stays_fenced [OF _ ok_base [OF d]])
  moreover have "stays (seal_prepared plain n c)" by (rule post_mono [OF seal_stays [OF k]]) simp
  moreover have "sequence_valid c = (ROS_OK, c) \<or> sequence_valid c = ros_fault ROS_FAILED c" unfolding sequence_valid_def Let_def by auto
  ultimately show ?thesis using stays_fault [OF ok_base [OF k], of ROS_FAILED] by (auto simp: ros_fault_def post_def)
qed

lemma prepare_stays:
  assumes "ok c"
  shows "stays (prepare_body opus deferred a bp pp n deadline c)"
proof -
  let ?slot = "first_free c (unat (ss_slot_count c)) 0"
  have sl: "?slot < ss_slot_count c \<and> slot_state c ?slot = 0" if "?slot \<noteq> ss_slot_count c"
    using first_free_range [of 0 "unat (ss_slot_count c)" c] that unsigned_less [of "ss_slot_count c", where ?'a = nat]
    by (auto simp: word_less_nat_alt word_unat_eq_iff)
  have "stays (let (rc, c) = ros_begin ROS_SEGMENT deadline c in
         if rc \<noteq> 0 then (rc, c)
         else let (rc, c) = sequence_valid (c\<lparr>oc_segment := prepare_segment (pt bp) (part 0 n (pt pp)) n ?slot c\<rparr>) in
           if rc \<noteq> 0 then (ROS_FAILED, c)
           else if deferred
           then let (g, c) = ros_guard (c\<lparr>oc_container := blit 193 (part 0 n (pt pp)) (oc_container c), ss_stage := 9\<rparr>) in
             (if g \<noteq> 0 then ROS_FAILED else ROS_PENDING, c)
           else seal_prepared (part 0 n (pt pp)) n c)"
    if "\<not> prepare_bad opus a bp pp n" "\<not> (ss_mounted c = 0 \<or> oc_active_root c \<ge> oc_root_count c)" "?slot \<noteq> ss_slot_count c"
  proof (rule stays_begin [OF assms])
    fix t e assume z: "ss_fault c = 0" "base (begun ROS_SEGMENT deadline t e c)"
    let ?s = "begun ROS_SEGMENT deadline t e c"
    have n: "n = unat (es_plaintext_bytes (pt bp))" "n \<le> 34148" using that(1) unfolding prepare_bad_def by auto
    have "ok (?s\<lparr>oc_segment := prepare_segment (pt bp) (part 0 n (pt pp)) n ?slot ?s\<rparr>)"
      using that(2) sl [OF that(3)] n by (intro prepared_ok [OF z(2)]) auto
    from stays_prepared [OF this, of deferred "part 0 n (pt pp)" n]
    show "stays (if ROS_OK \<noteq> 0 then (ROS_OK, ?s)
         else let (rc, c) = sequence_valid (?s\<lparr>oc_segment := prepare_segment (pt bp) (part 0 n (pt pp)) n ?slot ?s\<rparr>) in
           if rc \<noteq> 0 then (ROS_FAILED, c)
           else if deferred
           then let (g, c) = ros_guard (c\<lparr>oc_container := blit 193 (part 0 n (pt pp)) (oc_container c), ss_stage := 9\<rparr>) in
             (if g \<noteq> 0 then ROS_FAILED else ROS_PENDING, c)
           else seal_prepared (part 0 n (pt pp)) n c)"
      using z(1) by simp
  qed (simp add: stays_ok)
  then show ?thesis
    unfolding prepare_body_def Let_def [of "pt bp"] Let_def [of "part 0 n (pt pp)"] Let_def [of ?slot] using assms by (intro post_if stays_ok) auto
qed

lemma finalize_stays:
  assumes "ok c"
  shows "stays (finalize_body a fp deadline c)"
proof -
  have cv: "complete_valid r f c = (ROS_OK, c) \<or> complete_valid r f c = ros_fault ROS_FAILED c" for r f unfolding complete_valid_def by auto
  let ?r = "oc_records c ! unat (oc_active_root c)"
  have go: "stays (let (rc, c) = ros_begin ROS_FINALIZE deadline c in
         if rc \<noteq> 0 then (rc, c)
         else let r = ?r\<lparr>ro_finalized := 1, ro_completion := pt fp\<rparr>;
                  (rc, c) = catalog_root ROOT_FINAL r (c\<lparr>oc_root := oc_active_root c, oc_pending_record := r\<rparr>) in
           (if rc \<noteq> 0 then rc else ROS_PENDING, c))" if "oc_active_root c < oc_root_count c"
    by (rule stays_begin [OF assms]) (auto simp: Let_def [of "_\<lparr>ro_finalized := 1, ro_completion := pt fp\<rparr>"] that intro: stays_ok intro!: stays_root_case)
  show ?thesis
    unfolding finalize_body_def Let_def [of ?r]
    using cv [of ?r "pt fp"] stays_fault [OF ok_base [OF assms], of ROS_FAILED] go
    by (auto intro!: post_if stays_ok assms simp: ros_fault_def post_def)
qed

lemma open_stays: "ok c \<Longrightarrow> job = ROS_LOAD \<or> job = ROS_META \<Longrightarrow> stays (open_committed job slot deadline c)"
  unfolding open_committed_def
  by (rule post_if, erule stays_ok, rule stays_begin) (auto intro!: stays_ok simp: store_ok_def base_stage job_fits_def)

lemma finish_ok: "ok c \<Longrightarrow> ok (finish_job c)"
proof -
  assume k: "ok c"
  have "base (finish_job c)"
    by (rule base_cong [OF _ _ _ _ _ _ _ ok_base [OF k]]) (simp_all add: finish_job_def ros_buffers_def ros_shape_def receipt_none_def)
  then show ?thesis by (simp add: store_ok_def job_fits_def finish_job_def)
qed

end

section \<open>Sequences of calls\<close>

datatype ros_call =
    RosRecover u64 | RosRecoverRetired "es_binding ptr" "bytes ptr" u32 u64 | RosReserve "es_binding ptr" u32 u64 u64
  | RosPrepare "es_binding ptr" "bytes ptr" nat u64 | RosPrepareDeferred "es_binding ptr" "bytes ptr" nat u64
  | RosFinalize "rp_completion ptr" u64 | RosLoad u32 u64 | RosDescribe u32 u64 | RosStep | RosFinish
  | RosTakeSegment "rp_segment_receipt ptr" | RosTakeFinal "rp_final_receipt ptr" | RosCopy u32 "bytes ptr" nat "nat ptr"
  | RosGetStatus "ros_status ptr" | RosGetGeometry "ros_geometry ptr" | RosGetLoaded "ros_segment ptr" | RosGetRecord u32 "ros_record ptr"

fun ros_exec1 :: "'c opus_api \<Rightarrow> ros_call \<Rightarrow> 'e ros_context ptr \<Rightarrow> int \<times> 'e ros_context ptr" where
  "ros_exec1 opus (RosRecover d) c = ros_recover d c"
| "ros_exec1 opus (RosRecoverRetired v ids n d) c = ros_recover_retired v ids n d c"
| "ros_exec1 opus (RosReserve b mode first d) c = ros_reserve b mode first d c"
| "ros_exec1 opus (RosPrepare b x n d) c = ros_prepare opus b x n d c"
| "ros_exec1 opus (RosPrepareDeferred b x n d) c = ros_prepare_deferred opus b x n d c"
| "ros_exec1 opus (RosFinalize f d) c = ros_finalize f d c"
| "ros_exec1 opus (RosLoad k d) c = ros_load k d c"
| "ros_exec1 opus (RosDescribe k d) c = ros_describe_committed k d c"
| "ros_exec1 opus RosStep c = ros_step c"
| "ros_exec1 opus RosFinish c = ros_finish c"
| "ros_exec1 opus (RosTakeSegment out) c = (case ros_take_segment_receipt out c of (rc, _, c) \<Rightarrow> (rc, c))"
| "ros_exec1 opus (RosTakeFinal out) c = (case ros_take_final_receipt out c of (rc, _, c) \<Rightarrow> (rc, c))"
| "ros_exec1 opus (RosCopy off out n actual) c = (case ros_copy_loaded off out n actual c of (rc, _, _, c) \<Rightarrow> (rc, c))"
| "ros_exec1 opus (RosGetStatus out) c = (case ros_get_status out c of (rc, _, c) \<Rightarrow> (rc, c))"
| "ros_exec1 opus (RosGetGeometry out) c = (case ros_get_geometry out c of (rc, _, c) \<Rightarrow> (rc, c))"
| "ros_exec1 opus (RosGetLoaded out) c = (case ros_get_loaded_segment out c of (rc, _, c) \<Rightarrow> (rc, c))"
| "ros_exec1 opus (RosGetRecord k out) c = (case ros_get_record k out c of (rc, _, c) \<Rightarrow> (rc, c))"

fun ros_exec :: "'c opus_api \<Rightarrow> ros_call list \<Rightarrow> 'e ros_context ptr \<Rightarrow> 'e ros_context ptr" where
  "ros_exec opus [] c = c"
| "ros_exec opus (call # calls) c = ros_exec opus calls (snd (ros_exec1 opus call c))"

text \<open>A property of the context that every body keeps.\<close>

locale store_keeps =
  fixes opus :: "'c opus_api"
    and I :: "'e ros_context \<Rightarrow> bool"
  assumes gate: "I (c\<lparr>oc_gate := g\<rparr>) = I c"
    and recover: "I c \<Longrightarrow> post (\<lambda>rc. I) (recover_body d c)"
    and recover_retired: "I c \<Longrightarrow> post (\<lambda>rc. I) (recover_retired_body a v ids count d c)"
    and reserve: "I c \<Longrightarrow> post (\<lambda>rc. I) (reserve_body a bp mode first d c)"
    and prepare: "I c \<Longrightarrow> post (\<lambda>rc. I) (prepare_body opus b a bp pp n d c)"
    and finalize: "I c \<Longrightarrow> post (\<lambda>rc. I) (finalize_body a fp d c)"
    and committed: "I c \<Longrightarrow> job = ROS_LOAD \<or> job = ROS_META \<Longrightarrow> post (\<lambda>rc. I) (open_committed job slot d c)"
    and step: "I c \<Longrightarrow> post (\<lambda>rc. I) (step_body c)"
    and finish: "I c \<Longrightarrow> ss_fault c = 0 \<Longrightarrow> ss_ready c \<noteq> 0 \<Longrightarrow> I (finish_job c)"
begin

lemma locked_keeps: "I c \<Longrightarrow> (\<And>c. I c \<Longrightarrow> post (\<lambda>rc. I) (body c)) \<Longrightarrow> \<exists>c'. snd (ros_locked body (Ptr a c)) = Ptr a c' \<and> I c'"
proof -
  assume c: "I c" and b: "\<And>c. I c \<Longrightarrow> post (\<lambda>rc. I) (body c)"
  have "I (snd (body (c\<lparr>oc_gate := 1\<rparr>)))" using b [of "c\<lparr>oc_gate := 1\<rparr>"] c gate by (simp add: post_def)
  then show ?thesis using c gate by (cases "body (c\<lparr>oc_gate := 1\<rparr>)") auto
qed

lemma output_ctx:
  assumes "I c" and "\<And>c. I c \<Longrightarrow> I (snd (snd (body c)))"
  shows "\<exists>c'. snd (snd (ros_output body n out (Ptr a c))) = Ptr a c' \<and> I c'"
  using assms(1) assms(2) [of "c\<lparr>oc_gate := 1\<rparr>"] gate by (auto split: prod.splits)

lemma finish_body_keeps: "I c \<Longrightarrow> post (\<lambda>rc. I) (finish_body c)"
  using finish by (auto simp: finish_body_def post_def)

lemma exec1_keeps:
  assumes "I c"
  shows "\<exists>c'. snd (ros_exec1 opus call (Ptr a c)) = Ptr a c' \<and> I c'"
proof -
  note l = locked_keeps [OF assms]
  have o: "\<exists>c'. snd (case ros_output body n out (Ptr a c) of (rc, _, c) \<Rightarrow> (rc, c)) = Ptr a c' \<and> I c'"
    if "\<And>c. I c \<Longrightarrow> I (snd (snd (body c)))" for body :: "'e ros_context \<Rightarrow> int \<times> 'z option \<times> 'e ros_context" and n out
    using output_ctx [of c body n out a] assms that by (simp add: prod.case_eq_if)
  show ?thesis
  proof (cases call)
    case (RosCopy off out n actual)
    then show ?thesis using assms by (auto simp: Let_def)
  qed (use l recover recover_retired reserve prepare finalize committed step finish_body_keeps finish in
    \<open>auto simp: ros_recover_def ros_load_def ros_describe_committed_def ros_step_def ros_finish_def ros_take_segment_receipt_def
       ros_take_final_receipt_def ros_get_status_def ros_get_geometry_def ros_get_loaded_segment_def ros_get_record_def simp del: ros_locked.simps ros_output.simps intro!: o\<close>)
qed

lemma exec_keeps: "I c \<Longrightarrow> \<exists>c'. ros_exec opus calls (Ptr a c) = Ptr a c' \<and> I c'"
proof (induction calls arbitrary: c)
  case (Cons call calls)
  then show ?case using exec1_keeps [of c call a] by auto
qed simp

end

context store_port
begin

lemma store_gate: "ok (c\<lparr>oc_gate := g\<rparr>) = ok c"
proof -
  have "ok c \<Longrightarrow> ok (c\<lparr>oc_gate := g\<rparr>)" for c g by (rule ok_cong [of c]) (simp_all add: same_job_def ros_shape_def)
  from this [of c g] this [of "c\<lparr>oc_gate := g\<rparr>" "oc_gate c"] show ?thesis by auto
qed

end

sublocale store_port \<subseteq> calls: store_keeps opus "store_ok p cap P" for opus
  by unfold_locales (simp_all add: store_gate recover_stays recover_retired_stays reserve_stays prepare_stays finalize_stays open_stays step_stays finish_ok)

end
