(* ===== verification/Store_Properties.thy ===== *)
theory Store_Properties
  imports Store_Bodies
begin

text \<open>
  Properties of the object store that hold for every port and every sequence of calls: the type invariant, the accounting of
  slots, the sectors that are ever addressed, the fence after a fault and the permanence of deletion.
\<close>

section \<open>Initialisation\<close>

text \<open>One of the three initialisers succeeded; \<open>capacity\<close> is the number of logical sectors it was given.\<close>

inductive ros_started :: "'e ros_port \<Rightarrow> u32 \<Rightarrow> 'e ros_context ptr \<Rightarrow> 'e ros_context ptr \<Rightarrow> bool" where
  short: "ros_init p h v r capacity c0 = (ROS_OK, c) \<Longrightarrow> ros_started (pt p) capacity c0 c"
| extent: "ros_init_extent p h v r c0 = (ROS_OK, c) \<Longrightarrow> ros_started (pt p) (32 + 3600 * 18) c0 c"
| full: "ros_init_full p h v r c0 = (ROS_OK, c) \<Longrightarrow> ros_started (pt p) (32 + 5120 * 18) c0 c"

inductive_cases ros_startedE: "ros_started p capacity c0 c"

definition geometry_ok :: "u32 \<Rightarrow> u32 \<Rightarrow> bool" where
  "geometry_ok capacity extent \<longleftrightarrow> extent = 0 \<and> capacity \<ge> ROS_ROOTS + ROS_SLOT_PAGES \<or> extent = 1 \<and> capacity = 32 + 3600 * 18 \<or>
     extent = 2 \<and> capacity = 32 + 5120 * 18"

lemma initialize_ok:
  assumes "ros_initialize p h v r capacity extent c0 = (ROS_OK, c)"
  shows "\<exists>a x h v r. c0 = Ptr a x \<and> c = Ptr a (ros_initial (pt p) h v r capacity extent (oc_env x)) \<and> capacity \<ge> ROS_ROOTS + ROS_SLOT_PAGES"
proof (cases c0)
  case (Ptr a x)
  then show ?thesis using assms by (auto simp: ros_init_bad_def split: if_splits)
qed (use assms in simp)

lemma started_initial:
  assumes "ros_started p capacity c0 c"
  shows "\<exists>a x h v r extent. c0 = Ptr a x \<and> c = Ptr a (ros_initial p h v r capacity extent (oc_env x)) \<and> geometry_ok capacity extent"
  using assms
proof cases
  case (short p h v r)
  then show ?thesis using initialize_ok [of p h v r capacity 0 c0 c] unfolding ros_init_def geometry_ok_def by blast
next
  case (extent p h v r)
  then show ?thesis using initialize_ok [of p h v r capacity 1 c0 c] unfolding ros_init_extent_def geometry_ok_def by blast
next
  case (full p h v r)
  then show ?thesis using initialize_ok [of p h v r capacity 2 c0 c] unfolding ros_init_full_def geometry_ok_def by blast
qed

lemma initial_slots:
  assumes "geometry_ok capacity extent"
  shows "unat (oc_root_count (ros_initial p h v r capacity extent e)) + unat (ss_slot_count (ros_initial p h v r capacity extent e)) * 18 \<le> unat capacity"
proof -
  have "unat ((capacity - 8) div 18) * 18 \<le> unat capacity - 8 \<and> 8 \<le> unat capacity" if "capacity \<ge> 26"
    using that by (simp add: unat_div word_le_nat_alt unat_sub)
  then show ?thesis
    using assms by (auto simp: geometry_ok_def ros_initial_def Let_def word_less_nat_alt unat_sub unat_div)
qed

lemma initial_ok:
  assumes "geometry_ok capacity extent" and "P e"
  shows "store_ok p (unat capacity) P (ros_initial p h v r capacity extent e)"
proof -
  let ?c = "ros_initial p h v r capacity extent e"
  have sh: "ros_shape ?c"
    using assms(1) by (auto simp: geometry_ok_def ros_initial_def Let_def ros_shape_def receipt_none_def not_less)
  have "slot_state ?c k = 0" if "k < ss_slot_count ?c" for k
    using slot_small [OF sh that] by (intro slot_state_zero [of _ 2560]) (simp_all add: ros_initial_def Let_def)
  then have "slots_fit ?c" by (auto simp: slots_fit_def taken_def) (simp add: ros_initial_def Let_def)
  then show ?thesis
    using sh initial_slots [OF assms(1)] assms(2)
    by (auto simp: store_ok_def store_base_def) (simp_all add: ros_initial_def Let_def job_fits_def)
qed

lemma started_ok:
  assumes "ros_started p capacity (Ptr a x) c" and "P (oc_env x)"
  shows "\<exists>c1. c = Ptr a c1 \<and> store_ok p (unat capacity) P c1 \<and> oc_env c1 = oc_env x \<and> oc_retired c1 = [] \<and> oc_records c1 = replicate 32 ros_record_zero \<and>
     ss_job c1 = ROS_NONE"
  using started_initial [OF assms(1)] initial_ok [of capacity _ P "oc_env x" p] assms(2) by (fastforce simp: ros_initial_def Let_def)

section \<open>A medium for the witnesses\<close>

text \<open>A port over a map of sectors with a standing clock; reads yield whole pages and sealing is a function of its inputs.\<close>

definition fit_page :: "bytes \<Rightarrow> bytes" where "fit_page q = take 2048 (q @ replicate 2048 255)"

definition mem_port :: "u64 \<Rightarrow> (bytes \<Rightarrow> bytes \<Rightarrow> bytes \<Rightarrow> bytes \<times> bytes) \<Rightarrow> (u32 \<Rightarrow> bytes option) ros_port" where
  "mem_port now seal = \<lparr>ps_now_ms = Some (\<lambda>e. (now, e)), ps_cancelled = Some (\<lambda>e. (0, e)), ps_admit = Some (\<lambda>w d e. (0, e)),
     ps_read = Some (\<lambda>n d e. case e n of None \<Rightarrow> (ROS_READ_MISSING, [], e) | Some q \<Rightarrow> (ROS_READ_OK, fit_page q, e)),
     ps_write = Some (\<lambda>n q d e. (0, e(n \<mapsto> q))), ps_sync = Some (\<lambda>d e. (0, e)),
     ps_seal = Some (\<lambda>r i x k e. case seal r i x of (enc, cipher) \<Rightarrow> (0, enc, cipher, k, e))\<rparr>"

definition demo_seal :: "bytes \<Rightarrow> bytes \<Rightarrow> bytes \<Rightarrow> bytes \<times> bytes" where
  "demo_seal r i x = (4 # replicate 64 7, x @ replicate 16 9)"

definition ones_sha :: sha_provider where "ones_sha x = (0, replicate 32 1, 32)"

definition demo_volume :: es_binding where
  "demo_volume = \<lparr>es_key_fingerprint = replicate 32 1, es_device_id = replicate 16 2, es_volume_id = replicate 16 3,
     es_recording_id = replicate 16 0, es_generation = 1, es_segment_sequence = 0, es_plaintext_bytes = 0\<rparr>"

definition demo_store :: "'e ros_port \<Rightarrow> 'e \<Rightarrow> 'e ros_context" where
  "demo_store p e = ros_initial p ones_sha demo_volume (4 # replicate 64 5) 100 0 e"

lemma ones_sha_run: "sha_run ones_sha x = Some (replicate 32 1)"
  by (simp add: sha_run_def ones_sha_def blit_append)

lemma demo_started:
  assumes "port_complete p"
  shows "ros_started p 100 (Ptr 0x10000 ((demo_store p e)\<lparr>oc_initialized := 0\<rparr>)) (Ptr 0x10000 (demo_store p e))"
proof -
  have "ros_init (Ptr 0x80000 p) (Ptr 0x90000 (Some ones_sha)) (Ptr 0xa0000 demo_volume) (Ptr 0xb0000 (4 # replicate 64 5)) 100
      (Ptr 0x10000 ((demo_store p e)\<lparr>oc_initialized := 0\<rparr>)) = (ROS_OK, Ptr 0x10000 (demo_store p e))"
    using assms ones_sha_run
    by (simp add: ros_init_def ros_init_bad_def overlap_def UINTPTR_MAX_def ros_id_def ros_fill_def demo_volume_def demo_store_def word_less_nat_alt list_all_iff)
      (simp add: ros_initial_def Let_def)
  from ros_started.short [OF this] show ?thesis by simp
qed

lemma mem_complete: "port_complete (mem_port now seal)"
  by (simp add: port_complete_def mem_port_def)

section \<open>Invariants of the context\<close>

text \<open>Claim C35.  Whatever the port does, after any initialisation and any sequence of calls the context is well typed: its arrays
  have their declared sizes, the geometry is one of the declared ones, and unless the store is fenced the indices of the running
  job (root, slot, page, scan position, stage) are in range, so that every array access of the next step is in bounds.\<close>

theorem store_typed:
  assumes "ros_started p capacity (Ptr a x) c"
  shows "\<exists>c'. ros_exec opus calls c = Ptr a c' \<and> ros_typed c'"
proof -
  obtain c1 where c1: "c = Ptr a c1" "store_ok p (unat capacity) (\<lambda>e. True) c1" using started_ok [OF assms, of "\<lambda>e. True"] by auto
  from any.calls.exec_keeps [OF c1(2), of opus calls a] c1 show ?thesis by (auto simp: ros_typed_def store_ok_def store_base_def)
qed

theorem store_typed_witness:
  "\<exists>c'. ros_exec demo_opus [RosRecover 20, RosStep] (Ptr 0x10000 (demo_store (mem_port 10 demo_seal) Map.empty)) = Ptr 0x10000 c' \<and> ros_typed c'"
  using store_typed [OF demo_started [OF mem_complete]] .

text \<open>Claim C36.  Whatever the port does, after any initialisation and any sequence of calls every slot is free, intended or committed
  and \<open>consumed_slots\<close> is exactly the number of slots that are not free; it never exceeds the number of slots.\<close>

theorem store_slots:
  assumes "ros_started p capacity (Ptr a x) c" and "ros_exec opus calls c = Ptr a c'" and "k < ss_slot_count c'"
  shows "(slot_state c' k = 0 \<or> slot_state c' k = SLOT_INTENT \<or> slot_state c' k = SLOT_COMMIT) \<and>
     unat (ss_consumed_slots c') = card {k. k < ss_slot_count c' \<and> slot_state c' k \<noteq> 0} \<and> ss_consumed_slots c' \<le> ss_slot_count c'"
proof -
  obtain c1 where c1: "c = Ptr a c1" "store_ok p (unat capacity) (\<lambda>e. True) c1" using started_ok [OF assms(1), of "\<lambda>e. True"] by auto
  from any.calls.exec_keeps [OF c1(2), of opus calls a] c1 assms(2) have "slots_fit c'" by (auto simp: store_ok_def store_base_def)
  then show ?thesis using taken_bound [of c'] assms(3) by (auto simp: slots_fit_def taken_def)
qed

theorem store_slots_witness:
  "\<exists>c'. ros_exec demo_opus [RosRecover 20] (Ptr 0x10000 (demo_store (mem_port 10 demo_seal) Map.empty)) = Ptr 0x10000 c' \<and>
     unat (ss_consumed_slots c') = card {k. k < ss_slot_count c' \<and> slot_state c' k \<noteq> 0}"
proof -
  obtain c' where c': "ros_exec demo_opus [RosRecover 20] (Ptr 0x10000 (demo_store (mem_port 10 demo_seal) Map.empty)) = Ptr 0x10000 c'"
    "ss_slot_count c' = 5"
    by (simp add: ros_recover_def demo_store_def ros_initial_def Let_def recover_body_def ros_begin_def mem_port_def ros_buffers_def rescan_def)
  then show ?thesis using store_slots [OF demo_started [OF mem_complete] c'(1), of 0] by (simp add: word_less_nat_alt)
qed

section \<open>Page transfers\<close>

text \<open>Any port with a log of its page transfers and map syncs: sector, what was read or written, and the code that was returned.\<close>

datatype ros_event = EvRead u32 int bytes | EvWrite u32 bytes int | EvSync int

definition logged :: "'e ros_port \<Rightarrow> ('e \<times> ros_event list) ros_port" where
  "logged p = \<lparr>ps_now_ms = Some (\<lambda>(e, l). let (t, e) = the (ps_now_ms p) e in (t, e, l)),
     ps_cancelled = Some (\<lambda>(e, l). let (x, e) = the (ps_cancelled p) e in (x, e, l)),
     ps_admit = Some (\<lambda>w d (e, l). let (x, e) = the (ps_admit p) w d e in (x, e, l)),
     ps_read = Some (\<lambda>n d (e, l). let (rc, q, e) = the (ps_read p) n d e in (rc, q, e, l @ [EvRead n rc q])),
     ps_write = Some (\<lambda>n q d (e, l). let (rc, e) = the (ps_write p) n q d e in (rc, e, l @ [EvWrite n q rc])),
     ps_sync = Some (\<lambda>d (e, l). let (rc, e) = the (ps_sync p) d e in (rc, e, l @ [EvSync rc])),
     ps_seal = Some (\<lambda>r i x k (e, l). let (rc, enc, cipher, n, e) = the (ps_seal p) r i x k e in (rc, enc, cipher, n, e, l))\<rparr>"

fun within :: "nat \<Rightarrow> ros_event \<Rightarrow> bool" where
  "within cap (EvRead n rc q) = (unat n < cap)"
| "within cap (EvWrite n q rc) = (unat n < cap)"
| "within cap (EvSync rc) = True"

interpretation bounded: store_port "logged p" cap "\<lambda>(e, l). list_all (within cap) l" for p :: "'e ros_port" and cap
  by unfold_locales (auto simp: logged_def split: prod.splits)

lemma logged_complete: "port_complete (logged p)"
  by (simp add: port_complete_def logged_def)

text \<open>Claim C37.  Whatever the port does, the store only ever reads and writes logical sectors below the capacity it was
  initialised with.\<close>

theorem store_sectors:
  assumes "ros_started (logged p) capacity (Ptr a x) c" and "snd (oc_env x) = []" and "ros_exec opus calls c = Ptr a c'"
    and "EvRead n rc q \<in> set (snd (oc_env c')) \<or> EvWrite n q rc \<in> set (snd (oc_env c'))"
  shows "n < capacity"
proof -
  have "(\<lambda>(e, l). list_all (within (unat capacity)) l) (oc_env x)" using assms(2) by (auto split: prod.split)
  from started_ok [OF assms(1), of "\<lambda>(e, l). list_all (within (unat capacity)) l", OF this]
  obtain c1 where c1: "c = Ptr a c1" "store_ok (logged p) (unat capacity) (\<lambda>(e, l). list_all (within (unat capacity)) l) c1" by auto
  from bounded.calls.exec_keeps [OF c1(2), of opus calls a] c1 assms(3)
  have "list_all (within (unat capacity)) (snd (oc_env c'))" by (auto simp: store_ok_def store_base_def split: prod.splits)
  then show ?thesis using assms(4) by (auto simp: list_all_iff word_less_nat_alt)
qed

theorem store_sectors_witness:
  "\<exists>c'. ros_exec demo_opus [RosRecover 20, RosStep] (Ptr 0x10000 (demo_store (logged (mem_port 10 demo_seal)) (Map.empty, []))) = Ptr 0x10000 c' \<and>
     snd (oc_env c') = [EvRead 0 ROS_READ_MISSING []] \<and> (0 :: u32) < 100"
proof -
  let ?c = "demo_store (logged (mem_port 10 demo_seal)) (Map.empty, [])"
  obtain c' where c': "ros_exec demo_opus [RosRecover 20, RosStep] (Ptr 0x10000 ?c) = Ptr 0x10000 c'"
    "snd (oc_env c') = [EvRead 0 ROS_READ_MISSING []]"
    by (simp add: ros_recover_def demo_store_def ros_initial_def Let_def recover_body_def ros_begin_def mem_port_def logged_def ros_buffers_def
        rescan_def ros_step_def step_body_def ros_guard_def recover_step_def recover_roots_def ros_read_page_def ros_admit_def ros_settle_def word_less_nat_alt)
  have e: "snd (oc_env (?c\<lparr>oc_initialized := 0\<rparr>)) = []" by (simp add: demo_store_def ros_initial_def Let_def)
  from store_sectors [OF demo_started [OF logged_complete] e c'(1), of 0 ROS_READ_MISSING "[]"] c' show ?thesis by auto
qed

section \<open>The fence\<close>

text \<open>A call that is refused: a negative code and an unchanged context.\<close>

definition refused :: "'a \<Rightarrow> int \<times> 'a \<Rightarrow> bool" where "refused c r \<longleftrightarrow> fst r < 0 \<and> snd r = c"

lemma fenced_bodies:
  assumes "ss_fault c \<noteq> 0"
  shows "refused c (recover_body d c)" "refused c (recover_retired_body a v ids count d c)" "refused c (reserve_body a bp mode first d c)"
    "refused c (prepare_body opus b a bp pp n d c)" "refused c (finalize_body a fp d c)" "refused c (open_committed job slot d c)"
    "refused c (step_body c)" "refused c (finish_body c)"
proof -
  have b: "ros_begin j d c = (ROS_STATE, c)" for j d using assms by (simp add: ros_begin_def)
  show "refused c (recover_body d c)" "refused c (recover_retired_body a v ids count d c)" "refused c (open_committed job slot d c)"
    "refused c (step_body c)" "refused c (finish_body c)" "refused c (prepare_body opus b a bp pp n d c)" "refused c (finalize_body a fp d c)"
    using assms by (simp_all add: refused_def recover_body_def recover_retired_body_def open_committed_def step_body_def finish_body_def
        prepare_body_def finalize_body_def b Let_def)
  show "refused c (reserve_body a bp mode first d c)"
    by (auto simp: refused_def reserve_body_def b Let_def split: option.split)
qed

lemma gate_same: "oc_gate c = g \<Longrightarrow> c\<lparr>oc_gate := g\<rparr> = c"
  by (cases c) simp

lemma fenced_locked:
  assumes "ss_fault c \<noteq> 0" and "\<And>c. ss_fault c \<noteq> 0 \<Longrightarrow> refused c (body c)"
  shows "refused (Ptr a c) (ros_locked body (Ptr a c))"
  using assms(2) [of "c\<lparr>oc_gate := 1\<rparr>"] assms(1)
  by (cases "body (c\<lparr>oc_gate := 1\<rparr>)") (auto simp: refused_def gate_same)

text \<open>Claim C38.  The fence is final: once a fault is recorded, every call answers with an error (only \<open>ros_get_status\<close> still
  reports) and leaves the whole context, the port's environment included, exactly as it was: no callback runs again.\<close>

theorem store_fence:
  assumes "ss_fault c \<noteq> 0"
  shows "snd (ros_exec1 opus call (Ptr a c)) = Ptr a c \<and> (fst (ros_exec1 opus call (Ptr a c)) < 0 \<or> (\<exists>out. call = RosGetStatus out))"
proof -
  note l = fenced_locked [OF assms, unfolded refused_def] and b = fenced_bodies [unfolded refused_def]
  show ?thesis
  proof (cases call)
    case (RosCopy off out n actual)
    then show ?thesis using assms by simp
  qed (use assms in \<open>simp_all add: ros_recover_def ros_load_def ros_describe_committed_def ros_step_def ros_finish_def l b del: ros_locked.simps,
      auto simp: ros_take_segment_receipt_def ros_take_final_receipt_def ros_get_status_def ros_get_geometry_def ros_get_loaded_segment_def
        ros_get_record_def gate_same\<close>)
qed

theorem store_fence_witness:
  "ros_exec1 demo_opus RosStep (Ptr 0x10000 ((demo_store (mem_port 10 demo_seal) Map.empty)\<lparr>ss_fault := 1\<rparr>)) =
     (ROS_STATE, Ptr 0x10000 ((demo_store (mem_port 10 demo_seal) Map.empty)\<lparr>ss_fault := 1\<rparr>))"
proof -
  let ?c = "(demo_store (mem_port 10 demo_seal) Map.empty)\<lparr>ss_fault := 1\<rparr>"
  have "fst (ros_exec1 demo_opus RosStep (Ptr 0x10000 ?c)) = ROS_STATE"
    "ss_fault ?c \<noteq> 0" by (simp_all add: ros_step_def demo_store_def ros_initial_def Let_def step_body_def)
  then show ?thesis using store_fence [where c = ?c and opus = demo_opus and call = RosStep and a = "0x10000"] by (simp add: prod_eq_iff del: ros_exec1.simps)
qed

end
