(* ===== verification/Store_Retired.thy ===== *)
theory Store_Retired
  imports Store_Properties
begin

text \<open>
  Deletion is permanent: a recording identity that was retired stays retired, no record of it is ever visible again and it can
  never be reserved, whatever the port returns and whatever is stored on the medium.
\<close>

section \<open>The invariant\<close>

definition not_retired :: "bytes list \<Rightarrow> ros_record \<Rightarrow> bool" where
  "not_retired us r \<longleftrightarrow> ro_present r = 0 \<or> es_recording_id (ro_identity r) \<notin> set us"

definition purged :: "bytes set \<Rightarrow> 'e ros_context \<Rightarrow> bool" where
  "purged U c \<longleftrightarrow> U \<subseteq> set (oc_retired c) \<and> (ss_fault c = 0 \<longrightarrow> list_all (not_retired (oc_retired c)) (oc_records c) \<and>
     (ss_job c = ROS_RESERVE \<or> ss_job c = ROS_FINALIZE \<longrightarrow> not_retired (oc_retired c) (oc_pending_record c)))"

abbreviation purges :: "bytes set \<Rightarrow> int \<times> 'e ros_context \<Rightarrow> bool" where "purges U \<equiv> post (\<lambda>rc. purged U)"

lemma retired_mem: "ros_retired c u \<longleftrightarrow> u \<in> set (oc_retired c)"
  by (auto simp: ros_retired_def list_ex_iff)

lemma purged_moved: "moved E c s \<Longrightarrow> purged U s = purged U c"
  by (erule movedE) (simp add: purged_def)

lemma purged_fenced: "fenced E c s \<Longrightarrow> purged U s \<longleftrightarrow> U \<subseteq> set (oc_retired c)"
  by (erule fencedE) (simp add: purged_def ros_fault_def ros_buffers_def)

lemma purged_sub: "purged U c \<Longrightarrow> U \<subseteq> set (oc_retired c)"
  by (simp add: purged_def)

lemma purged_fault: "purged U (snd (ros_fault err c)) \<longleftrightarrow> U \<subseteq> set (oc_retired c)"
  by (simp add: purged_def ros_fault_def ros_buffers_def)

lemma purges_fault: "purged U c \<Longrightarrow> purges U (ros_fault err c)"
  by (simp add: post_def purged_fault purged_sub)

lemma purges_ok: "purged U c \<Longrightarrow> purges U (rc, c)"
  by (simp add: post_def)

lemma purged_upd [simp]:
  "purged U (c\<lparr>oc_page := q\<rparr>) = purged U c" "purged U (c\<lparr>oc_catalog := q\<rparr>) = purged U c" "purged U (c\<lparr>oc_container := q\<rparr>) = purged U c"
  "purged U (c\<lparr>oc_env := e\<rparr>) = purged U c" "purged U (c\<lparr>oc_index := n\<rparr>) = purged U c" "purged U (c\<lparr>ss_stage := n\<rparr>) = purged U c"
  "purged U (c\<lparr>oc_segment := g\<rparr>) = purged U c" "purged U (c\<lparr>oc_slot := n\<rparr>) = purged U c" "purged U (c\<lparr>ss_ready := n\<rparr>) = purged U c"
  "purged U (c\<lparr>oc_receipt := w\<rparr>) = purged U c" "purged U (c\<lparr>ss_mounted := n\<rparr>) = purged U c" "purged U (c\<lparr>oc_scan_root := n\<rparr>) = purged U c"
  "purged U (c\<lparr>ss_consumed_slots := n\<rparr>) = purged U c" "purged U (c\<lparr>oc_gate := n\<rparr>) = purged U c" "purged U (set_slot_state k x c) = purged U c"
  "purged U (scan_next c) = purged U c" "purged U (stage_next c) = purged U c" "purged U (index_next c) = purged U c" "purged U (digested d c) = purged U c"
  "purged U (c\<lparr>oc_active_root := n\<rparr>) = purged U c" "purged U (c\<lparr>oc_final_receipt := f\<rparr>) = purged U c"
  "purged U (c\<lparr>oc_last_now := t\<rparr>) = purged U c"
  by (simp_all add: purged_def set_slot_state_def scan_next_def stage_next_def index_next_def digested_def Let_def)

lemma purged_records: "purged U c \<Longrightarrow> (ss_fault c = 0 \<Longrightarrow> not_retired (oc_retired c) r) \<Longrightarrow> purged U (c\<lparr>oc_records := (oc_records c)[i := r]\<rparr>)"
  by (auto simp: purged_def list_all_iff dest!: set_update_subset_insert [THEN subsetD])

lemma purged_nth: "purged U c \<Longrightarrow> ss_fault c = 0 \<Longrightarrow> i < length (oc_records c) \<Longrightarrow> not_retired (oc_retired c) (oc_records c ! i)"
  by (simp add: purged_def list_all_length)

lemma purged_nth_update:
  assumes "purged U c" and "\<And>r. ro_present (f r) = ro_present r \<and> ro_identity (f r) = ro_identity r"
  shows "purged U (c\<lparr>oc_records := (oc_records c)[i := f (oc_records c ! i)]\<rparr>)"
proof (cases "i < length (oc_records c)")
  case True
  then show ?thesis using purged_records [OF assms(1)] purged_nth [OF assms(1) _ True] assms(2) by (simp add: not_retired_def)
qed (use assms(1) in \<open>simp add: list_update_beyond\<close>)

lemma purged_account: "purged U c \<Longrightarrow> purged U (ros_account c)"
  unfolding ros_account_def Let_def
  by (rule purged_nth_update [where f = "\<lambda>r. r\<lparr>ro_segments := _ r, ro_gaps := _ r, ro_committed_samples := _ r, ro_next_sample := _\<rparr>"]) simp_all

text \<open>The helpers.\<close>

lemma purges_ran:
  assumes "post (ran E c) r" and "purged U c" and "\<And>s. moved E c s \<Longrightarrow> purged U s \<Longrightarrow> purges U (f ROS_OK s)"
    and "\<And>s. purged U s \<Longrightarrow> purges U (f ROS_FAILED s)"
  shows "purges U (Let r (case_prod f))"
proof (rule post_ran [OF assms(1)])
  show "purges U (f ROS_FAILED s)" if "fenced E c s" for s using assms(4) purged_fenced [OF that] purged_sub [OF assms(2)] by blast
  show "purges U (f ROS_OK s)" if "moved E c s" for s using assms(3) [OF that] purged_moved [OF that] assms(2) by blast
qed

lemma purges_guard:
  assumes "purged U c" and "\<And>s. moved (\<lambda>e f. True \<longrightarrow> True) c s \<Longrightarrow> purged U s \<Longrightarrow> purges U (f ROS_OK s)" and "\<And>s. purged U s \<Longrightarrow> purges U (f ROS_FAILED s)"
  shows "purges U (Let (ros_guard c) (case_prod f))"
  by (rule purges_ran [OF any.frame.guard_ran assms]) (rule refl)

lemma purges_write:
  assumes "purged U c" and "\<And>s. purged U s \<Longrightarrow> purges U (f ROS_OK s)" and "\<And>s. purged U s \<Longrightarrow> purges U (f ROS_FAILED s)"
  shows "purges U (Let (ros_write_page n q c) (case_prod f))"
  by (rule purges_ran [OF any.write_ran [where cap = "2 ^ 32"] assms(1)]) (use assms(2,3) unsigned_less [of n, where ?'a = nat] in auto)

lemma purges_sync:
  assumes "purged U c" and "\<And>s. purged U s \<Longrightarrow> purges U (f ROS_OK s)" and "\<And>s. purged U s \<Longrightarrow> purges U (f ROS_FAILED s)"
  shows "purges U (Let (ros_sync_map c) (case_prod f))"
  by (rule purges_ran [OF any.sync_ran assms(1)]) (use assms(2,3) in auto)

lemma purges_read:
  assumes "purged U c" and "\<And>s. purged U s \<Longrightarrow> ss_job s = ss_job c \<Longrightarrow> purges U (f ROS_READ_OK s)" and "\<And>s. purged U s \<Longrightarrow> purges U (f ROS_READ_MISSING s)"
    and "\<And>s. purged U s \<Longrightarrow> purges U (f ROS_FAILED s)"
  shows "purges U (Let (ros_read_page n c) (case_prod f))"
proof (rule post_read [OF any.read_page_ran [OF refl, where cap = "2 ^ 32"]])
  show "unat n < 2 ^ 32" using unsigned_less [of n, where ?'a = nat] by simp
  show "purges U (f ROS_FAILED s)" if "fenced (\<lambda>e f. True \<longrightarrow> True) c s" for s
    using assms(4) purged_fenced [OF that] purged_sub [OF assms(1)] by blast
  have p: "purged U s" if "moved (\<lambda>e f. True \<longrightarrow> True) (c\<lparr>oc_page := blit 0 d (oc_page c)\<rparr>) s" for d s
    using purged_moved [OF that] assms(1) by simp
  show "purges U (f ROS_READ_OK s)" if "moved (\<lambda>e f. True \<longrightarrow> True) (c\<lparr>oc_page := blit 0 d (oc_page c)\<rparr>) s" for d s
    using assms(2) [OF p [OF that]] that by (auto elim: movedE)
  show "purges U (f ROS_READ_MISSING s)" if "moved (\<lambda>e f. True \<longrightarrow> True) (c\<lparr>oc_page := blit 0 d (oc_page c)\<rparr>) s" for d s
    using assms(3) [OF p [OF that]] .
qed

lemma purges_catalog:
  assumes "purged U c" and "\<And>s. purged U s \<Longrightarrow> purges U (f ROS_OK s)" and "\<And>s. purged U s \<Longrightarrow> purges U (f ROS_FAILED s)"
  shows "purges U (Let (catalog_seal q c) (case_prod f))"
proof -
  obtain rc s where r: "catalog_seal q c = (rc, s)" by (cases "catalog_seal q c")
  have "rc = ROS_FAILED \<and> fenced (\<lambda>e f. True \<longrightarrow> True) c s \<or> rc = ROS_OK \<and> (\<exists>d. moved (\<lambda>e f. True \<longrightarrow> True) (c\<lparr>oc_catalog := blit 224 d q\<rparr>) s)"
    using any.frame.catalog_seal_ran [OF refl, of c q] unfolding r post_def fst_conv snd_conv by blast
  then show ?thesis
    unfolding r Let_def prod.case
    by (elim disjE conjE exE) (simp_all add: assms(2,3) purged_moved purged_fenced assms(1) purged_sub)
qed

lemmas purges_catalog_case = purges_catalog [unfolded Let_def]

lemma purges_hash:
  assumes "purged U c" and "ros_hash x out c = (rc, d, s)"
  shows "purged U s"
  using any.frame.hash_ran [OF refl assms(2)] assms(1) by (auto simp: ran_def purged_moved purged_fenced dest: purged_sub)

lemma purges_container_valid:
  assumes "purged U c" and "\<And>s. purged U s \<Longrightarrow> purges U (f ROS_OK s)" and "\<And>s. purged U s \<Longrightarrow> purges U (f ROS_FAILED s)"
  shows "purges U (Let (container_valid c) (case_prod f))"
  by (rule purges_ran [OF any.container_valid_ran assms(1)]) (use assms(2,3) in auto)

lemma purges_ready: "purged U c \<Longrightarrow> purges U (ros_ready c)"
  unfolding ros_ready_def by (rule purges_guard) (auto intro: purges_ok)

lemma purges_seal: "purged U c \<Longrightarrow> purges U (seal_prepared x n c)"
  by (rule post_mono [OF any.frame.seal_prepared_ran [OF refl]])
    (auto simp: seal_ran_def sealed_as_def Let_def purged_moved purged_fenced digested_def dest: purged_sub)

lemma purges_sequence:
  assumes "purged U c" and "purges U (f ROS_OK c)" and "\<And>s. purged U s \<Longrightarrow> purges U (f ROS_FAILED s)"
  shows "purges U (Let (sequence_valid c) (case_prod f))"
proof -
  have "sequence_valid c = (ROS_OK, c) \<or> sequence_valid c = (ROS_FAILED, snd (ros_fault ROS_FAILED c))"
    unfolding sequence_valid_def Let_def by (auto simp: ros_fault_def)
  moreover have "purged U (snd (ros_fault ROS_FAILED c))" using purged_sub [OF assms(1)] by (simp add: purged_fault)
  ultimately show ?thesis using assms by auto
qed

lemma purged_parse:
  assumes "parse_segment k c = (rc, kind, s)" and "purged U c"
  shows "purged U s"
  using any.frame.parse_segment_ran [OF refl assms(1)] assms(2) by (auto simp: parse_ran_def purged_moved purged_fenced dest: purged_sub)

section \<open>Steps\<close>

lemma purges_read_container: "purged U c \<Longrightarrow> purges U (read_container_page c)"
  unfolding read_container_page_def
  by (rule purges_read) (auto simp: Let_def intro!: purges_fault purges_ok post_if)

lemma purges_root_step:
  assumes "purged U c" and "ss_job c = ROS_RESERVE \<or> ss_job c = ROS_FINALIZE"
  shows "purges U (root_step c)"
proof -
  have "purged U (s\<lparr>oc_records := (oc_records s)[i := oc_pending_record s]\<rparr>)" if "purged U s" "ss_job s = ROS_RESERVE \<or> ss_job s = ROS_FINALIZE" for s i
    using purged_records [OF that(1)] that by (simp add: purged_def)
  note p = this
  have rd: "purges U (let (rc, c) = ros_read_page (oc_root c) c in
       if rc \<noteq> ROS_READ_OK \<or> oc_page c \<noteq> oc_catalog c then ros_fault ROS_FAILED c
       else let c = c\<lparr>oc_records := (oc_records c)[unat (oc_root c) := oc_pending_record c]\<rparr> in
         if ss_job c = ROS_RESERVE then ros_ready (c\<lparr>oc_active_root := oc_root c\<rparr>)
         else ros_ready (c\<lparr>oc_active_root := oc_root_count c,
           oc_final_receipt := \<lparr>fr_completion = ro_completion (oc_pending_record c), fr_durable = 1\<rparr>\<rparr>))"
    by (rule purges_read [OF assms(1)]) (use assms(2) in \<open>auto simp: Let_def intro!: purges_fault purges_ready p\<close>)
  show ?thesis
    unfolding root_step_def
    by (intro post_if, (rule purges_write [OF assms(1)]; simp add: purges_ok), (rule purges_sync [OF assms(1)]; simp add: purges_ok), rule rd)
qed

lemma purges_segment_step:
  assumes "purged U c"
  shows "purges U (segment_step c)"
proof -
  have i: "purges U (segment_intent c)"
    unfolding segment_intent_def catalog_segment_def
    by (rule purges_read [OF assms]) (auto simp: Let_def [of "set_slot_state _ _ _"] intro!: purges_fault purges_catalog_case purges_ok post_if)
  have w: "purges U (segment_write c)"
    unfolding segment_write_def Let_def [of "c\<lparr>oc_page := payload_page c\<rparr>"]
    by (intro post_if purges_ok purges_write) (auto simp: assms intro!: purges_ok)
  have v: "purges U (segment_verify c)"
    unfolding segment_verify_def
    by (intro post_if purges_ok purges_read) (auto simp: assms intro!: purges_ok purges_fault)
  have m: "purges U (segment_commit c)"
    unfolding segment_commit_def
    by (rule purges_read [OF assms]) (auto simp: Let_def intro!: purges_fault purges_ready purged_account post_if)
  have s: "purges U (let (rc, s) = seal_prepared x n c in (rc, if rc = ROS_PENDING then s\<lparr>ss_stage := 0\<rparr> else s))" for x n
    by (rule post_call [OF purges_seal [OF assms]]) (simp add: post_def)
  show ?thesis
    unfolding segment_step_def Let_def [of "ss_stage c"] Let_def [of "unat _"]
    by (intro post_if i w v m s) ((rule purges_write [OF assms] | rule purges_sync [OF assms]); simp add: purges_ok)+
qed

lemma purges_load_step:
  assumes "purged U c"
  shows "purges U (load_step c)"
proof -
  have ps: "purges U (let (rc, kind, s) = parse_segment k s in
         if rc \<noteq> 0 \<or> kind \<noteq> SLOT_COMMIT then ros_fault ROS_FAILED s
         else let s = s\<lparr>oc_index := 0, ss_stage := 1\<rparr> in if ss_job s = ROS_META then ros_ready s else (ROS_PENDING, s))" if "purged U s" for s k
    by (rule post_let_triple) (use that in \<open>auto simp: Let_def dest!: purged_parse intro!: post_if purges_fault purges_ready purges_ok\<close>)
  show ?thesis
    unfolding load_step_def
    by (intro post_if purges_read_container [OF assms] purges_read [OF assms] purges_container_valid [OF assms];
        (rule ps, assumption | simp add: purges_fault purges_ready purges_ok))
qed

lemma purges_parse_root:
  assumes "purged U c" and "\<And>s. purged U s \<Longrightarrow> purges U (f ROS_OK s)" and "\<And>s. purged U s \<Longrightarrow> purges U (f ROS_FAILED s)"
  shows "purges U (Let (parse_root k c) (case_prod f))"
proof (rule post_call [OF any.frame.parse_root_ran [OF refl]], elim disjE conjE exE)
  fix rc s r assume "rc = ROS_FAILED" "fenced (\<lambda>e f. True \<longrightarrow> True) (c\<lparr>oc_records := (oc_records c)[unat k := r]\<rparr>) s"
  then show "purges U (f rc s)" using assms(3) purged_sub [OF assms(1)] by (simp add: purged_fenced)
next
  fix rc s r assume "rc = ROS_OK" "ro_present r \<noteq> 0 \<longrightarrow> \<not> ros_retired c (es_recording_id (ro_identity r))"
    "moved (\<lambda>e f. True \<longrightarrow> True) (c\<lparr>oc_records := (oc_records c)[unat k := r]\<rparr>) s"
  then show "purges U (f rc s)"
    using assms(2) [of s] purged_records [OF assms(1), of r "unat k"] by (auto simp: not_retired_def retired_mem purged_moved)
qed

lemma purges_recover:
  assumes p: "purged U c"
  shows "purges U (recover_step c)"
proof -
  have r: "purges U (recover_roots c)"
    unfolding recover_roots_def
    by (intro post_if purges_ok purges_read) (auto simp: p intro!: purges_ok purges_parse_root [unfolded Let_def])
  have k: "purges U (recover_found kind s)" if "purged U s" for kind s
  proof -
    have "purged U (marked kind s)" using that by (simp add: marked_def)
    then show ?thesis
      unfolding recover_found_eq Let_def
      by (intro post_if purges_ok)
        (auto intro: purged_account purged_nth_update [where f = "\<lambda>r. r\<lparr>ro_blocked := 1, ro_interrupted := 1\<rparr>"])
  qed
  have rr: "recover_records rs c = (ROS_OK, c) \<or> (\<exists>t. recover_records rs c = (ROS_FAILED, t) \<and> purged U t)" for rs
    using any.recover_records_cases [of rs c] purged_sub [OF p] by (auto simp: purged_fenced)
  have ps: "purges U (let (rc, kind, s) = parse_segment j s in
         if rc \<noteq> 0 then (ROS_FAILED, s)
         else if kind = SLOT_RETIRED then (ROS_PENDING, scan_next s)
         else let (rc, s) = sequence_valid s in if rc \<noteq> 0 then (ROS_FAILED, s) else recover_found kind s)" if "purged U s" for s j
    by (rule post_let_triple) (use that in \<open>auto dest!: purged_parse intro!: post_if purges_ok purges_sequence [unfolded Let_def] k\<close>)
  have f: "purges U (let (rc, c) = recover_records rs c in if rc \<noteq> 0 then (rc, c) else ros_ready (c\<lparr>ss_mounted := 1\<rparr>))" for rs
    using rr [of rs] p by (auto intro!: purges_ok purges_ready)
  have s: "purges U (recover_slots c)"
    unfolding recover_slots_def
    by (intro post_if f purges_read; (rule ps, assumption | simp add: p purges_ok))
  have y: "purges U (recover_payload c)"
    unfolding recover_payload_def
    by (intro post_if purges_read_container purges_container_valid) (auto simp: p intro!: purges_ok purged_account)
  show ?thesis unfolding recover_step_def by (intro post_if r s y)
qed

lemma purges_step:
  assumes p: "purged U c"
  shows "purges U (step_body c)"
proof -
  have "purges U (job_step (ss_job s) s)" if "purged U s" for s
    by (cases "ss_job s")
      (simp_all add: that purges_fault purges_recover purges_root_step purges_segment_step purges_load_step)
  then show ?thesis
    unfolding step_body_def by (intro post_if purges_ok p purges_guard) (auto intro: purges_ok)
qed

section \<open>Entry points\<close>

lemma purges_begin:
  assumes p: "purged U c" and g: "\<And>t e. ss_fault c = 0 \<Longrightarrow> purges U (f ROS_OK (begun job d t e c))"
    and r: "\<And>rc s. rc \<noteq> 0 \<Longrightarrow> purged U s \<Longrightarrow> purges U (f rc s)"
  shows "purges U (Let (ros_begin job d c) (case_prod f))"
  by (rule post_call [OF any.frame.begin_runs [OF refl]])
    (use p purged_sub [OF p] g r in \<open>auto simp: begin_ran_def purged_moved purged_fenced\<close>)

lemma purged_begun:
  "purged U c \<Longrightarrow> (job = ROS_RESERVE \<or> job = ROS_FINALIZE \<Longrightarrow> ss_fault c = 0 \<Longrightarrow> not_retired (oc_retired c) r) \<Longrightarrow>
   purged U ((begun job d t e c)\<lparr>oc_pending_record := r\<rparr>)"
  by (simp add: purged_def)

lemma purged_begun_other: "purged U c \<Longrightarrow> job \<noteq> ROS_RESERVE \<Longrightarrow> job \<noteq> ROS_FINALIZE \<Longrightarrow> purged U (begun job d t e c)"
  by (simp add: purged_def)

lemma purged_rescan: "U \<subseteq> set (oc_retired c) \<Longrightarrow> ss_job c = ROS_RECOVER \<Longrightarrow> purged U (rescan c)"
  by (simp add: purged_def rescan_def not_retired_def ros_record_zero_def list_all_iff)

lemma purges_recover_body: "purged U c \<Longrightarrow> purges U (recover_body d c)"
  unfolding recover_body_def
  by (intro post_if purges_ok purges_begin) (auto intro!: purges_ok purged_rescan dest: purged_sub [THEN subsetD])

lemma purges_recover_retired:
  assumes "purged U c"
  shows "purges U (recover_retired_body a v ids count d c)"
proof -
  have "purges U (let (rc, c) = ros_begin ROS_RECOVER d c in
         if rc \<noteq> 0 then (rc, c)
         else if ss_mounted c \<noteq> 0 \<and> unat count = length (oc_retired c) then (ROS_OK, c\<lparr>ss_job := ROS_NONE\<rparr>)
         else (ROS_PENDING, rescan (c\<lparr>oc_retired := rows, ss_mounted := 0\<rparr>)))"
    if "list_all (\<lambda>r. list_ex (\<lambda>u. r = u) rows) (oc_retired c)" for rows
  proof (rule purges_begin [OF assms])
    fix t e assume "ss_fault c = 0"
    have "set (oc_retired c) \<subseteq> set rows" using that by (auto simp: list_all_iff list_ex_iff)
    then have "purged U (rescan ((begun ROS_RECOVER d t e c)\<lparr>oc_retired := rows, ss_mounted := 0\<rparr>))"
      using purged_sub [OF assms] by (intro purged_rescan) auto
    moreover have "purged U ((begun ROS_RECOVER d t e c)\<lparr>ss_job := ROS_NONE\<rparr>)" using assms by (simp add: purged_def)
    ultimately show "purges U (if ROS_OK \<noteq> 0 then (ROS_OK, begun ROS_RECOVER d t e c)
         else if ss_mounted (begun ROS_RECOVER d t e c) \<noteq> 0 \<and> unat count = length (oc_retired (begun ROS_RECOVER d t e c))
         then (ROS_OK, (begun ROS_RECOVER d t e c)\<lparr>ss_job := ROS_NONE\<rparr>)
         else (ROS_PENDING, rescan ((begun ROS_RECOVER d t e c)\<lparr>oc_retired := rows, ss_mounted := 0\<rparr>)))" by (simp add: purges_ok)
  qed (simp add: purges_ok)
  then show ?thesis
    unfolding recover_retired_body_def Let_def [of "if count = 0 then _ else _"] using assms by (intro post_if purges_ok) auto
qed

lemma purges_root_job:
  assumes "purged U c" and "not_retired (oc_retired c) r"
  shows "purges U (case catalog_root kind r ((begun job d t e c)\<lparr>oc_root := root, oc_pending_record := r\<rparr>) of (rc, s) \<Rightarrow> (if rc \<noteq> 0 then rc else ROS_PENDING, s))"
proof -
  have "purged U ((begun job d t e c)\<lparr>oc_root := root, oc_pending_record := r\<rparr>)" using assms by (simp add: purged_def)
  then show ?thesis unfolding catalog_root_def by (intro purges_catalog_case) (auto intro: purges_ok)
qed

lemma purges_reserve:
  assumes "purged U c"
  shows "purges U (reserve_body a bp mode first d c)"
proof -
  have n: "not_retired (oc_retired c) (reserve_record (pt bp) m first)" if "\<not> ros_retired c (es_recording_id (pt bp))" for m
    using that by (simp add: not_retired_def reserve_record_def retired_mem)
  show ?thesis
    unfolding reserve_body_def Let_def [of "pt bp"]
    by (intro post_if purges_ok assms, split option.split, intro conjI allI impI purges_ok assms post_if purges_begin)
      (auto simp: Let_def [of "reserve_record _ _ _"] n assms intro: purges_ok intro!: purges_root_job)
qed

lemma purges_prepare:
  assumes "purged U c"
  shows "purges U (prepare_body opus deferred a bp pp n d c)"
proof -
  have b: "purged U (begun ROS_SEGMENT d t e c)" for t e using purged_begun_other [OF assms] by simp
  have g: "purges U (let (g, c) = ros_guard s in (if g \<noteq> 0 then ROS_FAILED else ROS_PENDING, c))" if "purged U s" for s
    by (rule purges_guard [OF that]) (auto intro: purges_ok)
  have s: "purges U (let (rc, c) = sequence_valid s in
           if rc \<noteq> 0 then (ROS_FAILED, c)
           else if deferred
           then let (g, c) = ros_guard (c\<lparr>oc_container := blit 193 x (oc_container c), ss_stage := 9\<rparr>) in (if g \<noteq> 0 then ROS_FAILED else ROS_PENDING, c)
           else seal_prepared x n c)" if "purged U s" for s x
    by (rule purges_sequence [OF that]) (use that purges_seal [OF that] in \<open>auto intro!: purges_ok g [unfolded Let_def]\<close>)
  show ?thesis
    unfolding prepare_body_def Let_def [of "pt bp"] Let_def [of "part 0 n (pt pp)"] Let_def [of "first_free _ _ _"]
    by (intro post_if purges_ok assms purges_begin; (rule s, simp add: b | simp add: purges_ok))
qed

lemma purges_finalize:
  assumes "purged U c" and "ros_shape c"
  shows "purges U (finalize_body a fp d c)"
proof -
  let ?r = "oc_records c ! unat (oc_active_root c)"
  have n: "not_retired (oc_retired c) (?r\<lparr>ro_finalized := 1, ro_completion := pt fp\<rparr>)" if "oc_active_root c < oc_root_count c" "ss_fault c = 0"
  proof -
    have "unat (oc_active_root c) < length (oc_records c)" using that(1) assms(2) by (auto simp: ros_shape_def word_less_nat_alt)
    then show ?thesis using purged_nth [OF assms(1) that(2)] by (simp add: not_retired_def)
  qed
  have cv: "complete_valid r f c = (ROS_OK, c) \<or> complete_valid r f c = (ROS_FAILED, snd (ros_fault ROS_FAILED c))" for r f
    unfolding complete_valid_def by (auto simp: ros_fault_def)
  have go: "purges U (let (rc, c) = ros_begin ROS_FINALIZE d c in
         if rc \<noteq> 0 then (rc, c)
         else let r = ?r\<lparr>ro_finalized := 1, ro_completion := pt fp\<rparr>;
                  (rc, c) = catalog_root ROOT_FINAL r (c\<lparr>oc_root := oc_active_root c, oc_pending_record := r\<rparr>) in
           (if rc \<noteq> 0 then rc else ROS_PENDING, c))" if "oc_active_root c < oc_root_count c"
    by (rule purges_begin [OF assms(1)])
      (use n [OF that] in \<open>auto simp: Let_def [of "_\<lparr>ro_finalized := 1, ro_completion := pt fp\<rparr>"] assms(1) intro: purges_ok intro!: purges_root_job\<close>)
  have "purged U (snd (ros_fault ROS_FAILED c))" using purged_sub [OF assms(1)] by (simp add: purged_fault)
  then show ?thesis
    unfolding finalize_body_def Let_def [of ?r] using cv [of ?r "pt fp"] go
    by (auto intro!: post_if purges_ok assms(1))
qed

lemma purges_open: "purged U c \<Longrightarrow> job = ROS_LOAD \<or> job = ROS_META \<Longrightarrow> purges U (open_committed job k d c)"
  unfolding open_committed_def
  by (intro post_if purges_ok purges_begin) (auto intro!: purges_ok purged_begun_other)

lemma purged_finish: "purged U c \<Longrightarrow> purged U (finish_job c)"
  by (simp add: purged_def finish_job_def ros_buffers_def)

interpretation permanent: store_keeps opus "\<lambda>c. store_ok p cap (\<lambda>e. True) c \<and> purged U c" for opus p cap U
  by unfold_locales
    (auto simp: any.store_gate any.finish_ok purged_finish intro!: post_conj any.recover_stays any.recover_retired_stays any.reserve_stays any.prepare_stays
      any.finalize_stays any.open_stays any.step_stays purges_recover_body purges_recover_retired purges_reserve purges_prepare purges_finalize
      purges_open purges_step any.ok_shape(1))

section \<open>Permanence\<close>

lemma recover_retired_pending:
  assumes "ros_recover_retired v (Ptr i ids) count d (Ptr a c) = (ROS_PENDING, Ptr a c')" and "j < unat count"
  shows "part (16 * j) 16 ids \<in> set (oc_retired c')"
proof -
  let ?c = "c\<lparr>oc_gate := 1\<rparr>"
  obtain b where b: "recover_retired_body a v (Ptr i ids) count d ?c = (ROS_PENDING, b)" "c' = b\<lparr>oc_gate := 0\<rparr>"
    using assms(1) by (auto split: if_splits prod.splits)
  have n: "count \<noteq> 0" using assms(2) by auto
  have "oc_retired b = id_rows ids count"
    using b(1) n by (auto simp: recover_retired_body_def Let_def rescan_def ros_begin_def ros_fault_def split: if_splits prod.splits)
  then show ?thesis using b(2) assms(2) by (auto simp: id_rows_def)
qed

lemma reserve_retired: "es_recording_id (pt bp) \<in> set (oc_retired c) \<Longrightarrow> fst (reserve_body a bp mode first d c) \<noteq> ROS_PENDING"
  by (simp add: reserve_body_def Let_def retired_mem)

text \<open>Claim C4.  Deletion is permanent: once \<open>ros_recover_retired\<close> has accepted a list of deleted recordings, then after any further calls
  with any port no record of such a recording is reported and none can be reserved again, for the life of the context.\<close>

theorem store_deletion:
  assumes "ros_started p capacity (Ptr a x) c" and "ros_exec opus calls c = Ptr a c1"
    and "ros_recover_retired v (Ptr i ids) count d (Ptr a c1) = (ROS_PENDING, Ptr a c2)" and "j < unat count"
    and "ros_exec opus later (Ptr a c2) = Ptr a c3"
  shows "(ros_get_record root out (Ptr a c3) = (ROS_OK, Ptr ad r, c4) \<longrightarrow> es_recording_id (ro_identity r) \<noteq> part (16 * j) 16 ids) \<and>
    (es_recording_id (pt bp) = part (16 * j) 16 ids \<longrightarrow> fst (ros_reserve bp mode first dl (Ptr a c3)) \<noteq> ROS_PENDING)"
proof -
  let ?u = "part (16 * j) 16 ids"
  obtain c0 where c0: "c = Ptr a c0" "store_ok p (unat capacity) (\<lambda>e. True) c0" "oc_records c0 = replicate 32 ros_record_zero" "ss_job c0 = ROS_NONE"
    using started_ok [OF assms(1), of "\<lambda>e. True"] by auto
  have "purged {} c0" using c0 by (simp add: purged_def list_all_iff not_retired_def ros_record_zero_def)
  with permanent.exec_keeps [of p "unat capacity" c0 "{}" opus calls a] c0 assms(2)
  have c1: "store_ok p (unat capacity) (\<lambda>e. True) c1 \<and> purged {} c1" by auto
  from permanent.exec1_keeps [OF c1, of opus "RosRecoverRetired v (Ptr i ids) count d" a] assms(3)
  have "store_ok p (unat capacity) (\<lambda>e. True) c2 \<and> purged {} c2" by auto
  moreover have "?u \<in> set (oc_retired c2)" using recover_retired_pending [OF assms(3,4)] .
  ultimately have c2: "store_ok p (unat capacity) (\<lambda>e. True) c2 \<and> purged {?u} c2" by (simp add: purged_def)
  from permanent.exec_keeps [OF c2, of opus later a] assms(5) have c3: "store_ok p (unat capacity) (\<lambda>e. True) c3" "purged {?u} c3" by auto
  then have u: "?u \<in> set (oc_retired c3)" by (simp add: purged_def)
  have len: "unat (oc_root_count c3) \<le> length (oc_records c3)" using any.ok_shape(1) [OF c3(1)] by (auto simp: ros_shape_def)
  have "es_recording_id (ro_identity r) \<noteq> ?u" if "ros_get_record root out (Ptr a c3) = (ROS_OK, Ptr ad r, c4)"
  proof -
    have "ss_fault c3 = 0" "root < oc_root_count c3" "ro_present (oc_records c3 ! unat root) \<noteq> 0" "r = oc_records c3 ! unat root"
      using that by (auto simp: ros_get_record_def split: if_splits)
    then show ?thesis
      using purged_nth [OF c3(2), of "unat root"] len u by (auto simp: not_retired_def word_less_nat_alt)
  qed
  moreover have "fst (ros_reserve bp mode first dl (Ptr a c3)) \<noteq> ROS_PENDING" if "es_recording_id (pt bp) = ?u"
    using reserve_retired [of bp "c3\<lparr>oc_gate := 1\<rparr>" a mode first dl] that u by (auto split: prod.splits)
  ultimately show ?thesis by blast
qed

theorem store_deletion_witness:
  "\<exists>c2. ros_recover_retired (Ptr 0xa0000 demo_volume) (Ptr 0xc0000 (replicate 16 6)) 1 20 (Ptr 0x10000 (demo_store (mem_port 10 demo_seal) Map.empty)) =
       (ROS_PENDING, Ptr 0x10000 c2) \<and>
     fst (ros_reserve (Ptr 0xd0000 (demo_volume\<lparr>es_recording_id := replicate 16 6\<rparr>)) RP_MANUAL 0 20 (Ptr 0x10000 c2)) \<noteq> ROS_PENDING"
proof -
  let ?c = "demo_store (mem_port 10 demo_seal) Map.empty"
  obtain c2 where c2: "ros_recover_retired (Ptr 0xa0000 demo_volume) (Ptr 0xc0000 (replicate 16 6)) 1 20 (Ptr 0x10000 ?c) = (ROS_PENDING, Ptr 0x10000 c2)"
    by (simp add: recover_retired_body_def recover_retired_bad_def demo_store_def ros_initial_def Let_def overlap_def UINTPTR_MAX_def volume_equal_def
        demo_volume_def ros_fill_def ros_id_def list_all_iff id_rows_def part_replicate ros_begin_def mem_port_def ros_buffers_def word_less_nat_alt)
  note d = store_deletion [where opus = demo_opus and calls = "[]" and later = "[]" and j = 0 and bp = "Ptr 0xd0000 (demo_volume\<lparr>es_recording_id := replicate 16 6\<rparr>)",
      OF demo_started [OF mem_complete] _ c2]
  from d show ?thesis using c2 by (auto simp: part_replicate simp del: ros_reserve.simps ros_recover_retired.simps)
qed

end
