(* ===== verification/Store_Commit.thy ===== *)
theory Store_Commit
  imports Store_Properties "HOL-Library.Sublist"
begin

text \<open>
  The commit protocol of a segment.  A receipt is issued only when the log of page transfers ends with the complete protocol:
  the INTENT page written, synced and read back; every payload page of the sealed container and the COMMIT page written and
  synced; then every payload page and the COMMIT page read back unchanged.
\<close>

section \<open>The protocol\<close>

definition intent_page :: "'e ros_context \<Rightarrow> bytes" where "intent_page c = catalog_image (segment_fields SLOT_INTENT c) c"

definition commit_page :: "'e ros_context \<Rightarrow> bytes" where "commit_page c = catalog_image (segment_fields SLOT_COMMIT c) c"

text \<open>Page \<open>i\<close> of the container, padded with erased bytes, and its sector.\<close>

definition payload :: "'e ros_context \<Rightarrow> nat \<Rightarrow> bytes" where
  "payload c i = (let n = min 2048 (unat (sg_container_bytes (oc_segment c)) - i * 2048) in
     part (i * 2048) n (oc_container c) @ replicate (2048 - n) 255)"

definition page_sector :: "'e ros_context \<Rightarrow> nat \<Rightarrow> u32" where "page_sector c i = segment_sector c + 1 + of_nat i"

definition page_count :: "'e ros_context \<Rightarrow> nat" where "page_count c = unat (sg_pages (oc_segment c))"

definition commit_protocol :: "'e ros_context \<Rightarrow> ros_event list" where
  "commit_protocol c =
    [EvWrite (segment_sector c) (intent_page c) 0, EvSync 0, EvRead (segment_sector c) 0 (intent_page c)] @
    map (\<lambda>i. EvWrite (page_sector c i) (payload c i) 0) [0..<page_count c] @
    [EvWrite (segment_sector c) (commit_page c) 0, EvSync 0] @
    map (\<lambda>i. EvRead (page_sector c i) 0 (payload c i)) [0..<page_count c] @
    [EvRead (segment_sector c) 0 (commit_page c)]"

text \<open>How far a segment job has come, by its stage.\<close>

definition protocol_step :: "'e ros_context \<Rightarrow> nat" where
  "protocol_step c =
    (if ss_ready c \<noteq> 0 then 6 + 2 * page_count c else if ss_stage c = 1 then 1 else if ss_stage c = 2 then 2
     else if ss_stage c = 3 then 3 + unat (oc_index c) else if ss_stage c = 6 then 3 + page_count c
     else if ss_stage c = 7 then 4 + page_count c else if ss_stage c = 5 then 5 + page_count c + unat (oc_index c)
     else if ss_stage c = 8 then 5 + 2 * page_count c else 0)"

definition sealed_good :: "'e ros_context \<Rightarrow> bool" where
  "sealed_good c \<longleftrightarrow> container_ok (oc_container c) (unat (sg_container_bytes (oc_segment c))) (sg_identity (oc_segment c)) \<and>
     sha_run (oc_hash c) (part 0 (unat (sg_container_bytes (oc_segment c))) (oc_container c)) = Some (sg_digest (oc_segment c))"

definition segment_log :: "('e \<times> ros_event list) ros_context \<Rightarrow> bool" where
  "segment_log c \<longleftrightarrow> (if ss_stage c = 9 then sg_digest (oc_segment c) = replicate 32 0 else
     suffix (take (protocol_step c) (commit_protocol c)) (snd (oc_env c)) \<and> sealed_good c \<and>
     oc_catalog c = (if List.member [0, 1, 2] (ss_stage c) then intent_page c else commit_page c)) \<and>
     (ss_ready c \<noteq> 0 \<longrightarrow> ss_stage c \<noteq> 9 \<and> oc_receipt c = \<lparr>sr_durable = 1, sr_es_header = part 0 128 (oc_container c)\<rparr>)"

definition journalled :: "('e \<times> ros_event list) ros_context \<Rightarrow> bool" where
  "journalled c \<longleftrightarrow> (ss_fault c = 0 \<and> ss_job c = ROS_SEGMENT \<longrightarrow> segment_log c)"

abbreviation journals :: "int \<times> ('e \<times> ros_event list) ros_context \<Rightarrow> bool" where "journals \<equiv> post (\<lambda>rc. journalled)"

section \<open>The log of the port\<close>

definition adds :: "'l list \<Rightarrow> 'e \<times> 'l list \<Rightarrow> 'e \<times> 'l list \<Rightarrow> bool" where "adds l x y \<longleftrightarrow> snd y = snd x @ l"

interpretation silent: port_frame "logged p" "adds []" for p :: "'e ros_port"
  by unfold_locales (auto simp: logged_def adds_def split: prod.splits)

lemma moved_adds: "moved (adds k) c s \<Longrightarrow> moved (adds l) s t \<Longrightarrow> moved (adds (k @ l)) c t"
proof (elim movedE)
  fix e t' e' t'' assume "adds k (oc_env c) e" "s = c\<lparr>oc_env := e, oc_last_now := t'\<rparr>" "adds l (oc_env s) e'"
    "t = s\<lparr>oc_env := e', oc_last_now := t''\<rparr>"
  then show ?thesis by - (rule movedI [where e = e' and t = t''], simp_all add: adds_def)
qed

lemma fault_of_fenced: "fenced E c s \<Longrightarrow> ss_fault s \<noteq> 0"
  by (erule fencedE) (simp add: ros_fault_def ros_buffers_def)

text \<open>A callback that appends one event to the log, and its tail.\<close>

definition did :: "ros_event list \<Rightarrow> ('e \<times> ros_event list) ros_context \<Rightarrow> int \<Rightarrow> ('e \<times> ros_event list) ros_context \<Rightarrow> bool" where
  "did l c rc s \<longleftrightarrow> rc \<noteq> 0 \<and> ss_fault s \<noteq> 0 \<or> rc = ROS_OK \<and> moved (adds l) c s"

lemma settle_did:
  assumes "moved (adds l) c s" and "oc_port s = logged p" and "rc = 0 \<Longrightarrow> l = k"
  shows "post (did k c) (ros_settle rc s)"
  by (rule post_mono [OF silent.settle_ran [OF assms(2)]])
    (use assms(3) moved_adds [OF assms(1), of "[]"] in \<open>auto simp: did_def ran_def dest: fault_of_fenced\<close>)

lemma post_did:
  assumes "post (did l c) r" and "\<And>rc s. rc \<noteq> 0 \<Longrightarrow> ss_fault s \<noteq> 0 \<Longrightarrow> post Q (f rc s)" and "\<And>s. moved (adds l) c s \<Longrightarrow> post Q (f ROS_OK s)"
  shows "post Q (Let r (case_prod f))"
  using assms by (cases r) (auto simp: post_def did_def)

lemma admit_did:
  assumes "oc_port c = logged p" and "\<And>s. moved (adds []) c s \<Longrightarrow> oc_port s = logged p \<Longrightarrow> post (did l c) (f s)"
  shows "post (did l c) (let (a, s) = ros_admit w c in if a \<noteq> 0 then (ROS_FAILED, s) else f s)"
  by (rule post_ran [OF silent.admit_ran [OF assms(1)]])
    (use assms(1) in \<open>auto simp: did_def moved_fields(1) dest: fault_of_fenced intro!: post_return assms(2)\<close>)

lemma write_did:
  assumes "oc_port c = logged p"
  shows "post (did [EvWrite n q 0] c) (ros_write_page n q c)"
  unfolding ros_write_page_def
proof (rule admit_did [OF assms], rule post_let_pair)
  fix s rc e assume s: "moved (adds []) c s" "oc_port s = logged p" "the (ps_write (oc_port s)) n q (oc_deadline s) (oc_env s) = (rc, e)"
  then have "adds [EvWrite n q rc] (oc_env s) e" by (auto simp: logged_def adds_def split: prod.splits)
  then have "moved (adds [EvWrite n q rc]) s (s\<lparr>oc_env := e\<rparr>)" by (intro movedI [where e = e and t = "oc_last_now s"]) simp_all
  from moved_adds [OF s(1) this] have "moved (adds [EvWrite n q rc]) c (s\<lparr>oc_env := e\<rparr>)" by simp
  from settle_did [OF this, of p rc] s(2) show "post (did [EvWrite n q 0] c) (ros_settle rc (s\<lparr>oc_env := e\<rparr>))" by simp
qed

lemma sync_did:
  assumes "oc_port c = logged p"
  shows "post (did [EvSync 0] c) (ros_sync_map c)"
  unfolding ros_sync_map_def
proof (rule admit_did [OF assms], rule post_let_pair)
  fix s rc e assume s: "moved (adds []) c s" "oc_port s = logged p" "the (ps_sync (oc_port s)) (oc_deadline s) (oc_env s) = (rc, e)"
  then have "adds [EvSync rc] (oc_env s) e" by (auto simp: logged_def adds_def split: prod.splits)
  then have "moved (adds [EvSync rc]) s (s\<lparr>oc_env := e\<rparr>)" by (intro movedI [where e = e and t = "oc_last_now s"]) simp_all
  from moved_adds [OF s(1) this] have "moved (adds [EvSync rc]) c (s\<lparr>oc_env := e\<rparr>)" by simp
  from settle_did [OF this, of p rc] s(2) show "post (did [EvSync 0] c) (ros_settle rc (s\<lparr>oc_env := e\<rparr>))" by simp
qed

text \<open>The contract of \<open>recording_object_store.h\<close>: all successful reads fill exactly 2048 bytes.\<close>

definition reads_fill :: "'e ros_port \<Rightarrow> bool" where
  "reads_fill p \<longleftrightarrow> (\<forall>n d e. fst (the (ps_read p) n d e) = ROS_READ_OK \<longrightarrow> length (fst (snd (the (ps_read p) n d e))) = 2048)"

definition read_did :: "u32 \<Rightarrow> ('e \<times> ros_event list) ros_context \<Rightarrow> int \<Rightarrow> ('e \<times> ros_event list) ros_context \<Rightarrow> bool" where
  "read_did n c rc s \<longleftrightarrow> rc = ROS_READ_OK \<longrightarrow> (\<exists>q. length q = 2048 \<and> moved (adds [EvRead n 0 q]) (c\<lparr>oc_page := q\<rparr>) s)"

lemma page_did:
  assumes p: "oc_port c = logged p" and q: "length (oc_page c) = 2048" and f: "reads_fill p"
  shows "post (read_did n c) (ros_read_page n c)"
  unfolding ros_read_page_def
proof (rule post_ran [OF silent.admit_ran [OF p]])
  fix s assume m: "moved (adds []) c s"
  have s: "oc_port s = logged p" "oc_page s = oc_page c" using m p moved_fields(1,8) by metis+
  obtain rc d e where r: "the (ps_read (oc_port s)) n (oc_deadline s) (oc_env s) = (rc, d, e)"
    by (cases "the (ps_read (oc_port s)) n (oc_deadline s) (oc_env s)")
  have a: "adds [EvRead n rc d] (oc_env s) e" using r s by (auto simp: logged_def adds_def split: prod.splits)
  have l: "length d = 2048" if "rc = 0"
  proof -
    have "the (ps_read p) n (oc_deadline s) (fst (oc_env s)) = (rc, d, fst e)" using r s by (auto simp: logged_def split: prod.splits)
    then show ?thesis using f that unfolding reads_fill_def by (metis fst_conv snd_conv)
  qed
  let ?s = "s\<lparr>oc_page := blit 0 d (oc_page s), oc_env := e\<rparr>"
  obtain g t where g: "ros_guard ?s = (g, t)" by (cases "ros_guard ?s")
  have t: "ran (adds []) ?s g t" using silent.guard_ran [of ?s p] s g by (simp add: post_def)
  have "\<exists>q. length q = 2048 \<and> moved (adds [EvRead n 0 q]) (c\<lparr>oc_page := q\<rparr>) t" if "g = 0" "rc = 0"
  proof -
    obtain e1 t1 where e1: "adds [] (oc_env c) e1" "s = c\<lparr>oc_env := e1, oc_last_now := t1\<rparr>" using m by (rule movedE)
    have b: "blit 0 d (oc_page s) = d" using l that s q by (simp add: blit_append)
    have "moved (adds [EvRead n 0 d]) (c\<lparr>oc_page := d\<rparr>) ?s"
      using e1 a b that by - (rule movedI [where e = e and t = t1], simp_all add: adds_def)
    then show ?thesis using moved_adds t that l by (fastforce simp: ran_def)
  qed
  then show "post (read_did n c) (if ROS_OK \<noteq> 0 then (ROS_FAILED, s)
      else let (rc, d, e) = the (ps_read (oc_port s)) n (oc_deadline s) (oc_env s);
              (g, c) = ros_guard (s\<lparr>oc_page := blit 0 d (oc_page s), oc_env := e\<rparr>) in
       if g \<noteq> 0 then (ROS_FAILED, c) else if rc \<noteq> ROS_READ_OK \<and> rc \<noteq> ROS_READ_MISSING then ros_fault rc c else (rc, c))"
    by (auto simp: r g post_def read_did_def ros_fault_def)
qed (simp add: post_def read_did_def)

section \<open>Progress along the protocol\<close>

lemma protocol_length: "length (commit_protocol c) = 6 + 2 * page_count c"
  by (simp add: commit_protocol_def)

lemma protocol_nth:
  "commit_protocol c ! 0 = EvWrite (segment_sector c) (intent_page c) 0" "commit_protocol c ! 1 = EvSync 0"
  "commit_protocol c ! 2 = EvRead (segment_sector c) 0 (intent_page c)"
  "i < page_count c \<Longrightarrow> commit_protocol c ! (3 + i) = EvWrite (page_sector c i) (payload c i) 0"
  "commit_protocol c ! (3 + page_count c) = EvWrite (segment_sector c) (commit_page c) 0"
  "commit_protocol c ! (4 + page_count c) = EvSync 0"
  "i < page_count c \<Longrightarrow> commit_protocol c ! (5 + page_count c + i) = EvRead (page_sector c i) 0 (payload c i)"
  "commit_protocol c ! (5 + 2 * page_count c) = EvRead (segment_sector c) 0 (commit_page c)"
  by (simp_all add: commit_protocol_def nth_append numeral_eq_Suc)

lemma protocol_event: "k < 6 + 2 * page_count c \<Longrightarrow> take 1 (drop k (commit_protocol c)) = [commit_protocol c ! k]"
  by (simp add: take_Suc protocol_length hd_drop_conv_nth)

text \<open>What the protocol depends on: it stays the same during a segment job.\<close>

definition same_plan :: "'e ros_context \<Rightarrow> 'e ros_context \<Rightarrow> bool" where
  "same_plan c s \<longleftrightarrow> oc_segment s = oc_segment c \<and> oc_container s = oc_container c \<and> oc_hash s = oc_hash c \<and>
     oc_root_count s = oc_root_count c \<and> oc_extent_profile s = oc_extent_profile c \<and>
     ro_mode (oc_records s ! unat (sg_root (oc_segment c))) = ro_mode (oc_records c ! unat (sg_root (oc_segment c)))"

lemma plan_pages:
  assumes "same_plan c s"
  shows "intent_page s = intent_page c" "commit_page s = commit_page c" "page_count s = page_count c" "segment_sector s = segment_sector c"
    "payload s = payload c" "sealed_good s = sealed_good c"
proof -
  have "segment_fields k s = segment_fields k c" for k
    using assms by (simp add: same_plan_def segment_fields_def catalog_start_def format_tag_def ros_sector_def)
  then show "intent_page s = intent_page c" "commit_page s = commit_page c"
    using assms by (simp_all add: intent_page_def commit_page_def catalog_image_def hashed_def same_plan_def)
  show "payload s = payload c" by (rule ext) (use assms in \<open>simp add: payload_def same_plan_def\<close>)
qed (use assms in \<open>simp_all add: same_plan_def page_count_def segment_sector_def ros_sector_def sealed_good_def\<close>)

lemma plan_protocol:
  assumes "same_plan c s"
  shows "commit_protocol s = commit_protocol c"
  by (simp add: commit_protocol_def page_sector_def plan_pages [OF assms])

lemma log_step:
  assumes "segment_log c" and "ss_stage c \<noteq> 9" and "same_plan c s" and "ss_stage s \<noteq> 9"
    and "snd (oc_env s) = snd (oc_env c) @ take d (drop (protocol_step c) (commit_protocol c))" and "protocol_step s = protocol_step c + d"
    and "oc_catalog s = (if List.member [0, 1, 2] (ss_stage s) then intent_page c else commit_page c)"
    and "ss_ready s \<noteq> 0 \<Longrightarrow> oc_receipt s = \<lparr>sr_durable = 1, sr_es_header = part 0 128 (oc_container s)\<rparr>"
  shows "segment_log s"
proof -
  obtain l where "snd (oc_env c) = l @ take (protocol_step c) (commit_protocol c)"
    using assms(1,2) by (auto simp: segment_log_def suffix_def)
  then have "suffix (take (protocol_step s) (commit_protocol s)) (snd (oc_env s))"
    using assms(5,6) plan_protocol [OF assms(3)] by (auto simp: suffix_def take_add)
  then show ?thesis
    using assms(1,2,4,7,8) plan_pages [OF assms(3)] by (auto simp: segment_log_def)
qed

lemma log_event:
  assumes "segment_log c" and "ss_stage c \<noteq> 9" and "same_plan c s" and "ss_stage s \<noteq> 9"
    and "snd (oc_env s) = snd (oc_env c) @ [commit_protocol c ! protocol_step c]" and "protocol_step c < 6 + 2 * page_count c"
    and "protocol_step s = Suc (protocol_step c)"
    and "oc_catalog s = (if List.member [0, 1, 2] (ss_stage s) then intent_page c else commit_page c)"
    and "ss_ready s \<noteq> 0 \<Longrightarrow> oc_receipt s = \<lparr>sr_durable = 1, sr_es_header = part 0 128 (oc_container s)\<rparr>"
  shows "segment_log s"
  by (rule log_step [OF assms(1-4), of 1]) (use assms protocol_event [OF assms(6)] in simp_all)

lemma log_catalog: "segment_log c \<Longrightarrow> ss_stage c \<noteq> 9 \<Longrightarrow> oc_catalog c = (if List.member [0, 1, 2] (ss_stage c) then intent_page c else commit_page c)"
  by (simp add: segment_log_def)

lemma journalledI: "segment_log c \<Longrightarrow> journalled c" "ss_fault c \<noteq> 0 \<Longrightarrow> journalled c"
  by (simp_all add: journalled_def)

lemma journals_fault: "journals (ros_fault err c)"
  by (simp add: post_def journalled_def ros_fault_def ros_buffers_def)

lemma journals_failed: "ss_fault c \<noteq> 0 \<Longrightarrow> journals (rc, c)"
  by (simp add: post_def journalled_def)

lemma journals_log: "segment_log c \<Longrightarrow> journals (rc, c)"
  by (simp add: post_def journalled_def)

section \<open>Steps of a segment job\<close>

lemma payload_page_eq:
  assumes "segment_fits c" and "ros_shape c"
  shows "payload_page c = payload c (unat (oc_index c))"
proof -
  have "unat (sg_container_bytes (oc_segment c)) \<le> length (oc_container c)" using pages_bound(2) [OF assms(1)] assms(2) by (simp add: ros_shape_def)
  then show ?thesis by (simp add: payload_page_def payload_def page_bytes_def Let_def blit_append min_def)
qed

lemma payload_same:
  assumes "segment_fits c" and "ros_shape c" and "\<not> payload_differs c"
  shows "oc_page c = payload c (unat (oc_index c))"
proof -
  have l: "length (oc_page c) = 2048" using assms(2) by (simp add: ros_shape_def)
  have n: "page_bytes c \<le> 2048" by (simp add: page_bytes_def)
  have "oc_page c = part 0 (page_bytes c) (oc_page c) @ part (page_bytes c) (2048 - page_bytes c) (oc_page c)"
    using part_add [of 0 "page_bytes c" "2048 - page_bytes c" "oc_page c"] l n by (simp add: part_all)
  moreover have "part (page_bytes c) (2048 - page_bytes c) (oc_page c) = replicate (2048 - page_bytes c) 255"
    using assms(3) l n by (intro replicate_eqI) (auto simp: payload_differs_def ros_fill_def Let_def list_all_iff)
  ultimately show ?thesis using assms(3) by (simp add: payload_differs_def payload_def Let_def page_bytes_def)
qed

text \<open>A segment job in progress.\<close>

definition in_progress :: "'e ros_port \<Rightarrow> nat \<Rightarrow> ('e \<times> ros_event list) ros_context \<Rightarrow> bool" where
  "in_progress p cap c \<longleftrightarrow> store_ok (logged p) cap (\<lambda>e. True) c \<and> ss_fault c = 0 \<and> ss_job c = ROS_SEGMENT \<and> ss_ready c = 0 \<and> segment_log c"

lemma in_progressD:
  assumes "in_progress p cap c"
  shows "oc_port c = logged p" "ros_shape c" "segment_fits c" "length (oc_page c) = 2048" "unat (oc_index c) \<le> page_count c" "segment_log c"
    "ss_ready c = 0" "List.member job_stages (ss_stage c)"
  using assms any.ok_segment [of "logged p" cap c] any.ok_port [of "logged p" cap c] any.ok_shape(1) [of "logged p" cap c]
  by (auto simp: in_progress_def segment_job_fits_def segment_fits_def Let_def page_count_def word_le_nat_alt ros_shape_def)

lemma same_plan_moved: "moved E c s \<Longrightarrow> same_plan c s"
  by (auto simp: same_plan_def elim!: movedE)

lemma step_log:
  assumes "in_progress p cap c" and "ss_stage c \<noteq> 9" and "moved (adds [commit_protocol c ! protocol_step c]) (c\<lparr>oc_page := q\<rparr>) s"
    and "protocol_step c < 6 + 2 * page_count c" and "protocol_step (s\<lparr>oc_index := i, ss_stage := n\<rparr>) = Suc (protocol_step c)" and "n \<noteq> 9"
    and "List.member [0, 1, 2] n = List.member [0, 1, 2] (ss_stage c)"
  shows "segment_log (s\<lparr>oc_index := i, ss_stage := n\<rparr>)"
proof -
  note d = in_progressD [OF assms(1)]
  obtain e t where e: "snd e = snd (oc_env c) @ [commit_protocol c ! protocol_step c]" "s = c\<lparr>oc_page := q, oc_env := e, oc_last_now := t\<rparr>"
    using assms(3) by (auto simp: adds_def elim!: movedE)
  show ?thesis
    by (rule log_event [OF d(6) assms(2)])
      (use assms(4-7) e d(7) log_catalog [OF d(6) assms(2)] in \<open>simp_all add: same_plan_def\<close>)
qed

lemma write_catalog_journals:
  assumes g: "in_progress p cap c" and st: "ss_stage c = 0 \<or> ss_stage c = 6"
  shows "journals (let (rc, c) = ros_write_page (segment_sector c) (oc_catalog c) c in if rc \<noteq> 0 then (ROS_FAILED, c) else (ROS_PENDING, stage_next c))"
proof (rule post_did [OF write_did [OF in_progressD(1) [OF g]]])
  fix s assume m: "moved (adds [EvWrite (segment_sector c) (oc_catalog c) 0]) c s"
  note d = in_progressD [OF g]
  have f: "ss_stage s = ss_stage c" "ss_ready s = 0" "page_count s = page_count c" "oc_index s = oc_index c"
    using m d(7) by (auto simp: page_count_def elim!: movedE)
  have k: "protocol_step c = (if ss_stage c = 0 then 0 else 3 + page_count c)" using st d(7) by (auto simp: protocol_step_def)
  have n: "protocol_step (s\<lparr>oc_index := oc_index c, ss_stage := ss_stage c + 1\<rparr>) = Suc (protocol_step c)"
    using st f k by (auto simp: protocol_step_def page_count_def)
  have "[commit_protocol c ! protocol_step c] = [EvWrite (segment_sector c) (oc_catalog c) 0]"
    using st k protocol_nth(1,5) [of c] log_catalog [OF d(6)] by auto
  then have "segment_log (s\<lparr>oc_index := oc_index c, ss_stage := ss_stage c + 1\<rparr>)"
    using m st k n by (intro step_log [OF g, of "oc_page c"]) auto
  moreover have "stage_next s = s\<lparr>oc_index := oc_index c, ss_stage := ss_stage c + 1\<rparr>" using f by (simp add: stage_next_def)
  ultimately show "journals (if ROS_OK \<noteq> 0 then (ROS_FAILED, s) else (ROS_PENDING, stage_next s))" by (simp add: journals_log)
qed (simp add: journals_failed)

lemma sync_journals:
  assumes g: "in_progress p cap c" and st: "ss_stage c = 1 \<and> i = oc_index c \<and> n = 2 \<or> ss_stage c = 7 \<and> i = 0 \<and> n = 5"
    and h: "\<And>s. moved (adds [EvSync 0]) c s \<Longrightarrow> h s = s\<lparr>oc_index := i, ss_stage := n\<rparr>"
  shows "journals (let (rc, c) = ros_sync_map c in if rc \<noteq> 0 then (ROS_FAILED, c) else (ROS_PENDING, h c))"
proof (rule post_did [OF sync_did [OF in_progressD(1) [OF g]]])
  fix s assume m: "moved (adds [EvSync 0]) c s"
  note d = in_progressD [OF g]
  have f: "ss_ready s = 0" "page_count s = page_count c" using m d(7) by (auto simp: page_count_def elim!: movedE)
  have k: "protocol_step c = (if ss_stage c = 1 then 1 else 4 + page_count c)" using st d(7) by (auto simp: protocol_step_def)
  have "protocol_step (s\<lparr>oc_index := i, ss_stage := n\<rparr>) = Suc (protocol_step c)"
    using st f k by (auto simp: protocol_step_def page_count_def)
  moreover have "[commit_protocol c ! protocol_step c] = [EvSync 0]" using st k protocol_nth(2,6) [of c] by auto
  ultimately have "segment_log (s\<lparr>oc_index := i, ss_stage := n\<rparr>)"
    using m st k by (intro step_log [OF g, of "oc_page c"]) auto
  then show "journals (if ROS_OK \<noteq> 0 then (ROS_FAILED, s) else (ROS_PENDING, h s))" by (simp add: journals_log h [OF m])
qed (simp add: journals_failed)

lemma stay_log:
  assumes g: "in_progress p cap c" and st: "ss_stage c = 3 \<and> n = 6 \<or> ss_stage c = 5 \<and> n = 8" and i: "oc_index c = sg_pages (oc_segment c)"
  shows "segment_log (c\<lparr>ss_stage := n\<rparr>)"
  by (rule log_step [OF in_progressD(6) [OF g], of _ 0])
    (use st i in_progressD(7) [OF g] log_catalog [OF in_progressD(6) [OF g]] in \<open>auto simp: same_plan_def protocol_step_def page_count_def\<close>)

lemma index_suc:
  assumes "in_progress p cap c" and "oc_index c \<noteq> sg_pages (oc_segment c)"
  shows "unat (oc_index c + 1) = Suc (unat (oc_index c))" "unat (oc_index c) < page_count c"
proof -
  show l: "unat (oc_index c) < page_count c"
    using in_progressD(5) [OF assms(1)] assms(2) by (auto simp: page_count_def le_less word_unat_eq_iff)
  then show "unat (oc_index c + 1) = Suc (unat (oc_index c))"
    using unsigned_less [of "sg_pages (oc_segment c)", where ?'a = nat] by (simp add: unat_word_ariths page_count_def)
qed

lemma segment_write_journals:
  assumes g: "in_progress p cap c" and st: "ss_stage c = 3"
  shows "journals (segment_write c)"
proof -
  note d = in_progressD [OF g]
  let ?c = "c\<lparr>oc_page := payload_page c\<rparr>"
  have "journals (let (rc, c) = ros_write_page (segment_sector ?c + 1 + oc_index ?c) (oc_page ?c) ?c in
      if rc \<noteq> 0 then (ROS_FAILED, c) else (ROS_PENDING, index_next c))" if i: "oc_index c \<noteq> sg_pages (oc_segment c)"
  proof (rule post_did [OF write_did [of _ p]])
    fix s assume m: "moved (adds [EvWrite (segment_sector ?c + 1 + oc_index ?c) (oc_page ?c) 0]) ?c s"
    note n = index_suc [OF g i]
    have f: "ss_ready s = 0" "page_count s = page_count c" "ss_stage s = 3" "oc_index s = oc_index c"
      using m d(7) st by (auto simp: page_count_def elim!: movedE)
    have k: "protocol_step c = 3 + unat (oc_index c)" using st d(7) by (simp add: protocol_step_def)
    have "commit_protocol c ! protocol_step c = EvWrite (segment_sector ?c + 1 + oc_index ?c) (oc_page ?c) 0"
      unfolding k protocol_nth(4) [OF n(2)] using payload_page_eq [OF d(3,2)]
      by (simp add: page_sector_def segment_sector_def ros_sector_def)
    moreover have "protocol_step (s\<lparr>oc_index := oc_index c + 1, ss_stage := 3\<rparr>) = Suc (protocol_step c)"
      using f k n by (simp add: protocol_step_def page_count_def)
    ultimately have "segment_log (s\<lparr>oc_index := oc_index c + 1, ss_stage := 3\<rparr>)"
      using m st k n by (intro step_log [OF g, of "payload_page c"]) auto
    moreover have "index_next s = s\<lparr>oc_index := oc_index c + 1, ss_stage := 3\<rparr>" using f by (simp add: index_next_def)
    ultimately show "journals (if ROS_OK \<noteq> 0 then (ROS_FAILED, s) else (ROS_PENDING, index_next s))" by (simp add: journals_log)
  qed (simp_all add: journals_failed d(1))
  then show ?thesis
    unfolding segment_write_def Let_def [of ?c] by (intro post_if journals_log stay_log [OF g]) (simp_all add: st)
qed

lemma post_page:
  assumes "post (read_did n c) r" and "\<And>rc s. rc \<noteq> 0 \<Longrightarrow> post Q (f rc s)"
    and "\<And>q s. length q = 2048 \<Longrightarrow> moved (adds [EvRead n 0 q]) (c\<lparr>oc_page := q\<rparr>) s \<Longrightarrow> post Q (f ROS_READ_OK s)"
  shows "post Q (Let r (case_prod f))"
  using assms by (cases r; cases "fst r = 0") (auto simp: post_def read_did_def)

lemma segment_verify_journals:
  assumes g: "in_progress p cap c" and st: "ss_stage c = 5" and fill: "reads_fill p"
  shows "journals (segment_verify c)"
proof -
  note d = in_progressD [OF g]
  have "journals (let (rc, c) = ros_read_page (segment_sector c + 1 + oc_index c) c in
       if rc \<noteq> ROS_READ_OK then ros_fault ROS_FAILED c
       else if payload_differs c then ros_fault ROS_FAILED c else (ROS_PENDING, index_next c))" if i: "oc_index c \<noteq> sg_pages (oc_segment c)"
  proof (rule post_page [OF page_did [OF d(1,4) fill]])
    fix q s assume q: "length q = 2048" and m: "moved (adds [EvRead (segment_sector c + 1 + oc_index c) 0 q]) (c\<lparr>oc_page := q\<rparr>) s"
    note n = index_suc [OF g i]
    obtain e t where s: "s = c\<lparr>oc_page := q, oc_env := e, oc_last_now := t\<rparr>" using m by (rule movedE) simp
    have k: "protocol_step c = 5 + page_count c + unat (oc_index c)" using st d(7) by (simp add: protocol_step_def)
    have "segment_log (s\<lparr>oc_index := oc_index c + 1, ss_stage := 5\<rparr>)" if "\<not> payload_differs s"
    proof -
      have "q = payload c (unat (oc_index c))"
        using payload_same [of s] that d(2,3) q by (simp add: s ros_shape_def segment_fits_def payload_def)
      then have "commit_protocol c ! protocol_step c = EvRead (segment_sector c + 1 + oc_index c) 0 q"
        unfolding k protocol_nth(7) [OF n(2)] by (simp add: page_sector_def)
      moreover have "protocol_step (s\<lparr>oc_index := oc_index c + 1, ss_stage := 5\<rparr>) = Suc (protocol_step c)"
        using k n d(7) by (simp add: protocol_step_def page_count_def s)
      ultimately show ?thesis using m st k n by (intro step_log [OF g, of q]) auto
    qed
    moreover have "index_next s = s\<lparr>oc_index := oc_index c + 1, ss_stage := 5\<rparr>" using st by (simp add: index_next_def s)
    ultimately show "journals (if ROS_READ_OK \<noteq> ROS_READ_OK then ros_fault ROS_FAILED s
        else if payload_differs s then ros_fault ROS_FAILED s else (ROS_PENDING, index_next s))"
      by (auto simp: journals_log journals_fault)
  qed (simp add: journals_fault)
  then show ?thesis
    unfolding segment_verify_def by (intro post_if journals_log stay_log [OF g]) (simp_all add: st)
qed

lemma segment_intent_journals:
  assumes g: "in_progress p cap c" and st: "ss_stage c = 2" and fill: "reads_fill p"
  shows "journals (segment_intent c)"
  unfolding segment_intent_def
proof (rule post_page [OF page_did [OF in_progressD(1,4) [OF g] fill]])
  fix q s assume q: "length q = 2048" and m: "moved (adds [EvRead (segment_sector c) 0 q]) (c\<lparr>oc_page := q\<rparr>) s"
  note d = in_progressD [OF g]
  obtain e t where s: "s = c\<lparr>oc_page := q, oc_env := e, oc_last_now := t\<rparr>" and e: "snd e = snd (oc_env c) @ [EvRead (segment_sector c) 0 q]"
    using m by (auto simp: adds_def elim!: movedE)
  let ?s = "(set_slot_state (sg_slot (oc_segment s)) SLOT_INTENT s)\<lparr>ss_consumed_slots := ss_consumed_slots (set_slot_state (sg_slot (oc_segment s)) SLOT_INTENT s) + 1\<rparr>"
  have k: "protocol_step c = 2" using st d(7) by (simp add: protocol_step_def)
  have pl: "same_plan c ?s" by (simp add: same_plan_def s)
  have pc: "catalog_image (segment_fields SLOT_COMMIT ?s) ?s = commit_page c" using plan_pages(2) [OF pl] unfolding commit_page_def .
  have go: "journals (case catalog_segment SLOT_COMMIT ?s of (rc, c) \<Rightarrow> if rc \<noteq> 0 then (ROS_FAILED, c) else (ROS_PENDING, stage_next (c\<lparr>oc_index := 0\<rparr>)))"
    if qc: "q = oc_catalog c"
  proof -
    obtain rc u where u: "catalog_segment SLOT_COMMIT ?s = (rc, u)" by (cases "catalog_segment SLOT_COMMIT ?s")
    have "oc_port ?s = logged p" using d(1) by (simp add: s)
    from silent.catalog_seal_ran [OF this, of "segment_fields SLOT_COMMIT ?s"] u
    have "rc \<noteq> 0 \<and> ss_fault u \<noteq> 0 \<or> rc = 0 \<and> moved (adds []) (?s\<lparr>oc_catalog := commit_page c\<rparr>) u"
      unfolding pc [symmetric] catalog_image_def hashed_def by (auto simp: catalog_segment_def post_def dest: fault_of_fenced)
    moreover have "segment_log (stage_next (u\<lparr>oc_index := 0\<rparr>))" if mu: "moved (adds []) (?s\<lparr>oc_catalog := commit_page c\<rparr>) u"
    proof (rule log_event [OF d(6)])
      obtain e2 t2 where u: "u = ?s\<lparr>oc_catalog := commit_page c, oc_env := e2, oc_last_now := t2\<rparr>" and e2: "snd e2 = snd (oc_env ?s)"
        using mu by (rule movedE) (auto simp: adds_def)
      note us = u [unfolded s]
      show "same_plan c (stage_next (u\<lparr>oc_index := 0\<rparr>))" by (simp add: same_plan_def us stage_next_def)
      show "snd (oc_env (stage_next (u\<lparr>oc_index := 0\<rparr>))) = snd (oc_env c) @ [commit_protocol c ! protocol_step c]"
        unfolding k protocol_nth(3) using e2 e qc log_catalog [OF d(6)] st by (simp add: us stage_next_def s)
      show "protocol_step (stage_next (u\<lparr>oc_index := 0\<rparr>)) = Suc (protocol_step c)"
        using k st d(7) by (simp add: protocol_step_def us stage_next_def)
      show "oc_catalog (stage_next (u\<lparr>oc_index := 0\<rparr>)) =
          (if List.member [0, 1, 2] (ss_stage (stage_next (u\<lparr>oc_index := 0\<rparr>))) then intent_page c else commit_page c)"
        using st by (simp add: us stage_next_def)
    qed (use st k mu d(7) in \<open>auto simp: s stage_next_def elim!: movedE\<close>)
    ultimately show ?thesis using u by (auto intro: journals_failed journals_log)
  qed
  have "q = oc_catalog c" if "oc_page s = oc_catalog s" using that by (simp add: s)
  then show "journals (if ROS_READ_OK \<noteq> ROS_READ_OK \<or> oc_page s \<noteq> oc_catalog s then ros_fault ROS_FAILED s
     else let c = set_slot_state (sg_slot (oc_segment s)) SLOT_INTENT s;
              (rc, c) = catalog_segment SLOT_COMMIT (c\<lparr>ss_consumed_slots := ss_consumed_slots c + 1\<rparr>) in
       if rc \<noteq> 0 then (ROS_FAILED, c) else (ROS_PENDING, stage_next (c\<lparr>oc_index := 0\<rparr>)))"
    using go by (auto simp: Let_def intro!: post_if journals_fault)
qed (simp add: journals_fault)

lemma segment_commit_journals:
  assumes g: "in_progress p cap c" and st: "ss_stage c = 8" and fill: "reads_fill p"
  shows "journals (segment_commit c)"
  unfolding segment_commit_def
proof (rule post_page [OF page_did [OF in_progressD(1,4) [OF g] fill]])
  fix q s assume q: "length q = 2048" and m: "moved (adds [EvRead (segment_sector c) 0 q]) (c\<lparr>oc_page := q\<rparr>) s"
  note d = in_progressD [OF g]
  obtain e t where s: "s = c\<lparr>oc_page := q, oc_env := e, oc_last_now := t\<rparr>" and e: "snd e = snd (oc_env c) @ [EvRead (segment_sector c) 0 q]"
    using m by (auto simp: adds_def elim!: movedE)
  let ?r = "\<lparr>sr_durable = 1, sr_es_header = part 0 128 (oc_container c)\<rparr>"
  let ?s = "(ros_account (set_slot_state (sg_slot (oc_segment s)) SLOT_COMMIT s))\<lparr>oc_receipt := ?r\<rparr>"
  have k: "protocol_step c = 5 + 2 * page_count c" using st d(7) by (simp add: protocol_step_def)
  have root: "unat (sg_root (oc_segment c)) < length (oc_records c)"
    using d(2,3) by (auto simp: ros_shape_def segment_fits_def Let_def word_less_nat_alt)
  have pl: "same_plan c ?s" using root by (simp add: same_plan_def ros_account_def Let_def s)
  have go: "journals (ros_ready ?s)" if qc: "q = oc_catalog c"
    unfolding ros_ready_def
  proof (rule post_ran [OF silent.guard_ran [of _ p]])
    fix u assume mu: "moved (adds []) ?s u"
    obtain e2 t2 where u: "u = ?s\<lparr>oc_env := e2, oc_last_now := t2\<rparr>" and e2: "snd e2 = snd (oc_env ?s)"
      using mu by (rule movedE) (auto simp: adds_def)
    have "segment_log (u\<lparr>ss_ready := 1\<rparr>)"
    proof (rule log_event [OF d(6)])
      show "same_plan c (u\<lparr>ss_ready := 1\<rparr>)" using pl by (simp add: same_plan_def u s)
      show "snd (oc_env (u\<lparr>ss_ready := 1\<rparr>)) = snd (oc_env c) @ [commit_protocol c ! protocol_step c]"
        unfolding k protocol_nth(8) using e2 e qc log_catalog [OF d(6)] st by (simp add: u s)
      show "protocol_step (u\<lparr>ss_ready := 1\<rparr>) = Suc (protocol_step c)" using k by (simp add: protocol_step_def u page_count_def s)
    qed (use st k log_catalog [OF d(6)] in \<open>simp_all add: u s ros_account_def Let_def\<close>)
    then show "journals (if ROS_OK \<noteq> 0 then (ROS_FAILED, u) else (ROS_READY, u\<lparr>ss_ready := 1\<rparr>))" by (simp add: journals_log)
  qed (simp_all add: journals_failed fault_of_fenced, simp add: d(1) s)
  have "q = oc_catalog c" if "oc_page s = oc_catalog s" using that by (simp add: s)
  moreover have "oc_container s = oc_container c" by (simp add: s)
  ultimately show "journals (if ROS_READ_OK \<noteq> ROS_READ_OK \<or> oc_page s \<noteq> oc_catalog s then ros_fault ROS_FAILED s
     else let c = ros_account (set_slot_state (sg_slot (oc_segment s)) SLOT_COMMIT s) in
       ros_ready (c\<lparr>oc_receipt := \<lparr>sr_durable = 1, sr_es_header = part 0 128 (oc_container c)\<rparr>\<rparr>))"
    using go by (auto simp: Let_def intro!: post_if journals_fault)
qed (simp add: journals_fault)

lemma sealed_log:
  assumes "sealed_as (adds []) n c k s" and "segment_fits c" and "n = unat (es_plaintext_bytes (sg_identity (oc_segment c)))"
    and "sg_digest (oc_segment c) = replicate 32 0" and "ss_ready c = 0"
  shows "segment_log (s\<lparr>ss_stage := 0\<rparr>)"
proof -
  have n: "unat (sg_container_bytes (oc_segment c)) = n + 209"
    using assms(2,3) by (simp add: segment_fits_def Let_def word_le_nat_alt unat_word_ariths)
  let ?d = "hashed c (part 0 (n + 209) k) (replicate 32 0)"
  define t where "t = digested ?d (c\<lparr>oc_container := k\<rparr>)"
  have k: "container_ok k (n + 209) (sg_identity (oc_segment c))" "fst (oc_hash c (part 0 (n + 209) k)) = 0" "snd (snd (oc_hash c (part 0 (n + 209) k))) = 32"
    and m: "moved (adds []) (t\<lparr>oc_catalog := catalog_image (segment_fields SLOT_INTENT t) c\<rparr>) s"
    using assms(1,4) by (simp_all add: sealed_as_def Let_def t_def)
  have sha: "sha_run (oc_hash c) (part 0 (n + 209) k) = Some ?d"
    using k(2,3) by (auto simp: sha_run_def hashed_def split: prod.splits)
  have i: "catalog_image (segment_fields SLOT_INTENT t) c = intent_page t" by (simp add: intent_page_def catalog_image_def hashed_def t_def digested_def)
  obtain e y where s: "s = t\<lparr>oc_catalog := intent_page t, oc_env := e, oc_last_now := y\<rparr>" using m unfolding i by (rule movedE) simp
  have "same_plan t (s\<lparr>ss_stage := 0\<rparr>)" by (simp add: same_plan_def s)
  from plan_pages [OF this] have "intent_page (s\<lparr>ss_stage := 0\<rparr>) = intent_page t" "sealed_good (s\<lparr>ss_stage := 0\<rparr>) = sealed_good t" by auto
  moreover have "sealed_good t" using k(1) sha n by (simp add: sealed_good_def t_def digested_def)
  moreover have "protocol_step (s\<lparr>ss_stage := 0\<rparr>) = 0" "ss_ready s = 0" using assms(5) by (simp_all add: protocol_step_def s t_def digested_def)
  ultimately show ?thesis by (simp add: segment_log_def s)
qed

lemma seal_journals:
  assumes "segment_fits c" and "n = unat (es_plaintext_bytes (sg_identity (oc_segment c)))" and "oc_port c = logged p"
    and "sg_digest (oc_segment c) = replicate 32 0" and "ss_ready c = 0"
  shows "post (\<lambda>rc s. rc \<noteq> ROS_PENDING \<and> ss_fault s \<noteq> 0 \<or> rc = ROS_PENDING \<and> ss_stage s = ss_stage c \<and> segment_log (s\<lparr>ss_stage := 0\<rparr>)) (seal_prepared x n c)"
proof (rule post_mono [OF silent.seal_prepared_ran [OF assms(3)]])
  fix rc s assume "seal_ran (adds []) n c rc s"
  then consider "rc = ROS_FAILED" "ss_fault s \<noteq> 0" | k where "rc = ROS_PENDING" "sealed_as (adds []) n c k s"
    unfolding seal_ran_def by (auto dest: fault_of_fenced)
  then show "rc \<noteq> ROS_PENDING \<and> ss_fault s \<noteq> 0 \<or> rc = ROS_PENDING \<and> ss_stage s = ss_stage c \<and> segment_log (s\<lparr>ss_stage := 0\<rparr>)"
  proof cases
    case 2
    moreover from 2 have "ss_stage s = ss_stage c" by (auto simp: sealed_as_def Let_def digested_def elim!: movedE)
    ultimately show ?thesis using sealed_log [OF 2(2) assms(1,2,4,5)] by simp
  qed simp
qed

lemma segment_step_journals:
  assumes g: "in_progress p cap c" and fill: "reads_fill p"
  shows "journals (segment_step c)"
proof -
  note d = in_progressD [OF g]
  have q: "journals (let (rc, s) = seal_prepared x (unat (es_plaintext_bytes (sg_identity (oc_segment c)))) c in (rc, if rc = ROS_PENDING then s\<lparr>ss_stage := 0\<rparr> else s))"
    if "ss_stage c = 9" for x
    by (rule post_call [OF seal_journals [OF d(3) refl d(1) _ d(7)]])
      (use that d(6) in \<open>auto simp: segment_log_def intro: journals_log journals_failed\<close>)
  have z: "journals (let (rc, c) = ros_sync_map c in if rc \<noteq> 0 then (ROS_FAILED, c) else (ROS_PENDING, c\<lparr>oc_index := 0, ss_stage := 5\<rparr>))" if "ss_stage c = 7"
    by (rule sync_journals [OF g, of 0 5]) (simp_all add: that)
  have y: "journals (let (rc, c) = ros_sync_map c in if rc \<noteq> 0 then (ROS_FAILED, c) else (ROS_PENDING, stage_next c))" if "ss_stage c = 1"
    by (rule sync_journals [OF g, of "oc_index c" 2]) (use that in \<open>auto simp: stage_next_def elim!: movedE\<close>)
  have st: "ss_stage c = 8" if "ss_stage c \<noteq> 9" "ss_stage c \<noteq> 0" "ss_stage c \<noteq> 6" "ss_stage c \<noteq> 1" "ss_stage c \<noteq> 2" "ss_stage c \<noteq> 3" "ss_stage c \<noteq> 5" "ss_stage c \<noteq> 7"
    using that d(8) by (auto simp: job_stages_def)
  show ?thesis
    unfolding segment_step_def Let_def [of "ss_stage c"] Let_def [of "unat _"]
    by (intro post_if; (rule q | rule write_catalog_journals [OF g] | rule y | rule z | rule segment_intent_journals [OF g _ fill] | rule segment_write_journals [OF g] |
          rule segment_verify_journals [OF g _ fill] | rule segment_commit_journals [OF g _ fill]); (assumption | rule st; simp))
qed

section \<open>Other jobs\<close>

lemma job_fault [simp]: "ss_job (snd (ros_fault err c)) = ss_job c"
  by (simp add: ros_fault_def ros_buffers_def)

lemma job_guard [simp]: "ss_job (snd (ros_guard c)) = ss_job c"
  by (simp add: ros_guard_def Let_def case_prod_beta)

lemma job_settle [simp]: "ss_job (snd (ros_settle rc c)) = ss_job c"
  by (simp add: ros_settle_def Let_def case_prod_beta)

lemma job_admit [simp]: "ss_job (snd (ros_admit w c)) = ss_job c"
  by (simp add: ros_admit_def Let_def case_prod_beta)

lemma job_transfers [simp]:
  "ss_job (snd (snd (ros_hash x out c))) = ss_job c" "ss_job (snd (ros_read_page k c)) = ss_job c"
  "ss_job (snd (ros_write_page k q c)) = ss_job c" "ss_job (snd (ros_sync_map c)) = ss_job c" "ss_job (snd (ros_ready c)) = ss_job c"
  by (simp_all add: ros_hash_def ros_read_page_def ros_write_page_def ros_sync_map_def ros_ready_def Let_def case_prod_beta)

lemma job_checks [simp]:
  "ss_job (snd (catalog_seal q c)) = ss_job c" "ss_job (snd (snd (snd (catalog_check k c)))) = ss_job c" "ss_job (snd (sequence_valid c)) = ss_job c"
  "ss_job (snd (complete_valid r f c)) = ss_job c" "ss_job (snd (container_valid c)) = ss_job c" "ss_job (snd (read_container_page c)) = ss_job c"
  by (simp_all add: catalog_seal_def catalog_check_def sequence_valid_def complete_valid_def container_valid_def read_container_page_def Let_def case_prod_beta)

lemma job_parse [simp]: "ss_job (snd (parse_root k c)) = ss_job c" "ss_job (snd (snd (parse_segment k c))) = ss_job c"
  by (simp_all add: parse_root_def parse_segment_def Let_def case_prod_beta)

lemma job_records [simp]: "ss_job (snd (recover_records rs c)) = ss_job c"
  by (induction rs arbitrary: c) (simp_all add: Let_def case_prod_beta)

lemma job_found [simp]: "ss_job (snd (recover_found k c)) = ss_job c"
  by (simp add: recover_found_def Let_def scan_next_def)

lemma job_recover [simp]: "ss_job (snd (recover_step c)) = ss_job c"
  by (simp add: recover_step_def recover_slots_def recover_roots_def recover_payload_def Let_def case_prod_beta scan_next_def)

lemma job_root [simp]: "ss_job (snd (root_step c)) = ss_job c"
  by (simp add: root_step_def Let_def case_prod_beta stage_next_def)

lemma job_load [simp]: "ss_job (snd (load_step c)) = ss_job c"
  by (simp add: load_step_def Let_def case_prod_beta)

lemma job_other: "ss_job c \<noteq> ROS_SEGMENT \<Longrightarrow> ss_job (snd (job_step (ss_job c) c)) \<noteq> ROS_SEGMENT"
  by (cases "ss_job c") simp_all

text \<open>Only \<open>ros_prepare\<close> and \<open>ros_prepare_deferred\<close> start a segment job, and no entry point touches one that runs.\<close>

lemma begin_busy: "ss_job c = ROS_SEGMENT \<Longrightarrow> ros_begin job d c = (ROS_STATE, c)"
  by (simp add: ros_begin_def)

lemma begin_job: "ss_job (snd (ros_begin job d c)) = ROS_SEGMENT \<Longrightarrow> job = ROS_SEGMENT \<or> ss_job c = ROS_SEGMENT"
  by (auto simp: ros_begin_def Let_def case_prod_beta ros_fault_def ros_buffers_def split: if_splits)

lemma bodies_busy:
  assumes "ss_job c = ROS_SEGMENT"
  shows "snd (recover_body d c) = c" "snd (recover_retired_body a v ids count d c) = c" "snd (reserve_body a bp mode first d c) = c"
    "snd (finalize_body a fp d c) = c" "snd (open_committed job slot d c) = c" "snd (prepare_body opus b a bp pp n d c) = c"
  using assms by (simp_all add: recover_body_def recover_retired_body_def reserve_body_def finalize_body_def open_committed_def prepare_body_def begin_busy Let_def
      split: option.split)

lemma bodies_other:
  assumes "ss_job c \<noteq> ROS_SEGMENT"
  shows "ss_job (snd (recover_body d c)) \<noteq> ROS_SEGMENT" "ss_job (snd (recover_retired_body a v ids count d c)) \<noteq> ROS_SEGMENT"
    "ss_job (snd (reserve_body a bp mode first d c)) \<noteq> ROS_SEGMENT" "ss_job (snd (finalize_body a fp d c)) \<noteq> ROS_SEGMENT"
    "job = ROS_LOAD \<or> job = ROS_META \<Longrightarrow> ss_job (snd (open_committed job slot d c)) \<noteq> ROS_SEGMENT"
  using assms
  by (auto dest!: begin_job simp: recover_body_def recover_retired_body_def reserve_body_def finalize_body_def open_committed_def Let_def case_prod_beta rescan_def catalog_root_def
      split: option.split)

lemma journals_body:
  assumes "journalled c" and "ss_job c = ROS_SEGMENT \<Longrightarrow> snd r = c" and "ss_job c \<noteq> ROS_SEGMENT \<Longrightarrow> ss_job (snd r) \<noteq> ROS_SEGMENT"
  shows "journals r"
  using assms by (cases "ss_job c = ROS_SEGMENT") (auto simp: post_def journalled_def)

lemma prepared_journals:
  assumes g: "segment_fits c" "n = unat (es_plaintext_bytes (sg_identity (oc_segment c)))" "oc_port c = logged p"
      "sg_digest (oc_segment c) = replicate 32 0" "ss_ready c = 0" "ss_stage c = 0"
  shows "journals (let (rc, c) = sequence_valid c in
           if rc \<noteq> 0 then (ROS_FAILED, c)
           else if deferred
           then let (g, c) = ros_guard (c\<lparr>oc_container := blit 193 plain (oc_container c), ss_stage := 9\<rparr>) in
             (if g \<noteq> 0 then ROS_FAILED else ROS_PENDING, c)
           else seal_prepared plain n c)"
proof -
  let ?c = "c\<lparr>oc_container := blit 193 plain (oc_container c), ss_stage := 9\<rparr>"
  have "sequence_valid c = (ROS_OK, c) \<or> sequence_valid c = (ROS_FAILED, snd (ros_fault ROS_FAILED c))"
    unfolding sequence_valid_def Let_def by (auto simp: ros_fault_def)
  moreover have "ss_fault (snd (ros_fault ROS_FAILED c)) \<noteq> 0" by (simp add: ros_fault_def ros_buffers_def)
  moreover have "journals (let (g, c) = ros_guard ?c in (if g \<noteq> 0 then ROS_FAILED else ROS_PENDING, c))"
  proof (rule post_ran [OF silent.guard_ran [of _ p]])
    fix s assume "moved (adds []) ?c s"
    then have "segment_log s" using g(4,5) by (auto simp: segment_log_def elim!: movedE)
    then show "journals (if ROS_OK \<noteq> 0 then ROS_FAILED else ROS_PENDING, s)" by (rule journals_log)
  qed (simp_all add: g(3) journals_failed fault_of_fenced)
  moreover have "journals (seal_prepared plain n c)"
  proof (rule post_mono [OF seal_journals [OF g(1-5)]], elim disjE conjE)
    fix rc s assume "ss_stage s = ss_stage c" "segment_log (s\<lparr>ss_stage := 0\<rparr>)"
    moreover from this(1) have "s\<lparr>ss_stage := 0\<rparr> = s" using g(6) by simp
    ultimately show "journalled s" by (simp add: journalledI)
  qed (simp add: journalledI)
  ultimately show ?thesis by (auto intro: journals_failed)
qed

lemma prepare_journals:
  assumes k: "store_ok (logged p) cap (\<lambda>e. True) c" and j: "ss_job c \<noteq> ROS_SEGMENT"
  shows "journals (prepare_body opus deferred a bp pp n deadline c)"
proof -
  let ?slot = "first_free c (unat (ss_slot_count c)) 0"
  have other: "journals (rc, s)" if "ss_job s \<noteq> ROS_SEGMENT" for rc s using that by (simp add: post_def journalled_def)
  have sl: "?slot < ss_slot_count c" if "?slot \<noteq> ss_slot_count c"
    using first_free_range [of 0 "unat (ss_slot_count c)" c] that unsigned_less [of "ss_slot_count c", where ?'a = nat]
    by (auto simp: word_less_nat_alt word_unat_eq_iff)
  have "journals (let (rc, c) = ros_begin ROS_SEGMENT deadline c in
         if rc \<noteq> 0 then (rc, c)
         else let (rc, c) = sequence_valid (c\<lparr>oc_segment := prepare_segment (pt bp) (part 0 n (pt pp)) n ?slot c\<rparr>) in
           if rc \<noteq> 0 then (ROS_FAILED, c)
           else if deferred
           then let (g, c) = ros_guard (c\<lparr>oc_container := blit 193 (part 0 n (pt pp)) (oc_container c), ss_stage := 9\<rparr>) in
             (if g \<noteq> 0 then ROS_FAILED else ROS_PENDING, c)
           else seal_prepared (part 0 n (pt pp)) n c)" (is "journals (Let _ (case_prod ?f))")
    if "\<not> prepare_bad opus a bp pp n" "\<not> (ss_mounted c = 0 \<or> oc_active_root c \<ge> oc_root_count c)" "?slot \<noteq> ss_slot_count c"
  proof (rule post_call [OF silent.begin_runs [OF any.ok_port [OF k]]])
    fix rc s assume r: "begin_ran (adds []) ROS_SEGMENT deadline c rc s"
    have n: "n = unat (es_plaintext_bytes (pt bp))" "n \<le> 34148" using that(1) unfolding prepare_bad_def by auto
    have ar: "oc_active_root c < oc_root_count c" using that(2) by auto
    have "journals (?f 0 s)" if s: "s = begun ROS_SEGMENT deadline t e c" for t e
    proof -
      let ?s = "s\<lparr>oc_segment := prepare_segment (pt bp) (part 0 n (pt pp)) n ?slot s\<rparr>"
      have fits: "segment_fits ?s"
        using n sl \<open>?slot \<noteq> _\<close> ar by (simp add: segment_fits_def prepare_segment_def Let_def word_le_nat_alt s)
      have "n = unat (es_plaintext_bytes (sg_identity (oc_segment ?s)))" "oc_port ?s = logged p" "ss_ready ?s = 0" "ss_stage ?s = 0"
        "sg_digest (oc_segment ?s) = replicate 32 0"
        using n any.ok_port [OF k] by (simp_all add: prepare_segment_def Let_def s ros_segment_zero_def)
      then show ?thesis using prepared_journals [OF fits] by simp
    qed
    moreover have "journals (?f rc s)" if "rc \<noteq> 0"
    proof -
      have "s = c \<or> ss_fault s \<noteq> 0 \<or> ss_job s = ROS_NONE" using r that by (auto simp: begin_ran_def dest: fault_of_fenced elim!: movedE)
      then have "journals (rc, s)" using j by (auto intro: other journals_failed)
      then show ?thesis using that by simp
    qed
    ultimately show "journals (?f rc s)" using r unfolding begin_ran_def by blast
  qed
  then show ?thesis
    unfolding prepare_body_def Let_def [of "pt bp"] Let_def [of "part 0 n (pt pp)"] Let_def [of ?slot] using j by (intro post_if other) auto
qed

lemma step_journals:
  assumes k: "store_ok (logged p) cap (\<lambda>e. True) c" and l: "journalled c" and fill: "reads_fill p"
  shows "journals (step_body c)"
proof -
  have same: "journals (rc, c)" for rc using l by (simp add: post_def)
  have "journals (let (g, s) = ros_guard c in if g \<noteq> 0 then (ROS_FAILED, s) else job_step (ss_job s) s)"
    if f: "ss_fault c = 0" and r: "ss_ready c = 0"
  proof (rule post_ran [OF silent.guard_ran [OF any.ok_port [OF k]]])
    fix s assume m: "moved (adds []) c s"
    have m': "moved (\<lambda>e f. True \<longrightarrow> True) c s" using m by (auto simp: moved_def)
    have s: "store_ok (logged p) cap (\<lambda>e. True) s" using ok_moved [where P = "\<lambda>e. True", OF m' k] .
    have "journals (job_step (ss_job s) s)"
    proof (cases "ss_job s = ROS_SEGMENT")
      case True
      have "segment_log c" using l m f True by (auto simp: journalled_def elim!: movedE)
      moreover have "snd (oc_env s) = snd (oc_env c)" "same_plan c s" "ss_stage s = ss_stage c" "oc_index s = oc_index c" "oc_catalog s = oc_catalog c"
        "ss_fault s = 0" "ss_ready s = 0" using m f r by (auto simp: same_plan_def adds_def elim!: movedE)
      ultimately have "in_progress p cap s"
        using s True r plan_pages [of c s] plan_protocol [of c s]
        by (auto simp: in_progress_def segment_log_def protocol_step_def same_plan_def)
      then show ?thesis using segment_step_journals fill True by simp
    next
      case False
      then show ?thesis using job_other [OF False] by (simp add: post_def journalled_def)
    qed
    then show "journals (if ROS_OK \<noteq> 0 then (ROS_FAILED, s) else job_step (ss_job s) s)" by simp
  qed (simp add: journals_failed fault_of_fenced)
  then show ?thesis unfolding step_body_def by (intro post_if same) auto
qed

interpretation recorded: store_keeps opus "\<lambda>c. store_ok (logged p) cap (\<lambda>e. True) c \<and> (reads_fill p \<longrightarrow> journalled c)"
  for opus :: "'c opus_api" and p :: "'e ros_port" and cap
proof unfold_locales
  fix c :: "('e \<times> ros_event list) ros_context" and g
  have "journalled (c\<lparr>oc_gate := g\<rparr>) = journalled c"
    using plan_protocol [of c "c\<lparr>oc_gate := g\<rparr>"] plan_pages [of c "c\<lparr>oc_gate := g\<rparr>"]
    by (simp add: journalled_def segment_log_def same_plan_def protocol_step_def)
  then show "(store_ok (logged p) cap (\<lambda>e. True) (c\<lparr>oc_gate := g\<rparr>) \<and> (reads_fill p \<longrightarrow> journalled (c\<lparr>oc_gate := g\<rparr>))) =
      (store_ok (logged p) cap (\<lambda>e. True) c \<and> (reads_fill p \<longrightarrow> journalled c))" by (simp add: any.store_gate)
next
  fix c assume i: "store_ok (logged p) cap (\<lambda>e. True) c \<and> (reads_fill p \<longrightarrow> journalled c)"
  let ?I = "\<lambda>rc c. store_ok (logged p) cap (\<lambda>e. True) c \<and> (reads_fill p \<longrightarrow> journalled c)"
  have I: "post ?I r" if "post (\<lambda>rc. store_ok (logged p) cap (\<lambda>e. True)) r" "reads_fill p \<Longrightarrow> journals r" for r
    using that by (auto simp: post_def)
  note b = journals_body [of c] and k = i [THEN conjunct1] and l = i [THEN conjunct2, rule_format]
  show "post ?I (recover_body d c)" for d by (rule I [OF any.recover_stays [OF k] b [OF l]]) (auto simp: bodies_busy bodies_other)
  show "post ?I (recover_retired_body a v ids count d c)" for a v ids count d
    by (rule I [OF any.recover_retired_stays [OF k] b [OF l]]) (auto simp: bodies_busy bodies_other)
  show "post ?I (reserve_body a bp mode first d c)" for a bp mode first d
    by (rule I [OF any.reserve_stays [OF k] b [OF l]]) (auto simp: bodies_busy bodies_other)
  show "post ?I (finalize_body a fp d c)" for a fp d by (rule I [OF any.finalize_stays [OF k] b [OF l]]) (auto simp: bodies_busy bodies_other)
  show "post ?I (open_committed job slot d c)" if "job = ROS_LOAD \<or> job = ROS_META" for job slot d
    by (rule I [OF any.open_stays [OF k that] b [OF l]]) (use that in \<open>auto simp: bodies_busy bodies_other\<close>)
  show "post ?I (prepare_body opus deferred a bp pp n d c)" for deferred a bp pp n d
    by (rule I [OF any.prepare_stays [OF k]], cases "ss_job c = ROS_SEGMENT")
      (auto simp: bodies_busy post_def l intro: prepare_journals [OF k, unfolded post_def])
  show "post ?I (step_body c)" by (rule I [OF any.step_stays [OF k]]) (rule step_journals [OF k l])
  show "?I 0 (finish_job c)" if "ss_fault c = 0" "ss_ready c \<noteq> 0"
    using any.finish_ok [OF k] by (simp add: journalled_def finish_job_def)
qed

section \<open>Receipts\<close>

lemma receipt_journalled:
  assumes k: "store_ok (logged p) cap (\<lambda>e. True) c" "journalled c" and r: "ros_take_segment_receipt out (Ptr a c) = (ROS_OK, Ptr b r, c')"
  shows "suffix (commit_protocol c) (snd (oc_env c)) \<and> r = \<lparr>sr_durable = 1, sr_es_header = part 0 128 (oc_container c)\<rparr> \<and>
    sealed_good c \<and> slot_state c (sg_slot (oc_segment c)) = SLOT_COMMIT"
proof -
  have t: "ss_fault c = 0" "ss_ready c \<noteq> 0" "ss_job c = ROS_SEGMENT" "r = oc_receipt c"
    using r by (auto simp: ros_take_segment_receipt_def split: if_splits)
  have l: "segment_log c" using k(2) t by (simp add: journalled_def)
  moreover have "protocol_step c = length (commit_protocol c)" using t by (simp add: protocol_step_def protocol_length)
  moreover have "slot_state c (sg_slot (oc_segment c)) = SLOT_COMMIT"
    using any.ok_segment [OF k(1) t(1,3)] t(2) by (simp add: segment_job_fits_def)
  ultimately show ?thesis using t by (auto simp: segment_log_def)
qed

lemma started_journalled:
  assumes "ros_started (logged p) capacity (Ptr a x) c" and "reads_fill p" and "ros_exec opus calls c = Ptr a c'"
  shows "store_ok (logged p) (unat capacity) (\<lambda>e. True) c' \<and> (reads_fill p \<longrightarrow> journalled c')"
proof -
  obtain c1 where c1: "c = Ptr a c1" "store_ok (logged p) (unat capacity) (\<lambda>e. True) c1" "ss_job c1 = ROS_NONE"
    using started_ok [OF assms(1), of "\<lambda>e. True"] by auto
  then have "store_ok (logged p) (unat capacity) (\<lambda>e. True) c1 \<and> (reads_fill p \<longrightarrow> journalled c1)" by (simp add: journalled_def)
  from recorded.exec_keeps [OF this, of opus calls a] assms(3) c1(1) show ?thesis by auto
qed

text \<open>Claim C2.  A receipt means durability: for every port whose successful reads fill a page, a segment receipt is issued only when the
  log of page transfers ends with the whole commit protocol of that segment (INTENT written, synced and read back; payload and
  COMMIT written and synced; payload and COMMIT read back unchanged).  The receipt carries the header of the container, which passes
  its structural check and has the digest that both catalogue pages carry, and the slot is then committed.\<close>

theorem store_commit_protocol:
  assumes "ros_started (logged p) capacity (Ptr a x) c" and "reads_fill p" and "ros_exec opus calls c = Ptr a c'"
    and "ros_take_segment_receipt out (Ptr a c') = (ROS_OK, Ptr b r, c'')"
  shows "suffix (commit_protocol c') (snd (oc_env c')) \<and> r = \<lparr>sr_durable = 1, sr_es_header = part 0 128 (oc_container c')\<rparr> \<and>
    sealed_good c' \<and> slot_state c' (sg_slot (oc_segment c')) = SLOT_COMMIT"
  using receipt_journalled [OF _ _ assms(4)] started_journalled [OF assms(1-3)] assms(2) by blast

end
