(* ===== verification/Store_Bridge.thy ===== *)
theory Store_Bridge
  imports Store_Commit
begin

text \<open>
  The store bridge (\<open>recording_store_bridge.c\<close>): the adapter through which the recording pipeline uses the object store.  It owns the
  store exclusively, so the store is a component of its state; the clock is a parameter.  \<open>rsb_reserve\<close>, \<open>rsb_submit\<close>, \<open>rsb_poll\<close> and
  \<open>rsb_finalize\<close> are the callbacks of the pipeline, \<open>rsb_advance\<close> is the storage worker.  \<open>rsb_cancel\<close> is one atomic store and runs
  between the other calls.
\<close>

section \<open>Model: state\<close>

abbreviation RSB_OK :: int where "RSB_OK \<equiv> 0"
abbreviation RSB_PENDING :: int where "RSB_PENDING \<equiv> 1"
abbreviation RSB_READY :: int where "RSB_READY \<equiv> 2"
abbreviation RSB_ARGUMENT :: int where "RSB_ARGUMENT \<equiv> -1"
abbreviation RSB_BUSY :: int where "RSB_BUSY \<equiv> -2"
abbreviation RSB_STATE :: int where "RSB_STATE \<equiv> -3"
abbreviation RSB_FAILED :: int where "RSB_FAILED \<equiv> -4"
abbreviation RSB_MAX_MS :: u64 where "RSB_MAX_MS \<equiv> 8000"
abbreviation RSB_MAGIC :: u32 where "RSB_MAGIC \<equiv> 0x52534231"
abbreviation sizeof_rsb_context :: nat where "sizeof_rsb_context \<equiv> 264"
abbreviation sizeof_rsb_status :: nat where "sizeof_rsb_status \<equiv> 24"

datatype rsb_state = RSB_IDLE | RSB_SELECTED | RSB_ACTIVE | RSB_STORING | RSB_COMPLETE | RSB_FAULT

record rsb_status =
  bs_state :: rsb_state
  bs_cancelled :: u32
  bs_pending :: u32
  bs_error :: int
  bs_job_deadline :: u64

text \<open>\<open>rb_now_ms\<close> is a function on the world behind \<open>clock_user\<close>, which \<open>rb_clock\<close> holds.\<close>

record ('e, 'f) rsb_context =
  rb_gate :: u32
  rb_cancelled :: u32
  rb_initialized :: u32
  rb_state :: rsb_state
  rb_mode :: u32
  rb_pending_valid :: u32
  rb_deferred_seal :: u32
  rb_error :: int
  rb_store :: "'e ros_context ptr"
  rb_now_ms :: "'f \<Rightarrow> u64 \<times> 'f"
  rb_clock :: 'f
  rb_first_sample :: u64
  rb_last_now :: u64
  rb_job_deadline :: u64
  rb_session :: es_binding
  rb_pending :: es_binding

section \<open>Model: helpers\<close>

fun rsb_external :: "nat \<Rightarrow> ('e, 'f) rsb_context \<Rightarrow> 'a ptr \<Rightarrow> nat \<Rightarrow> bool" where
  "rsb_external ca c Null n = False"
| "rsb_external ca c (Ptr a x) n = (n \<noteq> 0 \<and> \<not> overlap ca sizeof_rsb_context a n \<and> \<not> overlap (ptr_addr (rb_store c)) sizeof_ros_context a n)"

definition rsb_same :: "es_binding \<Rightarrow> es_binding \<Rightarrow> bool" where
  "rsb_same a b \<longleftrightarrow> es_generation a = es_generation b \<and> es_segment_sequence a = es_segment_sequence b \<and> es_plaintext_bytes a = es_plaintext_bytes b \<and>
     es_key_fingerprint a = es_key_fingerprint b \<and> es_device_id a = es_device_id b \<and> es_volume_id a = es_volume_id b \<and>
     es_recording_id a = es_recording_id b"

text \<open>\<open>take\<close> and \<open>leave\<close> around a body; \<open>refusal\<close> maps the code of a failed \<open>take\<close> to the code that is returned.  A body yields the code, the
  output and the context.\<close>

fun rsb_locked :: "(int \<Rightarrow> int) \<Rightarrow> (nat \<Rightarrow> 'o \<Rightarrow> ('e, 'f) rsb_context \<Rightarrow> int \<times> 'o \<times> ('e, 'f) rsb_context) \<Rightarrow> 'o \<Rightarrow>
    ('e, 'f) rsb_context ptr \<Rightarrow> int \<times> 'o \<times> ('e, 'f) rsb_context ptr" where
  "rsb_locked refusal body out Null = (refusal RSB_ARGUMENT, out, Null)"
| "rsb_locked refusal body out (Ptr a c) =
    (if rb_initialized c \<noteq> RSB_MAGIC then (refusal RSB_ARGUMENT, out, Ptr a c)
     else if rb_gate c \<noteq> 0 then (refusal RSB_BUSY, out, Ptr a c)
     else let (rc, out, c) = body a out (c\<lparr>rb_gate := 1\<rparr>) in (rc, out, Ptr a (c\<lparr>rb_gate := 0\<rparr>)))"

definition rsb_failed :: "int \<Rightarrow> ('e, 'f) rsb_context \<Rightarrow> int \<times> ('e, 'f) rsb_context" where
  "rsb_failed rc c = (RSB_FAILED, c\<lparr>rb_state := RSB_FAULT, rb_error := (if rc \<noteq> 0 then rc else RSB_FAILED)\<rparr>)"

definition rsb_guard :: "u64 \<Rightarrow> ('e, 'f) rsb_context \<Rightarrow> int \<times> ('e, 'f) rsb_context" where
  "rsb_guard deadline c =
    (let (now, f) = rb_now_ms c (rb_clock c); c = c\<lparr>rb_clock := f\<rparr> in
     if rb_state c = RSB_FAULT \<or> rb_cancelled c \<noteq> 0 \<or> now < rb_last_now c \<or> now \<ge> deadline then rsb_failed RSB_FAILED c
     else (RSB_OK, c\<lparr>rb_last_now := now\<rparr>))"

definition rsb_admission :: "u64 \<Rightarrow> ('e, 'f) rsb_context \<Rightarrow> int \<times> ('e, 'f) rsb_context" where
  "rsb_admission deadline c =
    (let (now, f) = rb_now_ms c (rb_clock c); c = c\<lparr>rb_clock := f\<rparr> in
     if now < rb_last_now c \<or> deadline \<le> now \<or> deadline - now > RSB_MAX_MS then rsb_failed RSB_ARGUMENT c
     else rsb_guard deadline (c\<lparr>rb_last_now := now\<rparr>))"

text \<open>A local variable whose address is passed to the store: it lies outside the store.\<close>

definition aside :: "'e ros_context ptr \<Rightarrow> 'a \<Rightarrow> 'a ptr" where
  "aside st x = Ptr (if ptr_addr st < 0x40000000 then 0x80000000 else 0x1000) x"

definition status_zero :: ros_status where
  "status_zero = \<lparr>ss_mounted = 0, ss_fault = 0, ss_job = ROS_NONE, ss_stage = 0, ss_ready = 0, ss_slot_count = 0, ss_consumed_slots = 0, ss_error = 0\<rparr>"

definition store_status :: "'e ros_context ptr \<Rightarrow> int \<times> ros_status \<times> 'e ros_context ptr" where
  "store_status st = (let (rc, s, st') = ros_get_status (aside st status_zero) st in (rc, pt s, st'))"

definition store_unclean :: "int \<Rightarrow> ros_status \<Rightarrow> bool" where
  "store_unclean rc s \<longleftrightarrow> rc \<noteq> 0 \<or> ss_mounted s = 0 \<or> ss_fault s \<noteq> 0 \<or> ss_job s \<noteq> ROS_NONE"

definition clean_store :: "('e, 'f) rsb_context \<Rightarrow> int \<times> ('e, 'f) rsb_context" where
  "clean_store c =
    (let (rc, s, st) = store_status (rb_store c); c = c\<lparr>rb_store := st\<rparr> in
     if store_unclean rc s then rsb_failed (if rc \<noteq> 0 then rc else RSB_STATE) c else (RSB_OK, c))"

text \<open>The loop of \<open>root_steps\<close> over the codes that its three steps must return.\<close>

fun root_steps :: "int list \<Rightarrow> u64 \<Rightarrow> ('e, 'f) rsb_context \<Rightarrow> int \<times> ('e, 'f) rsb_context" where
  "root_steps [] deadline c = (RSB_OK, c)"
| "root_steps (x # xs) deadline c =
    (let (g, c) = rsb_guard deadline c in
     if g \<noteq> 0 then (RSB_FAILED, c)
     else let (rc, st) = ros_step (rb_store c); (g, c) = rsb_guard deadline (c\<lparr>rb_store := st\<rparr>) in
       if g \<noteq> 0 then (RSB_FAILED, c) else if rc \<noteq> x then rsb_failed rc c else root_steps xs deadline c)"

section \<open>Model: operations\<close>

definition rsb_initial :: "'e ros_context ptr \<Rightarrow> ('f \<Rightarrow> u64 \<times> 'f) \<Rightarrow> 'f \<Rightarrow> ('e, 'f) rsb_context" where
  "rsb_initial st now f = (let (t, f) = now f in
     \<lparr>rb_gate = 0, rb_cancelled = 0, rb_initialized = RSB_MAGIC, rb_state = RSB_IDLE, rb_mode = 0, rb_pending_valid = 0, rb_deferred_seal = 0,
      rb_error = 0, rb_store = st, rb_now_ms = now, rb_clock = f, rb_first_sample = 0, rb_last_now = t, rb_job_deadline = 0,
      rb_session = es_zero, rb_pending = es_zero\<rparr>)"

text \<open>\<open>rsb_init\<close>: the storage holds anything with \<open>initialized\<close> zero; the new context, the code and the store are returned.\<close>

fun rsb_init :: "'e ros_context ptr \<Rightarrow> ('f \<Rightarrow> u64 \<times> 'f) option \<Rightarrow> 'f \<Rightarrow> ('e, 'f) rsb_context ptr \<Rightarrow> int \<times> ('e, 'f) rsb_context ptr" where
  "rsb_init st now f (Ptr ca c) =
    (if st = Null \<or> now = None \<or> rb_initialized c \<noteq> 0 \<or> overlap ca sizeof_rsb_context (ptr_addr st) sizeof_ros_context then (RSB_ARGUMENT, Ptr ca c)
     else let (rc, s, st) = store_status st in
       if store_unclean rc s then (RSB_STATE, Ptr ca c) else (RSB_OK, Ptr ca (rsb_initial st (the now) f)))"
| "rsb_init st now f Null = (RSB_ARGUMENT, Null)"

definition rsb_init_deferred_seal ::
  "'e ros_context ptr \<Rightarrow> ('f \<Rightarrow> u64 \<times> 'f) option \<Rightarrow> 'f \<Rightarrow> ('e, 'f) rsb_context ptr \<Rightarrow> int \<times> ('e, 'f) rsb_context ptr" where
  "rsb_init_deferred_seal st now f cp =
    (let (rc, cp) = rsb_init st now f cp in (rc, if rc = 0 then Ptr (addr cp) ((pt cp)\<lparr>rb_deferred_seal := 1\<rparr>) else cp))"

definition select_body :: "es_binding ptr \<Rightarrow> u32 \<Rightarrow> u64 \<Rightarrow> nat \<Rightarrow> unit \<Rightarrow> ('e, 'f) rsb_context \<Rightarrow> int \<times> unit \<times> ('e, 'f) rsb_context" where
  "select_body bp mode first ca u c =
    (if \<not> rsb_external ca c bp sizeof_es_binding \<or> es_segment_sequence (pt bp) \<noteq> 0 \<or> es_plaintext_bytes (pt bp) \<noteq> 0 \<or>
        (mode \<noteq> RP_MANUAL \<and> mode \<noteq> RP_CONTINUOUS) then (RSB_ARGUMENT, (), c)
     else if (rb_state c \<noteq> RSB_IDLE \<and> rb_state c \<noteq> RSB_COMPLETE) \<or> rb_cancelled c \<noteq> 0 then (RSB_STATE, (), c)
     else let (rc, c) = clean_store c in
       if rc \<noteq> 0 then (RSB_FAILED, (), c)
       else (RSB_OK, (), c\<lparr>rb_session := pt bp, rb_mode := mode, rb_first_sample := first, rb_job_deadline := 0, rb_state := RSB_SELECTED\<rparr>))"

definition rsb_select :: "es_binding ptr \<Rightarrow> u32 \<Rightarrow> u64 \<Rightarrow> ('e, 'f) rsb_context ptr \<Rightarrow> int \<times> unit \<times> ('e, 'f) rsb_context ptr" where
  "rsb_select bp mode first = rsb_locked (\<lambda>rc. rc) (select_body bp mode first) ()"

fun rsb_cancel :: "('e, 'f) rsb_context ptr \<Rightarrow> int \<times> ('e, 'f) rsb_context ptr" where
  "rsb_cancel Null = (RSB_ARGUMENT, Null)"
| "rsb_cancel (Ptr a c) = (if rb_initialized c \<noteq> RSB_MAGIC then (RSB_ARGUMENT, Ptr a c) else (RSB_OK, Ptr a (c\<lparr>rb_cancelled := 1\<rparr>)))"

text \<open>The loop of \<open>rsb_capacity\<close> over the roots: \<open>None\<close> when a record is unreadable or carries the identifier, otherwise whether a root
  is free.\<close>

fun capacity_scan :: "bytes \<Rightarrow> u32 list \<Rightarrow> bool \<Rightarrow> 'e ros_context ptr \<Rightarrow> bool option \<times> 'e ros_context ptr" where
  "capacity_scan uuid [] found st = (Some found, st)"
| "capacity_scan uuid (i # is) found st =
    (let (rc, r, st) = ros_get_record i (aside st ros_record_zero) st in
     if rc = ROS_NOT_FOUND then capacity_scan uuid is True st
     else if rc \<noteq> 0 \<or> uuid = es_recording_id (ro_identity (pt r)) then (None, st) else capacity_scan uuid is found st)"

definition root_indices :: "u32 \<Rightarrow> u32 list" where "root_indices n = map of_nat [0..<unat n]"

definition capacity_body :: "es_binding ptr \<Rightarrow> u64 \<Rightarrow> nat \<Rightarrow> u32 ptr \<Rightarrow> ('e, 'f) rsb_context \<Rightarrow> int \<times> u32 ptr \<times> ('e, 'f) rsb_context" where
  "capacity_body bp deadline ca out c =
    (if \<not> rsb_external ca c bp sizeof_es_binding \<or> \<not> rsb_external ca c out 4 \<or> clash bp sizeof_es_binding out 4 then (RSB_ARGUMENT, out, c)
     else let out = Ptr (addr out) 0; (adm, c) = (if rb_state c \<noteq> RSB_SELECTED \<or> \<not> rsb_same (pt bp) (rb_session c) then (RSB_STATE, c) else rsb_admission deadline c) in
       if adm \<noteq> 0 then let (rc, c) = rsb_failed RSB_STATE c in (rc, out, c)
       else let (grc, g, st) = ros_get_geometry (aside (rb_store c) \<lparr>ge_roots = 0, ge_slots = 0, ge_profile = 0\<rparr>) (rb_store c);
                (src, s, st) = (if grc \<noteq> 0 then (grc, status_zero, st) else store_status st); c = c\<lparr>rb_store := st\<rparr> in
         if grc \<noteq> 0 \<or> store_unclean src s \<or> ss_slot_count s \<noteq> ge_slots (pt g) \<or> ss_consumed_slots s > ss_slot_count s
         then let (rc, c) = rsb_failed RSB_STATE c in (rc, out, c)
         else let (scan, st) = capacity_scan (es_recording_id (pt bp)) (root_indices (ge_roots (pt g))) False (rb_store c); c = c\<lparr>rb_store := st\<rparr> in
           case scan of None \<Rightarrow> let (rc, c) = rsb_failed RSB_STATE c in (rc, out, c)
           | Some free \<Rightarrow> let (rc, c) = rsb_guard deadline c in
             if rc \<noteq> 0 then (RSB_FAILED, out, c)
             else (RSB_OK, if free then Ptr (addr out) (ss_slot_count s - ss_consumed_slots s) else out, c))"

definition rsb_capacity :: "es_binding ptr \<Rightarrow> u64 \<Rightarrow> u32 ptr \<Rightarrow> ('e, 'f) rsb_context ptr \<Rightarrow> int \<times> u32 ptr \<times> ('e, 'f) rsb_context ptr" where
  "rsb_capacity bp deadline = rsb_locked (\<lambda>rc. rc) (capacity_body bp deadline)"

text \<open>\<open>failed(c, rc); return leave(c, RP_IO_UNCERTAIN)\<close>.\<close>

definition uncertain :: "int \<Rightarrow> 'o \<Rightarrow> ('e, 'f) rsb_context \<Rightarrow> int \<times> 'o \<times> ('e, 'f) rsb_context" where
  "uncertain rc out c = (RP_IO_UNCERTAIN, out, snd (rsb_failed rc c))"

definition rsb_reserve_finish :: "u64 \<Rightarrow> ('e, 'f) rsb_context \<Rightarrow> int \<times> ('e, 'f) rsb_context" where
  "rsb_reserve_finish deadline c =
    (let (rc, c) = root_steps [ROS_PENDING, ROS_PENDING, ROS_READY] deadline c in
     if rc \<noteq> 0 then (rc, c)
     else let (rc, st) = ros_finish (rb_store c); c = c\<lparr>rb_store := st\<rparr> in if rc \<noteq> 0 then (rc, c) else rsb_guard deadline c)"

definition rsb_reserve_body :: "es_binding ptr \<Rightarrow> u64 \<Rightarrow> nat \<Rightarrow> unit \<Rightarrow> ('e, 'f) rsb_context \<Rightarrow> int \<times> unit \<times> ('e, 'f) rsb_context" where
  "rsb_reserve_body bp deadline ca u c =
    (let (adm, c) = (if \<not> rsb_external ca c bp sizeof_es_binding \<or> rb_state c \<noteq> RSB_SELECTED \<or> \<not> rsb_same (pt bp) (rb_session c) then (RSB_STATE, c)
                     else rsb_admission deadline c) in
     if adm \<noteq> 0 then uncertain RSB_STATE () c
     else let (rc, st) = ros_reserve bp (rb_mode c) (rb_first_sample c) deadline (rb_store c); (g, c) = rsb_guard deadline (c\<lparr>rb_store := st\<rparr>) in
       if g \<noteq> 0 then (RP_IO_UNCERTAIN, (), c)
       else if rc = ROS_FULL then (RP_IO_FULL, (), c\<lparr>rb_state := RSB_IDLE\<rparr>)
       else if rc \<noteq> ROS_PENDING then uncertain rc () c
       else let (f, c) = rsb_reserve_finish deadline c in
         if f \<noteq> 0 then uncertain rc () c else (RP_IO_OK, (), c\<lparr>rb_state := RSB_ACTIVE\<rparr>))"

definition rsb_reserve :: "es_binding ptr \<Rightarrow> u64 \<Rightarrow> ('e, 'f) rsb_context ptr \<Rightarrow> int \<times> unit \<times> ('e, 'f) rsb_context ptr" where
  "rsb_reserve bp deadline = rsb_locked (\<lambda>rc. RP_IO_UNCERTAIN) (rsb_reserve_body bp deadline) ()"

definition submit_body ::
  "'c opus_api \<Rightarrow> es_binding ptr \<Rightarrow> bytes ptr \<Rightarrow> nat \<Rightarrow> u64 \<Rightarrow> nat \<Rightarrow> rp_segment_receipt ptr \<Rightarrow> ('e, 'f) rsb_context \<Rightarrow>
   int \<times> rp_segment_receipt ptr \<times> ('e, 'f) rsb_context" where
  "submit_body opus bp pp n deadline ca out c =
    (if \<not> rsb_external ca c out sizeof_rp_segment_receipt \<or> \<not> rsb_external ca c bp sizeof_es_binding \<or> \<not> rsb_external ca c pp n \<or>
        clash out sizeof_rp_segment_receipt bp sizeof_es_binding \<or> clash out sizeof_rp_segment_receipt pp n then (RP_IO_UNCERTAIN, out, c)
     else let out = Ptr (addr out) receipt_none; (adm, c) = (if rb_state c \<noteq> RSB_ACTIVE then (RSB_STATE, c) else rsb_admission deadline c) in
       if adm \<noteq> 0 then uncertain RSB_STATE out c
       else let c = c\<lparr>rb_pending := pt bp, rb_pending_valid := 1, rb_job_deadline := deadline, rb_state := RSB_STORING\<rparr>;
                (rc, st) = (if rb_deferred_seal c \<noteq> 0 then ros_prepare_deferred opus bp pp n deadline (rb_store c)
                            else ros_prepare opus bp pp n deadline (rb_store c));
                (g, c) = rsb_guard deadline (c\<lparr>rb_store := st\<rparr>) in
         if g \<noteq> 0 then (RP_IO_UNCERTAIN, out, c)
         else if rc = ROS_FULL then (RP_IO_FULL, out, c\<lparr>rb_pending := es_zero, rb_pending_valid := 0, rb_job_deadline := 0, rb_state := RSB_ACTIVE\<rparr>)
         else if rc \<noteq> ROS_PENDING then uncertain rc out c else (RP_IO_PENDING, out, c))"

definition rsb_submit ::
  "'c opus_api \<Rightarrow> es_binding ptr \<Rightarrow> bytes ptr \<Rightarrow> nat \<Rightarrow> u64 \<Rightarrow> rp_segment_receipt ptr \<Rightarrow> ('e, 'f) rsb_context ptr \<Rightarrow>
   int \<times> rp_segment_receipt ptr \<times> ('e, 'f) rsb_context ptr" where
  "rsb_submit opus bp pp n deadline = rsb_locked (\<lambda>rc. RP_IO_UNCERTAIN) (submit_body opus bp pp n deadline)"

definition advance_body :: "nat \<Rightarrow> unit \<Rightarrow> ('e, 'f) rsb_context \<Rightarrow> int \<times> unit \<times> ('e, 'f) rsb_context" where
  "advance_body ca u c =
    (if rb_state c \<noteq> RSB_STORING then (RSB_STATE, (), c)
     else let (g, c) = rsb_guard (rb_job_deadline c) c in
       if g \<noteq> 0 then (RSB_FAILED, (), c)
       else let (rc, st) = ros_step (rb_store c); (g, c) = rsb_guard (rb_job_deadline c) (c\<lparr>rb_store := st\<rparr>) in
         if g \<noteq> 0 then (RSB_FAILED, (), c)
         else if rc \<noteq> ROS_PENDING \<and> rc \<noteq> ROS_READY then let (rc, c) = rsb_failed rc c in (rc, (), c)
         else (if rc = ROS_READY then RSB_READY else RSB_PENDING, (), c))"

definition rsb_advance :: "('e, 'f) rsb_context ptr \<Rightarrow> int \<times> unit \<times> ('e, 'f) rsb_context ptr" where
  "rsb_advance = rsb_locked (\<lambda>rc. rc) advance_body ()"

text \<open>Two guards in a row, as \<open>guard(c, deadline) || guard(c, c->job_deadline)\<close>.\<close>

definition both_guards :: "u64 \<Rightarrow> ('e, 'f) rsb_context \<Rightarrow> int \<times> ('e, 'f) rsb_context" where
  "both_guards deadline c = (let (g, c) = rsb_guard deadline c in if g \<noteq> 0 then (g, c) else rsb_guard (rb_job_deadline c) c)"

definition poll_take :: "u64 \<Rightarrow> rp_segment_receipt ptr \<Rightarrow> ('e, 'f) rsb_context \<Rightarrow> int \<times> rp_segment_receipt ptr \<times> ('e, 'f) rsb_context" where
  "poll_take deadline out c =
    (let (rc, r, st) = ros_take_segment_receipt (aside (rb_store c) receipt_none) (rb_store c); c = c\<lparr>rb_store := st\<rparr>;
         (g, c) = (if rc \<noteq> 0 then (rc, c) else both_guards deadline c) in
     if g \<noteq> 0 then uncertain rc out c
     else (RP_IO_OK, Ptr (addr out) (pt r), c\<lparr>rb_pending := es_zero, rb_pending_valid := 0, rb_job_deadline := 0, rb_state := RSB_ACTIVE\<rparr>))"

definition poll_body :: "es_binding ptr \<Rightarrow> u64 \<Rightarrow> nat \<Rightarrow> rp_segment_receipt ptr \<Rightarrow> ('e, 'f) rsb_context \<Rightarrow>
   int \<times> rp_segment_receipt ptr \<times> ('e, 'f) rsb_context" where
  "poll_body bp deadline ca out c =
    (let (adm, c) = (if rb_state c \<noteq> RSB_STORING \<or> \<not> rsb_same (pt bp) (rb_pending c) then (RSB_STATE, c) else rsb_admission deadline c);
         (adm, c) = (if adm \<noteq> 0 then (adm, c) else rsb_guard (rb_job_deadline c) c) in
     if adm \<noteq> 0 then uncertain RSB_STATE out c
     else let (rc, s, st) = store_status (rb_store c); (g, c) = both_guards deadline (c\<lparr>rb_store := st\<rparr>) in
       if g \<noteq> 0 then (RP_IO_UNCERTAIN, out, c)
       else if rc \<noteq> 0 \<or> ss_fault s \<noteq> 0 \<or> ss_job s \<noteq> ROS_SEGMENT then uncertain rc out c
       else if ss_ready s = 0 then (RP_IO_PENDING, out, c)
       else poll_take deadline out c)"

fun rsb_poll :: "es_binding ptr \<Rightarrow> u64 \<Rightarrow> rp_segment_receipt ptr \<Rightarrow> ('e, 'f) rsb_context ptr \<Rightarrow> int \<times> rp_segment_receipt ptr \<times> ('e, 'f) rsb_context ptr" where
  "rsb_poll bp deadline out Null = (RP_IO_UNCERTAIN, out, Null)"
| "rsb_poll bp deadline out (Ptr a c) =
    (if rb_initialized c \<noteq> RSB_MAGIC \<or> \<not> rsb_external a c out sizeof_rp_segment_receipt \<or> \<not> rsb_external a c bp sizeof_es_binding \<or>
        clash out sizeof_rp_segment_receipt bp sizeof_es_binding then (RP_IO_UNCERTAIN, out, Ptr a c)
     else rsb_locked (\<lambda>rc. if rc = RSB_BUSY then RP_IO_PENDING else RP_IO_UNCERTAIN) (poll_body bp deadline) (Ptr (addr out) receipt_none) (Ptr a c))"

definition finalize_take :: "u64 \<Rightarrow> rp_final_receipt ptr \<Rightarrow> ('e, 'f) rsb_context \<Rightarrow> int \<times> rp_final_receipt ptr \<times> ('e, 'f) rsb_context" where
  "finalize_take deadline out c =
    (let (rc, r, st) = ros_take_final_receipt (aside (rb_store c) final_none) (rb_store c); c = c\<lparr>rb_store := st\<rparr>;
         (g, c) = (if rc \<noteq> 0 then (rc, c) else rsb_guard deadline c) in
     if g \<noteq> 0 then uncertain rc out c else (RP_IO_OK, Ptr (addr out) (pt r), c\<lparr>rb_state := RSB_COMPLETE\<rparr>))"

definition rsb_finalize_body ::
  "rp_completion ptr \<Rightarrow> u64 \<Rightarrow> nat \<Rightarrow> rp_final_receipt ptr \<Rightarrow> ('e, 'f) rsb_context \<Rightarrow> int \<times> rp_final_receipt ptr \<times> ('e, 'f) rsb_context" where
  "rsb_finalize_body fp deadline ca out c =
    (if \<not> rsb_external ca c fp sizeof_rp_completion \<or> \<not> rsb_external ca c out sizeof_rp_final_receipt \<or>
        clash fp sizeof_rp_completion out sizeof_rp_final_receipt then (RP_IO_UNCERTAIN, out, c)
     else let out = Ptr (addr out) final_none;
              (adm, c) = (if rb_state c \<noteq> RSB_ACTIVE \<or> \<not> rsb_same (cp_session (pt fp)) (rb_session c) \<or> cp_mode (pt fp) \<noteq> rb_mode c then (RSB_STATE, c)
                          else rsb_admission deadline c) in
       if adm \<noteq> 0 then uncertain RSB_STATE out c
       else let (rc, st) = ros_finalize fp deadline (rb_store c); (g, c) = rsb_guard deadline (c\<lparr>rb_store := st\<rparr>) in
         if g \<noteq> 0 \<or> rc \<noteq> ROS_PENDING then uncertain rc out c
         else let (s, c) = root_steps [ROS_PENDING, ROS_PENDING, ROS_READY] deadline c in
           if s \<noteq> 0 then uncertain rc out c else finalize_take deadline out c)"

definition rsb_finalize :: "rp_completion ptr \<Rightarrow> u64 \<Rightarrow> rp_final_receipt ptr \<Rightarrow> ('e, 'f) rsb_context ptr \<Rightarrow> int \<times> rp_final_receipt ptr \<times> ('e, 'f) rsb_context ptr" where
  "rsb_finalize fp deadline = rsb_locked (\<lambda>rc. RP_IO_UNCERTAIN) (rsb_finalize_body fp deadline)"

definition get_status_body :: "nat \<Rightarrow> rsb_status ptr \<Rightarrow> ('e, 'f) rsb_context \<Rightarrow> int \<times> rsb_status ptr \<times> ('e, 'f) rsb_context" where
  "get_status_body ca out c =
    (if \<not> rsb_external ca c out sizeof_rsb_status then (RSB_ARGUMENT, out, c)
     else (RSB_OK, Ptr (addr out) \<lparr>bs_state = rb_state c, bs_cancelled = rb_cancelled c, bs_pending = rb_pending_valid c, bs_error = rb_error c,
       bs_job_deadline = rb_job_deadline c\<rparr>, c))"

definition rsb_get_status :: "rsb_status ptr \<Rightarrow> ('e, 'f) rsb_context ptr \<Rightarrow> int \<times> rsb_status ptr \<times> ('e, 'f) rsb_context ptr" where
  "rsb_get_status = rsb_locked (\<lambda>rc. rc) get_status_body"

end
