(* ===== verification/Store_Progress.thy ===== *)
theory Store_Progress
  imports Store_Commit
begin

text \<open>
  The commit protocol makes progress: on a medium that keeps what is written, with a clock that stays before the deadline and a working
  digest provider, a prepared segment reaches its receipt in a number of steps that only depends on its pages.
\<close>

section \<open>A medium that keeps what is written\<close>

locale kept_medium =
  fixes p :: "'e ros_port"
    and mem :: "'e \<Rightarrow> u32 \<Rightarrow> bytes option"
    and now :: u64
  assumes K_now: "the (ps_now_ms p) e = (now, e)"
    and K_cancelled: "the (ps_cancelled p) e = (0, e)"
    and K_admit: "the (ps_admit p) w d e = (0, e)"
    and K_write: "length q = 2048 \<Longrightarrow> \<exists>f. the (ps_write p) n q d e = (0, f) \<and> mem f = (mem e)(n \<mapsto> q)"
    and K_sync: "\<exists>f. the (ps_sync p) d e = (0, f) \<and> mem f = mem e"
    and K_read: "mem e n = Some q \<Longrightarrow> \<exists>f. the (ps_read p) n d e = (ROS_READ_OK, q, f) \<and> mem f = mem e"
    and K_missing: "mem e n = None \<Longrightarrow> \<exists>f. the (ps_read p) n d e = (ROS_READ_MISSING, [], f) \<and> mem f = mem e"

definition pages_of :: "(u32 \<Rightarrow> bytes option) \<Rightarrow> u32 \<Rightarrow> bytes option" where "pages_of e n = map_option fit_page (e n)"

lemma pages_of_write: "length q = 2048 \<Longrightarrow> pages_of (e(n \<mapsto> q)) = (pages_of e)(n \<mapsto> q)"
  by (rule ext) (simp add: pages_of_def fit_page_def)

interpretation kept: kept_medium "mem_port now seal" pages_of now for now seal
  by unfold_locales (auto simp: mem_port_def pages_of_write, auto simp: pages_of_def)

interpretation kept_log: kept_medium "logged (mem_port now seal)" "\<lambda>e. pages_of (fst e)" now for now seal
  by unfold_locales (auto simp: logged_def mem_port_def pages_of_write split: prod.splits, auto simp: pages_of_def)

text \<open>A job whose clock is current and whose deadline lies ahead; a provider that always yields a digest.\<close>

definition timely :: "'e ros_port \<Rightarrow> u64 \<Rightarrow> 'e ros_context \<Rightarrow> bool" where
  "timely p now c \<longleftrightarrow> oc_port c = p \<and> oc_initialized c = ROS_MAGIC \<and> oc_last_now c = now \<and> now < oc_deadline c"

definition sha_total :: "sha_provider \<Rightarrow> bool" where "sha_total h \<longleftrightarrow> (\<forall>x. sha_run h x \<noteq> None)"

lemma sha_totalD: "sha_total h \<Longrightarrow> fst (h x) = 0 \<and> snd (snd (h x)) = 32"
  unfolding sha_total_def sha_run_def by (drule spec [of _ x]) (auto split: prod.splits if_splits)

lemma env_same: "c\<lparr>oc_env := oc_env c\<rparr> = c" "oc_last_now c = t \<Longrightarrow> c\<lparr>oc_last_now := t\<rparr> = c" "c\<lparr>oc_page := oc_page c\<rparr> = c"
  by (cases c; simp)+

context kept_medium
begin

lemma guard_kept: "timely p now c \<Longrightarrow> ros_guard c = (ROS_OK, c)"
  by (simp add: ros_guard_def timely_def K_now K_cancelled env_same not_le [symmetric])

lemma settle_kept: "timely p now c \<Longrightarrow> ros_settle 0 c = (ROS_OK, c)"
  by (simp add: ros_settle_def guard_kept)

lemma admit_kept: "timely p now c \<Longrightarrow> ros_admit w c = (ROS_OK, c)"
  by (simp add: ros_admit_def guard_kept settle_kept K_admit env_same timely_def [of p now c])

lemma ready_kept: "timely p now c \<Longrightarrow> ros_ready c = (ROS_READY, c\<lparr>ss_ready := 1\<rparr>)"
  by (simp add: ros_ready_def guard_kept)

lemma timely_env: "timely p now (c\<lparr>oc_env := e\<rparr>) = timely p now c" "timely p now (c\<lparr>oc_page := q\<rparr>) = timely p now c"
  "timely p now (c\<lparr>oc_catalog := q\<rparr>) = timely p now c"
  by (simp_all add: timely_def)

lemma write_kept:
  assumes "timely p now c" and "length q = 2048"
  obtains e where "ros_write_page n q c = (ROS_OK, c\<lparr>oc_env := e\<rparr>)" and "mem e = (mem (oc_env c))(n \<mapsto> q)"
proof -
  obtain e where e: "the (ps_write p) n q (oc_deadline c) (oc_env c) = (0, e)" "mem e = (mem (oc_env c))(n \<mapsto> q)" using K_write [OF assms(2)] by blast
  moreover have "oc_port c = p" using assms by (simp add: timely_def)
  ultimately have "ros_write_page n q c = (ROS_OK, c\<lparr>oc_env := e\<rparr>)"
    using settle_kept [of "c\<lparr>oc_env := e\<rparr>"] assms by (simp add: ros_write_page_def admit_kept timely_env)
  then show ?thesis using e(2) by (rule that)
qed

lemma sync_kept:
  assumes "timely p now c"
  obtains e where "ros_sync_map c = (ROS_OK, c\<lparr>oc_env := e\<rparr>)" and "mem e = mem (oc_env c)"
proof -
  obtain e where e: "the (ps_sync p) (oc_deadline c) (oc_env c) = (0, e)" "mem e = mem (oc_env c)" using K_sync by blast
  moreover have "oc_port c = p" using assms by (simp add: timely_def)
  ultimately have "ros_sync_map c = (ROS_OK, c\<lparr>oc_env := e\<rparr>)"
    using settle_kept [of "c\<lparr>oc_env := e\<rparr>"] assms by (simp add: ros_sync_map_def admit_kept timely_env)
  then show ?thesis using e(2) by (rule that)
qed

lemma read_kept:
  assumes "timely p now c" and "mem (oc_env c) n = Some q" and "length q = 2048" and "length (oc_page c) = 2048"
  obtains e where "ros_read_page n c = (ROS_READ_OK, c\<lparr>oc_page := q, oc_env := e\<rparr>)" and "mem e = mem (oc_env c)"
proof -
  obtain e where e: "the (ps_read p) n (oc_deadline c) (oc_env c) = (ROS_READ_OK, q, e)" "mem e = mem (oc_env c)" using K_read [OF assms(2)] by blast
  moreover have "oc_port c = p" using assms by (simp add: timely_def)
  moreover have "blit 0 q (oc_page c) = q" using assms(3,4) by (simp add: blit_append)
  ultimately have "ros_read_page n c = (ROS_READ_OK, c\<lparr>oc_page := q, oc_env := e\<rparr>)"
    using guard_kept [of "c\<lparr>oc_page := q, oc_env := e\<rparr>"] assms(1) by (simp add: ros_read_page_def admit_kept timely_env)
  then show ?thesis using e(2) by (rule that)
qed

lemma missing_kept:
  assumes "timely p now c" and "mem (oc_env c) n = None"
  obtains e where "ros_read_page n c = (ROS_READ_MISSING, c\<lparr>oc_env := e\<rparr>)" and "mem e = mem (oc_env c)"
proof -
  obtain e where e: "the (ps_read p) n (oc_deadline c) (oc_env c) = (ROS_READ_MISSING, [], e)" "mem e = mem (oc_env c)" using K_missing [OF assms(2)] by blast
  moreover have "oc_port c = p" using assms by (simp add: timely_def)
  ultimately have "ros_read_page n c = (ROS_READ_MISSING, c\<lparr>oc_env := e\<rparr>)"
    using guard_kept [of "c\<lparr>oc_env := e\<rparr>"] assms(1) by (simp add: ros_read_page_def admit_kept timely_env env_same)
  then show ?thesis using e(2) by (rule that)
qed

lemma hash_kept: "timely p now c \<Longrightarrow> sha_total (oc_hash c) \<Longrightarrow> ros_hash x out c = (ROS_OK, hashed c x out, c)"
  using sha_totalD [of "oc_hash c" x]
  by (cases "oc_hash c x") (simp add: ros_hash_def guard_kept settle_kept hashed_def Let_def)

lemma catalog_kept:
  assumes "timely p now c" and "sha_total (oc_hash c)"
  shows "catalog_seal q c = (ROS_OK, c\<lparr>oc_catalog := catalog_image q c\<rparr>)"
  using hash_kept [of "c\<lparr>oc_catalog := q\<rparr>"] assms by (simp add: catalog_seal_def timely_env catalog_image_def hashed_def)

end

section \<open>Steps of a segment job\<close>

definition written :: "'e ros_context \<Rightarrow> nat" where
  "written c = (if ss_stage c = 3 then unat (oc_index c) else if List.member [5, 6, 7, 8] (ss_stage c) then page_count c else 0)"

definition held :: "(u32 \<Rightarrow> bytes option) \<Rightarrow> 'e ros_context \<Rightarrow> bool" where
  "held m c \<longleftrightarrow> (List.member [1, 2, 5, 7, 8] (ss_stage c) \<longrightarrow> m (segment_sector c) = Some (oc_catalog c)) \<and>
     (\<forall>j < written c. m (page_sector c j) = Some (payload c j))"

definition on_course :: "'e ros_port \<Rightarrow> ('e \<Rightarrow> u32 \<Rightarrow> bytes option) \<Rightarrow> u64 \<Rightarrow> 'e ros_context \<Rightarrow> bool" where
  "on_course p mem now c \<longleftrightarrow> timely p now c \<and> sha_total (oc_hash c) \<and> ss_fault c = 0 \<and> ss_job c = ROS_SEGMENT \<and> ros_shape c \<and> segment_fits c \<and>
     List.member [0, 1, 2, 3, 5, 6, 7, 8] (ss_stage c) \<and> held (mem (oc_env c)) c \<and> (ss_ready c \<noteq> 0 \<longrightarrow> ss_stage c = 8) \<and>
     (List.member [3, 5, 6, 7, 8] (ss_stage c) \<longrightarrow> oc_catalog c = commit_page c)"

text \<open>The steps that are left until the receipt.\<close>

definition remaining :: "'e ros_context \<Rightarrow> nat" where
  "remaining c =
    (if ss_ready c \<noteq> 0 then 0 else if ss_stage c = 0 then 2 * page_count c + 8 else if ss_stage c = 1 then 2 * page_count c + 7
     else if ss_stage c = 2 then 2 * page_count c + 6 else if ss_stage c = 3 then 2 * page_count c + 5 - unat (oc_index c)
     else if ss_stage c = 6 then page_count c + 4 else if ss_stage c = 7 then page_count c + 3
     else if ss_stage c = 5 then page_count c + 2 - unat (oc_index c) else 1)"

lemma page_count_small: "segment_fits c \<Longrightarrow> page_count c \<le> 17 \<and> unat (oc_index c) \<le> page_count c"
  using pages_bound(1) [of c] unfolding page_count_def word_le_nat_alt [symmetric]
  by (auto simp: word_le_nat_alt segment_fits_def Let_def)

lemma small_word: "i < 18 \<Longrightarrow> unat (of_nat i :: u32) = i"
  by (simp add: unsigned_of_nat take_bit_nat_eq_self)

lemma page_sector_distinct:
  assumes "i < 17"
  shows "page_sector c i \<noteq> segment_sector c" "j < 17 \<Longrightarrow> page_sector c i = page_sector c j \<longleftrightarrow> i = j"
proof -
  have "unat (1 + of_nat i :: u32) \<noteq> 0" using small_word [of i] assms by (simp add: unat_word_ariths)
  then show "page_sector c i \<noteq> segment_sector c" by (auto simp: page_sector_def add.assoc)
  show "page_sector c i = page_sector c j \<longleftrightarrow> i = j" if "j < 17"
  proof
    assume "page_sector c i = page_sector c j"
    then have "(of_nat i :: u32) = of_nat j" unfolding page_sector_def by (rule add_left_imp_eq)
    then have "unat (of_nat i :: u32) = unat (of_nat j :: u32)" by (rule arg_cong)
    then show "i = j" using small_word [of i] small_word [of j] assms that by simp
  qed simp
qed

lemma page_sector_upd [simp]:
  "page_sector (c\<lparr>oc_env := e\<rparr>) = page_sector c" "page_sector (c\<lparr>oc_page := q\<rparr>) = page_sector c" "page_sector (c\<lparr>oc_index := i\<rparr>) = page_sector c"
  "page_sector (c\<lparr>ss_stage := n\<rparr>) = page_sector c" "page_sector (c\<lparr>oc_catalog := q\<rparr>) = page_sector c" "page_sector (c\<lparr>ss_consumed_slots := n\<rparr>) = page_sector c"
  "page_sector (set_slot_state k x c) = page_sector c" "page_sector (ros_account c) = page_sector c" "page_sector (c\<lparr>oc_receipt := r\<rparr>) = page_sector c"
  "page_sector (c\<lparr>ss_ready := n\<rparr>) = page_sector c"
  by (simp_all add: page_sector_def segment_sector_def ros_sector_def fun_eq_iff)

lemma segment_sector_upd [simp]:
  "segment_sector (c\<lparr>oc_env := e\<rparr>) = segment_sector c" "segment_sector (c\<lparr>oc_page := q\<rparr>) = segment_sector c" "segment_sector (c\<lparr>oc_index := i\<rparr>) = segment_sector c"
  "segment_sector (c\<lparr>ss_stage := n\<rparr>) = segment_sector c" "segment_sector (c\<lparr>oc_catalog := q\<rparr>) = segment_sector c" "segment_sector (c\<lparr>ss_consumed_slots := n\<rparr>) = segment_sector c"
  "segment_sector (set_slot_state k x c) = segment_sector c" "segment_sector (ros_account c) = segment_sector c" "segment_sector (c\<lparr>oc_receipt := r\<rparr>) = segment_sector c"
  "segment_sector (c\<lparr>ss_ready := n\<rparr>) = segment_sector c"
  by (simp_all add: segment_sector_def ros_sector_def)

lemma payload_upd [simp]:
  "payload (c\<lparr>oc_env := e\<rparr>) = payload c" "payload (c\<lparr>oc_page := q\<rparr>) = payload c" "payload (c\<lparr>oc_index := i\<rparr>) = payload c"
  "payload (c\<lparr>ss_stage := n\<rparr>) = payload c" "payload (c\<lparr>oc_catalog := q\<rparr>) = payload c" "payload (c\<lparr>ss_consumed_slots := n\<rparr>) = payload c"
  "payload (set_slot_state k x c) = payload c" "payload (ros_account c) = payload c" "payload (c\<lparr>oc_receipt := r\<rparr>) = payload c"
  "payload (c\<lparr>ss_ready := n\<rparr>) = payload c"
  by (simp_all add: payload_def fun_eq_iff)

lemma page_count_upd [simp]:
  "page_count (c\<lparr>oc_env := e\<rparr>) = page_count c" "page_count (c\<lparr>oc_page := q\<rparr>) = page_count c" "page_count (c\<lparr>oc_index := i\<rparr>) = page_count c"
  "page_count (c\<lparr>ss_stage := n\<rparr>) = page_count c" "page_count (c\<lparr>oc_catalog := q\<rparr>) = page_count c" "page_count (c\<lparr>ss_consumed_slots := n\<rparr>) = page_count c"
  "page_count (set_slot_state k x c) = page_count c" "page_count (ros_account c) = page_count c" "page_count (c\<lparr>oc_receipt := r\<rparr>) = page_count c"
  "page_count (c\<lparr>ss_ready := n\<rparr>) = page_count c"
  by (simp_all add: page_count_def)

lemma commit_page_upd [simp]:
  "commit_page (c\<lparr>oc_env := e\<rparr>) = commit_page c" "commit_page (c\<lparr>oc_page := q\<rparr>) = commit_page c" "commit_page (c\<lparr>oc_index := i\<rparr>) = commit_page c"
  "commit_page (c\<lparr>ss_stage := n\<rparr>) = commit_page c" "commit_page (c\<lparr>oc_catalog := q\<rparr>) = commit_page c" "commit_page (c\<lparr>ss_consumed_slots := n\<rparr>) = commit_page c"
  "commit_page (set_slot_state k x c) = commit_page c" "commit_page (c\<lparr>oc_receipt := r\<rparr>) = commit_page c" "commit_page (c\<lparr>ss_ready := n\<rparr>) = commit_page c"
  by (rule plan_pages(2), simp add: same_plan_def)+

lemma same_plan_trans: "same_plan c s \<Longrightarrow> same_plan s t \<Longrightarrow> same_plan c t"
  by (simp add: same_plan_def)

lemma same_plan_refl [simp]: "same_plan c c"
  by (simp add: same_plan_def)

lemma same_plan_gate [simp]: "same_plan c (s\<lparr>oc_gate := g\<rparr>) = same_plan c s" "same_plan (c\<lparr>oc_gate := g\<rparr>) s = same_plan c s"
  by (simp_all add: same_plan_def)

lemma same_plan_upd [simp]:
  "same_plan c (s\<lparr>oc_env := e\<rparr>) = same_plan c s" "same_plan c (s\<lparr>oc_page := q\<rparr>) = same_plan c s" "same_plan c (s\<lparr>oc_index := i\<rparr>) = same_plan c s"
  "same_plan c (s\<lparr>ss_stage := n\<rparr>) = same_plan c s" "same_plan c (s\<lparr>oc_catalog := q\<rparr>) = same_plan c s" "same_plan c (s\<lparr>ss_consumed_slots := n\<rparr>) = same_plan c s"
  "same_plan c (set_slot_state k x s) = same_plan c s" "same_plan c (s\<lparr>oc_receipt := r\<rparr>) = same_plan c s" "same_plan c (s\<lparr>ss_ready := n\<rparr>) = same_plan c s"
  by (simp_all add: same_plan_def)

lemma same_plan_account: "unat (sg_root (oc_segment s)) < length (oc_records s) \<Longrightarrow> same_plan c (ros_account s) = same_plan c s"
  by (cases "oc_segment s = oc_segment c") (simp_all add: same_plan_def ros_account_def Let_def)

lemma length_payload: "segment_fits c \<Longrightarrow> ros_shape c \<Longrightarrow> i < page_count c \<Longrightarrow> length (payload c i) = 2048"
  using pages_bound(2) [of c] by (simp add: payload_def Let_def ros_shape_def)

context kept_medium
begin

abbreviation course :: "'e ros_context \<Rightarrow> bool" where "course \<equiv> on_course p mem now"

abbreviation advances :: "int \<times> 'e ros_context \<Rightarrow> 'e ros_context \<Rightarrow> bool" where
  "advances r c \<equiv> (fst r = ROS_PENDING \<or> fst r = ROS_READY) \<and> course (snd r) \<and> Suc (remaining (snd r)) = remaining c \<and> same_plan c (snd r)"

lemma courseD:
  assumes "course c"
  shows "timely p now c" "sha_total (oc_hash c)" "ros_shape c" "segment_fits c" "length (oc_page c) = 2048" "length (oc_catalog c) = 2048"
    "page_count c \<le> 17" "unat (oc_index c) \<le> page_count c" "held (mem (oc_env c)) c"
  using assms page_count_small [of c] by (auto simp: on_course_def ros_shape_def)

lemma write_advances:
  assumes g: "course c" and r: "ss_ready c = 0" and st: "ss_stage c = 0 \<or> ss_stage c = 6"
  shows "advances (let (rc, c) = ros_write_page (segment_sector c) (oc_catalog c) c in if rc \<noteq> 0 then (ROS_FAILED, c) else (ROS_PENDING, stage_next c)) c"
proof -
  note d = courseD [OF g]
  obtain e where e: "ros_write_page (segment_sector c) (oc_catalog c) c = (ROS_OK, c\<lparr>oc_env := e\<rparr>)" "mem e = (mem (oc_env c))(segment_sector c \<mapsto> oc_catalog c)"
    using write_kept [OF d(1,6)] .
  have "j < page_count c \<Longrightarrow> page_sector c j \<noteq> segment_sector c" for j using page_sector_distinct(1) [of j c] d(7) by simp
  then have "held (mem e) (stage_next (c\<lparr>oc_env := e\<rparr>))" using st d(9) by (auto simp: held_def written_def stage_next_def e(2))
  moreover have "course (stage_next (c\<lparr>oc_env := e\<rparr>))" if "held (mem e) (stage_next (c\<lparr>oc_env := e\<rparr>))"
    using st g r that by (elim disjE) (simp_all add: on_course_def timely_def stage_next_def)
  ultimately show ?thesis using st r by (auto simp: e(1) remaining_def stage_next_def)
qed

lemma sync_advances:
  assumes g: "course c" and r: "ss_ready c = 0"
  shows "ss_stage c = 1 \<Longrightarrow> advances (let (rc, c) = ros_sync_map c in if rc \<noteq> 0 then (ROS_FAILED, c) else (ROS_PENDING, stage_next c)) c"
    "ss_stage c = 7 \<Longrightarrow> advances (let (rc, c) = ros_sync_map c in if rc \<noteq> 0 then (ROS_FAILED, c) else (ROS_PENDING, c\<lparr>oc_index := 0, ss_stage := 5\<rparr>)) c"
proof -
  note d = courseD [OF g]
  obtain e where e: "ros_sync_map c = (ROS_OK, c\<lparr>oc_env := e\<rparr>)" "mem e = mem (oc_env c)" using sync_kept [OF d(1)] .
  show "advances (let (rc, c) = ros_sync_map c in if rc \<noteq> 0 then (ROS_FAILED, c) else (ROS_PENDING, stage_next c)) c" if "ss_stage c = 1"
    using g r that by (auto simp: e on_course_def timely_def stage_next_def remaining_def held_def written_def)
  show "advances (let (rc, c) = ros_sync_map c in if rc \<noteq> 0 then (ROS_FAILED, c) else (ROS_PENDING, c\<lparr>oc_index := 0, ss_stage := 5\<rparr>)) c"
    if "ss_stage c = 7"
    using g r that by (auto simp: e on_course_def timely_def remaining_def held_def written_def segment_fits_index)
qed

lemma course_index:
  assumes g: "course c" and i: "oc_index c \<noteq> sg_pages (oc_segment c)"
  shows "unat (oc_index c + 1) = Suc (unat (oc_index c))" "unat (oc_index c) < page_count c" "oc_index c + 1 \<le> sg_pages (oc_segment c)"
proof -
  show l: "unat (oc_index c) < page_count c" using courseD(8) [OF g] i by (auto simp: page_count_def le_less word_unat_eq_iff)
  then show n: "unat (oc_index c + 1) = Suc (unat (oc_index c))"
    using unsigned_less [of "sg_pages (oc_segment c)", where ?'a = nat] by (simp add: unat_word_ariths page_count_def)
  show "oc_index c + 1 \<le> sg_pages (oc_segment c)" using l n by (simp add: word_le_nat_alt page_count_def)
qed

lemma intent_advances:
  assumes g: "course c" and r: "ss_ready c = 0" and st: "ss_stage c = 2"
  shows "advances (segment_intent c) c"
proof -
  note d = courseD [OF g]
  have "mem (oc_env c) (segment_sector c) = Some (oc_catalog c)" using d(9) st by (simp add: held_def)
  then obtain e where e: "ros_read_page (segment_sector c) c = (ROS_READ_OK, c\<lparr>oc_page := oc_catalog c, oc_env := e\<rparr>)" "mem e = mem (oc_env c)"
    using read_kept [OF d(1) _ d(6,5)] by blast
  let ?c = "c\<lparr>oc_page := oc_catalog c, oc_env := e\<rparr>"
  let ?s = "(set_slot_state (sg_slot (oc_segment c)) SLOT_INTENT ?c)\<lparr>ss_consumed_slots := ss_consumed_slots c + 1\<rparr>"
  have t: "timely p now ?s" "sha_total (oc_hash ?s)" using d(1,2) by (simp_all add: timely_def set_slot_state_def Let_def)
  have cp: "catalog_image (segment_fields SLOT_COMMIT ?s) ?s = commit_page c" using plan_pages(2) [of c ?s] unfolding commit_page_def by simp
  have "segment_intent c = (ROS_PENDING, stage_next (?s\<lparr>oc_catalog := commit_page c, oc_index := 0\<rparr>))"
    using catalog_kept [OF t] by (simp add: segment_intent_def e(1) catalog_segment_def Let_def cp)
  moreover have "ros_shape (?s\<lparr>oc_catalog := commit_page c\<rparr>)"
    using d(3,5,6) by (simp add: ros_shape_def commit_page_def) (simp add: set_slot_state_def Let_def)
  ultimately show ?thesis
    using g r st t by (simp add: on_course_def stage_next_def remaining_def held_def written_def timely_def segment_fits_index)
qed

lemma payload_advances:
  assumes g: "course c" and r: "ss_ready c = 0" and st: "ss_stage c = 3"
  shows "advances (segment_write c) c"
proof (cases "oc_index c = sg_pages (oc_segment c)")
  case True
  then show ?thesis using g r st by (simp add: segment_write_def on_course_def timely_def remaining_def held_def written_def page_count_def)
next
  case False
  note d = courseD [OF g] and n = course_index [OF g False]
  let ?c = "c\<lparr>oc_page := payload_page c\<rparr>" and ?i = "unat (oc_index c)"
  have q: "payload_page c = payload c ?i" using payload_page_eq [OF d(4,3)] .
  have sec: "segment_sector ?c + 1 + oc_index ?c = page_sector c ?i" by (simp add: page_sector_def)
  have "timely p now ?c" using d(1) by (simp add: timely_def)
  then obtain e where e: "ros_write_page (page_sector c ?i) (payload c ?i) ?c = (ROS_OK, ?c\<lparr>oc_env := e\<rparr>)"
    "mem e = (mem (oc_env ?c))(page_sector c ?i \<mapsto> payload c ?i)"
    using write_kept [OF _ length_payload [OF d(4,3) n(2)]] by blast
  have "mem e (page_sector c j) = Some (payload c j)" if "j < Suc ?i" for j
    using that d(7,9) n(2) st page_sector_distinct(2) [of j ?i c] by (auto simp: e(2) held_def written_def less_Suc_eq)
  then have "held (mem e) (index_next (?c\<lparr>oc_env := e\<rparr>))" using st n(1) by (simp add: held_def written_def index_next_def)
  moreover have "segment_write c = (ROS_PENDING, index_next (?c\<lparr>oc_env := e\<rparr>))" using False e(1) sec by (simp add: segment_write_def q Let_def)
  moreover have "ros_shape ?c" using d(3) length_payload [OF d(4,3) n(2)] by (simp add: ros_shape_def q)
  ultimately show ?thesis
    using g st r n by (simp add: on_course_def timely_def index_next_def remaining_def segment_fits_index Suc_diff_le)
qed

lemma verify_advances:
  assumes g: "course c" and r: "ss_ready c = 0" and st: "ss_stage c = 5"
  shows "advances (segment_verify c) c"
proof (cases "oc_index c = sg_pages (oc_segment c)")
  case True
  then show ?thesis using g r st by (simp add: segment_verify_def on_course_def timely_def remaining_def held_def written_def page_count_def)
next
  case False
  note d = courseD [OF g] and n = course_index [OF g False]
  let ?i = "unat (oc_index c)"
  have sec: "segment_sector c + 1 + oc_index c = page_sector c ?i" by (simp add: page_sector_def)
  have "mem (oc_env c) (page_sector c ?i) = Some (payload c ?i)" using d(9) st n(2) by (simp add: held_def written_def)
  then obtain e where e: "ros_read_page (page_sector c ?i) c = (ROS_READ_OK, c\<lparr>oc_page := payload c ?i, oc_env := e\<rparr>)" "mem e = mem (oc_env c)"
    using read_kept [OF d(1) _ length_payload [OF d(4,3) n(2)] d(5)] by blast
  let ?s = "c\<lparr>oc_page := payload c ?i, oc_env := e\<rparr>"
  have l: "length (part (?i * 2048) (page_bytes c) (oc_container c)) = page_bytes c"
    using pages_bound(2) [OF d(4)] d(3) by (simp add: page_bytes_def ros_shape_def)
  have "payload c ?i = part (?i * 2048) (page_bytes c) (oc_container c) @ replicate (2048 - page_bytes c) 255"
    by (simp add: payload_def page_bytes_def Let_def)
  then have "part 0 (page_bytes c) (payload c ?i) = part (?i * 2048) (page_bytes c) (oc_container c)"
    "part (page_bytes c) (2048 - page_bytes c) (payload c ?i) = replicate (2048 - page_bytes c) 255"
    using l by (simp_all add: part_def)
  then have "\<not> payload_differs ?s" by (simp add: payload_differs_def page_bytes_def ros_fill_def list_all_iff Let_def)
  then have "segment_verify c = (ROS_PENDING, index_next ?s)" using False e(1) sec by (simp add: segment_verify_def)
  moreover have "ros_shape ?s" using d(3) length_payload [OF d(4,3) n(2)] by (simp add: ros_shape_def)
  ultimately show ?thesis
    using g st r n by (simp add: on_course_def timely_def index_next_def remaining_def segment_fits_index Suc_diff_le held_def written_def e(2))
qed

lemma commit_advances:
  assumes g: "course c" and r: "ss_ready c = 0" and st: "ss_stage c = 8"
  shows "advances (segment_commit c) c"
proof -
  note d = courseD [OF g]
  have "mem (oc_env c) (segment_sector c) = Some (oc_catalog c)" using d(9) st by (simp add: held_def)
  then obtain e where e: "ros_read_page (segment_sector c) c = (ROS_READ_OK, c\<lparr>oc_page := oc_catalog c, oc_env := e\<rparr>)" "mem e = mem (oc_env c)"
    using read_kept [OF d(1) _ d(6,5)] by blast
  let ?s = "ros_account (set_slot_state (sg_slot (oc_segment c)) SLOT_COMMIT (c\<lparr>oc_page := oc_catalog c, oc_env := e\<rparr>))"
  let ?r = "\<lparr>sr_durable = 1, sr_es_header = part 0 128 (oc_container c)\<rparr>"
  have f: "timely p now (?s\<lparr>oc_receipt := ?r\<rparr>)" "oc_hash ?s = oc_hash c" "oc_catalog ?s = oc_catalog c" "ros_shape (?s\<lparr>oc_receipt := ?r\<rparr>)"
    using d(1,3,5,6) by (simp_all add: timely_def set_slot_state_def ros_account_def Let_def ros_shape_def)
  have "unat (sg_root (oc_segment c)) < length (oc_records c)" using d(3,4) by (auto simp: ros_shape_def segment_fits_def Let_def word_less_nat_alt)
  then have sp: "same_plan c (ros_account (set_slot_state k v (c\<lparr>oc_page := q, oc_env := e\<rparr>)))" for k v q by (simp add: same_plan_account)
  have "segment_commit c = (ROS_READY, ?s\<lparr>oc_receipt := ?r, ss_ready := 1\<rparr>)"
    using ready_kept [OF f(1)] by (simp add: segment_commit_def e(1) Let_def)
  then show ?thesis
    using g r st f sp plan_pages(2) [OF sp] by (simp add: on_course_def remaining_def held_def written_def e(2) timely_def)
qed

lemma segment_advances:
  assumes g: "course c" and r: "ss_ready c = 0"
  shows "advances (segment_step c) c"
proof -
  have "List.member [0, 1, 2, 3, 5, 6, 7, 8] (ss_stage c)" using g by (simp add: on_course_def)
  then consider "ss_stage c = 0 \<or> ss_stage c = 6" | "ss_stage c = 1" | "ss_stage c = 2" | "ss_stage c = 3" | "ss_stage c = 5" | "ss_stage c = 7" | "ss_stage c = 8"
    by auto
  then show ?thesis
  proof cases
    case 1
    then show ?thesis using write_advances [OF g r 1] by (auto simp: segment_step_def)
  qed (use sync_advances [OF g r] intent_advances [OF g r] payload_advances [OF g r] verify_advances [OF g r] commit_advances [OF g r] in
      \<open>simp_all add: segment_step_def\<close>)
qed

section \<open>Complete runs\<close>

lemma course_gate [simp]: "course (c\<lparr>oc_gate := g\<rparr>) = course c" "remaining (c\<lparr>oc_gate := g\<rparr>) = remaining c"
proof -
  have pl: "same_plan c (c\<lparr>oc_gate := g\<rparr>)" by simp
  note p = plan_pages [OF pl]
  have "page_sector (c\<lparr>oc_gate := g\<rparr>) = page_sector c" by (rule ext) (simp add: page_sector_def p)
  then show "course (c\<lparr>oc_gate := g\<rparr>) = course c" "remaining (c\<lparr>oc_gate := g\<rparr>) = remaining c"
    by (simp_all add: on_course_def held_def written_def timely_def remaining_def ros_shape_def segment_fits_def p)
qed

lemma remaining_ready: "course c \<Longrightarrow> remaining c = 0 \<longleftrightarrow> ss_ready c \<noteq> 0"
  using courseD(8) [of c] by (auto simp: remaining_def)

lemma step_advances:
  assumes g: "course c" and r: "remaining c = Suc k" and o: "oc_gate c = 0"
  obtains rc s where "ros_step (Ptr a c) = (rc, Ptr a s)" and "rc = ROS_PENDING \<or> rc = ROS_READY" and "course s" and "remaining s = k" and "oc_gate s = 0" and "same_plan c s"
proof -
  let ?c = "c\<lparr>oc_gate := 1\<rparr>"
  have gc: "course ?c" using g by simp
  have f: "ss_fault c = 0" "ss_job c = ROS_SEGMENT" "ss_ready c = 0" "timely p now ?c" "oc_initialized c = ROS_MAGIC"
    using g remaining_ready [OF g] r by (auto simp: on_course_def timely_def)
  have b: "step_body ?c = segment_step ?c" using f guard_kept [OF f(4)] by (simp add: step_body_def)
  have "advances (segment_step ?c) ?c" using segment_advances [OF gc] f(3) by simp
  then show ?thesis
    using that [of "fst (segment_step ?c)" "(snd (segment_step ?c))\<lparr>oc_gate := 0\<rparr>"] r b f(5) o by (simp add: ros_step_def case_prod_beta Let_def)
qed

lemma run_advances:
  "course c \<Longrightarrow> remaining c = k \<Longrightarrow> oc_gate c = 0 \<Longrightarrow>
   \<exists>s. ros_exec opus (replicate k RosStep) (Ptr a c) = Ptr a s \<and> course s \<and> ss_ready s \<noteq> 0 \<and> oc_gate s = 0 \<and> same_plan c s"
proof (induction k arbitrary: c)
  case 0
  then show ?case using remaining_ready by simp
next
  case (Suc k)
  from step_advances [OF Suc.prems(1,2,3), of a]
  obtain rc s where "ros_step (Ptr a c) = (rc, Ptr a s)" "course s" "remaining s = k" "oc_gate s = 0" "same_plan c s" by metis
  then show ?case using Suc.IH [of s] same_plan_trans [of c s] by auto
qed

lemma timely_fault: "timely p now (snd (ros_fault err c)) = timely p now c"
  by (simp add: timely_def ros_fault_def ros_buffers_def)

lemma timely_hash: "timely p now c \<Longrightarrow> timely p now (snd (snd (ros_hash x out c)))"
  by (simp add: ros_hash_def ros_settle_def guard_kept Let_def case_prod_beta timely_fault)

lemma timely_catalog: "timely p now c \<Longrightarrow> timely p now (snd (catalog_seal q c))"
  using timely_hash [of "c\<lparr>oc_catalog := q\<rparr>"] by (simp add: catalog_seal_def Let_def case_prod_beta timely_env)

lemma timely_seal:
  assumes "timely p now c"
  shows "timely p now (snd (seal_prepared x n c))"
proof -
  have seg: "timely p now (s\<lparr>oc_segment := g\<rparr>) = timely p now s" "timely p now (s\<lparr>oc_container := k\<rparr>) = timely p now s" for s g k by (simp_all add: timely_def)
  have r: "timely p now (snd (seal_record n s))" if "timely p now s" for s
    using timely_hash [OF that] by (simp add: seal_record_def catalog_segment_def Let_def case_prod_beta timely_catalog seg)
  have "timely p now (snd (seal_call info x n s))" if "timely p now s" for s info
    using that by (simp add: seal_call_def Let_def case_prod_beta guard_kept timely_env seg timely_fault r)
  then show ?thesis using assms by (simp add: seal_prepared_def Let_def admit_kept seg timely_fault split: option.split)
qed

lemma begin_kept:
  assumes "ros_begin job d c = (ROS_OK, s)" and "oc_port c = p" and "oc_initialized c = ROS_MAGIC"
  shows "timely p now s" "oc_hash s = oc_hash c" "ss_job s = job" "ss_fault s = 0" "ss_stage s = 0" "ss_ready s = 0"
  using assms by (auto simp: ros_begin_def K_now Let_def ros_fault_def ros_buffers_def timely_def split: if_splits)

lemma prepare_course:
  assumes k: "store_ok p cap (\<lambda>e. True) c" and i: "oc_initialized c = ROS_MAGIC" and h: "sha_total (oc_hash c)"
    and b: "prepare_body opus False a bp pp n d c = (ROS_PENDING, s)"
  shows "course s \<and> remaining s = 2 * page_count s + 8"
proof -
  let ?slot = "first_free c (unat (ss_slot_count c)) 0"
  obtain rc1 c1 where c1: "ros_begin ROS_SEGMENT d c = (rc1, c1)" by (cases "ros_begin ROS_SEGMENT d c")
  let ?c = "c1\<lparr>oc_segment := prepare_segment (pt bp) (part 0 n (pt pp)) n ?slot c1\<rparr>"
  have rc: "rc1 = 0 \<or> rc1 = ROS_STATE \<or> rc1 = ROS_FAILED \<or> rc1 = ROS_ARGUMENT"
    using c1 by (auto simp: ros_begin_def Let_def ros_fault_def split: if_splits prod.splits)
  have sq: "sequence_valid ?c = (ROS_OK, ?c) \<or> fst (sequence_valid ?c) = ROS_FAILED" by (auto simp: sequence_valid_def Let_def)
  have z: "rc1 = 0" "seal_prepared (part 0 n (pt pp)) n ?c = (ROS_PENDING, s)"
    using b c1 rc sq by (auto simp: prepare_body_def Let_def split: if_splits prod.splits)
  have ok: "store_ok p cap (\<lambda>e. True) s" using any.prepare_stays [OF k, of opus False a bp pp n d] b by (simp add: post_def)
  note g = begin_kept [OF c1 [unfolded z(1)] any.ok_port [OF k] i]
  have t: "timely p now ?c" using g(1) by (simp add: timely_def)
  have ts: "timely p now s" using timely_seal [OF t, of "part 0 n (pt pp)" n] z(2) by simp
  have "seal_ran (\<lambda>e f. True \<longrightarrow> True) n ?c ROS_PENDING s"
    using any.frame.seal_prepared_ran [of ?c p n "part 0 n (pt pp)"] t z(2) by (simp add: post_def timely_def)
  then obtain q where "sealed_as (\<lambda>e f. True \<longrightarrow> True) n ?c q s" by (auto simp: seal_ran_def)
  then have f: "oc_hash s = oc_hash c" "ss_job s = ROS_SEGMENT" "ss_fault s = 0" "ss_stage s = 0" "ss_ready s = 0"
    using g by (auto simp: sealed_as_def Let_def digested_def elim!: movedE)
  have "segment_job_fits s" using any.ok_segment [OF ok f(3,2)] .
  then show ?thesis
    using ts f h any.ok_shape(1) [OF ok] by (simp add: on_course_def segment_job_fits_def held_def written_def remaining_def)
qed

end

section \<open>Mounting a blank volume\<close>

text \<open>Recovery in progress on a volume without any page.\<close>

definition blank :: "'e ros_port \<Rightarrow> ('e \<Rightarrow> u32 \<Rightarrow> bytes option) \<Rightarrow> u64 \<Rightarrow> 'e ros_context \<Rightarrow> bool" where
  "blank p mem now c \<longleftrightarrow> timely p now c \<and> ss_fault c = 0 \<and> ss_job c = ROS_RECOVER \<and> oc_gate c = 0 \<and> mem (oc_env c) = (\<lambda>n. None) \<and>
     (ss_stage c = 0 \<or> ss_stage c = 10) \<and> oc_scan_root c \<le> oc_root_count c \<and> oc_scan_slot c \<le> ss_slot_count c \<and>
     oc_records c = replicate 32 ros_record_zero"

definition unscanned :: "'e ros_context \<Rightarrow> nat" where
  "unscanned c = (if ss_ready c \<noteq> 0 then 0 else unat (ss_slot_count c) - unat (oc_scan_slot c) + 1 +
     (if ss_stage c = 0 then unat (oc_root_count c) - unat (oc_scan_root c) + 1 else 0))"

text \<open>The fields that recovery of a blank volume changes.\<close>

definition scanned :: "'e ros_context \<Rightarrow> 'e ros_context \<Rightarrow> bool" where
  "scanned c s \<longleftrightarrow> (\<exists>e r k st m rd. s = c\<lparr>oc_env := e, oc_scan_root := r, oc_scan_slot := k, ss_stage := st, ss_mounted := m, ss_ready := rd\<rparr>)"

lemma scannedI: "s = c\<lparr>oc_env := e, oc_scan_root := r, oc_scan_slot := k, ss_stage := st, ss_mounted := m, ss_ready := rd\<rparr> \<Longrightarrow> scanned c s"
  unfolding scanned_def by blast

lemma scannedE:
  assumes "scanned c s"
  obtains e r k st m rd where "s = c\<lparr>oc_env := e, oc_scan_root := r, oc_scan_slot := k, ss_stage := st, ss_mounted := m, ss_ready := rd\<rparr>"
  using assms unfolding scanned_def by blast

lemma scanned_upd:
  "scanned c (c\<lparr>oc_env := e, oc_scan_root := r\<rparr>)" "scanned c (c\<lparr>oc_env := e, oc_scan_slot := k\<rparr>)" "scanned c (c\<lparr>ss_stage := t\<rparr>)"
  "scanned c (c\<lparr>ss_mounted := m, ss_ready := rd\<rparr>)" "scanned c c"
  by (rule scannedI [where e = e and r = r and k = "oc_scan_slot c" and st = "ss_stage c" and m = "ss_mounted c" and rd = "ss_ready c"], cases c, simp)
    (rule scannedI [where e = e and r = "oc_scan_root c" and k = k and st = "ss_stage c" and m = "ss_mounted c" and rd = "ss_ready c"], cases c, simp,
     rule scannedI [where e = "oc_env c" and r = "oc_scan_root c" and k = "oc_scan_slot c" and st = t and m = "ss_mounted c" and rd = "ss_ready c"], cases c, simp,
     rule scannedI [where e = "oc_env c" and r = "oc_scan_root c" and k = "oc_scan_slot c" and st = "ss_stage c" and m = m and rd = rd], cases c, simp,
     rule scannedI [where e = "oc_env c" and r = "oc_scan_root c" and k = "oc_scan_slot c" and st = "ss_stage c" and m = "ss_mounted c" and rd = "ss_ready c"], cases c, simp)

lemma scanned_trans: "scanned c s \<Longrightarrow> scanned s t \<Longrightarrow> scanned c t"
  by (elim scannedE) (rule scannedI, simp)

lemma records_zero: "recover_records (take n (replicate m ros_record_zero)) c = (ROS_OK, c)"
proof (induction n arbitrary: m)
  case (Suc n)
  then show ?case by (cases m) (simp_all add: ros_record_zero_def)
qed simp

lemma unat_suc: "(x :: u32) < y \<Longrightarrow> unat (x + 1) = Suc (unat x) \<and> x + 1 \<le> y"
  using unsigned_less [of y, where ?'a = nat] by (simp add: word_less_nat_alt word_le_nat_alt unat_word_ariths)

context kept_medium
begin

lemma blank_step:
  assumes b: "blank p mem now c" and u: "unscanned c = Suc k"
  shows "\<exists>s. snd (ros_step (Ptr a c)) = Ptr a s \<and> blank p mem now s \<and> unscanned s = k \<and> scanned c s \<and> (k = 0 \<longrightarrow> ss_mounted s = 1)"
proof -
  let ?c = "c\<lparr>oc_gate := 1\<rparr>"
  have f: "timely p now ?c" "ss_fault c = 0" "ss_job c = ROS_RECOVER" "ss_ready c = 0" "oc_initialized c = ROS_MAGIC" "oc_gate c = 0"
    "mem (oc_env c) = (\<lambda>n. None)" "oc_records c = replicate 32 ros_record_zero" "ss_stage c = 0 \<or> ss_stage c = 10"
    "oc_scan_root c \<le> oc_root_count c" "oc_scan_slot c \<le> ss_slot_count c"
    using b u by (auto simp: blank_def timely_def unscanned_def split: if_splits)
  have st: "snd (ros_step (Ptr a c)) = Ptr a ((snd (recover_step ?c))\<lparr>oc_gate := 0\<rparr>)"
    using f guard_kept [OF f(1)] by (simp add: ros_step_def step_body_def case_prod_beta Let_def)
  have bl: "?thesis" if "snd (recover_step ?c) = s\<lparr>oc_gate := 1\<rparr>" "scanned c s" "mem (oc_env s) = (\<lambda>n. None)" "ss_stage s = 0 \<or> ss_stage s = 10"
    "oc_scan_root s \<le> oc_root_count c" "oc_scan_slot s \<le> ss_slot_count c" "unscanned s = k" "k = 0 \<Longrightarrow> ss_mounted s = 1" for s
  proof -
    have "oc_gate s = 0" "blank p mem now s" using b that(2-6) f(6) by (auto simp: blank_def timely_def elim!: scannedE)
    then show ?thesis using st that by (auto simp: gate_same)
  qed
  have n: "mem (oc_env ?c) j = None" for j using f(7) by simp
  show ?thesis
  proof (cases "ss_stage c = 0 \<and> oc_scan_root c < oc_root_count c")
    case True
    obtain e where e: "ros_read_page (oc_scan_root ?c) ?c = (ROS_READ_MISSING, ?c\<lparr>oc_env := e\<rparr>)" "mem e = mem (oc_env ?c)" using missing_kept [OF f(1) n] .
    show ?thesis
      by (rule bl [of "c\<lparr>oc_env := e, oc_scan_root := oc_scan_root c + 1\<rparr>"])
        (use True e f u unat_suc [of "oc_scan_root c" "oc_root_count c"] in
          \<open>auto simp: recover_step_def recover_roots_def unscanned_def word_less_nat_alt intro: scanned_upd\<close>)
  next
    case a: False
    show ?thesis
    proof (cases "ss_stage c = 0")
      case True
      then have "oc_scan_root c = oc_root_count c" using a f(10) by simp
      then show ?thesis
        by (intro bl [of "c\<lparr>ss_stage := 10\<rparr>"])
          (use True f u in \<open>auto simp: recover_step_def recover_roots_def unscanned_def intro: scanned_upd\<close>)
    next
      case False
      then have s10: "ss_stage c = 10" using f(9) by simp
      show ?thesis
      proof (cases "oc_scan_slot c = ss_slot_count c")
        case True
        have "timely p now (?c\<lparr>ss_mounted := 1\<rparr>)" using f(1) by (simp add: timely_def)
        then show ?thesis
          by (intro bl [of "c\<lparr>ss_mounted := 1, ss_ready := 1\<rparr>"])
            (use True s10 f u ready_kept [of "?c\<lparr>ss_mounted := 1\<rparr>"] in
              \<open>auto simp: recover_step_def recover_slots_def unscanned_def records_zero simp del: take_replicate intro: scanned_upd\<close>)
      next
        case False
        then have lt: "oc_scan_slot c < ss_slot_count c" using f(11) by simp
        obtain e where e: "ros_read_page (ros_sector ?c (oc_scan_slot ?c)) ?c = (ROS_READ_MISSING, ?c\<lparr>oc_env := e\<rparr>)" "mem e = mem (oc_env ?c)"
          using missing_kept [OF f(1) n] .
        show ?thesis
          by (rule bl [of "c\<lparr>oc_env := e, oc_scan_slot := oc_scan_slot c + 1\<rparr>"])
            (use s10 False lt e f u unat_suc [OF lt] in
              \<open>auto simp: recover_step_def recover_slots_def scan_next_def unscanned_def word_less_nat_alt intro: scanned_upd\<close>)
      qed
    qed
  qed
qed

lemma blank_run:
  "blank p mem now c \<Longrightarrow> unscanned c = Suc k \<Longrightarrow>
   \<exists>s. ros_exec opus (replicate (Suc k) RosStep) (Ptr a c) = Ptr a s \<and> blank p mem now s \<and> ss_ready s \<noteq> 0 \<and> ss_mounted s = 1 \<and> scanned c s"
proof (induction k arbitrary: c)
  case 0
  then show ?case using blank_step [OF 0, of a] by (auto simp: unscanned_def split: if_splits)
next
  case (Suc k)
  from blank_step [OF Suc.prems, of a]
  obtain s where s: "snd (ros_step (Ptr a c)) = Ptr a s" "blank p mem now s" "unscanned s = Suc k" "scanned c s" by auto
  from Suc.IH [OF s(2,3)] s show ?case by (auto intro: scanned_trans)
qed

section \<open>Reserving and preparing on a kept medium\<close>

lemma step_kept:
  assumes "timely p now c" and "ss_fault c = 0" and "ss_job c \<noteq> ROS_NONE" and "ss_ready c = 0" and "oc_gate c = 0"
    and "job_step (ss_job c) (c\<lparr>oc_gate := 1\<rparr>) = (rc, s\<lparr>oc_gate := 1\<rparr>)" and "oc_gate s = 0"
  shows "ros_step (Ptr a c) = (rc, Ptr a s)"
proof -
  have "timely p now (c\<lparr>oc_gate := 1\<rparr>)" using assms(1) by (simp add: timely_def)
  then show ?thesis using assms guard_kept by (simp add: ros_step_def step_body_def case_prod_beta Let_def timely_def [of p now c] gate_same)
qed

lemma reserve_run:
  assumes t: "timely p now c" and f: "ss_fault c = 0" "ss_job c = ROS_RESERVE" "ss_ready c = 0" "oc_gate c = 0" "ss_stage c = 0"
    and l: "length (oc_catalog c) = 2048" "length (oc_page c) = 2048"
  shows "\<exists>c1 c2 e. ros_step (Ptr a c) = (ROS_PENDING, Ptr a c1) \<and> ros_step (Ptr a c1) = (ROS_PENDING, Ptr a c2) \<and> ros_step (Ptr a c2) = (ROS_READY,
    Ptr a (c\<lparr>oc_env := e, oc_page := oc_catalog c, ss_stage := 2, oc_records := (oc_records c)[unat (oc_root c) := oc_pending_record c],
      oc_active_root := oc_root c, ss_ready := 1\<rparr>))"
proof -
  have tg: "timely p now (s\<lparr>oc_gate := g\<rparr>) = timely p now s" "timely p now (s\<lparr>ss_stage := n\<rparr>) = timely p now s" for s g n by (simp_all add: timely_def)
  obtain e1 where e1: "ros_write_page (oc_root c) (oc_catalog c) (c\<lparr>oc_gate := 1\<rparr>) = (ROS_OK, c\<lparr>oc_gate := 1, oc_env := e1\<rparr>)"
    "mem e1 = (mem (oc_env (c\<lparr>oc_gate := 1\<rparr>)))(oc_root c \<mapsto> oc_catalog c)" using write_kept [of "c\<lparr>oc_gate := 1\<rparr>" "oc_catalog c" "oc_root c"] t l(1) by (auto simp: tg)
  let ?c1 = "c\<lparr>oc_env := e1, ss_stage := 1\<rparr>"
  have 1: "ros_step (Ptr a c) = (ROS_PENDING, Ptr a ?c1)" by (rule step_kept [OF t]) (use f e1 in \<open>simp_all add: root_step_def stage_next_def\<close>)
  obtain e2 where e2: "ros_sync_map (?c1\<lparr>oc_gate := 1\<rparr>) = (ROS_OK, (?c1\<lparr>oc_gate := 1\<rparr>)\<lparr>oc_env := e2\<rparr>)"
    "mem e2 = mem (oc_env (?c1\<lparr>oc_gate := 1\<rparr>))" by (rule sync_kept [of "?c1\<lparr>oc_gate := 1\<rparr>"]) (simp add: tg timely_env t)
  let ?c2 = "c\<lparr>oc_env := e2, ss_stage := 2\<rparr>"
  have 2: "ros_step (Ptr a ?c1) = (ROS_PENDING, Ptr a ?c2)" by (rule step_kept) (use t f e2 in \<open>simp_all add: root_step_def stage_next_def timely_def\<close>)
  obtain e3 where e3: "ros_read_page (oc_root c) (?c2\<lparr>oc_gate := 1\<rparr>) = (ROS_READ_OK, (?c2\<lparr>oc_gate := 1\<rparr>)\<lparr>oc_page := oc_catalog c, oc_env := e3\<rparr>)"
    by (rule read_kept [of "?c2\<lparr>oc_gate := 1\<rparr>" "oc_root c" "oc_catalog c"]) (use t l e1 e2 in \<open>simp_all add: tg timely_env\<close>)
  let ?c3 = "c\<lparr>oc_env := e3, oc_page := oc_catalog c, ss_stage := 2, oc_records := (oc_records c)[unat (oc_root c) := oc_pending_record c],
    oc_active_root := oc_root c, ss_ready := 1\<rparr>"
  let ?d = "c\<lparr>ss_stage := 2, oc_gate := 1, oc_page := oc_catalog c, oc_env := e3, oc_records := (oc_records c)[unat (oc_root c) := oc_pending_record c],
    oc_active_root := oc_root c\<rparr>"
  have "ros_ready ?d = (ROS_READY, ?d\<lparr>ss_ready := 1\<rparr>)" using t by (intro ready_kept) (simp add: timely_def)
  then have 3: "ros_step (Ptr a ?c2) = (ROS_READY, Ptr a ?c3)" by (intro step_kept) (use t f e3 in \<open>simp_all add: root_step_def timely_def\<close>)
  show ?thesis using 1 2 3 by blast
qed

lemma begin_accepts:
  assumes "oc_port c = p" and "ss_fault c = 0" and "ss_job c = ROS_NONE" and "oc_last_now c \<le> now" and "now < d" and "d - now \<le> ROS_JOB_MAX_MS"
  shows "ros_begin job d c = (ROS_OK, begun job d now (oc_env c) c)"
  using assms by (simp add: ros_begin_def K_now begun_def ros_buffers_def not_less not_le Let_def) (auto simp: word_le_nat_alt word_less_nat_alt)

end

lemma matches_prefix: "es_matches (part 0 128 p) b = es_matches p b"
  by (simp add: es_matches_def es_get_def buf)

lemma container_built:
  assumes "es_valid b" and "wf_es_binding b" and "n = unat (es_plaintext_bytes b)" and "n \<le> 34148" and "length z = ROS_CONTAINER_BYTES" and "length enc = 65" and "enc ! 0 = 4"
  shows "container_ok (blit 193 x (blit 128 enc (blit 0 (es_encode b (replicate 128 0)) z))) (n + 209) b"
proof -
  let ?h = "es_encode b (replicate 128 0)" and ?k = "blit 193 x (blit 128 enc (blit 0 (es_encode b (replicate 128 0)) z))"
  have "part 0 128 ?k = ?h" using assms(5,6) by (simp add: buf)
  then have "es_matches ?k b" using matches_prefix [of ?k b] es_matches_iff [OF assms(2), of ?h] by simp
  moreover have "?k ! 128 = 4" using assms(5-7) by (simp add: buf)
  ultimately show ?thesis using assms(1,3,4) by (simp add: container_ok_def overlap_def UINTPTR_MAX_def)
qed

section \<open>A complete run\<close>

definition demo_plain :: bytes where
  "demo_plain = [0x4f, 0x50, 0x4e, 0x44, 0x4f, 0x50, 0x31, 0, 1, 0, 80, 0, 0x80, 0x3e, 0, 0, 1, 0, 0x40, 1, 0xc0, 0x5d, 0, 0, 3, 0, 0, 0, 1, 0, 0, 0] @
     replicate 8 0 @ [0x40, 1, 0, 0, 0, 0, 0, 0, 1, 0, 0, 0, 2, 0, 0, 0, 40, 0, 0, 0, 0x18, 1, 0, 0, 136, 0, 0, 0, 0x40, 1, 0, 0, 2, 0, 0, 0, 0, 0, 0, 0] @
     [60, 0, 0, 0, 0, 0, 0, 0] @ replicate 60 128 @ [60, 0, 1, 0, 1, 0, 0, 0] @ replicate 60 128"

lemma demo_plain_valid: "rp_segment_validate demo_opus demo_plain 216 = RP_OK"
  by code_simp

lemma demo_plain_fields:
  "get32 72 demo_plain = 2 \<and> get64 32 demo_plain = 0 \<and> get64 40 demo_plain = 320 \<and> get32 68 demo_plain = 320 \<and> get32 28 demo_plain = 1 \<and> length demo_plain = 216"
  by code_simp

definition demo_recording :: es_binding where "demo_recording = demo_volume\<lparr>es_recording_id := replicate 16 6\<rparr>"

definition demo_segment :: es_binding where "demo_segment = demo_recording\<lparr>es_plaintext_bytes := 216\<rparr>"

abbreviation demo_port :: "((u32 \<Rightarrow> bytes option) \<times> ros_event list) ros_port" where "demo_port \<equiv> logged (mem_port 10 demo_seal)"

abbreviation demo_mem :: "(u32 \<Rightarrow> bytes option) \<times> ros_event list \<Rightarrow> u32 \<Rightarrow> bytes option" where "demo_mem \<equiv> \<lambda>e. pages_of (fst e)"

abbreviation demo_blank :: "((u32 \<Rightarrow> bytes option) \<times> ros_event list) ros_context" where "demo_blank \<equiv> demo_store demo_port (Map.empty, [])"

definition demo_mount :: "ros_call list" where "demo_mount = [RosRecover 20] @ replicate 15 RosStep @ [RosFinish]"

definition demo_reserve :: "ros_call list" where
  "demo_reserve = [RosReserve (Ptr 0xd0000 demo_recording) RP_MANUAL 0 20] @ [RosStep, RosStep, RosStep] @ [RosFinish]"

lemma exec_append: "ros_exec opus (xs @ ys) c = ros_exec opus ys (ros_exec opus xs c)"
  by (induction xs arbitrary: c) simp_all

text \<open>What the mounted and the reserved demo store have in common.\<close>

definition demo_like :: "((u32 \<Rightarrow> bytes option) \<times> ros_event list) ros_context \<Rightarrow> bool" where
  "demo_like c \<longleftrightarrow> oc_port c = demo_port \<and> oc_initialized c = ROS_MAGIC \<and> oc_gate c = 0 \<and> oc_last_now c = 10 \<and> ss_fault c = 0 \<and> ss_job c = ROS_NONE \<and>
     ss_mounted c = 1 \<and> oc_hash c = ones_sha \<and> oc_volume c = demo_volume \<and> oc_root_count c = 8 \<and> ss_slot_count c = 5 \<and> oc_segment_limit c = 32 \<and>
     ss_consumed_slots c = 0 \<and> oc_used c = replicate 2560 0 \<and> oc_retired c = [] \<and> oc_extent_profile c = 0"

lemma demo_mounted: "\<exists>c. ros_exec demo_opus demo_mount (Ptr 0x10000 demo_blank) = Ptr 0x10000 c \<and> demo_like c \<and> oc_active_root c = 8 \<and> oc_records c = replicate 32 ros_record_zero"
proof -
  let ?c = "rescan (begun ROS_RECOVER 20 10 (Map.empty, []) demo_blank)"
  have r: "snd (ros_recover 20 (Ptr 0x10000 demo_blank)) = Ptr 0x10000 ?c"
    by (simp add: ros_recover_def demo_store_def ros_initial_def Let_def recover_body_def ros_begin_def mem_port_def logged_def ros_buffers_def rescan_def begun_def)
  have b: "blank demo_port demo_mem 10 ?c" "unscanned ?c = Suc 14"
    by (simp_all add: blank_def pages_of_def fun_eq_iff timely_def rescan_def demo_store_def ros_initial_def Let_def begun_def ros_buffers_def unscanned_def)
  from kept_log.blank_run [OF b, of demo_opus "0x10000"]
  obtain s where s: "ros_exec demo_opus (replicate 15 RosStep) (Ptr 0x10000 ?c) = Ptr 0x10000 s" "ss_ready s \<noteq> 0" "ss_mounted s = 1" "scanned ?c s" "blank demo_port demo_mem 10 s"
    by (auto simp del: replicate_Suc)
  have f: "snd (ros_finish (Ptr 0x10000 s)) = Ptr 0x10000 (finish_job s)"
    using s(2,5) by (simp add: ros_finish_def finish_body_def blank_def timely_def finish_job_def ros_buffers_def)
  have "ros_exec demo_opus demo_mount (Ptr 0x10000 demo_blank) = Ptr 0x10000 (finish_job s)"
    using s(1) f by (simp add: demo_mount_def exec_append r)
  moreover have "demo_like (finish_job s) \<and> oc_active_root s = 8 \<and> oc_records s = replicate 32 ros_record_zero"
    using s(3,4) by (auto simp: demo_like_def finish_job_def ros_buffers_def rescan_def begun_def demo_store_def ros_initial_def Let_def elim!: scannedE)
  ultimately show ?thesis by (simp add: finish_job_def ros_buffers_def)
qed

lemma ones_total: "sha_total ones_sha"
  by (simp add: sha_total_def ones_sha_run)

lemma free_root_found: "free \<noteq> n \<Longrightarrow> free_root b n (replicate k ros_record_zero) i free = Some free"
  by (induction k arbitrary: i) (simp_all add: ros_record_zero_def)

lemma demo_free_root: "free_root b 8 (replicate 8 ros_record_zero) 0 8 = Some 0"
  using free_root_found [of 0 8 b 7 1] replicate_Suc [of 7 ros_record_zero] by (simp add: ros_record_zero_def del: replicate_Suc)

lemma demo_reserved:
  assumes d: "demo_like c" and a: "oc_active_root c = 8" and z: "oc_records c = replicate 32 ros_record_zero"
  shows "\<exists>s c1 c2 t u. ros_reserve (Ptr 0xd0000 demo_recording) RP_MANUAL 0 20 (Ptr 0x10000 c) = (ROS_PENDING, Ptr 0x10000 s) \<and>
    ros_step (Ptr 0x10000 s) = (ROS_PENDING, Ptr 0x10000 c1) \<and> ros_step (Ptr 0x10000 c1) = (ROS_PENDING, Ptr 0x10000 c2) \<and>
    ros_step (Ptr 0x10000 c2) = (ROS_READY, Ptr 0x10000 t) \<and> ros_finish (Ptr 0x10000 t) = (ROS_OK, Ptr 0x10000 u) \<and> demo_like u \<and> oc_active_root u = 0 \<and>
    oc_records u = (replicate 32 ros_record_zero)[0 := reserve_record demo_recording RP_MANUAL 0]"
proof -
  note dl = d [unfolded demo_like_def]
  let ?r = "reserve_record demo_recording RP_MANUAL 0"
  let ?b = "(begun ROS_RESERVE 20 10 (oc_env c) c)\<lparr>oc_root := 0, oc_pending_record := ?r\<rparr>"
  define q where "q = catalog_image (root_fields ROOT_ACTIVE ?r ?b) ?b"
  let ?s = "?b\<lparr>oc_catalog := q\<rparr>"
  have bg: "ros_begin ROS_RESERVE 20 (c\<lparr>oc_gate := 1\<rparr>) = (ROS_OK, begun ROS_RESERVE 20 10 (oc_env c) (c\<lparr>oc_gate := 1\<rparr>))"
    using dl by (subst kept_log.begin_accepts [where now = 10]) simp_all
  have qg: "catalog_image (root_fields ROOT_ACTIVE ?r (?b\<lparr>oc_gate := 1\<rparr>)) (?b\<lparr>oc_gate := 1\<rparr>) = q"
    by (simp add: q_def root_fields_def catalog_start_def format_tag_def catalog_image_def hashed_def)
  have bo: "(begun ROS_RESERVE 20 10 (oc_env c) (c\<lparr>oc_gate := 1\<rparr>))\<lparr>oc_root := 0, oc_pending_record := ?r\<rparr> = ?b\<lparr>oc_gate := 1\<rparr>"
    by (simp add: begun_def ros_buffers_def)
  have cat: "catalog_root ROOT_ACTIVE ?r (?b\<lparr>oc_gate := 1\<rparr>) = (ROS_OK, (?b\<lparr>oc_gate := 1\<rparr>)\<lparr>oc_catalog := q\<rparr>)"
    using dl ones_total unfolding catalog_root_def qg [symmetric]
    by (intro kept_log.catalog_kept [where now = 10]) (simp_all add: timely_def begun_def ros_buffers_def)
  have "reserve_body 0x10000 (Ptr 0xd0000 demo_recording) RP_MANUAL 0 20 (c\<lparr>oc_gate := 1\<rparr>) = (ROS_PENDING, (?b\<lparr>oc_gate := 1\<rparr>)\<lparr>oc_catalog := q\<rparr>)"
    using dl a z bg cat bo demo_free_root
    by (simp add: reserve_body_def overlap_def UINTPTR_MAX_def volume_equal_def demo_recording_def demo_volume_def ros_id_def ros_fill_def list_all_iff
        ros_retired_def)
  then have 1: "ros_reserve (Ptr 0xd0000 demo_recording) RP_MANUAL 0 20 (Ptr 0x10000 c) = (ROS_PENDING, Ptr 0x10000 ?s)"
    using dl by (simp add: begun_def ros_buffers_def)
  have t: "timely demo_port 10 ?s" using dl by (simp add: timely_def begun_def ros_buffers_def)
  have l: "length (oc_catalog ?s) = 2048" "length (oc_page ?s) = 2048" by (simp_all add: q_def)
  obtain c1 c2 e where 2: "ros_step (Ptr 0x10000 ?s) = (ROS_PENDING, Ptr 0x10000 c1)" "ros_step (Ptr 0x10000 c1) = (ROS_PENDING, Ptr 0x10000 c2)"
    "ros_step (Ptr 0x10000 c2) = (ROS_READY, Ptr 0x10000 (?s\<lparr>oc_env := e, oc_page := oc_catalog ?s, ss_stage := 2,
      oc_records := (oc_records ?s)[unat (oc_root ?s) := oc_pending_record ?s], oc_active_root := oc_root ?s, ss_ready := 1\<rparr>))"
    using kept_log.reserve_run [OF t _ _ _ _ _ l, of "0x10000"] dl by (auto simp: begun_def ros_buffers_def)
  let ?u = "?s\<lparr>oc_env := e, oc_page := oc_catalog ?s, ss_stage := 2, oc_records := (oc_records ?s)[unat (oc_root ?s) := oc_pending_record ?s],
    oc_active_root := oc_root ?s, ss_ready := 1\<rparr>"
  have 3: "ros_finish (Ptr 0x10000 ?u) = (ROS_OK, Ptr 0x10000 (finish_job ?u))"
    using dl by (simp add: ros_finish_def finish_body_def finish_job_def ros_buffers_def begun_def)
  have "demo_like (finish_job ?u)" "oc_active_root (finish_job ?u) = 0" "oc_records (finish_job ?u) = (replicate 32 ros_record_zero)[0 := ?r]"
    using dl z by (simp_all add: demo_like_def finish_job_def ros_buffers_def begun_def)
  with 1 2 3 show ?thesis by blast
qed

lemma demo_sealed:
  assumes t: "timely demo_port 10 c" and h: "oc_hash c = ones_sha" and g: "sg_identity (oc_segment c) = demo_segment" and l: "length (oc_container c) = ROS_CONTAINER_BYTES"
  shows "\<exists>s. seal_prepared demo_plain 216 c = (ROS_PENDING, s)"
proof -
  have b: "es_valid demo_segment" "wf_es_binding demo_segment" "es_plaintext_bytes demo_segment = 216"
    by (simp_all add: demo_segment_def demo_recording_def demo_volume_def wf_es_binding_def es_valid_def word_less_nat_alt word_le_nat_alt)
  let ?h = "es_encode demo_segment (replicate 128 0)"
  have hd: "seal_header c = Some ?h"
    using b l es_encode_out [of "part 0 128 (oc_container c)" demo_segment] by (simp add: seal_header_def g overlap_def UINTPTR_MAX_def)
  have "es_matches ?h demo_segment" using es_matches_iff [OF b(2), of ?h] by simp
  then obtain i where i: "seal_info ?h demo_segment = Some i" using b by (simp add: seal_info_def overlap_def UINTPTR_MAX_def)
  let ?c1 = "c\<lparr>oc_container := blit 0 ?h (oc_container c)\<rparr>"
  let ?k = "blit 193 (take 232 (demo_plain @ replicate 16 9)) (blit 128 (take 65 (4 # replicate 64 7)) (blit 0 ?h (oc_container c)))"
  have t1: "timely demo_port 10 (c\<lparr>oc_container := x\<rparr>)" for x using t by (simp add: timely_def)
  have k: "container_ok ?k (216 + 209) demo_segment" by (rule container_built [OF b(1,2)]) (simp_all add: b(3) l)
  let ?c2 = "c\<lparr>oc_container := ?k\<rparr>"
  have sl: "the (ps_seal (oc_port ?c1)) (oc_recipient ?c1) i demo_plain (216 + 16) (oc_env ?c1) = (0, 4 # replicate 64 7, demo_plain @ replicate 16 9, 232, oc_env c)"
    using t by (simp add: timely_def logged_def mem_port_def demo_seal_def split: prod.split)
  have hk: "ros_hash x out ?c2 = (ROS_OK, hashed ?c2 x out, ?c2)" for x out using kept_log.hash_kept [OF t1] ones_total h by simp
  let ?c3 = "?c2\<lparr>oc_segment := (oc_segment c)\<lparr>sg_digest := hashed ?c2 (part 0 (216 + 209) ?k) (sg_digest (oc_segment c))\<rparr>\<rparr>"
  have "timely demo_port 10 ?c3" "sha_total (oc_hash ?c3)" using t h ones_total by (simp_all add: timely_def)
  from kept_log.catalog_kept [OF this, of "segment_fields SLOT_INTENT ?c3"]
  obtain s where "catalog_segment SLOT_INTENT ?c3 = (ROS_OK, s)" by (simp add: catalog_segment_def)
  then have r: "seal_record 216 ?c2 = (ROS_PENDING, s)" using hk [of "part 0 (216 + 209) ?k" "sg_digest (oc_segment c)"] by (simp add: seal_record_def)
  have c2: "?c1\<lparr>oc_container := ?k, oc_env := oc_env c\<rparr> = ?c2" by (cases c) simp
  have cc: "seal_call i demo_plain 216 ?c1 = (ROS_PENDING, s)"
    using sl kept_log.guard_kept [OF t1] k g r c2 by (simp add: seal_call_def)
  show ?thesis using hd i cc kept_log.admit_kept [OF t1] by (simp add: seal_prepared_def g)
qed

lemma first_free_zero: "n \<noteq> 0 \<Longrightarrow> slot_state c k = 0 \<Longrightarrow> first_free c n k = k"
  by (cases n) simp_all

lemma demo_prepared:
  assumes d: "demo_like c" and a: "oc_active_root c = 0" and z: "oc_records c = (replicate 32 ros_record_zero)[0 := reserve_record demo_recording RP_MANUAL 0]"
  shows "\<exists>s. ros_prepare demo_opus (Ptr 0xd0000 demo_segment) (Ptr 0xe0000 demo_plain) 216 20 (Ptr 0x10000 c) = (ROS_PENDING, Ptr 0x10000 s)"
proof -
  note dl = d [unfolded demo_like_def]
  let ?c = "c\<lparr>oc_gate := 1\<rparr>"
  have bad: "\<not> prepare_bad demo_opus 0x10000 (Ptr 0xd0000 demo_segment) (Ptr 0xe0000 demo_plain) 216"
    using demo_plain_valid demo_plain_fields by (simp add: prepare_bad_def overlap_def UINTPTR_MAX_def demo_segment_def)
  have rec: "oc_records c ! 0 = reserve_record demo_recording RP_MANUAL 0" using z by simp
  have ref: "\<not> prepare_refused demo_segment ?c"
    using dl a rec by (simp add: prepare_refused_def Let_def reserve_record_def ros_record_zero_def demo_segment_def identity_equal_def volume_equal_def demo_recording_def demo_volume_def)
  have "slot_state ?c 0 = 0" using dl by (simp add: slot_state_def)
  then have slot: "first_free ?c 5 0 = 0" by (simp add: first_free_zero)
  have bg: "ros_begin ROS_SEGMENT 20 ?c = (ROS_OK, begun ROS_SEGMENT 20 10 (oc_env c) ?c)"
    using dl by (subst kept_log.begin_accepts [where now = 10]) simp_all
  have pl: "part 0 216 demo_plain = demo_plain" using demo_plain_fields by (simp add: part_all)
  let ?b = "begun ROS_SEGMENT 20 10 (oc_env c) ?c"
  let ?s = "?b\<lparr>oc_segment := prepare_segment demo_segment demo_plain 216 0 ?b\<rparr>"
  have sq: "sequence_valid ?s = (ROS_OK, ?s)"
    using a rec demo_plain_fields by (simp add: sequence_valid_def Let_def prepare_segment_def reserve_record_def ros_record_zero_def demo_segment_def demo_recording_def
        demo_volume_def ros_segment_zero_def)
  have "timely demo_port 10 ?s" "oc_hash ?s = ones_sha" "sg_identity (oc_segment ?s) = demo_segment" "length (oc_container ?s) = ROS_CONTAINER_BYTES"
    using dl by (simp_all add: timely_def prepare_segment_def Let_def) (simp_all add: begun_def ros_buffers_def)
  from demo_sealed [OF this] obtain u where u: "seal_prepared demo_plain 216 ?s = (ROS_PENDING, u)" by blast
  have "prepare_body demo_opus False 0x10000 (Ptr 0xd0000 demo_segment) (Ptr 0xe0000 demo_plain) 216 20 ?c = (ROS_PENDING, u)"
    using dl a bad ref slot bg sq u pl by (simp add: prepare_body_def Let_def)
  then show ?thesis using dl by simp
qed

section \<open>Progress\<close>

lemma prepared_course:
  assumes "kept_medium p mem now" and "store_ok p cap (\<lambda>e. True) c1" and "ros_prepare opus bp pp n d (Ptr a c1) = (ROS_PENDING, Ptr a c2)" and "sha_total (oc_hash c1)"
  shows "on_course p mem now c2 \<and> remaining c2 = 2 * page_count c2 + 8 \<and> oc_gate c2 = 0"
proof -
  let ?c = "c1\<lparr>oc_gate := 1\<rparr>"
  obtain s where s: "prepare_body opus False a bp pp n d ?c = (ROS_PENDING, s)" "c2 = s\<lparr>oc_gate := 0\<rparr>" "oc_initialized c1 = ROS_MAGIC"
    using assms(3) by (auto split: if_splits prod.splits)
  have "store_ok p cap (\<lambda>e. True) ?c" using assms(2) by (simp add: any.store_gate)
  from kept_medium.prepare_course [OF assms(1) this _ _ s(1)] s(3) assms(4)
  have "on_course p mem now s" "remaining s = 2 * page_count s + 8" by simp_all
  then show ?thesis using kept_medium.course_gate [OF assms(1)] by (simp add: s(2) page_count_def)
qed

lemma prepared_runs:
  assumes "kept_medium p mem now" and "ros_started p capacity (Ptr a x) c" and "ros_exec opus calls c = Ptr a c1"
    and "ros_prepare opus bp pp n d (Ptr a c1) = (ROS_PENDING, Ptr a c2)" and "sha_total (oc_hash c1)"
  shows "\<exists>c3. ros_exec opus (replicate (2 * page_count c2 + 8) RosStep) (Ptr a c2) = Ptr a c3 \<and> on_course p mem now c3 \<and> ss_ready c3 \<noteq> 0 \<and>
    oc_gate c3 = 0 \<and> same_plan c2 c3"
proof -
  obtain c0 where c0: "c = Ptr a c0" "store_ok p (unat capacity) (\<lambda>e. True) c0" using started_ok [OF assms(2), of "\<lambda>e. True"] by auto
  from any.calls.exec_keeps [OF c0(2), of opus calls a] c0 assms(3) have k: "store_ok p (unat capacity) (\<lambda>e. True) c1" by auto
  from prepared_course [OF assms(1) k assms(4,5)] have "on_course p mem now c2" "remaining c2 = 2 * page_count c2 + 8" "oc_gate c2 = 0" by simp_all
  from kept_medium.run_advances [OF assms(1) this] show ?thesis .
qed

lemma course_receipt:
  "on_course p mem now c \<Longrightarrow> ss_ready c \<noteq> 0 \<Longrightarrow> oc_gate c = 0 \<Longrightarrow> external a out sizeof_rp_segment_receipt \<Longrightarrow>
   fst (ros_take_segment_receipt out (Ptr a c)) = ROS_OK"
  by (simp add: ros_take_segment_receipt_def on_course_def timely_def)

lemma course_durable:
  assumes "on_course p mem now c" and "ss_ready c \<noteq> 0" and "same_plan s c"
  shows "mem (oc_env c) (segment_sector s) = Some (commit_page s)" "\<forall>j < page_count s. mem (oc_env c) (page_sector s j) = Some (payload s j)"
proof -
  have "ss_stage c = 8" "held (mem (oc_env c)) c" "oc_catalog c = commit_page c" using assms(1,2) by (simp_all add: on_course_def)
  then show "mem (oc_env c) (segment_sector s) = Some (commit_page s)" "\<forall>j < page_count s. mem (oc_env c) (page_sector s j) = Some (payload s j)"
    by (simp_all add: held_def written_def plan_pages [OF assms(3)] page_sector_def)
qed

text \<open>Claim C39.  Commits make progress: on every medium that keeps what is written, with a clock before the deadline and a provider that yields
  digests, a segment accepted by \<open>ros_prepare\<close> in any reachable state is ready after \<open>2 * pages + 8\<close> steps: its receipt is issued
  and its COMMIT page and every page of its container are on the medium.\<close>

theorem store_commit_progress:
  assumes "kept_medium p mem now" and "ros_started p capacity (Ptr a x) c" and "ros_exec opus calls c = Ptr a c1"
    and "ros_prepare opus bp pp n d (Ptr a c1) = (ROS_PENDING, Ptr a c2)" and "sha_total (oc_hash c1)" and "external a out sizeof_rp_segment_receipt"
  shows "\<exists>c3. ros_exec opus (replicate (2 * page_count c2 + 8) RosStep) (Ptr a c2) = Ptr a c3 \<and> fst (ros_take_segment_receipt out (Ptr a c3)) = ROS_OK \<and>
    mem (oc_env c3) (segment_sector c2) = Some (commit_page c2) \<and> (\<forall>j < page_count c2. mem (oc_env c3) (page_sector c2 j) = Some (payload c2 j))"
proof -
  obtain c3 where c3: "ros_exec opus (replicate (2 * page_count c2 + 8) RosStep) (Ptr a c2) = Ptr a c3" "on_course p mem now c3" "ss_ready c3 \<noteq> 0"
    "oc_gate c3 = 0" "same_plan c2 c3" using prepared_runs [OF assms(1-5)] by blast
  then show ?thesis using course_receipt [OF c3(2-4) assms(6)] course_durable [OF c3(2,3,5)] by blast
qed

lemma demo_prepare_run:
  "\<exists>c1 c2. ros_exec demo_opus (demo_mount @ demo_reserve) (Ptr 0x10000 demo_blank) = Ptr 0x10000 c1 \<and> oc_hash c1 = ones_sha \<and>
    ros_prepare demo_opus (Ptr 0xd0000 demo_segment) (Ptr 0xe0000 demo_plain) 216 20 (Ptr 0x10000 c1) = (ROS_PENDING, Ptr 0x10000 c2)"
proof -
  obtain c where c: "ros_exec demo_opus demo_mount (Ptr 0x10000 demo_blank) = Ptr 0x10000 c" "demo_like c" "oc_active_root c = 8"
    "oc_records c = replicate 32 ros_record_zero" using demo_mounted by blast
  from demo_reserved [OF c(2-4)] obtain c1 where c1: "ros_exec demo_opus demo_reserve (Ptr 0x10000 c) = Ptr 0x10000 c1" "demo_like c1" "oc_active_root c1 = 0"
    "oc_records c1 = (replicate 32 ros_record_zero)[0 := reserve_record demo_recording RP_MANUAL 0]"
    by (auto simp: demo_reserve_def simp del: ros_reserve.simps)
  from demo_prepared [OF c1(2-4)] c1(1,2) c(1) show ?thesis by (auto simp: exec_append demo_like_def simp del: ros_prepare.simps)
qed

theorem store_commit_progress_witness:
  "\<exists>c1 c2 c3. ros_exec demo_opus (demo_mount @ demo_reserve) (Ptr 0x10000 demo_blank) = Ptr 0x10000 c1 \<and>
    ros_prepare demo_opus (Ptr 0xd0000 demo_segment) (Ptr 0xe0000 demo_plain) 216 20 (Ptr 0x10000 c1) = (ROS_PENDING, Ptr 0x10000 c2) \<and>
    ros_exec demo_opus (replicate (2 * page_count c2 + 8) RosStep) (Ptr 0x10000 c2) = Ptr 0x10000 c3 \<and>
    fst (ros_take_segment_receipt (Ptr 0xf0000 receipt_none) (Ptr 0x10000 c3)) = ROS_OK \<and> pages_of (fst (oc_env c3)) (segment_sector c2) = Some (commit_page c2)"
proof -
  obtain c1 c2 where c: "ros_exec demo_opus (demo_mount @ demo_reserve) (Ptr 0x10000 demo_blank) = Ptr 0x10000 c1" "sha_total (oc_hash c1)"
    "ros_prepare demo_opus (Ptr 0xd0000 demo_segment) (Ptr 0xe0000 demo_plain) 216 20 (Ptr 0x10000 c1) = (ROS_PENDING, Ptr 0x10000 c2)"
    using demo_prepare_run ones_total by metis
  have e: "external 0x10000 (Ptr 0xf0000 receipt_none) sizeof_rp_segment_receipt" by (simp add: overlap_def UINTPTR_MAX_def)
  from store_commit_progress [OF kept_log.kept_medium_axioms demo_started [OF logged_complete] c(1,3,2) e] c(1,3) show ?thesis by blast
qed

lemma mem_reads_fill: "reads_fill (mem_port now seal)"
  by (auto simp: reads_fill_def mem_port_def fit_page_def split: option.split)

theorem store_commit_protocol_witness:
  "\<exists>calls c' r c''. ros_exec demo_opus calls (Ptr 0x10000 demo_blank) = Ptr 0x10000 c' \<and>
    ros_take_segment_receipt (Ptr 0xf0000 receipt_none) (Ptr 0x10000 c') = (ROS_OK, Ptr 0xf0000 r, c'') \<and> suffix (commit_protocol c') (snd (oc_env c'))"
proof -
  obtain c1 c2 where c: "ros_exec demo_opus (demo_mount @ demo_reserve) (Ptr 0x10000 demo_blank) = Ptr 0x10000 c1" "sha_total (oc_hash c1)"
    "ros_prepare demo_opus (Ptr 0xd0000 demo_segment) (Ptr 0xe0000 demo_plain) 216 20 (Ptr 0x10000 c1) = (ROS_PENDING, Ptr 0x10000 c2)"
    using demo_prepare_run ones_total by metis
  let ?calls = "(demo_mount @ demo_reserve) @ RosPrepare (Ptr 0xd0000 demo_segment) (Ptr 0xe0000 demo_plain) 216 20 # replicate (2 * page_count c2 + 8) RosStep"
  have e: "external 0x10000 (Ptr 0xf0000 receipt_none) sizeof_rp_segment_receipt" by (simp add: overlap_def UINTPTR_MAX_def)
  obtain c3 where c3: "ros_exec demo_opus (replicate (2 * page_count c2 + 8) RosStep) (Ptr 0x10000 c2) = Ptr 0x10000 c3"
    "fst (ros_take_segment_receipt (Ptr 0xf0000 receipt_none) (Ptr 0x10000 c3)) = ROS_OK"
    using prepared_runs [OF kept_log.kept_medium_axioms demo_started [OF logged_complete] c(1,3,2)] course_receipt [OF _ _ _ e] by metis
  have run: "ros_exec demo_opus ?calls (Ptr 0x10000 demo_blank) = Ptr 0x10000 c3" 
    by (subst exec_append, subst c(1)) (use c(3) c3(1) in \<open>simp del: ros_prepare.simps\<close>)
  obtain r c'' where r: "ros_take_segment_receipt (Ptr 0xf0000 receipt_none) (Ptr 0x10000 c3) = (ROS_OK, Ptr 0xf0000 r, c'')"
    using c3(2) by (auto simp: ros_take_segment_receipt_def split: if_splits)
  from store_commit_protocol [OF demo_started [OF logged_complete] mem_reads_fill run r] run r show ?thesis by blast
qed

end
