(* ===== verification/Bridge_Receipt.thy ===== *)
theory Bridge_Receipt
  imports Store_Bridge Store_Progress
begin

text \<open>
  What the bridge promises the recording pipeline: sequences of bridge calls, and that after a fault or a cancellation no call
  reaches the store.
\<close>

section \<open>Sequences of bridge calls\<close>

datatype rsb_call =
    RsbSelect "es_binding ptr" u32 u64 | RsbCancel | RsbCapacity "es_binding ptr" u64 "u32 ptr" | RsbReserve "es_binding ptr" u64
  | RsbSubmit "es_binding ptr" "bytes ptr" nat u64 "rp_segment_receipt ptr" | RsbAdvance | RsbPoll "es_binding ptr" u64 "rp_segment_receipt ptr"
  | RsbFinalize "rp_completion ptr" u64 "rp_final_receipt ptr" | RsbGetStatus "rsb_status ptr"

definition drop_out :: "int \<times> 'o \<times> 's \<Rightarrow> int \<times> 's" where "drop_out r = (fst r, snd (snd r))"

fun rsb_exec1 :: "'c opus_api \<Rightarrow> rsb_call \<Rightarrow> ('e, 'f) rsb_context ptr \<Rightarrow> int \<times> ('e, 'f) rsb_context ptr" where
  "rsb_exec1 opus (RsbSelect b m t) c = drop_out (rsb_select b m t c)"
| "rsb_exec1 opus RsbCancel c = rsb_cancel c"
| "rsb_exec1 opus (RsbCapacity b d out) c = drop_out (rsb_capacity b d out c)"
| "rsb_exec1 opus (RsbReserve b d) c = drop_out (rsb_reserve b d c)"
| "rsb_exec1 opus (RsbSubmit b x n d out) c = drop_out (rsb_submit opus b x n d out c)"
| "rsb_exec1 opus RsbAdvance c = drop_out (rsb_advance c)"
| "rsb_exec1 opus (RsbPoll b d out) c = drop_out (rsb_poll b d out c)"
| "rsb_exec1 opus (RsbFinalize f d out) c = drop_out (rsb_finalize f d out c)"
| "rsb_exec1 opus (RsbGetStatus out) c = drop_out (rsb_get_status out c)"

fun rsb_exec :: "'c opus_api \<Rightarrow> rsb_call list \<Rightarrow> ('e, 'f) rsb_context ptr \<Rightarrow> ('e, 'f) rsb_context ptr" where
  "rsb_exec opus [] c = c"
| "rsb_exec opus (call # calls) c = rsb_exec opus calls (snd (rsb_exec1 opus call c))"

section \<open>Cancellation and faults\<close>

text \<open>The latch is closed: a fault is recorded or \<open>rsb_cancel\<close> was called.\<close>

definition latched :: "('e, 'f) rsb_context \<Rightarrow> bool" where "latched c \<longleftrightarrow> rb_state c = RSB_FAULT \<or> rb_cancelled c \<noteq> 0"

definition halted :: "('e, 'f) rsb_context \<Rightarrow> int \<times> 'o \<times> ('e, 'f) rsb_context \<Rightarrow> bool" where
  "halted c r \<longleftrightarrow> fst r \<noteq> 0 \<and> latched (snd (snd r)) \<and> rb_store (snd (snd r)) = rb_store c"

lemma latched_admission: "latched c \<Longrightarrow> fst (rsb_admission d c) \<noteq> 0 \<and> latched (snd (rsb_admission d c)) \<and> rb_store (snd (rsb_admission d c)) = rb_store c"
  by (auto simp: latched_def rsb_admission_def rsb_guard_def rsb_failed_def Let_def split: prod.split)

lemma latched_guard: "latched c \<Longrightarrow> fst (rsb_guard d c) \<noteq> 0 \<and> latched (snd (rsb_guard d c)) \<and> rb_store (snd (rsb_guard d c)) = rb_store c"
  by (auto simp: latched_def rsb_guard_def rsb_failed_def Let_def split: prod.split)

lemma latched_failed: "latched (snd (rsb_failed rc c))" "fst (rsb_failed rc c) = RSB_FAILED" "rb_store (snd (rsb_failed rc c)) = rb_store c"
  by (simp_all add: latched_def rsb_failed_def)

lemma latched_bodies:
  assumes "latched c"
  shows "halted c (select_body bp mode first a u c)" "halted c (capacity_body bp d a out32 c)" "halted c (rsb_reserve_body bp d a u c)"
    "halted c (submit_body opus bp pp n d a out c)" "halted c (advance_body a u c)" "halted c (poll_body bp d a out c)" "halted c (rsb_finalize_body fp d a outf c)"
proof -
  note ad = latched_admission [OF assms, of d] and g = latched_guard [OF assms]
  show "halted c (select_body bp mode first a u c)" using assms by (auto simp: halted_def select_body_def latched_def)
  show "halted c (capacity_body bp d a out32 c)" using assms ad by (auto simp: halted_def capacity_body_def Let_def latched_failed case_prod_beta)
  show "halted c (rsb_reserve_body bp d a u c)" using assms ad by (auto simp: halted_def rsb_reserve_body_def uncertain_def Let_def latched_failed case_prod_beta)
  show "halted c (submit_body opus bp pp n d a out c)" using assms ad by (auto simp: halted_def submit_body_def uncertain_def Let_def latched_failed case_prod_beta)
  show "halted c (advance_body a u c)" using assms g by (auto simp: halted_def advance_body_def Let_def latched_failed case_prod_beta)
  show "halted c (poll_body bp d a out c)" using assms ad by (auto simp: halted_def poll_body_def uncertain_def Let_def latched_failed case_prod_beta)
  show "halted c (rsb_finalize_body fp d a outf c)" using assms ad by (auto simp: halted_def rsb_finalize_body_def uncertain_def Let_def latched_failed case_prod_beta)
qed

lemma latched_locked:
  assumes "latched c" and "\<And>c. latched c \<Longrightarrow> halted c (body a out c)" and "refusal RSB_ARGUMENT \<noteq> 0" and "refusal RSB_BUSY \<noteq> 0"
  shows "\<exists>rc c'. drop_out (rsb_locked refusal body out (Ptr a c)) = (rc, Ptr a c') \<and> rc \<noteq> 0 \<and> latched c' \<and> rb_store c' = rb_store c"
  using assms(2) [of "c\<lparr>rb_gate := 1\<rparr>"] assms(1,3,4)
  by (cases "body a out (c\<lparr>rb_gate := 1\<rparr>)") (auto simp: drop_out_def halted_def latched_def)

text \<open>Claim C40.  Cancellation and faults are final: once \<open>rsb_cancel\<close> was called or a fault is recorded, no call succeeds any more
  (only \<open>rsb_cancel\<close> and \<open>rsb_get_status\<close> still answer), the latch stays closed and the store, with its port, is never touched again.\<close>

theorem bridge_halts:
  assumes "latched c" and "rsb_exec1 opus call (Ptr a c) = (rc, c')"
  shows "\<exists>s. c' = Ptr a s \<and> latched s \<and> rb_store s = rb_store c \<and> (rc = 0 \<longrightarrow> call = RsbCancel \<or> (\<exists>out. call = RsbGetStatus out))"
proof -
  note l = latched_locked [OF assms(1)] and b = latched_bodies
  show ?thesis
  proof (cases call)
    case (RsbPoll bp d out)
    have "\<exists>rc c'. drop_out (rsb_poll bp d out (Ptr a c)) = (rc, Ptr a c') \<and> rc \<noteq> 0 \<and> latched c' \<and> rb_store c' = rb_store c"
      using l [of "poll_body bp d" a "Ptr (addr out) receipt_none" "\<lambda>rc. if rc = RSB_BUSY then RP_IO_PENDING else RP_IO_UNCERTAIN", OF b(6)] assms(1)
      by (auto simp: drop_out_def simp del: rsb_locked.simps)
    then show ?thesis using RsbPoll assms(2) by auto
  next
    case (RsbGetStatus out)
    then show ?thesis using assms by (auto simp: rsb_get_status_def get_status_body_def drop_out_def latched_def split: if_splits)
  next
    case RsbCancel
    then show ?thesis using assms by (auto simp: latched_def split: if_splits)
  next
    case (RsbSelect bp m t)
    then show ?thesis using l [of "select_body bp m t" a "()" "\<lambda>rc. rc", OF b(1)] assms(2) by (auto simp: rsb_select_def simp del: rsb_locked.simps)
  next
    case (RsbCapacity bp d out)
    then show ?thesis using l [of "capacity_body bp d" a out "\<lambda>rc. rc", OF b(2)] assms(2) by (auto simp: rsb_capacity_def simp del: rsb_locked.simps)
  next
    case (RsbReserve bp d)
    then show ?thesis using l [of "rsb_reserve_body bp d" a "()" "\<lambda>rc. RP_IO_UNCERTAIN", OF b(3)] assms(2) by (auto simp: rsb_reserve_def simp del: rsb_locked.simps)
  next
    case (RsbSubmit bp pp n d out)
    then show ?thesis using l [of "submit_body opus bp pp n d" a out "\<lambda>rc. RP_IO_UNCERTAIN", OF b(4)] assms(2) by (auto simp: rsb_submit_def simp del: rsb_locked.simps)
  next
    case RsbAdvance
    then show ?thesis using l [of advance_body a "()" "\<lambda>rc. rc", OF b(5)] assms(2) by (auto simp: rsb_advance_def simp del: rsb_locked.simps)
  next
    case (RsbFinalize fp d out)
    then show ?thesis using l [of "rsb_finalize_body fp d" a out "\<lambda>rc. RP_IO_UNCERTAIN", OF b(7)] assms(2) by (auto simp: rsb_finalize_def simp del: rsb_locked.simps)
  qed
qed

theorem bridge_halts_witness:
  "\<exists>s. rsb_exec1 demo_opus RsbAdvance (Ptr 0x9000 (snd (rsb_failed RSB_STATE (rsb_initial (Ptr 0x10000 demo_blank) (\<lambda>t. (t, t + 1)) 5)))) =
      (RSB_STATE, Ptr 0x9000 s) \<and> latched s \<and> rb_store s = Ptr 0x10000 demo_blank"
proof -
  define c where "c = snd (rsb_failed RSB_STATE (rsb_initial (Ptr 0x10000 demo_blank) (\<lambda>t. (t, t + 1)) 5))"
  have c: "latched c" "rb_store c = Ptr 0x10000 demo_blank" "rb_initialized c = RSB_MAGIC" "rb_gate c = 0" "rb_state c = RSB_FAULT"
    by (simp_all add: c_def latched_def rsb_failed_def rsb_initial_def)
  then have "fst (rsb_exec1 demo_opus RsbAdvance (Ptr 0x9000 c)) = RSB_STATE" by (simp add: drop_out_def rsb_advance_def advance_body_def)
  then have r: "rsb_exec1 demo_opus RsbAdvance (Ptr 0x9000 c) = (RSB_STATE, snd (rsb_exec1 demo_opus RsbAdvance (Ptr 0x9000 c)))"
    by (metis prod.collapse)
  from bridge_halts [OF c(1) r] obtain s where s: "snd (rsb_exec1 demo_opus RsbAdvance (Ptr 0x9000 c)) = Ptr 0x9000 s" "latched s" "rb_store s = rb_store c"
    by (elim exE conjE)
  from r [unfolded s(1)] s(2,3) show ?thesis unfolding c(2) c_def [symmetric] by (intro exI conjI)
qed

end
