(* ===== verification/Bridge_Durable.thy ===== *)
theory Bridge_Durable
  imports Bridge_Receipt
begin

text \<open>
  Durable receipts through the bridge: whatever the pipeline calls, the store below the bridge keeps its invariant, a storing bridge works
  on the segment of its pending binding, and a receipt that \<open>rsb_poll\<close> returns for a binding is that of exactly this segment, whose
  commit protocol is complete.
\<close>

section \<open>The segment of a job\<close>

abbreviation job_identity :: "'e ros_context \<Rightarrow> es_binding" where "job_identity c \<equiv> sg_identity (oc_segment c)"

lemma identity_fault [simp]: "job_identity (snd (ros_fault err c)) = job_identity c"
  by (simp add: ros_fault_def ros_buffers_def)

lemma identity_guard [simp]: "job_identity (snd (ros_guard c)) = job_identity c"
  by (simp add: ros_guard_def Let_def case_prod_beta)

lemma identity_settle [simp]: "job_identity (snd (ros_settle rc c)) = job_identity c"
  by (simp add: ros_settle_def Let_def case_prod_beta)

lemma identity_admit [simp]: "job_identity (snd (ros_admit w c)) = job_identity c"
  by (simp add: ros_admit_def Let_def case_prod_beta)

lemma identity_transfers [simp]:
  "job_identity (snd (snd (ros_hash x out c))) = job_identity c" "job_identity (snd (ros_read_page k c)) = job_identity c"
  "job_identity (snd (ros_write_page k q c)) = job_identity c" "job_identity (snd (ros_sync_map c)) = job_identity c"
  "job_identity (snd (ros_ready c)) = job_identity c"
  by (simp_all add: ros_hash_def ros_read_page_def ros_write_page_def ros_sync_map_def ros_ready_def Let_def case_prod_beta)

lemma identity_catalog [simp]: "job_identity (snd (catalog_segment k c)) = job_identity c" "job_identity (snd (sequence_valid c)) = job_identity c"
  by (simp_all add: catalog_segment_def catalog_seal_def sequence_valid_def Let_def case_prod_beta)

lemma identity_record [simp]: "job_identity (snd (seal_record n c)) = job_identity c"
  by (simp add: seal_record_def Let_def case_prod_beta)

lemma identity_call [simp]: "job_identity (snd (seal_call info x n c)) = job_identity c"
  by (simp add: seal_call_def Let_def case_prod_beta)

lemma identity_seal [simp]: "job_identity (snd (seal_prepared x n c)) = job_identity c"
  by (simp add: seal_prepared_def Let_def case_prod_beta split: option.split)

lemma identity_step [simp]: "job_identity (snd (segment_step c)) = job_identity c"
  by (simp add: segment_step_def segment_intent_def segment_write_def segment_verify_def segment_commit_def stage_next_def index_next_def Let_def case_prod_beta)

definition stores_for :: "es_binding \<Rightarrow> 'e ros_context \<Rightarrow> bool" where
  "stores_for b s \<longleftrightarrow> (ss_fault s = 0 \<and> ss_job s = ROS_SEGMENT \<longrightarrow> job_identity s = b)"

lemma stores_for_gate [simp]: "stores_for b (s\<lparr>oc_gate := g\<rparr>) = stores_for b s"
  by (simp add: stores_for_def)

lemma step_stores_for:
  assumes "stores_for b s"
  shows "stores_for b (snd (step_body s))"
proof (cases "ss_job s = ROS_SEGMENT")
  case True
  then show ?thesis using assms by (auto simp: stores_for_def step_body_def Let_def case_prod_beta)
next
  case False
  then have "ss_job (snd (step_body s)) \<noteq> ROS_SEGMENT"
    using job_other [of "snd (ros_guard s)"] by (auto simp: step_body_def Let_def case_prod_beta)
  then show ?thesis by (simp add: stores_for_def)
qed

lemma prepare_stores_for:
  assumes "prepare_body opus deferred a bp pp n d c = (ROS_PENDING, s)"
  shows "stores_for (pt bp) s"
proof -
  have b: "fst (ros_begin job d c) \<noteq> ROS_PENDING" for job by (auto simp: ros_begin_def Let_def ros_fault_def case_prod_beta)
  have "job_identity (snd (prepare_body opus deferred a bp pp n d c)) = pt bp" if "fst (prepare_body opus deferred a bp pp n d c) = ROS_PENDING"
    using that b by (auto simp: prepare_body_def prepare_segment_def Let_def case_prod_beta split: if_splits)
  then show ?thesis using assms by (simp add: stores_for_def)
qed

section \<open>Calls that leave the store alone\<close>

lemma output_same: "(\<And>c. snd (snd (body c)) = c) \<Longrightarrow> snd (snd (ros_output body n out st)) = st"
  by (cases st) (auto simp: gate_same Let_def case_prod_beta)

lemma reads_same [simp]:
  "snd (snd (ros_get_status out st)) = st" "snd (snd (ros_get_geometry g st)) = st" "snd (snd (ros_get_record i r st)) = st"
  unfolding ros_get_status_def ros_get_geometry_def ros_get_record_def by (rule output_same; simp)+

lemma status_same [simp]: "snd (snd (store_status st)) = st"
  by (simp add: store_status_def Let_def case_prod_beta)

lemma scan_same [simp]: "snd (capacity_scan uuid is found st) = st"
  by (induction "is" arbitrary: found) (simp_all add: Let_def case_prod_beta)

text \<open>A part of a bridge call that does not touch the store and does not make the bridge storing.\<close>

definition quiet :: "('e, 'f) rsb_context \<Rightarrow> ('e, 'f) rsb_context \<Rightarrow> bool" where
  "quiet c s \<longleftrightarrow> rb_store s = rb_store c \<and> (rb_state s = RSB_STORING \<longrightarrow> rb_state c = RSB_STORING \<and> rb_pending s = rb_pending c)"

lemma quiet_trans: "quiet c s \<Longrightarrow> quiet s t \<Longrightarrow> quiet c t"
  by (auto simp: quiet_def)

lemma quiet_refl [simp]: "quiet c c"
  by (simp add: quiet_def)

lemma quiet_failed [simp]: "quiet c (snd (rsb_failed rc s)) = (rb_store s = rb_store c)"
  by (simp add: quiet_def rsb_failed_def)

lemma guard_result:
  "rb_store (snd (rsb_guard d c)) = rb_store c"
  "fst (rsb_guard d c) = 0 \<and> rb_state (snd (rsb_guard d c)) = rb_state c \<and> rb_pending (snd (rsb_guard d c)) = rb_pending c \<or>
   fst (rsb_guard d c) \<noteq> 0 \<and> rb_state (snd (rsb_guard d c)) = RSB_FAULT"
  by (auto simp: rsb_guard_def rsb_failed_def Let_def case_prod_beta)

lemma admission_result:
  "rb_store (snd (rsb_admission d c)) = rb_store c"
  "fst (rsb_admission d c) = 0 \<and> rb_state (snd (rsb_admission d c)) = rb_state c \<and> rb_pending (snd (rsb_admission d c)) = rb_pending c \<or>
   fst (rsb_admission d c) \<noteq> 0 \<and> rb_state (snd (rsb_admission d c)) = RSB_FAULT"
  by (auto simp: rsb_admission_def rsb_guard_def rsb_failed_def Let_def case_prod_beta)

lemma both_result:
  "rb_store (snd (both_guards d c)) = rb_store c"
  "fst (both_guards d c) = 0 \<and> rb_state (snd (both_guards d c)) = rb_state c \<and> rb_pending (snd (both_guards d c)) = rb_pending c \<or>
   fst (both_guards d c) \<noteq> 0 \<and> rb_state (snd (both_guards d c)) = RSB_FAULT"
  using guard_result [of d c] guard_result [of "rb_job_deadline (snd (rsb_guard d c))" "snd (rsb_guard d c)"]
  by (auto simp: both_guards_def Let_def case_prod_beta)

lemma quiet_checks [simp]: "quiet c (snd (rsb_guard d c))" "quiet c (snd (rsb_admission d c))" "quiet c (snd (both_guards d c))"
  using guard_result [of d c] admission_result [of d c] both_result [of d c] by (auto simp: quiet_def)

lemma quiet_clean [simp]: "quiet c (snd (clean_store c))"
  by (auto simp: clean_store_def Let_def case_prod_beta quiet_def rsb_failed_def)

lemma checks_storing:
  "rb_state (snd (rsb_guard d c)) = RSB_STORING \<Longrightarrow> rb_state c = RSB_STORING \<and> rb_pending (snd (rsb_guard d c)) = rb_pending c"
  "rb_state (snd (rsb_admission d c)) = RSB_STORING \<Longrightarrow> rb_state c = RSB_STORING \<and> rb_pending (snd (rsb_admission d c)) = rb_pending c"
  using guard_result(2) [of d c] admission_result(2) [of d c] by auto

lemma quiet_bodies:
  "quiet c (snd (snd (select_body bp mode first a u c)))" "quiet c (snd (snd (capacity_body bp d a out c)))" "quiet c (snd (snd (get_status_body a st c)))"
proof -
  show "quiet c (snd (snd (select_body bp mode first a u c)))"
    using quiet_clean [of c] by (auto simp: select_body_def Let_def case_prod_beta quiet_def)
  show "quiet c (snd (snd (capacity_body bp d a out c)))"
    by (auto simp: capacity_body_def Let_def case_prod_beta quiet_def rsb_failed_def guard_result(1) admission_result(1) dest!: checks_storing split: option.split)
  show "quiet c (snd (snd (get_status_body a st c)))" by (simp add: get_status_body_def)
qed

section \<open>What the bridge keeps of its store\<close>

definition owns :: "('e ros_context \<Rightarrow> bool) \<Rightarrow> nat \<Rightarrow> ('e, 'f) rsb_context \<Rightarrow> bool" where
  "owns I a c \<longleftrightarrow> (\<exists>s. rb_store c = Ptr a s \<and> I s \<and> (rb_state c = RSB_STORING \<longrightarrow> stores_for (rb_pending c) s))"

definition rests :: "('e ros_context \<Rightarrow> bool) \<Rightarrow> nat \<Rightarrow> ('e, 'f) rsb_context \<Rightarrow> bool" where
  "rests I a c \<longleftrightarrow> owns I a c \<and> rb_state c \<noteq> RSB_STORING"

lemma owns_quiet: "owns I a c \<Longrightarrow> quiet c s \<Longrightarrow> owns I a s"
  by (auto simp: owns_def quiet_def)

lemma rests_quiet: "rests I a c \<Longrightarrow> quiet c s \<Longrightarrow> rests I a s"
  by (auto simp: rests_def owns_def quiet_def)

lemma rests_owns: "rests I a c \<Longrightarrow> owns I a c"
  by (simp add: rests_def)

lemma rests_checks [simp]:
  "rests I a c \<Longrightarrow> rests I a (snd (rsb_guard d c))" "rests I a c \<Longrightarrow> rests I a (snd (rsb_admission d c))" "owns I a c \<Longrightarrow> rests I a (snd (rsb_failed rc c))"
  "rests I a c \<Longrightarrow> st \<noteq> RSB_STORING \<Longrightarrow> rests I a (c\<lparr>rb_state := st\<rparr>)"
  using quiet_checks rests_quiet [of I a c] by (blast, blast) (auto simp: rests_def owns_def rsb_failed_def)

lemma rests_failed [simp]: "rests I a c \<Longrightarrow> rests I a (snd (rsb_failed rc c))"
  by (simp add: rests_owns)

lemma owns_gate [simp]: "owns I a (c\<lparr>rb_gate := g\<rparr>) = owns I a c" "owns I a (c\<lparr>rb_cancelled := g\<rparr>) = owns I a c"
  by (simp_all add: owns_def)

lemma locked_owns:
  assumes "owns I a c" and "\<And>c. owns I a c \<Longrightarrow> owns I a (snd (snd (body ca out c)))"
  shows "\<exists>s. snd (drop_out (rsb_locked refusal body out (Ptr ca c))) = Ptr ca s \<and> owns I a s"
  using assms(1) assms(2) [of "c\<lparr>rb_gate := 1\<rparr>"] by (auto simp: drop_out_def Let_def case_prod_beta)

context store_keeps
begin

lemma call_rests:
  assumes "rests I a c" and "rb_store s = snd (ros_exec1 opus call (rb_store c))" and "rb_state s = rb_state c"
  shows "rests I a s"
proof -
  obtain x where "rb_store c = Ptr a x" "I x" using assms(1) by (auto simp: rests_def owns_def)
  with exec1_keeps [of x call a] assms show ?thesis by (auto simp: rests_def owns_def)
qed

lemmas call_rest = call_rests [of a c "c\<lparr>rb_store := st\<rparr>" for a c st, simplified]

lemma calls_rest [simp]:
  assumes "rests I a c"
  shows "rests I a (c\<lparr>rb_store := snd (ros_reserve bp m f d (rb_store c))\<rparr>)" "rests I a (c\<lparr>rb_store := snd (ros_step (rb_store c))\<rparr>)"
    "rests I a (c\<lparr>rb_store := snd (ros_finish (rb_store c))\<rparr>)" "rests I a (c\<lparr>rb_store := snd (ros_finalize fp d (rb_store c))\<rparr>)"
    "rests I a (c\<lparr>rb_store := snd (snd (ros_take_final_receipt out (rb_store c)))\<rparr>)" "rests I a (c\<lparr>rb_store := snd (snd (ros_take_segment_receipt r (rb_store c)))\<rparr>)"
  using call_rest [OF assms, of _ "RosReserve bp m f d"] call_rest [OF assms, of _ RosStep] call_rest [OF assms, of _ RosFinish]
    call_rest [OF assms, of _ "RosFinalize fp d"] call_rest [OF assms, of _ "RosTakeFinal out"] call_rest [OF assms, of _ "RosTakeSegment r"]
  by (simp_all add: case_prod_beta del: ros_reserve.simps)

lemma steps_rest [simp]: "rests I a c \<Longrightarrow> rests I a (snd (root_steps xs d c))"
  by (induction xs arbitrary: c) (simp_all add: Let_def case_prod_beta)

lemma reserve_rests [simp]: "rests I a c \<Longrightarrow> rests I a (snd (rsb_reserve_finish d c))"
  by (simp add: rsb_reserve_finish_def Let_def case_prod_beta del: root_steps.simps)

lemma take_rests: "rests I a c \<Longrightarrow> rests I a (snd (snd (finalize_take d out c)))"
  by (simp add: finalize_take_def uncertain_def Let_def case_prod_beta)

lemma rests_bodies:
  assumes "owns I a c"
  shows "owns I a (snd (snd (rsb_reserve_body bp d ca u c)))" "owns I a (snd (snd (rsb_finalize_body fp d ca out c)))"
proof -
  have f: "rests I a c" if "rb_state c = RSB_SELECTED \<or> rb_state c = RSB_ACTIVE" using assms that by (auto simp: rests_def)
  have w: "rests I a x \<Longrightarrow> owns I a x" for x by (rule rests_owns)
  show "owns I a (snd (snd (rsb_reserve_body bp d ca u c)))"
    by (cases "rb_state c = RSB_SELECTED")
      (use assms f in \<open>simp_all add: rsb_reserve_body_def uncertain_def Let_def case_prod_beta w del: root_steps.simps ros_reserve.simps\<close>)
  show "owns I a (snd (snd (rsb_finalize_body fp d ca out c)))"
    by (cases "rb_state c = RSB_ACTIVE")
      (use assms f in \<open>simp_all add: rsb_finalize_body_def uncertain_def Let_def case_prod_beta w take_rests del: root_steps.simps ros_finalize.simps\<close>)
qed

lemma step_owns:
  assumes "owns I a c"
  shows "owns I a (c\<lparr>rb_store := snd (ros_step (rb_store c))\<rparr>)"
proof -
  obtain s where s: "rb_store c = Ptr a s" "I s" "rb_state c = RSB_STORING \<longrightarrow> stores_for (rb_pending c) s" using assms by (auto simp: owns_def)
  obtain t where t: "snd (ros_step (Ptr a s)) = Ptr a t" "I t" using exec1_keeps [OF s(2), of RosStep a] by auto
  have "stores_for b s \<Longrightarrow> stores_for b t" for b
    using t(1) step_stores_for [of b "s\<lparr>oc_gate := 1\<rparr>"] by (auto simp: ros_step_def Let_def case_prod_beta split: if_splits)
  then show ?thesis using s t by (auto simp: owns_def)
qed

lemma advance_owns: "owns I a c \<Longrightarrow> owns I a (snd (snd (advance_body ca u c)))"
proof -
  assume "owns I a c"
  then have g: "owns I a (snd (rsb_guard d c))" for d by (rule owns_quiet) simp
  have s: "owns I a (snd (rsb_guard e ((snd (rsb_guard d c))\<lparr>rb_store := snd (ros_step (rb_store (snd (rsb_guard d c))))\<rparr>)))" for d e
    by (rule owns_quiet [OF step_owns [OF g] quiet_checks(1)])
  then show ?thesis using g \<open>owns I a c\<close> by (simp add: advance_body_def Let_def case_prod_beta rests_owns)
qed

lemma poll_owns:
  assumes "owns I a c"
  shows "owns I a (snd (snd (poll_body bp d ca out c)))"
proof -
  have q: "owns I a (snd (rsb_guard d x))" "owns I a (snd (rsb_admission d x))" "owns I a (snd (both_guards d x))" if "owns I a x" for x d
    by (rule owns_quiet [OF that], simp)+
  have t: "owns I a (snd (snd (poll_take d out x)))" if x: "owns I a x" for x
  proof -
    obtain s where s: "rb_store x = Ptr a s" "I s" using x by (auto simp: owns_def)
    obtain r where r: "snd (snd (ros_take_segment_receipt (aside (Ptr a s) receipt_none) (Ptr a s))) = Ptr a r" "I r"
      using exec1_keeps [OF s(2), of "RosTakeSegment (aside (Ptr a s) receipt_none)" a] by (auto simp: case_prod_beta)
    show ?thesis using r by (auto simp: both_result(1) poll_take_def uncertain_def rsb_failed_def Let_def case_prod_beta owns_def s)
  qed
  show ?thesis using assms by (auto simp: poll_body_def uncertain_def Let_def case_prod_beta q t rests_owns)
qed

lemma submit_owns:
  assumes "owns I a c"
  shows "owns I a (snd (snd (submit_body opus bp pp n d ca out c)))"
proof -
  have ow: "owns I a (snd (snd (submit_body opus bp pp n d ca out c)))" if st: "rb_state c = RSB_ACTIVE" and ok: "fst (rsb_admission d c) = 0"
  proof -
    let ?b = "snd (rsb_admission d c)"
    let ?c = "?b\<lparr>rb_pending := pt bp, rb_pending_valid := 1, rb_job_deadline := d, rb_state := RSB_STORING\<rparr>"
    obtain s where s: "rb_store c = Ptr a s" "I s" using assms by (auto simp: owns_def)
    define r where "r = (if rb_deferred_seal ?c \<noteq> 0 then ros_prepare_deferred opus bp pp n d (Ptr a s) else ros_prepare opus bp pp n d (Ptr a s))"
    obtain t where t: "snd r = Ptr a t" "I t"
      using exec1_keeps [OF s(2), of "RosPrepare bp pp n d" a] exec1_keeps [OF s(2), of "RosPrepareDeferred bp pp n d" a]
      by (cases "rb_deferred_seal ?c = 0") (auto simp: r_def simp del: ros_prepare.simps ros_prepare_deferred.simps)
    have f: "stores_for (pt bp) t" if "fst r = ROS_PENDING"
      using t(1) that prepare_stores_for [of opus _ a bp pp n d "s\<lparr>oc_gate := 1\<rparr>"]
      by (auto simp: r_def Let_def case_prod_beta prod_eq_iff split: if_splits)
    have rb: "rb_store ?b = Ptr a s" using admission_result(1) [of d c] s by simp
    let ?g = "rsb_guard d (?c\<lparr>rb_store := snd r\<rparr>)"
    have "owns I a (if fst ?g \<noteq> 0 then snd ?g else if fst r = ROS_FULL then (snd ?g)\<lparr>rb_pending := es_zero, rb_pending_valid := 0, rb_job_deadline := 0, rb_state := RSB_ACTIVE\<rparr>
        else if fst r \<noteq> ROS_PENDING then snd (rsb_failed (fst r) (snd ?g)) else snd ?g)"
      using guard_result [of d "?c\<lparr>rb_store := snd r\<rparr>"] t f by (auto simp: owns_def rsb_failed_def)
    then show ?thesis
      using st ok assms rb unfolding r_def
      by (auto simp: submit_body_def uncertain_def Let_def case_prod_beta simp del: ros_prepare.simps ros_prepare_deferred.simps split: if_splits)
  qed
  moreover have "owns I a (snd (rsb_admission d c))" by (rule owns_quiet [OF assms]) simp
  ultimately show ?thesis
    using assms by (cases "rb_state c = RSB_ACTIVE \<and> fst (rsb_admission d c) = 0")
      (auto simp: submit_body_def uncertain_def Let_def case_prod_beta rests_owns simp del: ros_prepare.simps ros_prepare_deferred.simps)
qed

lemma bridge_exec1:
  assumes o: "owns I a c"
  shows "\<exists>s. snd (rsb_exec1 opus call (Ptr ca c)) = Ptr ca s \<and> owns I a s"
proof -
  note l = locked_owns [OF o] and q = owns_quiet [OF _ quiet_bodies(1)] owns_quiet [OF _ quiet_bodies(2)] owns_quiet [OF _ quiet_bodies(3)]
  show ?thesis
  proof (cases call)
    case RsbCancel
    then show ?thesis using o by simp
  next
    case (RsbPoll bp d out)
    have "\<exists>s. snd (drop_out (rsb_locked r (poll_body bp d) x (Ptr ca c))) = Ptr ca s \<and> owns I a s" for r x by (rule l) (rule poll_owns)
    then show ?thesis using o RsbPoll by (auto simp: drop_out_def simp del: rsb_locked.simps)
  qed (simp_all add: rsb_select_def rsb_capacity_def rsb_reserve_def rsb_submit_def rsb_advance_def rsb_finalize_def rsb_get_status_def l q rests_bodies
      submit_owns advance_owns del: rsb_locked.simps)
qed

lemma bridge_exec: "owns I a c \<Longrightarrow> \<exists>s. rsb_exec opus calls (Ptr ca c) = Ptr ca s \<and> owns I a s"
proof (induction calls arbitrary: c)
  case (Cons call calls)
  then show ?case using bridge_exec1 [of a c call ca] by auto
qed simp

end

section \<open>Receipts\<close>

definition rsb_boot :: "bool \<Rightarrow> 'e ros_context ptr \<Rightarrow> ('f \<Rightarrow> u64 \<times> 'f) option \<Rightarrow> 'f \<Rightarrow> ('e, 'f) rsb_context ptr \<Rightarrow> int \<times> ('e, 'f) rsb_context ptr" where
  "rsb_boot deferred st now f c = (if deferred then rsb_init_deferred_seal st now f c else rsb_init st now f c)"

lemma boot_owns:
  assumes "rsb_boot deferred (Ptr a s) now f (Ptr ca x) = (RSB_OK, Ptr ca c)" and "I s"
  shows "owns I a c"
  using assms status_same [of "Ptr a s"]
  by (auto simp: rsb_boot_def rsb_init_deferred_seal_def owns_def rsb_initial_def Let_def case_prod_beta split: if_splits)

lemma same_eq: "rsb_same b b' \<Longrightarrow> b = b'"
  by (cases b; cases b') (simp add: rsb_same_def)

lemma poll_body_receipt:
  assumes "poll_body bp d ca out c = (RP_IO_OK, Ptr oa r, c')"
  shows "rb_state c = RSB_STORING \<and> rsb_same (pt bp) (rb_pending c) \<and>
    (\<exists>st. ros_take_segment_receipt (aside (rb_store c) receipt_none) (rb_store c) = (ROS_OK, Ptr (addr (aside (rb_store c) receipt_none)) r, st))"
proof -
  have t: "\<exists>st. ros_take_segment_receipt (aside (rb_store x) receipt_none) (rb_store x) = (ROS_OK, Ptr (addr (aside (rb_store x) receipt_none)) r, st)"
    if x: "fst (poll_take d out x) = RP_IO_OK" "fst (snd (poll_take d out x)) = Ptr oa r" for x
  proof -
    let ?o = "ros_take_segment_receipt (aside (rb_store x) receipt_none) (rb_store x)"
    have "fst ?o = 0" "pt (fst (snd ?o)) = r" using x by (auto simp: poll_take_def uncertain_def Let_def case_prod_beta split: if_splits)
    then show ?thesis by (cases "rb_store x") (auto simp: ros_take_segment_receipt_def prod_eq_iff split: if_splits)
  qed
  have "fst (poll_body bp d ca out c) = RP_IO_OK" "fst (snd (poll_body bp d ca out c)) = Ptr oa r" using assms by simp_all
  moreover define x where "x = snd (both_guards d ((snd (rsb_guard (rb_job_deadline (snd (rsb_admission d c))) (snd (rsb_admission d c))))\<lparr>rb_store := rb_store c\<rparr>))"
  moreover have "rb_store x = rb_store c" by (simp add: x_def both_result(1))
  ultimately show ?thesis
    using t [of x] by (auto simp: poll_body_def uncertain_def Let_def case_prod_beta guard_result(1) admission_result(1) split: if_splits)
qed

lemma poll_receipt:
  assumes "rsb_poll bp d out (Ptr ca c) = (RP_IO_OK, Ptr oa r, c')"
  shows "rb_state c = RSB_STORING \<and> rsb_same (pt bp) (rb_pending c) \<and>
    (\<exists>o1 b st. ros_take_segment_receipt o1 (rb_store c) = (ROS_OK, Ptr b r, st))"
proof -
  obtain s where "poll_body bp d ca (Ptr (addr out) receipt_none) (c\<lparr>rb_gate := 1\<rparr>) = (RP_IO_OK, Ptr oa r, s)"
    using assms by (auto simp: Let_def case_prod_beta prod_eq_iff split: if_splits)
  from poll_body_receipt [OF this] show ?thesis by auto
qed

text \<open>Claim C1.  A receipt through the bridge is durable and belongs to the segment it is asked for: for every port whose successful reads
  fill a page, every clock, every use of the store before the bridge takes it over and every sequence of bridge calls, \<open>rsb_poll\<close>
  returns a receipt for a binding only when the job of the store has exactly this identity and its log ends with the whole commit
  protocol; the receipt carries the header of the verified container and the slot is committed.\<close>

theorem bridge_receipt_durable:
  assumes "ros_started (logged p) capacity (Ptr a x) c" and "reads_fill p" and "ros_exec opus calls c = Ptr a s"
    and "rsb_boot deferred (Ptr a s) now f (Ptr ca y) = (RSB_OK, Ptr ca b)" and "rsb_exec opus bridge_calls (Ptr ca b) = Ptr ca b'"
    and "rsb_poll bp d out (Ptr ca b') = (RP_IO_OK, Ptr oa r, b'')"
  shows "\<exists>t. rb_store b' = Ptr a t \<and> sg_identity (oc_segment t) = pt bp \<and> suffix (commit_protocol t) (snd (oc_env t)) \<and> sealed_good t \<and>
    r = \<lparr>sr_durable = 1, sr_es_header = part 0 128 (oc_container t)\<rparr> \<and> slot_state t (sg_slot (oc_segment t)) = SLOT_COMMIT"
proof -
  note o = boot_owns [OF assms(4), of "\<lambda>c. store_ok (logged p) (unat capacity) (\<lambda>e. True) c \<and> (reads_fill p \<longrightarrow> journalled c)",
      OF started_journalled [OF assms(1-3)]]
  from recorded.bridge_exec [OF o, of opus bridge_calls ca] assms(2,5)
  obtain t where t: "rb_store b' = Ptr a t" "store_ok (logged p) (unat capacity) (\<lambda>e. True) t" "journalled t"
    "rb_state b' = RSB_STORING \<longrightarrow> stores_for (rb_pending b') t" by (auto simp: owns_def)
  obtain o1 k st where q: "rb_state b' = RSB_STORING" "rb_pending b' = pt bp" "ros_take_segment_receipt o1 (Ptr a t) = (ROS_OK, Ptr k r, st)"
    using poll_receipt [OF assms(6)] same_eq t(1) by metis
  have "ss_fault t = 0" "ss_job t = ROS_SEGMENT" using q(3) by (auto simp: ros_take_segment_receipt_def split: if_splits)
  then have "job_identity t = pt bp" using t(4) q(1,2) by (simp add: stores_for_def)
  then show ?thesis using receipt_journalled [OF t(2,3) q(3)] t(1) by blast
qed

end
