(* ===== verification/Bridge_Progress.thy ===== *)
theory Bridge_Progress
  imports Bridge_Durable
begin

text \<open>
  Progress through the bridge on a medium that keeps what is written, and a complete run: mount, select, reserve, submit, advance, poll.
\<close>

section \<open>Progress through the bridge\<close>

lemma rsb_exec_append: "rsb_exec opus (xs @ ys) c = rsb_exec opus ys (rsb_exec opus xs c)"
  by (induction xs arbitrary: c) simp_all

text \<open>A bridge that is neither faulted nor cancelled, with a clock that stands at \<open>t\<close>.\<close>

definition steady :: "u64 \<Rightarrow> ('e, 'f) rsb_context \<Rightarrow> bool" where
  "steady t c \<longleftrightarrow> rb_initialized c = RSB_MAGIC \<and> rb_cancelled c = 0 \<and> rb_state c \<noteq> RSB_FAULT \<and> rb_last_now c = t \<and> (\<forall>f. rb_now_ms c f = (t, f))"

lemma rsb_same_fields: "c\<lparr>rb_clock := rb_clock c\<rparr> = c" "rb_last_now c = t \<Longrightarrow> c\<lparr>rb_last_now := t\<rparr> = c" "c\<lparr>rb_store := rb_store c\<rparr> = c"
  "rb_gate c = 0 \<Longrightarrow> c\<lparr>rb_gate := 0\<rparr> = c"
  by (cases c; simp)+

lemma guard_steady: "steady t c \<Longrightarrow> t < d \<Longrightarrow> rsb_guard d c = (RSB_OK, c)"
  by (simp add: steady_def rsb_guard_def Let_def rsb_same_fields not_le [symmetric])

lemma admission_steady: "steady t c \<Longrightarrow> t < d \<Longrightarrow> d - t \<le> RSB_MAX_MS \<Longrightarrow> rsb_admission d c = (RSB_OK, c)"
  using guard_steady [of t c d] by (simp add: steady_def rsb_admission_def Let_def rsb_same_fields not_le [symmetric])

lemma steady_upd [simp]: "steady t (c\<lparr>rb_store := st\<rparr>) = steady t c" "steady t (c\<lparr>rb_gate := g\<rparr>) = steady t c"
  by (simp_all add: steady_def)

context kept_medium
begin

lemma bridge_advances:
  assumes b: "steady t c" "rb_gate c = 0" "rb_state c = RSB_STORING" "t < rb_job_deadline c" "rb_store c = Ptr a s"
    and s: "course s" "remaining s = Suc k" "oc_gate s = 0"
  obtains s' where "snd (rsb_exec1 opus RsbAdvance (Ptr ca c)) = Ptr ca (c\<lparr>rb_store := Ptr a s'\<rparr>)" and "course s'" and "remaining s' = k" and "oc_gate s' = 0"
    and "same_plan s s'"
proof -
  obtain rc s' where r: "ros_step (Ptr a s) = (rc, Ptr a s')" "rc = ROS_PENDING \<or> rc = ROS_READY" "course s'" "remaining s' = k" "oc_gate s' = 0" "same_plan s s'"
    using step_advances [OF s] .
  have "advance_body ca () (c\<lparr>rb_gate := 1\<rparr>) = (if rc = ROS_READY then RSB_READY else RSB_PENDING, (), c\<lparr>rb_gate := 1, rb_store := Ptr a s'\<rparr>)"
    using b r(1,2) guard_steady [of t "c\<lparr>rb_gate := 1\<rparr>"] guard_steady [of t "c\<lparr>rb_gate := 1, rb_store := Ptr a s'\<rparr>"] by (auto simp: advance_body_def)
  then have "snd (rsb_exec1 opus RsbAdvance (Ptr ca c)) = Ptr ca (c\<lparr>rb_store := Ptr a s'\<rparr>)"
    using b rsb_same_fields(4) [of "c\<lparr>rb_store := Ptr a s'\<rparr>"] by (simp add: rsb_advance_def drop_out_def steady_def)
  then show ?thesis using r that by blast
qed

lemma bridge_run:
  "steady t c \<Longrightarrow> rb_gate c = 0 \<Longrightarrow> rb_state c = RSB_STORING \<Longrightarrow> t < rb_job_deadline c \<Longrightarrow> rb_store c = Ptr a s \<Longrightarrow> course s \<Longrightarrow> remaining s = k \<Longrightarrow> oc_gate s = 0 \<Longrightarrow>
   \<exists>s'. rsb_exec opus (replicate k RsbAdvance) (Ptr ca c) = Ptr ca (c\<lparr>rb_store := Ptr a s'\<rparr>) \<and> course s' \<and> ss_ready s' \<noteq> 0 \<and> oc_gate s' = 0 \<and> same_plan s s'"
proof (induction k arbitrary: c s)
  case 0
  have "c\<lparr>rb_store := Ptr a s\<rparr> = c" using 0 rsb_same_fields(3) [of c] by simp
  then show ?case using 0 remaining_ready [of s] by (auto intro!: exI [of _ s])
next
  case (Suc k)
  from bridge_advances [OF Suc.prems(1-8), of opus ca]
  obtain s' where s': "snd (rsb_exec1 opus RsbAdvance (Ptr ca c)) = Ptr ca (c\<lparr>rb_store := Ptr a s'\<rparr>)" "course s'" "remaining s' = k" "oc_gate s' = 0" "same_plan s s'" .
  from Suc.IH [of "c\<lparr>rb_store := Ptr a s'\<rparr>" s'] Suc.prems s'(2-4)
  obtain u where u: "rsb_exec opus (replicate k RsbAdvance) (Ptr ca (c\<lparr>rb_store := Ptr a s'\<rparr>)) = Ptr ca (c\<lparr>rb_store := Ptr a u\<rparr>)" "course u" "ss_ready u \<noteq> 0" "oc_gate u = 0"
    "same_plan s' u" by auto
  have "rsb_exec opus (replicate (Suc k) RsbAdvance) (Ptr ca c) = Ptr ca (c\<lparr>rb_store := Ptr a u\<rparr>)"
    using s'(1) u(1) by (simp del: rsb_exec1.simps)
  then show ?case using u s'(5) same_plan_trans by blast
qed

end

lemma aside_external: "sizeof_ros_context \<le> UINTPTR_MAX - a \<Longrightarrow> 0 < n \<Longrightarrow> n < 0x10000 \<Longrightarrow> external a (aside (Ptr a s) x) n"
  by (auto simp: aside_def overlap_def UINTPTR_MAX_def)

lemma poll_ready:
  assumes b: "steady t c" "rb_gate c = 0" "rb_state c = RSB_STORING" "rb_pending c = pt bp" "t < rb_job_deadline c" "t < d" "d - t \<le> RSB_MAX_MS" "rb_store c = Ptr a s"
    and s: "oc_initialized s = ROS_MAGIC" "oc_gate s = 0" "ss_fault s = 0" "ss_job s = ROS_SEGMENT" "ss_ready s \<noteq> 0"
    and e: "rsb_external ca c out sizeof_rp_segment_receipt" "rsb_external ca c bp sizeof_es_binding" "\<not> clash out sizeof_rp_segment_receipt bp sizeof_es_binding"
  shows "\<exists>c'. rsb_poll bp d out (Ptr ca c) = (RP_IO_OK, Ptr (addr out) (oc_receipt s), c')"
proof -
  let ?c = "c\<lparr>rb_gate := 1\<rparr>"
  have st: "steady t (?c\<lparr>rb_store := x\<rparr>)" "steady t ?c" for x using b(1) by simp_all
  have g: "rsb_guard d' (?c\<lparr>rb_store := x\<rparr>) = (RSB_OK, ?c\<lparr>rb_store := x\<rparr>)" if "t < d'" for x d' using guard_steady [OF st(1) that] .
  have g': "rsb_guard d' ?c = (RSB_OK, ?c)" if "t < d'" for d' using guard_steady [OF st(2) that] .
  have a: "sizeof_ros_context \<le> UINTPTR_MAX - a" using e(1) b(8) by (cases out) (auto simp: overlap_def split: if_splits)
  have ss: "store_status (Ptr a s) = (ROS_OK, ros_status.truncate s, Ptr a s)"
    using s(1,2) aside_external [OF a, of sizeof_ros_status s status_zero]
    by (simp add: store_status_def ros_get_status_def gate_same Let_def ros_status.truncate_def del: external.simps)
  obtain u v where t: "ros_take_segment_receipt (aside (Ptr a s) receipt_none) (Ptr a s) = (ROS_OK, Ptr u (oc_receipt s), v)"
    using s aside_external [OF a, of sizeof_rp_segment_receipt s receipt_none] by (simp add: ros_take_segment_receipt_def del: external.simps)
  have w: "?c\<lparr>rb_store := Ptr a s\<rparr> = ?c" using b(8) rsb_same_fields(3) [of ?c] by simp
  have "\<exists>c'. poll_body bp d ca (Ptr (addr out) receipt_none) ?c = (RP_IO_OK, Ptr (addr out) (oc_receipt s), c')"
    using b s(3-5) ss t w g g' admission_steady [OF st(2) b(6,7)]
    by (simp add: poll_body_def poll_take_def both_guards_def rsb_same_def ros_status.truncate_def)
  then show ?thesis using b(1,2) e by (auto simp: steady_def)
qed

lemma rsb_external_store: "ptr_addr (rb_store b) = ptr_addr (rb_store c) \<Longrightarrow> rsb_external ca b x n = rsb_external ca c x n"
  by (cases x) simp_all

lemma rsb_external_gate: "rsb_external ca (c\<lparr>rb_gate := g\<rparr>) x n = rsb_external ca c x n"
  by (cases x) simp_all

lemma guard_ok:
  assumes "fst (rsb_guard d c) = 0" and "\<forall>f. rb_now_ms c f = (t, f)"
  shows "snd (rsb_guard d c) = c\<lparr>rb_last_now := t\<rparr> \<and> t < d \<and> rb_state c \<noteq> RSB_FAULT \<and> rb_cancelled c = 0"
  using assms by (auto simp: rsb_guard_def rsb_failed_def Let_def rsb_same_fields not_le split: if_splits)

lemma admission_ok:
  assumes "fst (rsb_admission d c) = 0" and "\<forall>f. rb_now_ms c f = (t, f)"
  shows "snd (rsb_admission d c) = c\<lparr>rb_last_now := t\<rparr> \<and> t < d \<and> d - t \<le> RSB_MAX_MS \<and> rb_state c \<noteq> RSB_FAULT \<and> rb_cancelled c = 0"
  using assms guard_ok [of d "c\<lparr>rb_last_now := t\<rparr>" t]
  by (auto simp: rsb_admission_def rsb_failed_def Let_def rsb_same_fields not_le not_less split: if_splits)

lemma submit_pending:
  assumes "rsb_submit opus bp pp n d out (Ptr ca c) = (RP_IO_PENDING, out', Ptr ca c')" and "\<forall>f. rb_now_ms c f = (t, f)" and "rb_deferred_seal c = 0"
    and "rb_store c = Ptr a s"
  obtains s' where "ros_prepare opus bp pp n d (Ptr a s) = (ROS_PENDING, Ptr a s')" and "steady t c'" and "rb_gate c' = 0" and "rb_state c' = RSB_STORING"
    and "rb_pending c' = pt bp" and "rb_job_deadline c' = d" and "t < d" and "d - t \<le> RSB_MAX_MS" and "rb_store c' = Ptr a s'"
    and "rsb_external ca c out sizeof_rp_segment_receipt" and "rsb_external ca c bp sizeof_es_binding" and "\<not> clash out sizeof_rp_segment_receipt bp sizeof_es_binding"
proof -
  let ?c = "c\<lparr>rb_gate := 1\<rparr>" and ?r = "ros_prepare opus bp pp n d (Ptr a s)"
  let ?x = "?c\<lparr>rb_last_now := t, rb_pending := pt bp, rb_pending_valid := 1, rb_job_deadline := d, rb_state := RSB_STORING\<rparr>"
  have i: "rb_initialized c = RSB_MAGIC" "rb_gate c = 0" using assms(1) by (auto simp: rsb_submit_def split: if_splits)
  have r: "fst (submit_body opus bp pp n d ca out ?c) = RP_IO_PENDING" "c' = (snd (snd (submit_body opus bp pp n d ca out ?c)))\<lparr>rb_gate := 0\<rparr>"
    using assms(1) i by (auto simp: rsb_submit_def Let_def case_prod_beta)
  have e: "rsb_external ca c out sizeof_rp_segment_receipt" "rsb_external ca c bp sizeof_es_binding" "\<not> clash out sizeof_rp_segment_receipt bp sizeof_es_binding"
    and z: "rb_state c = RSB_ACTIVE" "fst (rsb_admission d ?c) = 0"
    using r(1) by (auto simp: submit_body_def uncertain_def Let_def case_prod_beta rsb_external_gate split: if_splits simp del: ros_prepare.simps ros_prepare_deferred.simps rsb_external.simps)
  have y: "snd (rsb_admission d ?c) = ?c\<lparr>rb_last_now := t\<rparr>" "t < d" "d - t \<le> RSB_MAX_MS" "rb_cancelled c = 0"
    using admission_ok [OF z(2), of t] assms(2) by simp_all
  have q: "fst (rsb_guard d (?x\<lparr>rb_store := snd ?r\<rparr>)) = 0" "fst ?r = ROS_PENDING" "c' = (snd (rsb_guard d (?x\<lparr>rb_store := snd ?r\<rparr>)))\<lparr>rb_gate := 0\<rparr>"
    using r e z y(1) assms(3,4) by (auto simp: submit_body_def uncertain_def Let_def case_prod_beta rsb_external_gate split: if_splits simp del: ros_prepare.simps ros_prepare_deferred.simps rsb_external.simps)
  obtain s' where s': "?r = (ROS_PENDING, Ptr a s')" using q(2) by (auto split: if_splits prod.splits)
  have "c' = ?x\<lparr>rb_store := Ptr a s', rb_gate := 0\<rparr>" using q(3) guard_ok [OF q(1), of t] assms(2) s' by simp
  then show ?thesis using that [OF s'] e i y z(1) assms(2) by (simp add: steady_def)
qed

lemma storing_runs:
  assumes k: "kept_medium p mem now" and o: "store_ok p cap (\<lambda>e. True) s" and h: "sha_total (oc_hash s)"
    and b: "rsb_submit opus bp pp n d out (Ptr ca b) = (RP_IO_PENDING, out', Ptr ca b')" "\<forall>f. rb_now_ms b f = (t, f)" "rb_deferred_seal b = 0"
      "rb_store b = Ptr a s" "rb_store b' = Ptr a s'"
  shows "\<exists>s3 r b4. rsb_exec opus (replicate (2 * page_count s' + 8) RsbAdvance) (Ptr ca b') = Ptr ca (b'\<lparr>rb_store := Ptr a s3\<rparr>) \<and>
    rsb_poll bp d out (Ptr ca (b'\<lparr>rb_store := Ptr a s3\<rparr>)) = (RP_IO_OK, Ptr (addr out) r, b4) \<and> on_course p mem now s3 \<and> ss_ready s3 \<noteq> 0 \<and> same_plan s' s3"
proof -
  from submit_pending [OF b(1-4)] obtain u where u: "ros_prepare opus bp pp n d (Ptr a s) = (ROS_PENDING, Ptr a u)" "steady t b'" "rb_gate b' = 0"
    "rb_state b' = RSB_STORING" "rb_pending b' = pt bp" "rb_job_deadline b' = d" "t < d" "d - t \<le> RSB_MAX_MS" "rb_store b' = Ptr a u"
    "rsb_external ca b out sizeof_rp_segment_receipt" "rsb_external ca b bp sizeof_es_binding" "\<not> clash out sizeof_rp_segment_receipt bp sizeof_es_binding" .
  have c: "on_course p mem now s'" "remaining s' = 2 * page_count s' + 8" "oc_gate s' = 0" using prepared_course [OF k o u(1) h] u(9) b(5) by simp_all
  from kept_medium.bridge_run [OF k u(2-4) _ b(5) c, of opus ca] u(6,7)
  obtain s3 where s3: "rsb_exec opus (replicate (2 * page_count s' + 8) RsbAdvance) (Ptr ca b') = Ptr ca (b'\<lparr>rb_store := Ptr a s3\<rparr>)" "on_course p mem now s3"
    "ss_ready s3 \<noteq> 0" "oc_gate s3 = 0" "same_plan s' s3" by auto
  let ?b = "b'\<lparr>rb_store := Ptr a s3\<rparr>"
  have e: "rsb_external ca ?b out sizeof_rp_segment_receipt" "rsb_external ca ?b bp sizeof_es_binding"
    using u(10,11) b(4) by (simp_all add: rsb_external_store [of ?b b])
  have f: "oc_initialized s3 = ROS_MAGIC" "ss_fault s3 = 0" "ss_job s3 = ROS_SEGMENT" using s3(2) by (simp_all add: on_course_def timely_def)
  have "\<exists>b4. rsb_poll bp d out (Ptr ca ?b) = (RP_IO_OK, Ptr (addr out) (oc_receipt s3), b4)"
    by (rule poll_ready [of t]) (use u(2-8,12) e f s3 in \<open>simp_all del: rsb_external.simps\<close>)
  then show ?thesis using s3 by blast
qed

lemma bridge_store_ok:
  assumes "ros_started p capacity (Ptr a x) c" and "ros_exec opus calls c = Ptr a s" and "rsb_boot deferred (Ptr a s) clock f (Ptr ca y) = (RSB_OK, Ptr ca b)"
    and "rsb_exec opus bridge_calls (Ptr ca b) = Ptr ca b1" and "rb_store b1 = Ptr a s1"
  shows "store_ok p (unat capacity) (\<lambda>e. True) s1"
proof -
  obtain c0 where c0: "c = Ptr a c0" "store_ok p (unat capacity) (\<lambda>e. True) c0" using started_ok [OF assms(1), of "\<lambda>e. True"] by auto
  from any.calls.exec_keeps [OF c0(2), of opus calls a] c0 assms(2) have "store_ok p (unat capacity) (\<lambda>e. True) s" by auto
  from any.calls.bridge_exec [OF boot_owns [OF assms(3), of "store_ok p (unat capacity) (\<lambda>e. True)", OF this], of opus bridge_calls ca] assms(4,5)
  show ?thesis by (auto simp: owns_def)
qed


section \<open>A complete run\<close>

lemma demo_status: "oc_initialized c = ROS_MAGIC \<Longrightarrow> oc_gate c = 0 \<Longrightarrow> store_status (Ptr 0x10000 c) = (ROS_OK, ros_status.truncate c, Ptr 0x10000 c)"
  by (simp add: store_status_def ros_get_status_def aside_def overlap_def UINTPTR_MAX_def gate_same Let_def ros_status.truncate_def)

definition demo_bridge :: "rsb_state \<Rightarrow> es_binding \<Rightarrow> es_binding \<Rightarrow> u64 \<Rightarrow> 'e ros_context \<Rightarrow> ('e, unit) rsb_context" where
  "demo_bridge state session pending deadline c =
     \<lparr>rb_gate = 0, rb_cancelled = 0, rb_initialized = RSB_MAGIC, rb_state = state, rb_mode = RP_MANUAL, rb_pending_valid = (if deadline = 0 then 0 else 1),
      rb_deferred_seal = 0, rb_error = 0, rb_store = Ptr 0x10000 c, rb_now_ms = (\<lambda>f. (10, f)), rb_clock = (), rb_first_sample = 0, rb_last_now = 10,
      rb_job_deadline = deadline, rb_session = session, rb_pending = pending\<rparr>"

lemma demo_bridge_fields [simp]:
  "rb_gate (demo_bridge state session pending deadline c) = 0" "rb_cancelled (demo_bridge state session pending deadline c) = 0"
  "rb_initialized (demo_bridge state session pending deadline c) = RSB_MAGIC" "rb_state (demo_bridge state session pending deadline c) = state"
  "rb_mode (demo_bridge state session pending deadline c) = RP_MANUAL" "rb_deferred_seal (demo_bridge state session pending deadline c) = 0"
  "rb_store (demo_bridge state session pending deadline c) = Ptr 0x10000 c" "rb_first_sample (demo_bridge state session pending deadline c) = 0"
  "rb_job_deadline (demo_bridge state session pending deadline c) = deadline" "rb_session (demo_bridge state session pending deadline c) = session"
  "rb_pending (demo_bridge state session pending deadline c) = pending"
  "(demo_bridge state session pending deadline c)\<lparr>rb_store := Ptr 0x10000 s\<rparr> = demo_bridge state session pending deadline s"
  "(demo_bridge state session pending deadline c)\<lparr>rb_gate := g, rb_store := Ptr 0x10000 s\<rparr> = (demo_bridge state session pending deadline s)\<lparr>rb_gate := g\<rparr>"
  by (simp_all add: demo_bridge_def)

lemma demo_steady: "state \<noteq> RSB_FAULT \<Longrightarrow> steady 10 (demo_bridge state session pending deadline c)"
  by (simp add: steady_def demo_bridge_def)

lemma demo_checks [simp]:
  "state \<noteq> RSB_FAULT \<Longrightarrow> rsb_guard 20 ((demo_bridge state session pending deadline c)\<lparr>rb_gate := g\<rparr>) = (RSB_OK, (demo_bridge state session pending deadline c)\<lparr>rb_gate := g\<rparr>)"
  "state \<noteq> RSB_FAULT \<Longrightarrow> rsb_admission 20 ((demo_bridge state session pending deadline c)\<lparr>rb_gate := g\<rparr>) =
    (RSB_OK, (demo_bridge state session pending deadline c)\<lparr>rb_gate := g\<rparr>)"
  by (rule guard_steady [of 10]; simp add: demo_steady) (rule admission_steady [of 10]; simp add: demo_steady)

lemma demo_bridge_boot:
  assumes "demo_like c"
  shows "rsb_boot False (Ptr 0x10000 c) (Some (\<lambda>f. (10, f))) () (Ptr 0x9000 ((demo_bridge RSB_IDLE es_zero es_zero 0 c)\<lparr>rb_initialized := 0\<rparr>)) =
    (RSB_OK, Ptr 0x9000 (demo_bridge RSB_IDLE es_zero es_zero 0 c))"
  using assms demo_status [of c] by (simp add: rsb_boot_def demo_like_def store_unclean_def rsb_initial_def demo_bridge_def overlap_def UINTPTR_MAX_def ros_status.truncate_def)

lemma demo_select:
  assumes "demo_like c"
  shows "snd (rsb_exec1 demo_opus (RsbSelect (Ptr 0xd0000 demo_recording) RP_MANUAL 0) (Ptr 0x9000 (demo_bridge RSB_IDLE es_zero es_zero 0 c))) =
    Ptr 0x9000 (demo_bridge RSB_SELECTED demo_recording es_zero 0 c)"
  using assms demo_status [of c]
  by (simp add: rsb_select_def drop_out_def select_body_def clean_store_def demo_like_def store_unclean_def demo_bridge_def overlap_def UINTPTR_MAX_def
      ros_status.truncate_def demo_recording_def demo_volume_def)


lemma demo_reserve_bridge:
  assumes "demo_like c" and "oc_active_root c = 8" and "oc_records c = replicate 32 ros_record_zero"
  shows "\<exists>u. snd (rsb_exec1 demo_opus (RsbReserve (Ptr 0xd0000 demo_recording) 20) (Ptr 0x9000 (demo_bridge RSB_SELECTED demo_recording es_zero 0 c))) =
      Ptr 0x9000 (demo_bridge RSB_ACTIVE demo_recording es_zero 0 u) \<and> demo_like u \<and> oc_active_root u = 0 \<and>
      oc_records u = (replicate 32 ros_record_zero)[0 := reserve_record demo_recording RP_MANUAL 0]"
proof -
  obtain s c1 c2 t u where r: "ros_reserve (Ptr 0xd0000 demo_recording) RP_MANUAL 0 20 (Ptr 0x10000 c) = (ROS_PENDING, Ptr 0x10000 s)"
    "ros_step (Ptr 0x10000 s) = (ROS_PENDING, Ptr 0x10000 c1)" "ros_step (Ptr 0x10000 c1) = (ROS_PENDING, Ptr 0x10000 c2)"
    "ros_step (Ptr 0x10000 c2) = (ROS_READY, Ptr 0x10000 t)" "ros_finish (Ptr 0x10000 t) = (ROS_OK, Ptr 0x10000 u)"
    and u: "demo_like u" "oc_active_root u = 0" "oc_records u = (replicate 32 ros_record_zero)[0 := reserve_record demo_recording RP_MANUAL 0]"
    using demo_reserved [OF assms] by metis
  let ?b = "\<lambda>x. (demo_bridge RSB_SELECTED demo_recording es_zero 0 x)\<lparr>rb_gate := 1\<rparr>"
  have e: "rsb_external 0x9000 (?b c) (Ptr 0xd0000 demo_recording) sizeof_es_binding" by (simp add: overlap_def UINTPTR_MAX_def)
  have "rsb_reserve_body (Ptr 0xd0000 demo_recording) 20 0x9000 () (?b c) = (RP_IO_OK, (), (?b u)\<lparr>rb_state := RSB_ACTIVE\<rparr>)"
    using e r by (simp add: rsb_reserve_body_def rsb_reserve_finish_def rsb_same_def del: ros_reserve.simps rsb_external.simps)
  then have "snd (rsb_exec1 demo_opus (RsbReserve (Ptr 0xd0000 demo_recording) 20) (Ptr 0x9000 (demo_bridge RSB_SELECTED demo_recording es_zero 0 c))) =
      Ptr 0x9000 (demo_bridge RSB_ACTIVE demo_recording es_zero 0 u)"
    by (simp add: rsb_reserve_def drop_out_def demo_bridge_def)
  with u show ?thesis by blast
qed

lemma demo_submit_bridge:
  assumes "ros_prepare demo_opus (Ptr 0xd0000 demo_segment) (Ptr 0xe0000 demo_plain) 216 20 (Ptr 0x10000 c) = (ROS_PENDING, Ptr 0x10000 s)"
  shows "rsb_submit demo_opus (Ptr 0xd0000 demo_segment) (Ptr 0xe0000 demo_plain) 216 20 (Ptr 0xf0000 receipt_none)
      (Ptr 0x9000 (demo_bridge RSB_ACTIVE demo_recording es_zero 0 c)) =
    (RP_IO_PENDING, Ptr 0xf0000 receipt_none, Ptr 0x9000 (demo_bridge RSB_STORING demo_recording demo_segment 20 s))"
proof -
  let ?b = "(demo_bridge RSB_ACTIVE demo_recording es_zero 0 c)\<lparr>rb_gate := 1\<rparr>" and ?s = "(demo_bridge RSB_STORING demo_recording demo_segment 20 s)\<lparr>rb_gate := 1\<rparr>"
  have f: "?b\<lparr>rb_pending := demo_segment, rb_pending_valid := 1, rb_job_deadline := 20, rb_state := RSB_STORING, rb_store := Ptr 0x10000 s\<rparr> = ?s"
    by (simp add: demo_bridge_def)
  have e: "rsb_external 0x9000 ?b (Ptr 0xd0000 demo_segment) sizeof_es_binding" "rsb_external 0x9000 ?b (Ptr 0xf0000 receipt_none) sizeof_rp_segment_receipt"
    "rsb_external 0x9000 ?b (Ptr 0xe0000 demo_plain) 216" by (simp_all add: overlap_def UINTPTR_MAX_def)
  have "submit_body demo_opus (Ptr 0xd0000 demo_segment) (Ptr 0xe0000 demo_plain) 216 20 0x9000 (Ptr 0xf0000 receipt_none) ?b = (RP_IO_PENDING, Ptr 0xf0000 receipt_none, ?s)"
    using e f assms by (simp add: submit_body_def overlap_def UINTPTR_MAX_def del: ros_prepare.simps rsb_external.simps)
  then show ?thesis by (simp add: rsb_submit_def demo_bridge_def)
qed

definition demo_calls :: "rsb_call list" where
  "demo_calls = [RsbSelect (Ptr 0xd0000 demo_recording) RP_MANUAL 0, RsbReserve (Ptr 0xd0000 demo_recording) 20]"

text \<open>The run up to the accepted submission: the mounted store \<open>c\<close>, the store \<open>u\<close> with the reservation, the store \<open>s\<close> with the job.\<close>

definition demo_chain :: "((u32 \<Rightarrow> bytes option) \<times> ros_event list) ros_context \<Rightarrow> ((u32 \<Rightarrow> bytes option) \<times> ros_event list) ros_context \<Rightarrow>
    ((u32 \<Rightarrow> bytes option) \<times> ros_event list) ros_context \<Rightarrow> bool" where
  "demo_chain c u s \<longleftrightarrow> ros_exec demo_opus demo_mount (Ptr 0x10000 demo_blank) = Ptr 0x10000 c \<and>
    rsb_boot False (Ptr 0x10000 c) (Some (\<lambda>f. (10, f))) () (Ptr 0x9000 ((demo_bridge RSB_IDLE es_zero es_zero 0 c)\<lparr>rb_initialized := 0\<rparr>)) =
      (RSB_OK, Ptr 0x9000 (demo_bridge RSB_IDLE es_zero es_zero 0 c)) \<and>
    rsb_exec demo_opus demo_calls (Ptr 0x9000 (demo_bridge RSB_IDLE es_zero es_zero 0 c)) = Ptr 0x9000 (demo_bridge RSB_ACTIVE demo_recording es_zero 0 u) \<and>
    rsb_submit demo_opus (Ptr 0xd0000 demo_segment) (Ptr 0xe0000 demo_plain) 216 20 (Ptr 0xf0000 receipt_none)
      (Ptr 0x9000 (demo_bridge RSB_ACTIVE demo_recording es_zero 0 u)) =
      (RP_IO_PENDING, Ptr 0xf0000 receipt_none, Ptr 0x9000 (demo_bridge RSB_STORING demo_recording demo_segment 20 s)) \<and> sha_total (oc_hash u)"

lemma demo_chain_run: "\<exists>c u s. demo_chain c u s"
proof -
  obtain c where c: "ros_exec demo_opus demo_mount (Ptr 0x10000 demo_blank) = Ptr 0x10000 c" "demo_like c" "oc_active_root c = 8"
    "oc_records c = replicate 32 ros_record_zero" using demo_mounted by blast
  obtain u where u: "snd (rsb_exec1 demo_opus (RsbReserve (Ptr 0xd0000 demo_recording) 20) (Ptr 0x9000 (demo_bridge RSB_SELECTED demo_recording es_zero 0 c))) =
      Ptr 0x9000 (demo_bridge RSB_ACTIVE demo_recording es_zero 0 u)" "demo_like u" "oc_active_root u = 0"
    "oc_records u = (replicate 32 ros_record_zero)[0 := reserve_record demo_recording RP_MANUAL 0]" using demo_reserve_bridge [OF c(2-4)] by blast
  obtain s where s: "ros_prepare demo_opus (Ptr 0xd0000 demo_segment) (Ptr 0xe0000 demo_plain) 216 20 (Ptr 0x10000 u) = (ROS_PENDING, Ptr 0x10000 s)"
    using demo_prepared [OF u(2-4)] by blast
  have "rsb_exec demo_opus demo_calls (Ptr 0x9000 (demo_bridge RSB_IDLE es_zero es_zero 0 c)) = Ptr 0x9000 (demo_bridge RSB_ACTIVE demo_recording es_zero 0 u)"
    using demo_select [OF c(2)] u(1) by (simp add: demo_calls_def del: rsb_exec1.simps)
  moreover have "sha_total (oc_hash u)" using u(2) ones_total by (simp add: demo_like_def)
  ultimately have "demo_chain c u s" using c(1) demo_bridge_boot [OF c(2)] demo_submit_bridge [OF s] unfolding demo_chain_def by (intro conjI)
  then show ?thesis by blast
qed

lemma demo_chainD:
  assumes "demo_chain c u s"
  shows "ros_exec demo_opus demo_mount (Ptr 0x10000 demo_blank) = Ptr 0x10000 c"
    "rsb_boot False (Ptr 0x10000 c) (Some (\<lambda>f. (10, f))) () (Ptr 0x9000 ((demo_bridge RSB_IDLE es_zero es_zero 0 c)\<lparr>rb_initialized := 0\<rparr>)) =
      (RSB_OK, Ptr 0x9000 (demo_bridge RSB_IDLE es_zero es_zero 0 c))"
    "rsb_exec demo_opus demo_calls (Ptr 0x9000 (demo_bridge RSB_IDLE es_zero es_zero 0 c)) = Ptr 0x9000 (demo_bridge RSB_ACTIVE demo_recording es_zero 0 u)"
    "rsb_submit demo_opus (Ptr 0xd0000 demo_segment) (Ptr 0xe0000 demo_plain) 216 20 (Ptr 0xf0000 receipt_none)
      (Ptr 0x9000 (demo_bridge RSB_ACTIVE demo_recording es_zero 0 u)) =
      (RP_IO_PENDING, Ptr 0xf0000 receipt_none, Ptr 0x9000 (demo_bridge RSB_STORING demo_recording demo_segment 20 s))"
    "sha_total (oc_hash u)" "\<forall>f. rb_now_ms (demo_bridge RSB_ACTIVE demo_recording es_zero 0 u) f = (10, f)"
    "rb_deferred_seal (demo_bridge RSB_ACTIVE demo_recording es_zero 0 u) = 0" "rb_store (demo_bridge RSB_ACTIVE demo_recording es_zero 0 u) = Ptr 0x10000 u"
    "rb_store (demo_bridge RSB_STORING demo_recording demo_segment 20 s) = Ptr 0x10000 s"
proof -
  show "\<forall>f. rb_now_ms (demo_bridge RSB_ACTIVE demo_recording es_zero 0 u) f = (10, f)" by (simp add: demo_bridge_def)
qed (use assms in \<open>simp_all only: demo_chain_def demo_bridge_fields\<close>)


theorem bridge_receipt_durable_witness:
  "\<exists>c u s b' r b'' t. demo_chain c u s \<and>
    rsb_exec demo_opus (replicate (2 * page_count s + 8) RsbAdvance) (Ptr 0x9000 (demo_bridge RSB_STORING demo_recording demo_segment 20 s)) = Ptr 0x9000 b' \<and>
    rsb_poll (Ptr 0xd0000 demo_segment) 20 (Ptr 0xf0000 receipt_none) (Ptr 0x9000 b') = (RP_IO_OK, Ptr 0xf0000 r, b'') \<and> rb_store b' = Ptr 0x10000 t \<and>
    sg_identity (oc_segment t) = demo_segment \<and> suffix (commit_protocol t) (snd (oc_env t))"
proof -
  obtain c u s where d: "demo_chain c u s" using demo_chain_run by blast
  note r = demo_chainD [OF d] and st = demo_started [OF logged_complete]
  note k = bridge_store_ok [OF st r(1-3,8)]
  obtain b' x b'' where p: "rsb_exec demo_opus (replicate (2 * page_count s + 8) RsbAdvance) (Ptr 0x9000 (demo_bridge RSB_STORING demo_recording demo_segment 20 s)) = Ptr 0x9000 b'"
    "rsb_poll (Ptr 0xd0000 demo_segment) 20 (Ptr 0xf0000 receipt_none) (Ptr 0x9000 b') = (RP_IO_OK, Ptr 0xf0000 x, b'')"
    using storing_runs [OF kept_log.kept_medium_axioms k r(5,4,6-9), unfolded ptr.sel] by blast
  let ?calls = "demo_calls @ RsbSubmit (Ptr 0xd0000 demo_segment) (Ptr 0xe0000 demo_plain) 216 20 (Ptr 0xf0000 receipt_none) # replicate (2 * page_count s + 8) RsbAdvance"
  have e: "rsb_exec demo_opus ?calls (Ptr 0x9000 (demo_bridge RSB_IDLE es_zero es_zero 0 c)) = Ptr 0x9000 b'"
    unfolding rsb_exec_append r(3) by (simp add: drop_out_def r(4) p(1))
  from bridge_receipt_durable [OF st mem_reads_fill r(1,2) e p(2), unfolded ptr.sel] p d show ?thesis by blast
qed

end
