(* ===== verification/Spec2Isabelle.thy ===== *)
theory Spec2Isabelle
  imports Control_Select Frame_Queue Host_Permit Pipeline Long_Control Durable_BLE Manifest Journal_Medium Device_Wire Recording_Control Rate_Wire Write_Rate_Wire Store_Retired Bridge_Progress
begin

text \<open>
  \<^bold>\<open>Verification of the OpenPendant firmware core.\<close>

  OpenPendant is a wearable recorder.  The firmware under \<^verbatim>\<open>src/usb_firmware/src\<close> captures audio frames, encodes and
  encrypts them into segments, stores the segments in an owned region of a NAND flash and lets a paired application control
  recordings and read the durable library.  Its core is written as pure C over callback tables, and that core is what this
  library models.  Each theory opens with a text that names its sources.

  \<^bold>\<open>Parts and theories.\<close>
  \<^item> \<^verbatim>\<open>Prelude\<close>: machine integers, byte buffers, endian fields, sentinels, the CRC loop, pointers with an address (for the NULL and
    overlap guards), the SHA-256 provider as a parameter, and a small calculus of postconditions (\<^verbatim>\<open>post\<close>) for stateful code.
  \<^item> Storage formats: \<^verbatim>\<open>Segment_Header\<close> (\<^verbatim>\<open>encrypted_segment_header.c\<close>), \<^verbatim>\<open>Owned_Page\<close> (\<^verbatim>\<open>owned_page.c\<close>), \<^verbatim>\<open>Volume_Descriptor\<close>
    (\<^verbatim>\<open>owned_volume_descriptor.c\<close>), \<^verbatim>\<open>Control_Record\<close> and \<^verbatim>\<open>Control_Select\<close> (\<^verbatim>\<open>owned_control_record.c\<close>: the record codec, the
    transition rule and the bank selector), \<^verbatim>\<open>Manifest\<close> (\<^verbatim>\<open>recording_manifest.c\<close>), and the extent descriptor in \<^verbatim>\<open>Device_Wire\<close>
    (\<^verbatim>\<open>recording_extent.c\<close>).
  \<^item> The control journal (\<^verbatim>\<open>owned_control_journal.c\<close>): \<^verbatim>\<open>Journal_Codec\<close> (page codec), \<^verbatim>\<open>Control_Journal\<close> (the state machine with every
    physical callback as a parameter), \<^verbatim>\<open>Journal_Leases\<close> (its invariant) and \<^verbatim>\<open>Journal_Medium\<close> (its properties).
  \<^item> The object store (\<^verbatim>\<open>recording_object_store.c\<close>): \<^verbatim>\<open>Object_Store\<close> (all entry points and job steps over a port of callbacks),
    \<^verbatim>\<open>Store_Calls\<close> (the contract of the port callbacks, locales \<^verbatim>\<open>port_frame\<close> and \<^verbatim>\<open>store_port\<close>), \<^verbatim>\<open>Store_Inv\<close> (the invariant of the
    context), \<^verbatim>\<open>Store_Jobs\<close> and \<^verbatim>\<open>Store_Bodies\<close> (every step and every call keeps it, locale \<^verbatim>\<open>store_keeps\<close>), \<^verbatim>\<open>Store_Properties\<close> and
    \<^verbatim>\<open>Store_Retired\<close> (its properties), \<^verbatim>\<open>Store_Commit\<close> (the commit protocol of a segment) and \<^verbatim>\<open>Store_Progress\<close> (progress on a medium
    that keeps what is written, locale \<^verbatim>\<open>kept_medium\<close>).
  \<^item> The store bridge (\<^verbatim>\<open>recording_store_bridge.c\<close>), through which the pipeline's callbacks use the object store: \<^verbatim>\<open>Store_Bridge\<close> (all
    entry points), \<^verbatim>\<open>Bridge_Receipt\<close> (sequences of calls, faults and cancellation), \<^verbatim>\<open>Bridge_Durable\<close> (every invariant of the store is kept
    below the bridge, and what a receipt means) and \<^verbatim>\<open>Bridge_Progress\<close> (progress and a complete run from a blank volume to a receipt).
  \<^item> Recording: \<^verbatim>\<open>Frame_Queue\<close> (\<^verbatim>\<open>recording_frame_queue.c\<close>), \<^verbatim>\<open>Pipeline\<close> (\<^verbatim>\<open>recording_pipeline.c\<close>), \<^verbatim>\<open>Recording_Control\<close>
    (\<^verbatim>\<open>recording_control.c\<close>, the coordinator of remote commands, the button and the worker) and \<^verbatim>\<open>Host_Permit\<close> (\<^verbatim>\<open>host_permit.c\<close>).
  \<^item> Wire formats: \<^verbatim>\<open>Long_Control\<close> (\<^verbatim>\<open>long_recording_control_codec.c\<close>), \<^verbatim>\<open>Durable_BLE\<close> (\<^verbatim>\<open>durable_ble_codec.c\<close>), device preferences
    and telemetry in \<^verbatim>\<open>Device_Wire\<close> (\<^verbatim>\<open>device_preferences.c\<close>, \<^verbatim>\<open>device_telemetry.c\<close>).
  \<^item> Device policy: \<^verbatim>\<open>Device_Policy\<close> (\<^verbatim>\<open>battery_power.c\<close>, \<^verbatim>\<open>button_gesture.h\<close>, \<^verbatim>\<open>recording_timing.h\<close>, \<^verbatim>\<open>mic_frame_math.h\<close>).
  \<^item> Bench transports: \<^verbatim>\<open>Wire_Transport\<close> (the helpers that \<^verbatim>\<open>nrr_wire.c\<close> and \<^verbatim>\<open>nwr_wire.c\<close> share), \<^verbatim>\<open>Wire_Session\<close> (the contract of a
    session), \<^verbatim>\<open>Rate_Wire\<close> (\<^verbatim>\<open>nrr_wire.c\<close>) and \<^verbatim>\<open>Write_Rate_Wire\<close> (\<^verbatim>\<open>nwr_wire.c\<close>).

  \<^bold>\<open>How the code is represented.\<close>  A struct is a \<^verbatim>\<open>record\<close> whose fields carry a prefix, an enum a \<^verbatim>\<open>datatype\<close>, a w-bit integer a word, a
  buffer a list of bytes.  An exported function keeps its pointer guards in the definition of its own name and its work in a
  definition with the suffix \<^verbatim>\<open>_body\<close> or in named branches.  Result codes are values, so every early return is a branch.  Callbacks
  (flash, codec, crypto, clock, console) are function arguments; they may return anything unless a theorem names a hypothesis on
  them.  Code that runs under a gate or lock is one function per gated section, and \<^verbatim>\<open>Recording_Control\<close> interleaves the sections of
  all operations in the step relation \<^verbatim>\<open>lrc_step\<close>.

  \<^bold>\<open>What the lemmas show.\<close>
  \<^item> Formats: a validator accepts exactly what the builder produces, one image per value (claims on \<^verbatim>\<open>es_header_*\<close>, \<^verbatim>\<open>owned_*_canonical\<close>,
    \<^verbatim>\<open>lc_*\<close>, \<^verbatim>\<open>durable_*\<close>, \<^verbatim>\<open>journal_page_canonical\<close>, \<^verbatim>\<open>extent_canonical\<close>), and the logical to physical map is injective.
  \<^item> Histories: control records and journal snapshots only move forward, no lease number is issued twice, a publication is current
    only after a verified read back, and on a working medium it succeeds.
  \<^item> Object store: for every port and every sequence of calls the context stays well typed, slots are accounted for exactly, no
    sector beyond the capacity is addressed, a fault is final and a deleted recording never comes back.  A
    segment receipt is issued only at the end of the complete commit protocol, and on a medium that keeps what is written a commit
    reaches it in a number of steps linear in the pages of the segment.  Through the
    bridge both hold end to end: \<^verbatim>\<open>rsb_poll\<close> returns a receipt only for the segment that was submitted and only when it is durable.
    After a cancellation or a fault the bridge leaves the store alone.
  \<^item> Recording: the frame queue refines an unbounded first-in first-out queue (locale \<^verbatim>\<open>fifo\<close>), the pipeline accounts for every
    sample, a permit is consumed once, and the coordinator starts an operation at most once and never loses a stop request under
    any interleaving.
  \<^item> Device: the battery lease, the gesture decoder, preferences and telemetry behave as documented within their bounds.
  \<^item> Transports: the locale \<^verbatim>\<open>counted_io\<close> bounds the callbacks of every exchange for any host, the locale \<^verbatim>\<open>rate_session\<close> turns the
    contract of a call into the release rule of the console; both are interpreted on the two transports.

  \<^bold>\<open>Bounds and termination.\<close>  All definitions are total functions.  The two transfer loops of the transports end because every round
  takes one of the 8192 attempts of its budget; the other loops are structural over lists or over index ranges of the sources
  (32 operations, 64 rows, 128 slots).  No fuel is used.

  \<^bold>\<open>Not modelled.\<close>  The Android application and host tools (another language); shell commands, board files, the Zephyr runtime and the NRF
  drivers (input and output around the core); the Dhara map, Opus and the PSA cryptography (third-party code, parameters here).
  Pure firmware code still to be modelled, in this order: the remaining host transports (\<^verbatim>\<open>npo_wire.c\<close>, \<^verbatim>\<open>nand_backup_wire.c\<close>,
  \<^verbatim>\<open>nand_qualification_wire.c\<close>) on \<^verbatim>\<open>Wire_Transport\<close>; \<^verbatim>\<open>recovery_authorizer.c\<close> and \<^verbatim>\<open>recording_configuration.c\<close>; the rest of the
  volume stack, from \<^verbatim>\<open>recording_catalog.c\<close> to \<^verbatim>\<open>recording_volume.c\<close>; the workers.
\<close>

end
